(* ===== verification/Prelude.thy ===== *)
theory Prelude
  imports Main "HOL-Library.Word" "HOL-Library.AList" "HOL-Library.Multiset"
begin

text \<open>
  Shared vocabulary of the development: machine integers, byte strings, the I/O errors of the
  Rust standard library that the modelled code distinguishes, the vector and hash-map
  operations the code uses, little-endian encoding, decimal numbers, and the lemmas about
  them that every component shares.
\<close>

unbundle bit_operations_syntax

section \<open>Types\<close>

type_synonym u8 = "8 word"
type_synonym u16 = "16 word"
type_synonym u32 = "32 word"
type_synonym u64 = "64 word"
type_synonym bytes = "u8 list"
type_synonym uuid = "128 word"

text \<open>
  A hash map is an association list without duplicate keys; lookup is \<open>map_of\<close>, insertion
  \<open>AList.update\<close>, removal \<open>AList.delete\<close>, mutation in place \<open>AList.map_entry\<close>.
\<close>

type_synonym ('k, 'v) dict = "('k \<times> 'v) list"

definition dict_ok :: "('k, 'v) dict \<Rightarrow> bool" where
  "dict_ok d \<longleftrightarrow> distinct (map fst d)"

datatype io_error =
    UnexpectedEof
  | InvalidData string
  | NotFound
  | OtherError string

named_theorems dict_simps "lookup after an operation on a hash map"
named_theorems vec_simps "vector operations"
named_theorems step_defs "definitions of the step functions of the state machines"

section \<open>Hash maps\<close>

lemma dict_ok_Nil [simp]: "dict_ok []"
  by (simp add: dict_ok_def)

lemma dict_ok_update [simp, intro]: "dict_ok d \<Longrightarrow> dict_ok (AList.update k v d)"
  by (simp add: dict_ok_def distinct_update)

lemma dict_ok_delete [simp, intro]: "dict_ok d \<Longrightarrow> dict_ok (AList.delete k d)"
  by (simp add: dict_ok_def distinct_delete)

lemma map_fst_map_entry [simp]: "map fst (AList.map_entry k f d) = map fst d"
  by (induction d) auto

lemma dict_ok_map_entry [simp, intro]: "dict_ok d \<Longrightarrow> dict_ok (AList.map_entry k f d)"
  by (simp add: dict_ok_def)

lemma map_of_update [dict_simps]:
  "map_of (AList.update k v d) k' = (if k' = k then Some v else map_of d k')"
  by (simp add: update_conv')

lemma map_of_delete_entry [dict_simps]:
  "map_of (AList.delete k d) k' = (if k' = k then None else map_of d k')"
  by (simp add: delete_conv')

lemma map_of_map_entry' [dict_simps]:
  "map_of (AList.map_entry k f d) k' =
     (if k' = k then map_option f (map_of d k) else map_of d k')"
  by (induction d) auto

lemma map_of_filter_ok:
  "dict_ok d \<Longrightarrow>
   map_of (filter P d) k =
     (case map_of d k of None \<Rightarrow> None | Some v \<Rightarrow> if P (k, v) then Some v else None)"
proof (induction d)
  case (Cons p d)
  obtain a b where p: "p = (a, b)" by (cases p)
  from Cons.prems have ok: "dict_ok d" and fresh: "a \<notin> fst ` set d"
    by (auto simp: dict_ok_def p)
  have absent: "map_of d a = None"
    using fresh by (simp add: map_of_eq_None_iff)
  show ?case
    using Cons.IH [OF ok] absent by (auto simp: p split: option.splits)
qed simp

lemma dict_ok_filter [simp, intro]: "dict_ok d \<Longrightarrow> dict_ok (filter P d)"
  by (induction d) (auto simp: dict_ok_def)

lemma map_of_map_values [dict_simps]:
  "map_of (map (\<lambda>(k, v). (k, f v)) d) k = map_option f (map_of d k)"
  by (induction d) auto

lemma dict_ok_map_values [simp]:
  "dict_ok (map (\<lambda>(k, v). (k, f v)) d) = dict_ok d"
  by (simp add: dict_ok_def comp_def case_prod_unfold)

lemma delete_absent: "map_of d k = None \<Longrightarrow> AList.delete k d = d"
  by (induction d) (auto split: if_splits)

lemma length_delete_present:
  "dict_ok d \<Longrightarrow> map_of d k = Some v \<Longrightarrow> Suc (length (AList.delete k d)) = length d"
proof (induction d)
  case (Cons p d)
  obtain a b where p: "p = (a, b)" by (cases p)
  show ?case
  proof (cases "a = k")
    case True
    with Cons.prems have "map_of d k = None"
      by (simp add: p dict_ok_def map_of_eq_None_iff)
    then show ?thesis by (simp add: p True delete_absent)
  next
    case False
    with Cons show ?thesis by (simp add: p dict_ok_def)
  qed
qed simp

section \<open>Vectors\<close>

text \<open>\<open>iter().position(p)\<close> and \<open>Vec::insert\<close>.\<close>

fun position :: "('a \<Rightarrow> bool) \<Rightarrow> 'a list \<Rightarrow> nat option" where
  "position p [] = None"
| "position p (x # xs) = (if p x then Some 0 else map_option Suc (position p xs))"

definition vec_insert :: "nat \<Rightarrow> 'a \<Rightarrow> 'a list \<Rightarrow> 'a list" where
  "vec_insert i x xs = take i xs @ x # drop i xs"

text \<open>The idiom of the consensus log: insert before the first element that satisfies \<open>p\<close>.\<close>

definition insert_before :: "('a \<Rightarrow> bool) \<Rightarrow> 'a \<Rightarrow> 'a list \<Rightarrow> 'a list" where
  "insert_before p x xs =
     vec_insert (case position p xs of Some i \<Rightarrow> i | None \<Rightarrow> length xs) x xs"

lemma insert_before_Nil [simp]: "insert_before p x [] = [x]"
  by (simp add: insert_before_def vec_insert_def)

lemma insert_before_Cons [simp]:
  "insert_before p x (y # ys) = (if p y then x # y # ys else y # insert_before p x ys)"
  by (auto simp: insert_before_def vec_insert_def split: option.splits)

lemma set_insert_before [simp]: "set (insert_before p x xs) = insert x (set xs)"
  by (induction xs) auto

lemma mset_insert_before [simp]: "mset (insert_before p x xs) = add_mset x (mset xs)"
  by (induction xs) auto

lemma length_insert_before [simp]: "length (insert_before p x xs) = Suc (length xs)"
  by (induction xs) auto

lemma insert_before_all: "\<forall>y \<in> set xs. \<not> p y \<Longrightarrow> insert_before p x xs = xs @ [x]"
  by (induction xs) auto

lemma insert_before_sorted:
  fixes f :: "'a \<Rightarrow> 'b::linorder"
  assumes "sorted_wrt (\<lambda>a b. f a < f b) xs" and "f x \<notin> f ` set xs"
  shows "sorted_wrt (\<lambda>a b. f a < f b) (insert_before (\<lambda>y. f x < f y) x xs)"
  using assms
proof (induction xs)
  case (Cons y ys)
  then have ne: "f x \<noteq> f y" and tail: "\<forall>z \<in> set ys. f y < f z" by auto
  show ?case
  proof (cases "f x < f y")
    case True
    with Cons.prems tail show ?thesis by (auto dest: less_trans)
  next
    case False
    with ne have "f y < f x" by simp
    with Cons False show ?thesis by auto
  qed
qed simp

lemma find_Some_in: "find p xs = Some x \<Longrightarrow> x \<in> set xs \<and> p x"
  by (induction xs) (auto split: if_splits)

lemma find_None_iff_all: "find p xs = None \<longleftrightarrow> (\<forall>x \<in> set xs. \<not> p x)"
  by (induction xs) auto

lemma find_unique:
  assumes "x \<in> set xs" "p x" "\<And>y. y \<in> set xs \<Longrightarrow> p y \<Longrightarrow> y = x"
  shows "find p xs = Some x"
proof (cases "find p xs")
  case None
  with assms(1,2) show ?thesis by (auto simp: find_None_iff_all)
next
  case (Some y)
  from find_Some_in [OF this] assms(3) Some show ?thesis by auto
qed

lemma set_map_filter': "set (List.map_filter g xs) = {y. \<exists>x \<in> set xs. g x = Some y}"
  by (induction xs) (auto simp: List.map_filter_simps split: option.splits)

text \<open>\<open>last().map(f).unwrap_or(d)\<close>.\<close>

definition last_or :: "('a \<Rightarrow> 'b) \<Rightarrow> 'b \<Rightarrow> 'a list \<Rightarrow> 'b" where
  "last_or f d xs = (if xs = [] then d else f (last xs))"

section \<open>Unsigned integers\<close>

text \<open>\<open>AtomicU64::fetch_max\<close> stores the larger of the old and the given value.\<close>

definition fetch_max :: "u64 \<Rightarrow> u64 \<Rightarrow> u64" where
  "fetch_max old v = max old v"

lemma fetch_max_ge [simp]: "old \<le> fetch_max old v" "v \<le> fetch_max old v"
  by (simp_all add: fetch_max_def)

lemma u64_succ_unat: "(w::u64) \<noteq> - 1 \<Longrightarrow> unat (w + 1) = Suc (unat w)"
proof -
  assume "w \<noteq> - 1"
  then have "1 + w \<noteq> 0" by (metis add.commute eq_neg_iff_add_eq_0)
  then show ?thesis by (metis add.commute unatSuc)
qed

lemma u64_succ_small: "Suc (unat (w::u64)) < 2 ^ 64 \<Longrightarrow> unat (w + 1) = Suc (unat w)"
  by (simp add: unat_word_ariths)

lemma u64_unat_bound: "unat (w::u64) < 2 ^ 64"
  using unsigned_less [of w, where ?'a = nat] by simp

lemma u64_eq_unat: "(v::u64) = w \<longleftrightarrow> unat v = unat w"
  by (rule word_eq_iff_unsigned)

lemma u64_succ_le: "(w::u64) < v \<Longrightarrow> w + 1 \<le> v"
  by (metis inc_le)

lemma u64_less_succ: "(w::u64) \<noteq> - 1 \<Longrightarrow> w < w + 1"
  by (simp add: word_less_nat_alt u64_succ_unat)

section \<open>Little-endian encoding\<close>

text \<open>\<open>u64::to_le_bytes\<close> and \<open>u64::from_le_bytes\<close>.\<close>

definition to_le64 :: "u64 \<Rightarrow> bytes" where
  "to_le64 w = map (\<lambda>i. ucast (drop_bit (8 * i) w)) [0..<8]"

definition from_le64 :: "bytes \<Rightarrow> u64" where
  "from_le64 bs = foldr (\<lambda>b w. ucast b OR push_bit 8 w) bs 0"

lemma length_to_le64 [simp]: "length (to_le64 w) = 8"
  by (simp add: to_le64_def)

lemma from_to_le64 [simp]: "from_le64 (to_le64 w) = w"
proof (rule bit_word_eqI)
  fix n
  assume "n < LENGTH(64)"
  then have n: "n < 64" by simp
  have idx: "[0..<8] = [0, 1, 2, 3, 4, 5, 6, 7]" by (simp add: upt_rec)
  define q r where "q = n div 8" and "r = n mod 8"
  then have nqr: "n = 8 * q + r" and r: "r < 8" and "q < 8" using n by auto
  then consider "q = 0" | "q = 1" | "q = 2" | "q = 3" | "q = 4" | "q = 5" | "q = 6" | "q = 7"
    by linarith
  then show "bit (from_le64 (to_le64 w)) n = bit w n"
    by cases
      (use r in \<open>simp_all add: nqr from_le64_def to_le64_def idx bit_or_iff bit_push_bit_iff
         bit_ucast_iff bit_drop_bit_eq\<close>)
qed

lemma unat_of_nat_u64: "n < 2 ^ 64 \<Longrightarrow> unat (of_nat n :: u64) = n"
  by (simp add: unat_of_nat take_bit_nat_eq_self)

lemma take_append_prefix [simp]:
  "length xs = n \<Longrightarrow> take n (xs @ ys) = xs"
  "length xs = n \<Longrightarrow> drop n (xs @ ys) = ys"
  by simp_all

section \<open>Strings\<close>

text \<open>\<open>str::split\<close> on a character, and the decimal conversions of unsigned integers.\<close>

fun split_on :: "char \<Rightarrow> string \<Rightarrow> string list" where
  "split_on c [] = [[]]"
| "split_on c (x # xs) =
     (if x = c then [] # split_on c xs
      else case split_on c xs of [] \<Rightarrow> [[x]] | y # ys \<Rightarrow> (x # y) # ys)"

definition is_digit :: "char \<Rightarrow> bool" where
  "is_digit c \<longleftrightarrow> 48 \<le> (of_char c :: nat) \<and> (of_char c :: nat) \<le> 57"

definition digits_value :: "string \<Rightarrow> nat" where
  "digits_value ds = foldl (\<lambda>n c. 10 * n + (of_char c - 48)) 0 ds"

text \<open>An optional plus sign and at least one digit, not above the largest value of the type.\<close>

definition parse_unsigned :: "nat \<Rightarrow> string \<Rightarrow> nat option" where
  "parse_unsigned max_value s =
     (let ds = (case s of [] \<Rightarrow> [] | c # cs \<Rightarrow> if c = CHR ''+'' then cs else s)
      in if ds \<noteq> [] \<and> list_all is_digit ds \<and> digits_value ds \<le> max_value
         then Some (digits_value ds) else None)"

fun show_nat :: "nat \<Rightarrow> string" where
  "show_nat n =
     (if n < 10 then [char_of (48 + n)] else show_nat (n div 10) @ [char_of (48 + n mod 10)])"

declare show_nat.simps [simp del]

lemma of_char_digit [simp]: "n < 10 \<Longrightarrow> (of_char (char_of (48 + n :: nat)) :: nat) = 48 + n"
  by (simp add: of_char_of)

lemma is_digit_char_of [simp]: "n < 10 \<Longrightarrow> is_digit (char_of (48 + n :: nat))"
  by (simp add: is_digit_def)

lemma show_nat_digits: "list_all is_digit (show_nat n) \<and> show_nat n \<noteq> []"
proof (induction n rule: show_nat.induct)
  case (1 n)
  then show ?case by (cases "n < 10") (auto simp: show_nat.simps [of n])
qed

lemma digits_value_show [simp]: "digits_value (show_nat n) = n"
proof (induction n rule: show_nat.induct)
  case (1 n)
  then show ?case
    by (cases "n < 10") (auto simp: show_nat.simps [of n] digits_value_def)
qed

lemma parse_show_nat: "n \<le> m \<Longrightarrow> parse_unsigned m (show_nat n) = Some n"
proof -
  assume "n \<le> m"
  obtain c cs where s: "show_nat n = c # cs" using show_nat_digits [of n] by (cases "show_nat n") auto
  have "is_digit c" using show_nat_digits [of n] by (simp add: s)
  then have "c \<noteq> CHR ''+''" by (auto simp: is_digit_def)
  with \<open>n \<le> m\<close> show ?thesis
    using show_nat_digits [of n] digits_value_show [of n] by (simp add: parse_unsigned_def s)
qed

lemma show_nat_inject [simp]: "show_nat m = show_nat n \<longleftrightarrow> m = n"
  by (metis digits_value_show)

text \<open>\<open>str::trim\<close> and \<open>str::lines\<close>: a line ends with a line feed, which may follow a carriage return.\<close>

definition is_space :: "char \<Rightarrow> bool" where
  "is_space c \<longleftrightarrow> (of_char c :: nat) \<in> {9, 10, 11, 12, 13, 32}"

definition trim :: "string \<Rightarrow> string" where
  "trim s = rev (dropWhile is_space (rev (dropWhile is_space s)))"

definition newline :: char where "newline = CHR 10"

definition strip_cr :: "string \<Rightarrow> string" where
  "strip_cr l = (if l \<noteq> [] \<and> last l = CHR 13 then butlast l else l)"

definition text_lines :: "string \<Rightarrow> string list" where
  "text_lines s =
     (let ps = split_on newline s
      in map strip_cr (butlast ps) @ (if last ps = [] then [] else [last ps]))"

lemma split_on_not_Nil [simp]: "split_on c s \<noteq> []"
  by (induction s) (auto split: list.splits)

lemma split_on_frame: "c \<notin> set l \<Longrightarrow> split_on c (l @ c # rest) = l # split_on c rest"
  by (induction l) auto

lemma split_on_no: "c \<notin> set s \<Longrightarrow> split_on c s = [s]"
  by (induction s) auto

lemma text_lines_Nil [simp]: "text_lines [] = []"
  by (simp add: text_lines_def)

lemma text_lines_frame:
  "newline \<notin> set l \<Longrightarrow> text_lines (l @ newline # rest) = strip_cr l # text_lines rest"
  by (simp add: text_lines_def split_on_frame Let_def)

end
