(* ===== verification/Upgrade.thy ===== *)
theory Upgrade
  imports Prelude
begin

text \<open>
  Rolling upgrades: schema versions, schema changes, migration contexts and the migration
  manager of \<^verbatim>\<open>lithair-core/src/cluster/upgrade.rs\<close>. JSON values belong to
  \<^verbatim>\<open>serde_json\<close>, so they are the type parameter \<open>'j\<close>; the wall clock is the argument
  \<open>now\<close> of every operation that stamps a context. The manager's three locks are held for the
  whole of each method, so a method is one atomic step on the manager's state.
\<close>

section \<open>Versions\<close>

record version =
  major :: u32
  minor :: u32
  patch :: u32
  schema_hash :: string
  build_id :: string

definition version_new :: "u32 \<Rightarrow> u32 \<Rightarrow> u32 \<Rightarrow> string \<Rightarrow> string \<Rightarrow> version" where
  "version_new ma mi pa h b =
     \<lparr>major = ma, minor = mi, patch = pa, schema_hash = h, build_id = b\<rparr>"

definition can_read_from :: "version \<Rightarrow> version \<Rightarrow> bool" where
  "can_read_from self other \<longleftrightarrow> major self = major other \<and> minor other \<le> minor self"

definition requires_migration_from :: "version \<Rightarrow> version \<Rightarrow> bool" where
  "requires_migration_from self other \<longleftrightarrow> schema_hash self \<noteq> schema_hash other"

lemma can_read_from_refl: "can_read_from v v"
  by (simp add: can_read_from_def)

lemma can_read_from_trans:
  "can_read_from a b \<Longrightarrow> can_read_from b c \<Longrightarrow> can_read_from a c"
  by (auto simp: can_read_from_def)

lemma can_read_from_both:
  "can_read_from a b \<Longrightarrow> can_read_from b a \<Longrightarrow> major a = major b \<and> minor a = minor b"
  by (auto simp: can_read_from_def)

section \<open>Schema changes\<close>

datatype node_mode = Serving | SyncOnly | Draining | Upgrading | Validating | Ready

datatype field_type =
  FtString | FtInteger | FtFloat | FtBoolean | FtDateTime | FtUuid | FtJson | FtBinary

record field_definition =
  fd_name :: string
  fd_type :: field_type
  fd_nullable :: bool
  fd_unique :: bool
  fd_indexed :: bool

record model_schema =
  ms_name :: string
  ms_fields :: "field_definition list"
  ms_primary_key :: "string option"

datatype 'j schema_change =
    AddModel string model_schema
  | RemoveModel string "string option"
  | AddField string field_definition "'j option"
  | RemoveField string string
  | RenameField string string string
  | ChangeFieldType string string field_type "string option"
  | AddIndex string "string list" bool
  | Custom string string string

section \<open>Migration contexts\<close>

datatype migration_status = InProgress | Committed | RolledBack | Failed string

record 'j rollback_op =
  ro_step_index :: u32
  ro_operation :: "'j schema_change"
  ro_data_snapshot :: "'j option"

record 'j migration_context =
  mc_id :: uuid
  mc_from_version :: version
  mc_to_version :: version
  mc_status :: migration_status
  mc_current_step :: u32
  mc_total_steps :: u32
  mc_rollback_log :: "'j rollback_op list"
  mc_created_at_ms :: u64
  mc_updated_at_ms :: u64

definition context_new :: "u64 \<Rightarrow> uuid \<Rightarrow> version \<Rightarrow> version \<Rightarrow> 'j migration_context" where
  "context_new now i from_v to_v =
     \<lparr>mc_id = i, mc_from_version = from_v, mc_to_version = to_v, mc_status = InProgress,
      mc_current_step = 0, mc_total_steps = 0, mc_rollback_log = [],
      mc_created_at_ms = now, mc_updated_at_ms = now\<rparr>"

definition context_record_step ::
  "u64 \<Rightarrow> u32 \<Rightarrow> 'j schema_change \<Rightarrow> 'j option \<Rightarrow> 'j migration_context \<Rightarrow> 'j migration_context"
where
  "context_record_step now step rb snap c =
     c\<lparr>mc_rollback_log := mc_rollback_log c @
          [\<lparr>ro_step_index = step, ro_operation = rb, ro_data_snapshot = snap\<rparr>],
       mc_current_step := step + 1,
       mc_updated_at_ms := now\<rparr>"

definition context_commit :: "u64 \<Rightarrow> 'j migration_context \<Rightarrow> 'j migration_context" where
  "context_commit now c = c\<lparr>mc_status := Committed, mc_updated_at_ms := now\<rparr>"

definition context_rollback :: "u64 \<Rightarrow> 'j migration_context \<Rightarrow> 'j migration_context" where
  "context_rollback now c = c\<lparr>mc_status := RolledBack, mc_updated_at_ms := now\<rparr>"

definition context_fail :: "u64 \<Rightarrow> string \<Rightarrow> 'j migration_context \<Rightarrow> 'j migration_context" where
  "context_fail now reason c = c\<lparr>mc_status := Failed reason, mc_updated_at_ms := now\<rparr>"

definition get_rollback_ops :: "'j migration_context \<Rightarrow> 'j rollback_op list" where
  "get_rollback_ops c = rev (mc_rollback_log c)"

section \<open>The migration manager\<close>

record 'j migration_manager =
  mm_active :: "(uuid, 'j migration_context) dict"
  mm_completed :: "'j migration_context list"
  mm_current_version :: version

datatype migration_error =
    AnotherMigrationInProgress
  | VersionMismatch version version
  | MigrationNotFound uuid

definition manager_new :: "version \<Rightarrow> 'j migration_manager" where
  "manager_new v = \<lparr>mm_active = [], mm_completed = [], mm_current_version = v\<rparr>"

definition begin_migration ::
  "u64 \<Rightarrow> uuid \<Rightarrow> version \<Rightarrow> version \<Rightarrow> 'j migration_manager \<Rightarrow>
   migration_error + 'j migration_manager"
where
  "begin_migration now i from_v to_v m =
     (if mm_active m \<noteq> [] then Inl AnotherMigrationInProgress
      else if mm_current_version m \<noteq> from_v
        then Inl (VersionMismatch (mm_current_version m) from_v)
      else Inr (m\<lparr>mm_active := AList.update i (context_new now i from_v to_v) (mm_active m)\<rparr>))"

definition get_migration :: "uuid \<Rightarrow> 'j migration_manager \<Rightarrow> 'j migration_context option" where
  "get_migration i m = map_of (mm_active m) i"

definition manager_record_step ::
  "u64 \<Rightarrow> uuid \<Rightarrow> u32 \<Rightarrow> 'j schema_change \<Rightarrow> 'j option \<Rightarrow> 'j migration_manager \<Rightarrow>
   migration_error + 'j migration_manager"
where
  "manager_record_step now i step rb snap m =
     (case map_of (mm_active m) i of
        None \<Rightarrow> Inl (MigrationNotFound i)
      | Some _ \<Rightarrow> Inr (m\<lparr>mm_active :=
            AList.map_entry i (context_record_step now step rb snap) (mm_active m)\<rparr>))"

definition commit_migration ::
  "u64 \<Rightarrow> uuid \<Rightarrow> version \<Rightarrow> 'j migration_manager \<Rightarrow> migration_error + 'j migration_manager"
where
  "commit_migration now i new_v m =
     (case map_of (mm_active m) i of
        None \<Rightarrow> Inl (MigrationNotFound i)
      | Some c \<Rightarrow> Inr (m\<lparr>mm_active := AList.delete i (mm_active m),
                         mm_current_version := new_v,
                         mm_completed := mm_completed m @ [context_commit now c]\<rparr>))"

text \<open>The rollback log is drained, so the context kept for audit has an empty one.\<close>

definition rollback_migration ::
  "u64 \<Rightarrow> uuid \<Rightarrow> 'j migration_manager \<Rightarrow>
   migration_error + 'j rollback_op list \<times> 'j migration_manager"
where
  "rollback_migration now i m =
     (case map_of (mm_active m) i of
        None \<Rightarrow> Inl (MigrationNotFound i)
      | Some c \<Rightarrow> Inr (rev (mc_rollback_log c),
          m\<lparr>mm_active := AList.delete i (mm_active m),
            mm_completed := mm_completed m @
              [context_rollback now (c\<lparr>mc_rollback_log := []\<rparr>)]\<rparr>))"

definition has_active_migration :: "'j migration_manager \<Rightarrow> bool" where
  "has_active_migration m \<longleftrightarrow> mm_active m \<noteq> []"

section \<open>The manager as a state machine\<close>

text \<open>One rule per method that changes the manager; errors leave it as it is.\<close>

inductive manager_step :: "'j migration_manager \<Rightarrow> 'j migration_manager \<Rightarrow> bool" where
  ms_begin: "begin_migration now i from_v to_v m = Inr m' \<Longrightarrow> manager_step m m'"
| ms_record: "manager_record_step now i step rb snap m = Inr m' \<Longrightarrow> manager_step m m'"
| ms_commit: "commit_migration now i new_v m = Inr m' \<Longrightarrow> manager_step m m'"
| ms_rollback: "rollback_migration now i m = Inr (ops, m') \<Longrightarrow> manager_step m m'"

inductive manager_reachable :: "version \<Rightarrow> 'j migration_manager \<Rightarrow> bool" for v0 where
  mr_init: "manager_reachable v0 (manager_new v0)"
| mr_step: "manager_reachable v0 m \<Longrightarrow> manager_step m m' \<Longrightarrow> manager_reachable v0 m'"

inductive_cases manager_stepE: "manager_step m m'"

text \<open>
  The invariant: at most one migration is active; it is in progress, filed under its own id and
  started from the current version; every completed one was committed or rolled back.
\<close>

definition manager_inv :: "'j migration_manager \<Rightarrow> bool" where
  "manager_inv m \<longleftrightarrow>
     length (mm_active m) \<le> 1 \<and>
     (\<forall>(i, c) \<in> set (mm_active m).
        mc_id c = i \<and> mc_status c = InProgress \<and> mc_from_version c = mm_current_version m) \<and>
     (\<forall>c \<in> set (mm_completed m). mc_status c = Committed \<or> mc_status c = RolledBack)"

lemmas migration_defs =
  begin_migration_def manager_record_step_def commit_migration_def rollback_migration_def
  context_new_def context_record_step_def context_commit_def context_rollback_def

lemma singleton_dict:
  assumes "length d \<le> 1" and "map_of d i = Some c"
  shows "d = [(i, c)]"
  using assms by (cases d) (auto split: if_splits)

lemma manager_inv_new: "manager_inv (manager_new v)"
  by (simp add: manager_inv_def manager_new_def)

lemma begin_migration_inv:
  "manager_inv m \<Longrightarrow> begin_migration now i f t m = Inr m' \<Longrightarrow> manager_inv m'"
  by (auto simp: migration_defs manager_inv_def split: if_splits)

lemma active_singleton:
  "manager_inv m \<Longrightarrow> map_of (mm_active m) i = Some c \<Longrightarrow>
   mm_active m = [(i, c)] \<and> mc_id c = i \<and> mc_status c = InProgress \<and>
   mc_from_version c = mm_current_version m"
  by (frule singleton_dict [rotated]) (auto simp: manager_inv_def)

lemma record_step_inv:
  assumes "manager_inv m" and "manager_record_step now i step rb snap m = Inr m'"
  shows "manager_inv m'"
proof -
  from assms(2) obtain c where c: "map_of (mm_active m) i = Some c"
    by (auto simp: manager_record_step_def split: option.splits)
  from active_singleton [OF assms(1) c] assms c show ?thesis
    by (auto simp: manager_inv_def manager_record_step_def context_record_step_def)
qed

lemma commit_migration_inv:
  assumes "manager_inv m" and "commit_migration now i v m = Inr m'"
  shows "manager_inv m'"
proof -
  from assms(2) obtain c where c: "map_of (mm_active m) i = Some c"
    by (auto simp: commit_migration_def split: option.splits)
  from active_singleton [OF assms(1) c] assms c show ?thesis
    by (auto simp: manager_inv_def commit_migration_def context_commit_def)
qed

lemma rollback_migration_inv:
  assumes "manager_inv m" and "rollback_migration now i m = Inr (ops, m')"
  shows "manager_inv m'"
proof -
  from assms(2) obtain c where c: "map_of (mm_active m) i = Some c"
    by (auto simp: rollback_migration_def split: option.splits)
  from active_singleton [OF assms(1) c] assms c show ?thesis
    by (auto simp: manager_inv_def rollback_migration_def context_rollback_def)
qed

lemma manager_step_inv: "manager_step m m' \<Longrightarrow> manager_inv m \<Longrightarrow> manager_inv m'"
  by (erule manager_stepE)
    (blast intro: begin_migration_inv record_step_inv commit_migration_inv
       rollback_migration_inv)+

lemma manager_reachable_inv: "manager_reachable v0 m \<Longrightarrow> manager_inv m"
  by (induction rule: manager_reachable.induct)
    (auto intro: manager_inv_new manager_step_inv)

section \<open>Undoing a migration\<close>

text \<open>Recording a list of steps, as the leader does one at a time.\<close>

fun record_steps ::
  "u64 \<Rightarrow> uuid \<Rightarrow> (u32 \<times> 'j schema_change \<times> 'j option) list \<Rightarrow> 'j migration_manager \<Rightarrow>
   migration_error + 'j migration_manager"
where
  "record_steps now i [] m = Inr m"
| "record_steps now i ((s, rb, snap) # rest) m =
     (case manager_record_step now i s rb snap m of
        Inl e \<Rightarrow> Inl e
      | Inr m' \<Rightarrow> record_steps now i rest m')"

definition op_of :: "u32 \<times> 'j schema_change \<times> 'j option \<Rightarrow> 'j rollback_op" where
  "op_of = (\<lambda>(s, rb, snap). \<lparr>ro_step_index = s, ro_operation = rb, ro_data_snapshot = snap\<rparr>)"

lemma record_steps_log:
  assumes "map_of (mm_active m) i = Some c"
  shows "\<exists>m' c'. record_steps now i steps m = Inr m' \<and> map_of (mm_active m') i = Some c' \<and>
           mc_rollback_log c' = mc_rollback_log c @ map op_of steps \<and>
           mm_current_version m' = mm_current_version m"
  using assms
proof (induction steps arbitrary: m c)
  case (Cons x steps)
  obtain s rb snap where x: "x = (s, rb, snap)" by (cases x)
  define m1 where "m1 = m\<lparr>mm_active :=
    AList.map_entry i (context_record_step now s rb snap) (mm_active m)\<rparr>"
  have step: "manager_record_step now i s rb snap m = Inr m1"
    using Cons.prems by (simp add: manager_record_step_def m1_def)
  have c1: "map_of (mm_active m1) i = Some (context_record_step now s rb snap c)"
    using Cons.prems by (simp add: m1_def map_of_map_entry')
  from Cons.IH [OF c1] show ?case
    by (auto simp: x step op_of_def context_record_step_def m1_def)
qed simp

section \<open>Properties\<close>

text \<open>
  In every reachable state of the manager at most one migration is active, it is in progress
  and it started from the manager's current version; every completed one was committed or rolled
  back. A second \<open>begin_migration\<close> is refused while one is active.
\<close>

theorem single_active_migration:
  assumes "manager_reachable v0 m"
  shows "length (mm_active m) \<le> 1 \<and>
    (\<forall>(i, c) \<in> set (mm_active m). mc_id c = i \<and> mc_status c = InProgress \<and>
       mc_from_version c = mm_current_version m) \<and>
    (\<forall>c \<in> set (mm_completed m). mc_status c \<in> {Committed, RolledBack}) \<and>
    (has_active_migration m \<longrightarrow>
       begin_migration now i f t m = Inl AnotherMigrationInProgress)"
  using manager_reachable_inv [OF assms]
  by (auto simp: manager_inv_def has_active_migration_def begin_migration_def)

definition v1 :: version where "v1 = version_new 1 0 0 ''h1'' ''b1''"
definition v2 :: version where "v2 = version_new 1 1 0 ''h2'' ''b2''"

lemma single_active_migration_witness:
  "\<exists>m :: unit migration_manager. manager_reachable v1 m \<and> has_active_migration m \<and>
     begin_migration 9 8 v1 v2 m = Inl AnotherMigrationInProgress"
proof -
  let ?m = "manager_new v1 \<lparr>mm_active := [(7, context_new 5 7 v1 v2)]\<rparr> :: unit migration_manager"
  have "begin_migration 5 7 v1 v2 (manager_new v1) = Inr ?m"
    by (simp add: begin_migration_def manager_new_def)
  then have r: "manager_reachable v1 ?m" by (blast intro: mr_init mr_step ms_begin)
  have a: "has_active_migration ?m" by (simp add: has_active_migration_def manager_new_def)
  from single_active_migration [OF r] a r show ?thesis by blast
qed

text \<open>
  Rolling a migration back undoes it in order: after a migration has begun and any steps have
  been recorded, \<open>rollback_migration\<close> returns exactly the recorded inverse operations, the last
  step first, leaves no migration active and keeps the version from before the migration.
\<close>

theorem rollback_reverses_steps:
  assumes "begin_migration now i f t m = Inr m0"
  shows "\<exists>m1 m2. record_steps now1 i steps m0 = Inr m1 \<and>
    rollback_migration now2 i m1 = Inr (rev (map op_of steps), m2) \<and>
    get_migration i m2 = None \<and> mm_current_version m2 = f"
proof -
  have start: "map_of (mm_active m0) i = Some (context_new now i f t)"
    and version: "mm_current_version m0 = f"
    using assms by (auto simp: begin_migration_def split: if_splits)
  from record_steps_log [OF start, of now1 steps] obtain m1 c' where
    "record_steps now1 i steps m0 = Inr m1" "map_of (mm_active m1) i = Some c'"
    "mc_rollback_log c' = map op_of steps" "mm_current_version m1 = f"
    by (auto simp: context_new_def version)
  then show ?thesis
    by (auto simp: rollback_migration_def get_migration_def map_of_delete_entry rev_map)
qed

lemma rollback_reverses_steps_witness:
  "\<exists>m1 m2. record_steps 6 7 [(0, RemoveModel ''a'' None, None), (1, RemoveField ''b'' ''c'', None)]
       (manager_new v1 \<lparr>mm_active := [(7, context_new 5 7 v1 v2)]\<rparr> :: unit migration_manager)
       = Inr m1 \<and>
     rollback_migration 8 7 m1 =
       Inr ([\<lparr>ro_step_index = 1, ro_operation = RemoveField ''b'' ''c'', ro_data_snapshot = None\<rparr>,
             \<lparr>ro_step_index = 0, ro_operation = RemoveModel ''a'' None, ro_data_snapshot = None\<rparr>],
            m2)"
proof -
  have "begin_migration 5 7 v1 v2 (manager_new v1 :: unit migration_manager) =
        Inr (manager_new v1 \<lparr>mm_active := [(7, context_new 5 7 v1 v2)]\<rparr>)"
    by (simp add: begin_migration_def manager_new_def)
  from rollback_reverses_steps [OF this,
      of 6 "[(0, RemoveModel ''a'' None, None), (1, RemoveField ''b'' ''c'', None)]" 8]
  show ?thesis by (auto simp: op_of_def)
qed

end
