(* ===== verification/ConsensusLog.thy ===== *)
theory ConsensusLog
  imports Upgrade
begin

text \<open>
  The ordered operation log of \<^verbatim>\<open>lithair-core/src/cluster/consensus_log.rs\<close>. The atomics are
  words of the state record; every atomic operation is one step. \<open>append\<close> is three steps of a
  task (load the term, take an index with \<open>fetch_add\<close>, insert under the write lock), and the
  relation \<open>append_step\<close> interleaves the steps of any number of tasks.
\<close>

section \<open>Data\<close>

datatype log_id = LogId (lid_term: u64) (lid_index: u64)

text \<open>The derived order of the Rust struct: lexicographic, the term first.\<close>

instantiation log_id :: linorder
begin

definition less_log_id :: "log_id \<Rightarrow> log_id \<Rightarrow> bool" where
  "less_log_id a b \<longleftrightarrow>
     lid_term a < lid_term b \<or> (lid_term a = lid_term b \<and> lid_index a < lid_index b)"

definition less_eq_log_id :: "log_id \<Rightarrow> log_id \<Rightarrow> bool" where
  "less_eq_log_id a b \<longleftrightarrow>
     lid_term a < lid_term b \<or> (lid_term a = lid_term b \<and> lid_index a \<le> lid_index b)"

instance
  by standard (auto simp: less_log_id_def less_eq_log_id_def log_id.expand)

end

datatype 'j crud_operation =
    Create string 'j
  | Update string string 'j
  | Delete string string
  | MigrationBegin version version uuid
  | MigrationStep uuid u32 "'j schema_change"
  | MigrationCommit uuid string
  | MigrationRollback uuid u32 string

record 'j log_entry =
  le_log_id :: log_id
  le_operation :: "'j crud_operation"
  le_timestamp_ms :: u64

abbreviation le_index :: "'j log_entry \<Rightarrow> u64" where
  "le_index e \<equiv> lid_index (le_log_id e)"

record 'j consensus_log =
  cl_current_term :: u64
  cl_next_index :: u64
  cl_commit_index :: u64
  cl_entries :: "'j log_entry list"
  cl_applied_index :: u64
  cl_apply_locked :: bool

record 'j append_entries_request =
  ar_term :: u64
  ar_leader_id :: u64
  ar_prev_log_index :: u64
  ar_prev_log_term :: u64
  ar_entries :: "'j log_entry list"
  ar_leader_commit :: u64

record append_entries_response =
  rs_term :: u64
  rs_success :: bool
  rs_last_log_index :: u64
  rs_applied_index :: u64

section \<open>Operations\<close>

definition consensus_log_new :: "'j consensus_log" where
  "consensus_log_new =
     \<lparr>cl_current_term = 1, cl_next_index = 1, cl_commit_index = 0, cl_entries = [],
      cl_applied_index = 0, cl_apply_locked = False\<rparr>"

definition increment_term :: "'j consensus_log \<Rightarrow> u64 \<times> 'j consensus_log" where
  "increment_term l =
     (cl_current_term l + 1, l\<lparr>cl_current_term := cl_current_term l + 1\<rparr>)"

definition set_term :: "u64 \<Rightarrow> 'j consensus_log \<Rightarrow> 'j consensus_log" where
  "set_term t l = l\<lparr>cl_current_term := t\<rparr>"

text \<open>The second step of \<open>append\<close>: take the next index and build the entry.\<close>

definition append_alloc ::
  "u64 \<Rightarrow> u64 \<Rightarrow> 'j crud_operation \<Rightarrow> 'j consensus_log \<Rightarrow> 'j log_entry \<times> 'j consensus_log"
where
  "append_alloc now t op l =
     (\<lparr>le_log_id = LogId t (cl_next_index l), le_operation = op, le_timestamp_ms = now\<rparr>,
      l\<lparr>cl_next_index := cl_next_index l + 1\<rparr>)"

text \<open>The third step: insert in front of the first entry with a greater id.\<close>

definition append_insert :: "'j log_entry \<Rightarrow> 'j consensus_log \<Rightarrow> 'j consensus_log" where
  "append_insert e l =
     l\<lparr>cl_entries := insert_before (\<lambda>x. le_log_id e < le_log_id x) e (cl_entries l)\<rparr>"

definition append_op ::
  "u64 \<Rightarrow> 'j crud_operation \<Rightarrow> 'j consensus_log \<Rightarrow> 'j log_entry \<times> 'j consensus_log"
where
  "append_op now op l =
     (let (e, l') = append_alloc now (cl_current_term l) op l in (e, append_insert e l'))"

definition append_entry :: "'j log_entry \<Rightarrow> 'j log_entry list \<Rightarrow> 'j log_entry list" where
  "append_entry e es =
     (case find (\<lambda>x. le_log_id x = le_log_id e) es of
        None \<Rightarrow> insert_before (\<lambda>x. le_log_id e < le_log_id x) e es
      | Some _ \<Rightarrow> es)"

definition append_entries ::
  "'j log_entry list \<Rightarrow> u64 \<Rightarrow> 'j consensus_log \<Rightarrow> bool \<times> 'j consensus_log"
where
  "append_entries new leader_commit l =
     (True, l\<lparr>cl_entries := fold append_entry new (cl_entries l),
              cl_commit_index := fetch_max (cl_commit_index l) leader_commit\<rparr>)"

definition commit :: "u64 \<Rightarrow> 'j consensus_log \<Rightarrow> 'j consensus_log" where
  "commit i l = l\<lparr>cl_commit_index := fetch_max (cl_commit_index l) i\<rparr>"

definition mark_applied :: "u64 \<Rightarrow> 'j consensus_log \<Rightarrow> 'j consensus_log" where
  "mark_applied i l = l\<lparr>cl_applied_index := fetch_max (cl_applied_index l) i\<rparr>"

text \<open>
  The scan of \<open>get_unapplied_entries\<close>; \<open>None\<close> is the overflow of \<open>expected_index += 1\<close>.
\<close>

function unapplied_from :: "u64 \<Rightarrow> u64 \<Rightarrow> 'j log_entry list \<Rightarrow> 'j log_entry list option" where
  "unapplied_from committed expected es =
     (if expected \<le> committed then
        (case find (\<lambda>e. le_index e = expected) es of
           Some e \<Rightarrow>
             (if expected = - 1 then None
              else map_option ((#) e) (unapplied_from committed (expected + 1) es))
         | None \<Rightarrow> Some [])
      else Some [])"
  by pat_completeness auto
termination
proof (relation "measure (\<lambda>(c, e, es). 2 ^ 64 - unat e)", goal_cases)
  case 1
  show ?case by simp
next
  case (2 committed expected es e)
  then show ?case
    using u64_unat_bound [of expected] by (simp add: u64_succ_unat)
qed

declare unapplied_from.simps [simp del]

definition get_unapplied_entries :: "'j consensus_log \<Rightarrow> 'j log_entry list option" where
  "get_unapplied_entries l =
     (if cl_commit_index l \<le> cl_applied_index l then Some []
      else unapplied_from (cl_commit_index l) (cl_applied_index l + 1) (cl_entries l))"

text \<open>The apply mutex: \<open>None\<close> when another task holds it, so that the caller waits.\<close>

definition lock_apply :: "'j consensus_log \<Rightarrow> 'j consensus_log option" where
  "lock_apply l = (if cl_apply_locked l then None else Some (l\<lparr>cl_apply_locked := True\<rparr>))"

definition unlock_apply :: "'j consensus_log \<Rightarrow> 'j consensus_log" where
  "unlock_apply l = l\<lparr>cl_apply_locked := False\<rparr>"

definition get_entries_from :: "u64 \<Rightarrow> 'j consensus_log \<Rightarrow> 'j log_entry list" where
  "get_entries_from i l = filter (\<lambda>e. i \<le> le_index e) (cl_entries l)"

definition last_entry :: "'j consensus_log \<Rightarrow> 'j log_entry option" where
  "last_entry l = (if cl_entries l = [] then None else Some (last (cl_entries l)))"

definition last_index :: "'j consensus_log \<Rightarrow> u64" where
  "last_index l = last_or le_index 0 (cl_entries l)"

section \<open>Sorted logs\<close>

definition log_sorted :: "'j log_entry list \<Rightarrow> bool" where
  "log_sorted es \<longleftrightarrow> sorted_wrt (\<lambda>a b. le_log_id a < le_log_id b) es"

lemma log_sorted_Nil [simp]: "log_sorted []"
  by (simp add: log_sorted_def)

lemma log_sorted_insert:
  "log_sorted es \<Longrightarrow> le_log_id e \<notin> le_log_id ` set es \<Longrightarrow>
   log_sorted (insert_before (\<lambda>x. le_log_id e < le_log_id x) e es)"
  unfolding log_sorted_def by (rule insert_before_sorted)

lemma log_sorted_distinct_ids: "log_sorted es \<Longrightarrow> distinct (map le_log_id es)"
  by (induction es) (auto simp: log_sorted_def)

lemma log_sorted_unique:
  assumes "log_sorted xs" "log_sorted ys" "set xs = set ys"
  shows "xs = ys"
proof -
  have strict: "sorted_wrt (<) (map le_log_id zs)" if "log_sorted zs" for zs :: "'a log_entry list"
    using that by (simp add: log_sorted_def sorted_wrt_map)
  have "set (map le_log_id xs) = set (map le_log_id ys)"
    using assms(3) by simp
  then have eq: "map le_log_id xs = map le_log_id ys"
    using strict [OF assms(1)] strict [OF assms(2)] by (metis strict_sorted_equal)
  have "inj_on le_log_id (set xs \<union> set ys)"
    using log_sorted_distinct_ids [OF assms(1)] assms(3) by (simp add: distinct_map)
  then show ?thesis using eq by (simp add: inj_on_map_eq_map)
qed

lemma append_entry_old:
  "le_log_id e \<in> le_log_id ` set es \<Longrightarrow> append_entry e es = es"
  by (auto simp: append_entry_def find_None_iff_all split: option.splits)

lemma append_entry_new:
  "le_log_id e \<notin> le_log_id ` set es \<Longrightarrow>
   append_entry e es = insert_before (\<lambda>x. le_log_id e < le_log_id x) e es"
  by (fastforce simp: append_entry_def image_iff dest: find_Some_in split: option.splits)

lemma append_entry_ids [simp]:
  "le_log_id ` set (append_entry e es) = insert (le_log_id e) (le_log_id ` set es)"
  by (cases "le_log_id e \<in> le_log_id ` set es")
    (auto simp: append_entry_old append_entry_new)

lemma append_entry_sorted: "log_sorted es \<Longrightarrow> log_sorted (append_entry e es)"
  by (cases "le_log_id e \<in> le_log_id ` set es")
    (auto simp: append_entry_old append_entry_new intro: log_sorted_insert)

lemma fold_append_entry_sorted: "log_sorted es \<Longrightarrow> log_sorted (fold append_entry new es)"
  by (induction new arbitrary: es) (auto intro: append_entry_sorted)

lemma fold_append_entry_ids:
  "le_log_id ` set (fold append_entry new es) = le_log_id ` set new \<union> le_log_id ` set es"
  by (induction new arbitrary: es) auto

lemma append_entry_keeps: "x \<in> set es \<Longrightarrow> x \<in> set (append_entry e es)"
  by (auto simp: append_entry_def split: option.splits)

lemma fold_append_entry_keeps: "x \<in> set es \<Longrightarrow> x \<in> set (fold append_entry new es)"
  by (induction new arbitrary: es) (auto intro: append_entry_keeps)

lemma append_entry_from: "x \<in> set (append_entry e es) \<Longrightarrow> x = e \<or> x \<in> set es"
  by (auto simp: append_entry_def split: option.splits)

lemma fold_append_entry_from:
  "x \<in> set (fold append_entry new es) \<Longrightarrow> x \<in> set new \<or> x \<in> set es"
  by (induction new arbitrary: es) (auto dest: append_entry_from)

lemma fold_append_entry_old:
  "le_log_id ` set new \<subseteq> le_log_id ` set es \<Longrightarrow> fold append_entry new es = es"
  by (induction new) (auto simp: append_entry_old)

text \<open>When entries that share an id are equal, receiving entries is set union.\<close>

definition ids_agree :: "'j log_entry set \<Rightarrow> bool" where
  "ids_agree S \<longleftrightarrow> (\<forall>a \<in> S. \<forall>b \<in> S. le_log_id a = le_log_id b \<longrightarrow> a = b)"

lemma fold_append_entry_set:
  assumes "ids_agree (set new \<union> set es)"
  shows "set (fold append_entry new es) = set new \<union> set es"
proof (rule set_eqI, rule iffI)
  fix x
  assume "x \<in> set (fold append_entry new es)"
  then show "x \<in> set new \<union> set es" by (auto dest: fold_append_entry_from)
next
  fix x
  assume x: "x \<in> set new \<union> set es"
  then have "le_log_id x \<in> le_log_id ` set (fold append_entry new es)"
    by (auto simp: fold_append_entry_ids)
  then obtain y where y: "y \<in> set (fold append_entry new es)" "le_log_id y = le_log_id x"
    by auto
  then have "y \<in> set new \<union> set es" by (auto dest: fold_append_entry_from)
  with x y(2) assms have "y = x" by (auto simp: ids_agree_def)
  with y(1) show "x \<in> set (fold append_entry new es)" by simp
qed

section \<open>Watermarks\<close>

text \<open>
  The commit and the applied index share a contract: raising keeps the maximum, so concurrent
  raises in any order give the same value and never lower it.
\<close>

locale watermark =
  fixes raise :: "u64 \<Rightarrow> 's \<Rightarrow> 's" and mark :: "'s \<Rightarrow> u64"
  assumes mark_raise: "mark (raise v s) = max (mark s) v"
begin

lemma mark_mono: "mark s \<le> mark (raise v s)"
  by (simp add: mark_raise)

lemma mark_fold: "mark (fold raise vs s) = Max (insert (mark s) (set vs))"
proof (induction vs arbitrary: s)
  case (Cons v vs)
  have "mark (fold raise (v # vs) s) = Max (insert (max (mark s) v) (set vs))"
    by (simp add: Cons mark_raise)
  also have "\<dots> = Max (insert (mark s) (set (v # vs)))"
    by (cases "set vs = {}") (auto simp: max.assoc max.left_commute max.commute)
  finally show ?case .
qed simp

lemma mark_fold_order: "set vs = set ws \<Longrightarrow> mark (fold raise vs s) = mark (fold raise ws s)"
  by (simp add: mark_fold)

lemma mark_fold_ge: "mark s \<le> mark (fold raise vs s)"
  by (simp add: mark_fold)

end

interpretation committed: watermark commit cl_commit_index
  by unfold_locales (simp add: commit_def fetch_max_def)

interpretation applied: watermark mark_applied cl_applied_index
  by unfold_locales (simp add: mark_applied_def fetch_max_def)

section \<open>The scan for unapplied entries\<close>

lemma unapplied_from_spec:
  "unapplied_from c i es = Some r \<Longrightarrow>
   set r \<subseteq> set es \<and>
   map (\<lambda>e. unat (le_index e)) r = [unat i..<unat i + length r] \<and>
   (r = [] \<or> unat i + length r \<le> Suc (unat c)) \<and>
   (Suc (unat c) \<le> unat i + length r \<or>
     (\<forall>e \<in> set es. unat (le_index e) \<noteq> unat i + length r))"
proof (induction c i es arbitrary: r rule: unapplied_from.induct)
  case (1 c i es)
  show ?case
  proof (cases "i \<le> c")
    case False
    with "1.prems" show ?thesis
      by (auto simp: unapplied_from.simps [of c i es] word_le_nat_alt)
  next
    case ic: True
    show ?thesis
    proof (cases "find (\<lambda>e. le_index e = i) es")
      case None
      with "1.prems" ic have r: "r = []" by (simp add: unapplied_from.simps [of c i es])
      from None have "\<forall>e \<in> set es. unat (le_index e) \<noteq> unat i"
        by (simp add: find_None_iff_all u64_eq_unat)
      with r show ?thesis by simp
    next
      case (Some e)
      with "1.prems" ic obtain r' where top: "i \<noteq> - 1" and r: "r = e # r'"
        and r': "unapplied_from c (i + 1) es = Some r'"
        by (auto simp: unapplied_from.simps [of c i es] split: if_splits)
      from find_Some_in [OF Some] have e: "e \<in> set es" "le_index e = i" by auto
      from "1.IH" [OF ic Some top r'] u64_succ_unat [OF top]
      have IH: "set r' \<subseteq> set es"
        "map (\<lambda>e. unat (le_index e)) r' = [Suc (unat i)..<Suc (unat i) + length r']"
        "r' = [] \<or> Suc (unat i) + length r' \<le> Suc (unat c)"
        "Suc (unat c) \<le> Suc (unat i) + length r' \<or>
         (\<forall>e \<in> set es. unat (le_index e) \<noteq> Suc (unat i) + length r')"
        by auto
      have "[unat i..<unat i + length r] = unat i # [Suc (unat i)..<Suc (unat i) + length r']"
        by (subst upt_conv_Cons) (simp_all add: r)
      with IH e r ic show ?thesis by (auto simp: word_le_nat_alt)
    qed
  qed
qed

lemma unapplied_from_total: "c \<noteq> - 1 \<Longrightarrow> \<exists>r. unapplied_from c i es = Some r"
proof (induction c i es rule: unapplied_from.induct)
  case (1 c i es)
  show ?case
  proof (cases "i \<le> c \<and> (\<exists>e. find (\<lambda>e. le_index e = i) es = Some e)")
    case True
    then obtain e where e: "i \<le> c" "find (\<lambda>e. le_index e = i) es = Some e" by blast
    with "1.prems" have "i \<noteq> - 1" by (auto simp: word_order.extremum_unique)
    with e "1.IH" [OF e(1) e(2)] "1.prems" show ?thesis
      by (auto simp: unapplied_from.simps [of c i es])
  next
    case False
    then show ?thesis by (auto simp: unapplied_from.simps [of c i es])
  qed
qed

section \<open>Concurrent appends\<close>

text \<open>
  The tasks that are inside \<open>append\<close>: those that have loaded the term, and those that hold an
  entry with its index but have not got the write lock yet.
\<close>

record 'j append_sys =
  as_log :: "'j consensus_log"
  as_loaded :: "(u64 \<times> 'j crud_operation) list"
  as_allocated :: "'j log_entry list"

definition append_sys_new :: "'j append_sys" where
  "append_sys_new = \<lparr>as_log = consensus_log_new, as_loaded = [], as_allocated = []\<rparr>"

text \<open>
  Besides the three steps of \<open>append\<close>, any task may change the term, commit or mark entries as
  applied. The guard of \<open>as_alloc\<close> is the bound of the model: a log has fewer than
  \<open>2 ^ 64 - 1\<close> entries, so \<open>fetch_add\<close> does not wrap.
\<close>

inductive append_step :: "'j append_sys \<Rightarrow> 'j append_sys \<Rightarrow> bool" where
  as_load: "append_step s (s\<lparr>as_loaded := (cl_current_term (as_log s), op) # as_loaded s\<rparr>)"
| as_alloc:
    "(t, op) \<in> set (as_loaded s) \<Longrightarrow> cl_next_index (as_log s) \<noteq> - 1 \<Longrightarrow>
     append_alloc now t op (as_log s) = (e, l) \<Longrightarrow>
     append_step s (s\<lparr>as_log := l, as_loaded := remove1 (t, op) (as_loaded s),
                      as_allocated := e # as_allocated s\<rparr>)"
| as_insert:
    "e \<in> set (as_allocated s) \<Longrightarrow>
     append_step s (s\<lparr>as_log := append_insert e (as_log s),
                      as_allocated := remove1 e (as_allocated s)\<rparr>)"
| as_set_term: "append_step s (s\<lparr>as_log := set_term t (as_log s)\<rparr>)"
| as_commit: "append_step s (s\<lparr>as_log := commit i (as_log s)\<rparr>)"
| as_mark: "append_step s (s\<lparr>as_log := mark_applied i (as_log s)\<rparr>)"

inductive append_reachable :: "'j append_sys \<Rightarrow> bool" where
  ar_init: "append_reachable append_sys_new"
| ar_step: "append_reachable s \<Longrightarrow> append_step s s' \<Longrightarrow> append_reachable s'"

inductive_cases append_stepE: "append_step s s'"

text \<open>
  The log and the entries in flight together hold every index below the next one exactly once,
  and the log is sorted.
\<close>

definition in_flight :: "'j append_sys \<Rightarrow> 'j log_entry list" where
  "in_flight s = as_allocated s @ cl_entries (as_log s)"

definition append_inv :: "'j append_sys \<Rightarrow> bool" where
  "append_inv s \<longleftrightarrow>
     log_sorted (cl_entries (as_log s)) \<and>
     distinct (map le_index (in_flight s)) \<and>
     unat ` le_index ` set (in_flight s) = {1..<unat (cl_next_index (as_log s))} \<and>
     0 < cl_next_index (as_log s)"

lemma append_inv_new: "append_inv append_sys_new"
  by (simp add: append_inv_def append_sys_new_def consensus_log_new_def in_flight_def)

lemma append_alloc_inv:
  assumes inv: "append_inv s" and top: "cl_next_index (as_log s) \<noteq> - 1"
    and alloc: "append_alloc now t op (as_log s) = (e, l)"
  shows "append_inv (s\<lparr>as_log := l, as_loaded := ld, as_allocated := e # as_allocated s\<rparr>)"
proof -
  let ?n = "cl_next_index (as_log s)"
  from alloc have e: "le_index e = ?n" and l: "l = as_log s\<lparr>cl_next_index := ?n + 1\<rparr>"
    by (auto simp: append_alloc_def)
  have idx: "unat ` le_index ` set (in_flight s) = {1..<unat ?n}" and pos: "0 < ?n"
    using inv by (auto simp: append_inv_def)
  have fresh: "?n \<notin> le_index ` set (in_flight s)"
  proof
    assume "?n \<in> le_index ` set (in_flight s)"
    then have "unat ?n \<in> {1..<unat ?n}" unfolding idx [symmetric] by (rule imageI)
    then show False by simp
  qed
  have "1 \<le> unat ?n" using pos by (simp add: word_less_nat_alt Suc_le_eq)
  then have "insert (unat ?n) {1..<unat ?n} = {1..<Suc (unat ?n)}" by auto
  moreover have "0 < ?n + 1"
    using u64_succ_unat [OF top] by (simp add: word_less_nat_alt)
  ultimately show ?thesis
    using inv fresh idx u64_succ_unat [OF top]
    by (auto simp: append_inv_def in_flight_def e l)
qed

lemma append_insert_inv:
  assumes inv: "append_inv s" and e: "e \<in> set (as_allocated s)"
  shows "append_inv (s\<lparr>as_log := append_insert e (as_log s),
                       as_allocated := remove1 e (as_allocated s)\<rparr>)"
proof -
  let ?es = "cl_entries (as_log s)" and ?al = "as_allocated s"
  have dist: "distinct (map le_index (?al @ ?es))" and sorted: "log_sorted ?es"
    using inv by (auto simp: append_inv_def in_flight_def)
  from dist e have "le_index e \<notin> le_index ` set ?es" by (auto simp: distinct_map)
  then have id: "le_log_id e \<notin> le_log_id ` set ?es" by auto
  let ?fl = "remove1 e ?al @ insert_before (\<lambda>x. le_log_id e < le_log_id x) e ?es"
  have same: "mset ?fl = mset (?al @ ?es)" using e by simp
  then have "mset (map le_index ?fl) = mset (map le_index (?al @ ?es))"
    by (simp only: mset_map)
  from mset_eq_imp_distinct_iff [OF this] dist have "distinct (map le_index ?fl)" by blast
  moreover from same have "set ?fl = set (?al @ ?es)" by (rule mset_eq_setD)
  ultimately show ?thesis
    using inv log_sorted_insert [OF sorted id]
    by (simp add: append_inv_def in_flight_def append_insert_def del: set_append map_append
        distinct_append)
qed

lemma append_inv_frame:
  assumes "append_inv s" "cl_entries l = cl_entries (as_log s)"
    "cl_next_index l = cl_next_index (as_log s)"
  shows "append_inv (s\<lparr>as_log := l\<rparr>)"
  using assms by (simp add: append_inv_def in_flight_def)

lemma append_inv_load: "append_inv s \<Longrightarrow> append_inv (s\<lparr>as_loaded := ld\<rparr>)"
  by (simp add: append_inv_def in_flight_def)

lemma append_step_inv:
  assumes "append_step s s'" and "append_inv s"
  shows "append_inv s'"
  using assms(1)
proof cases
  case as_load
  then show ?thesis using assms(2) by (simp add: append_inv_load)
next
  case (as_alloc t op now e l)
  from append_alloc_inv [OF assms(2) as_alloc(3,4)] show ?thesis by (simp only: as_alloc(1))
next
  case (as_insert e)
  from append_insert_inv [OF assms(2) as_insert(2)] show ?thesis by (simp only: as_insert(1))
next
  case as_set_term
  then show ?thesis using assms(2) by (simp add: append_inv_frame set_term_def)
next
  case as_commit
  then show ?thesis using assms(2) by (simp add: append_inv_frame commit_def)
next
  case as_mark
  then show ?thesis using assms(2) by (simp add: append_inv_frame mark_applied_def)
qed

lemma append_reachable_inv: "append_reachable s \<Longrightarrow> append_inv s"
proof (induction rule: append_reachable.induct)
  case ar_init
  show ?case by (rule append_inv_new)
next
  case (ar_step s s')
  from ar_step.hyps(2) ar_step.IH show ?case by (rule append_step_inv)
qed

section \<open>Receiving batches\<close>

text \<open>A follower's log after a sequence of append requests, whatever their batches and order.\<close>

definition receive_all ::
  "('j log_entry list \<times> u64) list \<Rightarrow> 'j consensus_log \<Rightarrow> 'j consensus_log"
where
  "receive_all bs l = fold (\<lambda>(es, c) l. snd (append_entries es c l)) bs l"

lemma receive_all_Nil [simp]: "receive_all [] l = l"
  by (simp add: receive_all_def)

lemma receive_all_Cons [simp]:
  "receive_all ((es, c) # bs) l = receive_all bs (snd (append_entries es c l))"
  by (simp add: receive_all_def)

lemma receive_all_entries:
  "cl_entries (receive_all bs l) = fold append_entry (concat (map fst bs)) (cl_entries l)"
  by (induction bs arbitrary: l) (auto simp: append_entries_def)

lemma receive_all_commit:
  "cl_commit_index (receive_all bs l) = cl_commit_index (fold commit (map snd bs) l)"
proof (induction bs arbitrary: l)
  case (Cons b bs)
  then show ?case
    by (cases b)
      (simp add: append_entries_def committed.mark_fold committed.mark_raise fetch_max_def)
qed simp

lemma receive_all_next [simp]: "cl_next_index (receive_all bs l) = cl_next_index l"
  by (induction bs arbitrary: l) (auto simp: append_entries_def)

section \<open>Properties\<close>

text \<open>
  C10. Whatever the interleaving of the tasks inside \<open>append\<close>, with term changes, commits and
  applications in between, the log is strictly sorted by log id, no index is used twice, and
  once no task is in flight the log holds exactly the indices below the next one: no gap.
\<close>

theorem concurrent_appends:
  assumes "append_reachable s"
  shows "log_sorted (cl_entries (as_log s)) \<and>
    distinct (map le_index (cl_entries (as_log s))) \<and>
    (as_allocated s = [] \<longrightarrow>
      unat ` le_index ` set (cl_entries (as_log s)) = {1..<unat (cl_next_index (as_log s))})"
  using append_reachable_inv [OF assms] by (auto simp: append_inv_def in_flight_def)

definition example_entry :: "u64 \<Rightarrow> u64 \<Rightarrow> string \<Rightarrow> unit log_entry" where
  "example_entry t i k =
     \<lparr>le_log_id = LogId t i, le_operation = Delete ''/api/products'' k, le_timestamp_ms = 7\<rparr>"

lemma concurrent_appends_witness:
  "\<exists>s :: unit append_sys. append_reachable s \<and> as_loaded s \<noteq> [] \<and>
     log_sorted (cl_entries (as_log s))"
proof -
  let ?s = "append_sys_new\<lparr>as_loaded := (1, Delete ''/api/products'' ''a'') #
              as_loaded append_sys_new\<rparr> :: unit append_sys"
  have r: "append_reachable ?s"
    using ar_step [OF ar_init as_load [of append_sys_new "Delete ''/api/products'' ''a''"]]
    by (simp add: append_sys_new_def consensus_log_new_def)
  from concurrent_appends [OF r] r show ?thesis by (intro exI [of _ ?s]) simp
qed

text \<open>
  C11. Replication converges: two followers that have received the same entries, in any order,
  in any batches and with any repetitions, hold the same log, as long as entries that share an
  id are the same entry; and with the same leader commits they hold the same commit index.
\<close>

theorem followers_converge:
  assumes "set (concat (map fst bs1)) = set (concat (map fst bs2))"
    and "ids_agree (set (concat (map fst bs1)))"
    and "set (map snd bs1) = set (map snd bs2)"
  shows "cl_entries (receive_all bs1 consensus_log_new) =
           cl_entries (receive_all bs2 consensus_log_new) \<and>
         cl_commit_index (receive_all bs1 consensus_log_new) =
           cl_commit_index (receive_all bs2 consensus_log_new)"
proof
  show "cl_entries (receive_all bs1 consensus_log_new) =
        cl_entries (receive_all bs2 consensus_log_new)"
    unfolding receive_all_entries
    by (rule log_sorted_unique)
      (simp_all add: assms(1,2) assms(2) [unfolded assms(1)] fold_append_entry_sorted
         fold_append_entry_set consensus_log_new_def del: set_concat)
  show "cl_commit_index (receive_all bs1 consensus_log_new) =
        cl_commit_index (receive_all bs2 consensus_log_new)"
    unfolding receive_all_commit by (rule committed.mark_fold_order) (rule assms(3))
qed

lemma followers_converge_witness:
  "cl_entries (receive_all [([example_entry 1 1 ''a''], 0), ([example_entry 1 2 ''b''], 1)]
                 consensus_log_new) =
   cl_entries (receive_all [([example_entry 1 2 ''b'', example_entry 1 1 ''a''], 1), ([], 0)]
                 consensus_log_new)"
  by (rule followers_converge [THEN conjunct1])
    (auto simp: ids_agree_def example_entry_def)

text \<open>
  What \<open>get_unapplied_entries\<close> returns: entries of the log with the consecutive indices from
  \<open>applied_index + 1\<close>, none past the commit index, and it stops only at the commit index or at
  a real gap, an index no entry of the log has. It does not overflow below \<open>u64::MAX\<close>.
\<close>

theorem unapplied_entries:
  assumes "cl_commit_index l \<noteq> - 1"
  shows "\<exists>r. get_unapplied_entries l = Some r \<and> set r \<subseteq> set (cl_entries l) \<and>
    map (\<lambda>e. unat (le_index e)) r =
      [Suc (unat (cl_applied_index l))..<Suc (unat (cl_applied_index l)) + length r] \<and>
    (\<forall>e \<in> set r. le_index e \<le> cl_commit_index l) \<and>
    (unat (cl_commit_index l) \<le> unat (cl_applied_index l) + length r \<or>
      (\<forall>e \<in> set (cl_entries l).
         unat (le_index e) \<noteq> Suc (unat (cl_applied_index l)) + length r))"
proof (cases "cl_commit_index l \<le> cl_applied_index l")
  case True
  then show ?thesis by (simp add: get_unapplied_entries_def word_le_nat_alt)
next
  case False
  let ?a = "cl_applied_index l" and ?c = "cl_commit_index l"
  from False have "?a \<noteq> - 1" by (auto simp: word_order.extremum)
  then have suc: "unat (?a + 1) = Suc (unat ?a)" by (rule u64_succ_unat)
  obtain r where r: "unapplied_from ?c (?a + 1) (cl_entries l) = Some r"
    using unapplied_from_total [OF assms] by blast
  note spec = unapplied_from_spec [OF r, unfolded suc]
  have "unat (le_index e) \<le> unat ?c" if "e \<in> set r" for e
  proof -
    have "unat (le_index e) \<in> set (map (\<lambda>e. unat (le_index e)) r)" using that by simp
    with spec that show ?thesis by auto
  qed
  then have "\<forall>e \<in> set r. le_index e \<le> ?c" by (simp add: word_le_nat_alt)
  with False r spec show ?thesis by (auto simp: get_unapplied_entries_def)
qed

lemma unapplied_entries_witness:
  "\<exists>r. get_unapplied_entries
         (receive_all [([example_entry 1 2 ''b'', example_entry 1 1 ''a''], 2)]
           consensus_log_new) = Some r"
proof -
  let ?l = "receive_all [([example_entry 1 2 ''b'', example_entry 1 1 ''a''], 2)]
              consensus_log_new"
  have "cl_commit_index ?l \<noteq> - 1"
    by (simp add: append_entries_def consensus_log_new_def fetch_max_def)
  from unapplied_entries [OF this] show ?thesis by blast
qed

text \<open>
  Retransmission is harmless: the leader sends its whole log with every request, and
  receiving a request again, or after it a part of it with an older commit index, changes
  nothing.
\<close>

theorem append_entries_idempotent:
  assumes "set old \<subseteq> set new" and "c' \<le> c"
  shows "snd (append_entries old c' (snd (append_entries new c l))) = snd (append_entries new c l)"
proof -
  have "le_log_id ` set old \<subseteq> le_log_id ` set (fold append_entry new (cl_entries l))"
    using assms(1) by (auto simp: fold_append_entry_ids)
  from fold_append_entry_old [OF this] show ?thesis
    using assms(2) by (auto simp: append_entries_def fetch_max_def max_def)
qed

lemma append_entries_idempotent_witness:
  "snd (append_entries [example_entry 1 1 ''a''] 0
     (snd (append_entries [example_entry 1 1 ''a'', example_entry 1 2 ''b''] 2
        consensus_log_new))) =
   snd (append_entries [example_entry 1 1 ''a'', example_entry 1 2 ''b''] 2 consensus_log_new)"
  by (rule append_entries_idempotent) simp_all

text \<open>
  Failover reuses log ids. Receiving entries never moves the next index, and an election
  changes neither the term nor the index of the log, so the first operation a promoted follower
  appends gets index 1 again; the replicas that hold an entry with this id drop the new one.
\<close>

theorem failover_reuses_ids:
  fixes bs :: "('j log_entry list \<times> u64) list"
  defines "follower \<equiv> receive_all bs consensus_log_new"
  shows "le_log_id (fst (append_op now op follower)) = LogId (cl_current_term follower) 1 \<and>
    (\<forall>x \<in> set (cl_entries peer). le_log_id x = LogId (cl_current_term follower) 1 \<longrightarrow>
       cl_entries (snd (append_entries [fst (append_op now op follower)] c peer)) =
       cl_entries peer)"
proof -
  have id: "le_log_id (fst (append_op now op follower)) = LogId (cl_current_term follower) 1"
    by (simp add: append_op_def append_alloc_def follower_def consensus_log_new_def)
  moreover have "append_entry e (cl_entries peer) = cl_entries peer"
    if "x \<in> set (cl_entries peer)" "le_log_id x = le_log_id e" for x e
    using that by (metis append_entry_old image_eqI)
  ultimately show ?thesis by (auto simp: append_entries_def)
qed

lemma failover_reuses_ids_witness:
  "le_log_id (fst (append_op 9 (Delete ''/api/products'' ''z'')
      (receive_all [([example_entry 1 1 ''a''], 1)] consensus_log_new))) =
   LogId (cl_current_term (receive_all [([example_entry 1 1 ''a''], 1)] consensus_log_new)) 1"
  by (rule failover_reuses_ids [THEN conjunct1])

end
