(* ===== verification/Replica.thy ===== *)
theory Replica
  imports ConsensusLog
begin

text \<open>
  A replica: the state machine that committed operations drive and the follower's handler of
  append requests, from \<^verbatim>\<open>lithair-core/src/app/mod.rs\<close> (\<open>handle_raft_append_entries\<close>,
  \<open>apply_crud_operation\<close>, \<open>apply_schema_change\<close>). The handlers of the registered models are
  trait objects, so they are the record \<open>model_handler\<close> of their three operations.
\<close>

section \<open>Schema changes and their inverses\<close>

fun join :: "string \<Rightarrow> string list \<Rightarrow> string" where
  "join sep [] = []"
| "join sep [x] = x"
| "join sep (x # y # ys) = x @ sep @ join sep (y # ys)"

fun field_type_debug :: "field_type \<Rightarrow> string" where
  "field_type_debug FtString = ''String''"
| "field_type_debug FtInteger = ''Integer''"
| "field_type_debug FtFloat = ''Float''"
| "field_type_debug FtBoolean = ''Boolean''"
| "field_type_debug FtDateTime = ''DateTime''"
| "field_type_debug FtUuid = ''Uuid''"
| "field_type_debug FtJson = ''Json''"
| "field_type_debug FtBinary = ''Binary''"

definition bool_display :: "bool \<Rightarrow> string" where
  "bool_display b = (if b then ''true'' else ''false'')"

text \<open>
  The change is only logged in this version of the code; what is returned is the operation that
  undoes it. \<open>dbg\<close> is the debug format of a list of strings.
\<close>

fun apply_schema_change ::
  "(string list \<Rightarrow> string) \<Rightarrow> 'j schema_change \<Rightarrow> string + 'j schema_change"
where
  "apply_schema_change dbg (AddModel name schema) = Inr (RemoveModel name None)"
| "apply_schema_change dbg (RemoveModel name backup) =
     Inr (Custom (''Restore model: '' @ name) (''restore_model:'' @ name)
            (''remove_model:'' @ name))"
| "apply_schema_change dbg (AddField model field dflt) =
     Inr (RemoveField model (fd_name field))"
| "apply_schema_change dbg (RemoveField model field) =
     Inr (Custom (''Restore field: '' @ model @ ''.'' @ field)
            (''restore_field:'' @ model @ '':'' @ field)
            (''remove_field:'' @ model @ '':'' @ field))"
| "apply_schema_change dbg (RenameField model old_name new_name) =
     Inr (RenameField model new_name old_name)"
| "apply_schema_change dbg (ChangeFieldType model field new_type transform) =
     Inr (Custom (''Restore field type: '' @ model @ ''.'' @ field)
            (''restore_type:'' @ model @ '':'' @ field)
            (''change_type:'' @ model @ '':'' @ field @ '':'' @ field_type_debug new_type))"
| "apply_schema_change dbg (AddIndex model fs uniq) =
     Inr (Custom (''Remove index on '' @ model @ ''.'' @ dbg fs)
            (''drop_index:'' @ model @ '':'' @ join '','' fs)
            (''create_index:'' @ model @ '':'' @ join '','' fs @ '':'' @ bool_display uniq))"
| "apply_schema_change dbg (Custom description forward backward) =
     Inr (Custom (''Undo: '' @ description) backward forward)"

lemma apply_schema_change_ok: "\<exists>c'. apply_schema_change dbg c = Inr c'"
  by (cases c) auto

lemma rename_undone_twice:
  "apply_schema_change dbg (RenameField m a b) = Inr c \<Longrightarrow>
   apply_schema_change dbg c = Inr (RenameField m a b)"
  by auto

section \<open>The operations of the models\<close>

text \<open>
  A handler applies an item, an update and a delete to a model's store; it reports an error or
  success, and the store it leaves.
\<close>

record ('j, 'm) model_handler =
  h_item :: "'j \<Rightarrow> 'm \<Rightarrow> (string + unit) \<times> 'm"
  h_update :: "string \<Rightarrow> 'j \<Rightarrow> 'm \<Rightarrow> (string + unit) \<times> 'm"
  h_delete :: "string \<Rightarrow> 'm \<Rightarrow> (string + unit) \<times> 'm"

record ('j, 'm) app_state =
  app_models :: "(string \<times> 'm) list"
  app_manager :: "'j migration_manager option"

datatype 'j applied_result =
    AppliedData 'j
  | AppliedDelete string
  | MigrationStarted uuid version version
  | StepApplied uuid u32
  | MigrationCommitted uuid string
  | MigrationRolledBack uuid u32 string
  | PartialRollback uuid u32 string "u32 list"
  | MigrationAcknowledged uuid

datatype apply_error =
    ModelNotFound string
  | HandlerError string
  | ManagerError migration_error
  | MigrationMissing uuid
  | StepFailed u32 string

definition starts_with :: "string \<Rightarrow> string \<Rightarrow> bool" where
  "starts_with s pre \<longleftrightarrow> take (length pre) s = pre"

text \<open>The first model whose base path is a prefix of the path.\<close>

definition find_model :: "string \<Rightarrow> (string \<times> 'm) list \<Rightarrow> nat option" where
  "find_model path ms = position (\<lambda>(base, m). starts_with path base) ms"

definition with_model ::
  "string \<Rightarrow> ('m \<Rightarrow> (string + unit) \<times> 'm) \<Rightarrow> 'j applied_result \<Rightarrow> ('j, 'm) app_state \<Rightarrow>
   (apply_error + 'j applied_result) \<times> ('j, 'm) app_state"
where
  "with_model path f ok s =
     (case find_model path (app_models s) of
        None \<Rightarrow> (Inl (ModelNotFound path), s)
      | Some k \<Rightarrow>
          (let (base, m) = app_models s ! k; (res, m') = f m;
               s' = s\<lparr>app_models := (app_models s)[k := (base, m')]\<rparr>
           in case res of Inl e \<Rightarrow> (Inl (HandlerError e), s') | Inr _ \<Rightarrow> (Inr ok, s')))"

text \<open>
  Running the rollback operations, most recent step first: the steps whose undo fails are
  collected. As \<open>apply_schema_change\<close> never fails (\<open>apply_schema_change_ok\<close>) there are none.
\<close>

definition rollback_errors :: "(string list \<Rightarrow> string) \<Rightarrow> 'j rollback_op list \<Rightarrow> u32 list" where
  "rollback_errors dbg ops =
     map ro_step_index (filter (\<lambda>op. isl (apply_schema_change dbg (ro_operation op))) ops)"

fun apply_crud_operation ::
  "('j, 'm) model_handler \<Rightarrow> (string list \<Rightarrow> string) \<Rightarrow> u64 \<Rightarrow> 'j crud_operation \<Rightarrow>
   ('j, 'm) app_state \<Rightarrow> (apply_error + 'j applied_result) \<times> ('j, 'm) app_state"
where
  "apply_crud_operation h dbg now (Create path data) s =
     with_model path (h_item h data) (AppliedData data) s"
| "apply_crud_operation h dbg now (Update path i data) s =
     with_model path (h_update h i data) (AppliedData data) s"
| "apply_crud_operation h dbg now (Delete path i) s =
     with_model path (h_delete h i) (AppliedDelete i) s"
| "apply_crud_operation h dbg now (MigrationBegin from_v to_v mid) s =
     (case app_manager s of
        None \<Rightarrow> (Inr (MigrationAcknowledged mid), s)
      | Some mgr \<Rightarrow>
          (case begin_migration now mid from_v to_v mgr of
             Inl e \<Rightarrow> (Inl (ManagerError e), s)
           | Inr mgr' \<Rightarrow> (Inr (MigrationStarted mid from_v to_v),
                           s\<lparr>app_manager := Some mgr'\<rparr>)))"
| "apply_crud_operation h dbg now (MigrationStep mid step op) s =
     (case apply_schema_change dbg op of
        Inl e \<Rightarrow> (Inl (StepFailed step e), s)
      | Inr undo_op \<Rightarrow>
          (case app_manager s of
             None \<Rightarrow> (Inr (StepApplied mid step), s)
           | Some mgr \<Rightarrow>
               (case manager_record_step now mid step undo_op None mgr of
                  Inl _ \<Rightarrow> (Inr (StepApplied mid step), s)
                | Inr mgr' \<Rightarrow> (Inr (StepApplied mid step), s\<lparr>app_manager := Some mgr'\<rparr>))))"
| "apply_crud_operation h dbg now (MigrationCommit mid checksum) s =
     (case app_manager s of
        None \<Rightarrow> (Inr (MigrationAcknowledged mid), s)
      | Some mgr \<Rightarrow>
          (case get_migration mid mgr of
             None \<Rightarrow> (Inl (MigrationMissing mid), s)
           | Some ctx \<Rightarrow>
               (case commit_migration now mid (mc_to_version ctx) mgr of
                  Inl e \<Rightarrow> (Inl (ManagerError e), s)
                | Inr mgr' \<Rightarrow> (Inr (MigrationCommitted mid checksum),
                                s\<lparr>app_manager := Some mgr'\<rparr>))))"
| "apply_crud_operation h dbg now (MigrationRollback mid failed reason) s =
     (case app_manager s of
        None \<Rightarrow> (Inr (MigrationAcknowledged mid), s)
      | Some mgr \<Rightarrow>
          (case rollback_migration now mid mgr of
             Inl e \<Rightarrow> (Inl (ManagerError e), s)
           | Inr (ops, mgr') \<Rightarrow>
               (Inr (if rollback_errors dbg ops = [] then MigrationRolledBack mid failed reason
                     else PartialRollback mid failed reason (rollback_errors dbg ops)),
                s\<lparr>app_manager := Some mgr'\<rparr>)))"

lemma rollback_errors_Nil: "rollback_errors dbg ops = []"
proof -
  have "\<not> isl (apply_schema_change dbg c)" for c :: "'a schema_change"
    using apply_schema_change_ok [of dbg c] by auto
  then show ?thesis by (simp add: rollback_errors_def)
qed

section \<open>The follower\<close>

text \<open>The loop over the unapplied entries: it stops at the first operation that fails.\<close>

fun apply_unapplied ::
  "('j crud_operation \<Rightarrow> 's \<Rightarrow> ('e + 'r) \<times> 's) \<Rightarrow> 'j log_entry list \<Rightarrow>
   'j consensus_log \<Rightarrow> 's \<Rightarrow> bool \<times> 'j consensus_log \<times> 's"
where
  "apply_unapplied apply [] l s = (True, l, s)"
| "apply_unapplied apply (e # es) l s =
     (case apply (le_operation e) s of
        (Inr _, s') \<Rightarrow> apply_unapplied apply es (mark_applied (le_index e) l) s'
      | (Inl _, s') \<Rightarrow> (False, l, s'))"

text \<open>
  The handler for a parsed request: \<open>None\<close> in place of the response is the overflow panic of the
  scan. This is a call that runs alone; the heartbeat it records belongs to the election state.
\<close>

definition response_of :: "bool \<Rightarrow> 'j consensus_log \<Rightarrow> append_entries_response" where
  "response_of ok l =
     \<lparr>rs_term = cl_current_term l, rs_success = ok, rs_last_log_index = last_index l,
      rs_applied_index = cl_applied_index l\<rparr>"

definition handle_append ::
  "('j crud_operation \<Rightarrow> 's \<Rightarrow> ('e + 'r) \<times> 's) \<Rightarrow> 'j append_entries_request \<Rightarrow>
   'j consensus_log \<times> 's \<Rightarrow> append_entries_response option \<times> 'j consensus_log \<times> 's"
where
  "handle_append apply req st =
     (let (l, s) = st in
      if ar_term req < cl_current_term l then (Some (response_of False l), l, s)
      else
        let l1 = (if cl_current_term l < ar_term req then set_term (ar_term req) l else l);
            l2 = snd (append_entries (ar_entries req) (ar_leader_commit req) l1)
        in case get_unapplied_entries l2 of
             None \<Rightarrow> (None, l2, s)
           | Some es \<Rightarrow>
               (let (ok, l3, s') = apply_unapplied apply es l2 s
                in (Some (response_of ok l3), l3, s')))"

datatype append_reply =
  InvalidRequest | LogNotInitialized | Answer append_entries_response | AppendPanic

definition handle_raft_append_entries ::
  "('j crud_operation \<Rightarrow> 's \<Rightarrow> ('e + 'r) \<times> 's) \<Rightarrow> 'j append_entries_request option \<Rightarrow>
   'j consensus_log option \<times> 's \<Rightarrow> append_reply \<times> 'j consensus_log option \<times> 's"
where
  "handle_raft_append_entries apply parsed st =
     (case parsed of
        None \<Rightarrow> (InvalidRequest, st)
      | Some req \<Rightarrow>
          (case fst st of
             None \<Rightarrow> (LogNotInitialized, st)
           | Some l \<Rightarrow>
               (let (r, l', s') = handle_append apply req (l, snd st)
                in ((case r of None \<Rightarrow> AppendPanic | Some x \<Rightarrow> Answer x), Some l', s'))))"

section \<open>What the follower has applied\<close>

text \<open>
  The reference: the entry of an index, and the replay of the operations of the indices
  \<open>1, ..., n\<close> in order.
\<close>

definition entry_at :: "'j consensus_log \<Rightarrow> nat \<Rightarrow> 'j log_entry option" where
  "entry_at l i = find (\<lambda>e. unat (le_index e) = i) (cl_entries l)"

definition replay ::
  "('j crud_operation \<Rightarrow> 's \<Rightarrow> ('e + 'r) \<times> 's) \<Rightarrow> 'j consensus_log \<Rightarrow> nat \<Rightarrow> 's \<Rightarrow> 's"
where
  "replay apply l n s0 =
     fold (\<lambda>i s. case entry_at l i of Some e \<Rightarrow> snd (apply (le_operation e) s) | None \<Rightarrow> s)
       [1..<Suc n] s0"

definition index_agree :: "'j log_entry set \<Rightarrow> bool" where
  "index_agree S \<longleftrightarrow> (\<forall>a \<in> S. \<forall>b \<in> S. le_index a = le_index b \<longrightarrow> a = b)"

lemma index_agree_subset: "index_agree S \<Longrightarrow> T \<subseteq> S \<Longrightarrow> index_agree T"
  by (auto simp: index_agree_def)

lemma entry_at_iff:
  assumes "index_agree (set (cl_entries l))"
  shows "entry_at l i = Some e \<longleftrightarrow> e \<in> set (cl_entries l) \<and> unat (le_index e) = i"
proof
  assume "entry_at l i = Some e"
  then show "e \<in> set (cl_entries l) \<and> unat (le_index e) = i"
    unfolding entry_at_def by (rule find_Some_in)
next
  assume "e \<in> set (cl_entries l) \<and> unat (le_index e) = i"
  with assms show "entry_at l i = Some e"
    unfolding entry_at_def
    by (intro find_unique) (auto simp: index_agree_def u64_eq_unat)
qed

lemma replay_cong:
  assumes "\<And>i. 1 \<le> i \<Longrightarrow> i \<le> n \<Longrightarrow> entry_at l i = entry_at l' i"
  shows "replay apply l n s0 = replay apply l' n s0"
  unfolding replay_def by (rule fold_cong) (auto simp: assms)

lemma replay_Suc:
  "replay apply l (Suc n) s0 =
     (case entry_at l (Suc n) of
        Some e \<Rightarrow> snd (apply (le_operation e) (replay apply l n s0))
      | None \<Rightarrow> replay apply l n s0)"
  by (simp add: replay_def split: option.splits)

text \<open>An operation that fails leaves the state as it is.\<close>

definition fails_clean :: "('op \<Rightarrow> 's \<Rightarrow> ('e + 'r) \<times> 's) \<Rightarrow> bool" where
  "fails_clean apply \<longleftrightarrow> (\<forall>op s. isl (fst (apply op s)) \<longrightarrow> snd (apply op s) = s)"

text \<open>
  The follower's invariant, for a set \<open>S\<close> of entries that agree on their indices: the log holds
  entries of \<open>S\<close>, every index up to the applied one is in the log, and the state is the replay
  up to it.
\<close>

definition follower_inv ::
  "('j crud_operation \<Rightarrow> 's \<Rightarrow> ('e + 'r) \<times> 's) \<Rightarrow> 'j log_entry set \<Rightarrow> 's \<Rightarrow>
   'j consensus_log \<times> 's \<Rightarrow> bool"
where
  "follower_inv apply S s0 st \<longleftrightarrow>
     set (cl_entries (fst st)) \<subseteq> S \<and>
     (\<forall>i. 1 \<le> i \<and> i \<le> unat (cl_applied_index (fst st)) \<longrightarrow> entry_at (fst st) i \<noteq> None) \<and>
     snd st = replay apply (fst st) (unat (cl_applied_index (fst st))) s0"

lemma apply_one_inv:
  assumes agree: "index_agree S" and inv: "follower_inv apply S s0 (l, s)"
    and e: "e \<in> set (cl_entries l)" "unat (le_index e) = Suc (unat (cl_applied_index l))"
    and ap: "apply (le_operation e) s = (Inr x, s1)"
  shows "follower_inv apply S s0 (mark_applied (le_index e) l, s1) \<and>
    unat (cl_applied_index (mark_applied (le_index e) l)) = Suc (unat (cl_applied_index l))"
proof -
  let ?a = "unat (cl_applied_index l)" and ?l = "mark_applied (le_index e) l"
  have ap_idx: "unat (cl_applied_index ?l) = Suc ?a"
    using e(2) by (simp add: mark_applied_def fetch_max_def max_def word_le_nat_alt)
  have ents: "cl_entries ?l = cl_entries l" by (simp add: mark_applied_def)
  have same: "entry_at ?l i = entry_at l i" for i
    by (simp add: entry_at_def mark_applied_def)
  have ag: "index_agree (set (cl_entries l))"
    using inv agree by (auto simp: follower_inv_def intro: index_agree_subset)
  have at: "entry_at l (Suc ?a) = Some e"
    using e by (simp add: entry_at_iff [OF ag])
  have "replay apply ?l (Suc ?a) s0 = replay apply l (Suc ?a) s0"
    by (rule replay_cong) (rule same)
  also have "\<dots> = s1"
    using inv at ap by (simp add: replay_Suc follower_inv_def)
  finally show ?thesis
    using inv at by (auto simp: follower_inv_def ap_idx same le_Suc_eq ents)
qed

lemma get_unapplied_shape:
  assumes "get_unapplied_entries l = Some r"
  shows "set r \<subseteq> set (cl_entries l) \<and>
    map (\<lambda>e. unat (le_index e)) r =
      [Suc (unat (cl_applied_index l))..<Suc (unat (cl_applied_index l)) + length r]"
proof (cases "cl_commit_index l \<le> cl_applied_index l")
  case True
  with assms show ?thesis by (simp add: get_unapplied_entries_def)
next
  case False
  then have "cl_applied_index l \<noteq> - 1" by (auto simp: word_order.extremum)
  from u64_succ_unat [OF this] False assms show ?thesis
    using unapplied_from_spec [of "cl_commit_index l" "cl_applied_index l + 1" "cl_entries l" r]
    by (simp add: get_unapplied_entries_def)
qed

lemma append_entries_inv:
  assumes inv: "follower_inv apply S s0 (l, s)" and new: "set new \<subseteq> S" and agree: "index_agree S"
    and l1: "cl_entries l1 = cl_entries l" "cl_applied_index l1 = cl_applied_index l"
  shows "follower_inv apply S s0 (snd (append_entries new c l1), s)"
proof -
  let ?l = "snd (append_entries new c l1)"
  have es: "cl_entries ?l = fold append_entry new (cl_entries l)"
    and idx: "cl_applied_index ?l = cl_applied_index l"
    by (simp_all add: append_entries_def l1)
  have sub: "set (cl_entries ?l) \<subseteq> S"
    using inv new by (auto simp: es follower_inv_def dest!: fold_append_entry_from)
  have ag: "index_agree (set (cl_entries l))" "index_agree (set (cl_entries ?l))"
    using inv agree sub by (auto simp: follower_inv_def intro: index_agree_subset)
  have at: "entry_at ?l i = entry_at l i"
    if i: "1 \<le> i" "i \<le> unat (cl_applied_index l)" for i
  proof -
    from inv i obtain e where e: "entry_at l i = Some e" by (auto simp: follower_inv_def)
    then have "e \<in> set (cl_entries ?l) \<and> unat (le_index e) = i"
      by (auto simp: entry_at_iff [OF ag(1)] es intro: fold_append_entry_keeps)
    then show ?thesis by (simp add: e entry_at_iff [OF ag(2)])
  qed
  have "replay apply ?l (unat (cl_applied_index l)) s0
        = replay apply l (unat (cl_applied_index l)) s0"
    by (rule replay_cong) (rule at)
  with inv sub at show ?thesis by (auto simp: follower_inv_def idx)
qed

section \<open>Concurrent handlers\<close>

text \<open>
  The handlers of concurrent requests interleave: taking over a term, appending under the log's
  lock, and the drain under the apply mutex, which takes its list of entries once and then
  applies them one by one while other handlers may go on appending. \<open>fo_draining\<close> is the list
  left to the handler that holds the mutex. \<open>S\<close> is the set of entries that leaders send.
\<close>

record ('j, 's) follower =
  fo_log :: "'j consensus_log"
  fo_state :: 's
  fo_draining :: "'j log_entry list option"

definition follower_new :: "'s \<Rightarrow> ('j, 's) follower" where
  "follower_new s0 = \<lparr>fo_log = consensus_log_new, fo_state = s0, fo_draining = None\<rparr>"

inductive follower_step ::
  "('j crud_operation \<Rightarrow> 's \<Rightarrow> ('e + 'r) \<times> 's) \<Rightarrow> 'j log_entry set \<Rightarrow>
   ('j, 's) follower \<Rightarrow> ('j, 's) follower \<Rightarrow> bool"
  for app S where
  fs_term: "follower_step app S f (f\<lparr>fo_log := set_term t (fo_log f)\<rparr>)"
| fs_append:
    "set es \<subseteq> S \<Longrightarrow>
     follower_step app S f (f\<lparr>fo_log := snd (append_entries es c (fo_log f))\<rparr>)"
| fs_lock:
    "fo_draining f = None \<Longrightarrow> get_unapplied_entries (fo_log f) = Some es \<Longrightarrow>
     follower_step app S f (f\<lparr>fo_draining := Some es\<rparr>)"
| fs_apply:
    "fo_draining f = Some (e # es) \<Longrightarrow> app (le_operation e) (fo_state f) = (Inr r, s) \<Longrightarrow>
     follower_step app S f (f\<lparr>fo_log := mark_applied (le_index e) (fo_log f), fo_state := s,
                               fo_draining := Some es\<rparr>)"
| fs_fail:
    "fo_draining f = Some (e # es) \<Longrightarrow> app (le_operation e) (fo_state f) = (Inl x, s) \<Longrightarrow>
     follower_step app S f (f\<lparr>fo_state := s, fo_draining := None\<rparr>)"
| fs_unlock:
    "fo_draining f = Some [] \<Longrightarrow> follower_step app S f (f\<lparr>fo_draining := None\<rparr>)"

inductive follower_reachable ::
  "('j crud_operation \<Rightarrow> 's \<Rightarrow> ('e + 'r) \<times> 's) \<Rightarrow> 'j log_entry set \<Rightarrow> 's \<Rightarrow>
   ('j, 's) follower \<Rightarrow> bool"
  for app S s0 where
  fr_init: "follower_reachable app S s0 (follower_new s0)"
| fr_step:
    "follower_reachable app S s0 f \<Longrightarrow> follower_step app S f f' \<Longrightarrow>
     follower_reachable app S s0 f'"

definition draining_ok :: "'j consensus_log \<Rightarrow> 'j log_entry list option \<Rightarrow> bool" where
  "draining_ok l d \<longleftrightarrow>
     (\<forall>es. d = Some es \<longrightarrow> set es \<subseteq> set (cl_entries l) \<and>
        map (\<lambda>e. unat (le_index e)) es =
          [Suc (unat (cl_applied_index l))..<Suc (unat (cl_applied_index l)) + length es])"

lemma draining_ok_None [simp]: "draining_ok l None"
  by (simp add: draining_ok_def)

lemma draining_ok_Cons:
  assumes "draining_ok l (Some (e # es))"
  shows "e \<in> set (cl_entries l)" "unat (le_index e) = Suc (unat (cl_applied_index l))"
    "cl_entries l' = cl_entries l \<Longrightarrow>
     unat (cl_applied_index l') = Suc (unat (cl_applied_index l)) \<Longrightarrow> draining_ok l' (Some es)"
  using assms by (auto simp: draining_ok_def upt_conv_Cons simp del: upt_Suc)

definition follower_ok ::
  "('j crud_operation \<Rightarrow> 's \<Rightarrow> ('e + 'r) \<times> 's) \<Rightarrow> 'j log_entry set \<Rightarrow> 's \<Rightarrow>
   ('j, 's) follower \<Rightarrow> bool"
where
  "follower_ok apply S s0 f \<longleftrightarrow>
     follower_inv apply S s0 (fo_log f, fo_state f) \<and> draining_ok (fo_log f) (fo_draining f)"

lemma follower_step_ok:
  assumes clean: "fails_clean apply" and agree: "index_agree S"
    and step: "follower_step apply S f f'" and ok: "follower_ok apply S s0 f"
  shows "follower_ok apply S s0 f'"
proof -
  from ok have inv: "follower_inv apply S s0 (fo_log f, fo_state f)"
    and dr: "draining_ok (fo_log f) (fo_draining f)" by (simp_all add: follower_ok_def)
  from step show ?thesis
  proof cases
    case (fs_term t)
    have "entry_at (set_term t (fo_log f)) i = entry_at (fo_log f) i" for i
      by (simp add: entry_at_def set_term_def)
    then have "replay apply (set_term t (fo_log f)) n s0 = replay apply (fo_log f) n s0" for n
      by (intro replay_cong) simp
    with inv dr fs_term show ?thesis
      by (auto simp: follower_ok_def follower_inv_def draining_ok_def entry_at_def set_term_def)
  next
    case (fs_append es c)
    from append_entries_inv [OF inv fs_append(2) agree, of "fo_log f" c] dr fs_append(1)
    show ?thesis
      by (auto simp: follower_ok_def draining_ok_def append_entries_def
          intro: fold_append_entry_keeps)
  next
    case (fs_lock es)
    with inv get_unapplied_shape [OF fs_lock(3)] show ?thesis
      by (simp add: follower_ok_def draining_ok_def)
  next
    case (fs_apply e es r s)
    note d = draining_ok_Cons [OF dr [unfolded fs_apply(2)]]
    from apply_one_inv [OF agree inv d(1,2) fs_apply(3)] d(3) fs_apply(1) show ?thesis
      by (simp add: follower_ok_def) (simp add: mark_applied_def)
  next
    case (fs_fail e es x s)
    with clean [unfolded fails_clean_def, rule_format, of "le_operation e" "fo_state f"] inv
    show ?thesis by (simp add: follower_ok_def)
  next
    case fs_unlock
    with inv show ?thesis by (simp add: follower_ok_def)
  qed
qed

lemma follower_inv_new: "follower_inv apply S s0 (consensus_log_new, s0)"
  by (simp add: follower_inv_def consensus_log_new_def replay_def)

lemma follower_reachable_ok:
  assumes "follower_reachable apply S s0 f" "fails_clean apply" "index_agree S"
  shows "follower_ok apply S s0 f"
  using assms
proof (induction rule: follower_reachable.induct)
  case fr_init
  show ?case by (simp add: follower_ok_def follower_new_def follower_inv_new)
next
  case (fr_step f f')
  then show ?case by (blast intro: follower_step_ok)
qed

text \<open>A handler that runs alone is such a sequence of steps.\<close>

abbreviation idle :: "'j consensus_log \<times> 's \<Rightarrow> ('j, 's) follower" where
  "idle st \<equiv> \<lparr>fo_log = fst st, fo_state = snd st, fo_draining = None\<rparr>"

lemma apply_unapplied_steps:
  "apply_unapplied apply es l s = (ok, l', s') \<Longrightarrow>
   follower_reachable apply S s0 \<lparr>fo_log = l, fo_state = s, fo_draining = Some es\<rparr> \<Longrightarrow>
   follower_reachable apply S s0 (idle (l', s'))"
proof (induction es arbitrary: l s)
  case Nil
  then show ?case using fr_step [OF Nil.prems(2) fs_unlock] by simp
next
  case (Cons e es)
  obtain r s1 where ap: "apply (le_operation e) s = (r, s1)" by (cases "apply (le_operation e) s")
  show ?case
  proof (cases r)
    case (Inl x)
    with fr_step [OF Cons.prems(2) fs_fail] ap Cons.prems(1) show ?thesis by auto
  next
    case (Inr x)
    with ap Cons.prems(1)
    have "apply_unapplied apply es (mark_applied (le_index e) l) s1 = (ok, l', s')" by simp
    moreover have "follower_reachable apply S s0
        \<lparr>fo_log = mark_applied (le_index e) l, fo_state = s1, fo_draining = Some es\<rparr>"
      using fr_step [OF Cons.prems(2) fs_apply] ap Inr by simp
    ultimately show ?thesis by (rule Cons.IH)
  qed
qed

lemma handle_append_steps:
  assumes "follower_reachable apply S s0 (idle st)" and "set (ar_entries req) \<subseteq> S"
  shows "follower_reachable apply S s0 (idle (snd (handle_append apply req st)))"
proof -
  obtain l s where st: "st = (l, s)" by (cases st)
  define l1 where "l1 = (if cl_current_term l < ar_term req then set_term (ar_term req) l else l)"
  define l2 where "l2 = snd (append_entries (ar_entries req) (ar_leader_commit req) l1)"
  have "follower_reachable apply S s0 (idle (l1, s))"
    using fr_step [OF assms(1) fs_term [of _ _ _ "ar_term req"]] assms(1) by (auto simp: st l1_def)
  from fr_step [OF this fs_append [OF assms(2), of _ _ "ar_leader_commit req"]]
  have r2: "follower_reachable apply S s0 (idle (l2, s))" by (simp add: l2_def)
  show ?thesis
  proof (cases "ar_term req < cl_current_term l")
    case True
    with assms(1) show ?thesis by (simp add: handle_append_def st)
  next
    case fresh: False
    note unfold = handle_append_def st Let_def l1_def [symmetric] l2_def [symmetric]
    show ?thesis
    proof (cases "get_unapplied_entries l2")
      case None
      with fresh r2 show ?thesis by (simp add: unfold)
    next
      case (Some es)
      obtain ok l3 s3 where ap: "apply_unapplied apply es l2 s = (ok, l3, s3)"
        by (cases "apply_unapplied apply es l2 s")
      have "follower_reachable apply S s0 \<lparr>fo_log = l2, fo_state = s, fo_draining = Some es\<rparr>"
        using fr_step [OF r2 fs_lock] Some by simp
      from apply_unapplied_steps [OF ap this] fresh Some ap show ?thesis by (simp add: unfold)
    qed
  qed
qed

section \<open>Properties\<close>

lemma follower_entry_at:
  assumes inv: "follower_inv apply S s0 (l, s)" and agree: "index_agree S"
    and i: "1 \<le> i" "i \<le> unat (cl_applied_index l)"
  shows "\<exists>e \<in> S. entry_at l i = Some e \<and> unat (le_index e) = i"
proof -
  from inv i obtain e where e: "entry_at l i = Some e" by (auto simp: follower_inv_def)
  from inv agree have "index_agree (set (cl_entries l))"
    by (auto simp: follower_inv_def intro: index_agree_subset)
  with e inv show ?thesis by (auto simp: entry_at_iff follower_inv_def)
qed

lemma same_index_same_state:
  assumes clean: "fails_clean apply" and agree: "index_agree S"
    and run1: "follower_reachable apply S s0 f1" and run2: "follower_reachable apply S s0 f2"
    and same: "cl_applied_index (fo_log f1) = cl_applied_index (fo_log f2)"
  shows "fo_state f1 = fo_state f2"
proof -
  let ?l1 = "fo_log f1" and ?l2 = "fo_log f2"
  have inv1: "follower_inv apply S s0 (?l1, fo_state f1)"
    and inv2: "follower_inv apply S s0 (?l2, fo_state f2)"
    using follower_reachable_ok [OF run1 clean agree] follower_reachable_ok [OF run2 clean agree]
    by (simp_all add: follower_ok_def)
  have "entry_at ?l1 i = entry_at ?l2 i"
    if i: "1 \<le> i" "i \<le> unat (cl_applied_index ?l1)" for i
  proof -
    from follower_entry_at [OF inv1 agree i] follower_entry_at [OF inv2 agree, of i] i same
    obtain e1 e2 where e: "entry_at ?l1 i = Some e1" "e1 \<in> S" "unat (le_index e1) = i"
      "entry_at ?l2 i = Some e2" "e2 \<in> S" "unat (le_index e2) = i" by auto
    then have "le_index e1 = le_index e2" by (simp add: u64_eq_unat)
    with agree e(2,5) have "e1 = e2" unfolding index_agree_def by blast
    with e show ?thesis by simp
  qed
  then have "replay apply ?l1 (unat (cl_applied_index ?l1)) s0 =
             replay apply ?l2 (unat (cl_applied_index ?l1)) s0"
    by (rule replay_cong)
  with inv1 inv2 same show ?thesis by (simp add: follower_inv_def)
qed

text \<open>
  C1. State machine safety: two followers that started from the same state, whatever requests
  they have received and however their handlers interleave, are in the same state whenever they
  have applied up to the same index, if the entries the leaders send agree on their indices and
  an operation that fails leaves the state as it is.
\<close>

theorem state_machine_safety:
  assumes clean: "fails_clean apply" and agree: "index_agree S"
    and run1: "follower_reachable apply S s0 f1" and run2: "follower_reachable apply S s0 f2"
    and same: "cl_applied_index (fo_log f1) = cl_applied_index (fo_log f2)"
  shows "fo_state f1 = fo_state f2"
  by (rule same_index_same_state [OF assms])

definition request ::
  "u64 \<Rightarrow> 'j log_entry list \<Rightarrow> u64 \<Rightarrow> 'j append_entries_request"
where
  "request t es c =
     \<lparr>ar_term = t, ar_leader_id = 0, ar_prev_log_index = 0, ar_prev_log_term = 0,
      ar_entries = es, ar_leader_commit = c\<rparr>"

text \<open>A small state machine for the witnesses: the list of the deleted ids.\<close>

fun record_delete :: "unit crud_operation \<Rightarrow> string list \<Rightarrow> (unit + unit) \<times> string list" where
  "record_delete (Delete path i) s = (Inr (), s @ [i])"
| "record_delete op s = (Inl (), s)"

text \<open>Requests served one after the other.\<close>

definition serve_all ::
  "('j crud_operation \<Rightarrow> 's \<Rightarrow> ('e + 'r) \<times> 's) \<Rightarrow> 'j append_entries_request list \<Rightarrow>
   'j consensus_log \<times> 's \<Rightarrow> 'j consensus_log \<times> 's"
where
  "serve_all apply reqs st = fold (\<lambda>r st. snd (handle_append apply r st)) reqs st"

lemma serve_all_steps:
  "follower_reachable apply S s0 (idle st) \<Longrightarrow> \<forall>r \<in> set reqs. set (ar_entries r) \<subseteq> S \<Longrightarrow>
   follower_reachable apply S s0 (idle (serve_all apply reqs st))"
proof (induction reqs arbitrary: st)
  case (Cons r reqs)
  from Cons.IH [OF handle_append_steps [OF Cons.prems(1)]] Cons.prems(2) show ?case
    by (simp add: serve_all_def)
qed (simp add: serve_all_def)

lemma record_delete_clean: "fails_clean record_delete"
proof -
  have "snd (record_delete op s) = s" if "isl (fst (record_delete op s))" for op s
    using that by (cases op) auto
  then show ?thesis by (simp add: fails_clean_def)
qed

lemma state_machine_safety_witness:
  "snd (serve_all record_delete
       [request 1 [example_entry 1 1 ''a''] 0,
        request 1 [example_entry 1 1 ''a'', example_entry 1 2 ''b''] 2]
       (consensus_log_new, [])) =
   snd (serve_all record_delete
       [request 1 [example_entry 1 2 ''b''] 2, request 1 [example_entry 1 1 ''a''] 2]
       (consensus_log_new, []))"
proof -
  let ?S = "{example_entry 1 1 ''a'', example_entry 1 2 ''b''}"
  let ?r1 = "[request 1 [example_entry 1 1 ''a''] 0,
              request 1 [example_entry 1 1 ''a'', example_entry 1 2 ''b''] 2]"
  let ?r2 = "[request 1 [example_entry 1 2 ''b''] 2, request 1 [example_entry 1 1 ''a''] 2]"
  let ?f = "\<lambda>rs. idle (serve_all record_delete rs (consensus_log_new, []))"
  have init: "follower_reachable record_delete ?S [] (idle (consensus_log_new, []))"
    using fr_init [of record_delete ?S "[]"] by (simp add: follower_new_def)
  have sub: "\<forall>r \<in> set ?r1. set (ar_entries r) \<subseteq> ?S" "\<forall>r \<in> set ?r2. set (ar_entries r) \<subseteq> ?S"
    by (simp_all add: request_def)
  have "index_agree ?S" by (auto simp: index_agree_def example_entry_def)
  moreover have "cl_applied_index (fo_log (?f ?r1)) = cl_applied_index (fo_log (?f ?r2))"
    by code_simp
  ultimately have "fo_state (?f ?r1) = fo_state (?f ?r2)"
    using state_machine_safety [OF record_delete_clean _ serve_all_steps [OF init sub(1)]
        serve_all_steps [OF init sub(2)]] by blast
  then show ?thesis by simp
qed

text \<open>
  A request from a leader of an older term is refused: the follower's log, term, indices and
  state stay as they are and the answer carries the follower's newer term.
\<close>

theorem stale_leader_rejected:
  assumes "ar_term req < cl_current_term l"
  shows "handle_append apply req (l, s) = (Some (response_of False l), l, s)"
  using assms by (simp add: handle_append_def)

lemma stale_leader_rejected_witness:
  "handle_append record_delete (request 1 [example_entry 1 1 ''a''] 1)
     (set_term 2 consensus_log_new, []) =
   (Some (response_of False (set_term 2 (consensus_log_new :: unit consensus_log))),
   set_term 2 consensus_log_new, [])"
  by (rule stale_leader_rejected) (simp add: request_def set_term_def consensus_log_new_def)

lemma apply_unapplied_ok:
  "apply_unapplied apply es l s = (True, l', s') \<Longrightarrow>
   map (\<lambda>e. unat (le_index e)) es =
     [Suc (unat (cl_applied_index l))..<Suc (unat (cl_applied_index l)) + length es] \<Longrightarrow>
   unat (cl_applied_index l') = unat (cl_applied_index l) + length es \<and>
   cl_entries l' = cl_entries l \<and> cl_commit_index l' = cl_commit_index l"
proof (induction es arbitrary: l s)
  case (Cons e es)
  let ?a = "unat (cl_applied_index l)" and ?l = "mark_applied (le_index e) l"
  have ie: "unat (le_index e) = Suc ?a"
    and rest: "map (\<lambda>e. unat (le_index e)) es = [Suc (Suc ?a)..<Suc (Suc ?a) + length es]"
    using Cons.prems(2) by (auto simp: upt_conv_Cons simp del: upt_Suc)
  have idx: "unat (cl_applied_index ?l) = Suc ?a"
    using ie by (simp add: mark_applied_def fetch_max_def max_def word_le_nat_alt)
  have frame: "cl_entries ?l = cl_entries l" "cl_commit_index ?l = cl_commit_index l"
    by (simp_all add: mark_applied_def)
  from Cons.prems(1) obtain s1 where "apply_unapplied apply es ?l s1 = (True, l', s')"
    by (auto split: prod.splits sum.splits)
  from Cons.IH [OF this] rest idx frame show ?case by simp
qed simp

lemma handle_append_success:
  assumes "handle_append apply req (l, s) = (Some r, l', s')" and "rs_success r"
  shows "get_unapplied_entries l' = Some [] \<and>
    cl_entries l' = fold append_entry (ar_entries req) (cl_entries l) \<and>
    ar_leader_commit req \<le> cl_commit_index l'"
proof -
  from assms obtain l2 es where es: "get_unapplied_entries l2 = Some es"
    and ap: "apply_unapplied apply es l2 s = (True, l', s')"
    and l2: "cl_entries l2 = fold append_entry (ar_entries req) (cl_entries l)"
      "ar_leader_commit req \<le> cl_commit_index l2"
    by (auto simp: handle_append_def Let_def response_of_def append_entries_def set_term_def
        split: if_splits option.splits prod.splits)
  note shape = get_unapplied_shape [OF es]
  from apply_unapplied_ok [OF ap] shape
  have l': "unat (cl_applied_index l') = unat (cl_applied_index l2) + length es"
    "cl_entries l' = cl_entries l2" "cl_commit_index l' = cl_commit_index l2" by auto
  have "get_unapplied_entries l' = Some []"
  proof (cases "cl_commit_index l' \<le> cl_applied_index l'")
    case False
    then have a': "cl_applied_index l' \<noteq> - 1" by (auto simp: word_order.extremum)
    from False l' have a: "cl_applied_index l2 < cl_commit_index l2"
      by (simp add: not_le word_less_nat_alt)
    then have "cl_applied_index l2 \<noteq> - 1" by (auto simp: word_order.extremum_strict)
    with a es l' False
      unapplied_from_spec [of "cl_commit_index l2" "cl_applied_index l2 + 1" "cl_entries l2" es]
    have "\<forall>e \<in> set (cl_entries l'). unat (le_index e) \<noteq> Suc (unat (cl_applied_index l'))"
      by (auto simp: get_unapplied_entries_def u64_succ_unat word_le_nat_alt)
    then have "find (\<lambda>e. le_index e = cl_applied_index l' + 1) (cl_entries l') = None"
      by (auto simp: find_None_iff_all u64_eq_unat u64_succ_unat [OF a'])
    with False show ?thesis by (simp add: get_unapplied_entries_def unapplied_from.simps)
  qed (simp add: get_unapplied_entries_def)
  with l' l2 show ?thesis by simp
qed

text \<open>When nothing is left, the applied index has reached every gapless committed prefix.\<close>

lemma drained_prefix:
  assumes "get_unapplied_entries l = Some []" and "n \<le> unat (cl_commit_index l)"
    and "\<forall>i \<in> {1..n}. \<exists>e \<in> set (cl_entries l). unat (le_index e) = i"
  shows "n \<le> unat (cl_applied_index l)"
proof (rule ccontr)
  let ?a = "unat (cl_applied_index l)"
  assume "\<not> n \<le> ?a"
  with assms(2) have ca: "cl_applied_index l < cl_commit_index l" by (simp add: word_less_nat_alt)
  then have suc: "unat (cl_applied_index l + 1) = Suc ?a"
    by (intro u64_succ_unat) (auto simp: word_order.extremum_strict)
  have "cl_applied_index l + 1 \<le> cl_commit_index l" using ca by (rule u64_succ_le)
  with assms(1) ca have "find (\<lambda>e. le_index e = cl_applied_index l + 1) (cl_entries l) = None"
    by (subst (asm) get_unapplied_entries_def, subst (asm) unapplied_from.simps)
      (auto split: option.splits if_splits)
  then have "\<forall>e \<in> set (cl_entries l). unat (le_index e) \<noteq> Suc ?a"
    by (auto simp: find_None_iff_all u64_eq_unat suc)
  moreover have "Suc ?a \<in> {1..n}" using \<open>\<not> n \<le> ?a\<close> by simp
  ultimately show False using assms(3) by blast
qed

text \<open>
  A successful answer means that nothing is left to do: every committed entry up to the
  first gap of the follower's log has been applied, so the next scan finds none.
\<close>

theorem success_means_applied:
  assumes "handle_append apply req (l, s) = (Some r, l', s')" and "rs_success r"
  shows "get_unapplied_entries l' = Some []"
  using handle_append_success [OF assms] by blast

lemma success_means_applied_witness:
  "\<exists>r l' s'. handle_append record_delete (request 1 [example_entry 1 1 ''a''] 1)
       (consensus_log_new, []) = (Some r, l', s') \<and> get_unapplied_entries l' = Some []"
proof -
  let ?h = "handle_append record_delete (request 1 [example_entry 1 1 ''a''] 1)
       (consensus_log_new, [])"
  obtain r l' s' where run: "?h = (r, l', s')" by (cases ?h)
  have "map_option rs_success (fst ?h) = Some True" by code_simp
  then obtain x where x: "r = Some x" "rs_success x" by (auto simp: run)
  from success_means_applied [OF run [unfolded x(1)] x(2)] run x show ?thesis by blast
qed

end
