(* ===== verification/Batcher.thy ===== *)
theory Batcher
  imports ConsensusLog
begin

text \<open>
  The leader's view of its followers: health tracking and batching of
  \<^verbatim>\<open>lithair-core/src/cluster/replication_batcher.rs\<close>, and the catch-up turn of the background
  task of \<^verbatim>\<open>lithair-core/src/app/mod.rs\<close> that rests on it. Instants are milliseconds. A
  follower state behind its \<open>Arc\<close> is the value of the map at its address.
\<close>

section \<open>A follower's state\<close>

datatype follower_health = Healthy | Lagging | Desynced | Unknown

record 'j follower_state =
  fs_address :: string
  fs_last_replicated_index :: u64
  fs_last_response :: nat
  fs_last_latency_ms :: u64
  fs_health :: follower_health
  fs_pending :: "'j log_entry list"
  fs_failures :: u64

definition follower_state_new :: "nat \<Rightarrow> string \<Rightarrow> 'j follower_state" where
  "follower_state_new now addr =
     \<lparr>fs_address = addr, fs_last_replicated_index = 0, fs_last_response = now,
      fs_last_latency_ms = 0, fs_health = Unknown, fs_pending = [], fs_failures = 0\<rparr>"

definition follower_record_success ::
  "nat \<Rightarrow> u64 \<Rightarrow> u64 \<Rightarrow> 'j follower_state \<Rightarrow> 'j follower_state"
where
  "follower_record_success now replicated latency f =
     f\<lparr>fs_last_replicated_index := replicated, fs_last_latency_ms := latency, fs_failures := 0,
       fs_last_response := now, fs_health := (if latency < 500 then Healthy else Lagging),
       fs_pending := filter (\<lambda>e. replicated < le_index e) (fs_pending f)\<rparr>"

definition follower_record_failure :: "'j follower_state \<Rightarrow> 'j follower_state" where
  "follower_record_failure f =
     (let failures = fs_failures f + 1
      in f\<lparr>fs_failures := failures, fs_health := (if 3 \<le> failures then Desynced else Lagging)\<rparr>)"

definition needs_resync :: "nat \<Rightarrow> u64 \<Rightarrow> 'j follower_state \<Rightarrow> bool" where
  "needs_resync now commit_ix f \<longleftrightarrow>
     fs_health f = Desynced \<or>
     (fs_last_replicated_index f < commit_ix \<and> 1000 < commit_ix - fs_last_replicated_index f) \<or>
     (fs_pending f \<noteq> [] \<and> 30000 < now - fs_last_response f)"

definition follower_queue_entry :: "'j log_entry \<Rightarrow> 'j follower_state \<Rightarrow> 'j follower_state" where
  "follower_queue_entry e f = f\<lparr>fs_pending := fs_pending f @ [e]\<rparr>"

definition follower_take_pending ::
  "'j follower_state \<Rightarrow> 'j log_entry list \<times> 'j follower_state"
where
  "follower_take_pending f = (fs_pending f, f\<lparr>fs_pending := []\<rparr>)"

section \<open>The batcher\<close>

record batcher_config =
  bc_batch_interval_ms :: u64
  bc_max_batch_size :: nat
  bc_healthy_latency_ms :: u64
  bc_desync_timeout_secs :: u64
  bc_desync_index_gap :: u64

definition batcher_config_default :: batcher_config where
  "batcher_config_default =
     \<lparr>bc_batch_interval_ms = 10, bc_max_batch_size = 100, bc_healthy_latency_ms = 500,
      bc_desync_timeout_secs = 5, bc_desync_index_gap = 1000\<rparr>"

definition from_replication_config :: "u64 \<Rightarrow> batcher_config" where
  "from_replication_config max_resync_gap =
     \<lparr>bc_batch_interval_ms = 10, bc_max_batch_size = 100, bc_healthy_latency_ms = 500,
      bc_desync_timeout_secs = 30, bc_desync_index_gap = max_resync_gap\<rparr>"

record 'j batcher =
  rb_config :: batcher_config
  rb_followers :: "(string, 'j follower_state) dict"
  rb_immediate :: "'j log_entry list"
  rb_last_batch :: nat

definition batcher_new :: "nat \<Rightarrow> batcher_config \<Rightarrow> 'j batcher" where
  "batcher_new now cfg =
     \<lparr>rb_config = cfg, rb_followers = [], rb_immediate = [], rb_last_batch = now\<rparr>"

definition batcher_initialize :: "nat \<Rightarrow> string list \<Rightarrow> 'j batcher \<Rightarrow> 'j batcher" where
  "batcher_initialize now peers b =
     b\<lparr>rb_followers := fold (\<lambda>p d. if map_of d p = None
        then AList.update p (follower_state_new now p) d else d) peers (rb_followers b)\<rparr>"

definition get_follower :: "string \<Rightarrow> 'j batcher \<Rightarrow> 'j follower_state option" where
  "get_follower addr b = map_of (rb_followers b) addr"

definition batcher_queue_entry :: "'j log_entry \<Rightarrow> 'j batcher \<Rightarrow> 'j batcher" where
  "batcher_queue_entry e b =
     b\<lparr>rb_immediate := rb_immediate b @ [e],
       rb_followers := map (\<lambda>(p, f). (p, if fs_health f = Lagging
          then follower_queue_entry e f else f)) (rb_followers b)\<rparr>"

definition should_send_batch :: "nat \<Rightarrow> 'j batcher \<Rightarrow> bool" where
  "should_send_batch now b \<longleftrightarrow>
     rb_immediate b \<noteq> [] \<and>
     (bc_max_batch_size (rb_config b) \<le> length (rb_immediate b) \<or>
      unat (bc_batch_interval_ms (rb_config b)) \<le> now - rb_last_batch b)"

definition take_batch :: "nat \<Rightarrow> 'j batcher \<Rightarrow> 'j log_entry list \<times> 'j batcher" where
  "take_batch now b = (rb_immediate b, b\<lparr>rb_immediate := [], rb_last_batch := now\<rparr>)"

definition batcher_record_success ::
  "nat \<Rightarrow> string \<Rightarrow> u64 \<Rightarrow> u64 \<Rightarrow> 'j batcher \<Rightarrow> 'j batcher"
where
  "batcher_record_success now addr replicated latency b =
     b\<lparr>rb_followers := AList.map_entry addr (follower_record_success now replicated latency)
        (rb_followers b)\<rparr>"

definition batcher_record_failure :: "string \<Rightarrow> 'j batcher \<Rightarrow> 'j batcher" where
  "batcher_record_failure addr b =
     b\<lparr>rb_followers := AList.map_entry addr follower_record_failure (rb_followers b)\<rparr>"

definition get_pending_replications ::
  "'j batcher \<Rightarrow> string list \<times> (string \<times> 'j log_entry list) list \<times> 'j batcher"
where
  "get_pending_replications b =
     (map fst (filter (\<lambda>(p, f). fs_health f \<in> {Healthy, Unknown}) (rb_followers b)),
      map (\<lambda>(p, f). (p, fs_pending f))
        (filter (\<lambda>(p, f). fs_health f = Lagging \<and> fs_pending f \<noteq> []) (rb_followers b)),
      b\<lparr>rb_followers := map (\<lambda>(p, f). (p, if fs_health f = Lagging
         then snd (follower_take_pending f) else f)) (rb_followers b)\<rparr>)"

definition get_desynced_followers :: "nat \<Rightarrow> u64 \<Rightarrow> 'j batcher \<Rightarrow> string list" where
  "get_desynced_followers now commit_ix b =
     map fst (filter (\<lambda>(p, f). needs_resync now commit_ix f) (rb_followers b))"

definition get_health_summary :: "'j batcher \<Rightarrow> (string, follower_health) dict" where
  "get_health_summary b = map (\<lambda>(p, f). (p, fs_health f)) (rb_followers b)"

record follower_stats =
  st_address :: string
  st_health :: follower_health
  st_last_replicated_index :: u64
  st_last_latency_ms :: u64
  st_pending_count :: nat
  st_failures :: u64

definition stats_of :: "'j follower_state \<Rightarrow> follower_stats" where
  "stats_of f =
     \<lparr>st_address = fs_address f, st_health = fs_health f,
      st_last_replicated_index = fs_last_replicated_index f,
      st_last_latency_ms = fs_last_latency_ms f, st_pending_count = length (fs_pending f),
      st_failures = fs_failures f\<rparr>"

definition get_follower_stats :: "string \<Rightarrow> 'j batcher \<Rightarrow> follower_stats option" where
  "get_follower_stats addr b = map_option stats_of (get_follower addr b)"

definition get_all_follower_stats :: "'j batcher \<Rightarrow> follower_stats list" where
  "get_all_follower_stats b = map (stats_of \<circ> snd) (rb_followers b)"

definition mark_follower_desynced :: "string \<Rightarrow> 'j batcher \<Rightarrow> bool \<times> 'j batcher" where
  "mark_follower_desynced addr b =
     (case get_follower addr b of
        None \<Rightarrow> (False, b)
      | Some _ \<Rightarrow> (True, b\<lparr>rb_followers :=
            AList.map_entry addr (\<lambda>f. f\<lparr>fs_health := Desynced\<rparr>) (rb_followers b)\<rparr>))"

section \<open>The catch-up turn\<close>

text \<open>
  What the background task sends to each peer when the commit index is positive: nothing to a
  desynced follower or to one whose last replicated index has reached the commit index, and
  otherwise the entries after that index.
\<close>

definition known_index :: "string \<Rightarrow> 'j batcher \<Rightarrow> u64" where
  "known_index p b =
     (case get_follower p b of Some f \<Rightarrow> fs_last_replicated_index f | None \<Rightarrow> 0)"

definition catch_up_peer ::
  "'j batcher \<Rightarrow> 'j consensus_log \<Rightarrow> string \<Rightarrow> (string \<times> 'j log_entry list) option"
where
  "catch_up_peer b l p =
     (if map_of (get_health_summary b) p = Some Desynced then None
      else if cl_commit_index l \<le> known_index p b then None
      else if get_entries_from (known_index p b + 1) l = [] then None
      else Some (p, get_entries_from (known_index p b + 1) l))"

definition catch_up ::
  "string list \<Rightarrow> 'j batcher \<Rightarrow> 'j consensus_log \<Rightarrow> (string \<times> 'j log_entry list) list"
where
  "catch_up peers b l =
     (if cl_commit_index l = 0 then [] else List.map_filter (catch_up_peer b l) peers)"

text \<open>The spawned request: its answer counts as a success when the status does.\<close>

definition catch_up_answered ::
  "nat \<Rightarrow> u64 \<Rightarrow> string \<Rightarrow> 'j log_entry list \<Rightarrow> bool \<Rightarrow> 'j batcher \<Rightarrow> 'j batcher"
where
  "catch_up_answered now latency p es status_ok b =
     (if status_ok then batcher_record_success now p (last_or le_index 0 es) latency b
      else batcher_record_failure p b)"

section \<open>Health as a function of the outcomes\<close>

text \<open>
  The outcomes reported for one follower, and the specification of its health: the outcomes
  since the last success decide, three failures in a row being a desynchronisation.
\<close>

datatype outcome = Success u64 u64 | Failure

fun report :: "nat \<Rightarrow> outcome \<Rightarrow> 'j follower_state \<Rightarrow> 'j follower_state" where
  "report now (Success replicated latency) f = follower_record_success now replicated latency f"
| "report now Failure f = follower_record_failure f"

definition report_all :: "(nat \<times> outcome) list \<Rightarrow> 'j follower_state \<Rightarrow> 'j follower_state" where
  "report_all outs f = fold (\<lambda>(now, x). report now x) outs f"

definition trailing_failures :: "(nat \<times> outcome) list \<Rightarrow> nat" where
  "trailing_failures outs = length (takeWhile (\<lambda>(now, x). x = Failure) (rev outs))"

definition health_spec :: "(nat \<times> outcome) list \<Rightarrow> follower_health" where
  "health_spec outs =
     (if outs = [] then Unknown
      else
        case snd (last outs) of
          Success r latency \<Rightarrow> if latency < 500 then Healthy else Lagging
        | Failure \<Rightarrow> if 3 \<le> trailing_failures outs then Desynced else Lagging)"

lemma report_all_snoc: "report_all (outs @ [x]) f = report (fst x) (snd x) (report_all outs f)"
  by (simp add: report_all_def case_prod_unfold)

lemma trailing_failures_snoc:
  "trailing_failures (outs @ [(now, Failure)]) = Suc (trailing_failures outs)"
  "trailing_failures (outs @ [(now, Success r t)]) = 0"
  by (simp_all add: trailing_failures_def)

lemma trailing_failures_le: "trailing_failures outs \<le> length outs"
  unfolding trailing_failures_def by (metis length_rev length_takeWhile_le)

lemma failures_counted:
  "length outs < 2 ^ 64 \<Longrightarrow>
   unat (fs_failures (report_all outs (follower_state_new t0 addr :: 'j follower_state))) =
     trailing_failures outs"
proof (induction outs rule: rev_induct)
  case Nil
  then show ?case
    by (simp add: report_all_def follower_state_new_def trailing_failures_def)
next
  case (snoc x outs)
  obtain now y where x: "x = (now, y)" by (cases x)
  let ?f = "report_all outs (follower_state_new t0 addr :: 'j follower_state)"
  have ih: "unat (fs_failures ?f) = trailing_failures outs" using snoc by simp
  then have "Suc (unat (fs_failures ?f)) < 2 ^ 64"
    using trailing_failures_le [of outs] snoc.prems by simp
  then have "unat (fs_failures ?f + 1) = Suc (unat (fs_failures ?f))"
    by (rule u64_succ_small)
  with ih show ?case
    by (cases y)
      (simp_all add: x report_all_snoc trailing_failures_snoc follower_record_success_def
         follower_record_failure_def Let_def)
qed

lemma catch_up_peer_Some:
  "catch_up_peer b l q = Some (p, es) \<longleftrightarrow>
     q = p \<and> map_of (get_health_summary b) p \<noteq> Some Desynced \<and>
     known_index p b < cl_commit_index l \<and>
     es = get_entries_from (known_index p b + 1) l \<and> es \<noteq> []"
  by (auto simp: catch_up_peer_def)

lemma catch_up_in:
  "(p, es) \<in> set (catch_up peers b l) \<longleftrightarrow>
     p \<in> set peers \<and> cl_commit_index l \<noteq> 0 \<and> catch_up_peer b l p = Some (p, es)"
  unfolding catch_up_def by (auto simp: set_map_filter' catch_up_peer_Some)

section \<open>Properties\<close>

text \<open>
  A follower's health is a function of the reported outcomes: unknown before the first,
  healthy or lagging by latency after a success, and after failures lagging until three in a
  row have been reported, then desynchronised; the counter is the number of trailing failures.
\<close>

theorem follower_health_correct:
  fixes f :: "'j follower_state"
  assumes "length outs < 2 ^ 64" and "f = report_all outs (follower_state_new t0 addr)"
  shows "fs_health f = health_spec outs \<and> unat (fs_failures f) = trailing_failures outs"
proof (cases outs rule: rev_exhaust)
  case Nil
  then show ?thesis
    by (simp add: assms(2) report_all_def follower_state_new_def health_spec_def
        trailing_failures_def)
next
  case (snoc init x)
  obtain now y where x: "x = (now, y)" by (cases x)
  have count: "unat (fs_failures f) = trailing_failures outs"
    using failures_counted [OF assms(1)] by (simp add: assms(2))
  show ?thesis
  proof (cases y)
    case Failure
    then have "fs_health f = (if 3 \<le> fs_failures f then Desynced else Lagging)"
      by (simp add: assms(2) snoc x report_all_snoc follower_record_failure_def Let_def)
    with Failure count show ?thesis
      by (simp add: health_spec_def snoc x word_le_nat_alt)
  next
    case (Success r t)
    with count show ?thesis
      by (simp add: assms(2) snoc x report_all_snoc follower_record_success_def health_spec_def)
  qed
qed

lemma follower_health_correct_witness:
  "fs_health (report_all [(1, Success 4 20), (2, Failure), (3, Failure), (4, Failure)]
     (follower_state_new 0 ''n2'' :: unit follower_state)) = Desynced"
  using follower_health_correct [of "[(1, Success 4 20), (2, Failure), (3, Failure), (4, Failure)]",
      OF _ refl, of 0 "''n2''", where 'j = unit]
  by (simp add: health_spec_def trailing_failures_def)

text \<open>
  Catch-up sends a peer exactly the entries after its last known index. But an answer counts
  by its HTTP status alone: once the entries up to the commit index have been answered, the peer
  is taken to hold them and is sent nothing more, also when it refused them.
\<close>

theorem catch_up_trusts_status:
  assumes "(p, es) \<in> set (catch_up peers b l)" and "get_follower p b = Some f"
    and "cl_commit_index l \<le> le_index (last es)"
  shows "es = get_entries_from (fs_last_replicated_index f + 1) l \<and>
    p \<notin> fst ` set (catch_up peers (catch_up_answered now latency p es True b) l)"
proof -
  from assms(1,2) have es: "es = get_entries_from (fs_last_replicated_index f + 1) l" "es \<noteq> []"
    by (auto simp: catch_up_in catch_up_peer_Some known_index_def)
  have "get_follower p (catch_up_answered now latency p es True b) =
      Some (follower_record_success now (le_index (last es)) latency f)"
    using assms(2) es(2)
    by (simp add: get_follower_def catch_up_answered_def batcher_record_success_def dict_simps
        last_or_def)
  then have "p \<notin> fst ` set (catch_up peers (catch_up_answered now latency p es True b) l)"
    using assms(3)
    by (auto simp: catch_up_in catch_up_peer_Some known_index_def follower_record_success_def)
  with es show ?thesis by simp
qed

lemma catch_up_trusts_status_witness:
  "catch_up [''n2''] (batcher_initialize 0 [''n2''] (batcher_new 0 batcher_config_default))
     (receive_all [([example_entry 1 1 ''a''], 1)] consensus_log_new) =
     [(''n2'', [example_entry 1 1 ''a''])] \<and>
   catch_up [''n2''] (catch_up_answered 5 3 ''n2'' [example_entry 1 1 ''a''] True
       (batcher_initialize 0 [''n2''] (batcher_new 0 batcher_config_default)))
     (receive_all [([example_entry 1 1 ''a''], 1)] consensus_log_new) = []"
proof -
  let ?b = "batcher_initialize 0 [''n2''] (batcher_new 0 batcher_config_default) :: unit batcher"
  let ?l = "receive_all [([example_entry 1 1 ''a''], 1)] consensus_log_new"
  have plan: "catch_up [''n2''] ?b ?l = [(''n2'', [example_entry 1 1 ''a''])]" by code_simp
  have "cl_commit_index ?l \<le> le_index (last [example_entry 1 1 ''a''])" by code_simp
  moreover obtain f where "get_follower ''n2'' ?b = Some f"
    by (simp add: get_follower_def batcher_initialize_def batcher_new_def)
  ultimately have "''n2'' \<notin> fst ` set (catch_up [''n2'']
      (catch_up_answered 5 3 ''n2'' [example_entry 1 1 ''a''] True ?b) ?l)"
    using catch_up_trusts_status [where p = "''n2''"] plan by (metis list.set_intros(1))
  moreover have "fst ` set (catch_up [p] b l) \<subseteq> {p}" for p b l
    by (auto simp: catch_up_in)
  ultimately show ?thesis using plan by (metis image_is_empty set_empty subset_singletonD insertI1)
qed

end
