(* ===== verification/LeaderWrite.thy ===== *)
theory LeaderWrite
  imports Replica Batcher
begin

text \<open>
  The leader's write path of \<^verbatim>\<open>lithair-core/src/app/mod.rs\<close>: the collection of follower answers
  in \<open>replicate_log_entries_to_followers\<close>, and the handlers of model writes and of migration
  operations as tasks that interleave between append, replication, commit and application.
\<close>

section \<open>Collecting a majority\<close>

text \<open>What a request to a follower can come back with, and what it counts as.\<close>

datatype follower_reply =
  RequestFailed | ErrorStatus | UnreadableBody | Replied append_entries_response

definition ack_of :: "follower_reply \<Rightarrow> bool \<times> u64" where
  "ack_of r =
     (case r of
        Replied a \<Rightarrow> if rs_success a then (True, rs_last_log_index a) else (False, 0)
      | _ \<Rightarrow> (False, 0))"

definition note_reply ::
  "nat \<Rightarrow> u64 \<Rightarrow> string \<Rightarrow> follower_reply \<Rightarrow> 'j batcher \<Rightarrow> 'j batcher"
where
  "note_reply now latency p r b =
     (let (ok, ix) = ack_of r
      in if ok then batcher_record_success now p ix latency b else batcher_record_failure p b)"

definition active_peers :: "string list \<Rightarrow> (string, follower_health) dict \<Rightarrow> string list" where
  "active_peers peers summary = filter (\<lambda>p. map_of summary p \<noteq> Some Desynced) peers"

text \<open>
  The loop over the tasks that finish before the deadline, in the order they finish; \<open>None\<close> is
  a task that panicked. The accumulator is the number of successes, whether the majority was
  reached and the commit index.
\<close>

fun collect ::
  "nat \<Rightarrow> u64 \<Rightarrow> (string \<times> bool) option list \<Rightarrow> nat \<times> bool \<times> u64 \<Rightarrow> nat \<times> bool \<times> u64"
where
  "collect needed target [] acc = acc"
| "collect needed target (Some (p, True) # rest) (n, reached, commit_ix) =
     (if needed \<le> n + 1 \<and> \<not> reached then collect needed target rest (n + 1, True, target)
      else collect needed target rest (n + 1, reached, commit_ix))"
| "collect needed target (_ # rest) acc = collect needed target rest acc"

text \<open>The error carries the numbers of its message.\<close>

definition replicate_log_entries ::
  "string list \<Rightarrow> 'j log_entry list \<Rightarrow> u64 \<Rightarrow> (string \<times> bool) option list \<Rightarrow>
   (nat \<times> nat \<times> nat) + u64"
where
  "replicate_log_entries peers entries leader_commit arrivals =
     (if peers = [] then Inr leader_commit
      else
        let nodes = length peers + 1; majority = nodes div 2 + 1; needed = majority - 1;
            target = last_or le_index leader_commit entries
        in if needed = 0 then Inr target
           else
             let (n, reached, commit_ix) = collect needed target arrivals (0, False, leader_commit)
             in if reached then Inr commit_ix else Inl (n + 1, nodes, majority))"

definition successes :: "(string \<times> bool) option list \<Rightarrow> string list" where
  "successes arrivals =
     List.map_filter (\<lambda>a. case a of Some (p, True) \<Rightarrow> Some p | _ \<Rightarrow> None) arrivals"

lemma successes_simps [simp]:
  "successes [] = []" "successes (None # as) = successes as"
  "successes (Some (p, b) # as) = (if b then p # successes as else successes as)"
  by (simp_all add: successes_def List.map_filter_simps)

lemma collect_reached:
  "collect needed target as (n, True, target) = (n + length (successes as), True, target)"
proof (induction as arbitrary: n)
  case (Cons a as)
  then show ?case by (cases a) (auto split: if_splits)
qed simp

lemma collect_result:
  assumes "n < needed"
  shows "collect needed target as (n, False, c) =
    (n + length (successes as), needed \<le> n + length (successes as),
     if needed \<le> n + length (successes as) then target else c)"
  using assms
proof (induction as arbitrary: n)
  case (Cons a as)
  show ?case
  proof (cases a)
    case (Some x)
    obtain p b where x: "x = (p, b)" by (cases x)
    show ?thesis
    proof (cases b)
      case True
      show ?thesis
      proof (cases "needed \<le> n + 1")
        case True
        with \<open>b\<close> show ?thesis by (simp add: Some x collect_reached)
      next
        case False
        with \<open>b\<close> Cons.IH [of "n + 1"] show ?thesis by (simp add: Some x)
      qed
    next
      case False
      with Cons.IH [OF Cons.prems] show ?thesis by (simp add: Some x)
    qed
  qed (use Cons in simp)
qed simp

lemma replicate_iff:
  assumes "peers \<noteq> []"
  shows "replicate_log_entries peers es lc arrivals =
    (if length peers + 1 < 2 * (length (successes arrivals) + 1)
     then Inr (last_or le_index lc es)
     else Inl (length (successes arrivals) + 1, length peers + 1, (length peers + 1) div 2 + 1))"
proof -
  let ?needed = "(length peers + 1) div 2"
  from assms have pos: "0 < ?needed" by (cases peers) auto
  have "m div 2 \<le> k \<longleftrightarrow> m < 2 * (k + 1)" for m k :: nat by presburger
  with pos collect_result [OF pos, of "last_or le_index lc es" arrivals lc] assms show ?thesis
    by (auto simp: replicate_log_entries_def Let_def)
qed

text \<open>Two majorities of the same cluster have a member in common.\<close>

lemma majorities_intersect:
  assumes "finite N" "Q1 \<subseteq> N" "Q2 \<subseteq> N" "card N < 2 * card Q1" "card N < 2 * card Q2"
  shows "Q1 \<inter> Q2 \<noteq> {}"
proof
  assume "Q1 \<inter> Q2 = {}"
  then have "card (Q1 \<union> Q2) = card Q1 + card Q2"
    using assms(1-3) by (meson card_Un_disjoint finite_subset)
  moreover have "card (Q1 \<union> Q2) \<le> card N" using assms(1-3) by (simp add: card_mono)
  ultimately show False using assms(4,5) by linarith
qed

section \<open>The tasks of a leader\<close>

text \<open>
  A task runs one write through its handler. A model write sends the whole log, waits until the
  entries before its own are committed and then applied, takes the apply mutex, applies and
  marks its index. A migration operation sends its entry, commits and applies at once, without
  the waits, the mutex and the mark. The append takes its index first and inserts the entry
  later, and other tasks run in between: \<open>Allocated\<close> is a task whose entry is not yet in the log.
\<close>

datatype 'j task_phase =
    Allocated | Appended | Replicating "'j log_entry list" | AwaitCommit | AwaitApply | Applying
  | Finished bool

record 'j task =
  tk_entry :: "'j log_entry"
  tk_phase :: "'j task_phase"

fun is_migration :: "'j crud_operation \<Rightarrow> bool" where
  "is_migration (MigrationBegin _ _ _) = True"
| "is_migration (MigrationStep _ _ _) = True"
| "is_migration (MigrationCommit _ _) = True"
| "is_migration (MigrationRollback _ _ _) = True"
| "is_migration _ = False"

abbreviation tk_index :: "'j task \<Rightarrow> u64" where
  "tk_index t \<equiv> le_index (tk_entry t)"

abbreviation tk_migration :: "'j task \<Rightarrow> bool" where
  "tk_migration t \<equiv> is_migration (le_operation (tk_entry t))"

text \<open>\<open>ld_marked\<close> records the entries in the order in which they were marked as applied.\<close>

record ('j, 's) leader =
  ld_log :: "'j consensus_log"
  ld_state :: 's
  ld_tasks :: "'j task list"
  ld_marked :: "'j log_entry list"

definition leader_new :: "'s \<Rightarrow> ('j, 's) leader" where
  "leader_new s0 = \<lparr>ld_log = consensus_log_new, ld_state = s0, ld_tasks = [], ld_marked = []\<rparr>"

definition set_phase :: "nat \<Rightarrow> 'j task_phase \<Rightarrow> ('j, 's) leader \<Rightarrow> ('j, 's) leader" where
  "set_phase k ph s = s\<lparr>ld_tasks := (ld_tasks s)[k := (ld_tasks s ! k)\<lparr>tk_phase := ph\<rparr>]\<rparr>"

definition in_phase :: "('j, 's) leader \<Rightarrow> nat \<Rightarrow> 'j task_phase \<Rightarrow> bool" where
  "in_phase s k ph \<longleftrightarrow> k < length (ld_tasks s) \<and> tk_phase (ld_tasks s ! k) = ph"

definition expected_prior :: "'j task \<Rightarrow> u64" where
  "expected_prior t = (if tk_index t = 0 then 0 else tk_index t - 1)"

inductive leader_step ::
  "('j crud_operation \<Rightarrow> 's \<Rightarrow> ('e + 'r) \<times> 's) \<Rightarrow> string list \<Rightarrow>
   ('j, 's) leader \<Rightarrow> ('j, 's) leader \<Rightarrow> bool"
  for app peers where
  lw_alloc:
    "cl_next_index (ld_log s) \<noteq> - 1 \<Longrightarrow> append_alloc now t op (ld_log s) = (e, l) \<Longrightarrow>
     leader_step app peers s (s\<lparr>ld_log := l,
       ld_tasks := ld_tasks s @ [\<lparr>tk_entry = e, tk_phase = Allocated\<rparr>]\<rparr>)"
| lw_insert:
    "in_phase s k Allocated \<Longrightarrow>
     leader_step app peers s (set_phase k Appended
       (s\<lparr>ld_log := append_insert (tk_entry (ld_tasks s ! k)) (ld_log s)\<rparr>))"
| lw_send:
    "in_phase s k Appended \<Longrightarrow>
     leader_step app peers s (set_phase k
       (Replicating (if tk_migration (ld_tasks s ! k) then [tk_entry (ld_tasks s ! k)]
                     else get_entries_from 1 (ld_log s))) s)"
| lw_wal_error:
    "in_phase s k (Replicating es) \<Longrightarrow> \<not> tk_migration (ld_tasks s ! k) \<Longrightarrow>
     leader_step app peers s (set_phase k (Finished False) s)"
| lw_no_majority:
    "in_phase s k (Replicating es) \<Longrightarrow>
     replicate_log_entries peers es lc arrivals = Inl err \<Longrightarrow>
     leader_step app peers s (set_phase k (Finished False) s)"
| lw_commit:
    "in_phase s k (Replicating es) \<Longrightarrow>
     replicate_log_entries peers es lc arrivals = Inr c \<Longrightarrow>
     leader_step app peers s (set_phase k
       (if tk_migration (ld_tasks s ! k) then Applying else AwaitCommit)
       (s\<lparr>ld_log := commit c (ld_log s)\<rparr>))"
| lw_commit_seen:
    "in_phase s k AwaitCommit \<Longrightarrow> expected_prior (ld_tasks s ! k) \<le> cl_commit_index (ld_log s) \<Longrightarrow>
     leader_step app peers s (set_phase k AwaitApply s)"
| lw_commit_timeout:
    "in_phase s k AwaitCommit \<Longrightarrow> cl_commit_index (ld_log s) < expected_prior (ld_tasks s ! k) \<Longrightarrow>
     leader_step app peers s (set_phase k (Finished False) s)"
| lw_apply_seen:
    "in_phase s k AwaitApply \<Longrightarrow> expected_prior (ld_tasks s ! k) \<le> cl_applied_index (ld_log s) \<Longrightarrow>
     leader_step app peers s (set_phase k Applying s)"
| lw_apply:
    "in_phase s k Applying \<Longrightarrow> \<not> tk_migration (ld_tasks s ! k) \<Longrightarrow>
     app (le_operation (tk_entry (ld_tasks s ! k))) (ld_state s) = (Inr r, st) \<Longrightarrow>
     leader_step app peers s (set_phase k (Finished True)
       (s\<lparr>ld_log := mark_applied (tk_index (ld_tasks s ! k)) (ld_log s), ld_state := st,
          ld_marked := ld_marked s @ [tk_entry (ld_tasks s ! k)]\<rparr>))"
| lw_apply_migration:
    "in_phase s k Applying \<Longrightarrow> tk_migration (ld_tasks s ! k) \<Longrightarrow>
     app (le_operation (tk_entry (ld_tasks s ! k))) (ld_state s) = (Inr r, st) \<Longrightarrow>
     leader_step app peers s (set_phase k (Finished True) (s\<lparr>ld_state := st\<rparr>))"
| lw_apply_error:
    "in_phase s k Applying \<Longrightarrow>
     app (le_operation (tk_entry (ld_tasks s ! k))) (ld_state s) = (Inl x, st) \<Longrightarrow>
     leader_step app peers s (set_phase k (Finished False) (s\<lparr>ld_state := st\<rparr>))"
| lw_term: "leader_step app peers s (s\<lparr>ld_log := set_term t (ld_log s)\<rparr>)"

inductive leader_reachable ::
  "('j crud_operation \<Rightarrow> 's \<Rightarrow> ('e + 'r) \<times> 's) \<Rightarrow> string list \<Rightarrow> 's \<Rightarrow>
   ('j, 's) leader \<Rightarrow> bool"
  for app peers s0 where
  lr_init: "leader_reachable app peers s0 (leader_new s0)"
| lr_step:
    "leader_reachable app peers s0 s \<Longrightarrow> leader_step app peers s s' \<Longrightarrow>
     leader_reachable app peers s0 s'"

section \<open>The invariant\<close>

text \<open>
  The tasks hold the indices \<open>1, 2, ...\<close> in order and the log holds the entries inserted; the marked
  entries are those of the finished model writes, in index order without a gap, and the applied
  index is their number. A model write about to apply has everything before it applied.
\<close>

definition inserted :: "('j, 's) leader \<Rightarrow> 'j log_entry set" where
  "inserted s = tk_entry ` {t \<in> set (ld_tasks s). tk_phase t \<noteq> Allocated}"

definition tasks_ok :: "('j, 's) leader \<Rightarrow> bool" where
  "tasks_ok s \<longleftrightarrow>
     1 \<le> unat (cl_next_index (ld_log s)) \<and>
     map (\<lambda>t. unat (tk_index t)) (ld_tasks s) = [1..<unat (cl_next_index (ld_log s))] \<and>
     set (cl_entries (ld_log s)) = inserted s"

definition marks_ok :: "('j, 's) leader \<Rightarrow> bool" where
  "marks_ok s \<longleftrightarrow>
     map (\<lambda>e. unat (le_index e)) (ld_marked s) = [1..<Suc (unat (cl_applied_index (ld_log s)))] \<and>
     set (ld_marked s) = tk_entry ` {t \<in> set (ld_tasks s). \<not> tk_migration t \<and> tk_phase t = Finished True}"

definition ready_ok :: "('j, 's) leader \<Rightarrow> bool" where
  "ready_ok s \<longleftrightarrow>
     (\<forall>t \<in> set (ld_tasks s). tk_phase t = Applying \<longrightarrow> \<not> tk_migration t \<longrightarrow>
        unat (tk_index t) \<le> Suc (unat (cl_applied_index (ld_log s))))"

definition state_ok ::
  "('j crud_operation \<Rightarrow> 's \<Rightarrow> ('e + 'r) \<times> 's) \<Rightarrow> 's \<Rightarrow> ('j, 's) leader \<Rightarrow> bool"
where
  "state_ok apply s0 s \<longleftrightarrow>
     ((\<forall>t \<in> set (ld_tasks s). \<not> tk_migration t) \<longrightarrow>
      ld_state s = fold (\<lambda>e st. snd (apply (le_operation e) st)) (ld_marked s) s0)"

lemma set_phase_simps [simp]:
  "ld_log (set_phase k ph s) = ld_log s" "ld_state (set_phase k ph s) = ld_state s"
  "ld_marked (set_phase k ph s) = ld_marked s"
  by (simp_all add: set_phase_def)

lemma set_phase_entries [simp]:
  "map tk_entry (ld_tasks (set_phase k ph s)) = map tk_entry (ld_tasks s)"
  by (cases "k < length (ld_tasks s)")
    (auto simp: set_phase_def map_update list_update_beyond intro!: nth_equalityI
       simp: nth_list_update)

lemma tasks_ok_frame:
  assumes "tasks_ok s" "map tk_entry (ld_tasks s') = map tk_entry (ld_tasks s)"
    "cl_next_index (ld_log s') = cl_next_index (ld_log s)"
    "set (cl_entries (ld_log s')) = inserted s'"
  shows "tasks_ok s'"
proof -
  have "map (\<lambda>t. unat (tk_index t)) (ld_tasks s') = map (\<lambda>t. unat (tk_index t)) (ld_tasks s)"
    using arg_cong [OF assms(2), of "map (\<lambda>e. unat (le_index e))"] by (simp add: comp_def)
  then show ?thesis using assms by (simp add: tasks_ok_def)
qed

text \<open>The tasks after one changes its phase: the others, and the changed one.\<close>

lemma set_phase_set:
  assumes "k < length (ld_tasks s)" "distinct (ld_tasks s)"
  shows "set (ld_tasks (set_phase k ph s)) =
    insert ((ld_tasks s ! k)\<lparr>tk_phase := ph\<rparr>) (set (ld_tasks s) - {ld_tasks s ! k})"
  using assms by (simp add: set_phase_def set_update_distinct)

lemma inserted_same:
  assumes "k < length (ld_tasks s)" "distinct (ld_tasks s)"
    and "tk_phase (ld_tasks s ! k) \<noteq> Allocated" "ph \<noteq> Allocated"
  shows "inserted (set_phase k ph s) = inserted s"
proof -
  let ?t = "ld_tasks s ! k"
  have t: "?t \<in> set (ld_tasks s)" using assms(1) by simp
  have "{u \<in> set (ld_tasks (set_phase k ph s)). tk_phase u \<noteq> Allocated}
      = insert (?t\<lparr>tk_phase := ph\<rparr>) ({u \<in> set (ld_tasks s). tk_phase u \<noteq> Allocated} - {?t})"
    using assms(4) unfolding set_phase_set [OF assms(1,2)] by auto
  moreover have "{u \<in> set (ld_tasks s). tk_phase u \<noteq> Allocated}
      = insert ?t ({u \<in> set (ld_tasks s). tk_phase u \<noteq> Allocated} - {?t})"
    using t assms(3) by blast
  then have "tk_entry ` {u \<in> set (ld_tasks s). tk_phase u \<noteq> Allocated}
      = insert (tk_entry ?t) (tk_entry ` ({u \<in> set (ld_tasks s). tk_phase u \<noteq> Allocated} - {?t}))"
    by (metis image_insert)
  ultimately show ?thesis by (simp add: inserted_def)
qed

lemma tasks_ok_distinct:
  assumes "tasks_ok s"
  shows "distinct (map (\<lambda>t. unat (tk_index t)) (ld_tasks s))" "distinct (ld_tasks s)"
proof -
  from assms have "map (\<lambda>t. unat (tk_index t)) (ld_tasks s) = [1..<unat (cl_next_index (ld_log s))]"
    by (simp add: tasks_ok_def)
  then show "distinct (map (\<lambda>t. unat (tk_index t)) (ld_tasks s))" by simp
  then show "distinct (ld_tasks s)" by (simp add: distinct_map)
qed

lemma task_unique:
  assumes "tasks_ok s" "t \<in> set (ld_tasks s)" "t' \<in> set (ld_tasks s)" "tk_index t = tk_index t'"
  shows "t = t'"
  using tasks_ok_distinct(1) [OF assms(1)] assms(2-4) by (auto simp: distinct_map inj_on_def)

definition leader_inv ::
  "('j crud_operation \<Rightarrow> 's \<Rightarrow> ('e + 'r) \<times> 's) \<Rightarrow> 's \<Rightarrow> ('j, 's) leader \<Rightarrow> bool"
where
  "leader_inv apply s0 s \<longleftrightarrow> tasks_ok s \<and> marks_ok s \<and> ready_ok s \<and> state_ok apply s0 s"

text \<open>A step that marks nothing: a task changes its phase, perhaps with the commit index.\<close>

lemma unmarked_step:
  assumes inv: "leader_inv apply s0 s" and k: "k < length (ld_tasks s)"
    and old: "tk_phase (ld_tasks s ! k) \<noteq> Finished True" "tk_phase (ld_tasks s ! k) \<noteq> Allocated"
    and new: "ph \<noteq> Finished True \<or> tk_migration (ld_tasks s ! k)" "ph \<noteq> Allocated"
    and ready: "ph = Applying \<Longrightarrow> \<not> tk_migration (ld_tasks s ! k) \<Longrightarrow>
      unat (tk_index (ld_tasks s ! k)) \<le> Suc (unat (cl_applied_index (ld_log s)))"
    and log: "cl_entries l = cl_entries (ld_log s)" "cl_next_index l = cl_next_index (ld_log s)"
      "cl_applied_index l = cl_applied_index (ld_log s)"
    and st: "(\<forall>t \<in> set (ld_tasks s). \<not> tk_migration t) \<Longrightarrow> st = ld_state s"
  shows "leader_inv apply s0 (set_phase k ph (s\<lparr>ld_log := l, ld_state := st\<rparr>))"
proof -
  let ?s = "set_phase k ph (s\<lparr>ld_log := l, ld_state := st\<rparr>)" and ?t = "ld_tasks s ! k"
  from inv have t: "tasks_ok s" and m: "marks_ok s" and r: "ready_ok s" and so: "state_ok apply s0 s"
    by (simp_all add: leader_inv_def)
  have same: "map tk_entry (ld_tasks ?s) = map tk_entry (ld_tasks s)" by simp
  have tasks: "set (ld_tasks ?s) = insert (?t\<lparr>tk_phase := ph\<rparr>) (set (ld_tasks s) - {?t})"
    using set_phase_set [of k "s\<lparr>ld_log := l, ld_state := st\<rparr>" ph] k tasks_ok_distinct(2) [OF t]
    by simp
  let ?u = "s\<lparr>ld_log := l, ld_state := st\<rparr>"
  have "inserted ?s = inserted ?u"
    using inserted_same [of k ?u ph] k old new tasks_ok_distinct(2) [OF t] by simp
  moreover have "inserted ?u = inserted s" by (simp add: inserted_def)
  ultimately have "tasks_ok ?s" using tasks_ok_frame [OF t same] log t by (simp add: tasks_ok_def)
  moreover have "{t \<in> set (ld_tasks ?s). \<not> tk_migration t \<and> tk_phase t = Finished True} =
      {t \<in> set (ld_tasks s). \<not> tk_migration t \<and> tk_phase t = Finished True}"
    using old new by (auto simp: tasks)
  then have "marks_ok ?s" using m log by (simp add: marks_ok_def)
  moreover have "ready_ok ?s" using r ready log by (auto simp: ready_ok_def tasks)
  moreover have "state_ok apply s0 ?s"
    using so st k by (auto simp: state_ok_def tasks)
  ultimately show ?thesis by (simp add: leader_inv_def)
qed

text \<open>A model write that is ready to apply is the next one.\<close>

lemma ready_is_next:
  assumes inv: "leader_inv apply s0 s" and t: "t \<in> set (ld_tasks s)" "tk_phase t = Applying"
    "\<not> tk_migration t"
  shows "unat (tk_index t) = Suc (unat (cl_applied_index (ld_log s)))"
proof (rule ccontr)
  let ?a = "unat (cl_applied_index (ld_log s))"
  assume "unat (tk_index t) \<noteq> Suc ?a"
  with inv t have "unat (tk_index t) < Suc ?a" by (fastforce simp: leader_inv_def ready_ok_def)
  moreover have "unat (tk_index t) \<in> {1..<unat (cl_next_index (ld_log s))}"
  proof -
    have "unat (tk_index t) \<in> set (map (\<lambda>t. unat (tk_index t)) (ld_tasks s))" using t(1) by simp
    with inv show ?thesis by (simp add: leader_inv_def tasks_ok_def)
  qed
  ultimately have "unat (tk_index t) \<in> set (map (\<lambda>e. unat (le_index e)) (ld_marked s))"
    using inv by (auto simp: leader_inv_def marks_ok_def simp del: upt_Suc)
  then obtain e where "e \<in> set (ld_marked s)" "le_index e = tk_index t"
    by (auto simp: u64_eq_unat)
  then obtain t' where t': "t' \<in> set (ld_tasks s)" "tk_phase t' = Finished True"
    "tk_index t' = tk_index t"
    using inv by (auto simp: leader_inv_def marks_ok_def)
  have "tasks_ok s" using inv by (simp add: leader_inv_def)
  from task_unique [OF this t'(1) t(1) t'(3)] t'(2) t(2) show False by simp
qed

lemma apply_step_inv:
  assumes inv: "leader_inv apply s0 s" and k: "in_phase s k Applying"
    and w: "\<not> tk_migration (ld_tasks s ! k)"
    and ap: "apply (le_operation (tk_entry (ld_tasks s ! k))) (ld_state s) = (Inr r, st)"
  shows "leader_inv apply s0 (set_phase k (Finished True)
    (s\<lparr>ld_log := mark_applied (tk_index (ld_tasks s ! k)) (ld_log s), ld_state := st,
       ld_marked := ld_marked s @ [tk_entry (ld_tasks s ! k)]\<rparr>))" (is "leader_inv _ _ ?s")
proof -
  let ?t = "ld_tasks s ! k" and ?a = "unat (cl_applied_index (ld_log s))"
  let ?l = "mark_applied (tk_index ?t) (ld_log s)"
  from k have len: "k < length (ld_tasks s)" and ph: "tk_phase ?t = Applying"
    by (auto simp: in_phase_def)
  then have tin: "?t \<in> set (ld_tasks s)" by simp
  from inv have t: "tasks_ok s" and m: "marks_ok s" and r: "ready_ok s" and so: "state_ok apply s0 s"
    by (simp_all add: leader_inv_def)
  from ready_is_next [OF inv tin ph w] have ix: "unat (tk_index ?t) = Suc ?a" .
  then have a': "unat (cl_applied_index ?l) = Suc ?a"
    by (simp add: mark_applied_def fetch_max_def max_def word_le_nat_alt)
  have tasks: "set (ld_tasks ?s) = insert (?t\<lparr>tk_phase := Finished True\<rparr>) (set (ld_tasks s) - {?t})"
    using set_phase_set [where k = k and ph = "Finished True" and s =
        "s\<lparr>ld_log := ?l, ld_state := st, ld_marked := ld_marked s @ [tk_entry ?t]\<rparr>"]
      len tasks_ok_distinct(2) [OF t] by simp
  have same: "map tk_entry (ld_tasks ?s) = map tk_entry (ld_tasks s)" by simp
  let ?u = "s\<lparr>ld_log := ?l, ld_state := st, ld_marked := ld_marked s @ [tk_entry ?t]\<rparr>"
  have "inserted ?s = inserted ?u"
    using inserted_same [of k ?u "Finished True"] len ph tasks_ok_distinct(2) [OF t] by simp
  moreover have "inserted ?u = inserted s" by (simp add: inserted_def)
  ultimately have "tasks_ok ?s"
    using tasks_ok_frame [OF t same] t by (simp add: tasks_ok_def mark_applied_def)
  moreover have "{t \<in> set (ld_tasks ?s). \<not> tk_migration t \<and> tk_phase t = Finished True} =
      insert (?t\<lparr>tk_phase := Finished True\<rparr>)
        {t \<in> set (ld_tasks s). \<not> tk_migration t \<and> tk_phase t = Finished True}"
    using ph w by (auto simp: tasks)
  then have "marks_ok ?s" using m by (simp add: marks_ok_def a' ix)
  moreover have "ready_ok ?s" using r a' by (auto simp: ready_ok_def tasks)
  moreover have "state_ok apply s0 ?s" using so ap tin by (auto simp: state_ok_def tasks)
  ultimately show ?thesis by (simp add: leader_inv_def)
qed

lemma alloc_step_leader_inv:
  assumes inv: "leader_inv apply s0 s" and top: "cl_next_index (ld_log s) \<noteq> - 1"
    and ap: "append_alloc now t op (ld_log s) = (e, l)"
  shows "leader_inv apply s0
    (s\<lparr>ld_log := l, ld_tasks := ld_tasks s @ [\<lparr>tk_entry = e, tk_phase = Allocated\<rparr>]\<rparr>)"
proof -
  let ?n = "cl_next_index (ld_log s)"
  from ap have e: "le_index e = ?n" and l: "cl_next_index l = ?n + 1"
    "cl_applied_index l = cl_applied_index (ld_log s)" "cl_entries l = cl_entries (ld_log s)"
    by (auto simp: append_alloc_def)
  from u64_succ_unat [OF top] have n: "unat (?n + 1) = Suc (unat ?n)" .
  have "inserted (s\<lparr>ld_log := l, ld_tasks := ld_tasks s @ [\<lparr>tk_entry = e, tk_phase = Allocated\<rparr>]\<rparr>)
      = inserted s" by (auto simp: inserted_def)
  then show ?thesis
    using inv e l n
    by (auto simp: leader_inv_def tasks_ok_def marks_ok_def ready_ok_def state_ok_def)
qed

lemma insert_step_leader_inv:
  assumes inv: "leader_inv apply s0 s" and k: "in_phase s k Allocated"
  shows "leader_inv apply s0 (set_phase k Appended
    (s\<lparr>ld_log := append_insert (tk_entry (ld_tasks s ! k)) (ld_log s)\<rparr>))" (is "leader_inv _ _ ?s")
proof -
  let ?t = "ld_tasks s ! k" and ?l = "append_insert (tk_entry (ld_tasks s ! k)) (ld_log s)"
  from k have len: "k < length (ld_tasks s)" and ph: "tk_phase ?t = Allocated"
    by (auto simp: in_phase_def)
  from inv have t: "tasks_ok s" and m: "marks_ok s" and r: "ready_ok s" and so: "state_ok apply s0 s"
    by (simp_all add: leader_inv_def)
  have tasks: "set (ld_tasks ?s) = insert (?t\<lparr>tk_phase := Appended\<rparr>) (set (ld_tasks s) - {?t})"
    using set_phase_set [of k "s\<lparr>ld_log := ?l\<rparr>" Appended] len tasks_ok_distinct(2) [OF t] by simp
  have l: "set (cl_entries ?l) = insert (tk_entry ?t) (set (cl_entries (ld_log s)))"
    "cl_next_index ?l = cl_next_index (ld_log s)" "cl_applied_index ?l = cl_applied_index (ld_log s)"
    by (simp_all add: append_insert_def)
  have "{u \<in> set (ld_tasks ?s). tk_phase u \<noteq> Allocated}
      = insert (?t\<lparr>tk_phase := Appended\<rparr>) {u \<in> set (ld_tasks s). tk_phase u \<noteq> Allocated}"
    using ph unfolding tasks by auto
  then have "inserted ?s = insert (tk_entry ?t) (inserted s)" by (simp add: inserted_def)
  then have "set (cl_entries (ld_log ?s)) = inserted ?s" using t l by (simp add: tasks_ok_def)
  then have "tasks_ok ?s" using tasks_ok_frame [OF t, of ?s] l by simp
  moreover have "{u \<in> set (ld_tasks ?s). \<not> tk_migration u \<and> tk_phase u = Finished True} =
      {u \<in> set (ld_tasks s). \<not> tk_migration u \<and> tk_phase u = Finished True}"
    using ph by (auto simp: tasks)
  then have "marks_ok ?s" using m l by (simp add: marks_ok_def)
  moreover have "ready_ok ?s" using r l by (auto simp: ready_ok_def tasks)
  moreover have "state_ok apply s0 ?s" using so len by (auto simp: state_ok_def tasks)
  ultimately show ?thesis by (simp add: leader_inv_def)
qed

lemma leader_inv_new: "leader_inv apply s0 (leader_new s0)"
  by (simp add: leader_inv_def tasks_ok_def marks_ok_def ready_ok_def state_ok_def leader_new_def
      consensus_log_new_def inserted_def)

lemma leader_step_inv:
  assumes clean: "fails_clean apply" and step: "leader_step apply peers s s'"
    and inv: "leader_inv apply s0 s"
  shows "leader_inv apply s0 s'"
proof -
  note quiet = unmarked_step [OF inv, where l = "ld_log s" and st = "ld_state s", simplified]
  from step show ?thesis
  proof cases
    case (lw_alloc now t op e l)
    from alloc_step_leader_inv [OF inv lw_alloc(2,3)] lw_alloc(1) show ?thesis by simp
  next
    case (lw_insert k)
    from insert_step_leader_inv [OF inv lw_insert(2)] lw_insert(1) show ?thesis by simp
  next
    case (lw_send k)
    then have "leader_inv apply s0 (set_phase k (Replicating es) s)" for es
      using quiet [of k "Replicating es"] by (simp add: in_phase_def)
    then show ?thesis by (simp only: lw_send(1))
  next
    case (lw_wal_error k es)
    with quiet [of k "Finished False"] show ?thesis by (simp add: in_phase_def)
  next
    case (lw_no_majority k es)
    with quiet [of k "Finished False"] show ?thesis by (simp add: in_phase_def)
  next
    case (lw_commit k es lc arrivals c)
    with unmarked_step [OF inv, where k = k and ph = AwaitCommit and l = "commit c (ld_log s)" and
        st = "ld_state s"]
      unmarked_step [OF inv, where k = k and ph = Applying and l = "commit c (ld_log s)" and
        st = "ld_state s"]
    show ?thesis
      by (cases "tk_migration (ld_tasks s ! k)") (simp_all add: in_phase_def commit_def)
  next
    case (lw_commit_seen k)
    with quiet [of k "AwaitApply"] show ?thesis by (simp add: in_phase_def)
  next
    case (lw_commit_timeout k)
    with quiet [of k "Finished False"] show ?thesis by (simp add: in_phase_def)
  next
    case (lw_apply_seen k)
    then have "unat (tk_index (ld_tasks s ! k)) \<le> Suc (unat (cl_applied_index (ld_log s)))"
      by (auto simp: expected_prior_def word_le_nat_alt unat_sub_if' split: if_splits)
    with lw_apply_seen quiet [of k Applying] show ?thesis by (simp add: in_phase_def)
  next
    case (lw_apply k r st)
    from apply_step_inv [OF inv lw_apply(2-4)] lw_apply(1) show ?thesis by simp
  next
    case (lw_apply_migration k r st)
    have "\<not> (\<forall>t \<in> set (ld_tasks s). \<not> tk_migration t)"
      using lw_apply_migration(2,3) by (auto simp: in_phase_def)
    with lw_apply_migration unmarked_step [OF inv, where k = k and ph = "Finished True" and
        l = "ld_log s" and st = st]
    show ?thesis by (simp add: in_phase_def)
  next
    case (lw_apply_error k x st)
    with clean [unfolded fails_clean_def, rule_format,
        of "le_operation (tk_entry (ld_tasks s ! k))" "ld_state s"]
    have "st = ld_state s" by simp
    with lw_apply_error quiet [of k "Finished False"] show ?thesis by (simp add: in_phase_def)
  next
    case (lw_term t)
    with inv show ?thesis
      by (simp add: leader_inv_def tasks_ok_def marks_ok_def ready_ok_def state_ok_def set_term_def
          inserted_def)
  qed
qed

lemma leader_reachable_inv:
  assumes "leader_reachable apply peers s0 s" "fails_clean apply"
  shows "leader_inv apply s0 s"
  using assms(1)
proof (induction rule: leader_reachable.induct)
  case lr_init
  show ?case by (rule leader_inv_new)
next
  case (lr_step s s')
  from leader_step_inv [OF assms(2) lr_step.hyps(2) lr_step.IH] show ?case .
qed

text \<open>The replay of the log is the replay of the marked entries.\<close>

lemma leader_log_agree: "tasks_ok s \<Longrightarrow> index_agree (set (cl_entries (ld_log s)))"
proof -
  assume t: "tasks_ok s"
  then have es: "set (cl_entries (ld_log s)) \<subseteq> tk_entry ` set (ld_tasks s)"
    by (auto simp: tasks_ok_def inserted_def)
  have "index_agree (tk_entry ` set (ld_tasks s))"
    unfolding index_agree_def using task_unique [OF t] by blast
  then show ?thesis using es by (rule index_agree_subset)
qed

lemma leader_state_replay:
  assumes inv: "leader_inv apply s0 s" and writes: "\<forall>t \<in> set (ld_tasks s). \<not> tk_migration t"
  shows "ld_state s = replay apply (ld_log s) (unat (cl_applied_index (ld_log s))) s0"
proof -
  let ?l = "ld_log s" and ?f = "\<lambda>e st. snd (apply (le_operation e) st)"
  let ?g = "\<lambda>i st. case entry_at ?l i of Some e \<Rightarrow> ?f e st | None \<Rightarrow> st"
  from inv have t: "tasks_ok s" and m: "marks_ok s" by (simp_all add: leader_inv_def)
  have sub: "set (ld_marked s) \<subseteq> set (cl_entries ?l)"
    using t m by (auto simp: tasks_ok_def marks_ok_def inserted_def intro!: imageI)
  have "entry_at ?l (unat (le_index e)) = Some e" if "e \<in> set (ld_marked s)" for e
    using that sub by (auto simp: entry_at_iff [OF leader_log_agree [OF t]])
  then have "fold ?f (ld_marked s) s0 = fold (\<lambda>e. ?g (unat (le_index e))) (ld_marked s) s0"
    by (intro fold_cong) auto
  also have "\<dots> = fold ?g (map (\<lambda>e. unat (le_index e)) (ld_marked s)) s0"
    by (simp add: fold_map comp_def)
  finally show ?thesis
    using inv writes m by (simp add: leader_inv_def state_ok_def marks_ok_def replay_def)
qed

section \<open>Abandoned indices\<close>

text \<open>
  A task that ended with an error, and every migration operation, never marks its index. Both
  facts last.
\<close>

definition unmarkable :: "'j task \<Rightarrow> bool" where
  "unmarkable t \<longleftrightarrow> tk_phase t = Finished False \<or> tk_migration t"

lemma set_phase_keeps:
  assumes "in_phase s k ph0" "\<And>b. ph0 \<noteq> Finished b" "t \<in> set (ld_tasks s)" "unmarkable t"
  shows "\<exists>t' \<in> set (ld_tasks (set_phase k ph (s\<lparr>ld_log := l, ld_state := st, ld_marked := mk\<rparr>))).
    tk_entry t' = tk_entry t \<and> unmarkable t'"
proof -
  from assms(3) obtain i where i: "i < length (ld_tasks s)" "ld_tasks s ! i = t"
    by (auto simp: in_set_conv_nth)
  let ?ts = "(ld_tasks s)[k := (ld_tasks s ! k)\<lparr>tk_phase := ph\<rparr>]"
  have "tk_entry (?ts ! i) = tk_entry t \<and> unmarkable (?ts ! i)"
  proof (cases "i = k")
    case True
    with assms i show ?thesis by (auto simp: in_phase_def unmarkable_def)
  next
    case False
    with assms(4) i show ?thesis by simp
  qed
  moreover have "?ts ! i \<in> set ?ts" using i(1) by (simp only: nth_mem length_list_update)
  ultimately show ?thesis by (auto simp: set_phase_def)
qed

lemma unmarkable_step:
  assumes "leader_step apply peers s s'" "t \<in> set (ld_tasks s)" "unmarkable t"
  shows "\<exists>t' \<in> set (ld_tasks s'). tk_entry t' = tk_entry t \<and> unmarkable t'"
proof -
  note keep = set_phase_keeps [OF _ _ assms(2,3)]
  note still = keep [where l = "ld_log s" and st = "ld_state s" and mk = "ld_marked s", simplified]
  from assms(1) show ?thesis
  proof cases
    case (lw_commit k es lc arrivals c)
    with keep [where st = "ld_state s" and mk = "ld_marked s", simplified] show ?thesis by blast
  next
    case (lw_apply k r st)
    with keep show ?thesis by blast
  next
    case (lw_apply_migration k r st)
    with keep [where l = "ld_log s" and mk = "ld_marked s", simplified] show ?thesis by blast
  next
    case (lw_apply_error k x st)
    with keep [where l = "ld_log s" and mk = "ld_marked s", simplified] show ?thesis by blast
  next
    case lw_alloc
    with assms(2,3) show ?thesis by auto
  next
    case (lw_insert k)
    with keep [where st = "ld_state s" and mk = "ld_marked s", simplified] show ?thesis by blast
  next
    case (lw_send k)
    with still show ?thesis by blast
  next
    case (lw_wal_error k es)
    with still show ?thesis by blast
  next
    case (lw_no_majority k es)
    with still show ?thesis by blast
  next
    case (lw_commit_seen k)
    with still show ?thesis by blast
  next
    case (lw_commit_timeout k)
    with still show ?thesis by blast
  next
    case (lw_apply_seen k)
    with still show ?thesis by blast
  next
    case lw_term
    with assms(2,3) show ?thesis by auto
  qed
qed

lemma unmarkable_steps:
  assumes "(leader_step apply peers)\<^sup>*\<^sup>* s s'" "t \<in> set (ld_tasks s)" "unmarkable t"
  shows "\<exists>t' \<in> set (ld_tasks s'). tk_entry t' = tk_entry t \<and> unmarkable t'"
  using assms(1)
proof (induction rule: rtranclp_induct)
  case base
  show ?case using assms(2,3) by blast
next
  case (step y z)
  from step.IH obtain t1 where t1: "t1 \<in> set (ld_tasks y)" "tk_entry t1 = tk_entry t"
    "unmarkable t1" by blast
  from unmarkable_step [OF step.hyps(2) t1(1,3)] t1(2) show ?case by auto
qed

lemma reachable_steps:
  "(leader_step apply peers)\<^sup>*\<^sup>* s s' \<Longrightarrow> leader_reachable apply peers s0 s \<Longrightarrow>
   leader_reachable apply peers s0 s'"
  by (induction rule: rtranclp_induct) (auto intro: lr_step)

lemma unmarkable_blocks:
  assumes inv: "leader_inv apply s0 s" and t: "t \<in> set (ld_tasks s)" "unmarkable t"
  shows "cl_applied_index (ld_log s) < tk_index t"
proof (rule ccontr)
  assume "\<not> ?thesis"
  then have "unat (tk_index t) < Suc (unat (cl_applied_index (ld_log s)))"
    by (simp add: word_le_nat_alt not_less)
  moreover from inv have ok: "tasks_ok s" by (simp add: leader_inv_def)
  then have "unat (tk_index t) \<in> {1..<unat (cl_next_index (ld_log s))}"
    using t(1) by (metis (mono_tags, lifting) image_eqI image_set set_upt tasks_ok_def)
  ultimately have "unat (tk_index t) \<in> set (map (\<lambda>e. unat (le_index e)) (ld_marked s))"
    using inv by (auto simp: leader_inv_def marks_ok_def simp del: upt_Suc)
  then obtain t' where t': "t' \<in> set (ld_tasks s)" "tk_phase t' = Finished True"
    "\<not> tk_migration t'" "tk_index t' = tk_index t"
    using inv by (auto simp: leader_inv_def marks_ok_def u64_eq_unat)
  from task_unique [OF ok t'(1) t(1) t'(4)] t'(2,3) t(2) show False by (simp add: unmarkable_def)
qed

section \<open>Properties\<close>

text \<open>
  Commitment needs a majority: in a cluster with followers, replication commits exactly when
  the leader and the followers that acknowledged are more than half of the nodes; it then commits
  the last entry that was sent, and otherwise reports how many nodes it reached.
\<close>

theorem commit_needs_majority:
  assumes "peers \<noteq> []"
  shows "((\<exists>c. replicate_log_entries peers es lc arrivals = Inr c) \<longleftrightarrow>
      length peers + 1 < 2 * (length (successes arrivals) + 1)) \<and>
    (\<forall>c. replicate_log_entries peers es lc arrivals = Inr c \<longrightarrow> c = last_or le_index lc es) \<and>
    (\<forall>n k m. replicate_log_entries peers es lc arrivals = Inl (n, k, m) \<longrightarrow> n < m \<and> m \<le> k)"
  using assms by (auto simp: replicate_iff)

lemma commit_needs_majority_witness:
  "(\<exists>c. replicate_log_entries [''a'', ''b''] [example_entry 1 1 ''x''] 1
      [Some (''b'', True), Some (''a'', False)] = Inr c) \<and>
   \<not> (\<exists>c. replicate_log_entries [''a'', ''b'', ''c''] [example_entry 1 1 ''x''] 1
      [Some (''b'', True), None] = Inr c)"
  using commit_needs_majority [of "[''a'', ''b'']" "[example_entry 1 1 ''x'']" 1
      "[Some (''b'', True), Some (''a'', False)]"]
    commit_needs_majority [of "[''a'', ''b'', ''c'']" "[example_entry 1 1 ''x'']" 1
      "[Some (''b'', True), None]"]
  by simp

text \<open>
  Quorums intersect: whenever two replications of leaders of the same cluster commit, with
  acknowledgements from distinct peers, some node took part in both.
\<close>

theorem committed_quorums_intersect:
  assumes "finite N"
    and "l1 \<in> N" "set p1 = N - {l1}" "distinct p1" "p1 \<noteq> []"
    and "l2 \<in> N" "set p2 = N - {l2}" "distinct p2" "p2 \<noteq> []"
    and "distinct (successes a1)" "set (successes a1) \<subseteq> set p1"
    and "distinct (successes a2)" "set (successes a2) \<subseteq> set p2"
    and "replicate_log_entries p1 es1 c1 a1 = Inr k1" "replicate_log_entries p2 es2 c2 a2 = Inr k2"
  shows "insert l1 (set (successes a1)) \<inter> insert l2 (set (successes a2)) \<noteq> {}"
proof -
  have half: "card N < 2 * card (insert l (set (successes a)))"
    if "l \<in> N" "set p = N - {l}" "distinct p" "p \<noteq> []" "distinct (successes a)"
      "set (successes a) \<subseteq> set p" "replicate_log_entries p es c a = Inr k" for l p a es c k
  proof -
    have "card N = length p + 1"
      using card.remove [OF assms(1) that(1)] that(2) distinct_card [OF that(3)] by simp
    moreover have "card (insert l (set (successes a))) = length (successes a) + 1"
      using that(2,6) distinct_card [OF that(5)] by (subst card_insert_disjoint) auto
    moreover have "length p + 1 < 2 * (length (successes a) + 1)"
      using that(4,7) by (simp add: replicate_iff split: if_splits)
    ultimately show ?thesis by simp
  qed
  have "insert l1 (set (successes a1)) \<subseteq> N" "insert l2 (set (successes a2)) \<subseteq> N"
    using assms(2,3,6,7,11,13) by blast+
  from majorities_intersect [OF assms(1) this half [OF assms(2-5,10,11,14)]
      half [OF assms(6-9,12,13,15)]] show ?thesis .
qed

lemma committed_quorums_intersect_witness:
  "insert ''a'' (set (successes [Some (''b'', True)])) \<inter>
   insert ''c'' (set (successes [Some (''a'', False), Some (''b'', True)])) \<noteq> {}"
proof -
  let ?N = "{''a'', ''b'', ''c''}" and ?es = "[] :: unit log_entry list"
  have r1: "replicate_log_entries [''b'', ''c''] ?es 1 [Some (''b'', True)] = Inr 1"
    by (simp add: replicate_iff last_or_def)
  have r2: "replicate_log_entries [''a'', ''b''] ?es 1 [Some (''a'', False), Some (''b'', True)] = Inr 1"
    by (simp add: replicate_iff last_or_def)
  have n: "set [''b'', ''c''] = ?N - {''a''}" "set [''a'', ''b''] = ?N - {''c''}" by auto
  show ?thesis
    by (rule committed_quorums_intersect [OF _ _ n(1) _ _ _ n(2) _ _ _ _ _ _ r1 r2]) simp_all
qed

text \<open>
  C15. The leader applies in order: however its write handlers interleave, with replications that
  fail and waits that time out, as long as no migration operation was submitted its state is the
  replay of its log up to the applied index, and the writes answered with success are exactly
  the indices up to it, in this order.
\<close>

theorem leader_applies_in_order:
  assumes "fails_clean apply" and "leader_reachable apply peers s0 s"
    and "\<forall>t \<in> set (ld_tasks s). \<not> tk_migration t"
  shows "ld_state s = replay apply (ld_log s) (unat (cl_applied_index (ld_log s))) s0 \<and>
    map (\<lambda>e. unat (le_index e)) (ld_marked s) = [1..<Suc (unat (cl_applied_index (ld_log s)))] \<and>
    set (ld_marked s) = tk_entry ` {t \<in> set (ld_tasks s). tk_phase t = Finished True}"
proof -
  from leader_reachable_inv [OF assms(2,1)] have inv: "leader_inv apply s0 s" .
  then have m: "marks_ok s" by (simp add: leader_inv_def)
  moreover from assms(3) have "{t \<in> set (ld_tasks s). \<not> tk_migration t \<and> tk_phase t = Finished True}
      = {t \<in> set (ld_tasks s). tk_phase t = Finished True}" by blast
  ultimately show ?thesis
    using leader_state_replay [OF inv assms(3)] by (simp add: marks_ok_def del: upt_Suc)
qed

text \<open>One model write of a single-node leader, from its append to its answer.\<close>

definition op_a :: "unit crud_operation" where
  "op_a = Delete ''/api/products'' ''a''"

definition entry_a :: "unit log_entry" where
  "entry_a = \<lparr>le_log_id = LogId 1 1, le_operation = op_a, le_timestamp_ms = 7\<rparr>"

definition sent_leader :: "u64 \<Rightarrow> unit task_phase \<Rightarrow> (unit, string list) leader" where
  "sent_leader c ph =
     \<lparr>ld_log = consensus_log_new\<lparr>cl_next_index := 2, cl_entries := [entry_a], cl_commit_index := c\<rparr>,
      ld_state = [], ld_tasks = [\<lparr>tk_entry = entry_a, tk_phase = ph\<rparr>], ld_marked = []\<rparr>"

lemma entry_a_simps [simp]: "le_index entry_a = 1" "le_operation entry_a = op_a"
  "is_migration op_a = False" "record_delete op_a st = (Inr (), st @ [''a''])"
  by (simp_all add: entry_a_def op_a_def)

lemma sent_leader_phase [simp]:
  "in_phase (sent_leader c ph) 0 ph' \<longleftrightarrow> ph = ph'"
  "set_phase 0 ph' (sent_leader c ph) = sent_leader c ph'"
  "ld_tasks (sent_leader c ph) = [\<lparr>tk_entry = entry_a, tk_phase = ph\<rparr>]"
  "ld_state (sent_leader c ph) = []" "ld_marked (sent_leader c ph) = []"
  "cl_commit_index (ld_log (sent_leader c ph)) = c"
  "cl_applied_index (ld_log (sent_leader c ph)) = 0"
  "cl_entries (ld_log (sent_leader c ph)) = [entry_a]"
  by (simp_all add: in_phase_def set_phase_def sent_leader_def consensus_log_new_def)

lemma sent_leader_reachable:
  "leader_reachable record_delete peers [] (sent_leader 0 (Replicating [entry_a]))"
proof -
  have top: "cl_next_index (ld_log (leader_new ([] :: string list) :: (unit, _) leader)) \<noteq> - 1"
    by (simp add: leader_new_def consensus_log_new_def)
  have ap: "append_alloc 7 1 op_a (ld_log (leader_new ([] :: string list))) =
      (entry_a, consensus_log_new\<lparr>cl_next_index := 2\<rparr>)"
    by (simp add: append_alloc_def consensus_log_new_def entry_a_def leader_new_def)
  let ?s = "leader_new []\<lparr>ld_log := consensus_log_new\<lparr>cl_next_index := 2\<rparr>,
      ld_tasks := [\<lparr>tk_entry = entry_a, tk_phase = Allocated\<rparr>]\<rparr> :: (unit, string list) leader"
  from lr_step [OF lr_init lw_alloc [OF top ap], of record_delete peers]
  have a: "leader_reachable record_delete peers [] ?s" by (simp add: leader_new_def)
  have "in_phase ?s 0 Allocated" by (simp add: in_phase_def)
  from lr_step [OF a lw_insert [OF this]]
  have r: "leader_reachable record_delete peers [] (sent_leader 0 Appended)"
    by (simp add: leader_new_def sent_leader_def consensus_log_new_def append_insert_def set_phase_def)
  from lr_step [OF r lw_send [where k = 0]] show ?thesis by (simp add: get_entries_from_def)
qed

lemma applying_leader_reachable:
  "leader_reachable record_delete [] [] (sent_leader 1 Applying)"
proof -
  have "replicate_log_entries [] [entry_a] 1 [] = Inr 1" by (simp add: replicate_log_entries_def)
  from lr_step [OF sent_leader_reachable lw_commit [OF _ this, where k = 0]]
  have "leader_reachable record_delete [] [] (set_phase 0 AwaitCommit
      (sent_leader 0 (Replicating [entry_a])
        \<lparr>ld_log := commit 1 (ld_log (sent_leader 0 (Replicating [entry_a])))\<rparr>))"
    by simp
  moreover have "sent_leader 0 ph\<lparr>ld_log := commit 1 (ld_log (sent_leader 0 ph))\<rparr> = sent_leader 1 ph"
    for ph by (simp add: sent_leader_def commit_def fetch_max_def)
  ultimately have r: "leader_reachable record_delete [] [] (sent_leader 1 AwaitCommit)" by simp
  from lr_step [OF r lw_commit_seen [where k = 0]]
  have "leader_reachable record_delete [] [] (sent_leader 1 AwaitApply)"
    by (simp add: expected_prior_def)
  from lr_step [OF this lw_apply_seen [where k = 0]] show ?thesis by (simp add: expected_prior_def)
qed

definition applied_leader :: "(unit, string list) leader" where
  "applied_leader = set_phase 0 (Finished True) (sent_leader 1 Applying
      \<lparr>ld_log := mark_applied 1 (ld_log (sent_leader 1 Applying)), ld_state := [''a''],
       ld_marked := [entry_a]\<rparr>)"

lemma applied_leader_reachable: "leader_reachable record_delete [] [] applied_leader"
  using lr_step [OF applying_leader_reachable lw_apply [where k = 0]] by (simp add: applied_leader_def)

lemma applied_leader_simps:
  "ld_state applied_leader = [''a'']" "ld_marked applied_leader = [entry_a]"
  "cl_applied_index (ld_log applied_leader) = 1" "cl_entries (ld_log applied_leader) = [entry_a]"
  "\<forall>t \<in> set (ld_tasks applied_leader). \<not> tk_migration t"
  by (simp_all add: applied_leader_def mark_applied_def fetch_max_def set_phase_def)

lemma leader_applies_in_order_witness:
  "\<exists>s. leader_reachable record_delete [] [] s \<and> ld_state s = [''a''] \<and>
     map (\<lambda>e. unat (le_index e)) (ld_marked s) = [1] \<and>
     ld_state s = replay record_delete (ld_log s) 1 []"
  using leader_applies_in_order [OF record_delete_clean applied_leader_reachable applied_leader_simps(5)]
    applied_leader_reachable applied_leader_simps by auto

text \<open>
  C16. Leader and followers agree: a leader without migration operations and a follower that has
  received only entries of its log are in the same state whenever they have applied up to the
  same index.
\<close>

theorem leader_follower_agree:
  assumes clean: "fails_clean apply" and lead: "leader_reachable apply peers s0 s"
    and writes: "\<forall>t \<in> set (ld_tasks s). \<not> tk_migration t"
    and foll: "follower_reachable apply (set (cl_entries (ld_log s))) s0 f"
    and same: "cl_applied_index (fo_log f) = cl_applied_index (ld_log s)"
  shows "fo_state f = ld_state s"
proof -
  let ?S = "set (cl_entries (ld_log s))" and ?n = "unat (cl_applied_index (ld_log s))"
  from leader_reachable_inv [OF lead clean] have inv: "leader_inv apply s0 s" .
  then have ok: "tasks_ok s" by (simp add: leader_inv_def)
  note agree = leader_log_agree [OF ok]
  from follower_reachable_ok [OF foll clean agree]
  have finv: "follower_inv apply ?S s0 (fo_log f, fo_state f)" by (simp add: follower_ok_def)
  have "entry_at (fo_log f) i = entry_at (ld_log s) i" if i: "1 \<le> i" "i \<le> ?n" for i
  proof -
    from follower_entry_at [OF finv agree, of i] i same obtain e where
      e: "e \<in> ?S" "entry_at (fo_log f) i = Some e" "unat (le_index e) = i" by auto
    then have "entry_at (ld_log s) i = Some e" by (simp add: entry_at_iff [OF agree])
    with e(2) show ?thesis by simp
  qed
  then have "replay apply (fo_log f) ?n s0 = replay apply (ld_log s) ?n s0"
    by (rule replay_cong)
  with finv leader_state_replay [OF inv writes] same show ?thesis by (simp add: follower_inv_def)
qed

text \<open>A follower that has applied what the leader sent with its write.\<close>

lemma leader_follower_agree_witness:
  "snd (serve_all record_delete [request 1 [entry_a] 1] (consensus_log_new, [])) = [''a'']
   \<and> cl_applied_index (ld_log applied_leader) = 1"
proof -
  let ?st = "serve_all record_delete [request 1 [entry_a] 1] (consensus_log_new, [])"
  have "follower_reachable record_delete {entry_a} [] (idle (consensus_log_new, []))"
    using fr_init [of record_delete "{entry_a}" "[]"] by (simp add: follower_new_def)
  from serve_all_steps [OF this, of "[request 1 [entry_a] 1]"]
  have f: "follower_reachable record_delete (set (cl_entries (ld_log applied_leader))) [] (idle ?st)"
    by (simp add: request_def applied_leader_simps)
  have "cl_applied_index (fo_log (idle ?st)) = 1" by code_simp
  then have "cl_applied_index (fo_log (idle ?st)) = cl_applied_index (ld_log applied_leader)"
    by (simp add: applied_leader_simps)
  from leader_follower_agree [OF record_delete_clean applied_leader_reachable applied_leader_simps(5) f this]
  show ?thesis by (simp add: applied_leader_simps)
qed

text \<open>
  C17. An abandoned index blocks the leader for good: once a write has been answered with an error
  (no majority, a failed log write, a timeout, a failed application), or a migration operation
  has been submitted, the applied index stays below its index in every later state, and no write
  with a higher index is ever applied and answered.
\<close>

theorem abandoned_write_blocks:
  assumes "fails_clean apply" and "leader_reachable apply peers s0 s"
    and "t \<in> set (ld_tasks s)" and "tk_phase t = Finished False \<or> tk_migration t"
    and "(leader_step apply peers)\<^sup>*\<^sup>* s s'"
  shows "cl_applied_index (ld_log s') < tk_index t \<and>
    (\<forall>t' \<in> set (ld_tasks s'). \<not> tk_migration t' \<longrightarrow> tk_index t < tk_index t' \<longrightarrow>
       tk_phase t' \<noteq> Finished True)"
proof -
  from assms(4) have "unmarkable t" by (simp add: unmarkable_def)
  from unmarkable_steps [OF assms(5,3) this] obtain u where
    u: "u \<in> set (ld_tasks s')" "tk_entry u = tk_entry t" "unmarkable u" by blast
  have "leader_reachable apply peers s0 s'" using assms(5,2) by (rule reachable_steps)
  from leader_reachable_inv [OF this assms(1)] have inv: "leader_inv apply s0 s'" .
  from unmarkable_blocks [OF inv u(1,3)] u(2)
  have low: "cl_applied_index (ld_log s') < tk_index t" by simp
  moreover have "tk_phase t' \<noteq> Finished True"
    if "t' \<in> set (ld_tasks s')" "\<not> tk_migration t'" "tk_index t < tk_index t'" for t'
  proof
    assume "tk_phase t' = Finished True"
    with that inv have "tk_entry t' \<in> set (ld_marked s')" by (auto simp: leader_inv_def marks_ok_def)
    then have "unat (tk_index t') \<in> set (map (\<lambda>e. unat (le_index e)) (ld_marked s'))" by simp
    with inv have "unat (tk_index t') < Suc (unat (cl_applied_index (ld_log s')))"
      by (simp add: leader_inv_def marks_ok_def del: upt_Suc)
    with low that(3) show False by (simp add: word_less_nat_alt)
  qed
  ultimately show ?thesis by blast
qed

lemma abandoned_write_blocks_witness:
  "\<exists>s. leader_reachable record_delete [''n2''] [] s \<and>
     cl_applied_index (ld_log s) < 1 \<and> (\<exists>t \<in> set (ld_tasks s). tk_phase t = Finished False)"
proof -
  let ?s = "sent_leader 0 (Finished False)"
  have "replicate_log_entries [''n2''] [entry_a] 1 [Some (''n2'', False)] = Inl (1, 2, 2)"
    by (simp add: replicate_iff)
  from lr_step [OF sent_leader_reachable lw_no_majority [OF _ this, where k = 0]]
  have r: "leader_reachable record_delete [''n2''] [] ?s" by simp
  have t: "\<lparr>tk_entry = entry_a, tk_phase = Finished False\<rparr> \<in> set (ld_tasks ?s)"
    by simp
  from abandoned_write_blocks [OF record_delete_clean r t _ rtranclp.rtrancl_refl] r t
  show ?thesis by (intro exI [of _ ?s]) auto
qed

text \<open>
  Followers apply before a majority is known: the replication request of the write with index
  \<open>n\<close> carries \<open>n\<close> as the leader's commit index, so a follower that acknowledges it has applied
  every operation up to \<open>n\<close>, whether or not the replication then reaches a majority.
\<close>

theorem applied_before_majority:
  assumes "handle_append apply req (l, s) = (Some r, l', s')" and "rs_success r"
    and "n \<le> unat (ar_leader_commit req)"
    and "\<forall>i \<in> {1..n}. \<exists>e \<in> set (ar_entries req). unat (le_index e) = i"
  shows "n \<le> unat (cl_applied_index l')"
proof -
  note drained = handle_append_success [OF assms(1,2)]
  have "n \<le> unat (cl_commit_index l')"
    using assms(3) drained by (simp add: word_le_nat_alt)
  moreover have "\<exists>e \<in> set (cl_entries l'). unat (le_index e) = i" if i: "i \<in> {1..n}" for i
  proof -
    from assms(4) i obtain e where e: "e \<in> set (ar_entries req)" "unat (le_index e) = i" by blast
    then have "le_log_id e \<in> le_log_id ` set (cl_entries l')"
      using drained by (auto simp: fold_append_entry_ids)
    then obtain x where "x \<in> set (cl_entries l')" "le_log_id x = le_log_id e" by auto
    with e(2) show ?thesis by (intro bexI [of _ x]) simp_all
  qed
  ultimately show ?thesis using drained_prefix drained by blast
qed

lemma applied_before_majority_witness:
  "\<exists>r l' s'. handle_append record_delete (request 1 [entry_a] 1) (consensus_log_new, []) =
       (Some r, l', s') \<and> 1 \<le> unat (cl_applied_index l') \<and>
     (\<exists>err. replicate_log_entries [''n2'', ''n3'', ''n4''] [entry_a] 1
        [Some (''n2'', True), Some (''n3'', False)] = Inl err)"
proof -
  let ?h = "handle_append record_delete (request 1 [entry_a] 1) (consensus_log_new, [])"
  obtain r l' s' where run: "?h = (r, l', s')" by (cases ?h)
  have "map_option rs_success (fst ?h) = Some True" by code_simp
  then obtain x where x: "r = Some x" "rs_success x" by (auto simp: run)
  have "1 \<le> unat (cl_applied_index l')"
    by (rule applied_before_majority [OF run [unfolded x(1)] x(2)]) (auto simp: request_def)
  with run x show ?thesis by (auto simp: replicate_iff)
qed

end
