(* ===== verification/Framing.thy ===== *)
theory Framing
  imports Prelude
begin

text \<open>The checksum of the log's frames and of snapshots.\<close>

definition fnv1a_hash :: "bytes \<Rightarrow> u64" where
  "fnv1a_hash data =
     foldl (\<lambda>hash byte. (hash XOR ucast byte) * 0x100000001b3) 0xcbf29ce484222325 data"

text \<open>
  The interface that every file of records relies on: a writer that frames a record, and a
  reader that, standing at the start of an intact frame, consumes exactly this frame. The
  write-ahead log, its index scan and the event files provide it.
\<close>

locale frame_stream =
  fixes frame :: "'p \<Rightarrow> 'c list"
    and scan :: "'c list \<Rightarrow> 'r"
    and keep :: "'p \<Rightarrow> 'r \<Rightarrow> 'r"
    and ok :: "'p \<Rightarrow> bool"
  assumes scan_frame: "ok p \<Longrightarrow> scan (frame p @ rest) = keep p (scan rest)"
begin

lemma scan_frames:
  "list_all ok ps \<Longrightarrow> scan (concat (map frame ps) @ rest) = foldr keep ps (scan rest)"
  by (induction ps) (auto simp: scan_frame)

lemma scan_all: "list_all ok ps \<Longrightarrow> scan (concat (map frame ps)) = foldr keep ps (scan [])"
  using scan_frames [of ps "[]"] by simp

text \<open>Reading after more records have been written extends what was read before.\<close>

lemma scan_snoc:
  "list_all ok ps \<Longrightarrow> ok p \<Longrightarrow>
   scan (concat (map frame ps) @ frame p) = foldr keep ps (keep p (scan []))"
  using scan_frames [of ps "frame p"] scan_frame [of p "[]"] by simp

end

end
