(* ===== verification/Wal.thy ===== *)
theory Wal
  imports ConsensusLog Framing
begin

text \<open>
  The write-ahead log of \<^verbatim>\<open>lithair-core/src/cluster/wal.rs\<close>: the stored form of an operation,
  the framed file with its FNV-1a checksums, the single and the batched append, recovery, the
  scan on opening, truncation, and group commit with its waiters. The file is its bytes.
  \<^verbatim>\<open>rkyv\<close> is the pair \<open>ser\<close>, \<open>de\<close>, and \<^verbatim>\<open>serde_json\<close> and \<^verbatim>\<open>uuid\<close> are the record
  \<open>json_lib\<close>; what the code relies on is stated where it is used.
\<close>

section \<open>Stored operations\<close>

record 'j json_lib =
  js_null :: 'j
  js_to_string :: "'j \<Rightarrow> string"
  js_from_str :: "string \<Rightarrow> 'j option"
  js_object :: "(string \<times> 'j) list \<Rightarrow> 'j"
  js_get :: "'j \<Rightarrow> string \<Rightarrow> 'j"
  js_string :: "string \<Rightarrow> 'j"
  js_as_str :: "'j \<Rightarrow> string option"
  js_number :: "u64 \<Rightarrow> 'j"
  js_as_u64 :: "'j \<Rightarrow> u64 option"
  js_of_version :: "version \<Rightarrow> 'j"
  js_to_version :: "'j \<Rightarrow> version option"
  js_of_change :: "'j schema_change \<Rightarrow> 'j"
  js_to_change :: "'j \<Rightarrow> 'j schema_change option"
  uuid_to_string :: "uuid \<Rightarrow> string"
  uuid_parse_str :: "string \<Rightarrow> uuid option"

datatype wal_operation =
    WalCreate string string
  | WalUpdate string string string
  | WalDelete string string
  | WalMigration string string

record wal_entry =
  we_term :: u64
  we_index :: u64
  we_timestamp_ms :: u64
  we_operation :: wal_operation

fun wal_operation_from :: "'j json_lib \<Rightarrow> 'j crud_operation \<Rightarrow> wal_operation" where
  "wal_operation_from J (Create path data) = WalCreate path (js_to_string J data)"
| "wal_operation_from J (Update path i data) = WalUpdate path i (js_to_string J data)"
| "wal_operation_from J (Delete path i) = WalDelete path i"
| "wal_operation_from J (MigrationBegin from_v to_v mid) =
     WalMigration ''begin'' (js_to_string J (js_object J
       [(''from_version'', js_of_version J from_v), (''to_version'', js_of_version J to_v),
        (''migration_id'', js_string J (uuid_to_string J mid))]))"
| "wal_operation_from J (MigrationStep mid step op) =
     WalMigration ''step'' (js_to_string J (js_object J
       [(''migration_id'', js_string J (uuid_to_string J mid)),
        (''step_index'', js_number J (ucast step)), (''operation'', js_of_change J op)]))"
| "wal_operation_from J (MigrationCommit mid checksum) =
     WalMigration ''commit'' (js_to_string J (js_object J
       [(''migration_id'', js_string J (uuid_to_string J mid)),
        (''checksum'', js_string J checksum)]))"
| "wal_operation_from J (MigrationRollback mid failed reason) =
     WalMigration ''rollback'' (js_to_string J (js_object J
       [(''migration_id'', js_string J (uuid_to_string J mid)),
        (''failed_step'', js_number J (ucast failed)), (''reason'', js_string J reason)]))"

text \<open>The accessors of a parsed payload, with the defaults the code falls back to.\<close>

definition default_version :: version where
  "default_version = version_new 0 0 0 [] []"

definition get_id :: "'j json_lib \<Rightarrow> 'j \<Rightarrow> uuid" where
  "get_id J v =
     (case js_as_str J (js_get J v ''migration_id'') of
        None \<Rightarrow> 0
      | Some s \<Rightarrow> (case uuid_parse_str J s of None \<Rightarrow> 0 | Some i \<Rightarrow> i))"

definition get_str :: "'j json_lib \<Rightarrow> 'j \<Rightarrow> string \<Rightarrow> string" where
  "get_str J v k = (case js_as_str J (js_get J v k) of None \<Rightarrow> [] | Some s \<Rightarrow> s)"

definition get_u32 :: "'j json_lib \<Rightarrow> 'j \<Rightarrow> string \<Rightarrow> u32" where
  "get_u32 J v k = (case js_as_u64 J (js_get J v k) of None \<Rightarrow> 0 | Some n \<Rightarrow> ucast n)"

definition get_version :: "'j json_lib \<Rightarrow> 'j \<Rightarrow> string \<Rightarrow> version" where
  "get_version J v k =
     (case js_to_version J (js_get J v k) of None \<Rightarrow> default_version | Some x \<Rightarrow> x)"

definition from_str_or_null :: "'j json_lib \<Rightarrow> string \<Rightarrow> 'j" where
  "from_str_or_null J s = (case js_from_str J s of None \<Rightarrow> js_null J | Some v \<Rightarrow> v)"

fun to_crud_operation :: "'j json_lib \<Rightarrow> wal_operation \<Rightarrow> 'j crud_operation" where
  "to_crud_operation J (WalCreate path data) = Create path (from_str_or_null J data)"
| "to_crud_operation J (WalUpdate path i data) = Update path i (from_str_or_null J data)"
| "to_crud_operation J (WalDelete path i) = Delete path i"
| "to_crud_operation J (WalMigration kind payload) =
     (let v = from_str_or_null J payload in
      if kind = ''begin'' then
        MigrationBegin (get_version J v ''from_version'') (get_version J v ''to_version'')
          (get_id J v)
      else if kind = ''step'' then
        MigrationStep (get_id J v) (get_u32 J v ''step_index'')
          (case js_to_change J (js_get J v ''operation'') of
             None \<Rightarrow> Custom ''parse_error'' [] []
           | Some c \<Rightarrow> c)
      else if kind = ''commit'' then MigrationCommit (get_id J v) (get_str J v ''checksum'')
      else if kind = ''rollback'' then
        MigrationRollback (get_id J v) (get_u32 J v ''failed_step'') (get_str J v ''reason'')
      else MigrationRollback 0 0 (''Unknown migration type: '' @ kind))"

definition from_log_entry :: "'j json_lib \<Rightarrow> 'j log_entry \<Rightarrow> wal_entry" where
  "from_log_entry J e =
     \<lparr>we_term = lid_term (le_log_id e), we_index = lid_index (le_log_id e),
      we_timestamp_ms = le_timestamp_ms e,
      we_operation = wal_operation_from J (le_operation e)\<rparr>"

definition to_log_entry :: "'j json_lib \<Rightarrow> wal_entry \<Rightarrow> 'j log_entry" where
  "to_log_entry J w =
     \<lparr>le_log_id = LogId (we_term w) (we_index w),
      le_operation = to_crud_operation J (we_operation w),
      le_timestamp_ms = we_timestamp_ms w\<rparr>"

text \<open>
  What the derived reader makes of a schema change that the derived writer wrote. The default of an
  added field is an \<^verbatim>\<open>Option\<close> of a JSON value, and a null is read as an absent default; everything
  else is read as it was written.
\<close>

fun read_change :: "'j \<Rightarrow> 'j schema_change \<Rightarrow> 'j schema_change" where
  "read_change null (AddField m f (Some v)) = AddField m f (if v = null then None else Some v)"
| "read_change null c = c"

fun read_operation :: "'j json_lib \<Rightarrow> 'j crud_operation \<Rightarrow> 'j crud_operation" where
  "read_operation J (MigrationStep mid step op) = MigrationStep mid step (read_change (js_null J) op)"
| "read_operation J op = op"

definition read_entry :: "'j json_lib \<Rightarrow> 'j log_entry \<Rightarrow> 'j log_entry" where
  "read_entry J e = e\<lparr>le_operation := read_operation J (le_operation e)\<rparr>"

lemma read_entry_index [simp]: "le_index (read_entry J e) = le_index e"
  by (simp add: read_entry_def)

text \<open>
  What the code relies on: the accessors of a JSON object, the derived serializers, and the
  text of a uuid. That the text of a JSON value parses back to the value is not promised for
  every number, so \<open>text_exact\<close> asks for it only at the values the operation holds.
\<close>

definition json_ok :: "'j json_lib \<Rightarrow> bool" where
  "json_ok J \<longleftrightarrow>
     (\<forall>kvs k v. distinct (map fst kvs) \<longrightarrow> map_of kvs k = Some v \<longrightarrow>
        js_get J (js_object J kvs) k = v) \<and>
     (\<forall>s. js_as_str J (js_string J s) = Some s) \<and>
     (\<forall>n. js_as_u64 J (js_number J n) = Some n) \<and>
     (\<forall>v. js_to_version J (js_of_version J v) = Some v) \<and>
     (\<forall>c. js_to_change J (js_of_change J c) = Some (read_change (js_null J) c)) \<and>
     (\<forall>i. uuid_parse_str J (uuid_to_string J i) = Some i)"

definition exact :: "'j json_lib \<Rightarrow> 'j \<Rightarrow> bool" where
  "exact J v \<longleftrightarrow> js_from_str J (js_to_string J v) = Some v"

fun text_exact :: "'j json_lib \<Rightarrow> 'j crud_operation \<Rightarrow> bool" where
  "text_exact J (Create path data) = exact J data"
| "text_exact J (Update path i data) = exact J data"
| "text_exact J (Delete path i) = True"
| "text_exact J (MigrationBegin from_v to_v mid) = exact J (js_object J
       [(''from_version'', js_of_version J from_v), (''to_version'', js_of_version J to_v),
        (''migration_id'', js_string J (uuid_to_string J mid))])"
| "text_exact J (MigrationStep mid step op) = exact J (js_object J
       [(''migration_id'', js_string J (uuid_to_string J mid)),
        (''step_index'', js_number J (ucast step)), (''operation'', js_of_change J op)])"
| "text_exact J (MigrationCommit mid checksum) = exact J (js_object J
       [(''migration_id'', js_string J (uuid_to_string J mid)),
        (''checksum'', js_string J checksum)])"
| "text_exact J (MigrationRollback mid failed reason) = exact J (js_object J
       [(''migration_id'', js_string J (uuid_to_string J mid)),
        (''failed_step'', js_number J (ucast failed)), (''reason'', js_string J reason)])"

lemma json_get:
  "json_ok J \<Longrightarrow> distinct (map fst kvs) \<Longrightarrow> map_of kvs k = Some v \<Longrightarrow>
   js_get J (js_object J kvs) k = v"
  by (auto simp: json_ok_def)

lemma json_accessors:
  assumes "json_ok J"
  shows "js_as_str J (js_string J s) = Some s" "js_as_u64 J (js_number J n) = Some n"
    "js_to_version J (js_of_version J x) = Some x"
    "js_to_change J (js_of_change J c) = Some (read_change (js_null J) c)"
    "uuid_parse_str J (uuid_to_string J i) = Some i"
  using assms by (auto simp: json_ok_def)

lemma exact_parse: "exact J v \<Longrightarrow> from_str_or_null J (js_to_string J v) = v"
  by (simp add: exact_def from_str_or_null_def)

lemma ucast_u32_u64 [simp]: "ucast (ucast (n :: u32) :: u64) = n"
  by (rule bit_word_eqI) (auto simp: bit_ucast_iff bit_imp_le_length)

lemma operation_roundtrip:
  "json_ok J \<Longrightarrow> text_exact J op \<Longrightarrow> to_crud_operation J (wal_operation_from J op) = read_operation J op"
  by (cases op)
    (simp_all add: exact_parse json_get json_accessors get_id_def get_str_def get_u32_def
       get_version_def)

lemma entry_roundtrip:
  "json_ok J \<Longrightarrow> text_exact J (le_operation e) \<Longrightarrow> to_log_entry J (from_log_entry J e) = read_entry J e"
  by (cases "le_log_id e") (simp add: to_log_entry_def from_log_entry_def operation_roundtrip read_entry_def)

section \<open>The file\<close>

definition wal_magic :: bytes where
  "wal_magic = [0x4C, 0x57, 0x41, 0x4C]"

definition wal_version :: bytes where
  "wal_version = [1, 0, 0, 0]"

abbreviation wal_header :: bytes where
  "wal_header \<equiv> wal_magic @ wal_version"

definition wal_frame :: "bytes \<Rightarrow> bytes" where
  "wal_frame p = to_le64 (of_nat (length p)) @ to_le64 (fnv1a_hash p) @ p"

text \<open>A read fails with an I/O error or, for an absurd length field, on the allocation.\<close>

datatype read_failure = ReadError io_error | AllocPanic

definition read_cons :: "'a \<Rightarrow> read_failure + 'a list \<Rightarrow> read_failure + 'a list" where
  "read_cons x r = (case r of Inl e \<Rightarrow> Inl e | Inr xs \<Rightarrow> Inr (x # xs))"

text \<open>
  The loop of \<open>read_all\<close> after the header. Nothing left, or fewer than eight bytes, is the end
  of the file; a shorter rest after a length is an error; a wrong checksum or a payload that does
  not deserialize ends the loop.
\<close>

function wal_scan :: "(bytes \<Rightarrow> wal_entry option) \<Rightarrow> bytes \<Rightarrow> read_failure + wal_entry list" where
  "wal_scan de bs =
     (if length bs < 8 then Inr []
      else
        let len = unat (from_le64 (take 8 bs)); r1 = drop 8 bs
        in if length r1 < 8 then Inl (ReadError UnexpectedEof)
           else
             let checksum = from_le64 (take 8 r1); r2 = drop 8 r1
             in if 2 ^ 63 \<le> len then Inl AllocPanic
                else if length r2 < len then Inl (ReadError UnexpectedEof)
                else
                  let data = take len r2
                  in if checksum \<noteq> fnv1a_hash data then Inr []
                     else
                       case de data of
                         None \<Rightarrow> Inr []
                       | Some w \<Rightarrow> read_cons w (wal_scan de (drop len r2)))"
  by pat_completeness auto
termination
  by (relation "measure (\<lambda>(de, bs). length bs)") auto

declare wal_scan.simps [simp del]

definition read_all ::
  "(bytes \<Rightarrow> wal_entry option) \<Rightarrow> 'j json_lib \<Rightarrow> bytes \<Rightarrow> read_failure + 'j log_entry list"
where
  "read_all de J file =
     (if length file < 8 then Inl (ReadError UnexpectedEof)
      else if take 4 file \<noteq> wal_magic
        then Inl (ReadError (InvalidData ''Invalid WAL magic number''))
      else map_sum id (map (to_log_entry J)) (wal_scan de (drop 8 file)))"

definition read_from ::
  "(bytes \<Rightarrow> wal_entry option) \<Rightarrow> 'j json_lib \<Rightarrow> u64 \<Rightarrow> bytes \<Rightarrow> read_failure + 'j log_entry list"
where
  "read_from de J i file = map_sum id (filter (\<lambda>e. i \<le> le_index e)) (read_all de J file)"

text \<open>
  The scan on opening: it does not look at the magic number or the checksums, keeps the index of
  the last payload that deserializes, and takes any shortage of bytes for the end. Seeking past
  the end succeeds, so a file shorter than the header has no entries.
\<close>

function index_scan :: "(bytes \<Rightarrow> wal_entry option) \<Rightarrow> u64 \<Rightarrow> bytes \<Rightarrow> read_failure + u64" where
  "index_scan de found bs =
     (if length bs < 8 then Inr found
      else
        let len = unat (from_le64 (take 8 bs)); r2 = drop 16 bs
        in if 2 ^ 63 \<le> len then Inl AllocPanic
           else if length r2 < len then Inr found
           else
             index_scan de
               (case de (take len r2) of None \<Rightarrow> found | Some w \<Rightarrow> we_index w)
               (drop len r2))"
  by pat_completeness auto
termination
  by (relation "measure (\<lambda>(de, i, bs). length bs)") auto

declare index_scan.simps [simp del]

definition find_last_index :: "(bytes \<Rightarrow> wal_entry option) \<Rightarrow> bytes \<Rightarrow> read_failure + u64" where
  "find_last_index de file = index_scan de 0 (drop 8 file)"

section \<open>Frames\<close>

definition frame_ok :: "(bytes \<Rightarrow> wal_entry option) \<Rightarrow> bytes \<Rightarrow> bool" where
  "frame_ok de p \<longleftrightarrow> length p < 2 ^ 63 \<and> de p \<noteq> None"

lemma frame_length [simp]: "length (wal_frame p) = 16 + length p"
  by (simp add: wal_frame_def)

lemma frame_len_field: "length p < 2 ^ 63 \<Longrightarrow> unat (of_nat (length p) :: u64) = length p"
  by (rule unat_of_nat_u64) simp

lemma wal_scan_frame:
  assumes "frame_ok de p"
  shows "wal_scan de (wal_frame p @ rest) = read_cons (the (de p)) (wal_scan de rest)"
  using assms
  by (subst wal_scan.simps)
    (auto simp: wal_frame_def frame_ok_def frame_len_field Let_def)

lemma wal_scan_Nil [simp]: "wal_scan de [] = Inr []"
  by (simp add: wal_scan.simps)

interpretation wal_read: frame_stream wal_frame "wal_scan de" "\<lambda>p. read_cons (the (de p))"
  "frame_ok de" for de
  by unfold_locales (rule wal_scan_frame)

lemma foldr_read_cons: "foldr (\<lambda>p. read_cons (f p)) ps (Inr r) = Inr (map f ps @ r)"
  by (induction ps) (auto simp: read_cons_def)

text \<open>The scan on opening is a frame stream too, of functions of the last index so far.\<close>

lemma index_scan_frame:
  assumes "frame_ok de p"
  shows "index_scan de i (wal_frame p @ rest) = index_scan de (we_index (the (de p))) rest"
  using assms
  by (subst index_scan.simps)
    (auto simp: wal_frame_def frame_ok_def frame_len_field Let_def)

interpretation wal_index: frame_stream wal_frame "\<lambda>bs i. index_scan de i bs"
  "\<lambda>p k i. k (we_index (the (de p)))" "frame_ok de" for de
  by unfold_locales (simp add: index_scan_frame fun_eq_iff)

lemma foldr_index:
  "foldr (\<lambda>p k i. k (f p)) ps g i = g (last_or f i ps)"
  by (induction ps arbitrary: i) (auto simp: last_or_def)

definition wal_file :: "bytes list \<Rightarrow> bytes" where
  "wal_file ps = wal_header @ concat (map wal_frame ps)"

lemma header_simps [simp]:
  "length wal_magic = 4" "length wal_version = 4" "take 4 (wal_magic @ xs) = wal_magic"
  by (simp_all add: wal_magic_def wal_version_def)

lemma drop_header [simp]: "drop 8 (wal_magic @ wal_version @ xs) = xs"
  by (simp add: wal_magic_def wal_version_def)

lemma read_all_file:
  assumes "list_all (frame_ok de) ps"
  shows "read_all de J (wal_file ps @ rest) =
    map_sum id (map (to_log_entry J)) (foldr (\<lambda>p. read_cons (the (de p))) ps (wal_scan de rest))"
  using wal_read.scan_frames [OF assms, of rest] by (simp add: read_all_def wal_file_def)

lemma read_all_intact:
  assumes "list_all (frame_ok de) ps"
  shows "read_all de J (wal_file ps) = Inr (map (\<lambda>p. to_log_entry J (the (de p))) ps)"
  using read_all_file [OF assms, of J "[]"] by (simp add: foldr_read_cons comp_def)

lemma find_last_index_file:
  assumes "list_all (frame_ok de) ps"
  shows "find_last_index de (wal_file ps @ rest) =
    index_scan de (last_or (\<lambda>p. we_index (the (de p))) 0 ps) rest"
  using wal_index.scan_frames [OF assms, of rest]
  by (simp add: find_last_index_def wal_file_def foldr_index fun_eq_iff)

section \<open>The log object\<close>

record group_commit_config =
  flush_interval_ms :: u64
  max_buffer_size :: nat
  gc_enabled :: bool

definition default_config :: group_commit_config where
  "default_config = \<lparr>flush_interval_ms = 5, max_buffer_size = 100, gc_enabled = True\<rparr>"

text \<open>
  The state of the object and of the file it owns. A waiter of \<open>append_buffered\<close> is named by a
  number, the identity of its \<open>Notify\<close>; \<open>wal_notified\<close> holds the waiters that were woken, each
  with its entry, and \<open>wal_permit\<close> the stored permit of \<open>flush_notify\<close>.
\<close>

record 'j wal =
  wal_bytes :: bytes
  write_position :: u64
  last_synced_index :: u64
  last_buffered_index :: u64
  pending_buffer :: "(nat \<times> 'j log_entry) list"
  wal_config :: group_commit_config
  last_flush_time :: nat
  wal_shutdown :: bool
  wal_permit :: bool
  wal_next_waiter :: nat
  wal_notified :: "(nat \<times> 'j log_entry) list"

definition wal_open :: "bytes \<Rightarrow> u64 \<Rightarrow> u64 \<Rightarrow> group_commit_config \<Rightarrow> nat \<Rightarrow> 'j wal" where
  "wal_open file pos last_ix cfg now =
     \<lparr>wal_bytes = file, write_position = pos, last_synced_index = last_ix,
      last_buffered_index = last_ix, pending_buffer = [], wal_config = cfg,
      last_flush_time = now, wal_shutdown = False, wal_permit = False, wal_next_waiter = 0,
      wal_notified = []\<rparr>"

text \<open>\<open>with_config\<close> on the file at the path, \<open>None\<close> when there is none.\<close>

definition with_config ::
  "(bytes \<Rightarrow> wal_entry option) \<Rightarrow> group_commit_config \<Rightarrow> nat \<Rightarrow> bytes option \<Rightarrow>
   read_failure + 'j wal"
where
  "with_config de cfg now file =
     (case file of
        Some bs \<Rightarrow> map_sum id (\<lambda>i. wal_open bs (of_nat (length bs)) i cfg now)
                      (find_last_index de bs)
      | None \<Rightarrow> Inr (wal_open wal_header 8 0 cfg now))"

definition wal_append ::
  "(wal_entry \<Rightarrow> string + bytes) \<Rightarrow> 'j json_lib \<Rightarrow> 'j log_entry \<Rightarrow> 'j wal \<Rightarrow>
   (io_error + unit) \<times> 'j wal"
where
  "wal_append ser J e w =
     (case ser (from_log_entry J e) of
        Inl msg \<Rightarrow> (Inl (OtherError msg), w)
      | Inr b \<Rightarrow>
          (Inr (), w\<lparr>wal_bytes := wal_bytes w @ wal_frame b,
                    write_position := write_position w + 16 + of_nat (length b),
                    last_synced_index := le_index e\<rparr>))"

text \<open>The loop of the batch: a failing entry leaves the frames before it in the file.\<close>

fun write_batch ::
  "(wal_entry \<Rightarrow> string + bytes) \<Rightarrow> 'j json_lib \<Rightarrow> 'j log_entry list \<Rightarrow> bytes \<Rightarrow> u64 \<Rightarrow> u64 \<Rightarrow>
   (io_error + u64 \<times> u64) \<times> bytes"
where
  "write_batch ser J [] file written last_ix = (Inr (written, last_ix), file)"
| "write_batch ser J (e # es) file written last_ix =
     (case ser (from_log_entry J e) of
        Inl msg \<Rightarrow> (Inl (OtherError msg), file)
      | Inr b \<Rightarrow>
          write_batch ser J es (file @ wal_frame b) (written + (16 + of_nat (length b))) (le_index e))"

definition append_batch ::
  "(wal_entry \<Rightarrow> string + bytes) \<Rightarrow> 'j json_lib \<Rightarrow> 'j log_entry list \<Rightarrow> 'j wal \<Rightarrow>
   (io_error + unit) \<times> 'j wal"
where
  "append_batch ser J es w =
     (if es = [] then (Inr (), w)
      else
        case write_batch ser J es (wal_bytes w) 0 0 of
          (Inl e, file) \<Rightarrow> (Inl e, w\<lparr>wal_bytes := file\<rparr>)
        | (Inr (written, last_ix), file) \<Rightarrow>
            (Inr (), w\<lparr>wal_bytes := file, write_position := write_position w + written,
                      last_synced_index := last_ix\<rparr>))"

definition truncate_after ::
  "(wal_entry \<Rightarrow> string + bytes) \<Rightarrow> (bytes \<Rightarrow> wal_entry option) \<Rightarrow> 'j json_lib \<Rightarrow> u64 \<Rightarrow> 'j wal \<Rightarrow>
   (read_failure + unit) \<times> 'j wal"
where
  "truncate_after ser de J i w =
     (case read_all de J (wal_bytes w) of
        Inl e \<Rightarrow> (Inl e, w)
      | Inr es \<Rightarrow>
          (let kept = filter (\<lambda>e. le_index e \<le> i) es in
           case write_batch ser J kept wal_header 8 0 of
             (Inl e, file) \<Rightarrow> (Inl (ReadError e), w\<lparr>wal_bytes := file\<rparr>)
           | (Inr (pos, _), file) \<Rightarrow>
               (Inr (), w\<lparr>wal_bytes := file, write_position := pos,
                         last_synced_index := last_or le_index 0 kept\<rparr>)))"

text \<open>
  The first half of \<open>append_buffered\<close>, up to the wait: the new waiter, or the result of the
  immediate append when group commit is off.
\<close>

definition append_buffered ::
  "(wal_entry \<Rightarrow> string + bytes) \<Rightarrow> 'j json_lib \<Rightarrow> 'j log_entry \<Rightarrow> 'j wal \<Rightarrow>
   ((io_error + unit) + nat) \<times> 'j wal"
where
  "append_buffered ser J e w =
     (if \<not> gc_enabled (wal_config w) then
        (let (r, w') = wal_append ser J e w in (Inl r, w'))
      else
        let n = wal_next_waiter w; buf = pending_buffer w @ [(n, e)]
        in (Inr n, w\<lparr>wal_next_waiter := n + 1, pending_buffer := buf,
                    last_buffered_index := le_index e,
                    wal_permit := wal_permit w \<or> max_buffer_size (wal_config w) \<le> length buf\<rparr>))"

definition flush ::
  "(wal_entry \<Rightarrow> string + bytes) \<Rightarrow> 'j json_lib \<Rightarrow> nat \<Rightarrow> 'j wal \<Rightarrow> (io_error + nat) \<times> 'j wal"
where
  "flush ser J now w =
     (let batch = pending_buffer w in
      if batch = [] then (Inr 0, w)
      else
        case append_batch ser J (map snd batch) (w\<lparr>pending_buffer := []\<rparr>) of
          (Inl e, w') \<Rightarrow> (Inl e, w')
        | (Inr _, w') \<Rightarrow>
            (Inr (length batch),
             w'\<lparr>last_flush_time := now, wal_notified := wal_notified w' @ batch\<rparr>))"

definition should_flush :: "nat \<Rightarrow> 'j wal \<Rightarrow> bool" where
  "should_flush now w \<longleftrightarrow>
     pending_buffer w \<noteq> [] \<and>
     (max_buffer_size (wal_config w) \<le> length (pending_buffer w) \<or>
      unat (flush_interval_ms (wal_config w)) \<le> now - last_flush_time w)"

definition pending_count :: "'j wal \<Rightarrow> nat" where
  "pending_count w = length (pending_buffer w)"

text \<open>
  One turn of the background task after its wait, which consumed a permit when it was not the
  timer that ended it; the first component tells whether the loop goes on.
\<close>

definition flush_task_turn ::
  "(wal_entry \<Rightarrow> string + bytes) \<Rightarrow> 'j json_lib \<Rightarrow> nat \<Rightarrow> bool \<Rightarrow> 'j wal \<Rightarrow> bool \<times> 'j wal"
where
  "flush_task_turn ser J now timer w =
     (let w1 = (if timer then w else w\<lparr>wal_permit := False\<rparr>)
      in (\<not> wal_shutdown w1, snd (flush ser J now w1)))"

definition shutdown ::
  "(wal_entry \<Rightarrow> string + bytes) \<Rightarrow> 'j json_lib \<Rightarrow> nat \<Rightarrow> 'j wal \<Rightarrow> (io_error + unit) \<times> 'j wal"
where
  "shutdown ser J now w =
     (let (r, w') = flush ser J now (w\<lparr>wal_shutdown := True, wal_permit := True\<rparr>)
      in (map_sum id (\<lambda>_. ()) r, w'))"

definition wal_last_index :: "'j wal \<Rightarrow> u64" where
  "wal_last_index w = last_synced_index w"

section \<open>Writing\<close>

text \<open>What the code relies on of the serializer: what it writes, it can read, and it fits.\<close>

definition codec_ok :: "(wal_entry \<Rightarrow> string + bytes) \<Rightarrow> (bytes \<Rightarrow> wal_entry option) \<Rightarrow> bool" where
  "codec_ok ser de \<longleftrightarrow> (\<forall>x b. ser x = Inr b \<longrightarrow> de b = Some x \<and> length b < 2 ^ 63)"

text \<open>The entries a file of intact frames holds, and that a file is one.\<close>

definition holds :: "(bytes \<Rightarrow> wal_entry option) \<Rightarrow> wal_entry list \<Rightarrow> bytes \<Rightarrow> bool" where
  "holds de xs file \<longleftrightarrow>
     (\<exists>ps. list_all (frame_ok de) ps \<and> file = wal_file ps \<and> map (\<lambda>p. the (de p)) ps = xs)"

lemma holds_header: "holds de [] wal_header"
  by (simp add: holds_def wal_file_def exI [of _ "[]"])

lemma holds_snoc:
  assumes "holds de xs file" and "codec_ok ser de" and "ser x = Inr b"
  shows "holds de (xs @ [x]) (file @ wal_frame b)"
proof -
  from assms(1) obtain ps where ps: "list_all (frame_ok de) ps" "file = wal_file ps"
    "map (\<lambda>p. the (de p)) ps = xs" by (auto simp: holds_def)
  from assms(2,3) have "de b = Some x" "length b < 2 ^ 63" by (auto simp: codec_ok_def)
  with ps show ?thesis
    by (auto simp: holds_def frame_ok_def wal_file_def intro!: exI [of _ "ps @ [b]"])
qed

lemma holds_read_all: "holds de xs file \<Longrightarrow> read_all de J file = Inr (map (to_log_entry J) xs)"
  by (auto simp: holds_def read_all_intact comp_def)

lemma holds_last_index:
  "holds de xs file \<Longrightarrow> find_last_index de file = Inr (last_or we_index 0 xs)"
  using find_last_index_file [where rest = "[]"]
  by (auto simp: holds_def index_scan.simps last_or_def last_map split: if_splits)

text \<open>The batch loop writes a prefix of its entries, all of them when it succeeds.\<close>

lemma write_batch_holds:
  assumes "codec_ok ser de"
  shows "holds de xs file \<Longrightarrow> write_batch ser J es file written li = (r, file') \<Longrightarrow>
    \<exists>n. holds de (xs @ map (from_log_entry J) (take n es)) file' \<and>
        (\<forall>t k. r = Inr (t, k) \<longrightarrow> n = length es \<and> k = last_or le_index li es)"
proof (induction es arbitrary: xs "file" written li)
  case Nil
  then show ?case by (auto simp: last_or_def)
next
  case (Cons e es)
  show ?case
  proof (cases "ser (from_log_entry J e)")
    case (Inl msg)
    with Cons.prems show ?thesis by (auto intro!: exI [of _ 0])
  next
    case (Inr b)
    from holds_snoc [OF Cons.prems(1) assms Inr]
    have "holds de (xs @ [from_log_entry J e]) (file @ wal_frame b)" .
    moreover from Cons.prems(2) Inr
    have "write_batch ser J es (file @ wal_frame b) (written + (16 + of_nat (length b)))
            (le_index e) = (r, file')" by simp
    ultimately obtain n where
      "holds de ((xs @ [from_log_entry J e]) @ map (from_log_entry J) (take n es)) file'"
      "\<forall>t k. r = Inr (t, k) \<longrightarrow> n = length es \<and> k = last_or le_index (le_index e) es"
      using Cons.IH by blast
    then show ?thesis by (intro exI [of _ "Suc n"]) (auto simp: last_or_def)
  qed
qed

lemma write_batch_ok:
  "\<forall>e \<in> set es. \<exists>b. ser (from_log_entry J e) = Inr b \<Longrightarrow>
   \<exists>t k file'. write_batch ser J es file written li = (Inr (t, k), file')"
  by (induction es arbitrary: "file" written li) auto

section \<open>Group commit\<close>

text \<open>
  The interleaving of any number of writers and flushers. A flusher takes the buffer under its
  lock, writes the batch under the write lock, and then wakes its waiters one by one; between
  these steps the others run. \<open>ws_flights\<close>, \<open>ws_written\<close> and \<open>ws_failed\<close> are the batches taken and
  not yet written, written with waiters still to wake, and given up after a failed write.
\<close>

type_synonym 'j batch = "(nat \<times> 'j log_entry) list"

record 'j wal_sys =
  ws_wal :: "'j wal"
  ws_flights :: "'j batch list"
  ws_written :: "'j batch list"
  ws_failed :: "'j batch list"

definition wal_sys_new :: "'j wal \<Rightarrow> 'j wal_sys" where
  "wal_sys_new w = \<lparr>ws_wal = w, ws_flights = [], ws_written = [], ws_failed = []\<rparr>"

inductive wal_step ::
  "(wal_entry \<Rightarrow> string + bytes) \<Rightarrow> 'j json_lib \<Rightarrow> 'j wal_sys \<Rightarrow> 'j wal_sys \<Rightarrow> bool"
  for ser J where
  wt_append:
    "wal_append ser J e (ws_wal s) = (r, w) \<Longrightarrow> wal_step ser J s (s\<lparr>ws_wal := w\<rparr>)"
| wt_buffer:
    "append_buffered ser J e (ws_wal s) = (r, w) \<Longrightarrow> wal_step ser J s (s\<lparr>ws_wal := w\<rparr>)"
| wt_take:
    "pending_buffer (ws_wal s) \<noteq> [] \<Longrightarrow>
     wal_step ser J s (s\<lparr>ws_wal := (ws_wal s)\<lparr>pending_buffer := []\<rparr>,
                        ws_flights := pending_buffer (ws_wal s) # ws_flights s\<rparr>)"
| wt_write_ok:
    "b \<in> set (ws_flights s) \<Longrightarrow> append_batch ser J (map snd b) (ws_wal s) = (Inr u, w) \<Longrightarrow>
     wal_step ser J s (s\<lparr>ws_wal := w, ws_flights := remove1 b (ws_flights s),
                        ws_written := b # ws_written s\<rparr>)"
| wt_write_error:
    "b \<in> set (ws_flights s) \<Longrightarrow> append_batch ser J (map snd b) (ws_wal s) = (Inl e, w) \<Longrightarrow>
     wal_step ser J s (s\<lparr>ws_wal := w, ws_flights := remove1 b (ws_flights s),
                        ws_failed := b # ws_failed s\<rparr>)"
| wt_wake:
    "x # b \<in> set (ws_written s) \<Longrightarrow>
     wal_step ser J s (s\<lparr>ws_wal := (ws_wal s)\<lparr>wal_notified := wal_notified (ws_wal s) @ [x]\<rparr>,
                        ws_written := b # remove1 (x # b) (ws_written s)\<rparr>)"
| wt_flags:
    "wal_step ser J s (s\<lparr>ws_wal := (ws_wal s)\<lparr>last_flush_time := t, wal_shutdown := d,
                                             wal_permit := p\<rparr>\<rparr>)"

inductive wal_reachable ::
  "(wal_entry \<Rightarrow> string + bytes) \<Rightarrow> 'j json_lib \<Rightarrow> 'j wal \<Rightarrow> 'j wal_sys \<Rightarrow> bool"
  for ser J w0 where
  wr_init: "wal_reachable ser J w0 (wal_sys_new w0)"
| wr_step: "wal_reachable ser J w0 s \<Longrightarrow> wal_step ser J s s' \<Longrightarrow> wal_reachable ser J w0 s'"

inductive_cases wal_stepE: "wal_step ser J s s'"

text \<open>
  The invariant: the file holds the initial entries and every written one, and the waiters handed
  out so far are each in exactly one place.
\<close>

definition places :: "'j wal_sys \<Rightarrow> 'j batch" where
  "places s = pending_buffer (ws_wal s) @ concat (ws_flights s) @ concat (ws_written s) @
     concat (ws_failed s) @ wal_notified (ws_wal s)"

definition durable :: "'j wal_sys \<Rightarrow> 'j log_entry set" where
  "durable s = snd ` set (concat (ws_written s) @ wal_notified (ws_wal s))"

definition wal_inv ::
  "(bytes \<Rightarrow> wal_entry option) \<Rightarrow> 'j json_lib \<Rightarrow> wal_entry list \<Rightarrow> 'j wal_sys \<Rightarrow> bool"
where
  "wal_inv de J xs0 s \<longleftrightarrow>
     (\<exists>xs. holds de (xs0 @ xs) (wal_bytes (ws_wal s)) \<and> from_log_entry J ` durable s \<subseteq> set xs) \<and>
     mset (map fst (places s)) = mset [0..<wal_next_waiter (ws_wal s)]"

definition fresh_wal :: "'j wal \<Rightarrow> bool" where
  "fresh_wal w \<longleftrightarrow> pending_buffer w = [] \<and> wal_next_waiter w = 0 \<and> wal_notified w = []"

lemma mset_concat_remove1:
  "b \<in> set bs \<Longrightarrow> mset (concat (remove1 b bs)) + mset b = mset (concat bs)"
  by (induction bs) auto

lemma mset_map_concat_remove1:
  "b \<in> set bs \<Longrightarrow>
   mset (map f (concat (remove1 b bs))) + mset (map f b) = mset (map f (concat bs))"
  using mset_concat_remove1 [of b bs] by (metis image_mset_union mset_map)

lemma wal_append_grows:
  assumes "codec_ok ser de" "wal_append ser J e w = (r, w')" "holds de xs (wal_bytes w)"
  shows "\<exists>ys. holds de (xs @ ys) (wal_bytes w') \<and> pending_buffer w' = pending_buffer w \<and>
    wal_next_waiter w' = wal_next_waiter w \<and> wal_notified w' = wal_notified w"
  using assms holds_snoc [OF assms(3,1), of "from_log_entry J e"]
  by (auto simp: wal_append_def split: sum.splits intro: exI [of _ "[]"])

lemma append_batch_grows:
  assumes "codec_ok ser de" "append_batch ser J es w = (r, w')" "holds de xs (wal_bytes w)"
  shows "\<exists>ys. holds de (xs @ ys) (wal_bytes w') \<and> pending_buffer w' = pending_buffer w \<and>
    wal_next_waiter w' = wal_next_waiter w \<and> wal_notified w' = wal_notified w \<and>
    (isl r \<or> ys = map (from_log_entry J) es)"
proof (cases "es = []")
  case True
  with assms show ?thesis by (auto simp: append_batch_def)
next
  case False
  obtain q file' where wb: "write_batch ser J es (wal_bytes w) 0 0 = (q, file')"
    by (cases "write_batch ser J es (wal_bytes w) 0 0")
  from write_batch_holds [OF assms(1,3) wb] obtain n where
    "holds de (xs @ map (from_log_entry J) (take n es)) file'"
    "\<forall>t k. q = Inr (t, k) \<longrightarrow> n = length es \<and> k = last_or le_index 0 es" by blast
  with assms(2) False wb show ?thesis
    by (cases q) (auto simp: append_batch_def)
qed

lemma wal_inv_new:
  "fresh_wal w \<Longrightarrow> holds de xs0 (wal_bytes w) \<Longrightarrow> wal_inv de J xs0 (wal_sys_new w)"
  by (auto simp: wal_inv_def wal_sys_new_def fresh_wal_def durable_def places_def
      intro!: exI [of _ "[]"])

lemma wal_step_inv:
  assumes codec: "codec_ok ser de" and step: "wal_step ser J s s'" and inv: "wal_inv de J xs0 s"
  shows "wal_inv de J xs0 s'"
proof -
  from inv obtain xs where xs: "holds de (xs0 @ xs) (wal_bytes (ws_wal s))"
    "from_log_entry J ` durable s \<subseteq> set xs" by (auto simp: wal_inv_def)
  from inv have acc: "mset (map fst (places s)) = mset [0..<wal_next_waiter (ws_wal s)]"
    by (simp add: wal_inv_def)
  from step show ?thesis
  proof cases
    case (wt_append e r w)
    from wal_append_grows [OF codec wt_append(2) xs(1)] xs(2) acc show ?thesis
      by (auto simp: wal_inv_def wt_append(1) durable_def places_def)
        (metis (no_types, lifting) Un_iff append_assoc set_append subset_iff)
  next
    case (wt_buffer e r w)
    show ?thesis
    proof (cases "gc_enabled (wal_config (ws_wal s))")
      case True
      with wt_buffer xs acc show ?thesis
        by (auto simp: wal_inv_def durable_def places_def append_buffered_def Let_def
            atLeast0_lessThan_Suc)
    next
      case False
      with wt_buffer(2) obtain q where "wal_append ser J e (ws_wal s) = (q, w)"
        by (auto simp: append_buffered_def split: prod.splits)
      from wal_append_grows [OF codec this xs(1)] xs(2) acc show ?thesis
        by (auto simp: wal_inv_def wt_buffer(1) durable_def places_def)
          (metis (no_types, lifting) Un_iff append_assoc set_append subset_iff)
    qed
  next
    case wt_take
    with xs acc show ?thesis
      by (auto simp: wal_inv_def durable_def places_def ac_simps)
  next
    case (wt_write_ok b u w)
    from append_batch_grows [OF codec wt_write_ok(3) xs(1)] obtain ys where
      ys: "holds de ((xs0 @ xs) @ map (from_log_entry J) (map snd b)) (wal_bytes w)"
      "pending_buffer w = pending_buffer (ws_wal s)"
      "wal_next_waiter w = wal_next_waiter (ws_wal s)"
      "wal_notified w = wal_notified (ws_wal s)" by auto
    have "mset (map fst (places s')) = mset (map fst (places s))"
      using mset_map_concat_remove1 [OF wt_write_ok(2), of fst] ys(2,4)
      by (simp add: places_def wt_write_ok(1) ac_simps flip: mset_map)
    moreover have "from_log_entry J ` durable s' \<subseteq>
        set (xs @ map (from_log_entry J) (map snd b))"
      using xs(2) ys(4) by (auto simp: durable_def wt_write_ok(1))
    ultimately show ?thesis
      using ys acc unfolding wal_inv_def
      by (intro conjI exI [of _ "xs @ map (from_log_entry J) (map snd b)"])
        (simp_all add: wt_write_ok(1))
  next
    case (wt_write_error b e w)
    from append_batch_grows [OF codec wt_write_error(3) xs(1)] obtain ys where
      ys: "holds de ((xs0 @ xs) @ ys) (wal_bytes w)"
      "pending_buffer w = pending_buffer (ws_wal s)"
      "wal_next_waiter w = wal_next_waiter (ws_wal s)"
      "wal_notified w = wal_notified (ws_wal s)" by auto
    have "mset (map fst (places s')) = mset (map fst (places s))"
      using mset_map_concat_remove1 [OF wt_write_error(2), of fst] ys(2,4)
      by (simp add: places_def wt_write_error(1) ac_simps flip: mset_map)
    moreover have "from_log_entry J ` durable s' \<subseteq> set (xs @ ys)"
      using xs(2) ys(4) by (auto simp: durable_def wt_write_error(1))
    ultimately show ?thesis
      using ys acc unfolding wal_inv_def
      by (intro conjI exI [of _ "xs @ ys"]) (simp_all add: wt_write_error(1))
  next
    case (wt_wake x b)
    have "mset (map fst (places s')) = mset (map fst (places s))"
      using mset_map_concat_remove1 [OF wt_wake(2), of fst]
      by (simp add: places_def wt_wake(1) ac_simps flip: mset_map)
    moreover have "set (concat (b # remove1 (x # b) (ws_written s))) \<union> {x}
        \<subseteq> set (concat (ws_written s))"
      using wt_wake(2) set_remove1_subset [of "x # b" "ws_written s"]
      by (auto intro: bexI [of _ "x # b"])
    then have "durable s' \<subseteq> durable s"
      unfolding durable_def by (intro image_mono) (auto simp: wt_wake(1))
    ultimately show ?thesis
      using xs acc by (auto simp: wal_inv_def wt_wake(1))
  next
    case (wt_flags t d p)
    with xs acc show ?thesis by (auto simp: wal_inv_def durable_def places_def)
  qed
qed

lemma wal_reachable_inv:
  assumes "wal_reachable ser J w0 s" "codec_ok ser de" "fresh_wal w0" "holds de xs0 (wal_bytes w0)"
  shows "wal_inv de J xs0 s"
  using assms
  by (induction rule: wal_reachable.induct) (auto intro: wal_inv_new wal_step_inv)

section \<open>Sample parameters\<close>

text \<open>
  A small JSON library and a codec of two entries, at which the hypotheses of the properties
  below hold.
\<close>

datatype plain_json =
    PNull | PStr string | PNum u64 | PObj "(string \<times> plain_json) list" | PVer version
  | PChange "plain_json schema_change"

definition plain_lib :: "plain_json json_lib" where
  "plain_lib =
     \<lparr>js_null = PNull,
      js_to_string = (\<lambda>v. case v of PStr s \<Rightarrow> s | _ \<Rightarrow> ''?''),
      js_from_str = (\<lambda>s. Some (PStr s)),
      js_object = PObj,
      js_get = (\<lambda>v k. case v of
         PObj kvs \<Rightarrow> (case map_of kvs k of None \<Rightarrow> PNull | Some x \<Rightarrow> x) | _ \<Rightarrow> PNull),
      js_string = PStr,
      js_as_str = (\<lambda>v. case v of PStr s \<Rightarrow> Some s | _ \<Rightarrow> None),
      js_number = PNum,
      js_as_u64 = (\<lambda>v. case v of PNum n \<Rightarrow> Some n | _ \<Rightarrow> None),
      js_of_version = PVer,
      js_to_version = (\<lambda>v. case v of PVer x \<Rightarrow> Some x | _ \<Rightarrow> None),
      js_of_change = PChange,
      js_to_change = (\<lambda>v. case v of PChange c \<Rightarrow> Some (read_change PNull c) | _ \<Rightarrow> None),
      uuid_to_string = (\<lambda>i. replicate (unat i) CHR ''u''),
      uuid_parse_str = (\<lambda>s. Some (of_nat (length s)))\<rparr>"

lemma plain_lib_ok: "json_ok plain_lib"
  by (simp add: json_ok_def plain_lib_def)

definition sample1 :: "plain_json log_entry" where
  "sample1 = \<lparr>le_log_id = LogId 1 1, le_operation = Create ''/a'' (PStr ''x''),
              le_timestamp_ms = 7\<rparr>"

definition sample2 :: "plain_json log_entry" where
  "sample2 = \<lparr>le_log_id = LogId 1 2, le_operation = Delete ''/a'' ''y'', le_timestamp_ms = 8\<rparr>"

definition sample_ser :: "wal_entry \<Rightarrow> string + bytes" where
  "sample_ser x =
     (if x = from_log_entry plain_lib sample1 then Inr [1, 1]
      else if x = from_log_entry plain_lib sample2 then Inr [2]
      else Inl ''no archive'')"

definition sample_de :: "bytes \<Rightarrow> wal_entry option" where
  "sample_de b =
     (if b = [1, 1] then Some (from_log_entry plain_lib sample1)
      else if b = [2] then Some (from_log_entry plain_lib sample2)
      else None)"

lemma sample_codec_ok: "codec_ok sample_ser sample_de"
  by (auto simp: codec_ok_def sample_ser_def sample_de_def split: if_splits)

lemma samples_differ: "from_log_entry plain_lib sample1 \<noteq> from_log_entry plain_lib sample2"
  by (simp add: from_log_entry_def sample1_def sample2_def)

lemma sample_ser_simps:
  "sample_ser (from_log_entry plain_lib sample1) = Inr [1, 1]"
  "sample_ser (from_log_entry plain_lib sample2) = Inr [2]"
  using samples_differ by (auto simp: sample_ser_def)

lemma sample_exact: "\<forall>e \<in> {sample1, sample2}. text_exact plain_lib (le_operation e)"
  by (simp add: sample1_def sample2_def exact_def plain_lib_def)

definition empty_wal :: "'j wal" where
  "empty_wal = wal_open wal_header 8 0 default_config 0"

lemma empty_wal_holds: "holds de [] (wal_bytes empty_wal)" "fresh_wal empty_wal"
  using holds_header by (simp_all add: empty_wal_def wal_open_def fresh_wal_def)

lemma read_samples [simp]: "read_entry plain_lib sample1 = sample1" "read_entry plain_lib sample2 = sample2"
  by (simp_all add: read_entry_def sample1_def sample2_def)

section \<open>Properties\<close>

text \<open>
  C12. Recovery returns what was written: after a batch of any operations, migrations included,
  has been appended to an intact log, \<open>read_all\<close> returns the entries that were there followed by
  the batch, in which the default of an added field that is a JSON null has become absent and
  nothing else has changed, where the numbers of the batch read back from their text; opening the file again finds the last index, and the tracked write position
  advances by the bytes written.
\<close>

theorem batch_roundtrip:
  assumes codec: "codec_ok ser de" and json: "json_ok J"
    and intact: "holds de xs (wal_bytes w)" and "es \<noteq> []"
    and exact: "\<forall>e \<in> set es. text_exact J (le_operation e)"
    and append: "append_batch ser J es w = (Inr (), w')"
  shows "read_all de J (wal_bytes w') = Inr (map (to_log_entry J) xs @ map (read_entry J) es) \<and>
    last_synced_index w' = le_index (last es) \<and>
    (\<exists>w2. with_config de cfg now (Some (wal_bytes w')) = Inr w2 \<and>
       last_synced_index w2 = last_synced_index w')"
proof -
  from append_batch_grows [OF codec append intact]
  have h: "holds de (xs @ map (from_log_entry J) es) (wal_bytes w')" by auto
  have "map (to_log_entry J) (map (from_log_entry J) es) = map (read_entry J) es"
    using exact by (simp add: entry_roundtrip [OF json])
  with holds_read_all [OF h, of J]
  have all: "read_all de J (wal_bytes w') = Inr (map (to_log_entry J) xs @ map (read_entry J) es)" by simp
  obtain q file' where wb: "write_batch ser J es (wal_bytes w) 0 0 = (q, file')"
    by (cases "write_batch ser J es (wal_bytes w) 0 0")
  from write_batch_holds [OF codec intact wb] append wb \<open>es \<noteq> []\<close>
  have li: "last_synced_index w' = le_index (last es)"
    by (auto simp: append_batch_def last_or_def split: sum.splits)
  have "find_last_index de (wal_bytes w') = Inr (le_index (last es))"
    using holds_last_index [OF h] \<open>es \<noteq> []\<close>
    by (simp add: last_or_def last_map from_log_entry_def)
  with all li show ?thesis by (simp add: with_config_def wal_open_def)
qed

lemma batch_roundtrip_witness:
  "\<exists>w'. append_batch sample_ser plain_lib [sample1, sample2] empty_wal = (Inr (), w') \<and>
     read_all sample_de plain_lib (wal_bytes w') = Inr [sample1, sample2]"
proof -
  obtain w' where w': "append_batch sample_ser plain_lib [sample1, sample2] empty_wal = (Inr (), w')"
    by (simp add: append_batch_def sample_ser_simps)
  from batch_roundtrip [OF sample_codec_ok plain_lib_ok empty_wal_holds(1) _ _ w', THEN conjunct1]
    w' sample_exact show ?thesis by simp
qed



text \<open>
  No writer is forgotten: in every reachable state each writer that group commit has accepted
  is in exactly one place: buffered, in a batch being written, in a written batch still to be
  woken, woken, or in a batch whose write failed.
\<close>

theorem waiters_conserved:
  assumes "wal_reachable ser J w0 s" and "codec_ok ser de" and "fresh_wal w0"
    and "holds de xs0 (wal_bytes w0)"
  shows "distinct (map fst (places s)) \<and>
    set (map fst (places s)) = {0..<wal_next_waiter (ws_wal s)}"
proof -
  from wal_reachable_inv [OF assms]
  have "mset (map fst (places s)) = mset [0..<wal_next_waiter (ws_wal s)]"
    by (simp add: wal_inv_def)
  from mset_eq_imp_distinct_iff [OF this] mset_eq_setD [OF this] show ?thesis by auto
qed

lemma waiters_conserved_witness:
  "\<exists>s. wal_reachable sample_ser plain_lib empty_wal s \<and> wal_next_waiter (ws_wal s) = 1 \<and>
     distinct (map fst (places s)) \<and> set (map fst (places s)) = {0}"
proof -
  obtain q w1 where b: "append_buffered sample_ser plain_lib sample1
      (ws_wal (wal_sys_new empty_wal)) = (q, w1)"
    by (cases "append_buffered sample_ser plain_lib sample1 (ws_wal (wal_sys_new empty_wal))")
  then have w1: "wal_next_waiter w1 = 1"
    by (auto simp: append_buffered_def Let_def wal_sys_new_def empty_wal_def wal_open_def
        default_config_def)
  note r1 = wr_step [OF wr_init wt_buffer [OF b]]
  from waiters_conserved [OF r1 sample_codec_ok empty_wal_holds(2,1)]
  show ?thesis by (intro exI [of _ "(wal_sys_new empty_wal)\<lparr>ws_wal := w1\<rparr>"])
      (use r1 in \<open>simp add: w1\<close>)
qed

text \<open>
  A flush makes the whole buffer durable: when every buffered entry serializes, \<open>flush\<close>
  succeeds, reports the size of the buffer, empties it, wakes exactly its writers in order, and
  appends their entries to what recovery reads.
\<close>

theorem flush_makes_durable:
  assumes codec: "codec_ok ser de" and json: "json_ok J" and intact: "holds de xs (wal_bytes w)"
    and ser: "\<forall>e \<in> snd ` set (pending_buffer w).
      text_exact J (le_operation e) \<and> (\<exists>b. ser (from_log_entry J e) = Inr b)"
    and run: "flush ser J now w = (r, w')"
  shows "r = Inr (pending_count w) \<and> pending_buffer w' = [] \<and>
    wal_notified w' = wal_notified w @ pending_buffer w \<and>
    read_all de J (wal_bytes w') =
      Inr (map (to_log_entry J) xs @ map (read_entry J \<circ> snd) (pending_buffer w))"
proof (cases "pending_buffer w = []")
  case True
  with run holds_read_all [OF intact, of J] show ?thesis
    by (auto simp: flush_def pending_count_def)
next
  case False
  let ?es = "map snd (pending_buffer w)" and ?w = "w\<lparr>pending_buffer := []\<rparr>"
  have "\<forall>e \<in> set ?es. \<exists>b. ser (from_log_entry J e) = Inr b" using ser by auto
  from write_batch_ok [OF this, of "wal_bytes w" 0 0] False obtain w1 where
    batch: "append_batch ser J ?es ?w = (Inr (), w1)"
    by (auto simp: append_batch_def)
  from append_batch_grows [OF codec batch, of xs] intact
  have h: "holds de (xs @ map (from_log_entry J) ?es) (wal_bytes w1)"
    and frame: "pending_buffer w1 = []" "wal_notified w1 = wal_notified w" by auto
  have "map (to_log_entry J) (map (from_log_entry J) ?es) = map (read_entry J) ?es"
    using ser by (simp add: entry_roundtrip [OF json])
  with holds_read_all [OF h, of J]
  have "read_all de J (wal_bytes w1) = Inr (map (to_log_entry J) xs @ map (read_entry J) ?es)" by simp
  with False run batch frame show ?thesis
    by (auto simp: flush_def Let_def pending_count_def)
qed

lemma flush_makes_durable_witness:
  "\<exists>w'. flush sample_ser plain_lib 9
          (empty_wal\<lparr>pending_buffer := [(0, sample1), (1, sample2)]\<rparr>) = (Inr 2, w') \<and>
     read_all sample_de plain_lib (wal_bytes w') = Inr [sample1, sample2]"
proof -
  let ?w = "empty_wal\<lparr>pending_buffer := [(0, sample1), (1, sample2)]\<rparr>"
  obtain r w' where run: "flush sample_ser plain_lib 9 ?w = (r, w')"
    by (cases "flush sample_ser plain_lib 9 ?w")
  have "holds sample_de [] (wal_bytes ?w)" using empty_wal_holds(1) by simp
  from flush_makes_durable [OF sample_codec_ok plain_lib_ok this _ run] run sample_exact
  show ?thesis by (auto simp: sample_ser_simps pending_count_def)
qed

text \<open>
  C13. A torn write: when a crash leaves an intact log followed by a proper prefix of one frame,
  opening still finds the last complete entry. Recovery returns the complete entries only when
  fewer than eight bytes of the frame were written; with eight or more \<open>read_all\<close> fails, and none
  of the complete entries before the torn one is recovered.
\<close>

theorem torn_write_recovery:
  assumes "list_all (frame_ok de) ps" and "p \<noteq> []" and "length p < 2 ^ 63"
    and "n < length (wal_frame p)"
  shows "find_last_index de (wal_file ps @ take n (wal_frame p)) =
      Inr (last_or (\<lambda>p. we_index (the (de p))) 0 ps) \<and>
    read_all de J (wal_file ps @ take n (wal_frame p)) =
      (if n < 8 then Inr (map (\<lambda>p. to_log_entry J (the (de p))) ps)
       else Inl (ReadError UnexpectedEof))"
proof
  let ?t = "take n (wal_frame p)"
  have "index_scan de i ?t = Inr i" for i
  proof (cases "n < 8")
    case True
    with assms(4) show ?thesis by (simp add: index_scan.simps [of de i ?t])
  next
    case False
    then have "take 8 ?t = to_le64 (of_nat (length p))"
      by (simp add: wal_frame_def take_append_prefix)
    moreover have "length (drop 16 ?t) < length p" using assms(2,4) by (cases p) auto
    moreover have "\<not> length ?t < 8" using False assms(4) by simp
    ultimately show ?thesis
      using assms(3) by (subst index_scan.simps) (simp only: Let_def if_False if_True
          from_to_le64 frame_len_field not_le [symmetric] simp_thms)
  qed
  then show "find_last_index de (wal_file ps @ ?t) =
      Inr (last_or (\<lambda>p. we_index (the (de p))) 0 ps)"
    by (simp add: find_last_index_file [OF assms(1)])
  have "wal_scan de ?t = (if n < 8 then Inr [] else Inl (ReadError UnexpectedEof))"
    using assms(3,4)
    by (subst wal_scan.simps) (auto simp: wal_frame_def frame_len_field Let_def)
  moreover have "foldr (\<lambda>p. read_cons (f p)) ps (Inl e) = Inl e" for f :: "bytes \<Rightarrow> wal_entry" and e
    by (induction ps) (auto simp: read_cons_def)
  ultimately show "read_all de J (wal_file ps @ ?t) =
      (if n < 8 then Inr (map (\<lambda>p. to_log_entry J (the (de p))) ps)
       else Inl (ReadError UnexpectedEof))"
    by (simp add: read_all_file [OF assms(1)] foldr_read_cons comp_def)
qed

lemma torn_write_recovery_witness:
  "find_last_index sample_de (wal_file [[1, 1]] @ take 10 (wal_frame [2])) = Inr 1 \<and>
   read_all sample_de plain_lib (wal_file [[1, 1]] @ take 10 (wal_frame [2])) =
     Inl (ReadError UnexpectedEof)"
proof -
  have "list_all (frame_ok sample_de) [[1, 1]]" by (simp add: frame_ok_def sample_de_def)
  from torn_write_recovery [OF this, of "[2]" 10 plain_lib] show ?thesis
    by (simp add: last_or_def sample_de_def from_log_entry_def sample1_def)
qed

text \<open>
  Truncation keeps exactly the entries up to the index, in order, whatever the order in which
  they were written, and afterwards the tracked last index is the last one kept.
\<close>

theorem truncate_keeps_prefix:
  assumes codec: "codec_ok ser de" and json: "json_ok J"
    and entries: "read_all de J (wal_bytes w) = Inr es"
    and ser: "\<forall>e \<in> set es. text_exact J (le_operation e) \<and>
      (\<exists>b. ser (from_log_entry J e) = Inr b)"
  shows "\<exists>w'. truncate_after ser de J i w = (Inr (), w') \<and>
    read_all de J (wal_bytes w') = Inr (map (read_entry J) (filter (\<lambda>e. le_index e \<le> i) es)) \<and>
    last_synced_index w' = last_or le_index 0 (filter (\<lambda>e. le_index e \<le> i) es)"
proof -
  let ?kept = "filter (\<lambda>e. le_index e \<le> i) es"
  from ser have "\<forall>e \<in> set ?kept. \<exists>b. ser (from_log_entry J e) = Inr b" by simp
  from write_batch_ok [OF this, of wal_header 8 0] obtain t k file' where
    wb: "write_batch ser J ?kept wal_header 8 0 = (Inr (t, k), file')" by blast
  from write_batch_holds [OF codec holds_header wb]
  have h: "holds de (map (from_log_entry J) ?kept) file'" by auto
  have "map (to_log_entry J) (map (from_log_entry J) ?kept) = map (read_entry J) ?kept"
    using ser by (simp add: entry_roundtrip [OF json])
  with holds_read_all [OF h, of J] wb entries show ?thesis
    by (simp add: truncate_after_def Let_def)
qed

lemma truncate_keeps_prefix_witness:
  "\<exists>w w'. read_all sample_de plain_lib (wal_bytes w) = Inr [sample1, sample2] \<and>
     truncate_after sample_ser sample_de plain_lib 1 w = (Inr (), w') \<and>
     read_all sample_de plain_lib (wal_bytes w') = Inr [sample1]"
proof -
  let ?w = "empty_wal\<lparr>wal_bytes := wal_file [[1, 1], [2]]\<rparr>"
  have "list_all (frame_ok sample_de) [[1, 1], [2]]" by (simp add: frame_ok_def sample_de_def)
  from read_all_intact [OF this, of plain_lib]
  have all: "read_all sample_de plain_lib (wal_bytes ?w) = Inr [sample1, sample2]"
    using sample_exact by (simp add: sample_de_def entry_roundtrip [OF plain_lib_ok])
  have "le_index sample1 = 1" "le_index sample2 = 2"
    by (simp_all add: sample1_def sample2_def)
  moreover have "\<not> (2 :: u64) \<le> 1" by (simp add: word_le_nat_alt)
  ultimately obtain w' where w': "truncate_after sample_ser sample_de plain_lib 1 ?w = (Inr (), w')"
    "read_all sample_de plain_lib (wal_bytes w') = Inr [sample1]"
    using truncate_keeps_prefix [OF sample_codec_ok plain_lib_ok all, of 1] sample_exact
    by (auto simp: sample_ser_simps)
  with all show ?thesis by blast
qed

end
