(* ===== verification/Leadership.thy ===== *)
theory Leadership
  imports Prelude
begin

text \<open>
  The leadership state of a node, from \<^verbatim>\<open>lithair-core/src/cluster/mod.rs\<close>, with the heartbeat
  endpoint, the redirection of writes and the background task that a node starts once, when it
  begins to serve (\<^verbatim>\<open>lithair-core/src/app/mod.rs\<close>), and the resync statistics.
\<close>

section \<open>State\<close>

datatype raft_node_state = FollowerState | CandidateState | LeaderState

record leadership =
  rl_node_id :: u64
  rl_self_port :: u16
  rl_current_state :: u64
  rl_is_leader :: bool
  rl_leader_id :: u64
  rl_leader_port :: u16
  rl_peers :: "string list"
  rl_last_heartbeat :: nat
  rl_election_timeout :: nat

definition peer_port :: "string \<Rightarrow> u16 option" where
  "peer_port peer =
     (case split_on CHR '':'' peer of
        _ # p # _ \<Rightarrow> map_option of_nat (parse_unsigned 65535 p)
      | _ \<Rightarrow> None)"

definition leadership_new :: "nat \<Rightarrow> u64 \<Rightarrow> u16 \<Rightarrow> string list \<Rightarrow> leadership" where
  "leadership_new now node_id self_port peers =
     (let leads = (node_id = 0 \<or> peers = []); ports = List.map_filter peer_port peers
      in \<lparr>rl_node_id = node_id, rl_self_port = self_port,
          rl_current_state = (if leads then 2 else 0), rl_is_leader = leads, rl_leader_id = 0,
          rl_leader_port = (if leads then self_port
             else if ports = [] then self_port else Min (set ports)),
          rl_peers = peers, rl_last_heartbeat = now, rl_election_timeout = 5000\<rparr>)"

definition get_current_state :: "leadership \<Rightarrow> raft_node_state" where
  "get_current_state s =
     (if rl_current_state s = 1 then CandidateState
      else if rl_current_state s = 2 then LeaderState else FollowerState)"

definition is_authoritative_leader_id :: "u64 \<Rightarrow> leadership \<Rightarrow> bool" where
  "is_authoritative_leader_id i s \<longleftrightarrow> rl_leader_id s = i"

definition update_heartbeat :: "nat \<Rightarrow> leadership \<Rightarrow> leadership" where
  "update_heartbeat now s = s\<lparr>rl_last_heartbeat := now\<rparr>"

definition time_since_heartbeat :: "nat \<Rightarrow> leadership \<Rightarrow> nat" where
  "time_since_heartbeat now s = now - rl_last_heartbeat s"

definition should_start_election :: "nat \<Rightarrow> leadership \<Rightarrow> bool" where
  "should_start_election now s \<longleftrightarrow>
     \<not> rl_is_leader s \<and> rl_election_timeout s < time_since_heartbeat now s"

definition become_leader :: "nat \<Rightarrow> leadership \<Rightarrow> leadership" where
  "become_leader now s = update_heartbeat now
     (s\<lparr>rl_is_leader := True, rl_current_state := 2, rl_leader_id := rl_node_id s,
        rl_leader_port := rl_self_port s\<rparr>)"

definition become_follower :: "nat \<Rightarrow> u64 \<Rightarrow> u16 \<Rightarrow> leadership \<Rightarrow> leadership" where
  "become_follower now leader_id port s = update_heartbeat now
     (s\<lparr>rl_is_leader := False, rl_current_state := 0, rl_leader_id := leader_id,
        rl_leader_port := port\<rparr>)"

section \<open>Elections\<close>

text \<open>
  A peer that answers the probe with a readable status that has a raft part is alive, with the
  node id of the answer; the port is that of its address. The answer of a peer is \<open>None\<close> when
  there was none, and the id in it is \<open>None\<close> when it was not a number.
\<close>

definition alive_peer :: "string \<Rightarrow> u64 option option \<Rightarrow> (u64 \<times> u16) option" where
  "alive_peer peer answer =
     map_option (\<lambda>i. (case i of None \<Rightarrow> - 1 | Some n \<Rightarrow> n,
                      case peer_port peer of None \<Rightarrow> 0 | Some p \<Rightarrow> p)) answer"

text \<open>The first of the candidates after the stable sort by id.\<close>

definition winner :: "(u64 \<times> u16) list \<Rightarrow> u64 \<times> u16" where
  "winner cs = hd (sort_key fst cs)"

definition candidates :: "(string \<Rightarrow> u64 option option) \<Rightarrow> leadership \<Rightarrow> (u64 \<times> u16) list" where
  "candidates probe s =
     List.map_filter (\<lambda>p. alive_peer p (probe p)) (rl_peers s) @ [(rl_node_id s, rl_self_port s)]"

definition start_election ::
  "(string \<Rightarrow> u64 option option) \<Rightarrow> leadership \<Rightarrow> (bool \<times> u64 \<times> u16) \<times> leadership"
where
  "start_election probe s =
     (let (i, port) = winner (candidates probe s)
      in ((i = rl_node_id s, i, port), s\<lparr>rl_current_state := 1\<rparr>))"

text \<open>One turn of the monitor: an election when it is due, and its outcome.\<close>

definition monitor_turn :: "nat \<Rightarrow> (string \<Rightarrow> u64 option option) \<Rightarrow> leadership \<Rightarrow> leadership" where
  "monitor_turn now probe s =
     (if should_start_election now s then
        (let ((wins, i, port), s') = start_election probe s
         in if wins then become_leader now s' else become_follower now i port s')
      else s)"

section \<open>The endpoints\<close>

text \<open>
  The heartbeat: the token decides, then the time stamp, then, for a follower, a new leader. The
  body is \<open>None\<close> when it is not JSON; missing fields are zero.
\<close>

definition handle_heartbeat ::
  "nat \<Rightarrow> bool \<Rightarrow> (u64 option \<times> u64 option) option \<Rightarrow> leadership \<Rightarrow> bool \<times> leadership"
where
  "handle_heartbeat now token_ok body s =
     (if \<not> token_ok then (False, s)
      else
        let s1 = update_heartbeat now s
        in (True,
            case body of
              None \<Rightarrow> s1
            | Some (i, port) \<Rightarrow>
                let leader_id = (case i of None \<Rightarrow> 0 | Some x \<Rightarrow> x);
                    leader_port = (case port of None \<Rightarrow> 0 | Some x \<Rightarrow> ucast x)
                in if \<not> rl_is_leader s1 \<and> leader_id \<noteq> rl_leader_id s1
                   then become_follower now leader_id leader_port s1 else s1))"

text \<open>A write that reaches a follower is redirected to the leader's port.\<close>

datatype http_method = GET | POST | PUT | DELETE | OtherMethod string

definition redirect_port :: "http_method \<Rightarrow> string \<Rightarrow> leadership \<Rightarrow> u16 option" where
  "redirect_port meth path s =
     (if meth \<in> {POST, PUT, DELETE} \<and> \<not> rl_is_leader s \<and>
         \<not> (take 10 path = ''/internal/'' \<or> take 7 path = ''/_raft/'')
      then Some (rl_leader_port s) else None)"

text \<open>
  The background task is chosen when the node starts: a node that starts as leader sends
  heartbeats until it no longer leads, any other node monitors them, for ever.
\<close>

datatype background = Sending | Stopped | Monitoring

record node =
  nd_state :: leadership
  nd_task :: background

definition start_node :: "leadership \<Rightarrow> node" where
  "start_node s = \<lparr>nd_state = s, nd_task = (if rl_is_leader s then Sending else Monitoring)\<rparr>"

text \<open>What happens to a node; the second component are the peers a heartbeat is sent to.\<close>

datatype node_event =
    Heartbeat nat bool "(u64 option \<times> u64 option) option"
  | MonitorTick nat "string \<Rightarrow> u64 option option"
  | SenderTick

fun node_react :: "node_event \<Rightarrow> node \<Rightarrow> node \<times> string list" where
  "node_react (Heartbeat now tok body) n =
     (n\<lparr>nd_state := snd (handle_heartbeat now tok body (nd_state n))\<rparr>, [])"
| "node_react (MonitorTick now probe) n =
     (if nd_task n = Monitoring then (n\<lparr>nd_state := monitor_turn now probe (nd_state n)\<rparr>, [])
      else (n, []))"
| "node_react SenderTick n =
     (if nd_task n = Sending then
        if rl_is_leader (nd_state n) then (n, rl_peers (nd_state n))
        else (n\<lparr>nd_task := Stopped\<rparr>, [])
      else (n, []))"

fun node_run :: "node_event list \<Rightarrow> node \<Rightarrow> node \<times> string list" where
  "node_run [] n = (n, [])"
| "node_run (e # es) n =
     (let (n1, out1) = node_react e n; (n2, out2) = node_run es n1 in (n2, out1 @ out2))"

lemmas leadership_defs =
  update_heartbeat_def become_leader_def become_follower_def handle_heartbeat_def Let_def

section \<open>Resync statistics\<close>

record resync_stats =
  rs_snapshots_created :: u64
  rs_send_attempts :: u64
  rs_send_successes :: u64
  rs_send_failures :: u64
  rs_received :: u64
  rs_applied :: u64
  rs_last_sent :: u64
  rs_last_received :: u64
  rs_timestamp_ms :: u64

definition record_snapshot_created :: "u64 \<Rightarrow> resync_stats \<Rightarrow> resync_stats" where
  "record_snapshot_created now s =
     s\<lparr>rs_snapshots_created := rs_snapshots_created s + 1, rs_timestamp_ms := now\<rparr>"

definition record_send_attempt :: "u64 \<Rightarrow> u64 \<Rightarrow> resync_stats \<Rightarrow> resync_stats" where
  "record_send_attempt now i s =
     s\<lparr>rs_send_attempts := rs_send_attempts s + 1, rs_last_sent := i, rs_timestamp_ms := now\<rparr>"

definition record_send_success :: "u64 \<Rightarrow> resync_stats \<Rightarrow> resync_stats" where
  "record_send_success now s =
     s\<lparr>rs_send_successes := rs_send_successes s + 1, rs_timestamp_ms := now\<rparr>"

definition record_send_failure :: "u64 \<Rightarrow> resync_stats \<Rightarrow> resync_stats" where
  "record_send_failure now s =
     s\<lparr>rs_send_failures := rs_send_failures s + 1, rs_timestamp_ms := now\<rparr>"

definition record_snapshot_received :: "u64 \<Rightarrow> u64 \<Rightarrow> resync_stats \<Rightarrow> resync_stats" where
  "record_snapshot_received now i s =
     s\<lparr>rs_received := rs_received s + 1, rs_last_received := i, rs_timestamp_ms := now\<rparr>"

definition record_snapshot_applied :: "u64 \<Rightarrow> resync_stats \<Rightarrow> resync_stats" where
  "record_snapshot_applied now s = s\<lparr>rs_applied := rs_applied s + 1, rs_timestamp_ms := now\<rparr>"

section \<open>Properties\<close>

lemma winner_in: "cs \<noteq> [] \<Longrightarrow> winner cs \<in> set cs"
  unfolding winner_def by (metis hd_in_set set_empty set_sort)

lemma winner_least: "c \<in> set cs \<Longrightarrow> fst (winner cs) \<le> fst c"
proof -
  assume c: "c \<in> set cs"
  have "sorted (map fst (sort_key fst cs))" by simp
  moreover have "c \<in> set (sort_key fst cs)" using c by simp
  ultimately show ?thesis
    unfolding winner_def by (cases "sort_key fst cs") auto
qed

lemma candidates_self: "(rl_node_id s, rl_self_port s) \<in> set (candidates probe s)"
  by (simp add: candidates_def)

lemma winner_same:
  assumes "set cs = set ds" "inj_on fst (set cs)" "cs \<noteq> []"
  shows "winner cs = winner ds"
proof -
  from assms(1,3) have "ds \<noteq> []" by auto
  then have "winner ds \<in> set ds" by (rule winner_in)
  then have w: "winner cs \<in> set cs" "winner ds \<in> set cs"
    using winner_in [OF assms(3)] assms(1) by simp_all
  have "fst (winner cs) \<le> fst (winner ds)" using w(2) by (rule winner_least)
  moreover have "fst (winner ds) \<le> fst (winner cs)"
    using w(1) unfolding assms(1) by (rule winner_least)
  ultimately have "fst (winner cs) = fst (winner ds)" by (rule order.antisym)
  with assms(2) w show ?thesis by (auto dest: inj_onD)
qed

text \<open>
  Nodes that see the same candidates elect the same one: when two nodes hold an election in
  which the same nodes answer, under distinct ids, both name the node with the least id and its
  port, and at most one of them becomes the leader.
\<close>

theorem election_agreement:
  assumes "set (candidates probe1 s1) = set (candidates probe2 s2)"
    and "inj_on fst (set (candidates probe1 s1))"
    and "start_election probe1 s1 = ((w1, i1, port1), t1)"
    and "start_election probe2 s2 = ((w2, i2, port2), t2)"
  shows "i1 = i2 \<and> port1 = port2 \<and> i1 = Min (fst ` set (candidates probe1 s1)) \<and>
    (w1 \<longrightarrow> w2 \<longrightarrow> rl_node_id s1 = rl_node_id s2)"
proof -
  have ne: "candidates probe1 s1 \<noteq> []" by (simp add: candidates_def)
  have same: "winner (candidates probe1 s1) = winner (candidates probe2 s2)"
    using assms(1,2) ne by (rule winner_same)
  have w: "winner (candidates probe1 s1) = (i1, port1)" "w1 \<longleftrightarrow> i1 = rl_node_id s1"
    "winner (candidates probe2 s2) = (i2, port2)" "w2 \<longleftrightarrow> i2 = rl_node_id s2"
    using assms(3,4) by (auto simp: start_election_def Let_def split: prod.splits)
  have "i1 = Min (fst ` set (candidates probe1 s1))"
  proof (rule Min_eqI [symmetric])
    show "i1 \<in> fst ` set (candidates probe1 s1)" using winner_in [OF ne] w(1) by force
    show "i1 \<le> y" if "y \<in> fst ` set (candidates probe1 s1)" for y
      using that winner_least w(1) by force
  qed simp
  with same w show ?thesis by auto
qed

definition node_a :: leadership where
  "node_a = leadership_new 0 1 8081 [''n0:8080'', ''n2:8082'']"

definition node_b :: leadership where
  "node_b = leadership_new 0 2 8082 [''n0:8080'', ''n1:8081'']"

definition probe_ab :: "string \<Rightarrow> u64 option option" where
  "probe_ab p = (if p = ''n1:8081'' then Some (Some 1) else if p = ''n2:8082'' then Some (Some 2)
     else None)"

lemma sample_candidates:
  "candidates probe_ab node_a = [(2, 8082), (1, 8081)]"
  "candidates probe_ab node_b = [(1, 8081), (2, 8082)]"
  by (simp_all add: candidates_def node_a_def node_b_def leadership_new_def probe_ab_def
      List.map_filter_simps alive_peer_def peer_port_def parse_unsigned_def digits_value_def
      is_digit_def Let_def)

lemma sample_ids: "rl_node_id node_a = 1" "rl_node_id node_b = 2"
  by (simp_all add: node_a_def node_b_def leadership_new_def Let_def)

lemma election_agreement_witness:
  "\<exists>t1 t2. start_election probe_ab node_a = ((True, 1, 8081), t1) \<and>
     start_election probe_ab node_b = ((False, 1, 8081), t2)"
proof -
  have one: "(1 :: u64) \<noteq> 2" "\<not> (2 :: u64) \<le> 1" by (simp_all add: word_le_nat_alt)
  then have e1: "start_election probe_ab node_a = ((True, 1, 8081), node_a\<lparr>rl_current_state := 1\<rparr>)"
    by (simp add: start_election_def sample_candidates winner_def sample_ids)
  obtain x t2 where "start_election probe_ab node_b = (x, t2)" by fastforce
  moreover obtain w2 i2 q2 where "x = (w2, i2, q2)" by (cases x)
  ultimately have e2: "start_election probe_ab node_b = ((w2, i2, q2), t2)" by simp
  have "set (candidates probe_ab node_a) = set (candidates probe_ab node_b)"
    and "inj_on fst (set (candidates probe_ab node_a))"
    using one by (auto simp: sample_candidates inj_on_def)
  from election_agreement [OF this e1 e2] have "i2 = 1" "q2 = 8081"
    and "w2 \<longrightarrow> rl_node_id node_a = rl_node_id node_b" by auto
  moreover have "rl_node_id node_a \<noteq> rl_node_id node_b"
    using one by (simp add: sample_ids)
  ultimately show ?thesis using e1 e2 by auto
qed

lemma leader_stays:
  assumes "rl_is_leader (nd_state n)" "nd_task n = Monitoring"
  shows "rl_is_leader (nd_state (fst (node_run evs n))) \<and> snd (node_run evs n) = []"
  using assms
proof (induction evs arbitrary: n)
  case (Cons e evs)
  obtain n1 out where e: "node_react e n = (n1, out)" by (cases "node_react e n")
  have "rl_is_leader (nd_state n1)" "nd_task n1 = Monitoring" "out = []"
    using e Cons.prems
    by (cases e; auto simp: handle_heartbeat_def monitor_turn_def should_start_election_def
        update_heartbeat_def Let_def split: option.splits if_splits)+
  from Cons.IH [OF this(1,2)] this(3) e show ?case by (simp add: case_prod_unfold)
qed simp

text \<open>
  C18. No majority is needed and nobody steps down: a follower whose heartbeat is overdue and
  whose probes all fail makes itself leader, and then, whatever happens, heartbeats of another
  leader included, it stays leader, takes writes itself, and never sends a heartbeat.
\<close>

theorem isolated_node_leads_forever:
  assumes "should_start_election now (nd_state n)" and "nd_task n = Monitoring"
    and "\<forall>p \<in> set (rl_peers (nd_state n)). probe p = None"
  shows "rl_is_leader (nd_state (fst (node_run (MonitorTick now probe # evs) n))) \<and>
    redirect_port meth path (nd_state (fst (node_run (MonitorTick now probe # evs) n))) = None \<and>
    snd (node_run (MonitorTick now probe # evs) n) = []"
proof -
  let ?n = "n\<lparr>nd_state := monitor_turn now probe (nd_state n)\<rparr>"
  have "candidates probe (nd_state n) = [(rl_node_id (nd_state n), rl_self_port (nd_state n))]"
    using assms(3) by (auto simp: candidates_def alive_peer_def map_filter_def)
  then have "rl_is_leader (nd_state ?n)"
    using assms(1)
    by (simp add: monitor_turn_def start_election_def winner_def become_leader_def
        update_heartbeat_def Let_def)
  moreover have "node_react (MonitorTick now probe) n = (?n, [])" using assms(2) by simp
  ultimately show ?thesis
    using leader_stays [of ?n evs] assms(2) by (simp add: case_prod_unfold redirect_port_def)
qed

lemma isolated_node_leads_forever_witness:
  "rl_is_leader (nd_state (fst (node_run
     [MonitorTick 6000 (\<lambda>_. None), Heartbeat 6100 True (Some (Some 0, Some 8080)), SenderTick]
     (start_node node_b))))"
  by (rule isolated_node_leads_forever [THEN conjunct1])
    (simp_all add: start_node_def node_b_def leadership_new_def should_start_election_def
       time_since_heartbeat_def Let_def)

text \<open>
  A follower learns its leader from the heartbeat: after an accepted heartbeat from another
  node the follower names this node as leader, sends writes to its port, and holds no election
  within the timeout; a heartbeat with a wrong token changes nothing.
\<close>

theorem heartbeat_updates_leader:
  assumes "\<not> rl_is_leader s" and "leader_id \<noteq> rl_leader_id s" and "meth \<in> {POST, PUT, DELETE}"
    and "take 10 path \<noteq> ''/internal/''" and "take 7 path \<noteq> ''/_raft/''"
    and "later \<le> now + rl_election_timeout s"
    and "s' = snd (handle_heartbeat now True (Some (Some leader_id, Some port)) s)"
  shows "rl_leader_id s' = leader_id \<and> redirect_port meth path s' = Some (ucast port) \<and>
    \<not> should_start_election later s' \<and> get_current_state s' = FollowerState \<and>
    snd (handle_heartbeat now False body s) = s"
  using assms
  by (auto simp: leadership_defs redirect_port_def should_start_election_def
      time_since_heartbeat_def get_current_state_def)

lemma heartbeat_updates_leader_witness:
  "redirect_port POST ''/api/products''
     (snd (handle_heartbeat 9 True (Some (Some 1, Some 8081)) node_b)) = Some 8081"
  using heartbeat_updates_leader [where s = node_b and leader_id = 1 and port = 8081 and now = 9
      and later = 9 and meth = POST and path = "''/api/products''" and body = None, OF _ _ _ _ _ _ refl]
  by (simp add: node_b_def leadership_new_def Let_def)

end
