(* ===== verification/Snapshot.thy ===== *)
theory Snapshot
  imports Framing Replica Leadership
begin

text \<open>
  Snapshots, from \<^verbatim>\<open>lithair-core/src/cluster/snapshot.rs\<close>: the data of the models, the manager
  with its directory of files, and the handlers that create, serve and install a snapshot
  (\<^verbatim>\<open>lithair-core/src/app/mod.rs\<close>). \<^verbatim>\<open>rkyv\<close> and \<^verbatim>\<open>serde_json\<close> are the parameters \<open>ser\<close>, \<open>de\<close>,
  \<open>meta_ser\<close>, \<open>meta_de\<close>, \<open>to_text\<close> and \<open>from_text\<close>. A directory is a map from file names to
  contents.
\<close>

section \<open>Data\<close>

record snapshot_meta =
  sm_term :: u64
  sm_last_included_index :: u64
  sm_created_at_ms :: u64
  sm_size_bytes :: u64
  sm_checksum :: u64

type_synonym snapshot_data = "(string \<times> string) list"

definition add_model ::
  "('j list \<Rightarrow> string option) \<Rightarrow> string \<Rightarrow> 'j list \<Rightarrow> snapshot_data \<Rightarrow> snapshot_data"
where
  "add_model to_text path items d =
     filter (\<lambda>(p, t). p \<noteq> path) d @
     [(path, case to_text items of None \<Rightarrow> ''[]'' | Some t \<Rightarrow> t)]"

definition get_model ::
  "(string \<Rightarrow> 'j list option) \<Rightarrow> string \<Rightarrow> snapshot_data \<Rightarrow> 'j list"
where
  "get_model from_text path d =
     (case find (\<lambda>(p, t). p = path) d of
        None \<Rightarrow> []
      | Some (p, t) \<Rightarrow> (case from_text t of None \<Rightarrow> [] | Some items \<Rightarrow> items))"

section \<open>The directory\<close>

datatype file_content = Binary bytes | Text string

type_synonym directory = "(string, file_content) dict"

definition data_name :: "u64 \<Rightarrow> string" where
  "data_name i = ''snapshot_'' @ show_nat (unat i) @ ''.data''"

definition meta_name :: "u64 \<Rightarrow> string" where
  "meta_name i = ''snapshot_'' @ show_nat (unat i) @ ''.meta''"

definition parse_u64 :: "string \<Rightarrow> u64 option" where
  "parse_u64 s = map_option of_nat (parse_unsigned (2 ^ 64 - 1) s)"

definition parse_index :: "string \<Rightarrow> u64 option" where
  "parse_index name =
     (if take 9 name = ''snapshot_'' \<and> drop (length name - 5) name = ''.data'' \<and> 14 \<le> length name
      then parse_u64 (take (length name - 14) (drop 9 name)) else None)"

definition data_indices :: "directory \<Rightarrow> u64 list" where
  "data_indices files = List.map_filter (\<lambda>(name, c). parse_index name) files"

definition cleanup_old_snapshots :: "nat \<Rightarrow> directory \<Rightarrow> directory" where
  "cleanup_old_snapshots keep files =
     fold (\<lambda>i fs. AList.delete (meta_name i) (AList.delete (data_name i) fs))
       (drop keep (rev (sort (data_indices files)))) files"

section \<open>The manager\<close>

record snapshot_manager =
  sn_files :: directory
  sn_current_meta :: "snapshot_meta option"

definition load_latest_meta ::
  "(string \<Rightarrow> snapshot_meta option) \<Rightarrow> directory \<Rightarrow> io_error + snapshot_meta option"
where
  "load_latest_meta meta_de files =
     (case map_of files ''current'' of
        None \<Rightarrow> Inr None
      | Some (Binary b) \<Rightarrow> Inl (InvalidData ''stream did not contain valid UTF-8'')
      | Some (Text s) \<Rightarrow>
          (case parse_u64 (trim s) of
             None \<Rightarrow> Inl (InvalidData s)
           | Some i \<Rightarrow>
               (case map_of files (meta_name i) of
                  None \<Rightarrow> Inr None
                | Some (Binary b) \<Rightarrow> Inl (InvalidData ''stream did not contain valid UTF-8'')
                | Some (Text t) \<Rightarrow>
                    (case meta_de t of
                       None \<Rightarrow> Inl (InvalidData t) | Some m \<Rightarrow> Inr (Some m)))))"

definition snapshot_manager_new ::
  "(string \<Rightarrow> snapshot_meta option) \<Rightarrow> directory \<Rightarrow> io_error + snapshot_manager"
where
  "snapshot_manager_new meta_de files =
     map_sum id (\<lambda>m. \<lparr>sn_files = files, sn_current_meta = m\<rparr>) (load_latest_meta meta_de files)"

text \<open>The three files of a snapshot, written in this order; the metadata may fail to serialize.\<close>

definition write_snapshot ::
  "(snapshot_meta \<Rightarrow> string + string) \<Rightarrow> snapshot_meta \<Rightarrow> bytes \<Rightarrow> directory \<Rightarrow>
   (io_error + unit) \<times> directory"
where
  "write_snapshot meta_ser meta b files =
     (let i = sm_last_included_index meta; fs1 = AList.update (data_name i) (Binary b) files
      in case meta_ser meta of
           Inl e \<Rightarrow> (Inl (OtherError e), fs1)
         | Inr t \<Rightarrow> (Inr (), AList.update ''current'' (Text (show_nat (unat i)))
                                (AList.update (meta_name i) (Text t) fs1)))"

definition create_snapshot ::
  "(snapshot_data \<Rightarrow> string + bytes) \<Rightarrow> (snapshot_meta \<Rightarrow> string + string) \<Rightarrow> u64 \<Rightarrow> u64 \<Rightarrow> u64 \<Rightarrow>
   snapshot_data \<Rightarrow> snapshot_manager \<Rightarrow> (io_error + snapshot_meta) \<times> snapshot_manager"
where
  "create_snapshot ser meta_ser now tm last_ix data m =
     (case ser data of
        Inl e \<Rightarrow> (Inl (OtherError e), m)
      | Inr b \<Rightarrow>
          (let meta = \<lparr>sm_term = tm, sm_last_included_index = last_ix, sm_created_at_ms = now,
                       sm_size_bytes = of_nat (length b), sm_checksum = fnv1a_hash b\<rparr>;
               (r, fs) = write_snapshot meta_ser meta b (sn_files m)
           in case r of
                Inl e \<Rightarrow> (Inl e, m\<lparr>sn_files := fs\<rparr>)
              | Inr _ \<Rightarrow> (Inr meta, m\<lparr>sn_files := cleanup_old_snapshots 3 fs,
                                   sn_current_meta := Some meta\<rparr>)))"

definition get_snapshot_bytes :: "u64 \<Rightarrow> snapshot_manager \<Rightarrow> io_error + bytes" where
  "get_snapshot_bytes i m =
     (case map_of (sn_files m) (data_name i) of Some (Binary b) \<Rightarrow> Inr b | _ \<Rightarrow> Inl NotFound)"

definition load_snapshot ::
  "(bytes \<Rightarrow> string + snapshot_data) \<Rightarrow> u64 \<Rightarrow> snapshot_manager \<Rightarrow> io_error + snapshot_data"
where
  "load_snapshot de i m =
     (case get_snapshot_bytes i m of
        Inl e \<Rightarrow> Inl e
      | Inr b \<Rightarrow> map_sum InvalidData id (de b))"

definition load_current ::
  "(bytes \<Rightarrow> string + snapshot_data) \<Rightarrow> snapshot_manager \<Rightarrow>
   io_error + (snapshot_meta \<times> snapshot_data) option"
where
  "load_current de m =
     (case sn_current_meta m of
        None \<Rightarrow> Inr None
      | Some meta \<Rightarrow>
          map_sum id (\<lambda>d. Some (meta, d)) (load_snapshot de (sm_last_included_index meta) m))"

definition install_snapshot ::
  "(bytes \<Rightarrow> string + snapshot_data) \<Rightarrow> (snapshot_meta \<Rightarrow> string + string) \<Rightarrow> snapshot_meta \<Rightarrow> bytes \<Rightarrow>
   snapshot_manager \<Rightarrow> (io_error + snapshot_data) \<times> snapshot_manager"
where
  "install_snapshot de meta_ser meta b m =
     (if fnv1a_hash b \<noteq> sm_checksum meta
      then (Inl (InvalidData ''Snapshot checksum mismatch''), m)
      else
        case de b of
          Inl e \<Rightarrow> (Inl (InvalidData (''rkyv deserialization failed: '' @ e)), m)
        | Inr data \<Rightarrow>
            (let (r, fs) = write_snapshot meta_ser meta b (sn_files m)
             in case r of
                  Inl e \<Rightarrow> (Inl e, m\<lparr>sn_files := fs\<rparr>)
                | Inr _ \<Rightarrow> (Inr data, m\<lparr>sn_files := fs, sn_current_meta := Some meta\<rparr>)))"

section \<open>File names\<close>

lemma name_simps [simp]:
  "data_name i = data_name j \<longleftrightarrow> i = j" "meta_name i = meta_name j \<longleftrightarrow> i = j"
  "data_name i \<noteq> meta_name j" "meta_name i \<noteq> data_name j"
  "data_name i \<noteq> ''current''" "meta_name i \<noteq> ''current''"
  "''current'' \<noteq> data_name i" "''current'' \<noteq> meta_name i"
  by (auto simp: data_name_def meta_name_def dest: unsigned_word_eqI)

lemma unat_le_max: "unat (i :: u64) \<le> 2 ^ 64 - 1"
  using u64_unat_bound [of i] by simp

lemma parse_show_u64 [simp]: "parse_u64 (show_nat (unat i)) = Some i"
  using parse_show_nat [OF unat_le_max] by (simp add: parse_u64_def)

lemma parse_index_data [simp]: "parse_index (data_name i) = Some i"
  by (simp add: parse_index_def data_name_def)

lemma parse_index_other [simp]: "parse_index (meta_name i) = None" "parse_index ''current'' = None"
  by (simp_all add: parse_index_def meta_name_def)

lemma show_nat_no_space: "trim (show_nat n) = show_nat n"
proof -
  have d: "\<not> is_space c" if "c \<in> set (show_nat n)" for c
    using show_nat_digits [of n] that by (auto simp: list_all_iff is_digit_def is_space_def)
  have ne: "show_nat n \<noteq> []" using show_nat_digits by blast
  have "dropWhile is_space (show_nat n) = show_nat n"
    using d [OF hd_in_set [OF ne]] by (simp add: dropWhile_eq_self_iff)
  moreover have "dropWhile is_space (rev (show_nat n)) = rev (show_nat n)"
    using d [OF last_in_set [OF ne]] by (simp add: dropWhile_eq_self_iff hd_rev)
  ultimately show ?thesis by (simp add: trim_def)
qed

section \<open>Cleanup\<close>

text \<open>
  A well-formed directory: no name twice, and data files have the names the manager gives them.
\<close>

definition directory_ok :: "directory \<Rightarrow> bool" where
  "directory_ok files \<longleftrightarrow>
     dict_ok files \<and> (\<forall>(n, c) \<in> set files. \<forall>i. parse_index n = Some i \<longrightarrow> n = data_name i)"

lemma set_data_indices:
  assumes "directory_ok files"
  shows "set (data_indices files) = {i. map_of files (data_name i) \<noteq> None}"
proof -
  have "(\<exists>x \<in> set files. parse_index (fst x) = Some i) \<longleftrightarrow> data_name i \<in> fst ` set files" for i
  proof
    assume "\<exists>x \<in> set files. parse_index (fst x) = Some i"
    then obtain x where x: "x \<in> set files" "parse_index (fst x) = Some i" by blast
    with assms have "fst x = data_name i" by (auto simp: directory_ok_def)
    with x(1) show "data_name i \<in> fst ` set files" by (metis image_eqI)
  next
    assume "data_name i \<in> fst ` set files"
    then obtain x where "x \<in> set files" "fst x = data_name i" by auto
    then show "\<exists>x \<in> set files. parse_index (fst x) = Some i" by (intro bexI [of _ x]) simp_all
  qed
  then show ?thesis
    by (simp add: data_indices_def set_map_filter' case_prod_unfold map_of_eq_None_iff)
qed

lemma distinct_data_indices:
  "directory_ok files \<Longrightarrow> distinct (data_indices files)"
proof (induction files)
  case (Cons f files)
  obtain n c where f: "f = (n, c)" by (cases f)
  from Cons.prems have ok: "directory_ok files" and n: "n \<notin> fst ` set files"
    by (auto simp: directory_ok_def dict_ok_def f)
  show ?case
  proof (cases "parse_index n")
    case (Some i)
    with Cons.prems have "n = data_name i" by (auto simp: directory_ok_def f)
    with n have "map_of files (data_name i) = None" by (simp add: map_of_eq_None_iff)
    then have "i \<notin> set (data_indices files)" by (simp add: set_data_indices [OF ok])
    with Some Cons.IH [OF ok] show ?thesis by (simp add: data_indices_def f List.map_filter_simps)
  qed (use Cons.IH [OF ok] in \<open>simp add: data_indices_def f List.map_filter_simps\<close>)
qed (simp add: data_indices_def List.map_filter_simps)

text \<open>Which elements of a list are among its \<open>k\<close> largest.\<close>

lemma in_drop_largest:
  fixes xs :: "'a::linorder list"
  assumes "distinct xs" "x \<in> set xs"
  shows "x \<in> set (drop k (rev (sort xs))) \<longleftrightarrow> k \<le> card {y \<in> set xs. x < y}"
proof -
  let ?ys = "rev (sort xs)"
  from assms obtain j where j: "j < length ?ys" "?ys ! j = x"
    by (metis in_set_conv_nth set_rev set_sort)
  have dist: "distinct ?ys" using assms(1) by simp
  have desc: "?ys ! b < ?ys ! a" if "a < b" "b < length ?ys" for a b
  proof -
    have "sorted_wrt (\<ge>) ?ys" by (simp add: sorted_wrt_rev)
    then have "?ys ! b \<le> ?ys ! a" using that by (simp add: sorted_wrt_iff_nth_less)
    moreover have "?ys ! b \<noteq> ?ys ! a" using dist that by (simp add: nth_eq_iff_index_eq)
    ultimately show ?thesis by simp
  qed
  have "{y \<in> set xs. x < y} = (\<lambda>a. ?ys ! a) ` {..<j}"
  proof (intro equalityI subsetI)
    fix y assume "y \<in> {y \<in> set xs. x < y}"
    then obtain a where a: "a < length ?ys" "?ys ! a = y" "x < y"
      by (metis (mono_tags, lifting) in_set_conv_nth mem_Collect_eq set_rev set_sort)
    with desc [of j a] j have "a < j" by (metis less_asym linorder_neqE_nat order_less_irrefl)
    with a show "y \<in> (\<lambda>a. ?ys ! a) ` {..<j}" by blast
  next
    fix y assume "y \<in> (\<lambda>a. ?ys ! a) ` {..<j}"
    then obtain a where a: "a < j" "y = ?ys ! a" by blast
    with desc [OF a(1) j(1)] j have "x < y" by auto
    moreover have "y \<in> set ?ys" using a j(1) nth_mem [of a ?ys] by simp
    ultimately show "y \<in> {y \<in> set xs. x < y}" by simp
  qed
  moreover have "inj_on (\<lambda>a. ?ys ! a) {..<j}"
    using dist j(1) by (auto simp: inj_on_def nth_eq_iff_index_eq)
  ultimately have card: "card {y \<in> set xs. x < y} = j" by (simp add: card_image)
  have "x \<in> set (drop k ?ys) \<longleftrightarrow> k \<le> j"
  proof
    assume "x \<in> set (drop k ?ys)"
    then obtain i where "i < length ?ys - k" "drop k ?ys ! i = x"
      by (metis in_set_conv_nth length_drop)
    then have "?ys ! (k + i) = ?ys ! j" "k + i < length ?ys" using j by simp_all
    then have "k + i = j" using nth_eq_iff_index_eq [OF dist _ j(1)] by blast
    then show "k \<le> j" by simp
  next
    assume "k \<le> j"
    then have "drop k ?ys ! (j - k) = x" "j - k < length (drop k ?ys)" using j by simp_all
    then show "x \<in> set (drop k ?ys)" by (metis nth_mem)
  qed
  with card show ?thesis by simp
qed

lemma map_of_delete_all:
  "map_of (fold (\<lambda>i fs. AList.delete (meta_name i) (AList.delete (data_name i) fs)) is files) n =
   (if n \<in> data_name ` set is \<union> meta_name ` set is then None else map_of files n)"
  by (induction "is" arbitrary: files) (auto simp: map_of_delete_entry)

lemma map_of_cleanup:
  "map_of (cleanup_old_snapshots keep files) n =
     (let gone = set (drop keep (rev (sort (data_indices files))))
      in if n \<in> data_name ` gone \<union> meta_name ` gone then None else map_of files n)"
  by (simp add: cleanup_old_snapshots_def map_of_delete_all Let_def)

lemma write_snapshot_files:
  assumes "write_snapshot meta_ser meta b files = (Inr (), fs)"
  shows "\<exists>t. meta_ser meta = Inr t \<and> (\<forall>n. map_of fs n =
    (if n = ''current'' then Some (Text (show_nat (unat (sm_last_included_index meta))))
     else if n = meta_name (sm_last_included_index meta) then Some (Text t)
     else if n = data_name (sm_last_included_index meta) then Some (Binary b)
     else map_of files n))"
  using assms
  by (auto simp: write_snapshot_def Let_def map_of_update split: sum.splits)

lemma set_AList_update: "x \<in> set (AList.update n c d) \<Longrightarrow> x = (n, c) \<or> x \<in> set d"
  by (induction d) (auto split: if_splits)

lemma directory_ok_update:
  "directory_ok files \<Longrightarrow> (\<forall>i. parse_index n = Some i \<longrightarrow> n = data_name i) \<Longrightarrow>
   directory_ok (AList.update n c files)"
  unfolding directory_ok_def by (auto dest!: set_AList_update)

section \<open>The handlers\<close>

text \<open>
  Creating a snapshot from the models: each model's data as a JSON array, under the manager's
  write lock. \<open>as_array\<close> is \<open>None\<close> for a model whose data is not an array.
\<close>

definition create_snapshot_from_models ::
  "(snapshot_data \<Rightarrow> string + bytes) \<Rightarrow> (snapshot_meta \<Rightarrow> string + string) \<Rightarrow>
   ('j list \<Rightarrow> string option) \<Rightarrow> ('m \<Rightarrow> 'j list option) \<Rightarrow> u64 \<Rightarrow> u64 \<Rightarrow> u64 \<Rightarrow>
   (string \<times> 'm) list \<Rightarrow> snapshot_manager \<Rightarrow> (io_error + snapshot_meta) \<times> snapshot_manager"
where
  "create_snapshot_from_models ser meta_ser to_text as_array now tm last_ix models m =
     create_snapshot ser meta_ser now tm last_ix
       (fold (\<lambda>(path, x) d. case as_array x of
                None \<Rightarrow> d | Some items \<Rightarrow> add_model to_text path items d) models []) m"

text \<open>Serving the current snapshot: its metadata travels in headers.\<close>

datatype snapshot_answer = NoSnapshot | ReadFailed io_error | Served snapshot_meta bytes

definition handle_get_snapshot :: "snapshot_manager \<Rightarrow> snapshot_answer" where
  "handle_get_snapshot m =
     (case sn_current_meta m of
        None \<Rightarrow> NoSnapshot
      | Some meta \<Rightarrow>
          (case get_snapshot_bytes (sm_last_included_index meta) m of
             Inl e \<Rightarrow> ReadFailed e | Inr b \<Rightarrow> Served meta b))"

text \<open>
  Installing a received snapshot. A missing or unreadable header is zero; the items of every
  model that is registered under the path are handed to its handler \<open>apply_items\<close>; then the
  term is set and the index marked as applied.
\<close>

definition header :: "u64 option \<Rightarrow> u64" where
  "header h = (case h of None \<Rightarrow> 0 | Some x \<Rightarrow> x)"

definition apply_snapshot ::
  "(string \<Rightarrow> 'j list option) \<Rightarrow> ('j list \<Rightarrow> 'm \<Rightarrow> 'm) \<Rightarrow> snapshot_data \<Rightarrow> (string \<times> 'm) list \<Rightarrow>
   (string \<times> 'm) list"
where
  "apply_snapshot from_text apply_items d models =
     fold (\<lambda>(path, t) ms.
        (case position (\<lambda>(base, x). base = path) ms of
           None \<Rightarrow> ms
         | Some k \<Rightarrow> ms[k := (fst (ms ! k),
              apply_items (case from_text t of None \<Rightarrow> [] | Some is \<Rightarrow> is) (snd (ms ! k)))])) d models"

definition handle_install_snapshot ::
  "(bytes \<Rightarrow> string + snapshot_data) \<Rightarrow> (snapshot_meta \<Rightarrow> string + string) \<Rightarrow>
   (string \<Rightarrow> 'j list option) \<Rightarrow> ('j list \<Rightarrow> 'm \<Rightarrow> 'm) \<Rightarrow> u64 \<Rightarrow>
   u64 option \<times> u64 option \<times> u64 option \<times> u64 option \<Rightarrow> bytes \<Rightarrow>
   snapshot_manager \<times> (string \<times> 'm) list \<times> 'k consensus_log \<Rightarrow>
   (io_error + u64) \<times> snapshot_manager \<times> (string \<times> 'm) list \<times> 'k consensus_log"
where
  "handle_install_snapshot de meta_ser from_text apply_items now hs b st =
     (let (tm, ix, ck, sz) = hs; (m, models, l) = st;
          meta = \<lparr>sm_term = header tm, sm_last_included_index = header ix, sm_created_at_ms = now,
                  sm_size_bytes = header sz, sm_checksum = header ck\<rparr>
      in case install_snapshot de meta_ser meta b m of
           (Inl e, m') \<Rightarrow> (Inl e, m', models, l)
         | (Inr d, m') \<Rightarrow>
             (Inr (header tm), m', apply_snapshot from_text apply_items d models,
              mark_applied (header ix) (set_term (header tm) l)))"

section \<open>Properties\<close>

text \<open>
  A created snapshot is the current one and loads back, and a manager opened on the directory
  finds its metadata again, as long as fewer than three snapshots have a larger index; when three
  or more do, the cleanup that ends the creation deletes the snapshot just created and loading
  the current snapshot fails.
\<close>

theorem create_snapshot_current:
  assumes ok: "directory_ok (sn_files m)"
    and codec: "ser data = Inr b" "de b = Inr data"
    and meta: "\<forall>x. \<exists>t. meta_ser x = Inr t \<and> meta_de t = Some x"
    and create: "create_snapshot ser meta_ser now tm i data m = (r, m')"
  shows "\<exists>x. r = Inr x \<and> sn_current_meta m' = Some x \<and> sm_last_included_index x = i \<and>
    (if card {j. map_of (sn_files m) (data_name j) \<noteq> None \<and> i < j} < 3
     then load_current de m' = Inr (Some (x, data)) \<and>
       snapshot_manager_new meta_de (sn_files m') = Inr m'
     else load_current de m' = Inl NotFound)"
proof -
  define x where "x = \<lparr>sm_term = tm, sm_last_included_index = i, sm_created_at_ms = now,
    sm_size_bytes = of_nat (length b), sm_checksum = fnv1a_hash b\<rparr>"
  obtain t where t: "meta_ser x = Inr t" "meta_de t = Some x" using meta by blast
  define fs where "fs = AList.update ''current'' (Text (show_nat (unat i)))
    (AList.update (meta_name i) (Text t) (AList.update (data_name i) (Binary b) (sn_files m)))"
  have xi: "sm_last_included_index x = i" by (simp add: x_def)
  have w: "write_snapshot meta_ser x b (sn_files m) = (Inr (), fs)"
    by (simp add: write_snapshot_def t xi fs_def Let_def)
  from create codec(1) w have m': "r = Inr x"
    "m' = m\<lparr>sn_files := cleanup_old_snapshots 3 fs, sn_current_meta := Some x\<rparr>"
    by (auto simp: create_snapshot_def Let_def x_def [symmetric])
  have okfs: "directory_ok fs"
    unfolding fs_def by (intro directory_ok_update ok) (simp_all del: directory_ok_def)
  have lookup: "map_of fs n = (if n = ''current'' then Some (Text (show_nat (unat i)))
     else if n = meta_name i then Some (Text t) else if n = data_name i then Some (Binary b)
     else map_of (sn_files m) n)" for n
    by (simp add: fs_def map_of_update)
  have set_ix: "set (data_indices fs) = insert i {j. map_of (sn_files m) (data_name j) \<noteq> None}"
    by (auto simp: set_data_indices [OF okfs] lookup)
  let ?gone = "set (drop 3 (rev (sort (data_indices fs))))"
  have "i \<in> ?gone \<longleftrightarrow> 3 \<le> card {y \<in> set (data_indices fs). i < y}"
    using distinct_data_indices [OF okfs] by (intro in_drop_largest) (simp_all add: set_ix)
  moreover have "{y \<in> set (data_indices fs). i < y} =
      {j. map_of (sn_files m) (data_name j) \<noteq> None \<and> i < j}" by (auto simp: set_ix)
  ultimately have gone: "i \<in> ?gone \<longleftrightarrow>
      3 \<le> card {j. map_of (sn_files m) (data_name j) \<noteq> None \<and> i < j}" by simp
  have data': "map_of (sn_files m') (data_name i) = (if i \<in> ?gone then None else Some (Binary b))"
    and meta': "map_of (sn_files m') (meta_name i) = (if i \<in> ?gone then None else Some (Text t))"
    and cur': "map_of (sn_files m') ''current'' = Some (Text (show_nat (unat i)))"
    by (auto simp: m' map_of_cleanup lookup Let_def)
  show ?thesis
  proof (intro exI conjI)
    show "r = Inr x" "sm_last_included_index x = i" by (simp_all add: m' xi)
    show "sn_current_meta m' = Some x" by (simp add: m')
    have cm: "sn_current_meta m' = Some x" by (simp add: m')
    then have eta: "\<lparr>sn_files = sn_files m', sn_current_meta = Some x\<rparr> = m'" by (cases m') simp
    have "load_current de m' = (if i \<in> ?gone then Inl NotFound else Inr (Some (x, data)))"
      by (simp add: load_current_def load_snapshot_def get_snapshot_bytes_def data' cm xi codec(2))
    moreover have "snapshot_manager_new meta_de (sn_files m') = Inr m'" if "i \<notin> ?gone"
      using that by (simp add: snapshot_manager_new_def load_latest_meta_def cur' meta'
          show_nat_no_space t(2) eta)
    ultimately show "if card {j. map_of (sn_files m) (data_name j) \<noteq> None \<and> i < j} < 3
     then load_current de m' = Inr (Some (x, data)) \<and>
       snapshot_manager_new meta_de (sn_files m') = Inr m'
     else load_current de m' = Inl NotFound" using gone by auto
  qed
qed

text \<open>Sample parameters: the empty snapshot is the empty file, and metadata keep their index.\<close>

definition sample_data_ser :: "snapshot_data \<Rightarrow> string + bytes" where
  "sample_data_ser d = (if d = [] then Inr [] else Inl ''too large'')"

definition sample_data_de :: "bytes \<Rightarrow> string + snapshot_data" where
  "sample_data_de b = (if b = [] then Inr [] else Inl ''bad'')"

definition sample_meta_ser :: "snapshot_meta \<Rightarrow> string + string" where
  "sample_meta_ser x = Inr (join '','' (map (\<lambda>n. show_nat (unat n))
     [sm_term x, sm_last_included_index x, sm_created_at_ms x, sm_size_bytes x, sm_checksum x]))"

definition sample_meta_de :: "string \<Rightarrow> snapshot_meta option" where
  "sample_meta_de s =
     (case map (\<lambda>p. of_nat (digits_value p)) (split_on CHR '','' s) of
        [a, b, c, d, e] \<Rightarrow> Some \<lparr>sm_term = a, sm_last_included_index = b, sm_created_at_ms = c,
                                 sm_size_bytes = d, sm_checksum = e\<rparr>
      | _ \<Rightarrow> None)"

lemma split_on_join: "c \<notin> set s \<Longrightarrow> split_on c (s @ c # r) = s # split_on c r"
  by (induction s) auto

lemma comma_not_digit: "CHR '','' \<notin> set (show_nat n)"
  using show_nat_digits [of n] by (auto simp: list_all_iff is_digit_def)

lemma sample_meta_codec: "\<forall>x. \<exists>t. sample_meta_ser x = Inr t \<and> sample_meta_de t = Some x"
  by (simp add: sample_meta_ser_def sample_meta_de_def split_on_join split_on_no comma_not_digit)

definition empty_manager :: snapshot_manager where
  "empty_manager = \<lparr>sn_files = [], sn_current_meta = None\<rparr>"

lemma create_snapshot_current_witness:
  "\<exists>x m'. create_snapshot sample_data_ser sample_meta_ser 9 1 5 [] empty_manager = (Inr x, m') \<and>
     load_current sample_data_de m' = Inr (Some (x, []))"
proof -
  obtain r m' where run: "create_snapshot sample_data_ser sample_meta_ser 9 1 5 [] empty_manager =
      (r, m')" by (cases "create_snapshot sample_data_ser sample_meta_ser 9 1 5 [] empty_manager")
  have ok: "directory_ok (sn_files empty_manager)" by (simp add: directory_ok_def empty_manager_def)
  have c: "sample_data_ser [] = Inr []" "sample_data_de [] = Inr []"
    by (simp_all add: sample_data_ser_def sample_data_de_def)
  from create_snapshot_current [where meta_ser = sample_meta_ser and meta_de = sample_meta_de and
      m = empty_manager and ser = sample_data_ser and de = sample_data_de and data = "[]", OF ok c sample_meta_codec run] run show ?thesis
    by (auto simp: empty_manager_def)
qed

text \<open>
  C19. Transfer preserves the snapshot: when a follower installs the bytes and the metadata that
  the leader serves as its current snapshot, it gets the same data, and the snapshot becomes its
  current one; bytes that do not match the checksum change nothing on the follower.
\<close>

theorem snapshot_transfer:
  assumes created: "create_snapshot ser meta_ser now tm i data m = (Inr x, m')"
    and codec: "\<forall>b. ser data = Inr b \<longrightarrow> de b = Inr data"
    and meta: "\<forall>x. \<exists>t. meta_ser x = Inr t"
    and served: "handle_get_snapshot m' = Served y b"
    and dir: "directory_ok (sn_files m)"
  shows "y = x \<and> (\<exists>f'. install_snapshot de meta_ser y b f = (Inr data, f') \<and>
      load_current de f' = Inr (Some (x, data))) \<and>
    (fnv1a_hash b' \<noteq> sm_checksum y \<longrightarrow> snd (install_snapshot de meta_ser y b' f) = f)"
proof -
  from created obtain b0 fs where b0: "ser data = Inr b0" "sm_checksum x = fnv1a_hash b0"
    "sm_last_included_index x = i"
    and w: "write_snapshot meta_ser x b0 (sn_files m) = (Inr (), fs)"
    and m': "m' = m\<lparr>sn_files := cleanup_old_snapshots 3 fs, sn_current_meta := Some x\<rparr>"
    by (auto simp: create_snapshot_def Let_def split: sum.splits prod.splits)
  from served have y: "y = x" and g: "get_snapshot_bytes i m' = Inr b"
    by (auto simp: handle_get_snapshot_def m' b0 split: sum.splits)
  have "map_of fs (data_name i) = Some (Binary b0)"
    using write_snapshot_files [OF w] by (auto simp: b0)
  with g have b: "b = b0"
    by (auto simp: get_snapshot_bytes_def m' map_of_cleanup Let_def split: if_splits option.splits)
  from meta obtain t where t: "meta_ser x = Inr t" by blast
  obtain fs' where w': "write_snapshot meta_ser x b (sn_files f) = (Inr (), fs')"
    by (simp add: write_snapshot_def t Let_def)
  from codec b0 b have "de b = Inr data" by simp
  with w' b b0 y have inst: "install_snapshot de meta_ser y b f =
      (Inr data, f\<lparr>sn_files := fs', sn_current_meta := Some x\<rparr>)"
    by (simp add: install_snapshot_def)
  moreover have "map_of fs' (data_name i) = Some (Binary b)"
    using write_snapshot_files [OF w'] by (auto simp: b0)
  then have "load_current de (f\<lparr>sn_files := fs', sn_current_meta := Some x\<rparr>) = Inr (Some (x, data))"
    using \<open>de b = Inr data\<close>
    by (simp add: load_current_def load_snapshot_def get_snapshot_bytes_def b0)
  ultimately show ?thesis using y by (auto simp: install_snapshot_def)
qed

lemma snapshot_transfer_witness:
  "\<exists>x m' y b f'. create_snapshot sample_data_ser sample_meta_ser 9 1 5 [] empty_manager = (Inr x, m') \<and>
     handle_get_snapshot m' = Served y b \<and>
     install_snapshot sample_data_de sample_meta_ser y b empty_manager = (Inr [], f') \<and>
     load_current sample_data_de f' = Inr (Some (x, []))"
proof -
  let ?c = "create_snapshot sample_data_ser sample_meta_ser 9 1 5 [] empty_manager"
  have ok: "directory_ok (sn_files empty_manager)" by (simp add: directory_ok_def empty_manager_def)
  obtain x m' where run: "?c = (Inr x, m')"
    by (simp add: create_snapshot_def sample_data_ser_def write_snapshot_def sample_meta_ser_def Let_def)
  have c: "\<forall>b. sample_data_ser [] = Inr b \<longrightarrow> sample_data_de b = Inr []"
    by (simp add: sample_data_ser_def sample_data_de_def)
  have m: "\<forall>x. \<exists>t. sample_meta_ser x = Inr t" by (simp add: sample_meta_ser_def)
  have "\<exists>y b. handle_get_snapshot (snd ?c) = Served y b"
    by (simp add: create_snapshot_def sample_data_ser_def write_snapshot_def sample_meta_ser_def
        Let_def handle_get_snapshot_def get_snapshot_bytes_def empty_manager_def map_of_cleanup
        map_of_update data_indices_def List.map_filter_simps)
  then obtain y b where "handle_get_snapshot m' = Served y b" by (auto simp: run)
  from snapshot_transfer [OF run c m this ok, of empty_manager "[]"] run this show ?thesis by blast
qed

text \<open>
  An installed snapshot hides log entries: after an installation with index \<open>i\<close> no entry with
  an index up to \<open>i\<close> is ever handed out for application, whether or not the snapshot contained
  its effect, and the term becomes the header's even when the follower's is newer.
\<close>

theorem install_skips_entries:
  assumes "handle_install_snapshot de meta_ser from_text apply_items now
      (Some tm, Some i, ck, sz) b (m, models, l) = (Inr r, m', models', l')"
    and "cl_entries l2 = cl_entries l'" and "cl_applied_index l' \<le> cl_applied_index l2"
    and "get_unapplied_entries l2 = Some es"
  shows "(\<forall>e \<in> set es. i < le_index e) \<and> cl_current_term l' = tm"
proof
  from assms(1) have l': "l' = mark_applied i (set_term tm l)"
    by (auto simp: handle_install_snapshot_def Let_def header_def split: sum.splits prod.splits)
  then show "cl_current_term l' = tm" by (simp add: mark_applied_def set_term_def)
  show "\<forall>e \<in> set es. i < le_index e"
  proof
    fix e
    assume "e \<in> set es"
    then have "unat (le_index e) \<in> set (map (\<lambda>e. unat (le_index e)) es)" by simp
    with get_unapplied_shape [OF assms(4)] have "unat (cl_applied_index l2) < unat (le_index e)"
      by auto
    moreover have "i \<le> cl_applied_index l'" by (simp add: l' mark_applied_def)
    ultimately show "i < le_index e" using assms(3) by (simp add: word_less_nat_alt word_le_nat_alt)
  qed
qed

lemma install_skips_entries_witness:
  "\<exists>m' models' l' es. handle_install_snapshot sample_data_de sample_meta_ser
       (\<lambda>s. None :: unit list option) (\<lambda>items x. x) 9 (Some 1, Some 1, Some (fnv1a_hash []), None) []
       (empty_manager, [] :: (string \<times> unit) list,
        receive_all [([example_entry 1 1 ''a'', example_entry 1 2 ''b''], 2)] consensus_log_new) =
       (Inr 1, m', models', l') \<and>
     get_unapplied_entries l' = Some es \<and> (\<forall>e \<in> set es. 1 < le_index e)"
proof -
  let ?h = "handle_install_snapshot sample_data_de sample_meta_ser
       (\<lambda>s. None :: unit list option) (\<lambda>items x. x) 9 (Some 1, Some 1, Some (fnv1a_hash []), None) []
       (empty_manager, [] :: (string \<times> unit) list,
        receive_all [([example_entry 1 1 ''a'', example_entry 1 2 ''b''], 2)] consensus_log_new)"
  obtain m' models' l' where run: "?h = (Inr 1, m', models', l')"
    by (simp add: handle_install_snapshot_def install_snapshot_def header_def sample_data_de_def
        write_snapshot_def sample_meta_ser_def Let_def)
  then have "cl_commit_index l' = 2"
    by (auto simp: handle_install_snapshot_def install_snapshot_def header_def sample_data_de_def
        write_snapshot_def sample_meta_ser_def Let_def mark_applied_def set_term_def
        append_entries_def consensus_log_new_def fetch_max_def)
  then obtain es where es: "get_unapplied_entries l' = Some es"
    using unapplied_from_total [of "cl_commit_index l'" "cl_applied_index l' + 1" "cl_entries l'"]
    by (cases "cl_commit_index l' \<le> cl_applied_index l'") (auto simp: get_unapplied_entries_def)
  from install_skips_entries [OF run _ _ es] run es show ?thesis by auto
qed

end
