(* ===== verification/SchemaDetect.thy ===== *)
theory SchemaDetect
  imports Prelude
begin

text \<open>
  Schema change detection, from \<^verbatim>\<open>lithair-core/src/schema/mod.rs\<close>: the specification of a
  model, the changes between two specifications, and what each of them asks of a migration. A
  hash map is iterated in the order of its list. \<open>to_lowercase\<close> is the one of ASCII names.
\<close>

section \<open>Specifications\<close>

datatype schema_change_type =
    AddField | RemoveField | ModifyFieldType | ModifyFieldConstraints | AddIndex | RemoveIndex
  | ModifyRetentionPolicy | ModifyPermissions | AddForeignKey | RemoveForeignKey

datatype migration_strategy = Additive | Breaking | Versioned

record field_permissions =
  fp_read_permission :: "string option"
  fp_write_permission :: "string option"
  fp_owner_field :: bool

record field_constraints =
  fc_primary_key :: bool
  fc_unique :: bool
  fc_indexed :: bool
  fc_foreign_key :: "string option"
  fc_nullable :: bool
  fc_immutable :: bool
  fc_audited :: bool
  fc_versioned :: u32
  fc_retention :: nat
  fc_snapshot_only :: bool
  fc_validation_rules :: "string list"
  fc_permissions :: field_permissions
  fc_default_value :: "string option"
  fc_field_type :: "string option"

record index_spec =
  ix_name :: string
  ix_fields :: "string list"
  ix_unique :: bool

record foreign_key_spec =
  fk_field :: string
  fk_references_table :: string
  fk_references_field :: string

record model_spec =
  ms_model_name :: string
  ms_version :: u32
  ms_fields :: "(string, field_constraints) dict"
  ms_indexes :: "index_spec list"
  ms_foreign_keys :: "foreign_key_spec list"

record detected_change =
  dc_model :: string
  dc_change_type :: schema_change_type
  dc_field_name :: "string option"
  dc_old_type :: "string option"
  dc_new_type :: "string option"
  dc_old_constraints :: "field_constraints option"
  dc_new_constraints :: "field_constraints option"
  dc_strategy :: migration_strategy
  dc_default_value :: "string option"
  dc_requires_consensus :: bool
  dc_migration_sql :: "string option"
  dc_rollback_sql :: "string option"

section \<open>What a new field needs\<close>

definition determine_migration_strategy_for_add :: "field_constraints \<Rightarrow> migration_strategy" where
  "determine_migration_strategy_for_add c =
     (if fc_default_value c \<noteq> None then Additive
      else if fc_primary_key c \<or> fc_unique c then Breaking
      else if fc_nullable c then Additive
      else Versioned)"

definition requires_consensus_for_add :: "field_constraints \<Rightarrow> bool" where
  "requires_consensus_for_add c =
     (if fc_default_value c \<noteq> None then False
      else fc_primary_key c \<or> fc_unique c \<or> \<not> fc_nullable c)"

definition generate_default_value :: "field_constraints \<Rightarrow> string option" where
  "generate_default_value c =
     (case fc_default_value c of
        Some d \<Rightarrow> Some d
      | None \<Rightarrow> if fc_nullable c then Some ''NULL'' else Some ''DEFAULT'')"

section \<open>Statements\<close>

fun join :: "string \<Rightarrow> string list \<Rightarrow> string" where
  "join sep [] = []"
| "join sep [x] = x"
| "join sep (x # y # zs) = x @ sep @ join sep (y # zs)"

definition to_lower :: "char \<Rightarrow> char" where
  "to_lower c =
     (let n = (of_char c :: nat) in if 65 \<le> n \<and> n \<le> 90 then char_of (n + 32) else c)"

definition to_lowercase :: "string \<Rightarrow> string" where
  "to_lowercase = map to_lower"

definition generate_add_field_sql :: "string \<Rightarrow> field_constraints \<Rightarrow> string option" where
  "generate_add_field_sql f c =
     Some (''ALTER TABLE ADD COLUMN '' @ f @ '' TYPE '' @
           (if fc_nullable c then ''NULL'' else ''NOT NULL''))"

definition generate_remove_field_sql :: "string \<Rightarrow> string option" where
  "generate_remove_field_sql f = Some (''ALTER TABLE DROP COLUMN '' @ f)"

definition generate_index_sql :: "string \<Rightarrow> bool \<Rightarrow> string" where
  "generate_index_sql f create =
     (if create then ''CREATE INDEX idx_'' @ f @ '' ON table ('' @ f @ '')''
      else ''DROP INDEX idx_'' @ f)"

definition create_index_sql :: "string \<Rightarrow> index_spec \<Rightarrow> string" where
  "create_index_sql model i =
     ''CREATE '' @ (if ix_unique i then ''UNIQUE'' else '''') @ '' INDEX '' @ ix_name i @ '' ON '' @
     model @ '' ('' @ join '', '' (ix_fields i) @ '')''"

section \<open>Changes of one field\<close>

definition constraint_change ::
  "string \<Rightarrow> string \<Rightarrow> field_constraints \<Rightarrow> field_constraints \<Rightarrow> schema_change_type \<Rightarrow>
   string option \<Rightarrow> string option \<Rightarrow> migration_strategy \<Rightarrow> bool \<Rightarrow>
   string option \<Rightarrow> string option \<Rightarrow> detected_change"
where
  "constraint_change model f a b kind old_t new_t strategy consensus up down =
     \<lparr>dc_model = model, dc_change_type = kind, dc_field_name = Some f,
      dc_old_type = old_t, dc_new_type = new_t,
      dc_old_constraints = Some a, dc_new_constraints = Some b,
      dc_strategy = strategy, dc_default_value = None, dc_requires_consensus = consensus,
      dc_migration_sql = up, dc_rollback_sql = down\<rparr>"

definition detect_constraint_changes ::
  "string \<Rightarrow> string \<Rightarrow> field_constraints \<Rightarrow> field_constraints \<Rightarrow> detected_change list"
where
  "detect_constraint_changes model f a b =
     (if fc_field_type a \<noteq> fc_field_type b
      then [constraint_change model f a b ModifyFieldType (fc_field_type a) (fc_field_type b)
              Breaking True None None]
      else []) @
     (if fc_retention a \<noteq> fc_retention b
      then [constraint_change model f a b ModifyRetentionPolicy
              (Some (show_nat (fc_retention a))) (Some (show_nat (fc_retention b)))
              Additive False None None]
      else []) @
     (if fc_permissions a \<noteq> fc_permissions b
      then [constraint_change model f a b ModifyPermissions None None Additive False None None]
      else []) @
     (if fc_indexed a \<noteq> fc_indexed b
      then [constraint_change model f a b (if fc_indexed b then AddIndex else RemoveIndex)
              None None (if fc_indexed b then Additive else Breaking) (\<not> fc_indexed b)
              (Some (generate_index_sql f (fc_indexed b)))
              (Some (generate_index_sql f (fc_indexed a)))]
      else [])"

definition add_field_change :: "string \<Rightarrow> string \<Rightarrow> field_constraints \<Rightarrow> detected_change" where
  "add_field_change model f c =
     \<lparr>dc_model = model, dc_change_type = AddField, dc_field_name = Some f,
      dc_old_type = None, dc_new_type = Some ''inferred'',
      dc_old_constraints = None, dc_new_constraints = Some c,
      dc_strategy = determine_migration_strategy_for_add c,
      dc_default_value = generate_default_value c,
      dc_requires_consensus = requires_consensus_for_add c,
      dc_migration_sql = generate_add_field_sql f c,
      dc_rollback_sql = generate_remove_field_sql f\<rparr>"

definition remove_field_change :: "string \<Rightarrow> string \<Rightarrow> field_constraints \<Rightarrow> detected_change" where
  "remove_field_change model f c =
     \<lparr>dc_model = model, dc_change_type = RemoveField, dc_field_name = Some f,
      dc_old_type = Some ''inferred'', dc_new_type = None,
      dc_old_constraints = Some c, dc_new_constraints = None,
      dc_strategy = Breaking, dc_default_value = None, dc_requires_consensus = True,
      dc_migration_sql = generate_remove_field_sql f,
      dc_rollback_sql = generate_add_field_sql f c\<rparr>"

section \<open>Indexes and foreign keys\<close>

definition add_index_change :: "string \<Rightarrow> index_spec \<Rightarrow> detected_change" where
  "add_index_change model i =
     \<lparr>dc_model = model, dc_change_type = AddIndex,
      dc_field_name = Some (join '', '' (ix_fields i)), dc_old_type = None,
      dc_new_type = Some (''INDEX('' @ join '', '' (ix_fields i) @ '')''),
      dc_old_constraints = None, dc_new_constraints = None,
      dc_strategy = Additive, dc_default_value = None, dc_requires_consensus = False,
      dc_migration_sql = Some (create_index_sql model i),
      dc_rollback_sql = Some (''DROP INDEX '' @ ix_name i)\<rparr>"

definition remove_index_change :: "string \<Rightarrow> index_spec \<Rightarrow> detected_change" where
  "remove_index_change model i =
     \<lparr>dc_model = model, dc_change_type = RemoveIndex,
      dc_field_name = Some (join '', '' (ix_fields i)),
      dc_old_type = Some (''INDEX('' @ join '', '' (ix_fields i) @ '')''), dc_new_type = None,
      dc_old_constraints = None, dc_new_constraints = None,
      dc_strategy = Breaking, dc_default_value = None, dc_requires_consensus = True,
      dc_migration_sql = Some (''DROP INDEX '' @ ix_name i),
      dc_rollback_sql = Some (create_index_sql model i)\<rparr>"

definition detect_index_changes :: "model_spec \<Rightarrow> model_spec \<Rightarrow> detected_change list" where
  "detect_index_changes old new =
     [add_index_change (ms_model_name new) i.
        i \<leftarrow> ms_indexes new, \<not> list_ex (\<lambda>x. ix_name x = ix_name i) (ms_indexes old)] @
     [remove_index_change (ms_model_name new) i.
        i \<leftarrow> ms_indexes old, \<not> list_ex (\<lambda>x. ix_name x = ix_name i) (ms_indexes new)]"

definition add_foreign_key_change :: "string \<Rightarrow> foreign_key_spec \<Rightarrow> detected_change" where
  "add_foreign_key_change model k =
     \<lparr>dc_model = model, dc_change_type = AddForeignKey, dc_field_name = Some (fk_field k),
      dc_old_type = None,
      dc_new_type = Some (''FK -> '' @ fk_references_table k @ ''.'' @ fk_references_field k),
      dc_old_constraints = None, dc_new_constraints = None,
      dc_strategy = Breaking, dc_default_value = None, dc_requires_consensus = True,
      dc_migration_sql = Some (''ALTER TABLE '' @ model @ '' ADD CONSTRAINT fk_'' @
        to_lowercase model @ ''_'' @ fk_field k @ '' FOREIGN KEY ('' @ fk_field k @
        '') REFERENCES '' @ fk_references_table k @ '' ('' @ fk_references_field k @ '')''),
      dc_rollback_sql = Some (''ALTER TABLE '' @ model @ '' DROP CONSTRAINT fk_'' @
        to_lowercase model @ ''_'' @ fk_field k)\<rparr>"

definition detect_foreign_key_changes :: "model_spec \<Rightarrow> model_spec \<Rightarrow> detected_change list" where
  "detect_foreign_key_changes old new =
     [add_foreign_key_change (ms_model_name new) k.
        k \<leftarrow> ms_foreign_keys new,
        \<not> list_ex (\<lambda>x. fk_field x = fk_field k) (ms_foreign_keys old)]"

section \<open>The detector\<close>

definition added_fields :: "model_spec \<Rightarrow> model_spec \<Rightarrow> detected_change list" where
  "added_fields old new =
     map (\<lambda>(f, c). add_field_change (ms_model_name new) f c)
       (filter (\<lambda>(f, c). map_of (ms_fields old) f = None) (ms_fields new))"

definition removed_fields :: "model_spec \<Rightarrow> model_spec \<Rightarrow> detected_change list" where
  "removed_fields old new =
     map (\<lambda>(f, c). remove_field_change (ms_model_name new) f c)
       (filter (\<lambda>(f, c). map_of (ms_fields new) f = None) (ms_fields old))"

definition field_change :: "model_spec \<Rightarrow> model_spec \<Rightarrow> string \<Rightarrow> field_constraints \<Rightarrow> detected_change list"
where
  "field_change old new f b =
     (case map_of (ms_fields old) f of
        None \<Rightarrow> []
      | Some a \<Rightarrow> if a \<noteq> b then detect_constraint_changes (ms_model_name new) f a b else [])"

definition changed_fields :: "model_spec \<Rightarrow> model_spec \<Rightarrow> detected_change list" where
  "changed_fields old new = concat (map (\<lambda>(f, b). field_change old new f b) (ms_fields new))"

definition detect_changes :: "model_spec \<Rightarrow> model_spec \<Rightarrow> detected_change list" where
  "detect_changes old new =
     added_fields old new @ removed_fields old new @ changed_fields old new @
     detect_index_changes old new @ detect_foreign_key_changes old new"

section \<open>What is detected\<close>

lemmas change_defs =
  constraint_change_def add_field_change_def remove_field_change_def add_index_change_def
  remove_index_change_def add_foreign_key_change_def

text \<open>The aspects of a field that the detector compares.\<close>

definition same_shape :: "field_constraints \<Rightarrow> field_constraints \<Rightarrow> bool" where
  "same_shape a b \<longleftrightarrow>
     fc_field_type a = fc_field_type b \<and> fc_retention a = fc_retention b \<and>
     fc_permissions a = fc_permissions b \<and> fc_indexed a = fc_indexed b"

lemma same_shape_refl [simp]: "same_shape a a"
  by (simp add: same_shape_def)

lemma detect_constraint_changes_Nil: "detect_constraint_changes model f a b = [] \<longleftrightarrow> same_shape a b"
  by (simp add: detect_constraint_changes_def same_shape_def)

lemma concat_guard_Nil: "concat (map (\<lambda>x. if P x then [f x] else []) xs) = [] \<longleftrightarrow> (\<forall>x \<in> set xs. \<not> P x)"
  by (auto split: if_splits)

lemma list_ex_same: "list_ex (\<lambda>x. g x = g i) xs \<longleftrightarrow> g i \<in> g ` set xs"
  by (auto simp: list_ex_iff image_iff eq_commute)

lemma detect_index_changes_Nil:
  "detect_index_changes old new = [] \<longleftrightarrow>
     ix_name ` set (ms_indexes old) = ix_name ` set (ms_indexes new)"
proof -
  have "detect_index_changes old new = [] \<longleftrightarrow>
      (\<forall>i \<in> set (ms_indexes new). ix_name i \<in> ix_name ` set (ms_indexes old)) \<and>
      (\<forall>i \<in> set (ms_indexes old). ix_name i \<in> ix_name ` set (ms_indexes new))"
    by (simp only: detect_index_changes_def append_is_Nil_conv concat_guard_Nil list_ex_same not_not)
  then show ?thesis by blast
qed

lemma detect_foreign_key_changes_Nil:
  "detect_foreign_key_changes old new = [] \<longleftrightarrow>
     fk_field ` set (ms_foreign_keys new) \<subseteq> fk_field ` set (ms_foreign_keys old)"
proof -
  have "detect_foreign_key_changes old new = [] \<longleftrightarrow>
      (\<forall>k \<in> set (ms_foreign_keys new). fk_field k \<in> fk_field ` set (ms_foreign_keys old))"
    by (simp only: detect_foreign_key_changes_def concat_guard_Nil list_ex_same not_not)
  then show ?thesis by blast
qed

lemma dict_ok_mem: "dict_ok d \<Longrightarrow> (k, v) \<in> set d \<longleftrightarrow> map_of d k = Some v"
  by (auto simp: dict_ok_def dest: map_of_SomeD)

lemma added_fields_set:
  assumes "dict_ok (ms_fields new)"
  shows "x \<in> set (added_fields old new) \<longleftrightarrow>
    (\<exists>f c. map_of (ms_fields new) f = Some c \<and> map_of (ms_fields old) f = None \<and>
       x = add_field_change (ms_model_name new) f c)"
  unfolding dict_ok_mem [OF assms, symmetric] added_fields_def by auto

lemma removed_fields_set:
  assumes "dict_ok (ms_fields old)"
  shows "x \<in> set (removed_fields old new) \<longleftrightarrow>
    (\<exists>f c. map_of (ms_fields old) f = Some c \<and> map_of (ms_fields new) f = None \<and>
       x = remove_field_change (ms_model_name new) f c)"
  unfolding dict_ok_mem [OF assms, symmetric] removed_fields_def by auto

lemma field_change_Some:
  "map_of (ms_fields old) f = Some a \<Longrightarrow>
   field_change old new f b = detect_constraint_changes (ms_model_name new) f a b"
  using detect_constraint_changes_Nil [of "ms_model_name new" f b b]
  by (simp add: field_change_def)

lemma field_change_None: "map_of (ms_fields old) f = None \<Longrightarrow> field_change old new f b = []"
  by (simp add: field_change_def)

lemma changed_fields_set:
  assumes "dict_ok (ms_fields new)"
  shows "x \<in> set (changed_fields old new) \<longleftrightarrow>
    (\<exists>f a b. map_of (ms_fields old) f = Some a \<and> map_of (ms_fields new) f = Some b \<and>
       x \<in> set (detect_constraint_changes (ms_model_name new) f a b))"
proof -
  have "x \<in> set (changed_fields old new) \<longleftrightarrow>
      (\<exists>f b. map_of (ms_fields new) f = Some b \<and> x \<in> set (field_change old new f b))"
    unfolding dict_ok_mem [OF assms, symmetric] changed_fields_def by auto
  moreover have "x \<in> set (field_change old new f b) \<longleftrightarrow>
      (\<exists>a. map_of (ms_fields old) f = Some a \<and>
         x \<in> set (detect_constraint_changes (ms_model_name new) f a b))" for f b
    by (cases "map_of (ms_fields old) f") (simp_all add: field_change_Some field_change_None)
  ultimately show ?thesis by blast
qed

lemma detect_changes_set:
  assumes "dict_ok (ms_fields old)" and "dict_ok (ms_fields new)"
  shows "x \<in> set (detect_changes old new) \<longleftrightarrow>
    (\<exists>f c. map_of (ms_fields new) f = Some c \<and> map_of (ms_fields old) f = None \<and>
       x = add_field_change (ms_model_name new) f c) \<or>
    (\<exists>f c. map_of (ms_fields old) f = Some c \<and> map_of (ms_fields new) f = None \<and>
       x = remove_field_change (ms_model_name new) f c) \<or>
    (\<exists>f a b. map_of (ms_fields old) f = Some a \<and> map_of (ms_fields new) f = Some b \<and>
       x \<in> set (detect_constraint_changes (ms_model_name new) f a b)) \<or>
    x \<in> set (detect_index_changes old new) \<or>
    x \<in> set (detect_foreign_key_changes old new)"
  unfolding detect_changes_def set_append Un_iff added_fields_set [OF assms(2)]
    removed_fields_set [OF assms(1)] changed_fields_set [OF assms(2)] ..

lemma list_Nil_iff: "xs = [] \<longleftrightarrow> (\<forall>x. x \<notin> set xs)"
  by (cases xs) auto

lemma detect_changes_Nil:
  assumes "dict_ok (ms_fields old)" and "dict_ok (ms_fields new)"
  shows "detect_changes old new = [] \<longleftrightarrow>
    dom (map_of (ms_fields old)) = dom (map_of (ms_fields new)) \<and>
    (\<forall>f a b. map_of (ms_fields old) f = Some a \<longrightarrow> map_of (ms_fields new) f = Some b \<longrightarrow>
       same_shape a b) \<and>
    ix_name ` set (ms_indexes old) = ix_name ` set (ms_indexes new) \<and>
    fk_field ` set (ms_foreign_keys new) \<subseteq> fk_field ` set (ms_foreign_keys old)"
proof -
  have added: "added_fields old new = [] \<longleftrightarrow>
      dom (map_of (ms_fields new)) \<subseteq> dom (map_of (ms_fields old))"
    unfolding list_Nil_iff added_fields_set [OF assms(2)] by (auto simp: dom_def)
  have removed: "removed_fields old new = [] \<longleftrightarrow>
      dom (map_of (ms_fields old)) \<subseteq> dom (map_of (ms_fields new))"
    unfolding list_Nil_iff removed_fields_set [OF assms(1)] by (auto simp: dom_def)
  have changed: "changed_fields old new = [] \<longleftrightarrow>
      (\<forall>f a b. map_of (ms_fields old) f = Some a \<longrightarrow> map_of (ms_fields new) f = Some b \<longrightarrow>
         detect_constraint_changes (ms_model_name new) f a b = [])"
    unfolding list_Nil_iff changed_fields_set [OF assms(2)] by blast
  have both: "B \<subseteq> A \<and> A \<subseteq> B \<and> R \<longleftrightarrow> A = B \<and> R" for A B :: "string set" and R by blast
  show ?thesis
    unfolding detect_changes_def append_is_Nil_conv added removed changed both
      detect_constraint_changes_Nil detect_index_changes_Nil detect_foreign_key_changes_Nil ..
qed

text \<open>Every change asks for consensus exactly when its strategy is not additive.\<close>

lemma constraint_change_consensus:
  "c \<in> set (detect_constraint_changes m f a b) \<Longrightarrow>
   dc_requires_consensus c \<longleftrightarrow> dc_strategy c \<noteq> Additive"
  by (auto simp: detect_constraint_changes_def constraint_change_def split: if_splits)

lemma change_consensus:
  assumes "dict_ok (ms_fields old)" and "dict_ok (ms_fields new)"
    and "c \<in> set (detect_changes old new)"
  shows "dc_requires_consensus c \<longleftrightarrow> dc_strategy c \<noteq> Additive"
proof -
  have "dc_requires_consensus c \<longleftrightarrow> dc_strategy c \<noteq> Additive"
    if "c \<in> set (detect_index_changes old new) \<or> c \<in> set (detect_foreign_key_changes old new)"
    using that
    by (auto simp: detect_index_changes_def detect_foreign_key_changes_def change_defs
        split: if_splits)
  moreover have "dc_requires_consensus (add_field_change m f x) \<longleftrightarrow>
      dc_strategy (add_field_change m f x) \<noteq> Additive" for m f x
    by (simp add: add_field_change_def determine_migration_strategy_for_add_def
        requires_consensus_for_add_def)
  moreover have "dc_requires_consensus (remove_field_change m f x) \<longleftrightarrow>
      dc_strategy (remove_field_change m f x) \<noteq> Additive" for m f x
    by (simp add: remove_field_change_def)
  ultimately show ?thesis
    using assms(3) constraint_change_consensus unfolding detect_changes_set [OF assms(1,2)] by metis
qed

section \<open>Properties\<close>

text \<open>
  What the detector sees, and what it misses: no change is reported exactly when both
  specifications have the same field names, each common field has the same type, retention,
  permissions and index flag, the index names agree and no foreign key field is new. So a field
  that becomes mandatory or unique, an index with other columns, and a foreign key that is
  dropped or points elsewhere all go unnoticed.
\<close>

theorem detector_misses_changes:
  assumes "dict_ok (ms_fields old)" and "dict_ok (ms_fields new)"
  shows "(detect_changes old new = [] \<longleftrightarrow>
      dom (map_of (ms_fields old)) = dom (map_of (ms_fields new)) \<and>
      (\<forall>f a b. map_of (ms_fields old) f = Some a \<longrightarrow> map_of (ms_fields new) f = Some b \<longrightarrow>
         same_shape a b) \<and>
      ix_name ` set (ms_indexes old) = ix_name ` set (ms_indexes new) \<and>
      fk_field ` set (ms_foreign_keys new) \<subseteq> fk_field ` set (ms_foreign_keys old)) \<and>
    detect_changes old (old\<lparr>ms_foreign_keys := [], ms_fields :=
      map (\<lambda>(f, c). (f, c\<lparr>fc_nullable := False, fc_unique := True\<rparr>)) (ms_fields old)\<rparr>) = []"
proof
  let ?new = "old\<lparr>ms_foreign_keys := [], ms_fields :=
    map (\<lambda>(f, c). (f, c\<lparr>fc_nullable := False, fc_unique := True\<rparr>)) (ms_fields old)\<rparr>"
  have "dict_ok (ms_fields ?new)" using assms(1) by simp
  moreover have "map_of (ms_fields ?new) f =
      map_option (\<lambda>c. c\<lparr>fc_nullable := False, fc_unique := True\<rparr>) (map_of (ms_fields old) f)" for f
    by (simp add: dict_simps)
  ultimately show "detect_changes old ?new = []"
    unfolding detect_changes_Nil [OF assms(1) \<open>dict_ok (ms_fields ?new)\<close>]
    by (auto simp: dom_def same_shape_def)
qed (rule detect_changes_Nil [OF assms])

definition plain_field :: field_constraints where
  "plain_field =
     \<lparr>fc_primary_key = False, fc_unique = False, fc_indexed = False, fc_foreign_key = None,
      fc_nullable = True, fc_immutable = False, fc_audited = False, fc_versioned = 0,
      fc_retention = 0, fc_snapshot_only = False, fc_validation_rules = [],
      fc_permissions = \<lparr>fp_read_permission = None, fp_write_permission = None,
        fp_owner_field = False\<rparr>,
      fc_default_value = None, fc_field_type = Some ''String''\<rparr>"

definition product_spec :: model_spec where
  "product_spec =
     \<lparr>ms_model_name = ''Product'', ms_version = 1, ms_fields = [(''name'', plain_field)],
      ms_indexes = [],
      ms_foreign_keys = [\<lparr>fk_field = ''owner'', fk_references_table = ''User'',
        fk_references_field = ''id''\<rparr>]\<rparr>"

lemma detector_misses_changes_witness:
  "detect_changes product_spec (product_spec\<lparr>ms_foreign_keys := [], ms_fields :=
     [(''name'', plain_field\<lparr>fc_nullable := False, fc_unique := True\<rparr>)]\<rparr>) = [] \<and>
   detect_changes product_spec (product_spec\<lparr>ms_fields := []\<rparr>) \<noteq> []"
proof
  have ok: "dict_ok (ms_fields product_spec)" "dict_ok (ms_fields (product_spec\<lparr>ms_fields := []\<rparr>))"
    by (simp_all add: product_spec_def dict_ok_def)
  show "detect_changes product_spec (product_spec\<lparr>ms_foreign_keys := [], ms_fields :=
     [(''name'', plain_field\<lparr>fc_nullable := False, fc_unique := True\<rparr>)]\<rparr>) = []"
    using detector_misses_changes [OF ok(1) ok(1)] by (simp add: product_spec_def)
  show "detect_changes product_spec (product_spec\<lparr>ms_fields := []\<rparr>) \<noteq> []"
    using detector_misses_changes [OF ok] by (simp add: product_spec_def)
qed

fun opposite :: "schema_change_type \<Rightarrow> schema_change_type" where
  "opposite AddField = RemoveField"
| "opposite RemoveField = AddField"
| "opposite AddIndex = RemoveIndex"
| "opposite RemoveIndex = AddIndex"
| "opposite AddForeignKey = RemoveForeignKey"
| "opposite RemoveForeignKey = AddForeignKey"
| "opposite k = k"

lemma detect_constraint_changes_undo:
  assumes "x \<in> set (detect_constraint_changes m f a b)"
  shows "\<exists>y \<in> set (detect_constraint_changes m f b a).
    dc_change_type y = opposite (dc_change_type x) \<and> dc_field_name y = dc_field_name x \<and>
    dc_migration_sql y = dc_rollback_sql x \<and> dc_rollback_sql y = dc_migration_sql x"
  using assms
  by (auto simp: detect_constraint_changes_def constraint_change_def split: if_splits)

lemma detect_index_changes_undo:
  assumes "x \<in> set (detect_index_changes old new)" and "ms_model_name old = ms_model_name new"
  shows "\<exists>y \<in> set (detect_index_changes new old).
    dc_change_type y = opposite (dc_change_type x) \<and> dc_field_name y = dc_field_name x \<and>
    dc_migration_sql y = dc_rollback_sql x \<and> dc_rollback_sql y = dc_migration_sql x"
proof -
  from assms(1) consider
    i where "i \<in> set (ms_indexes new)" "\<not> list_ex (\<lambda>x. ix_name x = ix_name i) (ms_indexes old)"
      "x = add_index_change (ms_model_name new) i"
  | i where "i \<in> set (ms_indexes old)" "\<not> list_ex (\<lambda>x. ix_name x = ix_name i) (ms_indexes new)"
      "x = remove_index_change (ms_model_name new) i"
    by (auto simp: detect_index_changes_def split: if_splits)
  then show ?thesis
  proof cases
    case 1
    then have "remove_index_change (ms_model_name old) i \<in> set (detect_index_changes new old)"
      by (auto simp: detect_index_changes_def)
    with 1(3) assms(2) show ?thesis
      by (intro bexI [of _ "remove_index_change (ms_model_name old) i"]) (simp_all add: change_defs)
  next
    case 2
    then have "add_index_change (ms_model_name old) i \<in> set (detect_index_changes new old)"
      by (auto simp: detect_index_changes_def)
    with 2(3) assms(2) show ?thesis
      by (intro bexI [of _ "add_index_change (ms_model_name old) i"]) (simp_all add: change_defs)
  qed
qed

text \<open>
  A migration can be undone: for every change between two specifications of a model, except
  for a new foreign key, the detector run the other way round reports a change of the opposite
  kind whose migration statement is the first one's rollback statement and conversely.
\<close>

theorem migration_undone:
  assumes "dict_ok (ms_fields old)" and "dict_ok (ms_fields new)"
    and "ms_model_name old = ms_model_name new"
    and "x \<in> set (detect_changes old new)" and "dc_change_type x \<noteq> AddForeignKey"
  shows "\<exists>y \<in> set (detect_changes new old).
    dc_change_type y = opposite (dc_change_type x) \<and> dc_field_name y = dc_field_name x \<and>
    dc_migration_sql y = dc_rollback_sql x \<and> dc_rollback_sql y = dc_migration_sql x"
proof -
  note rev_set = detect_changes_set [OF assms(2,1)]
  have "x \<notin> set (detect_foreign_key_changes old new)"
    using assms(5) by (auto simp: detect_foreign_key_changes_def add_foreign_key_change_def)
  with assms(4) consider
    f c where "map_of (ms_fields new) f = Some c" "map_of (ms_fields old) f = None"
      "x = add_field_change (ms_model_name new) f c"
  | f c where "map_of (ms_fields old) f = Some c" "map_of (ms_fields new) f = None"
      "x = remove_field_change (ms_model_name new) f c"
  | f a b where "map_of (ms_fields old) f = Some a" "map_of (ms_fields new) f = Some b"
      "x \<in> set (detect_constraint_changes (ms_model_name new) f a b)"
  | "x \<in> set (detect_index_changes old new)"
    unfolding detect_changes_set [OF assms(1,2)] by blast
  then show ?thesis
  proof cases
    case 1
    then have "remove_field_change (ms_model_name old) f c \<in> set (detect_changes new old)"
      unfolding rev_set by blast
    with 1(3) show ?thesis
      by (intro bexI [of _ "remove_field_change (ms_model_name old) f c"]) (simp_all add: change_defs)
  next
    case 2
    then have "add_field_change (ms_model_name old) f c \<in> set (detect_changes new old)"
      unfolding rev_set by blast
    with 2(3) show ?thesis
      by (intro bexI [of _ "add_field_change (ms_model_name old) f c"]) (simp_all add: change_defs)
  next
    case 3
    from detect_constraint_changes_undo [OF 3(3)] obtain y where
      y: "y \<in> set (detect_constraint_changes (ms_model_name new) f b a)"
      "dc_change_type y = opposite (dc_change_type x) \<and> dc_field_name y = dc_field_name x \<and>
       dc_migration_sql y = dc_rollback_sql x \<and> dc_rollback_sql y = dc_migration_sql x" by blast
    from 3(1,2) y(1) have "y \<in> set (detect_changes new old)"
      unfolding rev_set assms(3) by blast
    with y(2) show ?thesis by blast
  next
    case 4
    moreover have "set (detect_index_changes new old) \<subseteq> set (detect_changes new old)"
      by (auto simp: detect_changes_def)
    ultimately show ?thesis
      using detect_index_changes_undo [OF 4 assms(3)] by blast
  qed
qed

lemma migration_undone_witness:
  "\<exists>y \<in> set (detect_changes product_spec (product_spec\<lparr>ms_fields := []\<rparr>)).
     dc_change_type y = RemoveField \<and>
     dc_migration_sql y = Some ''ALTER TABLE DROP COLUMN name''"
proof -
  let ?x = "add_field_change ''Product'' ''name'' plain_field"
  have ok: "dict_ok (ms_fields (product_spec\<lparr>ms_fields := []\<rparr>))" "dict_ok (ms_fields product_spec)"
    "ms_model_name (product_spec\<lparr>ms_fields := []\<rparr>) = ms_model_name product_spec"
    "?x \<in> set (detect_changes (product_spec\<lparr>ms_fields := []\<rparr>) product_spec)"
    "dc_change_type ?x \<noteq> AddForeignKey"
    by (simp_all add: product_spec_def dict_ok_def detect_changes_def added_fields_def
        add_field_change_def)
  show ?thesis
    using migration_undone [OF ok]
    by (auto simp: change_defs generate_remove_field_sql_def)
qed

end
