(* ===== verification/SchemaSync.thy ===== *)
theory SchemaSync
  imports SchemaDetect
begin

text \<open>
  Schema synchronisation, from \<^verbatim>\<open>lithair-core/src/schema/sync.rs\<close>: the vote policy, a pending
  change with its votes, the migration lock and the state that a node keeps; and the files in
  which specifications, history and lock are stored (\<^verbatim>\<open>lithair-core/src/schema/mod.rs\<close>). The
  clock is the argument \<open>now\<close>, in milliseconds; a duration is a number of milliseconds. JSON is a
  parameter, the record \<open>schema_json\<close>.
\<close>

section \<open>Strategies and policies\<close>

text \<open>The strategies ordered by how much they restrict a migration.\<close>

fun severity :: "migration_strategy \<Rightarrow> nat" where
  "severity Additive = 0"
| "severity Versioned = 1"
| "severity Breaking = 2"

instantiation migration_strategy :: linorder
begin

definition less_eq_migration_strategy :: "migration_strategy \<Rightarrow> migration_strategy \<Rightarrow> bool" where
  "less_eq_migration_strategy a b \<longleftrightarrow> severity a \<le> severity b"

definition less_migration_strategy :: "migration_strategy \<Rightarrow> migration_strategy \<Rightarrow> bool" where
  "less_migration_strategy a b \<longleftrightarrow> severity a < severity b"

instance
proof
  fix a b :: migration_strategy
  show "a \<le> b \<Longrightarrow> b \<le> a \<Longrightarrow> a = b"
    by (cases a; cases b) (simp_all add: less_eq_migration_strategy_def)
qed (auto simp: less_eq_migration_strategy_def less_migration_strategy_def)

end

datatype vote_strategy =
  AutoAccept | Reject | Consensus | ManualApproval "nat option" u32

record schema_vote_policy =
  vp_additive :: vote_strategy
  vp_breaking :: vote_strategy
  vp_versioned :: vote_strategy

definition policy_default :: schema_vote_policy where
  "policy_default =
     \<lparr>vp_additive = AutoAccept, vp_breaking = ManualApproval None 1, vp_versioned = Consensus\<rparr>"

definition policy_strict :: schema_vote_policy where
  "policy_strict = \<lparr>vp_additive = AutoAccept, vp_breaking = Reject, vp_versioned = Consensus\<rparr>"

definition policy_permissive :: schema_vote_policy where
  "policy_permissive =
     \<lparr>vp_additive = AutoAccept, vp_breaking = AutoAccept, vp_versioned = AutoAccept\<rparr>"

definition policy_manual :: schema_vote_policy where
  "policy_manual =
     \<lparr>vp_additive = ManualApproval None 1, vp_breaking = ManualApproval None 1,
      vp_versioned = ManualApproval None 1\<rparr>"

fun strategy_for :: "migration_strategy \<Rightarrow> schema_vote_policy \<Rightarrow> vote_strategy" where
  "strategy_for Additive p = vp_additive p"
| "strategy_for Breaking p = vp_breaking p"
| "strategy_for Versioned p = vp_versioned p"

section \<open>A pending change\<close>

datatype change_status = Pending | Approved | Rejected | Applied | Expired

record schema_approval =
  sa_node_id :: u64
  sa_timestamp :: u64

record schema_rejection =
  sr_node_id :: u64
  sr_timestamp :: u64
  sr_reason :: "string option"

record human_approval =
  ha_user_id :: string
  ha_user_name :: "string option"
  ha_timestamp :: u64

record pending_change =
  pc_id :: uuid
  pc_model_name :: string
  pc_proposer_node_id :: u64
  pc_changes :: "detected_change list"
  pc_new_spec :: model_spec
  pc_old_spec :: "model_spec option"
  pc_overall_strategy :: migration_strategy
  pc_status :: change_status
  pc_proposed_at :: u64
  pc_expires_at :: "u64 option"
  pc_approvals :: "schema_approval list"
  pc_rejections :: "schema_rejection list"
  pc_human_approvals :: "human_approval list"
  pc_rejection_reason :: "string option"

fun most_restrictive :: "migration_strategy \<Rightarrow> migration_strategy \<Rightarrow> migration_strategy" where
  "most_restrictive Breaking s = Breaking"
| "most_restrictive acc Breaking = Breaking"
| "most_restrictive Versioned s = Versioned"
| "most_restrictive acc Versioned = Versioned"
| "most_restrictive acc s = Additive"

definition overall_strategy :: "detected_change list \<Rightarrow> migration_strategy" where
  "overall_strategy cs = foldl most_restrictive Additive (map dc_strategy cs)"

definition pending_new ::
  "uuid \<Rightarrow> u64 \<Rightarrow> string \<Rightarrow> u64 \<Rightarrow> detected_change list \<Rightarrow> model_spec \<Rightarrow> model_spec option \<Rightarrow>
   pending_change"
where
  "pending_new i now model node changes new_spec old_spec =
     \<lparr>pc_id = i, pc_model_name = model, pc_proposer_node_id = node, pc_changes = changes,
      pc_new_spec = new_spec, pc_old_spec = old_spec,
      pc_overall_strategy = overall_strategy changes, pc_status = Pending,
      pc_proposed_at = now, pc_expires_at = None, pc_approvals = [], pc_rejections = [],
      pc_human_approvals = [], pc_rejection_reason = None\<rparr>"

definition with_timeout :: "u64 \<Rightarrow> nat \<Rightarrow> pending_change \<Rightarrow> pending_change" where
  "with_timeout now timeout c = c\<lparr>pc_expires_at := Some (now + of_nat timeout)\<rparr>"

definition is_expired :: "u64 \<Rightarrow> pending_change \<Rightarrow> bool" where
  "is_expired now c = (case pc_expires_at c of Some t \<Rightarrow> t \<le> now | None \<Rightarrow> False)"

definition add_approval :: "u64 \<Rightarrow> u64 \<Rightarrow> pending_change \<Rightarrow> pending_change" where
  "add_approval now node c =
     (if \<not> list_ex (\<lambda>a. sa_node_id a = node) (pc_approvals c)
      then c\<lparr>pc_approvals := pc_approvals c @ [\<lparr>sa_node_id = node, sa_timestamp = now\<rparr>]\<rparr>
      else c)"

definition add_rejection :: "u64 \<Rightarrow> u64 \<Rightarrow> string option \<Rightarrow> pending_change \<Rightarrow> pending_change" where
  "add_rejection now node reason c =
     (if \<not> list_ex (\<lambda>r. sr_node_id r = node) (pc_rejections c)
      then
        let c1 = c\<lparr>pc_rejections := pc_rejections c @
                     [\<lparr>sr_node_id = node, sr_timestamp = now, sr_reason = reason\<rparr>]\<rparr>
        in if pc_rejection_reason c1 = None then c1\<lparr>pc_rejection_reason := reason\<rparr> else c1
      else c)"

definition add_human_approval ::
  "u64 \<Rightarrow> string \<Rightarrow> string option \<Rightarrow> pending_change \<Rightarrow> pending_change"
where
  "add_human_approval now user name c =
     (if \<not> list_ex (\<lambda>a. ha_user_id a = user) (pc_human_approvals c)
      then c\<lparr>pc_human_approvals := pc_human_approvals c @
               [\<lparr>ha_user_id = user, ha_user_name = name, ha_timestamp = now\<rparr>]\<rparr>
      else c)"

definition has_enough_approvals :: "schema_vote_policy \<Rightarrow> nat \<Rightarrow> pending_change \<Rightarrow> bool" where
  "has_enough_approvals policy total_nodes c =
     (case strategy_for (pc_overall_strategy c) policy of
        AutoAccept \<Rightarrow> True
      | Reject \<Rightarrow> False
      | Consensus \<Rightarrow> total_nodes div 2 + 1 \<le> length (pc_approvals c)
      | ManualApproval timeout min_approvers \<Rightarrow>
          unat min_approvers \<le> length (pc_human_approvals c))"

definition should_reject :: "u64 \<Rightarrow> schema_vote_policy \<Rightarrow> nat \<Rightarrow> pending_change \<Rightarrow> bool" where
  "should_reject now policy total_nodes c =
     (case strategy_for (pc_overall_strategy c) policy of
        Reject \<Rightarrow> True
      | Consensus \<Rightarrow> total_nodes div 2 + 1 \<le> length (pc_rejections c)
      | ManualApproval timeout min_approvers \<Rightarrow> timeout \<noteq> None \<and> is_expired now c
      | AutoAccept \<Rightarrow> False)"

section \<open>The lock\<close>

record schema_lock =
  sl_locked :: bool
  sl_reason :: "string option"
  sl_unlock_expires_at :: "u64 option"
  sl_unlocked_by :: "string option"
  sl_unlocked_at :: "u64 option"

definition lock_default :: schema_lock where
  "lock_default =
     \<lparr>sl_locked = False, sl_reason = None, sl_unlock_expires_at = None, sl_unlocked_by = None,
      sl_unlocked_at = None\<rparr>"

definition is_locked :: "u64 \<Rightarrow> schema_lock \<Rightarrow> bool" where
  "is_locked now k =
     (if \<not> sl_locked k
      then (case sl_unlock_expires_at k of Some t \<Rightarrow> t \<le> now | None \<Rightarrow> False)
      else True)"

definition lock_schema :: "string option \<Rightarrow> schema_lock \<Rightarrow> schema_lock" where
  "lock_schema reason k =
     k\<lparr>sl_locked := True, sl_reason := reason, sl_unlock_expires_at := None,
       sl_unlocked_by := None, sl_unlocked_at := None\<rparr>"

definition unlock_schema ::
  "u64 \<Rightarrow> string option \<Rightarrow> u64 option \<Rightarrow> string option \<Rightarrow> schema_lock \<Rightarrow> schema_lock"
where
  "unlock_schema now reason duration_secs unlocked_by k =
     k\<lparr>sl_locked := False, sl_reason := reason, sl_unlocked_by := unlocked_by,
       sl_unlocked_at := Some now,
       sl_unlock_expires_at :=
         (case duration_secs of Some d \<Rightarrow> Some (now + d * 1000) | None \<Rightarrow> None)\<rparr>"

definition remaining_unlock_secs :: "u64 \<Rightarrow> schema_lock \<Rightarrow> u64 option" where
  "remaining_unlock_secs now k =
     (if sl_locked k then None
      else map_option (\<lambda>t. if t \<le> now then 0 else (t - now) div 1000) (sl_unlock_expires_at k))"

section \<open>The state of a node\<close>

record applied_change =
  ac_id :: uuid
  ac_model_name :: string
  ac_changes :: "detected_change list"
  ac_applied_at :: u64
  ac_applied_by_node :: u64

record schema_sync_state =
  ss_schemas :: "(string, model_spec) dict"
  ss_pending_changes :: "(uuid, pending_change) dict"
  ss_policy :: schema_vote_policy
  ss_change_history :: "applied_change list"
  ss_lock_status :: schema_lock

definition state_with_policy :: "schema_vote_policy \<Rightarrow> schema_sync_state" where
  "state_with_policy policy =
     \<lparr>ss_schemas = [], ss_pending_changes = [], ss_policy = policy, ss_change_history = [],
      ss_lock_status = lock_default\<rparr>"

definition pending_for_model :: "string \<Rightarrow> schema_sync_state \<Rightarrow> pending_change list" where
  "pending_for_model model s =
     filter (\<lambda>c. pc_model_name c = model \<and> pc_status c = Pending)
       (map snd (ss_pending_changes s))"

definition all_pending :: "schema_sync_state \<Rightarrow> pending_change list" where
  "all_pending s = filter (\<lambda>c. pc_status c = Pending) (map snd (ss_pending_changes s))"

definition add_pending :: "pending_change \<Rightarrow> schema_sync_state \<Rightarrow> schema_sync_state" where
  "add_pending c s = s\<lparr>ss_pending_changes := AList.update (pc_id c) c (ss_pending_changes s)\<rparr>"

definition update_status :: "uuid \<Rightarrow> change_status \<Rightarrow> schema_sync_state \<Rightarrow> schema_sync_state" where
  "update_status i st s =
     s\<lparr>ss_pending_changes :=
         AList.map_entry i (\<lambda>c. c\<lparr>pc_status := st\<rparr>) (ss_pending_changes s)\<rparr>"

definition apply_change ::
  "u64 \<Rightarrow> uuid \<Rightarrow> u64 \<Rightarrow> schema_sync_state \<Rightarrow> model_spec option \<times> schema_sync_state"
where
  "apply_change now i node s =
     (case map_of (ss_pending_changes s) i of
        None \<Rightarrow> (None, s)
      | Some c \<Rightarrow>
          (Some (pc_new_spec c),
           s\<lparr>ss_pending_changes :=
               AList.map_entry i (\<lambda>c. c\<lparr>pc_status := Applied\<rparr>) (ss_pending_changes s),
             ss_schemas := AList.update (pc_model_name c) (pc_new_spec c) (ss_schemas s),
             ss_change_history := ss_change_history s @
               [\<lparr>ac_id = i, ac_model_name = pc_model_name c, ac_changes = pc_changes c,
                 ac_applied_at = now, ac_applied_by_node = node\<rparr>]\<rparr>))"

definition cleanup_expired :: "u64 \<Rightarrow> schema_sync_state \<Rightarrow> schema_sync_state" where
  "cleanup_expired now s =
     s\<lparr>ss_pending_changes :=
         map (\<lambda>(i, c).
           (i, if pc_status c = Pending \<and> is_expired now c
               then c\<lparr>pc_status := Expired, pc_rejection_reason := Some ''Timeout expired''\<rparr>
               else c)) (ss_pending_changes s)\<rparr>"

section \<open>The files\<close>

text \<open>The files of the directory \<^verbatim>\<open>.schema\<close>, by name.\<close>

type_synonym schema_dir = "(string, string) dict"

record history_data =
  hd_changes :: "applied_change list"
  hd_lock_status :: schema_lock

record schema_json =
  sj_spec_ser :: "model_spec \<Rightarrow> string + string"
  sj_spec_de :: "string \<Rightarrow> string + model_spec"
  sj_history_ser :: "history_data \<Rightarrow> string + string"
  sj_history_de :: "string \<Rightarrow> string + history_data"
  sj_lock_ser :: "schema_lock \<Rightarrow> string + string"
  sj_lock_de :: "string \<Rightarrow> string + schema_lock"

definition spec_file :: "string \<Rightarrow> string" where
  "spec_file model = model @ ''.json''"

definition write_json :: "('a \<Rightarrow> string + string) \<Rightarrow> string \<Rightarrow> 'a \<Rightarrow> schema_dir \<Rightarrow> io_error + schema_dir"
where
  "write_json ser name x fs =
     (case ser x of
        Inl e \<Rightarrow> Inl (InvalidData e)
      | Inr t \<Rightarrow> Inr (AList.update name t fs))"

definition save_schema_spec :: "schema_json \<Rightarrow> model_spec \<Rightarrow> schema_dir \<Rightarrow> io_error + schema_dir" where
  "save_schema_spec J spec fs = write_json (sj_spec_ser J) (spec_file (ms_model_name spec)) spec fs"

definition load_schema_spec :: "schema_json \<Rightarrow> string \<Rightarrow> schema_dir \<Rightarrow> io_error + model_spec option" where
  "load_schema_spec J model fs =
     (case map_of fs (spec_file model) of
        None \<Rightarrow> Inr None
      | Some t \<Rightarrow>
          (case sj_spec_de J t of Inl e \<Rightarrow> Inl (InvalidData e) | Inr spec \<Rightarrow> Inr (Some spec)))"

text \<open>The extension is what follows the last dot of a name that does not start with it.\<close>

definition json_stem :: "string \<Rightarrow> string option" where
  "json_stem name =
     (if 5 < length name \<and> drop (length name - 5) name = ''.json''
      then Some (take (length name - 5) name) else None)"

definition list_stored_schemas :: "schema_dir \<Rightarrow> string list" where
  "list_stored_schemas fs = List.map_filter (\<lambda>(name, t). json_stem name) fs"

definition delete_schema_spec :: "string \<Rightarrow> schema_dir \<Rightarrow> schema_dir" where
  "delete_schema_spec model fs = AList.delete (spec_file model) fs"

definition history_file :: string where "history_file = ''schema_history.json''"
definition lock_file :: string where "lock_file = ''schema_lock.json''"

definition history_default :: history_data where
  "history_default = \<lparr>hd_changes = [], hd_lock_status = lock_default\<rparr>"

definition save_schema_history :: "schema_json \<Rightarrow> history_data \<Rightarrow> schema_dir \<Rightarrow> io_error + schema_dir" where
  "save_schema_history J h fs = write_json (sj_history_ser J) history_file h fs"

definition load_schema_history :: "schema_json \<Rightarrow> schema_dir \<Rightarrow> io_error + history_data" where
  "load_schema_history J fs =
     (case map_of fs history_file of
        None \<Rightarrow> Inr history_default
      | Some t \<Rightarrow> map_sum InvalidData id (sj_history_de J t))"

definition append_schema_history ::
  "schema_json \<Rightarrow> applied_change \<Rightarrow> schema_dir \<Rightarrow> io_error + schema_dir"
where
  "append_schema_history J change fs =
     (case load_schema_history J fs of
        Inl e \<Rightarrow> Inl e
      | Inr h \<Rightarrow> save_schema_history J (h\<lparr>hd_changes := hd_changes h @ [change]\<rparr>) fs)"

definition save_lock_status :: "schema_json \<Rightarrow> schema_lock \<Rightarrow> schema_dir \<Rightarrow> io_error + schema_dir" where
  "save_lock_status J k fs = write_json (sj_lock_ser J) lock_file k fs"

definition load_lock_status :: "schema_json \<Rightarrow> schema_dir \<Rightarrow> io_error + schema_lock" where
  "load_lock_status J fs =
     (case map_of fs lock_file of
        None \<Rightarrow> Inr lock_default
      | Some t \<Rightarrow> map_sum InvalidData id (sj_lock_de J t))"

section \<open>Lemmas\<close>

lemma most_restrictive_max: "most_restrictive a b = max a b"
  by (cases a; cases b) (simp_all add: max_def less_eq_migration_strategy_def)

lemma foldl_most_restrictive: "foldl most_restrictive a ss = foldl max a ss"
  by (induction ss arbitrary: a) (simp_all add: most_restrictive_max)

lemma Additive_least [simp]: "Additive \<le> s"
  by (simp add: less_eq_migration_strategy_def)

lemma overall_strategy_Max: "overall_strategy cs = Max (insert Additive (dc_strategy ` set cs))"
proof -
  have "foldl max a ss = fold max ss a" for a :: migration_strategy and ss
    by (induction ss arbitrary: a) (simp_all add: max.commute)
  then show ?thesis
    using Max.set_eq_fold [of Additive "map dc_strategy cs"]
    by (simp add: overall_strategy_def foldl_most_restrictive)
qed

lemma overall_strategy_Additive:
  "overall_strategy cs = Additive \<longleftrightarrow> (\<forall>c \<in> set cs. dc_strategy c = Additive)"
proof
  assume *: "overall_strategy cs = Additive"
  show "\<forall>c \<in> set cs. dc_strategy c = Additive"
  proof
    fix c
    assume "c \<in> set cs"
    then have "dc_strategy c \<le> overall_strategy cs"
      by (simp add: overall_strategy_Max)
    with * show "dc_strategy c = Additive" by (simp add: order_antisym)
  qed
next
  assume "\<forall>c \<in> set cs. dc_strategy c = Additive"
  then have "insert Additive (dc_strategy ` set cs) = {Additive}" by auto
  then show "overall_strategy cs = Additive" by (simp only: overall_strategy_Max Max_singleton)
qed

text \<open>No node and no person is counted twice on one side.\<close>

definition votes_ok :: "pending_change \<Rightarrow> bool" where
  "votes_ok c \<longleftrightarrow>
     distinct (map sa_node_id (pc_approvals c)) \<and> distinct (map sr_node_id (pc_rejections c)) \<and>
     distinct (map ha_user_id (pc_human_approvals c))"

lemma votes_ok_new [simp]: "votes_ok (pending_new i now m n cs a b)"
  by (simp add: votes_ok_def pending_new_def)

lemma votes_ok_ops [simp]:
  "votes_ok c \<Longrightarrow> votes_ok (add_approval now n c)"
  "votes_ok c \<Longrightarrow> votes_ok (add_rejection now n r c)"
  "votes_ok c \<Longrightarrow> votes_ok (add_human_approval now u m c)"
  by (auto simp: votes_ok_def add_approval_def add_rejection_def add_human_approval_def Let_def
      list_ex_iff)

lemma vote_keeps [simp]:
  "pc_status (add_approval now n c) = pc_status c"
  "pc_status (add_rejection now n r c) = pc_status c"
  "pc_status (add_human_approval now u m c) = pc_status c"
  "pc_overall_strategy (add_approval now n c) = pc_overall_strategy c"
  "pc_overall_strategy (add_rejection now n r c) = pc_overall_strategy c"
  "pc_overall_strategy (add_human_approval now u m c) = pc_overall_strategy c"
  "pc_id (add_approval now n c) = pc_id c"
  "pc_id (add_rejection now n r c) = pc_id c"
  "pc_id (add_human_approval now u m c) = pc_id c"
  "pc_new_spec (add_approval now n c) = pc_new_spec c"
  "pc_new_spec (add_rejection now n r c) = pc_new_spec c"
  "pc_new_spec (add_human_approval now u m c) = pc_new_spec c"
  "pc_model_name (add_approval now n c) = pc_model_name c"
  "pc_model_name (add_rejection now n r c) = pc_model_name c"
  "pc_model_name (add_human_approval now u m c) = pc_model_name c"
  "pc_approvals (add_human_approval now u m c) = pc_approvals c"
  by (simp_all add: add_approval_def add_rejection_def add_human_approval_def Let_def)

lemma has_enough_approvals_status [simp]:
  "has_enough_approvals p n (c\<lparr>pc_status := st\<rparr>) = has_enough_approvals p n c"
  by (simp add: has_enough_approvals_def split: vote_strategy.splits)

lemma write_json_other:
  "write_json ser name x fs = Inr fs' \<Longrightarrow> other \<noteq> name \<Longrightarrow> map_of fs' other = map_of fs other"
  by (auto simp: write_json_def dict_simps split: sum.splits)

end
