(* ===== verification/SchemaServer.thy ===== *)
theory SchemaServer
  imports SchemaSync
begin

text \<open>
  The server's side of schema migrations: the validation at startup
  (\<^verbatim>\<open>lithair-core/src/app/mod.rs\<close>) and the handlers of the cluster and of the administration
  (\<^verbatim>\<open>lithair-core/src/app/schema_handlers.rs\<close>). A handler gets its request after parsing, \<open>None\<close>
  when it does not parse, and returns its answer with the new state: what the node keeps in
  memory and the files of its \<^verbatim>\<open>.schema\<close> directory. Fresh identifiers and the clock are
  arguments. The lock of \<^verbatim>\<open>schema_sync_state\<close> makes every handler one step.
\<close>

section \<open>Startup\<close>

datatype migration_mode = Warn | Strict | Auto | Manual

text \<open>The registration of a model: its name and, with an extractor, its current schema.\<close>

record model_info =
  mi_name :: string
  mi_spec :: "model_spec option"

type_synonym schema_node = "schema_sync_state \<times> schema_dir"

definition or_keep :: "'a \<Rightarrow> io_error + 'a \<Rightarrow> 'a" where
  "or_keep old r = (case r of Inl e \<Rightarrow> old | Inr new \<Rightarrow> new)"

definition put_schema :: "string \<Rightarrow> model_spec \<Rightarrow> schema_sync_state \<Rightarrow> schema_sync_state" where
  "put_schema name spec s = s\<lparr>ss_schemas := AList.update name spec (ss_schemas s)\<rparr>"

definition push_history :: "applied_change \<Rightarrow> schema_sync_state \<Rightarrow> schema_sync_state" where
  "push_history a s = s\<lparr>ss_change_history := ss_change_history s @ [a]\<rparr>"

text \<open>\<open>serve\<close> loads the history and the lock; a file that cannot be read is only logged.\<close>

definition load_persisted :: "schema_json \<Rightarrow> schema_node \<Rightarrow> schema_node" where
  "load_persisted J st =
     (let (s, fs) = st;
          s1 = (case load_schema_history J fs of
                  Inl e \<Rightarrow> s
                | Inr h \<Rightarrow> s\<lparr>ss_change_history := hd_changes h\<rparr>);
          s2 = (case load_lock_status J fs of
                  Inl e \<Rightarrow> s1
                | Inr k \<Rightarrow> s1\<lparr>ss_lock_status := k\<rparr>)
      in (s2, fs))"

text \<open>The change of one model in a cluster, decided by the policy.\<close>

definition start_in_cluster ::
  "schema_json \<Rightarrow> u64 \<Rightarrow> uuid \<Rightarrow> uuid \<Rightarrow> u64 \<Rightarrow> string \<Rightarrow> detected_change list \<Rightarrow> model_spec \<Rightarrow>
   model_spec \<Rightarrow> bool \<times> schema_node \<Rightarrow> bool \<times> schema_node"
where
  "start_in_cluster J node i1 i2 now name changes current stored st =
     (let (flag, s, fs) = st;
          pending = pending_new i1 now name node changes current (Some stored)
      in case strategy_for (pc_overall_strategy pending) (ss_policy s) of
           AutoAccept \<Rightarrow>
             (let a = \<lparr>ac_id = i2, ac_model_name = name, ac_changes = changes,
                       ac_applied_at = now, ac_applied_by_node = node\<rparr>;
                  s1 = push_history a (put_schema name current s);
                  fs1 = or_keep fs (append_schema_history J a fs);
                  fs2 = or_keep fs1 (save_schema_spec J current fs1)
              in (flag, s1, fs2))
         | Reject \<Rightarrow> (True, s, fs)
         | _ \<Rightarrow> (flag, add_pending pending s, fs))"

text \<open>The change of one model on a single node, decided by the migration mode.\<close>

definition start_alone ::
  "schema_json \<Rightarrow> migration_mode \<Rightarrow> u64 \<Rightarrow> uuid \<Rightarrow> uuid \<Rightarrow> u64 \<Rightarrow> string \<Rightarrow> detected_change list \<Rightarrow>
   model_spec \<Rightarrow> model_spec \<Rightarrow> bool \<times> schema_node \<Rightarrow> bool \<times> schema_node"
where
  "start_alone J mode node i1 i2 now name changes current stored st =
     (let (flag, s, fs) = st
      in case mode of
           Strict \<Rightarrow> st
         | Auto \<Rightarrow>
             (case save_schema_spec J current fs of
                Inl e \<Rightarrow> st
              | Inr fs1 \<Rightarrow>
                  (let a = \<lparr>ac_id = i2, ac_model_name = name, ac_changes = changes,
                            ac_applied_at = now, ac_applied_by_node = node\<rparr>
                   in (flag, push_history a s, or_keep fs1 (append_schema_history J a fs1))))
         | Manual \<Rightarrow>
             (flag, add_pending (pending_new i1 now name node changes current (Some stored)) s, fs)
         | Warn \<Rightarrow> st)"

text \<open>One turn of the loop of \<open>validate_schemas\<close>.\<close>

definition validate_model ::
  "schema_json \<Rightarrow> migration_mode \<Rightarrow> bool \<Rightarrow> u64 \<Rightarrow> uuid \<times> uuid \<times> u64 \<Rightarrow> model_info \<Rightarrow>
   bool \<times> schema_node \<Rightarrow> bool \<times> schema_node"
where
  "validate_model J mode is_cluster node env info st =
     (let (i1, i2, now) = env; (flag, s, fs) = st; name = mi_name info
      in case mi_spec info of
           None \<Rightarrow> st
         | Some current \<Rightarrow>
             (case or_keep None (load_schema_spec J name fs) of
                Some stored \<Rightarrow>
                  (let changes = detect_changes stored current
                   in if changes = []
                      then (flag, if is_cluster then put_schema name current s else s, fs)
                      else if is_locked now (ss_lock_status s) then (True, s, fs)
                      else
                        let flag' = (flag \<or> list_ex dc_requires_consensus changes)
                        in if is_cluster
                           then start_in_cluster J node i1 i2 now name changes current stored
                                  (flag', s, fs)
                           else start_alone J mode node i1 i2 now name changes current stored
                                  (flag', s, fs))
              | None \<Rightarrow>
                  (flag, if is_cluster then put_schema name current s else s,
                   or_keep fs (save_schema_spec J current fs))))"

definition validate_models ::
  "schema_json \<Rightarrow> migration_mode \<Rightarrow> bool \<Rightarrow> u64 \<Rightarrow> ((uuid \<times> uuid \<times> u64) \<times> model_info) list \<Rightarrow>
   bool \<times> schema_node \<Rightarrow> bool \<times> schema_node"
where
  "validate_models J mode is_cluster node turns st =
     foldl (\<lambda>st (env, info). validate_model J mode is_cluster node env info st) st turns"

text \<open>\<open>False\<close> is the error that aborts the start.\<close>

definition validate_schemas ::
  "schema_json \<Rightarrow> migration_mode \<Rightarrow> string list \<Rightarrow> u64 option \<Rightarrow>
   ((uuid \<times> uuid \<times> u64) \<times> model_info) list \<Rightarrow> schema_node \<Rightarrow> bool \<times> schema_node"
where
  "validate_schemas J mode peers node_id turns st =
     (let (flag, st') = validate_models J mode (peers \<noteq> [])
                          (case node_id of None \<Rightarrow> 0 | Some n \<Rightarrow> n) turns (False, st)
      in (\<not> (mode = Strict \<and> flag), st'))"

section \<open>Cluster handlers\<close>

datatype schema_answer =
    BadRequest
  | ChangeNotFound
  | NoLongerPending change_status
  | ProposalAccepted uuid
  | ProposalRejected uuid migration_strategy
  | ProposalPending uuid vote_strategy
  | VoteCounted change_status nat nat
  | ChangeApplied uuid string
  | ApprovalRecorded uuid nat
  | ChangeRejected uuid "string option"
  | RolledBackTo string uuid u32
  | PreviousMissing
  | SaveFailed io_error
  | LockChanged bool "u64 option"

definition handle_schema_propose ::
  "u64 \<Rightarrow> pending_change option \<Rightarrow> schema_node \<Rightarrow> schema_answer \<times> schema_node"
where
  "handle_schema_propose now req st =
     (let (s, fs) = st
      in case req of
           None \<Rightarrow> (BadRequest, st)
         | Some c \<Rightarrow>
             (case strategy_for (pc_overall_strategy c) (ss_policy s) of
                AutoAccept \<Rightarrow>
                  (ProposalAccepted (pc_id c), put_schema (pc_model_name c) (pc_new_spec c) s, fs)
              | Reject \<Rightarrow> (ProposalRejected (pc_id c) (pc_overall_strategy c), st)
              | Consensus \<Rightarrow> (ProposalPending (pc_id c) Consensus, add_pending c s, fs)
              | ManualApproval timeout m \<Rightarrow>
                  (ProposalPending (pc_id c) (ManualApproval timeout m),
                   add_pending (case timeout of Some d \<Rightarrow> with_timeout now d c | None \<Rightarrow> c) s, fs)))"

record vote_request =
  vr_change_id :: uuid
  vr_node_id :: u64
  vr_approve :: bool
  vr_reason :: "string option"

definition put_pending :: "uuid \<Rightarrow> pending_change \<Rightarrow> schema_sync_state \<Rightarrow> schema_sync_state" where
  "put_pending i c s = s\<lparr>ss_pending_changes := AList.update i c (ss_pending_changes s)\<rparr>"

definition count_vote :: "u64 \<Rightarrow> vote_request \<Rightarrow> pending_change \<Rightarrow> pending_change" where
  "count_vote now v c =
     (if vr_approve v then add_approval now (vr_node_id v) c
      else add_rejection now (vr_node_id v) (vr_reason v) c)"

definition handle_schema_vote ::
  "u64 \<Rightarrow> string list \<Rightarrow> vote_request option \<Rightarrow> schema_node \<Rightarrow> schema_answer \<times> schema_node"
where
  "handle_schema_vote now peers req st =
     (let (s, fs) = st
      in case req of
           None \<Rightarrow> (BadRequest, st)
         | Some v \<Rightarrow>
             (case map_of (ss_pending_changes s) (vr_change_id v) of
                None \<Rightarrow> (ChangeNotFound, st)
              | Some c \<Rightarrow>
                  if pc_status c \<noteq> Pending then (NoLongerPending (pc_status c), st)
                  else
                    let total_nodes = length peers + 1;
                        c1 = count_vote now v c;
                        enough = has_enough_approvals (ss_policy s) total_nodes c1;
                        c2 = (if enough then c1\<lparr>pc_status := Applied\<rparr>
                              else if should_reject now (ss_policy s) total_nodes c1
                              then c1\<lparr>pc_status := Rejected\<rparr> else c1);
                        s1 = put_pending (vr_change_id v) c2 s;
                        s2 = (if enough then put_schema (pc_model_name c1) (pc_new_spec c1) s1 else s1)
                    in (VoteCounted (pc_status c2) (length (pc_approvals c2)) (length (pc_rejections c2)),
                        s2, fs)))"

datatype current_answer =
    OneModel string "model_spec option" "pending_change list"
  | WholeState schema_sync_state

definition handle_schema_current :: "string option \<Rightarrow> schema_node \<Rightarrow> current_answer" where
  "handle_schema_current model st =
     (case model of
        Some m \<Rightarrow> OneModel m (map_of (ss_schemas (fst st)) m) (pending_for_model m (fst st))
      | None \<Rightarrow> WholeState (fst st))"

section \<open>Administration handlers\<close>

definition extract_approver_info ::
  "string option \<Rightarrow> string option \<Rightarrow> string \<times> string option"
where
  "extract_approver_info user_id user_name =
     (case user_id of
        Some u \<Rightarrow> (u, user_name)
      | None \<Rightarrow> (''admin'', Some ''Administrator''))"

definition handle_admin_schema_approve ::
  "schema_json \<Rightarrow> u64 \<Rightarrow> string list \<Rightarrow> string \<times> string option \<Rightarrow> uuid option \<Rightarrow> schema_node \<Rightarrow>
   schema_answer \<times> schema_node"
where
  "handle_admin_schema_approve J now peers user path_id st =
     (let (s, fs) = st
      in case path_id of
           None \<Rightarrow> (BadRequest, st)
         | Some i \<Rightarrow>
             (case map_of (ss_pending_changes s) i of
                None \<Rightarrow> (ChangeNotFound, st)
              | Some c \<Rightarrow>
                  if pc_status c \<noteq> Pending then (NoLongerPending (pc_status c), st)
                  else
                    let c1 = add_human_approval now (fst user) (snd user) c
                    in if has_enough_approvals (ss_policy s) (length peers + 1) c1
                       then
                         (ChangeApplied i (pc_model_name c1),
                          put_schema (pc_model_name c1) (pc_new_spec c1)
                            (put_pending i (c1\<lparr>pc_status := Applied\<rparr>) s),
                          or_keep fs (save_schema_spec J (pc_new_spec c1) fs))
                       else
                         (ApprovalRecorded i (length (pc_human_approvals c1)),
                          put_pending i c1 s, fs)))"

definition handle_admin_schema_reject ::
  "string option \<Rightarrow> uuid option \<Rightarrow> schema_node \<Rightarrow> schema_answer \<times> schema_node"
where
  "handle_admin_schema_reject reason path_id st =
     (let (s, fs) = st
      in case path_id of
           None \<Rightarrow> (BadRequest, st)
         | Some i \<Rightarrow>
             (case map_of (ss_pending_changes s) i of
                None \<Rightarrow> (ChangeNotFound, st)
              | Some c \<Rightarrow>
                  if pc_status c \<noteq> Pending then (NoLongerPending (pc_status c), st)
                  else (ChangeRejected i reason,
                        put_pending i (c\<lparr>pc_status := Rejected, pc_rejection_reason := reason\<rparr>) s,
                        fs)))"

definition handle_admin_schema_rollback ::
  "schema_json \<Rightarrow> uuid option \<Rightarrow> schema_node \<Rightarrow> schema_answer \<times> schema_node"
where
  "handle_admin_schema_rollback J path_id st =
     (let (s, fs) = st
      in case path_id of
           None \<Rightarrow> (BadRequest, st)
         | Some i \<Rightarrow>
             (case find (\<lambda>a. ac_id a = i) (ss_change_history s) of
                None \<Rightarrow> (ChangeNotFound, st)
              | Some a \<Rightarrow>
                  (case Option.bind (map_of (ss_pending_changes s) i) pc_old_spec of
                     None \<Rightarrow> (PreviousMissing, st)
                   | Some previous \<Rightarrow>
                       (case save_schema_spec J previous fs of
                          Inl e \<Rightarrow> (SaveFailed e, st)
                        | Inr fs1 \<Rightarrow>
                            (RolledBackTo (ac_model_name a) i (ms_version previous),
                             put_schema (ac_model_name a) previous s, fs1)))))"

definition handle_admin_schema_lock ::
  "schema_json \<Rightarrow> string option \<Rightarrow> schema_node \<Rightarrow> schema_answer \<times> schema_node"
where
  "handle_admin_schema_lock J reason st =
     (let (s, fs) = st; k = lock_schema reason (ss_lock_status s)
      in (LockChanged True None, s\<lparr>ss_lock_status := k\<rparr>, or_keep fs (save_lock_status J k fs)))"

definition handle_admin_schema_unlock ::
  "schema_json \<Rightarrow> u64 \<Rightarrow> string option \<Rightarrow> u64 option \<Rightarrow> string option \<Rightarrow> schema_node \<Rightarrow>
   schema_answer \<times> schema_node"
where
  "handle_admin_schema_unlock J now reason duration_secs unlocked_by st =
     (let (s, fs) = st; k = unlock_schema now reason duration_secs unlocked_by (ss_lock_status s)
      in (LockChanged False (sl_unlock_expires_at k), s\<lparr>ss_lock_status := k\<rparr>,
          or_keep fs (save_lock_status J k fs)))"

definition handle_admin_schema_lock_status ::
  "u64 \<Rightarrow> schema_node \<Rightarrow> bool \<times> string option \<times> string option \<times> u64 option \<times> u64 option \<times> u64 option"
where
  "handle_admin_schema_lock_status now st =
     (let k = ss_lock_status (fst st)
      in (is_locked now k, sl_reason k, sl_unlocked_by k, sl_unlocked_at k,
          remaining_unlock_secs now k, sl_unlock_expires_at k))"

text \<open>\<open>diff\<close> compares without changing anything.\<close>

datatype model_diff = InSync u32 u32 | Changed u32 u32 "detected_change list" | NewModel u32

definition diff_model :: "schema_json \<Rightarrow> schema_dir \<Rightarrow> string \<times> model_spec \<Rightarrow> string \<times> model_diff" where
  "diff_model J fs m =
     (let (name, current) = m
      in (name,
          case or_keep None (load_schema_spec J name fs) of
            Some stored \<Rightarrow>
              (let changes = detect_changes stored current
               in if changes = [] then InSync (ms_version stored) (ms_version current)
                  else Changed (ms_version stored) (ms_version current) changes)
          | None \<Rightarrow> NewModel (ms_version current)))"

definition handle_admin_schema_diff ::
  "schema_json \<Rightarrow> (string \<times> model_spec) list \<Rightarrow> schema_node \<Rightarrow> bool \<times> (string \<times> model_diff) list"
where
  "handle_admin_schema_diff J models st =
     (let diffs = map (diff_model J (snd st)) models
      in (list_ex (\<lambda>(name, d). case d of InSync a b \<Rightarrow> False | _ \<Rightarrow> True) diffs, diffs))"

datatype revalidation = Unchanged u32 | Migrated u32 u32 "detected_change list" | Created

text \<open>One turn of \<open>revalidate\<close>; this handler stamps the history in seconds.\<close>

definition revalidate_model ::
  "schema_json \<Rightarrow> migration_mode \<Rightarrow> uuid \<Rightarrow> u64 \<Rightarrow> string \<times> model_spec \<Rightarrow> schema_node \<Rightarrow>
   (io_error + revalidation) \<times> schema_node"
where
  "revalidate_model J mode i now m st =
     (let (name, current) = m; (s, fs) = st
      in case load_schema_spec J name fs of
           Inl e \<Rightarrow> (Inl e, st)
         | Inr (Some stored) \<Rightarrow>
             (let changes = detect_changes stored current
              in if changes = [] then (Inr (Unchanged (ms_version stored)), st)
                 else
                   let a = \<lparr>ac_id = i, ac_model_name = name, ac_changes = changes,
                            ac_applied_at = now div 1000, ac_applied_by_node = 0\<rparr>;
                       s1 = push_history a s;
                       fs1 = or_keep fs (append_schema_history J a fs)
                   in if mode = Auto
                      then
                        let new_spec = current\<lparr>ms_version := ms_version stored + 1\<rparr>
                        in case save_schema_spec J new_spec fs1 of
                             Inl e \<Rightarrow> (Inl e, s1, fs1)
                           | Inr fs2 \<Rightarrow>
                               (Inr (Migrated (ms_version stored) (ms_version new_spec) changes), s1, fs2)
                      else (Inr (Migrated (ms_version stored) (ms_version stored) changes), s1, fs1))
         | Inr None \<Rightarrow>
             (case save_schema_spec J current fs of
                Inl e \<Rightarrow> (Inl e, st)
              | Inr fs1 \<Rightarrow> (Inr Created, s, fs1)))"

fun revalidate_models ::
  "schema_json \<Rightarrow> migration_mode \<Rightarrow> (uuid \<times> u64 \<times> string \<times> model_spec) list \<Rightarrow> schema_node \<Rightarrow>
   (io_error + revalidation list) \<times> schema_node"
where
  "revalidate_models J mode [] st = (Inr [], st)"
| "revalidate_models J mode ((i, now, m) # ms) st =
     (case revalidate_model J mode i now m st of
        (Inl e, st1) \<Rightarrow> (Inl e, st1)
      | (Inr r, st1) \<Rightarrow>
          (case revalidate_models J mode ms st1 of
             (Inl e, st2) \<Rightarrow> (Inl e, st2)
           | (Inr rs, st2) \<Rightarrow> (Inr (r # rs), st2)))"

datatype revalidate_answer = Blocked | Failed io_error | Results "revalidation list"

definition handle_admin_schema_revalidate ::
  "schema_json \<Rightarrow> migration_mode \<Rightarrow> u64 \<Rightarrow> (uuid \<times> u64 \<times> string \<times> model_spec) list \<Rightarrow> schema_node \<Rightarrow>
   revalidate_answer \<times> schema_node"
where
  "handle_admin_schema_revalidate J mode now models st =
     (if is_locked now (ss_lock_status (fst st)) then (Blocked, st)
      else case revalidate_models J mode models st of
             (Inl e, st1) \<Rightarrow> (Failed e, st1)
           | (Inr rs, st1) \<Rightarrow> (Results rs, st1))"

section \<open>The node as a state machine\<close>

text \<open>
  The identifiers in use. The node draws its own identifiers at random (\<^verbatim>\<open>Uuid::new_v4\<close>); the
  machine takes these to be fresh. A proposal carries whatever was posted: the handler stores any
  change that parses, with the identifier, the status and the votes of the body. The argument \<open>ok\<close>
  tells which posts are considered: \<open>any_post\<close> for all that the endpoint accepts, \<open>fresh_post\<close> for
  the changes that \<open>pending_new\<close> builds, under an identifier that is not in use.
\<close>

definition used_ids :: "schema_sync_state \<Rightarrow> uuid set" where
  "used_ids s = fst ` set (ss_pending_changes s) \<union> ac_id ` set (ss_change_history s)"

fun turn_ids :: "((uuid \<times> uuid \<times> u64) \<times> model_info) list \<Rightarrow> uuid list" where
  "turn_ids [] = []"
| "turn_ids (((i1, i2, now), info) # turns) = i1 # i2 # turn_ids turns"

definition any_post :: "schema_node \<Rightarrow> pending_change \<Rightarrow> bool" where
  "any_post st c \<longleftrightarrow> True"

definition fresh_post :: "schema_node \<Rightarrow> pending_change \<Rightarrow> bool" where
  "fresh_post st c \<longleftrightarrow> (\<exists>i t model node changes new old.
     c = pending_new i t model node changes new old \<and> i \<notin> used_ids (fst st))"

inductive schema_step ::
  "(schema_node \<Rightarrow> pending_change \<Rightarrow> bool) \<Rightarrow> schema_json \<Rightarrow> string list \<Rightarrow> schema_node \<Rightarrow> schema_node \<Rightarrow> bool"
  for ok J peers
where
  Propose: "(\<And>c. req = Some c \<Longrightarrow> ok st c) \<Longrightarrow>
    schema_step ok J peers st (snd (handle_schema_propose now req st))"
| Vote: "schema_step ok J peers st (snd (handle_schema_vote now peers req st))"
| Approve: "schema_step ok J peers st (snd (handle_admin_schema_approve J now peers user pid st))"
| RejectChange: "schema_step ok J peers st (snd (handle_admin_schema_reject reason pid st))"
| Rollback: "schema_step ok J peers st (snd (handle_admin_schema_rollback J pid st))"
| Lock: "schema_step ok J peers st (snd (handle_admin_schema_lock J reason st))"
| Unlock: "schema_step ok J peers st (snd (handle_admin_schema_unlock J now reason d who st))"
| Revalidate: "distinct (map fst models) \<Longrightarrow> set (map fst models) \<inter> used_ids (fst st) = {} \<Longrightarrow>
    schema_step ok J peers st (snd (handle_admin_schema_revalidate J mode now models st))"

inductive schema_reachable ::
  "(schema_node \<Rightarrow> pending_change \<Rightarrow> bool) \<Rightarrow> schema_json \<Rightarrow> string list \<Rightarrow> schema_vote_policy \<Rightarrow>
   schema_node \<Rightarrow> bool"
  for ok J peers policy
where
  Start: "st0 = load_persisted J (state_with_policy policy, fs) \<Longrightarrow>
    distinct (turn_ids turns) \<Longrightarrow> set (turn_ids turns) \<inter> used_ids (fst st0) = {} \<Longrightarrow>
    schema_reachable ok J peers policy (snd (validate_schemas J mode peers node turns st0))"
| Step: "schema_reachable ok J peers policy st \<Longrightarrow> schema_step ok J peers st st' \<Longrightarrow>
    schema_reachable ok J peers policy st'"

section \<open>The invariant\<close>

definition change_ok :: "schema_vote_policy \<Rightarrow> nat \<Rightarrow> uuid \<times> pending_change \<Rightarrow> bool" where
  "change_ok policy n ic \<longleftrightarrow>
     (let (i, c) = ic
      in pc_id c = i \<and> votes_ok c \<and> pc_status c \<in> {Pending, Applied, Rejected} \<and>
         (pc_status c = Applied \<longrightarrow> has_enough_approvals policy n c))"

definition schema_inv :: "schema_vote_policy \<Rightarrow> nat \<Rightarrow> schema_sync_state \<Rightarrow> bool" where
  "schema_inv policy n s \<longleftrightarrow>
     ss_policy s = policy \<and> (\<forall>ic \<in> set (ss_pending_changes s). change_ok policy n ic) \<and>
     fst ` set (ss_pending_changes s) \<inter> ac_id ` set (ss_change_history s) = {}"

lemma set_update_subset: "set (AList.update k v d) \<subseteq> insert (k, v) (set d)"
  by (induction d) auto

lemma fst_set_update: "fst ` set (AList.update k v d) = insert k (fst ` set d)"
  by (induction d) auto

lemma used_ids_simps [simp]:
  "used_ids (put_schema name spec s) = used_ids s"
  "used_ids (push_history a s) = insert (ac_id a) (used_ids s)"
  "used_ids (s\<lparr>ss_lock_status := k\<rparr>) = used_ids s"
  by (auto simp: used_ids_def put_schema_def push_history_def)

lemma schema_inv_simps [simp]:
  "schema_inv p n (put_schema name spec s) = schema_inv p n s"
  "schema_inv p n (s\<lparr>ss_lock_status := k\<rparr>) = schema_inv p n s"
  by (simp_all add: schema_inv_def put_schema_def)

lemma schema_inv_push [intro]:
  "schema_inv p n s \<Longrightarrow> ac_id a \<notin> used_ids s \<Longrightarrow> schema_inv p n (push_history a s)"
  by (auto simp: schema_inv_def push_history_def used_ids_def)

lemma schema_inv_put:
  assumes "schema_inv p n s" and "change_ok p n (i, c)" and "i \<notin> ac_id ` set (ss_change_history s)"
  shows "schema_inv p n (put_pending i c s)"
  using assms set_update_subset [of i c "ss_pending_changes s"]
  by (auto simp: schema_inv_def put_pending_def fst_set_update)

lemma used_ids_put: "used_ids (put_pending i c s) = insert i (used_ids s)"
  by (auto simp: used_ids_def put_pending_def fst_set_update)

lemma add_pending_put: "add_pending c s = put_pending (pc_id c) c s"
  by (simp add: add_pending_def put_pending_def)

lemma change_ok_new [simp]: "change_ok p n (i, pending_new i t m nd cs a b)"
  by (simp add: change_ok_def) (simp add: pending_new_def)

lemma change_ok_timeout [simp]:
  "change_ok p n (i, with_timeout now d c) = change_ok p n (i, c)"
  by (simp add: change_ok_def with_timeout_def votes_ok_def has_enough_approvals_def
      split: vote_strategy.splits)

lemma pending_new_status: "pc_status (pending_new i t m nd cs a b) = Pending"
  by (simp add: pending_new_def)

lemma pending_new_id [simp]: "pc_id (pending_new i t m nd cs a b) = i"
  by (simp add: pending_new_def)

lemma add_pending_new:
  assumes "schema_inv p n s" and "i \<notin> used_ids s"
  shows "schema_inv p n (add_pending (pending_new i t m nd cs a b) s)"
    and "used_ids (add_pending (pending_new i t m nd cs a b) s) = insert i (used_ids s)"
  using schema_inv_put [OF assms(1), of i "pending_new i t m nd cs a b"] assms(2)
  by (auto simp: add_pending_put used_ids_put) (simp add: used_ids_def)

lemma schema_inv_lookup:
  assumes "schema_inv p n s" and "map_of (ss_pending_changes s) i = Some c"
  shows "change_ok p n (i, c)" "i \<notin> ac_id ` set (ss_change_history s)"
proof -
  from assms(2) have m: "(i, c) \<in> set (ss_pending_changes s)" by (rule map_of_SomeD)
  with assms(1) show "change_ok p n (i, c)" by (auto simp: schema_inv_def)
  from m have "i \<in> fst ` set (ss_pending_changes s)" by force
  with assms(1) show "i \<notin> ac_id ` set (ss_change_history s)" by (auto simp: schema_inv_def)
qed

section \<open>Every step keeps the invariant\<close>

lemma start_in_cluster_inv:
  assumes "schema_inv p n s" and "{i1, i2} \<inter> used_ids s = {}"
    and "start_in_cluster J node i1 i2 now name changes current stored (flag, s, fs) = (flag', s', fs')"
  shows "schema_inv p n s' \<and> used_ids s' \<subseteq> used_ids s \<union> {i1, i2}"
proof -
  from assms(2) have "i1 \<notin> used_ids s" by simp
  note put = add_pending_new [OF assms(1) this]
  have push: "schema_inv p n (push_history a (put_schema name current s))" if "ac_id a = i2" for a
    using assms(1,2) that by (intro schema_inv_push) simp_all
  show ?thesis
    using assms(1,3) put push
    by (auto simp: start_in_cluster_def Let_def split: vote_strategy.splits)
qed

lemma start_alone_inv:
  assumes "schema_inv p n s" and "{i1, i2} \<inter> used_ids s = {}"
    and "start_alone J mode node i1 i2 now name changes current stored (flag, s, fs) = (flag', s', fs')"
  shows "schema_inv p n s' \<and> used_ids s' \<subseteq> used_ids s \<union> {i1, i2}"
proof -
  from assms(2) have "i1 \<notin> used_ids s" by simp
  note put = add_pending_new [OF assms(1) this]
  have push: "schema_inv p n (push_history a s)" if "ac_id a = i2" for a
    using assms(1,2) that by (intro schema_inv_push) simp_all
  show ?thesis
    using assms(1,3) put push
    by (auto simp: start_alone_def Let_def split: migration_mode.splits sum.splits)
qed

lemma validate_model_inv:
  assumes "schema_inv p n s" and "{i1, i2} \<inter> used_ids s = {}"
    and "validate_model J mode cl node (i1, i2, now) info (flag, s, fs) = (flag', s', fs')"
  shows "schema_inv p n s' \<and> used_ids s' \<subseteq> used_ids s \<union> {i1, i2}"
  using assms start_in_cluster_inv [OF assms(1,2)] start_alone_inv [OF assms(1,2)]
  by (auto simp: validate_model_def Let_def split: option.splits if_splits)

lemma validate_models_inv:
  assumes "schema_inv p n s" and "distinct (turn_ids turns)"
    and "set (turn_ids turns) \<inter> used_ids s = {}"
    and "validate_models J mode cl node turns (flag, s, fs) = (flag', s', fs')"
  shows "schema_inv p n s'"
  using assms
proof (induction turns arbitrary: flag s fs rule: turn_ids.induct)
  case 1
  then show ?case by (simp add: validate_models_def)
next
  case (2 i1 i2 now info turns)
  obtain f1 s1 fs1 where v: "validate_model J mode cl node (i1, i2, now) info (flag, s, fs) = (f1, s1, fs1)"
    by (cases "validate_model J mode cl node (i1, i2, now) info (flag, s, fs)") auto
  from validate_model_inv [OF 2(2) _ v] 2(4)
  have one: "schema_inv p n s1" "used_ids s1 \<subseteq> used_ids s \<union> {i1, i2}" by auto
  have "set (turn_ids turns) \<inter> used_ids s1 = {}" using one(2) 2(3,4) by auto
  moreover have "validate_models J mode cl node turns (f1, s1, fs1) = (flag', s', fs')"
    using 2(5) v by (simp add: validate_models_def)
  ultimately show ?case using 2(1) [OF one(1)] 2(3) by simp
qed

lemma load_persisted_inv:
  "schema_inv p n (fst (load_persisted J (state_with_policy p, fs)))"
  by (auto simp: load_persisted_def state_with_policy_def schema_inv_def Let_def
      split: sum.splits)

lemma propose_inv:
  assumes "schema_inv p n s" and "i \<notin> used_ids s"
  shows "schema_inv p n (fst (snd (handle_schema_propose now
    (Some (pending_new i t model node changes new old)) (s, fs))))"
proof -
  let ?c = "pending_new i t model node changes new old"
  have id: "pc_id ?c = i" "pc_id (with_timeout now d ?c) = i" for d
    by (simp_all add: pending_new_def with_timeout_def)
  have "i \<notin> ac_id ` set (ss_change_history s)" using assms(2) by (simp add: used_ids_def)
  then have "schema_inv p n (put_pending i ?c s)" "schema_inv p n (put_pending i (with_timeout now d ?c) s)"
    for d
    using schema_inv_put [OF assms(1), of i] by simp_all
  then show ?thesis
    using assms(1)
    by (auto simp: handle_schema_propose_def add_pending_put id split: vote_strategy.splits option.splits)
qed

lemma propose_request_inv:
  assumes "schema_inv p n (fst st)" and "\<And>c. req = Some c \<Longrightarrow> fresh_post st c"
  shows "schema_inv p n (fst (snd (handle_schema_propose now req st)))"
proof (cases req)
  case None
  with assms(1) show ?thesis by (cases st) (simp add: handle_schema_propose_def)
next
  case (Some c)
  with assms(2) obtain i t model node changes new old where
    "c = pending_new i t model node changes new old" "i \<notin> used_ids (fst st)"
    unfolding fresh_post_def by blast
  with propose_inv [of p n "fst st"] assms(1) Some show ?thesis by (cases st) simp
qed

lemma count_vote_keeps [simp]:
  "pc_status (count_vote now v c) = pc_status c" "pc_id (count_vote now v c) = pc_id c"
  "votes_ok c \<Longrightarrow> votes_ok (count_vote now v c)"
  by (simp_all add: count_vote_def)

lemma votes_ok_status [simp]: "votes_ok (c\<lparr>pc_status := st\<rparr>) = votes_ok c"
  by (simp add: votes_ok_def)

lemma vote_inv:
  assumes "schema_inv p (Suc (length peers)) s"
  shows "schema_inv p (Suc (length peers)) (fst (snd (handle_schema_vote now peers req (s, fs))))"
proof (cases req)
  case None
  with assms show ?thesis by (simp add: handle_schema_vote_def)
next
  case (Some v)
  show ?thesis
  proof (cases "map_of (ss_pending_changes s) (vr_change_id v)")
    case None
    with assms Some show ?thesis by (simp add: handle_schema_vote_def)
  next
    case c: (Some c)
    note look = schema_inv_lookup [OF assms c]
    have pol: "ss_policy s = p" using assms by (simp add: schema_inv_def)
    let ?c1 = "count_vote now v c"
    let ?n = "Suc (length peers)"
    have put: "schema_inv p ?n (put_pending (vr_change_id v) c2 s)" if "change_ok p ?n (vr_change_id v, c2)" for c2
      using schema_inv_put [OF assms that look(2)] .
    have "change_ok p ?n (vr_change_id v, ?c1)" "change_ok p ?n (vr_change_id v, ?c1\<lparr>pc_status := Rejected\<rparr>)"
      if "pc_status c = Pending"
      using look(1) that by (simp_all add: change_ok_def)
    moreover have "change_ok p ?n (vr_change_id v, ?c1\<lparr>pc_status := Applied\<rparr>)"
      if "pc_status c = Pending" "has_enough_approvals p ?n ?c1"
      using look(1) that by (simp add: change_ok_def)
    ultimately show ?thesis
      using assms put by (simp add: handle_schema_vote_def Some c Let_def pol)
  qed
qed

lemma approve_inv:
  assumes "schema_inv p (Suc (length peers)) s"
  shows "schema_inv p (Suc (length peers))
    (fst (snd (handle_admin_schema_approve J now peers user pid (s, fs))))"
proof (cases "Option.bind pid (map_of (ss_pending_changes s))")
  case None
  with assms show ?thesis
    by (cases pid) (simp_all add: handle_admin_schema_approve_def)
next
  case (Some c)
  then obtain i where i: "pid = Some i" and c: "map_of (ss_pending_changes s) i = Some c"
    by (cases pid) auto
  note look = schema_inv_lookup [OF assms c]
  have pol: "ss_policy s = p" using assms by (simp add: schema_inv_def)
  let ?n = "Suc (length peers)" and ?c1 = "add_human_approval now (fst user) (snd user) c"
  have put: "schema_inv p ?n (put_pending i c2 s)" if "change_ok p ?n (i, c2)" for c2
    using schema_inv_put [OF assms that look(2)] .
  have "change_ok p ?n (i, ?c1)" if "pc_status c = Pending"
    using look(1) that by (simp add: change_ok_def)
  moreover have "change_ok p ?n (i, ?c1\<lparr>pc_status := Applied\<rparr>)"
    if "pc_status c = Pending" "has_enough_approvals p ?n ?c1"
    using look(1) that by (simp add: change_ok_def)
  ultimately show ?thesis
    using assms put by (simp add: handle_admin_schema_approve_def i c Let_def pol)
qed

lemma reject_inv:
  assumes "schema_inv p n s"
  shows "schema_inv p n (fst (snd (handle_admin_schema_reject reason pid (s, fs))))"
proof (cases "Option.bind pid (map_of (ss_pending_changes s))")
  case None
  with assms show ?thesis
    by (cases pid) (simp_all add: handle_admin_schema_reject_def)
next
  case (Some c)
  then obtain i where i: "pid = Some i" and c: "map_of (ss_pending_changes s) i = Some c"
    by (cases pid) auto
  note look = schema_inv_lookup [OF assms c]
  have "change_ok p n (i, c\<lparr>pc_status := Rejected, pc_rejection_reason := reason\<rparr>)"
    using look(1) by (simp add: change_ok_def votes_ok_def)
  from schema_inv_put [OF assms this look(2)] assms show ?thesis
    by (simp add: handle_admin_schema_reject_def i c)
qed

lemma find_history: "find (\<lambda>a. ac_id a = i) h = Some a \<Longrightarrow> i \<in> ac_id ` set h"
  using find_Some_in by force

text \<open>In a state of the invariant, a rollback finds no previous schema.\<close>

lemma rollback_fails:
  assumes "schema_inv p n (fst st)"
  shows "handle_admin_schema_rollback J pid st \<in>
    {(BadRequest, st), (ChangeNotFound, st), (PreviousMissing, st)}"
proof -
  obtain s fs where st: "st = (s, fs)" by (cases st)
  show ?thesis
  proof (cases pid)
    case (Some i)
    have "map_of (ss_pending_changes s) i = None" if "find (\<lambda>a. ac_id a = i) (ss_change_history s) = Some a" for a
      using find_history [OF that] assms schema_inv_lookup(2) [of p n s i]
      by (cases "map_of (ss_pending_changes s) i") (auto simp: st)
    then show ?thesis
      by (cases "find (\<lambda>a. ac_id a = i) (ss_change_history s)")
        (simp_all add: handle_admin_schema_rollback_def st Some)
  qed (simp add: handle_admin_schema_rollback_def st)
qed

lemma revalidate_model_inv:
  assumes "schema_inv p n s" and "i \<notin> used_ids s"
    and "revalidate_model J mode i now m (s, fs) = (r, s', fs')"
  shows "schema_inv p n s' \<and> used_ids s' \<subseteq> insert i (used_ids s)"
proof -
  have "schema_inv p n (push_history a s)" if "ac_id a = i" for a
    using assms(1,2) that by (intro schema_inv_push) simp_all
  then show ?thesis
    using assms(1,3)
    by (auto simp: revalidate_model_def Let_def split: prod.splits sum.splits option.splits if_splits)
qed

lemma revalidate_models_inv:
  assumes "schema_inv p n s" and "distinct (map fst models)"
    and "set (map fst models) \<inter> used_ids s = {}"
    and "revalidate_models J mode models (s, fs) = (r, s', fs')"
  shows "schema_inv p n s'"
  using assms
proof (induction models arbitrary: s fs r s' fs')
  case (Cons x models)
  obtain i now m where x: "x = (i, now, m)" by (cases x) auto
  obtain r1 s1 fs1 where v: "revalidate_model J mode i now m (s, fs) = (r1, s1, fs1)"
    by (cases "revalidate_model J mode i now m (s, fs)") auto
  from revalidate_model_inv [OF Cons(2) _ v] Cons(4)
  have one: "schema_inv p n s1" "used_ids s1 \<subseteq> insert i (used_ids s)" by (auto simp: x)
  show ?case
  proof (cases r1)
    case (Inl e)
    with Cons(5) v one(1) show ?thesis by (simp add: x)
  next
    case (Inr y)
    obtain r2 s2 fs2 where w: "revalidate_models J mode models (s1, fs1) = (r2, s2, fs2)"
      by (cases "revalidate_models J mode models (s1, fs1)") auto
    have "set (map fst models) \<inter> used_ids s1 = {}" using one(2) Cons(3,4) by (auto simp: x)
    from Cons(1) [OF one(1) _ this w] Cons(3) have "schema_inv p n s2" by simp
    with Cons(5) v w Inr show ?thesis by (auto simp: x split: sum.splits)
  qed
qed simp

lemma schema_step_inv:
  assumes "schema_step fresh_post J peers st st'" and "schema_inv p (Suc (length peers)) (fst st)"
  shows "schema_inv p (Suc (length peers)) (fst st')"
  using assms
proof cases
  case (Propose req now)
  with assms(2) show ?thesis by (simp add: propose_request_inv)
next
  case (Vote now req)
  with assms(2) show ?thesis by (cases st) (simp add: vote_inv)
next
  case (Approve now user pid)
  with assms(2) show ?thesis by (cases st) (simp add: approve_inv)
next
  case (RejectChange reason pid)
  with assms(2) show ?thesis by (cases st) (simp add: reject_inv)
next
  case (Rollback pid)
  with assms(2) show ?thesis using rollback_fails [OF assms(2), of J pid] by auto
next
  case (Lock reason)
  with assms(2) show ?thesis by (cases st) (simp add: handle_admin_schema_lock_def Let_def)
next
  case (Unlock now reason d who)
  with assms(2) show ?thesis by (cases st) (simp add: handle_admin_schema_unlock_def Let_def)
next
  case (Revalidate models mode now)
  obtain s fs where st: "st = (s, fs)" by (cases st)
  obtain r s1 fs1 where v: "revalidate_models J mode models (s, fs) = (r, s1, fs1)"
    by (cases "revalidate_models J mode models (s, fs)") auto
  from revalidate_models_inv [OF _ Revalidate(2) _ v] assms(2) Revalidate(3)
  have "schema_inv p (Suc (length peers)) s1" by (simp add: st)
  with assms(2) Revalidate(1) v show ?thesis
    by (auto simp: st handle_admin_schema_revalidate_def split: sum.splits)
qed

lemma schema_reachable_inv:
  assumes "schema_reachable fresh_post J peers p st"
  shows "schema_inv p (Suc (length peers)) (fst st)"
  using assms
proof induction
  case (Start st0 fs turns mode node)
  obtain s0 fs0 where st0: "st0 = (s0, fs0)" by (cases st0)
  have "schema_inv p (Suc (length peers)) s0"
    using load_persisted_inv [of p _ J fs] Start(1) st0 by (metis fst_conv)
  moreover obtain flag s1 fs1 where "validate_models J mode (peers \<noteq> [])
      (case node of None \<Rightarrow> 0 | Some n \<Rightarrow> n) turns (False, st0) = (flag, s1, fs1)"
    by (metis prod_cases3)
  ultimately show ?case
    using validate_models_inv [of p _ s0 turns] Start(2,3)
    by (fastforce simp: validate_schemas_def Let_def st0)
next
  case (Step st st')
  from schema_step_inv [OF Step(2,3)] show ?case .
qed

section \<open>Example: three nodes vote on a change\<close>

definition no_json :: schema_json where
  "no_json =
     \<lparr>sj_spec_ser = \<lambda>x. Inl ''disk'', sj_spec_de = \<lambda>t. Inl ''disk'', sj_history_ser = \<lambda>x. Inl ''disk'',
      sj_history_de = \<lambda>t. Inl ''disk'', sj_lock_ser = \<lambda>x. Inl ''disk'', sj_lock_de = \<lambda>t. Inl ''disk''\<rparr>"

definition mandatory_field :: detected_change where
  "mandatory_field = add_field_change ''Product'' ''price'' (plain_field\<lparr>fc_nullable := False\<rparr>)"

definition price_change :: pending_change where
  "price_change = pending_new 7 0 ''Product'' 1 [mandatory_field] product_spec None"

definition proposed_node :: schema_node where
  "proposed_node =
     snd (handle_schema_propose 5 (Some price_change) (state_with_policy policy_default, []))"

definition vote_of :: "u64 \<Rightarrow> vote_request" where
  "vote_of n = \<lparr>vr_change_id = 7, vr_node_id = n, vr_approve = True, vr_reason = None\<rparr>"

definition voted_node :: schema_node where
  "voted_node =
     snd (handle_schema_vote 9 [''b'', ''c''] (Some (vote_of 2))
       (snd (handle_schema_vote 8 [''b'', ''c''] (Some (vote_of 1)) proposed_node)))"

lemma price_change_simps:
  "pc_overall_strategy price_change = Versioned" "pc_status price_change = Pending"
  "pc_approvals price_change = []" "pc_rejections price_change = []" "pc_id price_change = 7"
  "pc_human_approvals price_change = []"
  by (simp_all add: price_change_def pending_new_def overall_strategy_def mandatory_field_def
      add_field_change_def determine_migration_strategy_for_add_def plain_field_def)

lemma proposed_node:
  "proposed_node = (add_pending price_change (state_with_policy policy_default), [])"
  by (simp add: proposed_node_def handle_schema_propose_def price_change_simps policy_default_def
      state_with_policy_def)

lemma proposed_node_reachable: "schema_reachable fresh_post no_json [''b'', ''c''] policy_default proposed_node"
proof -
  let ?st = "(state_with_policy policy_default, [])"
  have load: "load_persisted no_json ?st = ?st"
    by (simp add: load_persisted_def load_schema_history_def load_lock_status_def
        state_with_policy_def history_default_def)
  have "schema_reachable fresh_post no_json [''b'', ''c''] policy_default
      (snd (validate_schemas no_json Warn [''b'', ''c''] None [] ?st))"
    by (rule Start [of _ _ _ "[]" "[]"]) (simp_all add: load)
  then have start: "schema_reachable fresh_post no_json [''b'', ''c''] policy_default ?st"
    by (simp add: validate_schemas_def validate_models_def)
  have "schema_step fresh_post no_json [''b'', ''c''] ?st proposed_node"
    unfolding proposed_node_def price_change_def
    by (rule Propose) (force simp: fresh_post_def used_ids_def state_with_policy_def)
  with start show ?thesis by (rule schema_reachable.Step)
qed

lemma voted_node_reachable: "schema_reachable fresh_post no_json [''b'', ''c''] policy_default voted_node"
  unfolding voted_node_def
  by (intro schema_reachable.Step [OF _ Vote] proposed_node_reachable)

lemma voted_node:
  "\<exists>c. map_of (ss_pending_changes (fst voted_node)) 7 = Some c \<and> pc_status c = Applied \<and>
    pc_overall_strategy c = Versioned \<and> map sa_node_id (pc_approvals c) = [1, 2]"
  by (simp add: voted_node_def proposed_node handle_schema_vote_def add_pending_def
      state_with_policy_def vote_of_def price_change_simps count_vote_def add_approval_def
      has_enough_approvals_def should_reject_def policy_default_def put_pending_def put_schema_def
      Let_def dict_simps)

section \<open>Properties\<close>

text \<open>
  C20. A change is applied only with the votes its policy asks for, as long as what is posted as a
  proposal is a new change without votes under an identifier not in use: in every state
  reachable this way, a
  change that is marked applied was not to be rejected by policy, has the approval of a majority
  of distinct nodes when consensus is required, and that of enough distinct persons when manual
  approval is. The endpoint checks none of this (\<open>posted_change_is_believed\<close>).
\<close>

theorem applied_needs_votes:
  assumes "schema_reachable fresh_post J peers policy (s, fs)"
    and "map_of (ss_pending_changes s) i = Some c" and "pc_status c = Applied"
  shows "case strategy_for (pc_overall_strategy c) policy of
      AutoAccept \<Rightarrow> True
    | Reject \<Rightarrow> False
    | Consensus \<Rightarrow> length peers + 1 < 2 * card (sa_node_id ` set (pc_approvals c))
    | ManualApproval t m \<Rightarrow> unat m \<le> card (ha_user_id ` set (pc_human_approvals c))"
proof -
  have "change_ok policy (Suc (length peers)) (i, c)"
    using schema_inv_lookup(1) [OF _ assms(2)] schema_reachable_inv [OF assms(1)] by simp
  then have votes: "votes_ok c" and enough: "has_enough_approvals policy (Suc (length peers)) c"
    using assms(3) by (simp_all add: change_ok_def)
  have "card (sa_node_id ` set (pc_approvals c)) = length (pc_approvals c)"
    "card (ha_user_id ` set (pc_human_approvals c)) = length (pc_human_approvals c)"
    using votes distinct_card by (fastforce simp: votes_ok_def)+
  then show ?thesis
    using enough by (auto simp: has_enough_approvals_def split: vote_strategy.splits)
qed

lemma applied_needs_votes_witness:
  "\<exists>c. map_of (ss_pending_changes (fst voted_node)) 7 = Some c \<and>
     3 < 2 * card (sa_node_id ` set (pc_approvals c))"
proof -
  from voted_node obtain c where c: "map_of (ss_pending_changes (fst voted_node)) 7 = Some c"
    "pc_status c = Applied" "pc_overall_strategy c = Versioned" by blast
  have "schema_reachable fresh_post no_json [''b'', ''c''] policy_default (fst voted_node, snd voted_node)"
    using voted_node_reachable by simp
  from applied_needs_votes [OF this c(1,2)] c show ?thesis
    by (simp add: policy_default_def)
qed

text \<open>
  A posted change is believed: whenever the policy of its strategy asks for votes, the
  endpoint stores the change as it was posted but for the deadline, so that one posted as applied is applied
  without a vote, also in the place of a change that was rejected.
\<close>

theorem posted_change_is_believed:
  assumes "strategy_for (pc_overall_strategy c) (ss_policy s) \<noteq> AutoAccept"
    and "strategy_for (pc_overall_strategy c) (ss_policy s) \<noteq> Reject"
  shows "schema_step any_post J peers (s, fs) (snd (handle_schema_propose now (Some c) (s, fs))) \<and>
    (\<exists>deadline. map_of (ss_pending_changes (fst (snd (handle_schema_propose now (Some c) (s, fs))))) (pc_id c) =
      Some (c\<lparr>pc_expires_at := deadline\<rparr>))"
proof
  show "schema_step any_post J peers (s, fs) (snd (handle_schema_propose now (Some c) (s, fs)))"
    by (rule Propose) (simp add: any_post_def)
  have same: "c = c\<lparr>pc_expires_at := pc_expires_at c\<rparr>" by simp
  show "\<exists>deadline. map_of (ss_pending_changes (fst (snd (handle_schema_propose now (Some c) (s, fs))))) (pc_id c) =
      Some (c\<lparr>pc_expires_at := deadline\<rparr>)"
  proof (cases "strategy_for (pc_overall_strategy c) (ss_policy s)")
    case Consensus
    then show ?thesis
      using same by (intro exI [of _ "pc_expires_at c"]) (simp add: handle_schema_propose_def add_pending_def dict_simps)
  next
    case (ManualApproval t m)
    show ?thesis
    proof (cases t)
      case None
      with ManualApproval show ?thesis
        using same by (intro exI [of _ "pc_expires_at c"]) (simp add: handle_schema_propose_def add_pending_def dict_simps)
    next
      case (Some d)
      with ManualApproval show ?thesis
        by (intro exI [of _ "Some (now + of_nat d)"])
          (simp add: handle_schema_propose_def add_pending_def dict_simps with_timeout_def)
    qed
  qed (use assms in simp_all)
qed

lemma posted_change_is_believed_witness:
  "\<exists>st c. schema_step any_post no_json [''b'', ''c''] voted_node st \<and>
     map_of (ss_pending_changes (fst st)) 7 = Some c \<and> pc_status c = Applied \<and> pc_approvals c = []"
proof -
  let ?c = "price_change\<lparr>pc_status := Applied\<rparr>"
  obtain s fs where v: "voted_node = (s, fs)" by (cases voted_node)
  have "schema_inv policy_default 3 (fst voted_node)"
    using schema_reachable_inv [OF voted_node_reachable] by (simp add: eval_nat_numeral)
  then have p: "ss_policy s = policy_default" by (simp add: v schema_inv_def)
  have "strategy_for (pc_overall_strategy ?c) (ss_policy s) \<noteq> AutoAccept"
    "strategy_for (pc_overall_strategy ?c) (ss_policy s) \<noteq> Reject"
    by (simp_all add: p price_change_simps policy_default_def)
  from posted_change_is_believed [OF this, of no_json "[''b'', ''c'']" fs 5] obtain deadline where
    step: "schema_step any_post no_json [''b'', ''c''] voted_node (snd (handle_schema_propose 5 (Some ?c) voted_node))"
    and c: "map_of (ss_pending_changes (fst (snd (handle_schema_propose 5 (Some ?c) voted_node)))) (pc_id ?c) =
      Some (?c\<lparr>pc_expires_at := deadline\<rparr>)"
    unfolding v by blast
  have "pc_id ?c = 7" by (simp add: price_change_simps)
  with step c show ?thesis
    by (intro exI [of _ "snd (handle_schema_propose 5 (Some ?c) voted_node)"]
        exI [of _ "?c\<lparr>pc_expires_at := deadline\<rparr>"]) (simp add: price_change_simps)
qed

text \<open>
  No rollback ever succeeds: the identifiers in the history are never those of pending
  changes, from which alone a rollback takes the previous schema, so in every state reached with
  proposals under fresh identifiers
  the request is answered with an error and changes nothing.
\<close>

theorem rollback_never_succeeds:
  assumes "schema_reachable fresh_post J peers policy st"
  shows "snd (handle_admin_schema_rollback J pid st) = st \<and>
    fst (handle_admin_schema_rollback J pid st) \<in> {BadRequest, ChangeNotFound, PreviousMissing}"
  using rollback_fails [OF schema_reachable_inv [OF assms], of J pid] by auto

lemma rollback_never_succeeds_witness:
  "fst (handle_admin_schema_rollback no_json (Some 7) voted_node)
     \<in> {BadRequest, ChangeNotFound, PreviousMissing}"
  using rollback_never_succeeds [OF voted_node_reachable, of "Some 7"] by simp

lemma update_other: "k \<noteq> i \<Longrightarrow> map_of (AList.update k v d) i = map_of d i"
  by (simp add: map_of_update)

lemma decided_kept_put:
  "map_of (ss_pending_changes s) i = Some c \<Longrightarrow> k \<noteq> i \<Longrightarrow>
   map_of (ss_pending_changes (put_pending k c' s)) i = Some c"
  by (simp add: put_pending_def update_other)

lemma pending_put_schema [simp]:
  "ss_pending_changes (put_schema n sp s) = ss_pending_changes s"
  "ss_pending_changes (push_history a s) = ss_pending_changes s"
  by (simp_all add: put_schema_def push_history_def)

lemma revalidate_model_pending:
  "revalidate_model J mode i now m (s, fs) = (r, s', fs') \<Longrightarrow>
   ss_pending_changes s' = ss_pending_changes s"
  by (auto simp: revalidate_model_def Let_def split: prod.splits sum.splits option.splits if_splits)

lemma revalidate_models_pending:
  "revalidate_models J mode models (s, fs) = (r, s', fs') \<Longrightarrow>
   ss_pending_changes s' = ss_pending_changes s"
proof (induction models arbitrary: s fs r s' fs')
  case (Cons x models)
  obtain i now m where x: "x = (i, now, m)" by (cases x) auto
  obtain r1 s1 fs1 where v: "revalidate_model J mode i now m (s, fs) = (r1, s1, fs1)"
    by (cases "revalidate_model J mode i now m (s, fs)") auto
  obtain r2 s2 fs2 where w: "revalidate_models J mode models (s1, fs1) = (r2, s2, fs2)"
    by (cases "revalidate_models J mode models (s1, fs1)") auto
  from Cons(2) v w revalidate_model_pending [OF v] Cons(1) [OF w] show ?case
    by (auto simp: x split: sum.splits)
qed simp

lemma decided_kept:
  assumes "schema_step fresh_post J peers st st'"
    and c: "map_of (ss_pending_changes (fst st)) i = Some c" and "pc_status c \<noteq> Pending"
  shows "map_of (ss_pending_changes (fst st')) i = Some c"
proof -
  obtain s fs where st: "st = (s, fs)" by (cases st)
  have c': "map_of (ss_pending_changes s) i = Some c" using c st by simp
  from assms(1) show ?thesis
  proof cases
    case (Propose req now)
    have mem: "i \<in> fst ` set (ss_pending_changes s)" using c' by (force dest: map_of_SomeD)
    have "pc_id p \<noteq> i" if "req = Some p" for p
    proof -
      from Propose(2) [OF that] obtain k where "pc_id p = k" "k \<notin> used_ids s"
        by (auto simp: fresh_post_def st)
      with mem show ?thesis by (auto simp: used_ids_def)
    qed
    then show ?thesis
      using c' Propose(1)
      by (auto simp: st handle_schema_propose_def add_pending_def update_other with_timeout_def
          split: vote_strategy.splits option.splits)
  next
    case (Vote now req)
    then show ?thesis
      using c' assms(3)
      by (cases req; cases "vr_change_id (the req) = i")
        (auto simp: st handle_schema_vote_def Let_def decided_kept_put split: option.splits)
  next
    case (Approve now user pid)
    then show ?thesis
      using c' assms(3)
      by (cases pid; cases "the pid = i")
        (auto simp: st handle_admin_schema_approve_def Let_def decided_kept_put split: option.splits)
  next
    case (RejectChange reason pid)
    then show ?thesis
      using c' assms(3)
      by (cases pid; cases "the pid = i")
        (auto simp: st handle_admin_schema_reject_def decided_kept_put split: option.splits)
  next
    case (Rollback pid)
    then show ?thesis
      using c' by (auto simp: st handle_admin_schema_rollback_def split: option.splits sum.splits)
  next
    case (Lock reason)
    then show ?thesis using c' by (simp add: st handle_admin_schema_lock_def Let_def)
  next
    case (Unlock now reason d who)
    then show ?thesis using c' by (simp add: st handle_admin_schema_unlock_def Let_def)
  next
    case (Revalidate models mode now)
    obtain r s1 fs1 where v: "revalidate_models J mode models (s, fs) = (r, s1, fs1)"
      by (cases "revalidate_models J mode models (s, fs)") auto
    from revalidate_models_pending [OF v] c' Revalidate(1) v show ?thesis
      by (auto simp: st handle_admin_schema_revalidate_def split: sum.splits)
  qed
qed

text \<open>
  A decision is final: once a change has left the pending state, no later request, whatever
  its kind and order, alters its status or its votes, unless a proposal is posted under its identifier.
\<close>

theorem decision_is_final:
  assumes "(schema_step fresh_post J peers)\<^sup>*\<^sup>* st st'"
    and "map_of (ss_pending_changes (fst st)) i = Some c" and "pc_status c \<noteq> Pending"
  shows "map_of (ss_pending_changes (fst st')) i = Some c"
  using assms by (induction rule: rtranclp_induct) (auto intro: decided_kept)

lemma decision_is_final_witness:
  "\<exists>c. map_of (ss_pending_changes (fst (snd (handle_admin_schema_reject None (Some 7) voted_node)))) 7 =
       Some c \<and> pc_status c = Applied"
proof -
  from voted_node obtain c where c: "map_of (ss_pending_changes (fst voted_node)) 7 = Some c"
    "pc_status c = Applied" by blast
  have "(schema_step fresh_post no_json [''b'', ''c''])\<^sup>*\<^sup>* voted_node
      (snd (handle_admin_schema_reject None (Some 7) voted_node))"
    by (intro r_into_rtranclp RejectChange)
  from decision_is_final [OF this c(1)] c(2) show ?thesis by simp
qed

text \<open>
  C40. A change that needs consensus cannot be applied by hand: persons may approve it as often as
  they like, it stays pending until nodes vote; on a single node in manual mode, where no node
  votes, the administrator's approval has no effect.
\<close>

definition approve_all ::
  "schema_json \<Rightarrow> string list \<Rightarrow> uuid \<Rightarrow> (u64 \<times> string \<times> string option) list \<Rightarrow> schema_node \<Rightarrow> schema_node"
where
  "approve_all J peers i requests st =
     foldl (\<lambda>st (now, user). snd (handle_admin_schema_approve J now peers user (Some i) st)) st requests"

lemma approve_consensus:
  assumes "map_of (ss_pending_changes s) i = Some c" and "pc_status c = Pending"
    and "strategy_for (pc_overall_strategy c) (ss_policy s) = Consensus"
    and "2 * length (pc_approvals c) \<le> length peers + 1"
  shows "\<exists>h s'. handle_admin_schema_approve J now peers user (Some i) (s, fs) =
      (ApprovalRecorded i h, s', fs) \<and> ss_schemas s' = ss_schemas s \<and> ss_policy s' = ss_policy s \<and>
    map_of (ss_pending_changes s') i = Some (add_human_approval now (fst user) (snd user) c)"
proof -
  have "length (pc_approvals c) \<le> (length peers + 1) div 2" using assms(4) by linarith
  then have "\<not> has_enough_approvals (ss_policy s) (length peers + 1)
      (add_human_approval now (fst user) (snd user) c)"
    using assms(3) by (simp add: has_enough_approvals_def)
  then show ?thesis
    using assms(1,2) by (simp add: handle_admin_schema_approve_def Let_def put_pending_def dict_simps)
qed

theorem consensus_ignores_persons:
  assumes "map_of (ss_pending_changes s) i = Some c" and "pc_status c = Pending"
    and "strategy_for (pc_overall_strategy c) (ss_policy s) = Consensus"
    and "2 * length (pc_approvals c) \<le> length peers + 1"
    and "approve_all J peers i requests (s, fs) = (s', fs')"
  shows "fs' = fs \<and> ss_schemas s' = ss_schemas s \<and>
    (\<exists>c'. map_of (ss_pending_changes s') i = Some c' \<and> pc_status c' = Pending)"
  using assms
proof (induction requests arbitrary: s c)
  case Nil
  then show ?case by (simp add: approve_all_def)
next
  case (Cons r requests)
  obtain now user where r: "r = (now, user)" by (cases r)
  from approve_consensus [OF Cons(2-5), of J now user fs] obtain h s1 where
    s1: "handle_admin_schema_approve J now peers user (Some i) (s, fs) = (ApprovalRecorded i h, s1, fs)"
    "ss_schemas s1 = ss_schemas s" "ss_policy s1 = ss_policy s"
    "map_of (ss_pending_changes s1) i = Some (add_human_approval now (fst user) (snd user) c)"
    by blast
  have "approve_all J peers i requests (s1, fs) = (s', fs')"
    using Cons(6) s1(1) by (simp add: approve_all_def r)
  from Cons(1) [OF s1(4) _ _ _ this] Cons(3-5) s1(2,3) show ?case by simp
qed

lemma consensus_ignores_persons_witness:
  "\<exists>c'. map_of (ss_pending_changes (fst (approve_all no_json [] 7
        [(1, ''admin'', None), (2, ''root'', None)] proposed_node))) 7 = Some c' \<and>
     pc_status c' = Pending"
proof -
  let ?s = "add_pending price_change (state_with_policy policy_default)"
  have c: "map_of (ss_pending_changes ?s) 7 = Some price_change" "pc_status price_change = Pending"
    "strategy_for (pc_overall_strategy price_change) (ss_policy ?s) = Consensus"
    "2 * length (pc_approvals price_change) \<le> length ([]::string list) + 1"
    by (simp_all add: add_pending_def state_with_policy_def price_change_simps policy_default_def)
  obtain s' fs' where r: "approve_all no_json [] 7 [(1, ''admin'', None), (2, ''root'', None)] (?s, []) =
      (s', fs')" by (cases "approve_all no_json [] 7 [(1, ''admin'', None), (2, ''root'', None)] (?s, [])")
  from consensus_ignores_persons [OF c r] r show ?thesis by (simp add: proposed_node)
qed

text \<open>
  What a cluster node does with a changed model under the default policy: when every change
  is additive it adopts the schema and writes one entry of history, otherwise it leaves schemas,
  history and files as they are, raises the flag that stops a strict start, and holds one pending
  change whose strategy is the most severe one.
\<close>

theorem cluster_start_decides:
  assumes "ss_policy s = policy_default" and "mi_spec info = Some current"
    and "load_schema_spec J (mi_name info) fs = Inr (Some stored)"
    and "dict_ok (ms_fields stored)" and "dict_ok (ms_fields current)"
    and "detect_changes stored current \<noteq> []" and "\<not> is_locked now (ss_lock_status s)"
    and run: "validate_model J mode True node (i1, i2, now) info (flag, s, fs) = (flag', s', fs')"
  defines "severe \<equiv> \<exists>c \<in> set (detect_changes stored current). dc_requires_consensus c"
  shows "flag' = (flag \<or> severe) \<and>
    (if severe
     then ss_schemas s' = ss_schemas s \<and> ss_change_history s' = ss_change_history s \<and> fs' = fs \<and>
       (\<exists>c. map_of (ss_pending_changes s') i1 = Some c \<and> pc_status c = Pending \<and>
          pc_overall_strategy c = Max (dc_strategy ` set (detect_changes stored current)) \<and>
          pc_overall_strategy c \<noteq> Additive)
     else map_of (ss_schemas s') (mi_name info) = Some current \<and>
       ss_pending_changes s' = ss_pending_changes s \<and>
       length (ss_change_history s') = Suc (length (ss_change_history s)))"
proof -
  let ?cs = "detect_changes stored current"
  let ?c = "pending_new i1 now (mi_name info) node ?cs current (Some stored)"
  have "severe \<longleftrightarrow> overall_strategy ?cs \<noteq> Additive"
    using change_consensus [OF assms(4,5)] by (auto simp: severe_def overall_strategy_Additive)
  then have sev: "severe \<longleftrightarrow> pc_overall_strategy ?c \<noteq> Additive" by (simp add: pending_new_def)
  have max: "pc_overall_strategy ?c = Max (dc_strategy ` set ?cs)"
    using assms(6) by (simp add: pending_new_def overall_strategy_Max max_def)
  have step: "validate_model J mode True node (i1, i2, now) info (flag, s, fs) =
      start_in_cluster J node i1 i2 now (mi_name info) ?cs current stored (flag \<or> severe, s, fs)"
    using assms(2,3,6,7)
    by (simp add: validate_model_def or_keep_def Let_def severe_def list_ex_iff)
  show ?thesis
  proof (cases "pc_overall_strategy ?c")
    case Additive
    with sev run step assms(1) show ?thesis
      by (auto simp: start_in_cluster_def Let_def policy_default_def put_schema_def push_history_def
          dict_simps)
  next
    case Breaking
    with sev run step assms(1) max show ?thesis
      by (auto simp: start_in_cluster_def Let_def policy_default_def add_pending_def dict_simps
          pending_new_status)
  next
    case Versioned
    with sev run step assms(1) max show ?thesis
      by (auto simp: start_in_cluster_def Let_def policy_default_def add_pending_def dict_simps
          pending_new_status)
  qed
qed

definition product_json :: schema_json where
  "product_json = no_json\<lparr>sj_spec_de := \<lambda>t. Inr product_spec\<rparr>"

lemma cluster_start_decides_witness:
  "\<exists>flag' s' fs'. validate_model product_json Warn True 1 (4, 5, 0)
       \<lparr>mi_name = ''Product'', mi_spec = Some (product_spec\<lparr>ms_fields := []\<rparr>)\<rparr>
       (False, state_with_policy policy_default, [(''Product.json'', [])]) = (flag', s', fs') \<and>
     flag' \<and> ss_schemas s' = [] \<and> fs' = [(''Product.json'', [])] \<and>
     (\<exists>c. map_of (ss_pending_changes s') 4 = Some c \<and> pc_overall_strategy c = Breaking)"
proof -
  let ?info = "\<lparr>mi_name = ''Product'', mi_spec = Some (product_spec\<lparr>ms_fields := []\<rparr>)\<rparr>"
  let ?fs = "[(''Product.json'', [])]"
  obtain flag' s' fs' where run: "validate_model product_json Warn True 1 (4, 5, 0) ?info
      (False, state_with_policy policy_default, ?fs) = (flag', s', fs')"
    by (metis prod_cases3)
  have changes: "detect_changes product_spec (product_spec\<lparr>ms_fields := []\<rparr>) =
      [remove_field_change ''Product'' ''name'' plain_field]"
    by (simp add: detect_changes_def added_fields_def removed_fields_def changed_fields_def
        detect_index_changes_def detect_foreign_key_changes_def product_spec_def)
  have hyps: "ss_policy (state_with_policy policy_default) = policy_default"
    "mi_spec ?info = Some (product_spec\<lparr>ms_fields := []\<rparr>)"
    "load_schema_spec product_json (mi_name ?info) ?fs = Inr (Some product_spec)"
    "dict_ok (ms_fields product_spec)" "dict_ok (ms_fields (product_spec\<lparr>ms_fields := []\<rparr>))"
    "\<not> is_locked 0 (ss_lock_status (state_with_policy policy_default))"
    by (simp_all add: state_with_policy_def load_schema_spec_def spec_file_def product_json_def
        product_spec_def dict_ok_def is_locked_def lock_default_def)
  have "detect_changes product_spec (product_spec\<lparr>ms_fields := []\<rparr>) \<noteq> []" by (simp add: changes)
  from cluster_start_decides [OF hyps(1-5) this hyps(6) run]
  have "flag'" "ss_schemas s' = []" "fs' = ?fs"
    "\<exists>c. map_of (ss_pending_changes s') 4 = Some c \<and> pc_overall_strategy c = Breaking"
    by (auto simp: changes remove_field_change_def state_with_policy_def max_def)
  with run show ?thesis by blast
qed

section \<open>Lock and convergence\<close>

text \<open>
  C38. What the lock stops: while a node is locked, a changed model is left alone at startup and a
  revalidation is refused. Approvals and votes do not look at the lock: they answer and apply
  changes as if it were open.
\<close>

lemma approve_lock:
  "handle_admin_schema_approve J now peers user pid (s\<lparr>ss_lock_status := k\<rparr>, fs) =
   (let (a, s', fs') = handle_admin_schema_approve J now peers user pid (s, fs)
    in (a, s'\<lparr>ss_lock_status := k\<rparr>, fs'))"
  by (simp add: handle_admin_schema_approve_def put_pending_def put_schema_def Let_def
      split: option.splits)

lemma vote_lock:
  "handle_schema_vote now peers req (s\<lparr>ss_lock_status := k\<rparr>, fs) =
   (let (a, s', fs') = handle_schema_vote now peers req (s, fs)
    in (a, s'\<lparr>ss_lock_status := k\<rparr>, fs'))"
  by (simp add: handle_schema_vote_def put_pending_def put_schema_def Let_def
      split: option.splits)

theorem lock_stops_detection_only:
  assumes "is_locked now (ss_lock_status s)"
  shows "handle_admin_schema_revalidate J mode now models (s, fs) = (Blocked, s, fs) \<and>
    (\<forall>current stored. mi_spec info = Some current \<longrightarrow>
      load_schema_spec J (mi_name info) fs = Inr (Some stored) \<longrightarrow>
      detect_changes stored current \<noteq> [] \<longrightarrow>
      validate_model J mode cl node (i1, i2, now) info (flag, s, fs) = (True, s, fs)) \<and>
    fst (handle_admin_schema_approve J now peers user pid (s, fs)) =
      fst (handle_admin_schema_approve J now peers user pid (s\<lparr>ss_lock_status := lock_default\<rparr>, fs)) \<and>
    fst (handle_schema_vote now peers req (s, fs)) =
      fst (handle_schema_vote now peers req (s\<lparr>ss_lock_status := lock_default\<rparr>, fs))"
  using assms
  by (auto simp: handle_admin_schema_revalidate_def validate_model_def or_keep_def Let_def
      approve_lock vote_lock case_prod_unfold)

definition locked_node :: schema_node where
  "locked_node =
     snd (handle_admin_schema_lock no_json (Some ''freeze'')
       (add_pending (price_change\<lparr>pc_overall_strategy := Breaking\<rparr>)
          (state_with_policy policy_default), []))"

lemma lock_stops_detection_only_witness:
  "handle_admin_schema_revalidate no_json Auto 3 [] locked_node = (Blocked, locked_node) \<and>
   fst (handle_admin_schema_approve no_json 3 [] (''admin'', None) (Some 7) locked_node) =
     ChangeApplied 7 ''Product''"
proof -
  obtain s fs where n: "locked_node = (s, fs)" by (cases locked_node)
  then have s: "s = (add_pending (price_change\<lparr>pc_overall_strategy := Breaking\<rparr>)
      (state_with_policy policy_default))\<lparr>ss_lock_status := lock_schema (Some ''freeze'') lock_default\<rparr>"
    by (simp add: locked_node_def handle_admin_schema_lock_def Let_def add_pending_def
        state_with_policy_def)
  then have "is_locked 3 (ss_lock_status s)"
    by (simp add: is_locked_def lock_schema_def)
  from lock_stops_detection_only [OF this, of no_json Auto "[]" fs _ _ _ _ _ _ "[]" "(''admin'', None)" "Some 7"]
  show ?thesis
    by (simp add: n s handle_admin_schema_approve_def add_pending_def price_change_simps
        state_with_policy_def Let_def has_enough_approvals_def policy_default_def
        add_human_approval_def price_change_def [THEN arg_cong, of pc_model_name] pending_new_def)
qed

text \<open>
  The window of an unlock: migrations unlocked for \<open>d\<close> seconds at time \<open>t0\<close> are locked again
  exactly from \<open>t0 + 1000 d\<close> milliseconds on, the seconds reported as remaining are those left, rounded
  down, and without a duration they stay unlocked. The sum must fit the 64 bits of the clock.
\<close>

theorem unlock_window:
  assumes "unat t0 + 1000 * unat d < 2 ^ 64"
  shows "(is_locked t (unlock_schema t0 r (Some d) who k) \<longleftrightarrow> unat t0 + 1000 * unat d \<le> unat t) \<and>
    map_option unat (remaining_unlock_secs t (unlock_schema t0 r (Some d) who k)) =
      Some ((unat t0 + 1000 * unat d - unat t) div 1000) \<and>
    \<not> is_locked t (unlock_schema t0 r None who k)"
proof -
  have "unat (d * 1000) = unat d * 1000"
    using assms by (subst unat_mult_lem [THEN iffD1]) simp_all
  then have e: "unat (t0 + d * 1000) = unat t0 + 1000 * unat d"
    using assms by (subst unat_add_lem [THEN iffD1]) simp_all
  have "unat ((t0 + d * 1000 - t) div 1000) = (unat t0 + 1000 * unat d - unat t) div 1000"
    if "\<not> t0 + d * 1000 \<le> t"
    using that by (simp add: unat_div unat_sub word_le_nat_alt e)
  then show ?thesis
    by (simp add: is_locked_def unlock_schema_def remaining_unlock_secs_def word_le_nat_alt e)
qed

lemma unlock_window_witness:
  "is_locked 5000 (unlock_schema 2000 None (Some 3) None lock_default) \<and>
   \<not> is_locked 4999 (unlock_schema 2000 None (Some 3) None lock_default)"
  using unlock_window [of 2000 3 5000 None None lock_default]
    unlock_window [of 2000 3 4999 None None lock_default] by simp

definition json_ok :: "schema_json \<Rightarrow> model_spec \<Rightarrow> bool" where
  "json_ok J x \<longleftrightarrow> (\<exists>t. sj_spec_ser J x = Inr t \<and> sj_spec_de J t = Inr x)"

definition settled :: "schema_json \<Rightarrow> schema_dir \<Rightarrow> model_info \<Rightarrow> bool" where
  "settled J fs info \<longleftrightarrow>
     (\<forall>current. mi_spec info = Some current \<longrightarrow>
       (\<exists>stored. load_schema_spec J (mi_name info) fs = Inr (Some stored) \<and>
          detect_changes stored current = []))"

definition info_ok :: "schema_json \<Rightarrow> model_info \<Rightarrow> bool" where
  "info_ok J info \<longleftrightarrow>
     mi_name info \<noteq> ''schema_history'' \<and>
     (\<forall>current. mi_spec info = Some current \<longrightarrow>
        ms_model_name current = mi_name info \<and> dict_ok (ms_fields current) \<and> json_ok J current)"

lemma detect_changes_self: "dict_ok (ms_fields a) \<Longrightarrow> detect_changes a a = []"
  by (simp add: detect_changes_Nil)

lemma save_load_spec:
  assumes "json_ok J spec"
  obtains fs' where "save_schema_spec J spec fs = Inr fs'"
    "load_schema_spec J (ms_model_name spec) fs' = Inr (Some spec)"
    "\<And>n. n \<noteq> ms_model_name spec \<Longrightarrow> load_schema_spec J n fs' = load_schema_spec J n fs"
proof -
  from assms obtain t where t: "sj_spec_ser J spec = Inr t" "sj_spec_de J t = Inr spec"
    by (auto simp: json_ok_def)
  show ?thesis
    by (rule that [of "AList.update (spec_file (ms_model_name spec)) t fs"])
      (simp_all add: save_schema_spec_def write_json_def load_schema_spec_def t dict_simps spec_file_def)
qed

lemma append_history_load:
  assumes "n \<noteq> ''schema_history''"
  shows "load_schema_spec J n (or_keep fs (append_schema_history J a fs)) = load_schema_spec J n fs"
proof -
  have "spec_file n \<noteq> history_file"
  proof
    assume "spec_file n = history_file"
    then have "n @ ''.json'' = ''schema_history'' @ ''.json''" by (simp add: spec_file_def history_file_def)
    then show False using assms by (simp only: append_same_eq)
  qed
  then show ?thesis
    by (auto simp: append_schema_history_def or_keep_def save_schema_history_def write_json_def
        load_schema_spec_def update_other split: sum.splits)
qed

lemma validate_model_settles:
  assumes "info_ok J info" and "\<not> is_locked now (ss_lock_status s)"
    and run: "validate_model J Auto False node (i1, i2, now) info (flag, s, fs) = (flag', s', fs')"
  shows "settled J fs' info \<and> ss_lock_status s' = ss_lock_status s \<and>
    (\<forall>n. n \<noteq> mi_name info \<longrightarrow> n \<noteq> ''schema_history'' \<longrightarrow>
       load_schema_spec J n fs' = load_schema_spec J n fs)"
proof (cases "mi_spec info")
  case None
  with run show ?thesis by (simp add: validate_model_def settled_def)
next
  case (Some cur)
  with assms(1) have cur: "ms_model_name cur = mi_name info" "dict_ok (ms_fields cur)"
    "mi_name info \<noteq> ''schema_history''" "json_ok J cur" by (simp_all add: info_ok_def)
  obtain fs1 where save: "save_schema_spec J cur fs = Inr fs1"
    "load_schema_spec J (mi_name info) fs1 = Inr (Some cur)"
    "\<And>n. n \<noteq> mi_name info \<Longrightarrow> load_schema_spec J n fs1 = load_schema_spec J n fs"
    using save_load_spec [OF cur(4), of fs] unfolding cur(1) by blast
  show ?thesis
  proof (cases "or_keep None (load_schema_spec J (mi_name info) fs)")
    case None
    with run save Some cur(2) show ?thesis
      by (auto simp: validate_model_def settled_def or_keep_def detect_changes_self)
  next
    case st: (Some stored)
    then have load: "load_schema_spec J (mi_name info) fs = Inr (Some stored)"
      by (auto simp: or_keep_def split: sum.splits)
    show ?thesis
    proof (cases "detect_changes stored cur = []")
      case True
      with run st Some load show ?thesis by (auto simp: validate_model_def settled_def)
    next
      case False
      then have "s' = push_history \<lparr>ac_id = i2, ac_model_name = mi_name info,
          ac_changes = detect_changes stored cur, ac_applied_at = now, ac_applied_by_node = node\<rparr> s"
        "\<exists>a. fs' = or_keep fs1 (append_schema_history J a fs1)"
        using run st Some save(1) assms(2)
        by (auto simp: validate_model_def start_alone_def Let_def)
      with save cur Some show ?thesis
        by (auto simp: settled_def append_history_load detect_changes_self push_history_def)
    qed
  qed
qed

lemma validate_models_settle:
  assumes "\<forall>t \<in> set turns. info_ok J (snd t)"
    and "distinct (map (mi_name \<circ> snd) turns)"
    and "\<forall>t \<in> set turns. \<not> is_locked (snd (snd (fst t))) (ss_lock_status s)"
    and "validate_models J Auto False node turns (flag, s, fs) = (flag', s', fs')"
  shows "(\<forall>t \<in> set turns. settled J fs' (snd t)) \<and>
    (\<forall>n. n \<notin> mi_name ` snd ` set turns \<longrightarrow> n \<noteq> ''schema_history'' \<longrightarrow>
       load_schema_spec J n fs' = load_schema_spec J n fs)"
  using assms
proof (induction turns arbitrary: flag s fs)
  case Nil
  then show ?case by (simp add: validate_models_def)
next
  case (Cons t turns)
  obtain i1 i2 now info where t: "t = ((i1, i2, now), info)" by (metis prod_cases4 surj_pair)
  obtain f1 s1 fs1 where v: "validate_model J Auto False node (i1, i2, now) info (flag, s, fs) = (f1, s1, fs1)"
    by (metis prod_cases3)
  from validate_model_settles [OF _ _ v] Cons(2,4)
  have one: "settled J fs1 info" "ss_lock_status s1 = ss_lock_status s"
    "\<forall>n. n \<noteq> mi_name info \<longrightarrow> n \<noteq> ''schema_history'' \<longrightarrow>
       load_schema_spec J n fs1 = load_schema_spec J n fs" by (simp_all add: t)
  have rest: "validate_models J Auto False node turns (f1, s1, fs1) = (flag', s', fs')"
    using Cons(5) v by (simp add: validate_models_def t)
  from Cons(1) [OF _ _ _ rest] Cons(2-4) one(2)
  have ih: "\<forall>t \<in> set turns. settled J fs' (snd t)"
    "\<forall>n. n \<notin> mi_name ` snd ` set turns \<longrightarrow> n \<noteq> ''schema_history'' \<longrightarrow>
       load_schema_spec J n fs' = load_schema_spec J n fs1" by simp_all
  have "mi_name info \<notin> mi_name ` snd ` set turns" "mi_name info \<noteq> ''schema_history''"
    using Cons(2,3) by (auto simp: t info_ok_def image_iff)
  with ih(2) have "load_schema_spec J (mi_name info) fs' = load_schema_spec J (mi_name info) fs1" by blast
  with one(1) have "settled J fs' info" by (simp add: settled_def)
  with ih one(3) show ?case by (simp add: t)
qed

lemma validate_models_settled:
  assumes "\<forall>t \<in> set turns. settled J fs (snd t)"
  shows "validate_models J mode False node turns (flag, s, fs) = (flag, s, fs)"
  using assms
proof (induction turns)
  case (Cons t turns)
  obtain i1 i2 now info where t: "t = ((i1, i2, now), info)" by (metis prod_cases4 surj_pair)
  have "validate_model J mode False node (i1, i2, now) info (flag, s, fs) = (flag, s, fs)"
    using Cons(2) by (cases "mi_spec info") (auto simp: t settled_def validate_model_def or_keep_def)
  with Cons show ?case by (simp add: t validate_models_def)
qed (simp add: validate_models_def)

text \<open>
  C21. Startup converges: on a single node in automatic mode, with migrations unlocked, models of
  distinct names and schemas that JSON brings back, one start brings every stored schema up to the
  program's, so that every later start on the files it leaves, with the same program, in any
  mode, locked or not, and with whatever history and lock are in memory, finds nothing to do and
  leaves that state and the files as they are.
\<close>

theorem startup_converges:
  assumes "\<forall>t \<in> set turns. info_ok J (snd t)"
    and "distinct (map (mi_name \<circ> snd) turns)"
    and "\<forall>t \<in> set turns. \<not> is_locked (snd (snd (fst t))) (ss_lock_status s)"
    and "validate_schemas J Auto [] node turns (s, fs) = (ok, st)"
    and "snd ` set turns' = snd ` set turns"
  shows "ok \<and> validate_schemas J mode [] node' turns' (s2, snd st) = (True, s2, snd st)"
proof -
  obtain s' fs' where st: "st = (s', fs')" by (cases st)
  let ?node = "case node of None \<Rightarrow> 0 | Some n \<Rightarrow> n"
  obtain flag where run: "validate_models J Auto False ?node turns (False, s, fs) = (flag, s', fs')" and ok
    using assms(4) by (auto simp: validate_schemas_def st split: prod.splits)
  from validate_models_settle [OF assms(1-3) run] have "\<forall>info \<in> snd ` set turns. settled J fs' info"
    by simp
  then have "\<forall>t \<in> set turns'. settled J fs' (snd t)"
    unfolding assms(5) [symmetric] by simp
  from validate_models_settled [OF this] \<open>ok\<close> show ?thesis
    by (simp add: validate_schemas_def st)
qed

lemma startup_converges_witness:
  "\<exists>st. validate_schemas (product_json\<lparr>sj_spec_ser := \<lambda>x. Inr ''p''\<rparr>) Auto [] None
       [((1, 2, 0), \<lparr>mi_name = ''Product'', mi_spec = Some product_spec\<rparr>)]
       (state_with_policy policy_default, []) = (True, st) \<and>
     validate_schemas (product_json\<lparr>sj_spec_ser := \<lambda>x. Inr ''p''\<rparr>) Auto [] None
       [((3, 4, 9), \<lparr>mi_name = ''Product'', mi_spec = Some product_spec\<rparr>)]
       (load_persisted (product_json\<lparr>sj_spec_ser := \<lambda>x. Inr ''p''\<rparr>) (state_with_policy policy_default, snd st)) =
     (True, load_persisted (product_json\<lparr>sj_spec_ser := \<lambda>x. Inr ''p''\<rparr>) (state_with_policy policy_default, snd st))"
proof -
  let ?J = "product_json\<lparr>sj_spec_ser := \<lambda>x. Inr ''p''\<rparr>"
  let ?info = "\<lparr>mi_name = ''Product'', mi_spec = Some product_spec\<rparr>"
  obtain ok st where run: "validate_schemas ?J Auto [] None [((1, 2, 0), ?info)]
      (state_with_policy policy_default, []) = (ok, st)"
    by (cases "validate_schemas ?J Auto [] None [((1, 2, 0), ?info)] (state_with_policy policy_default, [])")
  have "info_ok ?J ?info"
    by (simp add: info_ok_def json_ok_def product_json_def product_spec_def dict_ok_def)
  then have hyps: "\<forall>t \<in> set [((1, 2, 0), ?info)]. info_ok ?J (snd t)"
    "distinct (map (mi_name \<circ> snd) [((1::uuid, 2::uuid, 0::u64), ?info)])"
    "\<forall>t \<in> set [((1::uuid, 2::uuid, 0::u64), ?info)]. \<not> is_locked (snd (snd (fst t)))
       (ss_lock_status (state_with_policy policy_default))"
    by (simp_all add: state_with_policy_def lock_default_def is_locked_def)
  let ?l = "load_persisted ?J (state_with_policy policy_default, snd st)"
  have l: "?l = (fst ?l, snd st)" by (simp add: load_persisted_def Let_def)
  have "snd ` set [((3::uuid, 4::uuid, 9::u64), ?info)] = snd ` set [((1::uuid, 2::uuid, 0::u64), ?info)]" by simp
  from startup_converges [OF hyps run this, of Auto None "fst ?l"]
  have ok and again: "validate_schemas ?J Auto [] None [((3, 4, 9), ?info)] ?l = (True, ?l)"
    unfolding l [symmetric] by blast+
  from run have "validate_schemas ?J Auto [] None [((1, 2, 0), ?info)] (state_with_policy policy_default, []) = (True, st)"
    unfolding eqTrueI [OF \<open>ok\<close>] .
  with again show ?thesis by (intro exI [of _ st] conjI)
qed

end
