(* ===== verification/EventFile.thy ===== *)
theory EventFile
  imports Framing
begin

text \<open>
  The files of the event store, from \<^verbatim>\<open>lithair-core/src/engine/persistence.rs\<close>: events as lines
  with a checksum or as frames with a length, batching, rotation, the index of aggregates, the
  identifiers for deduplication and the snapshot file. The checksum of \<^verbatim>\<open>crc32fast\<close> is the
  parameter \<open>crc\<close>. A file is the string of its bytes and text is ASCII, so that a character is
  a byte. The optional asynchronous writer is not used; a file is \<open>None\<close> until it is created.
\<close>

section \<open>Lines with a checksum\<close>

definition hex_digit :: "nat \<Rightarrow> char" where
  "hex_digit n = char_of (if n < 10 then 48 + n else 87 + n)"

fun hex_digits :: "nat \<Rightarrow> nat \<Rightarrow> string" where
  "hex_digits 0 n = []"
| "hex_digits (Suc k) n = hex_digits k (n div 16) @ [hex_digit (n mod 16)]"

text \<open>The format \<^verbatim>\<open>{:08x}\<close> of a \<^verbatim>\<open>u32\<close> has eight digits; \<open>from_str_radix\<close> reads both cases and a plus.\<close>

definition hex8 :: "u32 \<Rightarrow> string" where
  "hex8 w = hex_digits 8 (unat w)"

definition hex_value :: "char \<Rightarrow> nat option" where
  "hex_value c =
     (let n = of_char c :: nat
      in if 48 \<le> n \<and> n \<le> 57 then Some (n - 48)
         else if 97 \<le> n \<and> n \<le> 102 then Some (n - 87)
         else if 65 \<le> n \<and> n \<le> 70 then Some (n - 55) else None)"

definition hex_number :: "string \<Rightarrow> nat option" where
  "hex_number s =
     foldl (\<lambda>acc c. case (acc, hex_value c) of (Some a, Some d) \<Rightarrow> Some (16 * a + d) | _ \<Rightarrow> None)
       (Some 0) s"

definition parse_hex32 :: "string \<Rightarrow> u32 option" where
  "parse_hex32 s =
     (let ds = (case s of [] \<Rightarrow> [] | c # cs \<Rightarrow> if c = CHR ''+'' then cs else s)
      in if ds = [] then None
         else case hex_number ds of
                None \<Rightarrow> None
              | Some n \<Rightarrow> if n < 2 ^ 32 then Some (of_nat n) else None)"

definition format_event_with_crc32 :: "(string \<Rightarrow> u32) \<Rightarrow> string \<Rightarrow> string" where
  "format_event_with_crc32 crc json = hex8 (crc json) @ '':'' @ json"

datatype line_error = InvalidHex string | CrcMismatch u32 u32

definition parse_and_validate_event :: "(string \<Rightarrow> u32) \<Rightarrow> string \<Rightarrow> line_error + string" where
  "parse_and_validate_event crc line =
     (if 9 < length line \<and> line ! 8 = CHR '':''
      then
        let crc_hex = take 8 line; json_data = drop 9 line
        in case parse_hex32 crc_hex of
             None \<Rightarrow> Inl (InvalidHex crc_hex)
           | Some expected \<Rightarrow>
               if expected \<noteq> crc json_data then Inl (CrcMismatch expected (crc json_data))
               else Inr json_data
      else Inr line)"

section \<open>The storage\<close>

record file_storage =
  fs_events_file :: "string option"
  fs_segment :: "string option"
  fs_index_file :: "string option"
  fs_snapshot_file :: "string option"
  fs_dedup_ids_file :: "string option"
  fs_fsync_on_append :: bool
  fs_max_log_file_size :: nat
  fs_event_batch :: "string list"
  fs_batch_count :: nat
  fs_max_batch_size :: nat
  fs_enable_checksums :: bool

text \<open>
  Opening the storage on the files that a directory holds; the size limit comes from the
  environment.
\<close>

record event_files =
  ef_events :: "string option"
  ef_segment :: "string option"
  ef_index :: "string option"
  ef_snapshot :: "string option"
  ef_dedup :: "string option"

definition file_storage_new :: "nat option \<Rightarrow> event_files \<Rightarrow> file_storage" where
  "file_storage_new max_size d =
     \<lparr>fs_events_file = ef_events d, fs_segment = ef_segment d, fs_index_file = ef_index d,
      fs_snapshot_file = ef_snapshot d, fs_dedup_ids_file = ef_dedup d,
      fs_fsync_on_append = True,
      fs_max_log_file_size = (case max_size of None \<Rightarrow> 0 | Some n \<Rightarrow> n),
      fs_event_batch = [], fs_batch_count = 0, fs_max_batch_size = 1000,
      fs_enable_checksums = True\<rparr>"

text \<open>What a crash leaves: the files, without the batch in memory.\<close>

definition files_of :: "file_storage \<Rightarrow> event_files" where
  "files_of s =
     \<lparr>ef_events = fs_events_file s, ef_segment = fs_segment s, ef_index = fs_index_file s,
      ef_snapshot = fs_snapshot_file s, ef_dedup = fs_dedup_ids_file s\<rparr>"

definition set_fsync :: "bool \<Rightarrow> file_storage \<Rightarrow> file_storage" where
  "set_fsync enable s = s\<lparr>fs_fsync_on_append := enable\<rparr>"

definition configure_batching :: "nat \<Rightarrow> bool \<Rightarrow> file_storage \<Rightarrow> file_storage" where
  "configure_batching n fsync s = s\<lparr>fs_max_batch_size := n, fs_fsync_on_append := fsync\<rparr>"

definition contents :: "string option \<Rightarrow> string" where
  "contents f = (case f of None \<Rightarrow> [] | Some c \<Rightarrow> c)"

definition append_file :: "string \<Rightarrow> string option \<Rightarrow> string option" where
  "append_file x f = Some (contents f @ x)"

definition event_line :: "(string \<Rightarrow> u32) \<Rightarrow> bool \<Rightarrow> string \<Rightarrow> string" where
  "event_line crc checksums json =
     (if checksums then format_event_with_crc32 crc json else json) @ [newline]"

definition maybe_rotate :: "file_storage \<Rightarrow> file_storage" where
  "maybe_rotate s =
     (if fs_max_log_file_size s = 0 then s
      else case fs_events_file s of
             None \<Rightarrow> s
           | Some c \<Rightarrow>
               if fs_max_log_file_size s \<le> length c
               then s\<lparr>fs_segment := Some c, fs_events_file := Some []\<rparr> else s)"

definition flush_batch :: "(string \<Rightarrow> u32) \<Rightarrow> file_storage \<Rightarrow> file_storage" where
  "flush_batch crc s =
     (if fs_event_batch s = [] then s
      else
        maybe_rotate
          (s\<lparr>fs_events_file :=
               append_file (concat (map (event_line crc (fs_enable_checksums s)) (fs_event_batch s)))
                 (fs_events_file s),
             fs_event_batch := [], fs_batch_count := 0\<rparr>))"

definition append_event :: "(string \<Rightarrow> u32) \<Rightarrow> string \<Rightarrow> file_storage \<Rightarrow> file_storage" where
  "append_event crc json s =
     (let s1 = s\<lparr>fs_event_batch := fs_event_batch s @ [json], fs_batch_count := fs_batch_count s + 1\<rparr>
      in if fs_max_batch_size s1 \<le> fs_batch_count s1 then flush_batch crc s1 else s1)"

definition flush_events :: "(string \<Rightarrow> u32) \<Rightarrow> file_storage \<Rightarrow> file_storage" where
  "flush_events crc s = flush_batch crc s"

definition force_flush :: "(string \<Rightarrow> u32) \<Rightarrow> file_storage \<Rightarrow> file_storage" where
  "force_flush crc s = flush_batch crc s"

definition current_events_size :: "file_storage \<Rightarrow> u64" where
  "current_events_size s = of_nat (length (contents (fs_events_file s)))"

text \<open>Truncation replaces the events file; the rotated segment and the batch stay.\<close>

definition truncate_events :: "file_storage \<Rightarrow> file_storage" where
  "truncate_events s = s\<lparr>fs_events_file := Some []\<rparr>"

definition valid_lines :: "(string \<Rightarrow> u32) \<Rightarrow> string list \<Rightarrow> string list" where
  "valid_lines crc ls =
     List.map_filter
       (\<lambda>l. if trim l = [] then None
            else case parse_and_validate_event crc l of Inl e \<Rightarrow> None | Inr json \<Rightarrow> Some json) ls"

definition read_events :: "(string \<Rightarrow> u32) \<Rightarrow> string \<Rightarrow> string list" where
  "read_events crc c = valid_lines crc (text_lines c)"

definition read_all_events :: "(string \<Rightarrow> u32) \<Rightarrow> file_storage \<Rightarrow> string list" where
  "read_all_events crc s =
     read_events crc (contents (fs_segment s)) @ read_events crc (contents (fs_events_file s))"

section \<open>Binary events\<close>

definition le64 :: "u64 \<Rightarrow> string" where
  "le64 w = map (\<lambda>b. char_of (unat b)) (to_le64 w)"

definition from_le64_chars :: "string \<Rightarrow> u64" where
  "from_le64_chars s = from_le64 (map of_char s)"

definition binary_frame :: "string \<Rightarrow> string" where
  "binary_frame data = le64 (of_nat (length data)) @ data"

definition append_binary_event_bytes :: "string \<Rightarrow> file_storage \<Rightarrow> file_storage" where
  "append_binary_event_bytes data s =
     s\<lparr>fs_events_file := append_file (binary_frame data) (fs_events_file s)\<rparr>"

text \<open>
  The sum of cursor and length wraps around, as in a release build; a slice that then ends before
  it starts is a panic, the value \<open>None\<close>.
\<close>

function read_frames :: "string \<Rightarrow> nat \<Rightarrow> string list option" where
  "read_frames content cursor =
     (if length content \<le> cursor then Some []
      else if length content < cursor + 8 then Some []
      else
        let len = unat (from_le64_chars (take 8 (drop cursor content)));
            start = cursor + 8; stop = (start + len) mod 2 ^ 64
        in if length content < stop then Some []
           else if stop < start then None
           else map_option ((#) (take (stop - start) (drop start content)))
                  (read_frames content (max stop start)))"
  by pat_completeness auto
termination
  by (relation "measure (\<lambda>(content, cursor). length content - cursor)") auto

declare read_frames.simps [simp del]

definition read_all_event_bytes :: "file_storage \<Rightarrow> string list option" where
  "read_all_event_bytes s =
     (case (read_frames (contents (fs_segment s)) 0, read_frames (contents (fs_events_file s)) 0) of
        (Some a, Some b) \<Rightarrow> Some (a @ b)
      | _ \<Rightarrow> None)"

section \<open>Index, deduplication and snapshot\<close>

text \<open>An index line is the JSON of its two fields; rendering and parsing it are parameters.\<close>

definition append_index_entry ::
  "(string \<times> u64 \<Rightarrow> string) \<Rightarrow> string \<Rightarrow> u64 \<Rightarrow> file_storage \<Rightarrow> file_storage"
where
  "append_index_entry render agg offset s =
     s\<lparr>fs_index_file := append_file (render (agg, offset) @ [newline]) (fs_index_file s)\<rparr>"

definition read_index_offsets ::
  "(string \<Rightarrow> (string \<times> u64) option) \<Rightarrow> string \<Rightarrow> file_storage \<Rightarrow> u64 list"
where
  "read_index_offsets parse agg s =
     List.map_filter
       (\<lambda>l. case parse l of None \<Rightarrow> None | Some (a, off) \<Rightarrow> if a = agg then Some off else None)
       (text_lines (contents (fs_index_file s)))"

definition append_dedup_id :: "string \<Rightarrow> file_storage \<Rightarrow> file_storage" where
  "append_dedup_id i s =
     s\<lparr>fs_dedup_ids_file := append_file (i @ [newline]) (fs_dedup_ids_file s)\<rparr>"

definition read_all_dedup_ids :: "file_storage \<Rightarrow> string list" where
  "read_all_dedup_ids s =
     filter (\<lambda>l. trim l \<noteq> []) (text_lines (contents (fs_dedup_ids_file s)))"

definition save_snapshot :: "string \<Rightarrow> file_storage \<Rightarrow> file_storage" where
  "save_snapshot state s = s\<lparr>fs_snapshot_file := Some state\<rparr>"

definition load_snapshot :: "file_storage \<Rightarrow> string option" where
  "load_snapshot s = fs_snapshot_file s"

record database_stats =
  ds_events_file_size :: u64
  ds_snapshot_file_size :: u64
  ds_total_events :: nat

definition get_stats :: "(string \<Rightarrow> u32) \<Rightarrow> file_storage \<Rightarrow> database_stats" where
  "get_stats crc s =
     \<lparr>ds_events_file_size = current_events_size s,
      ds_snapshot_file_size = of_nat (length (contents (fs_snapshot_file s))),
      ds_total_events = length (read_all_events crc s)\<rparr>"

section \<open>Reading back a line\<close>

lemma hex_value_digit: "n < 16 \<Longrightarrow> hex_value (hex_digit n) = Some n"
  by (simp add: hex_value_def hex_digit_def of_char_of Let_def)

lemma hex_number_snoc:
  "hex_number (ds @ [d]) =
     (case (hex_number ds, hex_value d) of (Some a, Some v) \<Rightarrow> Some (16 * a + v) | _ \<Rightarrow> None)"
  by (simp add: hex_number_def)

lemma hex_number_digits: "hex_number (hex_digits k n) = Some (n mod 16 ^ k)"
proof (induction k arbitrary: n)
  case 0
  then show ?case by (simp add: hex_number_def)
next
  case (Suc k)
  have "n mod 16 ^ Suc k = 16 * (n div 16 mod 16 ^ k) + n mod 16"
    using mod_mult2_eq [of n 16 "16 ^ k"] by simp
  then show ?case
    by (simp add: hex_number_snoc Suc hex_value_digit)
qed

lemma length_hex_digits [simp]: "length (hex_digits k n) = k"
  by (induction k arbitrary: n) simp_all

lemma hex_digit_plain:
  assumes "n < 16"
  shows "hex_digit n \<noteq> CHR ''+'' \<and> \<not> is_space (hex_digit n) \<and> hex_digit n \<noteq> newline"
proof -
  have "(of_char (hex_digit n) :: nat) \<noteq> 43 \<and> (of_char (hex_digit n) :: nat) \<notin> {9, 10, 11, 12, 13, 32}"
    using assms by (simp add: hex_digit_def of_char_of)
  then show ?thesis by (auto simp: is_space_def newline_def)
qed

lemma set_hex_digits: "set (hex_digits k n) \<subseteq> hex_digit ` {..<16}"
  by (induction k arbitrary: n) simp_all

lemma hex8_plain:
  "length (hex8 w) = 8" "c \<in> set (hex8 w) \<Longrightarrow> c \<noteq> CHR ''+'' \<and> \<not> is_space c \<and> c \<noteq> newline"
proof -
  show "length (hex8 w) = 8" unfolding hex8_def by (rule length_hex_digits)
  assume "c \<in> set (hex8 w)"
  then have "c \<in> hex_digit ` {..<16}"
    unfolding hex8_def by (rule subsetD [OF set_hex_digits])
  then obtain m where m: "m < 16" "c = hex_digit m" by blast
  show "c \<noteq> CHR ''+'' \<and> \<not> is_space c \<and> c \<noteq> newline"
    unfolding m(2) by (rule hex_digit_plain [OF m(1)])
qed

lemma parse_hex8: "parse_hex32 (hex8 w) = Some w"
proof -
  obtain c cs where s: "hex8 w = c # cs" using hex8_plain(1) [of w] by (cases "hex8 w") auto
  have "c \<noteq> CHR ''+''" using hex8_plain(2) [of c w] by (simp add: s)
  moreover have "unat w < 2 ^ 32" using unsigned_less [of w, where ?'a = nat] by simp
  moreover have "hex_number (hex8 w) = Some (unat w mod 2 ^ 32)"
    by (simp add: hex8_def hex_number_digits)
  ultimately show ?thesis by (simp add: parse_hex32_def s)
qed

text \<open>Checking a line that was written gives its event back, but for the empty event.\<close>

lemma parse_formatted:
  assumes "json \<noteq> []"
  shows "parse_and_validate_event crc (format_event_with_crc32 crc json) = Inr json"
proof -
  have "take 8 (format_event_with_crc32 crc json) = hex8 (crc json)"
    "drop 9 (format_event_with_crc32 crc json) = json"
    "format_event_with_crc32 crc json ! 8 = CHR '':''"
    "9 < length (format_event_with_crc32 crc json)"
    using assms hex8_plain(1) [of "crc json"]
    by (simp_all add: format_event_with_crc32_def nth_append)
  then show ?thesis by (simp add: parse_and_validate_event_def parse_hex8 Let_def)
qed

text \<open>An event that a line can carry.\<close>

definition event_ok :: "string \<Rightarrow> bool" where
  "event_ok e \<longleftrightarrow> e \<noteq> [] \<and> newline \<notin> set e \<and> last e \<noteq> CHR 13"

lemma trim_nonblank: "c \<in> set l \<Longrightarrow> \<not> is_space c \<Longrightarrow> trim l \<noteq> []"
proof
  assume c: "c \<in> set l" "\<not> is_space c" and "trim l = []"
  then have "\<forall>x \<in> set (dropWhile is_space l). is_space x"
    by (simp add: trim_def dropWhile_eq_Nil_conv)
  moreover have "l = takeWhile is_space l @ dropWhile is_space l" by simp
  ultimately have "\<forall>x \<in> set l. is_space x" by (metis Un_iff set_append set_takeWhileD)
  with c show False by blast
qed

lemma formatted_plain:
  assumes "event_ok e"
  shows "newline \<notin> set (format_event_with_crc32 crc e)"
    "strip_cr (format_event_with_crc32 crc e) = format_event_with_crc32 crc e"
    "trim (format_event_with_crc32 crc e) \<noteq> []"
proof -
  have colon: "CHR '':'' \<noteq> newline" by (simp add: newline_def)
  show "newline \<notin> set (format_event_with_crc32 crc e)"
    using assms hex8_plain(2) [of newline "crc e"] colon
    by (auto simp: format_event_with_crc32_def event_ok_def)
  show "strip_cr (format_event_with_crc32 crc e) = format_event_with_crc32 crc e"
    using assms by (simp add: format_event_with_crc32_def event_ok_def strip_cr_def)
  have "\<not> is_space (CHR '':'')" by (simp add: is_space_def)
  then show "trim (format_event_with_crc32 crc e) \<noteq> []"
    by (rule trim_nonblank [rotated]) (simp add: format_event_with_crc32_def)
qed

lemma valid_lines_Cons:
  "valid_lines crc (l # ls) =
     (if trim l = [] then []
      else case parse_and_validate_event crc l of Inl e \<Rightarrow> [] | Inr json \<Rightarrow> [json]) @ valid_lines crc ls"
  by (simp add: valid_lines_def List.map_filter_simps split: sum.splits)

lemma read_events_line:
  "newline \<notin> set l \<Longrightarrow>
   read_events crc (l @ newline # rest) = valid_lines crc [strip_cr l] @ read_events crc rest"
  unfolding read_events_def by (simp add: text_lines_frame valid_lines_Cons [of crc "strip_cr l"])
    (simp add: valid_lines_def)

lemma read_events_frame:
  assumes "event_ok e"
  shows "read_events crc (event_line crc True e @ rest) = e # read_events crc rest"
  using formatted_plain [OF assms, of crc] assms parse_formatted [of e crc]
  by (simp add: event_line_def read_events_line valid_lines_Cons event_ok_def)
    (simp add: valid_lines_def List.map_filter_simps)

interpretation event_log: frame_stream "event_line crc True" "read_events crc" "(#)" event_ok for crc
  by unfold_locales (rule read_events_frame)

lemma foldr_Cons_append: "foldr (#) es r = es @ r"
  by (induction es) auto

lemma read_events_Nil [simp]: "read_events crc [] = []"
  by (simp add: read_events_def valid_lines_def List.map_filter_simps)

lemma read_events_lines:
  "list_all event_ok es \<Longrightarrow>
   read_events crc (concat (map (event_line crc True) es) @ rest) = es @ read_events crc rest"
  by (simp add: event_log.scan_frames foldr_Cons_append)

text \<open>A file that ends with a complete line can be extended.\<close>

definition complete :: "string \<Rightarrow> bool" where
  "complete c \<longleftrightarrow> c = [] \<or> last c = newline"

lemma split_on_append:
  "split_on c (xs @ ys) =
     butlast (split_on c xs) @ (last (split_on c xs) @ hd (split_on c ys)) # tl (split_on c ys)"
proof (induction xs)
  case Nil
  then show ?case by (cases "split_on c ys") (simp_all add: split_on_not_Nil [THEN notE])
next
  case (Cons x xs)
  obtain p ps where "split_on c xs = p # ps" by (cases "split_on c xs") auto
  with Cons show ?case by (cases ps) auto
qed

lemma split_on_terminated: "last (split_on c (xs @ [c])) = []"
proof -
  have "split_on c [c] = [[], []]" by simp
  then show ?thesis by (simp add: split_on_append)
qed

lemma text_lines_append:
  assumes "complete c"
  shows "text_lines (c @ d) = text_lines c @ text_lines d"
proof (cases "c = []")
  case False
  with assms obtain xs where "c = xs @ [newline]" by (metis append_butlast_last_id complete_def)
  then have l: "last (split_on newline c) = []" by (simp add: split_on_terminated)
  obtain p ps where d: "split_on newline d = p # ps" by (cases "split_on newline d") auto
  have "split_on newline (c @ d) = butlast (split_on newline c) @ split_on newline d"
    by (simp add: split_on_append [of newline c] l d)
  then show ?thesis by (simp add: text_lines_def Let_def l d butlast_append)
qed simp

lemma read_events_append:
  "complete c \<Longrightarrow> read_events crc (c @ d) = read_events crc c @ read_events crc d"
  by (simp add: text_lines_append read_events_def valid_lines_def List.map_filter_def)

section \<open>The storage as a log\<close>

definition storage_ok :: "file_storage \<Rightarrow> bool" where
  "storage_ok s \<longleftrightarrow>
     fs_enable_checksums s \<and> complete (contents (fs_segment s)) \<and>
     complete (contents (fs_events_file s)) \<and> list_all event_ok (fs_event_batch s)"

lemma complete_lines: "complete c \<Longrightarrow> complete (c @ concat (map (event_line crc b) es))"
proof (induction es arbitrary: c)
  case (Cons e es)
  have "complete (c @ event_line crc b e)" by (simp add: complete_def event_line_def)
  from Cons.IH [OF this] show ?case by simp
qed simp

lemma contents_append [simp]: "contents (append_file x f) = contents f @ x"
  by (simp add: append_file_def contents_def)

lemma read_appended:
  assumes "complete c" and "list_all event_ok es"
  shows "read_events crc (c @ concat (map (event_line crc True) es)) = read_events crc c @ es"
  using read_events_lines [OF assms(2), of crc "[]"] by (simp add: read_events_append [OF assms(1)])

lemma storage_ok_append:
  "storage_ok s \<Longrightarrow> event_ok e \<Longrightarrow>
   storage_ok (s\<lparr>fs_event_batch := fs_event_batch s @ [e], fs_batch_count := n\<rparr>)"
  by (simp add: storage_ok_def)

lemma storage_ok_flush: "storage_ok s \<Longrightarrow> storage_ok (flush_batch crc s)"
  by (auto simp: storage_ok_def flush_batch_def maybe_rotate_def append_file_def contents_def
      complete_lines split: option.splits)
    (auto simp: complete_def)

lemma flush_batch_empty [simp]: "fs_event_batch (flush_batch crc s) = []"
  by (simp add: flush_batch_def maybe_rotate_def append_file_def)

lemma flush_keeps_limits [simp]:
  "fs_max_log_file_size (flush_batch crc s) = fs_max_log_file_size s"
  "fs_max_batch_size (flush_batch crc s) = fs_max_batch_size s"
  by (simp_all add: flush_batch_def maybe_rotate_def append_file_def)

lemma flush_reads:
  assumes "storage_ok s" and "fs_max_log_file_size s = 0"
  shows "read_all_events crc (flush_batch crc s) = read_all_events crc s @ fs_event_batch s"
  using assms
  by (simp add: storage_ok_def flush_batch_def maybe_rotate_def read_all_events_def read_appended)

text \<open>What the storage holds, on disk and in its batch.\<close>

definition held :: "(string \<Rightarrow> u32) \<Rightarrow> file_storage \<Rightarrow> string list" where
  "held crc s = read_all_events crc s @ fs_event_batch s"

lemma append_event_held:
  assumes "storage_ok s" and "fs_max_log_file_size s = 0" and "event_ok e"
  shows "storage_ok (append_event crc e s)" "fs_max_log_file_size (append_event crc e s) = 0"
    "held crc (append_event crc e s) = held crc s @ [e]"
proof -
  let ?s = "s\<lparr>fs_event_batch := fs_event_batch s @ [e], fs_batch_count := Suc (fs_batch_count s)\<rparr>"
  have ok: "storage_ok ?s" and m: "fs_max_log_file_size ?s = 0"
    using assms storage_ok_append by simp_all
  have r: "read_all_events crc ?s = read_all_events crc s" by (simp add: read_all_events_def)
  show "storage_ok (append_event crc e s)"
    using storage_ok_flush [OF ok] ok by (simp add: append_event_def Let_def)
  show "fs_max_log_file_size (append_event crc e s) = 0"
    using assms(2) by (simp add: append_event_def Let_def)
  show "held crc (append_event crc e s) = held crc s @ [e]"
    using flush_reads [OF ok m, of crc] r by (simp add: held_def append_event_def Let_def)
qed

lemma append_events_held:
  assumes "storage_ok s" and "fs_max_log_file_size s = 0" and "list_all event_ok es"
  shows "storage_ok (fold (append_event crc) es s) \<and>
    fs_max_log_file_size (fold (append_event crc) es s) = 0 \<and>
    held crc (fold (append_event crc) es s) = held crc s @ es"
  using assms
proof (induction es arbitrary: s)
  case (Cons e es)
  then show ?case using append_event_held [of s e crc] by simp
qed simp

text \<open>The batch never grows to its limit.\<close>

lemma batch_bound:
  assumes "fs_batch_count s = length (fs_event_batch s)" and "length (fs_event_batch s) < fs_max_batch_size s"
  shows "fs_batch_count (fold (append_event crc) es s) = length (fs_event_batch (fold (append_event crc) es s)) \<and>
    length (fs_event_batch (fold (append_event crc) es s)) < fs_max_batch_size (fold (append_event crc) es s)"
  using assms
proof (induction es arbitrary: s)
  case (Cons e es)
  let ?s = "append_event crc e s"
  have "fs_batch_count (flush_batch crc x) = 0" if "fs_event_batch x \<noteq> []" for x
    using that by (simp add: flush_batch_def maybe_rotate_def append_file_def)
  then have "fs_batch_count ?s = length (fs_event_batch ?s) \<and> length (fs_event_batch ?s) < fs_max_batch_size ?s"
    using Cons.prems by (simp add: append_event_def Let_def)
  with Cons.IH [of ?s] show ?case by simp
qed simp

section \<open>Properties\<close>

definition demo_crc :: "string \<Rightarrow> u32" where
  "demo_crc s = of_nat (sum_list (map of_char s))"

definition demo_storage :: file_storage where
  "demo_storage = file_storage_new None
     \<lparr>ef_events = None, ef_segment = None, ef_index = None, ef_snapshot = None, ef_dedup = None\<rparr>"

text \<open>
  The event log is a list: without a size limit, appending events leaves what was held before
  followed by these events, at most a batch of it in memory, and after a flush a storage that is
  opened on the files reads all of it, in order.
\<close>

theorem event_log_roundtrip:
  fixes crc :: "string \<Rightarrow> u32"
  assumes "storage_ok s" and "fs_max_log_file_size s = 0" and "list_all event_ok es"
    and "fs_batch_count s = length (fs_event_batch s)" and "length (fs_event_batch s) < fs_max_batch_size s"
  defines "s' \<equiv> fold (append_event crc) es s"
  shows "held crc s' = held crc s @ es \<and> length (fs_event_batch s') < fs_max_batch_size s' \<and>
    read_all_events crc (file_storage_new limit (files_of (flush_events crc s'))) = held crc s @ es"
proof -
  from append_events_held [OF assms(1-3), of crc]
  have s': "storage_ok s'" "fs_max_log_file_size s' = 0" "held crc s' = held crc s @ es"
    by (simp_all add: s'_def)
  have "read_all_events crc (file_storage_new limit (files_of (flush_events crc s'))) =
      read_all_events crc (flush_batch crc s')"
    by (simp add: read_all_events_def file_storage_new_def files_of_def flush_events_def)
  with s' flush_reads [OF s'(1,2), of crc] batch_bound [OF assms(4,5), of crc es] show ?thesis
    by (simp add: held_def s'_def)
qed

lemma event_log_roundtrip_witness:
  "read_all_events demo_crc (file_storage_new None (files_of (flush_events demo_crc
     (fold (append_event demo_crc) [''{1}'', ''{2}''] demo_storage)))) = [''{1}'', ''{2}'']"
proof -
  have ok: "storage_ok demo_storage" "fs_max_log_file_size demo_storage = 0"
    "list_all event_ok [''{1}'', ''{2}'']"
    "fs_batch_count demo_storage = length (fs_event_batch demo_storage)"
    "length (fs_event_batch demo_storage) < fs_max_batch_size demo_storage"
    by (simp_all add: demo_storage_def file_storage_new_def storage_ok_def contents_def complete_def
        event_ok_def newline_def)
  have "held demo_crc demo_storage = []"
    by (simp add: held_def read_all_events_def demo_storage_def file_storage_new_def contents_def)
  with event_log_roundtrip [OF ok, of demo_crc None] show ?thesis by simp
qed

text \<open>
  Rotation forgets: a flush that brings the events file to its size limit keeps the file as the
  only old segment, and the events of the segment that was there before are gone for good; a
  flush below the limit loses nothing.
\<close>

theorem rotation_forgets:
  fixes crc :: "string \<Rightarrow> u32"
  assumes "storage_ok s" and "fs_event_batch s \<noteq> []"
  defines "now \<equiv> read_events crc (contents (fs_events_file s)) @ fs_event_batch s"
    and "bytes_after \<equiv> length (contents (fs_events_file s)) +
      sum_list (map (\<lambda>e. length e + 10) (fs_event_batch s))"
  shows "read_all_events crc (flush_batch crc s) =
    (if 0 < fs_max_log_file_size s \<and> fs_max_log_file_size s \<le> bytes_after then now
     else read_events crc (contents (fs_segment s)) @ now)"
proof -
  let ?new = "contents (fs_events_file s) @ concat (map (event_line crc True) (fs_event_batch s))"
  have "length (event_line crc True e) = length e + 10" for e
    using hex8_plain(1) [of "crc e"] by (simp add: event_line_def format_event_with_crc32_def)
  then have "length ?new = bytes_after"
    by (simp add: bytes_after_def length_concat comp_def)
  moreover have "read_events crc ?new = now"
    using assms(1) by (simp add: storage_ok_def read_appended now_def)
  ultimately show ?thesis
    using assms(1,2)
    by (auto simp: storage_ok_def flush_batch_def maybe_rotate_def read_all_events_def append_file_def
        contents_def)
qed

definition rotating_storage :: file_storage where
  "rotating_storage = demo_storage\<lparr>fs_max_log_file_size := 10,
     fs_segment := Some (event_line demo_crc True ''{1}''), fs_event_batch := [''{2}'']\<rparr>"

lemma rotation_forgets_witness:
  "read_all_events demo_crc rotating_storage = [''{1}''] \<and>
   read_all_events demo_crc (flush_batch demo_crc rotating_storage) = [''{2}'']"
proof
  have e: "event_ok ''{1}''" "event_ok ''{2}''" by (simp_all add: event_ok_def newline_def)
  have "complete (event_line demo_crc True ''{1}'')"
    by (simp add: complete_def event_line_def)
  then have "storage_ok rotating_storage" "fs_event_batch rotating_storage \<noteq> []"
    using e by (simp_all add: rotating_storage_def storage_ok_def demo_storage_def file_storage_new_def
        contents_def complete_def [of "[]"])
  from rotation_forgets [OF this, of demo_crc]
  show "read_all_events demo_crc (flush_batch demo_crc rotating_storage) = [''{2}'']"
    by (simp add: rotating_storage_def demo_storage_def file_storage_new_def contents_def)
  show "read_all_events demo_crc rotating_storage = [''{1}'']"
    using read_events_frame [OF e(1), of demo_crc "[]"]
    by (simp add: read_all_events_def rotating_storage_def demo_storage_def file_storage_new_def contents_def)
qed

lemma hex_number_bad:
  assumes "hex_value c = None"
  shows "hex_number (c # cs) = None"
proof -
  have "foldl (\<lambda>acc c. case (acc, hex_value c) of (Some a, Some d) \<Rightarrow> Some (16 * a + d) | _ \<Rightarrow> None)
      None cs = None"
    by (induction cs) simp_all
  then show ?thesis using assms by (simp add: hex_number_def)
qed

lemma legacy_five_letters:
  assumes "length k = 5"
  shows "parse_and_validate_event crc (''{'' @ CHR 34 # k @ CHR 34 # '':'' @ v) =
    (if v = [] then Inr (''{'' @ CHR 34 # k @ CHR 34 # '':'')
     else Inl (InvalidHex (take 8 (''{'' @ CHR 34 # k @ CHR 34 # '':'' @ v))))"
proof -
  obtain a b c d e where k: "k = [a, b, c, d, e]"
    using assms by (auto simp: length_Suc_conv numeral_eq_Suc)
  have "hex_value CHR ''{'' = None" by (simp add: hex_value_def)
  then have "parse_hex32 (''{'' @ CHR 34 # k @ [CHR 34]) = None"
    by (simp add: parse_hex32_def hex_number_bad k)
  then show ?thesis
    by (simp add: parse_and_validate_event_def k Let_def)
qed

lemma checksummed_line:
  assumes "json \<noteq> []"
  shows "parse_and_validate_event crc (hex8 w @ '':'' @ json) =
    (if w = crc json then Inr json else Inl (CrcMismatch w (crc json)))"
  using assms hex8_plain(1) [of w] parse_hex8 [of w]
  by (simp add: parse_and_validate_event_def nth_append Let_def)

lemma read_events_middle:
  assumes "list_all event_ok es1" and "list_all event_ok es2"
    and "newline \<notin> set l" and "l \<noteq> []" and "last l \<noteq> CHR 13"
    and "c \<in> set l" and "\<not> is_space c"
  shows "read_events crc (concat (map (event_line crc True) es1) @ l @ newline #
      concat (map (event_line crc True) es2)) =
    es1 @ (case parse_and_validate_event crc l of Inl e \<Rightarrow> [] | Inr json \<Rightarrow> [json]) @ es2"
proof -
  have "strip_cr l = l" using assms(5) by (simp add: strip_cr_def)
  moreover have "trim l \<noteq> []" using assms(6,7) by (rule trim_nonblank)
  moreover have "valid_lines crc [] = []" by (simp add: valid_lines_def List.map_filter_simps)
  ultimately show ?thesis
    using read_events_lines [OF assms(2), of crc "[]"]
    by (simp add: read_events_lines [OF assms(1)] read_events_line [OF assms(3)] valid_lines_Cons)
qed

text \<open>
  Damage stays local: whatever one line of the log has become, the events before and after it
  are read, and it contributes an event only if its checksum fits what follows it. But a line
  without checksum, which older logs have, is refused when its first key has five letters: its
  colon is then taken for the end of a checksum.
\<close>

theorem damage_is_local:
  fixes crc :: "string \<Rightarrow> u32"
  assumes "list_all event_ok es1" and "list_all event_ok es2" and "event_ok json"
  defines "file_with \<equiv> \<lambda>l. concat (map (event_line crc True) es1) @ l @ newline #
    concat (map (event_line crc True) es2)"
  shows "read_events crc (file_with (hex8 w @ '':'' @ json)) =
      es1 @ (if w = crc json then [json] else []) @ es2 \<and>
    (length k = 5 \<longrightarrow> newline \<notin> set k \<longrightarrow>
      read_events crc (file_with (''{'' @ CHR 34 # k @ CHR 34 # '':'' @ json)) = es1 @ es2)"
proof
  note json = assms(3) [unfolded event_ok_def]
  let ?l = "hex8 w @ '':'' @ json"
  have "newline \<notin> set ?l" using json hex8_plain(2) [of newline w] by (auto simp: newline_def)
  moreover have "CHR '':'' \<in> set ?l" "\<not> is_space CHR '':''" by (simp_all add: is_space_def)
  ultimately show "read_events crc (file_with ?l) = es1 @ (if w = crc json then [json] else []) @ es2"
    unfolding file_with_def using json
    by (subst read_events_middle [OF assms(1,2)]) (simp_all add: checksummed_line [simplified])
  show "length k = 5 \<longrightarrow> newline \<notin> set k \<longrightarrow>
      read_events crc (file_with (''{'' @ CHR 34 # k @ CHR 34 # '':'' @ json)) = es1 @ es2"
  proof (intro impI)
    assume k: "length k = 5" "newline \<notin> set k"
    let ?m = "''{'' @ CHR 34 # k @ CHR 34 # '':'' @ json"
    have "newline \<notin> set ?m" using json k(2) by (simp add: newline_def)
    moreover have "CHR ''{'' \<in> set ?m" "\<not> is_space CHR ''{''" by (simp_all add: is_space_def)
    ultimately show "read_events crc (file_with ?m) = es1 @ es2"
      unfolding file_with_def using json legacy_five_letters [OF k(1), of crc json]
      by (subst read_events_middle [OF assms(1,2)]) simp_all
  qed
qed

lemma damage_is_local_witness:
  "read_events demo_crc (event_line demo_crc True ''{1}'' @ (hex8 0 @ '':'' @ ''{2}'') @ newline # []) =
     [''{1}''] \<and>
   read_events demo_crc ((''{'' @ CHR 34 # ''event'' @ CHR 34 # '':'' @ ''1}'') @ newline # []) = []"
proof
  have e: "list_all event_ok [''{1}'']" "list_all event_ok []" "event_ok ''{2}''" "event_ok ''1}''"
    by (simp_all add: event_ok_def newline_def)
  have "demo_crc ''{2}'' \<noteq> 0" by (simp add: demo_crc_def)
  then show "read_events demo_crc (event_line demo_crc True ''{1}'' @ (hex8 0 @ '':'' @ ''{2}'') @ newline # []) =
     [''{1}'']"
    using damage_is_local [OF e(1,2,3), of demo_crc 0] by simp
  show "read_events demo_crc ((''{'' @ CHR 34 # ''event'' @ CHR 34 # '':'' @ ''1}'') @ newline # []) = []"
    using damage_is_local [OF e(2,2,4), of demo_crc 0 "''event''"] by (simp add: newline_def)
qed

section \<open>Binary logs\<close>

lemma of_char_char_of_u8: "(of_char (char_of (unat (b :: u8))) :: u8) = b"
proof -
  have "of_char (char_of (unat b)) = (of_nat (unat b mod 256) :: u8)"
    using of_char_of [where ?'a = nat, of "unat b"]
    by (metis of_char_mod_256 of_nat_of_char)
  moreover have "unat b < 256" using unsigned_less [of b, where ?'a = nat] by simp
  ultimately show ?thesis by simp
qed

lemma from_le64_le64 [simp]: "from_le64_chars (le64 w) = w"
  by (simp add: from_le64_chars_def le64_def comp_def of_char_char_of_u8)

lemma length_le64 [simp]: "length (le64 w) = 8"
  by (simp add: le64_def)

lemma length_binary_frame [simp]: "length (binary_frame p) = 8 + length p"
  by (simp add: binary_frame_def)

lemma read_frame:
  assumes "length pre + 8 + length p < 2 ^ 64"
  shows "read_frames (pre @ binary_frame p @ rest) (length pre) =
    map_option ((#) p) (read_frames (pre @ binary_frame p @ rest) (length pre + 8 + length p))"
proof -
  have "unat (from_le64_chars (take 8 (drop (length pre) (pre @ binary_frame p @ rest)))) = length p"
    using assms by (simp add: binary_frame_def unat_of_nat_u64)
  moreover have "take (length p) (drop (length pre + 8) (pre @ binary_frame p @ rest)) = p"
    by (simp add: binary_frame_def)
  ultimately show ?thesis
    using assms by (subst read_frames.simps) (simp add: Let_def add.assoc)
qed

lemma read_frames_frames:
  assumes "length pre + length (concat (map binary_frame ps)) < 2 ^ 64"
  shows "read_frames (pre @ concat (map binary_frame ps) @ rest) (length pre) =
    map_option ((@) ps) (read_frames (pre @ concat (map binary_frame ps) @ rest)
      (length pre + length (concat (map binary_frame ps))))"
  using assms
proof (induction ps arbitrary: pre)
  case Nil
  then show ?case by (simp add: option.map_ident_strong)
next
  case (Cons p ps)
  have "length pre + 8 + length p < 2 ^ 64" using Cons.prems by simp
  from read_frame [OF this, of "concat (map binary_frame ps) @ rest"]
    Cons.IH [of "pre @ binary_frame p"] Cons.prems
  show ?case by (simp add: option.map_comp comp_def add.assoc)
qed

text \<open>
  A binary log survives a torn write: after complete frames, followed by any proper beginning of
  another one, reading returns exactly the complete events, in order, and does not fail.
\<close>

theorem binary_log_torn:
  assumes "length (concat (map binary_frame ps)) + 8 + length p < 2 ^ 63"
    and "n < length (binary_frame p)"
  shows "read_frames (concat (map binary_frame ps) @ take n (binary_frame p)) 0 = Some ps"
proof -
  let ?c = "concat (map binary_frame ps)"
  have "read_frames (?c @ take n (binary_frame p)) (length ?c) = Some []"
  proof (cases "n < 8")
    case True
    then show ?thesis by (subst read_frames.simps) simp
  next
    case False
    then have t: "take n (binary_frame p) = le64 (of_nat (length p)) @ take (n - 8) p"
      by (simp add: binary_frame_def)
    have "unat (from_le64_chars (take 8 (drop (length ?c) (?c @ take n (binary_frame p))))) = length p"
      using assms(1) by (simp add: t unat_of_nat_u64)
    then show ?thesis
      using assms False by (subst read_frames.simps) (simp add: t Let_def)
  qed
  then show ?thesis
    using read_frames_frames [of "[]" ps "take n (binary_frame p)"] assms(1) by simp
qed

lemma binary_log_torn_witness:
  "read_frames (binary_frame ''ab'' @ take 9 (binary_frame ''cd'')) 0 = Some [''ab'']"
  using binary_log_torn [of "[''ab'']" "''cd''" 9] by simp

end
