(* ===== verification/EventChain.thy ===== *)
theory EventChain
  imports EventFile "HOL-Library.Countable"
begin

text \<open>
  The event store, from \<^verbatim>\<open>lithair-core/src/engine/events.rs\<close>: envelopes with their hashes, the
  store over one file storage, and the verification of the hash chain. SHA-256 in hexadecimal
  is the parameter \<open>sha\<close>, \<^verbatim>\<open>serde_json\<close> and \<^verbatim>\<open>bincode\<close> are the record \<open>event_codec\<close>; the settings
  that the environment gives are arguments.
\<close>

section \<open>Envelopes\<close>

record envelope =
  ev_event_type :: string
  ev_event_id :: string
  ev_timestamp :: u64
  ev_payload :: string
  ev_aggregate_id :: "string option"
  ev_event_hash :: "string option"
  ev_previous_hash :: "string option"

definition or_empty :: "string option \<Rightarrow> string" where
  "or_empty x = (case x of None \<Rightarrow> [] | Some s \<Rightarrow> s)"

definition hash_input :: "envelope \<Rightarrow> string" where
  "hash_input e =
     ev_event_type e @ ''|'' @ ev_event_id e @ ''|'' @ le64 (ev_timestamp e) @ ''|'' @
     ev_payload e @ ''|'' @ or_empty (ev_aggregate_id e) @ ''|'' @ or_empty (ev_previous_hash e)"

definition compute_hash :: "(string \<Rightarrow> string) \<Rightarrow> envelope \<Rightarrow> string" where
  "compute_hash sha e = sha (hash_input e)"

definition envelope_new ::
  "(string \<Rightarrow> string) \<Rightarrow> string \<Rightarrow> string \<Rightarrow> u64 \<Rightarrow> string \<Rightarrow> string option \<Rightarrow> string option \<Rightarrow> envelope"
where
  "envelope_new sha kind i ts payload agg prev =
     (let e = \<lparr>ev_event_type = kind, ev_event_id = i, ev_timestamp = ts, ev_payload = payload,
               ev_aggregate_id = agg, ev_event_hash = None, ev_previous_hash = prev\<rparr>
      in e\<lparr>ev_event_hash := Some (compute_hash sha e)\<rparr>)"

definition verify_hash :: "(string \<Rightarrow> string) \<Rightarrow> envelope \<Rightarrow> bool" where
  "verify_hash sha e =
     (case ev_event_hash e of Some h \<Rightarrow> h = compute_hash sha e | None \<Rightarrow> True)"

definition links_to :: "envelope \<Rightarrow> envelope \<Rightarrow> bool" where
  "links_to e previous =
     (case (ev_previous_hash e, ev_event_hash previous) of
        (Some p, Some h) \<Rightarrow> p = h
      | (None, None) \<Rightarrow> True
      | _ \<Rightarrow> False)"

section \<open>The store\<close>

record event_codec =
  ec_to_json :: "envelope \<Rightarrow> string + string"
  ec_of_json :: "string \<Rightarrow> envelope option"
  ec_encode :: "envelope \<Rightarrow> string + string"
  ec_decode :: "string \<Rightarrow> envelope option"
  ec_index_line :: "string \<times> u64 \<Rightarrow> string"

record event_store =
  es_storage :: file_storage
  es_events_count :: nat
  es_pending_since_flush :: nat
  es_flush_every :: nat
  es_binary_mode :: bool
  es_disable_index :: bool
  es_dedup_persist :: bool
  es_last_event_hash :: "string option"
  es_enable_hash_chain :: bool

datatype engine_error = SerializationError string | InvalidOperation string | PersistenceError string

text \<open>Reading may panic in binary mode: the outer \<open>None\<close>.\<close>

definition decode_all :: "event_codec \<Rightarrow> string list \<Rightarrow> envelope list" where
  "decode_all C ls = List.map_filter (\<lambda>l. if l = [] then None else ec_decode C l) ls"

definition parse_all :: "event_codec \<Rightarrow> string list \<Rightarrow> envelope list" where
  "parse_all C ls = List.map_filter (ec_of_json C) ls"

definition read_envelopes ::
  "(string \<Rightarrow> u32) \<Rightarrow> event_codec \<Rightarrow> bool \<Rightarrow> file_storage \<Rightarrow> envelope list option"
where
  "read_envelopes crc C binary s =
     (if binary then map_option (decode_all C) (read_all_event_bytes s)
      else Some (parse_all C (read_all_events crc s)))"

definition load_last_event_hash ::
  "(string \<Rightarrow> u32) \<Rightarrow> event_codec \<Rightarrow> bool \<Rightarrow> file_storage \<Rightarrow> string option option"
where
  "load_last_event_hash crc C binary s =
     map_option (\<lambda>es. if es = [] then None else ev_event_hash (last es)) (read_envelopes crc C binary s)"

record store_settings =
  st_max_log_file_size :: "nat option"
  st_enable_binary :: bool
  st_disable_index :: bool
  st_dedup_persist :: bool
  st_disable_hash_chain :: bool

definition event_store_new ::
  "(string \<Rightarrow> u32) \<Rightarrow> event_codec \<Rightarrow> store_settings \<Rightarrow> bool \<Rightarrow> event_files \<Rightarrow> event_store option"
where
  "event_store_new crc C st binary d =
     (let s = file_storage_new (st_max_log_file_size st) d
      in case (if binary then map_option length (read_all_event_bytes s)
               else Some (length (read_all_events crc s)),
               load_last_event_hash crc C binary s) of
           (Some n, Some h) \<Rightarrow>
             Some \<lparr>es_storage = s, es_events_count = n, es_pending_since_flush = 0, es_flush_every = 1,
                   es_binary_mode = binary \<or> st_enable_binary st,
                   es_disable_index = st_disable_index st, es_dedup_persist = st_dedup_persist st,
                   es_last_event_hash = h, es_enable_hash_chain = \<not> st_disable_hash_chain st\<rparr>
         | _ \<Rightarrow> None)"

text \<open>Over a storage that is open already, the log is read as text whatever the mode.\<close>

definition event_store_with_storage ::
  "(string \<Rightarrow> u32) \<Rightarrow> event_codec \<Rightarrow> store_settings \<Rightarrow> file_storage \<Rightarrow> event_store"
where
  "event_store_with_storage crc C st s =
     \<lparr>es_storage = s, es_events_count = length (read_all_events crc s), es_pending_since_flush = 0,
      es_flush_every = 1, es_binary_mode = st_enable_binary st,
      es_disable_index = st_disable_index st, es_dedup_persist = st_dedup_persist st,
      es_last_event_hash =
        (let es = parse_all C (read_all_events crc s)
         in if es = [] then None else ev_event_hash (last es)),
      es_enable_hash_chain = \<not> st_disable_hash_chain st\<rparr>"

definition set_binary_mode :: "bool \<Rightarrow> event_store \<Rightarrow> event_store" where
  "set_binary_mode b s = s\<lparr>es_binary_mode := b\<rparr>"

definition set_flush_every :: "nat \<Rightarrow> event_store \<Rightarrow> event_store" where
  "set_flush_every n s = s\<lparr>es_flush_every := n\<rparr>"

definition set_hash_chain :: "bool \<Rightarrow> event_store \<Rightarrow> event_store" where
  "set_hash_chain b s = s\<lparr>es_enable_hash_chain := b\<rparr>"

definition es_flush :: "(string \<Rightarrow> u32) \<Rightarrow> event_store \<Rightarrow> event_store" where
  "es_flush crc s =
     s\<lparr>es_storage := EventFile.flush_events crc (es_storage s), es_pending_since_flush := 0\<rparr>"

definition es_flush_events :: "(string \<Rightarrow> u32) \<Rightarrow> event_store \<Rightarrow> event_store" where
  "es_flush_events crc s = s\<lparr>es_storage := EventFile.flush_events crc (es_storage s)\<rparr>"

definition es_force_flush :: "(string \<Rightarrow> u32) \<Rightarrow> event_store \<Rightarrow> event_store" where
  "es_force_flush crc s =
     s\<lparr>es_storage := EventFile.force_flush crc (es_storage s), es_pending_since_flush := 0\<rparr>"

definition note_appended :: "(string \<Rightarrow> u32) \<Rightarrow> event_store \<Rightarrow> event_store" where
  "note_appended crc s =
     (let s1 = s\<lparr>es_events_count := es_events_count s + 1,
                 es_pending_since_flush := es_pending_since_flush s + 1\<rparr>
      in if 0 < es_flush_every s1 \<and> es_flush_every s1 \<le> es_pending_since_flush s1
         then es_flush crc s1 else s1)"

definition es_append_event :: "(string \<Rightarrow> u32) \<Rightarrow> string \<Rightarrow> event_store \<Rightarrow> event_store" where
  "es_append_event crc json s =
     note_appended crc (s\<lparr>es_storage := EventFile.append_event crc json (es_storage s)\<rparr>)"

definition append_raw_line :: "(string \<Rightarrow> u32) \<Rightarrow> string \<Rightarrow> event_store \<Rightarrow> event_store" where
  "append_raw_line crc line s =
     s\<lparr>es_storage := EventFile.append_event crc line (es_storage s),
       es_events_count := es_events_count s + 1,
       es_pending_since_flush := es_pending_since_flush s + 1\<rparr>"

definition chained :: "(string \<Rightarrow> string) \<Rightarrow> event_store \<Rightarrow> envelope \<Rightarrow> envelope" where
  "chained sha s e =
     (if es_enable_hash_chain s \<and> ev_event_hash e = None
      then let c = e\<lparr>ev_previous_hash := es_last_event_hash s\<rparr>
           in c\<lparr>ev_event_hash := Some (compute_hash sha c)\<rparr>
      else e)"

definition append_envelope ::
  "(string \<Rightarrow> u32) \<Rightarrow> (string \<Rightarrow> string) \<Rightarrow> event_codec \<Rightarrow> envelope \<Rightarrow> event_store \<Rightarrow>
   (engine_error + unit) \<times> event_store"
where
  "append_envelope crc sha C e s =
     (let p = chained sha s e;
          will_index = (\<not> es_disable_index s \<and> ev_aggregate_id p \<noteq> None);
          offset = (if will_index then current_events_size (es_storage s) else 0)
      in case (if es_binary_mode s
               then map_sum id (\<lambda>b. append_binary_event_bytes b (es_storage s)) (ec_encode C p)
               else map_sum id (\<lambda>j. EventFile.append_event crc j (es_storage s)) (ec_to_json C p)) of
           Inl msg \<Rightarrow> (Inl (SerializationError msg), s)
         | Inr f \<Rightarrow>
             (let f1 = (case ev_aggregate_id p of
                          Some agg \<Rightarrow> if will_index
                            then append_index_entry (ec_index_line C) agg offset f else f
                        | None \<Rightarrow> f);
                  s1 = s\<lparr>es_storage := f1\<rparr>;
                  s2 = (if es_enable_hash_chain s
                        then s1\<lparr>es_last_event_hash := ev_event_hash p\<rparr> else s1)
              in (Inr (), note_appended crc s2)))"

definition get_all_events ::
  "(string \<Rightarrow> u32) \<Rightarrow> event_codec \<Rightarrow> event_store \<Rightarrow> (engine_error + string list) option"
where
  "get_all_events crc C s =
     (if \<not> es_binary_mode s then Some (Inr (read_all_events crc (es_storage s)))
      else
        map_option
          (\<lambda>ls. foldr
             (\<lambda>l acc.
               if l = [] then acc
               else case ec_decode C l of
                      Some e \<Rightarrow>
                        (case ec_to_json C e of
                           Inl msg \<Rightarrow> Inl (SerializationError msg)
                         | Inr json \<Rightarrow> map_sum id ((#) json) acc)
                    | None \<Rightarrow> if trim l = [] then acc else map_sum id ((#) l) acc)
             ls (Inr []))
          (read_all_event_bytes (es_storage s)))"

definition get_all_envelopes ::
  "(string \<Rightarrow> u32) \<Rightarrow> event_codec \<Rightarrow> event_store \<Rightarrow> envelope list option"
where
  "get_all_envelopes crc C s = read_envelopes crc C (es_binary_mode s) (es_storage s)"

definition save_dedup_id :: "string \<Rightarrow> event_store \<Rightarrow> event_store" where
  "save_dedup_id i s =
     (if \<not> es_dedup_persist s then s else s\<lparr>es_storage := append_dedup_id i (es_storage s)\<rparr>)"

definition load_dedup_ids :: "event_store \<Rightarrow> string list" where
  "load_dedup_ids s = read_all_dedup_ids (es_storage s)"

definition es_truncate_events :: "event_store \<Rightarrow> event_store" where
  "es_truncate_events s =
     s\<lparr>es_storage := EventFile.truncate_events (es_storage s), es_events_count := 0\<rparr>"

definition es_save_snapshot :: "string \<Rightarrow> event_store \<Rightarrow> event_store" where
  "es_save_snapshot state s = s\<lparr>es_storage := EventFile.save_snapshot state (es_storage s)\<rparr>"

definition es_load_snapshot :: "event_store \<Rightarrow> string option" where
  "es_load_snapshot s = EventFile.load_snapshot (es_storage s)"

section \<open>Verification of the chain\<close>

record chain_error =
  ce_event_index :: nat
  ce_event_id :: string
  ce_error :: string

record chain_result =
  cr_total_events :: nat
  cr_verified_events :: nat
  cr_legacy_events :: nat
  cr_invalid_hashes :: "chain_error list"
  cr_broken_links :: "chain_error list"
  cr_is_valid :: bool

definition chain_failure :: "nat \<Rightarrow> envelope \<Rightarrow> string \<Rightarrow> chain_error" where
  "chain_failure i e msg = \<lparr>ce_event_index = i, ce_event_id = ev_event_id e, ce_error = msg\<rparr>"

text \<open>The loop, with the index, the hash of the previous event and the result so far.\<close>

fun verify_from ::
  "(string \<Rightarrow> string) \<Rightarrow> nat \<Rightarrow> string option \<Rightarrow> envelope list \<Rightarrow> chain_result \<Rightarrow> chain_result"
where
  "verify_from sha i prev [] r = r"
| "verify_from sha i prev (e # es) r =
     (if ev_event_hash e = None
      then verify_from sha (i + 1) None es (r\<lparr>cr_legacy_events := cr_legacy_events r + 1\<rparr>)
      else
        let r1 = (if \<not> verify_hash sha e
                  then r\<lparr>cr_invalid_hashes := cr_invalid_hashes r @
                           [chain_failure i e ''Event hash does not match computed hash (tampered?)''],
                         cr_is_valid := False\<rparr>
                  else r);
            r2 = (case (ev_previous_hash e, prev) of
                    (Some p, Some h) \<Rightarrow>
                      if p \<noteq> h
                      then r1\<lparr>cr_broken_links := cr_broken_links r1 @
                               [chain_failure i e (''Chain broken: previous_hash '' @ p @
                                  '' doesn't match expected '' @ h)],
                             cr_is_valid := False\<rparr>
                      else r1\<lparr>cr_verified_events := cr_verified_events r1 + 1\<rparr>
                  | (None, Some h) \<Rightarrow>
                      r1\<lparr>cr_broken_links := cr_broken_links r1 @
                           [chain_failure i e ''Missing previous_hash but chain expected continuation''],
                         cr_is_valid := False\<rparr>
                  | _ \<Rightarrow> r1\<lparr>cr_verified_events := cr_verified_events r1 + 1\<rparr>)
        in verify_from sha (i + 1) (ev_event_hash e) es r2)"

definition verify_envelopes :: "(string \<Rightarrow> string) \<Rightarrow> envelope list \<Rightarrow> chain_result" where
  "verify_envelopes sha es =
     verify_from sha 0 None es
       \<lparr>cr_total_events = length es, cr_verified_events = 0, cr_legacy_events = 0,
        cr_invalid_hashes = [], cr_broken_links = [], cr_is_valid = True\<rparr>"

definition verify_chain ::
  "(string \<Rightarrow> u32) \<Rightarrow> (string \<Rightarrow> string) \<Rightarrow> event_codec \<Rightarrow> event_store \<Rightarrow> chain_result option"
where
  "verify_chain crc sha C s = map_option (verify_envelopes sha) (get_all_envelopes crc C s)"

definition is_fully_verified :: "chain_result \<Rightarrow> bool" where
  "is_fully_verified r \<longleftrightarrow> cr_is_valid r \<and> cr_legacy_events r = 0"

section \<open>What verification accepts\<close>

text \<open>The condition under which the chain is valid: an event without hash starts it anew.\<close>

definition link_ok :: "string option \<Rightarrow> envelope \<Rightarrow> bool" where
  "link_ok prev e \<longleftrightarrow> (case prev of None \<Rightarrow> True | Some h \<Rightarrow> ev_previous_hash e = Some h)"

fun chain_valid :: "(string \<Rightarrow> string) \<Rightarrow> string option \<Rightarrow> envelope list \<Rightarrow> bool" where
  "chain_valid sha prev [] \<longleftrightarrow> True"
| "chain_valid sha prev (e # es) \<longleftrightarrow>
     (case ev_event_hash e of
        None \<Rightarrow> chain_valid sha None es
      | Some h \<Rightarrow> h = compute_hash sha e \<and> link_ok prev e \<and> chain_valid sha (Some h) es)"

definition has_hash :: "envelope \<Rightarrow> bool" where
  "has_hash e \<longleftrightarrow> ev_event_hash e \<noteq> None"

lemma verify_from_valid:
  "cr_is_valid (verify_from sha i prev es r) \<longleftrightarrow> cr_is_valid r \<and> chain_valid sha prev es"
  by (induction es arbitrary: i prev r)
    (auto simp: Let_def verify_hash_def link_ok_def split: option.splits)

lemma verify_from_legacy:
  "cr_legacy_events (verify_from sha i prev es r) =
     cr_legacy_events r + length (filter (\<lambda>e. \<not> has_hash e) es)"
  by (induction es arbitrary: i prev r) (auto simp: Let_def has_hash_def split: option.splits)

lemma verify_from_counts:
  "chain_valid sha prev es \<Longrightarrow> list_all has_hash es \<Longrightarrow>
   cr_verified_events (verify_from sha i prev es r) = cr_verified_events r + length es"
  by (induction es arbitrary: i prev r)
    (auto simp: Let_def has_hash_def verify_hash_def link_ok_def split: option.splits)

lemma verify_from_total [simp]: "cr_total_events (verify_from sha i prev es r) = cr_total_events r"
  by (induction es arbitrary: i prev r) (auto simp: Let_def split: option.splits)

lemma verify_envelopes_valid: "cr_is_valid (verify_envelopes sha es) \<longleftrightarrow> chain_valid sha None es"
  by (simp add: verify_envelopes_def verify_from_valid)

lemma filter_none: "filter (\<lambda>e. \<not> P e) es = [] \<longleftrightarrow> list_all P es"
  by (induction es) auto

lemma verify_envelopes_full:
  "is_fully_verified (verify_envelopes sha es) \<longleftrightarrow> chain_valid sha None es \<and> list_all has_hash es"
  by (simp add: is_fully_verified_def verify_envelopes_valid)
    (simp add: verify_envelopes_def verify_from_legacy filter_none)

text \<open>The hash that the next event links to.\<close>

definition end_hash :: "string option \<Rightarrow> envelope list \<Rightarrow> string option" where
  "end_hash prev es = (if es = [] then prev else ev_event_hash (last es))"

lemma end_hash_simps [simp]:
  "end_hash prev [] = prev" "end_hash prev (e # es) = end_hash (ev_event_hash e) es"
  by (simp_all add: end_hash_def)

lemma chain_valid_append:
  "chain_valid sha prev (xs @ ys) \<longleftrightarrow> chain_valid sha prev xs \<and> chain_valid sha (end_hash prev xs) ys"
  by (induction xs arbitrary: prev) (auto split: option.splits)

lemma chain_valid_None: "chain_valid sha prev es \<Longrightarrow> chain_valid sha None es"
  by (cases es) (auto simp: link_ok_def split: option.splits)

section \<open>Appending\<close>

text \<open>The codec gives back what it wrote, as one line of text.\<close>

definition codec_law :: "event_codec \<Rightarrow> bool" where
  "codec_law C \<longleftrightarrow>
     (\<forall>e. \<exists>j. ec_to_json C e = Inr j \<and> event_ok j \<and> ec_of_json C j = Some e)"

definition fresh :: "envelope \<Rightarrow> bool" where
  "fresh e \<longleftrightarrow> ev_event_hash e = None"

text \<open>A text store with the chain, over a storage that is well formed and does not rotate.\<close>

definition store_ok :: "event_store \<Rightarrow> bool" where
  "store_ok s \<longleftrightarrow>
     storage_ok (es_storage s) \<and> fs_max_log_file_size (es_storage s) = 0 \<and>
     \<not> es_binary_mode s \<and> es_enable_hash_chain s"

text \<open>The envelopes a store holds, on disk and in its batch.\<close>

definition log_of :: "(string \<Rightarrow> u32) \<Rightarrow> event_codec \<Rightarrow> event_store \<Rightarrow> envelope list" where
  "log_of crc C s = parse_all C (held crc (es_storage s))"

lemma parse_all_append [simp]: "parse_all C (xs @ ys) = parse_all C xs @ parse_all C ys"
  by (simp add: parse_all_def List.map_filter_def)

lemma parse_all_one: "ec_of_json C j = Some e \<Longrightarrow> parse_all C [j] = [e]"
  by (simp add: parse_all_def List.map_filter_simps)

lemma index_entry_keeps [simp]:
  "storage_ok (append_index_entry render agg off f) = storage_ok f"
  "fs_max_log_file_size (append_index_entry render agg off f) = fs_max_log_file_size f"
  "held crc (append_index_entry render agg off f) = held crc f"
  by (simp_all add: append_index_entry_def storage_ok_def held_def read_all_events_def)

lemma flush_held:
  assumes "storage_ok s" and "fs_max_log_file_size s = 0"
  shows "held crc (flush_batch crc s) = held crc s"
  using flush_reads [OF assms, of crc] by (simp add: held_def)

lemma note_appended_simps:
  assumes "storage_ok (es_storage s)" and "fs_max_log_file_size (es_storage s) = 0"
  shows "storage_ok (es_storage (note_appended crc s))"
    "fs_max_log_file_size (es_storage (note_appended crc s)) = 0"
    "held crc (es_storage (note_appended crc s)) = held crc (es_storage s)"
    "es_binary_mode (note_appended crc s) = es_binary_mode s"
    "es_enable_hash_chain (note_appended crc s) = es_enable_hash_chain s"
    "es_last_event_hash (note_appended crc s) = es_last_event_hash s"
  using assms flush_held [OF assms, of crc] storage_ok_flush [OF assms(1), of crc]
  by (simp_all add: note_appended_def es_flush_def flush_events_def Let_def)

lemma append_envelope_text:
  assumes "store_ok s" and "codec_law C" and "append_envelope crc sha C e s = (r, s')"
  shows "r = Inr () \<and> store_ok s' \<and> log_of crc C s' = log_of crc C s @ [chained sha s e] \<and>
    es_last_event_hash s' = ev_event_hash (chained sha s e)"
proof -
  let ?p = "chained sha s e"
  from assms(2) obtain j where j: "ec_to_json C ?p = Inr j" "event_ok j" "ec_of_json C j = Some ?p"
    by (auto simp: codec_law_def)
  from assms(1) have s: "storage_ok (es_storage s)" "fs_max_log_file_size (es_storage s) = 0"
    "\<not> es_binary_mode s" "es_enable_hash_chain s" by (simp_all add: store_ok_def)
  let ?f = "EventFile.append_event crc j (es_storage s)"
  note f = append_event_held [OF s(1,2) j(2), of crc]
  obtain f1 where f1: "s' = note_appended crc
      (s\<lparr>es_storage := f1, es_last_event_hash := ev_event_hash ?p\<rparr>)" "r = Inr ()"
    "f1 = ?f \<or> (\<exists>agg off. f1 = append_index_entry (ec_index_line C) agg off ?f)"
    using assms(3) s j(1) by (auto simp: append_envelope_def Let_def split: option.splits if_splits)
  then have "storage_ok f1" "fs_max_log_file_size f1 = 0" "held crc f1 = held crc (es_storage s) @ [j]"
    using f by auto
  then show ?thesis
    using f1 s j(3) note_appended_simps [of "s\<lparr>es_storage := f1, es_last_event_hash := ev_event_hash ?p\<rparr>" crc]
    by (simp add: store_ok_def log_of_def parse_all_one)
qed

fun append_all ::
  "(string \<Rightarrow> u32) \<Rightarrow> (string \<Rightarrow> string) \<Rightarrow> event_codec \<Rightarrow> envelope list \<Rightarrow> event_store \<Rightarrow> event_store"
where
  "append_all crc sha C [] s = s"
| "append_all crc sha C (e # es) s = append_all crc sha C es (snd (append_envelope crc sha C e s))"

text \<open>What identifies an event besides its place in the chain.\<close>

definition core :: "envelope \<Rightarrow> envelope" where
  "core e = e\<lparr>ev_event_hash := None, ev_previous_hash := None\<rparr>"

lemma chained_simps:
  assumes "es_enable_hash_chain s" and "fresh e"
  shows "ev_event_hash (chained sha s e) = Some (compute_hash sha (chained sha s e))"
    "ev_previous_hash (chained sha s e) = es_last_event_hash s" "core (chained sha s e) = core e"
    "has_hash (chained sha s e)"
  using assms
  by (simp_all add: chained_def fresh_def Let_def compute_hash_def hash_input_def core_def has_hash_def)

lemma append_all_chain:
  assumes "store_ok s" and "codec_law C" and "list_all fresh es"
  shows "\<exists>cs. store_ok (append_all crc sha C es s) \<and>
    log_of crc C (append_all crc sha C es s) = log_of crc C s @ cs \<and> map core cs = map core es \<and>
    list_all has_hash cs \<and> chain_valid sha (es_last_event_hash s) cs \<and>
    es_last_event_hash (append_all crc sha C es s) = end_hash (es_last_event_hash s) cs"
  using assms
proof (induction es arbitrary: s)
  case Nil
  then show ?case by (intro exI [of _ "[]"]) simp
next
  case (Cons e es)
  obtain r s1 where app: "append_envelope crc sha C e s = (r, s1)"
    by (cases "append_envelope crc sha C e s")
  note one = append_envelope_text [OF Cons.prems(1,2) app]
  have e: "es_enable_hash_chain s" "fresh e" using Cons.prems by (simp_all add: store_ok_def)
  note c = chained_simps [OF e, of sha]
  have s1: "store_ok s1" and last: "es_last_event_hash s1 = ev_event_hash (chained sha s e)"
    using one by simp_all
  from Cons.IH [OF s1 Cons.prems(2)] Cons.prems(3) obtain cs where cs:
    "store_ok (append_all crc sha C es s1)"
    "log_of crc C (append_all crc sha C es s1) = log_of crc C s1 @ cs" "map core cs = map core es"
    "list_all has_hash cs" "chain_valid sha (es_last_event_hash s1) cs"
    "es_last_event_hash (append_all crc sha C es s1) = end_hash (es_last_event_hash s1) cs" by auto
  have "link_ok (es_last_event_hash s) (chained sha s e)"
    by (simp add: link_ok_def c(2) split: option.splits)
  then have "chain_valid sha (es_last_event_hash s) (chained sha s e # cs)"
    using cs(5) last c(1) by simp
  with cs c one last show ?case
    by (intro exI [of _ "chained sha s e # cs"]) (simp add: app)
qed

section \<open>Properties\<close>

text \<open>
  Appended events verify: a store whose log is a verified chain that ends with the store's last
  hash appends any events, flushes, and then verifies its log in full; the log holds the old
  events and the new ones in order, with their contents, and every one is counted as verified.
\<close>

theorem appended_chain_verifies:
  fixes crc :: "string \<Rightarrow> u32"
  assumes "store_ok s" and "codec_law C" and "list_all fresh es"
    and "chain_valid sha None (log_of crc C s)" and "list_all has_hash (log_of crc C s)"
    and "es_last_event_hash s = end_hash None (log_of crc C s)"
  defines "s' \<equiv> es_flush_events crc (append_all crc sha C es s)"
  shows "\<exists>cs r. get_all_envelopes crc C s' = Some (log_of crc C s @ cs) \<and>
    map core cs = map core es \<and> verify_chain crc sha C s' = Some r \<and> is_fully_verified r \<and>
    cr_verified_events r = length (log_of crc C s) + length es"
proof -
  let ?s1 = "append_all crc sha C es s"
  from append_all_chain [OF assms(1-3), of crc sha] obtain cs where cs:
    "store_ok ?s1" "log_of crc C ?s1 = log_of crc C s @ cs" "map core cs = map core es"
    "list_all has_hash cs" "chain_valid sha (es_last_event_hash s) cs" by auto
  have "read_all_events crc (flush_batch crc (es_storage ?s1)) = held crc (es_storage ?s1)"
    using flush_reads [of "es_storage ?s1" crc] cs(1) by (simp add: store_ok_def held_def)
  then have all: "get_all_envelopes crc C s' = Some (log_of crc C s @ cs)"
    using cs(1,2)
    by (simp add: get_all_envelopes_def read_envelopes_def s'_def es_flush_events_def flush_events_def
        store_ok_def log_of_def)
  have valid: "chain_valid sha None (log_of crc C s @ cs)"
    using assms(4,6) cs(5) by (simp add: chain_valid_append)
  have hashed: "list_all has_hash (log_of crc C s @ cs)" using assms(5) cs(4) by simp
  have "length cs = length es" using cs(3) by (metis length_map)
  then have "cr_verified_events (verify_envelopes sha (log_of crc C s @ cs)) =
      length (log_of crc C s) + length es"
    using verify_from_counts [OF valid hashed] by (simp add: verify_envelopes_def)
  moreover have "is_fully_verified (verify_envelopes sha (log_of crc C s @ cs))"
    using valid hashed by (simp add: verify_envelopes_full)
  ultimately show ?thesis
    using all cs(3) by (simp add: verify_chain_def)
qed

text \<open>A codec that satisfies the law: an envelope is written as the number of its fields.\<close>

definition demo_fields ::
  "envelope \<Rightarrow> string \<times> string \<times> u64 \<times> string \<times> string option \<times> string option \<times> string option"
where
  "demo_fields e =
     (ev_event_type e, ev_event_id e, ev_timestamp e, ev_payload e, ev_aggregate_id e,
      ev_event_hash e, ev_previous_hash e)"

definition demo_envelope ::
  "string \<times> string \<times> u64 \<times> string \<times> string option \<times> string option \<times> string option \<Rightarrow> envelope"
where
  "demo_envelope x =
     (let (a, b, c, d, e, f, g) = x
      in \<lparr>ev_event_type = a, ev_event_id = b, ev_timestamp = c, ev_payload = d, ev_aggregate_id = e,
          ev_event_hash = f, ev_previous_hash = g\<rparr>)"

definition demo_codec :: event_codec where
  "demo_codec =
     \<lparr>ec_to_json = \<lambda>e. Inr (''{'' @ show_nat (to_nat (demo_fields e))),
      ec_of_json = \<lambda>j. Some (demo_envelope (from_nat (digits_value (drop 1 j)))),
      ec_encode = \<lambda>e. Inl ''none'', ec_decode = \<lambda>b. None, ec_index_line = \<lambda>x. fst x\<rparr>"

lemma demo_line_ok: "event_ok (''{'' @ show_nat n)"
proof -
  have d: "is_digit c" if "c \<in> set (show_nat n)" for c
    using show_nat_digits [of n] that by (auto simp: list_all_iff)
  then have "newline \<notin> set (show_nat n)" using d [of newline] by (auto simp: newline_def is_digit_def)
  moreover have "last (show_nat n) \<noteq> CHR 13"
    using d [of "last (show_nat n)"] show_nat_digits [of n] by (auto simp: is_digit_def)
  ultimately show ?thesis
    using show_nat_digits [of n] by (simp add: event_ok_def newline_def)
qed

lemma demo_codec_law: "codec_law demo_codec"
proof -
  note demo_line_ok
  moreover have "demo_envelope (demo_fields e) = e" for e
    by (simp add: demo_envelope_def demo_fields_def)
  ultimately show ?thesis
    by (simp add: codec_law_def demo_codec_def)
qed

definition demo_sha :: "string \<Rightarrow> string" where
  "demo_sha s = hex8 (demo_crc s)"

definition demo_event :: "string \<Rightarrow> envelope" where
  "demo_event i = \<lparr>ev_event_type = ''Created'', ev_event_id = i, ev_timestamp = 7, ev_payload = ''{}'',
     ev_aggregate_id = None, ev_event_hash = None, ev_previous_hash = None\<rparr>"

definition demo_store :: event_store where
  "demo_store = event_store_with_storage demo_crc demo_codec
     \<lparr>st_max_log_file_size = None, st_enable_binary = False, st_disable_index = False,
      st_dedup_persist = True, st_disable_hash_chain = False\<rparr> demo_storage"

lemma appended_chain_verifies_witness:
  "\<exists>r. verify_chain demo_crc demo_sha demo_codec (es_flush_events demo_crc
       (append_all demo_crc demo_sha demo_codec [demo_event ''1'', demo_event ''2''] demo_store)) = Some r \<and>
     is_fully_verified r \<and> cr_verified_events r = 2"
proof -
  have empty: "read_all_events demo_crc demo_storage = []"
    by (simp add: read_all_events_def demo_storage_def file_storage_new_def contents_def)
  have ok: "store_ok demo_store" "list_all fresh [demo_event ''1'', demo_event ''2'']"
    by (simp_all add: store_ok_def demo_store_def event_store_with_storage_def demo_storage_def
        file_storage_new_def storage_ok_def contents_def complete_def fresh_def demo_event_def)
  have log: "log_of demo_crc demo_codec demo_store = []"
    by (simp add: log_of_def demo_store_def event_store_with_storage_def held_def empty)
      (simp add: demo_storage_def file_storage_new_def parse_all_def List.map_filter_simps)
  have "es_last_event_hash demo_store = None"
    by (simp add: demo_store_def event_store_with_storage_def empty parse_all_def List.map_filter_simps)
  from appended_chain_verifies [OF ok(1) demo_codec_law ok(2), of demo_sha demo_crc] this log
  show ?thesis by auto
qed

lemma hash_input_suffix:
  assumes "hash_input a = hash_input b" and "ev_previous_hash a = Some p" and "ev_previous_hash b = Some q"
    and "length p = length q"
  shows "p = q"
proof -
  define front where "front e = ev_event_type e @ ''|'' @ ev_event_id e @ ''|'' @ le64 (ev_timestamp e) @
    ''|'' @ ev_payload e @ ''|'' @ or_empty (ev_aggregate_id e) @ ''|''" for e :: envelope
  have A: "hash_input a = front a @ p" and B: "hash_input b = front b @ q"
    using assms(2,3) by (simp_all add: hash_input_def front_def or_empty_def)
  from assms(1) have "front a @ p = front b @ q" by (simp only: A B)
  with assms(4) show ?thesis by simp
qed

lemma last_has_hash:
  assumes "xs \<noteq> []" and "list_all has_hash xs"
  obtains h where "ev_event_hash (last xs) = Some h"
  using assms by (cases xs rule: rev_cases) (auto simp: has_hash_def)

lemma last_hash:
  "chain_valid sha prev xs \<Longrightarrow> xs \<noteq> [] \<Longrightarrow> ev_event_hash (last xs) = Some h \<Longrightarrow>
    h = sha (hash_input (last xs))"
  by (cases xs rule: rev_cases) (simp_all add: chain_valid_append compute_hash_def)

lemma agree_backwards:
  assumes "length xs = length ys" and "chain_valid sha pa xs" and "chain_valid sha pb ys"
    and "list_all has_hash xs" and "list_all has_hash ys"
    and "end_hash None xs = end_hash None ys" and "\<forall>s t. length (sha s) = length (sha t)"
    and "inj_on sha (hash_input ` (set xs \<union> set ys))"
  shows "map hash_input xs = map hash_input ys"
  using assms(1-6,8)
proof (induction xs arbitrary: ys rule: rev_induct)
  case (snoc x xs)
  then obtain ys' y where ys: "ys = ys' @ [y]" by (cases ys rule: rev_cases) auto
  from snoc.prems(2-5) obtain hx hy where h: "ev_event_hash x = Some hx" "ev_event_hash y = Some hy"
    by (auto simp: ys has_hash_def)
  then have v: "hx = sha (hash_input x)" "hy = sha (hash_input y)" "link_ok (end_hash pa xs) x"
    "link_ok (end_hash pb ys') y"
    using snoc.prems(2,3) by (simp_all add: ys chain_valid_append compute_hash_def)
  have "hx = hy" using snoc.prems(6) h by (simp add: end_hash_def ys)
  then have same: "hash_input x = hash_input y"
  proof -
    have "sha (hash_input x) = sha (hash_input y)" using \<open>hx = hy\<close> v(1,2) by simp
    moreover have "hash_input x \<in> hash_input ` (set (xs @ [x]) \<union> set ys)"
      "hash_input y \<in> hash_input ` (set (xs @ [x]) \<union> set ys)"
      by (rule imageI, simp add: ys)+
    ultimately show ?thesis by (rule inj_onD [OF snoc.prems(7)])
  qed
  have rest: "length xs = length ys'" "chain_valid sha pa xs" "chain_valid sha pb ys'"
    "list_all has_hash xs" "list_all has_hash ys'"
    using snoc.prems by (simp_all add: ys chain_valid_append)
  have "end_hash None xs = end_hash None ys'"
  proof (cases "xs = []")
    case True
    then show ?thesis using rest(1) by simp
  next
    case False
    then have ne: "ys' \<noteq> []" using rest(1) by auto
    from False rest(4) obtain p where p: "ev_event_hash (last xs) = Some p" by (rule last_has_hash)
    from ne rest(5) obtain q where q: "ev_event_hash (last ys') = Some q" by (rule last_has_hash)
    note pq = p q
    have hashes: "p = sha (hash_input (last xs))" "q = sha (hash_input (last ys'))"
      using last_hash [OF rest(2) False p] last_hash [OF rest(3) ne q] .
    have "ev_previous_hash x = Some p" "ev_previous_hash y = Some q"
      using v(3,4) pq False ne by (simp_all add: end_hash_def link_ok_def)
    moreover have "length p = length q" unfolding hashes using assms(7) by blast
    ultimately have "p = q" by (rule hash_input_suffix [OF same])
    with pq False ne show ?thesis by (simp add: end_hash_def)
  qed
  moreover have "inj_on sha (hash_input ` (set xs \<union> set ys'))"
    using snoc.prems(7) by (rule inj_on_subset) (auto simp: ys)
  ultimately show ?case using snoc.IH [OF rest] same by (simp add: ys)
qed simp

text \<open>Moving a part of the type to the identifier.\<close>

definition shifted :: "string \<Rightarrow> string \<Rightarrow> envelope \<Rightarrow> envelope" where
  "shifted t x e = e\<lparr>ev_event_type := t, ev_event_id := x @ ''|'' @ ev_event_id e\<rparr>"

lemma hash_input_shifted:
  "ev_event_type e = t @ ''|'' @ x \<Longrightarrow> hash_input (shifted t x e) = hash_input e"
  by (simp add: hash_input_def shifted_def)

text \<open>
  C29. Tampering shows, up to a point: two fully verified logs of the same length that end with the
  same event hash agree in the hashed content of every event but the first one's link, if the hash
  has no collisions among them. But the content does not tell where a field ends, nor is the
  beginning of the chain anchored: an event that moves text from its type to its identifier, and a
  log without its first events, verify just as well.
\<close>

theorem tampering_shows_partly:
  assumes "list_all has_hash xs" and "chain_valid sha None xs"
  shows "(\<forall>ys. length xs = length ys \<longrightarrow> list_all has_hash ys \<longrightarrow> chain_valid sha None ys \<longrightarrow>
      end_hash None xs = end_hash None ys \<longrightarrow> (\<forall>s t. length (sha s) = length (sha t)) \<longrightarrow>
      inj_on sha (hash_input ` (set xs \<union> set ys)) \<longrightarrow> map hash_input xs = map hash_input ys) \<and>
    is_fully_verified (verify_envelopes sha (drop n xs)) \<and>
    (\<forall>us e vs t x. xs = us @ e # vs \<longrightarrow> ev_event_type e = t @ ''|'' @ x \<longrightarrow>
      is_fully_verified (verify_envelopes sha (us @ shifted t x e # vs)))"
proof (intro conjI allI impI)
  fix ys
  assume "length xs = length ys" "list_all has_hash ys" "chain_valid sha None ys"
    "end_hash None xs = end_hash None ys" "\<forall>s t. length (sha s) = length (sha t)"
    "inj_on sha (hash_input ` (set xs \<union> set ys))"
  with assms show "map hash_input xs = map hash_input ys" by (intro agree_backwards)
next
  have "chain_valid sha (end_hash None (take n xs)) (drop n xs)"
    using assms(2) chain_valid_append [of sha None "take n xs" "drop n xs"] by simp
  moreover have "list_all has_hash (drop n xs)"
    using assms(1) by (auto simp: list_all_iff dest: in_set_dropD)
  ultimately show "is_fully_verified (verify_envelopes sha (drop n xs))"
    using chain_valid_None by (simp add: verify_envelopes_full)
next
  fix us e vs t x
  assume xs: "xs = us @ e # vs" and "ev_event_type e = t @ ''|'' @ x"
  then have same: "compute_hash sha (shifted t x e) = compute_hash sha e"
    by (simp add: compute_hash_def hash_input_shifted)
  have keeps: "ev_event_hash (shifted t x e) = ev_event_hash e"
    "ev_previous_hash (shifted t x e) = ev_previous_hash e"
    by (simp_all add: shifted_def)
  show "is_fully_verified (verify_envelopes sha (us @ shifted t x e # vs))"
    using assms same
    by (auto simp: verify_envelopes_full xs chain_valid_append keeps has_hash_def link_ok_def
        split: option.splits)
qed

definition forged_log :: "envelope list" where
  "forged_log = [envelope_new demo_sha ''User|Admin'' ''1'' 7 ''{}'' None None]"

lemma tampering_shows_partly_witness:
  "is_fully_verified (verify_envelopes demo_sha [shifted ''User'' ''Admin'' (hd forged_log)]) \<and>
   ev_event_type (shifted ''User'' ''Admin'' (hd forged_log)) \<noteq> ev_event_type (hd forged_log)"
proof -
  have "list_all has_hash forged_log" "chain_valid demo_sha None forged_log"
    by (simp_all add: forged_log_def envelope_new_def has_hash_def Let_def compute_hash_def
        hash_input_def link_ok_def)
  from tampering_shows_partly [OF this] have
    "\<forall>us e vs t x. forged_log = us @ e # vs \<longrightarrow> ev_event_type e = t @ ''|'' @ x \<longrightarrow>
      is_fully_verified (verify_envelopes demo_sha (us @ shifted t x e # vs))" by blast
  moreover have "forged_log = [] @ hd forged_log # []" "ev_event_type (hd forged_log) = ''User'' @ ''|'' @ ''Admin''"
    by (simp_all add: forged_log_def envelope_new_def Let_def)
  ultimately have "is_fully_verified (verify_envelopes demo_sha ([] @ shifted ''User'' ''Admin'' (hd forged_log) # []))"
    by blast
  moreover have "ev_event_type (shifted ''User'' ''Admin'' (hd forged_log)) \<noteq> ev_event_type (hd forged_log)"
    by (simp add: forged_log_def envelope_new_def Let_def shifted_def)
  ultimately show ?thesis by simp
qed

end
