(* ===== verification/MultiStore.thy ===== *)
theory MultiStore
  imports EventChain
begin

text \<open>
  One event store per aggregate, from \<^verbatim>\<open>lithair-core/src/engine/multi_file_store.rs\<close>, its snapshots
  from \<^verbatim>\<open>engine/snapshot.rs\<close>, and the event store of \<^verbatim>\<open>engine/events.rs\<close> over it. The files live in
  one disk, a dictionary of directories, since several open stores may use the same directory:
  every operation of a store first takes the current files of its directory and puts them back.
  Aggregate identifiers are plain names of directories. Rotation acts on the path, so that a
  second open store on the same directory is taken to follow it.
\<close>

section \<open>Snapshots of aggregates\<close>

record agg_snapshot =
  as_version :: u32
  as_aggregate_id :: "string option"
  as_event_count :: nat
  as_last_event_id :: "string option"
  as_timestamp :: u64
  as_state_crc32 :: string
  as_state :: string

definition snapshot_version :: u32 where "snapshot_version = 1"

definition default_snapshot_threshold :: nat where "default_snapshot_threshold = 10000"

definition agg_snapshot_new ::
  "(string \<Rightarrow> u32) \<Rightarrow> u64 \<Rightarrow> string option \<Rightarrow> nat \<Rightarrow> string option \<Rightarrow> string \<Rightarrow> agg_snapshot"
where
  "agg_snapshot_new crc now agg n last_id state =
     \<lparr>as_version = snapshot_version, as_aggregate_id = agg, as_event_count = n,
      as_last_event_id = last_id, as_timestamp = now, as_state_crc32 = hex8 (crc state),
      as_state = state\<rparr>"

definition snapshot_valid :: "(string \<Rightarrow> u32) \<Rightarrow> agg_snapshot \<Rightarrow> bool" where
  "snapshot_valid crc s \<longleftrightarrow> hex8 (crc (as_state s)) = as_state_crc32 s"

text \<open>\<^verbatim>\<open>serde_json\<close> for snapshots; a message of its parser is not modelled.\<close>

record snapshot_codec =
  sc_to_json :: "agg_snapshot \<Rightarrow> string + string"
  sc_of_json :: "string \<Rightarrow> agg_snapshot option"

definition snapshot_from_json ::
  "(string \<Rightarrow> u32) \<Rightarrow> snapshot_codec \<Rightarrow> string \<Rightarrow> engine_error + agg_snapshot"
where
  "snapshot_from_json crc K json =
     (case sc_of_json K json of
        None \<Rightarrow> Inl (SerializationError ''Failed to deserialize snapshot'')
      | Some s \<Rightarrow>
          if \<not> snapshot_valid crc s then Inl (PersistenceError ''Snapshot validation failed'')
          else Inr s)"

text \<open>The directory of the snapshot of an aggregate, and the store's files by directory.\<close>

definition dir_of :: "string option \<Rightarrow> string" where
  "dir_of agg = (case agg of None \<Rightarrow> ''global'' | Some a \<Rightarrow> a)"

type_synonym snapshot_files = "(string, string) dict"

definition store_snapshot ::
  "(string \<Rightarrow> u32) \<Rightarrow> snapshot_codec \<Rightarrow> agg_snapshot \<Rightarrow> snapshot_files \<Rightarrow>
   (engine_error + unit) \<times> snapshot_files"
where
  "store_snapshot crc K s fs =
     (case sc_to_json K s of
        Inl msg \<Rightarrow> (Inl (SerializationError msg), fs)
      | Inr json \<Rightarrow>
          (Inr (), AList.update (dir_of (as_aggregate_id s)) (format_event_with_crc32 crc json) fs))"

definition read_snapshot ::
  "(string \<Rightarrow> u32) \<Rightarrow> snapshot_codec \<Rightarrow> string option \<Rightarrow> snapshot_files \<Rightarrow>
   engine_error + agg_snapshot option"
where
  "read_snapshot crc K agg fs =
     (case map_of fs (dir_of agg) of
        None \<Rightarrow> Inr None
      | Some content \<Rightarrow>
          (case parse_and_validate_event crc content of
             Inl e \<Rightarrow> Inl (PersistenceError ''Snapshot file corrupted'')
           | Inr json \<Rightarrow> map_sum id Some (snapshot_from_json crc K json)))"

definition remove_snapshot :: "string option \<Rightarrow> snapshot_files \<Rightarrow> snapshot_files" where
  "remove_snapshot agg fs = AList.delete (dir_of agg) fs"

definition due_for_snapshot :: "nat \<Rightarrow> nat \<Rightarrow> nat \<Rightarrow> bool" where
  "due_for_snapshot threshold current in_snapshot \<longleftrightarrow> threshold \<le> current - in_snapshot"

definition snapshots_present :: "snapshot_files \<Rightarrow> string option list" where
  "snapshots_present fs =
     (if map_of fs ''global'' \<noteq> None then [None] else []) @
     map Some (filter (\<lambda>d. d \<noteq> ''global'') (map fst fs))"

record recovery_context =
  rc_snapshot :: "agg_snapshot option"
  rc_events_to_skip :: nat

definition recovery_context_new ::
  "(string \<Rightarrow> u32) \<Rightarrow> snapshot_codec \<Rightarrow> string option \<Rightarrow> snapshot_files \<Rightarrow>
   engine_error + recovery_context"
where
  "recovery_context_new crc K agg fs =
     map_sum id
       (\<lambda>s. \<lparr>rc_snapshot = s,
             rc_events_to_skip = (case s of None \<Rightarrow> 0 | Some s \<Rightarrow> as_event_count s)\<rparr>)
       (read_snapshot crc K agg fs)"

definition has_snapshot :: "recovery_context \<Rightarrow> bool" where
  "has_snapshot c \<longleftrightarrow> rc_snapshot c \<noteq> None"

definition get_initial_state :: "recovery_context \<Rightarrow> string option" where
  "get_initial_state c = map_option as_state (rc_snapshot c)"

section \<open>The store of all aggregates\<close>

record multi_store =
  ms_disk :: "(string, event_files) dict"
  ms_snapshots :: snapshot_files
  ms_stores :: "(string, event_store) dict"
  ms_global_store :: event_store
  ms_event_counts :: "(string, nat) dict"
  ms_global_event_count :: nat
  ms_snapshot_threshold :: nat

definition no_files :: event_files where
  "no_files = \<lparr>ef_events = None, ef_segment = None, ef_index = None, ef_snapshot = None, ef_dedup = None\<rparr>"

definition files_in :: "(string, event_files) dict \<Rightarrow> string \<Rightarrow> event_files" where
  "files_in disk d = (case map_of disk d of None \<Rightarrow> no_files | Some fs \<Rightarrow> fs)"

text \<open>A store sees the files as they are on the disk.\<close>

definition seeing :: "event_files \<Rightarrow> event_store \<Rightarrow> event_store" where
  "seeing d s =
     s\<lparr>es_storage := (es_storage s)
         \<lparr>fs_events_file := ef_events d, fs_segment := ef_segment d, fs_index_file := ef_index d,
          fs_snapshot_file := ef_snapshot d, fs_dedup_ids_file := ef_dedup d\<rparr>\<rparr>"

definition open_store ::
  "(string \<Rightarrow> u32) \<Rightarrow> event_codec \<Rightarrow> store_settings \<Rightarrow> event_files \<Rightarrow> event_store"
where
  "open_store crc C st d =
     event_store_with_storage crc C st (file_storage_new (st_max_log_file_size st) d)"

lemma open_store_is_new: "event_store_new crc C st False d = Some (open_store crc C st d)"
  by (simp add: event_store_new_def open_store_def event_store_with_storage_def Let_def
      load_last_event_hash_def read_envelopes_def)

definition multi_store_new ::
  "(string \<Rightarrow> u32) \<Rightarrow> event_codec \<Rightarrow> store_settings \<Rightarrow> (string, event_files) dict \<Rightarrow>
   snapshot_files \<Rightarrow> multi_store"
where
  "multi_store_new crc C st disk snaps =
     \<lparr>ms_disk = disk, ms_snapshots = snaps, ms_stores = [],
      ms_global_store = open_store crc C st (files_in disk ''global''),
      ms_event_counts = [], ms_global_event_count = 0,
      ms_snapshot_threshold = default_snapshot_threshold\<rparr>"

definition multi_with_threshold ::
  "(string \<Rightarrow> u32) \<Rightarrow> event_codec \<Rightarrow> store_settings \<Rightarrow> nat \<Rightarrow> (string, event_files) dict \<Rightarrow>
   snapshot_files \<Rightarrow> multi_store"
where
  "multi_with_threshold crc C st n disk snaps =
     (multi_store_new crc C st disk snaps)\<lparr>ms_snapshot_threshold := n\<rparr>"

definition set_snapshot_threshold :: "nat \<Rightarrow> multi_store \<Rightarrow> multi_store" where
  "set_snapshot_threshold n m = m\<lparr>ms_snapshot_threshold := n\<rparr>"

definition create_store ::
  "(string \<Rightarrow> u32) \<Rightarrow> event_codec \<Rightarrow> store_settings \<Rightarrow> string \<Rightarrow> multi_store \<Rightarrow> multi_store"
where
  "create_store crc C st a m =
     (if map_of (ms_stores m) a \<noteq> None then m
      else m\<lparr>ms_stores :=
               AList.update a (open_store crc C st (files_in (ms_disk m) a)) (ms_stores m)\<rparr>)"

definition get_store_mut ::
  "(string \<Rightarrow> u32) \<Rightarrow> event_codec \<Rightarrow> store_settings \<Rightarrow> string \<Rightarrow> multi_store \<Rightarrow>
   event_store \<times> multi_store"
where
  "get_store_mut crc C st a m =
     (let m1 = (if map_of (ms_stores m) a = None then create_store crc C st a m else m)
      in (the (map_of (ms_stores m1) a), m1))"

definition put_files :: "string \<Rightarrow> event_store \<Rightarrow> multi_store \<Rightarrow> multi_store" where
  "put_files d s m = m\<lparr>ms_disk := AList.update d (files_of (es_storage s)) (ms_disk m)\<rparr>"

definition increment_event_count :: "string option \<Rightarrow> multi_store \<Rightarrow> multi_store" where
  "increment_event_count agg m =
     (case agg of
        Some a \<Rightarrow>
          m\<lparr>ms_event_counts :=
              AList.update a ((case map_of (ms_event_counts m) a of None \<Rightarrow> 0 | Some n \<Rightarrow> n) + 1)
                (ms_event_counts m)\<rparr>
      | None \<Rightarrow> m\<lparr>ms_global_event_count := ms_global_event_count m + 1\<rparr>)"

definition multi_append_envelope ::
  "(string \<Rightarrow> u32) \<Rightarrow> (string \<Rightarrow> string) \<Rightarrow> event_codec \<Rightarrow> store_settings \<Rightarrow> envelope \<Rightarrow>
   multi_store \<Rightarrow> (engine_error + unit) \<times> multi_store"
where
  "multi_append_envelope crc sha C st e m =
     (case ev_aggregate_id e of
        Some a \<Rightarrow>
          (let (s, m1) = get_store_mut crc C st a m;
               (r, s1) = append_envelope crc sha C e (seeing (files_in (ms_disk m1) a) s);
               m2 = put_files a s1 (m1\<lparr>ms_stores := AList.update a s1 (ms_stores m1)\<rparr>)
           in case r of
                Inl err \<Rightarrow> (Inl err, m2)
              | Inr u \<Rightarrow> (Inr (), increment_event_count (Some a) m2))
      | None \<Rightarrow>
          (let (r, s1) = append_envelope crc sha C e
                 (seeing (files_in (ms_disk m) ''global'') (ms_global_store m));
               m2 = put_files ''global'' s1 (m\<lparr>ms_global_store := s1\<rparr>)
           in case r of
                Inl err \<Rightarrow> (Inl err, m2)
              | Inr u \<Rightarrow> (Inr (), increment_event_count None m2)))"

section \<open>Reading\<close>

text \<open>
  Unlike the single store, an event that does not parse is an error here; the parser's message is
  not modelled.
\<close>

fun parse_envelopes :: "event_codec \<Rightarrow> string list \<Rightarrow> engine_error + envelope list" where
  "parse_envelopes C [] = Inr []"
| "parse_envelopes C (j # js) =
     (case ec_of_json C j of
        None \<Rightarrow> Inl (SerializationError ''envelope'')
      | Some e \<Rightarrow> map_sum id ((#) e) (parse_envelopes C js))"

definition read_store ::
  "(string \<Rightarrow> u32) \<Rightarrow> event_codec \<Rightarrow> event_files \<Rightarrow> event_store \<Rightarrow>
   (engine_error + envelope list) option"
where
  "read_store crc C d s =
     (case get_all_events crc C (seeing d s) of
        None \<Rightarrow> None
      | Some (Inl err) \<Rightarrow> Some (Inl err)
      | Some (Inr js) \<Rightarrow> Some (parse_envelopes C js))"

fun read_stores ::
  "(string \<Rightarrow> u32) \<Rightarrow> event_codec \<Rightarrow> (string, event_files) dict \<Rightarrow> (string \<times> event_store) list \<Rightarrow>
   (engine_error + envelope list) option"
where
  "read_stores crc C disk [] = Some (Inr [])"
| "read_stores crc C disk ((d, s) # ss) =
     (case read_store crc C (files_in disk d) s of
        None \<Rightarrow> None
      | Some (Inl err) \<Rightarrow> Some (Inl err)
      | Some (Inr es) \<Rightarrow> map_option (map_sum id ((@) es)) (read_stores crc C disk ss))"

text \<open>
  The order in which the hash map gives the stores is unspecified: \<open>order\<close> is any permutation.
\<close>

definition read_all_envelopes ::
  "(string \<Rightarrow> u32) \<Rightarrow> event_codec \<Rightarrow>
   ((string \<times> event_store) list \<Rightarrow> (string \<times> event_store) list) \<Rightarrow> multi_store \<Rightarrow>
   (engine_error + envelope list) option"
where
  "read_all_envelopes crc C order m =
     read_stores crc C (ms_disk m) ((''global'', ms_global_store m) # order (ms_stores m))"

definition read_aggregate_envelopes ::
  "(string \<Rightarrow> u32) \<Rightarrow> event_codec \<Rightarrow> string \<Rightarrow> multi_store \<Rightarrow>
   (engine_error + envelope list) option"
where
  "read_aggregate_envelopes crc C a m =
     (case map_of (ms_stores m) a of
        Some s \<Rightarrow> read_store crc C (files_in (ms_disk m) a) s
      | None \<Rightarrow> Some (Inr []))"

definition flush_one ::
  "(string \<Rightarrow> u32) \<Rightarrow> string \<times> event_store \<Rightarrow>
   (string, event_files) dict \<times> (string, event_store) dict \<Rightarrow>
   (string, event_files) dict \<times> (string, event_store) dict"
where
  "flush_one crc ds p =
     (let s1 = es_flush_events crc (seeing (files_in (fst p) (fst ds)) (snd ds))
      in (AList.update (fst ds) (files_of (es_storage s1)) (fst p), snd p @ [(fst ds, s1)]))"

definition flush_all :: "(string \<Rightarrow> u32) \<Rightarrow> multi_store \<Rightarrow> multi_store" where
  "flush_all crc m =
     (let g = es_flush_events crc (seeing (files_in (ms_disk m) ''global'') (ms_global_store m));
          m1 = put_files ''global'' g (m\<lparr>ms_global_store := g\<rparr>);
          (disk, stores) = fold (flush_one crc) (ms_stores m1) (ms_disk m1, [])
      in m1\<lparr>ms_disk := disk, ms_stores := stores\<rparr>)"

definition list_aggregates :: "multi_store \<Rightarrow> string list" where
  "list_aggregates m = map fst (ms_stores m)"

definition multi_append_dedup_id :: "string \<Rightarrow> multi_store \<Rightarrow> multi_store" where
  "multi_append_dedup_id i m =
     (let g = save_dedup_id i (seeing (files_in (ms_disk m) ''global'') (ms_global_store m))
      in put_files ''global'' g (m\<lparr>ms_global_store := g\<rparr>))"

definition multi_load_dedup_ids :: "multi_store \<Rightarrow> string list" where
  "multi_load_dedup_ids m =
     load_dedup_ids (seeing (files_in (ms_disk m) ''global'') (ms_global_store m))"

section \<open>Snapshots of the store\<close>

definition get_event_count :: "string option \<Rightarrow> multi_store \<Rightarrow> nat" where
  "get_event_count agg m =
     (case agg of
        Some a \<Rightarrow> (case map_of (ms_event_counts m) a of None \<Rightarrow> 0 | Some n \<Rightarrow> n)
      | None \<Rightarrow> ms_global_event_count m)"

definition multi_save_snapshot ::
  "(string \<Rightarrow> u32) \<Rightarrow> snapshot_codec \<Rightarrow> u64 \<Rightarrow> string option \<Rightarrow> string \<Rightarrow> string option \<Rightarrow>
   multi_store \<Rightarrow> (engine_error + unit) \<times> multi_store"
where
  "multi_save_snapshot crc K now agg state last_id m =
     (let (r, fs) = store_snapshot crc K
            (agg_snapshot_new crc now agg (get_event_count agg m) last_id state) (ms_snapshots m)
      in (r, m\<lparr>ms_snapshots := fs\<rparr>))"

definition multi_load_snapshot ::
  "(string \<Rightarrow> u32) \<Rightarrow> snapshot_codec \<Rightarrow> string option \<Rightarrow> multi_store \<Rightarrow>
   engine_error + agg_snapshot option"
where
  "multi_load_snapshot crc K agg m = read_snapshot crc K agg (ms_snapshots m)"

definition should_create_snapshot ::
  "(string \<Rightarrow> u32) \<Rightarrow> snapshot_codec \<Rightarrow> string option \<Rightarrow> multi_store \<Rightarrow> engine_error + bool"
where
  "should_create_snapshot crc K agg m =
     map_sum id
       (\<lambda>s. due_for_snapshot (ms_snapshot_threshold m) (get_event_count agg m)
              (case s of None \<Rightarrow> 0 | Some s \<Rightarrow> as_event_count s))
       (multi_load_snapshot crc K agg m)"

definition read_events_after_snapshot ::
  "(string \<Rightarrow> u32) \<Rightarrow> event_codec \<Rightarrow> snapshot_codec \<Rightarrow> string option \<Rightarrow> multi_store \<Rightarrow>
   (engine_error + envelope list) option"
where
  "read_events_after_snapshot crc C K agg m =
     (case recovery_context_new crc K agg (ms_snapshots m) of
        Inl err \<Rightarrow> Some (Inl err)
      | Inr ctx \<Rightarrow>
          map_option (map_sum id (drop (rc_events_to_skip ctx)))
            (case agg of
               Some a \<Rightarrow> read_aggregate_envelopes crc C a m
             | None \<Rightarrow> read_store crc C (files_in (ms_disk m) ''global'') (ms_global_store m)))"

definition multi_delete_snapshot :: "string option \<Rightarrow> multi_store \<Rightarrow> multi_store" where
  "multi_delete_snapshot agg m = m\<lparr>ms_snapshots := remove_snapshot agg (ms_snapshots m)\<rparr>"

section \<open>The event store over the aggregates\<close>

record multi_event_store =
  me_multi :: multi_store
  me_events_count :: nat
  me_pending_since_flush :: nat
  me_flush_every :: nat
  me_dedup_persist :: bool
  me_last_event_hash :: "string option"
  me_enable_hash_chain :: bool

definition multi_event_store_new ::
  "(string \<Rightarrow> u32) \<Rightarrow> event_codec \<Rightarrow> store_settings \<Rightarrow> (string, event_files) dict \<Rightarrow>
   snapshot_files \<Rightarrow> (engine_error + multi_event_store) option"
where
  "multi_event_store_new crc C st disk snaps =
     (let m = multi_store_new crc C st disk snaps
      in map_option
           (map_sum id
             (\<lambda>es. \<lparr>me_multi = m, me_events_count = length es, me_pending_since_flush = 0,
                    me_flush_every = 1, me_dedup_persist = st_dedup_persist st,
                    me_last_event_hash = (if es = [] then None else ev_event_hash (last es)),
                    me_enable_hash_chain = \<not> st_disable_hash_chain st\<rparr>))
           (read_all_envelopes crc C id m))"

definition me_flush :: "(string \<Rightarrow> u32) \<Rightarrow> multi_event_store \<Rightarrow> multi_event_store" where
  "me_flush crc s = s\<lparr>me_multi := flush_all crc (me_multi s), me_pending_since_flush := 0\<rparr>"

definition me_chained :: "(string \<Rightarrow> string) \<Rightarrow> multi_event_store \<Rightarrow> envelope \<Rightarrow> envelope" where
  "me_chained sha s e =
     (if me_enable_hash_chain s \<and> ev_event_hash e = None
      then let c = e\<lparr>ev_previous_hash := me_last_event_hash s\<rparr>
           in c\<lparr>ev_event_hash := Some (compute_hash sha c)\<rparr>
      else e)"

definition me_append_envelope ::
  "(string \<Rightarrow> u32) \<Rightarrow> (string \<Rightarrow> string) \<Rightarrow> event_codec \<Rightarrow> store_settings \<Rightarrow> envelope \<Rightarrow>
   multi_event_store \<Rightarrow> (engine_error + unit) \<times> multi_event_store"
where
  "me_append_envelope crc sha C st e s =
     (let p = me_chained sha s e;
          (r, m1) = multi_append_envelope crc sha C st p (me_multi s);
          s1 = s\<lparr>me_multi := m1\<rparr>
      in case r of
           Inl err \<Rightarrow> (Inl err, s1)
         | Inr u \<Rightarrow>
             (let s2 = (if me_enable_hash_chain s1
                        then s1\<lparr>me_last_event_hash := ev_event_hash p\<rparr> else s1);
                  s3 = s2\<lparr>me_events_count := me_events_count s2 + 1,
                          me_pending_since_flush := me_pending_since_flush s2 + 1\<rparr>
              in (Inr (), if 0 < me_flush_every s3 \<and> me_flush_every s3 \<le> me_pending_since_flush s3
                          then me_flush crc s3 else s3)))"

definition me_append_raw_line ::
  "(string \<Rightarrow> u32) \<Rightarrow> (string \<Rightarrow> string) \<Rightarrow> event_codec \<Rightarrow> store_settings \<Rightarrow> string \<Rightarrow>
   multi_event_store \<Rightarrow> (engine_error + unit) \<times> multi_event_store"
where
  "me_append_raw_line crc sha C st line s =
     (case ec_of_json C line of
        Some e \<Rightarrow> me_append_envelope crc sha C st e s
      | None \<Rightarrow>
          (Inl (InvalidOperation
             ''append_raw_line with non-envelope data not supported in multi-file mode''), s))"

definition me_verify_chain ::
  "(string \<Rightarrow> u32) \<Rightarrow> (string \<Rightarrow> string) \<Rightarrow> event_codec \<Rightarrow>
   ((string \<times> event_store) list \<Rightarrow> (string \<times> event_store) list) \<Rightarrow> multi_event_store \<Rightarrow>
   (engine_error + chain_result) option"
where
  "me_verify_chain crc sha C order s =
     map_option (map_sum id (verify_envelopes sha)) (read_all_envelopes crc C order (me_multi s))"

section \<open>One directory\<close>

text \<open>
  A store that is open on its directory: text lines, no rotation, nothing pending. Files that a
  store may be opened on end with a complete line.
\<close>

definition live :: "event_store \<Rightarrow> bool" where
  "live s \<longleftrightarrow>
     storage_ok (es_storage s) \<and> fs_max_log_file_size (es_storage s) = 0 \<and>
     fs_event_batch (es_storage s) = [] \<and> \<not> es_binary_mode s \<and> es_flush_every s = 1"

definition sound_files :: "event_files \<Rightarrow> bool" where
  "sound_files d \<longleftrightarrow> complete (contents (ef_segment d)) \<and> complete (contents (ef_events d))"

definition plain_settings :: "store_settings \<Rightarrow> bool" where
  "plain_settings st \<longleftrightarrow> st_max_log_file_size st = None \<and> \<not> st_enable_binary st"

definition events_in :: "(string \<Rightarrow> u32) \<Rightarrow> event_files \<Rightarrow> string list" where
  "events_in crc d = read_events crc (contents (ef_segment d)) @ read_events crc (contents (ef_events d))"

lemma seeing_own [simp]: "seeing (files_of (es_storage s)) s = s"
  by (simp add: seeing_def files_of_def)

lemma events_in_files_of: "events_in crc (files_of f) = read_all_events crc f"
  by (simp add: events_in_def files_of_def read_all_events_def)

lemma live_sound: "live s \<Longrightarrow> sound_files (files_of (es_storage s))"
  by (simp add: live_def storage_ok_def sound_files_def files_of_def)

lemma open_store_live:
  assumes "plain_settings st" and "sound_files d"
  shows "live (open_store crc C st d)" "files_of (es_storage (open_store crc C st d)) = d"
    "es_enable_hash_chain (open_store crc C st d) \<longleftrightarrow> \<not> st_disable_hash_chain st"
  using assms
  by (simp_all add: open_store_def event_store_with_storage_def live_def plain_settings_def
      sound_files_def storage_ok_def file_storage_new_def files_of_def)

lemma live_append:
  assumes "live s" and "codec_law C"
  obtains s' j where "append_envelope crc sha C e s = (Inr (), s')" and "live s'"
    and "ec_to_json C (chained sha s e) = Inr j" and "ec_of_json C j = Some (chained sha s e)"
    and "events_in crc (files_of (es_storage s')) = events_in crc (files_of (es_storage s)) @ [j]"
    and "es_enable_hash_chain s' = es_enable_hash_chain s"
proof -
  let ?p = "chained sha s e"
  from assms(2) obtain j where j: "ec_to_json C ?p = Inr j" "event_ok j" "ec_of_json C j = Some ?p"
    by (auto simp: codec_law_def)
  from assms(1) have s: "storage_ok (es_storage s)" "fs_max_log_file_size (es_storage s) = 0"
    "fs_event_batch (es_storage s) = []" "\<not> es_binary_mode s" "es_flush_every s = 1"
    by (simp_all add: live_def)
  let ?f = "EventFile.append_event crc j (es_storage s)"
  note f = append_event_held [OF s(1,2) j(2), of crc]
  let ?ix = "\<lambda>agg. append_index_entry (ec_index_line C) agg (current_events_size (es_storage s)) ?f"
  define s1 where "s1 =
    (let f1 = (case ev_aggregate_id ?p of
                 Some agg \<Rightarrow> if \<not> es_disable_index s then ?ix agg else ?f
               | None \<Rightarrow> ?f);
         t = s\<lparr>es_storage := f1\<rparr>
     in if es_enable_hash_chain s then t\<lparr>es_last_event_hash := ev_event_hash ?p\<rparr> else t)"
  have app: "append_envelope crc sha C e s = (Inr (), note_appended crc s1)"
    using s(4) j(1) by (simp add: append_envelope_def s1_def Let_def split: option.split)
  have s1: "es_flush_every s1 = 1" "\<not> es_binary_mode s1"
    "es_enable_hash_chain s1 = es_enable_hash_chain s"
    "es_storage s1 = ?f \<or> (\<exists>agg off. es_storage s1 = append_index_entry (ec_index_line C) agg off ?f)"
    using s(4,5) by (auto simp: s1_def Let_def split: option.split)
  have f1: "storage_ok (es_storage s1)" "fs_max_log_file_size (es_storage s1) = 0"
    "held crc (es_storage s1) = held crc (es_storage s) @ [j]"
    using s1(4) f by auto
  let ?s' = "note_appended crc s1"
  have st: "es_storage ?s' = flush_batch crc (es_storage s1)" "es_flush_every ?s' = 1"
    using s1(1) by (simp_all add: note_appended_def es_flush_def flush_events_def Let_def)
  note n = note_appended_simps [OF f1(1,2), of crc]
  have live: "live ?s'" using n(1,2,4) st s1(2) by (simp add: live_def)
  have "read_all_events crc (es_storage ?s') = held crc (es_storage s1)"
    using flush_reads [OF f1(1,2), of crc] by (simp add: st held_def)
  then have "events_in crc (files_of (es_storage ?s')) = events_in crc (files_of (es_storage s)) @ [j]"
    using f1(3) s(3) by (simp add: events_in_files_of held_def)
  then show thesis using that app live j(1,3) n(5) s1(3) by simp
qed

lemma parse_envelopes_append:
  "parse_envelopes C xs = Inr es \<Longrightarrow> parse_envelopes C ys = Inr fs \<Longrightarrow>
   parse_envelopes C (xs @ ys) = Inr (es @ fs)"
  by (induction xs arbitrary: es) (auto split: option.splits sum.splits simp: map_sum_def)

lemma read_live:
  assumes "live s"
  shows "read_store crc C (files_of (es_storage s)) s =
    Some (parse_envelopes C (events_in crc (files_of (es_storage s))))"
  using assms by (simp add: read_store_def get_all_events_def live_def events_in_files_of)

section \<open>All directories\<close>

text \<open>The envelopes that the disk holds for an aggregate, whether its store is open or not.\<close>

definition on_disk ::
  "(string \<Rightarrow> u32) \<Rightarrow> event_codec \<Rightarrow> string option \<Rightarrow> multi_store \<Rightarrow> engine_error + envelope list"
where
  "on_disk crc C agg m = parse_envelopes C (events_in crc (files_in (ms_disk m) (dir_of agg)))"

text \<open>
  The invariant of the store: each open store is live on the files of its own directory, no
  aggregate uses the directory of the global store, and every directory can be opened.
\<close>

definition multi_ok :: "multi_store \<Rightarrow> bool" where
  "multi_ok m \<longleftrightarrow>
     (\<forall>d. sound_files (files_in (ms_disk m) d)) \<and>
     live (ms_global_store m) \<and>
     files_of (es_storage (ms_global_store m)) = files_in (ms_disk m) ''global'' \<and>
     dict_ok (ms_stores m) \<and> map_of (ms_stores m) ''global'' = None \<and>
     (\<forall>a s. map_of (ms_stores m) a = Some s \<longrightarrow>
        live s \<and> files_of (es_storage s) = files_in (ms_disk m) a)"

lemma files_in_update [simp]:
  "files_in (AList.update d f disk) x = (if x = d then f else files_in disk x)"
  by (simp add: files_in_def map_of_update)

lemma core_chained: "core (chained sha s e) = core e"
  by (simp add: chained_def core_def Let_def)

lemma chained_hashed: "ev_event_hash e \<noteq> None \<Longrightarrow> chained sha s e = e"
  by (auto simp: chained_def)

lemma aggregate_chained [simp]: "ev_aggregate_id (chained sha s e) = ev_aggregate_id e"
  by (simp add: chained_def Let_def)

lemma get_store_live:
  assumes "multi_ok m" and "plain_settings st" and "get_store_mut crc C st a m = (s, m1)"
  shows "live s" "files_of (es_storage s) = files_in (ms_disk m) a"
    "m1 = m\<lparr>ms_stores := ms_stores m1\<rparr>"
    "map_of (ms_stores m1) = (map_of (ms_stores m))(a \<mapsto> s)" "dict_ok (ms_stores m1)"
proof -
  let ?o = "open_store crc C st (files_in (ms_disk m) a)"
  have sound: "sound_files (files_in (ms_disk m) a)" using assms(1) by (simp add: multi_ok_def)
  note o = open_store_live(1,2) [OF assms(2) sound, of crc C]
  consider (old) "map_of (ms_stores m) a = Some s" "m1 = m"
    | (new) "map_of (ms_stores m) a = None" "s = ?o" "m1 = m\<lparr>ms_stores := AList.update a ?o (ms_stores m)\<rparr>"
    using assms(3)
    by (cases "map_of (ms_stores m) a")
      (auto simp: get_store_mut_def create_store_def Let_def map_of_update)
  then have "live s \<and> files_of (es_storage s) = files_in (ms_disk m) a \<and>
    m1 = m\<lparr>ms_stores := ms_stores m1\<rparr> \<and> map_of (ms_stores m1) = (map_of (ms_stores m))(a \<mapsto> s) \<and>
    dict_ok (ms_stores m1)"
  proof cases
    case old
    then show ?thesis using assms(1) by (auto simp: multi_ok_def)
  next
    case new
    then show ?thesis using o assms(1) by (simp add: fun_eq_iff map_of_update multi_ok_def)
  qed
  then show "live s" "files_of (es_storage s) = files_in (ms_disk m) a"
    "m1 = m\<lparr>ms_stores := ms_stores m1\<rparr>" "map_of (ms_stores m1) = (map_of (ms_stores m))(a \<mapsto> s)"
    "dict_ok (ms_stores m1)"
    by blast+
qed

text \<open>Appending to one directory adds the event there and nowhere else.\<close>

lemma multi_append:
  assumes "multi_ok m" and "plain_settings st" and "codec_law C"
    and "ev_aggregate_id e \<noteq> Some ''global''" and "\<forall>agg. on_disk crc C agg m = Inr (logs agg)"
  obtains m' p where "multi_append_envelope crc sha C st e m = (Inr (), m')" and "multi_ok m'"
    and "core p = core e" and "ev_event_hash e \<noteq> None \<longrightarrow> p = e"
    and "\<forall>agg. agg \<noteq> Some ''global'' \<longrightarrow>
      on_disk crc C agg m' = Inr (logs agg @ (if ev_aggregate_id e = agg then [p] else []))"
    and "\<forall>a. map_of (ms_stores m') a \<noteq> None \<longleftrightarrow>
      map_of (ms_stores m) a \<noteq> None \<or> ev_aggregate_id e = Some a"
    and "ms_snapshots m' = ms_snapshots m"
    and "\<forall>agg. get_event_count agg m' =
      get_event_count agg m + (if ev_aggregate_id e = agg then 1 else 0)"
proof (cases "ev_aggregate_id e")
  case None
  let ?g = "ms_global_store m"
  have g: "live ?g" "files_of (es_storage ?g) = files_in (ms_disk m) ''global''"
    using assms(1) by (simp_all add: multi_ok_def)
  obtain g' j where app: "append_envelope crc sha C e ?g = (Inr (), g')" "live g'"
    "ec_of_json C j = Some (chained sha ?g e)"
    "events_in crc (files_of (es_storage g')) = events_in crc (files_of (es_storage ?g)) @ [j]"
    using live_append [OF g(1) assms(3)] by metis
  let ?m' = "increment_event_count None (put_files ''global'' g' (m\<lparr>ms_global_store := g'\<rparr>))"
  have res: "multi_append_envelope crc sha C st e m = (Inr (), ?m')"
    using None app(1) by (simp add: multi_append_envelope_def g(2) [symmetric])
  have ok: "multi_ok ?m'"
    using assms(1) app(2) live_sound [OF app(2)]
    by (auto simp: multi_ok_def increment_event_count_def put_files_def)
  have new: "on_disk crc C None ?m' = Inr (logs None @ [chained sha ?g e])"
    using parse_envelopes_append [of C "events_in crc (files_of (es_storage ?g))" "logs None" "[j]"]
      assms(5) [rule_format, of None] app(3,4) g(2)
    by (simp add: on_disk_def dir_of_def increment_event_count_def put_files_def)
  have old: "on_disk crc C agg ?m' = Inr (logs agg)" if "agg \<noteq> None" "agg \<noteq> Some ''global''" for agg
    using that assms(5) [rule_format, of agg]
    by (cases agg) (auto simp: on_disk_def dir_of_def increment_event_count_def put_files_def)
  show thesis
  proof (rule that [OF res ok, of "chained sha ?g e"])
    show "\<forall>agg. agg \<noteq> Some ''global'' \<longrightarrow> on_disk crc C agg ?m' =
        Inr (logs agg @ (if ev_aggregate_id e = agg then [chained sha ?g e] else []))"
    proof (intro allI impI)
      fix agg :: "string option"
      assume "agg \<noteq> Some ''global''"
      with new old [of agg] show "on_disk crc C agg ?m' =
          Inr (logs agg @ (if ev_aggregate_id e = agg then [chained sha ?g e] else []))"
        by (cases agg) (simp_all add: None)
    qed
  qed (auto simp: core_chained chained_hashed None increment_event_count_def put_files_def
      get_event_count_def split: option.split)
next
  case (Some a)
  then have a: "a \<noteq> ''global''" using assms(4) by simp
  obtain s m1 where gs: "get_store_mut crc C st a m = (s, m1)" by (cases "get_store_mut crc C st a m")
  note s = get_store_live [OF assms(1,2) gs]
  have d: "ms_disk m1 = ms_disk m" by (subst s(3)) simp
  obtain s' j where app: "append_envelope crc sha C e s = (Inr (), s')" "live s'"
    "ec_of_json C j = Some (chained sha s e)"
    "events_in crc (files_of (es_storage s')) = events_in crc (files_of (es_storage s)) @ [j]"
    using live_append [OF s(1) assms(3)] by metis
  let ?m' = "increment_event_count (Some a)
    (put_files a s' (m1\<lparr>ms_stores := AList.update a s' (ms_stores m1)\<rparr>))"
  have res: "multi_append_envelope crc sha C st e m = (Inr (), ?m')"
    using Some app(1) by (simp add: multi_append_envelope_def gs d s(2) [symmetric])
  have m1: "ms_global_store m1 = ms_global_store m" "ms_snapshots m1 = ms_snapshots m"
    "ms_event_counts m1 = ms_event_counts m" "ms_global_event_count m1 = ms_global_event_count m"
    by (subst s(3), simp)+
  have stores: "map_of (ms_stores ?m') = (map_of (ms_stores m))(a \<mapsto> s')"
    by (simp add: fun_eq_iff increment_event_count_def put_files_def map_of_update s(4))
  have keys: "dict_ok (ms_stores ?m')"
    using s(5) by (simp add: increment_event_count_def put_files_def)
  have disk: "ms_disk ?m' = AList.update a (files_of (es_storage s')) (ms_disk m)"
    "ms_global_store ?m' = ms_global_store m"
    by (simp_all add: increment_event_count_def put_files_def d m1)
  have ok: "multi_ok ?m'"
    using assms(1) app(2) live_sound [OF app(2)] a keys unfolding multi_ok_def stores disk by simp
  have new: "on_disk crc C (Some a) ?m' = Inr (logs (Some a) @ [chained sha s e])"
    using parse_envelopes_append [of C "events_in crc (files_of (es_storage s))" "logs (Some a)" "[j]"]
      assms(5) [rule_format, of "Some a"] app(3,4) s(2)
    by (simp add: on_disk_def dir_of_def disk)
  have old: "on_disk crc C agg ?m' = Inr (logs agg)" if "agg \<noteq> Some a" for agg
    using that assms(5) [rule_format, of agg] a
    by (cases agg) (auto simp: on_disk_def dir_of_def disk)
  show thesis
  proof (rule that [OF res ok, of "chained sha s e"])
    show "\<forall>agg. agg \<noteq> Some ''global'' \<longrightarrow> on_disk crc C agg ?m' =
        Inr (logs agg @ (if ev_aggregate_id e = agg then [chained sha s e] else []))"
      using new old Some by auto
    show "\<forall>b. map_of (ms_stores ?m') b \<noteq> None \<longleftrightarrow>
        map_of (ms_stores m) b \<noteq> None \<or> ev_aggregate_id e = Some b"
      unfolding stores Some by auto
  qed (auto simp: core_chained chained_hashed Some increment_event_count_def put_files_def
      get_event_count_def m1 map_of_update split: option.split)
qed

section \<open>Sequences of events\<close>

fun multi_append_all ::
  "(string \<Rightarrow> u32) \<Rightarrow> (string \<Rightarrow> string) \<Rightarrow> event_codec \<Rightarrow> store_settings \<Rightarrow> envelope list \<Rightarrow>
   multi_store \<Rightarrow> multi_store"
where
  "multi_append_all crc sha C st [] m = m"
| "multi_append_all crc sha C st (e # es) m =
     multi_append_all crc sha C st es (snd (multi_append_envelope crc sha C st e m))"

definition events_for :: "string option \<Rightarrow> envelope list \<Rightarrow> envelope list" where
  "events_for agg es = filter (\<lambda>e. ev_aggregate_id e = agg) es"

lemma core_aggregate: "core p = core e \<Longrightarrow> ev_aggregate_id p = ev_aggregate_id e"
  by (drule arg_cong [where f = ev_aggregate_id]) (simp add: core_def)

lemma length_events_for:
  "length (events_for agg es) = length (filter (\<lambda>x. x = agg) (map ev_aggregate_id es))"
  by (simp add: events_for_def filter_map comp_def)

lemma multi_append_all_logs:
  fixes sha :: "string \<Rightarrow> string"
  assumes "multi_ok m" and "plain_settings st" and "codec_law C"
    and "list_all (\<lambda>e. ev_aggregate_id e \<noteq> Some ''global'') es"
    and "\<forall>agg. agg \<noteq> Some ''global'' \<longrightarrow> on_disk crc C agg m = Inr (logs agg)"
  defines "m' \<equiv> multi_append_all crc sha C st es m"
  shows "\<exists>cs. map core cs = map core es \<and> (list_all has_hash es \<longrightarrow> cs = es) \<and> multi_ok m' \<and>
    (\<forall>agg. agg \<noteq> Some ''global'' \<longrightarrow> on_disk crc C agg m' = Inr (logs agg @ events_for agg cs)) \<and>
    (\<forall>a. map_of (ms_stores m') a \<noteq> None \<longleftrightarrow>
      map_of (ms_stores m) a \<noteq> None \<or> events_for (Some a) cs \<noteq> []) \<and>
    ms_snapshots m' = ms_snapshots m \<and>
    (\<forall>agg. get_event_count agg m' = get_event_count agg m + length (events_for agg cs))"
  using assms(1,4,5) unfolding m'_def
proof (induction es arbitrary: m logs)
  case Nil
  then show ?case by (intro exI [of _ "[]"]) (simp add: events_for_def)
next
  case (Cons e es)
  have e: "ev_aggregate_id e \<noteq> Some ''global''" using Cons.prems(2) by simp
  have "on_disk crc C (Some ''global'') m = on_disk crc C None m"
    by (simp add: on_disk_def dir_of_def)
  then have "\<forall>agg. on_disk crc C agg m =
      Inr (if agg = Some ''global'' then logs None else logs agg)"
    using Cons.prems(3) by simp
  from multi_append [OF Cons.prems(1) assms(2,3) e this, of sha] obtain m1 p where one:
    "multi_append_envelope crc sha C st e m = (Inr (), m1)" "multi_ok m1" "core p = core e"
    "ev_event_hash e \<noteq> None \<longrightarrow> p = e"
    "\<forall>agg. agg \<noteq> Some ''global'' \<longrightarrow>
      on_disk crc C agg m1 = Inr (logs agg @ (if ev_aggregate_id e = agg then [p] else []))"
    "\<forall>a. map_of (ms_stores m1) a \<noteq> None \<longleftrightarrow> map_of (ms_stores m) a \<noteq> None \<or> ev_aggregate_id e = Some a"
    "ms_snapshots m1 = ms_snapshots m"
    "\<forall>agg. get_event_count agg m1 = get_event_count agg m + (if ev_aggregate_id e = agg then 1 else 0)"
    by (auto split: if_splits)
  have es: "list_all (\<lambda>e. ev_aggregate_id e \<noteq> Some ''global'') es" using Cons.prems(2) by simp
  from Cons.IH [OF one(2) es one(5)] obtain cs where cs:
    "map core cs = map core es" "list_all has_hash es \<longrightarrow> cs = es"
    "multi_ok (multi_append_all crc sha C st es m1)"
    "\<forall>agg. agg \<noteq> Some ''global'' \<longrightarrow> on_disk crc C agg (multi_append_all crc sha C st es m1) =
       Inr ((logs agg @ (if ev_aggregate_id e = agg then [p] else [])) @ events_for agg cs)"
    "\<forall>a. map_of (ms_stores (multi_append_all crc sha C st es m1)) a \<noteq> None \<longleftrightarrow>
       map_of (ms_stores m1) a \<noteq> None \<or> events_for (Some a) cs \<noteq> []"
    "ms_snapshots (multi_append_all crc sha C st es m1) = ms_snapshots m1"
    "\<forall>agg. get_event_count agg (multi_append_all crc sha C st es m1) =
       get_event_count agg m1 + length (events_for agg cs)" by auto
  have p: "ev_aggregate_id p = ev_aggregate_id e" by (rule core_aggregate [OF one(3)])
  have split: "events_for agg (p # cs) = (if ev_aggregate_id e = agg then [p] else []) @ events_for agg cs" for agg
    by (simp add: events_for_def p)
  have all: "multi_append_all crc sha C st (e # es) m = multi_append_all crc sha C st es m1"
    by (simp add: one(1))
  show ?case
  proof (intro exI [of _ "p # cs"] conjI)
    show "map core (p # cs) = map core (e # es)" by (simp add: one(3) cs(1))
    show "list_all has_hash (e # es) \<longrightarrow> p # cs = e # es"
      using one(4) cs(2) by (simp add: has_hash_def)
    show "\<forall>agg. agg \<noteq> Some ''global'' \<longrightarrow>
        on_disk crc C agg (multi_append_all crc sha C st (e # es) m) = Inr (logs agg @ events_for agg (p # cs))"
      using cs(4) unfolding split all by simp
    show "\<forall>a. map_of (ms_stores (multi_append_all crc sha C st (e # es) m)) a \<noteq> None \<longleftrightarrow>
        map_of (ms_stores m) a \<noteq> None \<or> events_for (Some a) (p # cs) \<noteq> []"
      using cs(5) one(6) unfolding split all by simp
    show "\<forall>agg. get_event_count agg (multi_append_all crc sha C st (e # es) m) =
        get_event_count agg m + length (events_for agg (p # cs))"
      using cs(7) one(8) unfolding split all by simp
  qed (simp_all add: all cs one)
qed

lemma read_open_aggregate:
  assumes "multi_ok m" and "map_of (ms_stores m) a \<noteq> None"
  shows "read_aggregate_envelopes crc C a m = Some (on_disk crc C (Some a) m)"
proof -
  from assms(2) obtain s where s: "map_of (ms_stores m) a = Some s" by blast
  with assms(1) have "live s" "files_of (es_storage s) = files_in (ms_disk m) a"
    by (auto simp: multi_ok_def)
  with s read_live [of s crc C] show ?thesis
    by (simp add: read_aggregate_envelopes_def on_disk_def dir_of_def)
qed

lemma read_global:
  assumes "multi_ok m"
  shows "read_store crc C (files_in (ms_disk m) ''global'') (ms_global_store m) =
    Some (on_disk crc C None m)"
proof -
  have "live (ms_global_store m)" "files_of (es_storage (ms_global_store m)) = files_in (ms_disk m) ''global''"
    using assms by (simp_all add: multi_ok_def)
  with read_live [of "ms_global_store m" crc C] show ?thesis by (simp add: on_disk_def dir_of_def)
qed

text \<open>A store on sound files, as after a restart.\<close>

definition sound_disk :: "(string, event_files) dict \<Rightarrow> bool" where
  "sound_disk disk \<longleftrightarrow> (\<forall>(d, fs) \<in> set disk. sound_files fs)"

lemma new_ok:
  assumes "plain_settings st" and "\<forall>d. sound_files (files_in disk d)"
  shows "multi_ok (multi_store_new crc C st disk snaps)"
  using assms open_store_live [OF assms(1), of "files_in disk ''global''" crc C]
  by (simp add: multi_ok_def multi_store_new_def)

lemma sound_disk_files: "sound_disk disk \<Longrightarrow> sound_files (files_in disk d)"
  by (auto simp: files_in_def sound_disk_def sound_files_def no_files_def contents_def complete_def
      split: option.split dest!: map_of_SomeD)

section \<open>Properties\<close>

text \<open>
  Every aggregate has its own log: appending any events, none of an aggregate named global,
  extends the log of each aggregate, and that of the events without one, by its own events in
  order, and the store reads exactly these logs of the aggregates that were written.
\<close>

theorem aggregates_kept_apart:
  fixes sha :: "string \<Rightarrow> string"
  assumes "multi_ok m" and "plain_settings st" and "codec_law C"
    and "list_all (\<lambda>e. ev_aggregate_id e \<noteq> Some ''global'') es"
    and "\<forall>agg. agg \<noteq> Some ''global'' \<longrightarrow> on_disk crc C agg m = Inr (logs agg)"
  defines "m' \<equiv> multi_append_all crc sha C st es m"
  shows "\<exists>cs. map core cs = map core es \<and> multi_ok m' \<and>
    (\<forall>agg. agg \<noteq> Some ''global'' \<longrightarrow> on_disk crc C agg m' = Inr (logs agg @ events_for agg cs)) \<and>
    (\<forall>e \<in> set es. \<forall>a. ev_aggregate_id e = Some a \<longrightarrow>
      read_aggregate_envelopes crc C a m' = Some (Inr (logs (Some a) @ events_for (Some a) cs)))"
proof -
  from multi_append_all_logs [OF assms(1-5), of sha] obtain cs where cs:
    "map core cs = map core es" "multi_ok m'"
    "\<forall>agg. agg \<noteq> Some ''global'' \<longrightarrow> on_disk crc C agg m' = Inr (logs agg @ events_for agg cs)"
    "\<forall>a. map_of (ms_stores m') a \<noteq> None \<longleftrightarrow>
       map_of (ms_stores m) a \<noteq> None \<or> events_for (Some a) cs \<noteq> []"
    unfolding m'_def by blast
  have "read_aggregate_envelopes crc C a m' = Some (Inr (logs (Some a) @ events_for (Some a) cs))"
    if "e \<in> set es" "ev_aggregate_id e = Some a" for e a
  proof -
    have "core e \<in> set (map core cs)" using that(1) by (simp add: cs(1))
    then obtain c where c: "c \<in> set cs" "core c = core e" by auto
    then have "events_for (Some a) cs \<noteq> []"
      using that(2) core_aggregate [OF c(2)] by (auto simp: events_for_def filter_empty_conv)
    then have "map_of (ms_stores m') a \<noteq> None" using cs(4) by simp
    moreover have "a \<noteq> ''global''" using assms(4) that by (auto simp: list_all_iff)
    ultimately show ?thesis using read_open_aggregate [OF cs(2)] cs(3) by simp
  qed
  with cs show ?thesis by blast
qed

definition demo_settings :: store_settings where
  "demo_settings = \<lparr>st_max_log_file_size = None, st_enable_binary = False, st_disable_index = False,
     st_dedup_persist = True, st_disable_hash_chain = False\<rparr>"

definition event_of :: "string \<Rightarrow> string \<Rightarrow> envelope" where
  "event_of a i = (demo_event i)\<lparr>ev_aggregate_id := Some a\<rparr>"

definition demo_multi :: multi_store where
  "demo_multi = multi_store_new demo_crc demo_codec demo_settings [] []"

lemma demo_plain: "plain_settings demo_settings"
  by (simp add: plain_settings_def demo_settings_def)

lemma demo_multi_ok: "multi_ok demo_multi"
  unfolding demo_multi_def
  by (rule new_ok [OF demo_plain]) (simp add: sound_disk_files sound_disk_def)

lemma demo_multi_logs: "\<forall>agg. agg \<noteq> Some ''global'' \<longrightarrow> on_disk demo_crc demo_codec agg demo_multi = Inr []"
  by (simp add: on_disk_def demo_multi_def multi_store_new_def files_in_def no_files_def events_in_def
      contents_def)

lemma aggregates_kept_apart_witness:
  "\<exists>cs. map core cs = map core [event_of ''a'' ''1'', event_of ''b'' ''2'', event_of ''a'' ''3''] \<and>
     read_aggregate_envelopes demo_crc demo_codec ''a''
       (multi_append_all demo_crc demo_sha demo_codec demo_settings
          [event_of ''a'' ''1'', event_of ''b'' ''2'', event_of ''a'' ''3''] demo_multi) =
     Some (Inr (events_for (Some ''a'') cs)) \<and> length (events_for (Some ''a'') cs) = 2"
proof -
  define es where "es = [event_of ''a'' ''1'', event_of ''b'' ''2'', event_of ''a'' ''3'']"
  have "list_all (\<lambda>e. ev_aggregate_id e \<noteq> Some ''global'') es" by (simp add: es_def event_of_def)
  from aggregates_kept_apart [OF demo_multi_ok demo_plain demo_codec_law this demo_multi_logs, of demo_sha]
  obtain cs where cs: "map core cs = map core es"
    "\<forall>e \<in> set es. \<forall>a. ev_aggregate_id e = Some a \<longrightarrow>
      read_aggregate_envelopes demo_crc demo_codec a
        (multi_append_all demo_crc demo_sha demo_codec demo_settings es demo_multi) =
      Some (Inr (events_for (Some a) cs))" by auto
  have "map ev_aggregate_id (map core cs) = [Some ''a'', Some ''b'', Some ''a'']"
    by (simp only: cs(1)) (simp add: es_def core_def event_of_def)
  then have "map ev_aggregate_id cs = [Some ''a'', Some ''b'', Some ''a'']"
    by (simp add: core_def comp_def)
  then have "length (events_for (Some ''a'') cs) = 2"
    by (simp add: length_events_for)
  moreover have "event_of ''a'' ''1'' \<in> set es" "ev_aggregate_id (event_of ''a'' ''1'') = Some ''a''"
    by (simp_all add: es_def event_of_def)
  then have "read_aggregate_envelopes demo_crc demo_codec ''a''
      (multi_append_all demo_crc demo_sha demo_codec demo_settings es demo_multi) =
      Some (Inr (events_for (Some ''a'') cs))"
    using cs(2) by blast
  ultimately show ?thesis using cs(1) unfolding es_def by blast
qed

text \<open>
  Reopening hides the aggregates: a store that is opened on the same disk knows no aggregate;
  it reads the events without aggregate only, whatever order its hash map has, although the disk
  still holds all logs; an aggregate's old events come back when its next event is appended.
\<close>

theorem reopening_hides_aggregates:
  fixes sha :: "string \<Rightarrow> string"
  assumes "multi_ok m" and "plain_settings st" and "codec_law C"
    and "\<forall>agg. agg \<noteq> Some ''global'' \<longrightarrow> on_disk crc C agg m = Inr (logs agg)"
    and "order [] = []" and "a \<noteq> ''global''" and "ev_aggregate_id e = Some a"
  defines "m' \<equiv> multi_store_new crc C st (ms_disk m) (ms_snapshots m)"
  shows "list_aggregates m' = [] \<and> read_all_envelopes crc C order m' = Some (Inr (logs None)) \<and>
    read_aggregate_envelopes crc C a m' = Some (Inr []) \<and> on_disk crc C (Some a) m' = Inr (logs (Some a)) \<and>
    (\<exists>c. core c = core e \<and>
      read_aggregate_envelopes crc C a (multi_append_all crc sha C st [e] m') =
        Some (Inr (logs (Some a) @ [c])))"
proof -
  have ok: "multi_ok m'"
    using new_ok [OF assms(2), of "ms_disk m"] assms(1) by (simp add: multi_ok_def m'_def)
  have disk: "on_disk crc C agg m' = on_disk crc C agg m" for agg
    by (simp add: on_disk_def m'_def multi_store_new_def)
  have stores: "ms_stores m' = []" by (simp add: m'_def multi_store_new_def)
  have all: "read_all_envelopes crc C order m' = Some (Inr (logs None))"
    using read_global [OF ok, of crc C] assms(4)
    by (simp add: read_all_envelopes_def stores assms(5) disk)
  have e: "list_all (\<lambda>e. ev_aggregate_id e \<noteq> Some ''global'') [e]" using assms(6,7) by simp
  have logs: "\<forall>agg. agg \<noteq> Some ''global'' \<longrightarrow> on_disk crc C agg m' = Inr (logs agg)"
    using assms(4) by (simp add: disk)
  from multi_append_all_logs [OF ok assms(2,3) e logs, of sha] obtain cs where cs:
    "map core cs = map core [e]" "multi_ok (multi_append_all crc sha C st [e] m')"
    "\<forall>agg. agg \<noteq> Some ''global'' \<longrightarrow>
      on_disk crc C agg (multi_append_all crc sha C st [e] m') = Inr (logs agg @ events_for agg cs)"
    "\<forall>a. map_of (ms_stores (multi_append_all crc sha C st [e] m')) a \<noteq> None \<longleftrightarrow>
       map_of (ms_stores m') a \<noteq> None \<or> events_for (Some a) cs \<noteq> []" by blast
  from cs(1) obtain c where c: "cs = [c]" "core c = core e" by auto
  then have ev: "events_for (Some a) cs = [c]"
    using core_aggregate [OF c(2)] assms(7) by (simp add: events_for_def)
  then have "map_of (ms_stores (multi_append_all crc sha C st [e] m')) a \<noteq> None" using cs(4) by simp
  from read_open_aggregate [OF cs(2) this, of crc C] cs(3) assms(6) ev
  have "read_aggregate_envelopes crc C a (multi_append_all crc sha C st [e] m') =
      Some (Inr (logs (Some a) @ [c]))" by simp
  then show ?thesis
    using all c(2) logs assms(6)
    by (auto simp: list_aggregates_def stores read_aggregate_envelopes_def)
qed

lemma reopening_hides_aggregates_witness:
  "read_all_envelopes demo_crc demo_codec rev
     (multi_store_new demo_crc demo_codec demo_settings (ms_disk demo_multi) (ms_snapshots demo_multi)) =
   Some (Inr [])"
  using reopening_hides_aggregates [OF demo_multi_ok demo_plain demo_codec_law demo_multi_logs,
      of rev "''a''" "event_of ''a'' ''1''"]
  by (simp add: event_of_def)

text \<open>A codec of snapshots: reading gives back what was written.\<close>

definition snapshot_law :: "snapshot_codec \<Rightarrow> bool" where
  "snapshot_law K \<longleftrightarrow>
     (\<forall>s. \<exists>j. sc_to_json K s = Inr j \<and> j \<noteq> [] \<and> sc_of_json K j = Some s)"

lemma snapshot_saved:
  assumes "snapshot_law K"
  shows "\<exists>m'. multi_save_snapshot crc K now agg state last_id m = (Inr (), m') \<and>
    m' = m\<lparr>ms_snapshots := ms_snapshots m'\<rparr> \<and>
    multi_load_snapshot crc K agg m' =
      Inr (Some (agg_snapshot_new crc now agg (get_event_count agg m) last_id state))"
proof -
  let ?s = "agg_snapshot_new crc now agg (get_event_count agg m) last_id state"
  from assms obtain j where j: "sc_to_json K ?s = Inr j" "j \<noteq> []" "sc_of_json K j = Some ?s"
    by (auto simp: snapshot_law_def)
  have "as_aggregate_id ?s = agg" "snapshot_valid crc ?s"
    by (simp_all add: agg_snapshot_new_def snapshot_valid_def)
  then show ?thesis
    using j parse_formatted [OF j(2), of crc]
    by (simp add: multi_save_snapshot_def store_snapshot_def multi_load_snapshot_def read_snapshot_def
        snapshot_from_json_def map_of_update)
qed

text \<open>
  A snapshot counts the events since the store was opened: after a restart on an aggregate
  with old events, a snapshot that is saved after new events loads back, but recovery from it
  hands out as many events as there were old ones, all of which the saved state contains; it
  hands out none exactly when there were no old events. Bytes that fail the checksum are an error.
\<close>

theorem snapshot_counts_from_open:
  fixes sha :: "string \<Rightarrow> string"
  assumes "plain_settings st" and "codec_law C" and "snapshot_law K"
    and "\<forall>d. sound_files (files_in disk d)"
    and "\<forall>agg. agg \<noteq> Some ''global'' \<longrightarrow>
      on_disk crc C agg (multi_store_new crc C st disk snaps) = Inr (logs agg)"
    and "a \<noteq> ''global''" and "\<forall>e \<in> set es. ev_aggregate_id e = Some a" and "es \<noteq> []"
  defines "m1 \<equiv> multi_append_all crc sha C st es (multi_store_new crc C st disk snaps)"
  shows "\<exists>m2 s cs replay. multi_save_snapshot crc K now (Some a) state last_id m1 = (Inr (), m2) \<and>
    multi_load_snapshot crc K (Some a) m2 = Inr (Some s) \<and> as_state s = state \<and>
    map core cs = map core es \<and>
    read_aggregate_envelopes crc C a m2 = Some (Inr (logs (Some a) @ cs)) \<and>
    read_events_after_snapshot crc C K (Some a) m2 = Some (Inr replay) \<and>
    replay = drop (length es) (logs (Some a) @ cs) \<and> length replay = length (logs (Some a)) \<and>
    (\<forall>bad content. map_of (ms_snapshots bad) a = Some content \<longrightarrow>
      parse_and_validate_event crc content \<in> range Inl \<longrightarrow>
      (\<exists>err. read_events_after_snapshot crc C K (Some a) bad = Some (Inl err)))"
proof -
  let ?m = "multi_store_new crc C st disk snaps"
  have ok: "multi_ok ?m" by (rule new_ok [OF assms(1,4)])
  have es: "list_all (\<lambda>e. ev_aggregate_id e \<noteq> Some ''global'') es"
    using assms(6,7) by (simp add: list_all_iff)
  from multi_append_all_logs [OF ok assms(1,2) es assms(5), of sha] obtain cs where cs:
    "map core cs = map core es" "multi_ok m1"
    "\<forall>agg. agg \<noteq> Some ''global'' \<longrightarrow> on_disk crc C agg m1 = Inr (logs agg @ events_for agg cs)"
    "\<forall>a. map_of (ms_stores m1) a \<noteq> None \<longleftrightarrow>
       map_of (ms_stores ?m) a \<noteq> None \<or> events_for (Some a) cs \<noteq> []"
    "\<forall>agg. get_event_count agg m1 = get_event_count agg ?m + length (events_for agg cs)"
    unfolding m1_def by blast
  have len: "length cs = length es" using cs(1) by (metis length_map)
  have "\<forall>c \<in> set cs. ev_aggregate_id c = Some a"
  proof
    fix c
    assume "c \<in> set cs"
    then have "core c \<in> set (map core es)" by (simp add: cs(1) [symmetric])
    then obtain e where "e \<in> set es" "core c = core e" by auto
    with assms(7) core_aggregate [of c e] show "ev_aggregate_id c = Some a" by simp
  qed
  then have all: "events_for (Some a) cs = cs" by (simp add: events_for_def)
  have n: "get_event_count (Some a) m1 = length es"
    using cs(5) by (simp add: all len) (simp add: get_event_count_def multi_store_new_def)
  have opened: "map_of (ms_stores m1) a \<noteq> None" using cs(4) all len assms(8) by auto
  let ?s = "agg_snapshot_new crc now (Some a) (length es) last_id state"
  from snapshot_saved [OF assms(3), of crc now "Some a" state last_id m1] obtain m2 where m2:
    "multi_save_snapshot crc K now (Some a) state last_id m1 = (Inr (), m2)"
    "m2 = m1\<lparr>ms_snapshots := ms_snapshots m2\<rparr>" "multi_load_snapshot crc K (Some a) m2 = Inr (Some ?s)"
    by (auto simp: n)
  have same: "ms_stores m2 = ms_stores m1" "ms_disk m2 = ms_disk m1" by (subst m2(2), simp)+
  have read: "read_aggregate_envelopes crc C a m2 = Some (Inr (logs (Some a) @ cs))"
    using read_open_aggregate [OF cs(2) opened, of crc C] cs(3) assms(6)
    unfolding read_aggregate_envelopes_def same by (simp add: all)
  have replay: "read_events_after_snapshot crc C K (Some a) m2 =
      Some (Inr (drop (length es) (logs (Some a) @ cs)))"
    using m2(3) read
    by (simp add: read_events_after_snapshot_def recovery_context_new_def multi_load_snapshot_def
        agg_snapshot_new_def)
  have bad: "\<exists>err. read_events_after_snapshot crc C K (Some a) bad = Some (Inl err)"
    if "map_of (ms_snapshots bad) a = Some content" "parse_and_validate_event crc content \<in> range Inl"
    for bad content
    using that by (auto simp: read_events_after_snapshot_def recovery_context_new_def
        read_snapshot_def dir_of_def)
  show ?thesis
    using m2(1,3) cs(1) read replay bad len
    by (intro exI [of _ m2] exI [of _ ?s] exI [of _ cs] exI [of _ "drop (length es) (logs (Some a) @ cs)"])
      (auto simp: agg_snapshot_new_def)
qed

definition demo_snapshot_fields ::
  "agg_snapshot \<Rightarrow> nat \<times> string option \<times> nat \<times> string option \<times> nat \<times> string \<times> string"
where
  "demo_snapshot_fields s =
     (unat (as_version s), as_aggregate_id s, as_event_count s, as_last_event_id s,
      unat (as_timestamp s), as_state_crc32 s, as_state s)"

definition demo_snapshot ::
  "nat \<times> string option \<times> nat \<times> string option \<times> nat \<times> string \<times> string \<Rightarrow> agg_snapshot"
where
  "demo_snapshot t =
     (case t of (v, a, n, l, ts, c, st) \<Rightarrow>
        \<lparr>as_version = of_nat v, as_aggregate_id = a, as_event_count = n, as_last_event_id = l,
         as_timestamp = of_nat ts, as_state_crc32 = c, as_state = st\<rparr>)"

definition demo_snapshot_codec :: snapshot_codec where
  "demo_snapshot_codec =
     \<lparr>sc_to_json = \<lambda>s. Inr (show_nat (to_nat (demo_snapshot_fields s))),
      sc_of_json = \<lambda>j. Some (demo_snapshot (from_nat (digits_value j)))\<rparr>"

lemma demo_snapshot_law: "snapshot_law demo_snapshot_codec"
proof -
  have "demo_snapshot (demo_snapshot_fields s) = s" for s
    by (simp add: demo_snapshot_def demo_snapshot_fields_def)
  then show ?thesis
    using show_nat_digits by (simp add: snapshot_law_def demo_snapshot_codec_def)
qed

lemma snapshot_counts_from_open_witness:
  "\<exists>disk m2 s replay.
     multi_save_snapshot demo_crc demo_snapshot_codec 7 (Some ''a'') ''[]'' None
       (multi_append_all demo_crc demo_sha demo_codec demo_settings [event_of ''a'' ''2'']
          (multi_store_new demo_crc demo_codec demo_settings disk [])) = (Inr (), m2) \<and>
     multi_load_snapshot demo_crc demo_snapshot_codec (Some ''a'') m2 = Inr (Some s) \<and>
     read_events_after_snapshot demo_crc demo_codec demo_snapshot_codec (Some ''a'') m2 =
       Some (Inr replay) \<and> length replay = 1"
proof -
  define es where "es = [event_of ''a'' ''1'']"
  define m where "m = multi_append_all demo_crc demo_sha demo_codec demo_settings es demo_multi"
  have "list_all (\<lambda>e. ev_aggregate_id e \<noteq> Some ''global'') es"
    by (simp add: es_def event_of_def)
  from multi_append_all_logs [OF demo_multi_ok demo_plain demo_codec_law this demo_multi_logs, of demo_sha]
  obtain cs where cs: "map core cs = map core es" "multi_ok m"
    "\<forall>agg. agg \<noteq> Some ''global'' \<longrightarrow>
      on_disk demo_crc demo_codec agg m = Inr (events_for agg cs)"
    unfolding m_def by auto
  from cs(1) obtain c where c: "cs = [c]" "core c = core (event_of ''a'' ''1'')"
    by (auto simp: es_def)
  have "ev_aggregate_id c = Some ''a''"
    using core_aggregate [OF c(2)] by (simp add: event_of_def)
  then have one: "length (events_for (Some ''a'') cs) = 1" by (simp add: c(1) events_for_def)
  have sound: "\<forall>d. sound_files (files_in (ms_disk m) d)" using cs(2) by (simp add: multi_ok_def)
  let ?n = "multi_store_new demo_crc demo_codec demo_settings (ms_disk m) []"
  have logs: "\<forall>agg. agg \<noteq> Some ''global'' \<longrightarrow> on_disk demo_crc demo_codec agg ?n = Inr (events_for agg cs)"
    using cs(3) by (simp add: on_disk_def multi_store_new_def)
  have e: "''a'' \<noteq> ''global''" "\<forall>e \<in> set [event_of ''a'' ''2'']. ev_aggregate_id e = Some ''a''"
    "[event_of ''a'' ''2''] \<noteq> []" by (simp_all add: event_of_def)
  from snapshot_counts_from_open [OF demo_plain demo_codec_law demo_snapshot_law sound logs e,
      of 7 "''[]''" None demo_sha]
  obtain m2 s ds replay where res:
    "multi_save_snapshot demo_crc demo_snapshot_codec 7 (Some ''a'') ''[]'' None
       (multi_append_all demo_crc demo_sha demo_codec demo_settings [event_of ''a'' ''2''] ?n) = (Inr (), m2)"
    "multi_load_snapshot demo_crc demo_snapshot_codec (Some ''a'') m2 = Inr (Some s)"
    "read_events_after_snapshot demo_crc demo_codec demo_snapshot_codec (Some ''a'') m2 =
       Some (Inr replay)" "length replay = length (events_for (Some ''a'') cs)"
    by blast
  from res(4) one have "length replay = 1" by (rule trans)
  with res(1-3) show ?thesis by blast
qed

lemma flush_one_live:
  assumes "live s" and "files_of (es_storage s) = files_in disk d"
  shows "flush_one crc (d, s) (disk, acc) = (AList.update d (files_in disk d) disk, acc @ [(d, s)])"
proof -
  have "es_flush_events crc s = s"
    using assms(1) by (simp add: es_flush_events_def flush_events_def flush_batch_def live_def)
  then show ?thesis
    using assms(2) by (simp add: flush_one_def Let_def assms(2) [symmetric])
qed

lemma flush_stores_live:
  "\<forall>(d, s) \<in> set ss. live s \<and> files_of (es_storage s) = files_in disk d \<Longrightarrow>
   \<exists>disk'. fold (flush_one crc) ss (disk, acc) = (disk', acc @ ss) \<and> files_in disk' = files_in disk"
proof (induction ss arbitrary: disk acc)
  case (Cons x ss)
  obtain d s where x: "x = (d, s)" by (cases x)
  let ?disk = "AList.update d (files_in disk d) disk"
  have same: "files_in ?disk = files_in disk" by (simp add: fun_eq_iff)
  have "\<forall>(d, s) \<in> set ss. live s \<and> files_of (es_storage s) = files_in ?disk d"
    using Cons.prems same by auto
  from Cons.IH [OF this, of "acc @ [(d, s)]"] show ?case
    using Cons.prems same by (simp add: x flush_one_live)
qed simp

text \<open>With nothing pending, flushing changes no file.\<close>

lemma flush_all_live:
  assumes "multi_ok m"
  shows "files_in (ms_disk (flush_all crc m)) = files_in (ms_disk m)"
    "ms_stores (flush_all crc m) = ms_stores m"
    "ms_global_store (flush_all crc m) = ms_global_store m" "multi_ok (flush_all crc m)"
proof -
  let ?g = "ms_global_store m"
  have g: "live ?g" "files_of (es_storage ?g) = files_in (ms_disk m) ''global''"
    using assms by (simp_all add: multi_ok_def)
  then have flush: "es_flush_events crc (seeing (files_in (ms_disk m) ''global'') ?g) = ?g"
    using seeing_own [of ?g] by (simp add: es_flush_events_def flush_events_def flush_batch_def live_def)
  define m1 where "m1 = put_files ''global'' ?g m"
  have m1: "files_in (ms_disk m1) = files_in (ms_disk m)" "ms_stores m1 = ms_stores m"
    "ms_global_store m1 = ?g"
    using g(2) by (auto simp: m1_def put_files_def fun_eq_iff)
  have "\<forall>(d, s) \<in> set (ms_stores m1). live s \<and> files_of (es_storage s) = files_in (ms_disk m1) d"
  proof (intro ballI, clarify)
    fix d s
    assume "(d, s) \<in> set (ms_stores m1)"
    moreover have "dict_ok (ms_stores m)" using assms by (simp add: multi_ok_def)
    ultimately have "map_of (ms_stores m) d = Some s" by (simp add: m1 dict_ok_def)
    then show "live s \<and> files_of (es_storage s) = files_in (ms_disk m1) d"
      using assms by (simp add: multi_ok_def m1)
  qed
  from flush_stores_live [OF this, of crc "[]"] obtain disk' where fold:
    "fold (flush_one crc) (ms_stores m1) (ms_disk m1, []) = (disk', ms_stores m1)"
    "files_in disk' = files_in (ms_disk m1)" by auto
  have "m\<lparr>ms_global_store := ?g\<rparr> = m" by simp
  then have eq: "flush_all crc m = m1\<lparr>ms_disk := disk', ms_stores := ms_stores m1\<rparr>"
    using fold(1) flush by (simp add: flush_all_def Let_def m1_def)
  show "files_in (ms_disk (flush_all crc m)) = files_in (ms_disk m)"
    "ms_stores (flush_all crc m) = ms_stores m" "ms_global_store (flush_all crc m) = ?g"
    by (simp_all add: eq fold(2) m1)
  with assms show "multi_ok (flush_all crc m)" by (simp add: multi_ok_def)
qed

section \<open>The chain over several files\<close>

fun me_append_all ::
  "(string \<Rightarrow> u32) \<Rightarrow> (string \<Rightarrow> string) \<Rightarrow> event_codec \<Rightarrow> store_settings \<Rightarrow> envelope list \<Rightarrow>
   multi_event_store \<Rightarrow> multi_event_store"
where
  "me_append_all crc sha C st [] s = s"
| "me_append_all crc sha C st (e # es) s =
     me_append_all crc sha C st es (snd (me_append_envelope crc sha C st e s))"

definition me_ok :: "multi_event_store \<Rightarrow> bool" where
  "me_ok s \<longleftrightarrow> multi_ok (me_multi s) \<and> me_flush_every s = 1 \<and> me_enable_hash_chain s"

lemma me_append:
  assumes "me_ok s" and "plain_settings st" and "codec_law C" and "fresh e"
    and "ev_aggregate_id e \<noteq> Some ''global''"
    and "\<forall>agg. agg \<noteq> Some ''global'' \<longrightarrow> on_disk crc C agg (me_multi s) = Inr (logs agg)"
  obtains s' c where "me_append_envelope crc sha C st e s = (Inr (), s')" and "me_ok s'"
    and "core c = core e" and "ev_previous_hash c = me_last_event_hash s"
    and "ev_event_hash c = Some (compute_hash sha c)" and "me_last_event_hash s' = ev_event_hash c"
    and "\<forall>agg. agg \<noteq> Some ''global'' \<longrightarrow>
      on_disk crc C agg (me_multi s') = Inr (logs agg @ events_for agg [c])"
    and "\<forall>a. map_of (ms_stores (me_multi s')) a \<noteq> None \<longleftrightarrow>
      map_of (ms_stores (me_multi s)) a \<noteq> None \<or> ev_aggregate_id e = Some a"
proof -
  let ?c = "me_chained sha s e"
  have s: "multi_ok (me_multi s)" "me_flush_every s = 1" "me_enable_hash_chain s"
    using assms(1) by (simp_all add: me_ok_def)
  have c: "core ?c = core e" "ev_previous_hash ?c = me_last_event_hash s"
    "ev_event_hash ?c = Some (compute_hash sha ?c)"
    using s(3) assms(4) by (simp_all add: me_chained_def fresh_def Let_def core_def compute_hash_def hash_input_def)
  have agg: "ev_aggregate_id ?c = ev_aggregate_id e" by (rule core_aggregate [OF c(1)])
  have one: "list_all (\<lambda>e. ev_aggregate_id e \<noteq> Some ''global'') [?c]" using assms(5) by (simp add: agg)
  obtain r m1 where app: "multi_append_envelope crc sha C st ?c (me_multi s) = (r, m1)"
    by (cases "multi_append_envelope crc sha C st ?c (me_multi s)")
  have "on_disk crc C (Some ''global'') (me_multi s) = on_disk crc C None (me_multi s)"
    by (simp add: on_disk_def dir_of_def)
  then have all: "\<forall>agg. on_disk crc C agg (me_multi s) =
      Inr (if agg = Some ''global'' then logs None else logs agg)"
    using assms(6) by simp
  have ne: "ev_aggregate_id ?c \<noteq> Some ''global''" using assms(5) by (simp add: agg)
  obtain m1 p where p:
    "multi_append_envelope crc sha C st ?c (me_multi s) = (Inr (), m1)" "multi_ok m1"
    "core p = core ?c" "ev_event_hash ?c \<noteq> None \<longrightarrow> p = ?c"
    "\<forall>agg. agg \<noteq> Some ''global'' \<longrightarrow> on_disk crc C agg m1 =
      Inr ((if agg = Some ''global'' then logs None else logs agg) @
        (if ev_aggregate_id ?c = agg then [p] else []))"
    "\<forall>a. map_of (ms_stores m1) a \<noteq> None \<longleftrightarrow>
      map_of (ms_stores (me_multi s)) a \<noteq> None \<or> ev_aggregate_id ?c = Some a"
    "ms_snapshots m1 = ms_snapshots (me_multi s)"
    "\<forall>agg. get_event_count agg m1 =
      get_event_count agg (me_multi s) + (if ev_aggregate_id ?c = agg then 1 else 0)"
    by (rule multi_append [OF s(1) assms(2,3) ne all])
  have m1: "multi_append_envelope crc sha C st ?c (me_multi s) = (Inr (), m1)" "multi_ok m1"
    "\<forall>agg. agg \<noteq> Some ''global'' \<longrightarrow>
      on_disk crc C agg m1 = Inr (logs agg @ (if ev_aggregate_id e = agg then [?c] else []))"
    "\<forall>a. map_of (ms_stores m1) a \<noteq> None \<longleftrightarrow>
      map_of (ms_stores (me_multi s)) a \<noteq> None \<or> ev_aggregate_id e = Some a"
    using p(1,2,4,5,6) c(3) agg by simp_all
  let ?s' = "me_flush crc (s\<lparr>me_multi := m1, me_last_event_hash := ev_event_hash ?c,
    me_events_count := me_events_count s + 1, me_pending_since_flush := me_pending_since_flush s + 1\<rparr>)"
  note f = flush_all_live [OF m1(2), of crc]
  have res: "me_append_envelope crc sha C st e s = (Inr (), ?s')"
    using s(2,3) m1(1) by (simp add: me_append_envelope_def Let_def)
  show thesis
  proof (rule that [OF res _ c])
    show "me_ok ?s'" using f(4) s(2,3) by (simp add: me_ok_def me_flush_def)
    show "me_last_event_hash ?s' = ev_event_hash ?c" by (simp add: me_flush_def)
    show "\<forall>agg. agg \<noteq> Some ''global'' \<longrightarrow>
        on_disk crc C agg (me_multi ?s') = Inr (logs agg @ events_for agg [?c])"
      using m1(3) by (simp add: me_flush_def on_disk_def f(1) events_for_def agg)
    show "\<forall>a. map_of (ms_stores (me_multi ?s')) a \<noteq> None \<longleftrightarrow>
        map_of (ms_stores (me_multi s)) a \<noteq> None \<or> ev_aggregate_id e = Some a"
      using m1(4) by (simp add: me_flush_def f(2))
  qed
qed

lemma me_append_all_logs:
  fixes crc :: "string \<Rightarrow> u32" and sha :: "string \<Rightarrow> string"
  assumes "me_ok s" and "plain_settings st" and "codec_law C" and "list_all fresh es"
    and "list_all (\<lambda>e. ev_aggregate_id e \<noteq> Some ''global'') es"
    and "\<forall>agg. agg \<noteq> Some ''global'' \<longrightarrow> on_disk crc C agg (me_multi s) = Inr (logs agg)"
  defines "s' \<equiv> me_append_all crc sha C st es s"
  shows "\<exists>cs. map core cs = map core es \<and> me_ok s' \<and> chain_valid sha (me_last_event_hash s) cs \<and>
    list_all has_hash cs \<and> (cs \<noteq> [] \<longrightarrow> ev_previous_hash (hd cs) = me_last_event_hash s) \<and>
    (\<forall>agg. agg \<noteq> Some ''global'' \<longrightarrow>
      on_disk crc C agg (me_multi s') = Inr (logs agg @ events_for agg cs)) \<and>
    (\<forall>a. map_of (ms_stores (me_multi s')) a \<noteq> None \<longleftrightarrow>
      map_of (ms_stores (me_multi s)) a \<noteq> None \<or> Some a \<in> ev_aggregate_id ` set es)"
  using assms(1,4,5,6) unfolding s'_def
proof (induction es arbitrary: s logs)
  case Nil
  then show ?case by (intro exI [of _ "[]"]) (simp add: events_for_def)
next
  case (Cons e es)
  from Cons.prems have e: "fresh e" "ev_aggregate_id e \<noteq> Some ''global''"
    and es: "list_all fresh es" "list_all (\<lambda>e. ev_aggregate_id e \<noteq> Some ''global'') es" by simp_all
  obtain s1 c where one: "me_append_envelope crc sha C st e s = (Inr (), s1)" "me_ok s1"
    "core c = core e" "ev_previous_hash c = me_last_event_hash s"
    "ev_event_hash c = Some (compute_hash sha c)" "me_last_event_hash s1 = ev_event_hash c"
    "\<forall>agg. agg \<noteq> Some ''global'' \<longrightarrow>
      on_disk crc C agg (me_multi s1) = Inr (logs agg @ events_for agg [c])"
    "\<forall>a. map_of (ms_stores (me_multi s1)) a \<noteq> None \<longleftrightarrow>
      map_of (ms_stores (me_multi s)) a \<noteq> None \<or> ev_aggregate_id e = Some a"
    by (rule me_append [OF Cons.prems(1) assms(2,3) e Cons.prems(4)])
  from Cons.IH [OF one(2) es one(7)] obtain cs where cs:
    "map core cs = map core es" "me_ok (me_append_all crc sha C st es s1)"
    "chain_valid sha (me_last_event_hash s1) cs" "list_all has_hash cs"
    "\<forall>agg. agg \<noteq> Some ''global'' \<longrightarrow> on_disk crc C agg (me_multi (me_append_all crc sha C st es s1)) =
       Inr ((logs agg @ events_for agg [c]) @ events_for agg cs)"
    "\<forall>a. map_of (ms_stores (me_multi (me_append_all crc sha C st es s1))) a \<noteq> None \<longleftrightarrow>
       map_of (ms_stores (me_multi s1)) a \<noteq> None \<or> Some a \<in> ev_aggregate_id ` set es" by blast
  have all: "me_append_all crc sha C st (e # es) s = me_append_all crc sha C st es s1"
    by (simp add: one(1))
  have ev: "events_for agg (c # cs) = events_for agg [c] @ events_for agg cs" for agg
    by (simp add: events_for_def)
  show ?case
  proof (intro exI [of _ "c # cs"] conjI)
    show "map core (c # cs) = map core (e # es)" by (simp add: one(3) cs(1))
    show "me_ok (me_append_all crc sha C st (e # es) s)" unfolding all by (rule cs(2))
    show "chain_valid sha (me_last_event_hash s) (c # cs)"
      using cs(3) by (simp add: one(4-6) link_ok_def split: option.split)
    show "c # cs \<noteq> [] \<longrightarrow> ev_previous_hash (hd (c # cs)) = me_last_event_hash s" by (simp add: one(4))
    show "list_all has_hash (c # cs)" using cs(4) one(5) by (simp add: has_hash_def)
    show "\<forall>agg. agg \<noteq> Some ''global'' \<longrightarrow> on_disk crc C agg (me_multi (me_append_all crc sha C st (e # es) s)) =
       Inr (logs agg @ events_for agg (c # cs))"
      using cs(5) unfolding all ev by simp
    show "\<forall>a. map_of (ms_stores (me_multi (me_append_all crc sha C st (e # es) s))) a \<noteq> None \<longleftrightarrow>
       map_of (ms_stores (me_multi s)) a \<noteq> None \<or> Some a \<in> ev_aggregate_id ` set (e # es)"
      using cs(6) one(8) unfolding all by auto
  qed
qed

lemma read_stores_logs:
  "\<forall>(d, s) \<in> set ss. read_store crc C (files_in disk d) s = Some (Inr (log d)) \<Longrightarrow>
   read_stores crc C disk ss = Some (Inr (concat (map (log \<circ> fst) ss)))"
  by (induction ss) auto

text \<open>What the whole store reads: the global log, then the logs of the open stores.\<close>

lemma read_all_logs:
  assumes "multi_ok m" and "\<And>xs. set (order xs) = set xs"
    and "\<forall>agg. agg \<noteq> Some ''global'' \<longrightarrow> on_disk crc C agg m = Inr (logs agg)"
  shows "read_all_envelopes crc C order m =
    Some (Inr (logs None @ concat (map (\<lambda>d. logs (Some d)) (map fst (order (ms_stores m))))))"
proof -
  have "read_store crc C (files_in (ms_disk m) d) s = Some (Inr (logs (Some d)))"
    if "(d, s) \<in> set (order (ms_stores m))" for d s
  proof -
    have "dict_ok (ms_stores m)" "map_of (ms_stores m) ''global'' = None"
      using assms(1) by (simp_all add: multi_ok_def)
    with that assms(2) have d: "map_of (ms_stores m) d = Some s" "d \<noteq> ''global''"
      by (auto simp: dict_ok_def)
    then show ?thesis
      using read_open_aggregate [OF assms(1), of d crc C] assms(3)
      by (simp add: read_aggregate_envelopes_def)
  qed
  then have "\<forall>(d, s) \<in> set (order (ms_stores m)).
      read_store crc C (files_in (ms_disk m) d) s = Some (Inr (logs (Some d)))" by auto
  from read_stores_logs [OF this] show ?thesis
    using read_global [OF assms(1), of crc C] assms(3)
    by (simp add: read_all_envelopes_def comp_def)
qed

lemma two_stores:
  assumes "dict_ok d" and "\<And>x. map_of d x \<noteq> None \<longleftrightarrow> x = a \<or> x = b" and "a \<noteq> b"
    and "distinct (map fst xs)" and "set xs = set d"
  shows "map fst xs = [a, b] \<or> map fst xs = [b, a]"
proof -
  have dom: "set (map fst xs) = {a, b}"
    using assms(2) by (auto simp: assms(5) map_of_eq_None_iff image_iff)
  have "length (map fst xs) = 2"
    using distinct_card [OF assms(4)] dom assms(3) by simp
  then obtain u v where "map fst xs = [u, v]" by (cases "map fst xs"; cases "tl (map fst xs)") auto
  with dom assms(4) show ?thesis by (auto simp: doubleton_eq_iff)
qed

text \<open>
  The chain does not survive the split into files: when three events go to the aggregates a,
  b and again a of a new store, they form a verified chain in the order of appending, but the
  verification of the store reports its untouched log as invalid, in whatever order its hash map
  gives the files, unless the first two hashes collide.
\<close>

theorem multi_file_chain_breaks:
  fixes crc :: "string \<Rightarrow> u32" and sha :: "string \<Rightarrow> string"
  assumes "plain_settings st" and "\<not> st_disable_hash_chain st" and "codec_law C"
    and "list_all fresh [e1, e2, e3]"
    and "ev_aggregate_id e1 = Some a" and "ev_aggregate_id e2 = Some b" and "ev_aggregate_id e3 = Some a"
    and "a \<noteq> b" and "a \<noteq> ''global''" and "b \<noteq> ''global''"
    and "\<And>xs. mset (order xs) = mset xs"
    and "multi_event_store_new crc C st [] [] = Some (Inr s0)"
  shows "\<exists>c1 c2 c3 r. map core [c1, c2, c3] = map core [e1, e2, e3] \<and>
    is_fully_verified (verify_envelopes sha [c1, c2, c3]) \<and>
    me_verify_chain crc sha C order (me_append_all crc sha C st [e1, e2, e3] s0) = Some (Inr r) \<and>
    cr_total_events r = 3 \<and> (ev_event_hash c1 \<noteq> ev_event_hash c2 \<longrightarrow> \<not> cr_is_valid r)"
proof -
  define m where "m = multi_store_new crc C st [] []"
  have m: "multi_ok m" "ms_stores m = []"
    unfolding m_def by (rule new_ok [OF assms(1)], simp add: sound_disk_files sound_disk_def)
      (simp add: multi_store_new_def)
  have "\<forall>agg. agg \<noteq> Some ''global'' \<longrightarrow> on_disk crc C agg m = Inr []"
    by (simp add: m_def on_disk_def multi_store_new_def files_in_def no_files_def events_in_def contents_def)
  note empty = this
  have "read_all_envelopes crc C id m = Some (Inr [])"
    using read_all_logs [OF m(1) _ empty, of id] by (simp add: m(2))
  then have s0: "me_multi s0 = m" "me_last_event_hash s0 = None" "me_flush_every s0 = 1"
    "me_enable_hash_chain s0"
    using assms(2,12) by (auto simp: multi_event_store_new_def Let_def m_def [symmetric])
  have ok: "me_ok s0" using m(1) by (simp add: me_ok_def s0)
  define es where "es = [e1, e2, e3]"
  have es: "list_all fresh es" "list_all (\<lambda>e. ev_aggregate_id e \<noteq> Some ''global'') es"
    using assms(4-7,9,10) by (simp_all add: es_def)
  have start: "\<forall>agg. agg \<noteq> Some ''global'' \<longrightarrow> on_disk crc C agg (me_multi s0) = Inr []"
    using empty by (simp add: s0)
  let ?s = "me_append_all crc sha C st es s0"
  from me_append_all_logs [OF ok assms(1,3) es start, of sha] obtain cs where cs:
    "map core cs = map core es" "me_ok ?s" "chain_valid sha None cs" "list_all has_hash cs"
    "\<forall>agg. agg \<noteq> Some ''global'' \<longrightarrow> on_disk crc C agg (me_multi ?s) = Inr (events_for agg cs)"
    "\<forall>x. map_of (ms_stores (me_multi ?s)) x \<noteq> None \<longleftrightarrow> Some x \<in> ev_aggregate_id ` set es"
    "cs \<noteq> [] \<longrightarrow> ev_previous_hash (hd cs) = None"
    by (auto simp: s0 m(2))
  from cs(1) obtain c1 c2 c3 where c: "cs = [c1, c2, c3]" "core c1 = core e1" "core c2 = core e2"
    "core c3 = core e3" by (auto simp: es_def)
  have agg: "ev_aggregate_id c1 = Some a" "ev_aggregate_id c2 = Some b" "ev_aggregate_id c3 = Some a"
    using c(2-4) [THEN core_aggregate] assms(5-7) by simp_all
  have multi: "multi_ok (me_multi ?s)" using cs(2) by (simp add: me_ok_def)
  then have dict: "dict_ok (ms_stores (me_multi ?s))" by (simp add: multi_ok_def)
  let ?ds = "map fst (order (ms_stores (me_multi ?s)))"
  have set_order: "set (order xs) = set xs" for xs using assms(11) by (metis set_mset_mset)
  have "mset ?ds = mset (map fst (ms_stores (me_multi ?s)))" using assms(11) by simp
  then have "distinct ?ds" using dict by (metis dict_ok_def mset_eq_imp_distinct_iff)
  moreover have "map_of (ms_stores (me_multi ?s)) x \<noteq> None \<longleftrightarrow> x = a \<or> x = b" for x
    using cs(6) assms(5-7) by (auto simp: es_def)
  ultimately have ds: "?ds = [a, b] \<or> ?ds = [b, a]"
    by (intro two_stores [OF dict _ assms(8)] set_order) simp_all
  have "read_all_envelopes crc C order (me_multi ?s) =
      Some (Inr (concat (map (\<lambda>d. events_for (Some d) cs) ?ds)))"
    using read_all_logs [OF multi set_order cs(5)] by (simp add: events_for_def c(1) agg)
  moreover have "concat (map (\<lambda>d. events_for (Some d) cs) ?ds) = [c1, c3, c2] \<or>
      concat (map (\<lambda>d. events_for (Some d) cs) ?ds) = [c2, c1, c3]"
    using ds assms(8) by (auto simp: events_for_def c(1) agg)
  ultimately obtain log where log: "log = [c1, c3, c2] \<or> log = [c2, c1, c3]"
    "me_verify_chain crc sha C order ?s = Some (Inr (verify_envelopes sha log))"
    by (auto simp: me_verify_chain_def)
  obtain h1 h2 h3 where h: "ev_event_hash c1 = Some h1" "ev_event_hash c2 = Some h2" "ev_event_hash c3 = Some h3"
    using cs(4) by (auto simp: c(1) has_hash_def)
  have links: "ev_previous_hash c1 = None" "ev_previous_hash c2 = Some h1" "ev_previous_hash c3 = Some h2"
    using cs(3,7) by (simp_all add: c(1) h link_ok_def)
  have "\<not> cr_is_valid (verify_envelopes sha log)" if "ev_event_hash c1 \<noteq> ev_event_hash c2"
    using log(1) that h links by (auto simp: verify_envelopes_valid link_ok_def)
  moreover have "cr_total_events (verify_envelopes sha log) = 3"
    using log(1) by (auto simp: verify_envelopes_def)
  moreover have "is_fully_verified (verify_envelopes sha [c1, c2, c3])"
    using cs(3,4) by (simp add: verify_envelopes_full c(1))
  ultimately show ?thesis
    using log(2) c unfolding es_def by auto
qed

lemma multi_file_chain_breaks_witness:
  "\<exists>s0 r. multi_event_store_new demo_crc demo_codec demo_settings [] [] = Some (Inr s0) \<and>
     me_verify_chain demo_crc demo_sha demo_codec rev
       (me_append_all demo_crc demo_sha demo_codec demo_settings
          [event_of ''a'' ''1'', event_of ''b'' ''2'', event_of ''a'' ''3''] s0) = Some (Inr r) \<and>
     cr_total_events r = 3"
proof -
  have m: "multi_ok demo_multi" "ms_stores demo_multi = []"
    by (rule demo_multi_ok) (simp add: demo_multi_def multi_store_new_def)
  have "read_all_envelopes demo_crc demo_codec id demo_multi = Some (Inr [])"
    using read_all_logs [OF m(1) _ demo_multi_logs, of id] by (simp add: m(2))
  then obtain s0 where s0: "multi_event_store_new demo_crc demo_codec demo_settings [] [] = Some (Inr s0)"
    by (auto simp: multi_event_store_new_def Let_def demo_multi_def [symmetric])
  have st: "\<not> st_disable_hash_chain demo_settings" by (simp add: demo_settings_def)
  have fresh: "list_all fresh [event_of ''a'' ''1'', event_of ''b'' ''2'', event_of ''a'' ''3'']"
    by (simp add: event_of_def demo_event_def fresh_def)
  have aggs: "ev_aggregate_id (event_of ''a'' ''1'') = Some ''a''"
    "ev_aggregate_id (event_of ''b'' ''2'') = Some ''b''"
    "ev_aggregate_id (event_of ''a'' ''3'') = Some ''a''" by (simp_all add: event_of_def)
  have names: "''a'' \<noteq> ''b''" "''a'' \<noteq> ''global''" "''b'' \<noteq> ''global''" by simp_all
  have rev: "\<And>xs :: (string \<times> event_store) list. mset (rev xs) = mset xs" by simp
  from multi_file_chain_breaks [OF demo_plain st demo_codec_law fresh aggs names rev s0, of demo_sha]
  obtain r where "me_verify_chain demo_crc demo_sha demo_codec rev
      (me_append_all demo_crc demo_sha demo_codec demo_settings
         [event_of ''a'' ''1'', event_of ''b'' ''2'', event_of ''a'' ''3''] s0) = Some (Inr r)"
    "cr_total_events r = 3" by (elim exE conjE) (rule that)
  with s0 show ?thesis by (intro exI conjI)
qed

end
