(* ===== verification/AsyncWriter.thy ===== *)
theory AsyncWriter
  imports EventChain
begin

text \<open>
  The asynchronous writer of events, from \<^verbatim>\<open>lithair-core/src/engine/async_writer.rs\<close>, over the single
  event store: messages wait in a channel, one task takes them in order, buffers lines, and hands
  the buffer to the store when it is full, when a flush is requested and when nothing arrives for
  ten milliseconds. The channel of an acknowledgement is named by a number. The fields
  \<open>aw_sent\<close>, \<open>aw_taken\<close> and \<open>aw_failed\<close> record what was sent and received and whether an error was
  ignored; the code does not keep them. What the disk does is an argument of every operation that
  may write.
\<close>

section \<open>Messages and operations\<close>

datatype write_event = WEvent string | WEnvelope envelope | WFlush nat

datatype durability_mode = Performance | MaxDurability

record async_writer =
  aw_queue :: "write_event list"
  aw_closed :: bool
  aw_buffer :: "string list"
  aw_flushes :: "nat list"
  aw_acked :: "nat list"
  aw_store :: event_store
  aw_batch_size :: nat
  aw_sent :: "write_event list"
  aw_taken :: "write_event list"
  aw_residue :: string
  aw_failed :: bool

definition es_configure_batching :: "nat \<Rightarrow> bool \<Rightarrow> event_store \<Rightarrow> event_store" where
  "es_configure_batching n fsync s =
     s\<lparr>es_storage := EventFile.configure_batching n fsync (es_storage s)\<rparr>"

definition with_durability :: "event_store \<Rightarrow> nat \<Rightarrow> durability_mode \<Rightarrow> async_writer" where
  "with_durability s n d =
     \<lparr>aw_queue = [], aw_closed = False, aw_buffer = [], aw_flushes = [], aw_acked = [],
      aw_store = es_configure_batching n (d = MaxDurability) s, aw_batch_size = n,
      aw_sent = [], aw_taken = [], aw_residue = [], aw_failed = False\<rparr>"

definition async_writer_new :: "event_store \<Rightarrow> nat \<Rightarrow> async_writer" where
  "async_writer_new s n = with_durability s n MaxDurability"

section \<open>Writing\<close>

text \<open>
  One flush of the store's batch: it works, or it fails after \<open>p\<close> bytes of the batch went to the
  buffered writer and \<open>k\<close> of the bytes there reached the file; the rest stays in the buffered writer
  (\<open>aw_residue\<close>) in front of what is written next, and the lines stay in the batch. Failing to open the
  file is \<open>DiskError 0 0\<close>; failing to synchronise is an error after everything was written. Errors of the
  rotation, which is off in the theorems, are not among the outcomes.
\<close>

datatype disk_outcome = DiskWorks | DiskError nat nat

text \<open>A flush of the writer may also find the lock of the store poisoned.\<close>

datatype disk = LockPoisoned | Disk "nat \<Rightarrow> disk_outcome"

definition batch_text :: "(string \<Rightarrow> u32) \<Rightarrow> file_storage \<Rightarrow> string" where
  "batch_text crc s = concat (map (event_line crc (fs_enable_checksums s)) (fs_event_batch s))"

definition put_bytes :: "string \<Rightarrow> file_storage \<Rightarrow> file_storage" where
  "put_bytes bs s =
     (if bs = [] then s else s\<lparr>fs_events_file := append_file bs (fs_events_file s)\<rparr>)"

text \<open>The result tells whether it succeeded, what stays in the buffered writer, and the storage.\<close>

definition flush_batch_io ::
  "(string \<Rightarrow> u32) \<Rightarrow> disk_outcome \<Rightarrow> string \<Rightarrow> file_storage \<Rightarrow> bool \<times> string \<times> file_storage"
where
  "flush_batch_io crc d r s =
     (if fs_event_batch s = [] then (True, r, s)
      else case d of
             DiskWorks \<Rightarrow> (True, [], flush_batch crc (put_bytes r s))
           | DiskError p k \<Rightarrow>
               (let bs = r @ take p (batch_text crc s) in (False, drop k bs, put_bytes (take k bs) s)))"

text \<open>\<open>flush_events\<close> also flushes what an earlier failure left in the buffered writer.\<close>

definition flush_events_io ::
  "(string \<Rightarrow> u32) \<Rightarrow> disk_outcome \<Rightarrow> string \<Rightarrow> file_storage \<Rightarrow> bool \<times> string \<times> file_storage"
where
  "flush_events_io crc d r s =
     (let (ok, r1, s1) = flush_batch_io crc d r s in
      if \<not> ok \<or> r1 = [] then (ok, r1, s1)
      else case d of
             DiskWorks \<Rightarrow> (True, [], put_bytes r1 s1)
           | DiskError p k \<Rightarrow> (False, drop k r1, put_bytes (take k r1) s1))"

definition append_event_io ::
  "(string \<Rightarrow> u32) \<Rightarrow> disk_outcome \<Rightarrow> string \<Rightarrow> string \<Rightarrow> file_storage \<Rightarrow> bool \<times> string \<times> file_storage"
where
  "append_event_io crc d json r s =
     (let s1 = s\<lparr>fs_event_batch := fs_event_batch s @ [json], fs_batch_count := fs_batch_count s + 1\<rparr>
      in if fs_max_batch_size s1 \<le> fs_batch_count s1 then flush_batch_io crc d r s1 else (True, r, s1))"

text \<open>The loop over the buffer ignores errors; \<open>dk i\<close> is what the disk does to the append of the line \<open>i\<close>.\<close>

fun append_lines_io ::
  "(string \<Rightarrow> u32) \<Rightarrow> (nat \<Rightarrow> disk_outcome) \<Rightarrow> nat \<Rightarrow> string list \<Rightarrow> string \<Rightarrow> event_store \<Rightarrow>
   bool \<times> string \<times> event_store"
where
  "append_lines_io crc dk i [] r s = (True, r, s)"
| "append_lines_io crc dk i (l # ls) r s =
     (let (ok, r1, st) = append_event_io crc (dk i) l r (es_storage s);
          s1 = (if ok then s\<lparr>es_storage := st, es_events_count := es_events_count s + 1,
                             es_pending_since_flush := es_pending_since_flush s + 1\<rparr>
                else s\<lparr>es_storage := st\<rparr>);
          (oks, r2, s2) = append_lines_io crc dk (i + 1) ls r1 s1
      in (ok \<and> oks, r2, s2))"

text \<open>The flushes are acknowledged whatever happened to the lines.\<close>

definition flush_buffer :: "(string \<Rightarrow> u32) \<Rightarrow> disk \<Rightarrow> async_writer \<Rightarrow> async_writer" where
  "flush_buffer crc d w =
     (if aw_buffer w = [] \<and> aw_flushes w = [] then w
      else case d of
             LockPoisoned \<Rightarrow> w\<lparr>aw_failed := True\<rparr>
           | Disk dk \<Rightarrow>
               (let (ok1, r1, s1) = append_lines_io crc dk 0 (aw_buffer w) (aw_residue w) (aw_store w);
                    (ok2, r2, st) = flush_events_io crc (dk (length (aw_buffer w))) r1 (es_storage s1)
                in w\<lparr>aw_store := s1\<lparr>es_storage := st\<rparr>, aw_residue := r2,
                     aw_failed := (aw_failed w \<or> \<not> ok1 \<or> \<not> ok2),
                     aw_buffer := [], aw_acked := aw_acked w @ aw_flushes w, aw_flushes := []\<rparr>))"

definition push_line :: "(string \<Rightarrow> u32) \<Rightarrow> disk \<Rightarrow> string \<Rightarrow> async_writer \<Rightarrow> async_writer" where
  "push_line crc d json w =
     (let w1 = w\<lparr>aw_buffer := aw_buffer w @ [json]\<rparr>
      in if aw_batch_size w1 \<le> length (aw_buffer w1) then flush_buffer crc d w1 else w1)"

definition handle_message ::
  "(string \<Rightarrow> u32) \<Rightarrow> event_codec \<Rightarrow> disk \<Rightarrow> write_event \<Rightarrow> async_writer \<Rightarrow> async_writer"
where
  "handle_message crc C d msg w =
     (case msg of
        WEvent json \<Rightarrow> push_line crc d json w
      | WEnvelope e \<Rightarrow> (case ec_to_json C e of Inr json \<Rightarrow> push_line crc d json w | Inl m \<Rightarrow> w)
      | WFlush k \<Rightarrow> flush_buffer crc d (w\<lparr>aw_flushes := aw_flushes w @ [k]\<rparr>))"

section \<open>The channel and the task\<close>

definition send_message :: "write_event \<Rightarrow> async_writer \<Rightarrow> (string + unit) \<times> async_writer" where
  "send_message msg w =
     (if aw_closed w then (Inl ''channel closed'', w)
      else (Inr (), w\<lparr>aw_queue := aw_queue w @ [msg], aw_sent := aw_sent w @ [msg]\<rparr>))"

definition write_line :: "string \<Rightarrow> async_writer \<Rightarrow> (string + unit) \<times> async_writer" where
  "write_line json w = send_message (WEvent json) w"

text \<open>The three branches of the loop: a message, the timer, and the drain of the closed channel.\<close>

definition recv_message ::
  "(string \<Rightarrow> u32) \<Rightarrow> event_codec \<Rightarrow> disk \<Rightarrow> async_writer \<Rightarrow> async_writer"
where
  "recv_message crc C d w =
     (case aw_queue w of
        [] \<Rightarrow> w
      | msg # rest \<Rightarrow>
          handle_message crc C d msg (w\<lparr>aw_queue := rest, aw_taken := aw_taken w @ [msg]\<rparr>))"

definition timer :: "(string \<Rightarrow> u32) \<Rightarrow> disk \<Rightarrow> async_writer \<Rightarrow> async_writer" where
  "timer crc d w = (if aw_buffer w \<noteq> [] then flush_buffer crc d w else w)"

definition close_channel :: "async_writer \<Rightarrow> async_writer" where
  "close_channel w = w\<lparr>aw_closed := True\<rparr>"

text \<open>
  Shutting down: the channel is closed, what it still holds is taken, the rest is flushed; \<open>ds i\<close> is
  what the disk does meanwhile.
\<close>

definition shutdown ::
  "(string \<Rightarrow> u32) \<Rightarrow> event_codec \<Rightarrow> (nat \<Rightarrow> disk) \<Rightarrow> async_writer \<Rightarrow> async_writer"
where
  "shutdown crc C ds w =
     (let w1 = close_channel w; n = length (aw_queue w1)
      in flush_buffer crc (ds n) (fold (recv_message crc C) (map ds [0..<n]) w1))"

text \<open>A client sends a flush with an acknowledgement channel of its own; the disk may do anything.\<close>

inductive writer_step ::
  "(string \<Rightarrow> u32) \<Rightarrow> event_codec \<Rightarrow> async_writer \<Rightarrow> async_writer \<Rightarrow> bool"
  for crc :: "string \<Rightarrow> u32" and C :: event_codec
where
  step_send: "(\<And>k. msg = WFlush k \<Longrightarrow> WFlush k \<notin> set (aw_sent w)) \<Longrightarrow>
    writer_step crc C w (snd (send_message msg w))"
| step_recv: "writer_step crc C w (recv_message crc C d w)"
| step_timer: "writer_step crc C w (timer crc d w)"
| step_close: "writer_step crc C w (close_channel w)"

inductive writer_reachable ::
  "(string \<Rightarrow> u32) \<Rightarrow> event_codec \<Rightarrow> async_writer \<Rightarrow> async_writer \<Rightarrow> bool"
  for crc :: "string \<Rightarrow> u32" and C :: event_codec and w0 :: async_writer
where
  writer_start: "writer_reachable crc C w0 w0"
| writer_next: "writer_reachable crc C w0 w \<Longrightarrow> writer_step crc C w w' \<Longrightarrow>
    writer_reachable crc C w0 w'"

section \<open>What the writer holds\<close>

text \<open>The lines of a message, and the flush that it asks for.\<close>

definition lines_of :: "event_codec \<Rightarrow> write_event \<Rightarrow> string list" where
  "lines_of C msg =
     (case msg of
        WEvent json \<Rightarrow> [json]
      | WEnvelope e \<Rightarrow> (case ec_to_json C e of Inr json \<Rightarrow> [json] | Inl m \<Rightarrow> [])
      | WFlush k \<Rightarrow> [])"

definition text_of :: "event_codec \<Rightarrow> write_event list \<Rightarrow> string list" where
  "text_of C msgs = concat (map (lines_of C) msgs)"

definition plain_store :: "event_store \<Rightarrow> bool" where
  "plain_store s \<longleftrightarrow>
     storage_ok (es_storage s) \<and> fs_max_log_file_size (es_storage s) = 0"

definition written :: "(string \<Rightarrow> u32) \<Rightarrow> async_writer \<Rightarrow> string list" where
  "written crc w = held crc (es_storage (aw_store w))"

definition durable :: "(string \<Rightarrow> u32) \<Rightarrow> async_writer \<Rightarrow> string list" where
  "durable crc w = read_all_events crc (es_storage (aw_store w))"

lemma append_raw_lines:
  assumes "plain_store s" and "list_all event_ok ls"
  shows "plain_store (fold (append_raw_line crc) ls s) \<and>
    held crc (es_storage (fold (append_raw_line crc) ls s)) = held crc (es_storage s) @ ls"
  using assms
proof (induction ls arbitrary: s)
  case (Cons l ls)
  then show ?case
    using append_event_held [of "es_storage s" l crc] by (simp add: append_raw_line_def plain_store_def)
qed simp

lemma flush_lines:
  assumes "plain_store s"
  shows "plain_store (es_flush_events crc s)"
    "read_all_events crc (es_storage (es_flush_events crc s)) = held crc (es_storage s)"
    "held crc (es_storage (es_flush_events crc s)) = held crc (es_storage s)"
  using assms storage_ok_flush [of "es_storage s" crc] flush_reads [of "es_storage s" crc]
    flush_held [of "es_storage s" crc]
  by (simp_all add: plain_store_def es_flush_events_def flush_events_def held_def)

definition lines_ok :: "event_codec \<Rightarrow> write_event list \<Rightarrow> bool" where
  "lines_ok C msgs \<longleftrightarrow> list_all event_ok (text_of C msgs)"

text \<open>Without an error, and with nothing left from an earlier one, the operations on the store are the plain ones.\<close>

lemma append_event_works:
  "append_event_io crc d l [] s = (True, r, s') \<Longrightarrow> r = [] \<and> s' = EventFile.append_event crc l s"
  by (auto simp: append_event_io_def EventFile.append_event_def flush_batch_io_def put_bytes_def Let_def
      split: disk_outcome.splits if_splits)

lemma append_lines_works:
  "append_lines_io crc dk i ls [] s = (True, r, s') \<Longrightarrow> r = [] \<and> s' = fold (append_raw_line crc) ls s"
proof (induction ls arbitrary: i s)
  case (Cons l ls)
  obtain ok r1 st where a: "append_event_io crc (dk i) l [] (es_storage s) = (ok, r1, st)"
    by (metis prod_cases3)
  from Cons.prems have ok by (simp add: a split: prod.splits)
  with append_event_works [of crc "dk i" l "es_storage s" r1 st] a
  have "r1 = []" "st = EventFile.append_event crc l (es_storage s)" by auto
  with Cons.prems \<open>ok\<close> Cons.IH [of "i + 1" "append_raw_line crc l s"] show ?case
    by (auto simp: a append_raw_line_def split: prod.splits)
qed simp

lemma flush_events_works:
  "flush_events_io crc d [] s = (True, r, s') \<Longrightarrow> r = [] \<and> s' = EventFile.flush_events crc s"
  by (auto simp: flush_events_io_def flush_batch_io_def flush_events_def flush_batch_def put_bytes_def Let_def
      split: disk_outcome.splits if_splits)

lemma flush_buffer_works:
  assumes "aw_residue w = []" and "\<not> aw_failed (flush_buffer crc d w)"
    and "aw_buffer w \<noteq> [] \<or> aw_flushes w \<noteq> []"
  shows "flush_buffer crc d w =
    w\<lparr>aw_store := es_flush_events crc (fold (append_raw_line crc) (aw_buffer w) (aw_store w)),
      aw_buffer := [], aw_acked := aw_acked w @ aw_flushes w, aw_flushes := []\<rparr>"
proof -
  have act: "\<not> (aw_buffer w = [] \<and> aw_flushes w = [])" using assms(3) by simp
  obtain dk where d: "d = Disk dk" using assms(2) act by (cases d) (auto simp: flush_buffer_def)
  obtain ok1 r1 s1 where a: "append_lines_io crc dk 0 (aw_buffer w) [] (aw_store w) = (ok1, r1, s1)"
    by (metis prod_cases3)
  obtain ok2 r2 st where f: "flush_events_io crc (dk (length (aw_buffer w))) r1 (es_storage s1) = (ok2, r2, st)"
    by (metis prod_cases3)
  have eq: "flush_buffer crc d w = w\<lparr>aw_store := s1\<lparr>es_storage := st\<rparr>, aw_residue := r2,
      aw_failed := (aw_failed w \<or> \<not> ok1 \<or> \<not> ok2),
      aw_buffer := [], aw_acked := aw_acked w @ aw_flushes w, aw_flushes := []\<rparr>"
    unfolding flush_buffer_def if_not_P [OF act] d disk.case assms(1) a f prod.case Let_def by (rule refl)
  from assms(2) have ok: "\<not> aw_failed w" ok1 ok2 by (simp_all add: eq)
  from append_lines_works [of crc dk 0 "aw_buffer w" "aw_store w" r1 s1] a ok(2)
  have r1: "r1 = []" and s1: "s1 = fold (append_raw_line crc) (aw_buffer w) (aw_store w)" by auto
  from flush_events_works [of crc "dk (length (aw_buffer w))" "es_storage s1" r2 st] f ok(3)
  have r2: "r2 = []" and st: "st = EventFile.flush_events crc (es_storage s1)" by (auto simp: r1)
  show ?thesis unfolding eq by (rule async_writer.equality)
      (use ok assms(1) in \<open>simp_all add: r2 st es_flush_events_def flip: s1\<close>)
qed

lemma failed_stays:
  "aw_failed w \<Longrightarrow> aw_failed (flush_buffer crc d w)"
  by (auto simp: flush_buffer_def Let_def split: disk.splits prod.splits)

lemma recv_failed: "aw_failed w \<Longrightarrow> aw_failed (recv_message crc C d w)"
  by (auto simp: recv_message_def handle_message_def push_line_def Let_def
      split: list.split write_event.split sum.split intro!: failed_stays)

text \<open>
  The invariant, from a store that held the lines \<open>init\<close>: what was taken from the channel is in
  the store followed by the buffer; between messages no flush is pending and the store has nothing
  in memory; and each acknowledged flush was taken, with everything sent before it readable.
\<close>

definition writer_inv :: "(string \<Rightarrow> u32) \<Rightarrow> event_codec \<Rightarrow> string list \<Rightarrow> async_writer \<Rightarrow> bool" where
  "writer_inv crc C init w \<longleftrightarrow>
     aw_sent w = aw_taken w @ aw_queue w \<and> plain_store (aw_store w) \<and>
     list_all event_ok (aw_buffer w) \<and> aw_flushes w = [] \<and>
     written crc w @ aw_buffer w = init @ text_of C (aw_taken w) \<and> durable crc w = written crc w \<and>
     (\<forall>k. WFlush k \<in> set (aw_taken w) \<longleftrightarrow> k \<in> set (aw_acked w)) \<and>
     (\<forall>k pre post. aw_taken w = pre @ WFlush k # post \<longrightarrow>
        (\<exists>more. written crc w = init @ text_of C pre @ more)) \<and>
     aw_residue w = []"

lemma text_of_simps [simp]:
  "text_of C [] = []" "text_of C (m # ms) = lines_of C m @ text_of C ms"
  "text_of C (xs @ ys) = text_of C xs @ text_of C ys"
  by (simp_all add: text_of_def)

lemma flush_buffer_effect:
  assumes "plain_store (aw_store w)" and "list_all event_ok (aw_buffer w)"
    and "aw_buffer w \<noteq> [] \<or> aw_flushes w \<noteq> []" and "aw_residue w = []"
    and "\<not> aw_failed (flush_buffer crc d w)"
  shows "plain_store (aw_store (flush_buffer crc d w))"
    "durable crc (flush_buffer crc d w) = written crc w @ aw_buffer w"
    "written crc (flush_buffer crc d w) = written crc w @ aw_buffer w"
    "aw_buffer (flush_buffer crc d w) = []" "aw_flushes (flush_buffer crc d w) = []"
    "aw_acked (flush_buffer crc d w) = aw_acked w @ aw_flushes w"
    "aw_taken (flush_buffer crc d w) = aw_taken w" "aw_sent (flush_buffer crc d w) = aw_sent w"
    "aw_queue (flush_buffer crc d w) = aw_queue w" "aw_residue (flush_buffer crc d w) = []"
proof -
  let ?s = "fold (append_raw_line crc) (aw_buffer w) (aw_store w)"
  note a = append_raw_lines [OF assms(1,2), of crc]
  then have s: "plain_store ?s" by blast
  note f = flush_lines [OF s, of crc]
  show "plain_store (aw_store (flush_buffer crc d w))"
    "durable crc (flush_buffer crc d w) = written crc w @ aw_buffer w"
    "written crc (flush_buffer crc d w) = written crc w @ aw_buffer w"
    "aw_buffer (flush_buffer crc d w) = []" "aw_flushes (flush_buffer crc d w) = []"
    "aw_acked (flush_buffer crc d w) = aw_acked w @ aw_flushes w"
    "aw_taken (flush_buffer crc d w) = aw_taken w" "aw_sent (flush_buffer crc d w) = aw_sent w"
    "aw_queue (flush_buffer crc d w) = aw_queue w" "aw_residue (flush_buffer crc d w) = []"
    unfolding flush_buffer_works [OF assms(4,5,3)] using a f assms(4)
    by (auto simp: durable_def written_def)
qed

lemma writer_inv_flushed:
  assumes "aw_sent w = aw_taken w @ aw_queue w" and "plain_store (aw_store w)"
    and "aw_buffer w = []" and "aw_flushes w = []" and "durable crc w = init @ text_of C (aw_taken w)"
    and "written crc w = init @ text_of C (aw_taken w)"
    and "\<forall>k. WFlush k \<in> set (aw_taken w) \<longleftrightarrow> k \<in> set (aw_acked w)" and "aw_residue w = []"
  shows "writer_inv crc C init w"
  using assms by (auto simp: writer_inv_def)

lemma push_line_inv:
  assumes "writer_inv crc C init w" and "aw_queue w = msg # rest" and "lines_of C msg = [json]"
    and "\<forall>k. msg \<noteq> WFlush k" and "event_ok json"
    and "\<not> aw_failed (push_line crc d json (w\<lparr>aw_queue := rest, aw_taken := aw_taken w @ [msg]\<rparr>))"
  shows "writer_inv crc C init
    (push_line crc d json (w\<lparr>aw_queue := rest, aw_taken := aw_taken w @ [msg]\<rparr>))"
proof -
  let ?w = "w\<lparr>aw_queue := rest, aw_taken := aw_taken w @ [msg], aw_buffer := aw_buffer w @ [json]\<rparr>"
  have inv: "aw_sent w = aw_taken w @ aw_queue w" "plain_store (aw_store w)"
    "list_all event_ok (aw_buffer w)" "aw_flushes w = []"
    "written crc w @ aw_buffer w = init @ text_of C (aw_taken w)"
    "\<forall>k. WFlush k \<in> set (aw_taken w) \<longleftrightarrow> k \<in> set (aw_acked w)"
    "\<forall>k pre post. aw_taken w = pre @ WFlush k # post \<longrightarrow>
        (\<exists>more. written crc w = init @ text_of C pre @ more)" "durable crc w = written crc w"
    "aw_residue w = []"
    using assms(1) by (simp_all add: writer_inv_def)
  have content: "written crc ?w @ aw_buffer ?w = init @ text_of C (aw_taken ?w)"
    using inv(5) assms(3) by (simp add: written_def)
  have keep: "\<forall>k. WFlush k \<in> set (aw_taken ?w) \<longleftrightarrow> k \<in> set (aw_acked ?w)"
    using inv(6) assms(4) by (auto simp: eq_commute)
  have "\<exists>more. written crc ?w = init @ text_of C pre @ more"
    if t: "aw_taken ?w = pre @ WFlush k # post" for k pre post
  proof (cases post rule: rev_cases)
    case Nil
    then show ?thesis using t assms(4) by simp
  next
    case (snoc post' x)
    then have "aw_taken w = pre @ WFlush k # post'" using t by simp
    with inv(7) show ?thesis by (simp add: written_def)
  qed
  then have unflushed: "writer_inv crc C init ?w"
    using inv(1-4,8,9) content keep assms(2,5) unfolding writer_inv_def
    by (simp add: durable_def written_def)
  have "writer_inv crc C init (flush_buffer crc d ?w)" if fine: "\<not> aw_failed (flush_buffer crc d ?w)"
  proof (rule writer_inv_flushed)
    have f: "plain_store (aw_store ?w)" "list_all event_ok (aw_buffer ?w)"
      "aw_buffer ?w \<noteq> [] \<or> aw_flushes ?w \<noteq> []" "aw_residue ?w = []"
      using inv(2,3,9) assms(5) by simp_all
    note e = flush_buffer_effect [OF f fine]
    show "aw_sent (flush_buffer crc d ?w) = aw_taken (flush_buffer crc d ?w) @ aw_queue (flush_buffer crc d ?w)"
      using inv(1) assms(2) by (simp add: e(7-9))
    show "plain_store (aw_store (flush_buffer crc d ?w))" by (rule e(1))
    show "aw_buffer (flush_buffer crc d ?w) = []" "aw_flushes (flush_buffer crc d ?w) = []" by (rule e(4), rule e(5))
    show "durable crc (flush_buffer crc d ?w) = init @ text_of C (aw_taken (flush_buffer crc d ?w))"
      "written crc (flush_buffer crc d ?w) = init @ text_of C (aw_taken (flush_buffer crc d ?w))"
      unfolding e(2,3,7) by (rule content)+
    show "\<forall>k. WFlush k \<in> set (aw_taken (flush_buffer crc d ?w)) \<longleftrightarrow> k \<in> set (aw_acked (flush_buffer crc d ?w))"
      using keep inv(4) unfolding e(6,7) by simp
    show "aw_residue (flush_buffer crc d ?w) = []" by (rule e(10))
  qed
  with unflushed assms(6) show ?thesis by (simp add: push_line_def Let_def split: if_splits)
qed

lemma recv_inv:
  assumes "writer_inv crc C init w" and "lines_ok C (aw_sent w)" and "\<not> aw_failed (recv_message crc C d w)"
  shows "writer_inv crc C init (recv_message crc C d w)"
proof (cases "aw_queue w")
  case (Cons msg rest)
  have sent: "aw_sent w = aw_taken w @ msg # rest" using assms(1) Cons by (simp add: writer_inv_def)
  have ok: "list_all event_ok (lines_of C msg)" using assms(2) by (simp add: lines_ok_def sent)
  let ?w = "w\<lparr>aw_queue := rest, aw_taken := aw_taken w @ [msg]\<rparr>"
  show ?thesis
  proof (cases msg)
    case (WEvent json)
    then show ?thesis
      using push_line_inv [OF assms(1) Cons, where json = json and d = d] ok Cons assms(3)
      by (simp add: recv_message_def handle_message_def lines_of_def)
  next
    case (WEnvelope e)
    show ?thesis
    proof (cases "ec_to_json C e")
      case (Inr json)
      then show ?thesis
        using push_line_inv [OF assms(1) Cons, where json = json and d = d] ok Cons WEnvelope assms(3)
        by (simp add: recv_message_def handle_message_def lines_of_def)
    next
      case (Inl m)
      have "\<exists>more. written crc ?w = init @ text_of C pre @ more"
        if t: "aw_taken ?w = pre @ WFlush k # post" for k pre post
      proof (cases post rule: rev_cases)
        case (snoc post' x)
        then show ?thesis using t assms(1) by (simp add: writer_inv_def written_def)
      qed (use t WEnvelope in simp)
      then have "writer_inv crc C init ?w"
        using assms(1) Cons Inl WEnvelope
        unfolding writer_inv_def by (simp add: lines_of_def written_def durable_def)
      then show ?thesis using Cons Inl WEnvelope by (simp add: recv_message_def handle_message_def)
    qed
  next
    case (WFlush k)
    let ?f = "?w\<lparr>aw_flushes := aw_flushes w @ [k]\<rparr>"
    have f: "plain_store (aw_store ?f)" "list_all event_ok (aw_buffer ?f)"
      "aw_buffer ?f \<noteq> [] \<or> aw_flushes ?f \<noteq> []" "aw_residue ?f = []"
      using assms(1) by (simp_all add: writer_inv_def)
    have fine: "\<not> aw_failed (flush_buffer crc d ?f)"
      using assms(3) Cons WFlush by (simp add: recv_message_def handle_message_def)
    note e = flush_buffer_effect [OF f fine]
    have content: "written crc ?f @ aw_buffer ?f = init @ text_of C (aw_taken ?f)"
      using assms(1) WFlush by (simp add: writer_inv_def written_def lines_of_def)
    have "writer_inv crc C init (flush_buffer crc d ?f)"
    proof (rule writer_inv_flushed)
      show "aw_sent (flush_buffer crc d ?f) = aw_taken (flush_buffer crc d ?f) @ aw_queue (flush_buffer crc d ?f)"
        using sent by (simp add: e(7-9))
      show "plain_store (aw_store (flush_buffer crc d ?f))" by (rule e(1))
      show "aw_buffer (flush_buffer crc d ?f) = []" "aw_flushes (flush_buffer crc d ?f) = []" by (rule e(4), rule e(5))
      show "durable crc (flush_buffer crc d ?f) = init @ text_of C (aw_taken (flush_buffer crc d ?f))"
        "written crc (flush_buffer crc d ?f) = init @ text_of C (aw_taken (flush_buffer crc d ?f))"
        unfolding e(2,3,7) by (rule content)+
      show "\<forall>k. WFlush k \<in> set (aw_taken (flush_buffer crc d ?f)) \<longleftrightarrow> k \<in> set (aw_acked (flush_buffer crc d ?f))"
        using assms(1) WFlush unfolding e(6,7) by (auto simp: writer_inv_def)
      show "aw_residue (flush_buffer crc d ?f) = []" by (rule e(10))
    qed
    then show ?thesis using Cons WFlush by (simp add: recv_message_def handle_message_def)
  qed
qed (use assms(1) in \<open>simp add: recv_message_def\<close>)

lemma flush_inv:
  assumes "writer_inv crc C init w" and "\<not> aw_failed (flush_buffer crc d w)"
  shows "writer_inv crc C init (flush_buffer crc d w)"
proof (cases "aw_buffer w = []")
  case True
  then show ?thesis using assms(1) by (simp add: flush_buffer_def writer_inv_def)
next
  case False
  have f: "plain_store (aw_store w)" "list_all event_ok (aw_buffer w)"
    "aw_buffer w \<noteq> [] \<or> aw_flushes w \<noteq> []" "aw_residue w = []" "aw_flushes w = []"
    using assms(1) False by (simp_all add: writer_inv_def)
  note e = flush_buffer_effect [OF f(1-4) assms(2)]
  have content: "written crc w @ aw_buffer w = init @ text_of C (aw_taken w)"
    "aw_sent w = aw_taken w @ aw_queue w"
    "\<forall>k. WFlush k \<in> set (aw_taken w) \<longleftrightarrow> k \<in> set (aw_acked w)"
    using assms(1) by (simp_all add: writer_inv_def)
  show ?thesis
    by (rule writer_inv_flushed) (use e content f(5) in simp_all)
qed

lemma step_failed: "writer_step crc C w w' \<Longrightarrow> aw_failed w \<Longrightarrow> aw_failed w'"
  by (erule writer_step.cases)
    (auto simp: send_message_def timer_def close_channel_def intro: recv_failed failed_stays)

lemma step_inv:
  assumes "writer_step crc C w w'" and "writer_inv crc C init w" and "lines_ok C (aw_sent w)"
    and "\<not> aw_failed w'"
  shows "writer_inv crc C init w'"
  using assms(1)
proof cases
  case (step_send msg)
  then show ?thesis
    using assms(2) by (simp add: send_message_def writer_inv_def written_def durable_def)
next
  case (step_recv d)
  then show ?thesis using recv_inv [OF assms(2,3)] assms(4) by simp
next
  case (step_timer d)
  then show ?thesis using assms(2,4) flush_inv [OF assms(2)] by (auto simp: timer_def)
next
  case step_close
  then show ?thesis
    using assms(2) by (simp add: close_channel_def writer_inv_def written_def durable_def)
qed

lemma flush_keeps_sent [simp]:
  "aw_sent (flush_buffer crc d w) = aw_sent w" "aw_queue (flush_buffer crc d w) = aw_queue w"
  "aw_closed (flush_buffer crc d w) = aw_closed w"
  by (auto simp: flush_buffer_def Let_def split: disk.splits prod.splits)

lemma recv_keeps_sent [simp]: "aw_sent (recv_message crc C d w) = aw_sent w"
  by (simp add: recv_message_def handle_message_def push_line_def Let_def
      split: list.split write_event.split sum.split)

lemma step_sent:
  "writer_step crc C w w' \<Longrightarrow> aw_sent w' = aw_sent w \<or>
     (\<exists>msg. aw_sent w' = aw_sent w @ [msg] \<and> (\<forall>k. msg = WFlush k \<longrightarrow> WFlush k \<notin> set (aw_sent w)))"
  by (erule writer_step.cases) (auto simp: send_message_def timer_def close_channel_def)

lemma reachable_inv:
  assumes "writer_reachable crc C w0 w" and "writer_inv crc C init w0" and "lines_ok C (aw_sent w)"
    and "\<not> aw_failed w"
  shows "writer_inv crc C init w"
  using assms
proof induction
  case (writer_next w w')
  have "lines_ok C (aw_sent w)"
    using step_sent [OF writer_next.hyps(2)] writer_next.prems(2) by (auto simp: lines_ok_def)
  moreover have "\<not> aw_failed w" using step_failed [OF writer_next.hyps(2)] writer_next.prems(3) by blast
  ultimately show ?case using writer_next step_inv by blast
qed

text \<open>The request for each acknowledgement is sent once.\<close>

definition one_place :: "write_event list \<Rightarrow> nat \<Rightarrow> bool" where
  "one_place msgs k \<longleftrightarrow>
     (\<forall>pre post. msgs = pre @ WFlush k # post \<longrightarrow> WFlush k \<notin> set pre \<union> set post)"

lemma one_place_snoc:
  assumes "one_place msgs k" and "msg = WFlush k \<Longrightarrow> WFlush k \<notin> set msgs"
  shows "one_place (msgs @ [msg]) k"
  unfolding one_place_def
proof (intro allI impI)
  fix pre post
  assume eq: "msgs @ [msg] = pre @ WFlush k # post"
  show "WFlush k \<notin> set pre \<union> set post"
  proof (cases post rule: rev_cases)
    case Nil
    then have "msgs = pre" "msg = WFlush k" using eq by simp_all
    with assms(2) Nil show ?thesis by simp
  next
    case (snoc post' x)
    then have m: "msgs = pre @ WFlush k # post'" "x = msg" using eq by simp_all
    then have "WFlush k \<in> set msgs" by simp
    with assms(2) have "msg \<noteq> WFlush k" by blast
    with assms(1) m snoc show ?thesis by (auto simp: one_place_def)
  qed
qed

lemma reachable_one_place:
  assumes "writer_reachable crc C w0 w" and "aw_sent w0 = []"
  shows "one_place (aw_sent w) k"
  using assms
proof induction
  case writer_start
  then show ?case by (simp add: one_place_def)
next
  case (writer_next w w')
  then have "one_place (aw_sent w) k" by simp
  with step_sent [OF writer_next.hyps(2)] one_place_snoc [of "aw_sent w" k] show ?case by auto
qed

lemma one_place_prefix:
  assumes "one_place (t @ q) k" and "t @ q = pre @ WFlush k # post" and "WFlush k \<in> set t"
  shows "\<exists>rest. t = pre @ WFlush k # rest"
proof -
  from assms(3) obtain u v where t: "t = u @ WFlush k # v" by (auto simp: in_set_conv_decomp)
  have eq: "u @ WFlush k # (v @ q) = pre @ WFlush k # post" using assms(2) by (simp add: t)
  have "WFlush k \<notin> set pre" "WFlush k \<notin> set post"
    using assms(1,2) unfolding one_place_def by blast+
  from append_Cons_eq_iff [OF this] eq have "u = pre" by metis
  then show ?thesis by (simp add: t)
qed

lemma start_inv:
  assumes "plain_store s" and "fs_event_batch (es_storage s) = []"
  shows "writer_inv crc C (read_all_events crc (es_storage s)) (with_durability s n d)"
  using assms
  by (simp add: writer_inv_def with_durability_def plain_store_def es_configure_batching_def
      configure_batching_def written_def durable_def held_def read_all_events_def storage_ok_def)

section \<open>Properties\<close>


definition demo_writer :: async_writer where
  "demo_writer = with_durability demo_store 1000 MaxDurability"

definition demo_disk :: disk where "demo_disk = Disk (\<lambda>_. DiskWorks)"

definition demo_flushed :: async_writer where
  "demo_flushed =
     recv_message demo_crc demo_codec demo_disk (recv_message demo_crc demo_codec demo_disk
       (snd (send_message (WFlush 0) (snd (send_message (WEvent ''{}'') demo_writer)))))"

text \<open>A disk that works makes nothing fail.\<close>

lemma working_lines:
  "fst (append_lines_io crc (\<lambda>_. DiskWorks) i ls r s)"
  by (induction ls arbitrary: i r s)
    (auto simp: append_event_io_def flush_batch_io_def Let_def split: prod.split if_splits)

lemma working_flush:
  "aw_failed (flush_buffer crc demo_disk w) = aw_failed w"
proof -
  have "fst (flush_events_io crc DiskWorks r st)" for r st
    by (simp add: flush_events_io_def flush_batch_io_def Let_def split: prod.split)
  then show ?thesis
    using working_lines [of crc 0 "aw_buffer w" "aw_residue w" "aw_store w"]
    by (auto simp: flush_buffer_def demo_disk_def Let_def split: prod.split) (metis fst_conv)+
qed

lemma working_recv: "aw_failed (recv_message crc C demo_disk w) = aw_failed w"
  by (simp add: recv_message_def handle_message_def push_line_def Let_def working_flush
      split: list.split write_event.split sum.split)

lemma working_shutdown: "aw_failed (shutdown crc C (\<lambda>_. demo_disk) w) = aw_failed w"
proof -
  have "aw_failed (fold (recv_message crc C) (map (\<lambda>_. demo_disk) ns) v) = aw_failed v" for ns :: "nat list" and v
    by (induction ns arbitrary: v) (simp_all add: working_recv)
  then show ?thesis by (simp add: shutdown_def Let_def working_flush close_channel_def)
qed

lemma demo_flushed_reachable: "writer_reachable demo_crc demo_codec demo_writer demo_flushed"
  unfolding demo_flushed_def
  by (intro writer_next [OF _ step_recv] writer_next [OF _ step_send] writer_start)
    (simp_all add: demo_writer_def with_durability_def send_message_def)

lemma demo_store_plain: "plain_store demo_store" "fs_event_batch (es_storage demo_store) = []"
  "read_all_events demo_crc (es_storage demo_store) = []"
  by (simp_all add: plain_store_def demo_store_def event_store_with_storage_def demo_storage_def
      file_storage_new_def storage_ok_def contents_def complete_def read_all_events_def)

lemma demo_flushed_state:
  "aw_sent demo_flushed = [WEvent ''{}'', WFlush 0]" "aw_acked demo_flushed = [0]"
  "\<not> aw_failed demo_flushed" "lines_ok demo_codec (aw_sent demo_flushed)"
  "aw_queue demo_flushed = []" "aw_buffer demo_flushed = []" "aw_flushes demo_flushed = []"
proof -
  show sent: "aw_sent demo_flushed = [WEvent ''{}'', WFlush 0]"
    by (simp add: demo_flushed_def send_message_def demo_writer_def with_durability_def)
  show "lines_ok demo_codec (aw_sent demo_flushed)"
    by (simp add: sent lines_ok_def lines_of_def event_ok_def newline_def)
  show "aw_acked demo_flushed = [0]" "\<not> aw_failed demo_flushed" "aw_queue demo_flushed = []"
    "aw_buffer demo_flushed = []" "aw_flushes demo_flushed = []"
    by (simp_all add: demo_flushed_def send_message_def demo_writer_def with_durability_def recv_message_def
        handle_message_def push_line_def flush_buffer_def demo_disk_def append_event_io_def
        flush_batch_io_def flush_events_io_def Let_def split: prod.split)
qed


text \<open>What is only added to the batch does not change the files.\<close>

definition no_disk :: disk where "no_disk = Disk (\<lambda>_. DiskError 0 0)"

lemma put_nothing [simp]: "put_bytes [] s = s" by (simp add: put_bytes_def)

lemma no_disk_append:
  "append_event_io crc (DiskError 0 0) l r s = (ok, r', s') \<Longrightarrow>
     files_of s' = files_of s \<and> fs_segment s' = fs_segment s \<and> r' = r \<and>
     read_all_events crc s' = read_all_events crc s"
  by (auto simp: append_event_io_def flush_batch_io_def Let_def read_all_events_def files_of_def
      split: if_splits)

lemma no_disk_lines:
  "append_lines_io crc (\<lambda>_. DiskError 0 0) i ls r s = (ok, r', s') \<Longrightarrow>
     files_of (es_storage s') = files_of (es_storage s) \<and>
     read_all_events crc (es_storage s') = read_all_events crc (es_storage s)"
proof (induction ls arbitrary: i r s ok r' s')
  case (Cons l ls)
  obtain ok1 r1 st where a: "append_event_io crc (DiskError 0 0) l r (es_storage s) = (ok1, r1, st)"
    by (metis prod_cases3)
  let ?s = "if ok1 then s\<lparr>es_storage := st, es_events_count := es_events_count s + 1,
                es_pending_since_flush := es_pending_since_flush s + 1\<rparr> else s\<lparr>es_storage := st\<rparr>"
  obtain ok2 r2 s2 where b: "append_lines_io crc (\<lambda>_. DiskError 0 0) (i + 1) ls r1 ?s = (ok2, r2, s2)"
    by (metis prod_cases3)
  have "append_lines_io crc (\<lambda>_. DiskError 0 0) i (l # ls) r s = (ok1 \<and> ok2, r2, s2)"
    unfolding append_lines_io.simps a prod.case Let_def b by (rule refl)
  then have "s' = s2" using Cons.prems by simp
  moreover have "es_storage ?s = st" by simp
  ultimately show ?case using Cons.IH [OF b] no_disk_append [OF a] by metis
qed simp

lemma no_disk_flush:
  "flush_events_io crc (DiskError 0 0) r s = (ok, r', s') \<Longrightarrow> s' = s"
  by (auto simp: flush_events_io_def flush_batch_io_def Let_def split: if_splits)

lemma buffer_flushed:
  assumes "aw_flushes w \<noteq> []"
  shows "aw_acked (flush_buffer crc (Disk dk) w) = aw_acked w @ aw_flushes w"
    "aw_buffer (flush_buffer crc (Disk dk) w) = []"
  using assms by (simp_all add: flush_buffer_def Let_def split: prod.split)

text \<open>
  C23. A flush is acknowledged even when nothing could be written: whatever the disk does, once the
  task takes the request of a flush with the lock at hand, it clears its buffer and acknowledges; and when
  the file cannot be opened it does so with the files as they were, so that the lines that were still
  in the buffer cannot be read from them.
\<close>

theorem flush_acknowledged_unwritten:
  assumes "aw_queue w = WFlush k # rest"
  shows "k \<in> set (aw_acked (recv_message crc C (Disk dk) w)) \<and>
    aw_buffer (recv_message crc C (Disk dk) w) = [] \<and>
    files_of (es_storage (aw_store (recv_message crc C no_disk w))) = files_of (es_storage (aw_store w)) \<and>
    durable crc (recv_message crc C no_disk w) = durable crc w"
proof -
  let ?f = "w\<lparr>aw_queue := rest, aw_taken := aw_taken w @ [WFlush k], aw_flushes := aw_flushes w @ [k]\<rparr>"
  have r: "recv_message crc C d w = flush_buffer crc d ?f" for d
    by (simp add: recv_message_def handle_message_def assms)
  have "aw_flushes ?f \<noteq> []" by simp
  note b = buffer_flushed [OF this, of crc dk]
  obtain ok1 r1 s1 where a: "append_lines_io crc (\<lambda>_. DiskError 0 0) 0 (aw_buffer w) (aw_residue w) (aw_store w)
      = (ok1, r1, s1)"
    by (metis prod_cases3)
  obtain ok2 r2 st where f: "flush_events_io crc (DiskError 0 0) r1 (es_storage s1) = (ok2, r2, st)"
    by (metis prod_cases3)
  have "es_storage (aw_store (flush_buffer crc no_disk ?f)) = es_storage s1"
    using no_disk_flush [OF f] by (simp add: flush_buffer_def no_disk_def a f Let_def)
  with no_disk_lines [OF a] b show ?thesis by (simp add: r durable_def)
qed

lemma flush_acknowledged_unwritten_witness:
  "(let w = snd (send_message (WFlush 0) (demo_writer\<lparr>aw_buffer := [''{}'']\<rparr>));
        w' = recv_message demo_crc demo_codec no_disk w
    in 0 \<in> set (aw_acked w') \<and> aw_buffer w' = [] \<and> durable demo_crc w' = [])"
proof -
  let ?w = "snd (send_message (WFlush 0) (demo_writer\<lparr>aw_buffer := [''{}'']\<rparr>))"
  have q: "aw_queue ?w = WFlush 0 # []"
    by (simp add: send_message_def demo_writer_def with_durability_def)
  have "durable demo_crc ?w = []"
    using demo_store_plain(3) by (simp add: durable_def send_message_def demo_writer_def with_durability_def
        es_configure_batching_def configure_batching_def read_all_events_def)
  with flush_acknowledged_unwritten [OF q, of demo_crc demo_codec "\<lambda>_. DiskError 0 0"]
  show ?thesis by (simp add: no_disk_def)
qed

text \<open>Taking all that waits empties the channel.\<close>

lemma recv_queue [simp]:
  "aw_queue (recv_message crc C d w) = tl (aw_queue w)"
  "aw_closed (recv_message crc C d w) = aw_closed w"
  by (cases "aw_queue w"; simp add: recv_message_def handle_message_def push_line_def Let_def
      split: write_event.split sum.split)+

lemma recv_all:
  "aw_queue (fold (recv_message crc C) ds w) = drop (length ds) (aw_queue w)"
  "aw_sent (fold (recv_message crc C) ds w) = aw_sent w"
  "aw_closed (fold (recv_message crc C) ds w) = aw_closed w"
  by (induction ds arbitrary: w) (simp_all add: drop_Suc)

lemma recv_all_failed:
  "aw_failed w \<Longrightarrow> aw_failed (fold (recv_message crc C) ds w)"
  by (induction ds arbitrary: w) (simp_all add: recv_failed)

lemma recv_all_inv:
  assumes "writer_inv crc C init w" and "lines_ok C (aw_sent w)"
    and "\<not> aw_failed (fold (recv_message crc C) ds w)"
  shows "writer_inv crc C init (fold (recv_message crc C) ds w)"
  using assms
proof (induction ds arbitrary: w)
  case (Cons d ds)
  have "\<not> aw_failed (recv_message crc C d w)"
    using Cons.prems(3) recv_all_failed [of "recv_message crc C d w" crc C ds] by auto
  then show ?case using Cons.IH [of "recv_message crc C d w"] Cons.prems recv_inv by simp
qed simp

lemma flush_empties:
  assumes "\<not> aw_failed (flush_buffer crc d w)"
  shows "aw_buffer (flush_buffer crc d w) = []"
  using assms by (auto simp: flush_buffer_def Let_def split: disk.splits prod.splits)

text \<open>What a shutdown without error leaves.\<close>

lemma shutdown_inv:
  assumes "writer_reachable crc C (with_durability s n d) w" and "\<not> aw_failed (shutdown crc C ds w)"
    and "plain_store s" and "fs_event_batch (es_storage s) = []" and "lines_ok C (aw_sent w)"
  shows "writer_inv crc C (read_all_events crc (es_storage s)) (shutdown crc C ds w)"
    "aw_queue (shutdown crc C ds w) = []" "aw_sent (shutdown crc C ds w) = aw_sent w"
    "aw_closed (shutdown crc C ds w)" "aw_buffer (shutdown crc C ds w) = []"
proof -
  let ?init = "read_all_events crc (es_storage s)"
  let ?c = "close_channel w" and ?ds = "map ds [0..<length (aw_queue w)]"
  let ?r = "fold (recv_message crc C) ?ds ?c"
  have c: "aw_queue ?c = aw_queue w" "aw_sent ?c = aw_sent w" "aw_closed ?c" "aw_failed ?c = aw_failed w"
    by (simp_all add: close_channel_def)
  have eq: "shutdown crc C ds w = flush_buffer crc (ds (length (aw_queue w))) ?r"
    by (simp add: shutdown_def Let_def c)
  have fine: "\<not> aw_failed ?r" "\<not> aw_failed w"
    using assms(2) failed_stays recv_all_failed [of ?c crc C ?ds] unfolding eq c by blast+
  have "writer_inv crc C ?init ?c"
    by (rule step_inv [OF step_close reachable_inv [OF assms(1) start_inv [OF assms(3,4)] assms(5) fine(2)]
          assms(5)]) (simp add: c fine)
  then have "writer_inv crc C ?init ?r" by (rule recv_all_inv) (simp_all add: c assms(5) fine)
  from flush_inv [OF this] assms(2) show "writer_inv crc C ?init (shutdown crc C ds w)" by (simp add: eq)
  show "aw_queue (shutdown crc C ds w) = []" "aw_sent (shutdown crc C ds w) = aw_sent w"
    "aw_closed (shutdown crc C ds w)"
    by (simp_all add: eq recv_all c)
  show "aw_buffer (shutdown crc C ds w) = []" using assms(2) by (simp add: eq flush_empties)
qed



end
