(* ===== verification/Scc2Engine.thy ===== *)
theory Scc2Engine
  imports AsyncWriter
begin

text \<open>
  The state engine, from \<^verbatim>\<open>lithair-core/src/engine/scc2_engine.rs\<close> and \<^verbatim>\<open>engine/mod.rs\<close>: versioned
  entries by key, secondary indexes, the check of unique fields, persistence through the
  asynchronous writer, replay and snapshots. The model type and its events are user code, the
  records \<open>model_type\<close> and \<open>event_type\<close>. The maps are concurrent: an access that finds its entry
  locked gives up, which the record \<open>contention\<close> decides.
\<close>

section \<open>Models, events and entries\<close>

datatype 'j json_value = JString string | JOther 'j

record field_policy =
  fp_retention_limit :: nat
  fp_unique :: bool
  fp_indexed :: bool
  fp_snapshot_only :: bool
  fp_fk :: bool
  fp_fk_collection :: "string option"

record ('s, 'j) model_type =
  mt_default :: 's
  mt_fields :: "'s \<Rightarrow> string list"
  mt_policy :: "'s \<Rightarrow> string \<Rightarrow> field_policy option"
  mt_value :: "'s \<Rightarrow> string \<Rightarrow> 'j json_value option"
  mt_render :: "'j \<Rightarrow> string"

text \<open>
  \<open>ev_view\<close> is the view of a stored line as a JSON value: its members \<open>aggregate_id\<close> and \<open>payload\<close>
  if they are strings, or nothing when it does not parse.
\<close>

record ('e, 's) event_type =
  et_apply :: "'e \<Rightarrow> 's \<Rightarrow> 's"
  et_to_json :: "'e \<Rightarrow> string"
  et_of_json :: "string \<Rightarrow> 'e option"
  et_view :: "string \<Rightarrow> (string option \<times> string option) option"

record 's versioned_entry =
  ve_version :: u64
  ve_last_updated :: u64
  ve_data :: 's

type_synonym secondary_indexes = "(string, (string, string list) dict) dict"

record scc2_config =
  cf_enable_snapshots :: bool
  cf_snapshot_interval :: nat
  cf_enable_deduplication :: bool
  cf_auto_persist_writes :: bool
  cf_force_immediate_persistence :: bool

record 's scc2_engine =
  sx_state_map :: "(string, 's versioned_entry) dict"
  sx_indexes :: secondary_indexes
  sx_writer :: async_writer
  sx_config :: scc2_config
  sx_reads :: u64
  sx_writes :: u64

record contention =
  ct_entry :: "string \<Rightarrow> bool"
  ct_index :: "string \<Rightarrow> string \<Rightarrow> bool"

definition calm :: contention where
  "calm = \<lparr>ct_entry = \<lambda>_. False, ct_index = \<lambda>_ _. False\<rparr>"

datatype scc2_error =
    UniqueViolation string string string
  | LockFailed
  | SendFailed string
  | SnapshotsDisabled
  | StoreFailed

definition value_string :: "('s, 'j) model_type \<Rightarrow> 'j json_value \<Rightarrow> string" where
  "value_string T v = (case v of JString s \<Rightarrow> s | JOther j \<Rightarrow> mt_render T j)"

definition scc2_engine_new :: "event_store \<Rightarrow> scc2_config \<Rightarrow> 's scc2_engine" where
  "scc2_engine_new store cfg =
     \<lparr>sx_state_map = [], sx_indexes = [], sx_writer = async_writer_new store 1000,
      sx_config = cfg, sx_reads = 0, sx_writes = 0\<rparr>"

section \<open>Indexes\<close>

definition index_of :: "secondary_indexes \<Rightarrow> string \<Rightarrow> string \<Rightarrow> string list" where
  "index_of ix field v =
     (case map_of ix field of
        None \<Rightarrow> []
      | Some values \<Rightarrow> (case map_of values v of None \<Rightarrow> [] | Some keys \<Rightarrow> keys))"

definition get_indexed_values ::
  "contention \<Rightarrow> string \<Rightarrow> string \<Rightarrow> secondary_indexes \<Rightarrow> string list"
where
  "get_indexed_values ct field v ix = (if ct_index ct field v then [] else index_of ix field v)"

definition create_index :: "string \<Rightarrow> secondary_indexes \<Rightarrow> secondary_indexes" where
  "create_index field ix = (if map_of ix field = None then AList.update field [] ix else ix)"

definition add_to_index_value ::
  "contention \<Rightarrow> string \<Rightarrow> string \<Rightarrow> string \<Rightarrow> secondary_indexes \<Rightarrow> secondary_indexes"
where
  "add_to_index_value ct field v key ix =
     (let ix1 = create_index field ix
      in if ct_index ct field v then ix1
         else case map_of ix1 field of
                None \<Rightarrow> ix1
              | Some values \<Rightarrow>
                  (case map_of values v of
                     Some keys \<Rightarrow>
                       if key \<in> set keys then ix1
                       else AList.update field (AList.update v (keys @ [key]) values) ix1
                   | None \<Rightarrow> AList.update field (AList.update v [key] values) ix1))"

definition remove_from_index_value ::
  "contention \<Rightarrow> string \<Rightarrow> string \<Rightarrow> string \<Rightarrow> secondary_indexes \<Rightarrow> secondary_indexes"
where
  "remove_from_index_value ct field v key ix =
     (if ct_index ct field v then ix
      else case map_of ix field of
             None \<Rightarrow> ix
           | Some values \<Rightarrow>
               (case map_of values v of
                  None \<Rightarrow> ix
                | Some keys \<Rightarrow> AList.update field (AList.update v (remove1 key keys) values) ix))"

definition is_indexed :: "('s, 'j) model_type \<Rightarrow> 's \<Rightarrow> string \<Rightarrow> bool" where
  "is_indexed T s field =
     (case mt_policy T s field of Some p \<Rightarrow> fp_indexed p \<or> fp_unique p | None \<Rightarrow> False)"

definition update_index ::
  "('s, 'j) model_type \<Rightarrow> contention \<Rightarrow> string \<Rightarrow> 's \<Rightarrow> 's \<Rightarrow> string \<Rightarrow> secondary_indexes \<Rightarrow>
   secondary_indexes"
where
  "update_index T ct key old new field ix =
     (if is_indexed T new field \<and> mt_value T old field \<noteq> mt_value T new field
      then
        let ix1 = (case mt_value T old field of
                     Some v \<Rightarrow> remove_from_index_value ct field (value_string T v) key ix
                   | None \<Rightarrow> ix)
        in case mt_value T new field of
             Some v \<Rightarrow> add_to_index_value ct field (value_string T v) key ix1
           | None \<Rightarrow> ix1
      else ix)"

definition update_indexes ::
  "('s, 'j) model_type \<Rightarrow> contention \<Rightarrow> string \<Rightarrow> 's \<Rightarrow> 's \<Rightarrow> secondary_indexes \<Rightarrow> secondary_indexes"
where
  "update_indexes T ct key old new ix = fold (update_index T ct key old new) (mt_fields T new) ix"

definition add_field_to_index ::
  "('s, 'j) model_type \<Rightarrow> contention \<Rightarrow> string \<Rightarrow> 's \<Rightarrow> string \<Rightarrow> secondary_indexes \<Rightarrow>
   secondary_indexes"
where
  "add_field_to_index T ct key s field ix =
     (if is_indexed T s field
      then case mt_value T s field of
             Some v \<Rightarrow> add_to_index_value ct field (value_string T v) key ix
           | None \<Rightarrow> ix
      else ix)"

definition add_to_index ::
  "('s, 'j) model_type \<Rightarrow> contention \<Rightarrow> string \<Rightarrow> 's \<Rightarrow> secondary_indexes \<Rightarrow> secondary_indexes"
where
  "add_to_index T ct key s ix = fold (add_field_to_index T ct key s) (mt_fields T s) ix"

section \<open>Operations\<close>

definition read_entry :: "contention \<Rightarrow> string \<Rightarrow> 's scc2_engine \<Rightarrow> 's option" where
  "read_entry ct key e =
     (if ct_entry ct key then None else map_option ve_data (map_of (sx_state_map e) key))"

definition engine_read :: "contention \<Rightarrow> string \<Rightarrow> 's scc2_engine \<Rightarrow> 's option \<times> 's scc2_engine" where
  "engine_read ct key e = (read_entry ct key e, e\<lparr>sx_reads := sx_reads e + 1\<rparr>)"

definition has_indexes :: "'s scc2_engine \<Rightarrow> bool" where
  "has_indexes e \<longleftrightarrow> sx_indexes e \<noteq> []"

definition update_entry_volatile ::
  "('s, 'j) model_type \<Rightarrow> contention \<Rightarrow> u64 \<Rightarrow> string \<Rightarrow> ('s \<Rightarrow> 's) \<Rightarrow> 's scc2_engine \<Rightarrow>
   's scc2_engine option"
where
  "update_entry_volatile T ct now key f e =
     (if ct_entry ct key then None
      else Some
        (case map_of (sx_state_map e) key of
           Some v \<Rightarrow>
             e\<lparr>sx_state_map := AList.update key
                  (v\<lparr>ve_data := f (ve_data v), ve_version := ve_version v + 1, ve_last_updated := now\<rparr>)
                  (sx_state_map e),
               sx_indexes := (if has_indexes e
                              then update_indexes T ct key (ve_data v) (f (ve_data v)) (sx_indexes e)
                              else sx_indexes e),
               sx_writes := sx_writes e + 1\<rparr>
         | None \<Rightarrow>
             (let s = f (mt_default T)
              in e\<lparr>sx_state_map := AList.update key
                      \<lparr>ve_version = 1, ve_last_updated = now, ve_data = s\<rparr> (sx_state_map e),
                   sx_indexes := (if has_indexes e then add_to_index T ct key s (sx_indexes e)
                                  else sx_indexes e),
                   sx_writes := sx_writes e + 1\<rparr>)))"

definition violation ::
  "('s, 'j) model_type \<Rightarrow> contention \<Rightarrow> string \<Rightarrow> 's \<Rightarrow> secondary_indexes \<Rightarrow> string \<Rightarrow>
   scc2_error option"
where
  "violation T ct key s ix field =
     (case mt_policy T s field of
        None \<Rightarrow> None
      | Some p \<Rightarrow>
          if fp_unique p
          then (case mt_value T s field of
                  None \<Rightarrow> None
                | Some v \<Rightarrow>
                    map_option (UniqueViolation field (value_string T v))
                      (find (\<lambda>i. i \<noteq> key) (get_indexed_values ct field (value_string T v) ix)))
          else None)"

fun first_violation :: "(string \<Rightarrow> scc2_error option) \<Rightarrow> string list \<Rightarrow> scc2_error option" where
  "first_violation g [] = None"
| "first_violation g (f # fs) = (case g f of Some err \<Rightarrow> Some err | None \<Rightarrow> first_violation g fs)"

definition check_uniqueness ::
  "('s, 'j) model_type \<Rightarrow> contention \<Rightarrow> ('s \<Rightarrow> 's) \<Rightarrow> string \<Rightarrow> 's scc2_engine \<Rightarrow> scc2_error option"
where
  "check_uniqueness T ct f key e =
     (let s = f (case read_entry ct key e of None \<Rightarrow> mt_default T | Some s \<Rightarrow> s)
      in first_violation (violation T ct key s (sx_indexes e)) (mt_fields T s))"

text \<open>The part of \<^verbatim>\<open>apply_event\<close> after the check, as one step under the lock of the entry.\<close>

definition put_event ::
  "('s, 'j) model_type \<Rightarrow> ('e, 's) event_type \<Rightarrow> contention \<Rightarrow> u64 \<Rightarrow> string \<Rightarrow> 'e \<Rightarrow> bool \<Rightarrow>
   's scc2_engine \<Rightarrow> (scc2_error + unit) \<times> 's scc2_engine"
where
  "put_event T E ct now key ev persist e =
     (if ct_entry ct key then (Inl LockFailed, e)
      else
        let e1 = (case map_of (sx_state_map e) key of
                    Some v \<Rightarrow>
                      (let s = et_apply E ev (ve_data v)
                       in e\<lparr>sx_state_map := AList.update key
                               (v\<lparr>ve_data := s, ve_version := ve_version v + 1, ve_last_updated := now\<rparr>)
                               (sx_state_map e),
                            sx_indexes := update_indexes T ct key (ve_data v) s (sx_indexes e)\<rparr>)
                  | None \<Rightarrow>
                      (let s = et_apply E ev (mt_default T)
                       in e\<lparr>sx_state_map := AList.update key
                               \<lparr>ve_version = 1, ve_last_updated = now, ve_data = s\<rparr> (sx_state_map e),
                            sx_indexes := add_to_index T ct key s (sx_indexes e)\<rparr>));
            e2 = e1\<lparr>sx_writes := sx_writes e1 + 1\<rparr>
        in if persist \<and> cf_auto_persist_writes (sx_config e2)
           then (let (r, w) = send_message (WEvent (et_to_json E ev)) (sx_writer e2)
                 in case r of
                      Inl msg \<Rightarrow> (Inl (SendFailed msg), e2)
                    | Inr u \<Rightarrow> (Inr (), e2\<lparr>sx_writer := w\<rparr>))
           else (Inr (), e2))"

definition engine_apply_event ::
  "('s, 'j) model_type \<Rightarrow> ('e, 's) event_type \<Rightarrow> contention \<Rightarrow> u64 \<Rightarrow> string \<Rightarrow> 'e \<Rightarrow> bool \<Rightarrow>
   's scc2_engine \<Rightarrow> (scc2_error + unit) \<times> 's scc2_engine"
where
  "engine_apply_event T E ct now key ev persist e =
     (let e1 = snd (engine_read ct key e)
      in case check_uniqueness T ct (et_apply E ev) key e1 of
           Some err \<Rightarrow> (Inl err, e1)
         | None \<Rightarrow> put_event T E ct now key ev persist e1)"

definition insert_sync ::
  "('s, 'j) model_type \<Rightarrow> contention \<Rightarrow> u64 \<Rightarrow> string \<Rightarrow> 's \<Rightarrow> 's scc2_engine \<Rightarrow> 's scc2_engine"
where
  "insert_sync T ct now key s e =
     (case update_entry_volatile T ct now key (\<lambda>_. s) e of Some e1 \<Rightarrow> e1 | None \<Rightarrow> e)"

definition remove_sync :: "contention \<Rightarrow> string \<Rightarrow> 's scc2_engine \<Rightarrow> 's scc2_engine" where
  "remove_sync ct key e =
     (if ct_entry ct key then e else e\<lparr>sx_state_map := AList.delete key (sx_state_map e)\<rparr>)"

definition clear_sync :: "'s scc2_engine \<Rightarrow> 's scc2_engine" where
  "clear_sync e = e\<lparr>sx_state_map := [], sx_indexes := []\<rparr>"

definition engine_create_index :: "string \<Rightarrow> 's scc2_engine \<Rightarrow> 's scc2_engine" where
  "engine_create_index field e = e\<lparr>sx_indexes := create_index field (sx_indexes e)\<rparr>"

definition iter_all_sync :: "'s scc2_engine \<Rightarrow> (string \<times> 's) list" where
  "iter_all_sync e = map (\<lambda>(k, v). (k, ve_data v)) (sx_state_map e)"

definition engine_write ::
  "('s, 'j) model_type \<Rightarrow> contention \<Rightarrow> u64 \<Rightarrow> string \<Rightarrow> ('s \<Rightarrow> 's) \<Rightarrow> 's scc2_engine \<Rightarrow>
   (scc2_error + unit) \<times> 's scc2_engine"
where
  "engine_write T ct now key f e =
     (case update_entry_volatile T ct now key f e of
        Some e1 \<Rightarrow> (Inr (), e1)
      | None \<Rightarrow> (Inl LockFailed, e))"

section \<open>Persistence\<close>

definition replay_event ::
  "('s, 'j) model_type \<Rightarrow> ('e, 's) event_type \<Rightarrow> u64 \<Rightarrow> string \<Rightarrow> 's scc2_engine \<Rightarrow> 's scc2_engine"
where
  "replay_event T E now json e =
     (case et_view E json of
        None \<Rightarrow> e
      | Some (agg, payload) \<Rightarrow>
          (let key = (case agg of None \<Rightarrow> ''global'' | Some a \<Rightarrow> a);
               body = (case payload of Some p \<Rightarrow> p | None \<Rightarrow> json)
           in case et_of_json E body of
                None \<Rightarrow> e
              | Some ev \<Rightarrow>
                  (case update_entry_volatile T calm now key (et_apply E ev) e of
                     Some e1 \<Rightarrow> e1
                   | None \<Rightarrow> e)))"

definition replay_events ::
  "('s, 'j) model_type \<Rightarrow> ('e, 's) event_type \<Rightarrow> (string \<Rightarrow> u32) \<Rightarrow> event_codec \<Rightarrow> u64 \<Rightarrow>
   's scc2_engine \<Rightarrow> (engine_error + 's scc2_engine) option"
where
  "replay_events T E crc C now e =
     map_option (map_sum id (\<lambda>js. fold (replay_event T E now) js e))
       (get_all_events crc C (aw_store (sx_writer e)))"

text \<open>The snapshot is the JSON of all entries; rendering it is a parameter.\<close>

definition engine_snapshot ::
  "((string \<times> 's versioned_entry) list \<Rightarrow> string) \<Rightarrow> 's scc2_engine \<Rightarrow>
   (scc2_error + unit) \<times> 's scc2_engine"
where
  "engine_snapshot render e =
     (if \<not> cf_enable_snapshots (sx_config e) then (Inl SnapshotsDisabled, e)
      else (Inr (), e\<lparr>sx_writer := (sx_writer e)
              \<lparr>aw_store := es_save_snapshot (render (sx_state_map e)) (aw_store (sx_writer e))\<rparr>\<rparr>))"

definition truncate_log :: "'s scc2_engine \<Rightarrow> 's scc2_engine" where
  "truncate_log e =
     e\<lparr>sx_writer := (sx_writer e)\<lparr>aw_store := es_truncate_events (aw_store (sx_writer e))\<rparr>\<rparr>"

text \<open>The engine that a start builds on the files of a directory, as \<^verbatim>\<open>Engine::new\<close> does.\<close>

definition engine_start ::
  "('s, 'j) model_type \<Rightarrow> ('e, 's) event_type \<Rightarrow> (string \<Rightarrow> u32) \<Rightarrow> event_codec \<Rightarrow> store_settings \<Rightarrow>
   nat \<Rightarrow> nat \<Rightarrow> u64 \<Rightarrow> event_files \<Rightarrow> (engine_error + 's scc2_engine) option"
where
  "engine_start T E crc C st flush_every snapshot_every now d =
     (case event_store_new crc C st (st_enable_binary st) d of
        None \<Rightarrow> None
      | Some s \<Rightarrow>
          (let s1 = (if 0 < flush_every then set_flush_every flush_every s else s)
           in replay_events T E crc C now
                (scc2_engine_new s1
                   \<lparr>cf_enable_snapshots = True,
                    cf_snapshot_interval = (if 0 < snapshot_every then snapshot_every else 1000),
                    cf_enable_deduplication = True, cf_auto_persist_writes = True,
                    cf_force_immediate_persistence = False\<rparr>)))"

section \<open>What an index holds\<close>

text \<open>The fields of a model and their policies do not depend on its state.\<close>

definition static_model :: "('s, 'j) model_type \<Rightarrow> bool" where
  "static_model T \<longleftrightarrow>
     (\<forall>s. mt_fields T s = mt_fields T (mt_default T) \<and> mt_policy T s = mt_policy T (mt_default T)) \<and>
     distinct (mt_fields T (mt_default T))"

definition keyed :: "('s, 'j) model_type \<Rightarrow> 's \<Rightarrow> string \<Rightarrow> string \<Rightarrow> bool" where
  "keyed T s field v \<longleftrightarrow>
     field \<in> set (mt_fields T s) \<and> is_indexed T s field \<and>
     map_option (value_string T) (mt_value T s field) = Some v"

definition unique_field :: "('s, 'j) model_type \<Rightarrow> 's \<Rightarrow> string \<Rightarrow> bool" where
  "unique_field T s field \<longleftrightarrow> (\<exists>p. mt_policy T s field = Some p \<and> fp_unique p)"

definition add_key :: "string \<Rightarrow> string list \<Rightarrow> string list" where
  "add_key key ks = (if key \<in> set ks then ks else ks @ [key])"

lemma index_of_create [simp]: "index_of (create_index field ix) f v = index_of ix f v"
  by (auto simp: create_index_def index_of_def map_of_update)

lemma index_of_add:
  "index_of (add_to_index_value calm field v key ix) f w =
     (if f = field \<and> w = v then add_key key (index_of ix f w) else index_of ix f w)"
proof -
  obtain vals where vals: "map_of (create_index field ix) field = Some vals"
    by (cases "map_of ix field") (auto simp: create_index_def map_of_update)
  let ?ix = "create_index field ix"
  have "index_of (add_to_index_value calm field v key ix) f w =
      (if f = field \<and> w = v then add_key key (index_of ?ix f w) else index_of ?ix f w)"
    using vals
    by (auto simp: add_to_index_value_def calm_def Let_def index_of_def map_of_update add_key_def
        split: option.splits)
  then show ?thesis by simp
qed

lemma index_of_remove:
  "index_of (remove_from_index_value calm field v key ix) f w =
     (if f = field \<and> w = v then remove1 key (index_of ix f w) else index_of ix f w)"
  by (auto simp: remove_from_index_value_def calm_def index_of_def map_of_update split: option.splits)

definition changed_keys ::
  "('s, 'j) model_type \<Rightarrow> string \<Rightarrow> 's \<Rightarrow> 's \<Rightarrow> string \<Rightarrow> string \<Rightarrow> string list \<Rightarrow> string list"
where
  "changed_keys T key old new field v ks =
     (if is_indexed T new field \<and> mt_value T old field \<noteq> mt_value T new field
      then
        let ks1 = (if map_option (value_string T) (mt_value T old field) = Some v
                   then remove1 key ks else ks)
        in if map_option (value_string T) (mt_value T new field) = Some v then add_key key ks1 else ks1
      else ks)"

lemma index_of_update:
  "index_of (update_index T calm key old new field ix) f v =
     (if f = field then changed_keys T key old new field v (index_of ix f v) else index_of ix f v)"
  by (auto simp: update_index_def changed_keys_def index_of_add index_of_remove Let_def
      split: option.splits)

lemma index_of_updates:
  "distinct fs \<Longrightarrow>
   index_of (fold (update_index T calm key old new) fs ix) f v =
     (if f \<in> set fs then changed_keys T key old new f v (index_of ix f v) else index_of ix f v)"
  by (induction fs arbitrary: ix) (auto simp: index_of_update)

lemma index_of_add_field:
  "index_of (add_field_to_index T calm key s field ix) f v =
     (if f = field \<and> is_indexed T s f \<and> map_option (value_string T) (mt_value T s f) = Some v
      then add_key key (index_of ix f v) else index_of ix f v)"
  by (auto simp: add_field_to_index_def index_of_add split: option.splits)

lemma add_key_twice [simp]: "add_key k (add_key k ks) = add_key k ks"
  by (simp add: add_key_def)

lemma index_of_adds:
  "index_of (fold (add_field_to_index T calm key s) fs ix) f v =
     (if f \<in> set fs \<and> is_indexed T s f \<and> map_option (value_string T) (mt_value T s f) = Some v
      then add_key key (index_of ix f v) else index_of ix f v)"
  by (induction fs arbitrary: ix) (auto simp: index_of_add_field)

text \<open>
  The invariants: an index lists, once each, exactly the keys of the entries that have the value;
  and no two entries share the value of a unique field.
\<close>

definition index_exact :: "('s, 'j) model_type \<Rightarrow> 's scc2_engine \<Rightarrow> bool" where
  "index_exact T e \<longleftrightarrow>
     (\<forall>f v. distinct (index_of (sx_indexes e) f v) \<and>
        (\<forall>key. key \<in> set (index_of (sx_indexes e) f v) \<longleftrightarrow>
          (\<exists>s. map_option ve_data (map_of (sx_state_map e) key) = Some s \<and> keyed T s f v)))"

definition values_unique :: "('s, 'j) model_type \<Rightarrow> 's scc2_engine \<Rightarrow> bool" where
  "values_unique T e \<longleftrightarrow>
     (\<forall>k1 k2 s1 s2 f v. map_option ve_data (map_of (sx_state_map e) k1) = Some s1 \<longrightarrow>
        map_option ve_data (map_of (sx_state_map e) k2) = Some s2 \<longrightarrow> unique_field T s1 f \<longrightarrow>
        keyed T s1 f v \<longrightarrow> keyed T s2 f v \<longrightarrow> k1 = k2)"

lemma static_simps:
  assumes "static_model T"
  shows "mt_fields T s = mt_fields T t" "mt_policy T s = mt_policy T t" "distinct (mt_fields T s)"
    "is_indexed T s f = is_indexed T t f" "unique_field T s f = unique_field T t f"
proof -
  have all: "mt_fields T s = mt_fields T (mt_default T)" "mt_policy T s = mt_policy T (mt_default T)" for s
    using assms unfolding static_model_def by blast+
  show "mt_fields T s = mt_fields T t" "mt_policy T s = mt_policy T t"
    using all [of s] all [of t] by simp_all
  then show "is_indexed T s f = is_indexed T t f" "unique_field T s f = unique_field T t f"
    by (simp_all add: is_indexed_def unique_field_def)
  show "distinct (mt_fields T s)" using assms unfolding static_model_def all(1) [of s] by blast
qed

lemma unique_indexed: "unique_field T s f \<Longrightarrow> is_indexed T s f"
  by (auto simp: unique_field_def is_indexed_def)

text \<open>The state of an entry as a new event finds it, and after the event.\<close>

definition entry_data :: "'s scc2_engine \<Rightarrow> string \<Rightarrow> 's option" where
  "entry_data e key = map_option ve_data (map_of (sx_state_map e) key)"

definition state_before :: "('s, 'j) model_type \<Rightarrow> 's scc2_engine \<Rightarrow> string \<Rightarrow> 's" where
  "state_before T e key = (case entry_data e key of None \<Rightarrow> mt_default T | Some s \<Rightarrow> s)"

lemma put_event_effect:
  assumes "put_event T E calm now key ev persist e = (r, e')"
  shows "entry_data e' = (entry_data e)(key \<mapsto> et_apply E ev (state_before T e key))"
    "sx_indexes e' = (case entry_data e key of
       Some s \<Rightarrow> update_indexes T calm key s (et_apply E ev s) (sx_indexes e)
     | None \<Rightarrow> add_to_index T calm key (et_apply E ev (mt_default T)) (sx_indexes e))"
    "sx_config e' = sx_config e"
  using assms
  by (auto simp: put_event_def calm_def Let_def entry_data_def state_before_def fun_eq_iff map_of_update
      send_message_def split: option.splits if_splits)

lemma changed_keys_distinct: "distinct ks \<Longrightarrow> distinct (changed_keys T key old new f v ks)"
  by (simp add: changed_keys_def add_key_def Let_def)

lemma changed_keys_other:
  "k \<noteq> key \<Longrightarrow> k \<in> set (changed_keys T key old new f v ks) \<longleftrightarrow> k \<in> set ks"
  by (simp add: changed_keys_def add_key_def Let_def)

lemma changed_keys_own:
  assumes "static_model T" and "distinct ks" and "key \<in> set ks \<longleftrightarrow> keyed T old f v"
    and "f \<in> set (mt_fields T new)"
  shows "key \<in> set (changed_keys T key old new f v ks) \<longleftrightarrow> keyed T new f v"
proof -
  have f: "f \<in> set (mt_fields T old)" "is_indexed T old f = is_indexed T new f"
    using static_simps(1,4) [OF assms(1)] assms(4) by metis+
  show ?thesis
    using assms(2-4) f by (auto simp: changed_keys_def keyed_def add_key_def Let_def)
qed

lemma put_index_exact:
  assumes "static_model T" and "index_exact T e" and "put_event T E calm now key ev persist e = (r, e')"
  shows "index_exact T e'"
  unfolding index_exact_def entry_data_def [symmetric]
proof (intro allI conjI)
  fix f v
  note eff = put_event_effect [OF assms(3)]
  let ?ix = "index_of (sx_indexes e)" and ?new = "et_apply E ev (state_before T e key)"
  have exact: "distinct (?ix f v)"
    "\<And>k. k \<in> set (?ix f v) \<longleftrightarrow> (\<exists>s. entry_data e k = Some s \<and> keyed T s f v)"
    using assms(2) by (simp_all add: index_exact_def entry_data_def)
  have ix: "index_of (sx_indexes e') f v =
    (case entry_data e key of
       Some s \<Rightarrow> if f \<in> set (mt_fields T ?new) then changed_keys T key s ?new f v (?ix f v) else ?ix f v
     | None \<Rightarrow> if keyed T ?new f v then add_key key (?ix f v) else ?ix f v)"
    by (cases "entry_data e key")
      (simp_all add: eff(2) update_indexes_def add_to_index_def state_before_def keyed_def
        index_of_updates [OF static_simps(3) [OF assms(1)]] index_of_adds)
  show "distinct (index_of (sx_indexes e') f v)"
    using exact(1) by (simp add: ix add_key_def changed_keys_distinct split: option.split)
  fix k
  show "k \<in> set (index_of (sx_indexes e') f v) \<longleftrightarrow> (\<exists>s. entry_data e' k = Some s \<and> keyed T s f v)"
  proof (cases "k = key")
    case False
    then have "k \<in> set (index_of (sx_indexes e') f v) \<longleftrightarrow> k \<in> set (?ix f v)"
      by (simp add: ix changed_keys_other add_key_def split: option.split)
    then show ?thesis using exact(2) [of k] False by (simp add: eff(1))
  next
    case True
    show ?thesis
    proof (cases "entry_data e key")
      case None
      then have "key \<notin> set (?ix f v)" using exact(2) [of key] by simp
      then show ?thesis
        using None True by (simp add: ix eff(1) add_key_def)
    next
      case (Some s)
      have "mt_fields T s = mt_fields T ?new" by (rule static_simps(1) [OF assms(1)])
      then have out: "\<not> keyed T ?new f v" "\<not> keyed T s f v" if "f \<notin> set (mt_fields T ?new)"
        using that by (simp_all add: keyed_def)
      have own: "key \<in> set (?ix f v) \<longleftrightarrow> keyed T s f v" using exact(2) [of key] Some by simp
      from changed_keys_own [OF assms(1) exact(1) own, of ?new] out own
      show ?thesis using Some True by (simp add: ix eff(1))
    qed
  qed
qed

text \<open>What the check establishes.\<close>

lemma first_violation_None: "first_violation g fs = None \<longleftrightarrow> (\<forall>f \<in> set fs. g f = None)"
  by (induction fs) (auto split: option.split)

lemma check_passes:
  "check_uniqueness T calm (et_apply E ev) key e = None \<longleftrightarrow>
     (\<forall>f v. unique_field T (et_apply E ev (state_before T e key)) f \<longrightarrow>
        keyed T (et_apply E ev (state_before T e key)) f v \<longrightarrow>
        set (index_of (sx_indexes e) f v) \<subseteq> {key})"
proof -
  let ?s = "et_apply E ev (state_before T e key)"
  have s: "et_apply E ev (case read_entry calm key e of None \<Rightarrow> mt_default T | Some s \<Rightarrow> s) = ?s"
    by (simp add: read_entry_def calm_def state_before_def entry_data_def)
  have "violation T calm key ?s ix f = None \<longleftrightarrow>
      (\<forall>v. unique_field T ?s f \<longrightarrow> map_option (value_string T) (mt_value T ?s f) = Some v \<longrightarrow>
        set (index_of ix f v) \<subseteq> {key})" for ix f
    by (auto simp: violation_def unique_field_def get_indexed_values_def calm_def find_None_iff_all
        split: option.split)
  then have "check_uniqueness T calm (et_apply E ev) key e = None \<longleftrightarrow>
      (\<forall>f \<in> set (mt_fields T ?s). \<forall>v. unique_field T ?s f \<longrightarrow>
         map_option (value_string T) (mt_value T ?s f) = Some v \<longrightarrow>
         set (index_of (sx_indexes e) f v) \<subseteq> {key})"
    unfolding check_uniqueness_def Let_def s first_violation_None by blast
  then show ?thesis
    unfolding keyed_def using unique_indexed [of T ?s] by blast
qed

lemma put_values_unique:
  assumes "static_model T" and "index_exact T e" and "values_unique T e"
    and "check_uniqueness T calm (et_apply E ev) key e = None"
    and "put_event T E calm now key ev persist e = (r, e')"
  shows "values_unique T e'"
  unfolding values_unique_def entry_data_def [symmetric]
proof (intro allI impI)
  fix k1 k2 s1 s2 f v
  assume 1: "entry_data e' k1 = Some s1" and 2: "entry_data e' k2 = Some s2"
    and u: "unique_field T s1 f" and v: "keyed T s1 f v" "keyed T s2 f v"
  let ?s = "et_apply E ev (state_before T e key)"
  note eff = put_event_effect(1) [OF assms(5)]
  have u': "unique_field T s f" for s using u static_simps(5) [OF assms(1)] by blast
  have sub: "set (index_of (sx_indexes e) f v) \<subseteq> {key}" if "keyed T ?s f v"
    using assms(4) that u' by (simp add: check_passes)
  have only: "k = key" if "entry_data e k = Some s" "keyed T s f v" "keyed T ?s f v" for k s
  proof -
    have "k \<in> set (index_of (sx_indexes e) f v)"
      using assms(2) that(1,2) unfolding index_exact_def entry_data_def [symmetric] by blast
    with sub [OF that(3)] show "k = key" by blast
  qed
  show "k1 = k2"
  proof (cases "k1 = key"; cases "k2 = key")
    assume k: "k1 \<noteq> key" "k2 \<noteq> key"
    then show ?thesis
      using 1 2 u v assms(3) unfolding values_unique_def entry_data_def [symmetric] eff by auto
  qed (use 1 2 v only in \<open>auto simp: eff\<close>)
qed

section \<open>Runs of events\<close>

text \<open>Applying events one after the other; the second result lists the accepted ones.\<close>

fun apply_all ::
  "('s, 'j) model_type \<Rightarrow> ('e, 's) event_type \<Rightarrow> (u64 \<times> string \<times> 'e) list \<Rightarrow> 's scc2_engine \<Rightarrow>
   's scc2_engine \<times> (string \<times> 'e) list"
where
  "apply_all T E [] e = (e, [])"
| "apply_all T E ((now, key, ev) # ops) e =
     (case engine_apply_event T E calm now key ev True e of
        (Inl err, e1) \<Rightarrow> apply_all T E ops e1
      | (Inr u, e1) \<Rightarrow> (let (e2, acc) = apply_all T E ops e1 in (e2, (key, ev) # acc)))"

lemma read_keeps [simp]:
  "sx_indexes (snd (engine_read ct key e)) = sx_indexes e"
  "sx_state_map (snd (engine_read ct key e)) = sx_state_map e"
  "sx_writer (snd (engine_read ct key e)) = sx_writer e"
  "sx_config (snd (engine_read ct key e)) = sx_config e"
  "entry_data (snd (engine_read ct key e)) = entry_data e"
  "state_before T (snd (engine_read ct key e)) = state_before T e"
  "index_exact T (snd (engine_read ct key e)) = index_exact T e"
  "values_unique T (snd (engine_read ct key e)) = values_unique T e"
  by (simp_all add: engine_read_def index_exact_def values_unique_def entry_data_def state_before_def
      fun_eq_iff)

lemma apply_all_invariants:
  assumes "static_model T" and "index_exact T e" and "values_unique T e"
  shows "index_exact T (fst (apply_all T E ops e)) \<and> values_unique T (fst (apply_all T E ops e))"
  using assms(2,3)
proof (induction ops arbitrary: e)
  case (Cons op ops)
  obtain now key ev where op: "op = (now, key, ev)" by (cases op)
  obtain r e1 where app: "engine_apply_event T E calm now key ev True e = (r, e1)"
    by (cases "engine_apply_event T E calm now key ev True e")
  let ?e = "snd (engine_read calm key e)"
  have "index_exact T e1 \<and> values_unique T e1"
  proof (cases "check_uniqueness T calm (et_apply E ev) key ?e")
    case None
    then have put: "put_event T E calm now key ev True ?e = (r, e1)"
      using app by (simp add: engine_apply_event_def Let_def)
    have inv: "index_exact T ?e" "values_unique T ?e" using Cons.prems by simp_all
    show ?thesis
      using put_index_exact [OF assms(1) inv(1) put] put_values_unique [OF assms(1) inv None put] by simp
  next
    case (Some err)
    then have "e1 = ?e" using app by (simp add: engine_apply_event_def Let_def)
    then show ?thesis using Cons.prems by simp
  qed
  with Cons.IH [of e1] show ?case
    by (cases r; cases "apply_all T E ops e1") (simp_all add: op app)
qed simp

section \<open>Properties\<close>

text \<open>
  C25. Applied one after the other, events keep unique fields unique: the indexes stay exact, no two
  entries share the value of a unique field, and the next event is rejected, without any change to
  entries and indexes, exactly when another entry holds such a value.
\<close>

theorem sequential_uniqueness:
  fixes E :: "('e, 's) event_type" and ops :: "(u64 \<times> string \<times> 'e) list"
  assumes "static_model T" and "index_exact T e" and "values_unique T e"
  defines "e' \<equiv> fst (apply_all T E ops e)"
  shows "index_exact T e' \<and> values_unique T e' \<and>
    (\<forall>now key ev persist r e2. engine_apply_event T E calm now key ev persist e' = (r, e2) \<longrightarrow>
      (\<exists>f v k. r = Inl (UniqueViolation f v k)) =
      (\<exists>f v k s. k \<noteq> key \<and> entry_data e' k = Some s \<and> keyed T s f v \<and>
         unique_field T (et_apply E ev (state_before T e' key)) f \<and>
         keyed T (et_apply E ev (state_before T e' key)) f v) \<and>
      ((\<exists>f v k. r = Inl (UniqueViolation f v k)) \<longrightarrow>
         sx_state_map e2 = sx_state_map e' \<and> sx_indexes e2 = sx_indexes e'))"
proof -
  have inv: "index_exact T e'" "values_unique T e'"
    using apply_all_invariants [OF assms(1-3), of E ops] by (simp_all add: e'_def)
  have err: "\<exists>f v k. x = UniqueViolation f v k"
    if "first_violation (violation T ct key s ix) fs = Some x" for x ct key s ix fs
    using that
    by (induction fs) (auto simp: violation_def split: option.splits if_splits)
  show ?thesis
  proof (intro conjI inv allI impI)
    fix now key ev persist r e2
    let ?e = "snd (engine_read calm key e')" and ?s = "et_apply E ev (state_before T e' key)"
    assume app: "engine_apply_event T E calm now key ev persist e' = (r, e2)"
    have passes: "check_uniqueness T calm (et_apply E ev) key ?e = None \<longleftrightarrow>
        \<not> (\<exists>f v k s. k \<noteq> key \<and> entry_data e' k = Some s \<and> keyed T s f v \<and>
           unique_field T ?s f \<and> keyed T ?s f v)"
    proof -
      have "k \<in> set (index_of (sx_indexes e') f v) \<longleftrightarrow> (\<exists>s. entry_data e' k = Some s \<and> keyed T s f v)"
        for k f v
        using inv(1) unfolding index_exact_def entry_data_def [symmetric] by blast
      then show ?thesis unfolding check_passes read_keeps by blast
    qed
    show "(\<exists>f v k. r = Inl (UniqueViolation f v k)) =
      (\<exists>f v k s. k \<noteq> key \<and> entry_data e' k = Some s \<and> keyed T s f v \<and>
         unique_field T ?s f \<and> keyed T ?s f v)" (is "?R = ?P")
    proof (cases "check_uniqueness T calm (et_apply E ev) key ?e")
      case None
      then have "put_event T E calm now key ev persist ?e = (r, e2)"
        using app by (simp add: engine_apply_event_def Let_def)
      then have "\<not> (\<exists>f v k. r = Inl (UniqueViolation f v k))"
        by (auto simp: put_event_def Let_def split: if_splits option.splits prod.splits sum.splits)
      moreover have "\<not> ?P" by (rule iffD1 [OF passes None])
      ultimately show ?thesis by (simp only:)
    next
      case (Some x)
      then have r: "r = Inl x" using app by (simp add: engine_apply_event_def Let_def)
      have "\<exists>f v k. x = UniqueViolation f v k"
        using Some err unfolding check_uniqueness_def Let_def by blast
      then have "?R" by (auto simp: r)
      moreover have "?P"
      proof (rule ccontr)
        assume "\<not> ?P"
        then have "check_uniqueness T calm (et_apply E ev) key ?e = None" by (rule iffD2 [OF passes])
        with Some show False by simp
      qed
      ultimately show ?thesis by (intro iffI)
    qed
    assume "\<exists>f v k. r = Inl (UniqueViolation f v k)"
    then have "check_uniqueness T calm (et_apply E ev) key ?e \<noteq> None"
      using app
      by (auto simp: engine_apply_event_def put_event_def Let_def
          split: if_splits option.splits prod.splits sum.splits)
    then have "e2 = ?e" using app by (auto simp: engine_apply_event_def Let_def)
    then show "sx_state_map e2 = sx_state_map e'" "sx_indexes e2 = sx_indexes e'" by simp_all
  qed
qed

text \<open>A model with one unique field, whose event sets the state.\<close>

definition demo_policy :: field_policy where
  "demo_policy = \<lparr>fp_retention_limit = 0, fp_unique = True, fp_indexed = False, fp_snapshot_only = False,
     fp_fk = False, fp_fk_collection = None\<rparr>"

definition demo_model :: "(string, unit) model_type" where
  "demo_model = \<lparr>mt_default = [], mt_fields = \<lambda>s. [''email''],
     mt_policy = \<lambda>s f. if f = ''email'' then Some demo_policy else None,
     mt_value = \<lambda>s f. if f = ''email'' then Some (JString s) else None, mt_render = \<lambda>u. []\<rparr>"

definition demo_events :: "(string, string) event_type" where
  "demo_events = \<lparr>et_apply = \<lambda>ev s. ev, et_to_json = \<lambda>ev. ev, et_of_json = Some,
     et_view = \<lambda>j. Some (None, None)\<rparr>"

definition demo_config :: scc2_config where
  "demo_config = \<lparr>cf_enable_snapshots = True, cf_snapshot_interval = 1000,
     cf_enable_deduplication = True, cf_auto_persist_writes = True,
     cf_force_immediate_persistence = False\<rparr>"

definition demo_engine :: "string scc2_engine" where
  "demo_engine = scc2_engine_new demo_store demo_config"

lemma demo_static: "static_model demo_model"
  by (simp add: static_model_def demo_model_def)

lemma demo_unique: "unique_field demo_model s f \<longleftrightarrow> f = ''email''"
  by (simp add: unique_field_def demo_model_def demo_policy_def)

lemma demo_keyed: "keyed demo_model s f v \<longleftrightarrow> f = ''email'' \<and> v = s"
  by (auto simp: keyed_def is_indexed_def demo_model_def demo_policy_def value_string_def)

lemma new_engine_exact:
  "index_exact T (scc2_engine_new store cfg)" "values_unique T (scc2_engine_new store cfg)"
  by (simp_all add: index_exact_def values_unique_def scc2_engine_new_def index_of_def)

lemma sequential_uniqueness_witness:
  "values_unique demo_model (fst (apply_all demo_model demo_events
     [(1, ''1'', ''a@x''), (2, ''2'', ''a@x'')] demo_engine))"
  unfolding demo_engine_def
  by (rule sequential_uniqueness [OF demo_static new_engine_exact, THEN conjunct2, THEN conjunct1])

lemma put_accepted:
  assumes "\<not> aw_closed (sx_writer e)" and "put_event T E calm now key ev persist e = (r, e')"
  shows "r = Inr ()" "aw_closed (sx_writer e') = aw_closed (sx_writer e)"
  using assms
  by (auto simp: put_event_def calm_def Let_def send_message_def split: option.splits if_splits)

text \<open>
  Uniqueness is checked before, not while the event is applied: two events for different keys
  that give a unique field the same value both pass the check when neither has been applied, and
  both are then applied, in whichever order; after the first alone the second would have failed.
  And a removed entry keeps its values reserved: the index still lists it, so that an event for
  another key with this value is rejected although no entry holds it.
\<close>

theorem uniqueness_gaps:
  assumes "static_model T" and "index_exact T e" and "\<not> aw_closed (sx_writer e)"
  shows "(\<forall>k1 k2 ev1 ev2 f v now1 now2 persist r1 e1 r2 e2.
      k1 \<noteq> k2 \<longrightarrow> unique_field T (mt_default T) f \<longrightarrow>
      keyed T (et_apply E ev1 (state_before T e k1)) f v \<longrightarrow>
      keyed T (et_apply E ev2 (state_before T e k2)) f v \<longrightarrow>
      check_uniqueness T calm (et_apply E ev1) k1 e = None \<longrightarrow>
      check_uniqueness T calm (et_apply E ev2) k2 e = None \<longrightarrow>
      put_event T E calm now1 k1 ev1 persist e = (r1, e1) \<longrightarrow>
      put_event T E calm now2 k2 ev2 persist e1 = (r2, e2) \<longrightarrow>
      r1 = Inr () \<and> r2 = Inr () \<and> \<not> values_unique T e2 \<and>
      check_uniqueness T calm (et_apply E ev2) k2 e1 \<noteq> None) \<and>
    (\<forall>k s f v key ev now persist. entry_data e k = Some s \<longrightarrow> keyed T s f v \<longrightarrow>
      unique_field T (mt_default T) f \<longrightarrow> key \<noteq> k \<longrightarrow>
      keyed T (et_apply E ev (state_before T e key)) f v \<longrightarrow>
      entry_data (remove_sync calm k e) k = None \<and>
      (\<exists>err. fst (engine_apply_event T E calm now key ev persist (remove_sync calm k e)) = Inl err))"
proof (intro conjI allI impI)
  fix k1 k2 ev1 ev2 f v now1 now2 persist r1 e1 r2 e2
  assume ne: "k1 \<noteq> k2" and u: "unique_field T (mt_default T) f"
    and v: "keyed T (et_apply E ev1 (state_before T e k1)) f v"
      "keyed T (et_apply E ev2 (state_before T e k2)) f v"
    and put: "put_event T E calm now1 k1 ev1 persist e = (r1, e1)"
      "put_event T E calm now2 k2 ev2 persist e1 = (r2, e2)"
  note eff = put_event_effect(1) [OF put(1)] put_event_effect(1) [OF put(2)]
  have same: "state_before T e1 k2 = state_before T e k2"
    using ne by (simp add: state_before_def eff(1))
  have u': "unique_field T s f" for s using u static_simps(5) [OF assms(1)] by blast
  show "r1 = Inr ()" by (rule put_accepted(1) [OF assms(3) put(1)])
  have "\<not> aw_closed (sx_writer e1)" using put_accepted(2) [OF assms(3) put(1)] assms(3) by simp
  then show "r2 = Inr ()" by (rule put_accepted(1) [OF _ put(2)])
  have data: "entry_data e2 k1 = Some (et_apply E ev1 (state_before T e k1))"
    "entry_data e2 k2 = Some (et_apply E ev2 (state_before T e k2))"
    using ne by (simp_all add: eff same)
  show "\<not> values_unique T e2"
    unfolding values_unique_def entry_data_def [symmetric] using data v u' ne by blast
  have "k1 \<in> set (index_of (sx_indexes e1) f v)"
    using put_index_exact [OF assms(1,2) put(1)] v(1)
    unfolding index_exact_def entry_data_def [symmetric] by (simp add: eff(1))
  then show "check_uniqueness T calm (et_apply E ev2) k2 e1 \<noteq> None"
    using v(2) u' ne by (auto simp: check_passes same)
next
  fix k s f v key ev now persist
  assume k: "entry_data e k = Some s" "keyed T s f v" and u: "unique_field T (mt_default T) f"
    and key: "key \<noteq> k" "keyed T (et_apply E ev (state_before T e key)) f v"
  let ?e = "snd (engine_read calm key (remove_sync calm k e))"
  show "entry_data (remove_sync calm k e) k = None"
    by (simp add: remove_sync_def calm_def entry_data_def map_of_delete_entry)
  have u': "unique_field T s f" for s using u static_simps(5) [OF assms(1)] by blast
  have "k \<in> set (index_of (sx_indexes e) f v)"
    using assms(2) k unfolding index_exact_def entry_data_def [symmetric] by blast
  moreover have "sx_indexes ?e = sx_indexes e" "state_before T ?e key = state_before T e key"
    using key(1) by (simp_all add: remove_sync_def calm_def state_before_def entry_data_def map_of_delete_entry)
  ultimately have "check_uniqueness T calm (et_apply E ev) key ?e \<noteq> None"
    using key u' by (auto simp: check_passes)
  then show "\<exists>err. fst (engine_apply_event T E calm now key ev persist (remove_sync calm k e)) = Inl err"
    by (auto simp: engine_apply_event_def Let_def)
qed

lemma uniqueness_gaps_witness:
  "\<exists>e1 e2. put_event demo_model demo_events calm 1 ''1'' ''a@x'' True demo_engine = (Inr (), e1) \<and>
     put_event demo_model demo_events calm 1 ''2'' ''a@x'' True e1 = (Inr (), e2) \<and>
     \<not> values_unique demo_model e2"
proof -
  have "\<not> aw_closed (sx_writer demo_engine)"
    by (simp add: demo_engine_def scc2_engine_new_def async_writer_new_def with_durability_def)
  note gaps = uniqueness_gaps [OF demo_static new_engine_exact(1) this [unfolded demo_engine_def],
      folded demo_engine_def, THEN conjunct1, rule_format]
  obtain r1 e1 where 1: "put_event demo_model demo_events calm 1 ''1'' ''a@x'' True demo_engine = (r1, e1)"
    by (cases "put_event demo_model demo_events calm 1 ''1'' ''a@x'' True demo_engine")
  obtain r2 e2 where 2: "put_event demo_model demo_events calm 1 ''2'' ''a@x'' True e1 = (r2, e2)"
    by (cases "put_event demo_model demo_events calm 1 ''2'' ''a@x'' True e1")
  have ev: "et_apply demo_events ev s = ev" for ev s by (simp add: demo_events_def)
  have passes: "check_uniqueness demo_model calm (et_apply demo_events ''a@x'') key demo_engine = None" for key
    by (simp add: check_passes demo_engine_def scc2_engine_new_def index_of_def)
  have "''1'' \<noteq> ''2''" by simp
  from gaps [OF this _ _ _ passes passes 1 2, of "''email''" "''a@x''"] 1 2
  show ?thesis by (auto simp: demo_unique demo_keyed ev)
qed

section \<open>Restart\<close>

text \<open>The entries that a run of events leaves.\<close>

definition run_data ::
  "('s, 'j) model_type \<Rightarrow> ('e, 's) event_type \<Rightarrow> (string \<times> 'e) list \<Rightarrow> (string \<Rightarrow> 's option) \<Rightarrow>
   string \<Rightarrow> 's option"
where
  "run_data T E acc d =
     fold (\<lambda>(key, ev) d. d(key \<mapsto> et_apply E ev (case d key of None \<Rightarrow> mt_default T | Some s \<Rightarrow> s))) acc d"

lemma run_data_simps [simp]:
  "run_data T E [] d = d"
  "run_data T E ((k, ev) # acc) d =
     run_data T E acc (d(k \<mapsto> et_apply E ev (case d k of None \<Rightarrow> mt_default T | Some s \<Rightarrow> s)))"
  by (simp_all add: run_data_def)

lemma run_data_key:
  "run_data T E acc d key =
     (let evs = map snd (filter (\<lambda>(k, ev). k = key) acc)
      in if evs = [] then d key
         else Some (fold (et_apply E) evs (case d key of None \<Rightarrow> mt_default T | Some s \<Rightarrow> s)))"
proof (induction acc arbitrary: d)
  case (Cons p acc)
  obtain k ev where p: "p = (k, ev)" by (cases p)
  show ?case by (simp add: p Cons.IH Let_def)
qed simp

lemma put_event_writer:
  assumes "\<not> aw_closed (sx_writer e)" and "cf_auto_persist_writes (sx_config e)"
    and "put_event T E calm now key ev True e = (r, e')"
  shows "sx_writer e' = snd (send_message (WEvent (et_to_json E ev)) (sx_writer e))"
    "aw_sent (sx_writer e') = aw_sent (sx_writer e) @ [WEvent (et_to_json E ev)]"
  using assms
  by (auto simp: put_event_def calm_def Let_def send_message_def split: option.splits if_splits)

lemma apply_all_run:
  assumes "\<not> aw_closed (sx_writer e)" and "cf_auto_persist_writes (sx_config e)"
    and "writer_reachable crc C w0 (sx_writer e)" and "apply_all T E ops e = (e', acc)"
  shows "entry_data e' = run_data T E acc (entry_data e) \<and> \<not> aw_closed (sx_writer e') \<and>
    writer_reachable crc C w0 (sx_writer e') \<and> aw_failed (sx_writer e') = aw_failed (sx_writer e) \<and>
    aw_sent (sx_writer e') = aw_sent (sx_writer e) @ map (\<lambda>(k, ev). WEvent (et_to_json E ev)) acc"
  using assms
proof (induction ops arbitrary: e acc)
  case Nil
  then show ?case by simp
next
  case (Cons op ops)
  obtain now key ev where op: "op = (now, key, ev)" by (cases op)
  let ?e = "snd (engine_read calm key e)"
  show ?case
  proof (cases "check_uniqueness T calm (et_apply E ev) key ?e")
    case (Some err)
    then have "apply_all T E ops ?e = (e', acc)"
      using Cons.prems(4) by (simp add: op engine_apply_event_def Let_def)
    with Cons.IH [of ?e acc] Cons.prems(1-3) show ?thesis by simp
  next
    case None
    obtain r e1 where put: "put_event T E calm now key ev True ?e = (r, e1)"
      by (cases "put_event T E calm now key ev True ?e")
    have chan: "\<not> aw_closed (sx_writer ?e)" "cf_auto_persist_writes (sx_config ?e)"
      using Cons.prems(1,2) by simp_all
    note one = put_accepted [OF chan(1) put] put_event_effect(1,3) [OF put]
      put_event_writer [OF chan put]
    obtain acc' where acc: "apply_all T E ops e1 = (e', acc')" "acc = (key, ev) # acc'"
      using Cons.prems(4) put one(1) None
      by (cases "apply_all T E ops e1") (simp add: op engine_apply_event_def Let_def)
    have "writer_reachable crc C w0 (sx_writer e1)"
      unfolding one(5) by (rule writer_next [OF _ step_send]) (simp_all add: Cons.prems(3))
    with Cons.IH [of e1 acc'] acc(1) one(2,4) chan
    have "entry_data e' = run_data T E acc' (entry_data e1) \<and> \<not> aw_closed (sx_writer e') \<and>
      writer_reachable crc C w0 (sx_writer e') \<and> aw_failed (sx_writer e') = aw_failed (sx_writer e1) \<and>
      aw_sent (sx_writer e') = aw_sent (sx_writer e1) @ map (\<lambda>(k, ev). WEvent (et_to_json E ev)) acc'"
      by simp
    moreover have "aw_failed (sx_writer e1) = aw_failed (sx_writer e)"
      by (simp add: one(5) send_message_def)
    ultimately show ?thesis
      using one(3,6) by (simp add: acc(2) state_before_def)
  qed
qed

text \<open>Events that their JSON brings back, on one line and without the members of an envelope.\<close>

definition plain_events :: "('e, 's) event_type \<Rightarrow> bool" where
  "plain_events E \<longleftrightarrow>
     (\<forall>ev. event_ok (et_to_json E ev) \<and> et_of_json E (et_to_json E ev) = Some ev \<and>
        et_view E (et_to_json E ev) = Some (None, None))"

lemma replay_plain:
  assumes "plain_events E" and "sx_indexes e = []"
  shows "sx_indexes (fold (replay_event T E now) (map (et_to_json E) evs) e) = [] \<and>
    entry_data (fold (replay_event T E now) (map (et_to_json E) evs) e) =
      run_data T E (map (Pair ''global'') evs) (entry_data e)"
  using assms(2)
proof (induction evs arbitrary: e)
  case Nil
  then show ?case by simp
next
  case (Cons ev evs)
  let ?e = "replay_event T E now (et_to_json E ev) e"
  have ev: "et_of_json E (et_to_json E ev) = Some ev" "et_view E (et_to_json E ev) = Some (None, None)"
    using assms(1) by (simp_all add: plain_events_def)
  have one: "sx_indexes ?e = []" "entry_data ?e =
      (entry_data e)(''global'' \<mapsto> et_apply E ev (case entry_data e ''global'' of None \<Rightarrow> mt_default T | Some s \<Rightarrow> s))"
    using Cons.prems
    by (auto simp: replay_event_def ev update_entry_volatile_def calm_def has_indexes_def entry_data_def
        fun_eq_iff map_of_update Let_def split: option.split)
  show ?case
    using Cons.IH [OF one(1)] unfolding one(2) by (simp only: list.map fold_simps run_data_simps)
qed

definition text_settings :: "store_settings \<Rightarrow> bool" where
  "text_settings st \<longleftrightarrow> st_max_log_file_size st = None \<and> \<not> st_enable_binary st"

lemma start_replays:
  fixes T :: "('s, 'j) model_type"
  assumes "text_settings st"
  shows "\<exists>e0. engine_start T E crc C st fe se now (files_of f) =
      Some (Inr (fold (replay_event T E now) (read_all_events crc f) e0)) \<and>
    sx_indexes e0 = [] \<and> entry_data e0 = (\<lambda>key. None)"
proof -
  let ?d = "files_of f"
  obtain s0 where s0: "event_store_new crc C st False ?d = Some s0"
    "es_storage s0 = file_storage_new None ?d" "\<not> es_binary_mode s0"
    using assms
    by (simp add: event_store_new_def Let_def load_last_event_hash_def read_envelopes_def text_settings_def)
  define s1 where "s1 = (if 0 < fe then set_flush_every fe s0 else s0)"
  define e0 where "e0 = (scc2_engine_new s1
    \<lparr>cf_enable_snapshots = True, cf_snapshot_interval = (if 0 < se then se else 1000),
     cf_enable_deduplication = True, cf_auto_persist_writes = True,
     cf_force_immediate_persistence = False\<rparr> :: 's scc2_engine)"
  have s1: "es_storage s1 = file_storage_new None ?d" "\<not> es_binary_mode s1"
    using s0(2,3) by (simp_all add: s1_def set_flush_every_def)
  have log: "get_all_events crc C (aw_store (sx_writer e0)) = Some (Inr (read_all_events crc f))"
    using s1
    by (simp add: get_all_events_def e0_def scc2_engine_new_def async_writer_new_def with_durability_def
        es_configure_batching_def configure_batching_def read_all_events_def file_storage_new_def files_of_def)
  have "engine_start T E crc C st fe se now ?d = replay_events T E crc C now e0"
    using assms s0(1) by (simp add: engine_start_def text_settings_def e0_def s1_def Let_def)
  moreover have "sx_indexes e0 = []" "entry_data e0 = (\<lambda>key. None)"
    by (simp_all add: e0_def scc2_engine_new_def entry_data_def fun_eq_iff)
  ultimately show ?thesis using log by (intro exI [of _ e0]) (simp add: replay_events_def)
qed

text \<open>
  A restart merges all entries into one and drops the constraints: after any run of events, each
  entry is the fold of the accepted events of its key; the engine that starts on the files the
  writer leaves that shut down without an error of the disk has one entry, named global, with all accepted events of all keys, has no
  index, and its check accepts every first event.
\<close>

theorem restart_merges_entries:
  fixes T :: "('s, 'j) model_type" and E :: "('e, 's) event_type"
  assumes "plain_events E" and "text_settings st" and "cf_auto_persist_writes cfg"
    and "plain_store s" and "fs_event_batch (es_storage s) = []"
    and "read_all_events crc (es_storage s) = []"
    and "apply_all T E ops (scc2_engine_new s cfg) = (e, acc)"
    and "\<not> aw_failed (shutdown crc C ds (sx_writer e))"
  shows "(\<forall>key. entry_data e key =
      (let evs = map snd (filter (\<lambda>(k, ev). k = key) acc)
       in if evs = [] then None else Some (fold (et_apply E) evs (mt_default T)))) \<and>
    (\<exists>e'. engine_start T E crc C st fe se now
        (files_of (es_storage (aw_store (shutdown crc C ds (sx_writer e))))) = Some (Inr e') \<and>
      (\<forall>key. entry_data e' key =
        (if key = ''global'' \<and> acc \<noteq> [] then Some (fold (et_apply E) (map snd acc) (mt_default T)) else None)) \<and>
      sx_indexes e' = [] \<and> (\<forall>f key. check_uniqueness T calm f key e' = None))"
proof -
  let ?e0 = "scc2_engine_new s cfg :: 's scc2_engine"
  have e0: "\<not> aw_closed (sx_writer ?e0)" "cf_auto_persist_writes (sx_config ?e0)"
    "sx_writer ?e0 = with_durability s 1000 MaxDurability" "entry_data ?e0 = (\<lambda>key. None)"
    using assms(3)
    by (simp_all add: scc2_engine_new_def async_writer_new_def with_durability_def entry_data_def fun_eq_iff)
  have start: "writer_reachable crc C (sx_writer ?e0) (sx_writer ?e0)" by (rule writer_start)
  note run = apply_all_run [OF e0(1,2) start assms(7)]
  have data: "entry_data e = run_data T E acc (\<lambda>key. None)" using run by (simp add: e0(4))
  have sent: "aw_sent (sx_writer e) = map (\<lambda>(k, ev). WEvent (et_to_json E ev)) acc"
    using run by (simp add: e0(3)) (simp add: with_durability_def)
  have lines: "text_of C (map (\<lambda>(k, ev). WEvent (et_to_json E ev)) acc) = map (et_to_json E) (map snd acc)"
    for acc :: "(string \<times> 'e) list"
    by (induction acc) (auto simp: lines_of_def)
  have ok: "lines_ok C (aw_sent (sx_writer e))"
    using assms(1) by (simp add: lines_ok_def sent lines plain_events_def list_all_iff)
  have reach: "writer_reachable crc C (with_durability s 1000 MaxDurability) (sx_writer e)"
    using run by (simp add: e0(3))
  note inv = shutdown_inv [OF reach assms(8,4,5) ok]
  have "aw_taken (shutdown crc C ds (sx_writer e)) = aw_sent (sx_writer e)"
    using inv(1-3) by (simp add: writer_inv_def)
  then have "durable crc (shutdown crc C ds (sx_writer e)) = text_of C (aw_sent (sx_writer e))"
    using inv(1,5) assms(6) by (simp add: writer_inv_def)
  then have log: "read_all_events crc (es_storage (aw_store (shutdown crc C ds (sx_writer e)))) =
      map (et_to_json E) (map snd acc)"
    unfolding sent lines by (simp add: durable_def)
  obtain e1 :: "'s scc2_engine" where e1: "engine_start T E crc C st fe se now
      (files_of (es_storage (aw_store (shutdown crc C ds (sx_writer e))))) =
      Some (Inr (fold (replay_event T E now) (map (et_to_json E) (map snd acc)) e1))"
    "sx_indexes e1 = []" "entry_data e1 = (\<lambda>key. None)"
    using start_replays [OF assms(2), of T E crc C fe se now
        "es_storage (aw_store (shutdown crc C ds (sx_writer e)))"] by (auto simp: log)
  let ?e' = "fold (replay_event T E now) (map (et_to_json E) (map snd acc)) e1"
  note replay = replay_plain [OF assms(1) e1(2), of T now "map snd acc"]
  have all: "filter (\<lambda>(k, ev). k = key) (map (Pair ''global'') evs) =
      (if key = ''global'' then map (Pair ''global'') evs else [])" for key and evs :: "'e list"
    by (induction evs) auto
  have merged: "entry_data ?e' key = (if key = ''global'' \<and> acc \<noteq> []
      then Some (fold (et_apply E) (map snd acc) (mt_default T)) else None)" for key
  proof -
    have "run_data T E (map (Pair ''global'') evs) (\<lambda>key. None) key = (if key = ''global'' \<and> evs \<noteq> []
        then Some (fold (et_apply E) evs (mt_default T)) else None)" for evs
      by (simp add: run_data_key all Let_def comp_def)
    note m = this [of "map snd acc"]
    have "entry_data ?e' key = run_data T E (map (Pair ''global'') (map snd acc)) (\<lambda>key. None) key"
      using replay unfolding e1(3) by (elim conjE) (rule fun_cong)
    then show ?thesis unfolding m by (simp only: map_is_Nil_conv)
  qed
  have "first_violation (violation T calm key x []) fs = None" for key x fs
    by (simp add: first_violation_None violation_def get_indexed_values_def calm_def index_of_def
        split: option.split)
  then have "check_uniqueness T calm f key ?e' = None" for f key
    using replay by (simp add: check_uniqueness_def Let_def)
  then show ?thesis
    using data replay e1(1) merged by (auto simp: run_data_key Let_def)
qed

text \<open>Events that are numbers, so that each is a line of text.\<close>

definition number_events :: "(nat, string) event_type" where
  "number_events = \<lparr>et_apply = \<lambda>ev s. s @ show_nat ev, et_to_json = show_nat,
     et_of_json = \<lambda>j. Some (digits_value j), et_view = \<lambda>j. Some (None, None)\<rparr>"

lemma show_nat_event: "event_ok (show_nat n)"
proof -
  have d: "is_digit c" if "c \<in> set (show_nat n)" for c
    using show_nat_digits [of n] that by (auto simp: list_all_iff)
  have "newline \<notin> set (show_nat n)" using d [of newline] by (auto simp: newline_def is_digit_def)
  moreover have "last (show_nat n) \<noteq> CHR 13"
    using d [of "last (show_nat n)"] show_nat_digits [of n] by (auto simp: is_digit_def)
  ultimately show ?thesis using show_nat_digits [of n] by (simp add: event_ok_def)
qed

lemma number_events_plain: "plain_events number_events"
  by (simp add: plain_events_def number_events_def show_nat_event)

lemma demo_text: "text_settings \<lparr>st_max_log_file_size = None, st_enable_binary = False,
    st_disable_index = False, st_dedup_persist = True, st_disable_hash_chain = False\<rparr>"
  by (simp add: text_settings_def)

lemma restart_merges_entries_witness:
  "\<exists>e acc e'. apply_all demo_model number_events [(1, ''x'', 7), (2, ''y'', 8)]
      (scc2_engine_new demo_store demo_config) = (e, acc) \<and>
     engine_start demo_model number_events demo_crc demo_codec
       \<lparr>st_max_log_file_size = None, st_enable_binary = False, st_disable_index = False,
        st_dedup_persist = True, st_disable_hash_chain = False\<rparr> 0 0 3
       (files_of (es_storage (aw_store (shutdown demo_crc demo_codec (\<lambda>_. demo_disk) (sx_writer e))))) = Some (Inr e') \<and>
     entry_data e' ''x'' = None \<and> sx_indexes e' = []"
proof -
  obtain e acc where run: "apply_all demo_model number_events [(1, ''x'', 7), (2, ''y'', 8)]
      (scc2_engine_new demo_store demo_config) = (e, acc)"
    by (cases "apply_all demo_model number_events [(1, ''x'', 7), (2, ''y'', 8)]
      (scc2_engine_new demo_store demo_config)")
  have cfg: "cf_auto_persist_writes demo_config" by (simp add: demo_config_def)
  have new: "\<not> aw_closed (sx_writer (scc2_engine_new demo_store demo_config :: string scc2_engine))"
    "cf_auto_persist_writes (sx_config (scc2_engine_new demo_store demo_config :: string scc2_engine))"
    "\<not> aw_failed (sx_writer (scc2_engine_new demo_store demo_config :: string scc2_engine))"
    using cfg by (simp_all add: scc2_engine_new_def async_writer_new_def with_durability_def)
  have fine: "\<not> aw_failed (shutdown demo_crc demo_codec (\<lambda>_. demo_disk) (sx_writer e))"
    using apply_all_run [OF new(1,2) writer_start run, of demo_crc demo_codec] new(3)
    by (simp add: working_shutdown)
  from restart_merges_entries [OF number_events_plain demo_text cfg demo_store_plain run fine,
      of 0 0 3]
  obtain e' where "engine_start demo_model number_events demo_crc demo_codec
       \<lparr>st_max_log_file_size = None, st_enable_binary = False, st_disable_index = False,
        st_dedup_persist = True, st_disable_hash_chain = False\<rparr> 0 0 3
       (files_of (es_storage (aw_store (shutdown demo_crc demo_codec (\<lambda>_. demo_disk) (sx_writer e))))) = Some (Inr e')"
    "\<forall>key. entry_data e' key = (if key = ''global'' \<and> acc \<noteq> []
       then Some (fold (et_apply number_events) (map snd acc) (mt_default demo_model)) else None)"
    "sx_indexes e' = []" by blast
  with run show ?thesis by (intro exI conjI) simp_all
qed

text \<open>
  Compaction forgets the state: an engine saves its snapshot, truncates the log as the code does
  after a snapshot, and goes on with all its entries; but an engine that starts on these files has
  no entry, because the start replays the log only and never loads the snapshot, which still holds
  the state.
\<close>

theorem compaction_loses_state:
  fixes T :: "('s, 'j) model_type"
  assumes "text_settings st" and "cf_enable_snapshots (sx_config e)"
    and "fs_segment (es_storage (aw_store (sx_writer e))) = None"
    and "engine_snapshot render e = (r, e1)"
  shows "r = Inr () \<and> sx_state_map (truncate_log e1) = sx_state_map e \<and>
    es_load_snapshot (aw_store (sx_writer (truncate_log e1))) = Some (render (sx_state_map e)) \<and>
    (\<exists>e'. engine_start T E crc C st fe se now
        (files_of (es_storage (aw_store (sx_writer (truncate_log e1))))) = Some (Inr e') \<and>
      (\<forall>key. entry_data e' key = None))"
proof -
  let ?f = "es_storage (aw_store (sx_writer (truncate_log e1)))"
  have r: "r = Inr ()" and e1: "e1 = e\<lparr>sx_writer := (sx_writer e)
      \<lparr>aw_store := es_save_snapshot (render (sx_state_map e)) (aw_store (sx_writer e))\<rparr>\<rparr>"
    using assms(2,4) by (simp_all add: engine_snapshot_def)
  have "read_all_events crc ?f = []"
    using assms(3)
    by (simp add: e1 truncate_log_def es_truncate_events_def truncate_events_def es_save_snapshot_def
        save_snapshot_def read_all_events_def contents_def)
  moreover obtain e0 :: "'s scc2_engine" where
    "engine_start T E crc C st fe se now (files_of ?f) =
      Some (Inr (fold (replay_event T E now) (read_all_events crc ?f) e0))"
    "entry_data e0 = (\<lambda>key. None)"
    using start_replays [OF assms(1), of T E crc C fe se now ?f] by blast
  ultimately have "\<exists>e'. engine_start T E crc C st fe se now (files_of ?f) = Some (Inr e') \<and>
      (\<forall>key. entry_data e' key = None)" by simp
  moreover have "sx_state_map (truncate_log e1) = sx_state_map e"
    "es_load_snapshot (aw_store (sx_writer (truncate_log e1))) = Some (render (sx_state_map e))"
    by (simp_all add: e1 truncate_log_def es_truncate_events_def truncate_events_def es_save_snapshot_def
        save_snapshot_def es_load_snapshot_def load_snapshot_def)
  ultimately show ?thesis using r by blast
qed

lemma compaction_loses_state_witness:
  "\<exists>e e1 e'. entry_data e ''1'' = Some ''a@x'' \<and>
     engine_snapshot (\<lambda>m. ''{}'') e = (Inr (), e1) \<and>
     engine_start demo_model demo_events demo_crc demo_codec
       \<lparr>st_max_log_file_size = None, st_enable_binary = False, st_disable_index = False,
        st_dedup_persist = True, st_disable_hash_chain = False\<rparr> 0 0 3
       (files_of (es_storage (aw_store (sx_writer (truncate_log e1))))) = Some (Inr e') \<and>
     entry_data e' ''1'' = None"
proof -
  define e where "e = insert_sync demo_model calm 1 ''1'' ''a@x'' demo_engine"
  have e: "entry_data e ''1'' = Some ''a@x''" "cf_enable_snapshots (sx_config e)"
    "fs_segment (es_storage (aw_store (sx_writer e))) = None"
    by (simp_all add: e_def insert_sync_def update_entry_volatile_def calm_def demo_engine_def
        scc2_engine_new_def entry_data_def demo_config_def Let_def has_indexes_def async_writer_new_def
        with_durability_def es_configure_batching_def configure_batching_def demo_store_def
        event_store_with_storage_def demo_storage_def file_storage_new_def)
  obtain r e1 where s: "engine_snapshot (\<lambda>m. ''{}'') e = (r, e1)"
    by (cases "engine_snapshot (\<lambda>m. ''{}'') e")
  from compaction_loses_state [OF demo_text e(2,3) s, of demo_model demo_events demo_crc demo_codec 0 0 3]
  obtain e' where "r = Inr ()" "engine_start demo_model demo_events demo_crc demo_codec
       \<lparr>st_max_log_file_size = None, st_enable_binary = False, st_disable_index = False,
        st_dedup_persist = True, st_disable_hash_chain = False\<rparr> 0 0 3
       (files_of (es_storage (aw_store (sx_writer (truncate_log e1))))) = Some (Inr e')"
    "\<forall>key. entry_data e' key = None" by blast
  moreover from this(3) have "entry_data e' ''1'' = None" by (rule spec)
  ultimately show ?thesis using e(1) s by blast
qed

end
