(* ===== verification/LruCache.thy ===== *)
theory LruCache
  imports Prelude
begin

text \<open>
  The cache of the least recently used entries, from \<^verbatim>\<open>lithair-core/src/cache/lru.rs\<close> and
  \<^verbatim>\<open>cache/traits.rs\<close>: a hash map into a vector of nodes that form a doubly linked list, with a
  list of free slots. An access of the vector out of its bounds would panic; the invariant shows
  that every stored index is within them. The clock is the argument \<open>now\<close>.
\<close>

section \<open>The data structure\<close>

record 'v cache_entry =
  cn_value :: 'v
  cn_created_at :: u64
  cn_last_accessed :: u64
  cn_access_count :: u64

definition cache_entry_new :: "u64 \<Rightarrow> 'v \<Rightarrow> 'v cache_entry" where
  "cache_entry_new now v =
     \<lparr>cn_value = v, cn_created_at = now, cn_last_accessed = now, cn_access_count = 1\<rparr>"

definition touch :: "u64 \<Rightarrow> 'v cache_entry \<Rightarrow> 'v cache_entry" where
  "touch now e = e\<lparr>cn_last_accessed := now, cn_access_count := cn_access_count e + 1\<rparr>"

definition entry_expired :: "u64 \<Rightarrow> u64 \<Rightarrow> 'v cache_entry \<Rightarrow> bool" where
  "entry_expired now ttl e \<longleftrightarrow> ttl < now - cn_created_at e"

record ('k, 'v) lru_node =
  nd_key :: 'k
  nd_entry :: "'v cache_entry"
  nd_prev :: "nat option"
  nd_next :: "nat option"

record ('k, 'v) lru_cache =
  lc_capacity :: nat
  lc_map :: "('k, nat) dict"
  lc_nodes :: "('k, 'v) lru_node option list"
  lc_head :: "nat option"
  lc_tail :: "nat option"
  lc_free_list :: "nat list"

definition lru_new :: "nat \<Rightarrow> ('k, 'v) lru_cache option" where
  "lru_new n =
     (if n = 0 then None
      else Some \<lparr>lc_capacity = n, lc_map = [], lc_nodes = [], lc_head = None, lc_tail = None,
                 lc_free_list = []\<rparr>)"

definition node_at :: "('k, 'v) lru_cache \<Rightarrow> nat \<Rightarrow> ('k, 'v) lru_node option" where
  "node_at c i = (if i < length (lc_nodes c) then lc_nodes c ! i else None)"

definition change_node ::
  "nat \<Rightarrow> (('k, 'v) lru_node \<Rightarrow> ('k, 'v) lru_node) \<Rightarrow> ('k, 'v) lru_cache \<Rightarrow> ('k, 'v) lru_cache"
where
  "change_node i f c =
     (case node_at c i of
        None \<Rightarrow> c
      | Some n \<Rightarrow> c\<lparr>lc_nodes := (lc_nodes c)[i := Some (f n)]\<rparr>)"

definition set_prev :: "nat \<Rightarrow> nat option \<Rightarrow> ('k, 'v) lru_cache \<Rightarrow> ('k, 'v) lru_cache" where
  "set_prev i p = change_node i (\<lambda>n. n\<lparr>nd_prev := p\<rparr>)"

definition set_next :: "nat \<Rightarrow> nat option \<Rightarrow> ('k, 'v) lru_cache \<Rightarrow> ('k, 'v) lru_cache" where
  "set_next i q = change_node i (\<lambda>n. n\<lparr>nd_next := q\<rparr>)"

definition take_node :: "nat \<Rightarrow> ('k, 'v) lru_cache \<Rightarrow> ('k, 'v) lru_cache" where
  "take_node i c = c\<lparr>lc_nodes := (lc_nodes c)[i := None]\<rparr>"

definition if_some :: "'a option \<Rightarrow> ('a \<Rightarrow> 'c \<Rightarrow> 'c) \<Rightarrow> 'c \<Rightarrow> 'c" where
  "if_some x f c = (case x of None \<Rightarrow> c | Some a \<Rightarrow> f a c)"

definition move_to_front :: "nat \<Rightarrow> ('k, 'v) lru_cache \<Rightarrow> ('k, 'v) lru_cache" where
  "move_to_front i c =
     (if lc_head c = Some i then c
      else case node_at c i of
             None \<Rightarrow> c
           | Some n \<Rightarrow>
               (let c1 = if_some (nd_prev n) (\<lambda>p. set_next p (nd_next n)) c;
                    c2 = if_some (nd_next n) (\<lambda>q. set_prev q (nd_prev n)) c1;
                    c3 = (if lc_tail c2 = Some i then c2\<lparr>lc_tail := nd_prev n\<rparr> else c2);
                    old = lc_head c3;
                    c4 = set_next i old (set_prev i None c3);
                    c5 = if_some old (\<lambda>h. set_prev h (Some i)) c4;
                    c6 = c5\<lparr>lc_head := Some i\<rparr>
                in if lc_tail c6 = None then c6\<lparr>lc_tail := Some i\<rparr> else c6))"

definition evict_lru :: "('k, 'v) lru_cache \<Rightarrow> ('k \<times> 'v) option \<times> ('k, 'v) lru_cache" where
  "evict_lru c =
     (case lc_tail c of
        None \<Rightarrow> (None, c)
      | Some t \<Rightarrow>
          (case node_at c t of
             None \<Rightarrow> (None, c)
           | Some n \<Rightarrow>
               (let c1 = take_node t c;
                    c2 = c1\<lparr>lc_map := AList.delete (nd_key n) (lc_map c1),
                            lc_free_list := lc_free_list c1 @ [t]\<rparr>
                in (Some (nd_key n, cn_value (nd_entry n)),
                    case nd_prev n of
                      Some p \<Rightarrow> (set_next p None c2)\<lparr>lc_tail := Some p\<rparr>
                    | None \<Rightarrow> c2\<lparr>lc_head := None, lc_tail := None\<rparr>))))"

definition get_node_index :: "('k, 'v) lru_cache \<Rightarrow> nat \<times> ('k, 'v) lru_cache" where
  "get_node_index c =
     (if lc_free_list c \<noteq> []
      then (last (lc_free_list c), c\<lparr>lc_free_list := butlast (lc_free_list c)\<rparr>)
      else (length (lc_nodes c), c\<lparr>lc_nodes := lc_nodes c @ [None]\<rparr>))"

definition lru_get :: "u64 \<Rightarrow> 'k \<Rightarrow> ('k, 'v) lru_cache \<Rightarrow> 'v option \<times> ('k, 'v) lru_cache" where
  "lru_get now k c =
     (case map_of (lc_map c) k of
        None \<Rightarrow> (None, c)
      | Some i \<Rightarrow>
          (let c1 = move_to_front i c
           in case node_at c1 i of
                None \<Rightarrow> (None, c1)
              | Some n \<Rightarrow>
                  (Some (cn_value (nd_entry n)),
                   change_node i (\<lambda>n. n\<lparr>nd_entry := touch now (nd_entry n)\<rparr>) c1)))"

definition lru_insert ::
  "u64 \<Rightarrow> 'k \<Rightarrow> 'v \<Rightarrow> ('k, 'v) lru_cache \<Rightarrow> 'v option \<times> ('k, 'v) lru_cache"
where
  "lru_insert now k v c =
     (case map_of (lc_map c) k of
        Some i \<Rightarrow>
          (map_option (\<lambda>n. cn_value (nd_entry n)) (node_at c i),
           move_to_front i
             (change_node i (\<lambda>n. n\<lparr>nd_entry := touch now ((nd_entry n)\<lparr>cn_value := v\<rparr>)\<rparr>) c))
      | None \<Rightarrow>
          (let c1 = (if lc_capacity c \<le> length (lc_map c) then snd (evict_lru c) else c);
               (i, c2) = get_node_index c1;
               c3 = c2\<lparr>lc_nodes := (lc_nodes c2)[i :=
                      Some \<lparr>nd_key = k, nd_entry = cache_entry_new now v, nd_prev = None,
                            nd_next = lc_head c2\<rparr>]\<rparr>;
               c4 = if_some (lc_head c3) (\<lambda>h. set_prev h (Some i)) c3;
               c5 = c4\<lparr>lc_head := Some i\<rparr>;
               c6 = (if lc_tail c5 = None then c5\<lparr>lc_tail := Some i\<rparr> else c5)
           in (None, c6\<lparr>lc_map := AList.update k i (lc_map c6)\<rparr>)))"

definition lru_remove :: "'k \<Rightarrow> ('k, 'v) lru_cache \<Rightarrow> 'v option \<times> ('k, 'v) lru_cache" where
  "lru_remove k c =
     (case map_of (lc_map c) k of
        None \<Rightarrow> (None, c)
      | Some i \<Rightarrow>
          (let c1 = c\<lparr>lc_map := AList.delete k (lc_map c)\<rparr>
           in case node_at c1 i of
                None \<Rightarrow> (None, c1)
              | Some n \<Rightarrow>
                  (let c2 = take_node i c1;
                       c3 = (case nd_prev n of
                               Some p \<Rightarrow> set_next p (nd_next n) c2
                             | None \<Rightarrow> c2\<lparr>lc_head := nd_next n\<rparr>);
                       c4 = (case nd_next n of
                               Some q \<Rightarrow> set_prev q (nd_prev n) c3
                             | None \<Rightarrow> c3\<lparr>lc_tail := nd_prev n\<rparr>)
                   in (Some (cn_value (nd_entry n)),
                       c4\<lparr>lc_free_list := lc_free_list c4 @ [i]\<rparr>))))"

definition lru_clear :: "('k, 'v) lru_cache \<Rightarrow> ('k, 'v) lru_cache" where
  "lru_clear c =
     c\<lparr>lc_map := [], lc_nodes := [], lc_free_list := [], lc_head := None, lc_tail := None\<rparr>"

definition lru_len :: "('k, 'v) lru_cache \<Rightarrow> nat" where
  "lru_len c = length (lc_map c)"

section \<open>Linked segments\<close>

text \<open>
  A segment of nodes: the first one's back link is \<open>p\<close>, the last one's forward link is \<open>q\<close>. The
  store is seen as a function from slots to nodes.
\<close>

definition first_of :: "nat list \<Rightarrow> nat option \<Rightarrow> nat option" where
  "first_of xs q = (case xs of [] \<Rightarrow> q | j # js \<Rightarrow> Some j)"

definition last_of :: "nat list \<Rightarrow> nat option \<Rightarrow> nat option" where
  "last_of xs p = (if xs = [] then p else Some (last xs))"

fun segment ::
  "(nat \<Rightarrow> ('k, 'v) lru_node option) \<Rightarrow> nat option \<Rightarrow> nat list \<Rightarrow> nat option \<Rightarrow> bool"
where
  "segment g p [] q \<longleftrightarrow> True"
| "segment g p (i # is) q \<longleftrightarrow>
     (\<exists>n. g i = Some n \<and> nd_prev n = p \<and> nd_next n = first_of is q) \<and> segment g (Some i) is q"

definition relink ::
  "nat \<Rightarrow> (('k, 'v) lru_node \<Rightarrow> ('k, 'v) lru_node) \<Rightarrow> (nat \<Rightarrow> ('k, 'v) lru_node option) \<Rightarrow>
   nat \<Rightarrow> ('k, 'v) lru_node option"
where
  "relink i f g = g(i := map_option f (g i))"

lemma first_of_simps [simp]: "first_of [] q = q" "first_of (i # is) q = Some i"
  "first_of (xs @ ys) q = first_of xs (first_of ys q)"
  by (simp_all add: first_of_def split: list.split)

lemma last_of_simps [simp]: "last_of [] p = p" "last_of (xs @ ys) p = last_of ys (last_of xs p)"
  "last_of [i] p = Some i" "last_of (i # is) p = last_of is (Some i)"
  by (simp_all add: last_of_def)

lemma segment_append [simp]:
  "segment g p (xs @ ys) q \<longleftrightarrow> segment g p xs (first_of ys q) \<and> segment g (last_of xs p) ys q"
  by (induction xs arbitrary: p) auto

lemma segment_frame [simp]: "i \<notin> set is \<Longrightarrow> segment (g(i := x)) p is q = segment g p is q"
  by (induction "is" arbitrary: p) auto

lemma segment_relink [simp]: "i \<notin> set is \<Longrightarrow> segment (relink i f g) p is q = segment g p is q"
  by (simp add: relink_def)

lemma relink_other [simp]: "i \<noteq> j \<Longrightarrow> relink i f g j = g j"
  by (simp add: relink_def)

lemma relink_same [simp]: "relink i f g i = map_option f (g i)"
  by (simp add: relink_def)

lemma segment_next:
  assumes "segment g p (xs @ [i]) q" and "i \<notin> set xs"
  shows "segment (relink i (\<lambda>n. n\<lparr>nd_next := q'\<rparr>) g) p (xs @ [i]) q'"
  using assms by auto

lemma segment_prev:
  assumes "segment g p (i # xs) q" and "i \<notin> set xs"
  shows "segment (relink i (\<lambda>n. n\<lparr>nd_prev := p'\<rparr>) g) p' (i # xs) q"
  using assms by auto

text \<open>Taking a node out of the list, by linking its neighbours with each other.\<close>

definition unlink ::
  "nat option \<Rightarrow> nat option \<Rightarrow> (nat \<Rightarrow> ('k, 'v) lru_node option) \<Rightarrow> nat \<Rightarrow> ('k, 'v) lru_node option"
where
  "unlink p q g =
     if_some q (\<lambda>j. relink j (\<lambda>n. n\<lparr>nd_prev := p\<rparr>)) (if_some p (\<lambda>i. relink i (\<lambda>n. n\<lparr>nd_next := q\<rparr>)) g)"

lemma segment_unlink:
  assumes "segment g None (xs @ i # ys) None" and "distinct (xs @ i # ys)"
  shows "segment (unlink (last_of xs None) (first_of ys None) g) None (xs @ ys) None"
    "unlink (last_of xs None) (first_of ys None) g i = g i"
proof -
  let ?p = "last_of xs None" and ?q = "first_of ys None"
  let ?g1 = "if_some ?p (\<lambda>i. relink i (\<lambda>n. n\<lparr>nd_next := ?q\<rparr>)) g"
  have xs: "segment g None xs (Some i)" and ys: "segment g (Some i) ys None"
    using assms(1) by simp_all
  have 1: "segment ?g1 None xs ?q \<and> segment ?g1 (Some i) ys None \<and> ?g1 i = g i"
  proof (cases xs rule: rev_cases)
    case Nil
    then show ?thesis using ys by (simp add: if_some_def)
  next
    case (snoc xs' a)
    then have "a \<notin> set xs'" "a \<notin> set ys" "a \<noteq> i" using assms(2) by auto
    then show ?thesis
      using segment_next [of g None xs' a "Some i" ?q] xs ys by (simp add: snoc if_some_def)
  qed
  have "segment (unlink ?p ?q g) None xs ?q \<and> segment (unlink ?p ?q g) ?p ys None \<and>
      unlink ?p ?q g i = g i"
  proof (cases ys)
    case Nil
    then show ?thesis using 1 by (simp add: unlink_def if_some_def)
  next
    case (Cons b ys')
    then have "b \<notin> set ys'" "b \<notin> set xs" "b \<noteq> i" using assms(2) by auto
    then show ?thesis
      using segment_prev [of ?g1 "Some i" b ys' None ?p] 1 unfolding unlink_def
      by (simp add: Cons if_some_def [of "Some b"])
  qed
  then show "segment (unlink ?p ?q g) None (xs @ ys) None" "unlink ?p ?q g i = g i" by simp_all
qed

text \<open>Putting a node in front.\<close>

lemma segment_push:
  assumes "segment g None zs None" and "i \<notin> set zs" and "distinct zs"
    and "\<exists>n. g i = Some n \<and> nd_prev n = None \<and> nd_next n = first_of zs None"
  shows "segment (if_some (first_of zs None) (\<lambda>h. relink h (\<lambda>n. n\<lparr>nd_prev := Some i\<rparr>)) g) None (i # zs) None"
proof (cases zs)
  case Nil
  then show ?thesis using assms(4) by (simp add: if_some_def)
next
  case (Cons h zs')
  then have "h \<notin> set zs'" "h \<noteq> i" using assms(2,3) by auto
  then show ?thesis
    using segment_prev [of g None h zs' None "Some i"] assms(1,4) Cons by (auto simp: if_some_def)
qed

section \<open>The representation\<close>

definition data :: "(nat \<Rightarrow> ('k, 'v) lru_node option) \<Rightarrow> nat \<Rightarrow> ('k \<times> 'v cache_entry) option" where
  "data g i = map_option (\<lambda>n. (nd_key n, nd_entry n)) (g i)"

text \<open>
  The slots in use, from the most to the least recently used one, represent the cache: they form
  the list from head to tail, the map finds exactly their keys, and every other slot is free.
\<close>

definition lru_inv :: "('k, 'v) lru_cache \<Rightarrow> nat list \<Rightarrow> bool" where
  "lru_inv c is \<longleftrightarrow>
     0 < lc_capacity c \<and> length is \<le> lc_capacity c \<and> distinct is \<and>
     length (lc_nodes c) \<le> lc_capacity c \<and>
     segment (node_at c) None is None \<and> lc_head c = first_of is None \<and> lc_tail c = last_of is None \<and>
     distinct (lc_free_list c) \<and> set is \<inter> set (lc_free_list c) = {} \<and>
     set is \<union> set (lc_free_list c) = {..<length (lc_nodes c)} \<and> dict_ok (lc_map c) \<and>
     (\<forall>k i. map_of (lc_map c) k = Some i \<longleftrightarrow> i \<in> set is \<and> (\<exists>e. data (node_at c) i = Some (k, e)))"

definition contents_of :: "('k, 'v) lru_cache \<Rightarrow> nat list \<Rightarrow> ('k \<times> 'v cache_entry) list" where
  "contents_of c is = map (\<lambda>i. the (data (node_at c) i)) is"

lemma node_at_change [simp]: "node_at (change_node i f c) = relink i f (node_at c)"
  by (auto simp: fun_eq_iff change_node_def relink_def node_at_def nth_list_update split: option.split)

lemma change_node_keeps [simp]:
  "lc_capacity (change_node i f c) = lc_capacity c" "lc_map (change_node i f c) = lc_map c"
  "lc_head (change_node i f c) = lc_head c" "lc_tail (change_node i f c) = lc_tail c"
  "lc_free_list (change_node i f c) = lc_free_list c"
  "length (lc_nodes (change_node i f c)) = length (lc_nodes c)"
  by (simp_all add: change_node_def split: option.split)

lemma node_at_take [simp]: "node_at (take_node i c) = (node_at c)(i := None)"
  by (auto simp: fun_eq_iff take_node_def node_at_def nth_list_update)

lemma node_at_fields [simp]:
  "node_at (c\<lparr>lc_map := m\<rparr>) = node_at c" "node_at (c\<lparr>lc_head := h\<rparr>) = node_at c"
  "node_at (c\<lparr>lc_tail := t\<rparr>) = node_at c" "node_at (c\<lparr>lc_free_list := l\<rparr>) = node_at c"
  by (simp_all add: node_at_def fun_eq_iff)

lemma data_relink:
  "(\<And>n. nd_key (f n) = nd_key n \<and> nd_entry (f n) = nd_entry n) \<Longrightarrow> data (relink i f g) = data g"
  by (auto simp: data_def relink_def fun_eq_iff option.map_comp comp_def)

lemma data_links [simp]:
  "data (relink i (\<lambda>n. n\<lparr>nd_prev := p\<rparr>) g) = data g"
  "data (relink i (\<lambda>n. n\<lparr>nd_next := q\<rparr>) g) = data g"
  by (rule data_relink, simp)+

lemma data_if_some [simp]:
  "data (if_some x (\<lambda>h. relink h (\<lambda>n. n\<lparr>nd_prev := p\<rparr>)) g) = data g"
  "data (if_some x (\<lambda>h. relink h (\<lambda>n. n\<lparr>nd_next := q\<rparr>)) g) = data g"
  by (simp_all add: if_some_def split: option.split)

lemma data_unlink [simp]: "data (unlink p q g) = data g"
  by (simp add: unlink_def)

lemma segment_Some: "segment g p is q \<Longrightarrow> i \<in> set is \<Longrightarrow> \<exists>n. g i = Some n"
  by (induction "is" arbitrary: p) auto

lemma if_some_node [simp]:
  "node_at (if_some x (\<lambda>i. set_prev i p) c) = if_some x (\<lambda>i. relink i (\<lambda>n. n\<lparr>nd_prev := p\<rparr>)) (node_at c)"
  "node_at (if_some x (\<lambda>i. set_next i q) c) = if_some x (\<lambda>i. relink i (\<lambda>n. n\<lparr>nd_next := q\<rparr>)) (node_at c)"
  by (simp_all add: if_some_def set_prev_def set_next_def split: option.split)

lemma if_some_keeps [simp]:
  assumes "\<And>a c. h (f a c) = h c"
  shows "h (if_some x f c) = h c"
  using assms by (simp add: if_some_def split: option.split)

lemma set_links_keep [simp]:
  "lc_capacity (set_prev i p c) = lc_capacity c" "lc_map (set_prev i p c) = lc_map c"
  "lc_head (set_prev i p c) = lc_head c" "lc_tail (set_prev i p c) = lc_tail c"
  "lc_free_list (set_prev i p c) = lc_free_list c" "length (lc_nodes (set_prev i p c)) = length (lc_nodes c)"
  "lc_capacity (set_next i q c) = lc_capacity c" "lc_map (set_next i q c) = lc_map c"
  "lc_head (set_next i q c) = lc_head c" "lc_tail (set_next i q c) = lc_tail c"
  "lc_free_list (set_next i q c) = lc_free_list c" "length (lc_nodes (set_next i q c)) = length (lc_nodes c)"
  "node_at (set_prev i p c) = relink i (\<lambda>n. n\<lparr>nd_prev := p\<rparr>) (node_at c)"
  "node_at (set_next i q c) = relink i (\<lambda>n. n\<lparr>nd_next := q\<rparr>) (node_at c)"
  by (simp_all add: set_prev_def set_next_def)

lemma if_some_links_keep [simp]:
  "lc_capacity (if_some x (\<lambda>i. set_prev i p) c) = lc_capacity c"
  "lc_map (if_some x (\<lambda>i. set_prev i p) c) = lc_map c"
  "lc_head (if_some x (\<lambda>i. set_prev i p) c) = lc_head c"
  "lc_tail (if_some x (\<lambda>i. set_prev i p) c) = lc_tail c"
  "lc_free_list (if_some x (\<lambda>i. set_prev i p) c) = lc_free_list c"
  "length (lc_nodes (if_some x (\<lambda>i. set_prev i p) c)) = length (lc_nodes c)"
  "lc_capacity (if_some x (\<lambda>i. set_next i q) c) = lc_capacity c"
  "lc_map (if_some x (\<lambda>i. set_next i q) c) = lc_map c"
  "lc_head (if_some x (\<lambda>i. set_next i q) c) = lc_head c"
  "lc_tail (if_some x (\<lambda>i. set_next i q) c) = lc_tail c"
  "lc_free_list (if_some x (\<lambda>i. set_next i q) c) = lc_free_list c"
  "length (lc_nodes (if_some x (\<lambda>i. set_next i q) c)) = length (lc_nodes c)"
  by (simp_all add: if_some_def split: option.split)

lemma last_of_Cons_in: "last_of ys (Some i) = Some j \<Longrightarrow> j = i \<or> j \<in> set ys"
  by (auto simp: last_of_def split: if_splits)

lemma move_to_front_inv:
  assumes "lru_inv c (xs @ i # ys)"
  shows "lru_inv (move_to_front i c) (i # xs @ ys)"
    "data (node_at (move_to_front i c)) = data (node_at c)"
    "lc_capacity (move_to_front i c) = lc_capacity c" "lc_map (move_to_front i c) = lc_map c"
proof -
  let ?g = "node_at c"
  have inv: "distinct (xs @ i # ys)" "segment ?g None (xs @ i # ys) None"
    "lc_head c = first_of (xs @ i # ys) None" "lc_tail c = last_of (xs @ i # ys) None"
    using assms by (simp_all add: lru_inv_def)
  have "lru_inv (move_to_front i c) (i # xs @ ys) \<and> data (node_at (move_to_front i c)) = data ?g \<and>
    lc_capacity (move_to_front i c) = lc_capacity c \<and> lc_map (move_to_front i c) = lc_map c"
  proof (cases "xs = []")
    case True
    then show ?thesis using assms inv(3) by (simp add: move_to_front_def)
  next
    case False
    then have head: "lc_head c \<noteq> Some i" "first_of (xs @ ys) None = lc_head c"
      using inv(1,3) by (auto simp: neq_Nil_conv)
    from inv(2) obtain n where n: "?g i = Some n" "nd_prev n = last_of xs None" "nd_next n = first_of ys None"
      by auto
    let ?p = "last_of xs None" and ?q = "first_of ys None"
    let ?c2 = "if_some ?q (\<lambda>q. set_prev q ?p) (if_some ?p (\<lambda>p. set_next p ?q) c)"
    let ?c3 = "if lc_tail ?c2 = Some i then ?c2\<lparr>lc_tail := ?p\<rparr> else ?c2"
    let ?c4 = "set_next i (lc_head ?c3) (set_prev i None ?c3)"
    let ?c6 = "(if_some (lc_head ?c3) (\<lambda>h. set_prev h (Some i)) ?c4)\<lparr>lc_head := Some i\<rparr>"
    have u: "node_at ?c3 = unlink ?p ?q ?g" by (simp add: unlink_def)
    have tail: "lc_tail ?c3 = last_of (xs @ ys) None"
    proof (cases "ys = []")
      case True
      then show ?thesis using inv(4) by simp
    next
      case False
      then have "last_of ys (Some i) = last_of ys ?p" "last_of ys (Some i) \<noteq> Some i"
        using inv(1) by (auto simp: last_of_def)
      then show ?thesis using inv(4) by simp
    qed
    have ne: "last_of (xs @ ys) None \<noteq> None" using False by (simp add: last_of_def)
    have "move_to_front i c = (if lc_tail ?c6 = None then ?c6\<lparr>lc_tail := Some i\<rparr> else ?c6)"
      by (simp only: move_to_front_def Let_def head(1) n option.case if_False)
    moreover have "lc_tail ?c6 \<noteq> None" using tail ne by simp
    ultimately have move: "move_to_front i c = ?c6" by (simp only: if_False)
    have nodes: "node_at ?c6 = if_some (first_of (xs @ ys) None) (\<lambda>h. relink h (\<lambda>n. n\<lparr>nd_prev := Some i\<rparr>))
        (relink i (\<lambda>n. n\<lparr>nd_next := first_of (xs @ ys) None\<rparr>) (relink i (\<lambda>n. n\<lparr>nd_prev := None\<rparr>) (unlink ?p ?q ?g)))"
      using u head(2) by simp
    have seg: "segment (node_at ?c6) None (i # xs @ ys) None"
      unfolding nodes
    proof (rule segment_push)
      show "segment (relink i (\<lambda>n. n\<lparr>nd_next := first_of (xs @ ys) None\<rparr>)
          (relink i (\<lambda>n. n\<lparr>nd_prev := None\<rparr>) (unlink ?p ?q ?g))) None (xs @ ys) None"
        using segment_unlink(1) [OF inv(2,1)] inv(1) by simp
      show "i \<notin> set (xs @ ys)" "distinct (xs @ ys)" using inv(1) by simp_all
      show "\<exists>n. relink i (\<lambda>n. n\<lparr>nd_next := first_of (xs @ ys) None\<rparr>)
          (relink i (\<lambda>n. n\<lparr>nd_prev := None\<rparr>) (unlink ?p ?q ?g)) i = Some n \<and>
          nd_prev n = None \<and> nd_next n = first_of (xs @ ys) None"
        using segment_unlink(2) [OF inv(2,1)] n(1) by simp
    qed
    have dat: "data (node_at ?c6) = data ?g" unfolding nodes by simp
    have keep: "lc_capacity ?c6 = lc_capacity c" "lc_map ?c6 = lc_map c" "lc_head ?c6 = Some i"
      "lc_tail ?c6 = last_of (i # xs @ ys) None" "lc_free_list ?c6 = lc_free_list c"
      "length (lc_nodes ?c6) = length (lc_nodes c)"
      using tail False by (simp_all add: last_of_def)
    have "lru_inv ?c6 (i # xs @ ys)"
      using assms seg unfolding lru_inv_def keep dat by auto
    with dat keep show ?thesis unfolding move by blast
  qed
  then show "lru_inv (move_to_front i c) (i # xs @ ys)"
    "data (node_at (move_to_front i c)) = data ?g"
    "lc_capacity (move_to_front i c) = lc_capacity c" "lc_map (move_to_front i c) = lc_map c"
    by blast+
qed

section \<open>The cache as a list\<close>

lemma inv_entry:
  assumes "lru_inv c is" and "i \<in> set is"
  obtains k e where "data (node_at c) i = Some (k, e)" and "map_of (lc_map c) k = Some i"
proof -
  from assms segment_Some [of "node_at c" None "is" None i] obtain n where "node_at c i = Some n"
    by (auto simp: lru_inv_def)
  then have "data (node_at c) i = Some (nd_key n, nd_entry n)" by (simp add: data_def)
  moreover from this assms have "map_of (lc_map c) (nd_key n) = Some i" by (auto simp: lru_inv_def)
  ultimately show thesis by (rule that)
qed

lemma inv_lookup:
  assumes "lru_inv c is" and "map_of (lc_map c) k = Some i"
  obtains e xs ys where "data (node_at c) i = Some (k, e)" and "is = xs @ i # ys"
    and "contents_of c is = contents_of c xs @ (k, e) # contents_of c ys"
    and "k \<notin> fst ` set (contents_of c xs)" and "k \<notin> fst ` set (contents_of c ys)"
proof -
  from assms obtain e where e: "i \<in> set is" "data (node_at c) i = Some (k, e)"
    by (auto simp: lru_inv_def)
  then obtain xs ys where split: "is = xs @ i # ys" by (auto simp: in_set_conv_decomp)
  have out: "k \<notin> fst ` set (contents_of c js)" if "set js \<subseteq> set is" "i \<notin> set js" for js
  proof
    assume "k \<in> fst ` set (contents_of c js)"
    then obtain j where j: "j \<in> set js" "fst (the (data (node_at c) j)) = k"
      by (auto simp: contents_of_def)
    have "j \<in> set is" using j(1) that(1) by blast
    from assms(1) this obtain k' e' where "data (node_at c) j = Some (k', e')" "map_of (lc_map c) k' = Some j"
      by (rule inv_entry)
    with j(2) assms(2) have "j = i" by simp
    with j(1) that(2) show False by simp
  qed
  have "distinct is" using assms(1) by (simp add: lru_inv_def)
  then have "set xs \<subseteq> set is" "i \<notin> set xs" "set ys \<subseteq> set is" "i \<notin> set ys" by (auto simp: split)
  then show thesis
    by (intro that [OF e(2) split] out) (simp_all add: split contents_of_def e(2))
qed

lemma inv_absent:
  assumes "lru_inv c is" and "map_of (lc_map c) k = None"
  shows "map_of (contents_of c is) k = None"
proof (rule ccontr)
  assume "map_of (contents_of c is) k \<noteq> None"
  then obtain j where j: "j \<in> set is" "fst (the (data (node_at c) j)) = k"
    by (auto simp: contents_of_def map_of_eq_None_iff)
  obtain k' e' where "data (node_at c) j = Some (k', e')" "map_of (lc_map c) k' = Some j"
    by (rule inv_entry [OF assms(1) j(1)])
  with j(2) assms(2) show False by simp
qed

lemma inv_length:
  assumes "lru_inv c is"
  shows "length (lc_map c) = length is"
proof -
  have ok: "dict_ok (lc_map c)" "distinct is" using assms by (simp_all add: lru_inv_def)
  have "snd ` set (lc_map c) = set is"
  proof
    show "snd ` set (lc_map c) \<subseteq> set is"
      using assms ok(1) by (auto simp: lru_inv_def dict_ok_def dest!: map_of_is_SomeI)
    show "set is \<subseteq> snd ` set (lc_map c)"
    proof
      fix i
      assume "i \<in> set is"
      from assms this obtain k e where "map_of (lc_map c) k = Some i" by (rule inv_entry)
      then show "i \<in> snd ` set (lc_map c)" by (force dest: map_of_SomeD)
    qed
  qed
  moreover have "inj_on snd (set (lc_map c))"
  proof (rule inj_onI)
    fix x y
    assume xy: "x \<in> set (lc_map c)" "y \<in> set (lc_map c)" "snd x = snd y"
    have key: "\<exists>e. data (node_at c) (snd z) = Some (fst z, e)" if "z \<in> set (lc_map c)" for z
    proof -
      have "map_of (lc_map c) (fst z) = Some (snd z)"
        using that ok(1) by (simp add: dict_ok_def map_of_is_SomeI)
      with assms show ?thesis by (simp add: lru_inv_def)
    qed
    from key [OF xy(1)] key [OF xy(2)] xy(3) show "x = y" by (auto simp: prod_eq_iff)
  qed
  then have "card (snd ` set (lc_map c)) = card (set (lc_map c))" by (rule card_image)
  moreover have "distinct (lc_map c)" using ok(1) by (simp add: dict_ok_def distinct_map)
  ultimately show ?thesis using ok(2) by (simp add: distinct_card)
qed

lemma delete_middle:
  "k \<notin> fst ` set as \<Longrightarrow> k \<notin> fst ` set bs \<Longrightarrow> AList.delete k (as @ (k, e) # bs) = as @ bs"
proof -
  have "filter (\<lambda>(k', _). k \<noteq> k') zs = zs" if "k \<notin> fst ` set zs" for zs :: "('a \<times> 'b) list"
    using that by (intro filter_True) (auto simp: image_iff)
  then show "k \<notin> fst ` set as \<Longrightarrow> k \<notin> fst ` set bs \<Longrightarrow> AList.delete k (as @ (k, e) # bs) = as @ bs"
    by (simp add: AList.delete_eq)
qed

lemma map_of_middle: "k \<notin> fst ` set as \<Longrightarrow> map_of (as @ (k, e) # bs) k = Some e"
  by (simp add: map_add_def map_of_eq_None_iff [THEN iffD2])

text \<open>The specification: a list of entries, the most recently used first.\<close>

definition spec_get :: "u64 \<Rightarrow> 'k \<Rightarrow> ('k \<times> 'v cache_entry) list \<Rightarrow> 'v option \<times> ('k \<times> 'v cache_entry) list"
where
  "spec_get now k xs =
     (case map_of xs k of
        None \<Rightarrow> (None, xs)
      | Some e \<Rightarrow> (Some (cn_value e), (k, touch now e) # AList.delete k xs))"

definition spec_insert ::
  "nat \<Rightarrow> u64 \<Rightarrow> 'k \<Rightarrow> 'v \<Rightarrow> ('k \<times> 'v cache_entry) list \<Rightarrow> 'v option \<times> ('k \<times> 'v cache_entry) list"
where
  "spec_insert n now k v xs =
     (case map_of xs k of
        Some e \<Rightarrow> (Some (cn_value e), (k, touch now (e\<lparr>cn_value := v\<rparr>)) # AList.delete k xs)
      | None \<Rightarrow> (None, (k, cache_entry_new now v) # (if n \<le> length xs then butlast xs else xs)))"

definition spec_remove :: "'k \<Rightarrow> ('k \<times> 'v cache_entry) list \<Rightarrow> 'v option \<times> ('k \<times> 'v cache_entry) list"
where
  "spec_remove k xs = (map_option cn_value (map_of xs k), AList.delete k xs)"

text \<open>Changing an entry in place.\<close>

lemma segment_entry [simp]:
  "segment (relink i (\<lambda>n. n\<lparr>nd_entry := f (nd_entry n)\<rparr>) g) p is q = segment g p is q"
  by (induction "is" arbitrary: p) (auto simp: relink_def)

lemma data_entry:
  "data (relink i (\<lambda>n. n\<lparr>nd_entry := f (nd_entry n)\<rparr>) g) j =
     (if j = i then map_option (\<lambda>(k, e). (k, f e)) (data g j) else data g j)"
  by (auto simp: data_def relink_def option.map_comp comp_def)

lemma change_entry_inv:
  assumes "lru_inv c is"
  shows "lru_inv (change_node i (\<lambda>n. n\<lparr>nd_entry := f (nd_entry n)\<rparr>) c) is"
  using assms unfolding lru_inv_def by (auto simp: data_entry split: if_splits)

lemma get_refines:
  assumes "lru_inv c is" and "lru_get now k c = (r, c')"
  shows "\<exists>is'. lru_inv c' is' \<and> lc_capacity c' = lc_capacity c \<and>
    spec_get now k (contents_of c is) = (r, contents_of c' is')"
proof (cases "map_of (lc_map c) k")
  case None
  then show ?thesis
    using assms inv_absent [OF assms(1) None] by (auto simp: lru_get_def spec_get_def)
next
  case (Some i)
  obtain e xs ys where e: "data (node_at c) i = Some (k, e)" "is = xs @ i # ys"
    "contents_of c is = contents_of c xs @ (k, e) # contents_of c ys"
    "k \<notin> fst ` set (contents_of c xs)" "k \<notin> fst ` set (contents_of c ys)"
    by (rule inv_lookup [OF assms(1) Some])
  note m = move_to_front_inv [OF assms(1) [unfolded e(2)]]
  let ?c1 = "move_to_front i c"
  obtain n where n: "node_at ?c1 i = Some n" "nd_entry n = e"
    using e(1) unfolding m(2) [symmetric] by (auto simp: data_def)
  have c': "c' = change_node i (\<lambda>n. n\<lparr>nd_entry := touch now (nd_entry n)\<rparr>) ?c1" and r: "r = Some (cn_value e)"
    using assms(2) Some n by (simp_all add: lru_get_def Let_def)
  have inv: "lru_inv c' (i # xs @ ys)" unfolding c' by (rule change_entry_inv [OF m(1)])
  have "distinct (xs @ i # ys)" using assms(1) e(2) by (simp add: lru_inv_def)
  then have "contents_of c' (i # xs @ ys) = (k, touch now e) # contents_of c xs @ contents_of c ys"
    using e(1) by (auto simp: contents_of_def c' data_entry m(2))
  then have "spec_get now k (contents_of c is) = (r, contents_of c' (i # xs @ ys))"
    unfolding spec_get_def e(3) map_of_middle [OF e(4)] delete_middle [OF e(4,5)] by (simp add: r)
  with inv show ?thesis by (auto simp: c' m(3))
qed

lemma update_refines:
  assumes "lru_inv c is" and "map_of (lc_map c) k = Some i" and "lru_insert now k v c = (r, c')"
  shows "\<exists>is'. lru_inv c' is' \<and> lc_capacity c' = lc_capacity c \<and>
    spec_insert (lc_capacity c) now k v (contents_of c is) = (r, contents_of c' is')"
proof -
  obtain e xs ys where e: "data (node_at c) i = Some (k, e)" "is = xs @ i # ys"
    "contents_of c is = contents_of c xs @ (k, e) # contents_of c ys"
    "k \<notin> fst ` set (contents_of c xs)" "k \<notin> fst ` set (contents_of c ys)"
    by (rule inv_lookup [OF assms(1,2)])
  let ?f = "\<lambda>e. touch now (e\<lparr>cn_value := v\<rparr>)"
  let ?c1 = "change_node i (\<lambda>n. n\<lparr>nd_entry := ?f (nd_entry n)\<rparr>) c"
  have c': "c' = move_to_front i ?c1" and r: "r = Some (cn_value e)"
    using assms(2,3) e(1) by (auto simp: lru_insert_def data_def)
  have "lru_inv ?c1 (xs @ i # ys)"
    using change_entry_inv [OF assms(1), of i ?f] unfolding e(2) .
  note m = move_to_front_inv [OF this]
  have "distinct (xs @ i # ys)" using assms(1) e(2) by (simp add: lru_inv_def)
  then have "contents_of c' (i # xs @ ys) = (k, ?f e) # contents_of c xs @ contents_of c ys"
    using e(1) by (auto simp: contents_of_def c' data_entry [where f = ?f] m(2))
  then have "spec_insert (lc_capacity c) now k v (contents_of c is) = (r, contents_of c' (i # xs @ ys))"
    unfolding spec_insert_def e(3) map_of_middle [OF e(4)] delete_middle [OF e(4,5)] by (simp add: r)
  with m(1) show ?thesis by (auto simp: c' m(3))
qed

text \<open>Taking a slot out of the cache, as eviction and removal do.\<close>

lemma relink_upd: "i \<noteq> j \<Longrightarrow> relink j f (g(i := x)) = (relink j f g)(i := x)"
  by (auto simp: relink_def)

lemma data_upd_None: "data (g(i := None)) = (data g)(i := None)"
  by (auto simp: data_def fun_eq_iff)

lemma data_upd_Some: "data (g(i := Some n)) = (data g)(i := Some (nd_key n, nd_entry n))"
  by (auto simp: data_def fun_eq_iff)

lemma drop_slot:
  assumes "lru_inv c (xs @ i # ys)" and "data (node_at c) i = Some (k, e)"
    and "node_at c' = (unlink (last_of xs None) (first_of ys None) (node_at c))(i := None)"
    and "lc_head c' = first_of (xs @ ys) None" and "lc_tail c' = last_of (xs @ ys) None"
    and "lc_map c' = AList.delete k (lc_map c)" and "lc_free_list c' = lc_free_list c @ [i]"
    and "lc_capacity c' = lc_capacity c" and "length (lc_nodes c') = length (lc_nodes c)"
  shows "lru_inv c' (xs @ ys)" "contents_of c' (xs @ ys) = contents_of c (xs @ ys)"
proof -
  have inv: "distinct (xs @ i # ys)" "segment (node_at c) None (xs @ i # ys) None"
    "\<And>k i'. map_of (lc_map c) k = Some i' \<longleftrightarrow>
       i' \<in> set (xs @ i # ys) \<and> (\<exists>e. data (node_at c) i' = Some (k, e))"
    using assms(1) by (simp_all add: lru_inv_def)
  have dat: "data (node_at c') = (data (node_at c))(i := None)"
    by (simp add: assms(3) data_upd_None)
  have "segment (node_at c') None (xs @ ys) None"
    using segment_unlink(1) [OF inv(2,1)] inv(1) by (simp add: assms(3))
  moreover have "map_of (lc_map c') k' = Some i' \<longleftrightarrow>
      i' \<in> set (xs @ ys) \<and> (\<exists>e. data (node_at c') i' = Some (k', e))" for k' i'
  proof -
    have "i' = i" if "map_of (lc_map c) k = Some i'"
      using that inv(3) [of k i] assms(2) by simp
    then show ?thesis
      using inv(3) [of k' i'] assms(2) inv(1)
      by (auto simp: assms(6) dat map_of_delete_entry)
  qed
  moreover have "dict_ok (lc_map c')" using assms(1,6) by (simp add: lru_inv_def)
  moreover have "set (xs @ ys) \<inter> set (lc_free_list c') = {}" "distinct (lc_free_list c')"
    "set (xs @ ys) \<union> set (lc_free_list c') = {..<length (lc_nodes c')}"
    using assms(1) by (auto simp: lru_inv_def assms(7,9))
  ultimately show "lru_inv c' (xs @ ys)"
    using assms(1,4,5,8,9) by (simp add: lru_inv_def)
  show "contents_of c' (xs @ ys) = contents_of c (xs @ ys)"
    using inv(1) by (auto simp: contents_of_def dat)
qed

lemma evict_inv:
  assumes "lru_inv c (xs @ [t])" and "evict_lru c = (r, c')"
  shows "lru_inv c' xs" "contents_of c' xs = contents_of c xs" "lc_capacity c' = lc_capacity c"
    "\<exists>k e. data (node_at c) t = Some (k, e) \<and> r = Some (k, cn_value e) \<and>
       lc_map c' = AList.delete k (lc_map c)"
proof -
  have seg: "segment (node_at c) None (xs @ [t]) None" "lc_tail c = Some t" "distinct (xs @ [t])"
    "lc_head c = first_of (xs @ [t]) None"
    using assms(1) by (simp_all add: lru_inv_def)
  then obtain n where n: "node_at c t = Some n" "nd_prev n = last_of xs None" by auto
  have dat: "data (node_at c) t = Some (nd_key n, nd_entry n)" using n(1) by (simp add: data_def)
  let ?c2 = "(take_node t c)\<lparr>lc_map := AList.delete (nd_key n) (lc_map (take_node t c)),
    lc_free_list := lc_free_list (take_node t c) @ [t]\<rparr>"
  have c': "c' = (case nd_prev n of
      Some p \<Rightarrow> (set_next p None ?c2)\<lparr>lc_tail := Some p\<rparr> | None \<Rightarrow> ?c2\<lparr>lc_head := None, lc_tail := None\<rparr>)"
    and r: "r = Some (nd_key n, cn_value (nd_entry n))"
    using assms(2) seg(2) n(1) by (simp_all add: evict_lru_def Let_def)
  have keep: "lc_map c' = AList.delete (nd_key n) (lc_map c)" "lc_free_list c' = lc_free_list c @ [t]"
    "lc_capacity c' = lc_capacity c" "length (lc_nodes c') = length (lc_nodes c)"
    by (auto simp: c' take_node_def split: option.split)
  have links: "node_at c' = (unlink (last_of xs None) (first_of [] None) (node_at c))(t := None) \<and>
    lc_head c' = first_of (xs @ []) None \<and> lc_tail c' = last_of (xs @ []) None"
  proof (cases xs rule: rev_cases)
    case Nil
    then show ?thesis by (simp add: c' n(2) unlink_def if_some_def)
  next
    case (snoc xs' p)
    then have "p \<noteq> t" using seg(3) by auto
    then show ?thesis
      using seg(4) snoc
      by (simp add: c' n(2) unlink_def if_some_def relink_upd)
        (simp add: take_node_def first_of_def split: list.split)
  qed
  then show "lru_inv c' xs" "contents_of c' xs = contents_of c xs"
    using drop_slot [of c xs t "[]", OF assms(1) dat, of c'] keep by simp_all
  show "lc_capacity c' = lc_capacity c" by (rule keep(3))
  show "\<exists>k e. data (node_at c) t = Some (k, e) \<and> r = Some (k, cn_value e) \<and>
       lc_map c' = AList.delete k (lc_map c)"
    using dat r keep(1) by blast
qed

lemma remove_refines:
  assumes "lru_inv c is" and "lru_remove k c = (r, c')"
  shows "\<exists>is'. lru_inv c' is' \<and> lc_capacity c' = lc_capacity c \<and>
    spec_remove k (contents_of c is) = (r, contents_of c' is')"
proof (cases "map_of (lc_map c) k")
  case None
  have absent: "map_of (contents_of c is) k = None" by (rule inv_absent [OF assms(1) None])
  then show ?thesis
    using assms None delete_absent [OF absent] by (auto simp: lru_remove_def spec_remove_def)
next
  case (Some i)
  obtain e xs ys where e: "data (node_at c) i = Some (k, e)" "is = xs @ i # ys"
    "contents_of c is = contents_of c xs @ (k, e) # contents_of c ys"
    "k \<notin> fst ` set (contents_of c xs)" "k \<notin> fst ` set (contents_of c ys)"
    by (rule inv_lookup [OF assms(1) Some])
  have inv: "lru_inv c (xs @ i # ys)" using assms(1) by (simp add: e(2))
  then have seg: "segment (node_at c) None (xs @ i # ys) None" "distinct (xs @ i # ys)"
    "lc_head c = first_of (xs @ i # ys) None" "lc_tail c = last_of (xs @ i # ys) None"
    by (simp_all add: lru_inv_def)
  then obtain n where n: "node_at c i = Some n" "nd_prev n = last_of xs None" "nd_next n = first_of ys None"
    by auto
  let ?c1 = "c\<lparr>lc_map := AList.delete k (lc_map c)\<rparr>"
  let ?c2 = "take_node i ?c1"
  let ?c3 = "case last_of xs None of Some p \<Rightarrow> set_next p (first_of ys None) ?c2
    | None \<Rightarrow> ?c2\<lparr>lc_head := first_of ys None\<rparr>"
  let ?c4 = "case first_of ys None of Some q \<Rightarrow> set_prev q (last_of xs None) ?c3
    | None \<Rightarrow> ?c3\<lparr>lc_tail := last_of xs None\<rparr>"
  have "lru_remove k c = (Some (cn_value (nd_entry n)), ?c4\<lparr>lc_free_list := lc_free_list ?c4 @ [i]\<rparr>)"
    by (simp only: lru_remove_def Let_def Some option.case node_at_fields n)
  moreover have "nd_entry n = e" using e(1) n(1) by (simp add: data_def)
  ultimately have c': "c' = ?c4\<lparr>lc_free_list := lc_free_list ?c4 @ [i]\<rparr>" and r: "r = Some (cn_value e)"
    using assms(2) by (simp_all only: prod.inject)
  have keep: "lc_map c' = AList.delete k (lc_map c)" "lc_free_list c' = lc_free_list c @ [i]"
    "lc_capacity c' = lc_capacity c" "length (lc_nodes c') = length (lc_nodes c)"
    by (auto simp: c' take_node_def split: option.split)
  have "lc_head c' = first_of (xs @ ys) None \<and> lc_tail c' = last_of (xs @ ys) None"
    by (cases xs rule: rev_cases; cases ys) (use seg(3,4) in \<open>simp_all add: c' take_node_def\<close>)
  then have head: "lc_head c' = first_of (xs @ ys) None" "lc_tail c' = last_of (xs @ ys) None"
    by simp_all
  have nodes: "node_at c' = (unlink (last_of xs None) (first_of ys None) (node_at c))(i := None)"
  proof -
    have "first_of ys None \<noteq> Some i" "last_of xs None \<noteq> Some i"
      using seg(2) by (auto simp: first_of_def last_of_def split: list.splits if_splits)
    then show ?thesis
      by (cases "first_of ys None"; cases "last_of xs None")
        (simp_all add: c' unlink_def if_some_def relink_upd)
  qed
  note drop = drop_slot [OF inv e(1) nodes head keep]
  have "contents_of c' (xs @ ys) = contents_of c xs @ contents_of c ys"
    using drop(2) by (simp add: contents_of_def)
  then have "spec_remove k (contents_of c is) = (r, contents_of c' (xs @ ys))"
    unfolding spec_remove_def e(3) map_of_middle [OF e(4)] delete_middle [OF e(4,5)] by (simp add: r)
  with drop(1) keep(3) show ?thesis by blast
qed

text \<open>A slot for a new node, and the node put in front.\<close>

lemma get_node_index_inv:
  assumes "lru_inv c is" and "get_node_index c = (i, c')"
  shows "i \<notin> set is" "i \<notin> set (lc_free_list c')" "distinct (lc_free_list c')"
    "set is \<inter> set (lc_free_list c') = {}" "i < length (lc_nodes c')"
    "insert i (set is \<union> set (lc_free_list c')) = {..<length (lc_nodes c')}"
    "node_at c' = node_at c" "lc_map c' = lc_map c" "lc_head c' = lc_head c" "lc_tail c' = lc_tail c"
    "lc_capacity c' = lc_capacity c"
proof -
  have inv: "distinct (lc_free_list c)" "set is \<inter> set (lc_free_list c) = {}"
    "set is \<union> set (lc_free_list c) = {..<length (lc_nodes c)}"
    using assms(1) by (simp_all add: lru_inv_def)
  have "i \<notin> set is \<and> i \<notin> set (lc_free_list c') \<and> distinct (lc_free_list c') \<and>
    set is \<inter> set (lc_free_list c') = {} \<and>
    insert i (set is \<union> set (lc_free_list c')) = {..<length (lc_nodes c')} \<and>
    node_at c' = node_at c \<and> lc_map c' = lc_map c \<and> lc_head c' = lc_head c \<and>
    lc_tail c' = lc_tail c \<and> lc_capacity c' = lc_capacity c"
  proof (cases "lc_free_list c" rule: rev_cases)
    case Nil
    then have i: "i = length (lc_nodes c)" "c' = c\<lparr>lc_nodes := lc_nodes c @ [None]\<rparr>"
      using assms(2) by (simp_all add: get_node_index_def)
    have "node_at c' = node_at c"
      by (simp add: i node_at_def fun_eq_iff nth_append less_Suc_eq)
    moreover have "set is = {..<length (lc_nodes c)}" using inv(3) Nil by simp
    ultimately show ?thesis using Nil by (simp add: i lessThan_Suc)
  next
    case (snoc l j)
    then have i: "i = j" "c' = c\<lparr>lc_free_list := l\<rparr>"
      using assms(2) by (simp_all add: get_node_index_def)
    show ?thesis using inv snoc by (auto simp: i)
  qed
  then show slots: "insert i (set is \<union> set (lc_free_list c')) = {..<length (lc_nodes c')}"
    and "i \<notin> set is" "i \<notin> set (lc_free_list c')" "distinct (lc_free_list c')"
    "set is \<inter> set (lc_free_list c') = {}" "node_at c' = node_at c" "lc_map c' = lc_map c"
    "lc_head c' = lc_head c" "lc_tail c' = lc_tail c" "lc_capacity c' = lc_capacity c"
    by simp_all
  have "i \<in> {..<length (lc_nodes c')}" unfolding slots [symmetric] by simp
  then show "i < length (lc_nodes c')" by simp
qed

lemma slot_bound:
  assumes "lru_inv c is" and "length is < lc_capacity c" and "get_node_index c = (i, c')"
  shows "length (lc_nodes c') \<le> lc_capacity c"
proof (cases "lc_free_list c")
  case Nil
  then have "set is = {..<length (lc_nodes c)}" "distinct is" using assms(1) by (simp_all add: lru_inv_def)
  then have "length (lc_nodes c) = length is" by (metis card_lessThan distinct_card)
  then show ?thesis using assms(2,3) Nil by (auto simp: get_node_index_def)
next
  case (Cons a as)
  then show ?thesis using assms(1,3) by (auto simp: get_node_index_def lru_inv_def)
qed

definition push_front :: "'k \<Rightarrow> 'v cache_entry \<Rightarrow> ('k, 'v) lru_cache \<Rightarrow> ('k, 'v) lru_cache" where
  "push_front k e c =
     (let (i, c2) = get_node_index c;
          c3 = c2\<lparr>lc_nodes := (lc_nodes c2)[i :=
                 Some \<lparr>nd_key = k, nd_entry = e, nd_prev = None, nd_next = lc_head c2\<rparr>]\<rparr>;
          c4 = if_some (lc_head c3) (\<lambda>h. set_prev h (Some i)) c3;
          c5 = c4\<lparr>lc_head := Some i\<rparr>;
          c6 = (if lc_tail c5 = None then c5\<lparr>lc_tail := Some i\<rparr> else c5)
      in c6\<lparr>lc_map := AList.update k i (lc_map c6)\<rparr>)"

lemma push_front_inv:
  assumes "lru_inv c is" and "length is < lc_capacity c" and "map_of (lc_map c) k = None"
  shows "\<exists>i. lru_inv (push_front k e c) (i # is) \<and> lc_capacity (push_front k e c) = lc_capacity c \<and>
    contents_of (push_front k e c) (i # is) = (k, e) # contents_of c is"
proof -
  obtain i c2 where g: "get_node_index c = (i, c2)" by (cases "get_node_index c")
  note slot = get_node_index_inv [OF assms(1) g]
  have inv: "distinct is" "segment (node_at c) None is None" "lc_head c = first_of is None"
    "lc_tail c = last_of is None" "dict_ok (lc_map c)" "0 < lc_capacity c"
    "\<And>k i. map_of (lc_map c) k = Some i \<longleftrightarrow> i \<in> set is \<and> (\<exists>e. data (node_at c) i = Some (k, e))"
    using assms(1) by (simp_all add: lru_inv_def)
  let ?n = "\<lparr>nd_key = k, nd_entry = e, nd_prev = None, nd_next = first_of is None\<rparr>"
  let ?c3 = "c2\<lparr>lc_nodes := (lc_nodes c2)[i := Some ?n]\<rparr>"
  let ?c5 = "(if_some (first_of is None) (\<lambda>h. set_prev h (Some i)) ?c3)\<lparr>lc_head := Some i\<rparr>"
  let ?c6 = "if lc_tail ?c5 = None then ?c5\<lparr>lc_tail := Some i\<rparr> else ?c5"
  have head: "lc_head ?c3 = first_of is None" by (simp add: slot(9) inv(3))
  have c': "push_front k e c = ?c6\<lparr>lc_map := AList.update k i (lc_map ?c6)\<rparr>"
    by (simp only: push_front_def Let_def g prod.case slot(9) inv(3) head)
  have n3: "node_at ?c3 = (node_at c)(i := Some ?n)"
    using slot(5) unfolding slot(7) [symmetric] by (auto simp: node_at_def fun_eq_iff)
  define c' where "c' = push_front k e c"
  have nodes: "node_at c' = if_some (first_of is None) (\<lambda>h. relink h (\<lambda>n. n\<lparr>nd_prev := Some i\<rparr>))
      ((node_at c)(i := Some ?n))"
    unfolding c'_def c' by (simp add: n3)
  have keep: "lc_capacity c' = lc_capacity c" "lc_map c' = AList.update k i (lc_map c)"
    "lc_head c' = Some i" "lc_free_list c' = lc_free_list c2" "length (lc_nodes c') = length (lc_nodes c2)"
    unfolding c'_def c' by (simp_all add: slot(8,11))
  have tail: "lc_tail c' = last_of (i # is) None"
    unfolding c'_def c' by (simp add: slot(10) inv(4)) (simp add: last_of_def)
  have "segment (node_at c') None (i # is) None"
    unfolding nodes by (rule segment_push) (use slot(1) inv(1,2) in simp_all)
  moreover have dat: "data (node_at c') = (data (node_at c))(i := Some (k, e))"
    unfolding nodes by (simp add: data_upd_Some)
  moreover have "k' \<noteq> k" if "data (node_at c) j = Some (k', e')" "j \<in> set is" for j k' e'
    using that inv(7) [of k j] assms(3) by auto
  ultimately have "lru_inv c' (i # is)"
    using assms(2) inv(1,5,6,7) slot(1,2,3,4,6) slot_bound [OF assms(1,2) g]
    unfolding lru_inv_def keep tail
    by (auto simp: map_of_update)
  moreover have "contents_of c' (i # is) = (k, e) # contents_of c is"
    using slot(1) by (auto simp: contents_of_def dat)
  ultimately show ?thesis using keep(1) unfolding c'_def by blast
qed

lemma butlast_contents: "contents_of c (butlast is) = butlast (contents_of c is)"
  by (simp add: contents_of_def map_butlast)

lemma insert_refines:
  assumes "lru_inv c is" and "lru_insert now k v c = (r, c')"
  shows "\<exists>is'. lru_inv c' is' \<and> lc_capacity c' = lc_capacity c \<and>
    spec_insert (lc_capacity c) now k v (contents_of c is) = (r, contents_of c' is')"
proof (cases "map_of (lc_map c) k")
  case (Some i)
  show ?thesis by (rule update_refines [OF assms(1) Some assms(2)])
next
  case None
  let ?full = "lc_capacity c \<le> length is"
  let ?c1 = "if ?full then snd (evict_lru c) else c"
  let ?is = "if ?full then butlast is else is"
  have room: "lru_inv ?c1 ?is \<and> length ?is < lc_capacity ?c1 \<and> map_of (lc_map ?c1) k = None \<and>
    lc_capacity ?c1 = lc_capacity c \<and> contents_of ?c1 ?is = contents_of c ?is"
  proof (cases ?full)
    case False
    then show ?thesis using assms(1) None by simp
  next
    case True
    have bounds: "0 < lc_capacity c" "length is \<le> lc_capacity c"
      using assms(1) by (simp_all add: lru_inv_def)
    then have snoc: "is = butlast is @ [last is]" using True by (cases "is" rule: rev_cases) auto
    obtain ev c1 where e: "evict_lru c = (ev, c1)" by (cases "evict_lru c")
    have "lru_inv c (butlast is @ [last is])" by (subst snoc [symmetric]) (rule assms(1))
    note evicted = evict_inv [OF this e]
    show ?thesis
      using True bounds evicted None by (auto simp: e dict_simps)
  qed
  have "(r, c') = (None, push_front k (cache_entry_new now v) ?c1)"
    using assms(2) None
    by (simp only: lru_insert_def push_front_def Let_def option.case inv_length [OF assms(1)]
        case_prod_beta prod.inject)
  moreover obtain i where "lru_inv (push_front k (cache_entry_new now v) ?c1) (i # ?is)"
    "lc_capacity (push_front k (cache_entry_new now v) ?c1) = lc_capacity ?c1"
    "contents_of (push_front k (cache_entry_new now v) ?c1) (i # ?is) =
      (k, cache_entry_new now v) # contents_of ?c1 ?is"
    using push_front_inv room by metis
  moreover have "spec_insert (lc_capacity c) now k v (contents_of c is) =
      (None, (k, cache_entry_new now v) # contents_of c ?is)"
    using inv_absent [OF assms(1) None]
    by (simp add: spec_insert_def butlast_contents) (simp add: contents_of_def)
  ultimately show ?thesis using room by auto
qed

lemma new_inv:
  assumes "lru_new n = Some c"
  shows "lru_inv c [] \<and> lc_capacity c = n"
  using assms by (auto simp: lru_new_def lru_inv_def split: if_splits)

lemma clear_inv: "lru_inv c is \<Longrightarrow> lru_inv (lru_clear c) []"
  by (auto simp: lru_clear_def lru_inv_def)

section \<open>Whole runs\<close>

datatype ('k, 'v) cache_op =
    CacheGet u64 'k
  | CacheInsert u64 'k 'v
  | CacheRemove 'k
  | CacheClear

fun cache_step :: "('k, 'v) cache_op \<Rightarrow> ('k, 'v) lru_cache \<Rightarrow> 'v option \<times> ('k, 'v) lru_cache" where
  "cache_step (CacheGet now k) c = lru_get now k c"
| "cache_step (CacheInsert now k v) c = lru_insert now k v c"
| "cache_step (CacheRemove k) c = lru_remove k c"
| "cache_step CacheClear c = (None, lru_clear c)"

fun cache_run ::
  "('k, 'v) cache_op list \<Rightarrow> ('k, 'v) lru_cache \<Rightarrow> 'v option list \<times> ('k, 'v) lru_cache"
where
  "cache_run [] c = ([], c)"
| "cache_run (p # ps) c =
     (let (r, c1) = cache_step p c; (rs, c2) = cache_run ps c1 in (r # rs, c2))"

fun spec_step ::
  "nat \<Rightarrow> ('k, 'v) cache_op \<Rightarrow> ('k \<times> 'v cache_entry) list \<Rightarrow> 'v option \<times> ('k \<times> 'v cache_entry) list"
where
  "spec_step n (CacheGet now k) xs = spec_get now k xs"
| "spec_step n (CacheInsert now k v) xs = spec_insert n now k v xs"
| "spec_step n (CacheRemove k) xs = spec_remove k xs"
| "spec_step n CacheClear xs = (None, [])"

fun spec_run ::
  "nat \<Rightarrow> ('k, 'v) cache_op list \<Rightarrow> ('k \<times> 'v cache_entry) list \<Rightarrow>
   'v option list \<times> ('k \<times> 'v cache_entry) list"
where
  "spec_run n [] xs = ([], xs)"
| "spec_run n (p # ps) xs =
     (let (r, xs1) = spec_step n p xs; (rs, xs2) = spec_run n ps xs1 in (r # rs, xs2))"

lemma step_refines:
  assumes "lru_inv c is" and "cache_step p c = (r, c')"
  shows "\<exists>is'. lru_inv c' is' \<and> lc_capacity c' = lc_capacity c \<and>
    spec_step (lc_capacity c) p (contents_of c is) = (r, contents_of c' is')"
proof (cases p)
  case (CacheGet now k)
  then show ?thesis using get_refines [OF assms(1)] assms(2) by simp
next
  case (CacheInsert now k v)
  then show ?thesis using insert_refines [OF assms(1)] assms(2) by simp
next
  case (CacheRemove k)
  then show ?thesis using remove_refines [OF assms(1)] assms(2) by simp
next
  case CacheClear
  then have "r = None" "c' = lru_clear c" using assms(2) by simp_all
  moreover have "lc_capacity (lru_clear c) = lc_capacity c" by (simp add: lru_clear_def)
  moreover have "contents_of (lru_clear c) [] = []" by (simp add: contents_of_def)
  ultimately show ?thesis
    using clear_inv [OF assms(1)] CacheClear by (metis spec_step.simps(4))
qed

lemma run_refines:
  assumes "lru_inv c is" and "cache_run ps c = (rs, c')"
  shows "\<exists>is'. lru_inv c' is' \<and> lc_capacity c' = lc_capacity c \<and>
    spec_run (lc_capacity c) ps (contents_of c is) = (rs, contents_of c' is')"
  using assms
proof (induction ps arbitrary: c "is" rs)
  case Nil
  then show ?case by auto
next
  case (Cons p ps)
  obtain r c1 where s: "cache_step p c = (r, c1)" by (cases "cache_step p c")
  obtain rs1 c2 where t: "cache_run ps c1 = (rs1, c2)" by (cases "cache_run ps c1")
  have rs: "rs = r # rs1" "c' = c2" using Cons.prems(2) by (simp_all add: s t)
  obtain is1 where one: "lru_inv c1 is1" "lc_capacity c1 = lc_capacity c"
    "spec_step (lc_capacity c) p (contents_of c is) = (r, contents_of c1 is1)"
    using step_refines [OF Cons.prems(1) s] by blast
  have "cache_run ps c1 = (rs1, c')" by (simp add: t rs(2))
  then obtain is2 where two: "lru_inv c' is2" "lc_capacity c' = lc_capacity c1"
    "spec_run (lc_capacity c1) ps (contents_of c1 is1) = (rs1, contents_of c' is2)"
    using Cons.IH [OF one(1)] by blast
  have "spec_run (lc_capacity c) (p # ps) (contents_of c is) = (rs, contents_of c' is2)"
    using one(3) two(3) by (simp add: one(2) rs(1))
  with two(1,2) one(2) show ?case by auto
qed

text \<open>
  C26. Whatever operations a new cache of capacity \<open>n\<close> serves, every result is the one of the list in
  which the entry used last is in front and an insertion beyond the capacity drops the last entry;
  it never holds more than \<open>n\<close> entries, and every slot of the vector is in the list or free.
\<close>

theorem lru_is_a_bounded_list:
  assumes "lru_new n = Some c" and "cache_run ps c = (rs, c')"
  shows "fst (spec_run n ps []) = rs \<and> lru_len c' = length (snd (spec_run n ps [])) \<and>
    lru_len c' \<le> n \<and> length (lc_nodes c') \<le> n"
proof -
  have new: "lru_inv c []" "lc_capacity c = n" using new_inv [OF assms(1)] by simp_all
  from run_refines [OF new(1) assms(2)] new(2) obtain is' where
    "lru_inv c' is'" "lc_capacity c' = n" "spec_run n ps [] = (rs, contents_of c' is')"
    by (auto simp: contents_of_def)
  then show ?thesis
    by (simp add: lru_len_def inv_length) (simp add: contents_of_def lru_inv_def)
qed

lemma lru_is_a_bounded_list_witness:
  fixes ps :: "(nat, string) cache_op list" and c :: "(nat, string) lru_cache"
  defines "ps \<equiv> [CacheInsert 0 1 ''a'', CacheInsert 1 2 ''b'', CacheGet 2 1, CacheInsert 3 3 ''c'',
    CacheGet 4 2, CacheRemove 1, CacheGet 5 3]"
    and "c \<equiv> \<lparr>lc_capacity = 2, lc_map = [], lc_nodes = [], lc_head = None, lc_tail = None, lc_free_list = []\<rparr>"
  shows "fst (cache_run ps c) = [None, None, Some ''a'', None, None, Some ''a'', Some ''c''] \<and>
    lru_len (snd (cache_run ps c)) \<le> 2"
proof -
  have new: "lru_new 2 = Some c" by (simp add: lru_new_def c_def)
  have spec: "fst (spec_run 2 ps []) = [None, None, Some ''a'', None, None, Some ''a'', Some ''c'']"
    unfolding ps_def by code_simp
  note run = lru_is_a_bounded_list [OF new surjective_pairing [of "cache_run ps c"]]
  show ?thesis unfolding spec [symmetric] using run by simp
qed

end
