(* ===== verification/AntiDdos.thy ===== *)
theory AntiDdos
  imports Prelude
begin

text \<open>
  The protection against floods of requests and connections, from
  \<^verbatim>\<open>lithair-core/src/security/anti_ddos.rs\<close>. Instants and durations are integers in
  one unit; the addresses are any type. The buckets and trackers are touched only under the write
  lock of their table, so the \<open>try_lock\<close> on the time inside them always succeeds; the circuit
  breaker has no such lock, and \<open>lock_free\<close> says whether its \<open>try_lock\<close> does.
\<close>

section \<open>Configuration and counters\<close>

record ddos_config =
  dc_max_connections_per_ip :: u64
  dc_max_global_connections :: u64
  dc_rate_limit_per_ip :: u32
  dc_rate_window :: int
  dc_connection_timeout :: int
  dc_circuit_breaker_threshold :: u32

definition ddos_config_default :: "int \<Rightarrow> ddos_config" where
  "ddos_config_default second =
     \<lparr>dc_max_connections_per_ip = 100, dc_max_global_connections = 10000,
      dc_rate_limit_per_ip = 100, dc_rate_window = 60 * second,
      dc_connection_timeout = 300 * second, dc_circuit_breaker_threshold = 50\<rparr>"

definition duration_since :: "int \<Rightarrow> int \<Rightarrow> int" where
  "duration_since t earlier = max 0 (t - earlier)"

record bucket =
  bk_count :: u64
  bk_window_start :: int

definition bucket_new :: "int \<Rightarrow> bucket" where
  "bucket_new now = \<lparr>bk_count = 0, bk_window_start = now\<rparr>"

definition bucket_allowed :: "int \<Rightarrow> u32 \<Rightarrow> int \<Rightarrow> bucket \<Rightarrow> bool \<times> bucket" where
  "bucket_allowed now limit window b =
     (let b1 = (if window \<le> duration_since now (bk_window_start b)
                then b\<lparr>bk_window_start := now, bk_count := 0\<rparr> else b)
      in (bk_count b1 < ucast limit, b1\<lparr>bk_count := bk_count b1 + 1\<rparr>))"

record tracker =
  tr_count :: u64
  tr_last_activity :: int

definition tracker_new :: "int \<Rightarrow> tracker" where
  "tracker_new now = \<lparr>tr_count = 0, tr_last_activity = now\<rparr>"

definition add_connection :: "int \<Rightarrow> tracker \<Rightarrow> u64 \<times> tracker" where
  "add_connection now t = (tr_count t, t\<lparr>tr_last_activity := now, tr_count := tr_count t + 1\<rparr>)"

definition remove_connection :: "tracker \<Rightarrow> u64 \<times> tracker" where
  "remove_connection t =
     (if tr_count t = 0 then 0 else tr_count t - 1, t\<lparr>tr_count := tr_count t - 1\<rparr>)"

definition connection_count :: "tracker \<Rightarrow> u64" where
  "connection_count t = tr_count t"

section \<open>The circuit breaker\<close>

record breaker =
  cb_failures :: u64
  cb_last_failure :: "int option"
  cb_state :: u64
  cb_threshold :: u32

definition breaker_new :: "u32 \<Rightarrow> breaker" where
  "breaker_new threshold =
     \<lparr>cb_failures = 0, cb_last_failure = None, cb_state = 0, cb_threshold = threshold\<rparr>"

definition breaker_allowed :: "int \<Rightarrow> bool \<Rightarrow> int \<Rightarrow> breaker \<Rightarrow> bool \<times> breaker" where
  "breaker_allowed second lock_free now b =
     (if cb_state b = 0 then (True, b)
      else if cb_state b = 1 then
        (case cb_last_failure b of
           Some t \<Rightarrow> (if lock_free \<and> 60 * second < duration_since now t
                      then (True, b\<lparr>cb_state := 2\<rparr>) else (False, b))
         | None \<Rightarrow> (False, b))
      else if cb_state b = 2 then (True, b)
      else (False, b))"

definition breaker_success :: "breaker \<Rightarrow> breaker" where
  "breaker_success b = b\<lparr>cb_failures := 0, cb_state := 0\<rparr>"

definition breaker_failure :: "bool \<Rightarrow> int \<Rightarrow> breaker \<Rightarrow> breaker" where
  "breaker_failure lock_free now b =
     (let failures = cb_failures b + 1;
          b1 = b\<lparr>cb_failures := failures\<rparr>;
          b2 = (if lock_free then b1\<lparr>cb_last_failure := Some now\<rparr> else b1)
      in if ucast (cb_threshold b) \<le> failures then b2\<lparr>cb_state := 1\<rparr> else b2)"

section \<open>The protection\<close>

record 'ip ddos =
  dd_config :: ddos_config
  dd_rate_limits :: "('ip, bucket) dict"
  dd_connections :: "('ip, tracker) dict"
  dd_global :: u64
  dd_breaker :: breaker

definition ddos_new :: "ddos_config \<Rightarrow> 'ip ddos" where
  "ddos_new cfg =
     \<lparr>dd_config = cfg, dd_rate_limits = [], dd_connections = [], dd_global = 0,
      dd_breaker = breaker_new (dc_circuit_breaker_threshold cfg)\<rparr>"

definition is_request_allowed :: "int \<Rightarrow> bool \<Rightarrow> int \<Rightarrow> 'ip \<Rightarrow> 'ip ddos \<Rightarrow> bool \<times> 'ip ddos" where
  "is_request_allowed second lock_free now ip d =
     (let (ok, b) = breaker_allowed second lock_free now (dd_breaker d);
          d1 = d\<lparr>dd_breaker := b\<rparr>
      in if \<not> ok then (False, d1)
         else
           (let k = (case map_of (dd_rate_limits d1) ip of Some k \<Rightarrow> k | None \<Rightarrow> bucket_new now);
                (r, k1) = bucket_allowed now (dc_rate_limit_per_ip (dd_config d1))
                            (dc_rate_window (dd_config d1)) k
            in (r, d1\<lparr>dd_rate_limits := AList.update ip k1 (dd_rate_limits d1)\<rparr>)))"

definition below_global_limit :: "'ip ddos \<Rightarrow> bool" where
  "below_global_limit d \<longleftrightarrow> dd_global d < dc_max_global_connections (dd_config d)"

definition below_ip_limit :: "'ip \<Rightarrow> 'ip ddos \<Rightarrow> bool" where
  "below_ip_limit ip d =
     (case map_of (dd_connections d) ip of
        Some t \<Rightarrow> connection_count t < dc_max_connections_per_ip (dd_config d)
      | None \<Rightarrow> True)"

definition is_connection_allowed :: "'ip \<Rightarrow> 'ip ddos \<Rightarrow> bool" where
  "is_connection_allowed ip d = (if \<not> below_global_limit d then False else below_ip_limit ip d)"

definition count_connection :: "'ip ddos \<Rightarrow> 'ip ddos" where
  "count_connection d = d\<lparr>dd_global := dd_global d + 1\<rparr>"

definition track_connection :: "int \<Rightarrow> 'ip \<Rightarrow> 'ip ddos \<Rightarrow> 'ip ddos" where
  "track_connection now ip d =
     (let t = (case map_of (dd_connections d) ip of Some t \<Rightarrow> t | None \<Rightarrow> tracker_new now)
      in d\<lparr>dd_connections := AList.update ip (snd (add_connection now t)) (dd_connections d)\<rparr>)"

definition register_connection :: "int \<Rightarrow> 'ip \<Rightarrow> 'ip ddos \<Rightarrow> (string + unit) \<times> 'ip ddos" where
  "register_connection now ip d =
     (if \<not> is_connection_allowed ip d then (Inl ''Connection limit exceeded'', d)
      else (Inr (), track_connection now ip (count_connection d)))"

definition uncount_connection :: "'ip ddos \<Rightarrow> 'ip ddos" where
  "uncount_connection d = d\<lparr>dd_global := dd_global d - 1\<rparr>"

definition untrack_connection :: "'ip \<Rightarrow> 'ip ddos \<Rightarrow> 'ip ddos" where
  "untrack_connection ip d =
     (case map_of (dd_connections d) ip of
        None \<Rightarrow> d
      | Some t \<Rightarrow>
          (let (remaining, t1) = remove_connection t
           in if remaining = 0 then d\<lparr>dd_connections := AList.delete ip (dd_connections d)\<rparr>
              else d\<lparr>dd_connections := AList.update ip t1 (dd_connections d)\<rparr>))"

definition unregister_connection :: "'ip \<Rightarrow> 'ip ddos \<Rightarrow> 'ip ddos" where
  "unregister_connection ip d = untrack_connection ip (uncount_connection d)"

definition ddos_success :: "'ip ddos \<Rightarrow> 'ip ddos" where
  "ddos_success d = d\<lparr>dd_breaker := breaker_success (dd_breaker d)\<rparr>"

definition ddos_failure :: "bool \<Rightarrow> int \<Rightarrow> 'ip ddos \<Rightarrow> 'ip ddos" where
  "ddos_failure lock_free now d = d\<lparr>dd_breaker := breaker_failure lock_free now (dd_breaker d)\<rparr>"

definition cleanup_old_entries :: "int \<Rightarrow> 'ip ddos \<Rightarrow> 'ip ddos" where
  "cleanup_old_entries now d =
     (let cutoff = now - dc_rate_window (dd_config d) * 2
      in d\<lparr>dd_rate_limits := filter (\<lambda>(_, k). cutoff < bk_window_start k) (dd_rate_limits d),
           dd_connections :=
             filter (\<lambda>(_, t). duration_since now (tr_last_activity t) <
                               dc_connection_timeout (dd_config d)) (dd_connections d)\<rparr>)"

record ddos_stats =
  ds_tracked_ips :: nat
  ds_active_connections :: nat
  ds_global_connections :: u64
  ds_breaker_state :: u64
  ds_breaker_failures :: u64

definition ddos_get_stats :: "'ip ddos \<Rightarrow> ddos_stats" where
  "ddos_get_stats d =
     \<lparr>ds_tracked_ips = length (dd_rate_limits d), ds_active_connections = length (dd_connections d),
      ds_global_connections = dd_global d, ds_breaker_state = cb_state (dd_breaker d),
      ds_breaker_failures = cb_failures (dd_breaker d)\<rparr>"

section \<open>Runs\<close>

datatype 'ip ddos_op =
    Request bool 'ip
  | Success
  | Failure bool
  | Register 'ip
  | Unregister 'ip
  | Cleanup

fun ddos_step :: "int \<Rightarrow> int \<Rightarrow> 'ip ddos_op \<Rightarrow> 'ip ddos \<Rightarrow> bool \<times> 'ip ddos" where
  "ddos_step second now (Request lock_free ip) d = is_request_allowed second lock_free now ip d"
| "ddos_step second now Success d = (True, ddos_success d)"
| "ddos_step second now (Failure lock_free) d = (True, ddos_failure lock_free now d)"
| "ddos_step second now (Register ip) d =
     (case register_connection now ip d of (Inl _, d') \<Rightarrow> (False, d') | (Inr _, d') \<Rightarrow> (True, d'))"
| "ddos_step second now (Unregister ip) d = (True, unregister_connection ip d)"
| "ddos_step second now Cleanup d = (True, cleanup_old_entries now d)"

fun ddos_run ::
  "int \<Rightarrow> (int \<times> 'ip ddos_op) list \<Rightarrow> 'ip ddos \<Rightarrow> bool list \<times> 'ip ddos"
where
  "ddos_run second [] d = ([], d)"
| "ddos_run second ((now, p) # ps) d =
     (let (r, d1) = ddos_step second now p d; (rs, d2) = ddos_run second ps d1 in (r # rs, d2))"

fun request_of :: "'ip \<Rightarrow> 'ip ddos_op \<Rightarrow> bool" where
  "request_of ip (Request _ ip') = (ip' = ip)"
| "request_of ip _ = False"

text \<open>The requests of an address that were let through at an instant in a given range.\<close>

definition allowed_in ::
  "'ip \<Rightarrow> int \<Rightarrow> int \<Rightarrow> (int \<times> 'ip ddos_op) list \<Rightarrow> bool list \<Rightarrow> nat"
where
  "allowed_in ip a e ops rs =
     length (filter (\<lambda>((t, p), r). r \<and> request_of ip p \<and> a \<le> t \<and> t < e) (zip ops rs))"

section \<open>How many requests a window lets through\<close>

text \<open>
  What an address may still send until \<open>e\<close>, seen at \<open>t\<close>: the rest of the current window and all
  windows that can still begin.
\<close>

definition allowance :: "nat \<Rightarrow> int \<Rightarrow> int \<Rightarrow> int \<Rightarrow> bucket option \<Rightarrow> int" where
  "allowance limit w e t k =
     (case k of
        None \<Rightarrow> int limit * (1 + (e - t) div w)
      | Some b \<Rightarrow>
          (if w \<le> t - bk_window_start b then int limit * (1 + (e - t) div w)
           else int limit - min (int limit) (uint (bk_count b)) +
                int limit * ((e - bk_window_start b) div w)))"

definition bucket_fits :: "int \<Rightarrow> nat \<Rightarrow> bucket option \<Rightarrow> bool" where
  "bucket_fits t n k =
     (case k of None \<Rightarrow> True
      | Some b \<Rightarrow> bk_window_start b \<le> t \<and> 1 \<le> unat (bk_count b) \<and> unat (bk_count b) \<le> n)"

lemma windows_mono:
  assumes "0 < (w::int)" and "w \<le> t - s"
  shows "1 + (e - t) div w \<le> (e - s) div w"
proof -
  have "1 + (e - t) div w = (e - t + w) div w" using assms(1) by (subst div_add_self2) auto
  also have "\<dots> \<le> (e - s) div w" using assms by (intro zdiv_mono1) auto
  finally show ?thesis .
qed

lemma allowance_later:
  assumes "0 < w" and "t \<le> t'"
  shows "allowance limit w e t' k \<le> allowance limit w e t k"
proof -
  have later: "int limit * (1 + (e - t') div w) \<le> int limit * (1 + (e - t) div w)"
    using assms by (intro mult_left_mono add_left_mono zdiv_mono1) auto
  show ?thesis
  proof (cases k)
    case None
    then show ?thesis using later by (simp add: allowance_def)
  next
    case (Some b)
    show ?thesis
    proof (cases "w \<le> t' - bk_window_start b")
      case True
      have "int limit * (1 + (e - t') div w) \<le> int limit * ((e - bk_window_start b) div w)"
        by (rule mult_left_mono [OF windows_mono [OF assms(1) True]]) simp
      also have "\<dots> \<le> int limit - min (int limit) (uint (bk_count b)) +
          int limit * ((e - bk_window_start b) div w)"
        by simp
      finally show ?thesis using later Some True by (simp add: allowance_def)
    next
      case False
      then show ?thesis using Some assms(2) by (simp add: allowance_def)
    qed
  qed
qed

lemma allowance_nonneg:
  assumes "0 < w" and "t \<le> e" and "bucket_fits t n k"
  shows "0 \<le> allowance limit w e t k"
proof -
  have "0 \<le> (e - t) div w" using assms(1,2) by (simp add: pos_imp_zdiv_nonneg_iff)
  moreover have "0 \<le> (e - bk_window_start b) div w" if "k = Some b" for b
    using assms that by (simp add: pos_imp_zdiv_nonneg_iff bucket_fits_def)
  ultimately show ?thesis
    by (auto simp: allowance_def min_def split: option.split)
qed

lemma allowance_request:
  assumes "0 < w" and "bucket_fits t n k" and "Suc n < 2 ^ 64"
    and "bucket_allowed t limit w (case k of Some b \<Rightarrow> b | None \<Rightarrow> bucket_new t) = (r, b')"
  shows "(if r then 1 else 0) + allowance (unat limit) w e t (Some b') \<le> allowance (unat limit) w e t k"
    and "bucket_fits t (Suc n) (Some b')"
proof -
  define b where "b = (case k of Some b \<Rightarrow> b | None \<Rightarrow> bucket_new t)"
  define b1 where "b1 = (if w \<le> duration_since t (bk_window_start b)
                then b\<lparr>bk_window_start := t, bk_count := 0\<rparr> else b)"
  have r: "r \<longleftrightarrow> bk_count b1 < ucast limit" and b': "b' = b1\<lparr>bk_count := bk_count b1 + 1\<rparr>"
    using assms(4) by (simp_all add: bucket_allowed_def Let_def b_def [symmetric] b1_def [symmetric])
  have cnt: "unat (bk_count b1) \<le> n"
    using assms(2) by (cases k) (auto simp: b1_def b_def bucket_new_def bucket_fits_def)
  have ws: "bk_window_start b1 \<le> t" "t - bk_window_start b1 < w"
    using assms(1,2)
    by (auto simp: b1_def b_def bucket_new_def bucket_fits_def duration_since_def split: option.splits)
  have next_count: "unat (bk_count b1 + 1) = Suc (unat (bk_count b1))"
    using cnt assms(3) by (intro u64_succ_small) linarith
  show "bucket_fits t (Suc n) (Some b')"
    using cnt ws(1) next_count by (simp add: bucket_fits_def b')
  have "unat (ucast limit :: u64) = unat limit"
    using unsigned_less [of limit, where 'a = nat] by (simp add: unsigned_ucast_eq take_bit_nat_eq_self)
  then have r': "r \<longleftrightarrow> unat (bk_count b1) < unat limit"
    by (simp add: r word_less_nat_alt)
  have "allowance (unat limit) w e t k =
      int (unat limit) - min (int (unat limit)) (int (unat (bk_count b1))) +
      int (unat limit) * ((e - bk_window_start b1) div w)"
  proof (cases k)
    case None
    then have "bk_count b1 = 0 \<and> bk_window_start b1 = t" by (simp add: b1_def b_def bucket_new_def)
    then show ?thesis by (simp add: allowance_def None algebra_simps)
  next
    case (Some c)
    then have c: "b = c" "duration_since t (bk_window_start c) = t - bk_window_start c"
      using assms(2) by (simp_all add: b_def duration_since_def bucket_fits_def)
    show ?thesis
    proof (cases "w \<le> t - bk_window_start c")
      case True
      then have "bk_count b1 = 0 \<and> bk_window_start b1 = t" by (simp add: b1_def c)
      then show ?thesis using True by (simp add: allowance_def Some algebra_simps)
    next
      case False
      then have "b1 = c" by (simp add: b1_def c)
      then show ?thesis using False by (simp add: allowance_def Some)
    qed
  qed
  moreover have "allowance (unat limit) w e t (Some b') =
      int (unat limit) - min (int (unat limit)) (int (Suc (unat (bk_count b1)))) +
      int (unat limit) * ((e - bk_window_start b1) div w)"
    using ws(2) next_count [THEN arg_cong, of int] by (simp add: allowance_def b')
  moreover have "r = (int (unat (bk_count b1)) < int (unat limit))" by (simp only: r' of_nat_less_iff)
  then have "r \<longleftrightarrow> uint (bk_count b1) < uint limit" by simp
  then have "(if r then 1 else 0) - min (int (unat limit)) (int (Suc (unat (bk_count b1)))) \<le>
      - min (int (unat limit)) (int (unat (bk_count b1)))"
    by (simp add: min_def)
  ultimately show "(if r then 1 else 0) + allowance (unat limit) w e t (Some b') \<le> allowance (unat limit) w e t k"
    by linarith
qed

lemma map_of_filter_values:
  assumes "dict_ok d"
  shows "map_of (filter (\<lambda>(_, v). P v) d) k =
    (case map_of d k of Some v \<Rightarrow> if P v then Some v else None | None \<Rightarrow> None)"
  using assms
proof (induction d)
  case Nil
  then show ?case by simp
next
  case (Cons x d)
  obtain a v where x: "x = (a, v)" by (cases x)
  have "dict_ok d" "a \<notin> fst ` set d" using Cons.prems by (simp_all add: dict_ok_def x)
  moreover from this(2) have "map_of d a = None" by (simp add: map_of_eq_None_iff)
  ultimately show ?case using Cons.IH by (auto simp: x)
qed

text \<open>The invariant of the rate limiter for one address, and what every step does to it.\<close>

definition rate_inv :: "ddos_config \<Rightarrow> 'ip \<Rightarrow> int \<Rightarrow> nat \<Rightarrow> 'ip ddos \<Rightarrow> bool" where
  "rate_inv cfg ip t n d \<longleftrightarrow>
     dd_config d = cfg \<and> dict_ok (dd_rate_limits d) \<and> bucket_fits t n (map_of (dd_rate_limits d) ip)"

abbreviation ip_allowance :: "ddos_config \<Rightarrow> int \<Rightarrow> int \<Rightarrow> 'ip \<Rightarrow> 'ip ddos \<Rightarrow> int" where
  "ip_allowance cfg e t ip d \<equiv>
     allowance (unat (dc_rate_limit_per_ip cfg)) (dc_rate_window cfg) e t (map_of (dd_rate_limits d) ip)"

lemma bucket_fits_later: "bucket_fits t n k \<Longrightarrow> t \<le> t' \<Longrightarrow> n \<le> n' \<Longrightarrow> bucket_fits t' n' k"
  by (auto simp: bucket_fits_def split: option.splits)

lemma ddos_keeps_rates [simp]:
  "dd_rate_limits (ddos_success d) = dd_rate_limits d" "dd_config (ddos_success d) = dd_config d"
  "dd_rate_limits (ddos_failure f t d) = dd_rate_limits d" "dd_config (ddos_failure f t d) = dd_config d"
  "dd_rate_limits (count_connection d) = dd_rate_limits d" "dd_config (count_connection d) = dd_config d"
  "dd_rate_limits (uncount_connection d) = dd_rate_limits d" "dd_config (uncount_connection d) = dd_config d"
  "dd_rate_limits (track_connection t ip d) = dd_rate_limits d"
  "dd_config (track_connection t ip d) = dd_config d"
  "dd_rate_limits (untrack_connection ip d) = dd_rate_limits d"
  "dd_config (untrack_connection ip d) = dd_config d"
  by (simp_all add: ddos_success_def ddos_failure_def count_connection_def uncount_connection_def
      track_connection_def untrack_connection_def Let_def case_prod_beta split: option.split)

lemma request_cases:
  obtains (blocked) b where "is_request_allowed second f t ip d = (False, d\<lparr>dd_breaker := b\<rparr>)"
  | (bucket) b r k where
      "bucket_allowed t (dc_rate_limit_per_ip (dd_config d)) (dc_rate_window (dd_config d))
         (case map_of (dd_rate_limits d) ip of Some k \<Rightarrow> k | None \<Rightarrow> bucket_new t) = (r, k)"
      "is_request_allowed second f t ip d =
         (r, d\<lparr>dd_breaker := b, dd_rate_limits := AList.update ip k (dd_rate_limits d)\<rparr>)"
proof (cases "breaker_allowed second f t (dd_breaker d)")
  case (Pair ok b)
  obtain r k where k: "bucket_allowed t (dc_rate_limit_per_ip (dd_config d)) (dc_rate_window (dd_config d))
         (case map_of (dd_rate_limits d) ip of Some k \<Rightarrow> k | None \<Rightarrow> bucket_new t) = (r, k)"
    by (cases "bucket_allowed t (dc_rate_limit_per_ip (dd_config d)) (dc_rate_window (dd_config d))
         (case map_of (dd_rate_limits d) ip of Some k \<Rightarrow> k | None \<Rightarrow> bucket_new t)")
  show thesis
  proof (cases ok)
    case True
    then show thesis using Pair k by (intro bucket [OF k]) (simp add: is_request_allowed_def)
  next
    case False
    then show thesis using Pair by (intro blocked) (simp add: is_request_allowed_def)
  qed
qed

lemma ddos_step_other:
  assumes "\<And>f ip. p \<noteq> Request f ip" and "ddos_step second t p d = (r, d')"
  shows "dd_config d' = dd_config d \<and>
    (dd_rate_limits d' = dd_rate_limits d \<or>
     dd_rate_limits d' =
       filter (\<lambda>(_, k). t - dc_rate_window (dd_config d) * 2 < bk_window_start k) (dd_rate_limits d))"
  using assms
  by (cases p)
    (auto simp: register_connection_def unregister_connection_def cleanup_old_entries_def Let_def
      split: if_splits)

lemma step_rates:
  assumes "rate_inv cfg ip t n d" and "0 < dc_rate_window cfg" and "Suc n < 2 ^ 64" and "t \<le> t'"
    and "ddos_step second t' p d = (r, d')"
  shows "rate_inv cfg ip t' (Suc n) d'"
    and "(if r \<and> request_of ip p then 1 else 0) + ip_allowance cfg e t' ip d' \<le> ip_allowance cfg e t ip d"
proof -
  let ?w = "dc_rate_window cfg" and ?k = "map_of (dd_rate_limits d) ip"
  have inv: "dd_config d = cfg" "dict_ok (dd_rate_limits d)" "bucket_fits t n ?k"
    using assms(1) by (simp_all add: rate_inv_def)
  note later = allowance_later [OF assms(2,4)]
  have fits: "bucket_fits t' n ?k" "bucket_fits t' (Suc n) ?k"
    using bucket_fits_later [OF inv(3) assms(4)] by simp_all
  have "rate_inv cfg ip t' (Suc n) d' \<and>
    (if r \<and> request_of ip p then 1 else 0) + ip_allowance cfg e t' ip d' \<le> ip_allowance cfg e t' ip d"
  proof (cases "\<exists>f a. p = Request f a")
    case True
    then obtain f a where p: "p = Request f a" by blast
    show ?thesis
    proof (cases rule: request_cases [of second f t' a d])
      case (blocked b)
      then show ?thesis using assms(5) inv fits(2) by (auto simp: p rate_inv_def)
    next
      case (bucket b r1 k)
      have d': "r = r1" "d' = d\<lparr>dd_breaker := b, dd_rate_limits := AList.update a k (dd_rate_limits d)\<rparr>"
        using assms(5) bucket(2) by (simp_all add: p)
      show ?thesis
      proof (cases "a = ip")
        case True
        note one = allowance_request [OF assms(2) fits(1) assms(3) bucket(1) [unfolded True inv(1)]]
        from one(1) [of e] one(2) show ?thesis using inv(1,2) True by (simp add: p d' rate_inv_def dict_simps)
      next
        case False
        then show ?thesis using inv(1,2) fits(2) by (simp add: p d' rate_inv_def dict_simps)
      qed
    qed
  next
    case False
    then have other: "\<not> request_of ip p" by (cases p) auto
    let ?f = "filter (\<lambda>(_, k). t' - ?w * 2 < bk_window_start k) (dd_rate_limits d)"
    from False ddos_step_other [OF _ assms(5)] inv(1)
    have d': "dd_config d' = cfg" "dd_rate_limits d' = dd_rate_limits d \<or> dd_rate_limits d' = ?f" by auto
    from d'(2) show ?thesis
    proof
      assume "dd_rate_limits d' = dd_rate_limits d"
      then show ?thesis using inv fits(2) d'(1) other by (simp add: rate_inv_def)
    next
      assume f: "dd_rate_limits d' = ?f"
      have k: "map_of ?f ip = (case ?k of Some v \<Rightarrow> if t' - ?w * 2 < bk_window_start v then Some v else None
          | None \<Rightarrow> None)"
        by (rule map_of_filter_values [OF inv(2)])
      have "bucket_fits t' (Suc n) (map_of ?f ip)"
        using fits(2) unfolding k by (auto simp: bucket_fits_def split: option.splits)
      moreover have "ip_allowance cfg e t' ip d' \<le> ip_allowance cfg e t' ip d"
        unfolding f k using assms(2) by (auto simp: allowance_def split: option.split)
      ultimately show ?thesis using inv(1,2) d'(1) other f by (simp add: rate_inv_def)
    qed
  qed
  then show "rate_inv cfg ip t' (Suc n) d'"
    "(if r \<and> request_of ip p then 1 else 0) + ip_allowance cfg e t' ip d' \<le> ip_allowance cfg e t ip d"
    using later [where limit = "unat (dc_rate_limit_per_ip cfg)" and e = e and k = ?k] by linarith+
qed


lemma allowed_in_Cons:
  "allowed_in ip a e ((t, p) # ops) (r # rs) =
     (if r \<and> request_of ip p \<and> a \<le> t \<and> t < e then 1 else 0) + allowed_in ip a e ops rs"
  by (simp add: allowed_in_def)

lemma run_within_allowance:
  assumes "rate_inv cfg ip t n d" and "0 < dc_rate_window cfg" and "n + length ops < 2 ^ 64"
    and "sorted (t # map fst ops)" and "ddos_run second ops d = (rs, d')" and "t < e"
  shows "int (allowed_in ip a e ops rs) \<le> ip_allowance cfg (e - 1) t ip d"
  using assms
proof (induction ops arbitrary: t n d rs)
  case Nil
  then show ?case
    using allowance_nonneg [of "dc_rate_window cfg" t "e - 1" n] by (simp add: allowed_in_def rate_inv_def)
next
  case (Cons x ops)
  obtain t' p where x: "x = (t', p)" by (cases x)
  obtain r d1 where s: "ddos_step second t' p d = (r, d1)" by (cases "ddos_step second t' p d")
  obtain rs1 where t: "ddos_run second ops d1 = (rs1, d')" "rs = r # rs1"
    using Cons.prems(5) by (auto simp: x s split: prod.splits)
  have le: "t \<le> t'" "sorted (t' # map fst ops)" "Suc n < 2 ^ 64"
    using Cons.prems(3,4) by (simp_all add: x)
  note one = step_rates [OF Cons.prems(1,2) le(3,1) s]
  show ?case
  proof (cases "t' < e")
    case True
    have "int (allowed_in ip a e ops rs1) \<le> ip_allowance cfg (e - 1) t' ip d1"
      by (rule Cons.IH [OF one(1) Cons.prems(2) _ le(2) t(1) True]) (use Cons.prems(3) in simp)
    then show ?thesis using one(2) [of "e - 1"] by (auto simp: x t(2) allowed_in_Cons split: if_splits)
  next
    case False
    then have "allowed_in ip a e (x # ops) rs = 0"
      using le(2) by (force simp: allowed_in_def x filter_empty_conv dest: set_zip_leftD)
    then show ?thesis
      using allowance_nonneg [of "dc_rate_window cfg" t "e - 1" n] Cons.prems by (simp add: rate_inv_def)
  qed
qed

lemma div_below: "(x::int) < k * w \<Longrightarrow> 0 < w \<Longrightarrow> x div w < k"
proof -
  assume "x < k * w" "0 < w"
  have "w * (x div w) \<le> x" 
    using pos_mod_sign [OF \<open>0 < w\<close>, of x] mult_div_mod_eq [of w x] by linarith
  with \<open>x < k * w\<close> have "w * (x div w) < w * k" by (simp add: mult.commute)
  with \<open>0 < w\<close> show ?thesis by simp
qed

lemma allowance_interval:
  assumes "0 < w" and "a \<le> t" and "t < a + int j * w" and "bucket_fits t n k" and "0 < L"
  shows "allowance L w (a + int j * w - 1) t k \<le> (int j + 1) * int L - 1"
proof -
  let ?e = "a + int j * w - 1"
  have fresh: "int L * (1 + (?e - t) div w) \<le> int L * int j"
    using div_below [of "?e - t" "int j" w] assms(1,2) by (intro mult_left_mono) auto
  have tail: "int L * ((?e - s) div w) \<le> int L * int j" if "t - s < w" for s
  proof -
    have "?e - s < (int j + 1) * w" using that assms(2) by (simp add: algebra_simps)
    then show ?thesis using div_below [of "?e - s" "int j + 1" w] assms(1) by (intro mult_left_mono) auto
  qed
  have sum: "(int j + 1) * int L = int L * int j + int L" by (simp add: algebra_simps)
  show ?thesis
  proof (cases k)
    case None
    then show ?thesis using fresh assms(5) unfolding allowance_def None option.case sum by linarith
  next
    case (Some b)
    have "1 \<le> unat (bk_count b)" using assms(4) Some by (simp add: bucket_fits_def)
    then have "int 1 \<le> int (unat (bk_count b))" by (simp only: of_nat_le_iff)
    then have "1 \<le> min (int L) (uint (bk_count b))" using assms(5) by simp
    then show ?thesis
    proof (cases "w \<le> t - bk_window_start b")
      case True
      then show ?thesis
        using fresh assms(5) unfolding allowance_def Some option.case sum if_P [OF True] by linarith
    next
      case False
      then have "int L * ((?e - bk_window_start b) div w) \<le> int L * int j" by (intro tail) simp
      with \<open>1 \<le> min (int L) (uint (bk_count b))\<close> show ?thesis
        unfolding allowance_def Some option.case sum if_not_P [OF False] by linarith
    qed
  qed
qed

lemma run_within_interval:
  assumes "rate_inv cfg ip t n d" and "0 < dc_rate_window cfg" and "n + length ops < 2 ^ 64"
    and "sorted (t # map fst ops)" and "ddos_run second ops d = (rs, d')"
    and "0 < dc_rate_limit_per_ip cfg"
  shows "int (allowed_in ip a (a + int j * dc_rate_window cfg) ops rs) \<le>
    (int j + 1) * int (unat (dc_rate_limit_per_ip cfg)) - 1"
  using assms(1,3,4,5)
proof (induction ops arbitrary: t n d rs)
  case Nil
  have "0 < unat (dc_rate_limit_per_ip cfg)" using assms(6) by (simp add: unat_gt_0 word_gt_0)
  then have "1 \<le> int (unat (dc_rate_limit_per_ip cfg))" by linarith
  then have "1 * 1 \<le> (int j + 1) * int (unat (dc_rate_limit_per_ip cfg))"
    by (intro mult_mono) linarith+
  moreover have "allowed_in ip a (a + int j * dc_rate_window cfg) [] rs = 0" by (simp add: allowed_in_def)
  ultimately show ?case by linarith
next
  case (Cons x ops)
  let ?e = "a + int j * dc_rate_window cfg" and ?L = "unat (dc_rate_limit_per_ip cfg)"
  obtain t' p where x: "x = (t', p)" by (cases x)
  obtain r d1 where s: "ddos_step second t' p d = (r, d1)" by (cases "ddos_step second t' p d")
  obtain rs1 where t: "ddos_run second ops d1 = (rs1, d')" "rs = r # rs1"
    using Cons.prems(4) by (auto simp: x s split: prod.splits)
  have le: "t \<le> t'" "sorted (t' # map fst ops)" "Suc n < 2 ^ 64"
    using Cons.prems(2,3) by (simp_all add: x)
  show ?case
  proof (cases "a \<le> t' \<and> t' < ?e")
    case True
    have inv: "rate_inv cfg ip t' n d"
      using Cons.prems(1) bucket_fits_later [OF _ le(1) order_refl] unfolding rate_inv_def by blast
    have "int (allowed_in ip a ?e (x # ops) rs) \<le> ip_allowance cfg (?e - 1) t' ip d"
      using le(2) True
      by (intro run_within_allowance [OF inv assms(2) Cons.prems(2) _ Cons.prems(4)]) (simp_all add: x)
    also have "\<dots> \<le> (int j + 1) * int ?L - 1"
      using inv assms(2,6) True
      by (intro allowance_interval [of _ _ _ _ n]) (simp_all add: rate_inv_def unat_gt_0 word_gt_0)
    finally show ?thesis .
  next
    case False
    have "int (allowed_in ip a ?e ops rs1) \<le> (int j + 1) * int ?L - 1"
      by (rule Cons.IH [OF step_rates(1) [OF Cons.prems(1) assms(2) le(3,1) s] _ le(2) t(1)])
        (use Cons.prems(2) in simp)
    then show ?thesis using False by (auto simp: x t(2) allowed_in_Cons)
  qed
qed

text \<open>
  C27. However the requests of all addresses, connections, failures and cleanups come, within \<open>j\<close> windows
  that begin at any instant at most \<open>j + 1\<close> times the limit less one requests of an address are let
  through; the example attains the bound.
\<close>

theorem rate_bound:
  assumes "0 < dc_rate_window cfg" and "length ops < 2 ^ 64" and "sorted (map fst ops)"
    and "ddos_run second ops (ddos_new cfg) = (rs, d)"
  shows "allowed_in ip a (a + int j * dc_rate_window cfg) ops rs \<le>
    (j + 1) * unat (dc_rate_limit_per_ip cfg) - 1"
proof -
  let ?L = "unat (dc_rate_limit_per_ip cfg)" and ?e = "a + int j * dc_rate_window cfg"
  define t where "t = (case ops of [] \<Rightarrow> ?e - 1 | x # _ \<Rightarrow> min (fst x) (?e - 1))"
  have inv: "rate_inv cfg ip t 0 (ddos_new cfg)" by (simp add: rate_inv_def ddos_new_def bucket_fits_def)
  have len: "0 + length ops < 2 ^ 64" using assms(2) by simp
  have sort: "sorted (t # map fst ops)"
    using assms(3) by (cases ops) (auto simp: t_def intro: min.coboundedI1)
  show ?thesis
  proof (cases "dc_rate_limit_per_ip cfg = 0")
    case False
    have "int (allowed_in ip a ?e ops rs) \<le> (int j + 1) * int ?L - 1"
      by (rule run_within_interval [OF inv assms(1) len sort assms(4)]) (use False in \<open>simp add: word_gt_0\<close>)
    moreover have "(int j + 1) * int ?L = int ((j + 1) * ?L)"
      by (simp only: of_nat_mult of_nat_add of_nat_1)
    ultimately show ?thesis by linarith
  next
    case True
    have "t < ?e" by (auto simp: t_def split: list.split)
    then have "int (allowed_in ip a ?e ops rs) \<le> ip_allowance cfg (?e - 1) t ip (ddos_new cfg)"
      by (rule run_within_allowance [OF inv assms(1) len sort assms(4)])
    then show ?thesis using True by (simp add: allowance_def ddos_new_def)
  qed
qed


lemma rate_bound_witness:
  fixes cfg :: ddos_config and ops :: "(int \<times> nat ddos_op) list"
  defines "cfg \<equiv> (ddos_config_default 1)\<lparr>dc_rate_limit_per_ip := 2, dc_rate_window := 10\<rparr>"
    and "ops \<equiv> map (\<lambda>t. (t, Request True 7)) [0, 9, 10, 11, 12]"
  shows "allowed_in 7 9 (9 + int 1 * 10) ops (fst (ddos_run 1 ops (ddos_new cfg))) = 3 \<and>
    allowed_in 7 9 (9 + int 1 * 10) ops (fst (ddos_run 1 ops (ddos_new cfg))) \<le> (1 + 1) * 2 - 1"
proof
  show "allowed_in 7 9 (9 + int 1 * 10) ops (fst (ddos_run 1 ops (ddos_new cfg))) = 3"
    unfolding ops_def cfg_def by code_simp
  have "0 < dc_rate_window cfg" "length ops < 2 ^ 64" "sorted (map fst ops)"
    by (simp_all add: cfg_def ops_def)
  from rate_bound [OF this surjective_pairing, where second = 1 and ip = 7 and a = 9 and j = 1]
  show "allowed_in 7 9 (9 + int 1 * 10) ops (fst (ddos_run 1 ops (ddos_new cfg))) \<le> (1 + 1) * 2 - 1"
    by (simp add: cfg_def)
qed

section \<open>Connections under concurrency\<close>

text \<open>
  A call of \<open>register_connection\<close> reads the global counter, then the tracker of the address,
  increments the counter and finally adds to the tracker; a call of \<open>unregister_connection\<close>
  decrements the counter and then the tracker. Any number of calls interleave at these points.
\<close>

datatype 'ip phase =
    Arrived 'ip
  | BelowGlobal 'ip
  | Admitted 'ip
  | Counted 'ip
  | Live 'ip
  | Uncounted 'ip

fun phase_ip :: "'ip phase \<Rightarrow> 'ip" where
  "phase_ip (Arrived ip) = ip"
| "phase_ip (BelowGlobal ip) = ip"
| "phase_ip (Admitted ip) = ip"
| "phase_ip (Counted ip) = ip"
| "phase_ip (Live ip) = ip"
| "phase_ip (Uncounted ip) = ip"

fun in_registration :: "'ip phase \<Rightarrow> bool" where
  "in_registration (Live _) = False"
| "in_registration (Uncounted _) = False"
| "in_registration _ = True"

fun counted :: "'ip phase \<Rightarrow> bool" where
  "counted (Counted _) = True"
| "counted (Live _) = True"
| "counted _ = False"

fun tracked :: "'ip phase \<Rightarrow> bool" where
  "tracked (Live _) = True"
| "tracked (Uncounted _) = True"
| "tracked _ = False"

text \<open>
  At most \<open>m\<close> registrations run at a time. The cleanup is part of the steps; with \<open>keep\<close> it finds
  no tracker that has been idle for the connection timeout.
\<close>

inductive conn_step ::
  "nat \<Rightarrow> bool \<Rightarrow> 'ip ddos \<times> 'ip phase multiset \<Rightarrow> 'ip ddos \<times> 'ip phase multiset \<Rightarrow> bool"
  for m :: nat and keep :: bool
where
  cs_arrive: "size (filter_mset in_registration T) < m \<Longrightarrow>
    conn_step m keep (d, T) (d, add_mset (Arrived ip) T)"
| cs_global: "below_global_limit d \<Longrightarrow>
    conn_step m keep (d, add_mset (Arrived ip) T) (d, add_mset (BelowGlobal ip) T)"
| cs_over_global: "\<not> below_global_limit d \<Longrightarrow> conn_step m keep (d, add_mset (Arrived ip) T) (d, T)"
| cs_ip: "below_ip_limit ip d \<Longrightarrow>
    conn_step m keep (d, add_mset (BelowGlobal ip) T) (d, add_mset (Admitted ip) T)"
| cs_over_ip: "\<not> below_ip_limit ip d \<Longrightarrow> conn_step m keep (d, add_mset (BelowGlobal ip) T) (d, T)"
| cs_count: "conn_step m keep (d, add_mset (Admitted ip) T) (count_connection d, add_mset (Counted ip) T)"
| cs_track: "conn_step m keep (d, add_mset (Counted ip) T) (track_connection now ip d, add_mset (Live ip) T)"
| cs_uncount: "conn_step m keep (d, add_mset (Live ip) T) (uncount_connection d, add_mset (Uncounted ip) T)"
| cs_untrack: "conn_step m keep (d, add_mset (Uncounted ip) T) (untrack_connection ip d, T)"
| cs_cleanup: "(keep \<longrightarrow> (\<forall>(ip, t) \<in> set (dd_connections d).
      duration_since now (tr_last_activity t) < dc_connection_timeout (dd_config d))) \<Longrightarrow>
    conn_step m keep (d, T) (cleanup_old_entries now d, T)"

inductive conn_reach ::
  "nat \<Rightarrow> bool \<Rightarrow> ddos_config \<Rightarrow> 'ip ddos \<times> 'ip phase multiset \<Rightarrow> bool"
  for m :: nat and keep :: bool and cfg :: ddos_config
where
  cr_start: "conn_reach m keep cfg (ddos_new cfg, {#})"
| cr_step: "conn_reach m keep cfg s \<Longrightarrow> conn_step m keep s s' \<Longrightarrow> conn_reach m keep cfg s'"

lemma conn_defs [simp]:
  "dd_global (count_connection d) = dd_global d + 1" "dd_global (uncount_connection d) = dd_global d - 1"
  "dd_global (track_connection now ip d) = dd_global d" "dd_global (untrack_connection ip d) = dd_global d"
  "dd_global (cleanup_old_entries now d) = dd_global d" "dd_config (cleanup_old_entries now d) = dd_config d"
  "dd_connections (count_connection d) = dd_connections d"
  "dd_connections (uncount_connection d) = dd_connections d"
  by (simp_all add: count_connection_def uncount_connection_def track_connection_def
      untrack_connection_def cleanup_old_entries_def Let_def case_prod_beta split: option.split)

text \<open>The global counter is exact, and exceeds its limit by at most the registrations in parallel.\<close>

fun passed_global :: "'ip phase \<Rightarrow> bool" where
  "passed_global (Arrived _) = False"
| "passed_global (Uncounted _) = False"
| "passed_global _ = True"

fun passed_ip :: "'ip \<Rightarrow> 'ip phase \<Rightarrow> bool" where
  "passed_ip ip (Arrived _) = False"
| "passed_ip ip (BelowGlobal _) = False"
| "passed_ip ip p = (phase_ip p = ip)"

abbreviation how_many :: "('a \<Rightarrow> bool) \<Rightarrow> 'a multiset \<Rightarrow> nat" where
  "how_many P T \<equiv> size (filter_mset P T)"

lemma size_if_add [simp]: "size (if b then add_mset x M else M) = (if b then Suc (size M) else size M)"
  by simp

lemma how_many_mono: "(\<And>x. P x \<Longrightarrow> Q x) \<Longrightarrow> how_many P T \<le> how_many Q T"
  by (induction T) auto

lemma passed_global_le: "how_many passed_global T \<le> how_many counted T + how_many in_registration T"
proof (induction T)
  case (add p T)
  then show ?case by (cases p) auto
qed simp

lemma counted_le: "how_many counted T \<le> how_many passed_global T"
proof (induction T)
  case (add p T)
  then show ?case by (cases p) auto
qed simp

definition global_inv :: "nat \<Rightarrow> ddos_config \<Rightarrow> 'ip ddos \<times> 'ip phase multiset \<Rightarrow> bool" where
  "global_inv m cfg s \<longleftrightarrow>
     dd_config (fst s) = cfg \<and> dd_global (fst s) = of_nat (how_many counted (snd s)) \<and>
     how_many passed_global (snd s) \<le> unat (dc_max_global_connections cfg) + m - 1 \<and>
     how_many in_registration (snd s) \<le> m"

lemma global_inv_step:
  assumes "conn_step m keep s s'" and "global_inv m cfg s"
    and "unat (dc_max_global_connections cfg) + m < 2 ^ 64"
  shows "global_inv m cfg s'"
  using assms(1,2)
proof cases
  case (cs_global d ip T)
  let ?n = "how_many counted T"
  have inv: "dd_config d = cfg" "dd_global d = of_nat ?n"
    "how_many passed_global T \<le> unat (dc_max_global_connections cfg) + m - 1"
    "Suc (how_many in_registration T) \<le> m"
    using assms(2) by (simp_all add: global_inv_def cs_global)
  have "?n < 2 ^ 64" using counted_le [of T] inv(3) assms(3) by linarith
  then have "unat (dd_global d) = ?n" by (simp add: inv(2) unat_of_nat_u64)
  moreover have "unat (dd_global d) < unat (dc_max_global_connections cfg)"
    using cs_global(3) by (simp add: below_global_limit_def inv(1) word_less_nat_alt)
  ultimately show ?thesis
    using inv passed_global_le [of T] by (simp add: global_inv_def cs_global)
qed (auto simp: global_inv_def)

lemma conn_reach_global:
  assumes "conn_reach m keep cfg s" and "unat (dc_max_global_connections cfg) + m < 2 ^ 64"
  shows "global_inv m cfg s"
  using assms(1)
proof induction
  case cr_start
  then show ?case by (simp add: global_inv_def ddos_new_def)
next
  case (cr_step s s')
  then show ?case using global_inv_step assms(2) by blast
qed

text \<open>The tracker of an address counts its connections, as long as the cleanup drops no live tracker.\<close>

definition tracked_at :: "'ip \<Rightarrow> 'ip phase \<Rightarrow> bool" where
  "tracked_at ip p \<longleftrightarrow> tracked p \<and> phase_ip p = ip"

lemma passed_ip_le: "how_many (passed_ip ip) T \<le> how_many (tracked_at ip) T + how_many in_registration T"
proof (induction T)
  case (add p T)
  then show ?case by (cases p) (auto simp: tracked_at_def)
qed simp

lemma tracked_at_le: "how_many (tracked_at ip) T \<le> how_many (passed_ip ip) T"
proof (induction T)
  case (add p T)
  then show ?case by (cases p) (auto simp: tracked_at_def)
qed simp

definition tracker_inv :: "nat \<Rightarrow> ddos_config \<Rightarrow> 'ip ddos \<times> 'ip phase multiset \<Rightarrow> bool" where
  "tracker_inv m cfg s \<longleftrightarrow>
     dd_config (fst s) = cfg \<and> dict_ok (dd_connections (fst s)) \<and>
     (\<forall>ip. map_option tr_count (map_of (dd_connections (fst s)) ip) =
        (let n = how_many (tracked_at ip) (snd s) in if n = 0 then None else Some (of_nat n))) \<and>
     (\<forall>ip. how_many (passed_ip ip) (snd s) \<le> max 1 (unat (dc_max_connections_per_ip cfg)) + m - 1) \<and>
     how_many in_registration (snd s) \<le> m"


lemma tracked_at_simps [simp]:
  "tracked_at ip (Arrived a) = False" "tracked_at ip (BelowGlobal a) = False"
  "tracked_at ip (Admitted a) = False" "tracked_at ip (Counted a) = False"
  "tracked_at ip (Live a) = (a = ip)" "tracked_at ip (Uncounted a) = (a = ip)"
  by (simp_all add: tracked_at_def)

lemma track_connection_entry:
  "map_option tr_count (map_of (dd_connections (track_connection now a d)) ip) =
     (if ip = a then Some (case map_of (dd_connections d) a of Some t \<Rightarrow> tr_count t + 1 | None \<Rightarrow> 1)
      else map_option tr_count (map_of (dd_connections d) ip))"
  by (simp add: track_connection_def Let_def add_connection_def tracker_new_def dict_simps split: option.split)

lemma untrack_connection_entry:
  "map_option tr_count (map_of (dd_connections (untrack_connection a d)) ip) =
     (case map_of (dd_connections d) a of
        Some t \<Rightarrow>
          (if ip = a then (if tr_count t = 0 \<or> tr_count t = 1 then None else Some (tr_count t - 1))
           else map_option tr_count (map_of (dd_connections d) ip))
      | None \<Rightarrow> map_option tr_count (map_of (dd_connections d) ip))"
  by (auto simp: untrack_connection_def Let_def remove_connection_def dict_simps split: option.split)

lemma track_dict_ok:
  "dict_ok (dd_connections d) \<Longrightarrow> dict_ok (dd_connections (track_connection now a d))"
  "dict_ok (dd_connections d) \<Longrightarrow> dict_ok (dd_connections (untrack_connection a d))"
  by (auto simp: track_connection_def untrack_connection_def Let_def case_prod_beta split: option.split)

lemma tracker_inv_step:
  assumes "conn_step m True s s'" and "tracker_inv m cfg s"
    and "max 1 (unat (dc_max_connections_per_ip cfg)) + m < 2 ^ 64"
  shows "tracker_inv m cfg s'"
proof -
  have small: "how_many (tracked_at ip) (snd s) < 2 ^ 64" for ip
  proof -
    have "how_many (passed_ip ip) (snd s) \<le> max 1 (unat (dc_max_connections_per_ip cfg)) + m - 1"
      using assms(2) by (simp add: tracker_inv_def)
    then show ?thesis using tracked_at_le [of ip "snd s"] assms(3) by linarith
  qed
  have entry: "map_option tr_count (map_of (dd_connections (fst s)) ip) =
      (if how_many (tracked_at ip) (snd s) = 0 then None else Some (of_nat (how_many (tracked_at ip) (snd s))))"
    for ip
    using assms(2) by (simp add: tracker_inv_def Let_def)
  from assms(1) show ?thesis
  proof cases
    case (cs_ip ip d T)
    let ?n = "how_many (tracked_at ip) T"
    have inv: "dd_config d = cfg" "\<And>ip. how_many (passed_ip ip) T \<le> max 1 (unat (dc_max_connections_per_ip cfg)) + m - 1"
      "Suc (how_many in_registration T) \<le> m"
      using assms(2) by (simp_all add: tracker_inv_def cs_ip)
    have "?n = 0 \<or> ?n < unat (dc_max_connections_per_ip cfg)"
      using cs_ip(3) entry [of ip] small [of ip]
      by (auto simp: below_ip_limit_def cs_ip(1) inv(1) connection_count_def word_less_nat_alt
          unat_of_nat_u64 split: option.splits if_splits)
    then have "Suc (how_many (passed_ip ip) T) \<le> max 1 (unat (dc_max_connections_per_ip cfg)) + m - 1"
      using passed_ip_le [of ip T] inv(3) by linarith
    then show ?thesis using assms(2) inv(3) by (auto simp: tracker_inv_def cs_ip)
  next
    case (cs_track d ip T now)
    define k where "k = how_many (tracked_at ip) T"
    have "filter_mset (tracked_at ip) (snd s) = filter_mset (tracked_at ip) T" by (simp add: cs_track)
    then have "map_option tr_count (map_of (dd_connections d) ip) = (if k = 0 then None else Some (of_nat k))"
      using entry [of ip] unfolding k_def by (simp only: cs_track fst_conv)
    then have "map_option tr_count (map_of (dd_connections (track_connection now ip d)) ip) = Some (of_nat (Suc k))"
      by (cases "map_of (dd_connections d) ip") (auto simp: track_connection_entry split: if_splits)
    then have "map_option tr_count (map_of (dd_connections (track_connection now ip d)) a) =
        Some (of_nat (how_many (tracked_at a) (add_mset (Live ip) T)))" if "a = ip" for a
      using that by (simp add: k_def)
    moreover have "map_option tr_count (map_of (dd_connections (track_connection now ip d)) a) =
        map_option tr_count (map_of (dd_connections d) a)" if "a \<noteq> ip" for a
      using that by (simp add: track_connection_entry)
    ultimately have "map_option tr_count (map_of (dd_connections (track_connection now ip d)) a) =
        (let n = how_many (tracked_at a) (add_mset (Live ip) T) in if n = 0 then None else Some (of_nat n))"
      for a
      using entry [of a] by (cases "a = ip") (simp_all add: cs_track Let_def)
    moreover have "how_many (passed_ip a) (add_mset (Live ip) T) = how_many (passed_ip a) (snd s)" for a
      by (simp add: cs_track)
    ultimately show ?thesis
      using assms(2) by (simp only: tracker_inv_def cs_track fst_conv snd_conv) (simp add: track_dict_ok)
  next
    case (cs_untrack d ip T)
    let ?n = "how_many (tracked_at ip) T"
    have n: "map_option tr_count (map_of (dd_connections d) ip) = Some (of_nat (Suc ?n))" "Suc ?n < 2 ^ 64"
      using entry [of ip] small [of ip] by (simp_all add: cs_untrack)
    then obtain t where t: "map_of (dd_connections d) ip = Some t" "tr_count t = of_nat (Suc ?n)" by auto
    have "tr_count t \<noteq> 0" "(tr_count t = 1) = (?n = 0)"
      using n(2) by (simp_all add: t(2) u64_eq_unat unat_of_nat_u64 del: of_nat_Suc)
    moreover have "tr_count t - 1 = of_nat ?n" by (simp add: t(2))
    ultimately have "map_option tr_count (map_of (dd_connections (untrack_connection ip d)) a) =
        (if how_many (tracked_at a) T = 0 then None else Some (of_nat (how_many (tracked_at a) T)))" for a
      using entry [of a] by (auto simp: untrack_connection_entry t(1) cs_untrack)
    moreover have "how_many (passed_ip a) T \<le> max 1 (unat (dc_max_connections_per_ip cfg)) + m - 1" for a
    proof -
      have "how_many (passed_ip a) T \<le> how_many (passed_ip a) (snd s)" by (simp add: cs_untrack)
      also have "\<dots> \<le> max 1 (unat (dc_max_connections_per_ip cfg)) + m - 1"
        using assms(2) by (simp add: tracker_inv_def)
      finally show ?thesis .
    qed
    moreover have "how_many in_registration T \<le> m" "dd_config d = cfg" "dict_ok (dd_connections d)"
      using assms(2) by (simp_all add: tracker_inv_def cs_untrack)
    ultimately show ?thesis by (simp only: tracker_inv_def cs_untrack fst_conv snd_conv Let_def)
        (simp add: track_dict_ok)
  next
    case (cs_cleanup d now T)
    then have "filter (\<lambda>(_, t). duration_since now (tr_last_activity t) < dc_connection_timeout (dd_config d))
        (dd_connections d) = dd_connections d"
      by (intro filter_True) auto
    then have "dd_connections (cleanup_old_entries now d) = dd_connections d"
      by (simp add: cleanup_old_entries_def Let_def)
    then show ?thesis
      using assms(2) by (simp only: tracker_inv_def cs_cleanup fst_conv snd_conv conn_defs simp_thms)
  qed (use assms(2) in \<open>auto simp: tracker_inv_def\<close>)
qed


lemma conn_reach_trackers:
  assumes "conn_reach m True cfg s" and "max 1 (unat (dc_max_connections_per_ip cfg)) + m < 2 ^ 64"
  shows "tracker_inv m cfg s"
  using assms(1)
proof induction
  case cr_start
  then show ?case by (simp add: tracker_inv_def ddos_new_def)
next
  case (cr_step s s')
  then show ?case using tracker_inv_step assms(2) by blast
qed

abbreviation open_connections :: "'ip phase multiset \<Rightarrow> nat" where
  "open_connections T \<equiv> how_many (\<lambda>p. \<exists>ip. p = Live ip) T"

text \<open>
  C28. The limits on connections under concurrency: with at most \<open>m\<close> registrations at a time the open
  connections exceed the global limit by at most \<open>m - 1\<close>, and those of one address its limit (where
  a limit of zero counts as one), as long as the cleanup finds no idle tracker. So both are exact
  when registrations do not overlap.
\<close>

theorem connection_limits:
  assumes "conn_reach m keep cfg (d, T)"
    and "unat (dc_max_global_connections cfg) + m < 2 ^ 64"
    and "max 1 (unat (dc_max_connections_per_ip cfg)) + m < 2 ^ 64"
  shows "unat (dd_global d) = how_many counted T \<and>
    open_connections T \<le> unat (dc_max_global_connections cfg) + m - 1 \<and>
    (keep \<longrightarrow> how_many (\<lambda>p. p = Live ip) T \<le> max 1 (unat (dc_max_connections_per_ip cfg)) + m - 1)"
proof -
  have g: "dd_global d = of_nat (how_many counted T)"
    "how_many passed_global T \<le> unat (dc_max_global_connections cfg) + m - 1"
    using conn_reach_global [OF assms(1,2)] by (simp_all add: global_inv_def)
  then have "unat (dd_global d) = how_many counted T"
    using counted_le [of T] assms(2) by (simp add: unat_of_nat_u64)
  moreover have "open_connections T \<le> how_many counted T"
    by (rule how_many_mono) auto
  moreover have "how_many (\<lambda>p. p = Live ip) T \<le> max 1 (unat (dc_max_connections_per_ip cfg)) + m - 1" if keep
  proof -
    have "how_many (passed_ip ip) T \<le> max 1 (unat (dc_max_connections_per_ip cfg)) + m - 1"
      using conn_reach_trackers [of m cfg "(d, T)"] assms(1,3) that by (simp add: tracker_inv_def)
    moreover have "how_many (\<lambda>p. p = Live ip) T \<le> how_many (passed_ip ip) T"
      by (rule how_many_mono) auto
    ultimately show ?thesis by linarith
  qed
  ultimately show ?thesis using g(2) counted_le [of T] by auto
qed

text \<open>Two registrations that overlap get past a limit of one connection.\<close>

lemma overlap_reached:
  fixes cfg :: ddos_config
  defines "cfg \<equiv> (ddos_config_default 1)\<lparr>dc_max_global_connections := 1, dc_max_connections_per_ip := 1\<rparr>"
  shows "\<exists>d. conn_reach 2 True cfg (d :: nat ddos, {#Live 7, Live 7#})"
proof -
  let ?R = "conn_reach 2 True cfg"
  let ?d = "ddos_new cfg :: nat ddos"
  have low: "below_global_limit ?d" "below_ip_limit 7 ?d"
    by (simp_all add: below_global_limit_def below_ip_limit_def ddos_new_def cfg_def)
  have "?R (?d, {#})" by (rule cr_start)
  then have "?R (?d, {#Arrived 7#})" by (rule cr_step) (rule cs_arrive, simp)
  then have "?R (?d, {#BelowGlobal 7#})" by (rule cr_step) (rule cs_global, rule low)
  then have "?R (?d, {#Admitted 7#})" by (rule cr_step) (rule cs_ip, rule low)
  then have "?R (?d, {#Arrived 7, Admitted 7#})" by (rule cr_step) (rule cs_arrive, simp)
  then have "?R (?d, {#BelowGlobal 7, Admitted 7#})" by (rule cr_step) (rule cs_global, rule low)
  then have "?R (?d, {#Admitted 7, Admitted 7#})" by (rule cr_step) (rule cs_ip, rule low)
  then have "?R (count_connection ?d, {#Counted 7, Admitted 7#})" by (rule cr_step) (rule cs_count)
  then have "?R (count_connection ?d, {#Admitted 7, Counted 7#})" by (simp add: add_mset_commute)
  then have "?R (count_connection (count_connection ?d), {#Counted 7, Counted 7#})"
    by (rule cr_step) (rule cs_count)
  then have "?R (track_connection 0 7 (count_connection (count_connection ?d)), {#Live 7, Counted 7#})"
    by (rule cr_step) (rule cs_track)
  then have "?R (track_connection 0 7 (count_connection (count_connection ?d)), {#Counted 7, Live 7#})"
    by (simp add: add_mset_commute)
  then have "?R (track_connection 0 7 (track_connection 0 7 (count_connection (count_connection ?d))),
      {#Live 7, Live 7#})"
    by (rule cr_step) (rule cs_track)
  then show ?thesis by blast
qed

lemma connection_limits_witness:
  fixes cfg :: ddos_config
  defines "cfg \<equiv> (ddos_config_default 1)\<lparr>dc_max_global_connections := 1, dc_max_connections_per_ip := 1\<rparr>"
  shows "\<exists>d. unat (dd_global (d :: nat ddos)) = 2 \<and> open_connections {#Live 7, Live (7::nat)#} = 2 \<and>
    open_connections {#Live 7, Live (7::nat)#} \<le> unat (dc_max_global_connections cfg) + 2 - 1"
proof -
  from overlap_reached obtain d where d: "conn_reach 2 True cfg (d :: nat ddos, {#Live 7, Live 7#})"
    unfolding cfg_def by blast
  from connection_limits [OF d, of 7]
  have "unat (dd_global d) = how_many counted {#Live 7, Live (7::nat)#}" by (simp add: cfg_def)
  then show ?thesis by (intro exI [of _ d]) (simp add: cfg_def)
qed

section \<open>What the circuit breaker does\<close>

text \<open>A run of the breaker alone: successes, failures and requests with their instants.\<close>

datatype breaker_op = BSuccess | BFailure bool | BRequest bool

fun breaker_step :: "int \<Rightarrow> int \<Rightarrow> breaker_op \<Rightarrow> breaker \<Rightarrow> bool \<times> breaker" where
  "breaker_step second t BSuccess b = (True, breaker_success b)"
| "breaker_step second t (BFailure f) b = (True, breaker_failure f t b)"
| "breaker_step second t (BRequest f) b = breaker_allowed second f t b"

fun breaker_run :: "int \<Rightarrow> (int \<times> breaker_op) list \<Rightarrow> breaker \<Rightarrow> bool list \<times> breaker" where
  "breaker_run second [] b = ([], b)"
| "breaker_run second ((t, p) # ps) b =
     (let (r, b1) = breaker_step second t p b; (rs, b2) = breaker_run second ps b1 in (r # rs, b2))"

lemma breaker_opens:
  assumes "cb_state b = 0 \<or> cb_state b = 1" and "unat (cb_failures b) + length ts < 2 ^ 64"
    and "ts \<noteq> []" and "breaker_run second (map (\<lambda>t. (t, BFailure True)) ts) b = (rs, b')"
    and "cb_state b = 1 \<longrightarrow> ucast (cb_threshold b) \<le> cb_failures b"
  shows "cb_last_failure b' = Some (last ts) \<and> unat (cb_failures b') = unat (cb_failures b) + length ts \<and>
    cb_threshold b' = cb_threshold b \<and>
    cb_state b' = (if unat (cb_threshold b) \<le> unat (cb_failures b) + length ts then 1 else 0)"
  using assms
proof (induction ts arbitrary: b rs)
  case (Cons t ts)
  let ?b = "breaker_failure True t b"
  have up: "unat (ucast (cb_threshold b) :: u64) = unat (cb_threshold b)"
    using unsigned_less [of "cb_threshold b", where 'a = nat]
    by (simp add: unsigned_ucast_eq take_bit_nat_eq_self)
  have next_count: "unat (cb_failures b + 1) = Suc (unat (cb_failures b))"
    using Cons.prems(2) by (intro u64_succ_small) simp
  have b: "cb_last_failure ?b = Some t" "unat (cb_failures ?b) = Suc (unat (cb_failures b))"
    "cb_threshold ?b = cb_threshold b"
    "cb_state ?b = (if unat (cb_threshold b) \<le> Suc (unat (cb_failures b)) then 1 else 0)"
    using Cons.prems(1,5) next_count up
    by (auto simp: breaker_failure_def Let_def word_le_nat_alt)
  show ?case
  proof (cases ts)
    case Nil
    then show ?thesis using Cons.prems(4) b by (auto simp: Let_def)
  next
    case (Cons t1 ts1)
    obtain rs1 where r: "breaker_run second (map (\<lambda>t. (t, BFailure True)) ts) ?b = (rs1, b')"
      using Cons.prems(4) by (auto split: prod.splits)
    have "cb_last_failure b' = Some (last ts) \<and> unat (cb_failures b') = unat (cb_failures ?b) + length ts \<and>
      cb_threshold b' = cb_threshold ?b \<and>
      cb_state b' = (if unat (cb_threshold ?b) \<le> unat (cb_failures ?b) + length ts then 1 else 0)"
      by (rule Cons.IH [OF _ _ _ r]) (use Cons.prems(2) b Cons up in \<open>auto simp: word_le_nat_alt\<close>)
    then show ?thesis using b Cons by simp
  qed
qed simp

lemma half_open_requests:
  "cb_state b = 2 \<Longrightarrow> fst (breaker_run second (map (\<lambda>u. (u, BRequest f)) us) b) = map (\<lambda>_. True) us"
  by (induction us) (simp_all add: breaker_allowed_def case_prod_beta Let_def)

text \<open>
  The breaker opens exactly after as many failures in a row as its threshold; an open breaker lets
  nothing through for sixty seconds after the last failure, then every request, and each further
  failure closes the door again for sixty seconds, until a success resets it.
\<close>

theorem breaker_behaviour:
  assumes "ts \<noteq> []" and "length ts < 2 ^ 64 - 1" and "0 \<le> second"
    and "breaker_run second (map (\<lambda>t. (t, BFailure True)) ts) (breaker_new threshold) = (rs, b)"
  shows "if length ts < unat threshold then breaker_allowed second f t b = (True, b)
    else breaker_allowed second True t b =
        (if last ts + 60 * second < t then (True, b\<lparr>cb_state := 2\<rparr>) else (False, b)) \<and>
      fst (breaker_run second (map (\<lambda>u. (u, BRequest f)) us) (b\<lparr>cb_state := 2\<rparr>)) = map (\<lambda>_. True) us \<and>
      cb_state (breaker_failure True t (b\<lparr>cb_state := 2\<rparr>)) = 1"
proof -
  have b: "cb_last_failure b = Some (last ts)" "unat (cb_failures b) = length ts" "cb_threshold b = threshold"
    "cb_state b = (if unat threshold \<le> length ts then 1 else 0)"
    using breaker_opens [OF _ _ assms(1,4)] assms(2) by (simp_all add: breaker_new_def)
  show ?thesis
  proof (cases "length ts < unat threshold")
    case True
    then show ?thesis using b(4) by (simp add: breaker_allowed_def)
  next
    case False
    have up: "unat (ucast threshold :: u64) = unat threshold"
      using unsigned_less [of threshold, where 'a = nat]
      by (simp add: unsigned_ucast_eq take_bit_nat_eq_self)
    have "unat (cb_failures b + 1) = Suc (length ts)"
      using b(2) assms(2) by (subst u64_succ_small) simp_all
    then have "cb_state (breaker_failure True t (b\<lparr>cb_state := 2\<rparr>)) = 1"
      using False by (simp add: breaker_failure_def Let_def b(3) word_le_nat_alt up)
    moreover have "breaker_allowed second True t b =
        (if last ts + 60 * second < t then (True, b\<lparr>cb_state := 2\<rparr>) else (False, b))"
      using False b(1,4) assms(3) by (auto simp: breaker_allowed_def duration_since_def max_def)
    ultimately show ?thesis using False half_open_requests by simp
  qed
qed

lemma breaker_behaviour_witness:
  defines "b \<equiv> snd (breaker_run 1 (map (\<lambda>t. (t, BFailure True)) [5, 6]) (breaker_new 2))"
  shows "breaker_allowed 1 True 66 b = (False, b) \<and> breaker_allowed 1 True 67 b = (True, b\<lparr>cb_state := 2\<rparr>) \<and>
    fst (breaker_run 1 (map (\<lambda>u. (u, BRequest True)) [67, 67]) (b\<lparr>cb_state := 2\<rparr>)) = [True, True]"
proof -
  have "[5, 6::int] \<noteq> []" "length [5, 6::int] < 2 ^ 64 - 1" "(0::int) \<le> 1" by simp_all
  note B = breaker_behaviour [OF this surjective_pairing, where threshold = 2, folded b_def]
  show ?thesis using B [of True 66 "[67, 67]"] B [of True 67 "[67, 67]"] by simp
qed

end
