(* ===== verification/BinaryEnvelope.thy ===== *)
theory BinaryEnvelope
  imports Prelude
begin

text \<open>
  Binary envelopes with run-length compression, from
  \<^verbatim>\<open>lithair-core/src/serialization/binary.rs\<close>. The bincode encoding of values is the
  argument \<open>enc\<close>, \<open>dec\<close>; the quotient of two sizes as a 32-bit float is the argument \<open>quot\<close>.
\<close>

section \<open>Run-length compression\<close>

fun run_count :: "u8 \<Rightarrow> nat \<Rightarrow> bytes \<Rightarrow> nat" where
  "run_count b n [] = n"
| "run_count b n (x # xs) = (if x = b \<and> n < 255 then run_count b (n + 1) xs else n)"

lemma run_count_bounds: "n \<le> run_count b n xs \<and> run_count b n xs \<le> n + length xs"
proof (induction xs arbitrary: n)
  case (Cons x xs)
  have "n + 1 \<le> run_count b (n + 1) xs \<and> run_count b (n + 1) xs \<le> n + 1 + length xs"
    by (rule Cons.IH)
  then show ?case by simp
qed simp

lemma run_count_255: "n \<le> 255 \<Longrightarrow> run_count b n xs \<le> 255"
  by (induction xs arbitrary: n) auto

lemma run_count_same: "take (run_count b n xs - n) xs = replicate (run_count b n xs - n) b"
proof (induction xs arbitrary: n)
  case (Cons x xs)
  show ?case
  proof (cases "x = b \<and> n < 255")
    case True
    then have "run_count b n (x # xs) - n = Suc (run_count b (n + 1) xs - (n + 1))"
      using run_count_bounds [of "n + 1" b xs] by (simp add: Suc_diff_Suc)
    with True Cons.IH [of "n + 1"] show ?thesis by simp
  qed auto
qed simp

function simple_compress :: "bytes \<Rightarrow> bytes" where
  "simple_compress [] = []"
| "simple_compress (b # xs) =
     (let n = run_count b 1 xs
      in (if 3 < n then [255, of_nat n, b] else replicate n b) @ simple_compress (drop n (b # xs)))"
  by pat_completeness auto
termination
proof (relation "measure length", goal_cases)
  case (2 b xs n)
  then show ?case using run_count_bounds [of 1 b xs] by (cases n) auto
qed simp

fun simple_decompress :: "bytes \<Rightarrow> bytes" where
  "simple_decompress [] = []"
| "simple_decompress (x # xs) =
     (case xs of
        n # b # rest \<Rightarrow>
          (if x = 255 then replicate (unat n) b @ simple_decompress rest
           else x # simple_decompress xs)
      | _ \<Rightarrow> x # simple_decompress xs)"

lemma decompress_literal: "x \<noteq> 255 \<Longrightarrow> simple_decompress (x # xs) = x # simple_decompress xs"
  by (simp split: list.split)

lemma decompress_marker:
  "simple_decompress (255 # n # b # rest) = replicate (unat n) b @ simple_decompress rest"
  by simp

declare simple_decompress.simps(2) [simp del]

text \<open>The runs into which the compressor cuts its input.\<close>

function runs :: "bytes \<Rightarrow> (u8 \<times> nat) list" where
  "runs [] = []"
| "runs (b # xs) = (let n = run_count b 1 xs in (b, n) # runs (drop n (b # xs)))"
  by pat_completeness auto
termination
proof (relation "measure length", goal_cases)
  case (2 b xs n)
  then show ?case using run_count_bounds [of 1 b xs] by (cases n) auto
qed simp

lemma run_split: "b # xs = replicate (run_count b 1 xs) b @ drop (run_count b 1 xs) (b # xs)"
proof -
  have "take (run_count b 1 xs) (b # xs) = replicate (run_count b 1 xs) b"
    using run_count_same [of b 1 xs] run_count_bounds [of 1 b xs]
    by (cases "run_count b 1 xs") simp_all
  then show ?thesis by (metis append_take_drop_id)
qed

lemma concat_runs: "concat (map (\<lambda>(b, n). replicate n b) (runs xs)) = xs"
proof (induction xs rule: runs.induct)
  case (2 b xs)
  then show ?case using run_split [of b xs] by (simp add: Let_def)
qed simp

lemma runs_bounds: "(b, n) \<in> set (runs xs) \<Longrightarrow> 1 \<le> n \<and> n \<le> 255"
proof (induction xs rule: runs.induct)
  case (2 c xs)
  then show ?case
    using run_count_bounds [of 1 c xs] run_count_255 [of 1 c xs] by (auto simp: Let_def)
qed simp

definition encode_run :: "u8 \<times> nat \<Rightarrow> bytes" where
  "encode_run = (\<lambda>(b, n). if 3 < n then [255, of_nat n, b] else replicate n b)"

lemma compress_runs: "simple_compress xs = concat (map encode_run (runs xs))"
  by (induction xs rule: simple_compress.induct) (simp_all add: Let_def encode_run_def)

lemma decompress_literals:
  "b \<noteq> 255 \<Longrightarrow> simple_decompress (replicate n b @ rest) = replicate n b @ simple_decompress rest"
  by (induction n) (simp_all add: decompress_literal)

lemma decompress_run:
  assumes "b = 255 \<longrightarrow> 3 < n" and "n \<le> 255"
  shows "simple_decompress (encode_run (b, n) @ rest) = replicate n b @ simple_decompress rest"
proof (cases "3 < n")
  case True
  have "unat (of_nat n :: u8) = n" using assms(2) by (simp add: unat_of_nat take_bit_nat_eq_self)
  then show ?thesis using True by (simp add: encode_run_def decompress_marker)
next
  case False
  then show ?thesis using assms(1) by (simp add: encode_run_def decompress_literals)
qed

text \<open>Compressed data is never longer than the input.\<close>

lemma compress_shorter: "length (simple_compress xs) \<le> length xs"
proof -
  have "length (encode_run r) \<le> length ((\<lambda>(b, n). replicate n b) r)" for r
    by (cases r) (simp add: encode_run_def)
  then have "length (concat (map encode_run rs)) \<le> length (concat (map (\<lambda>(b, n). replicate n b) rs))" for rs
    by (induction rs) (simp_all add: add_mono)
  from this [of "runs xs"] show ?thesis by (simp add: compress_runs concat_runs)
qed

lemma runs_roundtrip:
  assumes "\<forall>(b, n) \<in> set rs. (b = 255 \<longrightarrow> 3 < n) \<and> n \<le> 255"
  shows "simple_decompress (concat (map encode_run rs)) = concat (map (\<lambda>(b, n). replicate n b) rs)"
  using assms
proof (induction rs)
  case (Cons r rs)
  then show ?case using decompress_run by (cases r) auto
qed simp

section \<open>Envelopes\<close>

record 'r binary_envelope =
  be_id :: nat
  be_event_type :: string
  be_data :: bytes
  be_is_compressed :: bool
  be_original_size :: nat
  be_compressed_size :: nat
  be_compression_ratio :: 'r
  be_created_at :: u64

definition envelope_uncompressed :: "'r \<Rightarrow> nat \<Rightarrow> u64 \<Rightarrow> bytes \<Rightarrow> 'r binary_envelope" where
  "envelope_uncompressed one nanos now data =
     \<lparr>be_id = nanos, be_event_type = ''binary'', be_data = data, be_is_compressed = False,
      be_original_size = length data, be_compressed_size = length data,
      be_compression_ratio = one, be_created_at = now\<rparr>"

definition envelope_compress ::
  "(nat \<Rightarrow> nat \<Rightarrow> 'r) \<Rightarrow> 'r \<Rightarrow> nat \<Rightarrow> u64 \<Rightarrow> bytes \<Rightarrow> 'r binary_envelope"
where
  "envelope_compress quot one nanos now data =
     (let c = simple_compress data
      in \<lparr>be_id = nanos, be_event_type = ''binary_compressed'', be_data = c, be_is_compressed = True,
          be_original_size = length data, be_compressed_size = length c,
          be_compression_ratio = (if 0 < length c then quot (length data) (length c) else one),
          be_created_at = now\<rparr>)"

definition envelope_decompress :: "'r binary_envelope \<Rightarrow> bytes" where
  "envelope_decompress e =
     (if \<not> be_is_compressed e then be_data e else simple_decompress (be_data e))"

record 'r binary_stats =
  bs_total_original :: nat
  bs_total_compressed :: nat
  bs_compressions :: nat
  bs_avg_ratio :: 'r
  bs_total_events :: nat

definition stats_update ::
  "(nat \<Rightarrow> nat \<Rightarrow> 'r) \<Rightarrow> 'r binary_envelope \<Rightarrow> 'r binary_stats \<Rightarrow> 'r binary_stats"
where
  "stats_update quot e s =
     (let s1 = s\<lparr>bs_total_original := bs_total_original s + be_original_size e,
                 bs_total_compressed := bs_total_compressed s + be_compressed_size e,
                 bs_total_events := bs_total_events s + 1\<rparr>;
          s2 = (if be_is_compressed e then s1\<lparr>bs_compressions := bs_compressions s1 + 1\<rparr> else s1)
      in if 0 < bs_total_compressed s2
         then s2\<lparr>bs_avg_ratio := quot (bs_total_original s2) (bs_total_compressed s2)\<rparr> else s2)"

definition to_compressed_bytes ::
  "('a \<Rightarrow> string + bytes) \<Rightarrow> (nat \<Rightarrow> nat \<Rightarrow> 'r) \<Rightarrow> 'r \<Rightarrow> nat \<Rightarrow> u64 \<Rightarrow> bool \<Rightarrow> 'a \<Rightarrow>
   string + 'r binary_envelope"
where
  "to_compressed_bytes enc quot one nanos now compress v =
     (case enc v of
        Inl e \<Rightarrow> Inl e
      | Inr bs \<Rightarrow> Inr (if compress then envelope_compress quot one nanos now bs
                       else envelope_uncompressed one nanos now bs))"

definition from_envelope :: "(bytes \<Rightarrow> string + 'a) \<Rightarrow> 'r binary_envelope \<Rightarrow> string + 'a" where
  "from_envelope dec e = dec (envelope_decompress e)"

section \<open>Properties\<close>

lemma runs_decompress:
  assumes "\<forall>(b, n) \<in> set (runs xs). b = 255 \<longrightarrow> 3 < n"
  shows "simple_decompress (simple_compress xs) = xs"
proof -
  have "\<forall>(b, n) \<in> set (runs xs). (b = 255 \<longrightarrow> 3 < n) \<and> n \<le> 255"
    using assms runs_bounds by fastforce
  then have "simple_decompress (concat (map encode_run (runs xs))) =
      concat (map (\<lambda>(b, n). replicate n b) (runs xs))"
    by (rule runs_roundtrip)
  then show ?thesis by (simp add: compress_runs concat_runs)
qed

text \<open>
  Decompression restores what was compressed, and the compressed data is never longer, as long as no
  run of the marker byte \<open>255\<close> has fewer than four bytes.
\<close>

theorem compression_roundtrip:
  assumes "\<forall>(b, n) \<in> set (runs xs). b = 255 \<longrightarrow> 3 < n"
  shows "simple_decompress (simple_compress xs) = xs \<and> length (simple_compress xs) \<le> length xs"
  using runs_decompress [OF assms] compress_shorter by simp

lemma compression_roundtrip_witness:
  "simple_compress (replicate 6 255 @ [1, 2, 2] @ replicate 300 7) =
     [255, 6, 255, 1, 2, 2, 255, 255, 7, 255, 45, 7] \<and>
   simple_decompress (simple_compress (replicate 6 255 @ [1, 2, 2] @ replicate 300 7)) =
     replicate 6 255 @ [1, 2, 2] @ replicate 300 (7::u8)"
proof -
  define xs :: bytes where "xs = replicate 6 255 @ [1, 2, 2] @ replicate 300 7"
  have ok: "\<forall>(b, n) \<in> set (runs xs). b = 255 \<longrightarrow> 3 < n" unfolding xs_def by code_simp
  have "simple_compress xs = [255, 6, 255, 1, 2, 2, 255, 255, 7, 255, 45, 7]"
    unfolding xs_def by code_simp
  with compression_roundtrip [OF ok] show ?thesis by (simp add: xs_def)
qed


lemma compress_short: "distinct_adj xs \<Longrightarrow> simple_compress xs = xs"
proof (induction xs rule: simple_compress.induct)
  case (2 b xs)
  have "run_count b 1 xs = 1" using "2.prems" by (cases xs) auto
  then show ?case using "2.IH" [OF refl] "2.prems" by (cases xs) simp_all
qed simp

lemma decompress_plain: "255 \<notin> set xs \<Longrightarrow> simple_decompress xs = xs"
  by (induction xs) (auto simp: decompress_literal)

text \<open>
  A single marker byte among bytes without repetition is stored as it is and read back as a run: the
  next byte is taken for the length.
\<close>

theorem marker_corrupts:
  assumes "distinct_adj (255 # c # d # ys)" and "255 \<notin> set (c # d # ys)"
  shows "simple_decompress (simple_compress (255 # c # d # ys)) = replicate (unat c) d @ ys \<and>
    simple_decompress (simple_compress (255 # c # d # ys)) \<noteq> 255 # c # d # ys"
proof -
  have "simple_decompress (simple_compress (255 # c # d # ys)) = replicate (unat c) d @ ys"
    unfolding compress_short [OF assms(1)] using assms(2) by (simp add: decompress_marker decompress_plain)
  moreover have "replicate (unat c) d @ ys \<noteq> 255 # c # d # ys"
  proof (cases "unat c")
    case 0
    have "ys \<noteq> 255 # c # d # ys" by (metis not_Cons_self2 length_Cons n_not_Suc_n Suc_n_not_le_n le_SucI order_refl)
    then show ?thesis using 0 by simp
  next
    case (Suc n)
    then show ?thesis using assms(2) by auto
  qed
  ultimately show ?thesis by simp
qed

lemma marker_corrupts_witness:
  "simple_decompress (simple_compress [255, 2, 9, 4]) = [9, 9, 4]"
proof -
  have "replicate 2 x = [x, x]" for x :: u8 by (simp add: numeral_2_eq_2)
  then show ?thesis using marker_corrupts [of 2 9 "[4]"] by simp
qed

text \<open>
  A value comes back from its envelope, compressed or not, if bincode restores it and its encoding
  has no short run of marker bytes; the recorded sizes are those of the data.
\<close>

theorem envelope_roundtrip:
  assumes "\<And>v bs. enc v = Inr bs \<Longrightarrow> dec bs = Inr v"
    and "to_compressed_bytes enc quot one nanos now compress v = Inr e"
    and "\<And>bs. compress \<Longrightarrow> enc v = Inr bs \<Longrightarrow> \<forall>(b, n) \<in> set (runs bs). b = 255 \<longrightarrow> 3 < n"
  shows "from_envelope dec e = Inr v \<and> be_compressed_size e = length (be_data e) \<and>
    be_compressed_size e \<le> be_original_size e \<and> be_is_compressed e = compress"
proof -
  obtain bs where bs: "enc v = Inr bs" using assms(2) by (auto simp: to_compressed_bytes_def split: sum.splits)
  show ?thesis
  proof (cases compress)
    case True
    then have "e = envelope_compress quot one nanos now bs"
      using assms(2) bs by (simp add: to_compressed_bytes_def)
    moreover have "simple_decompress (simple_compress bs) = bs \<and> length (simple_compress bs) \<le> length bs"
      using runs_decompress [OF assms(3) [OF True bs]] compress_shorter by simp
    ultimately show ?thesis
      using True assms(1) [OF bs] by (simp add: from_envelope_def envelope_decompress_def envelope_compress_def Let_def)
  next
    case False
    then have "e = envelope_uncompressed one nanos now bs"
      using assms(2) bs by (simp add: to_compressed_bytes_def)
    then show ?thesis
      using False assms(1) [OF bs] by (simp add: from_envelope_def envelope_decompress_def envelope_uncompressed_def)
  qed
qed

lemma envelope_roundtrip_witness:
  fixes enc :: "u64 \<Rightarrow> string + bytes" and e :: "unit binary_envelope"
  defines "enc \<equiv> \<lambda>v. Inr (to_le64 v)"
    and "e \<equiv> envelope_compress (\<lambda>_ _. ()) () 5 6 (to_le64 3)"
  shows "from_envelope (\<lambda>bs. Inr (from_le64 bs)) e = Inr 3 \<and> be_compressed_size e = 4 \<and> be_original_size e = 8"
proof -
  have le: "to_le64 3 = [3, 0, 0, 0, 0, 0, 0, 0]" by code_simp
  have enc: "\<And>v bs. enc v = Inr bs \<Longrightarrow> Inr (from_le64 bs) = (Inr v :: string + u64)" by (auto simp: enc_def)
  have "to_compressed_bytes enc (\<lambda>_ _. ()) () 5 6 True 3 = Inr e"
    by (simp add: to_compressed_bytes_def enc_def e_def)
  moreover have "\<forall>(b, n) \<in> set (runs (to_le64 3)). b = 255 \<longrightarrow> 3 < n" unfolding le by code_simp
  ultimately have "from_envelope (\<lambda>bs. Inr (from_le64 bs)) e = Inr 3"
    using envelope_roundtrip [of enc "\<lambda>bs. Inr (from_le64 bs)" "\<lambda>_ _. ()" "()" 5 6 True 3 e] enc
    by (auto simp: enc_def)
  moreover have "simple_compress (to_le64 3) = [3, 255, 7, 0]" unfolding le by code_simp
  ultimately show ?thesis by (simp add: e_def envelope_compress_def)
qed

end
