(* ===== verification/JsonText.thy ===== *)
theory JsonText
  imports Prelude
begin

text \<open>
  The JSON parser and printer of \<^verbatim>\<open>lithair-core/src/serialization/json.rs\<close>. The
  position in the input is the rest of the input; the recursion runs on fuel, and no input exhausts
  the fuel that \<open>parse_json\<close> gives. The operations of the standard library on 64-bit floats are the
  record \<open>float_ops\<close>; characters are those of Latin-1, and a hash map is an association list in the
  order of its iteration.
\<close>

section \<open>Values and texts\<close>

datatype 'f json =
    JNull
  | JBool bool
  | JNumber 'f
  | JString string
  | JArray "'f json list"
  | JObject "(string \<times> 'f json) list"

datatype json_error =
    InvalidSyntax string
  | UnexpectedToken string
  | UnexpectedEnd
  | InvalidNumber string

record 'f float_ops =
  fo_whole :: "'f \<Rightarrow> bool"
  fo_as_i64 :: "'f \<Rightarrow> int"
  fo_to_string :: "'f \<Rightarrow> string"
  fo_parse :: "string \<Rightarrow> 'f option"

definition show_int :: "int \<Rightarrow> string" where
  "show_int i = (if i < 0 then ''-'' @ show_nat (nat (- i)) else show_nat (nat i))"

definition escape_char :: "char \<Rightarrow> string" where
  "escape_char c =
     (if c = CHR 34 then [CHR 92, CHR 34]
      else if c = CHR 92 then [CHR 92, CHR 92]
      else if c = CHR 10 then [CHR 92, CHR ''n'']
      else if c = CHR 13 then [CHR 92, CHR ''r'']
      else if c = CHR 9 then [CHR 92, CHR ''t'']
      else [c])"

definition escape_string :: "string \<Rightarrow> string" where
  "escape_string s = concat (map escape_char s)"

definition quoted :: "string \<Rightarrow> string" where
  "quoted s = [CHR 34] @ escape_string s @ [CHR 34]"

fun join_with :: "string \<Rightarrow> string list \<Rightarrow> string" where
  "join_with sep [] = []"
| "join_with sep [x] = x"
| "join_with sep (x # y # xs) = x @ sep @ join_with sep (y # xs)"

definition number_text :: "'f float_ops \<Rightarrow> 'f \<Rightarrow> string" where
  "number_text F n = (if fo_whole F n then show_int (fo_as_i64 F n) else fo_to_string F n)"

fun stringify_json :: "'f float_ops \<Rightarrow> 'f json \<Rightarrow> string" where
  "stringify_json F JNull = ''null''"
| "stringify_json F (JBool b) = (if b then ''true'' else ''false'')"
| "stringify_json F (JNumber n) = number_text F n"
| "stringify_json F (JString s) = quoted s"
| "stringify_json F (JArray vs) = ''['' @ join_with '','' (map (stringify_json F) vs) @ '']''"
| "stringify_json F (JObject m) =
     ''{'' @ join_with '','' (map (\<lambda>(k, v). quoted k @ '':'' @ stringify_json F v) m) @ ''}''"

section \<open>The parser\<close>

definition json_space :: "char \<Rightarrow> bool" where
  "json_space c \<longleftrightarrow> (of_char c :: nat) \<in> {9, 10, 11, 12, 13, 32, 133, 160}"

definition skip_whitespace :: "string \<Rightarrow> string" where
  "skip_whitespace s = dropWhile json_space s"

definition consume_word :: "string \<Rightarrow> string \<Rightarrow> string option" where
  "consume_word w s = (if take (length w) s = w then Some (drop (length w) s) else None)"

definition apostrophes :: "string \<Rightarrow> string" where
  "apostrophes s = [CHR 39] @ s @ [CHR 39]"

type_synonym 'a parsed = "json_error + 'a \<times> string"

definition parse_null :: "string \<Rightarrow> 'f json parsed" where
  "parse_null s =
     (case consume_word ''null'' s of
        Some r \<Rightarrow> Inr (JNull, r)
      | None \<Rightarrow> Inl (InvalidSyntax (''Expected '' @ apostrophes ''null'')))"

definition parse_bool :: "string \<Rightarrow> 'f json parsed" where
  "parse_bool s =
     (case consume_word ''true'' s of
        Some r \<Rightarrow> Inr (JBool True, r)
      | None \<Rightarrow>
          (case consume_word ''false'' s of
             Some r \<Rightarrow> Inr (JBool False, r)
           | None \<Rightarrow> Inl (InvalidSyntax
               (''Expected '' @ apostrophes ''true'' @ '' or '' @ apostrophes ''false''))))"

definition parse_string :: "string \<Rightarrow> string parsed" where
  "parse_string s =
     (let body = tl s;
          content = takeWhile (\<lambda>c. c \<noteq> CHR 34) body;
          rest = dropWhile (\<lambda>c. c \<noteq> CHR 34) body
      in if rest = [] then Inl UnexpectedEnd else Inr (content, tl rest))"

definition number_char :: "char \<Rightarrow> bool" where
  "number_char c \<longleftrightarrow> is_digit c \<or> c = CHR ''.''"

definition parse_number :: "'f float_ops \<Rightarrow> string \<Rightarrow> 'f json parsed" where
  "parse_number F s =
     (let sign = (if hd s = CHR ''-'' then ''-'' else []);
          r = (if hd s = CHR ''-'' then tl s else s);
          num = sign @ takeWhile number_char r
      in case fo_parse F num of
           Some x \<Rightarrow> Inr (JNumber x, dropWhile number_char r)
         | None \<Rightarrow> Inl (InvalidNumber num))"

fun parse_value :: "'f float_ops \<Rightarrow> nat \<Rightarrow> string \<Rightarrow> 'f json parsed option"
  and parse_items :: "'f float_ops \<Rightarrow> nat \<Rightarrow> 'f json list \<Rightarrow> string \<Rightarrow> 'f json parsed option"
  and parse_members ::
    "'f float_ops \<Rightarrow> nat \<Rightarrow> (string \<times> 'f json) list \<Rightarrow> string \<Rightarrow> 'f json parsed option"
where
  "parse_value F 0 s = None"
| "parse_value F (Suc n) s =
     (case skip_whitespace s of
        [] \<Rightarrow> Some (Inl UnexpectedEnd)
      | c # r \<Rightarrow>
          (if c = CHR ''n'' then Some (parse_null (c # r))
           else if c = CHR ''t'' \<or> c = CHR ''f'' then Some (parse_bool (c # r))
           else if c = CHR 34 then Some (map_sum id (\<lambda>(t, r'). (JString t, r')) (parse_string (c # r)))
           else if c = CHR ''['' then
             (let s1 = skip_whitespace r
              in if s1 \<noteq> [] \<and> hd s1 = CHR '']'' then Some (Inr (JArray [], tl s1))
                 else parse_items F n [] s1)
           else if c = CHR ''{'' then
             (let s1 = skip_whitespace r
              in if s1 \<noteq> [] \<and> hd s1 = CHR ''}'' then Some (Inr (JObject [], tl s1))
                 else parse_members F n [] s1)
           else if is_digit c \<or> c = CHR ''-'' then Some (parse_number F (c # r))
           else Some (Inl (UnexpectedToken [c]))))"
| "parse_items F 0 vs s = None"
| "parse_items F (Suc n) vs s =
     (case parse_value F n s of
        None \<Rightarrow> None
      | Some (Inl e) \<Rightarrow> Some (Inl e)
      | Some (Inr (v, s1)) \<Rightarrow>
          (case skip_whitespace s1 of
             [] \<Rightarrow> Some (Inl UnexpectedEnd)
           | c # r \<Rightarrow>
               (if c = CHR '']'' then Some (Inr (JArray (vs @ [v]), r))
                else if c = CHR '','' then parse_items F n (vs @ [v]) (skip_whitespace r)
                else Some (Inl (UnexpectedToken [c])))))"
| "parse_members F 0 m s = None"
| "parse_members F (Suc n) m s =
     (case parse_string s of
        Inl e \<Rightarrow> Some (Inl e)
      | Inr (k, s1) \<Rightarrow>
          (case skip_whitespace s1 of
             [] \<Rightarrow> Some (Inl (InvalidSyntax (''Expected '' @ apostrophes '':'' @ '' after object key'')))
           | c # r \<Rightarrow>
               (if c \<noteq> CHR '':'' then Some (Inl (InvalidSyntax (''Expected '' @ apostrophes '':'' @ '' after object key'')))
                else
                  (case parse_value F n r of
                     None \<Rightarrow> None
                   | Some (Inl e) \<Rightarrow> Some (Inl e)
                   | Some (Inr (v, s2)) \<Rightarrow>
                       (let m' = AList.update k v m
                        in case skip_whitespace s2 of
                             [] \<Rightarrow> Some (Inl UnexpectedEnd)
                           | d # r' \<Rightarrow>
                               (if d = CHR ''}'' then Some (Inr (JObject m', r'))
                                else if d = CHR '','' then parse_members F n m' (skip_whitespace r')
                                else Some (Inl (UnexpectedToken [d]))))))))"

definition parse_json :: "'f float_ops \<Rightarrow> string \<Rightarrow> (json_error + 'f json) option" where
  "parse_json F s = map_option (map_sum id fst) (parse_value F (2 * length s + 1) s)"

section \<open>Termination\<close>

lemma skip_shorter: "length (skip_whitespace s) \<le> length s"
  by (simp add: skip_whitespace_def length_dropWhile_le)

lemma skip_Cons_shorter: "skip_whitespace s = c # r \<Longrightarrow> length r < length s"
  using skip_shorter [of s] by simp

lemma parse_string_shorter: "parse_string s = Inr (k, r) \<Longrightarrow> length r < length s"
proof -
  assume "parse_string s = Inr (k, r)"
  then have r: "dropWhile (\<lambda>c. c \<noteq> CHR 34) (tl s) \<noteq> []" "r = tl (dropWhile (\<lambda>c. c \<noteq> CHR 34) (tl s))"
    by (auto simp: parse_string_def Let_def split: if_splits)
  then have "length r < length (dropWhile (\<lambda>c. c \<noteq> CHR 34) (tl s))" by (simp add: r(2))
  also have "\<dots> \<le> length (tl s)" by (rule length_dropWhile_le)
  finally show ?thesis by simp
qed

lemma parse_null_shorter: "parse_null s = Inr (v, r) \<Longrightarrow> length r \<le> length s"
  by (auto simp: parse_null_def consume_word_def split: option.splits if_splits)

lemma parse_bool_shorter: "parse_bool s = Inr (v, r) \<Longrightarrow> length r \<le> length s"
  by (auto simp: parse_bool_def consume_word_def split: option.splits if_splits)

lemma parse_number_shorter: "parse_number F s = Inr (v, r) \<Longrightarrow> length r \<le> length s"
  using length_dropWhile_le [of number_char s] length_dropWhile_le [of number_char "tl s"]
  by (auto simp: parse_number_def Let_def split: option.splits if_splits)

lemma parser_shorter:
  "parse_value F n s = Some (Inr (v, r)) \<Longrightarrow> length r \<le> length s"
  "parse_items F n vs s = Some (Inr (v, r)) \<Longrightarrow> length r \<le> length s"
  "parse_members F n m s = Some (Inr (v, r)) \<Longrightarrow> length r \<le> length s"
proof (induction F n s and F n vs s and F n m s arbitrary: v r and v r and v r
    rule: parse_value_parse_items_parse_members.induct)
  case (2 F n s)
  obtain c t where ct: "skip_whitespace s = c # t"
    using "2.prems" by (cases "skip_whitespace s") auto
  have lt: "length t < length s" by (rule skip_Cons_shorter [OF ct])
  note IH = "2.IH" [OF ct]
  consider "c = CHR ''n''" | "c = CHR ''t'' \<or> c = CHR ''f''" | "c = CHR 34" | "c = CHR ''[''"
    | "c = CHR ''{''" | "c \<notin> {CHR ''n'', CHR ''t'', CHR ''f'', CHR 34, CHR ''['', CHR ''{''}" by auto
  then show ?case
  proof cases
    case 4
    have sk: "length (skip_whitespace t) < length s" using skip_shorter [of t] lt by simp
    show ?thesis
    proof (cases "skip_whitespace t \<noteq> [] \<and> hd (skip_whitespace t) = CHR '']''")
      case True
      then show ?thesis using "2.prems" ct 4 sk by auto
    next
      case False
      then have "length r \<le> length (skip_whitespace t)"
        using IH(1) [of "skip_whitespace t" v r] "2.prems" ct 4 by (auto simp: Let_def)
      then show ?thesis using sk by simp
    qed
  next
    case 5
    have sk: "length (skip_whitespace t) < length s" using skip_shorter [of t] lt by simp
    show ?thesis
    proof (cases "skip_whitespace t \<noteq> [] \<and> hd (skip_whitespace t) = CHR ''}''")
      case True
      then show ?thesis using "2.prems" ct 5 sk by auto
    next
      case False
      then have "length r \<le> length (skip_whitespace t)"
        using IH(2) [of "skip_whitespace t" v r] "2.prems" ct 5 by (auto simp: Let_def)
      then show ?thesis using sk by simp
    qed
  next
    case 1
    then show ?thesis using "2.prems" ct lt parse_null_shorter [of "c # t" v r] by simp
  next
    case 2
    then show ?thesis using "2.prems" ct lt parse_bool_shorter [of "c # t" v r] by auto
  next
    case 3
    then show ?thesis
      using "2.prems" ct lt parse_string_shorter [of "c # t"] by (cases "parse_string (c # t)") auto
  next
    case 6
    then show ?thesis
      using "2.prems" ct lt parse_number_shorter [of F "c # t" v r] by (simp split: if_splits)
  qed
next
  case (4 F n vs s)
  obtain v1 s1 where v1: "parse_value F n s = Some (Inr (v1, s1))"
    using "4.prems" by (auto split: option.splits sum.splits)
  have "length s1 \<le> length s" by (rule "4.IH"(1) [OF v1])
  moreover obtain c t where ct: "skip_whitespace s1 = c # t"
    using "4.prems" v1 by (cases "skip_whitespace s1") auto
  ultimately have lt: "length t < length s" using skip_Cons_shorter [OF ct] by simp
  show ?case
  proof (cases "c = CHR '']''")
    case True
    then show ?thesis using "4.prems" v1 ct lt by simp
  next
    case False
    then have "c = CHR '',''" "parse_items F n (vs @ [v1]) (skip_whitespace t) = Some (Inr (v, r))"
      using "4.prems" v1 ct by (auto split: if_splits)
    then have "length r \<le> length (skip_whitespace t)"
      using "4.IH"(2) [OF v1 refl refl ct False] by blast
    then show ?thesis using skip_shorter [of t] lt by simp
  qed
next
  case (6 F n m s)
  obtain k s1 where k: "parse_string s = Inr (k, s1)"
    using "6.prems" by (cases "parse_string s") auto
  obtain t where t: "skip_whitespace s1 = CHR '':'' # t"
    using "6.prems" k by (cases "skip_whitespace s1") (auto split: if_splits)
  obtain v1 s2 where v1: "parse_value F n t = Some (Inr (v1, s2))"
    using "6.prems" k t by (auto split: option.splits sum.splits)
  have "length s2 \<le> length t" by (rule "6.IH"(1) [OF k refl t _ v1]) simp
  then have s2: "length s2 < length s"
    using parse_string_shorter [OF k] skip_Cons_shorter [OF t] by simp
  obtain d u where du: "skip_whitespace s2 = d # u"
    using "6.prems" k t v1 by (cases "skip_whitespace s2") (auto simp: Let_def)
  then have lt: "length u < length s" using skip_Cons_shorter [OF du] s2 by simp
  show ?case
  proof (cases "d = CHR ''}''")
    case True
    then show ?thesis using "6.prems" k t v1 du lt by (simp add: Let_def)
  next
    case False
    then have "d = CHR '',''"
      "parse_members F n (AList.update k v1 m) (skip_whitespace u) = Some (Inr (v, r))"
      using "6.prems" k t v1 du by (auto simp: Let_def split: if_splits)
    then have "length r \<le> length (skip_whitespace u)"
      using "6.IH"(2) [OF k refl t _ v1 refl refl refl du False] by blast
    then show ?thesis using skip_shorter [of u] lt by simp
  qed
qed simp_all

lemma parser_fuel:
  "2 * length s < n \<Longrightarrow> parse_value F n s \<noteq> None"
  "2 * length s + 1 < n \<Longrightarrow> parse_items F n vs s \<noteq> None"
  "2 * length s + 1 < n \<Longrightarrow> parse_members F n m s \<noteq> None"
proof (induction F n s and F n vs s and F n m s
    rule: parse_value_parse_items_parse_members.induct)
  case (2 F n s)
  show ?case
  proof (cases "skip_whitespace s")
    case (Cons c t)
    have "2 * length (skip_whitespace t) + 1 < n"
      using skip_shorter [of t] skip_Cons_shorter [OF Cons] "2.prems" by simp
    then show ?thesis using "2.IH" [OF Cons] Cons by (auto simp: Let_def)
  qed simp
next
  case (4 F n vs s)
  have "parse_value F n s \<noteq> None" by (rule "4.IH"(1)) (use "4.prems" in simp)
  then obtain p where p: "parse_value F n s = Some p" by blast
  show ?case
  proof (cases p)
    case (Inr q)
    obtain v1 s1 where q: "q = (v1, s1)" by (cases q)
    show ?thesis
    proof (cases "skip_whitespace s1")
      case (Cons c t)
      have "length t < length s"
        using parser_shorter(1) p skip_Cons_shorter [OF Cons] unfolding Inr q by fastforce
      then have "2 * length (skip_whitespace t) + 1 < n"
        using skip_shorter [of t] "4.prems" by simp
      then have "c \<noteq> CHR '']'' \<Longrightarrow> c = CHR '','' \<Longrightarrow> parse_items F n (vs @ [v1]) (skip_whitespace t) \<noteq> None"
        using "4.IH"(2) [OF p Inr q [symmetric] Cons] by blast
      then show ?thesis using p Inr q Cons by auto
    qed (use p Inr q in simp)
  qed (use p in simp)
next
  case (6 F n m s)
  show ?case
  proof (cases "parse_string s")
    case (Inr q)
    obtain k s1 where q: "q = (k, s1)" by (cases q)
    have k: "length s1 < length s" using parse_string_shorter Inr q by blast
    show ?thesis
    proof (cases "skip_whitespace s1")
      case (Cons c t)
      show ?thesis
      proof (cases "c = CHR '':''")
        case True
        have t: "length t < length s" using skip_Cons_shorter [OF Cons] k by simp
        have "parse_value F n t \<noteq> None"
          by (rule "6.IH"(1) [OF Inr q [symmetric] Cons]) (use True t "6.prems" in simp_all)
        then obtain p where p: "parse_value F n t = Some p" by blast
        show ?thesis
        proof (cases p)
          case (Inr q1)
          obtain v1 s2 where q1: "q1 = (v1, s2)" by (cases q1)
          have s2: "length s2 \<le> length t" using parser_shorter(1) p Inr q1 by fastforce
          show ?thesis
          proof (cases "skip_whitespace s2")
            case (Cons d u)
            have "2 * length (skip_whitespace u) + 1 < n"
              using skip_shorter [of u] skip_Cons_shorter [OF Cons] s2 t "6.prems" by simp
            then have "d \<noteq> CHR ''}'' \<Longrightarrow> d = CHR '','' \<Longrightarrow>
                parse_members F n (AList.update k v1 m) (skip_whitespace u) \<noteq> None"
              using "6.IH"(2) [OF \<open>parse_string s = Inr q\<close> q [symmetric] \<open>skip_whitespace s1 = c # t\<close> _ p Inr
                  q1 [symmetric] refl Cons] True by blast
            then show ?thesis
              using p Inr q1 Cons True q \<open>parse_string s = Inr q\<close> \<open>skip_whitespace s1 = c # t\<close>
              by (auto simp: Let_def)
          qed (use p Inr q1 True q \<open>parse_string s = Inr q\<close> \<open>skip_whitespace s1 = c # t\<close> in \<open>simp add: Let_def\<close>)
        qed (use p True q Inr Cons in simp)
      qed (use Inr q Cons in simp)
    qed (use Inr q in simp)
  qed simp
qed simp_all

text \<open>The parser gives an answer for every input: the fuel that \<open>parse_json\<close> takes is enough.\<close>

theorem parse_json_terminates: "parse_json F s \<noteq> None"
  using parser_fuel(1) [of s "2 * length s + 1" F] by (simp add: parse_json_def)

section \<open>Round trip\<close>

definition plain_char :: "char \<Rightarrow> bool" where
  "plain_char c \<longleftrightarrow> c \<noteq> CHR 34 \<and> c \<noteq> CHR 92 \<and> c \<noteq> CHR 10 \<and> c \<noteq> CHR 13 \<and> c \<noteq> CHR 9"

abbreviation plain :: "string \<Rightarrow> bool" where
  "plain s \<equiv> list_all plain_char s"

fun number_token :: "string \<Rightarrow> bool" where
  "number_token [] = False"
| "number_token (c # r) = ((is_digit c \<or> c = CHR ''-'') \<and> list_all number_char r)"

text \<open>
  The values that survive: strings and keys without a quote, a backslash, a line feed, a carriage
  return or a tab, numbers whose text is a number token that parses back, objects without
  duplicate keys (as a hash map has none).
\<close>

fun storable :: "'f float_ops \<Rightarrow> 'f json \<Rightarrow> bool" where
  "storable F JNull = True"
| "storable F (JBool b) = True"
| "storable F (JNumber x) = (number_token (number_text F x) \<and> fo_parse F (number_text F x) = Some x)"
| "storable F (JString s) = plain s"
| "storable F (JArray vs) = list_all (storable F) vs"
| "storable F (JObject m) =
     (distinct (map fst m) \<and> list_all (\<lambda>(k, v). plain k \<and> storable F v) m)"

definition ends_number :: "string \<Rightarrow> bool" where
  "ends_number s \<longleftrightarrow> (case s of [] \<Rightarrow> True | c # _ \<Rightarrow> \<not> number_char c)"

lemma escape_plain: "plain s \<Longrightarrow> escape_string s = s"
  by (induction s) (auto simp: escape_string_def escape_char_def plain_char_def)

lemma parse_quoted: "plain s \<Longrightarrow> parse_string (quoted s @ rest) = Inr (s, rest)"
proof -
  assume p: "plain s"
  then have n: "\<forall>c \<in> set s. c \<noteq> CHR 34" by (auto simp: list_all_iff plain_char_def)
  then show ?thesis
    using p by (simp add: quoted_def escape_plain parse_string_def takeWhile_append2 dropWhile_append2 Let_def)
qed

lemma takeWhile_number: "list_all number_char r \<Longrightarrow> ends_number rest \<Longrightarrow>
    takeWhile number_char (r @ rest) = r \<and> dropWhile number_char (r @ rest) = rest"
  by (induction r) (auto simp: ends_number_def split: list.splits)

lemma minus_not_digit: "\<not> is_digit (CHR ''-'')" "number_char c \<Longrightarrow> c \<noteq> CHR ''-''"
  by (auto simp: is_digit_def number_char_def)

lemma parse_number_token:
  assumes "number_token t" and "fo_parse F t = Some x" and "ends_number rest"
  shows "parse_number F (t @ rest) = Inr (JNumber x, rest)"
proof (cases t)
  case (Cons c r)
  show ?thesis
  proof (cases "c = CHR ''-''")
    case True
    then show ?thesis
      using assms takeWhile_number [of r rest] by (simp add: parse_number_def Cons Let_def)
  next
    case False
    then have "list_all number_char (c # r)" using assms(1) by (auto simp: Cons number_char_def)
    then show ?thesis
      using assms False takeWhile_number [of "c # r" rest] by (simp add: parse_number_def Cons Let_def)
  qed
qed (use assms in simp)

lemma update_fresh: "k \<notin> fst ` set m \<Longrightarrow> AList.update k v m = m @ [(k, v)]"
  by (induction m) auto

lemma no_space: "\<not> json_space c \<Longrightarrow> skip_whitespace (c # r) = c # r"
  by (simp add: skip_whitespace_def)

lemma json_space_chars [simp]:
  "\<not> json_space (CHR 34)" "\<not> json_space (CHR ''['')" "\<not> json_space (CHR '']'')"
  "\<not> json_space (CHR ''{'')" "\<not> json_space (CHR ''}'')" "\<not> json_space (CHR '','')"
  "\<not> json_space (CHR '':'')" "\<not> json_space (CHR ''-'')" "\<not> json_space (CHR ''n'')"
  "\<not> json_space (CHR ''t'')" "\<not> json_space (CHR ''f'')"
  by (simp_all add: json_space_def)

lemma digit_no_space: "is_digit c \<Longrightarrow> \<not> json_space c"
  by (auto simp: is_digit_def json_space_def)

lemma digit_no_bracket: "is_digit c \<Longrightarrow> c \<noteq> CHR '']'' \<and> c \<noteq> CHR ''}''"
  by (auto simp: is_digit_def)

lemma number_char_ends [simp]:
  "\<not> number_char (CHR '']'')" "\<not> number_char (CHR ''}'')" "\<not> number_char (CHR '','')"
  by (simp_all add: number_char_def is_digit_def)

lemma ends_number_simps [simp]: "ends_number []" "ends_number (c # s) \<longleftrightarrow> \<not> number_char c"
  by (simp_all add: ends_number_def)

text \<open>Every printed value starts with a character that is neither a space nor a closing bracket.\<close>

lemma stringify_start:
  assumes "storable F v"
  obtains c r where "stringify_json F v = c # r" "\<not> json_space c" "c \<noteq> CHR '']''" "c \<noteq> CHR ''}''"
proof (cases v)
  case (JNumber x)
  then obtain c r where c: "number_text F x = c # r" "is_digit c \<or> c = CHR ''-''"
    using assms by (cases "number_text F x") auto
  then have "\<not> json_space c \<and> c \<noteq> CHR '']'' \<and> c \<noteq> CHR ''}''"
    using digit_no_space [of c] digit_no_bracket [of c] by auto
  then show thesis using that c(1) JNumber by simp
next
  case (JBool b)
  then show thesis using that by (cases b) simp_all
qed (use that in \<open>auto simp: quoted_def split: if_splits\<close>)

definition parses_back :: "'f float_ops \<Rightarrow> 'f json \<Rightarrow> bool" where
  "parses_back F v \<longleftrightarrow>
     (\<forall>n rest. ends_number rest \<longrightarrow> 2 * length (stringify_json F v) < n \<longrightarrow>
        parse_value F n (stringify_json F v @ rest) = Some (Inr (v, rest)))"

lemma parse_items_back:
  assumes "list_all (storable F) vs" and "\<forall>v \<in> set vs. parses_back F v" and "vs \<noteq> []"
    and "2 * length (join_with '','' (map (stringify_json F) vs)) + 1 < n"
  shows "parse_items F n us (join_with '','' (map (stringify_json F) vs) @ CHR '']'' # rest) =
    Some (Inr (JArray (us @ vs), rest))"
  using assms
proof (induction vs arbitrary: us n)
  case (Cons v vs)
  obtain k where n: "n = Suc k" using Cons.prems(4) by (cases n) auto
  have pb: "parses_back F v" using Cons.prems(2) by simp
  show ?case
  proof (cases vs)
    case Nil
    have "parse_value F k (stringify_json F v @ CHR '']'' # rest) = Some (Inr (v, CHR '']'' # rest))"
      using pb Cons.prems(4) Nil n by (simp add: parses_back_def)
    then show ?thesis by (simp add: n Nil no_space)
  next
    case (Cons w ws)
    let ?t = "join_with '','' (map (stringify_json F) vs)"
    have join: "join_with '','' (map (stringify_json F) (v # vs)) = stringify_json F v @ '','' @ ?t"
      by (simp add: Cons)
    have len: "2 * length (stringify_json F v) < k \<and> 2 * length ?t + 1 < k"
      using Cons.prems(4) unfolding join n by simp
    have "storable F w" using Cons.prems(1) Cons by simp
    then obtain c r where "stringify_json F w = c # r" "\<not> json_space c" by (rule stringify_start)
    then have skip: "skip_whitespace (?t @ CHR '']'' # rest) = ?t @ CHR '']'' # rest"
      by (cases ws) (simp_all add: Cons no_space)
    have "parse_value F k (stringify_json F v @ CHR '','' # ?t @ CHR '']'' # rest) =
        Some (Inr (v, CHR '','' # ?t @ CHR '']'' # rest))"
      using pb len by (simp add: parses_back_def)
    moreover have "parse_items F k (us @ [v]) (?t @ CHR '']'' # rest) =
        Some (Inr (JArray ((us @ [v]) @ vs), rest))"
      by (rule Cons.IH) (use Cons.prems(1,2) Cons len in simp_all)
    ultimately show ?thesis unfolding join by (simp add: n no_space skip)
  qed
qed simp

definition member_text :: "'f float_ops \<Rightarrow> string \<times> 'f json \<Rightarrow> string" where
  "member_text F = (\<lambda>(k, v). quoted k @ '':'' @ stringify_json F v)"

lemma parse_members_back:
  assumes "list_all (\<lambda>(k, v). plain k \<and> storable F v) m" and "\<forall>v \<in> snd ` set m. parses_back F v"
    and "m \<noteq> []" and "distinct (map fst (us @ m))"
    and "2 * length (join_with '','' (map (member_text F) m)) + 1 < n"
  shows "parse_members F n us (join_with '','' (map (member_text F) m) @ CHR ''}'' # rest) =
    Some (Inr (JObject (us @ m), rest))"
  using assms
proof (induction m arbitrary: us n)
  case (Cons kv m)
  obtain k v where kv: "kv = (k, v)" by (cases kv)
  obtain i where n: "n = Suc i" using Cons.prems(5) by (cases n) auto
  have pb: "parses_back F v" and pk: "plain k" using Cons.prems(1,2) by (auto simp: kv)
  have upd: "AList.update k v us = us @ [(k, v)]"
    by (rule update_fresh) (use Cons.prems(4) in \<open>auto simp: kv\<close>)
  have colon: "parse_string (quoted k @ CHR '':'' # s) = Inr (k, CHR '':'' # s)" for s
    by (rule parse_quoted [OF pk])
  have mt: "member_text F (k, v) = quoted k @ CHR '':'' # stringify_json F v" by (simp add: member_text_def)
  show ?case
  proof (cases m)
    case Nil
    have "parse_value F i (stringify_json F v @ CHR ''}'' # rest) = Some (Inr (v, CHR ''}'' # rest))"
      using pb Cons.prems(5) Nil n by (simp add: parses_back_def kv mt)
    then show ?thesis by (simp add: n Nil no_space mt colon upd kv)
  next
    case (Cons w ws)
    let ?t = "join_with '','' (map (member_text F) m)"
    have join: "join_with '','' (map (member_text F) (kv # m)) = member_text F kv @ '','' @ ?t"
      by (simp add: Cons)
    have len: "2 * length (stringify_json F v) < i \<and> 2 * length ?t + 1 < i"
      using Cons.prems(5) unfolding join n unfolding kv mt by simp
    have "member_text F w = CHR 34 # tl (member_text F w)"
      by (simp add: member_text_def quoted_def case_prod_beta)
    then have "?t = CHR 34 # tl ?t" by (cases ws) (simp_all add: Cons, metis append_Cons list.sel(3))
    then have skip: "skip_whitespace (?t @ CHR ''}'' # rest) = ?t @ CHR ''}'' # rest"
      by (metis append_Cons no_space json_space_chars(1))
    have "parse_value F i (stringify_json F v @ CHR '','' # ?t @ CHR ''}'' # rest) =
        Some (Inr (v, CHR '','' # ?t @ CHR ''}'' # rest))"
      using pb len by (simp add: parses_back_def)
    moreover have "parse_members F i (us @ [(k, v)]) (?t @ CHR ''}'' # rest) =
        Some (Inr (JObject ((us @ [(k, v)]) @ m), rest))"
      by (rule Cons.IH) (use Cons.prems(1,2,4) Cons len in \<open>simp_all add: kv\<close>)
    ultimately show ?thesis unfolding join by (simp add: n no_space skip mt colon upd kv)
  qed
qed simp

lemma parse_value_heads:
  "parse_value F (Suc n) (CHR 34 # r) =
     Some (map_sum id (\<lambda>(t, r'). (JString t, r')) (parse_string (CHR 34 # r)))"
  "parse_value F (Suc n) (CHR ''['' # r) =
     (let s1 = skip_whitespace r
      in if s1 \<noteq> [] \<and> hd s1 = CHR '']'' then Some (Inr (JArray [], tl s1)) else parse_items F n [] s1)"
  "parse_value F (Suc n) (CHR ''{'' # r) =
     (let s1 = skip_whitespace r
      in if s1 \<noteq> [] \<and> hd s1 = CHR ''}'' then Some (Inr (JObject [], tl s1)) else parse_members F n [] s1)"
  by (simp_all add: no_space)

lemma parse_value_number:
  assumes "is_digit c \<or> c = CHR ''-''"
  shows "parse_value F (Suc n) (c # r) = Some (parse_number F (c # r))"
proof -
  have "\<not> json_space c" "c \<noteq> CHR ''n''" "c \<noteq> CHR ''t''" "c \<noteq> CHR ''f''" "c \<noteq> CHR 34"
    "c \<noteq> CHR ''[''" "c \<noteq> CHR ''{''"
    using assms by (auto simp: digit_no_space is_digit_def)
  then show ?thesis using assms by (simp add: no_space)
qed

lemma parses_backI:
  assumes "\<And>n rest. ends_number rest \<Longrightarrow> 2 * length (stringify_json F v) < Suc n \<Longrightarrow>
    parse_value F (Suc n) (stringify_json F v @ rest) = Some (Inr (v, rest))"
  shows "parses_back F v"
  unfolding parses_back_def
proof (intro allI impI)
  fix n rest
  assume a: "ends_number rest" "2 * length (stringify_json F v) < n"
  then obtain k where "n = Suc k" by (cases n) auto
  with a assms show "parse_value F n (stringify_json F v @ rest) = Some (Inr (v, rest))" by blast
qed

declare parse_value.simps [simp del]

lemma string_parses_back: "plain t \<Longrightarrow> parses_back F (JString t)"
proof (rule parses_backI)
  fix n rest
  assume "plain t"
  then have "parse_string (CHR 34 # tl (quoted t @ rest)) = Inr (t, rest)"
    using parse_quoted [of t rest] by (simp add: quoted_def)
  then show "parse_value F (Suc n) (stringify_json F (JString t) @ rest) = Some (Inr (JString t, rest))"
    using parse_value_heads(1) [of F n "tl (quoted t @ rest)"] by (simp add: quoted_def)
qed

lemma number_parses_back:
  assumes "number_token (number_text F x)" and "fo_parse F (number_text F x) = Some x"
  shows "parses_back F (JNumber x)"
proof (rule parses_backI)
  fix n rest
  assume e: "ends_number (rest :: string)"
  obtain c r where c: "number_text F x = c # r" "is_digit c \<or> c = CHR ''-''"
    using assms(1) by (cases "number_text F x") auto
  show "parse_value F (Suc n) (stringify_json F (JNumber x) @ rest) = Some (Inr (JNumber x, rest))"
    using parse_value_number [OF c(2), of F n "r @ rest"] parse_number_token [OF assms e] c(1) by simp
qed

lemma array_parses_back:
  assumes "list_all (storable F) vs" and "\<forall>v \<in> set vs. parses_back F v"
  shows "parses_back F (JArray vs)"
proof (rule parses_backI)
  fix n rest
  let ?t = "join_with '','' (map (stringify_json F) vs)"
  assume n: "2 * length (stringify_json F (JArray vs)) < Suc n"
  show "parse_value F (Suc n) (stringify_json F (JArray vs) @ rest) = Some (Inr (JArray vs, rest))"
  proof (cases vs)
    case Nil
    then show ?thesis by (simp add: parse_value_heads no_space)
  next
    case (Cons w ws)
    have "storable F w" using assms(1) Cons by simp
    then obtain c r where c: "stringify_json F w = c # r" "\<not> json_space c" "c \<noteq> CHR '']''"
      by (rule stringify_start)
    then have t: "?t = c # tl ?t" by (cases ws) (simp_all add: Cons)
    have "skip_whitespace (?t @ CHR '']'' # rest) = ?t @ CHR '']'' # rest"
      by (subst (1 2) t) (simp add: no_space c(2))
    moreover have "hd (?t @ CHR '']'' # rest) \<noteq> CHR '']''" by (subst t) (simp add: c(3))
    moreover have "parse_items F n [] (?t @ CHR '']'' # rest) = Some (Inr (JArray ([] @ vs), rest))"
      by (rule parse_items_back) (use assms Cons n in simp_all)
    ultimately show ?thesis by (simp add: parse_value_heads Let_def)
  qed
qed

lemma object_parses_back:
  assumes "list_all (\<lambda>(k, v). plain k \<and> storable F v) m" and "distinct (map fst m)"
    and "\<forall>v \<in> snd ` set m. parses_back F v"
  shows "parses_back F (JObject m)"
proof (rule parses_backI)
  fix n rest
  let ?t = "join_with '','' (map (member_text F) m)"
  have str: "stringify_json F (JObject m) = CHR ''{'' # ?t @ ''}''" by (simp add: member_text_def)
  assume n: "2 * length (stringify_json F (JObject m)) < Suc n"
  show "parse_value F (Suc n) (stringify_json F (JObject m) @ rest) = Some (Inr (JObject m, rest))"
  proof (cases m)
    case Nil
    then show ?thesis by (simp add: parse_value_heads no_space)
  next
    case (Cons w ws)
    have "member_text F w = CHR 34 # tl (member_text F w)"
      by (simp add: member_text_def quoted_def case_prod_beta)
    then have t: "?t = CHR 34 # tl ?t" by (cases ws) (simp_all add: Cons, metis append_Cons list.sel(3))
    have "skip_whitespace (?t @ CHR ''}'' # rest) = ?t @ CHR ''}'' # rest"
      by (subst (1 2) t) (simp add: no_space)
    moreover have "hd (?t @ CHR ''}'' # rest) \<noteq> CHR ''}''" by (subst t) simp
    moreover have "parse_members F n [] (?t @ CHR ''}'' # rest) = Some (Inr (JObject ([] @ m), rest))"
      by (rule parse_members_back) (use assms Cons n str in simp_all)
    ultimately show ?thesis unfolding str by (simp add: parse_value_heads Let_def)
  qed
qed

lemma word_parses_back: "parses_back F JNull" "parses_back F (JBool b)"
  by (rule parses_backI; cases b;
      simp add: parse_value.simps no_space parse_null_def parse_bool_def consume_word_def)+

lemma storable_parses_back: "storable F v \<Longrightarrow> parses_back F v"
proof (induction v)
  case (JArray vs)
  then show ?case by (intro array_parses_back) (auto simp: list_all_iff)
next
  case (JObject m)
  then show ?case by (intro object_parses_back) (auto simp: list_all_iff)
qed (auto intro: word_parses_back string_parses_back number_parses_back)

lemma stored_back:
  assumes "storable F v"
  shows "parse_json F (stringify_json F v) = Some (Inr v)"
proof -
  have "parse_value F (2 * length (stringify_json F v) + 1) (stringify_json F v @ []) = Some (Inr (v, []))"
    using storable_parses_back [OF assms] unfolding parses_back_def by (metis ends_number_simps(1) less_add_one)
  then show ?thesis by (simp add: parse_json_def)
qed

text \<open>
  C31. Every storable value is read back from its printed text.
\<close>

theorem json_roundtrip:
  assumes "storable F v"
  shows "parse_json F (stringify_json F v) = Some (Inr v)"
  by (rule stored_back [OF assms])

lemma json_roundtrip_witness:
  fixes F :: "nat float_ops"
  defines "F \<equiv> \<lparr>fo_whole = \<lambda>_. True, fo_as_i64 = int, fo_to_string = show_nat, fo_parse = parse_unsigned 1000\<rparr>"
  shows "parse_json F (stringify_json F (JObject [(''id'', JNumber 42), (''tags'', JArray [JString ''a b'', JNull])])) =
      Some (Inr (JObject [(''id'', JNumber 42), (''tags'', JArray [JString ''a b'', JNull])])) \<and>
    stringify_json F (JArray [JNumber 42, JBool True]) = ''[42,true]''"
proof
  have n: "number_text F 42 = ''42''" unfolding F_def by code_simp
  have "fo_parse F ''42'' = Some 42" unfolding F_def by code_simp
  then have "storable F (JObject [(''id'', JNumber 42), (''tags'', JArray [JString ''a b'', JNull])])"
    using n by (simp add: is_digit_def plain_char_def number_char_def)
  then show "parse_json F (stringify_json F (JObject [(''id'', JNumber 42), (''tags'', JArray [JString ''a b'', JNull])])) =
      Some (Inr (JObject [(''id'', JNumber 42), (''tags'', JArray [JString ''a b'', JNull])]))"
    by (rule json_roundtrip)
  show "stringify_json F (JArray [JNumber 42, JBool True]) = ''[42,true]''" using n by simp
qed

lemma escape_length: "length s \<le> length (escape_string s)"
  by (induction s) (auto simp: escape_string_def escape_char_def)

lemma escape_fixed: "escape_string s = s \<Longrightarrow> plain s"
proof (induction s)
  case (Cons c s)
  have e: "escape_char c @ escape_string s = c # s" using Cons.prems by (simp add: escape_string_def)
  have "plain_char c"
  proof (rule ccontr)
    assume "\<not> plain_char c"
    then have "length (escape_char c) = 2" by (auto simp: plain_char_def escape_char_def)
    then have "Suc (Suc (length (escape_string s))) = Suc (length s)"
      using arg_cong [OF e, of length] by simp
    then show False using escape_length [of s] by simp
  qed
  moreover from this have "escape_char c = [c]" by (auto simp: plain_char_def escape_char_def)
  ultimately show ?case using e Cons.IH by simp
qed simp

lemma escape_quote: "CHR 34 \<notin> set s \<Longrightarrow> CHR 34 \<notin> set (escape_string s)"
  by (induction s) (auto simp: escape_string_def escape_char_def)


text \<open>A string comes back exactly if it contains none of the characters that printing escapes.\<close>

theorem string_roundtrip_iff:
  "parse_json F (stringify_json F (JString s)) = Some (Inr (JString s)) \<longleftrightarrow> plain s"
proof
  assume "plain s"
  then show "parse_json F (stringify_json F (JString s)) = Some (Inr (JString s))"
    by (intro stored_back) simp
next
  let ?b = "escape_string s @ [CHR 34]"
  assume "parse_json F (stringify_json F (JString s)) = Some (Inr (JString s))"
  moreover have "parse_string (CHR 34 # ?b) =
      Inr (takeWhile (\<lambda>c. c \<noteq> CHR 34) ?b, tl (dropWhile (\<lambda>c. c \<noteq> CHR 34) ?b))"
    by (simp add: parse_string_def Let_def)
  ultimately have eq: "takeWhile (\<lambda>c. c \<noteq> CHR 34) ?b = s"
    by (simp add: parse_json_def quoted_def parse_value_heads)
  have "CHR 34 \<notin> set (takeWhile (\<lambda>c. c \<noteq> CHR 34) ?b)"
    using set_takeWhileD [of "CHR 34" "\<lambda>c. c \<noteq> CHR 34" ?b] by blast
  then have "CHR 34 \<notin> set s" unfolding eq .
  then have "takeWhile (\<lambda>c. c \<noteq> CHR 34) ?b = escape_string s"
    by (subst takeWhile_append2) (use escape_quote [of s] in auto)
  with eq show "plain s" by (intro escape_fixed) simp
qed

end
