(* ===== verification/Sessions.thy ===== *)
theory Sessions
  imports EventChain
begin

text \<open>
  Sessions, from \<^verbatim>\<open>lithair-core/src/session\<close>: the session and its data, cookies, the store in
  memory, the store over the event log with its replay, and the middleware that finds the session of
  a request. The interface of a store is the locale \<open>session_store\<close>; the middleware is
  verified against it and both stores are instances. Instants are integers; JSON values are the
  type \<open>'v\<close>, and reading a value as a string is the argument \<open>as_string\<close>.
\<close>

section \<open>Sessions\<close>

record 'v session =
  ss_id :: string
  ss_data :: "(string, 'v) dict"
  ss_created_at :: int
  ss_expires_at :: int
  ss_last_accessed_at :: int

definition session_new :: "int \<Rightarrow> string \<Rightarrow> int \<Rightarrow> 'v session" where
  "session_new now i expires =
     \<lparr>ss_id = i, ss_data = [], ss_created_at = now, ss_expires_at = expires, ss_last_accessed_at = now\<rparr>"

definition is_expired :: "int \<Rightarrow> 'v session \<Rightarrow> bool" where
  "is_expired now s \<longleftrightarrow> ss_expires_at s \<le> now"

definition touch :: "int \<Rightarrow> 'v session \<Rightarrow> 'v session" where
  "touch now s = s\<lparr>ss_last_accessed_at := now\<rparr>"

definition session_get :: "('v \<Rightarrow> 'a option) \<Rightarrow> string \<Rightarrow> 'v session \<Rightarrow> 'a option" where
  "session_get from_value k s = Option.bind (map_of (ss_data s) k) from_value"

definition session_set :: "string \<Rightarrow> 'v \<Rightarrow> 'v session \<Rightarrow> 'v session" where
  "session_set k v s = s\<lparr>ss_data := AList.update k v (ss_data s)\<rparr>"

definition session_remove :: "string \<Rightarrow> 'v session \<Rightarrow> 'v option \<times> 'v session" where
  "session_remove k s = (map_of (ss_data s) k, s\<lparr>ss_data := AList.delete k (ss_data s)\<rparr>)"

definition session_contains :: "string \<Rightarrow> 'v session \<Rightarrow> bool" where
  "session_contains k s \<longleftrightarrow> map_of (ss_data s) k \<noteq> None"

definition session_clear :: "'v session \<Rightarrow> 'v session" where
  "session_clear s = s\<lparr>ss_data := []\<rparr>"

definition session_len :: "'v session \<Rightarrow> nat" where
  "session_len s = length (ss_data s)"

section \<open>Cookies\<close>

datatype same_site = Strict | Lax | SameSiteNone

record cookie_config =
  co_name :: string
  co_domain :: "string option"
  co_path :: string
  co_secure :: bool
  co_http_only :: bool
  co_same_site :: same_site
  co_max_age :: "int option"

definition cookie_config_default :: cookie_config where
  "cookie_config_default =
     \<lparr>co_name = ''session_id'', co_domain = None, co_path = ''/'', co_secure = True,
      co_http_only = True, co_same_site = Lax, co_max_age = Some 86400\<rparr>"

definition show_i64 :: "int \<Rightarrow> string" where
  "show_i64 i = (if i < 0 then ''-'' @ show_nat (nat (- i)) else show_nat (nat i))"

fun join_parts :: "string \<Rightarrow> string list \<Rightarrow> string" where
  "join_parts sep [] = []"
| "join_parts sep [x] = x"
| "join_parts sep (x # y # r) = x @ sep @ join_parts sep (y # r)"

fun same_site_name :: "same_site \<Rightarrow> string" where
  "same_site_name Strict = ''Strict''"
| "same_site_name Lax = ''Lax''"
| "same_site_name SameSiteNone = ''None''"

definition build_set_cookie ::
  "(int \<Rightarrow> string) \<Rightarrow> cookie_config \<Rightarrow> string \<Rightarrow> int option \<Rightarrow> string"
where
  "build_set_cookie fmt c sid expires =
     join_parts ''; ''
       ([co_name c @ ''='' @ sid]
        @ (case co_domain c of Some d \<Rightarrow> [''Domain='' @ d] | None \<Rightarrow> [])
        @ [''Path='' @ co_path c]
        @ (case co_max_age c of Some m \<Rightarrow> [''Max-Age='' @ show_i64 m] | None \<Rightarrow> [])
        @ (case expires of Some t \<Rightarrow> [''Expires='' @ fmt t] | None \<Rightarrow> [])
        @ (if co_secure c then [''Secure''] else [])
        @ (if co_http_only c then [''HttpOnly''] else [])
        @ [''SameSite='' @ same_site_name (co_same_site c)])"

definition build_delete_cookie :: "cookie_config \<Rightarrow> string" where
  "build_delete_cookie c = co_name c @ ''=; Path='' @ co_path c @ ''; Max-Age=0''"

definition strip_prefix :: "string \<Rightarrow> string \<Rightarrow> string option" where
  "strip_prefix p s = (if take (length p) s = p then Some (drop (length p) s) else None)"

fun find_map :: "('a \<Rightarrow> 'b option) \<Rightarrow> 'a list \<Rightarrow> 'b option" where
  "find_map f [] = None"
| "find_map f (x # xs) = (case f x of Some y \<Rightarrow> Some y | None \<Rightarrow> find_map f xs)"

definition extract_from_header :: "cookie_config \<Rightarrow> string \<Rightarrow> string option" where
  "extract_from_header c h =
     find_map (\<lambda>part. strip_prefix (co_name c @ ''='') (trim part)) (split_on (CHR '';'') h)"

section \<open>The store in memory\<close>

type_synonym 'v memory_store = "(string, 'v session) dict"

definition mem_new :: "'v memory_store" where
  "mem_new = []"

definition mem_get :: "string \<Rightarrow> 'v memory_store \<Rightarrow> 'v session option" where
  "mem_get i st = map_of st i"

definition mem_set :: "'v session \<Rightarrow> 'v memory_store \<Rightarrow> 'v memory_store" where
  "mem_set s st = AList.update (ss_id s) s st"

definition mem_delete :: "string \<Rightarrow> 'v memory_store \<Rightarrow> 'v memory_store" where
  "mem_delete i st = AList.delete i st"

definition mem_exists :: "string \<Rightarrow> 'v memory_store \<Rightarrow> bool" where
  "mem_exists i st \<longleftrightarrow> map_of st i \<noteq> None"

text \<open>The cleanup reads the clock again for every session: \<open>clk i\<close> is what it reads for \<open>i\<close>.\<close>

definition mem_cleanup :: "(string \<Rightarrow> int) \<Rightarrow> 'v memory_store \<Rightarrow> nat \<times> 'v memory_store" where
  "mem_cleanup clk st =
     (let kept = filter (\<lambda>(i, s). \<not> is_expired (clk i) s) st
      in (length st - length kept, kept))"

definition mem_count :: "'v memory_store \<Rightarrow> nat" where
  "mem_count st = length st"

section \<open>The store over the event log\<close>

record 'v session_data =
  sd_id :: string
  sd_user_id :: string
  sd_role :: string
  sd_expires_at :: int
  sd_data :: "(string, 'v) dict"

type_synonym 'v session_state = "(string, 'v session_data) dict"

text \<open>
  The three event structures declare the same fields; they differ in how they are applied.
\<close>

record 'v session_event =
  se_event_type :: string
  se_session_id :: string
  se_user_id :: "string option"
  se_role :: "string option"
  se_expires_at :: "int option"
  se_data :: "(string, 'v) dict option"

definition apply_created :: "int \<Rightarrow> 'v session_event \<Rightarrow> 'v session_state \<Rightarrow> 'v session_state" where
  "apply_created now e st =
     AList.update (se_session_id e)
       \<lparr>sd_id = se_session_id e,
        sd_user_id = (case se_user_id e of Some u \<Rightarrow> u | None \<Rightarrow> []),
        sd_role = (case se_role e of Some r \<Rightarrow> r | None \<Rightarrow> []),
        sd_expires_at = (case se_expires_at e of Some t \<Rightarrow> t | None \<Rightarrow> now),
        sd_data = (case se_data e of Some d \<Rightarrow> d | None \<Rightarrow> [])\<rparr> st"

definition apply_updated :: "'v session_event \<Rightarrow> 'v session_state \<Rightarrow> 'v session_state" where
  "apply_updated e st =
     (case map_of st (se_session_id e) of
        None \<Rightarrow> st
      | Some s \<Rightarrow>
          (case se_data e of
             None \<Rightarrow> st
           | Some d \<Rightarrow> AList.update (se_session_id e) (s\<lparr>sd_data := d\<rparr>) st))"

definition apply_deleted :: "'v session_event \<Rightarrow> 'v session_state \<Rightarrow> 'v session_state" where
  "apply_deleted e st = AList.delete (se_session_id e) st"

definition data_of_session :: "('v \<Rightarrow> string option) \<Rightarrow> 'v session \<Rightarrow> 'v session_data" where
  "data_of_session as_string s =
     \<lparr>sd_id = ss_id s,
      sd_user_id = (case session_get as_string ''user_id'' s of Some u \<Rightarrow> u | None \<Rightarrow> []),
      sd_role = (case session_get as_string ''role'' s of Some r \<Rightarrow> r | None \<Rightarrow> []),
      sd_expires_at = ss_expires_at s, sd_data = ss_data s\<rparr>"

definition session_of_data :: "int \<Rightarrow> 'v session_data \<Rightarrow> 'v session" where
  "session_of_data now d = (session_new now (sd_id d) (sd_expires_at d))\<lparr>ss_data := sd_data d\<rparr>"

text \<open>
  The derived serialisation of the events, and the three derived readers.
\<close>

record 'v session_codec =
  sc_to_json :: "'v session_event \<Rightarrow> string"
  sc_created :: "string \<Rightarrow> 'v session_event option"
  sc_updated :: "string \<Rightarrow> 'v session_event option"
  sc_deleted :: "string \<Rightarrow> 'v session_event option"
  sc_as_string :: "'v \<Rightarrow> string option"

record 'v persistent_store =
  ps_state :: "'v session_state"
  ps_events :: event_store

definition replay_line :: "'v session_codec \<Rightarrow> int \<Rightarrow> string \<Rightarrow> 'v session_state \<Rightarrow> 'v session_state" where
  "replay_line K now line st =
     (case sc_created K line of
        Some e \<Rightarrow> apply_created now e st
      | None \<Rightarrow>
          (case sc_updated K line of
             Some e \<Rightarrow> apply_updated e st
           | None \<Rightarrow>
               (case sc_deleted K line of Some e \<Rightarrow> apply_deleted e st | None \<Rightarrow> st)))"

text \<open>The clock of the replay: \<open>clk n\<close> is what the \<open>n\<close>-th event reads.\<close>

fun replay_lines ::
  "'v session_codec \<Rightarrow> (nat \<Rightarrow> int) \<Rightarrow> nat \<Rightarrow> string list \<Rightarrow> 'v session_state \<Rightarrow> 'v session_state"
where
  "replay_lines K clk n [] st = st"
| "replay_lines K clk n (l # ls) st = replay_lines K clk (n + 1) ls (replay_line K (clk n) l st)"

definition persistent_new ::
  "(string \<Rightarrow> u32) \<Rightarrow> event_codec \<Rightarrow> store_settings \<Rightarrow> 'v session_codec \<Rightarrow> (nat \<Rightarrow> int) \<Rightarrow> event_files \<Rightarrow>
   (engine_error + 'v persistent_store) option"
where
  "persistent_new crc C st K clk d =
     (let es = event_store_with_storage crc C st (file_storage_new (st_max_log_file_size st) d)
      in map_option
           (map_sum id (\<lambda>ls. \<lparr>ps_state = replay_lines K clk 0 ls [], ps_events = es\<rparr>))
           (get_all_events crc C es))"

definition persist_event ::
  "(string \<Rightarrow> u32) \<Rightarrow> 'v session_codec \<Rightarrow> 'v session_event \<Rightarrow> event_store \<Rightarrow> event_store"
where
  "persist_event crc K e es = es_flush_events crc (es_append_event crc (sc_to_json K e) es)"

definition ps_get :: "int \<Rightarrow> string \<Rightarrow> 'v persistent_store \<Rightarrow> 'v session option" where
  "ps_get now i p = map_option (session_of_data now) (map_of (ps_state p) i)"

definition set_event :: "'v session_codec \<Rightarrow> bool \<Rightarrow> 'v session \<Rightarrow> 'v session_event" where
  "set_event K exists s =
     \<lparr>se_event_type = (if exists then ''SessionUpdated.v1'' else ''SessionCreated.v1''),
      se_session_id = ss_id s,
      se_user_id = Some (sd_user_id (data_of_session (sc_as_string K) s)),
      se_role = Some (sd_role (data_of_session (sc_as_string K) s)),
      se_expires_at = Some (ss_expires_at s), se_data = Some (ss_data s)\<rparr>"

definition ps_set ::
  "(string \<Rightarrow> u32) \<Rightarrow> 'v session_codec \<Rightarrow> int \<Rightarrow> 'v session \<Rightarrow> 'v persistent_store \<Rightarrow> 'v persistent_store"
where
  "ps_set crc K now s p =
     (let exists = map_of (ps_state p) (ss_id s) \<noteq> None;
          e = set_event K exists s
      in \<lparr>ps_state = (if exists then apply_updated e (ps_state p) else apply_created now e (ps_state p)),
          ps_events = persist_event crc K e (ps_events p)\<rparr>)"

definition deleted_event :: "string \<Rightarrow> 'v session_event" where
  "deleted_event i =
     \<lparr>se_event_type = ''SessionDeleted.v1'', se_session_id = i, se_user_id = None, se_role = None,
      se_expires_at = None, se_data = None\<rparr>"

definition ps_delete ::
  "(string \<Rightarrow> u32) \<Rightarrow> 'v session_codec \<Rightarrow> string \<Rightarrow> 'v persistent_store \<Rightarrow> 'v persistent_store"
where
  "ps_delete crc K i p =
     \<lparr>ps_state = apply_deleted (deleted_event i) (ps_state p),
      ps_events = persist_event crc K (deleted_event i) (ps_events p)\<rparr>"

definition ps_cleanup ::
  "(string \<Rightarrow> u32) \<Rightarrow> 'v session_codec \<Rightarrow> int \<Rightarrow> 'v persistent_store \<Rightarrow> nat \<times> 'v persistent_store"
where
  "ps_cleanup crc K now p =
     (let ids = map fst (filter (\<lambda>(i, d). sd_expires_at d \<le> now) (ps_state p))
      in (length ids, fold (ps_delete crc K) ids p))"

definition ps_count :: "'v persistent_store \<Rightarrow> nat" where
  "ps_count p = length (ps_state p)"

section \<open>The middleware\<close>

record session_config =
  sg_cookie_enabled :: bool
  sg_bearer_enabled :: bool
  sg_cookie :: cookie_config

definition session_config_default :: session_config where
  "session_config_default =
     \<lparr>sg_cookie_enabled = True, sg_bearer_enabled = False, sg_cookie = cookie_config_default\<rparr>"

text \<open>The two headers of a request that are read, where they are present and plain text.\<close>

record credentials =
  cr_cookie :: "string option"
  cr_authorization :: "string option"

definition extract_from_bearer :: "credentials \<Rightarrow> string option" where
  "extract_from_bearer h =
     map_option trim (Option.bind (cr_authorization h) (strip_prefix ''Bearer ''))"

definition extract_session_id :: "session_config \<Rightarrow> credentials \<Rightarrow> string option" where
  "extract_session_id g h =
     (case (if sg_cookie_enabled g
            then Option.bind (cr_cookie h) (extract_from_header (sg_cookie g)) else None) of
        Some i \<Rightarrow> Some i
      | None \<Rightarrow> (if sg_bearer_enabled g then extract_from_bearer h else None))"

text \<open>
  The middleware over any store; \<open>t0\<close> is the time of the lookup, \<open>t1\<close> of the expiry check, \<open>t2\<close> of the
  access and \<open>t3\<close> of the write back.
\<close>

definition extract_session ::
  "(int \<Rightarrow> string \<Rightarrow> 's \<Rightarrow> 'v session option) \<Rightarrow> (int \<Rightarrow> 'v session \<Rightarrow> 's \<Rightarrow> 's) \<Rightarrow> (string \<Rightarrow> 's \<Rightarrow> 's) \<Rightarrow>
   session_config \<Rightarrow> int \<Rightarrow> int \<Rightarrow> int \<Rightarrow> int \<Rightarrow> credentials \<Rightarrow> 's \<Rightarrow> 'v session option \<times> 's"
where
  "extract_session get_op set_op del_op g t0 t1 t2 t3 h st =
     (case extract_session_id g h of
        None \<Rightarrow> (None, st)
      | Some i \<Rightarrow>
          (case get_op t0 i st of
             None \<Rightarrow> (None, st)
           | Some s \<Rightarrow>
               (if is_expired t1 s then (None, del_op i st)
                else (Some (touch t2 s), set_op t3 (touch t2 s) st))))"

section \<open>The interface of a store\<close>

text \<open>What a client sees of a session, apart from the times of its accesses.\<close>

definition session_view :: "'v session \<Rightarrow> string \<times> (string, 'v) dict \<times> int" where
  "session_view s = (ss_id s, ss_data s, ss_expires_at s)"

text \<open>
  What the middleware needs of a store: deletion removes, writing back what was read keeps it, and
  nothing else changes. \<open>sound\<close> is the invariant of the store.
\<close>

locale session_store =
  fixes get_op :: "int \<Rightarrow> string \<Rightarrow> 's \<Rightarrow> 'v session option"
    and set_op :: "int \<Rightarrow> 'v session \<Rightarrow> 's \<Rightarrow> 's"
    and del_op :: "string \<Rightarrow> 's \<Rightarrow> 's"
    and sound :: "'s \<Rightarrow> bool"
  assumes get_id: "sound st \<Longrightarrow> get_op t i st = Some s \<Longrightarrow> ss_id s = i"
    and get_delete: "get_op t i (del_op j st) = (if i = j then None else get_op t i st)"
    and get_set_other: "i \<noteq> ss_id s \<Longrightarrow> get_op t i (set_op u s st) = get_op t i st"
    and get_set_back: "sound st \<Longrightarrow> get_op t (ss_id s) st = Some old \<Longrightarrow> ss_expires_at s = ss_expires_at old \<Longrightarrow>
      \<exists>new. get_op t' (ss_id s) (set_op u s st) = Some new \<and> ss_id new = ss_id s \<and>
        ss_data new = ss_data s \<and> ss_expires_at new = ss_expires_at s"
    and sound_delete: "sound st \<Longrightarrow> sound (del_op j st)"
    and sound_set: "sound st \<Longrightarrow> sound (set_op u s st)"
    and get_time: "map_option session_view (get_op t i st) = map_option session_view (get_op u i st)"
begin

lemma admits:
  "fst (extract_session get_op set_op del_op g t0 t1 t2 t3 h st) = Some s' \<longleftrightarrow>
    (\<exists>i s. extract_session_id g h = Some i \<and> get_op t0 i st = Some s \<and> t1 < ss_expires_at s \<and>
      s' = touch t2 s)"
  by (auto simp: extract_session_def is_expired_def split: option.split)

lemma expired_is_removed:
  assumes "extract_session_id g h = Some i" and "get_op t0 i st = Some s" and "ss_expires_at s \<le> t1"
  shows "extract_session get_op set_op del_op g t0 t1 t2 t3 h st = (None, del_op i st)"
  using assms by (simp add: extract_session_def is_expired_def)

lemma rest_unchanged:
  assumes "sound st"
  shows "map_option session_view (get_op t i (snd (extract_session get_op set_op del_op g t0 t1 t2 t3 h st))) =
    (if extract_session_id g h = Some i \<and> (\<exists>s. get_op t0 i st = Some s \<and> ss_expires_at s \<le> t1)
     then None else map_option session_view (get_op t i st))"
proof (cases "\<exists>k s. extract_session_id g h = Some k \<and> get_op t0 k st = Some s")
  case False
  then have "extract_session get_op set_op del_op g t0 t1 t2 t3 h st = (None, st)"
    by (auto simp: extract_session_def split: option.split)
  with False show ?thesis by auto
next
  case True
  then obtain k s where k: "extract_session_id g h = Some k" "get_op t0 k st = Some s" by blast
  show ?thesis
  proof (cases "ss_expires_at s \<le> t1")
    case True
    from expired_is_removed [OF k True] show ?thesis using k True by (simp add: get_delete)
  next
    case False
    then have e: "snd (extract_session get_op set_op del_op g t0 t1 t2 t3 h st) = set_op t3 (touch t2 s) st"
      using k by (simp add: extract_session_def is_expired_def)
    have sid: "ss_id s = k" by (rule get_id [OF assms k(2)])
    show ?thesis
    proof (cases "i = k")
      case True
      have "ss_id (touch t2 s) = k" "ss_data (touch t2 s) = ss_data s"
        "ss_expires_at (touch t2 s) = ss_expires_at s"
        by (simp_all add: touch_def sid)
      with get_set_back [of st t0 "touch t2 s" s t t3] assms k(2)
      have "map_option session_view (get_op t k (set_op t3 (touch t2 s) st)) = Some (k, ss_data s, ss_expires_at s)"
        by (auto simp: session_view_def)
      also have "\<dots> = map_option session_view (get_op t0 k st)" by (simp add: k(2) sid session_view_def)
      also have "\<dots> = map_option session_view (get_op t k st)" by (rule get_time)
      finally show ?thesis using e k False True by simp
    next
      case other: False
      with get_set_other [of i "touch t2 s" t t3 st] show ?thesis
        using e k by (simp add: touch_def sid)
    qed
  qed
qed

end

section \<open>Both stores implement it\<close>

definition mem_sound :: "'v memory_store \<Rightarrow> bool" where
  "mem_sound st \<longleftrightarrow> (\<forall>i s. map_of st i = Some s \<longrightarrow> ss_id s = i)"

interpretation memory: session_store "\<lambda>t. mem_get" "\<lambda>t. mem_set" mem_delete mem_sound
  by unfold_locales
    (auto simp: mem_get_def mem_set_def mem_delete_def mem_sound_def dict_simps split: if_splits)

definition ps_sound :: "'v persistent_store \<Rightarrow> bool" where
  "ps_sound p \<longleftrightarrow> (\<forall>i d. map_of (ps_state p) i = Some d \<longrightarrow> sd_id d = i)"

lemma ps_set_state:
  "map_of (ps_state (ps_set crc K now s p)) i =
    (if i = ss_id s
     then Some (case map_of (ps_state p) i of
                  Some d \<Rightarrow> d\<lparr>sd_data := ss_data s\<rparr>
                | None \<Rightarrow> data_of_session (sc_as_string K) s)
     else map_of (ps_state p) i)"
  by (auto simp: ps_set_def Let_def apply_updated_def apply_created_def set_event_def
      data_of_session_def dict_simps split: option.split)

lemma ps_delete_state:
  "map_of (ps_state (ps_delete crc K j p)) i = (if i = j then None else map_of (ps_state p) i)"
  by (simp add: ps_delete_def apply_deleted_def deleted_event_def dict_simps)

interpretation persistent: session_store ps_get "ps_set crc K" "ps_delete crc K" ps_sound
  for crc and K :: "'v session_codec"
proof unfold_locales
  fix p :: "'v persistent_store" and s old :: "'v session" and t i j u t' v
  show "ps_sound p \<Longrightarrow> ps_get t i p = Some s \<Longrightarrow> ss_id s = i"
    by (auto simp: ps_get_def ps_sound_def session_of_data_def session_new_def)
  show "ps_get t i (ps_delete crc K j p) = (if i = j then None else ps_get t i p)"
    by (simp add: ps_get_def ps_delete_state)
  show "i \<noteq> ss_id s \<Longrightarrow> ps_get t i (ps_set crc K u s p) = ps_get t i p"
    by (simp add: ps_get_def ps_set_state)
  show "ps_sound p \<Longrightarrow> ps_get t (ss_id s) p = Some old \<Longrightarrow> ss_expires_at s = ss_expires_at old \<Longrightarrow>
      \<exists>new. ps_get t' (ss_id s) (ps_set crc K u s p) = Some new \<and> ss_id new = ss_id s \<and>
        ss_data new = ss_data s \<and> ss_expires_at new = ss_expires_at s"
    by (auto simp: ps_get_def ps_set_state ps_sound_def session_of_data_def session_new_def)
  show "ps_sound p \<Longrightarrow> ps_sound (ps_delete crc K j p)"
    by (simp add: ps_sound_def ps_delete_state)
  show "ps_sound p \<Longrightarrow> ps_sound (ps_set crc K u s p)"
    by (auto simp: ps_sound_def ps_set_state data_of_session_def split: option.splits if_splits)
  show "map_option session_view (ps_get t i p) = map_option session_view (ps_get v i p)"
    by (simp add: ps_get_def option.map_comp session_of_data_def session_new_def session_view_def comp_def)
qed

section \<open>Reachable stores\<close>

datatype 'v session_op = SetSession int "'v session" | DeleteSession string | CleanupSessions int

fun ps_step ::
  "(string \<Rightarrow> u32) \<Rightarrow> 'v session_codec \<Rightarrow> 'v session_op \<Rightarrow> 'v persistent_store \<Rightarrow> 'v persistent_store"
where
  "ps_step crc K (SetSession now s) p = ps_set crc K now s p"
| "ps_step crc K (DeleteSession i) p = ps_delete crc K i p"
| "ps_step crc K (CleanupSessions now) p = snd (ps_cleanup crc K now p)"

definition ps_run ::
  "(string \<Rightarrow> u32) \<Rightarrow> 'v session_codec \<Rightarrow> 'v session_op list \<Rightarrow> 'v persistent_store \<Rightarrow> 'v persistent_store"
where
  "ps_run crc K ops p = fold (ps_step crc K) ops p"

abbreviation keyed :: "'v session_state \<Rightarrow> bool" where
  "keyed st \<equiv> \<forall>i d. map_of st i = Some d \<longrightarrow> sd_id d = i"

lemma keyed_update: "keyed st \<Longrightarrow> sd_id d = i \<Longrightarrow> keyed (AList.update i d st)"
  by (simp add: dict_simps)

lemma keyed_created: "keyed st \<Longrightarrow> keyed (apply_created now e st)"
  unfolding apply_created_def by (rule keyed_update) simp_all

lemma keyed_updated: "keyed st \<Longrightarrow> keyed (apply_updated e st)"
  by (cases "map_of st (se_session_id e)"; cases "se_data e") (simp_all add: apply_updated_def dict_simps)

lemma keyed_deleted: "keyed st \<Longrightarrow> keyed (apply_deleted e st)"
  by (simp add: apply_deleted_def dict_simps)

lemma replay_line_sound:
  assumes "keyed st"
  shows "keyed (replay_line K now l st)"
proof (cases "sc_created K l")
  case (Some e)
  show ?thesis unfolding replay_line_def Some option.case by (rule keyed_created [OF assms])
next
  case none: None
  show ?thesis
  proof (cases "sc_updated K l")
    case (Some e)
    show ?thesis unfolding replay_line_def none Some option.case by (rule keyed_updated [OF assms])
  next
    case None
    show ?thesis
      unfolding replay_line_def none None option.case
      by (cases "sc_deleted K l") (use assms keyed_deleted [OF assms] in simp_all)
  qed
qed

lemma replay_lines_sound:
  "keyed st \<Longrightarrow> keyed (replay_lines K clk n ls st)"
proof (induction ls arbitrary: n st)
  case (Cons l ls)
  show ?case using Cons.IH [OF replay_line_sound [OF Cons.prems, of K "clk n" l], of "n + 1"] by simp
qed simp

lemma new_sound: "persistent_new crc C st K clk d = Some (Inr p) \<Longrightarrow> ps_sound p"
proof -
  assume "persistent_new crc C st K clk d = Some (Inr p)"
  then obtain z :: "engine_error + string list" where "map_sum id (\<lambda>ls. \<lparr>ps_state = replay_lines K clk 0 ls [],
      ps_events = event_store_with_storage crc C st (file_storage_new (st_max_log_file_size st) d)\<rparr>) z = Inr p"
    by (auto simp: persistent_new_def Let_def)
  then obtain ls where "ps_state p = replay_lines K clk 0 ls []" by (cases z) auto
  then show ?thesis using replay_lines_sound [of "[]" K clk 0 ls] by (simp add: ps_sound_def)
qed

lemma deletes_sound: "ps_sound p \<Longrightarrow> ps_sound (fold (ps_delete crc K) ids p)"
  by (induction ids arbitrary: p) (simp_all add: persistent.sound_delete)

lemma run_sound: "ps_sound p \<Longrightarrow> ps_sound (ps_run crc K ops p)"
proof (induction ops arbitrary: p)
  case (Cons a ops)
  have "ps_sound (ps_step crc K a p)"
    by (cases a) (use Cons.prems in \<open>auto simp: persistent.sound_delete persistent.sound_set
        deletes_sound ps_cleanup_def Let_def\<close>)
  from Cons.IH [OF this] show ?case by (simp add: ps_run_def)
qed (simp add: ps_run_def)

section \<open>The middleware\<close>

text \<open>
  C34. The middleware admits exactly the requests whose session is stored and not expired, over either
  store; it removes an expired session and leaves the content of every other session as it was.
\<close>

theorem middleware_admits_live:
  fixes K :: "'v session_codec" and ops g t0 t1 t2 t3 h
  assumes "mem_sound m" and "persistent_new crc C st K clk d = Some (Inr p0)"
  defines "p \<equiv> ps_run crc K ops p0"
    and "mem \<equiv> extract_session (\<lambda>t. mem_get) (\<lambda>t. mem_set) mem_delete g t0 t1 t2 t3 h m"
  defines "per \<equiv> extract_session ps_get (ps_set crc K) (ps_delete crc K) g t0 t1 t2 t3 h p"
  shows "(fst mem = Some s' \<longleftrightarrow> (\<exists>i s. extract_session_id g h = Some i \<and> mem_get i m = Some s \<and>
        t1 < ss_expires_at s \<and> s' = touch t2 s)) \<and>
    (fst per = Some s' \<longleftrightarrow> (\<exists>i s. extract_session_id g h = Some i \<and> ps_get t0 i p = Some s \<and>
        t1 < ss_expires_at s \<and> s' = touch t2 s)) \<and>
    map_option session_view (mem_get i (snd mem)) =
      (if extract_session_id g h = Some i \<and> (\<exists>s. mem_get i m = Some s \<and> ss_expires_at s \<le> t1)
       then None else map_option session_view (mem_get i m)) \<and>
    map_option session_view (ps_get t i (snd per)) =
      (if extract_session_id g h = Some i \<and> (\<exists>s. ps_get t0 i p = Some s \<and> ss_expires_at s \<le> t1)
       then None else map_option session_view (ps_get t i p))"
  using memory.admits [of g t0 t1 t2 t3 h m s'] persistent.admits [of crc K g t0 t1 t2 t3 h p s']
    memory.rest_unchanged [OF assms(1), of i g t0 t1 t2 t3 h]
    persistent.rest_unchanged [of p t i crc K g t0 t1 t2 t3 h] run_sound [OF new_sound [OF assms(2)]]
  unfolding mem_def per_def p_def by blast

section \<open>Restarts\<close>

text \<open>
  The derived readers read back what the derived serialisation wrote, on one line. As no structure
  writes its own name, every reader accepts the text of every event.
\<close>

definition session_codec_law :: "'v session_codec \<Rightarrow> bool" where
  "session_codec_law K \<longleftrightarrow>
     (\<forall>e. event_ok (sc_to_json K e) \<and> sc_created K (sc_to_json K e) = Some e \<and>
       sc_updated K (sc_to_json K e) = Some e \<and> sc_deleted K (sc_to_json K e) = Some e)"

definition last_event :: "string \<Rightarrow> 'v session_event list \<Rightarrow> 'v session_event option" where
  "last_event i es = find (\<lambda>e. se_session_id e = i) (rev es)"

lemma last_event_snoc [simp]:
  "last_event i (es @ [e]) = (if se_session_id e = i then Some e else last_event i es)"
  by (simp add: last_event_def)

definition created_data :: "int \<Rightarrow> 'v session_event \<Rightarrow> 'v session_data" where
  "created_data now e =
     \<lparr>sd_id = se_session_id e,
      sd_user_id = (case se_user_id e of Some u \<Rightarrow> u | None \<Rightarrow> []),
      sd_role = (case se_role e of Some r \<Rightarrow> r | None \<Rightarrow> []),
      sd_expires_at = (case se_expires_at e of Some t \<Rightarrow> t | None \<Rightarrow> now),
      sd_data = (case se_data e of Some d \<Rightarrow> d | None \<Rightarrow> [])\<rparr>"

lemma replay_lines_append:
  "replay_lines K clk n (ls @ ls') st = replay_lines K clk (n + length ls) ls' (replay_lines K clk n ls st)"
  by (induction ls arbitrary: n st) simp_all

lemma replay_events_state:
  assumes "session_codec_law K"
  shows "case last_event i es of
      None \<Rightarrow> map_of (replay_lines K clk n (map (sc_to_json K) es) st) i = map_of st i
    | Some e \<Rightarrow> \<exists>m. map_of (replay_lines K clk n (map (sc_to_json K) es) st) i = Some (created_data (clk m) e)"
proof (induction es rule: rev_induct)
  case Nil
  show ?case by (simp add: last_event_def)
next
  case (snoc e es)
  have "replay_lines K clk n (map (sc_to_json K) (es @ [e])) st =
      apply_created (clk (n + length es)) e (replay_lines K clk n (map (sc_to_json K) es) st)"
    using assms by (simp add: replay_lines_append replay_line_def session_codec_law_def)
  then have "map_of (replay_lines K clk n (map (sc_to_json K) (es @ [e])) st) i =
      (if se_session_id e = i then Some (created_data (clk (n + length es)) e)
       else map_of (replay_lines K clk n (map (sc_to_json K) es) st) i)"
    by (simp add: apply_created_def created_data_def dict_simps)
  with snoc.IH show ?case by (cases "last_event i es") auto
qed

text \<open>A text log that is written through: the batch is empty after every event.\<close>

definition text_log :: "event_store \<Rightarrow> bool" where
  "text_log es \<longleftrightarrow> storage_ok (es_storage es) \<and> fs_max_log_file_size (es_storage es) = 0 \<and>
     \<not> es_binary_mode es \<and> fs_event_batch (es_storage es) = []"

lemma persist_event_log:
  assumes "text_log es" and "session_codec_law K"
  shows "text_log (persist_event crc K e es) \<and>
    read_all_events crc (es_storage (persist_event crc K e es)) =
      read_all_events crc (es_storage es) @ [sc_to_json K e]"
proof -
  let ?j = "sc_to_json K e"
  let ?f = "EventFile.append_event crc ?j (es_storage es)"
  let ?es = "es_append_event crc ?j es"
  from assms have s: "storage_ok (es_storage es)" "fs_max_log_file_size (es_storage es) = 0"
    "event_ok ?j" "fs_event_batch (es_storage es) = []" "\<not> es_binary_mode es"
    by (simp_all add: text_log_def session_codec_law_def)
  note f = append_event_held [OF s(1-3), of crc]
  have n: "storage_ok (es_storage ?es)" "fs_max_log_file_size (es_storage ?es) = 0"
    "held crc (es_storage ?es) = held crc ?f" "es_binary_mode ?es = es_binary_mode es"
    using note_appended_simps [of "es\<lparr>es_storage := ?f\<rparr>" crc] f by (simp_all add: es_append_event_def)
  have p: "es_storage (persist_event crc K e es) = flush_batch crc (es_storage ?es)"
    "es_binary_mode (persist_event crc K e es) = es_binary_mode es"
    using n(4) by (simp_all add: persist_event_def es_flush_events_def flush_events_def)
  have "read_all_events crc (flush_batch crc (es_storage ?es)) = held crc (es_storage ?es)"
    using flush_held [OF n(1,2), of crc] by (simp add: held_def)
  then show ?thesis
    using p n storage_ok_flush [OF n(1), of crc] f(3) s(4,5) by (simp add: text_log_def held_def)
qed

text \<open>
  The history of a store: the identifiers it was called with, and the last session set under each.
\<close>

fun mentioned :: "'v session_op list \<Rightarrow> string set" where
  "mentioned [] = {}"
| "mentioned (SetSession t s # ops) = insert (ss_id s) (mentioned ops)"
| "mentioned (DeleteSession i # ops) = insert i (mentioned ops)"
| "mentioned (CleanupSessions t # ops) = mentioned ops"

fun is_set :: "string \<Rightarrow> 'v session_op \<Rightarrow> bool" where
  "is_set i (SetSession t s) = (ss_id s = i)"
| "is_set i (DeleteSession j) = False"
| "is_set i (CleanupSessions t) = False"

fun set_session :: "'v session_op \<Rightarrow> 'v session option" where
  "set_session (SetSession t s) = Some s"
| "set_session (DeleteSession j) = None"
| "set_session (CleanupSessions t) = None"

definition last_set :: "string \<Rightarrow> 'v session_op list \<Rightarrow> 'v session option" where
  "last_set i ops = Option.bind (find (is_set i) (rev ops)) set_session"

lemma mentioned_append [simp]: "mentioned (xs @ ys) = mentioned xs \<union> mentioned ys"
proof (induction xs)
  case (Cons a xs)
  then show ?case by (cases a) auto
qed simp

definition log_matches ::
  "(string \<Rightarrow> u32) \<Rightarrow> 'v session_codec \<Rightarrow> string set \<Rightarrow> (string \<Rightarrow> 'v session option) \<Rightarrow> 'v persistent_store \<Rightarrow> bool"
where
  "log_matches crc K M L p \<longleftrightarrow>
     text_log (ps_events p) \<and>
     (\<exists>es. read_all_events crc (es_storage (ps_events p)) = map (sc_to_json K) es \<and>
       (\<forall>i. last_event i es \<noteq> None \<longleftrightarrow> i \<in> M) \<and>
       (\<forall>i \<in> M. map_of (ps_state p) i = None \<longrightarrow> last_event i es = Some (deleted_event i)) \<and>
       (\<forall>i d. map_of (ps_state p) i = Some d \<longrightarrow> i \<in> M \<and>
         (\<exists>s b. L i = Some s \<and> ss_id s = i \<and> last_event i es = Some (set_event K b s) \<and> sd_data d = ss_data s)))"

lemma log_matches_delete:
  assumes "log_matches crc K M L p" and "session_codec_law K"
  shows "log_matches crc K (insert j M) L (ps_delete crc K j p)"
proof -
  from assms(1) obtain es where es: "read_all_events crc (es_storage (ps_events p)) = map (sc_to_json K) es"
    "\<forall>i. last_event i es \<noteq> None \<longleftrightarrow> i \<in> M"
    "\<forall>i \<in> M. map_of (ps_state p) i = None \<longrightarrow> last_event i es = Some (deleted_event i)"
    "\<forall>i d. map_of (ps_state p) i = Some d \<longrightarrow> i \<in> M \<and>
      (\<exists>s b. L i = Some s \<and> ss_id s = i \<and> last_event i es = Some (set_event K b s) \<and> sd_data d = ss_data s)"
    and t: "text_log (ps_events p)" unfolding log_matches_def by blast
  let ?e = "deleted_event j"
  have j: "se_session_id ?e = j" by (simp add: deleted_event_def)
  have ev: "ps_events (ps_delete crc K j p) = persist_event crc K ?e (ps_events p)"
    by (simp add: ps_delete_def)
  note log = persist_event_log [OF t assms(2), of crc ?e]
  have "read_all_events crc (es_storage (ps_events (ps_delete crc K j p))) = map (sc_to_json K) (es @ [?e])"
    using log es(1) ev by simp
  moreover have "\<forall>i. last_event i (es @ [?e]) \<noteq> None \<longleftrightarrow> i \<in> insert j M"
    using es(2) j by auto
  moreover have "\<forall>i \<in> insert j M. map_of (ps_state (ps_delete crc K j p)) i = None \<longrightarrow>
      last_event i (es @ [?e]) = Some (deleted_event i)"
    using es(3) j by (auto simp: ps_delete_state)
  moreover have "\<forall>i d. map_of (ps_state (ps_delete crc K j p)) i = Some d \<longrightarrow> i \<in> insert j M \<and>
      (\<exists>s b. L i = Some s \<and> ss_id s = i \<and> last_event i (es @ [?e]) = Some (set_event K b s) \<and> sd_data d = ss_data s)"
    using es(4) j by (auto simp: ps_delete_state split: if_splits)
  moreover have "text_log (ps_events (ps_delete crc K j p))" using log ev by simp
  ultimately show ?thesis unfolding log_matches_def by blast
qed

lemma log_matches_set:
  assumes "log_matches crc K M L p" and "session_codec_law K"
  shows "log_matches crc K (insert (ss_id s) M) (L(ss_id s \<mapsto> s)) (ps_set crc K now s p)"
proof -
  from assms(1) obtain es where es: "read_all_events crc (es_storage (ps_events p)) = map (sc_to_json K) es"
    "\<forall>i. last_event i es \<noteq> None \<longleftrightarrow> i \<in> M"
    "\<forall>i \<in> M. map_of (ps_state p) i = None \<longrightarrow> last_event i es = Some (deleted_event i)"
    "\<forall>i d. map_of (ps_state p) i = Some d \<longrightarrow> i \<in> M \<and>
      (\<exists>s b. L i = Some s \<and> ss_id s = i \<and> last_event i es = Some (set_event K b s) \<and> sd_data d = ss_data s)"
    and t: "text_log (ps_events p)" unfolding log_matches_def by blast
  let ?b = "map_of (ps_state p) (ss_id s) \<noteq> None"
  let ?e = "set_event K ?b s"
  have j: "se_session_id ?e = ss_id s" by (simp add: set_event_def)
  have ev: "ps_events (ps_set crc K now s p) = persist_event crc K ?e (ps_events p)"
    by (simp add: ps_set_def Let_def)
  note log = persist_event_log [OF t assms(2), of crc ?e]
  have "read_all_events crc (es_storage (ps_events (ps_set crc K now s p))) = map (sc_to_json K) (es @ [?e])"
    using log es(1) ev by simp
  moreover have "\<forall>i. last_event i (es @ [?e]) \<noteq> None \<longleftrightarrow> i \<in> insert (ss_id s) M"
    using es(2) j by auto
  moreover have "\<forall>i \<in> insert (ss_id s) M. map_of (ps_state (ps_set crc K now s p)) i = None \<longrightarrow>
      last_event i (es @ [?e]) = Some (deleted_event i)"
    using es(3) j by (auto simp: ps_set_state)
  moreover have "\<forall>i d. map_of (ps_state (ps_set crc K now s p)) i = Some d \<longrightarrow> i \<in> insert (ss_id s) M \<and>
      (\<exists>s' b. (L(ss_id s \<mapsto> s)) i = Some s' \<and> ss_id s' = i \<and> last_event i (es @ [?e]) = Some (set_event K b s') \<and>
        sd_data d = ss_data s')"
    using es(4) j by (auto simp: ps_set_state data_of_session_def split: if_splits option.splits)
  moreover have "text_log (ps_events (ps_set crc K now s p))" using log ev by simp
  ultimately show ?thesis unfolding log_matches_def by blast
qed

lemma log_matches_deletes:
  "log_matches crc K M L p \<Longrightarrow> session_codec_law K \<Longrightarrow> set ids \<subseteq> M \<Longrightarrow>
   log_matches crc K M L (fold (ps_delete crc K) ids p)"
proof (induction ids arbitrary: p)
  case (Cons i ids)
  have "insert i M = M" using Cons.prems(3) by auto
  with log_matches_delete [OF Cons.prems(1,2), of i] have "log_matches crc K M L (ps_delete crc K i p)" by simp
  from Cons.IH [OF this Cons.prems(2)] Cons.prems(3) show ?case by simp
qed simp

lemma state_mentioned:
  assumes "log_matches crc K M L p"
  shows "fst ` set (ps_state p) \<subseteq> M"
proof
  fix i assume "i \<in> fst ` set (ps_state p)"
  then have "map_of (ps_state p) i \<noteq> None" by (simp add: map_of_eq_None_iff)
  then obtain d where "map_of (ps_state p) i = Some d" by auto
  moreover obtain es where "\<forall>i d. map_of (ps_state p) i = Some d \<longrightarrow> i \<in> M \<and>
      (\<exists>s b. L i = Some s \<and> ss_id s = i \<and> last_event i es = Some (set_event K b s) \<and> sd_data d = ss_data s)"
    using assms unfolding log_matches_def by (elim conjE exE)
  ultimately show "i \<in> M" by simp
qed

lemma log_matches_run:
  assumes "session_codec_law K" and "log_matches crc K {} L p"
  shows "log_matches crc K (mentioned ops)
    (\<lambda>i. case last_set i ops of Some s \<Rightarrow> Some s | None \<Rightarrow> L i) (ps_run crc K ops p)"
proof (induction ops rule: rev_induct)
  case Nil
  show ?case using assms(2) by (simp add: last_set_def ps_run_def)
next
  case (snoc a ops)
  let ?L = "\<lambda>ops i. case last_set i ops of Some s \<Rightarrow> Some s | None \<Rightarrow> L i"
  let ?p = "ps_run crc K ops p"
  have run: "ps_run crc K (ops @ [a]) p = ps_step crc K a ?p" by (simp add: ps_run_def)
  show ?case
  proof (cases a)
    case (SetSession now s)
    have "?L (ops @ [a]) = (?L ops)(ss_id s \<mapsto> s)" by (auto simp: last_set_def SetSession)
    then show ?thesis
      using log_matches_set [OF snoc.IH assms(1), of s now] run by (simp add: SetSession)
  next
    case (DeleteSession i)
    have "?L (ops @ [a]) = ?L ops" by (simp add: last_set_def DeleteSession)
    then show ?thesis
      using log_matches_delete [OF snoc.IH assms(1), of i] run by (simp add: DeleteSession)
  next
    case (CleanupSessions now)
    have "?L (ops @ [a]) = ?L ops" by (simp add: last_set_def CleanupSessions)
    moreover have "set (map fst (filter (\<lambda>(i, d). sd_expires_at d \<le> now) (ps_state ?p))) \<subseteq> mentioned ops"
      using state_mentioned [OF snoc.IH] by auto
    ultimately show ?thesis
      using log_matches_deletes [OF snoc.IH assms(1)] run by (simp add: CleanupSessions ps_cleanup_def Let_def)
  qed
qed

lemma created_data_simps:
  "created_data now (set_event K b s) = data_of_session (sc_as_string K) s"
  "created_data now (deleted_event i) =
     \<lparr>sd_id = i, sd_user_id = [], sd_role = [], sd_expires_at = now, sd_data = []\<rparr>"
  by (simp_all add: created_data_def set_event_def deleted_event_def data_of_session_def)

lemma persistent_new_text:
  assumes "\<not> st_enable_binary st"
  shows "persistent_new crc C st K clk d =
    (let f = file_storage_new (st_max_log_file_size st) d
     in Some (Inr \<lparr>ps_state = replay_lines K clk 0 (read_all_events crc f) [],
          ps_events = event_store_with_storage crc C st f\<rparr>))"
  using assms by (simp add: persistent_new_def Let_def get_all_events_def event_store_with_storage_def)

lemma restart_state:
  fixes K :: "'v session_codec" and ops
  assumes "session_codec_law K" and "persistent_new crc C st K clk d = Some (Inr p0)"
    and "\<not> st_enable_binary st" and "st_max_log_file_size st = None"
    and "contents (ef_events d) = []" and "contents (ef_segment d) = []"
  defines "p \<equiv> ps_run crc K ops p0"
  shows "\<exists>q. persistent_new crc C st K clk' (files_of (es_storage (ps_events p))) = Some (Inr q) \<and>
    (\<forall>i. map_of (ps_state q) i \<noteq> None \<longleftrightarrow> i \<in> mentioned ops) \<and>
    (\<forall>i \<in> mentioned ops. map_of (ps_state p) i = None \<longrightarrow>
      (\<exists>n. map_of (ps_state q) i =
        Some \<lparr>sd_id = i, sd_user_id = [], sd_role = [], sd_expires_at = clk' n, sd_data = []\<rparr>)) \<and>
    (\<forall>i x. map_of (ps_state p) i = Some x \<longrightarrow>
      (\<exists>s. last_set i ops = Some s \<and> sd_data x = ss_data s \<and>
        map_of (ps_state q) i = Some (data_of_session (sc_as_string K) s)))"
proof -
  let ?f = "file_storage_new (st_max_log_file_size st) d"
  have p0: "ps_state p0 = []" "ps_events p0 = event_store_with_storage crc C st ?f"
    using assms(2,5,6) unfolding persistent_new_text [OF assms(3)] Let_def
    by (auto simp: read_all_events_def file_storage_new_def)
  have "text_log (ps_events p0)"
    using assms(3-6) by (simp add: p0 text_log_def event_store_with_storage_def file_storage_new_def
        storage_ok_def complete_def)
  moreover have "read_all_events crc (es_storage (ps_events p0)) = []"
    using assms(5,6) by (simp add: p0 event_store_with_storage_def file_storage_new_def read_all_events_def)
  ultimately have "log_matches crc K {} (\<lambda>i. None) p0"
    unfolding log_matches_def by (auto simp: p0 last_event_def)
  from log_matches_run [OF assms(1) this, of ops]
  have m: "log_matches crc K (mentioned ops) (\<lambda>i. last_set i ops) p"
    unfolding p_def [symmetric] option.case_eq_if by (simp cong: if_cong)
  then obtain es where es: "read_all_events crc (es_storage (ps_events p)) = map (sc_to_json K) es"
    "\<forall>i. last_event i es \<noteq> None \<longleftrightarrow> i \<in> mentioned ops"
    "\<forall>i \<in> mentioned ops. map_of (ps_state p) i = None \<longrightarrow> last_event i es = Some (deleted_event i)"
    "\<forall>i x. map_of (ps_state p) i = Some x \<longrightarrow> i \<in> mentioned ops \<and>
      (\<exists>s b. last_set i ops = Some s \<and> ss_id s = i \<and> last_event i es = Some (set_event K b s) \<and> sd_data x = ss_data s)"
    unfolding log_matches_def by (elim conjE exE)
  let ?q = "replay_lines K clk' 0 (map (sc_to_json K) es) []"
  have reread: "read_all_events crc (file_storage_new (st_max_log_file_size st) (files_of (es_storage (ps_events p)))) =
      map (sc_to_json K) es"
    using es(1) by (simp add: read_all_events_def file_storage_new_def files_of_def)
  have q: "case last_event i es of None \<Rightarrow> map_of ?q i = None
    | Some e \<Rightarrow> \<exists>n. map_of ?q i = Some (created_data (clk' n) e)" for i
    using replay_events_state [OF assms(1), where es = es and i = i and clk = clk' and n = 0 and st = "[]"]
    unfolding map_of.simps .
  have "map_of ?q i \<noteq> None \<longleftrightarrow> i \<in> mentioned ops" for i
    using q [of i] es(2) [rule_format, of i] by (cases "last_event i es") auto
  moreover have "\<exists>n. map_of ?q i =
      Some \<lparr>sd_id = i, sd_user_id = [], sd_role = [], sd_expires_at = clk' n, sd_data = []\<rparr>"
    if "i \<in> mentioned ops" "map_of (ps_state p) i = None" for i
    using q [of i] es(3) [rule_format, OF that] by (simp add: created_data_simps)
  moreover have "\<exists>s. last_set i ops = Some s \<and> sd_data x = ss_data s \<and>
      map_of ?q i = Some (data_of_session (sc_as_string K) s)"
    if "map_of (ps_state p) i = Some x" for i x
  proof -
    from es(4) that obtain s b where "last_set i ops = Some s" "last_event i es = Some (set_event K b s)"
      "sd_data x = ss_data s" by blast
    with q [of i] show ?thesis by (simp add: created_data_simps)
  qed
  ultimately show ?thesis
    unfolding persistent_new_text [OF assms(3)] Let_def reread by simp
qed

text \<open>
  A restart revives deleted sessions: over a text log without rotation, the store that is opened
  after any history of calls holds a session under every identifier that was ever set or deleted. One
  that had been deleted, by a logout or as expired, is back without data, expiring at the instant at
  which its event is replayed; one that was live is back as it was set last, with that user, role and
  expiry, while the running store had kept those of its first version.
\<close>

theorem restart_revives_sessions:
  fixes K :: "'v session_codec" and ops
  assumes "session_codec_law K" and "persistent_new crc C st K clk d = Some (Inr p0)"
    and "\<not> st_enable_binary st" and "st_max_log_file_size st = None"
    and "contents (ef_events d) = []" and "contents (ef_segment d) = []"
  defines "p \<equiv> ps_run crc K ops p0"
  shows "\<exists>q. persistent_new crc C st K clk' (files_of (es_storage (ps_events p))) = Some (Inr q) \<and>
    (\<forall>i. map_of (ps_state q) i \<noteq> None \<longleftrightarrow> i \<in> mentioned ops) \<and>
    (\<forall>i \<in> mentioned ops. map_of (ps_state p) i = None \<longrightarrow>
      (\<exists>n. map_of (ps_state q) i =
        Some \<lparr>sd_id = i, sd_user_id = [], sd_role = [], sd_expires_at = clk' n, sd_data = []\<rparr>)) \<and>
    (\<forall>i x. map_of (ps_state p) i = Some x \<longrightarrow>
      (\<exists>s. last_set i ops = Some s \<and> sd_data x = ss_data s \<and>
        map_of (ps_state q) i = Some (data_of_session (sc_as_string K) s)))"
  using restart_state [OF assms(1-6), of clk' ops] unfolding p_def .

section \<open>Concrete stores\<close>

text \<open>A codec that satisfies the law, over sessions with natural numbers as data.\<close>

definition event_fields ::
  "nat session_event \<Rightarrow> string \<times> string \<times> string option \<times> string option \<times> int option \<times> (string \<times> nat) list option"
where
  "event_fields e =
     (se_event_type e, se_session_id e, se_user_id e, se_role e, se_expires_at e, se_data e)"

definition event_of_fields ::
  "string \<times> string \<times> string option \<times> string option \<times> int option \<times> (string \<times> nat) list option \<Rightarrow> nat session_event"
where
  "event_of_fields x =
     (let (a, b, c, d, e, f) = x
      in \<lparr>se_event_type = a, se_session_id = b, se_user_id = c, se_role = d, se_expires_at = e,
          se_data = f\<rparr>)"

definition demo_reader :: "string \<Rightarrow> nat session_event option" where
  "demo_reader l = Some (event_of_fields (from_nat (digits_value (drop 1 l))))"

definition demo_sessions :: "nat session_codec" where
  "demo_sessions =
     \<lparr>sc_to_json = \<lambda>e. ''{'' @ show_nat (to_nat (event_fields e)), sc_created = demo_reader,
      sc_updated = demo_reader, sc_deleted = demo_reader, sc_as_string = \<lambda>v. Some (show_nat v)\<rparr>"

lemma demo_sessions_law: "session_codec_law demo_sessions"
proof -
  have "event_of_fields (event_fields e) = e" for e
    by (simp add: event_of_fields_def event_fields_def)
  moreover have "event_ok (''{'' @ show_nat n)" for n by (rule demo_line_ok)
  ultimately show ?thesis by (simp add: session_codec_law_def demo_sessions_def demo_reader_def)
qed

definition text_settings :: store_settings where
  "text_settings = \<lparr>st_max_log_file_size = None, st_enable_binary = False, st_disable_index = False,
     st_dedup_persist = False, st_disable_hash_chain = False\<rparr>"

definition no_files :: event_files where
  "no_files = \<lparr>ef_events = None, ef_segment = None, ef_index = None, ef_snapshot = None, ef_dedup = None\<rparr>"

definition empty_store :: "nat persistent_store" where
  "empty_store = \<lparr>ps_state = [],
     ps_events = event_store_with_storage demo_crc demo_codec text_settings (file_storage_new None no_files)\<rparr>"

lemma empty_store:
  "persistent_new demo_crc demo_codec text_settings demo_sessions (\<lambda>n. 0) no_files = Some (Inr empty_store)"
  by (simp add: persistent_new_text text_settings_def empty_store_def no_files_def
      read_all_events_def file_storage_new_def contents_def)

definition demo_session :: "nat session" where
  "demo_session = \<lparr>ss_id = ''a'', ss_data = [(''user_id'', 7)], ss_created_at = 1, ss_expires_at = 10,
     ss_last_accessed_at = 1\<rparr>"

definition demo_headers :: credentials where
  "demo_headers = \<lparr>cr_cookie = Some ''x=1; session_id=a'', cr_authorization = None\<rparr>"

lemma demo_headers_id: "extract_session_id session_config_default demo_headers = Some ''a''"
  by (simp add: extract_session_id_def session_config_default_def demo_headers_def
      extract_from_header_def cookie_config_default_def trim_def is_space_def strip_prefix_def)

lemma demo_run: "ps_get t ''a'' (ps_run demo_crc demo_sessions [SetSession 5 demo_session] empty_store) =
    Some \<lparr>ss_id = ''a'', ss_data = [(''user_id'', 7)], ss_created_at = t, ss_expires_at = 10,
      ss_last_accessed_at = t\<rparr>"
  by (simp add: ps_run_def ps_get_def ps_set_state empty_store_def demo_session_def data_of_session_def
      session_of_data_def session_new_def)

text \<open>
  The same request is served before and refused after the session has expired.
\<close>

lemma middleware_admits_live_witness:
  "fst (extract_session ps_get (ps_set demo_crc demo_sessions) (ps_delete demo_crc demo_sessions)
      session_config_default 9 9 9 9 demo_headers
      (ps_run demo_crc demo_sessions [SetSession 5 demo_session] empty_store)) \<noteq> None \<and>
   fst (extract_session (\<lambda>t. mem_get) (\<lambda>t. mem_set) mem_delete
      session_config_default 9 10 10 10 demo_headers [(''a'', demo_session)]) = None"
proof -
  have m: "mem_sound [(''a'', demo_session)]" by (simp add: mem_sound_def demo_session_def)
  note w = middleware_admits_live [OF m empty_store, where g = session_config_default and h = demo_headers]
  have "fst (extract_session ps_get (ps_set demo_crc demo_sessions) (ps_delete demo_crc demo_sessions)
      session_config_default 9 9 9 9 demo_headers
      (ps_run demo_crc demo_sessions [SetSession 5 demo_session] empty_store)) =
      Some (touch 9 \<lparr>ss_id = ''a'', ss_data = [(''user_id'', 7)], ss_created_at = 9, ss_expires_at = 10,
      ss_last_accessed_at = 9\<rparr>)"
    using w [where ?t0.0 = 9 and ?t1.0 = 9 and ?t2.0 = 9 and ?t3.0 = 9] by (simp add: demo_headers_id demo_run)
  moreover have "fst (extract_session (\<lambda>t. mem_get) (\<lambda>t. mem_set) mem_delete
      session_config_default 9 10 10 10 demo_headers [(''a'', demo_session)]) \<noteq> Some s" for s
    using w [where ?t0.0 = 9 and ?t1.0 = 10 and ?t2.0 = 10 and ?t3.0 = 10 and s' = s]
    by (simp add: demo_headers_id mem_get_def demo_session_def)
  ultimately show ?thesis by blast
qed

text \<open>A session that was deleted before the restart is found after it.\<close>

lemma restart_revives_sessions_witness:
  "\<exists>q. persistent_new demo_crc demo_codec text_settings demo_sessions (\<lambda>n. 20)
      (files_of (es_storage (ps_events (ps_run demo_crc demo_sessions
        [SetSession 5 demo_session, DeleteSession ''a''] empty_store)))) = Some (Inr q) \<and>
    ps_get 21 ''a'' (ps_run demo_crc demo_sessions [SetSession 5 demo_session, DeleteSession ''a''] empty_store) = None \<and>
    ps_get 21 ''a'' q \<noteq> None"
proof -
  let ?ops = "[SetSession 5 demo_session, DeleteSession ''a'']"
  have s: "\<not> st_enable_binary text_settings" "st_max_log_file_size text_settings = None"
    "contents (ef_events no_files) = []" "contents (ef_segment no_files) = []"
    by (simp_all add: text_settings_def no_files_def contents_def)
  obtain q where q: "persistent_new demo_crc demo_codec text_settings demo_sessions (\<lambda>n. 20)
      (files_of (es_storage (ps_events (ps_run demo_crc demo_sessions ?ops empty_store)))) = Some (Inr q)"
    "\<forall>i. map_of (ps_state q) i \<noteq> None \<longleftrightarrow> i \<in> mentioned ?ops"
    using restart_revives_sessions [OF demo_sessions_law empty_store s, of "\<lambda>n. 20" ?ops] by blast
  have "ps_get 21 ''a'' (ps_run demo_crc demo_sessions ?ops empty_store) = None"
    by (simp add: ps_run_def ps_get_def ps_delete_state)
  moreover have "map_of (ps_state q) ''a'' \<noteq> None" using q(2) by simp
  then have "ps_get 21 ''a'' q \<noteq> None" by (simp add: ps_get_def)
  ultimately show ?thesis using q(1) by blast
qed

end
