(* ===== verification/Firewall.thy ===== *)
theory Firewall
  imports Prelude
begin

text \<open>
  The firewall in front of the HTTP servers, from \<^verbatim>\<open>lithair-core/src/http/firewall.rs\<close>:
  allow and deny lists of addresses, networks and named groups, and quotas per second. Addresses and
  their texts, and the networks of the ipnet crate, are the record \<open>ip_ops\<close>; the environment is a
  function from variable names; the clock in seconds is the argument \<open>now\<close>.
\<close>

section \<open>Configuration\<close>

record firewall_config =
  fc_enabled :: bool
  fc_allow :: "string list"
  fc_deny :: "string list"
  fc_global_qps :: "u64 option"
  fc_per_ip_qps :: "u64 option"
  fc_protected_prefixes :: "string list"
  fc_exempt_prefixes :: "string list"

record ('ip, 'net) ip_ops =
  ip_show :: "'ip \<Rightarrow> string"
  ip_parse :: "string \<Rightarrow> 'ip option"
  net_parse :: "string \<Rightarrow> 'net option"
  net_contains :: "'net \<Rightarrow> 'ip \<Rightarrow> bool"

definition ascii_lower :: "string \<Rightarrow> string" where
  "ascii_lower s =
     map (\<lambda>c. let n = (of_char c :: nat) in if 65 \<le> n \<and> n \<le> 90 then char_of (n + 32) else c) s"

definition starts_with :: "string \<Rightarrow> string \<Rightarrow> bool" where
  "starts_with p s \<longleftrightarrow> take (length p) s = p"

definition parse_u64 :: "string \<Rightarrow> u64 option" where
  "parse_u64 s = map_option of_nat (parse_unsigned (2 ^ 64 - 1) s)"

definition parse_csv_ipset :: "string \<Rightarrow> string list" where
  "parse_csv_ipset csv = remdups (filter (\<lambda>s. s \<noteq> []) (map trim (split_on (CHR '','') csv)))"

definition firewall_from_env :: "(string \<Rightarrow> string option) \<Rightarrow> firewall_config" where
  "firewall_from_env env =
     \<lparr>fc_enabled =
        (case env ''LT_FW_ENABLE'' of
           Some v \<Rightarrow> v = ''1'' \<or> ascii_lower v = ''true''
         | None \<Rightarrow> False),
      fc_allow = parse_csv_ipset (case env ''LT_FW_IP_ALLOW'' of Some v \<Rightarrow> v | None \<Rightarrow> []),
      fc_deny = parse_csv_ipset (case env ''LT_FW_IP_DENY'' of Some v \<Rightarrow> v | None \<Rightarrow> []),
      fc_global_qps = Option.bind (env ''LT_FW_RATE_GLOBAL_QPS'') parse_u64,
      fc_per_ip_qps = Option.bind (env ''LT_FW_RATE_PERIP_QPS'') parse_u64,
      fc_protected_prefixes = [], fc_exempt_prefixes = []\<rparr>"

definition resolve_firewall_config ::
  "(string \<Rightarrow> string option) \<Rightarrow> firewall_config option \<Rightarrow> firewall_config option \<Rightarrow> firewall_config"
where
  "resolve_firewall_config env builder model =
     (case builder of
        Some b \<Rightarrow> b
      | None \<Rightarrow> (case model of Some m \<Rightarrow> m | None \<Rightarrow> firewall_from_env env))"

section \<open>Matchers\<close>

datatype ('ip, 'net) ip_matcher = Exact 'ip | Net 'net

fun matches_ip :: "('ip, 'net) ip_ops \<Rightarrow> ('ip, 'net) ip_matcher \<Rightarrow> 'ip \<Rightarrow> bool" where
  "matches_ip K (Exact x) ip = (x = ip)"
| "matches_ip K (Net n) ip = net_contains K n ip"

definition macro_nets :: "('ip, 'net) ip_ops \<Rightarrow> string \<Rightarrow> 'net list" where
  "macro_nets K name =
     (let n = ascii_lower (trim name);
          v4 = [''10.0.0.0/8'', ''172.16.0.0/12'', ''192.168.0.0/16'']
      in map (\<lambda>s. the (net_parse K s))
           (if n = ''private_v4'' then v4
            else if n \<in> {''private'', ''internal'', ''internal_private'', ''internal_private_ip''}
            then v4 @ [''fc00::/7'']
            else if n = ''loopback'' then [''127.0.0.0/8'', ''::1/128'']
            else if n = ''link_local'' then [''169.254.0.0/16'', ''fe80::/10'']
            else []))"

definition compile_entry :: "('ip, 'net) ip_ops \<Rightarrow> string \<Rightarrow> ('ip, 'net) ip_matcher list" where
  "compile_entry K raw =
     (let s = trim raw
      in case ip_parse K s of
           Some ip \<Rightarrow> [Exact ip]
         | None \<Rightarrow>
             (case net_parse K s of
                Some n \<Rightarrow> [Net n]
              | None \<Rightarrow> map Net (macro_nets K s)))"

definition compile_ip_matchers ::
  "('ip, 'net) ip_ops \<Rightarrow> string list \<Rightarrow> ('ip, 'net) ip_matcher list"
where
  "compile_ip_matchers K entries = concat (map (compile_entry K) entries)"

section \<open>The firewall\<close>

record window =
  win_second :: u64
  win_count :: u64

record ('ip, 'net) firewall =
  fw_cfg :: firewall_config
  fw_global_win :: window
  fw_per_ip_win :: "(string, window) dict"
  fw_allow :: "('ip, 'net) ip_matcher list"
  fw_deny :: "('ip, 'net) ip_matcher list"

definition firewall_new :: "('ip, 'net) ip_ops \<Rightarrow> firewall_config \<Rightarrow> ('ip, 'net) firewall" where
  "firewall_new K cfg =
     \<lparr>fw_cfg = cfg, fw_global_win = \<lparr>win_second = 0, win_count = 0\<rparr>, fw_per_ip_win = [],
      fw_allow = compile_ip_matchers K (fc_allow cfg), fw_deny = compile_ip_matchers K (fc_deny cfg)\<rparr>"

datatype denial =
    IpDenied string
  | NotInAllowList
  | UnrecognizedIp
  | UnknownIp
  | GlobalQpsExceeded
  | PerIpQpsExceeded

fun denial_status :: "denial \<Rightarrow> nat" where
  "denial_status GlobalQpsExceeded = 429"
| "denial_status PerIpQpsExceeded = 429"
| "denial_status _ = 403"

definition check_ip_lists ::
  "('ip, 'net) ip_ops \<Rightarrow> string option \<Rightarrow> ('ip, 'net) firewall \<Rightarrow> denial + unit"
where
  "check_ip_lists K key fw =
     (case key of
        Some s \<Rightarrow>
          (case ip_parse K s of
             Some ip \<Rightarrow>
               (if fw_deny fw \<noteq> [] \<and> list_ex (\<lambda>m. matches_ip K m ip) (fw_deny fw) then Inl (IpDenied s)
                else if fw_allow fw \<noteq> [] \<and> \<not> list_ex (\<lambda>m. matches_ip K m ip) (fw_allow fw)
                then Inl NotInAllowList
                else Inr ())
           | None \<Rightarrow> (if fw_allow fw \<noteq> [] then Inl UnrecognizedIp else Inr ()))
      | None \<Rightarrow> (if fw_allow fw \<noteq> [] then Inl UnknownIp else Inr ()))"

definition window_at :: "u64 \<Rightarrow> window \<Rightarrow> window" where
  "window_at now w = (if win_second w \<noteq> now then \<lparr>win_second = now, win_count = 0\<rparr> else w)"

definition check_global_qps :: "u64 \<Rightarrow> ('ip, 'net) firewall \<Rightarrow> (denial + unit) \<times> ('ip, 'net) firewall" where
  "check_global_qps now fw =
     (case fc_global_qps (fw_cfg fw) of
        None \<Rightarrow> (Inr (), fw)
      | Some limit \<Rightarrow>
          (let w = window_at now (fw_global_win fw)
           in if limit \<le> win_count w then (Inl GlobalQpsExceeded, fw\<lparr>fw_global_win := w\<rparr>)
              else (Inr (), fw\<lparr>fw_global_win := w\<lparr>win_count := win_count w + 1\<rparr>\<rparr>)))"

definition check_per_ip_qps ::
  "u64 \<Rightarrow> string option \<Rightarrow> ('ip, 'net) firewall \<Rightarrow> (denial + unit) \<times> ('ip, 'net) firewall"
where
  "check_per_ip_qps now key fw =
     (case (fc_per_ip_qps (fw_cfg fw), key) of
        (Some limit, Some ip) \<Rightarrow>
          (let w0 = (case map_of (fw_per_ip_win fw) ip of
                       Some w \<Rightarrow> w | None \<Rightarrow> \<lparr>win_second = now, win_count = 0\<rparr>);
               w = window_at now w0
           in if limit \<le> win_count w
              then (Inl PerIpQpsExceeded, fw\<lparr>fw_per_ip_win := AList.update ip w (fw_per_ip_win fw)\<rparr>)
              else (Inr (), fw\<lparr>fw_per_ip_win :=
                     AList.update ip (w\<lparr>win_count := win_count w + 1\<rparr>) (fw_per_ip_win fw)\<rparr>))
      | _ \<Rightarrow> (Inr (), fw))"

definition in_scope :: "string \<Rightarrow> string \<Rightarrow> ('ip, 'net) firewall \<Rightarrow> bool" where
  "in_scope meth path fw \<longleftrightarrow>
     fc_enabled (fw_cfg fw) \<and> meth \<noteq> ''OPTIONS'' \<and>
     \<not> list_ex (\<lambda>p. starts_with p path) (fc_exempt_prefixes (fw_cfg fw)) \<and>
     \<not> (fc_protected_prefixes (fw_cfg fw) \<noteq> [] \<and>
        \<not> list_ex (\<lambda>p. starts_with p path) (fc_protected_prefixes (fw_cfg fw)))"

definition firewall_check ::
  "('ip, 'net) ip_ops \<Rightarrow> u64 \<Rightarrow> u64 \<Rightarrow> 'ip option \<Rightarrow> string \<Rightarrow> string \<Rightarrow> ('ip, 'net) firewall \<Rightarrow>
   (denial + unit) \<times> ('ip, 'net) firewall"
where
  "firewall_check K now1 now2 remote meth path fw =
     (if \<not> in_scope meth path fw then (Inr (), fw)
      else
        (let key = map_option (ip_show K) remote
         in case check_ip_lists K key fw of
              Inl e \<Rightarrow> (Inl e, fw)
            | Inr _ \<Rightarrow>
                (case check_global_qps now1 fw of
                   (Inl e, fw1) \<Rightarrow> (Inl e, fw1)
                 | (Inr _, fw1) \<Rightarrow> check_per_ip_qps now2 key fw1)))"

section \<open>Which addresses are admitted\<close>

definition listed :: "('ip, 'net) ip_ops \<Rightarrow> string list \<Rightarrow> 'ip \<Rightarrow> bool" where
  "listed K entries ip \<longleftrightarrow> list_ex (\<lambda>e. list_ex (\<lambda>m. matches_ip K m ip) (compile_entry K e)) entries"

definition some_valid :: "('ip, 'net) ip_ops \<Rightarrow> string list \<Rightarrow> bool" where
  "some_valid K entries \<longleftrightarrow> list_ex (\<lambda>e. compile_entry K e \<noteq> []) entries"

definition admitted :: "('ip, 'net) ip_ops \<Rightarrow> firewall_config \<Rightarrow> 'ip option \<Rightarrow> bool" where
  "admitted K cfg remote \<longleftrightarrow>
     (case remote of
        None \<Rightarrow> \<not> some_valid K (fc_allow cfg)
      | Some ip \<Rightarrow> \<not> listed K (fc_deny cfg) ip \<and>
                   (some_valid K (fc_allow cfg) \<longrightarrow> listed K (fc_allow cfg) ip))"

definition compiled :: "('ip, 'net) ip_ops \<Rightarrow> firewall_config \<Rightarrow> ('ip, 'net) firewall \<Rightarrow> bool" where
  "compiled K cfg fw \<longleftrightarrow>
     fw_cfg fw = cfg \<and> fw_allow fw = compile_ip_matchers K (fc_allow cfg) \<and>
     fw_deny fw = compile_ip_matchers K (fc_deny cfg)"

lemma compiled_new [simp]: "compiled K cfg (firewall_new K cfg)"
  by (simp add: compiled_def firewall_new_def)

lemma compile_listed [simp]:
  "list_ex (\<lambda>m. matches_ip K m ip) (compile_ip_matchers K entries) = listed K entries ip"
  by (auto simp: listed_def compile_ip_matchers_def list_ex_iff)

lemma compile_valid [simp]: "compile_ip_matchers K entries = [] \<longleftrightarrow> \<not> some_valid K entries"
  by (auto simp: some_valid_def compile_ip_matchers_def list_ex_iff)

lemma listed_valid: "listed K entries ip \<Longrightarrow> some_valid K entries"
  by (force simp: listed_def some_valid_def list_ex_iff)

lemma unlisted [simp]: "\<not> some_valid K entries \<Longrightarrow> \<not> listed K entries ip"
  by (auto dest: listed_valid)

lemma lists_decision:
  assumes "\<And>ip. ip_parse K (ip_show K ip) = Some ip" and "compiled K cfg fw"
  shows "check_ip_lists K (map_option (ip_show K) remote) fw = Inr () \<longleftrightarrow> admitted K cfg remote"
    and "check_ip_lists K (map_option (ip_show K) remote) fw = Inl e \<Longrightarrow> denial_status e = 403"
  using assms
  by (auto simp: check_ip_lists_def admitted_def compiled_def split: option.splits if_splits)

lemma global_qps_keeps:
  "check_global_qps t fw = (r, fw') \<Longrightarrow>
     fw_cfg fw' = fw_cfg fw \<and> fw_allow fw' = fw_allow fw \<and> fw_deny fw' = fw_deny fw \<and>
     fw_per_ip_win fw' = fw_per_ip_win fw \<and> (\<forall>e. r = Inl e \<longrightarrow> e = GlobalQpsExceeded)"
  by (auto simp: check_global_qps_def Let_def split: option.splits if_splits)

lemma per_ip_qps_keeps:
  "check_per_ip_qps t key fw = (r, fw') \<Longrightarrow>
     fw_cfg fw' = fw_cfg fw \<and> fw_allow fw' = fw_allow fw \<and> fw_deny fw' = fw_deny fw \<and>
     fw_global_win fw' = fw_global_win fw \<and> (\<forall>e. r = Inl e \<longrightarrow> e = PerIpQpsExceeded)"
  by (auto simp: check_per_ip_qps_def Let_def split: option.splits if_splits)

text \<open>The three outcomes of a check, as the quotas and lists decide them.\<close>

lemma check_cases:
  assumes "firewall_check K t1 t2 remote meth path fw = (r, fw')"
  obtains (bypass) "\<not> in_scope meth path fw" "r = Inr ()" "fw' = fw"
  | (refused) e where "in_scope meth path fw" "check_ip_lists K (map_option (ip_show K) remote) fw = Inl e"
      "r = Inl e" "fw' = fw"
  | (over) e where "in_scope meth path fw" "check_ip_lists K (map_option (ip_show K) remote) fw = Inr ()"
      "check_global_qps t1 fw = (Inl e, fw')" "r = Inl e"
  | (counted) fw1 where "in_scope meth path fw" "check_ip_lists K (map_option (ip_show K) remote) fw = Inr ()"
      "check_global_qps t1 fw = (Inr (), fw1)"
      "check_per_ip_qps t2 (map_option (ip_show K) remote) fw1 = (r, fw')"
proof (cases "in_scope meth path fw")
  case False
  show thesis by (rule bypass) (use assms False in \<open>simp_all add: firewall_check_def\<close>)
next
  case True
  let ?l = "check_ip_lists K (map_option (ip_show K) remote) fw"
  show thesis
  proof (cases ?l)
    case (Inl e)
    show thesis by (rule refused [OF True Inl]) (use assms True Inl in \<open>simp_all add: firewall_check_def\<close>)
  next
    case (Inr u)
    have l: "?l = Inr ()" using Inr by simp
    obtain g fw1 where g: "check_global_qps t1 fw = (g, fw1)" by (cases "check_global_qps t1 fw")
    show thesis
    proof (cases g)
      case (Inl e)
      then have "r = Inl e" "fw' = fw1" using assms True l g by (simp_all add: firewall_check_def)
      with Inl g show thesis by (intro over [OF True l]) simp_all
    next
      case (Inr u')
      then have "check_global_qps t1 fw = (Inr (), fw1)" using g by simp
      moreover from this have "check_per_ip_qps t2 (map_option (ip_show K) remote) fw1 = (r, fw')"
        using assms True l by (simp add: firewall_check_def)
      ultimately show thesis by (rule counted [OF True l])
    qed
  qed
qed

text \<open>
  C30. A request is refused with status 403 exactly if it is in scope and its address is not admitted: the
  deny list wins, and the allow list admits the addresses that one of its valid entries names. An
  allow list without a valid entry admits everyone.
\<close>

theorem firewall_decision:
  assumes "\<And>ip. ip_parse K (ip_show K ip) = Some ip" and "compiled K cfg fw"
  shows "(\<exists>e. fst (firewall_check K t1 t2 remote meth path fw) = Inl e \<and> denial_status e = 403) \<longleftrightarrow>
    in_scope meth path fw \<and> \<not> admitted K cfg remote"
proof -
  obtain r fw' where r: "firewall_check K t1 t2 remote meth path fw = (r, fw')"
    by (cases "firewall_check K t1 t2 remote meth path fw")
  note lists = lists_decision [OF assms, of remote]
  from r show ?thesis
  proof (cases rule: check_cases)
    case (refused e)
    have "\<not> admitted K cfg remote" using lists(1) refused(2) by simp
    moreover have "denial_status e = 403" by (rule lists(2) [OF refused(2)])
    ultimately show ?thesis using r refused by simp
  next
    case (over e)
    have "e = GlobalQpsExceeded" using global_qps_keeps [OF over(3)] by simp
    then show ?thesis using r over lists(1) by simp
  next
    case (counted fw1)
    have "\<forall>e. r = Inl e \<longrightarrow> e = PerIpQpsExceeded" using per_ip_qps_keeps [OF counted(4)] by blast
    moreover have "denial_status PerIpQpsExceeded \<noteq> 403" by simp
    ultimately have "\<not> (\<exists>e. r = Inl e \<and> denial_status e = 403)" by blast
    moreover have "admitted K cfg remote" using counted(2) lists(1) by simp
    ultimately show ?thesis unfolding r fst_conv by blast
  qed (use r in simp)
qed

definition digit_ips :: "(nat, unit) ip_ops" where
  "digit_ips =
     \<lparr>ip_show = show_nat,
      ip_parse = (\<lambda>s. if s \<noteq> [] \<and> list_all is_digit s then Some (digits_value s) else None),
      net_parse = (\<lambda>s. if s = ''all'' then Some () else None), net_contains = (\<lambda>n ip. True)\<rparr>"

lemma digit_ips_inverse: "ip_parse digit_ips (ip_show digit_ips ip) = Some ip"
  using show_nat_digits [of ip] by (simp add: digit_ips_def)

lemma firewall_decision_witness:
  fixes cfg :: firewall_config
  defines "cfg \<equiv> \<lparr>fc_enabled = True, fc_allow = [''x.y''], fc_deny = [''7''], fc_global_qps = None,
    fc_per_ip_qps = None, fc_protected_prefixes = [], fc_exempt_prefixes = []\<rparr>"
  shows "(\<exists>e. fst (firewall_check digit_ips 1 1 (Some 7) ''GET'' ''/'' (firewall_new digit_ips cfg)) = Inl e \<and>
      denial_status e = 403) \<and>
    \<not> (\<exists>e. fst (firewall_check digit_ips 1 1 (Some 8) ''GET'' ''/'' (firewall_new digit_ips cfg)) = Inl e \<and>
      denial_status e = 403)"
proof -
  note D = firewall_decision [OF digit_ips_inverse compiled_new [of digit_ips cfg]]
  have "in_scope ''GET'' ''/'' (firewall_new digit_ips cfg)" unfolding cfg_def by code_simp
  moreover have "\<not> admitted digit_ips cfg (Some 7)" unfolding cfg_def by code_simp
  moreover have "admitted digit_ips cfg (Some 8)" unfolding cfg_def by code_simp
  ultimately show ?thesis unfolding D by blast
qed

section \<open>Quotas\<close>

text \<open>A request with the two instants at which the quotas read the clock.\<close>

record 'ip fw_request =
  rq_global_time :: u64
  rq_ip_time :: u64
  rq_remote :: "'ip option"
  rq_method :: string
  rq_path :: string

fun fw_run ::
  "('ip, 'net) ip_ops \<Rightarrow> 'ip fw_request list \<Rightarrow> ('ip, 'net) firewall \<Rightarrow> bool list \<times> ('ip, 'net) firewall"
where
  "fw_run K [] fw = ([], fw)"
| "fw_run K (q # qs) fw =
     (let (r, fw1) = firewall_check K (rq_global_time q) (rq_ip_time q) (rq_remote q) (rq_method q) (rq_path q) fw;
          (rs, fw2) = fw_run K qs fw1
      in ((r = Inr ()) # rs, fw2))"

definition scoped :: "firewall_config \<Rightarrow> 'ip fw_request \<Rightarrow> bool" where
  "scoped cfg q \<longleftrightarrow>
     fc_enabled cfg \<and> rq_method q \<noteq> ''OPTIONS'' \<and>
     \<not> list_ex (\<lambda>p. starts_with p (rq_path q)) (fc_exempt_prefixes cfg) \<and>
     (fc_protected_prefixes cfg = [] \<or>
      list_ex (\<lambda>p. starts_with p (rq_path q)) (fc_protected_prefixes cfg))"

lemma in_scope_scoped: "in_scope (rq_method q) (rq_path q) fw = scoped (fw_cfg fw) q"
  by (auto simp: in_scope_def scoped_def)

definition passed ::
  "('ip fw_request \<Rightarrow> bool) \<Rightarrow> 'ip fw_request list \<Rightarrow> bool list \<Rightarrow> nat"
where
  "passed P qs rs = length (filter (\<lambda>(q, r). r \<and> P q) (zip qs rs))"

lemma passed_simps [simp]:
  "passed P [] rs = 0" "passed P qs [] = 0"
  "passed P (q # qs) (r # rs) = (if r \<and> P q then 1 else 0) + passed P qs rs"
  by (simp_all add: passed_def)

text \<open>How many requests of the second \<open>s\<close> a window still lets through.\<close>

definition remaining :: "u64 \<Rightarrow> u64 \<Rightarrow> window option \<Rightarrow> nat" where
  "remaining limit s w =
     (case w of
        None \<Rightarrow> unat limit
      | Some w \<Rightarrow>
          (if win_second w = s then unat limit - unat (win_count w)
           else if s < win_second w then 0 else unat limit))"

lemma remaining_step:
  assumes "w = None \<or> (\<exists>v. w = Some v \<and> win_second v \<le> t)"
    and "v = window_at t (case w of Some v \<Rightarrow> v | None \<Rightarrow> \<lparr>win_second = t, win_count = 0\<rparr>)"
  shows "remaining limit s (Some v) \<le> remaining limit s w"
    and "\<not> limit \<le> win_count v \<Longrightarrow>
      (if t = s then 1 else 0) + remaining limit s (Some (v\<lparr>win_count := win_count v + 1\<rparr>)) \<le> remaining limit s w"
    and "win_second v = t"
proof -
  show t: "win_second v = t" using assms(2) by (auto simp: window_at_def split: option.splits)
  have v: "win_count v = 0 \<or> w = Some v"
    using assms by (auto simp: window_at_def split: option.splits)
  show le: "remaining limit s (Some v) \<le> remaining limit s w"
  proof (cases "w = Some v")
    case False
    then have "win_count v = 0" using v by simp
    then show ?thesis using assms(1,2) t by (auto simp: remaining_def window_at_def split: option.splits if_splits)
  qed simp
  assume lim: "\<not> limit \<le> win_count v"
  then have "unat (win_count v) < unat limit" by (simp add: word_le_nat_alt)
  moreover from this have "unat (win_count v + 1) = Suc (unat (win_count v))"
    using u64_unat_bound [of limit] by (intro u64_succ_small) linarith
  ultimately have "(if t = s then 1 else 0) + remaining limit s (Some (v\<lparr>win_count := win_count v + 1\<rparr>)) \<le>
      remaining limit s (Some v)"
    using t by (auto simp: remaining_def)
  with le show "(if t = s then 1 else 0) + remaining limit s (Some (v\<lparr>win_count := win_count v + 1\<rparr>)) \<le>
      remaining limit s w" by linarith
qed

definition global_ready :: "u64 \<Rightarrow> ('ip, 'net) firewall \<Rightarrow> bool" where
  "global_ready t fw \<longleftrightarrow> win_second (fw_global_win fw) \<le> t"

definition ip_ready :: "string \<Rightarrow> u64 \<Rightarrow> ('ip, 'net) firewall \<Rightarrow> bool" where
  "ip_ready k t fw \<longleftrightarrow>
     map_of (fw_per_ip_win fw) k = None \<or>
     (\<exists>v. map_of (fw_per_ip_win fw) k = Some v \<and> win_second v \<le> t)"

lemma global_step:
  assumes "fc_global_qps (fw_cfg fw) = Some limit" and "global_ready t1 fw"
    and "firewall_check K t1 t2 remote meth path fw = (r, fw')"
  shows "global_ready t1 fw' \<and> fw_cfg fw' = fw_cfg fw \<and>
    (if in_scope meth path fw \<and> r = Inr () \<and> t1 = s then 1 else 0) + remaining limit s (Some (fw_global_win fw')) \<le>
      remaining limit s (Some (fw_global_win fw))"
proof -
  define v where "v = window_at t1 (fw_global_win fw)"
  note step = remaining_step [of "Some (fw_global_win fw)" t1 v, unfolded option.case, OF _ v_def]
  have g: "check_global_qps t1 fw =
      (if limit \<le> win_count v then (Inl GlobalQpsExceeded, fw\<lparr>fw_global_win := v\<rparr>)
       else (Inr (), fw\<lparr>fw_global_win := v\<lparr>win_count := win_count v + 1\<rparr>\<rparr>))"
    by (simp add: check_global_qps_def assms(1) v_def Let_def)
  have ready: "win_second (fw_global_win fw) \<le> t1" using assms(2) by (simp add: global_ready_def)
  from assms(3) show ?thesis
  proof (cases rule: check_cases)
    case bypass
    then show ?thesis using assms(2) by simp
  next
    case (refused e)
    then show ?thesis using assms(2) by simp
  next
    case (over e)
    then have "fw' = fw\<lparr>fw_global_win := v\<rparr>" using g by (auto split: if_splits)
    then show ?thesis using over(4) step(1,3) ready by (simp add: global_ready_def)
  next
    case (counted fw1)
    then have f: "\<not> limit \<le> win_count v" "fw1 = fw\<lparr>fw_global_win := v\<lparr>win_count := win_count v + 1\<rparr>\<rparr>"
      using g by (auto split: if_splits)
    moreover have "fw_cfg fw' = fw_cfg fw1" "fw_global_win fw' = fw_global_win fw1"
      using per_ip_qps_keeps [OF counted(4)] by simp_all
    ultimately show ?thesis using step(2) [OF _ f(1), of s] step(3) ready by (auto simp: global_ready_def)
  qed
qed

lemma ip_step:
  assumes "fc_per_ip_qps (fw_cfg fw) = Some limit" and "ip_ready k t2 fw"
    and "firewall_check K t1 t2 remote meth path fw = (r, fw')"
  shows "ip_ready k t2 fw' \<and> fw_cfg fw' = fw_cfg fw \<and>
    (if in_scope meth path fw \<and> r = Inr () \<and> map_option (ip_show K) remote = Some k \<and> t2 = s then 1 else 0) +
      remaining limit s (map_of (fw_per_ip_win fw') k) \<le> remaining limit s (map_of (fw_per_ip_win fw) k)"
  using assms(3)
proof (cases rule: check_cases)
  case bypass
  then show ?thesis using assms(2) by simp
next
  case (refused e)
  then show ?thesis using assms(2) by simp
next
  case (over e)
  then show ?thesis using assms(2) global_qps_keeps [OF over(3)] by (simp add: ip_ready_def)
next
  case (counted fw1)
  note keep = global_qps_keeps [OF counted(3)] per_ip_qps_keeps [OF counted(4)]
  have ready: "ip_ready k t2 fw1" using assms(2) keep by (simp add: ip_ready_def)
  have lim: "fc_per_ip_qps (fw_cfg fw1) = Some limit" using assms(1) keep by simp
  show ?thesis
  proof (cases "map_option (ip_show K) remote = Some k")
    case False
    then have "map_of (fw_per_ip_win fw') k = map_of (fw_per_ip_win fw1) k"
      using counted(4) lim
      by (auto simp: check_per_ip_qps_def Let_def dict_simps split: option.splits if_splits)
    then show ?thesis using False ready keep assms(2) by (auto simp: ip_ready_def)
  next
    case True
    define v where "v = window_at t2
      (case map_of (fw_per_ip_win fw1) k of Some v \<Rightarrow> v | None \<Rightarrow> \<lparr>win_second = t2, win_count = 0\<rparr>)"
    have same: "fw_per_ip_win fw1 = fw_per_ip_win fw" using keep by simp
    note step = remaining_step [OF ready [unfolded ip_ready_def] v_def]
    have p: "check_per_ip_qps t2 (Some k) fw1 =
        (if limit \<le> win_count v
         then (Inl PerIpQpsExceeded, fw1\<lparr>fw_per_ip_win := AList.update k v (fw_per_ip_win fw1)\<rparr>)
         else (Inr (), fw1\<lparr>fw_per_ip_win :=
                 AList.update k (v\<lparr>win_count := win_count v + 1\<rparr>) (fw_per_ip_win fw1)\<rparr>))"
      by (simp add: check_per_ip_qps_def lim v_def Let_def)
    show ?thesis
    proof (cases "limit \<le> win_count v")
      case True
      then have "r = Inl PerIpQpsExceeded" "fw' = fw1\<lparr>fw_per_ip_win := AList.update k v (fw_per_ip_win fw1)\<rparr>"
        using counted(4) p \<open>map_option (ip_show K) remote = Some k\<close> by simp_all
      then show ?thesis using step(1) [of limit s] step(3) keep by (simp add: ip_ready_def dict_simps same)
    next
      case False
      then have "r = Inr ()"
        "fw' = fw1\<lparr>fw_per_ip_win := AList.update k (v\<lparr>win_count := win_count v + 1\<rparr>) (fw_per_ip_win fw1)\<rparr>"
        using counted(4) p True by simp_all
      then show ?thesis
        using step(2) [OF False, of s] step(3) keep by (auto simp: ip_ready_def dict_simps same)
    qed
  qed
qed

lemma run_global:
  assumes "fc_global_qps (fw_cfg fw) = Some limit" and "global_ready t fw"
    and "sorted (t # map rq_global_time qs)" and "fw_run K qs fw = (rs, fw')"
  shows "passed (\<lambda>q. scoped (fw_cfg fw) q \<and> rq_global_time q = s) qs rs \<le>
    remaining limit s (Some (fw_global_win fw))"
  using assms
proof (induction qs arbitrary: t fw rs)
  case (Cons q qs)
  obtain r fw1 where c: "firewall_check K (rq_global_time q) (rq_ip_time q) (rq_remote q) (rq_method q)
      (rq_path q) fw = (r, fw1)"
    by (cases "firewall_check K (rq_global_time q) (rq_ip_time q) (rq_remote q) (rq_method q) (rq_path q) fw")
  obtain rs1 where t: "fw_run K qs fw1 = (rs1, fw')" "rs = (r = Inr ()) # rs1"
    using Cons.prems(4) by (auto simp: c split: prod.splits)
  have ready: "global_ready (rq_global_time q) fw"
    using Cons.prems(2,3) by (auto simp: global_ready_def)
  note one = global_step [OF Cons.prems(1) ready c, of s]
  have "passed (\<lambda>q. scoped (fw_cfg fw1) q \<and> rq_global_time q = s) qs rs1 \<le>
      remaining limit s (Some (fw_global_win fw1))"
    by (rule Cons.IH [OF _ _ _ t(1), of "rq_global_time q"]) (use one Cons.prems(1,3) in auto)
  then show ?case using one by (auto simp: t(2) in_scope_scoped split: if_splits)
qed simp

lemma run_ip:
  assumes "fc_per_ip_qps (fw_cfg fw) = Some limit" and "ip_ready k t fw"
    and "sorted (t # map rq_ip_time qs)" and "fw_run K qs fw = (rs, fw')"
  shows "passed (\<lambda>q. scoped (fw_cfg fw) q \<and> map_option (ip_show K) (rq_remote q) = Some k \<and> rq_ip_time q = s)
    qs rs \<le> remaining limit s (map_of (fw_per_ip_win fw) k)"
  using assms
proof (induction qs arbitrary: t fw rs)
  case (Cons q qs)
  obtain r fw1 where c: "firewall_check K (rq_global_time q) (rq_ip_time q) (rq_remote q) (rq_method q)
      (rq_path q) fw = (r, fw1)"
    by (cases "firewall_check K (rq_global_time q) (rq_ip_time q) (rq_remote q) (rq_method q) (rq_path q) fw")
  obtain rs1 where t: "fw_run K qs fw1 = (rs1, fw')" "rs = (r = Inr ()) # rs1"
    using Cons.prems(4) by (auto simp: c split: prod.splits)
  have ready: "ip_ready k (rq_ip_time q) fw"
    using Cons.prems(2,3) by (auto simp: ip_ready_def)
  note one = ip_step [OF Cons.prems(1) ready c, of s]
  have "passed (\<lambda>q. scoped (fw_cfg fw1) q \<and> map_option (ip_show K) (rq_remote q) = Some k \<and> rq_ip_time q = s)
      qs rs1 \<le> remaining limit s (map_of (fw_per_ip_win fw1) k)"
    by (rule Cons.IH [OF _ _ _ t(1), of "rq_ip_time q"]) (use one Cons.prems(1,3) in auto)
  then show ?case using one by (auto simp: t(2) in_scope_scoped split: if_splits)
qed simp

text \<open>
  As long as the clock does not go back, at most as many requests in scope pass within one second as
  the global quota says, and of one address at most as many as its quota says.
\<close>

theorem quotas_hold:
  assumes "fw_run K qs (firewall_new K cfg) = (rs, fw)"
    and "sorted (map rq_global_time qs)" and "sorted (map rq_ip_time qs)"
  shows "(case fc_global_qps cfg of None \<Rightarrow> True | Some limit \<Rightarrow>
      passed (\<lambda>q. scoped cfg q \<and> rq_global_time q = s) qs rs \<le> unat limit) \<and>
    (case fc_per_ip_qps cfg of None \<Rightarrow> True | Some limit \<Rightarrow>
      passed (\<lambda>q. scoped cfg q \<and> map_option (ip_show K) (rq_remote q) = Some k \<and> rq_ip_time q = s) qs rs
        \<le> unat limit)"
proof -
  have cfg: "fw_cfg (firewall_new K cfg) = cfg" by (simp add: firewall_new_def)
  have "passed (\<lambda>q. scoped cfg q \<and> rq_global_time q = s) qs rs \<le> unat limit"
    if "fc_global_qps cfg = Some limit" for limit
  proof -
    have "passed (\<lambda>q. scoped cfg q \<and> rq_global_time q = s) qs rs \<le>
        remaining limit s (Some (fw_global_win (firewall_new K cfg)))"
      using run_global [of "firewall_new K cfg" limit 0 qs K rs fw s] that assms(1,2)
      by (simp add: cfg global_ready_def firewall_new_def)
    also have "\<dots> \<le> unat limit" by (simp add: remaining_def)
    finally show ?thesis .
  qed
  moreover have "passed (\<lambda>q. scoped cfg q \<and> map_option (ip_show K) (rq_remote q) = Some k \<and> rq_ip_time q = s) qs rs
      \<le> unat limit" if "fc_per_ip_qps cfg = Some limit" for limit
    using run_ip [of "firewall_new K cfg" limit k 0 qs K rs fw s] that assms(1,3)
    by (simp add: cfg ip_ready_def firewall_new_def remaining_def)
  ultimately show ?thesis by (simp split: option.split)
qed

lemma quotas_hold_witness:
  fixes cfg :: firewall_config and q :: "nat fw_request"
  defines "cfg \<equiv> \<lparr>fc_enabled = True, fc_allow = [], fc_deny = [], fc_global_qps = Some 2,
    fc_per_ip_qps = Some 1, fc_protected_prefixes = [], fc_exempt_prefixes = []\<rparr>"
    and "q \<equiv> \<lparr>rq_global_time = 4, rq_ip_time = 4, rq_remote = Some 7, rq_method = ''GET'', rq_path = ''/''\<rparr>"
  shows "fst (fw_run digit_ips [q, q, q\<lparr>rq_remote := Some 8\<rparr>] (firewall_new digit_ips cfg)) = [True, False, False] \<and>
    passed (\<lambda>q. scoped cfg q \<and> rq_global_time q = 4) [q, q, q\<lparr>rq_remote := Some 8\<rparr>]
      (fst (fw_run digit_ips [q, q, q\<lparr>rq_remote := Some 8\<rparr>] (firewall_new digit_ips cfg))) \<le> 2"
proof
  show "fst (fw_run digit_ips [q, q, q\<lparr>rq_remote := Some 8\<rparr>] (firewall_new digit_ips cfg)) = [True, False, False]"
    unfolding cfg_def q_def by code_simp
  have "sorted (map rq_global_time [q, q, q\<lparr>rq_remote := Some 8\<rparr>])"
    "sorted (map rq_ip_time [q, q, q\<lparr>rq_remote := Some 8\<rparr>])"
    by (simp_all add: q_def)
  from quotas_hold [OF surjective_pairing this, where K = digit_ips and cfg = cfg and s = 4]
  show "passed (\<lambda>q. scoped cfg q \<and> rq_global_time q = 4) [q, q, q\<lparr>rq_remote := Some 8\<rparr>]
      (fst (fw_run digit_ips [q, q, q\<lparr>rq_remote := Some 8\<rparr>] (firewall_new digit_ips cfg))) \<le> 2"
    by (simp add: cfg_def del: passed_simps fw_run.simps)
qed

end
