(* ===== verification/HttpServer.thy ===== *)
theory HttpServer
  imports Sessions Firewall AntiDdos Leadership
begin

text \<open>
  The HTTP server of an application, from \<^verbatim>\<open>lithair-core/src/app/mod.rs\<close> (the accept loop
  and request pipeline of \<open>serve\<close>, \<open>add_security_headers\<close>, \<open>path_matches\<close>, \<open>handle_request\<close>),
  \<^verbatim>\<open>lithair-core/src/http/route_guard.rs\<close> and the token check of
  \<^verbatim>\<open>lithair-core/src/config/raft.rs\<close>. What an endpoint does once it is chosen is the argument
  \<open>run\<close>; the endpoints that change the cluster and the schemas are in the theories of these parts.
\<close>

section \<open>Requests and responses\<close>

text \<open>
  Header names are lower case. A header that is absent or not plain text is \<open>None\<close>; a length that
  is not plain text counts as \<open>0\<close>, as in the code.
\<close>

record request =
  hr_method :: string
  hr_path :: string
  hr_path_and_query :: string
  hr_raft_token :: "string option"
  hr_credentials :: credentials
  hr_content_length :: "string option"

record response =
  hs_status :: nat
  hs_headers :: "(string, string) dict"
  hs_body :: string

definition json_response :: "nat \<Rightarrow> string \<Rightarrow> response" where
  "json_response status b =
     \<lparr>hs_status = status, hs_headers = [(''content-type'', ''application/json'')], hs_body = b\<rparr>"

definition error_body :: "string \<Rightarrow> string" where
  "error_body msg = ''{'' @ [CHR 34] @ ''error'' @ [CHR 34] @ '':'' @ [CHR 34] @ msg @ [CHR 34] @ ''}''"

fun has_infix :: "string \<Rightarrow> string \<Rightarrow> bool" where
  "has_infix p [] = (p = [])"
| "has_infix p (c # s) = (take (length p) (c # s) = p \<or> has_infix p s)"

definition ends_with :: "string \<Rightarrow> string \<Rightarrow> bool" where
  "ends_with suf s \<longleftrightarrow> drop (length s - length suf) s = suf"

definition without_end :: "nat \<Rightarrow> string \<Rightarrow> string" where
  "without_end n s = take (length s - n) s"

section \<open>Security headers\<close>

definition or_insert :: "string \<Rightarrow> string \<Rightarrow> (string, string) dict \<Rightarrow> (string, string) dict" where
  "or_insert k v h = (case map_of h k of Some _ \<Rightarrow> h | None \<Rightarrow> AList.update k v h)"

definition add_security_headers :: "bool \<Rightarrow> response \<Rightarrow> response" where
  "add_security_headers tls r =
     (let h1 = or_insert ''x-content-type-options'' ''nosniff'' (hs_headers r);
          h2 = or_insert ''x-frame-options'' ''DENY'' h1;
          h3 = or_insert ''referrer-policy'' ''strict-origin-when-cross-origin'' h2;
          h4 = or_insert ''x-xss-protection'' ''1; mode=block'' h3;
          h5 = (if tls then or_insert ''strict-transport-security''
                  ''max-age=31536000; includeSubDomains'' h4 else h4)
      in r\<lparr>hs_headers := h5\<rparr>)"

section \<open>Path patterns\<close>

fun segments_match :: "string list \<Rightarrow> string list \<Rightarrow> bool" where
  "segments_match (p # ps) (s # ss) =
     (if p = ''*'' then segments_match ps ss
      else if p \<noteq> s then False else segments_match ps ss)"
| "segments_match _ _ = True"

definition path_matches :: "string \<Rightarrow> string \<Rightarrow> bool" where
  "path_matches pattern path =
     (if pattern = path then True
      else if CHR ''*'' \<in> set pattern then
        (if ends_with ''/**'' pattern then Firewall.starts_with (without_end 3 pattern) path
         else if ends_with ''/*'' pattern \<and> \<not> has_infix ''/*/'' pattern
         then Firewall.starts_with (without_end 2 pattern) path
         else if pattern = ''/*'' then True
         else
           (let ps = split_on (CHR ''/'') pattern; ss = split_on (CHR ''/'') path
            in if length ps \<noteq> length ss then False else segments_match ps ss))
      else False)"

section \<open>Route guards\<close>

datatype guard_result = Allow | Deny response

datatype route_guard =
    RequireAuth "string option" "string list"
  | RequireRole "string list" "string option"
  | RateLimit u32 u64
  | CustomGuard "request \<Rightarrow> string + guard_result"

text \<open>The session manager of the server is any value; only a persistent store is recognised.\<close>

datatype 'v session_manager = NoManager | Persistent "'v persistent_store" | OtherManager

definition guard_token :: "request \<Rightarrow> string option" where
  "guard_token r =
     (case Option.bind (cr_authorization (hr_credentials r)) (strip_prefix ''Bearer '') of
        Some t \<Rightarrow> Some t
      | None \<Rightarrow>
          Option.bind (cr_cookie (hr_credentials r))
            (\<lambda>cookies. Option.bind
               (find (\<lambda>c. Firewall.starts_with ''session_token='' (trim c)) (split_on (CHR '';'') cookies))
               (\<lambda>c. strip_prefix ''session_token='' (trim c))))"

definition redirect_page :: "string \<Rightarrow> string" where
  "redirect_page url =
     ''<!DOCTYPE html>'' @ [newline] @ ''<html><head><meta http-equiv='' @ [CHR 34] @ ''refresh'' @ [CHR 34] @
     '' content='' @ [CHR 34] @ ''0;url='' @ url @ [CHR 34] @ ''></head>'' @ [newline] @
     ''<body><p>Redirecting to login...</p></body></html>''"

definition check_auth ::
  "int \<Rightarrow> request \<Rightarrow> 'v session_manager \<Rightarrow> string option \<Rightarrow> string list \<Rightarrow> string + guard_result"
where
  "check_auth now r manager redirect_to exclude =
     (if list_ex (\<lambda>e. Firewall.starts_with e (hr_path r)) exclude then Inr Allow
      else case manager of
             NoManager \<Rightarrow> Inr Allow
           | OtherManager \<Rightarrow> Inl ''Failed to downcast session store''
           | Persistent p \<Rightarrow>
               (let is_valid = (case guard_token r of Some t \<Rightarrow> ps_get now t p \<noteq> None | None \<Rightarrow> False)
                in if is_valid then Inr Allow
                   else case redirect_to of
                          Some url \<Rightarrow> Inr (Deny \<lparr>hs_status = 302,
                            hs_headers = [(''location'', url), (''content-type'', ''text/html'')],
                            hs_body = redirect_page url\<rparr>)
                        | None \<Rightarrow> Inr (Deny (json_response 401 (error_body ''Authentication required'')))))"

definition check_role :: "string option \<Rightarrow> string + guard_result" where
  "check_role redirect_to =
     (case redirect_to of
        Some url \<Rightarrow> Inr (Deny \<lparr>hs_status = 302, hs_headers = [(''location'', url)], hs_body = ''Redirecting...''\<rparr>)
      | None \<Rightarrow> Inr (Deny (json_response 403 (error_body ''Role-based access control not yet available''))))"

fun guard_check :: "int \<Rightarrow> request \<Rightarrow> 'v session_manager \<Rightarrow> route_guard \<Rightarrow> string + guard_result" where
  "guard_check now r manager (RequireAuth redirect_to exclude) = check_auth now r manager redirect_to exclude"
| "guard_check now r manager (RequireRole roles redirect_to) = check_role redirect_to"
| "guard_check now r manager (RateLimit max_requests window_secs) =
     Inr (Deny (json_response 503 (error_body ''Rate limiting not yet available'')))"
| "guard_check now r manager (CustomGuard checker) = Inr Allow"

record guard_matcher =
  gm_pattern :: string
  gm_methods :: "string list option"
  gm_guard :: route_guard

definition matches_pattern :: "guard_matcher \<Rightarrow> string \<Rightarrow> bool" where
  "matches_pattern m path =
     (if ends_with ''/*'' (gm_pattern m) then Firewall.starts_with (without_end 2 (gm_pattern m)) path
      else path = gm_pattern m)"

definition guard_matches :: "guard_matcher \<Rightarrow> request \<Rightarrow> bool" where
  "guard_matches m r =
     (if (case gm_methods m of Some ms \<Rightarrow> hr_method r \<notin> set ms | None \<Rightarrow> False) then False
      else matches_pattern m (hr_path r))"

section \<open>The cluster token\<close>

record raft_config =
  rc_path :: string
  rc_auth_required :: bool
  rc_auth_token :: "string option"

definition heartbeat_path :: "raft_config \<Rightarrow> string" where
  "heartbeat_path c = rc_path c @ ''/heartbeat''"

definition leader_path :: "raft_config \<Rightarrow> string" where
  "leader_path c = rc_path c @ ''/leader''"

text \<open>The comparison of two hashes byte by byte, without an early exit.\<close>

definition constant_time_eq :: "bytes \<Rightarrow> bytes \<Rightarrow> bool" where
  "constant_time_eq xs ys \<longleftrightarrow> fold (\<lambda>(a, b) acc. acc OR (a XOR b)) (zip xs ys) 0 = 0"

definition validate_token :: "(string \<Rightarrow> string \<Rightarrow> bytes) \<Rightarrow> raft_config \<Rightarrow> string option \<Rightarrow> bool" where
  "validate_token hmac c token =
     (if \<not> rc_auth_required c then True
      else case (rc_auth_token c, token) of
             (Some expected, Some provided) \<Rightarrow>
               constant_time_eq (hmac expected provided) (hmac expected expected)
           | (None, _) \<Rightarrow> True
           | (Some _, None) \<Rightarrow> False)"

section \<open>Routing\<close>

datatype cluster_endpoint =
    Replicate | ReplicateBulk | ReplicateUpdate | ReplicateDelete
  | RaftAppend | GetSnapshot | InstallSnapshot | ClusterHealth | ResyncStats | MigrateOperation
  | SyncStatus | ForceResync

datatype schema_endpoint =
    SchemaPropose | SchemaVote | SchemaCurrent
  | AdminSchemaList | AdminSchemaPending | AdminSchemaApprove | AdminSchemaReject | AdminSchemaSync
  | AdminSchemaDiff | AdminSchemaHistory | AdminSchemaRevalidate | AdminSchemaRollback
  | AdminSchemaLockStatus | AdminSchemaLock | AdminSchemaUnlock

datatype endpoint =
    Cluster cluster_endpoint | Schema schema_endpoint
  | StatusPage | OpenApiSpec | SwaggerUi | MetricsPage | DataAdmin | DataAdminUi
  | CustomRoute nat | ModelRoute nat | AstroAsset string | Frontend string string
  | NotFoundHandler | NotFoundDefault

text \<open>
  The server: its part of the cluster, its guards and the tables of its routes. A frontend is its
  prefix with the assets that it holds; the list is in the order in which the hash map of
  frontends iterates.
\<close>

record 'v server =
  sv_raft :: "leadership option"
  sv_raft_config :: raft_config
  sv_guards :: "guard_matcher list"
  sv_sessions :: "'v session_manager"
  sv_openapi_enabled :: bool
  sv_metrics_enabled :: bool
  sv_metrics_path :: string
  sv_data_admin_enabled :: bool
  sv_admin_ui_path :: "string option"
  sv_custom_routes :: "(string \<times> string) list"
  sv_model_paths :: "string list"
  sv_frontends :: "(string \<times> (string \<Rightarrow> bool)) list"
  sv_not_found :: bool

definition method_of :: "string \<Rightarrow> http_method" where
  "method_of m =
     (if m = ''GET'' then GET else if m = ''POST'' then POST else if m = ''PUT'' then PUT
      else if m = ''DELETE'' then DELETE else OtherMethod m)"

text \<open>The endpoints of the cluster and of the schema administration, in the order of the code.\<close>

definition internal_endpoint :: "string \<Rightarrow> string \<Rightarrow> endpoint option" where
  "internal_endpoint meth path =
     (let is_get = (meth = ''GET''); is_post = (meth = ''POST'') in
      if path = ''/internal/replicate'' \<and> is_post then Some (Cluster Replicate)
      else if path = ''/internal/replicate_bulk'' \<and> is_post then Some (Cluster ReplicateBulk)
      else if path = ''/internal/replicate_update'' \<and> is_post then Some (Cluster ReplicateUpdate)
      else if path = ''/internal/replicate_delete'' \<and> is_post then Some (Cluster ReplicateDelete)
      else if path = ''/_raft/append'' \<and> is_post then Some (Cluster RaftAppend)
      else if path = ''/_raft/snapshot'' \<and> is_get then Some (Cluster GetSnapshot)
      else if path = ''/_raft/snapshot'' \<and> is_post then Some (Cluster InstallSnapshot)
      else if path = ''/_raft/health'' \<and> is_get then Some (Cluster ClusterHealth)
      else if path = ''/_raft/resync_stats'' \<and> is_get then Some (Cluster ResyncStats)
      else if path = ''/_raft/migrate'' \<and> is_post then Some (Cluster MigrateOperation)
      else if path = ''/_raft/sync-status'' \<and> is_get then Some (Cluster SyncStatus)
      else if Firewall.starts_with ''/_raft/force-resync'' path \<and> is_post then Some (Cluster ForceResync)
      else if path = ''/_raft/schema/propose'' \<and> is_post then Some (Schema SchemaPropose)
      else if path = ''/_raft/schema/vote'' \<and> is_post then Some (Schema SchemaVote)
      else if path = ''/_raft/schema/current'' \<and> is_get then Some (Schema SchemaCurrent)
      else if path = ''/_admin/schema'' \<and> is_get then Some (Schema AdminSchemaList)
      else if path = ''/_admin/schema/pending'' \<and> is_get then Some (Schema AdminSchemaPending)
      else if Firewall.starts_with ''/_admin/schema/approve/'' path \<and> is_post then Some (Schema AdminSchemaApprove)
      else if Firewall.starts_with ''/_admin/schema/reject/'' path \<and> is_post then Some (Schema AdminSchemaReject)
      else if path = ''/_admin/schema/sync'' \<and> is_post then Some (Schema AdminSchemaSync)
      else if path = ''/_admin/schema/diff'' \<and> is_get then Some (Schema AdminSchemaDiff)
      else if path = ''/_admin/schema/history'' \<and> is_get then Some (Schema AdminSchemaHistory)
      else if path = ''/_admin/schema/revalidate'' \<and> is_post then Some (Schema AdminSchemaRevalidate)
      else if Firewall.starts_with ''/_admin/schema/rollback/'' path \<and> is_post then Some (Schema AdminSchemaRollback)
      else if path = ''/_admin/schema/lock/status'' \<and> is_get then Some (Schema AdminSchemaLockStatus)
      else if path = ''/_admin/schema/lock'' \<and> is_post then Some (Schema AdminSchemaLock)
      else if path = ''/_admin/schema/unlock'' \<and> is_post then Some (Schema AdminSchemaUnlock)
      else None)"

text \<open>The guards in their order: the first that denies or fails answers.\<close>

fun run_guards ::
  "int \<Rightarrow> request \<Rightarrow> 'v session_manager \<Rightarrow> guard_matcher list \<Rightarrow> response option"
where
  "run_guards now r manager [] = None"
| "run_guards now r manager (m # ms) =
     (if guard_matches m r then
        (case guard_check now r manager (gm_guard m) of
           Inr Allow \<Rightarrow> run_guards now r manager ms
         | Inr (Deny resp) \<Rightarrow> Some resp
         | Inl e \<Rightarrow> Some (json_response 500 (error_body ''Internal server error'')))
      else run_guards now r manager ms)"

text \<open>Frontends by the length of their prefix, longest first.\<close>

definition by_length :: "(string \<times> (string \<Rightarrow> bool)) list \<Rightarrow> (string \<times> (string \<Rightarrow> bool)) list" where
  "by_length fs = sort_key (\<lambda>(p, _). - int (length p)) fs"

definition frontend_route :: "'v server \<Rightarrow> string \<Rightarrow> string \<Rightarrow> endpoint option" where
  "frontend_route sv meth path =
     (if meth = ''GET'' \<and> sv_frontends sv \<noteq> [] then
        (let fs = by_length (sv_frontends sv) in
         if Firewall.starts_with ''/_astro/'' path then
           map_option (\<lambda>(p, _). AstroAsset p) (find (\<lambda>(_, has). has path) fs)
         else
           map_option
             (\<lambda>(p, _). Frontend p (if p = ''/'' then path
                else case strip_prefix p path of Some x \<Rightarrow> x | None \<Rightarrow> path))
             (find (\<lambda>(p, _). Firewall.starts_with p path) fs))
      else None)"

text \<open>What comes after the guards.\<close>

definition public_route :: "'v server \<Rightarrow> string \<Rightarrow> string \<Rightarrow> endpoint" where
  "public_route sv meth path =
     (if path = ''/status'' \<and> meth = ''GET'' then StatusPage
      else if sv_openapi_enabled sv \<and> path = ''/openapi.json'' \<and> meth = ''GET'' then OpenApiSpec
      else if sv_openapi_enabled sv \<and> path = ''/docs'' \<and> meth = ''GET'' then SwaggerUi
      else if sv_metrics_enabled sv \<and> path = sv_metrics_path sv then MetricsPage
      else if sv_data_admin_enabled sv \<and> Firewall.starts_with ''/_admin/data/'' path then DataAdmin
      else if (case sv_admin_ui_path sv of Some u \<Rightarrow> path = u \<or> path = u @ ''/'' | None \<Rightarrow> False)
      then DataAdminUi
      else
        (case position (\<lambda>(m, p). m = meth \<and> path_matches p path) (sv_custom_routes sv) of
           Some i \<Rightarrow> CustomRoute i
         | None \<Rightarrow>
             (case position (\<lambda>b. Firewall.starts_with b path) (sv_model_paths sv) of
                Some i \<Rightarrow> ModelRoute i
              | None \<Rightarrow>
                  (case frontend_route sv meth path of
                     Some ep \<Rightarrow> ep
                   | None \<Rightarrow> (if sv_not_found sv then NotFoundHandler else NotFoundDefault)))))"

datatype routed = Answer response | Heartbeat | LeaderInfo | Handler endpoint

definition invalid_token :: response where
  "invalid_token = json_response 401 (error_body ''Invalid Raft token'')"

definition show_port :: "u16 \<Rightarrow> string" where
  "show_port p = show_nat (unat p)"

definition redirect_response :: "u16 \<Rightarrow> request \<Rightarrow> response" where
  "redirect_response port r =
     (let url = ''http://127.0.0.1:'' @ show_port port @ hr_path_and_query r; q = [CHR 34]
      in \<lparr>hs_status = 307, hs_headers = [(''location'', url), (''content-type'', ''application/json'')],
          hs_body = ''{'' @ q @ ''message'' @ q @ '':'' @ q @ ''Redirected to leader'' @ q @ '','' @ q @
            ''leader_url'' @ q @ '':'' @ q @ url @ q @ ''}''\<rparr>)"

definition raft_route :: "(string \<Rightarrow> string \<Rightarrow> bytes) \<Rightarrow> 'v server \<Rightarrow> request \<Rightarrow> routed option" where
  "raft_route hmac sv r =
     (case sv_raft sv of
        None \<Rightarrow> None
      | Some raft \<Rightarrow>
          (let c = sv_raft_config sv in
           if hr_path r = heartbeat_path c \<and> hr_method r = ''POST'' then
             Some (if \<not> validate_token hmac c (hr_raft_token r) then Answer invalid_token else Heartbeat)
           else if hr_path r = leader_path c \<and> hr_method r = ''GET'' then
             Some (if \<not> validate_token hmac c (hr_raft_token r) then Answer invalid_token else LeaderInfo)
           else map_option (\<lambda>port. Answer (redirect_response port r))
                  (redirect_port (method_of (hr_method r)) (hr_path r) raft)))"

definition handle_request ::
  "(string \<Rightarrow> string \<Rightarrow> bytes) \<Rightarrow> 'v server \<Rightarrow> int \<Rightarrow> request \<Rightarrow> routed"
where
  "handle_request hmac sv now r =
     (case raft_route hmac sv r of
        Some x \<Rightarrow> x
      | None \<Rightarrow>
          (case internal_endpoint (hr_method r) (hr_path r) of
             Some ep \<Rightarrow> Handler ep
           | None \<Rightarrow>
               (case run_guards now r (sv_sessions sv) (sv_guards sv) of
                  Some resp \<Rightarrow> Answer resp
                | None \<Rightarrow> Handler (public_route sv (hr_method r) (hr_path r)))))"

section \<open>The pipeline in front of the routes\<close>

text \<open>
  One request: firewall, request rate, announced length, routes, security headers. \<open>run\<close> gives the
  result of the chosen endpoint; \<open>K\<close> prints and parses addresses.
\<close>

record clocks =
  ck_global :: u64
  ck_ip :: u64
  ck_rate :: int
  ck_guard :: int

definition too_long :: "nat \<Rightarrow> request \<Rightarrow> bool" where
  "too_long max_body r =
     (case hr_content_length r of
        None \<Rightarrow> False
      | Some v \<Rightarrow> (case parse_unsigned (2 ^ 64 - 1) v of Some n \<Rightarrow> max_body < n | None \<Rightarrow> False))"

definition serve_request ::
  "('ip, 'net) ip_ops \<Rightarrow> (string \<Rightarrow> string \<Rightarrow> bytes) \<Rightarrow> int \<Rightarrow> bool \<Rightarrow> nat \<Rightarrow>
   (routed \<Rightarrow> request \<Rightarrow> string + response) \<Rightarrow> 'v server \<Rightarrow> clocks \<Rightarrow> bool \<Rightarrow> 'ip \<Rightarrow> request \<Rightarrow>
   ('ip, 'net) firewall \<Rightarrow> 'ip ddos option \<Rightarrow> response \<times> ('ip, 'net) firewall \<times> 'ip ddos option"
where
  "serve_request K hmac second tls max_body run sv ck lock_free ip r fw dd =
     (case firewall_check K (ck_global ck) (ck_ip ck) (Some ip) (hr_method r) (hr_path r) fw of
        (Inl _, fw1) \<Rightarrow> (add_security_headers tls (json_response 403 (error_body ''Forbidden'')), fw1, dd)
      | (Inr _, fw1) \<Rightarrow>
          (let (allowed, dd1) =
             (case dd of
                None \<Rightarrow> (True, None)
              | Some d \<Rightarrow> map_prod id Some (is_request_allowed second lock_free (ck_rate ck) ip d))
           in if \<not> allowed then
                (add_security_headers tls
                   \<lparr>hs_status = 429,
                    hs_headers = [(''content-type'', ''application/json''), (''retry-after'', ''60'')],
                    hs_body = error_body ''Rate limit exceeded''\<rparr>, fw1, dd1)
              else if too_long max_body r then
                (add_security_headers tls (json_response 413 (error_body ''Request body too large'')), fw1, dd1)
              else
                (add_security_headers tls
                   (case handle_request hmac sv (ck_guard ck) r of
                      Answer resp \<Rightarrow> resp
                    | x \<Rightarrow>
                        (case run x r of
                           Inr resp \<Rightarrow> resp
                         | Inl e \<Rightarrow> json_response 500 (error_body ''Internal server error''))),
                 fw1, dd1)))"

text \<open>The accept loop asks for a connection and never registers it.\<close>

definition accept_connection :: "'ip \<Rightarrow> 'ip ddos option \<Rightarrow> bool" where
  "accept_connection ip dd = (case dd of None \<Rightarrow> True | Some d \<Rightarrow> is_connection_allowed ip d)"

section \<open>Texts\<close>

lemma starts_with_append [simp]: "Firewall.starts_with p (p @ x)"
  by (simp add: Firewall.starts_with_def)

lemma ends_with_iff: "ends_with suf s \<longleftrightarrow> (\<exists>p. s = p @ suf)"
proof
  assume "ends_with suf s"
  then have "s = take (length s - length suf) s @ suf"
    unfolding ends_with_def by (metis append_take_drop_id)
  then show "\<exists>p. s = p @ suf" by blast
qed (auto simp: ends_with_def)

lemma no_middle_wildcard: "CHR ''*'' \<notin> set pre \<Longrightarrow> \<not> has_infix ''/*/'' (pre @ ''/*'')"
proof (induction pre)
  case (Cons c pre)
  then show ?case by (cases pre) auto
qed simp

section \<open>Properties\<close>

lemma or_insert_lookup [dict_simps]:
  "map_of (or_insert k v h) k' = (if k' = k \<and> map_of h k = None then Some v else map_of h k')"
  by (cases "map_of h k") (simp_all add: or_insert_def dict_simps)

text \<open>The headers that every answer carries.\<close>

definition security_default :: "bool \<Rightarrow> string \<Rightarrow> string option" where
  "security_default tls k =
     (if k = ''x-content-type-options'' then Some ''nosniff''
      else if k = ''x-frame-options'' then Some ''DENY''
      else if k = ''referrer-policy'' then Some ''strict-origin-when-cross-origin''
      else if k = ''x-xss-protection'' then Some ''1; mode=block''
      else if tls \<and> k = ''strict-transport-security'' then Some ''max-age=31536000; includeSubDomains''
      else None)"

lemma security_lookup:
  "map_of (hs_headers (add_security_headers tls r)) k =
    (case map_of (hs_headers r) k of Some v \<Rightarrow> Some v | None \<Rightarrow> security_default tls k)"
  by (simp add: add_security_headers_def security_default_def dict_simps Let_def split: option.split)

lemma without_end_append [simp]: "without_end (length suf) (p @ suf) = p"
  by (simp add: without_end_def)

lemma without_end_two [simp]: "without_end 2 (p @ ''/*'') = p" and
  without_end_three [simp]: "without_end 3 (p @ ''/**'') = p"
  by (simp_all add: without_end_def)

lemma ends_with_append [simp]: "ends_with suf (p @ suf)"
  by (simp add: ends_with_def)

lemma double_star_end [simp]: "\<not> ends_with ''/*'' (p @ ''/**'')"
proof
  assume "ends_with ''/*'' (p @ ''/**'')"
  then obtain q where "p @ ''/**'' = q @ ''/*''" by (auto simp: ends_with_iff)
  then have "(p @ ''/*'') @ ''*'' = (q @ ''/'') @ ''*''" by simp
  then have "p @ ''/*'' = q @ ''/''" unfolding append_same_eq .
  then have "last (p @ ''/*'') = last (q @ ''/'')" by (rule arg_cong)
  then show False by simp
qed

lemma single_star_end [simp]: "\<not> ends_with ''/**'' (p @ ''/*'')"
proof
  assume "ends_with ''/**'' (p @ ''/*'')"
  then obtain q where "p @ ''/*'' = q @ ''/**''" by (auto simp: ends_with_iff)
  then have "(p @ ''/'') @ ''*'' = (q @ ''/*'') @ ''*''" by simp
  then have "p @ ''/'' = q @ ''/*''" unfolding append_same_eq .
  then have "last (p @ ''/'') = last (q @ ''/*'')" by (rule arg_cong)
  then show False by simp
qed

text \<open>
  A pattern that ends in a wildcard is a prefix test, also for one segment and within a segment; a
  guard knows only the single star, so the same double star pattern that routes a whole tree guards one
  literal path. Without a star a pattern matches itself only.
\<close>

theorem wildcards_are_prefixes:
  assumes "CHR ''*'' \<notin> set pre"
  shows "(path_matches pre path \<longleftrightarrow> path = pre) \<and>
    (path_matches (pre @ ''/*'') path \<longleftrightarrow> Firewall.starts_with pre path) \<and>
    (path_matches (pre @ ''/**'') path \<longleftrightarrow> Firewall.starts_with pre path) \<and>
    (matches_pattern \<lparr>gm_pattern = pre @ ''/*'', gm_methods = ms, gm_guard = g\<rparr> path \<longleftrightarrow>
       Firewall.starts_with pre path) \<and>
    (matches_pattern \<lparr>gm_pattern = pre @ ''/**'', gm_methods = ms, gm_guard = g\<rparr> path \<longleftrightarrow>
       path = pre @ ''/**'')"
  using assms no_middle_wildcard [OF assms]
  by (auto simp: path_matches_def matches_pattern_def)

section \<open>Guards\<close>

lemma guards_pass:
  "run_guards now r manager ms = None \<Longrightarrow> m \<in> set ms \<Longrightarrow> guard_matches m r \<Longrightarrow>
   guard_check now r manager (gm_guard m) = Inr Allow"
proof (induction ms)
  case (Cons a ms)
  then show ?case
    by (cases "m = a") (auto split: if_splits sum.splits guard_result.splits)
qed simp

lemma guards_stop:
  assumes "run_guards now r manager ms = Some resp"
  shows "\<exists>m \<in> set ms. guard_matches m r \<and> guard_check now r manager (gm_guard m) \<noteq> Inr Allow"
  using assms
proof (induction ms)
  case (Cons a ms)
  show ?case
  proof (cases "guard_matches a r \<and> guard_check now r manager (gm_guard a) \<noteq> Inr Allow")
    case False
    then have "run_guards now r manager ms = Some resp" using Cons.prems by (auto split: if_splits)
    from Cons.IH [OF this] show ?thesis by auto
  qed auto
qed simp

text \<open>The heartbeat and leader endpoints check a token; no other request looks at one.\<close>

definition token_path :: "'v server \<Rightarrow> request \<Rightarrow> bool" where
  "token_path sv r \<longleftrightarrow>
     hr_path r = heartbeat_path (sv_raft_config sv) \<and> hr_method r = ''POST'' \<or>
     hr_path r = leader_path (sv_raft_config sv) \<and> hr_method r = ''GET''"

lemma raft_route_plain:
  assumes "\<not> token_path sv r"
  shows "raft_route hmac sv r =
    (case sv_raft sv of None \<Rightarrow> None
     | Some raft \<Rightarrow> map_option (\<lambda>port. Answer (redirect_response port r))
         (redirect_port (method_of (hr_method r)) (hr_path r) raft))"
  using assms by (auto simp: raft_route_def token_path_def Let_def split: option.split)

text \<open>
  C32. The guards protect the public endpoints and only these: a request that reaches an endpoint of the
  application satisfied every guard that matches it, but the endpoints of replication, of snapshots and
  of the schema administration are reached whatever the guards, the session manager, the credentials
  and the cluster token of the request.
\<close>

theorem guards_cover_public_endpoints_only:
  fixes sv :: "'v server" and gs manager cred token
  assumes "\<not> token_path sv r" and "handle_request hmac sv now r = Handler ep"
  defines "sv' \<equiv> sv\<lparr>sv_guards := gs, sv_sessions := manager\<rparr>"
    and "r' \<equiv> r\<lparr>hr_credentials := cred, hr_raft_token := token\<rparr>"
  shows "case internal_endpoint (hr_method r) (hr_path r) of
      Some ep' \<Rightarrow> ep' = ep \<and> handle_request hmac sv' now' r' = Handler ep
    | None \<Rightarrow> ep = public_route sv (hr_method r) (hr_path r) \<and>
        (\<forall>m \<in> set (sv_guards sv). guard_matches m r \<longrightarrow>
          guard_check now r (sv_sessions sv) (gm_guard m) = Inr Allow)"
proof -
  have n: "raft_route hmac sv r = None"
  proof (cases "raft_route hmac sv r")
    case (Some x)
    then have "x = Handler ep" using assms(2) by (simp add: handle_request_def)
    then show ?thesis using Some by (auto simp: raft_route_plain [OF assms(1)] split: option.splits)
  qed
  have "\<not> token_path sv' r'" using assms(1) by (simp add: token_path_def sv'_def r'_def)
  from raft_route_plain [OF this] n have n': "raft_route hmac sv' r' = None"
    by (auto simp: raft_route_plain [OF assms(1)] sv'_def r'_def split: option.splits)
  show ?thesis
  proof (cases "internal_endpoint (hr_method r) (hr_path r)")
    case None
    then have g: "run_guards now r (sv_sessions sv) (sv_guards sv) = None"
      "ep = public_route sv (hr_method r) (hr_path r)"
      using assms(2) n by (auto simp: handle_request_def split: option.splits)
    then show ?thesis using guards_pass [OF g(1)] by (simp add: None)
  next
    case (Some e)
    then show ?thesis using assms(2) n n' by (simp add: handle_request_def r'_def)
  qed
qed

text \<open>
  Writes on a follower: it redirects every POST, PUT and DELETE outside the internal paths to the
  port of its leader, before any guard, and reaches no endpoint of the application with one.
\<close>

theorem followers_redirect_writes:
  assumes "sv_raft sv = Some s" and "\<not> rl_is_leader s"
    and "hr_method r \<in> {''POST'', ''PUT'', ''DELETE''}"
    and "\<not> Firewall.starts_with ''/internal/'' (hr_path r)" and "\<not> Firewall.starts_with ''/_raft/'' (hr_path r)"
  shows "handle_request hmac sv now r =
    (if hr_path r = heartbeat_path (sv_raft_config sv) \<and> hr_method r = ''POST''
     then (if validate_token hmac (sv_raft_config sv) (hr_raft_token r) then Heartbeat
           else Answer invalid_token)
     else Answer (redirect_response (rl_leader_port s) r))"
proof -
  have "method_of (hr_method r) \<in> {POST, PUT, DELETE}" "hr_method r \<noteq> ''GET''"
    using assms(3) by (auto simp: method_of_def)
  then have "redirect_port (method_of (hr_method r)) (hr_path r) s = Some (rl_leader_port s)"
    using assms(2,4,5) by (simp add: redirect_port_def Firewall.starts_with_def eval_nat_numeral)
  then show ?thesis
    using assms(1) \<open>hr_method r \<noteq> ''GET''\<close> by (simp add: handle_request_def raft_route_def Let_def)
qed

section \<open>The token of the cluster\<close>

lemma fold_differences:
  "fold (\<lambda>(a, b) acc. acc OR (a XOR b)) ps (acc :: u8) = 0 \<longleftrightarrow> acc = 0 \<and> list_all (\<lambda>(a, b). a = b) ps"
proof (induction ps arbitrary: acc)
  case (Cons p ps)
  obtain a b where p: "p = (a, b)" by (cases p)
  have "acc OR (a XOR b) = 0 \<longleftrightarrow> acc = 0 \<and> a = b"
    by (metis or_eq_0_iff xor_self_eq bit.xor_left_self xor.right_neutral)
  with Cons.IH [of "acc OR (a XOR b)"] show ?case by (simp add: p)
qed simp

lemma constant_time_eq_iff: "length xs = length ys \<Longrightarrow> constant_time_eq xs ys \<longleftrightarrow> xs = ys"
  by (simp add: constant_time_eq_def fold_differences list_all2_iff [symmetric] list.rel_eq)
    (simp add: list_all_iff list_eq_iff_zip_eq)

lemma token_decision:
  assumes "\<And>k m. length (hmac k m) = 32"
  shows "validate_token hmac c token \<longleftrightarrow> \<not> rc_auth_required c \<or>
    (case rc_auth_token c of None \<Rightarrow> True
     | Some e \<Rightarrow> (\<exists>p. token = Some p \<and> hmac e p = hmac e e))"
  by (auto simp: validate_token_def constant_time_eq_iff assms split: option.split)

section \<open>Authentication across restarts\<close>

lemma auth_decision:
  "guard_check now r (Persistent p) (RequireAuth redirect_to exclude) = Inr Allow \<longleftrightarrow>
    list_ex (\<lambda>e. Firewall.starts_with e (hr_path r)) exclude \<or>
    (\<exists>t. guard_token r = Some t \<and> map_of (ps_state p) t \<noteq> None)"
  by (auto simp: check_auth_def ps_get_def Let_def split: option.split)

text \<open>
  The guard does not ask whether a session has expired, and a restart undoes logouts: over any
  history of the session store a token passes exactly if its session was set and not deleted
  since, whatever its expiry; after a restart it passes exactly if it was ever mentioned, so the tokens of
  all sessions that had been deleted are accepted again.
\<close>

theorem restart_undoes_logout:
  fixes K :: "'v session_codec" and ops
  assumes "session_codec_law K" and "persistent_new crc C st K clk d = Some (Inr p0)"
    and "\<not> st_enable_binary st" and "st_max_log_file_size st = None"
    and "contents (ef_events d) = []" and "contents (ef_segment d) = []"
    and "guard_token r = Some t" and "\<forall>e \<in> set exclude. \<not> Firewall.starts_with e (hr_path r)"
  defines "p \<equiv> ps_run crc K ops p0"
  shows "(guard_check now r (Persistent p) (RequireAuth redirect_to exclude) = Inr Allow \<longleftrightarrow>
      map_of (ps_state p) t \<noteq> None) \<and>
    (\<exists>q. persistent_new crc C st K clk' (files_of (es_storage (ps_events p))) = Some (Inr q) \<and>
      (guard_check now r (Persistent q) (RequireAuth redirect_to exclude) = Inr Allow \<longleftrightarrow>
        t \<in> mentioned ops))"
proof -
  have x: "\<not> list_ex (\<lambda>e. Firewall.starts_with e (hr_path r)) exclude"
    using assms(8) by (simp add: list_ex_iff)
  obtain q where "persistent_new crc C st K clk' (files_of (es_storage (ps_events p))) = Some (Inr q)"
    "\<forall>i. map_of (ps_state q) i \<noteq> None \<longleftrightarrow> i \<in> mentioned ops"
    using restart_state [OF assms(1-6), of clk' ops] unfolding p_def by blast
  then show ?thesis unfolding auth_decision assms(7) using x by auto
qed

section \<open>The limits on connections\<close>

text \<open>A protection that the server has only asked, never told of a connection or a failure.\<close>

definition untold :: "ddos_config \<Rightarrow> 'ip ddos \<Rightarrow> bool" where
  "untold cfg d \<longleftrightarrow> dd_config d = cfg \<and> dd_global d = 0 \<and> dd_connections d = [] \<and>
     dd_breaker d = breaker_new (dc_circuit_breaker_threshold cfg)"

lemma asking_keeps_untold:
  assumes "untold cfg d"
  shows "untold cfg (snd (is_request_allowed second lock_free now ip d))"
  using assms
  by (simp add: untold_def is_request_allowed_def breaker_allowed_def breaker_new_def Let_def
      split: prod.split)

lemma serving_keeps_untold:
  assumes "untold cfg d"
  shows "\<exists>d'. snd (snd (serve_request K hmac second tls max_body run sv ck lock_free ip r fw (Some d))) = Some d' \<and>
    untold cfg d'"
proof -
  note a = asking_keeps_untold [OF assms, of second lock_free "ck_rate ck" ip]
  obtain ok d1 where "is_request_allowed second lock_free (ck_rate ck) ip d = (ok, d1)" by force
  with a assms show ?thesis
    by (simp add: serve_request_def Let_def split: prod.split sum.split)
qed

text \<open>
  The events of the accept loop: a connection arrives, or a request on an open connection is served.
  A run collects the decisions about connections.
\<close>

datatype 'ip server_event = Arrives 'ip | Requests 'ip clocks bool request

fun server_run ::
  "('ip, 'net) ip_ops \<Rightarrow> (string \<Rightarrow> string \<Rightarrow> bytes) \<Rightarrow> int \<Rightarrow> bool \<Rightarrow> nat \<Rightarrow>
   (routed \<Rightarrow> request \<Rightarrow> string + response) \<Rightarrow> 'v server \<Rightarrow> 'ip server_event list \<Rightarrow>
   ('ip, 'net) firewall \<Rightarrow> 'ip ddos option \<Rightarrow> bool list \<times> 'ip ddos option"
where
  "server_run K hmac second tls max_body run sv [] fw dd = ([], dd)"
| "server_run K hmac second tls max_body run sv (Arrives ip # es) fw dd =
     map_prod ((#) (accept_connection ip dd)) id
       (server_run K hmac second tls max_body run sv es fw dd)"
| "server_run K hmac second tls max_body run sv (Requests ip ck lock_free r # es) fw dd =
     (let (resp, fw1, dd1) = serve_request K hmac second tls max_body run sv ck lock_free ip r fw dd
      in server_run K hmac second tls max_body run sv es fw1 dd1)"

lemma untold_run:
  assumes "untold cfg d" and "0 < dc_max_global_connections cfg"
  shows "set (fst (server_run K hmac second tls max_body run sv es fw (Some d))) \<subseteq> {True} \<and>
    (\<exists>d'. snd (server_run K hmac second tls max_body run sv es fw (Some d)) = Some d' \<and> untold cfg d')"
  using assms(1)
proof (induction es arbitrary: fw d)
  case (Cons e es)
  show ?case
  proof (cases e)
    case (Arrives ip)
    have "accept_connection ip (Some d)"
      using Cons.prems assms(2)
      by (simp add: accept_connection_def is_connection_allowed_def below_global_limit_def
          below_ip_limit_def untold_def)
    then show ?thesis using Cons.IH [OF Cons.prems, of fw] by (simp add: Arrives)
  next
    case (Requests ip ck lock_free r)
    let ?s = "serve_request K hmac second tls max_body run sv ck lock_free ip r fw (Some d)"
    obtain resp fw1 dd1 where s: "?s = (resp, fw1, dd1)" by (cases ?s)
    obtain d' where "dd1 = Some d'" "untold cfg d'"
      using serving_keeps_untold [OF Cons.prems, of K hmac second tls max_body run sv ck lock_free ip r fw] s
      by auto
    with Cons.IH [of d' fw1] show ?thesis by (simp add: Requests s)
  qed
qed simp

lemma length_decisions:
  "length (fst (server_run K hmac second tls max_body run sv es fw dd)) =
    length (filter (\<lambda>e. case e of Arrives ip \<Rightarrow> True | Requests ip ck b r \<Rightarrow> False) es)"
proof (induction es arbitrary: fw dd)
  case (Cons e es)
  then show ?case by (cases e) (simp_all split: prod.split)
qed simp

text \<open>
  The limits on connections and the circuit breaker never fire: whatever connections and requests the
  server has seen, it accepts the next connection, its connection counters are zero and the breaker is
  closed without a recorded failure.
\<close>

theorem connection_limits_never_fire:
  assumes "0 < dc_max_global_connections cfg"
    and "server_run K hmac second tls max_body run sv es fw (Some (ddos_new cfg)) = (accepted, dd)"
  shows "set accepted \<subseteq> {True} \<and>
    (\<exists>d. dd = Some d \<and> dd_global d = 0 \<and> dd_connections d = [] \<and>
      dd_breaker d = breaker_new (dc_circuit_breaker_threshold cfg))"
proof -
  have "untold cfg (ddos_new cfg)" by (simp add: untold_def ddos_new_def)
  from untold_run [OF this assms(1), of K hmac second tls max_body run sv es fw] assms(2)
  show ?thesis by (auto simp: untold_def)
qed

section \<open>Concrete servers\<close>

definition demo_request :: "string \<Rightarrow> string \<Rightarrow> request" where
  "demo_request meth path =
     \<lparr>hr_method = meth, hr_path = path, hr_path_and_query = path, hr_raft_token = None,
      hr_credentials = \<lparr>cr_cookie = None, cr_authorization = Some ''Bearer a''\<rparr>,
      hr_content_length = None\<rparr>"

definition locked_server :: "leadership option \<Rightarrow> nat server" where
  "locked_server raft =
     \<lparr>sv_raft = raft,
      sv_raft_config = \<lparr>rc_path = ''/raft'', rc_auth_required = True, rc_auth_token = Some ''s''\<rparr>,
      sv_guards = [\<lparr>gm_pattern = ''/*'', gm_methods = None, gm_guard = RequireAuth None []\<rparr>],
      sv_sessions = Persistent empty_store, sv_openapi_enabled = False, sv_metrics_enabled = False,
      sv_metrics_path = ''/metrics'', sv_data_admin_enabled = False, sv_admin_ui_path = None,
      sv_custom_routes = [], sv_model_paths = [''/api/items''], sv_frontends = [], sv_not_found = False\<rparr>"

definition plain_hmac :: "string \<Rightarrow> string \<Rightarrow> bytes" where
  "plain_hmac k m = map of_char (take 32 (m @ replicate 32 (CHR 0x00)))"

text \<open>
  On a standalone server whose every path is guarded, a request without a session is refused at
  the models and reaches the rejection of schema changes.
\<close>

lemma guards_cover_public_endpoints_only_witness:
  "handle_request plain_hmac (locked_server None) 5 (demo_request ''GET'' ''/api/items'') =
     Answer (json_response 401 (error_body ''Authentication required'')) \<and>
   handle_request plain_hmac ((locked_server None)\<lparr>sv_guards := [], sv_sessions := NoManager\<rparr>) 6
     (demo_request ''POST'' ''/_raft/migrate'') = Handler (Cluster MigrateOperation)"
proof -
  let ?r = "demo_request ''POST'' ''/_raft/migrate''"
  have "\<not> token_path (locked_server None) ?r"
    by (simp add: token_path_def demo_request_def locked_server_def heartbeat_path_def)
  moreover have e: "internal_endpoint ''POST'' ''/_raft/migrate'' = Some (Cluster MigrateOperation)"
    by (simp add: internal_endpoint_def Let_def)
  then have "handle_request plain_hmac (locked_server None) 5 ?r = Handler (Cluster MigrateOperation)"
    by (simp add: handle_request_def raft_route_def demo_request_def locked_server_def)
  ultimately have "handle_request plain_hmac ((locked_server None)\<lparr>sv_guards := [], sv_sessions := NoManager\<rparr>) 6
      (?r\<lparr>hr_credentials := hr_credentials ?r, hr_raft_token := hr_raft_token ?r\<rparr>) = Handler (Cluster MigrateOperation)"
    using guards_cover_public_endpoints_only [where sv = "locked_server None" and r = ?r and hmac = plain_hmac
        and now = 5 and ep = "Cluster MigrateOperation" and now' = 6 and gs = "[]" and manager = NoManager
        and cred = "hr_credentials ?r" and token = "hr_raft_token ?r"] e by (simp add: demo_request_def)
  moreover have "internal_endpoint ''GET'' ''/api/items'' = None"
    by (simp add: internal_endpoint_def Let_def Firewall.starts_with_def)
  then have "handle_request plain_hmac (locked_server None) 5 (demo_request ''GET'' ''/api/items'') =
      Answer (json_response 401 (error_body ''Authentication required''))"
    by (simp add: handle_request_def raft_route_def demo_request_def locked_server_def guard_matches_def
        matches_pattern_def ends_with_def without_end_def Firewall.starts_with_def check_auth_def
        guard_token_def strip_prefix_def ps_get_def empty_store_def Let_def)
  ultimately show ?thesis by (simp add: demo_request_def)
qed

lemma wildcards_are_prefixes_witness:
  "path_matches ''/api/*'' ''/apix/1/2'' \<and> path_matches ''/admin/**'' ''/admin/users'' \<and>
   \<not> matches_pattern \<lparr>gm_pattern = ''/admin/**'', gm_methods = None, gm_guard = RequireAuth None []\<rparr> ''/admin/users''"
  using wildcards_are_prefixes [of "''/api''" "''/apix/1/2''"]
    wildcards_are_prefixes [of "''/admin''" "''/admin/users''" None "RequireAuth None []"]
  by (simp add: Firewall.starts_with_def)

lemma followers_redirect_writes_witness:
  "handle_request plain_hmac (locked_server (Some node_b)) 5 (demo_request ''DELETE'' ''/api/items/1'') =
     Answer (redirect_response (rl_leader_port node_b) (demo_request ''DELETE'' ''/api/items/1''))"
  using followers_redirect_writes [of "locked_server (Some node_b)" node_b
      "demo_request ''DELETE'' ''/api/items/1''" plain_hmac 5]
  by (simp add: locked_server_def demo_request_def Firewall.starts_with_def node_b_def leadership_new_def Let_def)

lemma restart_undoes_logout_witness:
  "\<exists>q. persistent_new demo_crc demo_codec text_settings demo_sessions (\<lambda>n. 20)
      (files_of (es_storage (ps_events (ps_run demo_crc demo_sessions
        [SetSession 5 demo_session, DeleteSession ''a''] empty_store)))) = Some (Inr q) \<and>
    guard_check 99 (demo_request ''GET'' ''/x'') (Persistent (ps_run demo_crc demo_sessions
        [SetSession 5 demo_session, DeleteSession ''a''] empty_store)) (RequireAuth None []) \<noteq> Inr Allow \<and>
    guard_check 99 (demo_request ''GET'' ''/x'') (Persistent q) (RequireAuth None []) = Inr Allow"
proof -
  let ?ops = "[SetSession 5 demo_session, DeleteSession ''a'']"
  have s: "\<not> st_enable_binary text_settings" "st_max_log_file_size text_settings = None"
    "contents (ef_events no_files) = []" "contents (ef_segment no_files) = []"
    by (simp_all add: text_settings_def no_files_def contents_def)
  have t: "guard_token (demo_request ''GET'' ''/x'') = Some ''a''"
    by (simp add: guard_token_def demo_request_def strip_prefix_def)
  have e: "\<forall>e \<in> set []. \<not> Firewall.starts_with e (hr_path (demo_request ''GET'' ''/x''))" by simp
  have "map_of (ps_state (ps_run demo_crc demo_sessions ?ops empty_store)) ''a'' = None"
    by (simp add: ps_run_def ps_delete_state)
  then show ?thesis
    using restart_undoes_logout [OF demo_sessions_law empty_store s t e, of 99 ?ops None "\<lambda>n. 20"] by simp
qed

definition tight_limits :: ddos_config where
  "tight_limits =
     \<lparr>dc_max_connections_per_ip = 1, dc_max_global_connections = 1, dc_rate_limit_per_ip = 1,
      dc_rate_window = 1000, dc_connection_timeout = 1000, dc_circuit_breaker_threshold = 1\<rparr>"

text \<open>Three connections from one address under limits of one.\<close>

lemma connection_limits_never_fire_witness:
  "fst (server_run digit_ips plain_hmac 1000 False 100 (\<lambda>x r. Inl ''failure'') (locked_server None)
     [Arrives 1, Arrives 1, Requests 1 \<lparr>ck_global = 1, ck_ip = 1, ck_rate = 1, ck_guard = 1\<rparr> True
        (demo_request ''GET'' ''/status''), Arrives 1]
     (firewall_new digit_ips (firewall_from_env (\<lambda>_. None))) (Some (ddos_new tight_limits))) =
   [True, True, True]" (is "fst ?run = _")
proof -
  have "length (fst ?run) = 3" by (subst length_decisions) simp
  moreover have "0 < dc_max_global_connections tight_limits" by (simp add: tight_limits_def)
  from connection_limits_never_fire [OF this prod.collapse [symmetric]]
  have "set (fst ?run) \<subseteq> {True}" by (rule conjunct1)
  ultimately show ?thesis by (auto simp: eval_nat_numeral length_Suc_conv)
qed

end
