(* ===== verification/Mfa.thy ===== *)
theory Mfa
  imports HttpServer "HOL-Library.Countable"
begin

text \<open>
  The second factor, from \<^verbatim>\<open>lithair-core/src/mfa\<close>: secrets, events and the state they lead to,
  the event log on disk, the storage over it, the handlers under \<^verbatim>\<open>/auth/mfa\<close> and the migration of
  the old files. One-time passwords (totp-rs) and the derived JSON of the events are the records
  \<open>totp_lib\<close> and \<open>mfa_codec\<close>; instants are integers and random bytes are arguments.
\<close>

section \<open>Secrets\<close>

datatype totp_algorithm = SHA1 | SHA256 | SHA512

record 't totp_lib =
  tl_encode :: "bytes \<Rightarrow> string"
  tl_decode :: "string \<Rightarrow> string + bytes"
  tl_new :: "totp_algorithm \<Rightarrow> nat \<Rightarrow> nat \<Rightarrow> u64 \<Rightarrow> bytes \<Rightarrow> string option \<Rightarrow> string \<Rightarrow> string + 't"
  tl_check :: "'t \<Rightarrow> int \<Rightarrow> string \<Rightarrow> string + bool"
  tl_url :: "'t \<Rightarrow> string"
  tl_qr :: "'t \<Rightarrow> string + string"

text \<open>\<open>ts_totp\<close> is the instance kept in memory, which is not serialised.\<close>

record 't totp_secret =
  ts_totp :: "'t option"
  ts_secret :: string
  ts_algorithm :: totp_algorithm
  ts_digits :: u32
  ts_step :: u64
  ts_issuer :: "string option"
  ts_account_name :: "string option"

definition map_err :: "('e \<Rightarrow> 'f) \<Rightarrow> 'e + 'a \<Rightarrow> 'f + 'a" where
  "map_err f r = map_sum f id r"

definition and_then :: "'e + 'a \<Rightarrow> ('a \<Rightarrow> 'e + 'b) \<Rightarrow> 'e + 'b" where
  "and_then r f = (case r of Inl e \<Rightarrow> Inl e | Inr x \<Rightarrow> f x)"

lemma and_then_simps [simp]: "and_then (Inl e) f = Inl e" "and_then (Inr x) f = f x"
  by (simp_all add: and_then_def)

lemma map_err_simps [simp]: "map_err f (Inl e) = Inl (f e)" "map_err f (Inr x) = Inr x"
  by (simp_all add: map_err_def)

definition generate_with_account ::
  "'t totp_lib \<Rightarrow> bytes \<Rightarrow> totp_algorithm \<Rightarrow> u32 \<Rightarrow> u64 \<Rightarrow> string \<Rightarrow> string \<Rightarrow> string + 't totp_secret"
where
  "generate_with_account T rnd algo digits step issuer account =
     and_then (map_err (\<lambda>e. ''failed to create TOTP instance: '' @ e)
                 (tl_new T algo (unat digits) 1 step rnd (Some issuer) account))
       (\<lambda>t. Inr \<lparr>ts_totp = Some t, ts_secret = tl_encode T rnd, ts_algorithm = algo, ts_digits = digits,
                 ts_step = step, ts_issuer = Some issuer, ts_account_name = Some account\<rparr>)"

definition generate :: "'t totp_lib \<Rightarrow> bytes \<Rightarrow> totp_algorithm \<Rightarrow> u32 \<Rightarrow> u64 \<Rightarrow> string + 't totp_secret" where
  "generate T rnd algo digits step = generate_with_account T rnd algo digits step ''Lithair'' ''user''"

definition from_secret ::
  "'t totp_lib \<Rightarrow> string \<Rightarrow> totp_algorithm \<Rightarrow> u32 \<Rightarrow> u64 \<Rightarrow> string option \<Rightarrow> string option \<Rightarrow> string + 't totp_secret"
where
  "from_secret T secret algo digits step issuer account =
     and_then (map_err (\<lambda>e. ''Invalid secret: '' @ e) (tl_decode T secret))
       (\<lambda>b. and_then (map_err (\<lambda>e. ''Failed to create TOTP: '' @ e)
                (tl_new T algo (unat digits) 1 step b issuer (case account of Some a \<Rightarrow> a | None \<Rightarrow> ''user'')))
              (\<lambda>t. Inr \<lparr>ts_totp = Some t, ts_secret = secret, ts_algorithm = algo, ts_digits = digits,
                        ts_step = step, ts_issuer = issuer, ts_account_name = account\<rparr>))"

definition get_totp :: "'t totp_lib \<Rightarrow> 't totp_secret \<Rightarrow> string + 't" where
  "get_totp T s =
     (case ts_totp s of
        Some t \<Rightarrow> Inr t
      | None \<Rightarrow>
          and_then (map_err (\<lambda>e. ''Invalid secret: '' @ e) (tl_decode T (ts_secret s)))
            (\<lambda>b. map_err (\<lambda>e. ''Failed to create TOTP: '' @ e)
               (tl_new T (ts_algorithm s) (unat (ts_digits s)) 1 (ts_step s) b (ts_issuer s)
                  (case ts_account_name s of Some a \<Rightarrow> a | None \<Rightarrow> ''user''))))"

definition to_uri :: "'t totp_lib \<Rightarrow> 't totp_secret \<Rightarrow> string + string" where
  "to_uri T s = and_then (get_totp T s) (\<lambda>t. Inr (tl_url T t))"

definition get_qr_code :: "'t totp_lib \<Rightarrow> 't totp_secret \<Rightarrow> string + string" where
  "get_qr_code T s =
     and_then (get_totp T s) (\<lambda>t. map_err (\<lambda>e. ''Failed to generate QR code: '' @ e) (tl_qr T t))"

definition totp_validate :: "'t totp_lib \<Rightarrow> int \<Rightarrow> 't totp_secret \<Rightarrow> string \<Rightarrow> string + bool" where
  "totp_validate T now s code =
     and_then (get_totp T s) (\<lambda>t. map_err (\<lambda>e. ''Validation error: '' @ e) (tl_check T t now code))"

section \<open>Configuration and status\<close>

record mfa_config =
  mc_issuer :: string
  mc_enforce_for_roles :: "string list"
  mc_optional_for_roles :: "string list"
  mc_algorithm :: totp_algorithm
  mc_digits :: u32
  mc_step :: u64
  mc_storage_path :: string

definition mfa_config_default :: mfa_config where
  "mfa_config_default =
     \<lparr>mc_issuer = ''Lithair'', mc_enforce_for_roles = [], mc_optional_for_roles = [], mc_algorithm = SHA256,
      mc_digits = 6, mc_step = 30, mc_storage_path = ''./mfa_secrets''\<rparr>"

record mfa_status =
  mt_enabled :: bool
  mt_required :: bool
  mt_enabled_at :: "int option"

definition mfa_status_default :: mfa_status where
  "mfa_status_default = \<lparr>mt_enabled = False, mt_required = False, mt_enabled_at = None\<rparr>"

section \<open>Events\<close>

datatype 't mfa_event =
    MfaSetupInitiated string "'t totp_secret" int
  | MfaEnabled string int
  | MfaDisabled string "string option" int
  | MfaCodeVerified string int
  | MfaCodeVerificationFailed string string int
  | BackupCodesGenerated string nat int
  | BackupCodeUsed string int

fun event_username :: "'t mfa_event \<Rightarrow> string" where
  "event_username (MfaSetupInitiated u s t) = u"
| "event_username (MfaEnabled u t) = u"
| "event_username (MfaDisabled u r t) = u"
| "event_username (MfaCodeVerified u t) = u"
| "event_username (MfaCodeVerificationFailed u r t) = u"
| "event_username (BackupCodesGenerated u n t) = u"
| "event_username (BackupCodeUsed u t) = u"

fun event_timestamp :: "'t mfa_event \<Rightarrow> int" where
  "event_timestamp (MfaSetupInitiated u s t) = t"
| "event_timestamp (MfaEnabled u t) = t"
| "event_timestamp (MfaDisabled u r t) = t"
| "event_timestamp (MfaCodeVerified u t) = t"
| "event_timestamp (MfaCodeVerificationFailed u r t) = t"
| "event_timestamp (BackupCodesGenerated u n t) = t"
| "event_timestamp (BackupCodeUsed u t) = t"

record 't user_mfa_state =
  um_secret :: "'t totp_secret option"
  um_status :: mfa_status
  um_backup_codes :: "string list"
  um_last_verification :: "int option"
  um_failed_attempts :: nat

definition fresh_user :: "'t user_mfa_state" where
  "fresh_user =
     \<lparr>um_secret = None, um_status = mfa_status_default, um_backup_codes = [], um_last_verification = None,
      um_failed_attempts = 0\<rparr>"

type_synonym 't mfa_state = "(string, 't user_mfa_state) dict"

text \<open>\<open>entry(u).or_insert_with(fresh)\<close> followed by an update in place.\<close>

definition entry_update ::
  "string \<Rightarrow> ('t user_mfa_state \<Rightarrow> 't user_mfa_state) \<Rightarrow> 't mfa_state \<Rightarrow> 't mfa_state"
where
  "entry_update u f st =
     (case map_of st u of
        Some _ \<Rightarrow> AList.map_entry u f st
      | None \<Rightarrow> AList.update u (f fresh_user) st)"

fun apply_mfa :: "'t mfa_event \<Rightarrow> 't mfa_state \<Rightarrow> 't mfa_state" where
  "apply_mfa (MfaSetupInitiated u s t) st = entry_update u (\<lambda>x. x\<lparr>um_secret := Some s\<rparr>) st"
| "apply_mfa (MfaEnabled u t) st =
     AList.map_entry u
       (\<lambda>x. x\<lparr>um_status := (um_status x)\<lparr>mt_enabled := True, mt_enabled_at := Some t\<rparr>\<rparr>) st"
| "apply_mfa (MfaDisabled u r t) st =
     AList.map_entry u
       (\<lambda>x. x\<lparr>um_status := (um_status x)\<lparr>mt_enabled := False, mt_enabled_at := None\<rparr>,
               um_secret := None, um_backup_codes := []\<rparr>) st"
| "apply_mfa (MfaCodeVerified u t) st =
     AList.map_entry u (\<lambda>x. x\<lparr>um_last_verification := Some t, um_failed_attempts := 0\<rparr>) st"
| "apply_mfa (MfaCodeVerificationFailed u r t) st =
     entry_update u (\<lambda>x. x\<lparr>um_failed_attempts := um_failed_attempts x + 1\<rparr>) st"
| "apply_mfa (BackupCodesGenerated u n t) st = st"
| "apply_mfa (BackupCodeUsed u t) st = st"

definition replay_mfa :: "'t mfa_event list \<Rightarrow> 't mfa_state" where
  "replay_mfa es = fold apply_mfa es []"

section \<open>The event log\<close>

record 't mfa_codec =
  me_to_json :: "'t mfa_event \<Rightarrow> string"
  me_from_json :: "string \<Rightarrow> 't mfa_event option"

record 't mfa_log =
  ml_file :: "string option"
  ml_state :: "'t mfa_state"
  ml_event_count :: nat

definition load_events :: "'t mfa_codec \<Rightarrow> string option \<Rightarrow> 't mfa_event list" where
  "load_events K f =
     (case f of
        None \<Rightarrow> []
      | Some t \<Rightarrow> List.map_filter (me_from_json K) (filter (\<lambda>l. trim l \<noteq> []) (text_lines t)))"

definition mfa_log_new :: "'t mfa_codec \<Rightarrow> string option \<Rightarrow> 't mfa_log" where
  "mfa_log_new K f =
     (let es = load_events K f
      in \<lparr>ml_file = f, ml_state = replay_mfa es, ml_event_count = length es\<rparr>)"

lemma mfa_log_new_simps [simp]:
  "ml_file (mfa_log_new K f) = f" "ml_state (mfa_log_new K f) = replay_mfa (load_events K f)"
  "ml_event_count (mfa_log_new K f) = length (load_events K f)"
  by (simp_all add: mfa_log_new_def Let_def)

definition write_line :: "string \<Rightarrow> string option \<Rightarrow> string option" where
  "write_line l f = Some ((case f of Some t \<Rightarrow> t | None \<Rightarrow> []) @ l @ [newline])"

definition append_mfa :: "'t mfa_codec \<Rightarrow> 't mfa_event \<Rightarrow> 't mfa_log \<Rightarrow> 't mfa_log" where
  "append_mfa K e L =
     L\<lparr>ml_file := write_line (me_to_json K e) (ml_file L),
       ml_state := apply_mfa e (ml_state L),
       ml_event_count := ml_event_count L + 1\<rparr>"

definition mfa_user_state :: "string \<Rightarrow> 't mfa_log \<Rightarrow> 't user_mfa_state option" where
  "mfa_user_state u L = map_of (ml_state L) u"

definition mfa_is_enabled :: "string \<Rightarrow> 't mfa_log \<Rightarrow> bool" where
  "mfa_is_enabled u L =
     (case map_of (ml_state L) u of Some x \<Rightarrow> mt_enabled (um_status x) | None \<Rightarrow> False)"

definition all_events :: "'t mfa_codec \<Rightarrow> 't mfa_log \<Rightarrow> 't mfa_event list" where
  "all_events K L = load_events K (ml_file L)"

section \<open>The storage\<close>

record 't user_mfa_data =
  ud_secret :: "'t totp_secret"
  ud_status :: mfa_status
  ud_backup_codes :: "string list"

definition mfa_get :: "string \<Rightarrow> 't mfa_log \<Rightarrow> 't user_mfa_data option" where
  "mfa_get u L =
     (case mfa_user_state u L of
        None \<Rightarrow> None
      | Some x \<Rightarrow>
          map_option (\<lambda>s. \<lparr>ud_secret = s, ud_status = um_status x, ud_backup_codes = um_backup_codes x\<rparr>)
            (um_secret x))"

definition mfa_save :: "'t mfa_codec \<Rightarrow> int \<Rightarrow> string \<Rightarrow> 't user_mfa_data \<Rightarrow> 't mfa_log \<Rightarrow> 't mfa_log" where
  "mfa_save K now u d L = append_mfa K (MfaSetupInitiated u (ud_secret d) now) L"

definition mfa_enable :: "'t mfa_codec \<Rightarrow> int \<Rightarrow> string \<Rightarrow> 't mfa_log \<Rightarrow> 't mfa_log" where
  "mfa_enable K now u L = append_mfa K (MfaEnabled u now) L"

definition mfa_delete :: "'t mfa_codec \<Rightarrow> int \<Rightarrow> string \<Rightarrow> 't mfa_log \<Rightarrow> 't mfa_log" where
  "mfa_delete K now u L = append_mfa K (MfaDisabled u (Some ''user_request'') now) L"

definition record_verification_success :: "'t mfa_codec \<Rightarrow> int \<Rightarrow> string \<Rightarrow> 't mfa_log \<Rightarrow> 't mfa_log" where
  "record_verification_success K now u L = append_mfa K (MfaCodeVerified u now) L"

definition record_verification_failure ::
  "'t mfa_codec \<Rightarrow> int \<Rightarrow> string \<Rightarrow> string \<Rightarrow> 't mfa_log \<Rightarrow> 't mfa_log"
where
  "record_verification_failure K now u reason L = append_mfa K (MfaCodeVerificationFailed u reason now) L"

section \<open>The handlers\<close>

text \<open>
  The bodies of the requests as the derived readers deliver them, and the text of a JSON string.
\<close>

record mfa_bodies =
  mb_setup :: "string \<Rightarrow> string + string"
  mb_code :: "string \<Rightarrow> string + string \<times> string"
  mb_quote :: "string \<Rightarrow> string"

definition show_bool :: "bool \<Rightarrow> string" where
  "show_bool b = (if b then ''true'' else ''false'')"

definition json_key :: "string \<Rightarrow> string" where
  "json_key k = CHR 34 # k @ [CHR 34] @ '':''"

definition status_body :: "bool \<Rightarrow> bool \<Rightarrow> string" where
  "status_body enabled required =
     ''{'' @ json_key ''enabled'' @ show_bool enabled @ '','' @ json_key ''required'' @ show_bool required @ ''}''"

definition success_body :: "mfa_bodies \<Rightarrow> bool \<Rightarrow> string \<Rightarrow> string" where
  "success_body B ok msg =
     ''{'' @ json_key ''success'' @ show_bool ok @ '','' @ json_key ''message'' @ mb_quote B msg @ ''}''"

definition setup_body :: "mfa_bodies \<Rightarrow> string \<Rightarrow> string \<Rightarrow> string \<Rightarrow> string" where
  "setup_body B secret qr uri =
     ''{'' @ json_key ''secret'' @ mb_quote B secret @ '','' @ json_key ''qr_code_base64'' @ mb_quote B qr @
     '','' @ json_key ''uri'' @ mb_quote B uri @ ''}''"

definition handle_mfa_status :: "string option \<Rightarrow> 't mfa_log \<Rightarrow> string + response" where
  "handle_mfa_status query L =
     (let q = (case query of Some q \<Rightarrow> q | None \<Rightarrow> [])
      in case Option.bind (find (Firewall.starts_with ''username='') (split_on (CHR ''&'') q))
                (strip_prefix ''username='') of
           None \<Rightarrow> Inl ''Missing username parameter''
         | Some u \<Rightarrow> Inr (json_response 200 (status_body (mfa_is_enabled u L) False)))"

definition handle_mfa_setup ::
  "'t totp_lib \<Rightarrow> 't mfa_codec \<Rightarrow> mfa_bodies \<Rightarrow> mfa_config \<Rightarrow> bytes \<Rightarrow> int \<Rightarrow> string \<Rightarrow> 't mfa_log \<Rightarrow>
   (string + response) \<times> 't mfa_log"
where
  "handle_mfa_setup T K B cfg rnd now body L =
     (case and_then (mb_setup B body) (\<lambda>u.
             and_then (generate_with_account T rnd (mc_algorithm cfg) (mc_digits cfg) (mc_step cfg) (mc_issuer cfg) u)
               (\<lambda>s. and_then (map_err (\<lambda>e. ''Failed to generate QR code: '' @ e) (get_qr_code T s))
                 (\<lambda>qr. and_then (map_err (\<lambda>e. ''Failed to generate URI: '' @ e) (to_uri T s))
                   (\<lambda>uri. Inr (u, s, qr, uri))))) of
        Inl e \<Rightarrow> (Inl e, L)
      | Inr (u, s, qr, uri) \<Rightarrow>
          (Inr (json_response 200 (setup_body B (ts_secret s) qr uri)),
           mfa_save K now u \<lparr>ud_secret = s, ud_status = mfa_status_default, ud_backup_codes = []\<rparr> L))"

text \<open>\<open>t0\<close> is the time of the validation, \<open>t1\<close> and \<open>t2\<close> the times of the events.\<close>

definition handle_mfa_enable ::
  "'t totp_lib \<Rightarrow> 't mfa_codec \<Rightarrow> mfa_bodies \<Rightarrow> int \<Rightarrow> int \<Rightarrow> int \<Rightarrow> string \<Rightarrow> 't mfa_log \<Rightarrow>
   (string + response) \<times> 't mfa_log"
where
  "handle_mfa_enable T K B t0 t1 t2 body L =
     (case mb_code B body of
        Inl e \<Rightarrow> (Inl e, L)
      | Inr (u, code) \<Rightarrow>
          (case mfa_get u L of
             None \<Rightarrow> (Inl ''MFA not set up. Call /auth/mfa/setup first'', L)
           | Some d \<Rightarrow>
               (case totp_validate T t0 (ud_secret d) code of
                  Inl e \<Rightarrow> (Inl e, L)
                | Inr valid \<Rightarrow>
                    (if \<not> valid
                     then (Inr (json_response 400 (error_body ''Invalid code'')),
                           record_verification_failure K t1 u ''invalid_code'' L)
                     else (Inr (json_response 200 (success_body B True ''MFA enabled successfully'')),
                           mfa_enable K t2 u (record_verification_success K t1 u L))))))"

definition handle_mfa_disable ::
  "'t totp_lib \<Rightarrow> 't mfa_codec \<Rightarrow> mfa_bodies \<Rightarrow> int \<Rightarrow> int \<Rightarrow> int \<Rightarrow> string \<Rightarrow> 't mfa_log \<Rightarrow>
   (string + response) \<times> 't mfa_log"
where
  "handle_mfa_disable T K B t0 t1 t2 body L =
     (case mb_code B body of
        Inl e \<Rightarrow> (Inl e, L)
      | Inr (u, code) \<Rightarrow>
          (case mfa_get u L of
             None \<Rightarrow> (Inl ''MFA not enabled'', L)
           | Some d \<Rightarrow>
               (case totp_validate T t0 (ud_secret d) code of
                  Inl e \<Rightarrow> (Inl e, L)
                | Inr valid \<Rightarrow>
                    (if \<not> valid
                     then (Inr (json_response 400 (error_body ''Invalid code'')),
                           record_verification_failure K t1 u ''invalid_code'' L)
                     else (Inr (json_response 200 (success_body B True ''MFA disabled successfully'')),
                           mfa_delete K t2 u (record_verification_success K t1 u L))))))"

definition handle_mfa_verify ::
  "'t totp_lib \<Rightarrow> 't mfa_codec \<Rightarrow> mfa_bodies \<Rightarrow> int \<Rightarrow> int \<Rightarrow> string \<Rightarrow> 't mfa_log \<Rightarrow>
   (string + response) \<times> 't mfa_log"
where
  "handle_mfa_verify T K B t0 t1 body L =
     (case mb_code B body of
        Inl e \<Rightarrow> (Inl e, L)
      | Inr (u, code) \<Rightarrow>
          (case mfa_get u L of
             None \<Rightarrow> (Inl ''MFA not enabled for this user'', L)
           | Some d \<Rightarrow>
               (if \<not> mt_enabled (ud_status d)
                then (Inr (json_response 400 (error_body ''MFA not enabled'')), L)
                else case totp_validate T t0 (ud_secret d) code of
                  Inl e \<Rightarrow> (Inl e, L)
                | Inr valid \<Rightarrow>
                    (Inr (json_response (if valid then 200 else 401)
                       (success_body B valid (if valid then ''Valid code'' else ''Invalid code''))),
                     if valid then record_verification_success K t1 u L
                     else record_verification_failure K t1 u ''invalid_code'' L))))"

section \<open>The migration\<close>

record migration_stats =
  gs_users_migrated :: nat
  gs_events_generated :: nat
  gs_errors :: "string list"

definition migration_success :: "migration_stats \<Rightarrow> bool" where
  "migration_success s \<longleftrightarrow> gs_errors s = []"

text \<open>The old files: the path, the stem of the name, and the content where it can be read.\<close>

record old_file =
  of_path :: string
  of_stem :: "string option"
  of_content :: "string + string"

record 't legacy_reader =
  lr_users :: "string \<Rightarrow> (string \<times> 't user_mfa_data) list option"
  lr_single :: "string \<Rightarrow> string + 't user_mfa_data"

definition log_event ::
  "'t mfa_codec \<Rightarrow> 't mfa_event \<Rightarrow> 't mfa_log option \<times> migration_stats \<Rightarrow> 't mfa_log option \<times> migration_stats"
where
  "log_event K e = (\<lambda>(L, s). (map_option (append_mfa K e) L, s\<lparr>gs_events_generated := gs_events_generated s + 1\<rparr>))"

definition migrate_user ::
  "'t mfa_codec \<Rightarrow> int \<Rightarrow> string \<Rightarrow> 't user_mfa_data \<Rightarrow>
   't mfa_log option \<times> migration_stats \<Rightarrow> 't mfa_log option \<times> migration_stats"
where
  "migrate_user K now u d m =
     (let at = (case mt_enabled_at (ud_status d) of Some t \<Rightarrow> t | None \<Rightarrow> now);
          m1 = log_event K (MfaSetupInitiated u (ud_secret d) at) m;
          m2 = (if mt_enabled (ud_status d) then log_event K (MfaEnabled u at) m1 else m1);
          m3 = (if ud_backup_codes d \<noteq> []
                then log_event K (BackupCodesGenerated u (length (ud_backup_codes d)) now) m2 else m2)
      in (fst m3, (snd m3)\<lparr>gs_users_migrated := gs_users_migrated (snd m3) + 1\<rparr>))"

definition migrate_file ::
  "'t mfa_codec \<Rightarrow> 't legacy_reader \<Rightarrow> (string \<Rightarrow> int) \<Rightarrow> old_file \<Rightarrow>
   't mfa_log option \<times> migration_stats \<Rightarrow> (string + unit) \<times> ('t mfa_log option \<times> migration_stats)"
where
  "migrate_file K R clk f m =
     (case of_content f of
        Inl e \<Rightarrow> (Inl (''Failed to read JSON file: '' @ of_path f), m)
      | Inr text \<Rightarrow>
          (case lr_users R text of
             Some us \<Rightarrow> (Inr (), fold (\<lambda>(u, d). migrate_user K (clk u) u d) us m)
           | None \<Rightarrow>
               (case lr_single R text of
                  Inr d \<Rightarrow>
                    (let u = (case of_stem f of Some s \<Rightarrow> s | None \<Rightarrow> ''unknown'')
                     in (Inr (), migrate_user K (clk u) u d m))
                | Inl e \<Rightarrow> (Inl (''Failed to parse JSON as multi-user or single-user format: '' @ e), m))))"

fun migrate_files ::
  "'t mfa_codec \<Rightarrow> 't legacy_reader \<Rightarrow> (string \<Rightarrow> string \<Rightarrow> int) \<Rightarrow> old_file list \<Rightarrow>
   't mfa_log option \<times> migration_stats \<Rightarrow> 't mfa_log option \<times> migration_stats"
where
  "migrate_files K R clk [] m = m"
| "migrate_files K R clk (f # fs) m =
     (case migrate_file K R (clk (of_path f)) f m of
        (Inr _, m') \<Rightarrow> migrate_files K R clk fs m'
      | (Inl e, (L, s)) \<Rightarrow>
          migrate_files K R clk fs
            (L, s\<lparr>gs_errors := gs_errors s @ [''Failed to migrate '' @ of_path f @ '': '' @ e]\<rparr>))"

definition migrate_json_to_events ::
  "'t mfa_codec \<Rightarrow> 't legacy_reader \<Rightarrow> (string \<Rightarrow> string \<Rightarrow> int) \<Rightarrow> old_file list \<Rightarrow> string option \<Rightarrow> bool \<Rightarrow>
   't mfa_log option \<times> migration_stats"
where
  "migrate_json_to_events K R clk fs log_file dry_run =
     (let s0 = \<lparr>gs_users_migrated = 0, gs_events_generated = 0, gs_errors = []\<rparr>
      in if fs = [] then (None, s0)
         else migrate_files K R clk fs (if dry_run then None else Some (mfa_log_new K log_file), s0))"


section \<open>What is kept on disk\<close>

definition forget :: "'t totp_secret \<Rightarrow> 't totp_secret" where
  "forget s = s\<lparr>ts_totp := None\<rparr>"

fun uncached :: "'t mfa_event \<Rightarrow> 't mfa_event" where
  "uncached (MfaSetupInitiated u s t) = MfaSetupInitiated u (forget s) t"
| "uncached e = e"

text \<open>
  The derived serialisation: one line that is not blank, read back without the instance in memory.
\<close>

definition mfa_codec_law :: "'t mfa_codec \<Rightarrow> bool" where
  "mfa_codec_law K \<longleftrightarrow>
     (\<forall>e. event_ok (me_to_json K e) \<and> trim (me_to_json K e) \<noteq> [] \<and>
       me_from_json K (me_to_json K e) = Some (uncached e)) \<and>
     (\<forall>l e. me_from_json K l = Some e \<longrightarrow> uncached e = e)"

definition totp_law :: "'t totp_lib \<Rightarrow> bool" where
  "totp_law T \<longleftrightarrow> (\<forall>b. tl_decode T (tl_encode T b) = Inr b)"

lemma load_events_text:
  "load_events K f = List.map_filter (me_from_json K) (filter (\<lambda>l. trim l \<noteq> []) (text_lines (contents f)))"
  by (simp add: load_events_def contents_def List.map_filter_def split: option.split)

lemma text_lines_one: "event_ok l \<Longrightarrow> text_lines (l @ [newline]) = [l]"
  using text_lines_frame [of l "[]"] by (simp add: event_ok_def strip_cr_def)

lemma contents_write: "contents (write_line l f) = contents f @ l @ [newline]"
  by (simp add: contents_def write_line_def)

lemma complete_write: "complete (contents (write_line l f))"
  by (simp add: contents_write complete_def)

lemma load_write:
  assumes "mfa_codec_law K" and "complete (contents f)"
  shows "load_events K (write_line (me_to_json K e) f) = load_events K f @ [uncached e]"
proof -
  have k: "event_ok (me_to_json K e)" "trim (me_to_json K e) \<noteq> []"
    "me_from_json K (me_to_json K e) = Some (uncached e)"
    using assms(1) by (simp_all add: mfa_codec_law_def)
  show ?thesis
    using k by (simp add: load_events_text contents_write text_lines_append [OF assms(2)] text_lines_one
        List.map_filter_def)
qed

lemma fold_append_file:
  assumes "mfa_codec_law K" and "complete (contents (ml_file L))"
  shows "load_events K (ml_file (fold (append_mfa K) es L)) = load_events K (ml_file L) @ map uncached es \<and>
    complete (contents (ml_file (fold (append_mfa K) es L)))"
  using assms(2)
proof (induction es arbitrary: L)
  case (Cons e es)
  have f: "ml_file (append_mfa K e L) = write_line (me_to_json K e) (ml_file L)" by (simp add: append_mfa_def)
  have "complete (contents (ml_file (append_mfa K e L)))" by (simp add: f complete_write)
  from Cons.IH [OF this] show ?case using load_write [OF assms(1) Cons.prems, of e] by (simp add: f)
qed simp

lemma fold_append_state:
  "ml_state (fold (append_mfa K) es L) = fold apply_mfa es (ml_state L) \<and>
   ml_event_count (fold (append_mfa K) es L) = ml_event_count L + length es"
  by (induction es arbitrary: L) (simp_all add: append_mfa_def)

section \<open>States up to the instances in memory\<close>

definition forget_user :: "'t user_mfa_state \<Rightarrow> 't user_mfa_state" where
  "forget_user x = x\<lparr>um_secret := map_option forget (um_secret x)\<rparr>"

definition forget_state :: "'t mfa_state \<Rightarrow> 't mfa_state" where
  "forget_state st = map (\<lambda>(u, x). (u, forget_user x)) st"

lemma forget_forget [simp]: "forget (forget s) = forget s"
  by (simp add: forget_def)

lemma uncached_uncached [simp]: "uncached (uncached e) = uncached e"
  by (cases e) simp_all

lemma map_of_forget: "map_of (forget_state st) u = map_option forget_user (map_of st u)"
  by (simp add: forget_state_def dict_simps)

lemma forget_fresh [simp]: "forget_user fresh_user = fresh_user"
  by (simp add: forget_user_def fresh_user_def)

lemma forget_map_entry:
  "(\<And>x. forget_user (f x) = g (forget_user x)) \<Longrightarrow>
   forget_state (AList.map_entry u f st) = AList.map_entry u g (forget_state st)"
  by (induction st) (auto simp: forget_state_def)

lemma forget_update: "forget_state (AList.update u x st) = AList.update u (forget_user x) (forget_state st)"
  by (induction st) (auto simp: forget_state_def)

lemma forget_entry_update:
  assumes "\<And>x. forget_user (f x) = g (forget_user x)"
  shows "forget_state (entry_update u f st) = entry_update u g (forget_state st)"
  using assms [of fresh_user]
  by (cases "map_of st u")
    (simp_all add: entry_update_def map_of_forget forget_update forget_map_entry [where f = f and g = g, OF assms])

lemma forget_apply: "forget_state (apply_mfa e st) = apply_mfa (uncached e) (forget_state st)"
  by (cases e) (auto intro!: forget_entry_update forget_map_entry simp: forget_user_def)

lemma forget_fold: "forget_state (fold apply_mfa es st) = fold apply_mfa (map uncached es) (forget_state st)"
  by (induction es arbitrary: st) (simp_all add: forget_apply)

text \<open>A secret is settled when the instance in memory is the one its fields give.\<close>

definition settled :: "'t totp_lib \<Rightarrow> 't totp_secret \<Rightarrow> bool" where
  "settled T s \<longleftrightarrow> get_totp T s = get_totp T (forget s)"

fun settled_event :: "'t totp_lib \<Rightarrow> 't mfa_event \<Rightarrow> bool" where
  "settled_event T (MfaSetupInitiated u s t) = settled T s"
| "settled_event T e = True"

definition settled_state :: "'t totp_lib \<Rightarrow> 't mfa_state \<Rightarrow> bool" where
  "settled_state T st \<longleftrightarrow> (\<forall>u x s. map_of st u = Some x \<longrightarrow> um_secret x = Some s \<longrightarrow> settled T s)"

lemma settled_state_Nil [simp]: "settled_state T []"
  by (simp add: settled_state_def)

lemma settled_forget [simp]: "settled T (forget s)"
  by (simp add: settled_def)

lemma settled_uncached [simp]: "settled_event T (uncached e)"
  by (cases e) simp_all

lemma settled_generated:
  assumes "totp_law T" and "generate_with_account T rnd algo digits step issuer account = Inr s"
  shows "settled T s"
proof -
  obtain t where t: "tl_new T algo (unat digits) 1 step rnd (Some issuer) account = Inr t"
    using assms(2) by (cases "tl_new T algo (unat digits) 1 step rnd (Some issuer) account")
      (auto simp: generate_with_account_def)
  with assms have "s = \<lparr>ts_totp = Some t, ts_secret = tl_encode T rnd, ts_algorithm = algo, ts_digits = digits,
      ts_step = step, ts_issuer = Some issuer, ts_account_name = Some account\<rparr>"
    by (simp add: generate_with_account_def)
  with t assms(1) show ?thesis by (simp add: settled_def get_totp_def forget_def totp_law_def)
qed

lemma settled_map_entry:
  "settled_state T st \<Longrightarrow> (\<And>x s. um_secret (f x) = Some s \<Longrightarrow> settled T s \<or> um_secret x = Some s) \<Longrightarrow>
   settled_state T (AList.map_entry u f st)"
  by (fastforce simp: settled_state_def dict_simps split: if_splits)

lemma settled_entry_update:
  assumes "settled_state T st" and "\<And>x s. um_secret (f x) = Some s \<Longrightarrow> settled T s \<or> um_secret x = Some s"
  shows "settled_state T (entry_update u f st)"
proof (cases "map_of st u")
  case None
  have "settled T s" if "um_secret (f fresh_user) = Some s" for s
    using assms(2) [OF that] by (simp add: fresh_user_def)
  with None assms(1) show ?thesis by (simp add: entry_update_def settled_state_def dict_simps)
next
  case (Some x)
  with settled_map_entry [of T st f u] assms show ?thesis by (simp add: entry_update_def)
qed

lemma settled_apply: "settled_state T st \<Longrightarrow> settled_event T e \<Longrightarrow> settled_state T (apply_mfa e st)"
  by (cases e) (auto intro!: settled_entry_update settled_map_entry)

lemma settled_fold: "settled_state T st \<Longrightarrow> list_all (settled_event T) es \<Longrightarrow> settled_state T (fold apply_mfa es st)"
  by (induction es arbitrary: st) (simp_all add: settled_apply)

section \<open>Requests\<close>

datatype mfa_request =
    SetupMfa bytes int string
  | EnableMfa int int int string
  | DisableMfa int int int string
  | VerifyMfa int int string
  | StatusMfa "string option"

fun mfa_step ::
  "'t totp_lib \<Rightarrow> 't mfa_codec \<Rightarrow> mfa_bodies \<Rightarrow> mfa_config \<Rightarrow> mfa_request \<Rightarrow> 't mfa_log \<Rightarrow>
   (string + response) \<times> 't mfa_log"
where
  "mfa_step T K B cfg (SetupMfa rnd now body) L = handle_mfa_setup T K B cfg rnd now body L"
| "mfa_step T K B cfg (EnableMfa t0 t1 t2 body) L = handle_mfa_enable T K B t0 t1 t2 body L"
| "mfa_step T K B cfg (DisableMfa t0 t1 t2 body) L = handle_mfa_disable T K B t0 t1 t2 body L"
| "mfa_step T K B cfg (VerifyMfa t0 t1 body) L = handle_mfa_verify T K B t0 t1 body L"
| "mfa_step T K B cfg (StatusMfa q) L = (handle_mfa_status q L, L)"

fun mfa_run ::
  "'t totp_lib \<Rightarrow> 't mfa_codec \<Rightarrow> mfa_bodies \<Rightarrow> mfa_config \<Rightarrow> mfa_request list \<Rightarrow> 't mfa_log \<Rightarrow> 't mfa_log"
where
  "mfa_run T K B cfg [] L = L"
| "mfa_run T K B cfg (r # rs) L = mfa_run T K B cfg rs (snd (mfa_step T K B cfg r L))"

fun mfa_answers ::
  "'t totp_lib \<Rightarrow> 't mfa_codec \<Rightarrow> mfa_bodies \<Rightarrow> mfa_config \<Rightarrow> mfa_request list \<Rightarrow> 't mfa_log \<Rightarrow>
   (string + response) list"
where
  "mfa_answers T K B cfg [] L = []"
| "mfa_answers T K B cfg (r # rs) L =
     (case mfa_step T K B cfg r L of (a, L') \<Rightarrow> a # mfa_answers T K B cfg rs L')"

text \<open>Two logs whose states agree up to the instances in memory.\<close>

definition alike :: "'t totp_lib \<Rightarrow> 't mfa_log \<Rightarrow> 't mfa_log \<Rightarrow> bool" where
  "alike T L R \<longleftrightarrow> settled_state T (ml_state L) \<and> settled_state T (ml_state R) \<and>
     forget_state (ml_state L) = forget_state (ml_state R)"

lemma alike_append:
  assumes "alike T L R" and "list_all (settled_event T) es"
  shows "alike T (fold (append_mfa K) es L) (fold (append_mfa K) es R)"
  using assms by (simp add: alike_def fold_append_state settled_fold forget_fold)

lemma alike_user: "alike T L R \<Longrightarrow> map_option forget_user (map_of (ml_state L) u) = map_option forget_user (map_of (ml_state R) u)"
  by (metis alike_def map_of_forget)

lemma alike_enabled: "alike T L R \<Longrightarrow> mfa_is_enabled u L = mfa_is_enabled u R"
  using alike_user [of T L R u]
  by (cases "map_of (ml_state L) u"; cases "map_of (ml_state R) u")
    (auto simp: mfa_is_enabled_def forget_user_def dest: arg_cong [where f = um_status])


lemma settled_validate: "settled T s \<Longrightarrow> totp_validate T now (forget s) code = totp_validate T now s code"
  by (simp add: totp_validate_def settled_def)

lemma alike_get:
  assumes "alike T L R"
  obtains "mfa_get u L = None" "mfa_get u R = None"
  | d d' where "mfa_get u L = Some d" "mfa_get u R = Some d'" "ud_status d = ud_status d'"
      "\<And>now code. totp_validate T now (ud_secret d) code = totp_validate T now (ud_secret d') code"
proof -
  note u = alike_user [OF assms, of u]
  have cached: "totp_validate T now s code = totp_validate T now s' code"
    if "forget s = forget s'" "settled T s" "settled T s'" for s s' now code
    using that by (metis settled_validate)
  show thesis
  proof (cases "map_of (ml_state L) u")
    case None
    with u show thesis by (intro that(1)) (simp_all add: mfa_get_def mfa_user_state_def)
  next
    case (Some x)
    with u obtain y where y: "map_of (ml_state R) u = Some y" "forget_user x = forget_user y"
      by (cases "map_of (ml_state R) u") auto
    from y(2) have f: "map_option forget (um_secret x) = map_option forget (um_secret y)"
      "um_status x = um_status y"
      by (auto simp: forget_user_def dest: arg_cong [where f = um_secret] arg_cong [where f = um_status])
    show thesis
    proof (cases "um_secret x")
      case None
      with f Some y show thesis by (intro that(1)) (simp_all add: mfa_get_def mfa_user_state_def)
    next
      case s: (Some s)
      with f obtain s' where s': "um_secret y = Some s'" "forget s = forget s'" by (cases "um_secret y") auto
      from assms Some s y s' have st: "settled T s" "settled T s'" by (auto simp: alike_def settled_state_def)
      let ?d = "\<lambda>z x. \<lparr>ud_secret = z, ud_status = um_status x, ud_backup_codes = um_backup_codes x\<rparr>"
      show thesis
        by (rule that(2) [of "?d s x" "?d s' y"])
          (use Some s s'(1) y(1) f(2) cached [OF s'(2) st] in \<open>simp_all add: mfa_get_def mfa_user_state_def\<close>)
    qed
  qed
qed

lemma alike_refl: "settled_state T (ml_state L) \<Longrightarrow> alike T L L"
  by (simp add: alike_def)

lemmas storage_defs = mfa_save_def mfa_enable_def mfa_delete_def record_verification_success_def
  record_verification_failure_def

text \<open>A request appends events that depend on the log only as far as logs that are alike agree.\<close>

definition same_events ::
  "'t totp_lib \<Rightarrow> 't mfa_codec \<Rightarrow> (string + response) \<times> 't mfa_log \<Rightarrow> (string + response) \<times> 't mfa_log \<Rightarrow>
   't mfa_log \<Rightarrow> 't mfa_log \<Rightarrow> bool"
where
  "same_events T K x y L R \<longleftrightarrow>
     (\<exists>es. list_all (settled_event T) es \<and> fst x = fst y \<and>
       snd x = fold (append_mfa K) es L \<and> snd y = fold (append_mfa K) es R)"

lemma same_eventsI:
  "list_all (settled_event T) es \<Longrightarrow>
   same_events T K (a, fold (append_mfa K) es L) (a, fold (append_mfa K) es R) L R"
  by (auto simp: same_events_def)

lemma setup_events:
  assumes "totp_law T"
  shows "same_events T K (handle_mfa_setup T K B cfg rnd now body L) (handle_mfa_setup T K B cfg rnd now body R) L R"
proof -
  let ?made = "and_then (mb_setup B body) (\<lambda>u.
      and_then (generate_with_account T rnd (mc_algorithm cfg) (mc_digits cfg) (mc_step cfg) (mc_issuer cfg) u)
        (\<lambda>s. and_then (map_err (\<lambda>e. ''Failed to generate QR code: '' @ e) (get_qr_code T s))
          (\<lambda>qr. and_then (map_err (\<lambda>e. ''Failed to generate URI: '' @ e) (to_uri T s))
            (\<lambda>uri. Inr (u, s, qr, uri)))))"
  show ?thesis
  proof (cases ?made)
    case (Inl e)
    then show ?thesis using same_eventsI [of T "[]" K "Inl e" L R] by (simp add: handle_mfa_setup_def)
  next
    case (Inr x)
    obtain u s qr uri where x: "x = (u, s, qr, uri)" by (cases x) auto
    have "generate_with_account T rnd (mc_algorithm cfg) (mc_digits cfg) (mc_step cfg) (mc_issuer cfg) u = Inr s"
      using Inr by (auto simp: x and_then_def map_err_def split: sum.splits)
    then have "settled T s" by (rule settled_generated [OF assms])
    then show ?thesis
      using same_eventsI [of T "[MfaSetupInitiated u s now]" K "Inr (json_response 200 (setup_body B (ts_secret s) qr uri))" L R]
        Inr by (simp add: handle_mfa_setup_def x storage_defs)
  qed
qed

lemma code_events:
  assumes "alike T L R"
  shows "same_events T K (handle_mfa_enable T K B t0 t1 t2 body L) (handle_mfa_enable T K B t0 t1 t2 body R) L R"
    and "same_events T K (handle_mfa_disable T K B t0 t1 t2 body L) (handle_mfa_disable T K B t0 t1 t2 body R) L R"
    and "same_events T K (handle_mfa_verify T K B t0 t1 body L) (handle_mfa_verify T K B t0 t1 body R) L R"
proof -
  have none: "same_events T K (a, L) (a, R) L R" for a using same_eventsI [of T "[]" K a L R] by simp
  have one: "same_events T K (a, append_mfa K e L) (a, append_mfa K e R) L R" if "settled_event T e" for a e
    using same_eventsI [of T "[e]" K a L R] that by simp
  have two: "same_events T K (a, append_mfa K e (append_mfa K f L)) (a, append_mfa K e (append_mfa K f R)) L R"
    if "settled_event T e" "settled_event T f" for a e f
    using same_eventsI [of T "[f, e]" K a L R] that by simp
  note defs = handle_mfa_enable_def handle_mfa_disable_def handle_mfa_verify_def storage_defs
  have "same_events T K (handle_mfa_enable T K B t0 t1 t2 body L) (handle_mfa_enable T K B t0 t1 t2 body R) L R \<and>
    same_events T K (handle_mfa_disable T K B t0 t1 t2 body L) (handle_mfa_disable T K B t0 t1 t2 body R) L R \<and>
    same_events T K (handle_mfa_verify T K B t0 t1 body L) (handle_mfa_verify T K B t0 t1 body R) L R"
  proof (cases "mb_code B body")
    case (Inl e)
    then show ?thesis by (simp add: defs none)
  next
    case (Inr p)
    obtain u code where p: "p = (u, code)" by (cases p)
    from assms show ?thesis
    proof (cases rule: alike_get [of T L R u])
      case 1
      then show ?thesis by (simp add: Inr p defs none)
    next
      case (2 d d')
      show ?thesis
      proof (cases "totp_validate T t0 (ud_secret d') code")
        case (Inl e)
        then show ?thesis by (simp add: Inr p 2 defs none)
      next
        case v: (Inr valid)
        show ?thesis by (cases valid) (simp_all add: Inr p 2 v defs none one two)
      qed
    qed
  qed
  then show "same_events T K (handle_mfa_enable T K B t0 t1 t2 body L) (handle_mfa_enable T K B t0 t1 t2 body R) L R"
    "same_events T K (handle_mfa_disable T K B t0 t1 t2 body L) (handle_mfa_disable T K B t0 t1 t2 body R) L R"
    "same_events T K (handle_mfa_verify T K B t0 t1 body L) (handle_mfa_verify T K B t0 t1 body R) L R"
    by blast+
qed

lemma step_events:
  assumes "totp_law T" and "alike T L R"
  shows "same_events T K (mfa_step T K B cfg r L) (mfa_step T K B cfg r R) L R"
proof (cases r)
  case (StatusMfa q)
  have "handle_mfa_status q L = handle_mfa_status q R"
    by (simp add: handle_mfa_status_def alike_enabled [OF assms(2)] cong: option.case_cong)
  with StatusMfa show ?thesis using same_eventsI [of T "[]" K "handle_mfa_status q L" L R] by simp
qed (simp_all add: setup_events [OF assms(1)] code_events [OF assms(2)])

lemma alike_answers:
  assumes "totp_law T" and "alike T L R"
  shows "mfa_answers T K B cfg rs L = mfa_answers T K B cfg rs R"
  using assms(2)
proof (induction rs arbitrary: L R)
  case (Cons r rs)
  from step_events [OF assms(1) Cons.prems, of K B cfg r] obtain es where
    es: "list_all (settled_event T) es" "fst (mfa_step T K B cfg r L) = fst (mfa_step T K B cfg r R)"
      "snd (mfa_step T K B cfg r L) = fold (append_mfa K) es L"
      "snd (mfa_step T K B cfg r R) = fold (append_mfa K) es R"
    by (auto simp: same_events_def)
  from Cons.IH [OF alike_append [OF Cons.prems es(1), of K]] es(2-4) show ?case
    by (simp add: case_prod_unfold)
qed simp

lemma run_events:
  assumes "totp_law T" and "settled_state T (ml_state L)"
  shows "\<exists>es. list_all (settled_event T) es \<and> mfa_run T K B cfg rs L = fold (append_mfa K) es L"
  using assms(2)
proof (induction rs arbitrary: L)
  case Nil
  show ?case by (rule exI [of _ "[]"]) simp
next
  case (Cons r rs)
  from step_events [OF assms(1) alike_refl [OF Cons.prems], of K B cfg r] obtain es where
    es: "list_all (settled_event T) es" "snd (mfa_step T K B cfg r L) = fold (append_mfa K) es L"
    by (auto simp: same_events_def)
  have "settled_state T (ml_state (snd (mfa_step T K B cfg r L)))"
    using Cons.prems es by (simp add: fold_append_state settled_fold)
  from Cons.IH [OF this] obtain fs where fs: "list_all (settled_event T) fs"
    "mfa_run T K B cfg rs (snd (mfa_step T K B cfg r L)) = fold (append_mfa K) fs (snd (mfa_step T K B cfg r L))"
    by blast
  have "mfa_run T K B cfg (r # rs) L = fold (append_mfa K) (es @ fs) L" using fs(2) es(2) by simp
  with es(1) fs(1) show ?case by (intro exI [of _ "es @ fs"]) simp
qed


text \<open>
  A restart is not observable: the log that is opened from the file of a running one counts the
  same events and answers every further sequence of requests the same, although the instances of the
  one-time password library are not on disk.
\<close>

theorem mfa_restart_unobservable:
  assumes "mfa_codec_law K" and "totp_law T" and "complete (contents f)"
  shows "let L = mfa_run T K B cfg rs (mfa_log_new K f); R = mfa_log_new K (ml_file L)
    in ml_event_count R = ml_event_count L \<and>
       mfa_answers T K B cfg rs' R = mfa_answers T K B cfg rs' L"
proof -
  let ?S = "mfa_log_new K f" and ?L = "mfa_run T K B cfg rs (mfa_log_new K f)"
  have u: "map uncached (load_events K f) = load_events K f"
    using assms(1) by (auto simp: load_events_text set_map_filter' mfa_codec_law_def intro!: map_idI)
  have s: "settled_state T (replay_mfa es)" if "map uncached es = es" for es
    unfolding replay_mfa_def by (subst that [symmetric]) (rule settled_fold, simp_all add: list_all_iff)
  have fs: "forget_state (replay_mfa es) = replay_mfa es" if "map uncached es = es" for es
    using forget_fold [of es "[]"] that by (simp add: replay_mfa_def forget_state_def)
  obtain es where es: "list_all (settled_event T) es" "?L = fold (append_mfa K) es ?S"
    using run_events [OF assms(2), of ?S K B cfg rs] s [OF u] by auto
  have loaded: "load_events K (ml_file ?L) = load_events K f @ map uncached es"
    using fold_append_file [OF assms(1), of ?S es] assms(3) es(2) by simp
  have state: "ml_state ?L = fold apply_mfa es (replay_mfa (load_events K f))"
    and n: "ml_event_count ?L = length (load_events K f) + length es"
    using fold_append_state [of K es ?S] es(2) by simp_all
  let ?R = "mfa_log_new K (ml_file ?L)"
  have R: "ml_state ?R = replay_mfa (load_events K f @ map uncached es)" "ml_event_count ?R = ml_event_count ?L"
    by (simp_all add: loaded n)
  have w: "map uncached (load_events K f @ map uncached es) = load_events K f @ map uncached es"
    using u by simp
  have "forget_state (ml_state ?R) = forget_state (ml_state ?L)"
  proof -
    have "forget_state (ml_state ?L) = fold apply_mfa (map uncached es) (replay_mfa (load_events K f))"
      by (simp add: state forget_fold fs [OF u])
    also have "\<dots> = ml_state ?R" by (simp only: R(1)) (simp add: replay_mfa_def)
    also have "\<dots> = forget_state (ml_state ?R)" by (simp only: R(1) fs [OF w])
    finally show ?thesis by simp
  qed
  moreover have "settled_state T (ml_state ?L)"
    by (simp add: state settled_fold s [OF u] es(1))
  ultimately have "alike T ?R ?L" using s [OF w] by (simp add: alike_def loaded)
  from alike_answers [OF assms(2) this, of K B cfg rs'] R(2) show ?thesis by (simp add: Let_def)
qed

text \<open>
  After a line was torn the next event is written onto it: if the merged line does not parse, the
  running state holds an event that no restart sees again. All later events are kept.
\<close>

theorem torn_line_loses_next:
  assumes "mfa_codec_law K" and "complete g" and "newline \<notin> set torn" and "torn \<noteq> []"
    and "me_from_json K torn = None" and "me_from_json K (torn @ me_to_json K e) = None"
  shows "load_events K (Some (g @ torn)) = load_events K (Some g) \<and>
    load_events K (ml_file (fold (append_mfa K) (e # es) (mfa_log_new K (Some (g @ torn))))) =
      load_events K (Some g) @ map uncached es \<and>
    ml_event_count (fold (append_mfa K) (e # es) (mfa_log_new K (Some (g @ torn)))) =
      length (load_events K (Some g)) + 1 + length es"
proof -
  have k: "event_ok (me_to_json K e)" using assms(1) by (simp add: mfa_codec_law_def)
  have l: "text_lines torn = [torn]"
    using assms(3,4) by (simp add: text_lines_def split_on_no)
  have t: "load_events K (Some (g @ torn)) = load_events K (Some g)"
    using assms(5) by (simp add: load_events_def text_lines_append [OF assms(2)] l List.map_filter_def)
  let ?m = "torn @ me_to_json K e"
  have m: "text_lines (?m @ [newline]) = [?m]"
    using text_lines_frame [of ?m "[]"] k assms(3) by (simp add: event_ok_def strip_cr_def)
  let ?L = "append_mfa K e (mfa_log_new K (Some (g @ torn)))"
  have f: "ml_file ?L = Some (g @ ?m @ [newline])" by (simp add: append_mfa_def write_line_def mfa_log_new_def Let_def)
  have "load_events K (ml_file ?L) = load_events K (Some g)"
    using assms(6) m by (simp add: f load_events_def text_lines_append [OF assms(2)] List.map_filter_def)
  moreover have "complete (contents (ml_file ?L))" by (simp add: f contents_def complete_def)
  ultimately have "load_events K (ml_file (fold (append_mfa K) es ?L)) = load_events K (Some g) @ map uncached es"
    using fold_append_file [OF assms(1), of ?L es] by simp
  moreover have "ml_event_count (fold (append_mfa K) es ?L) = length (load_events K (Some g)) + 1 + length es"
    using fold_append_state [of K es ?L] by (simp add: append_mfa_def mfa_log_new_def Let_def t)
  ultimately show ?thesis using t by simp
qed

section \<open>The migration\<close>

lemma log_event_stats: "snd (log_event K e m) = (snd m)\<lparr>gs_events_generated := gs_events_generated (snd m) + 1\<rparr>"
  by (simp add: log_event_def case_prod_unfold)

lemma migrate_user_stats: "snd m = snd m' \<Longrightarrow> snd (migrate_user K now u d m) = snd (migrate_user K now u d m')"
  by (simp add: migrate_user_def Let_def log_event_stats)

lemma migrate_users_stats:
  "snd m = snd m' \<Longrightarrow>
   snd (fold (\<lambda>(u, d). migrate_user K (clk u) u d) us m) = snd (fold (\<lambda>(u, d). migrate_user K (clk u) u d) us m')"
proof (induction us arbitrary: m m')
  case (Cons x us)
  obtain u d where x: "x = (u, d)" by (cases x)
  from Cons.IH [OF migrate_user_stats [OF Cons.prems]] show ?case by (simp add: x)
qed simp

lemma migrate_file_stats:
  assumes "snd m = snd m'"
  shows "fst (migrate_file K R clk f m) = fst (migrate_file K R clk f m') \<and>
    snd (snd (migrate_file K R clk f m)) = snd (snd (migrate_file K R clk f m'))"
  using assms migrate_users_stats [OF assms, of K clk]
  by (auto simp: migrate_file_def Let_def split: sum.split option.split intro!: migrate_user_stats)

lemma migrate_files_stats:
  "snd m = snd m' \<Longrightarrow> snd (migrate_files K R clk fs m) = snd (migrate_files K R clk fs m')"
proof (induction fs arbitrary: m m')
  case (Cons f fs)
  note s = migrate_file_stats [OF Cons.prems, of K R "clk (of_path f)" f]
  obtain r L s1 where a: "migrate_file K R (clk (of_path f)) f m = (r, L, s1)"
    by (cases "migrate_file K R (clk (of_path f)) f m")
  obtain r' L' s1' where b: "migrate_file K R (clk (of_path f)) f m' = (r', L', s1')"
    by (cases "migrate_file K R (clk (of_path f)) f m'")
  from s a b have e: "r' = r" "s1' = s1" by simp_all
  show ?case
  proof (cases r)
    case (Inl x)
    show ?thesis by (simp add: a b e Inl) (rule Cons.IH, simp)
  next
    case (Inr x)
    show ?thesis by (simp add: a b e Inr) (rule Cons.IH, simp)
  qed
qed simp

text \<open>
  A dry run reports what the migration will report: the same numbers of users and events and the
  same errors; and it writes nothing.
\<close>

theorem dry_run_predicts:
  "snd (migrate_json_to_events K R clk fs log_file True) = snd (migrate_json_to_events K R clk fs log_file False) \<and>
   fst (migrate_json_to_events K R clk fs log_file True) = None"
proof -
  have u: "fst (migrate_user K now u d (None, s)) = None" for now u d s
    by (simp add: migrate_user_def log_event_def Let_def)
  have us: "fst (fold (\<lambda>(u, d). migrate_user K (c u) u d) us (None, s)) = None" for c us s
  proof (induction us arbitrary: s)
    case (Cons x us)
    obtain u' d where x: "x = (u', d)" by (cases x)
    obtain s' where "migrate_user K (c u') u' d (None, s) = (None, s')"
      using u [of "c u'" u' d s] by (cases "migrate_user K (c u') u' d (None, s)") auto
    with Cons.IH [of s'] show ?case by (simp add: x)
  qed simp
  have f: "fst (snd (migrate_file K R c f (None, s))) = None" for c f s
    using us u by (auto simp: migrate_file_def Let_def split: sum.split option.split)
  have "fst (migrate_files K R clk fs (None, s)) = None" for s
  proof (induction fs arbitrary: s)
    case (Cons x fs)
    obtain r s' where "migrate_file K R (clk (of_path x)) x (None, s) = (r, None, s')"
      using f [of "clk (of_path x)" x s] by (cases "migrate_file K R (clk (of_path x)) x (None, s)") auto
    with Cons.IH show ?case by (cases r) simp_all
  qed simp
  then show ?thesis
    using migrate_files_stats [of "(None, s)" "(Some (mfa_log_new K log_file), s)" K R clk fs for s]
    by (simp add: migrate_json_to_events_def Let_def)
qed

text \<open>
  A user that is migrated into a log that does not know it has its secret and is enabled as before,
  but its backup codes and the flag that the factor is required are lost.
\<close>

theorem migration_loses_codes:
  assumes "map_of (ml_state L) u = None"
  shows "\<exists>L'. fst (migrate_user K now u d (Some L, s)) = Some L' \<and>
    mfa_get u L' = Some \<lparr>ud_secret = ud_secret d,
      ud_status = \<lparr>mt_enabled = mt_enabled (ud_status d), mt_required = False,
        mt_enabled_at = (if mt_enabled (ud_status d)
          then Some (case mt_enabled_at (ud_status d) of Some t \<Rightarrow> t | None \<Rightarrow> now) else None)\<rparr>,
      ud_backup_codes = []\<rparr>"
  using assms
  by (cases "mt_enabled (ud_status d)"; cases "ud_backup_codes d = []")
    (simp_all add: migrate_user_def log_event_def Let_def append_mfa_def entry_update_def mfa_get_def
      mfa_user_state_def dict_simps fresh_user_def mfa_status_default_def)


section \<open>A concrete log\<close>

text \<open>A codec and a library that satisfy the laws: codes are the secret itself.\<close>

fun algorithm_number :: "totp_algorithm \<Rightarrow> nat" where
  "algorithm_number SHA1 = 0"
| "algorithm_number SHA256 = 1"
| "algorithm_number SHA512 = 2"

definition algorithm_of :: "nat \<Rightarrow> totp_algorithm" where
  "algorithm_of n = (if n = 0 then SHA1 else if n = 1 then SHA256 else SHA512)"

type_synonym secret_fields = "string \<times> nat \<times> nat \<times> nat \<times> string option \<times> string option"
type_synonym mfa_fields = "nat \<times> string \<times> string option \<times> secret_fields \<times> nat \<times> int"

definition secret_fields :: "'t totp_secret \<Rightarrow> secret_fields" where
  "secret_fields s =
     (ts_secret s, algorithm_number (ts_algorithm s), unat (ts_digits s), unat (ts_step s), ts_issuer s,
      ts_account_name s)"

definition secret_of_fields :: "secret_fields \<Rightarrow> 't totp_secret" where
  "secret_of_fields x =
     (let (a, b, c, d, e, f) = x
      in \<lparr>ts_totp = None, ts_secret = a, ts_algorithm = algorithm_of b, ts_digits = of_nat c,
          ts_step = of_nat d, ts_issuer = e, ts_account_name = f\<rparr>)"

definition no_secret :: secret_fields where
  "no_secret = ([], 0, 0, 0, None, None)"

fun mfa_fields :: "'t mfa_event \<Rightarrow> mfa_fields" where
  "mfa_fields (MfaSetupInitiated u s t) = (0, u, None, secret_fields s, 0, t)"
| "mfa_fields (MfaEnabled u t) = (1, u, None, no_secret, 0, t)"
| "mfa_fields (MfaDisabled u r t) = (2, u, r, no_secret, 0, t)"
| "mfa_fields (MfaCodeVerified u t) = (3, u, None, no_secret, 0, t)"
| "mfa_fields (MfaCodeVerificationFailed u r t) = (4, u, Some r, no_secret, 0, t)"
| "mfa_fields (BackupCodesGenerated u n t) = (5, u, None, no_secret, n, t)"
| "mfa_fields (BackupCodeUsed u t) = (6, u, None, no_secret, 0, t)"

definition mfa_of_fields :: "mfa_fields \<Rightarrow> 't mfa_event" where
  "mfa_of_fields x =
     (let (k, u, r, s, n, t) = x
      in if k = 0 then MfaSetupInitiated u (secret_of_fields s) t
         else if k = 1 then MfaEnabled u t
         else if k = 2 then MfaDisabled u r t
         else if k = 3 then MfaCodeVerified u t
         else if k = 4 then MfaCodeVerificationFailed u (case r of Some x \<Rightarrow> x | None \<Rightarrow> []) t
         else if k = 5 then BackupCodesGenerated u n t
         else BackupCodeUsed u t)"

definition demo_mfa :: "bytes mfa_codec" where
  "demo_mfa =
     \<lparr>me_to_json = \<lambda>e. ''{'' @ show_nat (to_nat (mfa_fields e)),
      me_from_json = \<lambda>l. if take 1 l = ''{'' then Some (mfa_of_fields (from_nat (digits_value (drop 1 l)))) else None\<rparr>"

lemma secret_fields_back: "secret_of_fields (secret_fields s) = forget s"
proof -
  have "algorithm_of (algorithm_number a) = a" for a by (cases a) (simp_all add: algorithm_of_def)
  then show ?thesis by (simp add: secret_of_fields_def secret_fields_def forget_def)
qed

lemma secret_of_fields_forget: "forget (secret_of_fields x) = secret_of_fields x"
  by (simp add: secret_of_fields_def forget_def case_prod_unfold Let_def)

lemma demo_mfa_law: "mfa_codec_law demo_mfa"
proof -
  have rd: "mfa_of_fields (mfa_fields e) = uncached e" for e :: "bytes mfa_event"
    by (cases e) (simp_all add: mfa_of_fields_def secret_fields_back)
  have un: "uncached (mfa_of_fields x) = (mfa_of_fields x :: bytes mfa_event)" for x
    by (simp add: mfa_of_fields_def case_prod_unfold Let_def secret_of_fields_forget)
  have "trim (''{'' @ show_nat n) \<noteq> []" for n
    using show_nat_digits [of n] by (auto simp: trim_def is_space_def dropWhile_eq_Nil_conv)
  moreover have "event_ok (''{'' @ show_nat n)" for n by (rule demo_line_ok)
  ultimately show ?thesis by (auto simp: mfa_codec_law_def demo_mfa_def rd un)
qed

definition demo_totp :: "bytes totp_lib" where
  "demo_totp =
     \<lparr>tl_encode = map (\<lambda>b. char_of (unat b)), tl_decode = \<lambda>s. Inr (map (\<lambda>c. of_nat (of_char c)) s),
      tl_new = \<lambda>a d k st b i n. Inr b, tl_check = \<lambda>t now code. Inr (code = map (\<lambda>b. char_of (unat b)) t),
      tl_url = \<lambda>t. ''otpauth'', tl_qr = \<lambda>t. Inr ''png''\<rparr>"

lemma demo_totp_law: "totp_law demo_totp"
proof -
  have "unat (b :: u8) mod 256 = unat b" for b
    using unsigned_less [of b, where ?'a = nat] by simp
  then show ?thesis by (simp add: totp_law_def demo_totp_def comp_def)
qed

lemma load_events_nothing [simp]: "load_events K (Some []) = []" "load_events K None = []" "replay_mfa [] = []"
  by (simp_all add: load_events_def List.map_filter_def replay_mfa_def)

definition demo_bodies :: mfa_bodies where
  "demo_bodies = \<lparr>mb_setup = Inr, mb_code = \<lambda>s. Inr (''bob'', s), mb_quote = \<lambda>s. s\<rparr>"

lemma mfa_restart_unobservable_witness:
  "mfa_answers demo_totp demo_mfa demo_bodies mfa_config_default [StatusMfa (Some ''username=bob'')]
     (mfa_log_new demo_mfa (ml_file (mfa_run demo_totp demo_mfa demo_bodies mfa_config_default
       [SetupMfa [65] 1 ''bob'', EnableMfa 2 3 4 ''A''] (mfa_log_new demo_mfa None)))) =
   [Inr (json_response 200 (status_body True False))]"
proof -
  note w = mfa_restart_unobservable [OF demo_mfa_law demo_totp_law, where f = None and B = demo_bodies
      and cfg = mfa_config_default and rs = "[SetupMfa [65] 1 ''bob'', EnableMfa 2 3 4 ''A'']"
      and rs' = "[StatusMfa (Some ''username=bob'')]"]
  have c: "char_of (65 :: nat) = CHR ''A''" by code_simp
  have "mfa_answers demo_totp demo_mfa demo_bodies mfa_config_default [StatusMfa (Some ''username=bob'')]
      (mfa_run demo_totp demo_mfa demo_bodies mfa_config_default
       [SetupMfa [65] 1 ''bob'', EnableMfa 2 3 4 ''A''] (mfa_log_new demo_mfa None)) =
     [Inr (json_response 200 (status_body True False))]"
    by (simp add: c handle_mfa_setup_def handle_mfa_enable_def handle_mfa_status_def demo_bodies_def
        generate_with_account_def demo_totp_def get_qr_code_def to_uri_def get_totp_def storage_defs append_mfa_def
        entry_update_def mfa_get_def mfa_user_state_def totp_validate_def mfa_is_enabled_def fresh_user_def
        Firewall.starts_with_def strip_prefix_def)
  with w show ?thesis by (simp add: Let_def contents_def complete_def)
qed

lemma demo_mfa_torn: "me_from_json demo_mfa (''x'' @ s) = None"
  by (simp add: demo_mfa_def)

lemma torn_line_loses_next_witness:
  "load_events demo_mfa (ml_file (append_mfa demo_mfa (MfaEnabled ''bob'' 1 :: bytes mfa_event)
     (mfa_log_new demo_mfa (Some ''x'')))) = []"
proof -
  have "newline \<notin> set ''x''" by (simp add: newline_def)
  with torn_line_loses_next [OF demo_mfa_law, of "[]" "''x''" "MfaEnabled ''bob'' 1 :: bytes mfa_event" "[]"]
  show ?thesis using demo_mfa_torn [of "[]"] demo_mfa_torn by (simp add: complete_def)
qed

lemma migration_loses_codes_witness:
  "\<exists>L'. fst (migrate_user demo_mfa 5 ''bob''
      \<lparr>ud_secret = (secret_of_fields no_secret :: bytes totp_secret),
       ud_status = \<lparr>mt_enabled = True, mt_required = True, mt_enabled_at = Some 3\<rparr>, ud_backup_codes = [''c'']\<rparr>
      (Some (mfa_log_new demo_mfa None), s)) = Some L' \<and>
    map_option ud_backup_codes (mfa_get ''bob'' L') = Some []"
  using migration_loses_codes [of "mfa_log_new demo_mfa None" "''bob''" demo_mfa 5
      "\<lparr>ud_secret = (secret_of_fields no_secret :: bytes totp_secret),
        ud_status = \<lparr>mt_enabled = True, mt_required = True, mt_enabled_at = Some 3\<rparr>, ud_backup_codes = [''c'']\<rparr>" s]
  by (auto simp: load_events_def replay_mfa_def)

end
