(* ===== verification/Accounts.thy ===== *)
theory Accounts
  imports Mfa
begin

text \<open>
  Accounts and roles, from \<^verbatim>\<open>lithair-core/src/rbac\<close> and the routes that
  \<^verbatim>\<open>lithair-core/src/app/builder.rs\<close> registers for them: the declarative configuration, the
  permission checker, the login with the second factor, the logout and the validation of a session, and
  the provider that reads a password from a header. Argon2, the keyed hash and the arithmetic of
  calendar time are arguments.
\<close>

section \<open>Roles and permissions\<close>

record role_object =
  ro_name :: string
  ro_description :: "string option"
  ro_permissions :: "string set"

definition role_new :: "string \<Rightarrow> role_object" where
  "role_new n = \<lparr>ro_name = n, ro_description = None, ro_permissions = {}\<rparr>"

definition with_description :: "string \<Rightarrow> role_object \<Rightarrow> role_object" where
  "with_description d r = r\<lparr>ro_description := Some d\<rparr>"

definition with_permission :: "string \<Rightarrow> role_object \<Rightarrow> role_object" where
  "with_permission p r = r\<lparr>ro_permissions := insert p (ro_permissions r)\<rparr>"

definition role_has_permission :: "string \<Rightarrow> role_object \<Rightarrow> bool" where
  "role_has_permission p r \<longleftrightarrow> p \<in> ro_permissions r"

record role_definition =
  rd_roles :: "string list"
  rd_default_role :: string

definition role_definition_default :: role_definition where
  "role_definition_default = \<lparr>rd_roles = [''Public'', ''User'', ''Admin''], rd_default_role = ''Public''\<rparr>"

definition defines_role :: "role_definition \<Rightarrow> string \<Rightarrow> bool" where
  "defines_role d r \<longleftrightarrow> list_ex (\<lambda>x. x = r) (rd_roles d)"

datatype permission_level = PublicLevel | ReadLevel | WriteLevel | DeleteLevel | AdminLevel

record field_permission =
  fp_field_name :: string
  fp_read :: "string list"
  fp_write :: "string list"

definition field_permission_new :: "string \<Rightarrow> field_permission" where
  "field_permission_new f = \<lparr>fp_field_name = f, fp_read = [''Public''], fp_write = [''Admin'']\<rparr>"

definition can_read :: "field_permission \<Rightarrow> string \<Rightarrow> bool" where
  "can_read f r \<longleftrightarrow> list_ex (\<lambda>x. x = r \<or> x = ''Public'') (fp_read f)"

definition can_write :: "field_permission \<Rightarrow> string \<Rightarrow> bool" where
  "can_write f r \<longleftrightarrow> list_ex (\<lambda>x. x = r) (fp_write f)"

record permission =
  pm_name :: string
  pm_required_roles :: "string list"
  pm_level :: permission_level

definition permission_new :: "string \<Rightarrow> permission_level \<Rightarrow> permission" where
  "permission_new n l = \<lparr>pm_name = n, pm_required_roles = [], pm_level = l\<rparr>"

definition require_role :: "string \<Rightarrow> permission \<Rightarrow> permission" where
  "require_role r p = p\<lparr>pm_required_roles := pm_required_roles p @ [r]\<rparr>"

definition is_satisfied_by :: "permission \<Rightarrow> string list \<Rightarrow> bool" where
  "is_satisfied_by p rs =
     (if pm_required_roles p = [] then True else list_ex (\<lambda>r. r \<in> set rs) (pm_required_roles p))"

section \<open>The declarative configuration\<close>

record password_lib =
  pl_hash :: "string \<Rightarrow> string option"
  pl_verify :: "string \<Rightarrow> string \<Rightarrow> bool option"

record rbac_user =
  rb_username :: string
  rb_password_hash :: string
  rb_role :: string
  rb_active :: bool

text \<open>\<open>None\<close> is the panic of a hash that fails.\<close>

definition rbac_user_new :: "password_lib \<Rightarrow> string \<Rightarrow> string \<Rightarrow> string \<Rightarrow> rbac_user option" where
  "rbac_user_new H u pw r =
     map_option (\<lambda>h. \<lparr>rb_username = u, rb_password_hash = h, rb_role = r, rb_active = True\<rparr>) (pl_hash H pw)"

definition rbac_user_hashed :: "string \<Rightarrow> string \<Rightarrow> string \<Rightarrow> rbac_user" where
  "rbac_user_hashed u h r = \<lparr>rb_username = u, rb_password_hash = h, rb_role = r, rb_active = True\<rparr>"

definition user_verify_password :: "password_lib \<Rightarrow> rbac_user \<Rightarrow> string \<Rightarrow> bool" where
  "user_verify_password H u pw = (case pl_verify H pw (rb_password_hash u) of Some b \<Rightarrow> b | None \<Rightarrow> False)"

definition needs_password_rehash :: "rbac_user \<Rightarrow> bool" where
  "needs_password_rehash u \<longleftrightarrow> \<not> Firewall.starts_with ''$argon2'' (rb_password_hash u)"

definition rehash_password :: "password_lib \<Rightarrow> string \<Rightarrow> rbac_user \<Rightarrow> bool \<times> rbac_user" where
  "rehash_password H pw u =
     (case pl_hash H pw of Some h \<Rightarrow> (True, u\<lparr>rb_password_hash := h\<rparr>) | None \<Rightarrow> (False, u))"

record rbac_config =
  rc_roles :: "(string \<times> string list) list"
  rc_users :: "rbac_user list"
  rc_session_store_path :: "string option"
  rc_session_duration :: u64

definition rbac_config_default :: rbac_config where
  "rbac_config_default =
     \<lparr>rc_roles = [(''Admin'', [''*'']), (''User'', [''Read''])], rc_users = [], rc_session_store_path = None,
      rc_session_duration = 28800\<rparr>"

definition with_role :: "string \<Rightarrow> string list \<Rightarrow> rbac_config \<Rightarrow> rbac_config" where
  "with_role r ps c = c\<lparr>rc_roles := rc_roles c @ [(r, ps)]\<rparr>"

definition with_roles :: "(string \<times> string list) list \<Rightarrow> rbac_config \<Rightarrow> rbac_config" where
  "with_roles rs c = c\<lparr>rc_roles := rs\<rparr>"

definition with_user :: "rbac_user \<Rightarrow> rbac_config \<Rightarrow> rbac_config" where
  "with_user u c = c\<lparr>rc_users := rc_users c @ [u]\<rparr>"

definition with_users :: "rbac_user list \<Rightarrow> rbac_config \<Rightarrow> rbac_config" where
  "with_users us c = c\<lparr>rc_users := us\<rparr>"

definition create_roles :: "rbac_config \<Rightarrow> role_object list" where
  "create_roles c = map (\<lambda>(n, ps). fold with_permission ps (role_new n)) (rc_roles c)"

type_synonym permission_checker = "(string, role_object) dict"

definition checker_new :: "role_object list \<Rightarrow> permission_checker" where
  "checker_new rs = fold (\<lambda>r. AList.update (ro_name r) r) rs []"

definition create_permission_checker :: "rbac_config \<Rightarrow> permission_checker" where
  "create_permission_checker c = checker_new (create_roles c)"

definition has_permission :: "permission_checker \<Rightarrow> string \<Rightarrow> string \<Rightarrow> bool" where
  "has_permission k role p =
     (case map_of k role of
        None \<Rightarrow> False
      | Some r \<Rightarrow> (if role_has_permission ''*'' r then True else role_has_permission p r))"

section \<open>Authentication contexts and the password provider\<close>

record rbac_auth =
  ra_user_id :: "string option"
  ra_roles :: "string list"
  ra_groups :: "string list"
  ra_authenticated :: bool
  ra_provider :: string
  ra_mfa_verified :: bool
  ra_metadata :: "(string, string) dict"

definition unauthenticated :: rbac_auth where
  "unauthenticated =
     \<lparr>ra_user_id = None, ra_roles = [''Public''], ra_groups = [], ra_authenticated = False,
      ra_provider = ''none'', ra_mfa_verified = False, ra_metadata = []\<rparr>"

definition auth_has_role :: "rbac_auth \<Rightarrow> string \<Rightarrow> bool" where
  "auth_has_role a r \<longleftrightarrow> list_ex (\<lambda>x. x = r) (ra_roles a)"

definition auth_has_group :: "rbac_auth \<Rightarrow> string \<Rightarrow> bool" where
  "auth_has_group a g \<longleftrightarrow> list_ex (\<lambda>x. x = g) (ra_groups a)"

definition has_role_or_group :: "rbac_auth \<Rightarrow> string \<Rightarrow> bool" where
  "has_role_or_group a n \<longleftrightarrow> auth_has_role a n \<or> auth_has_group a n"

record password_provider =
  pp_password :: string
  pp_default_role :: string

text \<open>Both tags are computed under the second string as key.\<close>

definition hmac_eq :: "(string \<Rightarrow> string \<Rightarrow> bytes) \<Rightarrow> string \<Rightarrow> string \<Rightarrow> bool" where
  "hmac_eq hmac a b \<longleftrightarrow> HttpServer.constant_time_eq (hmac b a) (hmac b b)"

definition password_authenticate ::
  "(string \<Rightarrow> string \<Rightarrow> bytes) \<Rightarrow> password_provider \<Rightarrow> string option \<Rightarrow> string option \<Rightarrow> string + rbac_auth"
where
  "password_authenticate hmac P password role =
     (case password of
        None \<Rightarrow> Inr unauthenticated
      | Some pw \<Rightarrow>
          (if hmac_eq hmac pw (pp_password P)
           then Inr \<lparr>ra_user_id = Some ''authenticated_user'',
                     ra_roles = [case role of Some r \<Rightarrow> r | None \<Rightarrow> pp_default_role P], ra_groups = [],
                     ra_authenticated = True, ra_provider = ''password'', ra_mfa_verified = False,
                     ra_metadata = []\<rparr>
           else Inl ''Invalid password''))"

section \<open>The handlers\<close>

record login_request =
  lg_username :: string
  lg_password :: string
  lg_totp_code :: "string option"

text \<open>
  The environment of the handlers: the bodies of the requests, quoting, the text of a string as a JSON value, and
  adding seconds to an instant, which panics (\<open>None\<close>) out of the range of the calendar.
\<close>

record 'v login_env =
  le_login :: "string \<Rightarrow> login_request option"
  le_quote :: "string \<Rightarrow> string"
  le_value :: "string \<Rightarrow> 'v"
  le_plus_seconds :: "int \<Rightarrow> int \<Rightarrow> int option"

definition find_user :: "password_lib \<Rightarrow> login_request \<Rightarrow> rbac_user list \<Rightarrow> rbac_user option" where
  "find_user H lr us =
     (case find (\<lambda>u. rb_username u = lg_username lr \<and> user_verify_password H u (lg_password lr)) us of
        Some u \<Rightarrow> (if rb_active u then Some u else None)
      | None \<Rightarrow> None)"

definition mfa_required_body :: string where
  "mfa_required_body = ''{'' @ json_key ''error'' @ [CHR 34] @ ''MFA required'' @ [CHR 34] @ '','' @
     json_key ''mfa_required'' @ ''true}''"

text \<open>The check of the second factor: an error, an answer that ends the login, or nothing.\<close>

definition second_factor ::
  "'t totp_lib \<Rightarrow> int \<Rightarrow> 't mfa_log option \<Rightarrow> string \<Rightarrow> string option \<Rightarrow> string + response option"
where
  "second_factor T now mfa u code =
     (case Option.bind mfa (mfa_get u) of
        None \<Rightarrow> Inr None
      | Some d \<Rightarrow>
          (if \<not> mt_enabled (ud_status d) then Inr None
           else case code of
                  None \<Rightarrow> Inr (Some (json_response 401 mfa_required_body))
                | Some c \<Rightarrow>
                    and_then (totp_validate T now (ud_secret d) c)
                      (\<lambda>valid. Inr (if valid then None
                                    else Some (json_response 401 (error_body ''Invalid TOTP code''))))))"

definition login_body :: "'v login_env \<Rightarrow> u64 \<Rightarrow> string \<Rightarrow> string \<Rightarrow> string" where
  "login_body E dur role sid =
     ''{'' @ json_key ''expires_in'' @ show_nat (unat dur) @ '','' @ json_key ''role'' @ le_quote E role @ '','' @
     json_key ''session_token'' @ le_quote E sid @ ''}''"

definition login_session :: "'v login_env \<Rightarrow> int \<Rightarrow> string \<Rightarrow> int \<Rightarrow> rbac_user \<Rightarrow> 'v session" where
  "login_session E now sid expires u =
     session_set ''role'' (le_value E (rb_role u))
       (session_set ''username'' (le_value E (rb_username u))
         (session_set ''user_id'' (le_value E (rb_username u)) (session_new now sid expires)))"

text \<open>\<open>t0\<close> is the time of the second factor, \<open>t1\<close> of the expiry, \<open>t2\<close> of the session and \<open>t3\<close> of the store.\<close>

definition handle_rbac_login ::
  "(string \<Rightarrow> u32) \<Rightarrow> 'v session_codec \<Rightarrow> password_lib \<Rightarrow> 't totp_lib \<Rightarrow> 'v login_env \<Rightarrow> rbac_user list \<Rightarrow> u64 \<Rightarrow>
   't mfa_log option \<Rightarrow> string \<Rightarrow> int \<Rightarrow> int \<Rightarrow> int \<Rightarrow> int \<Rightarrow> string \<Rightarrow> 'v persistent_store \<Rightarrow>
   ((string + response) \<times> 'v persistent_store) option"
where
  "handle_rbac_login crc K H T E users dur mfa sid t0 t1 t2 t3 body p =
     (case le_login E body of
        None \<Rightarrow> Some (Inr (json_response 400 (error_body ''Invalid JSON'')), p)
      | Some lr \<Rightarrow>
          (case find_user H lr users of
             None \<Rightarrow> Some (Inr (json_response 401 (error_body ''Invalid credentials'')), p)
           | Some u \<Rightarrow>
               (case second_factor T t0 mfa (rb_username u) (lg_totp_code lr) of
                  Inl e \<Rightarrow> Some (Inl e, p)
                | Inr (Some r) \<Rightarrow> Some (Inr r, p)
                | Inr None \<Rightarrow>
                    map_option (\<lambda>expires.
                        (Inr (json_response 200 (login_body E dur (rb_role u) sid)),
                         ps_set crc K t3 (login_session E t2 sid expires u) p))
                      (le_plus_seconds E t1 (sint dur)))))"

definition bearer :: "request \<Rightarrow> string option" where
  "bearer r = Option.bind (cr_authorization (hr_credentials r)) (strip_prefix ''Bearer '')"

definition message_body :: string where
  "message_body = ''{'' @ json_key ''message'' @ [CHR 34] @ ''Logged out successfully'' @ [CHR 34] @ ''}''"

definition handle_rbac_logout ::
  "(string \<Rightarrow> u32) \<Rightarrow> 'v session_codec \<Rightarrow> int \<Rightarrow> request \<Rightarrow> 'v persistent_store \<Rightarrow> response \<times> 'v persistent_store"
where
  "handle_rbac_logout crc K now r p =
     (case bearer r of
        None \<Rightarrow> (json_response 401 (error_body ''No session token provided''), p)
      | Some t \<Rightarrow>
          (case ps_get now t p of
             None \<Rightarrow> (json_response 401 (error_body ''Invalid session''), p)
           | Some s \<Rightarrow> (json_response 200 message_body, ps_delete crc K t p)))"

definition validate_token_of :: "request \<Rightarrow> string option" where
  "validate_token_of r =
     (case bearer r of
        Some t \<Rightarrow> Some t
      | None \<Rightarrow>
          Option.bind (cr_cookie (hr_credentials r))
            (\<lambda>cookies. Option.bind
               (find (\<lambda>c. Firewall.starts_with ''session_token='' (trim c)) (split_on (CHR '';'') cookies))
               (\<lambda>c. (let parts = split_on (CHR ''='') c in if 1 < length parts then Some (parts ! 1) else None))))"

definition handle_validate :: "int \<Rightarrow> request \<Rightarrow> 'v persistent_store \<Rightarrow> response" where
  "handle_validate now r p =
     (let is_valid = (case validate_token_of r of Some t \<Rightarrow> ps_get now t p \<noteq> None | None \<Rightarrow> False)
      in json_response 200 (''{'' @ json_key ''valid'' @ show_bool is_valid @ ''}''))"

text \<open>The route of the login turns an error into a page.\<close>

definition login_route ::
  "(string + response) \<times> 'v persistent_store \<Rightarrow> response \<times> 'v persistent_store"
where
  "login_route x =
     (case x of
        (Inr r, p) \<Rightarrow> (r, p)
      | (Inl e, p) \<Rightarrow> (\<lparr>hs_status = 500, hs_headers = [], hs_body = ''Internal error: '' @ e\<rparr>, p))"

section \<open>The builder\<close>

text \<open>
  The handlers as the builder registers them. The login holds on to the storage of the second factor
  that the builder has at the time of the registration; a storage is named by its path.
\<close>

datatype auth_handler =
    LoginHandler "rbac_user list" u64 "string option"
  | LogoutHandler
  | ValidateHandler
  | MfaStatusHandler string
  | MfaSetupHandler string
  | MfaEnableHandler string
  | MfaDisableHandler string
  | MfaVerifyHandler string
  | OtherHandler nat

record builder =
  bd_routes :: "(string \<times> string \<times> auth_handler) list"
  bd_session_path :: "string option"
  bd_permission_checker :: "permission_checker option"
  bd_mfa_storage :: "string option"

definition with_route :: "string \<Rightarrow> string \<Rightarrow> auth_handler \<Rightarrow> builder \<Rightarrow> builder" where
  "with_route m path h b = b\<lparr>bd_routes := bd_routes b @ [(m, path, h)]\<rparr>"

definition with_rbac_config :: "rbac_config \<Rightarrow> builder \<Rightarrow> builder" where
  "with_rbac_config c b =
     (let path = (case rc_session_store_path c of Some p \<Rightarrow> p | None \<Rightarrow> ''./data/sessions'');
          b1 = b\<lparr>bd_session_path := Some path, bd_permission_checker := Some (create_permission_checker c)\<rparr>;
          b2 = with_route ''POST'' ''/auth/login''
                 (LoginHandler (rc_users c) (rc_session_duration c) (bd_mfa_storage b1)) b1;
          b3 = with_route ''POST'' ''/auth/logout'' LogoutHandler b2
      in with_route ''GET'' ''/auth/validate'' ValidateHandler b3)"

definition with_mfa_totp :: "mfa_config \<Rightarrow> builder \<Rightarrow> builder" where
  "with_mfa_totp c b =
     (let s = mc_storage_path c;
          b1 = b\<lparr>bd_mfa_storage := Some s\<rparr>;
          b2 = with_route ''GET'' ''/auth/mfa/status'' (MfaStatusHandler s) b1;
          b3 = with_route ''POST'' ''/auth/mfa/setup'' (MfaSetupHandler s) b2;
          b4 = with_route ''POST'' ''/auth/mfa/enable'' (MfaEnableHandler s) b3;
          b5 = with_route ''POST'' ''/auth/mfa/disable'' (MfaDisableHandler s) b4
      in with_route ''POST'' ''/auth/mfa/verify'' (MfaVerifyHandler s) b5)"

text \<open>The handler that the dispatch of the server finds.\<close>

definition custom_handler :: "builder \<Rightarrow> string \<Rightarrow> string \<Rightarrow> auth_handler option" where
  "custom_handler b meth path =
     map_option (\<lambda>(m, q, h). h) (find (\<lambda>(m, q, h). m = meth \<and> path_matches q path) (bd_routes b))"


section \<open>The permission checker\<close>

lemma role_of_definition:
  "ro_name (fold with_permission ps r) = ro_name r \<and>
   ro_permissions (fold with_permission ps r) = set ps \<union> ro_permissions r"
  by (induction ps arbitrary: r) (auto simp: with_permission_def)

lemma checker_lookup: "map_of (checker_new rs) k = find (\<lambda>r. ro_name r = k) (rev rs)"
proof (induction rs rule: rev_induct)
  case (snoc r rs)
  then show ?case by (simp add: checker_new_def dict_simps)
qed (simp add: checker_new_def)

lemma find_definition:
  "map_option ro_permissions (find (\<lambda>r. ro_name r = k) (map (\<lambda>(n, ps). fold with_permission ps (role_new n)) ds)) =
   map_option set (map_of ds k)"
  by (induction ds) (auto simp: role_of_definition role_new_def)

text \<open>
  The checker grants a permission exactly when the last definition of the role lists it or the
  wildcard: earlier definitions of the same name, the two defaults included, count for nothing.
\<close>

theorem last_definition_counts:
  "has_permission (create_permission_checker c) role p \<longleftrightarrow>
     (\<exists>ps. map_of (rev (rc_roles c)) role = Some ps \<and> (''*'' \<in> set ps \<or> p \<in> set ps))"
proof -
  let ?f = "find (\<lambda>r. ro_name r = role) (map (\<lambda>(n, ps). fold with_permission ps (role_new n)) (rev (rc_roles c)))"
  have k: "map_of (create_permission_checker c) role = ?f"
    by (simp add: create_permission_checker_def checker_lookup create_roles_def rev_map)
  note d = find_definition [of role "rev (rc_roles c)"]
  show ?thesis
  proof (cases ?f)
    case None
    with d k show ?thesis by (simp add: has_permission_def)
  next
    case (Some r)
    with d obtain ps where "map_of (rev (rc_roles c)) role = Some ps" "ro_permissions r = set ps"
      by (cases "map_of (rev (rc_roles c)) role") auto
    with k Some show ?thesis by (simp add: has_permission_def role_has_permission_def)
  qed
qed

lemma constant_time_eq_refl: "HttpServer.constant_time_eq xs xs"
proof -
  have "fold (\<lambda>(a, b) acc. acc OR (a XOR b)) (zip xs xs) (0 :: u8) = 0" by (induction xs) simp_all
  then show ?thesis by (simp add: HttpServer.constant_time_eq_def)
qed

text \<open>
  The password provider gives whoever knows the password the role that the request names, and the
  public role to a request without a password.
\<close>

theorem caller_chooses_role:
  "(\<exists>a. password_authenticate hmac P (Some (pp_password P)) (Some role) = Inr a \<and>
     ra_authenticated a \<and> ra_roles a = [role]) \<and>
   password_authenticate hmac P None asked = Inr unauthenticated"
  by (simp add: password_authenticate_def hmac_eq_def constant_time_eq_refl)

section \<open>Login and logout\<close>

lemma find_user_found:
  "find_user H lr us = Some u \<Longrightarrow>
   u \<in> set us \<and> rb_active u \<and> rb_username u = lg_username lr \<and> user_verify_password H u (lg_password lr)"
  by (auto simp: find_user_def dest: find_Some_in split: option.splits if_splits)

lemma second_factor_passed:
  "second_factor T now (Some L) u code = Inr None \<Longrightarrow> mfa_get u L = Some d \<Longrightarrow> mt_enabled (ud_status d) \<Longrightarrow>
   \<exists>c. code = Some c \<and> totp_validate T now (ud_secret d) c = Inr True"
  by (cases code)
    (auto simp: second_factor_def and_then_def split: sum.splits if_splits)

lemma second_factor_answer: "second_factor T now mfa u code = Inr (Some r) \<Longrightarrow> hs_status r = 401"
  by (auto simp: second_factor_def and_then_def json_response_def split: option.splits sum.splits if_splits)

lemma login_session_view:
  "session_view (login_session E now sid expires u) =
   (sid, [(''user_id'', le_value E (rb_username u)), (''username'', le_value E (rb_username u)),
          (''role'', le_value E (rb_role u))], expires)"
  by (simp add: login_session_def session_view_def session_set_def session_new_def)

lemma fresh_session_view:
  assumes "map_of (ps_state p) (ss_id s) = None"
  shows "map_option session_view (ps_get now (ss_id s) (ps_set crc K t s p)) = Some (session_view s)"
  using assms by (simp add: ps_get_def ps_set_state session_view_def session_of_data_def session_new_def data_of_session_def)

text \<open>
  C39. A login that is answered with 200 named an active user by name and password, with a valid code if
  the second factor is enabled for it, and opened a session with its name and role that the
  authentication guard accepts; every other login leaves the sessions as they were.
\<close>

theorem login_opens_session:
  assumes "map_of (ps_state p) sid = None"
    and "handle_rbac_login crc K H T E users dur mfa sid t0 t1 t2 t3 body p = Some (Inr resp, p')"
  shows "if hs_status resp = 200
    then (\<exists>lr u expires. le_login E body = Some lr \<and> u \<in> set users \<and> rb_active u \<and>
        rb_username u = lg_username lr \<and> user_verify_password H u (lg_password lr) \<and>
        (\<forall>L d. mfa = Some L \<and> mfa_get (lg_username lr) L = Some d \<and> mt_enabled (ud_status d) \<longrightarrow>
          (\<exists>c. lg_totp_code lr = Some c \<and> totp_validate T t0 (ud_secret d) c = Inr True)) \<and>
        le_plus_seconds E t1 (sint dur) = Some expires \<and>
        map_option session_view (ps_get now sid p') =
          Some (sid, [(''user_id'', le_value E (rb_username u)), (''username'', le_value E (rb_username u)),
            (''role'', le_value E (rb_role u))], expires) \<and>
        (guard_token r = Some sid \<longrightarrow> check_auth now r (Persistent p') redirect_to ex = Inr Allow) \<and>
        (\<forall>i. i \<noteq> sid \<longrightarrow> ps_get now i p' = ps_get now i p))
    else p' = p"
proof -
  note h = assms(2) [unfolded handle_rbac_login_def]
  show ?thesis
  proof (cases "le_login E body")
    case None
    with h show ?thesis by (auto simp: json_response_def)
  next
    case lr: (Some lr)
    show ?thesis
    proof (cases "find_user H lr users")
      case None
      with h lr show ?thesis by (auto simp: json_response_def)
    next
      case u: (Some u)
      note f = find_user_found [OF u]
      show ?thesis
      proof (cases "second_factor T t0 mfa (rb_username u) (lg_totp_code lr)")
        case (Inl e)
        with h lr u show ?thesis by simp
      next
        case s: (Inr a)
        show ?thesis
        proof (cases a)
          case (Some x)
          with h lr u s second_factor_answer [of T t0 mfa "rb_username u" "lg_totp_code lr" x] show ?thesis by auto
        next
          case None
          with s have ok: "second_factor T t0 mfa (rb_username u) (lg_totp_code lr) = Inr None" by simp
          from h lr u s None obtain e where e: "le_plus_seconds E t1 (sint dur) = Some e"
            "resp = json_response 200 (login_body E dur (rb_role u) sid)"
            "p' = ps_set crc K t3 (login_session E t2 sid e u) p"
            by (cases "le_plus_seconds E t1 (sint dur)") auto
          let ?s = "login_session E t2 sid e u"
          have id: "ss_id ?s = sid" using login_session_view [of E t2 sid e u] by (simp add: session_view_def)
          have v: "map_option session_view (ps_get now sid p') =
              Some (sid, [(''user_id'', le_value E (rb_username u)), (''username'', le_value E (rb_username u)),
                (''role'', le_value E (rb_role u))], e)"
            using fresh_session_view [of p ?s now crc K t3] assms(1) by (simp add: id e(3) login_session_view)
          then have "ps_get now sid p' \<noteq> None" by auto
          then have g: "guard_token r = Some sid \<longrightarrow> check_auth now r (Persistent p') redirect_to ex = Inr Allow"
            by (simp add: check_auth_def)
          have o: "\<forall>i. i \<noteq> sid \<longrightarrow> ps_get now i p' = ps_get now i p"
            by (simp add: ps_get_def e(3) ps_set_state id)
          have c: "\<forall>L d. mfa = Some L \<and> mfa_get (lg_username lr) L = Some d \<and> mt_enabled (ud_status d) \<longrightarrow>
              (\<exists>c. lg_totp_code lr = Some c \<and> totp_validate T t0 (ud_secret d) c = Inr True)"
            using ok f second_factor_passed by metis
          have "hs_status resp = 200" by (simp add: e(2) json_response_def)
          with lr f c e(1) v g o show ?thesis by auto
        qed
      qed
    qed
  qed
qed

text \<open>
  A logout succeeds exactly with a bearer token of a stored session; from then on the guard rejects
  the token until the next restart, and no other session is touched. A session that is known by its cookie only
  cannot be closed.
\<close>

theorem logout_closes_session:
  assumes "handle_rbac_logout crc K now r p = (resp, p')"
  shows "if \<exists>t. bearer r = Some t \<and> ps_get now t p \<noteq> None
    then hs_status resp = 200 \<and> (\<forall>t. bearer r = Some t \<longrightarrow>
        (guard_token r' = Some t \<longrightarrow> check_auth now' r' (Persistent p') None [] \<noteq> Inr Allow) \<and>
        (\<forall>i. i \<noteq> t \<longrightarrow> ps_get now' i p' = ps_get now' i p))
    else hs_status resp = 401 \<and> p' = p"
proof (cases "bearer r")
  case None
  with assms show ?thesis by (auto simp: handle_rbac_logout_def json_response_def)
next
  case (Some t)
  show ?thesis
  proof (cases "ps_get now t p")
    case None
    with assms Some show ?thesis by (auto simp: handle_rbac_logout_def json_response_def)
  next
    case s: (Some s)
    with assms Some have e: "resp = json_response 200 message_body" "p' = ps_delete crc K t p"
      by (simp_all add: handle_rbac_logout_def)
    have "ps_get now' i p' = (if i = t then None else ps_get now' i p)" for i
      by (simp add: ps_get_def e(2) ps_delete_state)
    then show ?thesis using Some s by (simp add: e(1) json_response_def check_auth_def)
  qed
qed


section \<open>How far the second factor goes\<close>

lemma login_succeeds:
  assumes "le_login E body = Some lr" and "find_user H lr users = Some u"
    and "second_factor T t0 mfa (rb_username u) (lg_totp_code lr) = Inr None"
    and "le_plus_seconds E t1 (sint dur) = Some expires"
  shows "handle_rbac_login crc K H T E users dur mfa sid t0 t1 t2 t3 body p =
    Some (Inr (json_response 200 (login_body E dur (rb_role u) sid)),
      ps_set crc K t3 (login_session E t2 sid expires u) p)"
  using assms by (simp add: handle_rbac_login_def)

lemma setup_replaces_secret:
  assumes "handle_mfa_setup T K B cfg rnd now body L = (Inr resp, L')" and "mb_setup B body = Inr u"
  obtains s d where
    "generate_with_account T rnd (mc_algorithm cfg) (mc_digits cfg) (mc_step cfg) (mc_issuer cfg) u = Inr s"
    "mfa_get u L' = Some d" "ud_secret d = s" "mfa_is_enabled u L' = mfa_is_enabled u L"
proof -
  obtain s qr uri where s: "generate_with_account T rnd (mc_algorithm cfg) (mc_digits cfg) (mc_step cfg) (mc_issuer cfg) u = Inr s"
    "L' = append_mfa K (MfaSetupInitiated u s now) L"
    using assms by (auto simp: handle_mfa_setup_def and_then_def map_err_def storage_defs split: sum.splits)
  let ?x = "case map_of (ml_state L) u of Some x \<Rightarrow> x | None \<Rightarrow> fresh_user"
  let ?d = "\<lparr>ud_secret = s, ud_status = um_status ?x, ud_backup_codes = um_backup_codes ?x\<rparr>"
  show thesis
    by (rule that [of s ?d])
      (simp_all add: s mfa_get_def mfa_user_state_def append_mfa_def entry_update_def dict_simps
        mfa_is_enabled_def fresh_user_def mfa_status_default_def split: option.split)
qed

text \<open>
  C38. The second factor protects nothing against someone who knows the password: the setup asks for no
  credentials, replaces the secret of a user that stays enabled and returns the new one, and a code for it opens
  a session.
\<close>

theorem second_factor_taken_over:
  assumes "mb_setup B setup = Inr (lg_username lr)"
    and "handle_mfa_setup T M B cfg rnd now setup L = (Inr resp, L')"
    and "le_login E body = Some lr" and "find_user H lr users = Some u" and "lg_totp_code lr = Some code"
    and "\<And>s. generate_with_account T rnd (mc_algorithm cfg) (mc_digits cfg) (mc_step cfg) (mc_issuer cfg)
      (lg_username lr) = Inr s \<Longrightarrow> totp_validate T t0 s code = Inr True"
    and "le_plus_seconds E t1 (sint dur) = Some expires"
  shows "mfa_is_enabled (lg_username lr) L' = mfa_is_enabled (lg_username lr) L \<and>
    (\<exists>p'. handle_rbac_login crc K H T E users dur (Some L') sid t0 t1 t2 t3 body p =
      Some (Inr (json_response 200 (login_body E dur (rb_role u) sid)), p'))"
proof -
  obtain s d where s: "generate_with_account T rnd (mc_algorithm cfg) (mc_digits cfg) (mc_step cfg) (mc_issuer cfg)
      (lg_username lr) = Inr s" "mfa_get (lg_username lr) L' = Some d" "ud_secret d = s"
    "mfa_is_enabled (lg_username lr) L' = mfa_is_enabled (lg_username lr) L"
    by (rule setup_replaces_secret [OF assms(2,1)])
  have n: "rb_username u = lg_username lr" using find_user_found [OF assms(4)] by simp
  have "second_factor T t0 (Some L') (rb_username u) (lg_totp_code lr) = Inr None"
    using s(2,3) assms(5) assms(6) [OF s(1)] by (simp add: second_factor_def n)
  from login_succeeds [OF assms(3,4) this assms(7)] s(4) show ?thesis by blast
qed

text \<open>
  In the order of the examples, accounts first and the second factor after them, the login holds no
  storage: it never asks for a code. In the opposite order it holds the storage.
\<close>

theorem second_factor_needs_order:
  assumes "bd_routes b = []" and "bd_mfa_storage b = None"
  shows "custom_handler (with_mfa_totp cfg (with_rbac_config c b)) ''POST'' ''/auth/login'' =
      Some (LoginHandler (rc_users c) (rc_session_duration c) None) \<and>
    custom_handler (with_rbac_config c (with_mfa_totp cfg b)) ''POST'' ''/auth/login'' =
      Some (LoginHandler (rc_users c) (rc_session_duration c) (Some (mc_storage_path cfg))) \<and>
    second_factor T now None u code = Inr None"
proof -
  have p: "path_matches ''/auth/login'' ''/auth/login''" "\<not> path_matches ''/auth/mfa/setup'' ''/auth/login''"
    "\<not> path_matches ''/auth/mfa/enable'' ''/auth/login''" "\<not> path_matches ''/auth/mfa/disable'' ''/auth/login''"
    "\<not> path_matches ''/auth/mfa/verify'' ''/auth/login''" by code_simp+
  show ?thesis
    using assms by (simp add: custom_handler_def with_mfa_totp_def with_rbac_config_def with_route_def Let_def
        second_factor_def p)
qed

text \<open>
  The endpoint that validates a session cuts the token of the cookie at an equals sign, the guard does
  not.
\<close>

theorem validation_cuts_tokens:
  assumes "cr_authorization (hr_credentials r) = None"
    and "cr_cookie (hr_credentials r) = Some (''session_token='' @ t)"
    and "CHR '';'' \<notin> set t" and "t \<noteq> []" and "\<not> is_space (last t)"
  shows "guard_token r = Some t \<and> validate_token_of r = Some (takeWhile (\<lambda>c. c \<noteq> CHR ''='') t)"
proof -
  let ?c = "''session_token='' @ t"
  have s: "split_on (CHR '';'') ?c = [?c]" using assms(3) by (intro split_on_no) simp
  have sp: "\<not> is_space (CHR ''s'')" by (simp add: is_space_def)
  have "dropWhile is_space ?c = ?c" using sp by simp
  moreover have "dropWhile is_space (rev ?c) = rev ?c"
    using assms(4,5) by (cases t rule: rev_cases) simp_all
  ultimately have tr: "trim ?c = ?c" unfolding trim_def by (simp only: rev_rev_ident)
  have hd1: "split_on (CHR ''='') t = takeWhile (\<lambda>c. c \<noteq> CHR ''='') t # tl (split_on (CHR ''='') t)" for t
    by (induction t) (auto split: list.splits)
  have eq: "split_on (CHR ''='') ?c = ''session_token'' # split_on (CHR ''='') t"
    using split_on_frame [of "CHR ''=''" "''session_token''" t] by simp
  have v: "1 < length (split_on (CHR ''='') ?c) \<and> split_on (CHR ''='') ?c ! 1 = takeWhile (\<lambda>c. c \<noteq> CHR ''='') t"
    unfolding eq by (subst (1 2) hd1) simp
  show ?thesis
    using assms(1,2) s tr v
    by (simp add: guard_token_def validate_token_of_def bearer_def Firewall.starts_with_def strip_prefix_def Let_def)
qed


section \<open>A concrete login\<close>

definition demo_passwords :: password_lib where
  "demo_passwords = \<lparr>pl_hash = Some, pl_verify = \<lambda>pw h. Some (pw = h)\<rparr>"

definition bob :: rbac_user where
  "bob = rbac_user_hashed ''bob'' ''secret'' ''User''"

definition demo_login :: "nat login_env" where
  "demo_login = \<lparr>le_login = \<lambda>s. Some \<lparr>lg_username = ''bob'', lg_password = s, lg_totp_code = Some ''A''\<rparr>,
     le_quote = (\<lambda>s. s), le_value = length, le_plus_seconds = \<lambda>t d. Some (t + d)\<rparr>"

definition bearer_request :: "string \<Rightarrow> request" where
  "bearer_request t =
     \<lparr>hr_method = ''POST'', hr_path = ''/auth/logout'', hr_path_and_query = ''/auth/logout'', hr_raft_token = None,
      hr_credentials = \<lparr>cr_cookie = None, cr_authorization = Some (''Bearer '' @ t)\<rparr>, hr_content_length = None\<rparr>"

lemma demo_find: "find_user demo_passwords \<lparr>lg_username = ''bob'', lg_password = ''secret'', lg_totp_code = c\<rparr> [bob] = Some bob"
  by (simp add: find_user_def user_verify_password_def demo_passwords_def bob_def rbac_user_hashed_def)

lemma empty_state: "ps_state empty_store = []"
  by (simp add: empty_store_def)

lemma bearer_request_token: "guard_token (bearer_request t) = Some t" "bearer (bearer_request t) = Some t"
  by (simp_all add: bearer_request_def guard_token_def bearer_def strip_prefix_def)

lemma demo_login_ok:
  "handle_rbac_login demo_crc demo_sessions demo_passwords demo_totp demo_login [bob] 60 None ''s'' 0 0 0 0 ''secret''
     empty_store =
   Some (Inr (json_response 200 (login_body demo_login 60 ''User'' ''s'')),
     ps_set demo_crc demo_sessions 0 (login_session demo_login 0 ''s'' 60 bob) empty_store)"
proof -
  let ?lr = "\<lparr>lg_username = ''bob'', lg_password = ''secret'', lg_totp_code = Some ''A''\<rparr>"
  have "le_login demo_login ''secret'' = Some ?lr" "le_plus_seconds demo_login 0 (sint (60 :: u64)) = Some 60"
    "rb_role bob = ''User''"
    by (simp_all add: demo_login_def bob_def rbac_user_hashed_def)
  with login_succeeds [of demo_login "''secret''" ?lr demo_passwords "[bob]" bob demo_totp 0 None 0 60 60 demo_crc
      demo_sessions "''s''" 0 0 empty_store] demo_find [of "Some ''A''"]
  show ?thesis by (simp add: second_factor_def)
qed

lemma login_opens_session_witness:
  "check_auth 1 (bearer_request ''s'')
     (Persistent (ps_set demo_crc demo_sessions 0 (login_session demo_login 0 ''s'' 60 bob) empty_store)) None [] = Inr Allow"
  using login_opens_session [OF _ demo_login_ok, of 1 "bearer_request ''s''" None "[]"]
  by (auto simp: empty_state json_response_def bearer_request_token)

lemma logout_closes_session_witness:
  "(\<exists>resp p'. handle_rbac_logout demo_crc demo_sessions 1 (bearer_request ''s'')
      (ps_set demo_crc demo_sessions 0 (login_session demo_login 0 ''s'' 60 bob) empty_store) = (resp, p') \<and>
     hs_status resp = 200 \<and> check_auth 1 (bearer_request ''s'') (Persistent p') None [] \<noteq> Inr Allow) \<and>
   fst (handle_rbac_logout demo_crc demo_sessions 1 (bearer_request ''x'') empty_store) = json_response 401 (error_body ''Invalid session'')"
proof -
  let ?p = "ps_set demo_crc demo_sessions 0 (login_session demo_login 0 ''s'' 60 bob) empty_store"
  obtain resp p' where e: "handle_rbac_logout demo_crc demo_sessions 1 (bearer_request ''s'') ?p = (resp, p')"
    by (cases "handle_rbac_logout demo_crc demo_sessions 1 (bearer_request ''s'') ?p")
  have id: "ss_id (login_session demo_login 0 ''s'' 60 bob) = ''s''"
    using login_session_view [of demo_login 0 "''s''" 60 bob] by (simp add: session_view_def)
  have "ps_get 1 ''s'' ?p \<noteq> None" by (simp add: ps_get_def ps_set_state id)
  then have "\<exists>resp p'. handle_rbac_logout demo_crc demo_sessions 1 (bearer_request ''s'') ?p = (resp, p') \<and>
      hs_status resp = 200 \<and> check_auth 1 (bearer_request ''s'') (Persistent p') None [] \<noteq> Inr Allow"
    using logout_closes_session [OF e, where r' = "bearer_request ''s''" and now' = 1] e
    by (auto simp: bearer_request_token)
  moreover have "fst (handle_rbac_logout demo_crc demo_sessions 1 (bearer_request ''x'') empty_store) =
      json_response 401 (error_body ''Invalid session'')"
    by (simp add: handle_rbac_logout_def bearer_request_token ps_get_def empty_state)
  ultimately show ?thesis by blast
qed

text \<open>The user has the factor enabled with the secret \<open>Z\<close>; someone else logs in with the code \<open>A\<close>.\<close>

definition guarded_log :: "bytes mfa_log" where
  "guarded_log = mfa_run demo_totp demo_mfa demo_bodies mfa_config_default
     [SetupMfa [90] 1 ''bob'', EnableMfa 2 3 4 ''Z''] (mfa_log_new demo_mfa None)"

lemma second_factor_taken_over_witness:
  "\<exists>resp L' p'. handle_mfa_setup demo_totp demo_mfa demo_bodies mfa_config_default [65] 5 ''bob'' guarded_log = (Inr resp, L') \<and>
     handle_rbac_login demo_crc demo_sessions demo_passwords demo_totp demo_login [bob] 60 (Some L') ''s'' 0 0 0 0 ''secret''
       empty_store = Some (Inr (json_response 200 (login_body demo_login 60 ''User'' ''s'')), p')"
proof -
  let ?lr = "\<lparr>lg_username = ''bob'', lg_password = ''secret'', lg_totp_code = Some ''A''\<rparr>"
  have c: "char_of (65 :: nat) = CHR ''A''" by code_simp
  obtain resp L' where s: "handle_mfa_setup demo_totp demo_mfa demo_bodies mfa_config_default [65] 5 ''bob'' guarded_log = (Inr resp, L')"
    by (simp add: handle_mfa_setup_def demo_bodies_def generate_with_account_def demo_totp_def get_qr_code_def to_uri_def
        get_totp_def)
  have v: "totp_validate demo_totp 0 x ''A'' = Inr True"
    if "generate_with_account demo_totp [65] (mc_algorithm mfa_config_default) (mc_digits mfa_config_default)
      (mc_step mfa_config_default) (mc_issuer mfa_config_default) (lg_username ?lr) = Inr x" for x
    using that by (auto simp: generate_with_account_def demo_totp_def totp_validate_def get_totp_def c)
  have l: "le_login demo_login ''secret'' = Some ?lr" "le_plus_seconds demo_login 0 (sint (60 :: u64)) = Some 60"
    "mb_setup demo_bodies ''bob'' = Inr (lg_username ?lr)" "lg_totp_code ?lr = Some ''A''" "rb_role bob = ''User''"
    by (simp_all add: demo_login_def demo_bodies_def bob_def rbac_user_hashed_def)
  from second_factor_taken_over [OF l(3) s l(1) demo_find l(4) v l(2), of demo_crc demo_sessions "''s''" 0 0 empty_store]
  show ?thesis using s l(5) by auto
qed

lemma second_factor_needs_order_witness:
  "custom_handler (with_mfa_totp mfa_config_default (with_rbac_config (with_user bob rbac_config_default)
     \<lparr>bd_routes = [], bd_session_path = None, bd_permission_checker = None, bd_mfa_storage = None\<rparr>)) ''POST'' ''/auth/login'' =
   Some (LoginHandler [bob] 28800 None)"
  using second_factor_needs_order [of "\<lparr>bd_routes = [], bd_session_path = None, bd_permission_checker = None,
      bd_mfa_storage = None\<rparr>" mfa_config_default "with_user bob rbac_config_default" demo_totp 0 "''bob''" None]
  by (simp add: with_user_def rbac_config_default_def)

lemma validation_cuts_tokens_witness:
  "validate_token_of \<lparr>hr_method = ''GET'', hr_path = ''/auth/validate'', hr_path_and_query = ''/auth/validate'',
     hr_raft_token = None, hr_credentials = \<lparr>cr_cookie = Some ''session_token=a=b'', cr_authorization = None\<rparr>,
     hr_content_length = None\<rparr> = Some ''a''"
  using validation_cuts_tokens [of "\<lparr>hr_method = ''GET'', hr_path = ''/auth/validate'', hr_path_and_query = ''/auth/validate'',
     hr_raft_token = None, hr_credentials = \<lparr>cr_cookie = Some ''session_token=a=b'', cr_authorization = None\<rparr>,
     hr_content_length = None\<rparr>" "''a=b''"]
  by (simp add: is_space_def)

end
