(* ===== verification/HttpQuery.thy ===== *)
theory HttpQuery
  imports Sessions
begin

text \<open>
  Query strings of collections, from \<^verbatim>\<open>lithair-core/src/http/query.rs\<close>: parsing, filters and
  the order of values. Numbers of \<^verbatim>\<open>serde_json\<close>, floating point, the Unicode case mapping and what
  the sort of the standard library does with a comparison that is no order are the record \<open>number_lib\<close>.
\<close>

section \<open>Values\<close>

datatype 'n jvalue =
    JNull
  | JBool bool
  | JNumber 'n
  | JText string
  | JArray "'n jvalue list"
  | JObject "(string \<times> 'n jvalue) list"

datatype ordering = Less | Equal | Greater

fun reverse_ordering :: "ordering \<Rightarrow> ordering" where
  "reverse_ordering Less = Greater"
| "reverse_ordering Equal = Equal"
| "reverse_ordering Greater = Less"

record ('n, 'f) number_lib =
  nl_as_f64 :: "'n \<Rightarrow> 'f option"
  nl_parse :: "string \<Rightarrow> 'f option"
  nl_partial_cmp :: "'f \<Rightarrow> 'f \<Rightarrow> ordering option"
  nl_close :: "'f \<Rightarrow> 'f \<Rightarrow> bool"
  nl_zero :: 'f
  nl_show :: "'n \<Rightarrow> string"
  nl_lower :: "string \<Rightarrow> string"
  nl_value_text :: "'n jvalue \<Rightarrow> string"
  nl_unordered_sort :: "('n jvalue \<Rightarrow> 'n jvalue \<Rightarrow> ordering) \<Rightarrow> 'n jvalue list \<Rightarrow> 'n jvalue list option"

definition value_get :: "string \<Rightarrow> 'n jvalue \<Rightarrow> 'n jvalue option" where
  "value_get k v = (case v of JObject m \<Rightarrow> map_of m k | _ \<Rightarrow> None)"

fun text_cmp :: "string \<Rightarrow> string \<Rightarrow> ordering" where
  "text_cmp [] [] = Equal"
| "text_cmp [] (b # bs) = Less"
| "text_cmp (a # as) [] = Greater"
| "text_cmp (a # as) (b # bs) =
     (if (of_char a :: nat) < of_char b then Less
      else if (of_char b :: nat) < of_char a then Greater else text_cmp as bs)"

fun bool_cmp :: "bool \<Rightarrow> bool \<Rightarrow> ordering" where
  "bool_cmp False True = Less"
| "bool_cmp True False = Greater"
| "bool_cmp a b = Equal"

section \<open>Parameters of a query\<close>

datatype filter_op = FilterEq | FilterNe | FilterGt | FilterLt | FilterGte | FilterLte | FilterContains

record sort_spec =
  so_field :: string
  so_descending :: bool

record filter_spec =
  fi_field :: string
  fi_op :: filter_op
  fi_value :: string

record query_params =
  qp_skip :: u64
  qp_take :: "u64 option"
  qp_sort :: "sort_spec option"
  qp_filters :: "filter_spec list"

definition default_max_take :: u64 where
  "default_max_take = 1000"

definition reserved_params :: "string list" where
  "reserved_params = [''skip'', ''take'', ''sort'']"

fun split_once :: "char \<Rightarrow> string \<Rightarrow> (string \<times> string) option" where
  "split_once c [] = None"
| "split_once c (x # xs) =
     (if x = c then Some ([], xs) else map_option (\<lambda>(k, v). (x # k, v)) (split_once c xs))"

definition parse_u64 :: "string \<Rightarrow> u64 option" where
  "parse_u64 s = map_option of_nat (parse_unsigned (2 ^ 64 - 1) s)"

definition parse_filter_value :: "string \<Rightarrow> filter_op \<times> string" where
  "parse_filter_value v =
     (case strip_prefix ''>='' v of Some w \<Rightarrow> (FilterGte, w) | None \<Rightarrow>
      (case strip_prefix ''<='' v of Some w \<Rightarrow> (FilterLte, w) | None \<Rightarrow>
       (case strip_prefix ''>'' v of Some w \<Rightarrow> (FilterGt, w) | None \<Rightarrow>
        (case strip_prefix ''<'' v of Some w \<Rightarrow> (FilterLt, w) | None \<Rightarrow>
         (case strip_prefix ''~'' v of Some w \<Rightarrow> (FilterContains, w) | None \<Rightarrow>
          (case strip_prefix ''!'' v of Some w \<Rightarrow> (FilterNe, w) | None \<Rightarrow> (FilterEq, v)))))))"

definition parse_sort :: "string \<Rightarrow> sort_spec" where
  "parse_sort v =
     (case strip_prefix ''-'' v of
        Some f \<Rightarrow> \<lparr>so_field = f, so_descending = True\<rparr>
      | None \<Rightarrow> \<lparr>so_field = v, so_descending = False\<rparr>)"

definition parse_pair :: "string \<Rightarrow> query_params \<Rightarrow> query_params" where
  "parse_pair pair q =
     (case split_once (CHR ''='') pair of
        None \<Rightarrow> q
      | Some (k, v) \<Rightarrow>
          (if k = ''skip'' then q\<lparr>qp_skip := (case parse_u64 v of Some n \<Rightarrow> n | None \<Rightarrow> 0)\<rparr>
           else if k = ''take'' then q\<lparr>qp_take := parse_u64 v\<rparr>
           else if k = ''sort'' then q\<lparr>qp_sort := Some (parse_sort v)\<rparr>
           else if k \<notin> set reserved_params then
             (case parse_filter_value v of
                (op, w) \<Rightarrow> q\<lparr>qp_filters := qp_filters q @ [\<lparr>fi_field = k, fi_op = op, fi_value = w\<rparr>]\<rparr>)
           else q))"

definition empty_params :: query_params where
  "empty_params = \<lparr>qp_skip = 0, qp_take = None, qp_sort = None, qp_filters = []\<rparr>"

definition parse_query_params :: "string \<Rightarrow> query_params" where
  "parse_query_params q =
     (if q = [] then empty_params else fold parse_pair (split_on (CHR ''&'') q) empty_params)"

section \<open>Filters\<close>

definition contains_text :: "string \<Rightarrow> string \<Rightarrow> bool" where
  "contains_text needle s \<longleftrightarrow> (\<exists>i \<in> set [0..<length s + 1]. take (length needle) (drop i s) = needle)"

definition value_equals :: "('n, 'f) number_lib \<Rightarrow> 'n jvalue \<Rightarrow> string \<Rightarrow> bool" where
  "value_equals N v t =
     (case v of
        JText s \<Rightarrow> s = t
      | JNumber n \<Rightarrow>
          (case (nl_as_f64 N n, nl_parse N t) of
             (Some a, Some b) \<Rightarrow> nl_close N a b
           | _ \<Rightarrow> nl_show N n = t)
      | JBool b \<Rightarrow> (t = ''true'' \<and> b) \<or> (t = ''false'' \<and> \<not> b)
      | JNull \<Rightarrow> t = ''null'' \<or> t = []
      | _ \<Rightarrow> False)"

definition value_compare :: "('n, 'f) number_lib \<Rightarrow> 'n jvalue \<Rightarrow> string \<Rightarrow> ordering option" where
  "value_compare N v t =
     (case v of
        JNumber n \<Rightarrow>
          (case nl_parse N t of
             None \<Rightarrow> None
           | Some b \<Rightarrow> (case nl_as_f64 N n of None \<Rightarrow> None | Some a \<Rightarrow> nl_partial_cmp N a b))
      | JText s \<Rightarrow> Some (text_cmp s t)
      | JBool b \<Rightarrow>
          (if t = ''true'' then Some (bool_cmp b True)
           else if t = ''false'' then Some (bool_cmp b False) else None)
      | _ \<Rightarrow> None)"

definition value_contains :: "('n, 'f) number_lib \<Rightarrow> 'n jvalue \<Rightarrow> string \<Rightarrow> bool" where
  "value_contains N v needle =
     (let low = nl_lower N needle
      in case v of
           JText s \<Rightarrow> contains_text low (nl_lower N s)
         | JNumber n \<Rightarrow> contains_text needle (nl_show N n)
         | _ \<Rightarrow> contains_text low (nl_lower N (nl_value_text N v)))"

definition matches_filter :: "('n, 'f) number_lib \<Rightarrow> 'n jvalue \<Rightarrow> filter_spec \<Rightarrow> bool" where
  "matches_filter N item f =
     (case value_get (fi_field f) item of
        None \<Rightarrow> False
      | Some v \<Rightarrow>
          (case fi_op f of
             FilterEq \<Rightarrow> value_equals N v (fi_value f)
           | FilterNe \<Rightarrow> \<not> value_equals N v (fi_value f)
           | FilterGt \<Rightarrow> value_compare N v (fi_value f) = Some Greater
           | FilterLt \<Rightarrow> value_compare N v (fi_value f) = Some Less
           | FilterGte \<Rightarrow> (case value_compare N v (fi_value f) of Some c \<Rightarrow> c \<noteq> Less | None \<Rightarrow> False)
           | FilterLte \<Rightarrow> (case value_compare N v (fi_value f) of Some c \<Rightarrow> c \<noteq> Greater | None \<Rightarrow> False)
           | FilterContains \<Rightarrow> value_contains N v (fi_value f)))"

section \<open>The order of values\<close>

fun compare_json_values :: "('n, 'f) number_lib \<Rightarrow> 'n jvalue \<Rightarrow> 'n jvalue \<Rightarrow> ordering" where
  "compare_json_values N (JNumber a) (JNumber b) =
     (case nl_partial_cmp N (case nl_as_f64 N a of Some x \<Rightarrow> x | None \<Rightarrow> nl_zero N)
             (case nl_as_f64 N b of Some x \<Rightarrow> x | None \<Rightarrow> nl_zero N) of
        Some c \<Rightarrow> c
      | None \<Rightarrow> Equal)"
| "compare_json_values N (JText a) (JText b) = text_cmp a b"
| "compare_json_values N (JBool a) (JBool b) = bool_cmp a b"
| "compare_json_values N JNull JNull = Equal"
| "compare_json_values N JNull b = Less"
| "compare_json_values N a JNull = Greater"
| "compare_json_values N a b = Equal"

text \<open>
  The comparison of a sorted list, and the stable sort by it: an element goes behind those that are
  not greater. Where the comparison is not an order of the elements the result is unspecified: the
  argument \<open>other\<close> gives some list, or \<open>None\<close> when the sort panics.
\<close>

definition sort_cmp :: "('n, 'f) number_lib \<Rightarrow> sort_spec \<Rightarrow> 'n jvalue \<Rightarrow> 'n jvalue \<Rightarrow> ordering" where
  "sort_cmp N s a b =
     (let va = (case value_get (so_field s) a of Some v \<Rightarrow> v | None \<Rightarrow> JNull);
          vb = (case value_get (so_field s) b of Some v \<Rightarrow> v | None \<Rightarrow> JNull);
          c = compare_json_values N va vb
      in if so_descending s then reverse_ordering c else c)"

fun insert_stable :: "('a \<Rightarrow> 'a \<Rightarrow> ordering) \<Rightarrow> 'a \<Rightarrow> 'a list \<Rightarrow> 'a list" where
  "insert_stable cmp x [] = [x]"
| "insert_stable cmp x (y # ys) =
     (if cmp y x = Greater then x # y # ys else y # insert_stable cmp x ys)"

definition sort_stable :: "('a \<Rightarrow> 'a \<Rightarrow> ordering) \<Rightarrow> 'a list \<Rightarrow> 'a list" where
  "sort_stable cmp xs = foldl (\<lambda>acc x. insert_stable cmp x acc) [] xs"

definition is_order :: "('a \<Rightarrow> 'a \<Rightarrow> ordering) \<Rightarrow> 'a list \<Rightarrow> bool" where
  "is_order cmp xs \<longleftrightarrow>
     (\<forall>a \<in> set xs. \<forall>b \<in> set xs. cmp b a = reverse_ordering (cmp a b) \<and>
        (\<forall>c \<in> set xs. cmp a b \<noteq> Greater \<longrightarrow> cmp b c \<noteq> Greater \<longrightarrow> cmp a c \<noteq> Greater))"

definition sort_by ::
  "(('a \<Rightarrow> 'a \<Rightarrow> ordering) \<Rightarrow> 'a list \<Rightarrow> 'a list option) \<Rightarrow> ('a \<Rightarrow> 'a \<Rightarrow> ordering) \<Rightarrow> 'a list \<Rightarrow> 'a list option"
where
  "sort_by other cmp xs = (if is_order cmp xs then Some (sort_stable cmp xs) else other cmp xs)"

section \<open>Collections\<close>

record 'n page =
  pg_data :: "'n jvalue list"
  pg_total :: u64
  pg_skip :: u64
  pg_take :: nat
  pg_has_more :: bool

text \<open>The steps of the list handler on the values of the readable items; \<open>None\<close> when the sort panics.\<close>

definition sorted_values :: "('n, 'f) number_lib \<Rightarrow> query_params \<Rightarrow> 'n jvalue list \<Rightarrow> 'n jvalue list option" where
  "sorted_values N q found =
     (case qp_sort q of Some s \<Rightarrow> sort_by (nl_unordered_sort N) (sort_cmp N s) found | None \<Rightarrow> Some found)"

definition list_page :: "('n, 'f) number_lib \<Rightarrow> query_params \<Rightarrow> 'n jvalue list \<Rightarrow> 'n page option" where
  "list_page N q items =
     (let found = (if qp_filters q \<noteq> [] then filter (\<lambda>v. list_all (matches_filter N v) (qp_filters q)) items else items)
      in case sorted_values N q found of
           None \<Rightarrow> None
         | Some sorted_items \<Rightarrow>
             (let skip = unat (qp_skip q);
                  rest = (if 0 < skip \<and> skip < length sorted_items then drop skip sorted_items
                          else if length sorted_items \<le> skip \<and> sorted_items \<noteq> [] then [] else sorted_items);
                  limit = unat (case qp_take q of Some t \<Rightarrow> t | None \<Rightarrow> default_max_take)
              in Some \<lparr>pg_data = take limit rest, pg_total = of_nat (length found), pg_skip = qp_skip q,
                       pg_take = limit, pg_has_more = (limit < length rest)\<rparr>))"

section \<open>Pages\<close>

lemma set_insert_stable [simp]: "set (insert_stable cmp x ys) = insert x (set ys)"
  by (induction ys) auto

lemma length_insert_stable [simp]: "length (insert_stable cmp x ys) = Suc (length ys)"
  by (induction ys) auto

lemma mset_insert_stable [simp]: "mset (insert_stable cmp x ys) = add_mset x (mset ys)"
  by (induction ys) auto

lemma sort_stable_snoc: "sort_stable cmp (xs @ [x]) = insert_stable cmp x (sort_stable cmp xs)"
  by (simp add: sort_stable_def)

lemma mset_sort_stable [simp]: "mset (sort_stable cmp xs) = mset xs"
  by (induction xs rule: rev_induct) (simp_all add: sort_stable_snoc, simp add: sort_stable_def)

lemma length_sort_stable [simp]: "length (sort_stable cmp xs) = length xs"
  by (rule mset_eq_length) simp

text \<open>The readable items that all filters accept, in the order of the query.\<close>

definition selection :: "('n, 'f) number_lib \<Rightarrow> query_params \<Rightarrow> 'n jvalue list \<Rightarrow> 'n jvalue list option" where
  "selection N q items =
     sorted_values N q (filter (\<lambda>v. list_all (matches_filter N v) (qp_filters q)) items)"

definition page_limit :: "query_params \<Rightarrow> nat" where
  "page_limit q = unat (case qp_take q of Some t \<Rightarrow> t | None \<Rightarrow> default_max_take)"

lemma list_page_slice:
  assumes "selection N q items = Some l"
  shows "\<exists>p. list_page N q items = Some p \<and> pg_data p = take (page_limit q) (drop (unat (qp_skip q)) l) \<and>
    pg_take p = page_limit q \<and> pg_has_more p = (page_limit q < length l - unat (qp_skip q))"
proof -
  have f: "(if qp_filters q \<noteq> [] then filter (\<lambda>v. list_all (matches_filter N v) (qp_filters q)) items else items) =
      filter (\<lambda>v. list_all (matches_filter N v) (qp_filters q)) items" by auto
  have d: "(if 0 < k \<and> k < length l then drop k l else if length l \<le> k \<and> l \<noteq> [] then [] else l) = drop k l"
    for k by (cases "l = []") auto
  show ?thesis
    using assms unfolding list_page_def Let_def f selection_def
    by (simp add: d page_limit_def)
qed

text \<open>
  A client that raises the skip by the limit as long as the answer says that there is more, against a
  collection that does not change meanwhile.
\<close>

fun crawl :: "('n, 'f) number_lib \<Rightarrow> query_params \<Rightarrow> 'n jvalue list \<Rightarrow> nat \<Rightarrow> ('n jvalue list \<times> bool) option" where
  "crawl N q items 0 = map_option (\<lambda>p. ([], pg_has_more p)) (list_page N q items)"
| "crawl N q items (Suc n) =
     (case list_page N q items of
        None \<Rightarrow> None
      | Some p \<Rightarrow>
          (if pg_has_more p
           then map_option (\<lambda>(l, again). (pg_data p @ l, again))
                  (crawl N (q\<lparr>qp_skip := qp_skip q + of_nat (pg_take p)\<rparr>) items n)
           else Some (pg_data p, False)))"

lemma next_page_same [simp]:
  "selection N (q\<lparr>qp_skip := k\<rparr>) items = selection N q items" "page_limit (q\<lparr>qp_skip := k\<rparr>) = page_limit q"
  by (simp_all add: selection_def sorted_values_def page_limit_def)

lemma crawl_rest:
  assumes "selection N q items = Some l" and "0 < page_limit q"
    and "length l < 2 ^ 63" and "page_limit q < 2 ^ 63"
    and "length l - unat (qp_skip q) \<le> n * page_limit q" and "unat (qp_skip q) < 2 ^ 63"
  shows "crawl N q items n = Some (drop (unat (qp_skip q)) l, False)"
  using assms
proof (induction n arbitrary: q)
  case 0
  from list_page_slice [OF 0(1)] obtain p where "list_page N q items = Some p" "\<not> pg_has_more p"
    using 0(5) by auto
  with 0(5) show ?case by simp
next
  case (Suc n)
  let ?k = "unat (qp_skip q)" and ?t = "page_limit q"
  from list_page_slice [OF Suc.prems(1)] obtain p where p: "list_page N q items = Some p"
    "pg_data p = take ?t (drop ?k l)" "pg_take p = ?t" "pg_has_more p = (?t < length l - ?k)" by blast
  show ?case
  proof (cases "?t < length l - ?k")
    case False
    then show ?thesis using p by simp
  next
    case True
    let ?q = "q\<lparr>qp_skip := qp_skip q + of_nat ?t\<rparr>"
    have t: "unat (of_nat ?t :: u64) = ?t" by (simp add: page_limit_def)
    have k: "unat (qp_skip q + of_nat ?t) = ?k + ?t"
    proof -
      have "?k + ?t < 2 ^ 64" using Suc.prems(4,6) by simp
      then show ?thesis by (simp add: unat_word_ariths t)
    qed
    have "?k + ?t < 2 ^ 63" using True Suc.prems(3) by linarith
    then have "crawl N ?q items n = Some (drop (?k + ?t) l, False)"
      using Suc.IH [of ?q] Suc.prems(1-5) by (simp add: k)
    moreover have "take ?t (drop ?k l) @ drop (?k + ?t) l = drop ?k l"
      using append_take_drop_id [of ?t "drop ?k l"] by (simp add: add.commute)
    ultimately show ?thesis using True p by simp
  qed
qed

lemma crawl_stuck:
  assumes "selection N q items = Some l" and "page_limit q = 0" and "unat (qp_skip q) < length l"
  shows "crawl N q items n = Some ([], True)"
  using assms
proof (induction n arbitrary: q)
  case 0
  from list_page_slice [OF 0(1)] 0 show ?case by auto
next
  case (Suc n)
  from list_page_slice [OF Suc.prems(1)] obtain p where p: "list_page N q items = Some p"
    "pg_data p = []" "pg_take p = 0" "pg_has_more p"
    using Suc.prems by auto
  with Suc.IH [of q] Suc.prems show ?case by simp
qed

text \<open>
  C37. On a collection that does not change meanwhile, asking from the start for one page after the
  other, with the same limit (a thousand when none is given) and the skip raised by it as long as the
  answer says that there is more, delivers the whole selection in order and then stops, unless the
  limit is zero: then nothing is delivered and the answer says for ever that there is more.
\<close>

theorem pages_complete:
  assumes "selection N q items = Some l" and "qp_skip q = 0"
    and "length l < 2 ^ 63" and "page_limit q < 2 ^ 63"
  shows "(0 < page_limit q \<longrightarrow> (\<exists>n. crawl N q items n = Some (l, False))) \<and>
    (page_limit q = 0 \<longrightarrow> l \<noteq> [] \<longrightarrow> (\<forall>n. crawl N q items n = Some ([], True)))"
proof (intro conjI impI allI)
  assume pos: "0 < page_limit q"
  then have "length l \<le> length l * page_limit q" by simp
  then have "length l - unat (qp_skip q) \<le> length l * page_limit q" using diff_le_self le_trans by blast
  from crawl_rest [OF assms(1) pos assms(3,4) this] assms(2)
  show "\<exists>n. crawl N q items n = Some (l, False)" by auto
next
  fix n
  assume "page_limit q = 0" "l \<noteq> []"
  with crawl_stuck [OF assms(1), of n] assms(2) show "crawl N q items n = Some ([], True)" by simp
qed

section \<open>Filters and their text\<close>

fun op_text :: "filter_op \<Rightarrow> string" where
  "op_text FilterEq = []"
| "op_text FilterNe = ''!''"
| "op_text FilterGt = ''>''"
| "op_text FilterLt = ''<''"
| "op_text FilterGte = ''>=''"
| "op_text FilterLte = ''<=''"
| "op_text FilterContains = ''~''"

definition ambiguous :: "filter_op \<Rightarrow> string \<Rightarrow> bool" where
  "ambiguous op v \<longleftrightarrow>
     (op \<in> {FilterGt, FilterLt} \<and> take 1 v = ''='') \<or>
     (op = FilterEq \<and> v \<noteq> [] \<and> hd v \<in> set ''<>~!'')"

text \<open>
  A filter is read back from its text exactly when the text is not ambiguous: a value that begins
  with an operator cannot be compared for equality, and one that begins with an equals sign not with
  greater or less.
\<close>

theorem filter_text_roundtrip:
  "parse_filter_value (op_text op @ v) = (op, v) \<longleftrightarrow> \<not> ambiguous op v"
proof (cases v)
  case Nil
  then show ?thesis by (cases op) (simp_all add: parse_filter_value_def strip_prefix_def ambiguous_def)
next
  case (Cons c w)
  then show ?thesis
    by (cases op; cases w) (auto simp: parse_filter_value_def strip_prefix_def ambiguous_def)
qed

section \<open>Sorting\<close>

lemma text_cmp_refl [simp]: "text_cmp a a = Equal"
  by (induction a) simp_all

lemma text_cmp_swap: "text_cmp b a = reverse_ordering (text_cmp a b)"
  by (induction a b rule: text_cmp.induct) auto

lemma text_cmp_trans: "text_cmp a b \<noteq> Greater \<Longrightarrow> text_cmp b c \<noteq> Greater \<Longrightarrow> text_cmp a c \<noteq> Greater"
proof (induction a b arbitrary: c rule: text_cmp.induct)
  case (2 b bs)
  then show ?case by (cases c) simp_all
next
  case (4 a as b bs)
  show ?case
  proof (cases c)
    case Nil
    with 4(3) show ?thesis by simp
  next
    case (Cons x xs)
    let ?n = "of_char :: char \<Rightarrow> nat"
    have ab: "?n a < ?n b \<or> (a = b \<and> text_cmp as bs \<noteq> Greater)"
      using 4(2) by (cases "?n a < ?n b"; cases "?n b < ?n a") auto
    have bx: "?n b < ?n x \<or> (b = x \<and> text_cmp bs xs \<noteq> Greater)"
      using 4(3) Cons by (cases "?n b < ?n x"; cases "?n x < ?n b") auto
    consider "?n a < ?n x" | "a = x" "text_cmp as bs \<noteq> Greater" "text_cmp bs xs \<noteq> Greater" "a = b"
      using ab bx by (elim disjE) auto
    then show ?thesis
    proof cases
      case 1
      then show ?thesis by (simp add: Cons)
    next
      case 2
      have "text_cmp as xs \<noteq> Greater" using 4(1) 2 by simp
      with 2(1) show ?thesis by (simp add: Cons)
    qed
  qed
qed simp_all

lemma insert_stable_sorted:
  assumes tr: "\<And>a b c. a \<in> S \<Longrightarrow> b \<in> S \<Longrightarrow> c \<in> S \<Longrightarrow>
      cmp a b \<noteq> Greater \<Longrightarrow> cmp b c \<noteq> Greater \<Longrightarrow> cmp a c \<noteq> Greater"
    and tot: "\<And>a b. a \<in> S \<Longrightarrow> b \<in> S \<Longrightarrow> cmp a b = Greater \<Longrightarrow> cmp b a \<noteq> Greater"
    and "x \<in> S" and "set ys \<subseteq> S" and "sorted_wrt (\<lambda>a b. cmp a b \<noteq> Greater) ys"
  shows "sorted_wrt (\<lambda>a b. cmp a b \<noteq> Greater) (insert_stable cmp x ys)"
  using assms(4,5)
proof (induction ys)
  case (Cons y ys)
  have S: "y \<in> S" "set ys \<subseteq> S" using Cons.prems(1) by simp_all
  show ?case
  proof (cases "cmp y x = Greater")
    case True
    have xy: "cmp x y \<noteq> Greater" by (rule tot [OF S(1) assms(3) True])
    have "cmp x z \<noteq> Greater" if "z \<in> set ys" for z
    proof -
      have "z \<in> S" "cmp y z \<noteq> Greater" using that S(2) Cons.prems(2) by auto
      from tr [OF assms(3) S(1) this(1) xy this(2)] show ?thesis .
    qed
    then show ?thesis using True xy Cons.prems(2) by simp
  next
    case False
    have "sorted_wrt (\<lambda>a b. cmp a b \<noteq> Greater) (insert_stable cmp x ys)"
      using Cons.IH [OF S(2)] Cons.prems(2) by simp
    with False Cons.prems(2) show ?thesis by simp
  qed
qed simp

lemma sort_stable_sorted:
  assumes "\<And>a b c. a \<in> S \<Longrightarrow> b \<in> S \<Longrightarrow> c \<in> S \<Longrightarrow>
      cmp a b \<noteq> Greater \<Longrightarrow> cmp b c \<noteq> Greater \<Longrightarrow> cmp a c \<noteq> Greater"
    and "\<And>a b. a \<in> S \<Longrightarrow> b \<in> S \<Longrightarrow> cmp a b = Greater \<Longrightarrow> cmp b a \<noteq> Greater"
    and "set xs \<subseteq> S"
  shows "sorted_wrt (\<lambda>a b. cmp a b \<noteq> Greater) (sort_stable cmp xs)"
  using assms(3)
proof (induction xs rule: rev_induct)
  case (snoc x xs)
  have "set (sort_stable cmp xs) = set xs" using mset_sort_stable by (rule mset_eq_setD)
  with snoc show ?case
    unfolding sort_stable_snoc by (intro insert_stable_sorted [of S cmp x, OF assms(1,2)]) simp_all
qed (simp add: sort_stable_def)

definition text_field :: "string \<Rightarrow> 'n jvalue \<Rightarrow> bool" where
  "text_field f v \<longleftrightarrow> (\<exists>s. value_get f v = Some (JText s))"

text \<open>
  When the field to sort by is a text in every item, the selection is a permutation of the found items in the
  order asked for.
\<close>

theorem selection_sorted:
  assumes "qp_sort q = Some s" and "\<forall>v \<in> set items. text_field (so_field s) v"
  shows "\<exists>l. selection N q items = Some l \<and> sorted_wrt (\<lambda>a b. sort_cmp N s a b \<noteq> Greater) l \<and>
    mset l = mset (filter (\<lambda>v. list_all (matches_filter N v) (qp_filters q)) items)"
proof -
  let ?f = "filter (\<lambda>v. list_all (matches_filter N v) (qp_filters q)) items"
  have fld: "\<exists>t. value_get (so_field s) v = Some (JText t)" if "v \<in> set ?f" for v
    using that assms(2) by (auto simp: text_field_def)
  have cmp: "sort_cmp N s a b = (if so_descending s then text_cmp y x else text_cmp x y)"
    if "value_get (so_field s) a = Some (JText x)" "value_get (so_field s) b = Some (JText y)" for a b x y
    using that text_cmp_swap [of y x] by (simp add: sort_cmp_def Let_def)
  have tr: "sort_cmp N s a c \<noteq> Greater"
    if m: "a \<in> set ?f" "b \<in> set ?f" "c \<in> set ?f" and le: "sort_cmp N s a b \<noteq> Greater" "sort_cmp N s b c \<noteq> Greater"
    for a b c
  proof -
    from m obtain x y z where v: "value_get (so_field s) a = Some (JText x)"
      "value_get (so_field s) b = Some (JText y)" "value_get (so_field s) c = Some (JText z)"
      using fld by meson
    from le show ?thesis
      unfolding cmp [OF v(1,2)] cmp [OF v(2,3)] cmp [OF v(1,3)]
      using text_cmp_trans [of x y z] text_cmp_trans [of z y x] by (simp split: if_splits)
  qed
  have sw: "sort_cmp N s b a = reverse_ordering (sort_cmp N s a b)" if m: "a \<in> set ?f" "b \<in> set ?f" for a b
  proof -
    from m obtain x y where v: "value_get (so_field s) a = Some (JText x)" "value_get (so_field s) b = Some (JText y)"
      using fld by meson
    show ?thesis
      unfolding cmp [OF v(1,2)] cmp [OF v(2,1)] using text_cmp_swap [of x y] text_cmp_swap [of y x] by simp
  qed
  have ord: "is_order (sort_cmp N s) ?f" unfolding is_order_def using tr sw by blast
  have "sorted_wrt (\<lambda>a b. sort_cmp N s a b \<noteq> Greater) (sort_stable (sort_cmp N s) ?f)"
  proof (rule sort_stable_sorted [of "set ?f", OF tr])
    fix a b
    assume "a \<in> set ?f" "b \<in> set ?f" "sort_cmp N s a b = Greater"
    with sw [of a b] show "sort_cmp N s b a \<noteq> Greater" by simp
  qed simp_all
  then show ?thesis by (simp add: selection_def sorted_values_def assms(1) sort_by_def ord)
qed

text \<open>
  With numbers and texts mixed the comparison is not transitive: two different numbers both equal any
  text, so no order exists that it describes, and what the sort does is left to the library.
\<close>

theorem mixed_values_unordered:
  assumes "compare_json_values N (JNumber a) (JNumber b) = Greater"
    and "value_get f x = Some (JNumber a)" and "value_get f y = Some (JText t)" and "value_get f z = Some (JNumber b)"
    and "{x, y, z} \<subseteq> set found" and "qp_sort q = Some \<lparr>so_field = f, so_descending = False\<rparr>"
  shows "sorted_values N q found = nl_unordered_sort N (sort_cmp N \<lparr>so_field = f, so_descending = False\<rparr>) found"
proof -
  let ?s = "\<lparr>so_field = f, so_descending = False\<rparr>"
  have "sort_cmp N ?s x y \<noteq> Greater" "sort_cmp N ?s y z \<noteq> Greater" "sort_cmp N ?s x z = Greater"
    using assms(1-4) by (simp_all add: sort_cmp_def)
  then have "\<not> is_order (sort_cmp N ?s) found" using assms(5) unfolding is_order_def by blast
  then show ?thesis by (simp add: sorted_values_def assms(6) sort_by_def)
qed

section \<open>A concrete collection\<close>

definition demo_numbers :: "(int, int) number_lib" where
  "demo_numbers =
     \<lparr>nl_as_f64 = Some, nl_parse = \<lambda>s. map_option int (parse_unsigned 1000000 s),
      nl_partial_cmp = \<lambda>a b. Some (if a < b then Less else if b < a then Greater else Equal), nl_close = (=),
      nl_zero = 0, nl_show = show_i64, nl_lower = \<lambda>s. s, nl_value_text = \<lambda>v. [],
      nl_unordered_sort = \<lambda>cmp xs. None\<rparr>"

definition named :: "string \<Rightarrow> int jvalue" where
  "named s = JObject [(''name'', JText s)]"

definition by_name :: query_params where
  "by_name = \<lparr>qp_skip = 0, qp_take = Some 1, qp_sort = Some \<lparr>so_field = ''name'', so_descending = False\<rparr>,
     qp_filters = []\<rparr>"

lemma by_name_parsed: "parse_query_params ''skip=0&take=1&sort=name'' = by_name"
  by (simp add: parse_query_params_def parse_pair_def parse_u64_def parse_unsigned_def is_digit_def digits_value_def
      parse_sort_def strip_prefix_def empty_params_def by_name_def)

lemma demo_selection: "selection demo_numbers by_name [named ''b'', named ''a''] = Some [named ''a'', named ''b'']"
  by (simp add: selection_def sorted_values_def by_name_def sort_by_def is_order_def sort_stable_def sort_cmp_def
      named_def value_get_def)

lemma pages_complete_witness:
  "\<exists>n. crawl demo_numbers by_name [named ''b'', named ''a''] n = Some ([named ''a'', named ''b''], False)"
  using pages_complete [OF demo_selection]
  by (simp add: by_name_def page_limit_def)

lemma selection_sorted_witness:
  "\<exists>l. selection demo_numbers by_name [named ''b'', named ''a''] = Some l \<and>
    sorted_wrt (\<lambda>a b. sort_cmp demo_numbers \<lparr>so_field = ''name'', so_descending = False\<rparr> a b \<noteq> Greater) l"
  using selection_sorted [of by_name "\<lparr>so_field = ''name'', so_descending = False\<rparr>" "[named ''b'', named ''a'']" demo_numbers]
  by (auto simp: by_name_def text_field_def named_def value_get_def)

lemma mixed_values_unordered_witness:
  "sorted_values demo_numbers by_name
     [JObject [(''name'', JNumber 2)], named ''x'', JObject [(''name'', JNumber 1)]] = None"
  using mixed_values_unordered [of demo_numbers 2 1 "''name''" "JObject [(''name'', JNumber 2)]" "named ''x''" "''x''"
      "JObject [(''name'', JNumber 1)]" "[JObject [(''name'', JNumber 2)], named ''x'', JObject [(''name'', JNumber 1)]]"
      by_name]
  by (simp add: demo_numbers_def value_get_def named_def by_name_def)

end
