(* ===== verification/HttpConsensus.thy ===== *)
theory HttpConsensus
  imports EventChain
begin

text \<open>
  Replication over HTTP, from \<^verbatim>\<open>lithair-core/src/consensus/mod.rs\<close>: the coordinator that writes
  an operation to its own event store, sends it to every peer with retries and queues what fails, the
  background task that drains the queue, and the proposals of a model. Election by the \<^verbatim>\<open>openraft\<close>
  library has no influence on the proposals and is left out, except for the choice of who
  initialises the cluster. The operations of the coordinator, as its caller sees them, take an
  argument \<open>net\<close> that tells whether a request is answered with success in time; that a request can
  be processed by the peer although no answer arrives, and that proposals and the background task
  interleave between any two requests, is in the steps of the section on deliveries. JSON is the
  record \<open>crud_codec\<close>.
\<close>

section \<open>Operations\<close>

datatype 'i crud_operation = CreateOp 'i string | UpdateOp 'i string | DeleteOp string

record 'i app_data =
  ap_operation :: "'i crud_operation"
  ap_model_type :: string
  ap_timestamp :: u64
  ap_node_id :: u64

record replication_event =
  re_operation_type :: string
  re_node_id :: u64
  re_model_type :: string
  re_data :: string
  re_timestamp :: u64

record 'i crud_codec =
  cj_data :: "'i app_data \<Rightarrow> string + string"
  cj_event :: "replication_event \<Rightarrow> string"

record log_lib =
  lb_crc :: "string \<Rightarrow> u32"
  lb_sha :: "string \<Rightarrow> string"
  lb_codec :: event_codec

record replicated_model =
  rm_needs_replication :: bool
  rm_consensus_group :: string

record consensus_config =
  cc_node_id :: u64
  cc_cluster_peers :: "string list"
  cc_consensus_port :: u16
  cc_data_dir :: string

text \<open>A queued request: the address, the body and the number of further attempts.\<close>

record replicator =
  rp_event_store :: event_store
  rp_node_id :: u64
  rp_peers :: "string list"
  rp_pending :: "(string \<times> string \<times> u32) list"

record consensus =
  cn_config :: consensus_config
  cn_replicator :: "replicator option"

definition consensus_new :: "consensus_config \<Rightarrow> consensus" where
  "consensus_new c = \<lparr>cn_config = c, cn_replicator = None\<rparr>"

definition replicator_new :: "event_store \<Rightarrow> u64 \<Rightarrow> string list \<Rightarrow> replicator" where
  "replicator_new es node peers = \<lparr>rp_event_store = es, rp_node_id = node, rp_peers = peers, rp_pending = []\<rparr>"

text \<open>\<open>open\<close> is the result of opening the event store under the data directory.\<close>

definition consensus_initialize :: "replicated_model \<Rightarrow> string + event_store \<Rightarrow> consensus \<Rightarrow> (string + unit) \<times> consensus" where
  "consensus_initialize R opened c =
     (if \<not> rm_needs_replication R then (Inr (), c)
      else case opened of
             Inl e \<Rightarrow> (Inl e, c)
           | Inr es \<Rightarrow>
               (Inr (), c\<lparr>cn_replicator :=
                  Some (replicator_new es (cc_node_id (cn_config c)) (cc_cluster_peers (cn_config c)))\<rparr>))"

text \<open>The identifiers of the peers are derived from their ports, in arithmetic of 16 bits.\<close>

definition peer_node_id :: "string \<Rightarrow> u64 option" where
  "peer_node_id peer =
     (let parts = split_on (CHR '':'') peer
      in if 1 < length parts
         then map_option (\<lambda>p. ucast ((of_nat p - 8080 + 1) :: u16)) (parse_unsigned 65535 (parts ! 1))
         else None)"

definition all_node_ids :: "consensus_config \<Rightarrow> u64 list" where
  "all_node_ids c = cc_node_id c # List.map_filter peer_node_id (cc_cluster_peers c)"

definition is_initial_leader :: "consensus_config \<Rightarrow> bool" where
  "is_initial_leader c \<longleftrightarrow> cc_node_id c = Min (set (all_node_ids c))"

definition should_replicate :: "replicated_model \<Rightarrow> consensus \<Rightarrow> bool" where
  "should_replicate R c \<longleftrightarrow> rm_needs_replication R \<and> cc_cluster_peers (cn_config c) \<noteq> []"

section \<open>The coordinator\<close>

definition u64_text :: "u64 \<Rightarrow> string" where
  "u64_text w = show_nat (unat w)"

definition replication_envelope :: "'i crud_codec \<Rightarrow> u64 \<Rightarrow> 'i app_data \<Rightarrow> string \<Rightarrow> envelope" where
  "replication_envelope J node d json =
     \<lparr>ev_event_type = ''ReplicationEvent'',
      ev_event_id = ''repl_'' @ u64_text (ap_timestamp d) @ ''_'' @ u64_text node,
      ev_timestamp = ap_timestamp d,
      ev_payload = cj_event J \<lparr>re_operation_type = ''crud_replicate'', re_node_id = node,
        re_model_type = ap_model_type d, re_data = json, re_timestamp = ap_timestamp d\<rparr>,
      ev_aggregate_id = Some (''node_'' @ u64_text node), ev_event_hash = None, ev_previous_hash = None\<rparr>"

definition engine_text :: "engine_error \<Rightarrow> string" where
  "engine_text e = (case e of SerializationError s \<Rightarrow> s | InvalidOperation s \<Rightarrow> s | PersistenceError s \<Rightarrow> s)"

definition apply_locally ::
  "log_lib \<Rightarrow> 'i crud_codec \<Rightarrow> 'i app_data \<Rightarrow> replicator \<Rightarrow> (string + unit) \<times> replicator"
where
  "apply_locally B J d rp =
     (case cj_data J d of
        Inl e \<Rightarrow> (Inl e, rp)
      | Inr json \<Rightarrow>
          (case append_envelope (lb_crc B) (lb_sha B) (lb_codec B) (replication_envelope J (rp_node_id rp) d json)
                  (rp_event_store rp) of
             (Inl e, es) \<Rightarrow> (Inl (engine_text e), rp\<lparr>rp_event_store := es\<rparr>)
           | (Inr _, es) \<Rightarrow> (Inr (), rp\<lparr>rp_event_store := es_flush (lb_crc B) es\<rparr>)))"

text \<open>Up to \<open>n\<close> attempts from the \<open>k\<close>-th on; \<open>answers k\<close> is a success that arrives in time.\<close>

fun send_attempts :: "(nat \<Rightarrow> bool) \<Rightarrow> nat \<Rightarrow> nat \<Rightarrow> bool" where
  "send_attempts answers 0 k = False"
| "send_attempts answers (Suc n) k = (if answers k then True else send_attempts answers n (k + 1))"

definition send_with_retries :: "(string \<Rightarrow> nat \<Rightarrow> bool) \<Rightarrow> string \<Rightarrow> nat \<Rightarrow> bool" where
  "send_with_retries net url attempts = send_attempts (net url) attempts 1"

definition peer_url :: "string \<Rightarrow> string" where
  "peer_url p = ''http://'' @ p @ ''/internal/replicate''"

definition send_to_peer :: "(string \<Rightarrow> nat \<Rightarrow> bool) \<Rightarrow> string \<Rightarrow> string \<Rightarrow> replicator \<Rightarrow> replicator" where
  "send_to_peer net json peer rp =
     (if send_with_retries net (peer_url peer) 5 then rp
      else rp\<lparr>rp_pending := rp_pending rp @ [(peer_url peer, json, 0)]\<rparr>)"

definition replicate_operation ::
  "log_lib \<Rightarrow> 'i crud_codec \<Rightarrow> (string \<Rightarrow> nat \<Rightarrow> bool) \<Rightarrow> 'i app_data \<Rightarrow> replicator \<Rightarrow> (string + unit) \<times> replicator"
where
  "replicate_operation B J net d rp =
     (case apply_locally B J d rp of
        (Inl e, rp1) \<Rightarrow> (Inl e, rp1)
      | (Inr _, rp1) \<Rightarrow>
          (case cj_data J d of
             Inl e \<Rightarrow> (Inl e, rp1)
           | Inr json \<Rightarrow> (Inr (), fold (send_to_peer net json) (rp_peers rp1) rp1)))"

section \<open>Proposals\<close>

definition propose ::
  "log_lib \<Rightarrow> 'i crud_codec \<Rightarrow> (string \<Rightarrow> nat \<Rightarrow> bool) \<Rightarrow> replicated_model \<Rightarrow> u64 \<Rightarrow> 'i crud_operation \<Rightarrow>
   consensus \<Rightarrow> (string + unit) \<times> consensus"
where
  "propose B J net R now operation c =
     (case cn_replicator c of
        None \<Rightarrow> (Inr (), c)
      | Some rp \<Rightarrow>
          (case replicate_operation B J net
                  \<lparr>ap_operation = operation, ap_model_type = rm_consensus_group R, ap_timestamp = now,
                   ap_node_id = cc_node_id (cn_config c)\<rparr> rp of
             (r, rp1) \<Rightarrow> (r, c\<lparr>cn_replicator := Some rp1\<rparr>)))"

definition propose_create where
  "propose_create B J net R now item key c = propose B J net R now (CreateOp item key) c"

definition propose_update where
  "propose_update B J net R now item key c = propose B J net R now (UpdateOp item key) c"

definition propose_delete where
  "propose_delete B J net R now key c = propose B J net R now (DeleteOp key) c"

section \<open>Nothing is lost and nobody is asked\<close>

lemma fold_send:
  "fold (send_to_peer net json) ps rp =
     rp\<lparr>rp_pending := rp_pending rp @
        map (\<lambda>p. (peer_url p, json, 0)) (filter (\<lambda>p. \<not> send_with_retries net (peer_url p) 5) ps)\<rparr>"
  by (induction ps arbitrary: rp) (simp_all add: send_to_peer_def)

lemma apply_locally_keeps:
  "rp_pending (snd (apply_locally B J d rp)) = rp_pending rp"
  "rp_peers (snd (apply_locally B J d rp)) = rp_peers rp"
  "rp_node_id (snd (apply_locally B J d rp)) = rp_node_id rp"
  by (simp_all add: apply_locally_def split: sum.split prod.split)

lemma replicate_result:
  "fst (replicate_operation B J net d rp) = fst (replicate_operation B J net' d rp) \<and>
   (fst (replicate_operation B J net d rp) = Inr () \<longleftrightarrow> fst (apply_locally B J d rp) = Inr ()) \<and>
   (fst (replicate_operation B J net d rp) = Inr () \<longrightarrow>
     (\<exists>json. cj_data J d = Inr json \<and>
       rp_pending (snd (replicate_operation B J net d rp)) = rp_pending rp @
         map (\<lambda>p. (peer_url p, json, 0)) (filter (\<lambda>p. \<not> send_with_retries net (peer_url p) 5) (rp_peers rp))))"
proof -
  obtain r rp1 where a: "apply_locally B J d rp = (r, rp1)" by (cases "apply_locally B J d rp")
  note k = apply_locally_keeps [of B J d rp, unfolded a snd_conv]
  show ?thesis
  proof (cases r)
    case (Inl e)
    with a show ?thesis by (simp add: replicate_operation_def)
  next
    case (Inr u)
    with a obtain json where j: "cj_data J d = Inr json"
      by (auto simp: apply_locally_def split: sum.splits)
    show ?thesis by (simp add: replicate_operation_def a Inr j fold_send k)
  qed
qed

text \<open>
  A proposal never waits for a peer: with the same local store it succeeds or fails whatever the
  peers answer, and with a store that takes the event it succeeds although every peer is down.
  The peers that did not answer are queued.
\<close>

theorem consensus_asks_nobody:
  "fst (replicate_operation B J net d rp) = fst (replicate_operation B J net' d rp) \<and>
   (fst (replicate_operation B J net d rp) = Inr () \<longleftrightarrow> fst (apply_locally B J d rp) = Inr ()) \<and>
   (fst (replicate_operation B J net d rp) = Inr () \<longrightarrow>
     (\<exists>json. cj_data J d = Inr json \<and>
       rp_pending (snd (replicate_operation B J net d rp)) = rp_pending rp @
         map (\<lambda>p. (peer_url p, json, 0)) (filter (\<lambda>p. \<not> send_with_retries net (peer_url p) 5) (rp_peers rp))))"
  by (rule replicate_result)

section \<open>Deliveries\<close>

text \<open>
  The steps of the proposals in flight and of the background task, at the grain of one request. A
  proposal has the message, the peers it still has to serve and the attempts that failed for the
  first of them. A request may not arrive, may be processed although its answer is lost, late or an
  error, or may be confirmed. The background task takes the whole queue into a vector of its own
  and puts back one by one what is not confirmed. A proposal whose caller goes away is dropped.
\<close>

datatype proposal = Sending string "string list" nat | Returned string | Dropped

datatype request_outcome = Unreached | Processed | Confirmed

datatype 'i replication_step =
    Propose "'i app_data" | Attempt nat request_outcome | Return nat | Drop nat
  | DrainTake | DrainSend request_outcome

record replication =
  rw_node :: replicator
  rw_tasks :: "proposal list"
  rw_draining :: "(string \<times> string \<times> u32) list"
  rw_received :: "(string \<times> string) list"

definition replication_start :: "replicator \<Rightarrow> replication" where
  "replication_start rp = \<lparr>rw_node = rp, rw_tasks = [], rw_draining = [], rw_received = []\<rparr>"

definition arrives :: "request_outcome \<Rightarrow> string \<times> string \<Rightarrow> replication \<Rightarrow> replication" where
  "arrives out m w = (if out = Unreached then w else w\<lparr>rw_received := rw_received w @ [m]\<rparr>)"

definition enqueue :: "string \<times> string \<times> u32 \<Rightarrow> replication \<Rightarrow> replication" where
  "enqueue q w = w\<lparr>rw_node := (rw_node w)\<lparr>rp_pending := rp_pending (rw_node w) @ [q]\<rparr>\<rparr>"

definition attempt_request :: "nat \<Rightarrow> request_outcome \<Rightarrow> replication \<Rightarrow> replication" where
  "attempt_request i out w =
     (if length (rw_tasks w) \<le> i then w
      else case rw_tasks w ! i of
             Sending json (p # ps) k \<Rightarrow>
               (let w1 = arrives out (peer_url p, json) w
                in if out = Confirmed then w1\<lparr>rw_tasks := (rw_tasks w1)[i := Sending json ps 0]\<rparr>
                   else if 5 \<le> k + 1
                   then (enqueue (peer_url p, json, 0) w1)\<lparr>rw_tasks := (rw_tasks w1)[i := Sending json ps 0]\<rparr>
                   else w1\<lparr>rw_tasks := (rw_tasks w1)[i := Sending json (p # ps) (k + 1)]\<rparr>)
           | _ \<Rightarrow> w)"

definition drain_take :: "replication \<Rightarrow> replication" where
  "drain_take w =
     (if rw_draining w \<noteq> [] then w
      else w\<lparr>rw_draining := rp_pending (rw_node w), rw_node := (rw_node w)\<lparr>rp_pending := []\<rparr>\<rparr>)"

definition saturating_inc :: "u32 \<Rightarrow> u32" where
  "saturating_inc w = (if w = - 1 then w else w + 1)"

definition drain_send :: "request_outcome \<Rightarrow> replication \<Rightarrow> replication" where
  "drain_send out w =
     (case rw_draining w of
        [] \<Rightarrow> w
      | (url, json, n) # rest \<Rightarrow>
          (let w1 = (arrives out (url, json) w)\<lparr>rw_draining := rest\<rparr>
           in if out = Confirmed then w1 else enqueue (url, json, saturating_inc n) w1))"

fun replicate_step ::
  "log_lib \<Rightarrow> 'i crud_codec \<Rightarrow> 'i replication_step \<Rightarrow> replication \<Rightarrow> replication"
where
  "replicate_step B J (Propose d) w =
     (case apply_locally B J d (rw_node w) of
        (Inl e, rp1) \<Rightarrow> w\<lparr>rw_node := rp1\<rparr>
      | (Inr _, rp1) \<Rightarrow>
          (case cj_data J d of
             Inl e \<Rightarrow> w\<lparr>rw_node := rp1\<rparr>
           | Inr json \<Rightarrow> w\<lparr>rw_node := rp1, rw_tasks := rw_tasks w @ [Sending json (rp_peers rp1) 0]\<rparr>))"
| "replicate_step B J (Attempt i out) w = attempt_request i out w"
| "replicate_step B J (Return i) w =
     (if i < length (rw_tasks w)
      then case rw_tasks w ! i of
             Sending json [] k \<Rightarrow> w\<lparr>rw_tasks := (rw_tasks w)[i := Returned json]\<rparr>
           | _ \<Rightarrow> w
      else w)"
| "replicate_step B J (Drop i) w =
     (if i < length (rw_tasks w)
      then case rw_tasks w ! i of
             Sending json ps k \<Rightarrow> w\<lparr>rw_tasks := (rw_tasks w)[i := Dropped]\<rparr>
           | _ \<Rightarrow> w
      else w)"
| "replicate_step B J DrainTake w = drain_take w"
| "replicate_step B J (DrainSend out) w = drain_send out w"

definition replication_run ::
  "log_lib \<Rightarrow> 'i crud_codec \<Rightarrow> 'i replication_step list \<Rightarrow> replication \<Rightarrow> replication"
where
  "replication_run B J steps w = fold (replicate_step B J) steps w"

text \<open>What waits to be sent again, in the queue and in the hands of the background task.\<close>

definition waiting :: "replication \<Rightarrow> (string \<times> string) list" where
  "waiting w = map (\<lambda>(u, j, n). (u, j)) (rp_pending (rw_node w) @ rw_draining w)"

text \<open>What a proposal has sent or queued so far.\<close>

fun handled :: "string list \<Rightarrow> proposal \<Rightarrow> (string \<times> string) list" where
  "handled peers (Sending json ps k) =
     map (\<lambda>p. (peer_url p, json)) (take (length peers - length ps) peers)"
| "handled peers (Returned json) = map (\<lambda>p. (peer_url p, json)) peers"
| "handled peers Dropped = []"

definition all_handled :: "string list \<Rightarrow> proposal list \<Rightarrow> (string \<times> string) multiset" where
  "all_handled peers ts = mset (concat (map (handled peers) ts))"

lemma all_handled_update:
  "i < length ts \<Longrightarrow>
     all_handled peers (ts[i := t]) + mset (handled peers (ts ! i)) = all_handled peers ts + mset (handled peers t)"
proof (induction ts arbitrary: i)
  case (Cons x ts)
  then show ?case by (cases i) (auto simp: all_handled_def ac_simps)
qed simp

lemma all_handled_snoc: "all_handled peers (ts @ [t]) = all_handled peers ts + mset (handled peers t)"
  by (simp add: all_handled_def)

definition delivered :: "replication \<Rightarrow> (string \<times> string) multiset" where
  "delivered w = mset (rw_received w) + mset (waiting w)"

definition replication_inv ::
  "'i crud_codec \<Rightarrow> 'i replication_step list \<Rightarrow> string list \<Rightarrow> (string \<times> string) list \<Rightarrow> replication \<Rightarrow> bool"
where
  "replication_inv J steps peers old w \<longleftrightarrow>
     rp_peers (rw_node w) = peers \<and>
     (\<forall>json ps k. Sending json ps k \<in> set (rw_tasks w) \<longrightarrow>
        (\<exists>served. peers = served @ ps) \<and> (\<exists>d. Propose d \<in> set steps \<and> cj_data J d = Inr json)) \<and>
     all_handled peers (rw_tasks w) \<subseteq># delivered w \<and>
     (\<forall>u m. (u, m) \<in># delivered w \<longrightarrow>
        (u, m) \<in> set old \<or>
        (\<exists>p d. p \<in> set peers \<and> u = peer_url p \<and> Propose d \<in> set steps \<and> cj_data J d = Inr m))"

lemma replication_invD:
  assumes "replication_inv J steps peers old w"
  shows "rp_peers (rw_node w) = peers"
    "Sending json ps k \<in> set (rw_tasks w) \<Longrightarrow> \<exists>served. peers = served @ ps"
    "all_handled peers (rw_tasks w) \<subseteq># delivered w"
    "Sending json ps k \<in> set (rw_tasks w) \<Longrightarrow> \<exists>d. Propose d \<in> set steps \<and> cj_data J d = Inr json"
    "(u, m) \<in># delivered w \<Longrightarrow> (u, m) \<in> set old \<or>
        (\<exists>p d. p \<in> set peers \<and> u = peer_url p \<and> Propose d \<in> set steps \<and> cj_data J d = Inr m)"
  using assms unfolding replication_inv_def by blast+

lemma replication_invI:
  assumes "rp_peers (rw_node w) = peers"
    and "\<And>json ps k. Sending json ps k \<in> set (rw_tasks w) \<Longrightarrow>
      (\<exists>served. peers = served @ ps) \<and> (\<exists>d. Propose d \<in> set steps \<and> cj_data J d = Inr json)"
    and "all_handled peers (rw_tasks w) \<subseteq># delivered w"
    and "\<And>u m. (u, m) \<in># delivered w \<Longrightarrow> (u, m) \<in> set old \<or>
        (\<exists>p d. p \<in> set peers \<and> u = peer_url p \<and> Propose d \<in> set steps \<and> cj_data J d = Inr m)"
  shows "replication_inv J steps peers old w"
  unfolding replication_inv_def using assms by blast

lemma handled_next:
  assumes "peers = served @ p # ps"
  shows "handled peers (Sending json ps k) = handled peers (Sending json (p # ps) k') @ [(peer_url p, json)]"
  using assms by simp

lemma delivered_simps [simp]:
  "delivered (w\<lparr>rw_tasks := ts\<rparr>) = delivered w"
  "delivered (enqueue (u, j, n) w) = delivered w + {#(u, j)#}"
  "delivered (arrives out m w) = delivered w + (if out = Unreached then {#} else {#m#})"
  by (simp_all add: delivered_def waiting_def enqueue_def arrives_def)

lemma fields_simps [simp]:
  "rw_tasks (enqueue q w) = rw_tasks w" "rw_tasks (arrives out m w) = rw_tasks w"
  "rp_peers (rw_node (enqueue q w)) = rp_peers (rw_node w)" "rw_node (arrives out m w) = rw_node w"
  "rw_draining (arrives out m w) = rw_draining w" "rw_draining (enqueue q w) = rw_draining w"
  "rw_received (enqueue q w) = rw_received w"
  by (simp_all add: enqueue_def arrives_def)

lemma parts_of_delivered: "set (rw_received w) \<union> set (waiting w) = set_mset (delivered w)"
  by (simp add: delivered_def)

text \<open>One step of a task that serves the first of its peers, or counts a failed attempt.\<close>

lemma task_step_inv:
  assumes inv: "replication_inv J steps peers old w" and i: "i < length (rw_tasks w)"
    and t: "rw_tasks w ! i = Sending json (p # ps) k"
    and w': "rw_tasks w' = (rw_tasks w)[i := t']" "rp_peers (rw_node w') = peers"
    and new: "t' = Sending json ps 0 \<and> delivered w + {#(peer_url p, json)#} \<subseteq># delivered w' \<or>
      t' = Sending json (p # ps) (k + 1) \<and> delivered w \<subseteq># delivered w'"
    and only: "set_mset (delivered w') \<subseteq> insert (peer_url p, json) (set_mset (delivered w))"
  shows "replication_inv J steps peers old w'"
proof -
  have mem: "Sending json (p # ps) k \<in> set (rw_tasks w)" using i t by (metis nth_mem)
  obtain served where peers: "peers = served @ p # ps" using replication_invD(2) [OF inv mem] by blast
  note from_d = replication_invD(4) [OF inv mem]
  note upd = all_handled_update [OF i, of peers t', unfolded t]
  note le = replication_invD(3) [OF inv]
  show ?thesis
  proof (rule replication_invI)
    show "rp_peers (rw_node w') = peers" by (rule w'(2))
  next
    fix j qs m
    assume "Sending j qs m \<in> set (rw_tasks w')"
    then consider "Sending j qs m = t'" | "Sending j qs m \<in> set (rw_tasks w)"
      unfolding w'(1) using set_update_subset_insert [of "rw_tasks w" i t'] by blast
    then show "(\<exists>served. peers = served @ qs) \<and> (\<exists>d. Propose d \<in> set steps \<and> cj_data J d = Inr j)"
    proof cases
      case 1
      then have "j = json" "qs = ps \<or> qs = p # ps" using new by auto
      moreover have "peers = (served @ [p]) @ ps" using peers by simp
      ultimately show ?thesis using from_d peers by blast
    next
      case 2
      then show ?thesis using replication_invD(2,4) [OF inv] by blast
    qed
  next
    show "all_handled peers (rw_tasks w') \<subseteq># delivered w'"
      using new
    proof (elim disjE conjE)
      assume n: "t' = Sending json ps 0" "delivered w + {#(peer_url p, json)#} \<subseteq># delivered w'"
      have "mset (handled peers t') = mset (handled peers (Sending json (p # ps) k)) + {#(peer_url p, json)#}"
        unfolding n(1) handled_next [OF peers, of json 0 k] by simp
      with upd have eq: "all_handled peers (rw_tasks w') = all_handled peers (rw_tasks w) + {#(peer_url p, json)#}"
        unfolding w'(1) by simp
      have "all_handled peers (rw_tasks w') \<subseteq># delivered w + {#(peer_url p, json)#}"
        unfolding eq using le by (rule subset_mset.add_right_mono)
      then show ?thesis using n(2) by (rule subset_mset.order_trans)
    next
      assume n: "t' = Sending json (p # ps) (k + 1)" "delivered w \<subseteq># delivered w'"
      have "handled peers t' = handled peers (Sending json (p # ps) k)" by (simp add: n(1))
      with upd have "all_handled peers (rw_tasks w') = all_handled peers (rw_tasks w)"
        unfolding w'(1) by simp
      then show ?thesis using subset_mset.order_trans [OF le n(2)] by simp
    qed
  next
    fix u m
    assume "(u, m) \<in># delivered w'"
    then have "(u, m) \<in># delivered w \<or> (u, m) = (peer_url p, json)" using only by blast
    then show "(u, m) \<in> set old \<or>
        (\<exists>p d. p \<in> set peers \<and> u = peer_url p \<and> Propose d \<in> set steps \<and> cj_data J d = Inr m)"
    proof
      assume "(u, m) \<in># delivered w"
      then show ?thesis by (rule replication_invD(5) [OF inv])
    next
      assume "(u, m) = (peer_url p, json)"
      then show ?thesis using from_d peers by auto
    qed
  qed
qed

lemma attempt_inv:
  assumes "replication_inv J steps peers old w"
  shows "replication_inv J steps peers old (attempt_request i out w)"
proof (cases "i < length (rw_tasks w) \<and> (\<exists>json p ps k. rw_tasks w ! i = Sending json (p # ps) k)")
  case False
  then have "attempt_request i out w = w"
    by (auto simp: attempt_request_def split: proposal.split list.split)
  with assms show ?thesis by simp
next
  case True
  then obtain json p ps k where i: "i < length (rw_tasks w)" and t: "rw_tasks w ! i = Sending json (p # ps) k"
    by blast
  define t' where "t' = (if out = Confirmed \<or> 5 \<le> k + 1 then Sending json ps 0 else Sending json (p # ps) (k + 1))"
  have peers: "rp_peers (rw_node w) = peers" using assms by (simp add: replication_inv_def)
  show ?thesis
  proof (rule task_step_inv [OF assms i t, of _ t'])
    show "rw_tasks (attempt_request i out w) = (rw_tasks w)[i := t']"
      using i t by (simp add: attempt_request_def t'_def Let_def)
    show "rp_peers (rw_node (attempt_request i out w)) = peers"
      using i t peers by (simp add: attempt_request_def Let_def)
    show "t' = Sending json ps 0 \<and> delivered w + {#(peer_url p, json)#} \<subseteq># delivered (attempt_request i out w) \<or>
      t' = Sending json (p # ps) (k + 1) \<and> delivered w \<subseteq># delivered (attempt_request i out w)"
      using i t by (cases out) (simp_all add: attempt_request_def t'_def Let_def)
    show "set_mset (delivered (attempt_request i out w)) \<subseteq> insert (peer_url p, json) (set_mset (delivered w))"
      using i t by (auto simp: attempt_request_def Let_def)
  qed
qed

text \<open>A step that leaves the tasks that send alone and loses no message.\<close>

lemma quiet_inv:
  assumes inv: "replication_inv J steps peers old w" and "rp_peers (rw_node w') = peers"
    and "set (rw_tasks w') \<subseteq> insert Dropped (set (rw_tasks w)) \<union> range Returned"
    and "all_handled peers (rw_tasks w') \<subseteq># all_handled peers (rw_tasks w)"
    and "delivered w \<subseteq># delivered w'" and "set_mset (delivered w') \<subseteq> set_mset (delivered w)"
  shows "replication_inv J steps peers old w'"
proof -
  have sending: "Sending j ps k \<in> set (rw_tasks w') \<Longrightarrow> Sending j ps k \<in> set (rw_tasks w)" for j ps k
    using assms(3) by auto
  show ?thesis
  proof (rule replication_invI [OF assms(2)])
    show "all_handled peers (rw_tasks w') \<subseteq># delivered w'"
      by (rule subset_mset.order_trans [OF assms(4) subset_mset.order_trans [OF replication_invD(3) [OF inv] assms(5)]])
  next
    fix j ps k
    assume "Sending j ps k \<in> set (rw_tasks w')"
    from sending [OF this] replication_invD(2,4) [OF inv]
    show "(\<exists>served. peers = served @ ps) \<and> (\<exists>d. Propose d \<in> set steps \<and> cj_data J d = Inr j)" by blast
  next
    fix u m
    assume "(u, m) \<in># delivered w'"
    with assms(6) have "(u, m) \<in># delivered w" by blast
    then show "(u, m) \<in> set old \<or>
        (\<exists>p d. p \<in> set peers \<and> u = peer_url p \<and> Propose d \<in> set steps \<and> cj_data J d = Inr m)"
      by (rule replication_invD(5) [OF inv])
  qed
qed

lemma drain_inv:
  assumes "replication_inv J steps peers old w"
  shows "replication_inv J steps peers old (drain_take w)" "replication_inv J steps peers old (drain_send out w)"
proof -
  have peers: "rp_peers (rw_node w) = peers" using assms by (simp add: replication_inv_def)
  have "delivered (drain_take w) = delivered w"
    by (simp add: drain_take_def delivered_def waiting_def)
  then show "replication_inv J steps peers old (drain_take w)"
    by (intro quiet_inv [OF assms]) (use peers in \<open>auto simp: drain_take_def\<close>)
  have "delivered w \<subseteq># delivered (drain_send out w) \<and>
    set_mset (delivered (drain_send out w)) \<subseteq> set_mset (delivered w)"
  proof (cases "rw_draining w")
    case (Cons q rest)
    obtain u j n where "q = (u, j, n)" by (cases q)
    with Cons show ?thesis
      by (cases out) (simp_all add: drain_send_def delivered_def waiting_def arrives_def enqueue_def Let_def)
  qed (simp add: drain_send_def)
  then show "replication_inv J steps peers old (drain_send out w)"
    by (intro quiet_inv [OF assms])
      (use peers in \<open>auto simp: drain_send_def Let_def split: list.split\<close>)
qed

lemma settle_inv:
  assumes inv: "replication_inv J steps peers old w" and i: "i < length (rw_tasks w)"
    and t: "rw_tasks w ! i = Sending json ps k" and r: "t' = Dropped \<or> ps = [] \<and> t' = Returned json"
  shows "replication_inv J steps peers old (w\<lparr>rw_tasks := (rw_tasks w)[i := t']\<rparr>)"
proof -
  have "mset (handled peers t') \<subseteq># mset (handled peers (rw_tasks w ! i))"
    using r by (auto simp: t)
  then have "all_handled peers ((rw_tasks w)[i := t']) \<subseteq># all_handled peers (rw_tasks w)"
    using all_handled_update [OF i, of peers t']
    by (metis subset_mset.add_le_cancel_right subset_mset.add_left_mono)
  moreover have "set ((rw_tasks w)[i := t']) \<subseteq> insert Dropped (set (rw_tasks w)) \<union> range Returned"
    using set_update_subset_insert [of "rw_tasks w" i t'] r by auto
  moreover have "rp_peers (rw_node w) = peers" using inv by (simp add: replication_inv_def)
  ultimately show ?thesis by (intro quiet_inv [OF inv]) simp_all
qed

lemma replication_inv_more:
  assumes "replication_inv J steps peers old w" and "set steps \<subseteq> set steps'"
  shows "replication_inv J steps' peers old w"
  using assms unfolding replication_inv_def by (meson subsetD)

lemma step_keeps_inv:
  assumes "replication_inv J steps peers old w" and "s \<in> set steps"
  shows "replication_inv J steps peers old (replicate_step B J s w)"
proof (cases s)
  case (Propose d)
  obtain r rp1 where a: "apply_locally B J d (rw_node w) = (r, rp1)" by (cases "apply_locally B J d (rw_node w)")
  note k = apply_locally_keeps [of B J d "rw_node w", unfolded a snd_conv]
  have peers: "rp_peers (rw_node w) = peers" using assms(1) by (simp add: replication_inv_def)
  have same: "replication_inv J steps peers old (w\<lparr>rw_node := rp1\<rparr>)"
    by (rule quiet_inv [OF assms(1)]) (use k peers in \<open>auto simp: delivered_def waiting_def\<close>)
  show ?thesis
  proof (cases "r = Inr () \<and> (\<exists>json. cj_data J d = Inr json)")
    case False
    then show ?thesis using same by (auto simp: Propose a split: sum.split)
  next
    case True
    then obtain json where j: "cj_data J d = Inr json" "r = Inr ()" by blast
    let ?t = "Sending json (rp_peers rp1) 0" and ?w = "w\<lparr>rw_node := rp1\<rparr>"
    have p: "rp_peers rp1 = peers" using k peers by simp
    have mem: "Propose d \<in> set steps" using assms(2) Propose by simp
    have "all_handled peers (rw_tasks ?w @ [?t]) = all_handled peers (rw_tasks ?w)"
      by (simp add: all_handled_snoc p)
    moreover have "\<exists>served. peers = served @ rp_peers rp1" using p by simp
    ultimately have "replication_inv J steps peers old (?w\<lparr>rw_tasks := rw_tasks ?w @ [?t]\<rparr>)"
      using same j(1) mem unfolding replication_inv_def
      by (simp add: delivered_def waiting_def) (metis proposal.inject(1))
    then show ?thesis using j by (simp add: Propose a)
  qed
next
  case (Attempt i out)
  then show ?thesis using attempt_inv [OF assms(1)] by simp
next
  case (Return i)
  then show ?thesis
    using assms(1) settle_inv [OF assms(1), of i] by (auto split: proposal.split list.split)
next
  case (Drop i)
  then show ?thesis
    using assms(1) settle_inv [OF assms(1), of i] by (auto split: proposal.split)
next
  case DrainTake
  then show ?thesis using drain_inv [OF assms(1)] by simp
next
  case (DrainSend out)
  then show ?thesis using drain_inv [OF assms(1)] by simp
qed

lemma run_keeps_inv:
  assumes "replication_inv J steps peers old w" and "set ss \<subseteq> set steps"
  shows "replication_inv J steps peers old (replication_run B J ss w)"
  using assms by (induction ss arbitrary: w) (simp_all add: replication_run_def step_keeps_inv)

lemma start_keeps_inv: "replication_inv J steps (rp_peers rp) (map (\<lambda>(u, j, n). (u, j)) (rp_pending rp)) (replication_start rp)"
  by (auto simp: replication_inv_def replication_start_def all_handled_def delivered_def waiting_def)

text \<open>What a proposal that returned success owes to the peers.\<close>

fun owed :: "string list \<Rightarrow> proposal \<Rightarrow> (string \<times> string) list" where
  "owed peers (Returned json) = map (\<lambda>p. (peer_url p, json)) peers"
| "owed peers (Sending json ps k) = []"
| "owed peers Dropped = []"

lemma owed_handled: "mset (concat (map (owed peers) ts)) \<subseteq># all_handled peers ts"
proof (induction ts)
  case (Cons t ts)
  have "mset (owed peers t) \<subseteq># mset (handled peers t)" by (cases t) simp_all
  from subset_mset.add_mono [OF this Cons.IH] show ?case by (simp add: all_handled_def)
qed (simp add: all_handled_def)

text \<open>
  C36. However proposals, requests and the background task interleave, and whatever requests or
  answers are lost: for each peer, every proposal that returned success has a message of its own that
  the peer received at least once, or that waits to be sent again; and a peer receives only messages
  that were proposed, or that waited before. A coordinator that stops loses what waits.
\<close>

theorem replication_loses_nothing:
  assumes "replication_run B J steps (replication_start rp) = w"
  shows "mset (concat (map (owed (rp_peers rp)) (rw_tasks w))) \<subseteq># mset (rw_received w) + mset (waiting w) \<and>
    (\<forall>u m. (u, m) \<in> set (rw_received w) \<longrightarrow>
       (u, m) \<in> set (map (\<lambda>(u, j, n). (u, j)) (rp_pending rp)) \<or>
       (\<exists>p d. p \<in> set (rp_peers rp) \<and> u = peer_url p \<and> Propose d \<in> set steps \<and> cj_data J d = Inr m))"
proof -
  have inv: "replication_inv J steps (rp_peers rp) (map (\<lambda>(u, j, n). (u, j)) (rp_pending rp)) w"
    using run_keeps_inv [where ss = steps and steps = steps and B = B, OF start_keeps_inv [of J steps rp]]
    by (simp add: assms)
  have "mset (concat (map (owed (rp_peers rp)) (rw_tasks w))) \<subseteq># delivered w"
    by (rule subset_mset.order_trans [OF owed_handled replication_invD(3) [OF inv]])
  moreover have "(u, m) \<in># delivered w" if "(u, m) \<in> set (rw_received w)" for u m
    using that by (simp add: delivered_def)
  ultimately show ?thesis using replication_invD(5) [OF inv] unfolding delivered_def by blast
qed

text \<open>A request whose answer is lost is sent again, so that the peer processes it twice.\<close>

theorem lost_answer_repeats:
  assumes "i < length (rw_tasks w)" and "rw_tasks w ! i = Sending json (p # ps) 0"
  shows "rw_received (replication_run B J [Attempt i Processed, Attempt i Confirmed] w) =
    rw_received w @ [(peer_url p, json), (peer_url p, json)]"
  using assms by (simp add: replication_run_def attempt_request_def arrives_def Let_def)

text \<open>
  Left alone, the requests of a task for its first peer do what the operation of the coordinator
  does, for each choice of the answers.
\<close>

lemma attempts_refine:
  assumes "i < length (rw_tasks w)" and "rw_tasks w ! i = Sending json (p # ps) k" and "k + n = 5" and "0 < n"
  shows "\<exists>outs. rw_node (fold (attempt_request i) outs w) =
      (if send_attempts answers n (k + 1) then rw_node w
       else (rw_node w)\<lparr>rp_pending := rp_pending (rw_node w) @ [(peer_url p, json, 0)]\<rparr>) \<and>
    rw_tasks (fold (attempt_request i) outs w) = (rw_tasks w)[i := Sending json ps 0]"
  using assms
proof (induction n arbitrary: k w)
  case (Suc n)
  show ?case
  proof (cases "answers (k + 1)")
    case True
    show ?thesis
      by (rule exI [of _ "[Confirmed]"]) (use Suc.prems True in \<open>simp add: attempt_request_def Let_def\<close>)
  next
    case False
    show ?thesis
    proof (cases "n = 0")
      case True
      show ?thesis
        by (rule exI [of _ "[Unreached]"])
          (use Suc.prems True False in \<open>simp add: attempt_request_def Let_def enqueue_def arrives_def\<close>)
    next
      case more: False
      let ?w = "attempt_request i Unreached w"
      have w: "rw_tasks ?w = (rw_tasks w)[i := Sending json (p # ps) (k + 1)]" "rw_node ?w = rw_node w"
        using Suc.prems more by (simp_all add: attempt_request_def Let_def arrives_def)
      then obtain outs where "rw_node (fold (attempt_request i) outs ?w) =
          (if send_attempts answers n (k + 1 + 1) then rw_node ?w
           else (rw_node ?w)\<lparr>rp_pending := rp_pending (rw_node ?w) @ [(peer_url p, json, 0)]\<rparr>) \<and>
        rw_tasks (fold (attempt_request i) outs ?w) = (rw_tasks ?w)[i := Sending json ps 0]"
        using Suc.IH [of ?w "k + 1"] Suc.prems more by auto
      then show ?thesis
        using False w by (intro exI [of _ "Unreached # outs"]) simp
    qed
  qed
qed simp

theorem send_refines:
  assumes "i < length (rw_tasks w)" and "rw_tasks w ! i = Sending json (p # ps) 0"
  shows "\<exists>outs. rw_node (fold (attempt_request i) outs w) = send_to_peer net json p (rw_node w) \<and>
    rw_tasks (fold (attempt_request i) outs w) = (rw_tasks w)[i := Sending json ps 0]"
  using attempts_refine [OF assms, of 5 "net (peer_url p)"]
  by (simp add: send_to_peer_def send_with_retries_def)

lemma append_text_mode:
  assumes "\<not> es_binary_mode es" and "\<And>x. \<exists>j. ec_to_json C x = Inr j"
  shows "\<exists>es'. append_envelope crc sha C e es = (Inr (), es') \<and> \<not> es_binary_mode es'"
proof -
  from assms(2) obtain j where j: "ec_to_json C (chained sha es e) = Inr j" by blast
  have "\<not> es_binary_mode (note_appended crc s)" if "\<not> es_binary_mode s" for s
    using that by (simp add: note_appended_def es_flush_def Let_def)
  then show ?thesis using assms(1) j by (simp add: append_envelope_def Let_def)
qed

lemma apply_locally_text:
  assumes "cj_data J d = Inr json" and "\<not> es_binary_mode (rp_event_store rp)"
    and "\<And>x. \<exists>j. ec_to_json (lb_codec B) x = Inr j"
  shows "fst (apply_locally B J d rp) = Inr () \<and> \<not> es_binary_mode (rp_event_store (snd (apply_locally B J d rp)))"
proof -
  obtain es' where "append_envelope (lb_crc B) (lb_sha B) (lb_codec B) (replication_envelope J (rp_node_id rp) d json)
      (rp_event_store rp) = (Inr (), es')" "\<not> es_binary_mode es'"
    using append_text_mode [OF assms(2,3)] by blast
  then show ?thesis using assms(1) by (simp add: apply_locally_def es_flush_def)
qed

text \<open>
  The order is lost: an operation that met a peer that was down is delivered by the background task,
  after a later operation on the same item that got through at once.
\<close>

definition five_failures :: "nat \<Rightarrow> 'i replication_step list" where
  "five_failures i = [Attempt i Unreached, Attempt i Unreached, Attempt i Unreached, Attempt i Unreached,
     Attempt i Unreached]"

theorem replication_reorders:
  assumes "rp_peers rp = [p]" and "rp_pending rp = []"
    and "cj_data J d = Inr old" and "cj_data J e = Inr new"
    and "\<not> es_binary_mode (rp_event_store rp)" and "\<And>x. \<exists>j. ec_to_json (lb_codec B) x = Inr j"
  shows "rw_received (replication_run B J
      ([Propose d] @ five_failures 0 @ [Return 0, Propose e, Attempt 1 Confirmed, Return 1, DrainTake, DrainSend Confirmed])
      (replication_start rp)) = [(peer_url p, new), (peer_url p, old)]"
proof -
  obtain rp1 where r1: "apply_locally B J d rp = (Inr (), rp1)" "\<not> es_binary_mode (rp_event_store rp1)"
    using apply_locally_text [OF assms(3,5,6)] by (cases "apply_locally B J d rp") auto
  note k1 = apply_locally_keeps [of B J d rp, unfolded r1(1) snd_conv]
  let ?q = "rp1\<lparr>rp_pending := [(peer_url p, old, 0)]\<rparr>"
  have "\<not> es_binary_mode (rp_event_store ?q)" using r1(2) by simp
  from apply_locally_text [OF assms(4) this assms(6)] obtain rp2 where r2: "apply_locally B J e ?q = (Inr (), rp2)"
    by (cases "apply_locally B J e ?q") auto
  note k2 = apply_locally_keeps [of B J e ?q, unfolded r2 snd_conv]
  have "replication_run B J ([Propose d] @ five_failures 0 @ [Return 0]) (replication_start rp) =
      \<lparr>rw_node = ?q, rw_tasks = [Returned old], rw_draining = [], rw_received = []\<rparr>"
    using assms k1
    by (simp add: replication_run_def replication_start_def five_failures_def r1(1) attempt_request_def
        arrives_def enqueue_def Let_def)
  moreover have "rw_received (replication_run B J
      [Propose e, Attempt 1 Confirmed, Return 1, DrainTake, DrainSend Confirmed]
      \<lparr>rw_node = ?q, rw_tasks = [Returned old], rw_draining = [], rw_received = []\<rparr>) =
      [(peer_url p, new), (peer_url p, old)]"
    using assms k1 k2
    by (simp add: replication_run_def r2 attempt_request_def arrives_def drain_take_def drain_send_def
        Let_def)
  ultimately show ?thesis by (simp add: replication_run_def)
qed

section \<open>A concrete coordinator\<close>

definition demo_crud :: "nat crud_codec" where
  "demo_crud =
     \<lparr>cj_data = \<lambda>d. Inr (case ap_operation d of CreateOp i k \<Rightarrow> ''create '' @ k | UpdateOp i k \<Rightarrow> ''update '' @ k
        | DeleteOp k \<Rightarrow> ''delete '' @ k),
      cj_event = re_data\<rparr>"

definition demo_lib :: log_lib where
  "demo_lib = \<lparr>lb_crc = demo_crc, lb_sha = demo_sha, lb_codec = demo_codec\<rparr>"

definition demo_coordinator :: replicator where
  "demo_coordinator = replicator_new demo_store 1 [''b:8081'']"

definition demo_operation :: "nat crud_operation \<Rightarrow> nat app_data" where
  "demo_operation x = \<lparr>ap_operation = x, ap_model_type = ''item'', ap_timestamp = 7, ap_node_id = 1\<rparr>"

lemma demo_coordinator_simps [simp]:
  "rp_peers demo_coordinator = [''b:8081'']" "rp_pending demo_coordinator = []"
  "\<not> es_binary_mode (rp_event_store demo_coordinator)"
  by (simp_all add: demo_coordinator_def replicator_new_def demo_store_def event_store_with_storage_def)

lemma demo_lib_json: "\<exists>j. ec_to_json (lb_codec demo_lib) x = Inr j"
  by (simp add: demo_lib_def demo_codec_def)

lemma replication_reorders_witness:
  "rw_received (replication_run demo_lib demo_crud
      ([Propose (demo_operation (CreateOp 5 ''a''))] @ five_failures 0 @
       [Return 0, Propose (demo_operation (DeleteOp ''a'')), Attempt 1 Confirmed, Return 1, DrainTake, DrainSend Confirmed])
      (replication_start demo_coordinator)) =
   [(peer_url ''b:8081'', ''delete a''), (peer_url ''b:8081'', ''create a'')]"
  by (rule replication_reorders [OF _ _ _ _ _ demo_lib_json]) (simp_all add: demo_crud_def demo_operation_def)

lemma replication_loses_nothing_witness:
  "\<exists>w. replication_run demo_lib demo_crud
      ([Propose (demo_operation (DeleteOp ''a''))] @ five_failures 0 @ [Return 0, DrainTake, DrainSend Processed])
      (replication_start demo_coordinator) = w \<and>
    rw_tasks w = [Returned ''delete a''] \<and> rw_received w = [(peer_url ''b:8081'', ''delete a'')] \<and>
    {#(peer_url ''b:8081'', ''delete a'')#} \<subseteq># mset (rw_received w) + mset (waiting w)"
proof -
  let ?s = "[Propose (demo_operation (DeleteOp ''a''))] @ five_failures 0 @ [Return 0, DrainTake, DrainSend Processed]"
  obtain w where r: "replication_run demo_lib demo_crud ?s (replication_start demo_coordinator) = w" by blast
  have j: "cj_data demo_crud (demo_operation (DeleteOp ''a'')) = Inr ''delete a''"
    by (simp add: demo_crud_def demo_operation_def)
  obtain rp1 where a: "apply_locally demo_lib demo_crud (demo_operation (DeleteOp ''a'')) demo_coordinator = (Inr (), rp1)"
    using apply_locally_text [OF j _ demo_lib_json, of demo_coordinator]
    by (cases "apply_locally demo_lib demo_crud (demo_operation (DeleteOp ''a'')) demo_coordinator") auto
  note k = apply_locally_keeps [of demo_lib demo_crud "demo_operation (DeleteOp ''a'')" demo_coordinator, unfolded a snd_conv]
  have w: "rw_tasks w = [Returned ''delete a'']" "rw_received w = [(peer_url ''b:8081'', ''delete a'')]"
    unfolding r [symmetric] using k
    by (simp_all add: replication_run_def replication_start_def five_failures_def a j attempt_request_def
        arrives_def enqueue_def drain_take_def drain_send_def Let_def)
  from replication_loses_nothing [OF r] w have "{#(peer_url ''b:8081'', ''delete a'')#} \<subseteq># mset (rw_received w) + mset (waiting w)"
    by simp
  with r w show ?thesis by blast
qed

end
