(* ===== verification/ModelHandler.thy ===== *)
theory ModelHandler
  imports Accounts HttpQuery HttpConsensus
begin

text \<open>
  The REST endpoints of a model, from \<^verbatim>\<open>lithair-core/src/http/declarative.rs\<close>: creation, bulk
  creation, reading, listing, updating and deleting over the storage in memory and the event log, with the
  permissions of sessions and extractors, the replication of a cluster, the operations that a follower
  applies, the edits of an administrator, and the replay at startup. What the derive macro generates for
  a model and the serialisers are the record \<open>model\<close>; the clocks are arguments.
\<close>

section \<open>Models and requests\<close>

record ('i, 'n) model =
  md_type_name :: string
  md_base_path :: string
  md_key :: "'i \<Rightarrow> string"
  md_validate :: "'i \<Rightarrow> string option"
  md_lifecycle :: "'i \<Rightarrow> string + 'i"
  md_can_read :: "'i \<Rightarrow> string list \<Rightarrow> bool"
  md_can_write :: "'i \<Rightarrow> string list \<Rightarrow> bool"
  md_to_json :: "'i \<Rightarrow> string option"
  md_of_json :: "string \<Rightarrow> 'i option"
  md_list_to_json :: "'i list \<Rightarrow> string option"
  md_list_of_json :: "string \<Rightarrow> 'i list option"
  md_to_value :: "'i \<Rightarrow> 'n jvalue option"
  md_of_value :: "'n jvalue \<Rightarrow> string + 'i"

record api_request =
  aq_request :: request
  aq_content_type :: "string option"
  aq_query :: "string option"
  aq_body :: "string option"

text \<open>
  The environment of a handler; the settings that the code reads from environment variables are
  \<open>ae_max_single\<close>, \<open>ae_max_bulk\<close> and \<open>ae_disable_consensus\<close>.
\<close>

record ('i, 'n, 'f, 'v) api_env =
  ae_model :: "('i, 'n) model"
  ae_numbers :: "('n, 'f) number_lib"
  ae_lib :: log_lib
  ae_crud :: "'i crud_codec"
  ae_replicated :: replicated_model
  ae_as_string :: "'v \<Rightarrow> string option"
  ae_page_json :: "'n page \<Rightarrow> string option"
  ae_max_single :: nat
  ae_max_bulk :: nat
  ae_disable_consensus :: bool

record ('i, 'n, 'v) handler =
  mh_store :: event_store
  mh_storage :: "(string, 'i) dict"
  mh_consensus :: "consensus option"
  mh_checker :: "(string \<Rightarrow> string \<Rightarrow> bool) option"
  mh_extractor :: "(api_request \<Rightarrow> string list) option"
  mh_sessions :: "'v session_manager"
  mh_sse :: "(string \<times> string \<times> 'n jvalue) list option"

definition handler_new :: "event_store \<Rightarrow> ('i, 'n, 'v) handler" where
  "handler_new es =
     \<lparr>mh_store = es, mh_storage = [], mh_consensus = None, mh_checker = None, mh_extractor = None,
      mh_sessions = NoManager, mh_sse = None\<rparr>"

text \<open>The last segment of the name of the type.\<close>

definition short_name :: "('i, 'n) model \<Rightarrow> string" where
  "short_name M = rev (takeWhile (\<lambda>c. c \<noteq> CHR '':'') (rev (md_type_name M)))"

section \<open>Answers\<close>

definition not_found_response :: response where
  "not_found_response = json_response 404 (error_body ''Not found'')"

definition bad_request_response :: "string \<Rightarrow> response" where
  "bad_request_response msg = json_response 400 (error_body msg)"

definition internal_error_response :: response where
  "internal_error_response = json_response 500 (error_body ''Internal server error'')"

definition unsupported_media_type_response :: response where
  "unsupported_media_type_response =
     json_response 415 (error_body ''unsupported media type, expected application/json'')"

definition entity_too_large_response :: "nat \<Rightarrow> response" where
  "entity_too_large_response n =
     json_response 413 (error_body (''request body too large (max '' @ show_nat n @ '' bytes)''))"

definition method_not_allowed_response :: "string \<Rightarrow> response" where
  "method_not_allowed_response allowed =
     \<lparr>hs_status = 405, hs_headers = [(''content-type'', ''application/json''), (''allow'', allowed)],
      hs_body = ''{'' @ json_key ''error'' @ [CHR 34] @ ''method not allowed'' @ [CHR 34] @ '','' @
        json_key ''allow'' @ [CHR 34] @ allowed @ [CHR 34] @ ''}''\<rparr>"

definition forbidden_response :: response where
  "forbidden_response = json_response 403 (error_body ''Insufficient permissions'')"

definition unauthorized_response :: response where
  "unauthorized_response = json_response 401 (error_body ''Authentication required'')"

definition consensus_failed :: "string \<Rightarrow> response" where
  "consensus_failed e =
     json_response 503 (''{'' @ json_key ''error'' @ '' '' @ [CHR 34] @ ''Consensus failed: '' @ e @ [CHR 34] @ ''}'')"

definition ascii_lower :: "string \<Rightarrow> string" where
  "ascii_lower s =
     map (\<lambda>c. if 65 \<le> (of_char c :: nat) \<and> (of_char c :: nat) \<le> 90 then char_of (of_char c + 32 :: nat) else c) s"

definition has_json_content_type :: "api_request \<Rightarrow> bool" where
  "has_json_content_type r =
     (case aq_content_type r of
        Some c \<Rightarrow> contains_text ''application/json'' (ascii_lower c)
      | None \<Rightarrow> False)"

definition content_length :: "api_request \<Rightarrow> nat option" where
  "content_length r = Option.bind (hr_content_length (aq_request r)) (parse_unsigned (2 ^ 64 - 1))"

text \<open>The checks of the body that creation, bulk creation and update share.\<close>

definition checked_body :: "nat \<Rightarrow> api_request \<Rightarrow> response + string" where
  "checked_body limit r =
     (if \<not> has_json_content_type r then Inl unsupported_media_type_response
      else if (case content_length r of Some n \<Rightarrow> limit < n | None \<Rightarrow> False)
      then Inl (entity_too_large_response limit)
      else case aq_body r of
             None \<Rightarrow> Inl (bad_request_response ''Invalid body'')
           | Some b \<Rightarrow> (if limit < length b then Inl (entity_too_large_response limit) else Inr b))"

section \<open>Permissions\<close>

definition extract_role :: "('i, 'n, 'f, 'v) api_env \<Rightarrow> int \<Rightarrow> ('i, 'n, 'v) handler \<Rightarrow> api_request \<Rightarrow> string option" where
  "extract_role E t h r =
     (case mh_sessions h of
        Persistent p \<Rightarrow>
          (case bearer (aq_request r) of
             None \<Rightarrow> None
           | Some tok \<Rightarrow> Option.bind (ps_get t (trim tok) p) (session_get (ae_as_string E) ''role''))
      | _ \<Rightarrow> None)"

definition authorize_write ::
  "('i, 'n, 'f, 'v) api_env \<Rightarrow> ('i, 'n, 'v) handler \<Rightarrow> string list option \<Rightarrow> string option \<Rightarrow> string \<Rightarrow> 'i \<Rightarrow> response option"
where
  "authorize_write E h perms role verb item =
     (case perms of
        Some ps \<Rightarrow> (if \<not> md_can_write (ae_model E) item ps then Some forbidden_response else None)
      | None \<Rightarrow>
          (case mh_checker h of
             None \<Rightarrow> None
           | Some c \<Rightarrow>
               (case role of
                  None \<Rightarrow> Some unauthorized_response
                | Some rl \<Rightarrow>
                    (if \<not> c rl (short_name (ae_model E) @ verb) \<and> \<not> c rl verb then Some forbidden_response
                     else None))))"

definition extracted_perms :: "('i, 'n, 'v) handler \<Rightarrow> api_request \<Rightarrow> string list option" where
  "extracted_perms h r = map_option (\<lambda>f. f r) (mh_extractor h)"

definition extracted_role where
  "extracted_role E t h r = (if extracted_perms h r = None then extract_role E t h r else None)"

section \<open>Storage and log\<close>

definition actual_key :: "('i, 'n) model \<Rightarrow> 'i \<Rightarrow> string" where
  "actual_key M i =
     (case Option.bind (md_to_value M i) (value_get ''id'') of
        Some (JText k) \<Rightarrow> k
      | _ \<Rightarrow> md_key M i)"

definition store_item :: "string \<Rightarrow> 'i \<Rightarrow> ('i, 'n, 'v) handler \<Rightarrow> ('i, 'n, 'v) handler" where
  "store_item k i h = h\<lparr>mh_storage := AList.update k i (mh_storage h)\<rparr>"

definition remove_item :: "string \<Rightarrow> ('i, 'n, 'v) handler \<Rightarrow> ('i, 'n, 'v) handler" where
  "remove_item k h = h\<lparr>mh_storage := AList.delete k (mh_storage h)\<rparr>"

definition item_envelope :: "('i, 'n) model \<Rightarrow> u64 \<Rightarrow> string \<Rightarrow> string \<Rightarrow> 'i \<Rightarrow> envelope" where
  "item_envelope M now operation json i =
     \<lparr>ev_event_type = md_type_name M @ operation,
      ev_event_id = md_type_name M @ '':'' @ operation @ '':'' @ md_key M i,
      ev_timestamp = now, ev_payload = json, ev_aggregate_id = Some (md_key M i),
      ev_event_hash = None, ev_previous_hash = None\<rparr>"

definition append_to_log ::
  "('i, 'n, 'f, 'v) api_env \<Rightarrow> envelope \<Rightarrow> ('i, 'n, 'v) handler \<Rightarrow> (engine_error + unit) \<times> ('i, 'n, 'v) handler"
where
  "append_to_log E e h =
     (case append_envelope (lb_crc (ae_lib E)) (lb_sha (ae_lib E)) (lb_codec (ae_lib E)) e (mh_store h) of
        (r, es) \<Rightarrow> (r, h\<lparr>mh_store := es\<rparr>))"

definition persist_to_event_store ::
  "('i, 'n, 'f, 'v) api_env \<Rightarrow> u64 \<Rightarrow> string \<Rightarrow> 'i \<Rightarrow> ('i, 'n, 'v) handler \<Rightarrow> bool \<times> ('i, 'n, 'v) handler"
where
  "persist_to_event_store E now operation i h =
     (case md_to_json (ae_model E) i of
        None \<Rightarrow> (False, h)
      | Some json \<Rightarrow>
          (case append_to_log E (item_envelope (ae_model E) now operation json i) h of
             (Inl e, h') \<Rightarrow> (False, h')
           | (Inr _, h') \<Rightarrow> (True, h')))"

definition broadcast_sse :: "('i, 'n, 'f, 'v) api_env \<Rightarrow> string \<Rightarrow> 'i \<Rightarrow> ('i, 'n, 'v) handler \<Rightarrow> ('i, 'n, 'v) handler" where
  "broadcast_sse E operation i h =
     (case (mh_sse h, md_to_value (ae_model E) i) of
        (Some log, Some v) \<Rightarrow> h\<lparr>mh_sse := Some (log @ [(md_base_path (ae_model E), operation, v)])\<rparr>
      | _ \<Rightarrow> h)"

text \<open>The end of a write: the event, the notification and the item as the answer.\<close>

definition finish_write ::
  "('i, 'n, 'f, 'v) api_env \<Rightarrow> u64 \<Rightarrow> string \<Rightarrow> string \<Rightarrow> nat \<Rightarrow> 'i \<Rightarrow> ('i, 'n, 'v) handler \<Rightarrow>
   response \<times> ('i, 'n, 'v) handler"
where
  "finish_write E now operation topic status i h =
     (case persist_to_event_store E now operation i h of
        (False, h1) \<Rightarrow> (internal_error_response, h1)
      | (True, h1) \<Rightarrow>
          (case md_to_json (ae_model E) i of
             Some json \<Rightarrow> (json_response status json, broadcast_sse E topic i h1)
           | None \<Rightarrow> (internal_error_response, broadcast_sse E topic i h1)))"

section \<open>Creation\<close>

text \<open>The validated item, or the answer to an invalid one.\<close>

definition prepared :: "('i, 'n) model \<Rightarrow> 'i \<Rightarrow> response + 'i" where
  "prepared M i =
     (case md_validate M i of
        Some e \<Rightarrow> Inl (bad_request_response e)
      | None \<Rightarrow> map_sum bad_request_response id (md_lifecycle M i))"

type_synonym net = "string \<Rightarrow> nat \<Rightarrow> bool"

definition handle_create ::
  "('i, 'n, 'f, 'v) api_env \<Rightarrow> net \<Rightarrow> int \<Rightarrow> u64 \<Rightarrow> api_request \<Rightarrow> ('i, 'n, 'v) handler \<Rightarrow> response \<times> ('i, 'n, 'v) handler"
where
  "handle_create E net t now r h =
     (case checked_body (ae_max_single E) r of
        Inl a \<Rightarrow> (a, h)
      | Inr body \<Rightarrow>
          (case md_of_json (ae_model E) body of
             None \<Rightarrow> (bad_request_response ''Invalid JSON'', h)
           | Some i0 \<Rightarrow>
               (case authorize_write E h (extracted_perms h r) (extracted_role E t h r) ''Write'' i0 of
                  Some a \<Rightarrow> (a, h)
                | None \<Rightarrow>
                    (case prepared (ae_model E) i0 of
                       Inl a \<Rightarrow> (a, h)
                     | Inr i \<Rightarrow>
                         (case mh_consensus h of
                            None \<Rightarrow> finish_write E now ''Created'' ''create'' 201 i (store_item (md_key (ae_model E) i) i h)
                          | Some c \<Rightarrow>
                              (case propose_create (ae_lib E) (ae_crud E) net (ae_replicated E) now i
                                      (md_key (ae_model E) i) c of
                                 (Inl e, c') \<Rightarrow> (consensus_failed e, h\<lparr>mh_consensus := Some c'\<rparr>)
                               | (Inr _, c') \<Rightarrow>
                                   finish_write E now ''Created'' ''create'' 201 i
                                     (store_item (actual_key (ae_model E) i) i (h\<lparr>mh_consensus := Some c'\<rparr>))))))))"

text \<open>
  The loop of the bulk creation: the items created so far, or the answer that ends it. What was created
  before stays.
\<close>

fun bulk_items ::
  "('i, 'n, 'f, 'v) api_env \<Rightarrow> net \<Rightarrow> u64 \<Rightarrow> 'i list \<Rightarrow> 'i list \<Rightarrow> ('i, 'n, 'v) handler \<Rightarrow>
   (response + 'i list) \<times> ('i, 'n, 'v) handler"
where
  "bulk_items E net now [] created h = (Inr created, h)"
| "bulk_items E net now (i0 # is) created h =
     (case prepared (ae_model E) i0 of
        Inl a \<Rightarrow> (Inl a, h)
      | Inr i \<Rightarrow>
          (case (mh_consensus h, ae_disable_consensus E) of
             (Some c, False) \<Rightarrow>
               (case propose_create (ae_lib E) (ae_crud E) net (ae_replicated E) now i (md_key (ae_model E) i) c of
                  (Inl e, c') \<Rightarrow>
                    (Inl (json_response 503 (error_body (''Consensus failed: '' @ e))), h\<lparr>mh_consensus := Some c'\<rparr>)
                | (Inr _, c') \<Rightarrow>
                    (case persist_to_event_store E now ''Created'' i
                            (store_item (actual_key (ae_model E) i) i (h\<lparr>mh_consensus := Some c'\<rparr>)) of
                       (False, h1) \<Rightarrow> (Inl internal_error_response, h1)
                     | (True, h1) \<Rightarrow> bulk_items E net now is (created @ [i]) h1))
           | _ \<Rightarrow>
               (case persist_to_event_store E now ''Created'' i (store_item (md_key (ae_model E) i) i h) of
                  (False, h1) \<Rightarrow> (Inl internal_error_response, h1)
                | (True, h1) \<Rightarrow> bulk_items E net now is (created @ [i]) h1)))"

definition handle_bulk_create ::
  "('i, 'n, 'f, 'v) api_env \<Rightarrow> net \<Rightarrow> u64 \<Rightarrow> api_request \<Rightarrow> ('i, 'n, 'v) handler \<Rightarrow> response \<times> ('i, 'n, 'v) handler"
where
  "handle_bulk_create E net now r h =
     (case checked_body (ae_max_bulk E) r of
        Inl a \<Rightarrow> (a, h)
      | Inr body \<Rightarrow>
          (case md_list_of_json (ae_model E) body of
             None \<Rightarrow> (bad_request_response ''Invalid JSON array'', h)
           | Some is \<Rightarrow>
               (case bulk_items E net now is [] h of
                  (Inl a, h1) \<Rightarrow> (a, h1)
                | (Inr created, h1) \<Rightarrow>
                    ((case md_list_to_json (ae_model E) created of
                        Some json \<Rightarrow> json_response 201 json
                      | None \<Rightarrow> internal_error_response), h1))))"

section \<open>Reading\<close>

definition user_perms :: "('i, 'n, 'v) handler \<Rightarrow> api_request \<Rightarrow> string list" where
  "user_perms h r = (case mh_extractor h of Some f \<Rightarrow> f r | None \<Rightarrow> [])"

definition handle_get :: "('i, 'n, 'f, 'v) api_env \<Rightarrow> string \<Rightarrow> api_request \<Rightarrow> ('i, 'n, 'v) handler \<Rightarrow> response" where
  "handle_get E i r h =
     (case map_of (mh_storage h) i of
        None \<Rightarrow> not_found_response
      | Some x \<Rightarrow>
          (if \<not> md_can_read (ae_model E) x (user_perms h r) then forbidden_response
           else case md_to_json (ae_model E) x of
                  Some json \<Rightarrow> json_response 200 json
                | None \<Rightarrow> internal_error_response))"

definition readable_values :: "('i, 'n, 'f, 'v) api_env \<Rightarrow> api_request \<Rightarrow> ('i, 'n, 'v) handler \<Rightarrow> 'n jvalue list" where
  "readable_values E r h =
     List.map_filter (md_to_value (ae_model E))
       (filter (\<lambda>x. md_can_read (ae_model E) x (user_perms h r)) (map snd (mh_storage h)))"

text \<open>
  A panic of the sort ends the task of the connection, which closes without an answer: the response
  with the status 0, which no answer has.
\<close>

definition no_answer :: response where
  "no_answer = \<lparr>hs_status = 0, hs_headers = [], hs_body = []\<rparr>"

definition handle_list :: "('i, 'n, 'f, 'v) api_env \<Rightarrow> api_request \<Rightarrow> ('i, 'n, 'v) handler \<Rightarrow> response" where
  "handle_list E r h =
     (let q = parse_query_params (case aq_query r of Some q \<Rightarrow> q | None \<Rightarrow> [])
      in case list_page (ae_numbers E) q (readable_values E r h) of
           None \<Rightarrow> no_answer
         | Some p \<Rightarrow>
             (case ae_page_json E p of
                Some json \<Rightarrow> json_response 200 json
              | None \<Rightarrow> internal_error_response))"

definition handle_count :: "('i, 'n, 'v) handler \<Rightarrow> response" where
  "handle_count h = json_response 200 (''{'' @ json_key ''count'' @ show_nat (length (mh_storage h)) @ ''}'')"

text \<open>The first entry in the order of the hash map, which is the order of the list here.\<close>

definition handle_random_id :: "('i, 'n, 'v) handler \<Rightarrow> response" where
  "handle_random_id h =
     (case mh_storage h of
        [] \<Rightarrow> json_response 404 (error_body ''no ids available'')
      | (k, x) # _ \<Rightarrow> json_response 200 (''{'' @ json_key ''id'' @ [CHR 34] @ k @ [CHR 34] @ ''}''))"

text \<open>The head of a stream; its body goes on with the events.\<close>

definition handle_sse_stream :: "('i, 'n, 'v) handler \<Rightarrow> response" where
  "handle_sse_stream h =
     (case mh_sse h of
        Some _ \<Rightarrow> \<lparr>hs_status = 200,
           hs_headers = [(''content-type'', ''text/event-stream''), (''cache-control'', ''no-cache''),
             (''connection'', ''keep-alive''), (''x-accel-buffering'', ''no'')],
           hs_body = ''event: connected''\<rparr>
      | None \<Rightarrow> json_response 404 (error_body ''SSE not enabled''))"

section \<open>Update and deletion\<close>

definition handle_update ::
  "('i, 'n, 'f, 'v) api_env \<Rightarrow> net \<Rightarrow> int \<Rightarrow> u64 \<Rightarrow> string \<Rightarrow> api_request \<Rightarrow> ('i, 'n, 'v) handler \<Rightarrow>
   response \<times> ('i, 'n, 'v) handler"
where
  "handle_update E net t now k r h =
     (case checked_body (ae_max_single E) r of
        Inl a \<Rightarrow> (a, h)
      | Inr body \<Rightarrow>
          (case md_of_json (ae_model E) body of
             None \<Rightarrow> (bad_request_response ''Invalid JSON'', h)
           | Some i0 \<Rightarrow>
               (case authorize_write E h (extracted_perms h r) (extracted_role E t h r) ''Write'' i0 of
                  Some a \<Rightarrow> (a, h)
                | None \<Rightarrow>
                    (case prepared (ae_model E) i0 of
                       Inl a \<Rightarrow> (a, h)
                     | Inr i \<Rightarrow>
                         (case (case mh_consensus h of
                                  None \<Rightarrow> (Inr (), h)
                                | Some c \<Rightarrow>
                                    (case propose_update (ae_lib E) (ae_crud E) net (ae_replicated E) now i k c of
                                       (res, c') \<Rightarrow> (res, h\<lparr>mh_consensus := Some c'\<rparr>))) of
                            (Inl e, h1) \<Rightarrow> (consensus_failed e, h1)
                          | (Inr _, h1) \<Rightarrow>
                              (if map_of (mh_storage h1) k = None then (not_found_response, h1)
                               else finish_write E now ''Updated'' ''update'' 200 i (store_item k i h1)))))))"

definition delete_item ::
  "('i, 'n, 'f, 'v) api_env \<Rightarrow> u64 \<Rightarrow> string \<Rightarrow> ('i, 'n, 'v) handler \<Rightarrow> response \<times> ('i, 'n, 'v) handler"
where
  "delete_item E now k h =
     (case map_of (mh_storage h) k of
        None \<Rightarrow> (not_found_response, h)
      | Some x \<Rightarrow>
          (case persist_to_event_store E now ''Deleted'' x (remove_item k h) of
             (False, h1) \<Rightarrow> (internal_error_response, h1)
           | (True, h1) \<Rightarrow>
               (\<lparr>hs_status = 204, hs_headers = [], hs_body = []\<rparr>, broadcast_sse E ''delete'' x h1)))"

definition handle_delete ::
  "('i, 'n, 'f, 'v) api_env \<Rightarrow> net \<Rightarrow> int \<Rightarrow> u64 \<Rightarrow> string \<Rightarrow> api_request \<Rightarrow> ('i, 'n, 'v) handler \<Rightarrow>
   response \<times> ('i, 'n, 'v) handler"
where
  "handle_delete E net t now k r h =
     (case Option.bind (map_of (mh_storage h) k)
             (authorize_write E h (extracted_perms h r) (extracted_role E t h r) ''Delete'') of
        Some a \<Rightarrow> (a, h)
      | None \<Rightarrow>
          (case mh_consensus h of
             None \<Rightarrow> delete_item E now k h
           | Some c \<Rightarrow>
               (case propose_delete (ae_lib E) (ae_crud E) net (ae_replicated E) now k c of
                  (Inl e, c') \<Rightarrow> (consensus_failed e, h\<lparr>mh_consensus := Some c'\<rparr>)
                | (Inr _, c') \<Rightarrow> delete_item E now k (h\<lparr>mh_consensus := Some c'\<rparr>))))"

section \<open>Dispatch\<close>

definition handle_model_request ::
  "('i, 'n, 'f, 'v) api_env \<Rightarrow> net \<Rightarrow> int \<Rightarrow> u64 \<Rightarrow> api_request \<Rightarrow> string list \<Rightarrow> ('i, 'n, 'v) handler \<Rightarrow>
   response \<times> ('i, 'n, 'v) handler"
where
  "handle_model_request E net t now r segments h =
     (let m = hr_method (aq_request r)
      in case segments of
           [] \<Rightarrow>
             (if m = ''GET'' then (handle_list E r h, h)
              else if m = ''POST'' then handle_create E net t now r h
              else (method_not_allowed_response ''GET, POST'', h))
         | [s] \<Rightarrow>
             (if m = ''GET'' \<and> s = ''stream'' then (handle_sse_stream h, h)
              else if m = ''GET'' \<and> s = ''count'' then (handle_count h, h)
              else if m = ''GET'' \<and> s = ''random-id'' then (handle_random_id h, h)
              else if m = ''POST'' \<and> s = ''_bulk'' then handle_bulk_create E net now r h
              else if m = ''GET'' then (handle_get E s r h, h)
              else if m = ''PUT'' then handle_update E net t now s r h
              else if m = ''DELETE'' then handle_delete E net t now s r h
              else if s \<in> {''count'', ''random-id'', ''stream''} then (method_not_allowed_response ''GET'', h)
              else if s = ''_bulk'' then (method_not_allowed_response ''POST'', h)
              else (method_not_allowed_response ''GET, PUT, DELETE'', h))
         | _ \<Rightarrow> (not_found_response, h))"

section \<open>Replay\<close>

definition replay_event :: "('i, 'n, 'f, 'v) api_env \<Rightarrow> string \<Rightarrow> nat \<times> (string, 'i) dict \<Rightarrow> nat \<times> (string, 'i) dict" where
  "replay_event E json = (\<lambda>(n, st).
     (case Option.bind (ec_of_json (lb_codec (ae_lib E)) json) (\<lambda>e. md_of_json (ae_model E) (ev_payload e)) of
        Some i \<Rightarrow> (n + 1, AList.update (md_key (ae_model E) i) i st)
      | None \<Rightarrow> (n, st)))"

text \<open>The outer \<open>None\<close> is the panic of reading a damaged binary log.\<close>

definition replay_events ::
  "('i, 'n, 'f, 'v) api_env \<Rightarrow> ('i, 'n, 'v) handler \<Rightarrow> ((engine_error + nat) \<times> ('i, 'n, 'v) handler) option"
where
  "replay_events E h =
     map_option
       (\<lambda>es. case es of
          Inl e \<Rightarrow> (Inl e, h)
        | Inr jsons \<Rightarrow>
            (case fold (replay_event E) jsons (0, mh_storage h) of
               (n, st) \<Rightarrow> (Inr n, h\<lparr>mh_storage := st\<rparr>)))
       (get_all_events (lb_crc (ae_lib E)) (lb_codec (ae_lib E)) (mh_store h))"

definition new_with_replay ::
  "('i, 'n, 'f, 'v) api_env \<Rightarrow> event_store \<Rightarrow> (engine_error + ('i, 'n, 'v) handler) option"
where
  "new_with_replay E es =
     map_option (\<lambda>(r, h). map_sum id (\<lambda>_. h) r) (replay_events E (handler_new es))"

section \<open>Replicated items and edits\<close>

definition reconcile_replace_all :: "('i, 'n) model \<Rightarrow> 'i list \<Rightarrow> ('i, 'n, 'v) handler \<Rightarrow> ('i, 'n, 'v) handler" where
  "reconcile_replace_all M is h =
     h\<lparr>mh_storage := fold (\<lambda>i. AList.update (actual_key M i) i) is []\<rparr>"

definition apply_replicated_item ::
  "('i, 'n, 'f, 'v) api_env \<Rightarrow> u64 \<Rightarrow> 'i \<Rightarrow> ('i, 'n, 'v) handler \<Rightarrow> ('i, 'n, 'v) handler"
where
  "apply_replicated_item E now i h =
     snd (persist_to_event_store E now ''Replicated'' i (store_item (actual_key (ae_model E) i) i h))"

definition apply_replicated_items ::
  "('i, 'n, 'f, 'v) api_env \<Rightarrow> u64 \<Rightarrow> 'i list \<Rightarrow> ('i, 'n, 'v) handler \<Rightarrow> nat \<times> ('i, 'n, 'v) handler"
where
  "apply_replicated_items E now is h = (length is, fold (apply_replicated_item E now) is h)"

definition apply_replicated_update ::
  "('i, 'n, 'f, 'v) api_env \<Rightarrow> u64 \<Rightarrow> string \<Rightarrow> 'i \<Rightarrow> ('i, 'n, 'v) handler \<Rightarrow> ('i, 'n, 'v) handler"
where
  "apply_replicated_update E now k i h =
     (if map_of (mh_storage h) k = None then apply_replicated_item E now i h
      else snd (persist_to_event_store E now ''Updated'' i (store_item k i h)))"

definition apply_replicated_delete ::
  "('i, 'n, 'f, 'v) api_env \<Rightarrow> u64 \<Rightarrow> string \<Rightarrow> ('i, 'n, 'v) handler \<Rightarrow> bool \<times> ('i, 'n, 'v) handler"
where
  "apply_replicated_delete E now k h =
     (case map_of (mh_storage h) k of
        Some x \<Rightarrow> (True, snd (persist_to_event_store E now ''Deleted'' x (remove_item k h)))
      | None \<Rightarrow> (False, h))"

definition merge_changes :: "'n jvalue \<Rightarrow> 'n jvalue \<Rightarrow> 'n jvalue" where
  "merge_changes v changes =
     (case (v, changes) of
        (JObject m, JObject c) \<Rightarrow> JObject (fold (\<lambda>(k, x). AList.update k x) c m)
      | _ \<Rightarrow> v)"

text \<open>\<open>ms\<close> is the time in milliseconds that goes into the identifier.\<close>

definition submit_admin_edit ::
  "('i, 'n, 'f, 'v) api_env \<Rightarrow> u64 \<Rightarrow> nat \<Rightarrow> string \<Rightarrow> 'n jvalue \<Rightarrow> ('i, 'n, 'v) handler \<Rightarrow>
   (string + 'i) \<times> ('i, 'n, 'v) handler"
where
  "submit_admin_edit E now ms k changes h =
     (let M = ae_model E
      in case map_of (mh_storage h) k of
           None \<Rightarrow> (Inl (''Entity '' @ [CHR 39] @ k @ [CHR 39] @ '' not found''), h)
         | Some x \<Rightarrow>
             (case md_to_value M x of
                None \<Rightarrow> (Inl ''Failed to serialize item: '', h)
              | Some v \<Rightarrow>
                  (case md_of_value M (merge_changes v changes) of
                     Inl e \<Rightarrow> (Inl (''Failed to apply changes: '' @ e), h)
                   | Inr i0 \<Rightarrow>
                       (case md_validate M i0 of
                          Some e \<Rightarrow> (Inl (''Validation failed: '' @ e), h)
                        | None \<Rightarrow>
                            (case md_lifecycle M i0 of
                               Inl e \<Rightarrow> (Inl (''Lifecycle error: '' @ e), h)
                             | Inr i \<Rightarrow>
                                 (let h1 = store_item k i h
                                  in case md_to_json M i of
                                       None \<Rightarrow> (Inl ''Failed to serialize: '', h1)
                                     | Some json \<Rightarrow>
                                         (case append_to_log E
                                                 \<lparr>ev_event_type = md_type_name M @ ''AdminEdit'',
                                                  ev_event_id = md_type_name M @ '':AdminEdit:'' @ k @ '':'' @ show_nat ms,
                                                  ev_timestamp = now, ev_payload = json, ev_aggregate_id = Some k,
                                                  ev_event_hash = None, ev_previous_hash = None\<rparr> h1 of
                                            (Inl e, h2) \<Rightarrow> (Inl (''Failed to persist event: '' @ engine_text e), h2)
                                          | (Inr _, h2) \<Rightarrow> (Inr i, h2))))))))"

definition get_entity_history :: "('i, 'n, 'f, 'v) api_env \<Rightarrow> string \<Rightarrow> ('i, 'n, 'v) handler \<Rightarrow> envelope list option" where
  "get_entity_history E k h =
     map_option
       (\<lambda>es. case es of
          Inl e \<Rightarrow> []
        | Inr jsons \<Rightarrow> filter (\<lambda>e. ev_aggregate_id e = Some k) (parse_all (lb_codec (ae_lib E)) jsons))
       (get_all_events (lb_crc (ae_lib E)) (lb_codec (ae_lib E)) (mh_store h))"

section \<open>Access from the program\<close>

definition storage_count :: "('i, 'n, 'v) handler \<Rightarrow> nat" where
  "storage_count h = length (mh_storage h)"

definition query_items :: "('i \<Rightarrow> bool) \<Rightarrow> ('i, 'n, 'v) handler \<Rightarrow> 'i list" where
  "query_items P h = filter P (map snd (mh_storage h))"

definition get_all_items :: "('i, 'n, 'v) handler \<Rightarrow> 'i list" where
  "get_all_items h = map snd (mh_storage h)"

definition get_by_id :: "string \<Rightarrow> ('i, 'n, 'v) handler \<Rightarrow> 'i option" where
  "get_by_id k h = map_of (mh_storage h) k"

definition is_consensus_enabled :: "('i, 'n, 'v) handler \<Rightarrow> bool" where
  "is_consensus_enabled h \<longleftrightarrow> mh_consensus h \<noteq> None"

definition with_permission_checker where
  "with_permission_checker c h = h\<lparr>mh_checker := Some c\<rparr>"

definition with_permission_extractor where
  "with_permission_extractor f h = h\<lparr>mh_extractor := Some f\<rparr>"

definition with_session_store where
  "with_session_store s h = h\<lparr>mh_sessions := s\<rparr>"

definition with_sse_broadcaster where
  "with_sse_broadcaster h = h\<lparr>mh_sse := Some []\<rparr>"

end
