(* ===== verification/ModelLife.thy ===== *)
theory ModelLife
  imports ModelHandler
begin

text \<open>
  What the endpoints of a model guarantee, over runs of requests: everything that is stored is found again
  after a restart, deletions included that should not be; the peers of a cluster have no influence on what
  a node answers or stores; writes of single items need a permission, writes in bulk do not.
\<close>

section \<open>Runs\<close>

record api_call =
  ac_net :: net
  ac_time :: int
  ac_now :: u64
  ac_request :: api_request
  ac_segments :: "string list"

definition api_step ::
  "('i, 'n, 'f, 'v) api_env \<Rightarrow> api_call \<Rightarrow> ('i, 'n, 'v) handler \<Rightarrow> response \<times> ('i, 'n, 'v) handler"
where
  "api_step E c h = handle_model_request E (ac_net c) (ac_time c) (ac_now c) (ac_request c) (ac_segments c) h"

fun api_run ::
  "('i, 'n, 'f, 'v) api_env \<Rightarrow> api_call list \<Rightarrow> ('i, 'n, 'v) handler \<Rightarrow> response list \<times> ('i, 'n, 'v) handler"
where
  "api_run E [] h = ([], h)"
| "api_run E (c # cs) h =
     (let (a, h1) = api_step E c h; (as, h2) = api_run E cs h1 in (a # as, h2))"

text \<open>A new process on the files of the log, once it is flushed.\<close>

definition restarted ::
  "('i, 'n, 'f, 'v) api_env \<Rightarrow> store_settings \<Rightarrow> ('i, 'n, 'v) handler \<Rightarrow> (engine_error + ('i, 'n, 'v) handler) option"
where
  "restarted E st h =
     Option.bind
       (event_store_new (lb_crc (ae_lib E)) (lb_codec (ae_lib E)) st False
          (files_of (es_storage (es_flush_events (lb_crc (ae_lib E)) (mh_store h)))))
       (new_with_replay E)"

section \<open>The log as a table\<close>

definition insert_item :: "('i, 'n) model \<Rightarrow> 'i \<Rightarrow> (string, 'i) dict \<Rightarrow> (string, 'i) dict" where
  "insert_item M i st = AList.update (md_key M i) i st"

definition log_items :: "('i, 'n, 'f, 'v) api_env \<Rightarrow> event_store \<Rightarrow> 'i list" where
  "log_items E es =
     List.map_filter (\<lambda>e. md_of_json (ae_model E) (ev_payload e)) (log_of (lb_crc (ae_lib E)) (lb_codec (ae_lib E)) es)"

definition table :: "('i, 'n) model \<Rightarrow> 'i list \<Rightarrow> (string, 'i) dict" where
  "table M is = fold (insert_item M) is []"

lemma table_append [simp]: "table M (is @ [i]) = insert_item M i (table M is)"
  by (simp add: table_def)

lemma lookup_table:
  "map_of (table M is) = (\<lambda>k. List.find (\<lambda>i. md_key M i = k) (rev is))"
  by (induction "is" rule: rev_induct) (auto simp: insert_item_def update_conv table_def fun_eq_iff)

lemma table_keyed: "map_of (table M is) k = Some x \<Longrightarrow> md_key M x = k \<and> x \<in> set is"
  by (auto simp: lookup_table find_Some_iff rev_nth)

lemma table_has: "i \<in> set is \<Longrightarrow> \<exists>x. map_of (table M is) (md_key M i) = Some x"
  by (cases "map_of (table M is) (md_key M i)") (auto simp: lookup_table find_None_iff)

definition readable_items :: "('i, 'n, 'f, 'v) api_env \<Rightarrow> string list \<Rightarrow> 'i list" where
  "readable_items E jsons =
     List.map_filter (\<lambda>e. md_of_json (ae_model E) (ev_payload e)) (parse_all (lb_codec (ae_lib E)) jsons)"

lemma readable_items_simps [simp]:
  "readable_items E [] = []"
  "readable_items E (j # js) = readable_items E [j] @ readable_items E js"
proof -
  have "parse_all C (j # js) = parse_all C [j] @ parse_all C js" for C
    using parse_all_append [of C "[j]" js] by simp
  then show "readable_items E (j # js) = readable_items E [j] @ readable_items E js"
    by (simp add: readable_items_def List.map_filter_def)
qed (simp add: readable_items_def parse_all_def List.map_filter_simps)

lemma replay_one:
  "replay_event E j (n, st) = (n + length (readable_items E [j]), fold (insert_item (ae_model E)) (readable_items E [j]) st)"
proof (cases "ec_of_json (lb_codec (ae_lib E)) j")
  case None
  then show ?thesis by (simp add: replay_event_def readable_items_def parse_all_def List.map_filter_simps)
next
  case (Some e)
  then show ?thesis
    by (cases "md_of_json (ae_model E) (ev_payload e)")
      (simp_all add: replay_event_def readable_items_def parse_all_one List.map_filter_simps insert_item_def)
qed

declare readable_items_simps(2) [simp del]

lemma fold_replay:
  "fold (replay_event E) jsons (n, st) =
     (n + length (readable_items E jsons), fold (insert_item (ae_model E)) (readable_items E jsons) st)"
proof (induction jsons arbitrary: n st)
  case (Cons j js)
  show ?case
    by (simp only: readable_items_simps(2) [of E j js] fold_append fold_simps(2) length_append o_apply replay_one Cons)
      simp
qed simp

lemma restarted_table:
  assumes "store_ok (mh_store h)" and "\<not> st_enable_binary st"
  shows "\<exists>h'. restarted E st h = Some (Inr h') \<and>
    mh_storage h' = table (ae_model E) (log_items E (mh_store h))"
proof -
  let ?crc = "lb_crc (ae_lib E)" and ?C = "lb_codec (ae_lib E)"
  let ?s = "es_storage (mh_store h)"
  have s: "storage_ok ?s" "fs_max_log_file_size ?s = 0" using assms(1) by (simp_all add: store_ok_def)
  let ?d = "files_of (es_storage (es_flush_events ?crc (mh_store h)))"
  have "read_all_events ?crc (file_storage_new (st_max_log_file_size st) ?d) =
      read_all_events ?crc (flush_batch ?crc ?s)"
    by (simp add: read_all_events_def file_storage_new_def files_of_def flush_events_def es_flush_events_def)
  then have r: "read_all_events ?crc (file_storage_new (st_max_log_file_size st) ?d) = held ?crc ?s"
    using flush_reads [OF s, of ?crc] by (simp add: held_def)
  obtain es where es: "event_store_new ?crc ?C st False ?d = Some es"
    "\<not> es_binary_mode es" "es_storage es = file_storage_new (st_max_log_file_size st) ?d"
    using assms(2) by (simp add: event_store_new_def Let_def load_last_event_hash_def read_envelopes_def)
  have "get_all_events ?crc ?C es = Some (Inr (held ?crc ?s))"
    using es(2,3) r by (simp add: get_all_events_def)
  then have "\<exists>h'. new_with_replay E es = Some (Inr h') \<and>
      mh_storage h' = table (ae_model E) (log_items E (mh_store h))"
    by (simp add: new_with_replay_def replay_events_def handler_new_def fold_replay log_items_def log_of_def
        table_def readable_items_def)
  with es(1) show ?thesis by (simp add: restarted_def)
qed

section \<open>Persistence\<close>

text \<open>The laws of the serialisers: an event and an item are read back as they were written.\<close>

definition laws :: "('i, 'n, 'f, 'v) api_env \<Rightarrow> bool" where
  "laws E \<longleftrightarrow> codec_law (lb_codec (ae_lib E)) \<and>
     (\<forall>i. \<exists>j. md_to_json (ae_model E) i = Some j \<and> md_of_json (ae_model E) j = Some i)"

lemma persist_logs:
  assumes "laws E" and "store_ok (mh_store h)"
    and "persist_to_event_store E now operation i h = (b, h')"
  shows "b \<and> store_ok (mh_store h') \<and> log_items E (mh_store h') = log_items E (mh_store h) @ [i] \<and>
    mh_storage h' = mh_storage h \<and> mh_consensus h' = mh_consensus h"
proof -
  let ?L = "ae_lib E" and ?M = "ae_model E"
  from assms(1) obtain j where j: "md_to_json ?M i = Some j" "md_of_json ?M j = Some i"
    unfolding laws_def by blast
  have law: "codec_law (lb_codec ?L)" using assms(1) by (simp add: laws_def)
  let ?e = "item_envelope ?M now operation j i"
  obtain r es where a: "append_envelope (lb_crc ?L) (lb_sha ?L) (lb_codec ?L) ?e (mh_store h) = (r, es)"
    by (cases "append_envelope (lb_crc ?L) (lb_sha ?L) (lb_codec ?L) ?e (mh_store h)")
  note t = append_envelope_text [OF assms(2) law a]
  have "ev_payload (chained (lb_sha ?L) (mh_store h) ?e) = j"
    by (simp add: chained_def item_envelope_def Let_def)
  then have "log_items E es = log_items E (mh_store h) @ [i]"
    using t j(2) by (simp add: log_items_def List.map_filter_def)
  moreover have "b" "h' = h\<lparr>mh_store := es\<rparr>"
    using assms(3) j(1) a t by (auto simp: persist_to_event_store_def append_to_log_def)
  ultimately show ?thesis using t by simp
qed

lemma broadcast_keeps [simp]:
  "mh_store (broadcast_sse E t i h) = mh_store h" "mh_storage (broadcast_sse E t i h) = mh_storage h"
  "mh_consensus (broadcast_sse E t i h) = mh_consensus h" "mh_extractor (broadcast_sse E t i h) = mh_extractor h"
  by (simp_all add: broadcast_sse_def split: option.splits)

lemma item_simps [simp]:
  "mh_store (store_item k i h) = mh_store h" "mh_store (remove_item k h) = mh_store h"
  "mh_storage (store_item k i h) = AList.update k i (mh_storage h)"
  "mh_storage (remove_item k h) = AList.delete k (mh_storage h)"
  "mh_consensus (store_item k i h) = mh_consensus h" "mh_consensus (remove_item k h) = mh_consensus h"
  by (simp_all add: store_item_def remove_item_def)

text \<open>A step of a write: the storage is changed, the log is extended, or nothing of both.\<close>

definition logged ::
  "('i, 'n, 'f, 'v) api_env \<Rightarrow> ('i, 'n, 'v) handler \<Rightarrow> 'i list \<Rightarrow> (string, 'i) dict \<Rightarrow> ('i, 'n, 'v) handler \<Rightarrow> bool"
where
  "logged E h is st h' \<longleftrightarrow> store_ok (mh_store h') \<and>
     log_items E (mh_store h') = log_items E (mh_store h) @ is \<and> mh_storage h' = st"

lemma finish_logged:
  assumes "laws E" and "store_ok (mh_store h)"
    and "finish_write E now operation topic status i h = (a, h')"
  shows "logged E h [i] (mh_storage h) h' \<and> hs_status a = status"
proof -
  obtain b h1 where p: "persist_to_event_store E now operation i h = (b, h1)"
    by (cases "persist_to_event_store E now operation i h")
  from assms(1) obtain j where j: "md_to_json (ae_model E) i = Some j" unfolding laws_def by blast
  show ?thesis
    using persist_logs [OF assms(1,2) p] assms(3) p j
    by (auto simp: finish_write_def logged_def json_response_def)
qed

section \<open>The effects of requests\<close>

text \<open>
  The items in the log and the storage, and the three things a write does to them. A deletion appends the
  item that it removes.
\<close>

definition view_of :: "('i, 'n, 'f, 'v) api_env \<Rightarrow> ('i, 'n, 'v) handler \<Rightarrow> 'i list \<times> (string, 'i) dict" where
  "view_of E h = (log_items E (mh_store h), mh_storage h)"

inductive effect :: "('i, 'n) model \<Rightarrow> 'i list \<times> (string, 'i) dict \<Rightarrow> 'i list \<times> (string, 'i) dict \<Rightarrow> bool"
  for M where
  effect_put: "effect M (L, S) (L @ [i], AList.update (md_key M i) i S)"
| effect_drop: "map_of S k = Some i \<Longrightarrow> effect M (L, S) (L @ [i], AList.delete k S)"

lemma view_of_simps [simp]:
  "view_of E (h\<lparr>mh_consensus := c\<rparr>) = view_of E h" "view_of E (broadcast_sse E t i h) = view_of E h"
  by (simp_all add: view_of_def)

text \<open>The key in the body of an item is its primary key.\<close>

definition keyed :: "('i, 'n) model \<Rightarrow> bool" where
  "keyed M \<longleftrightarrow> (\<forall>i. actual_key M i = md_key M i)"

text \<open>An update carries the key that its path names.\<close>

definition keeps_key :: "('i, 'n, 'f, 'v) api_env \<Rightarrow> api_call \<Rightarrow> bool" where
  "keeps_key E c =
     (case ac_segments c of
        [s] \<Rightarrow>
          (if hr_method (aq_request (ac_request c)) = ''PUT''
           then (case checked_body (ae_max_single E) (ac_request c) of
                   Inl _ \<Rightarrow> True
                 | Inr body \<Rightarrow>
                     (case md_of_json (ae_model E) body of
                        None \<Rightarrow> True
                      | Some i0 \<Rightarrow>
                          (case prepared (ae_model E) i0 of Inl _ \<Rightarrow> True | Inr i \<Rightarrow> md_key (ae_model E) i = s)))
           else True)
      | _ \<Rightarrow> True)"

text \<open>What holds of a step: the log stays well formed and the effects are those of the relation.\<close>

definition sound :: "('i, 'n, 'f, 'v) api_env \<Rightarrow> ('i, 'n, 'v) handler \<Rightarrow> ('i, 'n, 'v) handler \<Rightarrow> bool" where
  "sound E h h' \<longleftrightarrow> store_ok (mh_store h') \<and> (effect (ae_model E))\<^sup>*\<^sup>* (view_of E h) (view_of E h')"

lemma sound_refl: "store_ok (mh_store h) \<Longrightarrow> sound E h h"
  by (simp add: sound_def)

lemma sound_consensus: "store_ok (mh_store h) \<Longrightarrow> sound E h (h\<lparr>mh_consensus := c\<rparr>)"
  by (simp add: sound_def)

lemma sound_trans: "sound E h1 h2 \<Longrightarrow> sound E h2 h3 \<Longrightarrow> sound E h1 h3"
  by (auto simp: sound_def)

lemma sound_from: "sound E (h\<lparr>mh_consensus := c\<rparr>) h' \<longleftrightarrow> sound E h h'"
  by (simp add: sound_def)

lemma persist_put:
  assumes "laws E" and "store_ok (mh_store h)"
    and "persist_to_event_store E now operation i (store_item (md_key (ae_model E) i) i h) = (b, h')"
  shows "b \<and> sound E h h'"
proof -
  have s: "store_ok (mh_store (store_item (md_key (ae_model E) i) i h))" using assms(2) by simp
  note p = persist_logs [OF assms(1) s assms(3)]
  have "effect (ae_model E) (view_of E h) (view_of E h')"
    using p effect_put [of "ae_model E" "log_items E (mh_store h)" "mh_storage h" i]
    by (simp add: view_of_def)
  then show ?thesis using p by (simp add: sound_def)
qed

lemma finish_put:
  assumes "laws E" and "store_ok (mh_store h)"
    and "finish_write E now operation topic status i (store_item (md_key (ae_model E) i) i h) = (a, h')"
  shows "sound E h h'"
proof -
  let ?h = "store_item (md_key (ae_model E) i) i h"
  obtain b h1 where p: "persist_to_event_store E now operation i ?h = (b, h1)"
    by (cases "persist_to_event_store E now operation i ?h")
  from assms(1) obtain j where j: "md_to_json (ae_model E) i = Some j" unfolding laws_def by blast
  have "h' = broadcast_sse E topic i h1"
    using assms(3) p j persist_put [OF assms(1,2) p] by (simp add: finish_write_def)
  then show ?thesis using persist_put [OF assms(1,2) p] by (simp add: sound_def)
qed

lemma create_sound:
  assumes "laws E" and "keyed (ae_model E)" and "store_ok (mh_store h)"
    and "handle_create E net t now r h = (a, h')"
  shows "sound E h h'"
proof -
  have put: "sound E h h'"
    if "finish_write E now ''Created'' ''create'' 201 i (store_item (md_key (ae_model E) i) i (h\<lparr>mh_consensus := c\<rparr>)) = (a, h')"
    for i c
    using finish_put [OF assms(1) _ that] assms(3) by (simp add: sound_from)
  have key: "actual_key (ae_model E) i = md_key (ae_model E) i" for i
    using assms(2) by (simp add: keyed_def)
  show ?thesis
    using assms(4) sound_refl [OF assms(3), of E] sound_consensus [OF assms(3), of E] put
      finish_put [OF assms(1,3)]
    unfolding handle_create_def key
    by (simp split: sum.splits option.splits prod.splits) blast
qed

lemma bulk_sound:
  assumes "laws E" and "keyed (ae_model E)" and "store_ok (mh_store h)"
    and "bulk_items E net now is created h = (x, h')"
  shows "sound E h h'"
  using assms(3,4)
proof (induction "is" arbitrary: created h)
  case Nil
  then show ?case by (simp add: sound_refl)
next
  case (Cons i0 js)
  have key: "actual_key (ae_model E) i = md_key (ae_model E) i" for i
    using assms(2) by (simp add: keyed_def)
  show ?case
  proof (cases "prepared (ae_model E) i0")
    case (Inl a)
    then show ?thesis using Cons.prems by (simp add: sound_refl)
  next
    case (Inr i)
    have stored: "sound E g h'"
      if "persist_to_event_store E now ''Created'' i (store_item (md_key (ae_model E) i) i g) = (b, h1)"
        and "store_ok (mh_store g)" and "\<not> b \<or> bulk_items E net now js (created @ [i]) h1 = (x, h')" for g b h1
      using persist_put [OF assms(1) that(2,1)] that(3) Cons.IH [of h1 "created @ [i]"] sound_trans [of E g h1 h']
      by (auto simp: sound_def)
    show ?thesis
    proof (cases "\<exists>c. mh_consensus h = Some c \<and> \<not> ae_disable_consensus E")
      case False
      obtain b h1 where p: "persist_to_event_store E now ''Created'' i (store_item (md_key (ae_model E) i) i h) = (b, h1)"
        by (cases "persist_to_event_store E now ''Created'' i (store_item (md_key (ae_model E) i) i h)")
      have b: "b" using persist_put [OF assms(1) Cons.prems(1) p] by simp
      have "bulk_items E net now js (created @ [i]) h1 = (x, h')"
        using Cons.prems(2) False p b Inr by (simp split: option.splits bool.splits)
      then show ?thesis using stored [OF p Cons.prems(1)] by blast
    next
      case True
      then obtain c where c: "mh_consensus h = Some c" "\<not> ae_disable_consensus E" by blast
      obtain y c' where q: "propose_create (ae_lib E) (ae_crud E) net (ae_replicated E) now i (md_key (ae_model E) i) c = (y, c')"
        by (cases "propose_create (ae_lib E) (ae_crud E) net (ae_replicated E) now i (md_key (ae_model E) i) c")
      let ?g = "h\<lparr>mh_consensus := Some c'\<rparr>"
      have g: "store_ok (mh_store ?g)" using Cons.prems(1) by simp
      show ?thesis
      proof (cases y)
        case (Inl e)
        then have "h' = ?g" using Cons.prems(2) Inr c q by simp
        then show ?thesis using sound_consensus [OF Cons.prems(1), of E] by simp
      next
        case y: (Inr u)
        obtain b h1 where p: "persist_to_event_store E now ''Created'' i (store_item (md_key (ae_model E) i) i ?g) = (b, h1)"
          by (cases "persist_to_event_store E now ''Created'' i (store_item (md_key (ae_model E) i) i ?g)")
        have b: "b" using persist_put [OF assms(1) g p] by simp
        have "bulk_items E net now js (created @ [i]) h1 = (x, h')"
          using Cons.prems(2) Inr c q y p b by (simp add: key)
        then show ?thesis using stored [OF p g] by (simp add: sound_from)
      qed
    qed
  qed
qed

lemma delete_item_sound:
  assumes "laws E" and "store_ok (mh_store h)" and "delete_item E now k h = (a, h')"
  shows "sound E h h'"
proof (cases "map_of (mh_storage h) k")
  case None
  then show ?thesis using assms(2,3) by (simp add: delete_item_def sound_refl)
next
  case (Some x)
  obtain b h1 where p: "persist_to_event_store E now ''Deleted'' x (remove_item k h) = (b, h1)"
    by (cases "persist_to_event_store E now ''Deleted'' x (remove_item k h)")
  have s: "store_ok (mh_store (remove_item k h))" using assms(2) by simp
  note q = persist_logs [OF assms(1) s p]
  have h': "h' = broadcast_sse E ''delete'' x h1" using assms(3) Some p q by (simp add: delete_item_def)
  have "effect (ae_model E) (view_of E h) (view_of E h1)"
    using q effect_drop [OF Some, of "ae_model E" "log_items E (mh_store h)"] by (simp add: view_of_def)
  then show ?thesis using q h' by (simp add: sound_def)
qed

lemma delete_sound:
  assumes "laws E" and "store_ok (mh_store h)" and "handle_delete E net t now k r h = (a, h')"
  shows "sound E h h'"
proof -
  have del: "sound E h h'" if "delete_item E now k (h\<lparr>mh_consensus := c\<rparr>) = (a, h')" for c
    using delete_item_sound [OF assms(1) _ that] assms(2) by (simp add: sound_from)
  show ?thesis
    using assms(3) sound_refl [OF assms(2), of E] sound_consensus [OF assms(2), of E] del
      delete_item_sound [OF assms(1,2)]
    unfolding handle_delete_def
    by (simp split: sum.splits option.splits prod.splits) blast
qed

lemma update_sound:
  assumes "laws E" and "store_ok (mh_store h)" and "handle_update E net t now k r h = (a, h')"
    and keep: "\<And>body i0 i. checked_body (ae_max_single E) r = Inr body \<Longrightarrow> md_of_json (ae_model E) body = Some i0 \<Longrightarrow>
      prepared (ae_model E) i0 = Inr i \<Longrightarrow> md_key (ae_model E) i = k"
  shows "sound E h h'"
proof -
  have same: ?thesis if "h' = h" using that sound_refl [OF assms(2), of E] by simp
  show ?thesis
  proof (cases "checked_body (ae_max_single E) r")
    case (Inl x)
    then show ?thesis using assms(3) same by (simp add: handle_update_def)
  next
    case body: (Inr body)
    show ?thesis
    proof (cases "md_of_json (ae_model E) body")
      case None
      then show ?thesis using assms(3) same body by (simp add: handle_update_def)
    next
      case item: (Some i0)
      show ?thesis
      proof (cases "authorize_write E h (extracted_perms h r) (extracted_role E t h r) ''Write'' i0")
        case (Some x)
        then show ?thesis using assms(3) same body item by (simp add: handle_update_def)
      next
        case auth: None
        show ?thesis
        proof (cases "prepared (ae_model E) i0")
          case (Inl x)
          then show ?thesis using assms(3) same body item auth by (simp add: handle_update_def)
        next
          case prep: (Inr i)
          have k: "md_key (ae_model E) i = k" using keep [OF body item prep] .
          obtain res g where g: "(case mh_consensus h of
                                  None \<Rightarrow> (Inr (), h)
                                | Some c \<Rightarrow>
                                    (case propose_update (ae_lib E) (ae_crud E) net (ae_replicated E) now i k c of
                                       (res, c') \<Rightarrow> (res, h\<lparr>mh_consensus := Some c'\<rparr>))) = (res, g)"
            (is "?p = _") by (cases ?p)
          then have gs: "store_ok (mh_store g)" "sound E h g"
            using assms(2) sound_refl [OF assms(2), of E] sound_consensus [OF assms(2), of E]
            by (auto split: option.splits prod.splits)
          have out: "(case res of Inl e \<Rightarrow> (consensus_failed e, g)
                     | Inr _ \<Rightarrow>
                              (if map_of (mh_storage g) k = None then (not_found_response, g)
                               else finish_write E now ''Updated'' ''update'' 200 i (store_item k i g))) = (a, h')"
            using assms(3) body item auth prep g by (simp add: handle_update_def)
          have "h' = g \<or> finish_write E now ''Updated'' ''update'' 200 i (store_item k i g) = (a, h')"
            using out by (cases res) (simp_all split: if_splits)
          then have "sound E g h'"
            using finish_put [OF assms(1) gs(1), of now _ _ _ i a h'] sound_refl [OF gs(1), of E] k by auto
          then show ?thesis using gs(2) sound_trans [of E h g h'] by blast
        qed
      qed
    qed
  qed
qed

lemma step_sound:
  assumes "laws E" and "keyed (ae_model E)" and "keeps_key E c" and "store_ok (mh_store h)"
    and "api_step E c h = (a, h')"
  shows "sound E h h'"
proof -
  let ?r = "ac_request c" and ?net = "ac_net c" and ?t = "ac_time c" and ?now = "ac_now c"
  have bulk: "sound E h h'" if "handle_bulk_create E ?net ?now ?r h = (a, h')"
  proof (cases "checked_body (ae_max_bulk E) ?r")
    case (Inl x)
    then show ?thesis using that sound_refl [OF assms(4), of E] by (simp add: handle_bulk_create_def)
  next
    case body: (Inr body)
    show ?thesis
    proof (cases "md_list_of_json (ae_model E) body")
      case None
      then show ?thesis using that body sound_refl [OF assms(4), of E] by (simp add: handle_bulk_create_def)
    next
      case (Some xs)
      obtain y g where g: "bulk_items E ?net ?now xs [] h = (y, g)" by (cases "bulk_items E ?net ?now xs [] h")
      have "h' = g" using that body Some g by (cases y) (simp_all add: handle_bulk_create_def)
      then show ?thesis using bulk_sound [OF assms(1,2,4) g] by simp
    qed
  qed
  have update: "sound E h h'"
    if "handle_update E ?net ?t ?now s ?r h = (a, h')" and "ac_segments c = [s]"
      and "hr_method (aq_request ?r) = ''PUT''" for s
    by (rule update_sound [OF assms(1,4) that(1)]) (use assms(3) that(2,3) in \<open>simp add: keeps_key_def\<close>)
  show ?thesis
    using assms(5) sound_refl [OF assms(4), of E] create_sound [OF assms(1,2,4), of ?net ?t ?now ?r a h']
      delete_sound [OF assms(1,4), of ?net ?t ?now _ ?r a h'] bulk update
    unfolding api_step_def handle_model_request_def Let_def
    by (simp split: list.splits if_splits)
qed

lemma run_effects:
  assumes "laws E" and "keyed (ae_model E)" and "list_all (keeps_key E) cs" and "store_ok (mh_store h)"
  shows "sound E h (snd (api_run E cs h))"
  using assms(3,4)
proof (induction cs arbitrary: h)
  case Nil
  then show ?case by (simp add: sound_refl)
next
  case (Cons c cs)
  obtain a g where g: "api_step E c h = (a, g)" by (cases "api_step E c h")
  have s: "sound E h g" using step_sound [OF assms(1,2) _ Cons.prems(2) g] Cons.prems(1) by simp
  then have "sound E g (snd (api_run E cs g))" using Cons by (simp add: sound_def)
  then show ?case using s g sound_trans [of E h g] by (cases "api_run E cs g") simp
qed

section \<open>Restarts\<close>

text \<open>Everything in the storage is what the log says of its key.\<close>

definition durable :: "('i, 'n) model \<Rightarrow> 'i list \<times> (string, 'i) dict \<Rightarrow> bool" where
  "durable M v \<longleftrightarrow> (\<forall>k x. map_of (snd v) k = Some x \<longrightarrow> map_of (table M (fst v)) k = Some x)"

lemma effect_durable: "effect M v w \<Longrightarrow> durable M v \<Longrightarrow> durable M w"
proof (induction rule: effect.induct)
  case (effect_put L S i)
  then show ?case by (simp add: durable_def insert_item_def update_conv)
next
  case (effect_drop S k i L)
  then have "map_of (table M L) k = Some i" by (simp add: durable_def)
  then have "md_key M i = k" using table_keyed [of M L k i] by simp
  then show ?case using effect_drop by (simp add: durable_def insert_item_def update_conv delete_conv)
qed

lemma effects_durable: "(effect M)\<^sup>*\<^sup>* v w \<Longrightarrow> durable M v \<Longrightarrow> durable M w"
  by (induction rule: rtranclp_induct) (auto intro: effect_durable)

text \<open>A handler that has just been started: its storage is what its log says.\<close>

definition started :: "('i, 'n, 'f, 'v) api_env \<Rightarrow> ('i, 'n, 'v) handler \<Rightarrow> bool" where
  "started E h \<longleftrightarrow> store_ok (mh_store h) \<and> mh_storage h = table (ae_model E) (log_items E (mh_store h))"

lemma run_durable:
  assumes "laws E" and "keyed (ae_model E)" and "list_all (keeps_key E) cs" and "started E h"
  shows "store_ok (mh_store (snd (api_run E cs h))) \<and> durable (ae_model E) (view_of E (snd (api_run E cs h)))"
proof -
  have "durable (ae_model E) (view_of E h)" using assms(4) by (simp add: started_def durable_def view_of_def)
  moreover have s: "sound E h (snd (api_run E cs h))"
    using run_effects [OF assms(1-3)] assms(4) by (simp add: started_def)
  ultimately show ?thesis
    using effects_durable [of "ae_model E" "view_of E h" "view_of E (snd (api_run E cs h))"]
    by (simp add: sound_def)
qed


lemma delete_204:
  assumes "handle_delete E net t now k r h = (a, h')" and "hs_status a = 204"
  shows "\<exists>x c. map_of (mh_storage h) k = Some x \<and> delete_item E now k (h\<lparr>mh_consensus := c\<rparr>) = (a, h')"
proof -
  have c: "h = h\<lparr>mh_consensus := mh_consensus h\<rparr>" by simp
  have auth: "hs_status x \<noteq> 204" if "authorize_write E h p ro v i = Some x" for p ro v i x
    using that by (auto simp: authorize_write_def forbidden_response_def unauthorized_response_def json_response_def
        split: option.splits if_splits)
  show ?thesis
  proof (cases "Option.bind (map_of (mh_storage h) k)
             (authorize_write E h (extracted_perms h r) (extracted_role E t h r) ''Delete'')")
    case (Some x)
    then have "a = x" using assms(1) by (simp add: handle_delete_def)
    then show ?thesis using Some assms(2) auth by (auto simp: bind_eq_Some_conv)
  next
    case None
    obtain g where g: "delete_item E now k (h\<lparr>mh_consensus := g\<rparr>) = (a, h')"
    proof (cases "mh_consensus h")
      case None': None
      then have "delete_item E now k h = (a, h')" using assms(1) None by (simp add: handle_delete_def)
      then show ?thesis using that [of "mh_consensus h"] by (simp only: c [symmetric])
    next
      case (Some c)
      obtain y c' where q: "propose_delete (ae_lib E) (ae_crud E) net (ae_replicated E) now k c = (y, c')"
        by (cases "propose_delete (ae_lib E) (ae_crud E) net (ae_replicated E) now k c")
      have "delete_item E now k (h\<lparr>mh_consensus := Some c'\<rparr>) = (a, h')"
        using assms None Some q by (cases y) (auto simp: handle_delete_def consensus_failed_def json_response_def)
      then show ?thesis by (rule that)
    qed
    moreover have "map_of (mh_storage h) k \<noteq> None"
    proof
      assume "map_of (mh_storage h) k = None"
      then have "a = not_found_response" using g by (simp add: delete_item_def)
      then show False using assms(2) by (simp add: not_found_response_def json_response_def)
    qed
    ultimately show ?thesis by blast
  qed
qed

text \<open>
  C4. A deletion that was answered with success ends with the process: the item is gone from the storage, and a
  new process over the flushed log has it again, since the replay inserts the item of every event,
  that of the deletion included.
\<close>

theorem deleted_item_returns:
  fixes E :: "('i, 'n, 'f, 'v) api_env"
  assumes "laws E" and "keyed (ae_model E)" and "list_all (keeps_key E) cs" and "started E h"
    and "\<not> st_enable_binary st"
    and "handle_delete E net t now k r (snd (api_run E cs h)) = (a, h2)" and "hs_status a = 204"
  shows "map_of (mh_storage h2) k = None \<and>
    (\<exists>h3 x. map_of (mh_storage (snd (api_run E cs h))) k = Some x \<and> restarted E st h2 = Some (Inr h3) \<and>
      map_of (mh_storage h3) k = Some x)"
proof -
  let ?h1 = "snd (api_run E cs h)"
  note d = run_durable [OF assms(1-4)]
  then have ok: "store_ok (mh_store ?h1)" by blast
  obtain x c where x: "map_of (mh_storage ?h1) k = Some x"
    and del: "delete_item E now k (?h1\<lparr>mh_consensus := c\<rparr>) = (a, h2)"
    using delete_204 [OF assms(6,7)] by blast
  let ?g = "remove_item k (?h1\<lparr>mh_consensus := c\<rparr>)"
  obtain b g where p: "persist_to_event_store E now ''Deleted'' x ?g = (b, g)"
    by (cases "persist_to_event_store E now ''Deleted'' x ?g")
  have "store_ok (mh_store ?g)" using ok by simp
  note q = persist_logs [OF assms(1) this p]
  have h2: "h2 = broadcast_sse E ''delete'' x g" using del x p q by (simp add: delete_item_def)
  have "map_of (table (ae_model E) (log_items E (mh_store ?h1))) k = Some x"
    using d x by (simp add: durable_def view_of_def)
  then have "md_key (ae_model E) x = k" using table_keyed [of "ae_model E" _ k x] by blast
  then have t: "map_of (table (ae_model E) (log_items E (mh_store h2))) k = Some x"
    using q h2 by (simp add: insert_item_def update_conv)
  have "store_ok (mh_store h2)" using q h2 by simp
  from restarted_table [OF this assms(5), of E] t x q h2 show ?thesis by (auto simp: delete_conv)
qed

section \<open>Permissions\<close>

lemma authorized_role:
  assumes "authorize_write E h None role verb i = None" and "mh_checker h = Some chk"
  shows "\<exists>rl. role = Some rl \<and> (chk rl (short_name (ae_model E) @ verb) \<or> chk rl verb)"
  using assms by (simp add: authorize_write_def split: option.splits if_splits)

lemma create_authorized:
  assumes "handle_create E net t now r h = (a, h')" and "h' \<noteq> h"
  shows "\<exists>i. authorize_write E h (extracted_perms h r) (extracted_role E t h r) ''Write'' i = None"
proof (rule ccontr)
  assume no: "\<not> (\<exists>i. authorize_write E h (extracted_perms h r) (extracted_role E t h r) ''Write'' i = None)"
  define x where "x i = the (authorize_write E h (extracted_perms h r) (extracted_role E t h r) ''Write'' i)" for i
  have auth: "authorize_write E h (extracted_perms h r) (extracted_role E t h r) ''Write'' i = Some (x i)" for i
    using no by (auto simp: x_def)
  have "h' = h"
  proof (cases "checked_body (ae_max_single E) r")
    case (Inr body)
    then show ?thesis
      using assms(1) by (cases "md_of_json (ae_model E) body") (simp_all add: handle_create_def auth)
  qed (use assms(1) in \<open>simp add: handle_create_def\<close>)
  with assms(2) show False by simp
qed

lemma update_authorized:
  assumes "handle_update E net t now k r h = (a, h')" and "h' \<noteq> h"
  shows "\<exists>i. authorize_write E h (extracted_perms h r) (extracted_role E t h r) ''Write'' i = None"
proof (rule ccontr)
  assume no: "\<not> (\<exists>i. authorize_write E h (extracted_perms h r) (extracted_role E t h r) ''Write'' i = None)"
  define x where "x i = the (authorize_write E h (extracted_perms h r) (extracted_role E t h r) ''Write'' i)" for i
  have auth: "authorize_write E h (extracted_perms h r) (extracted_role E t h r) ''Write'' i = Some (x i)" for i
    using no by (auto simp: x_def)
  have "h' = h"
  proof (cases "checked_body (ae_max_single E) r")
    case (Inr body)
    then show ?thesis
      using assms(1) by (cases "md_of_json (ae_model E) body") (simp_all add: handle_update_def auth)
  qed (use assms(1) in \<open>simp add: handle_update_def\<close>)
  with assms(2) show False by simp
qed

lemma delete_authorized:
  assumes "handle_delete E net t now k r h = (a, h')"
    and "mh_storage h' \<noteq> mh_storage h \<or> mh_store h' \<noteq> mh_store h"
  shows "\<exists>i. authorize_write E h (extracted_perms h r) (extracted_role E t h r) ''Delete'' i = None"
proof (cases "map_of (mh_storage h) k")
  case None
  then have "delete_item E now k (h\<lparr>mh_consensus := c\<rparr>) = (not_found_response, h\<lparr>mh_consensus := c\<rparr>)" for c
    by (simp add: delete_item_def)
  moreover have "delete_item E now k h = (not_found_response, h)" using None by (simp add: delete_item_def)
  ultimately have "mh_storage h' = mh_storage h \<and> mh_store h' = mh_store h"
    using assms(1) None by (auto simp: handle_delete_def split: option.splits prod.splits sum.splits)
  with assms(2) show ?thesis by blast
next
  case (Some x)
  then show ?thesis
    using assms by (cases "authorize_write E h (extracted_perms h r) (extracted_role E t h r) ''Delete'' x")
      (auto simp: handle_delete_def)
qed

text \<open>
  C6. A write of a single item needs a permission: with a permission checker and no extractor, a request
  other than a bulk creation that changes the storage or the log carries the token of a session whose
  role has the permission of the model or the general one, for writing or for deleting.
\<close>

theorem writes_need_permission:
  assumes "mh_checker h = Some chk" and "mh_extractor h = None" and "api_step E c h = (a, h')"
    and "\<not> (hr_method (aq_request (ac_request c)) = ''POST'' \<and> ac_segments c = [''_bulk''])"
    and "mh_storage h' \<noteq> mh_storage h \<or> mh_store h' \<noteq> mh_store h"
  defines "verb \<equiv> (if hr_method (aq_request (ac_request c)) = ''DELETE'' then ''Delete'' else ''Write'')"
  shows "\<exists>rl. extract_role E (ac_time c) h (ac_request c) = Some rl \<and>
    (chk rl (short_name (ae_model E) @ verb) \<or> chk rl verb)"
proof -
  let ?r = "ac_request c"
  let ?m = "hr_method (aq_request ?r)"
  have p: "extracted_perms h ?r = None" "extracted_role E (ac_time c) h ?r = extract_role E (ac_time c) h ?r"
    using assms(2) by (simp_all add: extracted_perms_def extracted_role_def)
  have ne: "h' \<noteq> h" using assms(5) by auto
  consider "handle_create E (ac_net c) (ac_time c) (ac_now c) ?r h = (a, h')" "?m = ''POST''"
    | s where "handle_update E (ac_net c) (ac_time c) (ac_now c) s ?r h = (a, h')" "?m = ''PUT''"
    | s where "handle_delete E (ac_net c) (ac_time c) (ac_now c) s ?r h = (a, h')" "?m = ''DELETE''"
    using assms(3,4) ne unfolding api_step_def handle_model_request_def Let_def
    by (simp split: list.splits if_splits)
  then have "\<exists>i. authorize_write E h None (extract_role E (ac_time c) h ?r) verb i = None"
  proof cases
    case 1
    then show ?thesis using create_authorized [OF 1(1) ne] p by (simp add: verb_def)
  next
    case 2
    then show ?thesis using update_authorized [OF 2(1) ne] p by (simp add: verb_def)
  next
    case 3
    then show ?thesis using delete_authorized [OF 3(1) assms(5)] p by (simp add: verb_def)
  qed
  then show ?thesis using authorized_role [OF _ assms(1)] by blast
qed

text \<open>What decides who may write.\<close>

definition with_guards where
  "with_guards chk ext ses h = h\<lparr>mh_checker := chk, mh_extractor := ext, mh_sessions := ses\<rparr>"

lemma with_guards_simps [simp]:
  "mh_store (with_guards c e s h) = mh_store h" "mh_storage (with_guards c e s h) = mh_storage h"
  "mh_consensus (with_guards c e s h) = mh_consensus h"
  "with_guards c e s h\<lparr>mh_store := x\<rparr> = with_guards c e s (h\<lparr>mh_store := x\<rparr>)"
  "with_guards c e s h\<lparr>mh_consensus := y\<rparr> = with_guards c e s (h\<lparr>mh_consensus := y\<rparr>)"
  "store_item k i (with_guards c e s h) = with_guards c e s (store_item k i h)"
  by (simp_all add: with_guards_def store_item_def)

lemma persist_guards [simp]:
  "persist_to_event_store E now operation i (with_guards c e s h) =
     map_prod id (with_guards c e s) (persist_to_event_store E now operation i h)"
  by (simp add: persist_to_event_store_def append_to_log_def split: option.splits prod.splits sum.splits)

lemma bulk_items_guards:
  "bulk_items E net now is created (with_guards chk ext ses h) =
     map_prod id (with_guards chk ext ses) (bulk_items E net now is created h)"
proof (induction "is" arbitrary: created h)
  case (Cons i0 js)
  have persisted: "(case map_prod id (with_guards chk ext ses) q of
         (False, h1) \<Rightarrow> (Inl internal_error_response, h1)
       | (True, h1) \<Rightarrow> bulk_items E net now js (created @ [i]) h1) =
      map_prod id (with_guards chk ext ses) (case q of
         (False, h1) \<Rightarrow> (Inl internal_error_response, h1)
       | (True, h1) \<Rightarrow> bulk_items E net now js (created @ [i]) h1)" for q i
    by (cases q; cases "fst q") (simp_all add: Cons id_def)
  show ?case
  proof (cases "prepared (ae_model E) i0")
    case (Inr i)
    show ?thesis
    proof (cases "mh_consensus h")
      case None
      then show ?thesis using Inr by (simp only: bulk_items.simps sum.case with_guards_simps persist_guards persisted option.case prod.case)
    next
      case (Some c)
      show ?thesis
      proof (cases "ae_disable_consensus E")
        case True
        then show ?thesis using Inr Some
          by (simp only: bulk_items.simps sum.case with_guards_simps persist_guards persisted option.case prod.case bool.case)
      next
        case False
        obtain y c' where "propose_create (ae_lib E) (ae_crud E) net (ae_replicated E) now i (md_key (ae_model E) i) c = (y, c')"
          by (cases "propose_create (ae_lib E) (ae_crud E) net (ae_replicated E) now i (md_key (ae_model E) i) c")
        then show ?thesis using Inr Some False persisted by (cases y) (simp_all add: id_def)
      qed
    qed
  qed simp
qed simp

text \<open>
  A bulk creation needs none: whatever the checker, the extractor and the sessions of the handler are, and
  whatever credentials the request carries, the answer is the same and the same items are stored.
\<close>

theorem bulk_create_unchecked:
  "handle_bulk_create E net now (r\<lparr>aq_request := (aq_request r)\<lparr>hr_credentials := cr\<rparr>\<rparr>)
     (with_guards chk ext ses h) = map_prod id (with_guards chk ext ses) (handle_bulk_create E net now r h)"
proof -
  have "checked_body n (r\<lparr>aq_request := (aq_request r)\<lparr>hr_credentials := cr\<rparr>\<rparr>) = checked_body n r" for n
    by (simp add: checked_body_def has_json_content_type_def content_length_def)
  then show ?thesis
    by (simp add: handle_bulk_create_def bulk_items_guards split: sum.split option.split prod.split)
qed

section \<open>The peers of a cluster\<close>

text \<open>A handler without what waits to be sent again, and a network that answers everything.\<close>

definition quiet_replicator :: "replicator \<Rightarrow> replicator" where
  "quiet_replicator rp = rp\<lparr>rp_pending := []\<rparr>"

definition quiet_consensus :: "consensus \<Rightarrow> consensus" where
  "quiet_consensus c = c\<lparr>cn_replicator := map_option quiet_replicator (cn_replicator c)\<rparr>"

definition quiet :: "('i, 'n, 'v) handler \<Rightarrow> ('i, 'n, 'v) handler" where
  "quiet h = h\<lparr>mh_consensus := map_option quiet_consensus (mh_consensus h)\<rparr>"

definition all_up :: net where
  "all_up = (\<lambda>u k. True)"

lemma send_all_up [simp]: "send_with_retries all_up u 5"
  by (simp add: send_with_retries_def eval_nat_numeral all_up_def)

lemma apply_locally_quiet:
  "apply_locally B J d (quiet_replicator rp) = map_prod id quiet_replicator (apply_locally B J d rp)"
  by (simp add: apply_locally_def quiet_replicator_def split: sum.split prod.split)

lemma replicate_quiet:
  "replicate_operation B J all_up d (quiet_replicator rp) =
     map_prod id quiet_replicator (replicate_operation B J net d rp)"
proof -
  obtain r rp1 where a: "apply_locally B J d rp = (r, rp1)" by (cases "apply_locally B J d rp")
  then have q: "apply_locally B J d (quiet_replicator rp) = (r, quiet_replicator rp1)"
    by (simp add: apply_locally_quiet)
  show ?thesis
    by (cases r; cases "cj_data J d")
      (simp_all add: replicate_operation_def a q fold_send, simp_all add: quiet_replicator_def)
qed

lemma propose_quiet:
  "propose B J all_up R now x (quiet_consensus c) = map_prod id quiet_consensus (propose B J net R now x c)"
proof (cases "cn_replicator c")
  case (Some rp)
  let ?d = "\<lparr>ap_operation = x, ap_model_type = rm_consensus_group R, ap_timestamp = now,
                   ap_node_id = cc_node_id (cn_config c)\<rparr>"
  obtain r rp1 where "replicate_operation B J net ?d rp = (r, rp1)"
    by (cases "replicate_operation B J net ?d rp")
  then show ?thesis
    using Some replicate_quiet [of B J ?d rp net] by (simp add: propose_def quiet_consensus_def)
qed (simp add: propose_def quiet_consensus_def)

lemma proposals_quiet:
  "propose_create B J all_up R now i k (quiet_consensus c) = map_prod id quiet_consensus (propose_create B J net R now i k c)"
  "propose_update B J all_up R now i k (quiet_consensus c) = map_prod id quiet_consensus (propose_update B J net R now i k c)"
  "propose_delete B J all_up R now k (quiet_consensus c) = map_prod id quiet_consensus (propose_delete B J net R now k c)"
  by (simp_all only: propose_create_def propose_update_def propose_delete_def propose_quiet [of _ _ _ _ _ _ net])

lemma quiet_simps [simp]:
  "mh_store (quiet h) = mh_store h" "mh_storage (quiet h) = mh_storage h"
  "mh_checker (quiet h) = mh_checker h" "mh_extractor (quiet h) = mh_extractor h"
  "mh_sessions (quiet h) = mh_sessions h" "mh_sse (quiet h) = mh_sse h"
  "mh_consensus (quiet h) = map_option quiet_consensus (mh_consensus h)"
  "store_item k i (quiet h) = quiet (store_item k i h)" "remove_item k (quiet h) = quiet (remove_item k h)"
  "quiet h\<lparr>mh_store := x\<rparr> = quiet (h\<lparr>mh_store := x\<rparr>)"
  "quiet h\<lparr>mh_consensus := Some (quiet_consensus c)\<rparr> = quiet (h\<lparr>mh_consensus := Some c\<rparr>)"
  by (simp_all add: quiet_def store_item_def remove_item_def)

lemma roles_quiet [simp]:
  "authorize_write E (quiet h) p rl v i = authorize_write E h p rl v i"
  "extracted_perms (quiet h) r = extracted_perms h r" "extract_role E t (quiet h) r = extract_role E t h r"
  by (simp_all add: authorize_write_def extracted_perms_def extract_role_def split: option.split)

lemma extracted_role_quiet [simp]: "extracted_role E t (quiet h) r = extracted_role E t h r"
  by (simp add: extracted_role_def)

lemma authorize_quiet [simp]: "authorize_write E (quiet h) p rl v = authorize_write E h p rl v"
  by (simp add: fun_eq_iff)

lemma broadcast_quiet [simp]: "broadcast_sse E op i (quiet h) = quiet (broadcast_sse E op i h)"
  by (simp add: broadcast_sse_def quiet_def split: option.split)

lemma persist_quiet [simp]:
  "persist_to_event_store E now operation i (quiet h) =
     map_prod id quiet (persist_to_event_store E now operation i h)"
  by (simp add: persist_to_event_store_def append_to_log_def split: option.splits prod.splits sum.splits)

lemma finish_quiet [simp]:
  "finish_write E now operation topic status i (quiet h) =
     map_prod id quiet (finish_write E now operation topic status i h)"
proof -
  obtain b g where "persist_to_event_store E now operation i h = (b, g)"
    by (cases "persist_to_event_store E now operation i h")
  then show ?thesis by (cases b; cases "md_to_json (ae_model E) i") (simp_all add: finish_write_def)
qed

lemma delete_item_quiet [simp]:
  "delete_item E now k (quiet h) = map_prod id quiet (delete_item E now k h)"
proof (cases "map_of (mh_storage h) k")
  case (Some x)
  obtain b g where "persist_to_event_store E now ''Deleted'' x (remove_item k h) = (b, g)"
    by (cases "persist_to_event_store E now ''Deleted'' x (remove_item k h)")
  then show ?thesis using Some by (cases b) (simp_all add: delete_item_def)
qed (simp add: delete_item_def)

lemma create_quiet:
  "handle_create E all_up t now r (quiet h) = map_prod id quiet (handle_create E net t now r h)"
proof (cases "checked_body (ae_max_single E) r")
  case body: (Inr body)
  show ?thesis
  proof (cases "md_of_json (ae_model E) body")
    case item: (Some i0)
    show ?thesis
    proof (cases "authorize_write E h (extracted_perms h r) (extracted_role E t h r) ''Write'' i0")
      case auth: None
      show ?thesis
      proof (cases "prepared (ae_model E) i0")
        case prep: (Inr i)
        show ?thesis
        proof (cases "mh_consensus h")
          case (Some c)
          let ?p = "propose_create (ae_lib E) (ae_crud E) net (ae_replicated E) now i (md_key (ae_model E) i) c"
          obtain y c' where "?p = (y, c')" by (cases ?p)
          then show ?thesis
            using body item auth prep Some
            by (cases y) (simp_all add: handle_create_def proposals_quiet [where net = net])
        qed (simp add: handle_create_def body item auth prep)
      qed (simp add: handle_create_def body item auth)
    qed (simp add: handle_create_def body item)
  qed (simp add: handle_create_def body)
qed (simp add: handle_create_def)

lemma update_quiet:
  "handle_update E all_up t now k r (quiet h) = map_prod id quiet (handle_update E net t now k r h)"
proof (cases "checked_body (ae_max_single E) r")
  case body: (Inr body)
  show ?thesis
  proof (cases "md_of_json (ae_model E) body")
    case item: (Some i0)
    show ?thesis
    proof (cases "authorize_write E h (extracted_perms h r) (extracted_role E t h r) ''Write'' i0")
      case auth: None
      show ?thesis
      proof (cases "prepared (ae_model E) i0")
        case prep: (Inr i)
        show ?thesis
        proof (cases "mh_consensus h")
          case (Some c)
          let ?p = "propose_update (ae_lib E) (ae_crud E) net (ae_replicated E) now i k c"
          obtain y c' where "?p = (y, c')" by (cases ?p)
          then show ?thesis
            using body item auth prep Some
            by (cases y) (simp_all add: handle_update_def proposals_quiet [where net = net])
        qed (simp add: handle_update_def body item auth prep)
      qed (simp add: handle_update_def body item auth)
    qed (simp add: handle_update_def body item)
  qed (simp add: handle_update_def body)
qed (simp add: handle_update_def)

lemma delete_quiet:
  "handle_delete E all_up t now k r (quiet h) = map_prod id quiet (handle_delete E net t now k r h)"
proof (cases "Option.bind (map_of (mh_storage h) k)
    (authorize_write E h (extracted_perms h r) (extracted_role E t h r) ''Delete'')")
  case auth: None
  show ?thesis
  proof (cases "mh_consensus h")
    case (Some c)
    let ?p = "propose_delete (ae_lib E) (ae_crud E) net (ae_replicated E) now k c"
    obtain y c' where "?p = (y, c')" by (cases ?p)
    then show ?thesis
      using auth Some by (cases y) (simp_all add: handle_delete_def proposals_quiet [where net = net])
  qed (simp add: handle_delete_def auth)
qed (simp add: handle_delete_def)

lemma bulk_items_quiet:
  "bulk_items E all_up now is created (quiet h) = map_prod id quiet (bulk_items E net now is created h)"
proof (induction "is" arbitrary: created h)
  case (Cons i0 js)
  have persisted: "(case map_prod id quiet q of
         (False, h1) \<Rightarrow> (Inl internal_error_response, h1)
       | (True, h1) \<Rightarrow> bulk_items E all_up now js (created @ [i]) h1) =
      map_prod id quiet (case q of
         (False, h1) \<Rightarrow> (Inl internal_error_response, h1)
       | (True, h1) \<Rightarrow> bulk_items E net now js (created @ [i]) h1)" for q i
    by (cases q; cases "fst q") (simp_all add: Cons id_def)
  show ?case
  proof (cases "prepared (ae_model E) i0")
    case (Inr i)
    show ?thesis
    proof (cases "mh_consensus h")
      case None
      then show ?thesis using Inr
        by (simp only: bulk_items.simps sum.case quiet_simps persist_quiet persisted option.case prod.case option.map)
    next
      case (Some c)
      show ?thesis
      proof (cases "ae_disable_consensus E")
        case True
        then show ?thesis using Inr Some
          by (simp only: bulk_items.simps sum.case quiet_simps persist_quiet persisted option.case prod.case option.map bool.case)
      next
        case False
        let ?p = "propose_create (ae_lib E) (ae_crud E) net (ae_replicated E) now i (md_key (ae_model E) i) c"
        obtain y c' where "?p = (y, c')" by (cases ?p)
        then show ?thesis using Inr Some False persisted
          by (cases y) (simp_all add: id_def proposals_quiet [where net = net])
      qed
    qed
  qed simp
qed simp

lemma bulk_quiet:
  "handle_bulk_create E all_up now r (quiet h) = map_prod id quiet (handle_bulk_create E net now r h)"
  by (simp add: handle_bulk_create_def bulk_items_quiet [where net = net] split: sum.split option.split prod.split)

lemma reads_quiet [simp]:
  "handle_list E r (quiet h) = handle_list E r h" "handle_get E i r (quiet h) = handle_get E i r h"
  "handle_count (quiet h) = handle_count h" "handle_random_id (quiet h) = handle_random_id h"
  "handle_sse_stream (quiet h) = handle_sse_stream h"
  by (simp_all add: handle_list_def handle_get_def handle_count_def handle_random_id_def handle_sse_stream_def
      readable_values_def user_perms_def split: option.split)

lemma step_quiet: "api_step E (c\<lparr>ac_net := all_up\<rparr>) (quiet h) = map_prod id quiet (api_step E c h)"
  unfolding api_step_def handle_model_request_def Let_def
  by (simp add: create_quiet [where net = "ac_net c"] update_quiet [where net = "ac_net c"]
      delete_quiet [where net = "ac_net c"] bulk_quiet [where net = "ac_net c"] split: list.split)

text \<open>
  C5. The peers have no influence on what a node answers or stores: with a network that loses any
  messages a node gives the answers that it gives with a perfect one, and ends in the same state, up to the
  queue of what is to be sent again. A creation is confirmed when no peer has heard of it.
\<close>

theorem peers_do_not_matter:
  "api_run E (map (\<lambda>c. c\<lparr>ac_net := all_up\<rparr>) cs) (quiet h) = map_prod id quiet (api_run E cs h)"
proof (induction cs arbitrary: h)
  case (Cons c cs)
  obtain a g where g: "api_step E c h = (a, g)" by (cases "api_step E c h")
  obtain as g' where "api_run E cs g = (as, g')" by (cases "api_run E cs g")
  then show ?case using Cons [of g] g step_quiet [of E c h] by simp
qed simp

section \<open>Reading\<close>

lemma finish_status:
  assumes "finish_write E now operation topic status i h = (a, h')" and "hs_status a = status" and "status \<noteq> 500"
  shows "\<exists>j. md_to_json (ae_model E) i = Some j \<and> a = json_response status j \<and> mh_storage h' = mh_storage h \<and>
    mh_extractor h' = mh_extractor h"
proof -
  have fields: "mh_storage g' = mh_storage g \<and> mh_extractor g' = mh_extractor g"
    if "persist_to_event_store E now operation i g = (b, g')" for b g g'
    using that by (auto simp: persist_to_event_store_def append_to_log_def split: option.splits prod.splits sum.splits)
  obtain b g where p: "persist_to_event_store E now operation i h = (b, g)"
    by (cases "persist_to_event_store E now operation i h")
  show ?thesis
  proof (cases b)
    case False
    then have "hs_status a = 500" using assms(1) p
      by (auto simp: finish_write_def internal_error_response_def json_response_def)
    then show ?thesis using assms by simp
  next
    case True
    show ?thesis
    proof (cases "md_to_json (ae_model E) i")
      case None
      then have "hs_status a = 500" using assms(1) p True
        by (auto simp: finish_write_def internal_error_response_def json_response_def)
      then show ?thesis using assms by simp
    next
      case (Some j)
      then show ?thesis using assms(1) p True fields [OF p] by (auto simp: finish_write_def)
    qed
  qed
qed

lemma statuses [simp]:
  "hs_status (json_response n b) = n" "hs_status (bad_request_response m) = 400"
  "hs_status (consensus_failed e) = 503" "hs_status forbidden_response = 403" "hs_status unauthorized_response = 401"
  "hs_status not_found_response = 404" "hs_status internal_error_response = 500"
  by (simp_all add: json_response_def bad_request_response_def consensus_failed_def forbidden_response_def
      unauthorized_response_def not_found_response_def internal_error_response_def)

lemma refusals:
  "checked_body n r = Inl a \<Longrightarrow> hs_status a \<in> {400, 413, 415}"
  "prepared M i = Inl a \<Longrightarrow> hs_status a = 400"
  "authorize_write E h p rl v x = Some a \<Longrightarrow> hs_status a \<in> {401, 403}"
  by (auto simp: checked_body_def prepared_def authorize_write_def unsupported_media_type_response_def
      entity_too_large_response_def map_sum_def split: option.splits if_splits sum.splits)

lemma create_201:
  assumes "keyed (ae_model E)" and "handle_create E net t now r h = (a, h')" and "hs_status a = 201"
  shows "\<exists>b i0 i g. checked_body (ae_max_single E) r = Inr b \<and> md_of_json (ae_model E) b = Some i0 \<and>
    prepared (ae_model E) i0 = Inr i \<and>
    finish_write E now ''Created'' ''create'' 201 i (store_item (md_key (ae_model E) i) i g) = (a, h')"
proof -
  have key: "actual_key (ae_model E) i = md_key (ae_model E) i" for i using assms(1) by (simp add: keyed_def)
  show ?thesis
  proof (cases "checked_body (ae_max_single E) r")
    case (Inl x)
    then show ?thesis using assms(2,3) refusals(1) [OF Inl] by (auto simp: handle_create_def)
  next
    case body: (Inr body)
    show ?thesis
    proof (cases "md_of_json (ae_model E) body")
      case item: (Some i0)
      show ?thesis
      proof (cases "authorize_write E h (extracted_perms h r) (extracted_role E t h r) ''Write'' i0")
        case (Some x)
        then show ?thesis using assms(2,3) body item refusals(3) [OF Some] by (auto simp: handle_create_def)
      next
        case auth: None
        show ?thesis
        proof (cases "prepared (ae_model E) i0")
          case (Inl x)
          then show ?thesis using assms(2,3) body item auth refusals(2) [OF Inl] by (auto simp: handle_create_def)
        next
          case prep: (Inr i)
          show ?thesis
          proof (cases "mh_consensus h")
            case None
            then show ?thesis using assms(2) body item auth prep
              by (intro exI [of _ body] exI [of _ i0] exI [of _ i] exI [of _ h]) (simp add: handle_create_def)
          next
            case (Some c)
            let ?p = "propose_create (ae_lib E) (ae_crud E) net (ae_replicated E) now i (md_key (ae_model E) i) c"
            obtain y c' where "?p = (y, c')" by (cases ?p)
            then show ?thesis using assms(2,3) body item auth prep Some
              by (cases y) (auto simp: handle_create_def key intro!: exI [of _ "h\<lparr>mh_consensus := Some c'\<rparr>"])
          qed
        qed
      qed
    qed (use assms(2,3) body in \<open>auto simp: handle_create_def\<close>)
  qed
qed

text \<open>
  What a creation answers with 201 is the item of the body after its validation and its lifecycle rules,
  and it can be read at once under its key, by anyone who may read it, as the same text.
\<close>

theorem created_item_is_served:
  assumes "keyed (ae_model E)" and "handle_create E net t now r h = (a, h')" and "hs_status a = 201"
  shows "\<exists>b i0 i body. checked_body (ae_max_single E) r = Inr b \<and> md_of_json (ae_model E) b = Some i0 \<and>
    prepared (ae_model E) i0 = Inr i \<and>
    map_of (mh_storage h') (md_key (ae_model E) i) = Some i \<and> a = json_response 201 body \<and>
    (\<forall>r'. md_can_read (ae_model E) i (user_perms h' r') \<longrightarrow>
      handle_get E (md_key (ae_model E) i) r' h' = json_response 200 body)"
proof -
  obtain b i0 i g where b: "checked_body (ae_max_single E) r = Inr b" "md_of_json (ae_model E) b = Some i0"
    "prepared (ae_model E) i0 = Inr i"
    and w: "finish_write E now ''Created'' ''create'' 201 i (store_item (md_key (ae_model E) i) i g) = (a, h')"
    using create_201 [OF assms] by blast
  obtain j where j: "md_to_json (ae_model E) i = Some j" "a = json_response 201 j"
    "mh_storage h' = AList.update (md_key (ae_model E) i) i (mh_storage g)"
    using finish_status [OF w assms(3)] by auto
  then have "map_of (mh_storage h') (md_key (ae_model E) i) = Some i" by (simp add: update_conv)
  moreover from this have "handle_get E (md_key (ae_model E) i) r' h' = json_response 200 j"
    if "md_can_read (ae_model E) i (user_perms h' r')" for r'
    using that j(1) by (simp add: handle_get_def)
  ultimately show ?thesis using b j(2) by blast
qed

section \<open>A concrete model\<close>

definition demo_model :: "(nat, int) model" where
  "demo_model =
     \<lparr>md_type_name = ''shop::Item'', md_base_path = ''items'', md_key = show_nat, md_validate = \<lambda>i. None,
      md_lifecycle = Inr, md_can_read = \<lambda>i p. True, md_can_write = \<lambda>i p. True,
      md_to_json = \<lambda>i. Some (show_nat i), md_of_json = \<lambda>s. Some (digits_value s),
      md_list_to_json = \<lambda>is. None, md_list_of_json = \<lambda>s. None, md_to_value = \<lambda>i. None, md_of_value = \<lambda>v. Inl ''no''\<rparr>"

definition demo_api :: "(nat, int, int, nat) api_env" where
  "demo_api =
     \<lparr>ae_model = demo_model, ae_numbers = demo_numbers, ae_lib = demo_lib, ae_crud = demo_crud,
      ae_replicated = \<lparr>rm_needs_replication = True, rm_consensus_group = ''item''\<rparr>,
      ae_as_string = \<lambda>v. Some ''Admin'', ae_page_json = \<lambda>p. None, ae_max_single = 100, ae_max_bulk = 100,
      ae_disable_consensus = False\<rparr>"

definition demo_call :: "string \<Rightarrow> string list \<Rightarrow> api_call" where
  "demo_call m segs =
     \<lparr>ac_net = all_up, ac_time = 1, ac_now = 7,
      ac_request = \<lparr>aq_request = (bearer_request ''s'')\<lparr>hr_method := m\<rparr>, aq_content_type = Some ''application/json'',
        aq_query = None, aq_body = Some ''7''\<rparr>,
      ac_segments = segs\<rparr>"

definition demo_handler :: "(nat, int, nat) handler" where
  "demo_handler = handler_new demo_store"

lemma demo_laws: "laws demo_api" "keyed demo_model" "ae_model demo_api = demo_model"
  using demo_codec_law
  by (simp_all add: laws_def keyed_def actual_key_def demo_api_def demo_model_def demo_lib_def)

lemma show_7: "show_nat 7 = ''7''"
  by code_simp

lemma demo_body: "checked_body 100 (ac_request (demo_call m segs)) = Inr ''7''"
proof -
  have "has_json_content_type (ac_request (demo_call m segs))" by (simp add: has_json_content_type_def demo_call_def) code_simp
  then show ?thesis by (simp add: checked_body_def demo_call_def content_length_def bearer_request_def)
qed

lemma demo_store_ok: "store_ok demo_store" "log_items demo_api demo_store = []"
  by (simp_all add: store_ok_def demo_store_def event_store_with_storage_def demo_storage_def
      file_storage_new_def storage_ok_def contents_def complete_def log_items_def log_of_def held_def
      read_all_events_def parse_all_def List.map_filter_simps demo_api_def demo_lib_def)

lemma demo_started: "started demo_api demo_handler"
  using demo_store_ok by (simp add: started_def demo_handler_def handler_new_def table_def)

lemma demo_item: "md_of_json demo_model ''7'' = Some 7" "prepared demo_model 7 = Inr 7" "md_key demo_model 7 = ''7''"
  using digits_value_show [of 7] by (simp_all add: demo_model_def show_7 prepared_def)

definition demo_written :: "(nat, int, nat) handler" where
  "demo_written = snd (api_run demo_api [demo_call ''POST'' []] demo_handler)"

lemma demo_written:
  "map_of (mh_storage demo_written) ''7'' = Some 7" "mh_checker demo_written = None" "mh_consensus demo_written = None"
  "mh_extractor demo_written = None"
  "handle_create demo_api all_up 1 7 (ac_request (demo_call ''POST'' [])) demo_handler = (json_response 201 ''7'', demo_written)"
proof -
  let ?h = "store_item ''7'' 7 demo_handler"
  obtain b g where p: "persist_to_event_store demo_api 7 ''Created'' (7::nat) ?h = (b, g)"
    by (cases "persist_to_event_store demo_api 7 ''Created'' (7::nat) ?h")
  have "store_ok (mh_store ?h)" using demo_started by (simp add: started_def)
  note q = persist_logs [OF demo_laws(1) this p]
  have fields: "mh_checker g = None \<and> mh_extractor g = None \<and> mh_sse g = None"
    using p by (auto simp: persist_to_event_store_def append_to_log_def store_item_def demo_handler_def handler_new_def
        split: option.splits prod.splits sum.splits)
  have j: "md_to_json demo_model 7 = Some ''7''" by (simp add: demo_model_def show_7)
  have f: "finish_write demo_api 7 ''Created'' ''create'' 201 7 ?h = (json_response 201 ''7'', g)"
    using p q j fields by (simp add: finish_write_def demo_laws(3) broadcast_sse_def)
  have m: "ae_max_single demo_api = 100" by (simp add: demo_api_def)
  have n: "mh_checker demo_handler = None" "mh_extractor demo_handler = None" "mh_consensus demo_handler = None"
    "mh_storage demo_handler = []"
    by (simp_all add: demo_handler_def handler_new_def)
  have c: "handle_create demo_api all_up 1 7 (ac_request (demo_call ''POST'' [])) demo_handler = (json_response 201 ''7'', g)"
    by (simp add: handle_create_def m demo_body demo_laws(3) demo_item authorize_write_def extracted_perms_def n f)
  have "api_step demo_api (demo_call ''POST'' []) demo_handler =
      handle_create demo_api all_up 1 7 (ac_request (demo_call ''POST'' [])) demo_handler"
    by (simp add: api_step_def handle_model_request_def demo_call_def bearer_request_def)
  then have g: "demo_written = g" using c by (simp add: demo_written_def)
  show "handle_create demo_api all_up 1 7 (ac_request (demo_call ''POST'' [])) demo_handler =
      (json_response 201 ''7'', demo_written)" using c g by simp
  show "map_of (mh_storage demo_written) ''7'' = Some 7" using q g n(4) by simp
  show "mh_checker demo_written = None" "mh_consensus demo_written = None" "mh_extractor demo_written = None"
    using q g n fields by simp_all
qed

lemma demo_posts: "list_all (keeps_key demo_api) [demo_call ''POST'' []]"
  by (simp add: keeps_key_def demo_call_def)

lemma demo_hyps: "keyed (ae_model demo_api)" "\<not> st_enable_binary text_settings"
  using demo_laws by (simp_all add: text_settings_def)


lemma demo_deleted:
  "\<exists>h2. handle_delete demo_api all_up 1 7 ''7'' (ac_request (demo_call ''DELETE'' [''7''])) demo_written =
     (\<lparr>hs_status = 204, hs_headers = [], hs_body = []\<rparr>, h2)"
proof -
  let ?h = "remove_item ''7'' demo_written"
  obtain b g where p: "persist_to_event_store demo_api 7 ''Deleted'' (7::nat) ?h = (b, g)"
    by (cases "persist_to_event_store demo_api 7 ''Deleted'' (7::nat) ?h")
  have "store_ok (mh_store demo_written)"
    using run_durable [OF demo_laws(1) _ demo_posts demo_started] demo_laws by (simp add: demo_written_def)
  then have "store_ok (mh_store ?h)" by simp
  from persist_logs [OF demo_laws(1) this p] show ?thesis
    using p demo_written
    by (simp add: handle_delete_def delete_item_def authorize_write_def extracted_perms_def)
qed

lemma deleted_item_returns_witness:
  "\<exists>h2 h3. handle_delete demo_api all_up 1 7 ''7'' (ac_request (demo_call ''DELETE'' [''7''])) demo_written =
     (\<lparr>hs_status = 204, hs_headers = [], hs_body = []\<rparr>, h2) \<and>
     map_of (mh_storage h2) ''7'' = None \<and>
     restarted demo_api text_settings h2 = Some (Inr h3) \<and> map_of (mh_storage h3) ''7'' = Some 7"
proof -
  obtain h2 where d: "handle_delete demo_api all_up 1 7 ''7'' (ac_request (demo_call ''DELETE'' [''7''])) demo_written =
     (\<lparr>hs_status = 204, hs_headers = [], hs_body = []\<rparr>, h2)"
    using demo_deleted by blast
  have s: "hs_status \<lparr>hs_status = 204, hs_headers = [], hs_body = []\<rparr> = 204" by simp
  from deleted_item_returns [OF demo_laws(1) demo_hyps(1) demo_posts demo_started demo_hyps(2)
      d [unfolded demo_written_def] s, folded demo_written_def]
  show ?thesis using d demo_written(1) by force
qed

lemma created_item_is_served_witness:
  "handle_get demo_api ''7'' (ac_request (demo_call ''GET'' [''7''])) demo_written = json_response 200 ''7''"
proof -
  have m: "ae_max_single demo_api = 100" by (simp add: demo_api_def)
  have s: "hs_status (json_response 201 ''7'') = 201" by simp
  have r: "md_can_read demo_model 7 p" for p by (simp add: demo_model_def)
  have b: "json_response 201 ''7'' = json_response 201 body \<longleftrightarrow> body = ''7''" for body
    by (auto simp: json_response_def)
  show ?thesis
    using created_item_is_served [OF demo_hyps(1) demo_written(5) s]
    by (auto simp: m demo_body demo_laws(3) demo_item r b)
qed

text \<open>The session \<open>s\<close> of an administrator, who may delete.\<close>

definition admin_handler :: "(nat, int, nat) handler" where
  "admin_handler = demo_written\<lparr>mh_checker := Some (\<lambda>rl p. rl = ''Admin'' \<and> p = ''Delete''),
     mh_sessions := Persistent (empty_store\<lparr>ps_state :=
       [(''s'', \<lparr>sd_id = ''s'', sd_user_id = ''bob'', sd_role = ''Admin'', sd_expires_at = 60, sd_data = [(''role'', 5)]\<rparr>)]\<rparr>)\<rparr>"

lemma admin_role: "extract_role demo_api 1 admin_handler (ac_request (demo_call ''DELETE'' [''7''])) = Some ''Admin''"
proof -
  have "trim ''s'' = ''s''" by code_simp
  then show ?thesis
    by (simp add: extract_role_def admin_handler_def demo_call_def bearer_request_def bearer_def strip_prefix_def
        ps_get_def session_of_data_def session_new_def session_get_def demo_api_def)
qed

lemma writes_need_permission_witness:
  "\<exists>a h'. api_step demo_api (demo_call ''DELETE'' [''7'']) admin_handler = (a, h') \<and>
     mh_storage h' \<noteq> mh_storage admin_handler \<and>
     (\<exists>rl. extract_role demo_api 1 admin_handler (ac_request (demo_call ''DELETE'' [''7''])) = Some rl \<and>
       (rl = ''Admin'' \<and> short_name demo_model @ ''Delete'' = ''Delete'' \<or> rl = ''Admin'' \<and> ''Delete'' = ''Delete''))"
proof -
  let ?c = "demo_call ''DELETE'' [''7'']" and ?h = "remove_item ''7'' admin_handler"
  have a: "mh_storage admin_handler = mh_storage demo_written" "mh_store admin_handler = mh_store demo_written"
    "mh_consensus admin_handler = None" "mh_extractor admin_handler = None"
    "mh_checker admin_handler = Some (\<lambda>rl p. rl = ''Admin'' \<and> p = ''Delete'')"
    using demo_written by (simp_all add: admin_handler_def)
  obtain b g where p: "persist_to_event_store demo_api 7 ''Deleted'' (7::nat) ?h = (b, g)"
    by (cases "persist_to_event_store demo_api 7 ''Deleted'' (7::nat) ?h")
  have "store_ok (mh_store demo_written)"
    using run_durable [OF demo_laws(1) demo_hyps(1) demo_posts demo_started] by (simp add: demo_written_def)
  then have "store_ok (mh_store ?h)" using a by simp
  note q = persist_logs [OF demo_laws(1) this p]
  have m: "hr_method (aq_request (ac_request ?c)) = ''DELETE''" "ac_segments ?c = [''7'']" "ac_time ?c = 1" "ac_now ?c = 7"
    by (simp_all add: demo_call_def)
  have e: "api_step demo_api ?c admin_handler =
      (\<lparr>hs_status = 204, hs_headers = [], hs_body = []\<rparr>, broadcast_sse demo_api ''delete'' 7 g)"
    using p q demo_written(1) admin_role a
    by (simp add: api_step_def handle_model_request_def m handle_delete_def delete_item_def authorize_write_def
        extracted_perms_def extracted_role_def)
  have ne: "mh_storage (broadcast_sse demo_api ''delete'' 7 g) \<noteq> mh_storage admin_handler"
  proof
    assume "mh_storage (broadcast_sse demo_api ''delete'' 7 g) = mh_storage admin_handler"
    then have "map_of (AList.delete ''7'' (mh_storage demo_written)) ''7'' = map_of (mh_storage demo_written) ''7''"
      using q a by simp
    then show False using demo_written(1) by (simp add: delete_conv)
  qed
  from writes_need_permission [OF a(5,4) e] ne e show ?thesis
    by (auto simp: m demo_laws(3))
qed

end
