(* ===== verification/ModelServer.thy ===== *)
theory ModelServer
  imports ModelLife Replica
begin

text \<open>
  The models of a server: the handlers behind their common interface
  (\<^verbatim>\<open>lithair-core/src/app/model_handler.rs\<close>) and what \<^verbatim>\<open>lithair-core/src/app/mod.rs\<close> does with them: the
  internal endpoints by which peers replicate, the administration of the data, the operations that a write
  becomes in a cluster, and the requests to a model. The models of a server may have items of different
  types; here \<open>'i\<close> is their union. The JSON library is the record \<open>json_lib\<close>.
\<close>

section \<open>Registered models\<close>

record 'n json_lib =
  jl_parse :: "string \<Rightarrow> string + 'n jvalue"
  jl_number :: "nat \<Rightarrow> 'n"
  jl_text :: "'n jvalue \<Rightarrow> string"
  jl_pretty :: "'n jvalue \<Rightarrow> string"
  jl_human :: "u64 \<Rightarrow> string"

text \<open>
  A model with its name and data path in the server, its handler, and the name and the path that the
  wrapper of the handler keeps for its own answers. In the state of the server it is paired with the base
  path that the routes use.
\<close>

record ('i, 'n, 'f, 'v) registered =
  rg_name :: string
  rg_data_path :: string
  rg_model_name :: string
  rg_base_path :: string
  rg_env :: "('i, 'n, 'f, 'v) api_env"
  rg_handler :: "('i, 'n, 'v) handler"

definition model_handler_new ::
  "('i, 'n, 'f, 'v) api_env \<Rightarrow> string \<Rightarrow> string \<Rightarrow> event_store \<Rightarrow> (engine_error + ('i, 'n, 'f, 'v) registered) option"
where
  "model_handler_new E name data_path es =
     map_option
       (map_sum id (\<lambda>h. \<lparr>rg_name = name, rg_data_path = data_path, rg_model_name = short_name (ae_model E),
          rg_base_path = md_base_path (ae_model E), rg_env = E, rg_handler = h\<rparr>))
       (new_with_replay E es)"

definition with_base_path :: "string \<Rightarrow> ('i, 'n, 'f, 'v) registered \<Rightarrow> ('i, 'n, 'f, 'v) registered" where
  "with_base_path p g = g\<lparr>rg_base_path := p\<rparr>"

definition rg_model :: "('i, 'n, 'f, 'v) registered \<Rightarrow> ('i, 'n) model" where
  "rg_model g = ae_model (rg_env g)"

section \<open>The interface of a handler\<close>

text \<open>The array of all values, or the empty array if one of them cannot be serialised.\<close>

definition items_value :: "('i, 'n) model \<Rightarrow> 'i list \<Rightarrow> 'n jvalue" where
  "items_value M is =
     (let vs = map (md_to_value M) is in if None \<in> set vs then JArray [] else JArray (map the vs))"

definition get_all_data_json :: "('i, 'n, 'f, 'v) registered \<Rightarrow> 'n jvalue" where
  "get_all_data_json g = items_value (rg_model g) (get_all_items (rg_handler g))"

definition get_item_json :: "string \<Rightarrow> ('i, 'n, 'f, 'v) registered \<Rightarrow> 'n jvalue option" where
  "get_item_json k g =
     Option.bind (find (\<lambda>i. md_key (rg_model g) i = k) (get_all_items (rg_handler g))) (md_to_value (rg_model g))"

definition get_count :: "('i, 'n, 'f, 'v) registered \<Rightarrow> nat" where
  "get_count g = length (get_all_items (rg_handler g))"

definition export_json :: "'n json_lib \<Rightarrow> string \<Rightarrow> ('i, 'n, 'f, 'v) registered \<Rightarrow> 'n jvalue" where
  "export_json J stamp g =
     JObject [(''model'', JText (rg_model_name g)), (''base_path'', JText (rg_base_path g)),
       (''count'', JNumber (jl_number J (get_count g))), (''exported_at'', JText stamp),
       (''data'', get_all_data_json g)]"

definition history_event :: "'n json_lib \<Rightarrow> envelope \<Rightarrow> 'n jvalue" where
  "history_event J e =
     JObject [(''event_type'', JText (ev_event_type e)), (''event_id'', JText (ev_event_id e)),
       (''timestamp'', JNumber (jl_number J (unat (ev_timestamp e)))),
       (''timestamp_human'', JText (jl_human J (ev_timestamp e))),
       (''aggregate_id'', (case ev_aggregate_id e of Some a \<Rightarrow> JText a | None \<Rightarrow> JNull)),
       (''data'', (case jl_parse J (ev_payload e) of Inr v \<Rightarrow> v | Inl _ \<Rightarrow> JNull))]"

text \<open>\<open>None\<close> is the panic of reading a damaged binary log.\<close>

definition history_json :: "'n json_lib \<Rightarrow> string \<Rightarrow> ('i, 'n, 'f, 'v) registered \<Rightarrow> 'n jvalue option" where
  "history_json J k g =
     map_option
       (\<lambda>es. JObject [(''entity_id'', JText k), (''model'', JText (rg_model_name g)),
          (''event_count'', JNumber (jl_number J (length es))), (''events'', JArray (map (history_event J) es))])
       (get_entity_history (rg_env g) k (rg_handler g))"

definition submit_edit_event ::
  "u64 \<Rightarrow> nat \<Rightarrow> string \<Rightarrow> 'n jvalue \<Rightarrow> ('i, 'n, 'f, 'v) registered \<Rightarrow> (string + 'n jvalue) \<times> ('i, 'n, 'f, 'v) registered"
where
  "submit_edit_event now ms k changes g =
     (case submit_admin_edit (rg_env g) now ms k changes (rg_handler g) of
        (r, h) \<Rightarrow>
          ((case r of
              Inl e \<Rightarrow> Inl e
            | Inr i \<Rightarrow> (case md_to_value (rg_model g) i of Some v \<Rightarrow> Inr v | None \<Rightarrow> Inl ''Failed to serialize result: '')),
           g\<lparr>rg_handler := h\<rparr>))"

definition apply_item_json ::
  "u64 \<Rightarrow> 'n jvalue \<Rightarrow> ('i, 'n, 'f, 'v) registered \<Rightarrow> (string + unit) \<times> ('i, 'n, 'f, 'v) registered"
where
  "apply_item_json now v g =
     (case md_of_value (rg_model g) v of
        Inl e \<Rightarrow> (Inl (''Failed to deserialize replicated item: '' @ e), g)
      | Inr i \<Rightarrow> (Inr (), g\<lparr>rg_handler := apply_replicated_item (rg_env g) now i (rg_handler g)\<rparr>))"

fun items_of_values :: "('i, 'n) model \<Rightarrow> 'n jvalue list \<Rightarrow> string + 'i list" where
  "items_of_values M [] = Inr []"
| "items_of_values M (v # vs) =
     (case md_of_value M v of Inl e \<Rightarrow> Inl e | Inr i \<Rightarrow> map_sum id ((#) i) (items_of_values M vs))"

definition apply_items_json ::
  "u64 \<Rightarrow> 'n jvalue list \<Rightarrow> ('i, 'n, 'f, 'v) registered \<Rightarrow> (string + nat) \<times> ('i, 'n, 'f, 'v) registered"
where
  "apply_items_json now vs g =
     (case items_of_values (rg_model g) vs of
        Inl e \<Rightarrow> (Inl (''Failed to deserialize replicated items: '' @ e), g)
      | Inr is \<Rightarrow>
          (case apply_replicated_items (rg_env g) now is (rg_handler g) of
             (n, h) \<Rightarrow> (Inr n, g\<lparr>rg_handler := h\<rparr>)))"

definition apply_update_json ::
  "u64 \<Rightarrow> string \<Rightarrow> 'n jvalue \<Rightarrow> ('i, 'n, 'f, 'v) registered \<Rightarrow> (string + unit) \<times> ('i, 'n, 'f, 'v) registered"
where
  "apply_update_json now k v g =
     (case md_of_value (rg_model g) v of
        Inl e \<Rightarrow> (Inl (''Failed to deserialize replicated update: '' @ e), g)
      | Inr i \<Rightarrow> (Inr (), g\<lparr>rg_handler := apply_replicated_update (rg_env g) now k i (rg_handler g)\<rparr>))"

definition apply_delete_json ::
  "u64 \<Rightarrow> string \<Rightarrow> ('i, 'n, 'f, 'v) registered \<Rightarrow> (string + bool) \<times> ('i, 'n, 'f, 'v) registered"
where
  "apply_delete_json now k g =
     (case apply_replicated_delete (rg_env g) now k (rg_handler g) of (b, h) \<Rightarrow> (Inr b, g\<lparr>rg_handler := h\<rparr>))"

text \<open>The operations that a replica applies, for the state machine of \<open>Replica\<close>.\<close>

definition model_operations :: "u64 \<Rightarrow> ('n jvalue, ('i, 'n, 'f, 'v) registered) model_handler" where
  "model_operations now =
     \<lparr>h_item = apply_item_json now, h_update = apply_update_json now,
      h_delete = (\<lambda>k g. map_prod (map_sum id (\<lambda>_. ())) id (apply_delete_json now k g))\<rparr>"

section \<open>Internal replication\<close>

type_synonym ('i, 'n, 'f, 'v) models = "(string \<times> ('i, 'n, 'f, 'v) registered) list"

definition as_text :: "'n jvalue \<Rightarrow> string option" where
  "as_text v = (case v of JText s \<Rightarrow> Some s | _ \<Rightarrow> None)"

definition text_at :: "string \<Rightarrow> 'n jvalue \<Rightarrow> string option" where
  "text_at k v = Option.bind (value_get k v) as_text"

definition field_or_null :: "string \<Rightarrow> 'n jvalue \<Rightarrow> 'n jvalue" where
  "field_or_null k v = (case value_get k v of Some x \<Rightarrow> x | None \<Rightarrow> JNull)"

definition by_path :: "string \<Rightarrow> ('i, 'n, 'f, 'v) models \<Rightarrow> nat option" where
  "by_path p ms = position (\<lambda>(b, g). b = p \<or> b = ''/api/'' @ p) ms"

definition by_type :: "string \<Rightarrow> ('i, 'n, 'f, 'v) models \<Rightarrow> nat option" where
  "by_type t ms = position (\<lambda>(b, g). rg_name g = t \<or> has_infix t b) ms"

definition first_model :: "('i, 'n, 'f, 'v) models \<Rightarrow> nat option" where
  "first_model ms = (if ms = [] then None else Some 0)"

definition update_model ::
  "nat \<Rightarrow> (('i, 'n, 'f, 'v) registered \<Rightarrow> 'r \<times> ('i, 'n, 'f, 'v) registered) \<Rightarrow> ('i, 'n, 'f, 'v) models \<Rightarrow>
   'r \<times> ('i, 'n, 'f, 'v) models"
where
  "update_model k f ms = (case f (snd (ms ! k)) of (r, g) \<Rightarrow> (r, ms[k := (fst (ms ! k), g)]))"

definition status_ok :: "string \<Rightarrow> response" where
  "status_ok rest = json_response 200 (''{'' @ json_key ''status'' @ [CHR 34] @ ''ok'' @ [CHR 34] @ rest @ ''}'')"

definition no_model_found :: response where
  "no_model_found = json_response 404 (error_body ''No model handler found'')"

text \<open>The message in the body of a request.\<close>

definition parsed_message :: "'n json_lib \<Rightarrow> string option \<Rightarrow> response + 'n jvalue" where
  "parsed_message J body =
     (case body of
        None \<Rightarrow> Inl (json_response 400 (error_body ''Invalid body''))
      | Some b \<Rightarrow>
          (case jl_parse J b of
             Inl e \<Rightarrow> Inl (json_response 400 (error_body (''Invalid JSON: '' @ e)))
           | Inr v \<Rightarrow> Inr v))"

definition applied_response :: "('r \<Rightarrow> string) \<Rightarrow> string + 'r \<Rightarrow> response" where
  "applied_response rest r =
     (case r of Inl e \<Rightarrow> json_response 500 (error_body e) | Inr x \<Rightarrow> status_ok (rest x))"

text \<open>An operation of the coordinator, or the item in the older form of the message.\<close>

definition replicate_message ::
  "u64 \<Rightarrow> 'n jvalue \<Rightarrow> nat \<Rightarrow> ('i, 'n, 'f, 'v) models \<Rightarrow> response \<times> ('i, 'n, 'f, 'v) models"
where
  "replicate_message now m k ms =
     (let answer = (\<lambda>(r, ms'). (applied_response (\<lambda>_. []) r, ms'));
          legacy = (case value_get ''data'' m of
             Some d \<Rightarrow> answer (update_model k (apply_item_json now d) ms)
           | None \<Rightarrow> (json_response 400 (error_body ''Missing 'data' or 'operation' field''), ms))
      in case value_get ''operation'' m of
           None \<Rightarrow> legacy
         | Some op \<Rightarrow>
             (case value_get ''Create'' op of
                Some d \<Rightarrow> answer (update_model k (apply_item_json now (field_or_null ''item'' d)) ms)
              | None \<Rightarrow>
                  (case value_get ''Update'' op of
                     Some d \<Rightarrow>
                       (let key = (case text_at ''primary_key'' d of Some s \<Rightarrow> s | None \<Rightarrow> [])
                        in answer (update_model k (apply_update_json now key (field_or_null ''item'' d)) ms))
                   | None \<Rightarrow>
                       (case value_get ''Delete'' op of
                          Some d \<Rightarrow>
                            (let key = (case text_at ''primary_key'' d of Some s \<Rightarrow> s | None \<Rightarrow> [])
                             in (case update_model k (apply_delete_json now key) ms of
                                   (r, ms') \<Rightarrow> (applied_response (\<lambda>_. []) r, ms')))
                        | None \<Rightarrow> legacy))))"

definition handle_internal_replicate ::
  "'n json_lib \<Rightarrow> u64 \<Rightarrow> string option \<Rightarrow> ('i, 'n, 'f, 'v) models \<Rightarrow> response \<times> ('i, 'n, 'f, 'v) models"
where
  "handle_internal_replicate J now body ms =
     (case parsed_message J body of
        Inl a \<Rightarrow> (a, ms)
      | Inr m \<Rightarrow>
          (case (case text_at ''base_path'' m of
                   Some p \<Rightarrow> by_path p ms
                 | None \<Rightarrow>
                     (case text_at ''model_type'' m of
                        Some t \<Rightarrow> by_type t ms
                      | None \<Rightarrow> first_model ms)) of
             None \<Rightarrow> (no_model_found, ms)
           | Some k \<Rightarrow> replicate_message now m k ms))"

definition path_or_first :: "'n jvalue \<Rightarrow> ('i, 'n, 'f, 'v) models \<Rightarrow> nat option" where
  "path_or_first m ms = (case text_at ''base_path'' m of Some p \<Rightarrow> by_path p ms | None \<Rightarrow> first_model ms)"

definition handle_internal_replicate_bulk ::
  "'n json_lib \<Rightarrow> u64 \<Rightarrow> string option \<Rightarrow> ('i, 'n, 'f, 'v) models \<Rightarrow> response \<times> ('i, 'n, 'f, 'v) models"
where
  "handle_internal_replicate_bulk J now body ms =
     (case parsed_message J body of
        Inl a \<Rightarrow> (a, ms)
      | Inr m \<Rightarrow>
          (case value_get ''items'' m of
             Some (JArray vs) \<Rightarrow>
               (case path_or_first m ms of
                  None \<Rightarrow> (no_model_found, ms)
                | Some k \<Rightarrow>
                    (case update_model k (apply_items_json now vs) ms of
                       (r, ms') \<Rightarrow> (applied_response (\<lambda>n. '','' @ json_key ''count'' @ show_nat n) r, ms')))
           | _ \<Rightarrow> (json_response 400 (error_body ''Missing or invalid 'items' field''), ms)))"

definition handle_internal_replicate_update ::
  "'n json_lib \<Rightarrow> u64 \<Rightarrow> string option \<Rightarrow> ('i, 'n, 'f, 'v) models \<Rightarrow> response \<times> ('i, 'n, 'f, 'v) models"
where
  "handle_internal_replicate_update J now body ms =
     (case parsed_message J body of
        Inl a \<Rightarrow> (a, ms)
      | Inr m \<Rightarrow>
          (case text_at ''id'' m of
             None \<Rightarrow> (json_response 400 (error_body ''Missing 'id' field''), ms)
           | Some key \<Rightarrow>
               (case value_get ''data'' m of
                  None \<Rightarrow> (json_response 400 (error_body ''Missing 'data' field''), ms)
                | Some d \<Rightarrow>
                    (case path_or_first m ms of
                       None \<Rightarrow> (no_model_found, ms)
                     | Some k \<Rightarrow>
                         (case update_model k (apply_update_json now key d) ms of
                            (r, ms') \<Rightarrow> (applied_response (\<lambda>_. []) r, ms'))))))"

definition handle_internal_replicate_delete ::
  "'n json_lib \<Rightarrow> u64 \<Rightarrow> string option \<Rightarrow> ('i, 'n, 'f, 'v) models \<Rightarrow> response \<times> ('i, 'n, 'f, 'v) models"
where
  "handle_internal_replicate_delete J now body ms =
     (case parsed_message J body of
        Inl a \<Rightarrow> (a, ms)
      | Inr m \<Rightarrow>
          (case text_at ''id'' m of
             None \<Rightarrow> (json_response 400 (error_body ''Missing 'id' field''), ms)
           | Some key \<Rightarrow>
               (case path_or_first m ms of
                  None \<Rightarrow> (no_model_found, ms)
                | Some k \<Rightarrow>
                    (case update_model k (apply_delete_json now key) ms of
                       (r, ms') \<Rightarrow>
                         (applied_response (\<lambda>b. '','' @ json_key ''deleted'' @ bool_display b) r, ms')))))"

section \<open>Administration of the data\<close>

definition by_name :: "string \<Rightarrow> ('i, 'n, 'f, 'v) models \<Rightarrow> nat option" where
  "by_name n ms = position (\<lambda>(b, g). rg_name g = n) ms"

definition path_segments :: "string \<Rightarrow> string list" where
  "path_segments p = filter (\<lambda>s. s \<noteq> []) (split_on (CHR ''/'') p)"

definition pretty_response :: "'n json_lib \<Rightarrow> 'n jvalue \<Rightarrow> response" where
  "pretty_response J v = json_response 200 (jl_pretty J v)"

definition with_disposition :: "string \<Rightarrow> response \<Rightarrow> response" where
  "with_disposition name r =
     r\<lparr>hs_headers := hs_headers r @
        [(''content-disposition'', ''attachment; filename='' @ [CHR 34] @ name @ [CHR 34])]\<rparr>"

definition model_not_found :: "string \<Rightarrow> response" where
  "model_not_found n = json_response 404 (error_body (''Model '' @ [CHR 39] @ n @ [CHR 39] @ '' not found''))"

definition route_value :: "string \<Rightarrow> string \<Rightarrow> (string \<times> 'n jvalue) list \<Rightarrow> 'n jvalue" where
  "route_value meth path rest = JObject ([(''method'', JText meth), (''path'', JText path)] @ rest)"

definition model_routes :: "string \<times> ('i, 'n, 'f, 'v) registered \<Rightarrow> 'n jvalue list" where
  "model_routes m =
     (let rest = [(''type'', JText ''model''), (''model'', JText (rg_name (snd m)))] in
      [route_value ''GET'' (fst m) rest, route_value ''POST'' (fst m) rest,
       route_value ''GET'' (fst m @ ''/:id'') rest, route_value ''PUT'' (fst m @ ''/:id'') rest,
       route_value ''DELETE'' (fst m @ ''/:id'') rest])"

definition admin_routes :: "'n jvalue list" where
  "admin_routes =
     (let rest = [(''type'', JText ''admin'')] in
      [route_value ''GET'' ''/_admin/data/models'' rest, route_value ''GET'' ''/_admin/data/models/:name'' rest,
       route_value ''GET'' ''/_admin/data/models/:name/export'' rest, route_value ''GET'' ''/_admin/data/routes'' rest,
       route_value ''POST'' ''/_admin/data/backup'' rest])"

definition routes_value :: "'n json_lib \<Rightarrow> (string \<times> string) list \<Rightarrow> bool \<Rightarrow> ('i, 'n, 'f, 'v) models \<Rightarrow> 'n jvalue" where
  "routes_value J custom admin ms =
     (let rs = concat (map model_routes ms) @
           map (\<lambda>(m, p). route_value m p [(''type'', JText ''custom'')]) custom @ (if admin then admin_routes else [])
      in JObject [(''routes'', JArray rs), (''total_routes'', JNumber (jl_number J (length rs)))])"

definition model_entry :: "'n json_lib \<Rightarrow> string \<times> ('i, 'n, 'f, 'v) registered \<Rightarrow> 'n jvalue" where
  "model_entry J m =
     JObject [(''name'', JText (rg_name (snd m))), (''base_path'', JText (fst m)),
       (''data_path'', JText (rg_data_path (snd m))), (''count'', JNumber (jl_number J (get_count (snd m))))]"

definition model_data :: "'n json_lib \<Rightarrow> string \<times> ('i, 'n, 'f, 'v) registered \<Rightarrow> 'n jvalue" where
  "model_data J m =
     JObject [(''model'', JText (rg_name (snd m))), (''base_path'', JText (fst m)),
       (''count'', JNumber (jl_number J (get_count (snd m)))), (''data'', get_all_data_json (snd m))]"

definition edit_request ::
  "'n json_lib \<Rightarrow> u64 \<Rightarrow> nat \<Rightarrow> string option \<Rightarrow> string \<Rightarrow> string \<Rightarrow> nat \<Rightarrow> ('i, 'n, 'f, 'v) models \<Rightarrow>
   response \<times> ('i, 'n, 'f, 'v) models"
where
  "edit_request J now ms body name k j gs =
     (case body of
        None \<Rightarrow> (json_response 400 (error_body ''Invalid request body''), gs)
      | Some b \<Rightarrow>
          (case jl_parse J b of
             Inl _ \<Rightarrow> (json_response 400 (error_body ''Invalid JSON''), gs)
           | Inr changes \<Rightarrow>
               (case update_model j (submit_edit_event now ms k changes) gs of
                  (Inl e, gs') \<Rightarrow> (json_response 400 (error_body e), gs')
                | (Inr v, gs') \<Rightarrow>
                    (pretty_response J (JObject [(''success'', JBool True),
                       (''message'', JText ''Edit event submitted successfully''), (''entity_id'', JText k),
                       (''model'', JText name), (''updated_data'', v)]), gs'))))"

text \<open>\<open>None\<close> is the panic of reading a damaged binary log for a history.\<close>

definition handle_data_admin_request ::
  "'n json_lib \<Rightarrow> string \<Rightarrow> (string \<times> string) list \<Rightarrow> bool \<Rightarrow> u64 \<Rightarrow> nat \<Rightarrow> string \<Rightarrow> string \<Rightarrow> string option \<Rightarrow>
   ('i, 'n, 'f, 'v) models \<Rightarrow> (response \<times> ('i, 'n, 'f, 'v) models) option"
where
  "handle_data_admin_request J stamp custom admin now ms meth path body gs =
     (let parts = path_segments (case strip_prefix ''/_admin/data/'' path of Some s \<Rightarrow> s | None \<Rightarrow> []);
          unknown = Some (json_response 404 (error_body ''Unknown data admin endpoint''), gs);
          found = (\<lambda>name f. case by_name name gs of None \<Rightarrow> Some (model_not_found name, gs) | Some j \<Rightarrow> f j)
      in case parts of
           [a] \<Rightarrow>
             (if meth = ''GET'' \<and> a = ''models'' then
                Some (pretty_response J (JObject [(''models'', JArray (map (model_entry J) gs)),
                  (''total_models'', JNumber (jl_number J (length gs)))]), gs)
              else if meth = ''GET'' \<and> a = ''routes'' then
                Some (pretty_response J (routes_value J custom admin gs), gs)
              else if meth = ''POST'' \<and> a = ''backup'' then
                Some (with_disposition ''lithair_backup.json''
                  (pretty_response J (JObject [(''backup_type'', JText ''full''), (''timestamp'', JText stamp),
                    (''model_count'', JNumber (jl_number J (length gs))),
                    (''models'', JArray (map (\<lambda>m. export_json J stamp (snd m)) gs))])), gs)
              else unknown)
         | [a, name] \<Rightarrow>
             (if meth = ''GET'' \<and> a = ''models''
              then found name (\<lambda>j. Some (pretty_response J (model_data J (gs ! j)), gs))
              else unknown)
         | [a, name, b] \<Rightarrow>
             (if meth = ''GET'' \<and> a = ''models'' \<and> b = ''export''
              then found name (\<lambda>j. Some (with_disposition (name @ ''_export.json'')
                     (pretty_response J (export_json J stamp (snd (gs ! j)))), gs))
              else unknown)
         | [a, name, k, b] \<Rightarrow>
             (if meth = ''GET'' \<and> a = ''models'' \<and> b = ''history''
              then found name (\<lambda>j. map_option (\<lambda>v. (pretty_response J v, gs)) (history_json J k (snd (gs ! j))))
              else if meth = ''POST'' \<and> a = ''models'' \<and> b = ''edit''
              then found name (\<lambda>j. Some (edit_request J now ms body name k j gs))
              else unknown)
         | _ \<Rightarrow> unknown)"

section \<open>Writes in a cluster\<close>

definition model_segments :: "string \<Rightarrow> string \<Rightarrow> string list" where
  "model_segments base path =
     path_segments (dropWhile (\<lambda>c. c = CHR ''/'') (case strip_prefix base path of Some s \<Rightarrow> s | None \<Rightarrow> []))"

datatype write_kind = CreateWrite | BulkWrite | UpdateWrite string | DeleteWrite string

definition write_kind_of :: "string \<Rightarrow> string list \<Rightarrow> write_kind option" where
  "write_kind_of meth segs =
     (case segs of
        [] \<Rightarrow> (if meth = ''POST'' then Some CreateWrite else None)
      | s # _ \<Rightarrow>
          (if meth = ''POST'' \<and> s = ''_bulk'' then Some BulkWrite
           else if meth = ''PUT'' \<or> meth = ''PATCH'' then Some (UpdateWrite s)
           else if meth = ''DELETE'' then Some (DeleteWrite s) else None))"

text \<open>Assigning a field: a null becomes an object, any other value that is no object panics.\<close>

definition set_field :: "string \<Rightarrow> 'n jvalue \<Rightarrow> 'n jvalue \<Rightarrow> 'n jvalue option" where
  "set_field k x v =
     (case v of
        JObject m \<Rightarrow> Some (JObject (AList.update k x m))
      | JNull \<Rightarrow> Some (JObject [(k, x)])
      | _ \<Rightarrow> None)"

definition set_unless :: "bool \<Rightarrow> string \<Rightarrow> 'n jvalue \<Rightarrow> 'n jvalue \<Rightarrow> 'n jvalue option" where
  "set_unless p k x v = (if p then Some v else set_field k x v)"

text \<open>The item that the leader proposes: with an identifier and the times of its creation.\<close>

definition completed_item :: "string \<Rightarrow> string \<Rightarrow> 'n jvalue \<Rightarrow> 'n jvalue option" where
  "completed_item uuid stamp v =
     Option.bind (set_unless (value_get ''id'' v \<noteq> None \<and> value_get ''id'' v \<noteq> Some JNull) ''id'' (JText uuid) v) (\<lambda>v1.
     Option.bind (set_unless (value_get ''created_at'' v1 \<noteq> None) ''created_at'' (JText stamp) v1) (\<lambda>v2.
     set_unless (value_get ''updated_at'' v2 \<noteq> None) ''updated_at'' (JText stamp) v2))"

definition body_or_null :: "'n json_lib \<Rightarrow> string \<Rightarrow> 'n jvalue" where
  "body_or_null J b = (case jl_parse J b of Inr v \<Rightarrow> v | Inl _ \<Rightarrow> JNull)"

text \<open>The operation that a write becomes; \<open>None\<close> is a panic.\<close>

definition cluster_operation ::
  "'n json_lib \<Rightarrow> string \<Rightarrow> string \<Rightarrow> string \<Rightarrow> ('i, 'n, 'f, 'v) registered \<Rightarrow> write_kind \<Rightarrow> string \<Rightarrow>
   'n jvalue ConsensusLog.crud_operation option"
where
  "cluster_operation J uuid stamp base g w body =
     (let v = body_or_null J body
      in case w of
           CreateWrite \<Rightarrow> map_option (Create base) (completed_item uuid stamp v)
         | BulkWrite \<Rightarrow> map_option (Create base) (completed_item uuid stamp v)
         | UpdateWrite k \<Rightarrow>
             (let merged = (case get_item_json k g of Some x \<Rightarrow> merge_changes x v | None \<Rightarrow> v)
              in map_option (Update base k) (set_field ''updated_at'' (JText stamp) merged))
         | DeleteWrite k \<Rightarrow> Some (Delete base k))"

text \<open>What a request to a model leads to: an answer, or an operation for the log of the cluster.\<close>

datatype ('n, 'h) model_action =
    Redirected u16 string
  | ProposalPanics
  | Proposes "'n jvalue ConsensusLog.crud_operation" bool
  | Served response 'h

definition model_request ::
  "'n json_lib \<Rightarrow> bool \<Rightarrow> leadership option \<Rightarrow> string \<Rightarrow> string \<Rightarrow> net \<Rightarrow> int \<Rightarrow> u64 \<Rightarrow> api_request \<Rightarrow> string \<Rightarrow>
   string \<times> ('i, 'n, 'f, 'v) registered \<Rightarrow> ('n, ('i, 'n, 'v) handler) model_action"
where
  "model_request J clustered raft uuid stamp net t now r body m =
     (let base = fst m; g = snd m; path = hr_path (aq_request r);
          segs = model_segments base path
      in case (if clustered then write_kind_of (hr_method (aq_request r)) segs else None) of
           None \<Rightarrow>
             (case handle_model_request (rg_env g) net t now r segs (rg_handler g) of (a, h) \<Rightarrow> Served a h)
         | Some w \<Rightarrow>
             (case raft of
                Some s \<Rightarrow>
                  (if \<not> rl_is_leader s then Redirected (rl_leader_port s) path
                   else case cluster_operation J uuid stamp base g w body of
                          None \<Rightarrow> ProposalPanics
                        | Some op \<Rightarrow> Proposes op (w = CreateWrite))
              | None \<Rightarrow>
                  (case cluster_operation J uuid stamp base g w body of
                     None \<Rightarrow> ProposalPanics
                   | Some op \<Rightarrow> Proposes op (w = CreateWrite))))"

text \<open>The answer to a write once it is committed and applied; \<open>show_error\<close> prints the other errors.\<close>

definition apply_error_text :: "(apply_error \<Rightarrow> string) \<Rightarrow> apply_error \<Rightarrow> string" where
  "apply_error_text show_error e =
     (case e of
        ModelNotFound p \<Rightarrow> ''Model not found for path: '' @ p
      | HandlerError x \<Rightarrow> x
      | _ \<Rightarrow> show_error e)"

definition write_response ::
  "'n json_lib \<Rightarrow> ('n jvalue applied_result \<Rightarrow> 'n jvalue) \<Rightarrow> (apply_error \<Rightarrow> string) \<Rightarrow> bool \<Rightarrow> u64 \<Rightarrow>
   apply_error + 'n jvalue applied_result \<Rightarrow> response"
where
  "write_response J show_result show_error is_create index r =
     (case r of
        Inl e \<Rightarrow> \<lparr>hs_status = 500, hs_headers = [], hs_body = error_body (''Apply failed: '' @ apply_error_text show_error e)\<rparr>
      | Inr x \<Rightarrow>
          \<lparr>hs_status = (if is_create then 201 else 200),
           hs_headers = [(''content-type'', ''application/json''), (''x-raft-index'', u64_text index)],
           hs_body = jl_text J (case x of
             AppliedData v \<Rightarrow> v
           | AppliedDelete k \<Rightarrow> JObject [(''deleted'', JText k)]
           | _ \<Rightarrow> show_result x)\<rparr>)"

end
