(* ===== verification/ClusterModels.thy ===== *)
theory ClusterModels
  imports ModelServer LeaderWrite
begin

text \<open>
  What the models of the nodes of a cluster have in common: replicas that apply the same committed
  operations store the same items, whatever their clocks, guards and event logs; the cluster accepts
  writes that a single node refuses; and the coordinator over HTTP lets the peers store what it refuses.
\<close>

section \<open>Replicas without their clocks\<close>

text \<open>What the replicas share of a server: the base paths, the models and the stored items.\<close>

definition shared_view ::
  "('j, ('i, 'n, 'f, 'v) registered) app_state \<Rightarrow> (string \<times> ('i, 'n) model \<times> (string, 'i) dict) list"
where
  "shared_view s = map (\<lambda>(b, g). (b, rg_model g, mh_storage (rg_handler g))) (app_models s)"

definition at_model ::
  "string \<Rightarrow> (('i, 'n) model \<Rightarrow> (string, 'i) dict \<Rightarrow> (unit + (string, 'i) dict)) \<Rightarrow>
   (string \<times> ('i, 'n) model \<times> (string, 'i) dict) list \<Rightarrow>
   (unit + unit) \<times> (string \<times> ('i, 'n) model \<times> (string, 'i) dict) list"
where
  "at_model path f ms =
     (case find_model path ms of
        None \<Rightarrow> (Inl (), ms)
      | Some k \<Rightarrow>
          (case ms ! k of (b, M, st) \<Rightarrow>
             (case f M st of Inl _ \<Rightarrow> (Inl (), ms) | Inr st' \<Rightarrow> (Inr (), ms[k := (b, M, st')]))))"

text \<open>The effect of an operation of a model on the shared view; operations of migrations have none.\<close>

fun shared_apply ::
  "'n jvalue ConsensusLog.crud_operation \<Rightarrow> (string \<times> ('i, 'n) model \<times> (string, 'i) dict) list \<Rightarrow>
   (unit + unit) \<times> (string \<times> ('i, 'n) model \<times> (string, 'i) dict) list"
where
  "shared_apply (Create p v) ms =
     at_model p (\<lambda>M st. map_sum (\<lambda>_. ()) (\<lambda>i. AList.update (actual_key M i) i st) (md_of_value M v)) ms"
| "shared_apply (Update p k v) ms =
     at_model p (\<lambda>M st. map_sum (\<lambda>_. ())
       (\<lambda>i. AList.update (if map_of st k = None then actual_key M i else k) i st) (md_of_value M v)) ms"
| "shared_apply (Delete p k) ms = at_model p (\<lambda>M st. Inr (AList.delete k st)) ms"
| "shared_apply _ ms = (Inr (), ms)"

definition is_write :: "'j ConsensusLog.crud_operation \<Rightarrow> bool" where
  "is_write op \<longleftrightarrow> (case op of Create p v \<Rightarrow> True | Update p k v \<Rightarrow> True | Delete p k \<Rightarrow> True | _ \<Rightarrow> False)"

text \<open>The clock of a node may show anything at any step.\<close>

definition node_apply ::
  "('n jvalue ConsensusLog.crud_operation \<Rightarrow> ('n jvalue, ('i, 'n, 'f, 'v) registered) app_state \<Rightarrow> u64) \<Rightarrow>
   (string list \<Rightarrow> string) \<Rightarrow> 'n jvalue ConsensusLog.crud_operation \<Rightarrow>
   ('n jvalue, ('i, 'n, 'f, 'v) registered) app_state \<Rightarrow>
   (apply_error + 'n jvalue applied_result) \<times> ('n jvalue, ('i, 'n, 'f, 'v) registered) app_state"
where
  "node_apply clock dbg op s = apply_crud_operation (model_operations (clock op s)) dbg (clock op s) op s"

lemma position_map: "position P (map f xs) = position (\<lambda>x. P (f x)) xs"
  by (induction xs) simp_all

lemma position_bound: "position P xs = Some k \<Longrightarrow> k < length xs"
  by (induction xs arbitrary: k) (auto split: if_splits)

lemma find_model_shared: "find_model p (shared_view s) = find_model p (app_models s)"
  by (simp add: find_model_def shared_view_def position_map case_prod_unfold)

lemma shared_nth:
  "k < length (app_models s) \<Longrightarrow>
   shared_view s ! k = (case app_models s ! k of (b, g) \<Rightarrow> (b, rg_model g, mh_storage (rg_handler g)))"
  by (simp add: shared_view_def)

lemma replicated_storage:
  "mh_storage (apply_replicated_item E now i h) = AList.update (actual_key (ae_model E) i) i (mh_storage h)"
  "mh_storage (apply_replicated_update E now k i h) =
     AList.update (if map_of (mh_storage h) k = None then actual_key (ae_model E) i else k) i (mh_storage h)"
  "mh_storage (snd (apply_replicated_delete E now k h)) = AList.delete k (mh_storage h)"
proof -
  have p: "mh_storage (snd (persist_to_event_store E now operation i g)) = mh_storage g" for operation i g
    by (simp add: persist_to_event_store_def append_to_log_def split: option.split prod.split sum.split)
  show item: "mh_storage (apply_replicated_item E now i h) = AList.update (actual_key (ae_model E) i) i (mh_storage h)"
    for i h by (simp add: apply_replicated_item_def p)
  show "mh_storage (apply_replicated_update E now k i h) =
     AList.update (if map_of (mh_storage h) k = None then actual_key (ae_model E) i else k) i (mh_storage h)"
    by (simp add: apply_replicated_update_def item p)
  show "mh_storage (snd (apply_replicated_delete E now k h)) = AList.delete k (mh_storage h)"
  proof (cases "map_of (mh_storage h) k")
    case None
    then have "AList.delete k (mh_storage h) = mh_storage h"
      by (metis delete_absent)
    then show ?thesis using None by (simp add: apply_replicated_delete_def)
  qed (simp add: apply_replicated_delete_def p)
qed

lemma with_model_shared:
  assumes "\<And>g. map_sum (\<lambda>_. ()) (\<lambda>_. ()) (fst (f g)) = map_sum (\<lambda>_. ()) (\<lambda>_. ()) (F (rg_model g) (mh_storage (rg_handler g)))"
    and "\<And>g st. F (rg_model g) (mh_storage (rg_handler g)) = Inr st \<Longrightarrow> mh_storage (rg_handler (snd (f g))) = st"
    and "\<And>g. rg_model (snd (f g)) = rg_model g" and "\<And>g. isl (fst (f g)) \<Longrightarrow> snd (f g) = g"
  shows "map_sum (\<lambda>_. ()) (\<lambda>_. ()) (fst (with_model p f ok s)) = fst (at_model p F (shared_view s)) \<and>
    shared_view (snd (with_model p f ok s)) = snd (at_model p F (shared_view s)) \<and>
    (isl (fst (with_model p f ok s)) \<longrightarrow> snd (with_model p f ok s) = s)"
proof (cases "find_model p (app_models s)")
  case None
  then show ?thesis by (simp add: with_model_def at_model_def find_model_shared)
next
  case (Some k)
  then have k: "k < length (app_models s)" using position_bound by (auto simp: find_model_def)
  obtain b g where g: "app_models s ! k = (b, g)" by (cases "app_models s ! k")
  obtain r g' where f: "f g = (r, g')" by (cases "f g")
  have sv: "shared_view s ! k = (b, rg_model g, mh_storage (rg_handler g))" using shared_nth [OF k] g by simp
  show ?thesis
  proof (cases r)
    case (Inl e)
    then have "g' = g" using assms(4) [of g] f by simp
    moreover obtain u where "F (rg_model g) (mh_storage (rg_handler g)) = Inl u"
      using assms(1) [of g] f Inl by (cases "F (rg_model g) (mh_storage (rg_handler g))") simp_all
    moreover have "s\<lparr>app_models := (app_models s)[k := (b, g)]\<rparr> = s" using k g
      by (metis list_update_id app_state.surjective app_state.update_convs(1))
    ultimately show ?thesis
      using Some Inl f g sv by (simp add: with_model_def at_model_def find_model_shared)
  next
    case (Inr u)
    then obtain st where st: "F (rg_model g) (mh_storage (rg_handler g)) = Inr st"
      using assms(1) [of g] f by (cases "F (rg_model g) (mh_storage (rg_handler g))") simp_all
    have "mh_storage (rg_handler g') = st" "rg_model g' = rg_model g"
      using assms(2) [OF st] assms(3) [of g] f by simp_all
    moreover have "shared_view (s\<lparr>app_models := (app_models s)[k := (b, g')]\<rparr>) =
        (shared_view s)[k := (b, rg_model g', mh_storage (rg_handler g'))]"
      by (simp add: shared_view_def map_update)
    ultimately show ?thesis
      using Some Inr f g sv st by (simp add: with_model_def at_model_def find_model_shared)
  qed
qed

lemma delete_json_result:
  "apply_delete_json now k g = (Inr (fst (apply_replicated_delete (rg_env g) now k (rg_handler g))),
     g\<lparr>rg_handler := snd (apply_replicated_delete (rg_env g) now k (rg_handler g))\<rparr>)"
  by (simp add: apply_delete_json_def case_prod_unfold)

lemma node_apply_shared:
  assumes "is_write op"
  shows "map_sum (\<lambda>_. ()) (\<lambda>_. ()) (fst (node_apply clock dbg op s)) = fst (shared_apply op (shared_view s)) \<and>
    shared_view (snd (node_apply clock dbg op s)) = snd (shared_apply op (shared_view s)) \<and>
    (isl (fst (node_apply clock dbg op s)) \<longrightarrow> snd (node_apply clock dbg op s) = s)"
proof (cases op)
  case (Create p v)
  show ?thesis unfolding node_apply_def Create apply_crud_operation.simps shared_apply.simps
    by (rule with_model_shared)
      (auto simp: model_operations_def apply_item_json_def replicated_storage rg_model_def split: sum.splits)
next
  case (Update p k v)
  show ?thesis unfolding node_apply_def Update apply_crud_operation.simps shared_apply.simps
    by (rule with_model_shared)
      (auto simp: model_operations_def apply_update_json_def replicated_storage rg_model_def split: sum.splits)
next
  case (Delete p k)
  show ?thesis unfolding node_apply_def Delete apply_crud_operation.simps shared_apply.simps
    by (rule with_model_shared) (auto simp: model_operations_def delete_json_result replicated_storage rg_model_def)
qed (use assms in \<open>simp_all add: is_write_def\<close>)

lemma node_apply_clean: "fails_clean (node_apply clock dbg)"
  unfolding fails_clean_def
proof (intro allI impI)
  fix op s
  assume f: "isl (fst (node_apply clock dbg op s))"
  show "snd (node_apply clock dbg op s) = s"
  proof (cases "is_write op")
    case True
    then show ?thesis using node_apply_shared [of op clock dbg s] f by blast
  next
    case False
    then show ?thesis
      using f by (cases op) (auto simp: is_write_def node_apply_def split: option.splits sum.splits prod.splits)
  qed
qed

definition shared_follower ::
  "('n jvalue, ('n jvalue, ('i, 'n, 'f, 'v) registered) app_state) follower \<Rightarrow>
   ('n jvalue, (string \<times> ('i, 'n) model \<times> (string, 'i) dict) list) follower"
where
  "shared_follower f = \<lparr>fo_log = fo_log f, fo_state = shared_view (fo_state f), fo_draining = fo_draining f\<rparr>"

lemma shared_reachable:
  assumes "follower_reachable (node_apply clock dbg) S s0 f" and "index_agree S"
    and w: "\<forall>e \<in> S. is_write (le_operation e)"
  shows "follower_reachable shared_apply S (shared_view s0) (shared_follower f)"
  using assms(1)
proof (induction rule: follower_reachable.induct)
  case fr_init
  show ?case
    using follower_reachable.fr_init [of shared_apply S "shared_view s0"]
    by (simp add: follower_new_def shared_follower_def)
next
  case (fr_step f f')
  have ok: "follower_ok (node_apply clock dbg) S s0 f"
    using follower_reachable_ok [OF fr_step(1) node_apply_clean assms(2)] .
  have sub: "set (cl_entries (fo_log f)) \<subseteq> S" using ok by (simp add: follower_ok_def follower_inv_def)
  have entry: "is_write (le_operation e)" if "fo_draining f = Some (e # es)" for e es
    using ok w sub that by (auto simp: follower_ok_def draining_ok_def)
  have "follower_step shared_apply S (shared_follower f) (shared_follower f')"
    using fr_step(2)
  proof cases
    case (fs_term t)
    then show ?thesis using follower_step.fs_term [of shared_apply S "shared_follower f" t]
      by (simp add: shared_follower_def)
  next
    case (fs_append es c)
    then show ?thesis using follower_step.fs_append [of es S shared_apply "shared_follower f" c]
      by (simp add: shared_follower_def)
  next
    case (fs_lock es)
    then show ?thesis using follower_step.fs_lock [of "shared_follower f" es shared_apply S]
      by (simp add: shared_follower_def)
  next
    case (fs_apply e es r s)
    have "shared_apply (le_operation e) (shared_view (fo_state f)) = (Inr (), shared_view s)"
      using node_apply_shared [OF entry [OF fs_apply(2)], of clock dbg "fo_state f"] fs_apply(3)
      by (cases "shared_apply (le_operation e) (shared_view (fo_state f))") simp
    then show ?thesis
      using fs_apply follower_step.fs_apply [of "shared_follower f" e es shared_apply "()" "shared_view s" S]
      by (simp add: shared_follower_def)
  next
    case (fs_fail e es x s)
    have "shared_apply (le_operation e) (shared_view (fo_state f)) = (Inl (), shared_view s)"
      using node_apply_shared [OF entry [OF fs_fail(2)], of clock dbg "fo_state f"] fs_fail(3)
      by (cases "shared_apply (le_operation e) (shared_view (fo_state f))") simp
    then show ?thesis
      using fs_fail follower_step.fs_fail [of "shared_follower f" e es shared_apply "()" "shared_view s" S]
      by (simp add: shared_follower_def)
  next
    case fs_unlock
    then show ?thesis using follower_step.fs_unlock [of "shared_follower f" shared_apply S]
      by (simp add: shared_follower_def)
  qed
  with fr_step.IH show ?case by (rule follower_reachable.fr_step)
qed

lemma shared_clean: "fails_clean shared_apply"
proof -
  have m: "isl (fst (at_model p f ms)) \<Longrightarrow> snd (at_model p f ms) = ms" for p f ms
    by (auto simp: at_model_def split: option.splits prod.splits sum.splits)
  show ?thesis unfolding fails_clean_def
  proof (intro allI impI)
    fix op ms
    assume "isl (fst (shared_apply op ms))"
    then show "snd (shared_apply op ms) = ms" by (cases op) (simp_all add: m)
  qed
qed


section \<open>What a cluster accepts\<close>

lemma create_op_applies:
  assumes "find_model base (app_models s) = Some k" and "app_models s ! k = (base, g)"
    and "md_of_value (rg_model g) v = Inr i"
  shows "\<exists>s'. node_apply clock dbg (Create base v) s = (Inr (AppliedData v), s') \<and>
    (\<exists>g'. app_models s' ! k = (base, g') \<and> map_of (mh_storage (rg_handler g')) (actual_key (rg_model g) i) = Some i)"
proof -
  have k: "k < length (app_models s)" using assms(1) position_bound by (auto simp: find_model_def)
  show ?thesis
    using assms k
    by (simp add: node_apply_def with_model_def model_operations_def apply_item_json_def replicated_storage
        rg_model_def update_conv)
qed

lemma refused_create:
  assumes "handle_create E net t now r h = (a, h')" and "checked_body (ae_max_single E) r = Inr b"
    and "md_of_json (ae_model E) b = Some i" and "md_validate (ae_model E) i = Some e"
  shows "hs_status a \<in> {400, 401, 403} \<and> h' = h"
proof (cases "authorize_write E h (extracted_perms h r) (extracted_role E t h r) ''Write'' i")
  case None
  then show ?thesis using assms by (auto simp: handle_create_def prepared_def)
next
  case (Some x)
  then show ?thesis using assms refusals(3) [OF Some] by (auto simp: handle_create_def)
qed

text \<open>
  C8. The leader of a cluster validates nothing and asks for no permission: an item that a single node refuses
  becomes an operation of the log, which every node stores once it is committed, and the client is
  told 201.
\<close>

theorem cluster_skips_checks:
  assumes "hr_method (aq_request r) = ''POST''" and "model_segments base (hr_path (aq_request r)) = []"
    and "rl_is_leader ld" and "completed_item uuid stamp (body_or_null J body) = Some v"
    and "md_of_value (rg_model g) v = Inr i"
    and "find_model base (app_models s) = Some k" and "app_models s ! k = (base, g)"
    and "checked_body (ae_max_single (rg_env g)) r = Inr b" and "md_of_json (rg_model g) b = Some j"
    and "md_validate (rg_model g) j = Some e"
  shows "model_request J True (Some ld) uuid stamp net t now r body (base, g) = Proposes (Create base v) True \<and>
    (\<exists>s' g'. node_apply clock dbg (Create base v) s = (Inr (AppliedData v), s') \<and> app_models s' ! k = (base, g') \<and>
      map_of (mh_storage (rg_handler g')) (actual_key (rg_model g) i) = Some i) \<and>
    hs_status (write_response J show_result show_error True index (Inr (AppliedData v))) = 201 \<and>
    (\<exists>a. model_request J False raft uuid stamp net t now r body (base, g) = Served a (rg_handler g) \<and>
      hs_status a \<in> {400, 401, 403})"
proof -
  have w: "write_kind_of ''POST'' [] = Some CreateWrite" by (simp add: write_kind_of_def)
  have lead: "model_request J True (Some ld) uuid stamp net t now r body (base, g) = Proposes (Create base v) True"
    using assms(1-4) w by (simp add: model_request_def cluster_operation_def)
  obtain a h' where c: "handle_create (rg_env g) net t now r (rg_handler g) = (a, h')"
    by (cases "handle_create (rg_env g) net t now r (rg_handler g)")
  have "hs_status a \<in> {400, 401, 403} \<and> h' = rg_handler g"
    using refused_create [OF c assms(8)] assms(9,10) by (simp add: rg_model_def)
  moreover have "model_request J False raft uuid stamp net t now r body (base, g) = Served a h'"
    using assms(1,2) c by (simp add: model_request_def handle_model_request_def)
  ultimately show ?thesis
    using lead create_op_applies [OF assms(6,7,5), of clock dbg] by (auto simp: write_response_def)
qed

text \<open>
  A bulk creation, whose body is an array, panics on the leader of a cluster: the code assigns an
  identifier to the array.
\<close>

theorem bulk_create_panics:
  assumes "hr_method (aq_request r) = ''POST''" and "model_segments (fst m) (hr_path (aq_request r)) = ''_bulk'' # rest"
    and "case raft of Some ld \<Rightarrow> rl_is_leader ld | None \<Rightarrow> True" and "jl_parse J body = Inr (JArray vs)"
  shows "model_request J True raft uuid stamp net t now r body m = ProposalPanics"
proof -
  have "write_kind_of ''POST'' (''_bulk'' # rest) = Some BulkWrite" by (simp add: write_kind_of_def)
  moreover have "completed_item uuid stamp (JArray vs) = None"
    by (simp add: completed_item_def value_get_def set_unless_def set_field_def)
  ultimately show ?thesis
    using assms by (cases raft) (simp_all add: model_request_def cluster_operation_def body_or_null_def)
qed

text \<open>
  The first model whose path is a prefix gets everything: if the path of an earlier model is a
  prefix of the path of a later one, no operation ever reaches the later one.
\<close>

theorem prefix_shadows_model:
  assumes "i < j" and "j < length (app_models s)" and "fst (app_models s ! j) = fst (app_models s ! i) @ rest"
    and "op = Create (fst (app_models s ! j)) v \<or> op = Update (fst (app_models s ! j)) k v \<or> op = Delete (fst (app_models s ! j)) k"
  shows "app_models (snd (node_apply clock dbg op s)) ! j = app_models s ! j"
proof -
  have first: "position P xs = Some n \<Longrightarrow> n \<le> i" if "P (xs ! i)" and "i < length xs" for P n and xs :: "'z list"
    using that
  proof (induction xs arbitrary: i n)
    case (Cons x xs)
    then show ?case by (cases i) (auto split: if_splits)
  qed simp
  let ?p = "fst (app_models s ! j)"
  have "starts_with ?p (fst (app_models s ! i))" using assms(3) by (simp add: Replica.starts_with_def)
  then have pos: "find_model ?p (app_models s) = Some n \<Longrightarrow> n \<le> i" for n
    using first [of "\<lambda>(b, g). Replica.starts_with ?p b" "app_models s" n] assms(1,2)
    by (simp add: find_model_def case_prod_unfold)
  have "app_models (snd (with_model ?p f ok s)) ! j = app_models s ! j" for f ok
  proof (cases "find_model ?p (app_models s)")
    case (Some n)
    then have "n \<noteq> j" using pos assms(1) by fastforce
    then show ?thesis using Some by (simp add: with_model_def Let_def split: prod.split sum.split)
  qed (simp add: with_model_def)
  then show ?thesis using assms(4) by (auto simp: node_apply_def)
qed

section \<open>The coordinator and its peers\<close>

text \<open>The message of an operation, as the derived serialisation writes it.\<close>

definition operation_value :: "('i, 'n) model \<Rightarrow> 'i HttpConsensus.crud_operation \<Rightarrow> 'n jvalue" where
  "operation_value M op =
     (let item = (\<lambda>i. case md_to_value M i of Some v \<Rightarrow> v | None \<Rightarrow> JNull)
      in case op of
           CreateOp i k \<Rightarrow> JObject [(''Create'', JObject [(''item'', item i), (''primary_key'', JText k)])]
         | UpdateOp i k \<Rightarrow> JObject [(''Update'', JObject [(''item'', item i), (''primary_key'', JText k)])]
         | DeleteOp k \<Rightarrow> JObject [(''Delete'', JObject [(''primary_key'', JText k)])])"

definition message_value :: "'n json_lib \<Rightarrow> ('i, 'n) model \<Rightarrow> 'i app_data \<Rightarrow> 'n jvalue" where
  "message_value J M d =
     JObject [(''operation'', operation_value M (ap_operation d)), (''model_type'', JText (ap_model_type d)),
       (''timestamp'', JNumber (jl_number J (unat (ap_timestamp d)))),
       (''node_id'', JNumber (jl_number J (unat (ap_node_id d))))]"

text \<open>What a node writes, its peers read.\<close>

definition message_law :: "'n json_lib \<Rightarrow> ('i, 'n, 'f, 'v) api_env \<Rightarrow> bool" where
  "message_law J E \<longleftrightarrow>
     (\<forall>d msg. cj_data (ae_crud E) d = Inr msg \<longrightarrow> jl_parse J msg = Inr (message_value J (ae_model E) d))"

definition value_law :: "('i, 'n) model \<Rightarrow> bool" where
  "value_law M \<longleftrightarrow> (\<forall>i. \<exists>v. md_to_value M i = Some v \<and> md_of_value M v = Inr i)"

lemma peer_stores_update:
  assumes "jl_parse J msg = Inr (message_value J M d)" and "ap_operation d = UpdateOp i k" and "value_law M"
    and "by_type (ap_model_type d) ms = Some n" and "n < length ms" and "rg_model (snd (ms ! n)) = M"
  shows "\<exists>ms'. handle_internal_replicate J now (Some msg) ms = (status_ok [], ms') \<and>
    map_of (mh_storage (rg_handler (snd (ms' ! n))))
      (if map_of (mh_storage (rg_handler (snd (ms ! n)))) k = None then actual_key M i else k) = Some i"
proof -
  obtain v where v: "md_to_value M i = Some v" "md_of_value M v = Inr i" using assms(3) unfolding value_law_def by blast
  let ?g = "snd (ms ! n)" let ?m = "message_value J M d"
  have e: "ae_model (rg_env ?g) = M" using assms(6) by (simp add: rg_model_def)
  have m: "text_at ''base_path'' ?m = None" "text_at ''model_type'' ?m = Some (ap_model_type d)"
    "value_get ''operation'' ?m =
       Some (JObject [(''Update'', JObject [(''item'', v), (''primary_key'', JText k)])])"
    using v(1) assms(2) by (simp_all add: message_value_def operation_value_def text_at_def as_text_def value_get_def)
  have a: "apply_update_json now k v ?g = (Inr (), ?g\<lparr>rg_handler := apply_replicated_update (rg_env ?g) now k i (rg_handler ?g)\<rparr>)"
    using v(2) assms(6) by (simp add: apply_update_json_def)
  have "handle_internal_replicate J now (Some msg) ms =
      (status_ok [], ms[n := (fst (ms ! n), ?g\<lparr>rg_handler := apply_replicated_update (rg_env ?g) now k i (rg_handler ?g)\<rparr>)])"
    using assms(1,4) m a
    by (simp add: handle_internal_replicate_def parsed_message_def replicate_message_def value_get_def
        text_at_def as_text_def field_or_null_def update_model_def applied_response_def)
  then show ?thesis using assms(5) e by (simp add: replicated_storage update_conv)
qed

lemma update_404:
  assumes "handle_update E net t now k r h = (a, h')" and "hs_status a = 404" and "mh_consensus h = Some c"
  shows "\<exists>b i0 i c'. checked_body (ae_max_single E) r = Inr b \<and> md_of_json (ae_model E) b = Some i0 \<and>
    prepared (ae_model E) i0 = Inr i \<and> map_of (mh_storage h) k = None \<and> h' = h\<lparr>mh_consensus := Some c'\<rparr> \<and>
    propose_update (ae_lib E) (ae_crud E) net (ae_replicated E) now i k c = (Inr (), c')"
proof (cases "checked_body (ae_max_single E) r")
  case (Inl x)
  then show ?thesis using assms refusals(1) [OF Inl] by (auto simp: handle_update_def)
next
  case body: (Inr body)
  show ?thesis
  proof (cases "md_of_json (ae_model E) body")
    case None
    then show ?thesis using assms body by (auto simp: handle_update_def)
  next
    case item: (Some i0)
    show ?thesis
    proof (cases "authorize_write E h (extracted_perms h r) (extracted_role E t h r) ''Write'' i0")
      case (Some x)
      then show ?thesis using assms body item refusals(3) [OF Some] by (auto simp: handle_update_def)
    next
      case auth: None
      show ?thesis
      proof (cases "prepared (ae_model E) i0")
        case (Inl x)
        then show ?thesis using assms body item auth refusals(2) [OF Inl] by (auto simp: handle_update_def)
      next
        case prep: (Inr i)
        obtain y c' where q: "propose_update (ae_lib E) (ae_crud E) net (ae_replicated E) now i k c = (y, c')"
          by (cases "propose_update (ae_lib E) (ae_crud E) net (ae_replicated E) now i k c")
        show ?thesis
        proof (cases y)
          case (Inl e)
          then show ?thesis using assms body item auth prep q by (auto simp: handle_update_def)
        next
          case y: (Inr u)
          let ?g = "h\<lparr>mh_consensus := Some c'\<rparr>"
          have out: "(if map_of (mh_storage h) k = None then (not_found_response, ?g)
              else finish_write E now ''Updated'' ''update'' 200 i (store_item k i ?g)) = (a, h')"
            using assms(1,3) body item auth prep q y by (simp add: handle_update_def)
          have "map_of (mh_storage h) k = None"
          proof (rule ccontr)
            assume "map_of (mh_storage h) k \<noteq> None"
            then have f: "finish_write E now ''Updated'' ''update'' 200 i (store_item k i ?g) = (a, h')"
              using out by (auto split: if_splits)
            obtain x g where "persist_to_event_store E now ''Updated'' i (store_item k i ?g) = (x, g)"
              by (cases "persist_to_event_store E now ''Updated'' i (store_item k i ?g)")
            then have "hs_status a \<in> {200, 500}"
              using f by (cases x; cases "md_to_json (ae_model E) i") (auto simp: finish_write_def)
            then show False using assms(2) by simp
          qed
          then show ?thesis using body item prep q y out by auto
        qed
      qed
    qed
  qed
qed

text \<open>
  C9. An update of an item that does not exist is answered with 404 by the node that received it, after it
  was proposed: the message goes to every peer, or waits for it in the queue, and a peer that reads it
  stores the item, which the first node does not have.
\<close>

theorem refused_update_spreads:
  assumes "handle_update E net t now k r h = (a, h')" and "hs_status a = 404"
    and "mh_consensus h = Some c" and "cn_replicator c = Some rp"
    and "message_law J E" and "value_law (ae_model E)"
  shows "map_of (mh_storage h') k = None \<and> mh_storage h' = mh_storage h \<and>
    (\<exists>i msg c' rp'. mh_consensus h' = Some c' \<and> cn_replicator c' = Some rp' \<and>
      (\<forall>p \<in> set (rp_peers rp). send_with_retries net (peer_url p) 5 \<or> (peer_url p, msg, 0) \<in> set (rp_pending rp')) \<and>
      (\<forall>ms n now'. by_type (rm_consensus_group (ae_replicated E)) ms = Some n \<and> n < length ms \<and>
         rg_model (snd (ms ! n)) = ae_model E \<and> map_of (mh_storage (rg_handler (snd (ms ! n)))) k = None \<longrightarrow>
         (\<exists>ms'. handle_internal_replicate J now' (Some msg) ms = (status_ok [], ms') \<and>
           map_of (mh_storage (rg_handler (snd (ms' ! n)))) (actual_key (ae_model E) i) = Some i)))"
proof -
  obtain i c' where i: "map_of (mh_storage h) k = None" "h' = h\<lparr>mh_consensus := Some c'\<rparr>"
    "propose_update (ae_lib E) (ae_crud E) net (ae_replicated E) now i k c = (Inr (), c')"
    using update_404 [OF assms(1-3)] by blast
  define d where "d = \<lparr>ap_operation = UpdateOp i k, ap_model_type = rm_consensus_group (ae_replicated E),
    ap_timestamp = now, ap_node_id = cc_node_id (cn_config c)\<rparr>"
  obtain y rp' where q: "replicate_operation (ae_lib E) (ae_crud E) net d rp = (y, rp')"
    by (cases "replicate_operation (ae_lib E) (ae_crud E) net d rp")
  then have y: "y = Inr ()" and c': "c' = c\<lparr>cn_replicator := Some rp'\<rparr>"
    using i(3) assms(4) by (simp_all add: propose_update_def propose_def d_def)
  obtain msg where t: "cj_data (ae_crud E) d = Inr msg"
    "rp_pending rp' = rp_pending rp @
       map (\<lambda>p. (peer_url p, msg, 0)) (filter (\<lambda>p. \<not> send_with_retries net (peer_url p) 5) (rp_peers rp))"
    using replicate_result [of "ae_lib E" "ae_crud E" net d rp net] q y by auto
  have parse: "jl_parse J msg = Inr (message_value J (ae_model E) d)"
    using assms(5) t(1) unfolding message_law_def by blast
  have op: "ap_operation d = UpdateOp i k" and ty: "ap_model_type d = rm_consensus_group (ae_replicated E)"
    by (simp_all add: d_def)
  have sent: "\<forall>p \<in> set (rp_peers rp). send_with_retries net (peer_url p) 5 \<or> (peer_url p, msg, 0) \<in> set (rp_pending rp')"
    using t(2) by auto
  have peers: "\<exists>ms'. handle_internal_replicate J now' (Some msg) ms = (status_ok [], ms') \<and>
      map_of (mh_storage (rg_handler (snd (ms' ! n)))) (actual_key (ae_model E) i) = Some i"
    if "by_type (rm_consensus_group (ae_replicated E)) ms = Some n \<and> n < length ms \<and>
      rg_model (snd (ms ! n)) = ae_model E \<and> map_of (mh_storage (rg_handler (snd (ms ! n)))) k = None" for ms n now'
    using peer_stores_update [OF parse op assms(6), of ms n now'] that ty by simp
  have same: "map_of (mh_storage h') k = None" "mh_storage h' = mh_storage h"
    and cons: "mh_consensus h' = Some c'" "cn_replicator c' = Some rp'"
    using i c' by simp_all
  show ?thesis using same cons sent peers by blast
qed

section \<open>Concrete nodes\<close>

definition demo_registered :: "(nat, int, int, nat) registered" where
  "demo_registered =
     \<lparr>rg_name = ''Item'', rg_data_path = ''data'', rg_model_name = ''Item'', rg_base_path = ''items'',
      rg_env = demo_api, rg_handler = demo_written\<rparr>"

definition demo_node :: "(int jvalue, (nat, int, int, nat) registered) app_state" where
  "demo_node = \<lparr>app_models = [(''/m'', demo_registered)], app_manager = None\<rparr>"

text \<open>The same items behind a guard.\<close>

definition guarded_node :: "(int jvalue, (nat, int, int, nat) registered) app_state" where
  "guarded_node = \<lparr>app_models = [(''/m'', demo_registered\<lparr>rg_handler := admin_handler\<rparr>)], app_manager = None\<rparr>"

definition delete_entry :: "int jvalue log_entry" where
  "delete_entry = \<lparr>le_log_id = LogId 1 1, le_operation = Delete ''/m'' ''7'', le_timestamp_ms = 7\<rparr>"

lemma demo_nodes: "shared_view demo_node = shared_view guarded_node"
  by (simp add: shared_view_def demo_node_def guarded_node_def demo_registered_def rg_model_def admin_handler_def)

lemma delete_reached:
  assumes "apply (le_operation delete_entry) s = (Inr r, s')"
  shows "follower_reachable apply {delete_entry} s
    \<lparr>fo_log = mark_applied 1 (snd (append_entries [delete_entry] 1 consensus_log_new)), fo_state = s', fo_draining = Some []\<rparr>"
proof -
  let ?l = "snd (append_entries [delete_entry] 1 consensus_log_new)"
  have g: "get_unapplied_entries ?l = Some [delete_entry]" by code_simp
  have i: "le_index delete_entry = 1" by code_simp
  have "follower_reachable apply {delete_entry} s (follower_new s\<lparr>fo_log := ?l\<rparr>)"
    using follower_reachable.fr_step [OF follower_reachable.fr_init follower_step.fs_append, of "[delete_entry]" "{delete_entry}" "apply" s 1]
    by (simp add: follower_new_def)
  from follower_reachable.fr_step [OF this follower_step.fs_lock] g
  have "follower_reachable apply {delete_entry} s \<lparr>fo_log = ?l, fo_state = s, fo_draining = Some [delete_entry]\<rparr>"
    by (simp add: follower_new_def)
  from follower_reachable.fr_step [OF this follower_step.fs_apply] assms i show ?thesis by simp
qed

lemma node_delete:
  assumes "app_models s = [(''/m'', g)]"
  shows "\<exists>s'. node_apply clock dbg (le_operation delete_entry) s = (Inr (AppliedDelete ''7''), s')"
proof -
  have "le_operation delete_entry = Delete ''/m'' ''7''" by (simp add: delete_entry_def)
  moreover have "find_model ''/m'' [(''/m'', g)] = Some 0" by (simp add: find_model_def Replica.starts_with_def)
  ultimately show ?thesis
    using assms by (simp add: node_apply_def with_model_def model_operations_def delete_json_result)
qed


text \<open>A model that accepts no item.\<close>

definition strict_registered :: "(nat, int, int, nat) registered" where
  "strict_registered = demo_registered\<lparr>rg_env := demo_api\<lparr>ae_model := demo_model\<lparr>md_validate := \<lambda>i. Some ''no'',
     md_of_value := \<lambda>v. Inr 7\<rparr>\<rparr>\<rparr>"

definition demo_json :: "int json_lib" where
  "demo_json = \<lparr>jl_parse = \<lambda>s. if s = ''7'' then Inr (JObject []) else if s = ''[]'' then Inr (JArray []) else Inl ''no'',
     jl_number = int, jl_text = \<lambda>v. [], jl_pretty = \<lambda>v. [], jl_human = \<lambda>t. []\<rparr>"

definition strict_node :: "(int jvalue, (nat, int, int, nat) registered) app_state" where
  "strict_node = \<lparr>app_models = [(''/auth'', strict_registered)], app_manager = None\<rparr>"

definition demo_leader :: leadership where
  "demo_leader = \<lparr>rl_node_id = 1, rl_self_port = 8080, rl_current_state = 0, rl_is_leader = True, rl_leader_id = 1,
     rl_leader_port = 8080, rl_peers = [''b:8081''], rl_last_heartbeat = 0, rl_election_timeout = 0\<rparr>"

definition created_value :: "int jvalue" where
  "created_value = JObject [(''id'', JText ''u''), (''created_at'', JText ''t''), (''updated_at'', JText ''t'')]"

lemma demo_completed: "completed_item ''u'' ''t'' (body_or_null demo_json ''7'') = Some created_value"
  by (simp add: completed_item_def body_or_null_def demo_json_def value_get_def set_unless_def set_field_def
      created_value_def)

definition post_items :: api_request where
  "post_items =
     \<lparr>aq_request = (bearer_request ''s'')\<lparr>hr_path := ''/auth''\<rparr>, aq_content_type = Some ''application/json'',
      aq_query = None, aq_body = Some ''7''\<rparr>"

lemma post_items_simps:
  "hr_method (aq_request post_items) = ''POST''" "model_segments ''/auth'' (hr_path (aq_request post_items)) = []"
  "checked_body 100 post_items = Inr ''7''"
proof -
  show "hr_method (aq_request post_items) = ''POST''" by (simp add: post_items_def bearer_request_def)
  show "model_segments ''/auth'' (hr_path (aq_request post_items)) = []"
    by (simp add: post_items_def model_segments_def path_segments_def strip_prefix_def)
  have "has_json_content_type post_items" by (simp add: has_json_content_type_def post_items_def) code_simp
  then show "checked_body 100 post_items = Inr ''7''"
    by (simp add: checked_body_def post_items_def content_length_def bearer_request_def)
qed

lemma strict_simps:
  "rg_model strict_registered = demo_model\<lparr>md_validate := \<lambda>i. Some ''no'', md_of_value := \<lambda>v. Inr 7\<rparr>"
  "ae_max_single (rg_env strict_registered) = 100"
  "md_of_json (rg_model strict_registered) ''7'' = Some 7"
  using demo_item by (simp_all add: rg_model_def strict_registered_def demo_api_def demo_model_def)

lemma cluster_skips_checks_witness:
  "model_request demo_json True (Some demo_leader) ''u'' ''t'' all_up 1 7 post_items ''7'' (''/auth'', strict_registered) =
     Proposes (Create ''/auth'' created_value) True \<and>
   (\<exists>s'. node_apply (\<lambda>op s. 3) (\<lambda>x. []) (Create ''/auth'' created_value) strict_node = (Inr (AppliedData created_value), s')) \<and>
   (\<exists>a. model_request demo_json False None ''u'' ''t'' all_up 1 7 post_items ''7'' (''/auth'', strict_registered) =
      Served a (rg_handler strict_registered) \<and> hs_status a \<in> {400, 401, 403})"
proof -
  have l: "rl_is_leader demo_leader" by (simp add: demo_leader_def)
  have v: "md_of_value (rg_model strict_registered) created_value = Inr 7"
    "md_validate (rg_model strict_registered) 7 = Some ''no''" by (simp_all add: strict_simps)
  have f: "find_model ''/auth'' (app_models strict_node) = Some 0" "app_models strict_node ! 0 = (''/auth'', strict_registered)"
    by (simp_all add: find_model_def Replica.starts_with_def strict_node_def)
  have b: "checked_body (ae_max_single (rg_env strict_registered)) post_items = Inr ''7''"
    using post_items_simps(3) by (simp add: strict_simps)
  from cluster_skips_checks [OF post_items_simps(1,2) l demo_completed v(1) f b strict_simps(3) v(2),
      where net = all_up and t = 1 and now = 7 and clock = "\<lambda>op s. 3" and dbg = "\<lambda>x. []" and raft = None]
  show ?thesis by blast
qed

lemma bulk_create_panics_witness:
  "model_request demo_json True (Some demo_leader) ''u'' ''t'' all_up 1 7
     (post_items\<lparr>aq_request := (aq_request post_items)\<lparr>hr_path := ''/auth/_bulk''\<rparr>\<rparr>) ''[]'' (''/auth'', strict_registered) = ProposalPanics"
proof -
  let ?r = "post_items\<lparr>aq_request := (aq_request post_items)\<lparr>hr_path := ''/auth/_bulk''\<rparr>\<rparr>"
  have "hr_method (aq_request ?r) = ''POST''" using post_items_simps(1) by simp
  moreover have "model_segments (fst (''/auth'', strict_registered)) (hr_path (aq_request ?r)) = ''_bulk'' # []"
    by (simp add: model_segments_def path_segments_def strip_prefix_def)
  moreover have "case Some demo_leader of Some ld \<Rightarrow> rl_is_leader ld | None \<Rightarrow> True" by (simp add: demo_leader_def)
  moreover have "jl_parse demo_json ''[]'' = Inr (JArray [])" by (simp add: demo_json_def)
  ultimately show ?thesis by (rule bulk_create_panics)
qed

lemma prefix_shadows_model_witness:
  "app_models (snd (node_apply (\<lambda>op s. 3) (\<lambda>x. []) (Delete ''/users'' ''7'')
     (demo_node\<lparr>app_models := [(''/user'', demo_registered), (''/users'', demo_registered)]\<rparr>))) ! 1 = (''/users'', demo_registered)"
  using prefix_shadows_model [of 0 1 "demo_node\<lparr>app_models := [(''/user'', demo_registered), (''/users'', demo_registered)]\<rparr>"
      "''s''" "Delete ''/users'' ''7''" JNull "''7''" "\<lambda>op s. 3" "\<lambda>x. []"] by simp

text \<open>A model whose items are their own values, and a coordinator that sends one message.\<close>

definition sent_operation :: "nat app_data" where
  "sent_operation = \<lparr>ap_operation = UpdateOp 7 ''9'', ap_model_type = ''item'', ap_timestamp = 7, ap_node_id = 1\<rparr>"

definition sent_api :: "(nat, int, int, nat) api_env" where
  "sent_api = demo_api\<lparr>ae_model := demo_model\<lparr>md_to_value := \<lambda>i. Some (JNumber (int i)),
     md_of_value := \<lambda>v. case v of JNumber n \<Rightarrow> Inr (nat n) | _ \<Rightarrow> Inl ''no''\<rparr>,
     ae_crud := demo_crud\<lparr>cj_data := \<lambda>d. if d = sent_operation then Inr ''m'' else Inl ''no''\<rparr>\<rparr>"

definition sent_json :: "int json_lib" where
  "sent_json = demo_json\<lparr>jl_parse := \<lambda>s. Inr (message_value (demo_json) (ae_model sent_api) sent_operation)\<rparr>"

definition sent_handler :: "(nat, int, nat) handler" where
  "sent_handler = demo_handler\<lparr>mh_consensus := Some \<lparr>cn_config = \<lparr>cc_node_id = 1, cc_cluster_peers = [''b:8081''],
     cc_consensus_port = 1, cc_data_dir = ''d''\<rparr>, cn_replicator = Some demo_coordinator\<rparr>\<rparr>"

lemma sent_laws: "message_law sent_json sent_api" "value_law (ae_model sent_api)"
  by (auto simp: message_law_def value_law_def sent_json_def sent_api_def message_value_def demo_json_def)

lemma sent_update:
  "\<exists>h'. handle_update sent_api (\<lambda>u k. False) 1 7 ''9'' post_items sent_handler = (not_found_response, h')"
proof -
  let ?rp = demo_coordinator and ?net = "\<lambda>u k. False"
  have l: "ae_lib sent_api = demo_lib" "ae_max_single sent_api = 100" "md_of_json (ae_model sent_api) ''7'' = Some 7"
    "prepared (ae_model sent_api) 7 = Inr 7" "ae_replicated sent_api = \<lparr>rm_needs_replication = True, rm_consensus_group = ''item''\<rparr>"
    using demo_item by (simp_all add: sent_api_def demo_api_def demo_model_def prepared_def)
  have j: "cj_data (ae_crud sent_api) sent_operation = Inr ''m''" by (simp add: sent_api_def)
  have "\<not> es_binary_mode (rp_event_store ?rp)" by simp
  then have "fst (apply_locally demo_lib (ae_crud sent_api) sent_operation ?rp) = Inr ()"
    using apply_locally_text [OF j _ demo_lib_json, of ?rp] by blast
  then have "fst (replicate_operation demo_lib (ae_crud sent_api) ?net sent_operation ?rp) = Inr ()"
    using replicate_result [of demo_lib "ae_crud sent_api" ?net sent_operation ?rp ?net] by blast
  then obtain rp' where "replicate_operation demo_lib (ae_crud sent_api) ?net sent_operation ?rp = (Inr (), rp')"
    by (cases "replicate_operation demo_lib (ae_crud sent_api) ?net sent_operation ?rp") simp
  then show ?thesis
    by (simp add: handle_update_def l post_items_simps sent_handler_def extracted_perms_def authorize_write_def
        demo_handler_def handler_new_def propose_update_def propose_def sent_operation_def)
qed

lemma refused_update_spreads_witness:
  "\<exists>h' rp'. handle_update sent_api (\<lambda>u k. False) 1 7 ''9'' post_items sent_handler = (not_found_response, h') \<and>
     map_of (mh_storage h') ''9'' = None \<and>
     map_option cn_replicator (mh_consensus h') = Some (Some rp') \<and>
     (\<exists>msg. (peer_url ''b:8081'', msg, 0) \<in> set (rp_pending rp'))"
proof -
  obtain h' where u: "handle_update sent_api (\<lambda>u k. False) 1 7 ''9'' post_items sent_handler = (not_found_response, h')"
    using sent_update by blast
  obtain c where c: "mh_consensus sent_handler = Some c" "cn_replicator c = Some demo_coordinator"
    by (simp add: sent_handler_def)
  have s: "hs_status not_found_response = 404" by simp
  have down: "\<not> send_with_retries (\<lambda>u k. False) p 5" for p by (simp add: send_with_retries_def eval_nat_numeral)
  from refused_update_spreads [OF u s c sent_laws] obtain msg c' rp' where
    "map_of (mh_storage h') ''9'' = None" "mh_consensus h' = Some c'" "cn_replicator c' = Some rp'"
    "\<forall>p \<in> set (rp_peers demo_coordinator). send_with_retries (\<lambda>u k. False) (peer_url p) 5 \<or> (peer_url p, msg, 0) \<in> set (rp_pending rp')"
    by blast
  then show ?thesis using u down by auto
qed

end
