(* ===== verification/SecurityCore.thy ===== *)
theory SecurityCore
  imports Prelude "HOL-Library.Countable"
begin

text \<open>
  The security core, from \<^verbatim>\<open>lithair-core/src/security/core.rs\<close> and
  \<^verbatim>\<open>lithair-core/src/security/middleware.rs\<close>: users, roles and ownership as the state of an
  event log, permissions, signed tokens, authentication and authorisation. Base64, UTF-8 validity, the
  keyed hash and the password check are the record \<open>crypto\<close>; times are seconds of the clock.
\<close>

section \<open>Permission identifiers\<close>

definition identifier_char :: "(char \<Rightarrow> bool) \<Rightarrow> char \<Rightarrow> bool" where
  "identifier_char alphanumeric c \<longleftrightarrow> alphanumeric c \<or> c = CHR ''_''"

definition validate_identifier :: "(char \<Rightarrow> bool) \<Rightarrow> string \<Rightarrow> bool" where
  "validate_identifier alphanumeric i =
     (let parts = split_on (CHR '':'') i
      in 2 \<le> length parts \<and> length parts \<le> 3 \<and>
         list_all (\<lambda>p. p \<noteq> [] \<and> list_all (identifier_char alphanumeric) p) parts)"

definition nth_part :: "nat \<Rightarrow> string \<Rightarrow> string option" where
  "nth_part n i = (let parts = split_on (CHR '':'') i in if n < length parts then Some (parts ! n) else None)"

definition extract_resource :: "string \<Rightarrow> string option" where
  "extract_resource i = nth_part 0 i"

definition extract_action :: "string \<Rightarrow> string option" where
  "extract_action i = nth_part 1 i"

definition extract_scope :: "string \<Rightarrow> string option" where
  "extract_scope i = nth_part 2 i"

section \<open>The security state\<close>

type_synonym user_id = u32
type_synonym role_id = u32

record 'p role =
  ur_id :: role_id
  ur_name :: string
  ur_permissions :: "'p set"
  ur_created_at :: u64
  ur_created_by :: user_id

record user =
  us_id :: user_id
  us_email :: string
  us_name :: string
  us_password_hash :: string
  us_team_id :: "u32 option"
  us_organization_id :: "u32 option"
  us_created_at :: u64
  us_last_login :: "u64 option"
  us_is_active :: bool

record auth_session =
  as_id :: string
  as_user_id :: user_id
  as_created_at :: u64
  as_expires_at :: u64
  as_last_activity :: u64
  as_ip_address :: string
  as_user_agent :: string

record 'p auth_context =
  ac_user_id :: user_id
  ac_session_id :: string
  ac_permissions :: "'p set"
  ac_team_id :: "u32 option"
  ac_organization_id :: "u32 option"

text \<open>
  The events. The arguments are in the order of the fields in the code; who acted is part of the
  event and not of the state.
\<close>

datatype 'p security_event =
    UserCreated user_id string string user_id u64
  | UserUpdated user_id string string user_id u64
  | UserDeleted user_id user_id u64
  | RoleCreated role_id string "'p list" user_id u64
  | RoleUpdated role_id string "'p list" user_id u64
  | RoleDeleted role_id user_id u64
  | UserRoleAssigned user_id role_id user_id u64
  | UserRoleRevoked user_id role_id user_id u64
  | UserAuthenticated user_id string string string u64
  | UserLoggedOut user_id string u64
  | AuthenticationFailed string string string u64
  | AccessGranted user_id string string "u32 option" u64
  | AccessDenied user_id string string "u32 option" string u64
  | ObjectOwnershipAssigned string u32 user_id user_id u64
  | ObjectOwnershipTransferred string u32 user_id user_id user_id u64

record 'p security_state =
  sy_users :: "(user_id, user) dict"
  sy_roles :: "(role_id, 'p role) dict"
  sy_user_roles :: "(user_id, role_id set) dict"
  sy_active_sessions :: "(string, auth_session) dict"
  sy_object_ownership :: "(string, (u32, user_id) dict) dict"
  sy_team_memberships :: "(u32, user_id set) dict"
  sy_organization_memberships :: "(u32, user_id set) dict"

definition security_state_new :: "'p security_state" where
  "security_state_new =
     \<lparr>sy_users = [], sy_roles = [], sy_user_roles = [], sy_active_sessions = [],
      sy_object_ownership = [], sy_team_memberships = [], sy_organization_memberships = []\<rparr>"

text \<open>\<open>entry(k).or_default()\<close>: the value under a key, or the default.\<close>

definition or_default :: "'v \<Rightarrow> 'k \<Rightarrow> ('k, 'v) dict \<Rightarrow> 'v" where
  "or_default d k m = (case map_of m k of Some v \<Rightarrow> v | None \<Rightarrow> d)"

definition set_owner :: "string \<Rightarrow> u32 \<Rightarrow> user_id \<Rightarrow> 'p security_state \<Rightarrow> 'p security_state" where
  "set_owner ty obj owner s =
     s\<lparr>sy_object_ownership :=
        AList.update ty (AList.update obj owner (or_default [] ty (sy_object_ownership s)))
          (sy_object_ownership s)\<rparr>"

fun apply_security_event :: "'p security_event \<Rightarrow> 'p security_state \<Rightarrow> 'p security_state" where
  "apply_security_event (UserCreated u email name by_user t) s =
     s\<lparr>sy_users := AList.update u
        \<lparr>us_id = u, us_email = email, us_name = name, us_password_hash = [], us_team_id = None,
         us_organization_id = None, us_created_at = t, us_last_login = None, us_is_active = True\<rparr>
        (sy_users s)\<rparr>"
| "apply_security_event (RoleCreated r name ps by_user t) s =
     s\<lparr>sy_roles := AList.update r
        \<lparr>ur_id = r, ur_name = name, ur_permissions = set ps, ur_created_at = t, ur_created_by = by_user\<rparr>
        (sy_roles s)\<rparr>"
| "apply_security_event (UserRoleAssigned u r by_user t) s =
     s\<lparr>sy_user_roles := AList.update u (insert r (or_default {} u (sy_user_roles s))) (sy_user_roles s)\<rparr>"
| "apply_security_event (UserRoleRevoked u r by_user t) s =
     s\<lparr>sy_user_roles := AList.map_entry u (\<lambda>rs. rs - {r}) (sy_user_roles s)\<rparr>"
| "apply_security_event (ObjectOwnershipAssigned ty obj owner by_user t) s = set_owner ty obj owner s"
| "apply_security_event (ObjectOwnershipTransferred ty obj from_owner to_owner by_user t) s =
     set_owner ty obj to_owner s"
| "apply_security_event (UserUpdated u email name by_user t) s =
     s\<lparr>sy_users := AList.map_entry u (\<lambda>x. x\<lparr>us_email := email, us_name := name\<rparr>) (sy_users s)\<rparr>"
| "apply_security_event (UserDeleted u by_user t) s =
     s\<lparr>sy_users := AList.map_entry u (\<lambda>x. x\<lparr>us_is_active := False\<rparr>) (sy_users s)\<rparr>"
| "apply_security_event (RoleUpdated r name ps by_user t) s =
     s\<lparr>sy_roles := AList.map_entry r (\<lambda>x. x\<lparr>ur_name := name, ur_permissions := set ps\<rparr>) (sy_roles s)\<rparr>"
| "apply_security_event (RoleDeleted r by_user t) s =
     s\<lparr>sy_roles := AList.delete r (sy_roles s),
       sy_user_roles := map (\<lambda>(u, rs). (u, rs - {r})) (sy_user_roles s)\<rparr>"
| "apply_security_event (UserAuthenticated u sid ip agent t) s =
     s\<lparr>sy_users := AList.map_entry u (\<lambda>x. x\<lparr>us_last_login := Some t\<rparr>) (sy_users s)\<rparr>"
| "apply_security_event (UserLoggedOut u sid t) s =
     s\<lparr>sy_active_sessions := AList.delete sid (sy_active_sessions s)\<rparr>"
| "apply_security_event (AuthenticationFailed email ip reason t) s = s"
| "apply_security_event (AccessGranted u resource act obj t) s = s"
| "apply_security_event (AccessDenied u resource act obj reason t) s = s"

definition get_user_permissions :: "user_id \<Rightarrow> 'p security_state \<Rightarrow> 'p set" where
  "get_user_permissions u s =
     (case map_of (sy_user_roles s) u of
        None \<Rightarrow> {}
      | Some rs \<Rightarrow> (\<Union>r \<in> rs. case map_of (sy_roles s) r of Some x \<Rightarrow> ur_permissions x | None \<Rightarrow> {}))"

definition user_owns_object :: "user_id \<Rightarrow> string \<Rightarrow> u32 \<Rightarrow> 'p security_state \<Rightarrow> bool" where
  "user_owns_object u ty obj s =
     (case Option.bind (map_of (sy_object_ownership s) ty) (\<lambda>m. map_of m obj) of
        Some owner \<Rightarrow> owner = u
      | None \<Rightarrow> False)"

definition users_same_team :: "user_id \<Rightarrow> user_id \<Rightarrow> 'p security_state \<Rightarrow> bool" where
  "users_same_team u v s =
     (case (Option.bind (map_of (sy_users s) u) us_team_id, Option.bind (map_of (sy_users s) v) us_team_id) of
        (Some x, Some y) \<Rightarrow> x = y
      | _ \<Rightarrow> False)"

section \<open>Tokens\<close>

datatype security_error =
    AuthFailed | AccessRefused | InvalidToken | SessionExpired | UserNotFound | RoleNotFound
  | PermissionNotFound | InvalidCredentials

record crypto =
  cy_encode :: "string \<Rightarrow> string"
  cy_decode :: "string \<Rightarrow> string option"
  cy_utf8 :: "string \<Rightarrow> bool"
  cy_mac :: "string \<Rightarrow> string \<Rightarrow> string"
  cy_verify :: "string \<Rightarrow> string \<Rightarrow> bool"

record rbac_middleware =
  mw_jwt_secret :: string
  mw_session_timeout :: u64

record jwt_claims =
  jc_user_id :: u32
  jc_session_id :: string
  jc_exp :: u64
  jc_iat :: u64

definition quote_text :: "string \<Rightarrow> string" where
  "quote_text s = CHR 34 # s @ [CHR 34]"

fun find_text :: "string \<Rightarrow> string \<Rightarrow> nat option" where
  "find_text p [] = (if p = [] then Some 0 else None)"
| "find_text p (c # s) = (if take (length p) (c # s) = p then Some 0 else map_option Suc (find_text p s))"

definition extract_json_number :: "string \<Rightarrow> string \<Rightarrow> u64 option" where
  "extract_json_number json key =
     (let pat = quote_text key @ '':'' in
      case find_text pat json of
        None \<Rightarrow> None
      | Some start \<Rightarrow>
          (let rest = drop (start + length pat) json;
               stop = (case find_text '','' rest of
                         Some i \<Rightarrow> i
                       | None \<Rightarrow> (case find_text ''}'' rest of Some i \<Rightarrow> i | None \<Rightarrow> length rest))
           in map_option of_nat (parse_unsigned (2 ^ 64 - 1) (trim (take stop rest)))))"

definition extract_json_string :: "string \<Rightarrow> string \<Rightarrow> string option" where
  "extract_json_string json key =
     (let pat = quote_text key @ '':'' @ [CHR 34] in
      case find_text pat json of
        None \<Rightarrow> None
      | Some start \<Rightarrow>
          (let rest = drop (start + length pat) json;
               stop = (case find_text [CHR 34] rest of Some i \<Rightarrow> i | None \<Rightarrow> 0)
           in Some (take stop rest)))"

definition parse_jwt_claims :: "string \<Rightarrow> security_error + jwt_claims" where
  "parse_jwt_claims payload =
     (case (extract_json_number payload ''user_id'', extract_json_string payload ''session_id'',
            extract_json_number payload ''exp'', extract_json_number payload ''iat'') of
        (Some u, Some sid, Some e, Some i) \<Rightarrow>
          Inr \<lparr>jc_user_id = ucast u, jc_session_id = sid, jc_exp = e, jc_iat = i\<rparr>
      | _ \<Rightarrow> Inl InvalidToken)"

definition show_u64 :: "u64 \<Rightarrow> string" where
  "show_u64 w = show_nat (unat w)"

definition jwt_payload :: "jwt_claims \<Rightarrow> string" where
  "jwt_payload c =
     ''{'' @ quote_text ''user_id'' @ '':'' @ show_nat (unat (jc_user_id c)) @
     '','' @ quote_text ''session_id'' @ '':'' @ quote_text (jc_session_id c) @
     '','' @ quote_text ''exp'' @ '':'' @ show_u64 (jc_exp c) @
     '','' @ quote_text ''iat'' @ '':'' @ show_u64 (jc_iat c) @ ''}''"

definition jwt_header :: string where
  "jwt_header = ''{'' @ quote_text ''alg'' @ '':'' @ quote_text ''HS256'' @ '','' @
     quote_text ''typ'' @ '':'' @ quote_text ''JWT'' @ ''}''"

definition create_jwt_signature :: "crypto \<Rightarrow> rbac_middleware \<Rightarrow> string \<Rightarrow> string \<Rightarrow> string" where
  "create_jwt_signature Y w header payload =
     cy_encode Y (cy_mac Y (mw_jwt_secret w) (header @ ''.'' @ payload))"

definition create_jwt_token :: "crypto \<Rightarrow> rbac_middleware \<Rightarrow> u64 \<Rightarrow> user_id \<Rightarrow> string \<Rightarrow> string" where
  "create_jwt_token Y w now u sid =
     (let c = \<lparr>jc_user_id = u, jc_session_id = sid, jc_exp = now + mw_session_timeout w, jc_iat = now\<rparr>;
          h = cy_encode Y jwt_header; p = cy_encode Y (jwt_payload c)
      in h @ ''.'' @ p @ ''.'' @ create_jwt_signature Y w h p)"

definition verify_jwt_signature ::
  "crypto \<Rightarrow> rbac_middleware \<Rightarrow> string \<Rightarrow> string \<Rightarrow> string \<Rightarrow> security_error + unit"
where
  "verify_jwt_signature Y w header payload signature =
     (case cy_decode Y signature of
        None \<Rightarrow> Inl InvalidToken
      | Some b \<Rightarrow>
          (if b = cy_mac Y (mw_jwt_secret w) (header @ ''.'' @ payload) then Inr () else Inl InvalidToken))"

definition validate_jwt :: "crypto \<Rightarrow> rbac_middleware \<Rightarrow> u64 \<Rightarrow> string \<Rightarrow> security_error + jwt_claims" where
  "validate_jwt Y w now token =
     (case split_on (CHR ''.'') token of
        [h, p, sig] \<Rightarrow>
          (case verify_jwt_signature Y w h p sig of
             Inl e \<Rightarrow> Inl e
           | Inr _ \<Rightarrow>
               (case cy_decode Y p of
                  None \<Rightarrow> Inl InvalidToken
                | Some payload \<Rightarrow>
                    (if \<not> cy_utf8 Y payload then Inl InvalidToken
                     else case parse_jwt_claims payload of
                            Inl e \<Rightarrow> Inl e
                          | Inr c \<Rightarrow> (if jc_exp c < now then Inl SessionExpired else Inr c))))
      | _ \<Rightarrow> Inl InvalidToken)"

section \<open>Authentication and authorisation\<close>

definition validate_session :: "u64 \<Rightarrow> string \<Rightarrow> 'p security_state \<Rightarrow> security_error + auth_session" where
  "validate_session now sid s =
     (case map_of (sy_active_sessions s) sid of
        None \<Rightarrow> Inl SessionExpired
      | Some x \<Rightarrow> (if as_expires_at x < now then Inl SessionExpired else Inr x))"

definition get_user_context :: "user_id \<Rightarrow> 'p security_state \<Rightarrow> security_error + (u32 option \<times> u32 option)" where
  "get_user_context u s =
     (case map_of (sy_users s) u of
        None \<Rightarrow> Inl UserNotFound
      | Some x \<Rightarrow> Inr (us_team_id x, us_organization_id x))"

text \<open>The clock is read for the token and again for the session.\<close>

definition authenticate_token ::
  "crypto \<Rightarrow> rbac_middleware \<Rightarrow> u64 \<Rightarrow> u64 \<Rightarrow> string \<Rightarrow> 'p security_state \<Rightarrow> security_error + 'p auth_context"
where
  "authenticate_token Y w now1 now2 token s =
     (case validate_jwt Y w now1 token of
        Inl e \<Rightarrow> Inl e
      | Inr c \<Rightarrow>
          (case validate_session now2 (jc_session_id c) s of
             Inl e \<Rightarrow> Inl e
           | Inr _ \<Rightarrow>
               (case get_user_context (jc_user_id c) s of
                  Inl e \<Rightarrow> Inl e
                | Inr (team, org) \<Rightarrow>
                    Inr \<lparr>ac_user_id = jc_user_id c, ac_session_id = jc_session_id c,
                         ac_permissions = get_user_permissions (jc_user_id c) s,
                         ac_team_id = team, ac_organization_id = org\<rparr>)))"

definition extract_jwt_token :: "string option \<Rightarrow> security_error + string" where
  "extract_jwt_token header =
     (case header of
        None \<Rightarrow> Inl AuthFailed
      | Some h \<Rightarrow> (if take 7 h = ''Bearer '' then Inr (drop 7 h) else Inl InvalidToken))"

definition authenticate_request ::
  "crypto \<Rightarrow> rbac_middleware \<Rightarrow> u64 \<Rightarrow> u64 \<Rightarrow> string option \<Rightarrow> 'p security_state \<Rightarrow>
   security_error + 'p auth_context"
where
  "authenticate_request Y w now1 now2 header s =
     (case extract_jwt_token header of Inl e \<Rightarrow> Inl e | Inr t \<Rightarrow> authenticate_token Y w now1 now2 t s)"

definition authorize_action ::
  "'p auth_context \<Rightarrow> 'p \<Rightarrow> u32 option \<Rightarrow> user_id option \<Rightarrow> 'p security_state \<Rightarrow> security_error + unit"
where
  "authorize_action auth act obj owner s =
     (if act \<in> ac_permissions auth then Inr ()
      else case (obj, owner) of
             (Some _, Some o') \<Rightarrow>
               (if ac_user_id auth = o' then Inr ()
                else if users_same_team (ac_user_id auth) o' s then Inr ()
                else Inl AccessRefused)
           | _ \<Rightarrow> Inl AccessRefused)"

text \<open>A login: \<open>sid\<close> is the generated session identifier, \<open>now\<close> and \<open>now'\<close> are read for the session and the token.\<close>

definition authenticate_user ::
  "crypto \<Rightarrow> rbac_middleware \<Rightarrow> string \<Rightarrow> u64 \<Rightarrow> u64 \<Rightarrow> string \<Rightarrow> string \<Rightarrow> string \<Rightarrow> string \<Rightarrow>
   'p security_state \<Rightarrow> (security_error + string \<times> 'p auth_context) \<times> 'p security_state"
where
  "authenticate_user Y w sid now now' email password ip agent s =
     (case find (\<lambda>u. us_email u = email \<and> us_is_active u) (map snd (sy_users s)) of
        None \<Rightarrow> (Inl InvalidCredentials, s)
      | Some u \<Rightarrow>
          (if \<not> cy_verify Y password (us_password_hash u) then (Inl InvalidCredentials, s)
           else
             (let x = \<lparr>as_id = sid, as_user_id = us_id u, as_created_at = now,
                       as_expires_at = now + mw_session_timeout w, as_last_activity = now,
                       as_ip_address = ip, as_user_agent = agent\<rparr>;
                  s1 = s\<lparr>sy_active_sessions := AList.update sid x (sy_active_sessions s)\<rparr>
              in (Inr (create_jwt_token Y w now' (us_id u) sid,
                       \<lparr>ac_user_id = us_id u, ac_session_id = sid,
                        ac_permissions = get_user_permissions (us_id u) s,
                        ac_team_id = us_team_id u, ac_organization_id = us_organization_id u\<rparr>), s1))))"

definition logout_user :: "string \<Rightarrow> 'p security_state \<Rightarrow> (security_error + unit) \<times> 'p security_state" where
  "logout_user sid s =
     (case map_of (sy_active_sessions s) sid of
        Some _ \<Rightarrow> (Inr (), s\<lparr>sy_active_sessions := AList.delete sid (sy_active_sessions s)\<rparr>)
      | None \<Rightarrow> (Inl SessionExpired, s))"

section \<open>Permissions and the history of events\<close>

text \<open>
  A reference: the roles of a user and the permissions of a role, read off the history, most recent
  event first.
\<close>

fun assigned :: "'p security_event list \<Rightarrow> user_id \<Rightarrow> role_id \<Rightarrow> bool" where
  "assigned [] u r = False"
| "assigned (UserRoleAssigned v q b t # es) u r = (v = u \<and> q = r \<or> assigned es u r)"
| "assigned (UserRoleRevoked v q b t # es) u r = (\<not> (v = u \<and> q = r) \<and> assigned es u r)"
| "assigned (RoleDeleted q b t # es) u r = (q \<noteq> r \<and> assigned es u r)"
| "assigned (e # es) u r = assigned es u r"

fun grants :: "'p security_event list \<Rightarrow> role_id \<Rightarrow> 'p set option" where
  "grants [] r = None"
| "grants (RoleCreated q name ps b t # es) r = (if q = r then Some (set ps) else grants es r)"
| "grants (RoleUpdated q name ps b t # es) r =
     (if q = r \<and> grants es r \<noteq> None then Some (set ps) else grants es r)"
| "grants (RoleDeleted q b t # es) r = (if q = r then None else grants es r)"
| "grants (e # es) r = grants es r"

definition replay_security :: "'p security_event list \<Rightarrow> 'p security_state" where
  "replay_security es = fold apply_security_event es security_state_new"

lemma replay_snoc: "replay_security (es @ [e]) = apply_security_event e (replay_security es)"
  by (simp add: replay_security_def)

definition roles_of :: "user_id \<Rightarrow> 'p security_state \<Rightarrow> role_id set" where
  "roles_of u s = or_default {} u (sy_user_roles s)"

lemma roles_step:
  "roles_of u (apply_security_event e s) =
    (case e of
       UserRoleAssigned v q b t \<Rightarrow> (if v = u then insert q (roles_of u s) else roles_of u s)
     | UserRoleRevoked v q b t \<Rightarrow> (if v = u then roles_of u s - {q} else roles_of u s)
     | RoleDeleted q b t \<Rightarrow> roles_of u s - {q}
     | _ \<Rightarrow> roles_of u s)"
  by (cases e) (auto simp: roles_of_def or_default_def set_owner_def dict_simps split: option.split)

lemma roles_history: "r \<in> roles_of u (replay_security es) \<longleftrightarrow> assigned (rev es) u r"
proof (induction es rule: rev_induct)
  case Nil
  show ?case by (simp add: replay_security_def security_state_new_def roles_of_def or_default_def)
next
  case (snoc e es)
  then show ?case unfolding replay_snoc roles_step by (cases e) auto
qed

lemma grants_step:
  "map_option ur_permissions (map_of (sy_roles (apply_security_event e s)) r) =
    (case e of
       RoleCreated q name ps b t \<Rightarrow>
         (if q = r then Some (set ps) else map_option ur_permissions (map_of (sy_roles s) r))
     | RoleUpdated q name ps b t \<Rightarrow>
         (if q = r \<and> map_option ur_permissions (map_of (sy_roles s) r) \<noteq> None then Some (set ps)
          else map_option ur_permissions (map_of (sy_roles s) r))
     | RoleDeleted q b t \<Rightarrow>
         (if q = r then None else map_option ur_permissions (map_of (sy_roles s) r))
     | _ \<Rightarrow> map_option ur_permissions (map_of (sy_roles s) r))"
  by (cases e) (auto simp: set_owner_def dict_simps)

lemma grants_history:
  "map_option ur_permissions (map_of (sy_roles (replay_security es)) r) = grants (rev es) r"
proof (induction es rule: rev_induct)
  case Nil
  show ?case by (simp add: replay_security_def security_state_new_def)
next
  case (snoc e es)
  then show ?case unfolding replay_snoc grants_step by (cases e) simp_all
qed

text \<open>
  The permissions of a user in the state that any history of events leads to are those that the
  roles it holds by this history grant by it. Creating, updating and deleting users has no
  part in this: a deleted user keeps its permissions, and an identifier that never named a user can
  have some.
\<close>

theorem permissions_follow_history:
  "get_user_permissions u (replay_security es) =
    {p. \<exists>r ps. assigned (rev es) u r \<and> grants (rev es) r = Some ps \<and> p \<in> ps}"
proof -
  have "get_user_permissions u (replay_security es) =
      (\<Union>r \<in> roles_of u (replay_security es).
        case map_of (sy_roles (replay_security es)) r of Some x \<Rightarrow> ur_permissions x | None \<Rightarrow> {})"
    by (simp add: get_user_permissions_def roles_of_def or_default_def split: option.split)
  also have "\<dots> = {p. \<exists>r ps. assigned (rev es) u r \<and>
      map_option ur_permissions (map_of (sy_roles (replay_security es)) r) = Some ps \<and> p \<in> ps}"
    by (auto simp: roles_history split: option.splits)
  finally show ?thesis by (simp add: grants_history)
qed

text \<open>
  What the events cannot express: no event sets a team or a password, so in a state rebuilt from
  events nobody shares a team and nobody can log in, as long as an empty hash verifies nothing.
\<close>

definition bare_user :: "user \<Rightarrow> bool" where
  "bare_user x \<longleftrightarrow> us_team_id x = None \<and> us_password_hash x = []"

lemma bare_user_simps [simp]:
  "bare_user (x\<lparr>us_email := email, us_name := name\<rparr>) = bare_user x"
  "bare_user (x\<lparr>us_is_active := b\<rparr>) = bare_user x"
  "bare_user (x\<lparr>us_last_login := t\<rparr>) = bare_user x"
  "bare_user \<lparr>us_id = u, us_email = email, us_name = name, us_password_hash = [], us_team_id = None,
     us_organization_id = org, us_created_at = c, us_last_login = t, us_is_active = b\<rparr>"
  by (simp_all add: bare_user_def)

lemma map_entry_values:
  "list_all (\<lambda>(k, x). P x) m \<Longrightarrow> (\<And>x. P x \<Longrightarrow> P (f x)) \<Longrightarrow> list_all (\<lambda>(k, x). P x) (AList.map_entry k f m)"
  by (induction m) auto

lemma update_values:
  "list_all (\<lambda>(k, x). P x) m \<Longrightarrow> P v \<Longrightarrow> list_all (\<lambda>(k, x). P x) (AList.update k v m)"
  by (induction m) auto

lemma users_step:
  "sy_users (apply_security_event e s) =
    (case e of
       UserCreated u email name b t \<Rightarrow> AList.update u
        \<lparr>us_id = u, us_email = email, us_name = name, us_password_hash = [], us_team_id = None,
         us_organization_id = None, us_created_at = t, us_last_login = None, us_is_active = True\<rparr> (sy_users s)
     | UserUpdated u email name b t \<Rightarrow> AList.map_entry u (\<lambda>x. x\<lparr>us_email := email, us_name := name\<rparr>) (sy_users s)
     | UserDeleted u b t \<Rightarrow> AList.map_entry u (\<lambda>x. x\<lparr>us_is_active := False\<rparr>) (sy_users s)
     | UserAuthenticated u sid ip agent t \<Rightarrow> AList.map_entry u (\<lambda>x. x\<lparr>us_last_login := Some t\<rparr>) (sy_users s)
     | _ \<Rightarrow> sy_users s)"
  by (cases e) (simp_all add: set_owner_def)

lemma replayed_users_bare: "list_all (\<lambda>(k, x). bare_user x) (sy_users (replay_security es))"
proof (induction es rule: rev_induct)
  case Nil
  show ?case by (simp add: replay_security_def security_state_new_def)
next
  case (snoc e es)
  note keep = map_entry_values [OF snoc.IH] update_values [OF snoc.IH]
  show ?case
    unfolding replay_snoc users_step
    by (cases e) (use snoc.IH in \<open>simp_all add: keep\<close>)
qed

lemma replayed_user: "(k, x) \<in> set (sy_users (replay_security es)) \<Longrightarrow> bare_user x"
  using replayed_users_bare [of es] by (auto simp: list_all_iff)

theorem replayed_users_are_bare:
  assumes "\<And>password. \<not> cy_verify Y password []"
  shows "authenticate_user Y w sid now now' email password ip agent (replay_security es) =
      (Inl InvalidCredentials, replay_security es) \<and>
    \<not> users_same_team u v (replay_security es)"
proof -
  have "us_password_hash x = []"
    if f: "find (\<lambda>u. us_email u = email \<and> us_is_active u) (map snd (sy_users (replay_security es))) = Some x" for x
  proof -
    obtain k where "(k, x) \<in> set (sy_users (replay_security es))" using find_Some_in [OF f] by auto
    from replayed_user [OF this] show ?thesis by (simp add: bare_user_def)
  qed
  then have "authenticate_user Y w sid now now' email password ip agent (replay_security es) =
      (Inl InvalidCredentials, replay_security es)"
    using assms by (auto simp: authenticate_user_def split: option.split)
  moreover have "Option.bind (map_of (sy_users (replay_security es)) i) us_team_id = None" for i
  proof (cases "map_of (sy_users (replay_security es)) i")
    case (Some x)
    from replayed_user [OF map_of_SomeD [OF this]] Some show ?thesis by (simp add: bare_user_def)
  qed simp
  ultimately show ?thesis by (simp add: users_same_team_def)
qed

section \<open>Tokens and the life of a session\<close>

definition crypto_law :: "crypto \<Rightarrow> bool" where
  "crypto_law Y \<longleftrightarrow>
     (\<forall>s. cy_decode Y (cy_encode Y s) = Some s) \<and> (\<forall>s. CHR ''.'' \<notin> set (cy_encode Y s)) \<and>
     (\<forall>s. list_all (\<lambda>c. (of_char c :: nat) < 128) s \<longrightarrow> cy_utf8 Y s)"

text \<open>An identifier that a token can carry: plain text without a quote, such as a generated one.\<close>

definition plain_id :: "string \<Rightarrow> bool" where
  "plain_id s \<longleftrightarrow> list_all (\<lambda>c. (of_char c :: nat) < 128 \<and> c \<noteq> CHR 34) s"

lemma find_text_skip:
  "c \<notin> set a \<Longrightarrow> find_text (c # p) (a @ s) = map_option ((+) (length a)) (find_text (c # p) s)"
proof (induction a)
  case Nil
  show ?case by (cases "find_text (c # p) s") simp_all
next
  case (Cons x a)
  then show ?case by (cases "find_text (c # p) s") auto
qed

lemma digits_plain: "c \<in> set (show_nat n) \<Longrightarrow> is_digit c"
  using show_nat_digits [of n] by (simp add: list_all_iff)

lemma quote_not_digit: "CHR 34 \<notin> set (show_nat n)" and comma_not_digit: "CHR '','' \<notin> set (show_nat n)"
  and brace_not_digit: "CHR ''}'' \<notin> set (show_nat n)"
  using digits_plain by (force simp: is_digit_def)+

lemma trim_digits: "trim (show_nat n) = show_nat n"
proof -
  have d: "\<not> is_space c" if "c \<in> set (show_nat n)" for c
    using digits_plain [OF that] by (auto simp: is_digit_def is_space_def)
  have w: "dropWhile is_space l = l" if "\<forall>c \<in> set l. \<not> is_space c" for l
    using that by (cases l) auto
  have "dropWhile is_space (show_nat n) = show_nat n" by (rule w) (simp add: d)
  moreover have "dropWhile is_space (rev (show_nat n)) = rev (show_nat n)" by (rule w) (simp add: d)
  ultimately show ?thesis by (simp add: trim_def)
qed

lemma extract_number_comma:
  assumes "find_text (quote_text key @ '':'') json = Some (length pre)"
    and "json = pre @ quote_text key @ '':'' @ show_nat (unat w) @ CHR '','' # rest"
  shows "extract_json_number json key = Some (w :: u64)"
proof -
  have "drop (length pre + length (quote_text key @ '':'')) json = show_nat (unat w) @ CHR '','' # rest"
    using assms(2) by simp
  moreover have "find_text '','' (show_nat (unat w) @ CHR '','' # rest) = Some (length (show_nat (unat w)))"
    using find_text_skip [OF comma_not_digit, of "[]" "unat w" "CHR '','' # rest"] by simp
  ultimately show ?thesis
    using assms(1) u64_unat_bound [of w]
    by (simp add: extract_json_number_def Let_def trim_digits parse_show_nat)
qed

lemma extract_number_brace:
  assumes "find_text (quote_text key @ '':'') json = Some (length pre)"
    and "json = pre @ quote_text key @ '':'' @ show_nat (unat w) @ ''}''"
  shows "extract_json_number json key = Some (w :: u64)"
proof -
  have "drop (length pre + length (quote_text key @ '':'')) json = show_nat (unat w) @ ''}''"
    using assms(2) by simp
  moreover have "find_text '','' (show_nat (unat w) @ ''}'') = None"
    using find_text_skip [OF comma_not_digit, of "[]" "unat w" "''}''"] by simp
  moreover have "find_text ''}'' (show_nat (unat w) @ ''}'') = Some (length (show_nat (unat w)))"
    using find_text_skip [OF brace_not_digit, of "[]" "unat w" "''}''"] by simp
  ultimately show ?thesis
    using assms(1) u64_unat_bound [of w]
    by (simp add: extract_json_number_def Let_def trim_digits parse_show_nat)
qed

lemma unat_u32_up: "unat (ucast (w :: u32) :: u64) = unat w"
  by transfer (simp add: take_bit_eq_mod)

lemma u32_up_down: "ucast (ucast (w :: u32) :: u64) = w"
  by transfer (simp add: take_bit_eq_mod)

text \<open>A value without a quote is not mistaken for a key of three letters.\<close>

lemma value_no_key:
  assumes "CHR 34 \<notin> set s" and "CHR 34 \<notin> {x, y, z}"
  shows "take (Suc (Suc (Suc (Suc (Suc 0))))) s @
      take (Suc (Suc (Suc (Suc (Suc 0)))) - length s) (CHR 34 # CHR '','' # r) \<noteq>
    [x, y, z, CHR 34, CHR '':'']"
proof -
  consider "s = []" | a where "s = [a]" | a b where "s = [a, b]" | a b c where "s = [a, b, c]"
    | a b c d t where "s = a # b # c # d # t"
    by (metis neq_Nil_conv)
  then show ?thesis using assms by cases auto
qed

lemma drop_front: "drop (length a + length b) ((a @ b) @ c) = c"
  by simp

lemma claims_roundtrip:
  assumes "plain_id (jc_session_id c)"
  shows "parse_jwt_claims (jwt_payload c) = Inr c"
proof -
  let ?u = "unat (jc_user_id c)" and ?s = "jc_session_id c"
  let ?e = "unat (jc_exp c)" and ?i = "unat (jc_iat c)"
  have q: "CHR 34 \<notin> set ?s" using assms by (auto simp: plain_id_def list_all_iff)
  let ?p1 = "''{'' @ quote_text ''user_id'' @ '':'' @ show_nat ?u @ '',''"
  let ?p2 = "?p1 @ quote_text ''session_id'' @ '':'' @ quote_text ?s @ '',''"
  let ?p3 = "?p2 @ quote_text ''exp'' @ '':'' @ show_nat ?e @ '',''"
  note skips = find_text_skip [OF quote_not_digit] find_text_skip [OF q] value_no_key [OF q]
  have "extract_json_number (jwt_payload c) ''user_id'' = Some (ucast (jc_user_id c))"
  proof (rule extract_number_comma)
    show "find_text (quote_text ''user_id'' @ '':'') (jwt_payload c) = Some (length ''{'')"
      by (simp add: jwt_payload_def quote_text_def)
    show "jwt_payload c = ''{'' @ quote_text ''user_id'' @ '':'' @ show_nat (unat (ucast (jc_user_id c) :: u64)) @
        CHR '','' # drop (length ?p1) (jwt_payload c)"
      by (simp add: jwt_payload_def quote_text_def unat_u32_up)
  qed
  moreover have "extract_json_string (jwt_payload c) ''session_id'' = Some ?s"
  proof -
    let ?pat = "quote_text ''session_id'' @ '':'' @ [CHR 34]"
    let ?r = "'','' @ quote_text ''exp'' @ '':'' @ show_u64 (jc_exp c) @
      '','' @ quote_text ''iat'' @ '':'' @ show_u64 (jc_iat c) @ ''}''"
    have f: "find_text ?pat (jwt_payload c) = Some (length ?p1)"
      by (simp add: jwt_payload_def quote_text_def skips)
    have e: "jwt_payload c = (?p1 @ ?pat) @ ?s @ CHR 34 # ?r"
      by (simp add: jwt_payload_def quote_text_def)
    have d: "drop (length ?p1 + length ?pat) (jwt_payload c) = ?s @ CHR 34 # ?r"
      unfolding e by (rule drop_front)
    show ?thesis
      unfolding extract_json_string_def Let_def f option.case d
      using find_text_skip [OF q, of "[]"] by simp
  qed
  moreover have "extract_json_number (jwt_payload c) ''exp'' = Some (jc_exp c)"
  proof (rule extract_number_comma)
    show "find_text (quote_text ''exp'' @ '':'') (jwt_payload c) = Some (length ?p2)"
      by (simp add: jwt_payload_def quote_text_def skips)
    show "jwt_payload c = ?p2 @ quote_text ''exp'' @ '':'' @ show_nat ?e @ CHR '','' #
        (quote_text ''iat'' @ '':'' @ show_nat ?i @ ''}'')"
      by (simp add: jwt_payload_def quote_text_def show_u64_def)
  qed
  moreover have "extract_json_number (jwt_payload c) ''iat'' = Some (jc_iat c)"
  proof (rule extract_number_brace)
    show "find_text (quote_text ''iat'' @ '':'') (jwt_payload c) = Some (length ?p3)"
      by (simp add: jwt_payload_def quote_text_def show_u64_def skips)
    show "jwt_payload c = ?p3 @ quote_text ''iat'' @ '':'' @ show_nat ?i @ ''}''"
      by (simp add: jwt_payload_def quote_text_def show_u64_def)
  qed
  ultimately show ?thesis by (simp add: parse_jwt_claims_def u32_up_down)
qed

lemma payload_plain:
  assumes "plain_id (jc_session_id c)"
  shows "list_all (\<lambda>x. (of_char x :: nat) < 128) (jwt_payload c)"
proof -
  have d: "list_all (\<lambda>x. (of_char x :: nat) < 128) (show_nat n)" for n
    using digits_plain [of _ n] by (force simp: list_all_iff is_digit_def)
  moreover have "list_all (\<lambda>x. (of_char x :: nat) < 128) (jc_session_id c)"
    using assms by (simp add: plain_id_def list_all_iff)
  ultimately show ?thesis
    by (simp add: jwt_payload_def quote_text_def show_u64_def)
qed

lemma token_valid:
  assumes "crypto_law Y" and "plain_id sid"
  shows "validate_jwt Y w t (create_jwt_token Y w now u sid) =
    (if now + mw_session_timeout w < t then Inl SessionExpired
     else Inr \<lparr>jc_user_id = u, jc_session_id = sid, jc_exp = now + mw_session_timeout w, jc_iat = now\<rparr>)"
proof -
  let ?c = "\<lparr>jc_user_id = u, jc_session_id = sid, jc_exp = now + mw_session_timeout w, jc_iat = now\<rparr>"
  let ?h = "cy_encode Y jwt_header" and ?p = "cy_encode Y (jwt_payload ?c)"
  let ?s = "create_jwt_signature Y w ?h ?p"
  have law: "cy_decode Y (cy_encode Y x) = Some x" "CHR ''.'' \<notin> set (cy_encode Y x)" for x
    using assms(1) by (simp_all add: crypto_law_def)
  have "split_on (CHR ''.'') (?h @ ''.'' @ ?p @ ''.'' @ ?s) = [?h, ?p, ?s]"
    using law(2) by (simp add: split_on_frame split_on_no create_jwt_signature_def)
  moreover have "verify_jwt_signature Y w ?h ?p ?s = Inr ()"
    by (simp add: verify_jwt_signature_def create_jwt_signature_def law(1))
  moreover have "cy_utf8 Y (jwt_payload ?c)"
    using assms payload_plain [of ?c] by (simp add: crypto_law_def)
  moreover have "parse_jwt_claims (jwt_payload ?c) = Inr ?c"
    by (rule claims_roundtrip) (simp add: assms(2))
  ultimately show ?thesis
    by (simp add: validate_jwt_def create_jwt_token_def Let_def law(1))
qed

text \<open>
  A token that the middleware issued is read back as its claims until it expires, and no other
  token is accepted under the same header and payload: whatever is accepted carries the keyed hash of
  what it claims.
\<close>

theorem token_roundtrip:
  assumes "crypto_law Y" and "plain_id sid"
  shows "validate_jwt Y w t (create_jwt_token Y w now u sid) =
      (if now + mw_session_timeout w < t then Inl SessionExpired
       else Inr \<lparr>jc_user_id = u, jc_session_id = sid, jc_exp = now + mw_session_timeout w, jc_iat = now\<rparr>) \<and>
    (\<forall>token c. validate_jwt Y w t token = Inr c \<longrightarrow> t \<le> jc_exp c \<and>
      (\<exists>h p sig payload. split_on (CHR ''.'') token = [h, p, sig] \<and> cy_decode Y p = Some payload \<and>
        parse_jwt_claims payload = Inr c \<and>
        cy_decode Y sig = Some (cy_mac Y (mw_jwt_secret w) (h @ ''.'' @ p))))"
proof -
  have "t \<le> jc_exp c \<and> (\<exists>h p sig payload. split_on (CHR ''.'') token = [h, p, sig] \<and>
      cy_decode Y p = Some payload \<and> parse_jwt_claims payload = Inr c \<and>
      cy_decode Y sig = Some (cy_mac Y (mw_jwt_secret w) (h @ ''.'' @ p)))"
    if "validate_jwt Y w t token = Inr c" for token c
    using that
    by (auto simp: validate_jwt_def verify_jwt_signature_def not_less split: list.splits sum.splits
        option.splits if_splits)
  with token_valid [OF assms, of w t now u] show ?thesis by blast
qed

text \<open>
  C35. The life of a session: the token of a login is accepted with the context of the login until the
  token or the session expires, also when the user has been deleted in between; after a logout it is
  rejected.
\<close>

theorem login_session_lifecycle:
  assumes "crypto_law Y" and "plain_id sid"
    and "authenticate_user Y w sid now now' email password ip agent s = (Inr (token, ctx), s1)"
    and "dict_ok (sy_users s)" and "\<forall>(k, x) \<in> set (sy_users s). us_id x = k"
    and "n1 \<le> now' + mw_session_timeout w" and "n2 \<le> now + mw_session_timeout w"
  shows "authenticate_token Y w n1 n2 token s1 = Inr ctx \<and>
    authenticate_token Y w n1 n2 token (apply_security_event (UserDeleted v admin t) s1) = Inr ctx \<and>
    (\<exists>s2. logout_user sid s1 = (Inr (), s2) \<and> authenticate_token Y w n1 n2 token s2 = Inl SessionExpired)"
proof -
  obtain u where u: "find (\<lambda>u. us_email u = email \<and> us_is_active u) (map snd (sy_users s)) = Some u"
    "token = create_jwt_token Y w now' (us_id u) sid"
    "ctx = \<lparr>ac_user_id = us_id u, ac_session_id = sid, ac_permissions = get_user_permissions (us_id u) s,
       ac_team_id = us_team_id u, ac_organization_id = us_organization_id u\<rparr>"
    "s1 = s\<lparr>sy_active_sessions := AList.update sid \<lparr>as_id = sid, as_user_id = us_id u, as_created_at = now,
       as_expires_at = now + mw_session_timeout w, as_last_activity = now, as_ip_address = ip,
       as_user_agent = agent\<rparr> (sy_active_sessions s)\<rparr>"
    using assms(3) by (auto simp: authenticate_user_def Let_def split: option.splits if_splits)
  obtain k where "(k, u) \<in> set (sy_users s)" using find_Some_in [OF u(1)] by auto
  then have k: "map_of (sy_users s) (us_id u) = Some u"
    using assms(4,5) by (auto simp: dict_ok_def)
  note valid = token_valid [OF assms(1,2), of w n1 now' "us_id u"]
  have perms: "get_user_permissions x (s\<lparr>sy_active_sessions := a\<rparr>) = get_user_permissions x s"
    "get_user_permissions x (s\<lparr>sy_active_sessions := a, sy_users := b\<rparr>) = get_user_permissions x s" for x a b
    by (cases "map_of (sy_user_roles s) x"; simp add: get_user_permissions_def)+
  show ?thesis
    using valid assms(6,7) k
    by (cases "v = us_id u") (simp_all add: u(2-4) authenticate_token_def validate_session_def get_user_context_def dict_simps perms
        logout_user_def not_less [symmetric])
qed

section \<open>A concrete middleware\<close>

definition demo_crypto :: crypto where
  "demo_crypto =
     \<lparr>cy_encode = \<lambda>s. show_nat (to_nat s), cy_decode = \<lambda>t. Some (from_nat (digits_value t)),
      cy_utf8 = \<lambda>s. True, cy_mac = \<lambda>k m. k @ m, cy_verify = \<lambda>pw h. h = CHR ''h'' # pw\<rparr>"

lemma demo_crypto_law: "crypto_law demo_crypto"
  using digits_plain by (force simp: crypto_law_def demo_crypto_def is_digit_def)

definition demo_middleware :: rbac_middleware where
  "demo_middleware = \<lparr>mw_jwt_secret = ''key'', mw_session_timeout = 100\<rparr>"

definition demo_user :: user where
  "demo_user = \<lparr>us_id = 7, us_email = ''a@b'', us_name = ''a'', us_password_hash = ''hpw'', us_team_id = None,
     us_organization_id = None, us_created_at = 0, us_last_login = None, us_is_active = True\<rparr>"

definition demo_state :: "nat security_state" where
  "demo_state = (replay_security [RoleCreated 1 ''editor'' [3, 4] 0 0, UserRoleAssigned 7 1 0 0])
     \<lparr>sy_users := [(7, demo_user)]\<rparr>"

lemma token_roundtrip_witness:
  "validate_jwt demo_crypto demo_middleware 110 (create_jwt_token demo_crypto demo_middleware 10 7 ''s1'') =
     Inr \<lparr>jc_user_id = 7, jc_session_id = ''s1'', jc_exp = 110, jc_iat = 10\<rparr> \<and>
   validate_jwt demo_crypto demo_middleware 111 (create_jwt_token demo_crypto demo_middleware 10 7 ''s1'') =
     Inl SessionExpired"
proof -
  have "plain_id ''s1''" by (simp add: plain_id_def)
  note w = token_roundtrip [OF demo_crypto_law this, of demo_middleware _ 10 7, THEN conjunct1]
  show ?thesis using w [of 110] w [of 111] by (simp add: demo_middleware_def)
qed

lemma replayed_users_are_bare_witness:
  "fst (authenticate_user demo_crypto demo_middleware ''s1'' 10 10 ''a@b'' ''pw'' ''ip'' ''ua''
     (replay_security [UserCreated 7 ''a@b'' ''a'' 0 0 :: nat security_event])) = Inl InvalidCredentials"
proof -
  have "\<not> cy_verify demo_crypto password []" for password by (simp add: demo_crypto_def)
  from replayed_users_are_bare [OF this, THEN conjunct1] show ?thesis by (rule ssubst) simp
qed

lemma login_session_lifecycle_witness:
  "\<exists>token s1. authenticate_user demo_crypto demo_middleware ''s1'' 10 10 ''a@b'' ''pw'' ''ip'' ''ua'' demo_state =
      (Inr (token, \<lparr>ac_user_id = 7, ac_session_id = ''s1'', ac_permissions = {3, 4}, ac_team_id = None,
         ac_organization_id = None\<rparr>), s1) \<and>
    authenticate_token demo_crypto demo_middleware 50 50 token (apply_security_event (UserDeleted 7 0 40) s1) =
      Inr \<lparr>ac_user_id = 7, ac_session_id = ''s1'', ac_permissions = {3, 4}, ac_team_id = None,
         ac_organization_id = None\<rparr>"
proof -
  let ?ctx = "\<lparr>ac_user_id = 7, ac_session_id = ''s1'', ac_permissions = {3 :: nat, 4}, ac_team_id = None,
         ac_organization_id = None\<rparr>"
  have p: "plain_id ''s1''" by (simp add: plain_id_def)
  have "get_user_permissions 7 demo_state = {3, 4}"
    by (auto simp: demo_state_def replay_security_def get_user_permissions_def security_state_new_def or_default_def)
  then obtain token s1 where l: "authenticate_user demo_crypto demo_middleware ''s1'' 10 10 ''a@b'' ''pw'' ''ip'' ''ua''
      demo_state = (Inr (token, ?ctx), s1)"
    by (auto simp: authenticate_user_def demo_state_def demo_user_def demo_crypto_def Let_def
        get_user_permissions_def)
  have "dict_ok (sy_users demo_state)" "\<forall>(k, x) \<in> set (sy_users demo_state). us_id x = k"
    by (simp_all add: demo_state_def demo_user_def dict_ok_def)
  from login_session_lifecycle [OF demo_crypto_law p l this, of 50 50 7 0 40]
  show ?thesis using l by (auto simp: demo_middleware_def)
qed

end
