(* ===== verification/HttpMessage.thy ===== *)
theory HttpMessage
  imports Prelude
begin

text \<open>
  The HTTP server on the standard library, from \<^verbatim>\<open>lithair-core/src/http\<close>: requests and their parser
  (\<^verbatim>\<open>request.rs\<close>), responses and their text (\<^verbatim>\<open>response.rs\<close>), routes and routers (\<^verbatim>\<open>router.rs\<close>) and the
  connections of the blocking server (\<^verbatim>\<open>server.rs\<close>). Bytes are characters and letters are those of
  ASCII; whether bytes are UTF-8 is the argument \<open>utf8\<close>. A connection is the list of what is there for each
  read of the socket, and how it ends. Writes to the socket succeed.
\<close>

section \<open>Requests\<close>

datatype http_method = GET | POST | PUT | DELETE | PATCH | HEAD | OPTIONS

fun method_text :: "http_method \<Rightarrow> string" where
  "method_text GET = ''GET''"
| "method_text POST = ''POST''"
| "method_text PUT = ''PUT''"
| "method_text DELETE = ''DELETE''"
| "method_text PATCH = ''PATCH''"
| "method_text HEAD = ''HEAD''"
| "method_text OPTIONS = ''OPTIONS''"

definition upper_char :: "char \<Rightarrow> char" where
  "upper_char c = (let n = of_char c :: nat in if 97 \<le> n \<and> n \<le> 122 then char_of (n - 32) else c)"

definition lower_char :: "char \<Rightarrow> char" where
  "lower_char c = (let n = of_char c :: nat in if 65 \<le> n \<and> n \<le> 90 then char_of (n + 32) else c)"

datatype http_error =
    InvalidRequest string
  | UnsupportedMethod string
  | InvalidUrl string
  | InvalidHeaders string
  | BodyTooLarge nat
  | ConnectionError string
  | ServerError string
  | IoError string

definition parse_method :: "string \<Rightarrow> http_error + http_method" where
  "parse_method s =
     (let u = map upper_char s in
      if u = ''GET'' then Inr GET else if u = ''POST'' then Inr POST
      else if u = ''PUT'' then Inr PUT else if u = ''DELETE'' then Inr DELETE
      else if u = ''PATCH'' then Inr PATCH else if u = ''HEAD'' then Inr HEAD
      else if u = ''OPTIONS'' then Inr OPTIONS else Inl (UnsupportedMethod s))"

datatype http_version = Http1_0 | Http1_1

fun version_text :: "http_version \<Rightarrow> string" where
  "version_text Http1_0 = ''HTTP/1.0''"
| "version_text Http1_1 = ''HTTP/1.1''"

definition parse_version :: "string \<Rightarrow> http_error + http_version" where
  "parse_version s =
     (if s = ''HTTP/1.0'' then Inr Http1_0 else if s = ''HTTP/1.1'' then Inr Http1_1
      else Inl (InvalidRequest (''Unsupported HTTP version: '' @ s)))"

record http_request =
  rq_method :: http_method
  rq_path :: string
  rq_query :: "(string, string) dict"
  rq_version :: http_version
  rq_headers :: "(string, string) dict"
  rq_body :: string
  rq_remote_addr :: "string option"

text \<open>\<open>splitn(2, p)\<close>: the text in front of the first \<open>p\<close> and the text behind it.\<close>

fun split_first :: "string \<Rightarrow> string \<Rightarrow> (string \<times> string) option" where
  "split_first p [] = (if p = [] then Some ([], []) else None)"
| "split_first p (c # cs) =
     (if take (length p) (c # cs) = p then Some ([], drop (length p) (c # cs))
      else map_option (\<lambda>(a, b). (c # a, b)) (split_first p cs))"

definition crlf :: string where "crlf = [CHR 13, CHR 10]"

fun split_crlf :: "string \<Rightarrow> string list" where
  "split_crlf [] = [[]]"
| "split_crlf [c] = [[c]]"
| "split_crlf (c # d # r) =
     (if c = CHR 13 \<and> d = CHR 10 then [] # split_crlf r
      else case split_crlf (d # r) of [] \<Rightarrow> [[c]] | y # ys \<Rightarrow> (c # y) # ys)"

text \<open>\<open>split_whitespace\<close>: the longest pieces without white space.\<close>

fun split_words :: "string \<Rightarrow> string list" where
  "split_words [] = []"
| "split_words (c # cs) =
     (if is_space c then split_words cs
      else case cs of
          [] \<Rightarrow> [[c]]
        | d # _ \<Rightarrow> if is_space d then [c] # split_words cs
            else (case split_words cs of [] \<Rightarrow> [[c]] | w # ws \<Rightarrow> (c # w) # ws))"

definition hex_digit :: "char \<Rightarrow> nat option" where
  "hex_digit b =
     (let n = of_char b :: nat in
      if 48 \<le> n \<and> n \<le> 57 then Some (n - 48)
      else if 97 \<le> n \<and> n \<le> 102 then Some (n - 97 + 10)
      else if 65 \<le> n \<and> n \<le> 70 then Some (n - 65 + 10)
      else None)"

function url_bytes :: "string \<Rightarrow> string" where
  "url_bytes [] = []"
| "url_bytes (b # r) =
     (if b = CHR ''+'' then CHR 32 # url_bytes r
      else if b = CHR ''%'' \<and> 2 \<le> length r then
        (case (hex_digit (r ! 0), hex_digit (r ! 1)) of
           (Some hi, Some lo) \<Rightarrow> char_of (16 * hi + lo) # url_bytes (drop 2 r)
         | _ \<Rightarrow> CHR ''%'' # url_bytes r)
      else b # url_bytes r)"
  by pat_completeness auto
termination by (relation "measure length") auto

definition urlcode_decode :: "(string \<Rightarrow> bool) \<Rightarrow> string \<Rightarrow> string" where
  "urlcode_decode utf8 s = (if utf8 (url_bytes s) then url_bytes s else s)"

definition query_pair :: "(string \<Rightarrow> bool) \<Rightarrow> string \<Rightarrow> (string, string) dict \<Rightarrow> (string, string) dict" where
  "query_pair utf8 pair ps =
     (case split_first ''='' pair of
        Some (k, v) \<Rightarrow> AList.update (urlcode_decode utf8 k) (urlcode_decode utf8 v) ps
      | None \<Rightarrow> if pair \<noteq> [] then AList.update (urlcode_decode utf8 pair) [] ps else ps)"

definition parse_path_and_query :: "(string \<Rightarrow> bool) \<Rightarrow> string \<Rightarrow> string \<times> (string, string) dict" where
  "parse_path_and_query utf8 full =
     (case split_first ''?'' full of
        None \<Rightarrow> (full, [])
      | Some (path, qs) \<Rightarrow> (path, fold (query_pair utf8) (split_on (CHR ''&'') qs) []))"

definition request_new ::
  "(string \<Rightarrow> bool) \<Rightarrow> http_method \<Rightarrow> string \<Rightarrow> http_version \<Rightarrow> (string, string) dict \<Rightarrow> string \<Rightarrow> http_request" where
  "request_new utf8 m full v hs body =
     (let (path, ps) = parse_path_and_query utf8 full in
      \<lparr>rq_method = m, rq_path = path, rq_query = ps, rq_version = v, rq_headers = hs, rq_body = body,
       rq_remote_addr = None\<rparr>)"

definition parse_request_line :: "string \<Rightarrow> http_error + http_method \<times> string \<times> http_version" where
  "parse_request_line line =
     (case split_words line of
        [m, p, v] \<Rightarrow>
          (case parse_method m of
             Inl e \<Rightarrow> Inl e
           | Inr me \<Rightarrow>
               (case parse_version v of Inl e \<Rightarrow> Inl e | Inr ve \<Rightarrow> Inr (me, p, ve)))
      | _ \<Rightarrow> Inl (InvalidRequest (''Invalid request line: '' @ line)))"

fun parse_headers :: "string list \<Rightarrow> (string, string) dict \<Rightarrow> http_error + (string, string) dict" where
  "parse_headers [] hs = Inr hs"
| "parse_headers (line # lines) hs =
     (if line = [] then parse_headers lines hs
      else case split_first '':'' line of
          None \<Rightarrow> Inl (InvalidHeaders (''Invalid header line: '' @ line))
        | Some (n, v) \<Rightarrow> parse_headers lines (AList.update (map lower_char (trim n)) (trim v) hs))"

definition request_parse :: "(string \<Rightarrow> bool) \<Rightarrow> string \<Rightarrow> http_error + http_request" where
  "request_parse utf8 raw =
     (if \<not> utf8 raw then Inl (InvalidRequest ''Invalid UTF-8: '')
      else
        let (hd_part, body) =
              (case split_first (crlf @ crlf) raw of None \<Rightarrow> (raw, []) | Some p \<Rightarrow> p);
            ls = split_crlf hd_part
        in case parse_request_line (hd ls) of
             Inl e \<Rightarrow> Inl e
           | Inr (m, p, v) \<Rightarrow>
               (case parse_headers (tl ls) [] of
                  Inl e \<Rightarrow> Inl e
                | Inr hs \<Rightarrow> Inr (request_new utf8 m p v hs body)))"

definition rq_query_param :: "http_request \<Rightarrow> string \<Rightarrow> string option" where
  "rq_query_param r k = map_of (rq_query r) k"

definition rq_header :: "http_request \<Rightarrow> string \<Rightarrow> string option" where
  "rq_header r n = map_of (rq_headers r) (map lower_char n)"

definition rq_is_json :: "http_request \<Rightarrow> bool" where
  "rq_is_json r =
     (case rq_header r ''content-type'' of
        Some ct \<Rightarrow> take (length ''application/json'') ct = ''application/json''
      | None \<Rightarrow> False)"

definition set_remote_addr :: "string \<Rightarrow> http_request \<Rightarrow> http_request" where
  "set_remote_addr a r = r\<lparr>rq_remote_addr := Some a\<rparr>"

section \<open>Responses\<close>

datatype status_code =
    StatusOk | Created | Accepted | NoContent
  | MovedPermanently | Found | NotModified
  | BadRequest | Unauthorized | Forbidden | NotFoundStatus | MethodNotAllowed | Conflict
  | UnprocessableEntity
  | InternalServerError | NotImplemented | BadGateway | ServiceUnavailable

fun as_u16 :: "status_code \<Rightarrow> nat" where
  "as_u16 StatusOk = 200"
| "as_u16 Created = 201"
| "as_u16 Accepted = 202"
| "as_u16 NoContent = 204"
| "as_u16 MovedPermanently = 301"
| "as_u16 Found = 302"
| "as_u16 NotModified = 304"
| "as_u16 BadRequest = 400"
| "as_u16 Unauthorized = 401"
| "as_u16 Forbidden = 403"
| "as_u16 NotFoundStatus = 404"
| "as_u16 MethodNotAllowed = 405"
| "as_u16 Conflict = 409"
| "as_u16 UnprocessableEntity = 422"
| "as_u16 InternalServerError = 500"
| "as_u16 NotImplemented = 501"
| "as_u16 BadGateway = 502"
| "as_u16 ServiceUnavailable = 503"

fun reason_phrase :: "status_code \<Rightarrow> string" where
  "reason_phrase StatusOk = ''OK''"
| "reason_phrase Created = ''Created''"
| "reason_phrase Accepted = ''Accepted''"
| "reason_phrase NoContent = ''No Content''"
| "reason_phrase MovedPermanently = ''Moved Permanently''"
| "reason_phrase Found = ''Found''"
| "reason_phrase NotModified = ''Not Modified''"
| "reason_phrase BadRequest = ''Bad Request''"
| "reason_phrase Unauthorized = ''Unauthorized''"
| "reason_phrase Forbidden = ''Forbidden''"
| "reason_phrase NotFoundStatus = ''Not Found''"
| "reason_phrase MethodNotAllowed = ''Method Not Allowed''"
| "reason_phrase Conflict = ''Conflict''"
| "reason_phrase UnprocessableEntity = ''Unprocessable Entity''"
| "reason_phrase InternalServerError = ''Internal Server Error''"
| "reason_phrase NotImplemented = ''Not Implemented''"
| "reason_phrase BadGateway = ''Bad Gateway''"
| "reason_phrase ServiceUnavailable = ''Service Unavailable''"

definition status_text :: "status_code \<Rightarrow> string" where
  "status_text s = show_nat (as_u16 s) @ '' '' @ reason_phrase s"

record http_response =
  rs_status :: status_code
  rs_headers :: "(string, string) dict"
  rs_body :: string

definition response_new :: "status_code \<Rightarrow> http_response" where
  "response_new s =
     \<lparr>rs_status = s,
      rs_headers = AList.update ''Server'' ''Lithair/0.1.0'' (AList.update ''Connection'' ''close'' []),
      rs_body = []\<rparr>"

definition rs_header :: "string \<Rightarrow> string \<Rightarrow> http_response \<Rightarrow> http_response" where
  "rs_header n v r = r\<lparr>rs_headers := AList.update n v (rs_headers r)\<rparr>"

definition rs_add_headers :: "(string \<times> string) list \<Rightarrow> http_response \<Rightarrow> http_response" where
  "rs_add_headers hs r = fold (\<lambda>(n, v). rs_header n v) hs r"

definition rs_content_type :: "string \<Rightarrow> http_response \<Rightarrow> http_response" where
  "rs_content_type ct = rs_header ''Content-Type'' ct"

definition set_content_length :: "http_response \<Rightarrow> http_response" where
  "set_content_length r = rs_header ''Content-Length'' (show_nat (length (rs_body r))) r"

definition rs_with_body :: "string \<Rightarrow> http_response \<Rightarrow> http_response" where
  "rs_with_body b r = set_content_length (r\<lparr>rs_body := b\<rparr>)"

definition rs_text :: "string \<Rightarrow> http_response \<Rightarrow> http_response" where
  "rs_text t r = rs_with_body t (rs_content_type ''text/plain; charset=utf-8'' r)"

definition rs_html :: "string \<Rightarrow> http_response \<Rightarrow> http_response" where
  "rs_html t r = rs_with_body t (rs_content_type ''text/html; charset=utf-8'' r)"

definition rs_json :: "string \<Rightarrow> http_response \<Rightarrow> http_response" where
  "rs_json t r = rs_with_body t (rs_content_type ''application/json'' r)"

definition rs_binary :: "string \<Rightarrow> http_response \<Rightarrow> http_response" where
  "rs_binary t r = rs_with_body t (rs_content_type ''application/octet-stream'' r)"

definition rs_cookie :: "string \<Rightarrow> string \<Rightarrow> http_response \<Rightarrow> http_response" where
  "rs_cookie n v = rs_header ''Set-Cookie'' (n @ ''='' @ v)"

definition rs_cookie_with_options ::
  "(int \<Rightarrow> string) \<Rightarrow> string \<Rightarrow> string \<Rightarrow> int option \<Rightarrow> string option \<Rightarrow> string option \<Rightarrow> bool \<Rightarrow> bool
   \<Rightarrow> http_response \<Rightarrow> http_response" where
  "rs_cookie_with_options show_i64 n v max_age path domain secure http_only =
     rs_header ''Set-Cookie''
       (n @ ''='' @ v
        @ (case max_age of Some a \<Rightarrow> ''; Max-Age='' @ show_i64 a | None \<Rightarrow> [])
        @ (case path of Some p \<Rightarrow> ''; Path='' @ p | None \<Rightarrow> [])
        @ (case domain of Some d \<Rightarrow> ''; Domain='' @ d | None \<Rightarrow> [])
        @ (if secure then ''; Secure'' else [])
        @ (if http_only then ''; HttpOnly'' else []))"

definition rs_cors_origin :: "string \<Rightarrow> http_response \<Rightarrow> http_response" where
  "rs_cors_origin origin r =
     rs_header ''Access-Control-Allow-Headers'' ''Content-Type, Authorization''
       (rs_header ''Access-Control-Allow-Methods'' ''GET, POST, PUT, DELETE, OPTIONS''
          (rs_header ''Access-Control-Allow-Origin'' origin r))"

definition rs_cors_all :: "http_response \<Rightarrow> http_response" where
  "rs_cors_all = rs_cors_origin ''*''"

definition rs_redirect :: "string \<Rightarrow> http_response" where
  "rs_redirect location = rs_header ''Location'' location (response_new Found)"

definition rs_redirect_permanent :: "string \<Rightarrow> http_response" where
  "rs_redirect_permanent location = rs_header ''Location'' location (response_new MovedPermanently)"

definition header_line :: "string \<times> string \<Rightarrow> string" where
  "header_line h = fst h @ '': '' @ snd h @ crlf"

text \<open>The headers are written in the order in which the hash map gives them.\<close>

definition to_bytes :: "http_response \<Rightarrow> string" where
  "to_bytes r =
     ''HTTP/1.1 '' @ status_text (rs_status r) @ crlf @ concat (map header_line (rs_headers r)) @ crlf
     @ rs_body r"

section \<open>Routes and routers\<close>

text \<open>
  A route runs its middlewares and then its handler over what it is given: the state of the
  application, or for command routes the channel of the engine, which the handler returns changed.
\<close>

type_synonym middleware = "http_request \<Rightarrow> http_response option"

record ('s, 'r) route =
  rt_method :: http_method
  rt_pattern :: string
  rt_handler :: "http_request \<Rightarrow> (string, string) dict \<Rightarrow> 's \<Rightarrow> 'r"
  rt_middleware :: "middleware list"

definition route_new ::
  "http_method \<Rightarrow> string \<Rightarrow> (http_request \<Rightarrow> (string, string) dict \<Rightarrow> 's \<Rightarrow> 'r) \<Rightarrow> ('s, 'r) route" where
  "route_new m p h = \<lparr>rt_method = m, rt_pattern = p, rt_handler = h, rt_middleware = []\<rparr>"

definition with_middleware :: "middleware \<Rightarrow> ('s, 'r) route \<Rightarrow> ('s, 'r) route" where
  "with_middleware mw r = r\<lparr>rt_middleware := rt_middleware r @ [mw]\<rparr>"

fun bind_parts :: "string list \<Rightarrow> string list \<Rightarrow> (string, string) dict \<Rightarrow> (string, string) dict option" where
  "bind_parts (p # ps) (x # xs) d =
     (if p \<noteq> [] \<and> hd p = CHR '':'' then bind_parts ps xs (AList.update (tl p) x d)
      else if p \<noteq> x then None
      else bind_parts ps xs d)"
| "bind_parts _ _ d = Some d"

definition extract_params :: "string \<Rightarrow> string \<Rightarrow> (string, string) dict option" where
  "extract_params pattern path =
     (let ps = split_on (CHR ''/'') pattern; xs = split_on (CHR ''/'') path
      in if length ps \<noteq> length xs then None else bind_parts ps xs [])"

definition route_matches :: "('s, 'r) route \<Rightarrow> http_request \<Rightarrow> (string, string) dict option" where
  "route_matches r q =
     (if rt_method r \<noteq> rq_method q then None else extract_params (rt_pattern r) (rq_path q))"

fun run_middleware :: "middleware list \<Rightarrow> http_request \<Rightarrow> http_response option" where
  "run_middleware [] q = None"
| "run_middleware (m # ms) q = (case m q of Some r \<Rightarrow> Some r | None \<Rightarrow> run_middleware ms q)"

definition route_execute ::
  "('s, http_response) route \<Rightarrow> http_request \<Rightarrow> (string, string) dict \<Rightarrow> 's \<Rightarrow> http_response" where
  "route_execute r q ps s =
     (case run_middleware (rt_middleware r) q of Some a \<Rightarrow> a | None \<Rightarrow> rt_handler r q ps s)"

definition command_execute ::
  "('c, http_response \<times> 'c) route \<Rightarrow> http_request \<Rightarrow> (string, string) dict \<Rightarrow> 'c \<Rightarrow> http_response \<times> 'c" where
  "command_execute r q ps c =
     (case run_middleware (rt_middleware r) q of Some a \<Rightarrow> (a, c) | None \<Rightarrow> rt_handler r q ps c)"

fun first_match :: "('s, 'r) route list \<Rightarrow> http_request \<Rightarrow> (('s, 'r) route \<times> (string, string) dict) option" where
  "first_match [] q = None"
| "first_match (r # rs) q = (case route_matches r q of Some ps \<Rightarrow> Some (r, ps) | None \<Rightarrow> first_match rs q)"

record 's router =
  ro_routes :: "('s, http_response) route list"
  ro_async_routes :: "('s, http_response) route list"
  ro_not_found :: "(http_request \<Rightarrow> (string, string) dict \<Rightarrow> 's \<Rightarrow> http_response) option"

definition router_new :: "'s router" where
  "router_new = \<lparr>ro_routes = [], ro_async_routes = [], ro_not_found = None\<rparr>"

definition add_route :: "('s, http_response) route \<Rightarrow> 's router \<Rightarrow> 's router" where
  "add_route r ro = ro\<lparr>ro_routes := ro_routes ro @ [r]\<rparr>"

definition add_async_route :: "('s, http_response) route \<Rightarrow> 's router \<Rightarrow> 's router" where
  "add_async_route r ro = ro\<lparr>ro_async_routes := ro_async_routes ro @ [r]\<rparr>"

definition on_method ::
  "http_method \<Rightarrow> string \<Rightarrow> (http_request \<Rightarrow> (string, string) dict \<Rightarrow> 's \<Rightarrow> http_response) \<Rightarrow> 's router \<Rightarrow> 's router" where
  "on_method m p h = add_route (route_new m p h)"

definition set_not_found ::
  "(http_request \<Rightarrow> (string, string) dict \<Rightarrow> 's \<Rightarrow> http_response) \<Rightarrow> 's router \<Rightarrow> 's router" where
  "set_not_found h ro = ro\<lparr>ro_not_found := Some h\<rparr>"

definition not_found_response :: "http_request \<Rightarrow> http_response" where
  "not_found_response q =
     rs_text (''Not found: '' @ method_text (rq_method q) @ '' '' @ rq_path q) (response_new NotFoundStatus)"

definition no_route ::
  "(http_request \<Rightarrow> (string, string) dict \<Rightarrow> 's \<Rightarrow> http_response) option \<Rightarrow> http_request \<Rightarrow> 's \<Rightarrow> http_response" where
  "no_route nf q s = (case nf of Some h \<Rightarrow> h q [] s | None \<Rightarrow> not_found_response q)"

definition router_handle :: "'s router \<Rightarrow> http_request \<Rightarrow> 's \<Rightarrow> http_response" where
  "router_handle ro q s =
     (case first_match (ro_routes ro) q of
        Some (r, ps) \<Rightarrow> route_execute r q ps s
      | None \<Rightarrow> no_route (ro_not_found ro) q s)"

definition router_handle_async :: "'s router \<Rightarrow> http_request \<Rightarrow> 's \<Rightarrow> http_response" where
  "router_handle_async ro q s =
     (case first_match (ro_async_routes ro) q of
        Some (r, ps) \<Rightarrow> route_execute r q ps s
      | None \<Rightarrow> router_handle ro q s)"

definition add_resource ::
  "string \<Rightarrow> (http_request \<Rightarrow> (string, string) dict \<Rightarrow> 's \<Rightarrow> http_response)
   \<Rightarrow> (http_request \<Rightarrow> (string, string) dict \<Rightarrow> 's \<Rightarrow> http_response)
   \<Rightarrow> (http_request \<Rightarrow> (string, string) dict \<Rightarrow> 's \<Rightarrow> http_response)
   \<Rightarrow> (http_request \<Rightarrow> (string, string) dict \<Rightarrow> 's \<Rightarrow> http_response)
   \<Rightarrow> (http_request \<Rightarrow> (string, string) dict \<Rightarrow> 's \<Rightarrow> http_response) \<Rightarrow> 's router \<Rightarrow> 's router" where
  "add_resource path index shw create updat delete ro =
     (let id_path = path @ ''/:id'' in
      on_method DELETE id_path delete (on_method PUT id_path updat (on_method POST path create
        (on_method GET id_path shw (on_method GET path index ro)))))"

record ('s, 'c) enhanced_router =
  er_routes :: "('s, http_response) route list"
  er_command_routes :: "('c, http_response \<times> 'c) route list"
  er_not_found :: "(http_request \<Rightarrow> (string, string) dict \<Rightarrow> 's \<Rightarrow> http_response) option"

definition has_matching_command_route :: "('s, 'c) enhanced_router \<Rightarrow> http_request \<Rightarrow> bool" where
  "has_matching_command_route er q = list_ex (\<lambda>r. route_matches r q \<noteq> None) (er_command_routes er)"

definition enhanced_handle ::
  "('s, 'c) enhanced_router \<Rightarrow> http_request \<Rightarrow> 's \<Rightarrow> 'c \<Rightarrow> http_response \<times> 'c" where
  "enhanced_handle er q s c =
     (case first_match (er_command_routes er) q of
        Some (r, ps) \<Rightarrow> command_execute r q ps c
      | None \<Rightarrow>
          (case first_match (er_routes er) q of
             Some (r, ps) \<Rightarrow> (route_execute r q ps s, c)
           | None \<Rightarrow> (no_route (er_not_found er) q s, c)))"

section \<open>Connections\<close>

record server_config =
  sc_max_connections :: nat
  sc_max_body_size :: nat
  sc_keep_alive :: bool

definition server_config_default :: server_config where
  "server_config_default =
     \<lparr>sc_max_connections = 1000, sc_max_body_size = 16 * 1024 * 1024, sc_keep_alive = True\<rparr>"

text \<open>
  What a read of the socket finds: each element is what has arrived by then, and it is not empty. At
  the end the peer has closed its side, or nothing comes until the read times out.
\<close>

datatype stream_end = PeerClosed | ReadTimeout

definition buffer_capacity :: nat where "buffer_capacity = 8192"

text \<open>A read into room for \<open>n\<close> bytes; what does not fit stays in the socket.\<close>

definition socket_read :: "nat \<Rightarrow> string \<Rightarrow> string list \<Rightarrow> string \<times> string list" where
  "socket_read n s ss = (take n s, if drop n s = [] then ss else drop n s # ss)"

definition pending :: "string list \<Rightarrow> nat" where
  "pending ss = sum_list (map length ss) + length ss"

lemma socket_read_pending:
  "0 < n \<Longrightarrow> pending (snd (socket_read n s ss)) < pending (s # ss)"
  by (cases s; cases n) (auto simp: socket_read_def pending_def)

text \<open>\<open>read_line\<close> of the reader with its buffer: up to the next line feed, or to the end.\<close>

function read_line :: "stream_end \<Rightarrow> string \<Rightarrow> string list \<Rightarrow> (string \<times> string \<times> string list) option" where
  "read_line e buf ss =
     (case split_first [newline] buf of
        Some (l, rest) \<Rightarrow> Some (l @ [newline], rest, ss)
      | None \<Rightarrow>
          (case ss of
             [] \<Rightarrow> (case e of PeerClosed \<Rightarrow> Some (buf, [], []) | ReadTimeout \<Rightarrow> None)
           | s # ss1 \<Rightarrow>
               (let (got, ss2) = socket_read buffer_capacity s ss1 in
                map_option (\<lambda>(l, r). (buf @ l, r)) (read_line e got ss2))))"
  by pat_completeness auto
termination
  by (relation "measure (\<lambda>(e, buf, ss). pending ss)")
    (auto simp: buffer_capacity_def case_prod_unfold intro!: socket_read_pending)

declare read_line.simps [simp del]

text \<open>\<open>read_exact\<close>: a request as large as the buffer goes past it.\<close>

function read_exact :: "nat \<Rightarrow> string \<Rightarrow> string list \<Rightarrow> (string \<times> string \<times> string list) option" where
  "read_exact n buf ss =
     (if n \<le> length buf then Some (take n buf, drop n buf, ss)
      else case ss of
          [] \<Rightarrow> None
        | s # ss1 \<Rightarrow>
            (let (got, ss2) =
                   (if buffer_capacity \<le> n - length buf then socket_read (n - length buf) s ss1
                    else socket_read buffer_capacity s ss1)
             in map_option (\<lambda>(b, r). (buf @ b, r)) (read_exact (n - length buf) got ss2)))"
  by pat_completeness auto
termination
  by (relation "measure (\<lambda>(n, buf, ss). pending ss)")
    (auto simp: buffer_capacity_def case_prod_unfold split: if_splits intro!: socket_read_pending)

declare read_exact.simps [simp del]

definition arriving :: "string list \<Rightarrow> string" where
  "arriving ss = concat ss"

lemma split_first_char:
  "split_first [c] s = Some (l, r) \<Longrightarrow> s = l @ c # r \<and> c \<notin> set l"
proof (induction s arbitrary: l)
  case (Cons x xs)
  then show ?case by (auto split: if_splits)
qed simp

lemma split_first_char_None: "split_first [c] s = None \<longleftrightarrow> c \<notin> set s"
  by (induction s) auto

lemma socket_read_content: "socket_read n s ss = (got, ss') \<Longrightarrow> got @ concat ss' = s @ concat ss"
  by (auto simp: socket_read_def split: if_splits)

lemma read_line_content:
  "read_line e buf ss = Some (l, buf', ss') \<Longrightarrow> l @ buf' @ concat ss' = buf @ concat ss"
proof (induction e buf ss arbitrary: l rule: read_line.induct)
  case (1 e buf ss)
  show ?case
  proof (cases "split_first [newline] buf")
    case (Some p)
    then obtain a r where p: "split_first [newline] buf = Some (a, r)" by (cases p) auto
    have "l = a @ [newline] \<and> buf' = r \<and> ss' = ss" using "1.prems" p by (simp add: read_line.simps [of e buf])
    then show ?thesis using split_first_char [OF p] by simp
  next
    case None
    show ?thesis
    proof (cases ss)
      case Nil
      with "1.prems" None show ?thesis
        by (simp add: read_line.simps [of e buf] split: stream_end.splits)
    next
      case (Cons s ss1)
      obtain got ss2 where r: "socket_read buffer_capacity s ss1 = (got, ss2)"
        by (cases "socket_read buffer_capacity s ss1") auto
      from "1.prems" None obtain l2 where l2: "read_line e got ss2 = Some (l2, buf', ss')" "l = buf @ l2"
        by (auto simp: read_line.simps [of e buf] Cons r)
      from "1.IH" [OF None Cons r [symmetric] refl l2(1)] socket_read_content [OF r] show ?thesis
        by (simp add: Cons l2(2))
    qed
  qed
qed

lemma read_line_progress:
  assumes "read_line e buf ss = Some (l, buf', ss')" and "l \<noteq> []"
  shows "length buf' + sum_list (map length ss') < length buf + sum_list (map length ss)"
proof -
  have "length (l @ buf' @ concat ss') = length (buf @ concat ss)"
    by (simp only: read_line_content [OF assms(1)])
  then show ?thesis using assms(2) by (cases l) (simp_all add: length_concat)
qed

text \<open>The lines up to and with the first that is blank; the end of the stream is a blank line.\<close>

function read_head ::
  "(string \<Rightarrow> bool) \<Rightarrow> stream_end \<Rightarrow> string \<Rightarrow> string list \<Rightarrow> (string \<times> string \<times> string list) option" where
  "read_head utf8 e buf ss =
     (case read_line e buf ss of
        None \<Rightarrow> None
      | Some (line, buf1, ss1) \<Rightarrow>
          (if \<not> utf8 line then None
           else if trim line = [] then Some (line, buf1, ss1)
           else map_option (\<lambda>(h, r). (line @ h, r)) (read_head utf8 e buf1 ss1)))"
  by pat_completeness auto
termination
proof (relation "measure (\<lambda>(u, e, buf, ss). length buf + sum_list (map length ss))")
  fix utf8 :: "string \<Rightarrow> bool" and e buf ss p line q buf1 ss1
  assume "read_line e buf ss = Some p" "(line, q) = p" "(buf1, ss1) = q" "\<not> \<not> utf8 line" "trim line \<noteq> []"
  then show "((utf8, e, buf1, ss1), utf8, e, buf, ss)
      \<in> measure (\<lambda>(u, e, buf, ss). length buf + sum_list (map length ss))"
    using read_line_progress [of e buf ss line buf1 ss1] by (cases line) (auto simp: trim_def)
qed simp

declare read_head.simps [simp del]

definition usize_max :: nat where "usize_max = 2 ^ 64 - 1"

definition extract_content_length :: "string \<Rightarrow> http_error + nat" where
  "extract_content_length hs =
     (case find (\<lambda>l. take 15 (map lower_char l) = ''content-length:'') (text_lines hs) of
        None \<Rightarrow> Inr 0
      | Some l \<Rightarrow>
          (case split_first '':'' l of
             None \<Rightarrow> Inr 0
           | Some (_, v) \<Rightarrow>
               (case parse_unsigned usize_max (trim v) of
                  Some n \<Rightarrow> Inr n
                | None \<Rightarrow> Inl (InvalidRequest ''Invalid Content-Length: ''))))"

text \<open>
  Reading one request. The reader with its buffer lives as long as this: what the buffer holds behind
  the request is gone. The result is the request and what is left in the socket.
\<close>

definition read_request ::
  "(string \<Rightarrow> bool) \<Rightarrow> server_config \<Rightarrow> stream_end \<Rightarrow> string list \<Rightarrow> http_error + string \<times> string list" where
  "read_request utf8 cfg e ss =
     (case read_line e [] ss of
        None \<Rightarrow> Inl (ConnectionError ''Failed to read request line: '')
      | Some (rl, buf1, ss1) \<Rightarrow>
          if \<not> utf8 rl then Inl (ConnectionError ''Failed to read request line: '')
          else if rl = [] then Inl (InvalidRequest ''Empty request'')
          else
            (case read_head utf8 e buf1 ss1 of
               None \<Rightarrow> Inl (ConnectionError ''Failed to read header line: '')
             | Some (hs, buf2, ss2) \<Rightarrow>
                 if \<not> utf8 (rl @ hs) then Inl (InvalidRequest ''Invalid UTF-8: '')
                 else
                   (case extract_content_length (rl @ hs) of
                      Inl err \<Rightarrow> Inl err
                    | Inr n \<Rightarrow>
                        if n = 0 then Inr (rl @ hs, ss2)
                        else if sc_max_body_size cfg < n then Inl (BodyTooLarge n)
                        else
                          (case read_exact n buf2 ss2 of
                             None \<Rightarrow> Inl (ConnectionError ''Failed to read body: '')
                           | Some (body, _, ss3) \<Rightarrow> Inr (rl @ hs @ body, ss3)))))"

definition parse_request ::
  "(string \<Rightarrow> bool) \<Rightarrow> server_config \<Rightarrow> string option \<Rightarrow> stream_end \<Rightarrow> string list
   \<Rightarrow> http_error + http_request \<times> string list" where
  "parse_request utf8 cfg addr e ss =
     (case read_request utf8 cfg e ss of
        Inl err \<Rightarrow> Inl err
      | Inr (raw, ss1) \<Rightarrow>
          (case request_parse utf8 raw of
             Inl err \<Rightarrow> Inl err
           | Inr q \<Rightarrow> Inr (case addr of Some a \<Rightarrow> set_remote_addr a q | None \<Rightarrow> q, ss1)))"

definition respond :: "unit router option \<Rightarrow> http_request \<Rightarrow> http_response" where
  "respond ro q =
     (case ro of
        Some r \<Rightarrow> router_handle_async r q ()
      | None \<Rightarrow> rs_text ''No router configured'' (response_new NotFoundStatus))"

definition should_close :: "http_request \<Rightarrow> bool" where
  "should_close q =
     (case map_of (rq_headers q) ''connection'' of Some v \<Rightarrow> map lower_char v = ''close'' | None \<Rightarrow> False)"

definition internal_error_response :: http_response where
  "internal_error_response = rs_text ''Internal Server Error'' (response_new InternalServerError)"

lemma read_head_content:
  "read_head u e buf ss = Some (h, buf', ss') \<Longrightarrow> h @ buf' @ concat ss' = buf @ concat ss"
proof (induction u e buf ss arbitrary: h rule: read_head.induct)
  case (1 u e buf ss)
  from "1.prems" obtain line b1 s1 where l: "read_line e buf ss = Some (line, b1, s1)" and u: "u line"
    by (auto simp: read_head.simps [of u e buf] split: option.splits if_splits)
  show ?case
  proof (cases "trim line = []")
    case True
    with "1.prems" l u read_line_content [OF l] show ?thesis by (simp add: read_head.simps [of u e buf])
  next
    case False
    with "1.prems" l u obtain h2 where h2: "read_head u e b1 s1 = Some (h2, buf', ss')" "h = line @ h2"
      by (auto simp: read_head.simps [of u e buf])
    have "h2 @ buf' @ concat ss' = b1 @ concat s1"
      using "1.IH" [OF l refl refl _ False h2(1)] u by simp
    with read_line_content [OF l] show ?thesis by (simp add: h2(2))
  qed
qed

lemma read_exact_content:
  "read_exact n buf ss = Some (b, buf', ss') \<Longrightarrow> b @ buf' @ concat ss' = buf @ concat ss"
proof (induction n buf ss arbitrary: b rule: read_exact.induct)
  case (1 n buf ss)
  show ?case
  proof (cases "n \<le> length buf")
    case True
    with "1.prems" show ?thesis by (auto simp: read_exact.simps [of n buf])
  next
    case False
    with "1.prems" obtain s ss1 where ss: "ss = s # ss1"
      by (cases ss) (simp_all add: read_exact.simps [of n buf])
    obtain got ss2 where r: "(if buffer_capacity \<le> n - length buf then socket_read (n - length buf) s ss1
                    else socket_read buffer_capacity s ss1) = (got, ss2)"
      by (metis surj_pair)
    from "1.prems" False r obtain b2 where b2: "read_exact (n - length buf) got ss2 = Some (b2, buf', ss')" "b = buf @ b2"
      by (auto simp: read_exact.simps [of n buf] ss)
    have "got @ concat ss2 = s @ concat ss1"
      using r by (auto split: if_splits dest: socket_read_content)
    with "1.IH" [OF False ss r [symmetric] refl b2(1)] show ?thesis by (simp add: ss b2(2))
  qed
qed

text \<open>What is read is the request, what the buffer held behind it, and what is left.\<close>

lemma read_request_content:
  assumes "read_request utf8 cfg e ss = Inr (raw, ss')"
  shows "\<exists>lost. raw @ lost @ concat ss' = concat ss" and "raw \<noteq> []"
proof -
  obtain rl buf1 ss1 where rl: "read_line e [] ss = Some (rl, buf1, ss1)" and ne: "rl \<noteq> []"
    using assms by (auto simp: read_request_def split: option.splits if_splits)
  then obtain hs buf2 ss2 where hs: "read_head utf8 e buf1 ss1 = Some (hs, buf2, ss2)"
    using assms by (auto simp: read_request_def split: option.splits if_splits)
  obtain n where n: "extract_content_length (rl @ hs) = Inr n"
    using assms rl hs by (auto simp: read_request_def split: if_splits sum.splits)
  have head: "rl @ hs @ buf2 @ concat ss2 = concat ss"
    using read_line_content [OF rl] read_head_content [OF hs] by simp
  have "(raw = rl @ hs \<and> ss' = ss2) \<or> (\<exists>body b. read_exact n buf2 ss2 = Some (body, b, ss') \<and> raw = rl @ hs @ body)"
    using assms rl hs n ne by (auto simp: read_request_def split: if_splits option.splits)
  then have "(\<exists>lost. raw @ lost @ concat ss' = concat ss) \<and> raw \<noteq> []"
  proof
    assume "raw = rl @ hs \<and> ss' = ss2"
    with head ne have "raw @ buf2 @ concat ss' = concat ss" "raw \<noteq> []" by simp_all
    then show ?thesis by blast
  next
    assume "\<exists>body b. read_exact n buf2 ss2 = Some (body, b, ss') \<and> raw = rl @ hs @ body"
    then obtain body b where bd: "read_exact n buf2 ss2 = Some (body, b, ss')" "raw = rl @ hs @ body" by blast
    from head ne read_exact_content [OF bd(1)] have "raw @ b @ concat ss' = concat ss" "raw \<noteq> []"
      by (simp_all add: bd(2))
    then show ?thesis by blast
  qed
  then show "\<exists>lost. raw @ lost @ concat ss' = concat ss" and "raw \<noteq> []" by blast+
qed

lemma parse_request_progress:
  assumes "parse_request utf8 cfg addr e ss = Inr (q, ss')"
  shows "sum_list (map length ss') < sum_list (map length ss)"
proof -
  from assms obtain raw where r: "read_request utf8 cfg e ss = Inr (raw, ss')"
    by (auto simp: parse_request_def split: sum.splits)
  from read_request_content [OF r] obtain lost where "raw @ lost @ concat ss' = concat ss" "raw \<noteq> []" by blast
  then have "length (raw @ lost @ concat ss') = length (concat ss)" "0 < length raw" by simp_all
  then show ?thesis unfolding length_append length_concat by linarith
qed

text \<open>The responses written on a connection, until it ends.\<close>

function handle_connection ::
  "(string \<Rightarrow> bool) \<Rightarrow> server_config \<Rightarrow> unit router option \<Rightarrow> string \<Rightarrow> stream_end \<Rightarrow> string list
   \<Rightarrow> http_response list" where
  "handle_connection utf8 cfg ro addr e ss =
     (case parse_request utf8 cfg (Some addr) e ss of
        Inl err \<Rightarrow> (if err = InvalidRequest ''Empty request'' then [] else [internal_error_response])
      | Inr (q, ss1) \<Rightarrow>
          respond ro q
          # (if should_close q \<or> \<not> sc_keep_alive cfg then []
             else handle_connection utf8 cfg ro addr e ss1))"
  by pat_completeness auto
termination
  by (relation "measure (\<lambda>(u, cfg, ro, addr, e, ss). sum_list (map length ss))")
    (auto intro: parse_request_progress)

declare handle_connection.simps [simp del]

section \<open>Requests are read as they were written\<close>

text \<open>A request as a client writes it: the request line, its headers, an empty line, the body.\<close>

definition request_line :: "http_method \<Rightarrow> string \<Rightarrow> http_version \<Rightarrow> string" where
  "request_line m full v = method_text m @ '' '' @ full @ '' '' @ version_text v"

definition request_head :: "http_method \<Rightarrow> string \<Rightarrow> http_version \<Rightarrow> (string \<times> string) list \<Rightarrow> string list" where
  "request_head m full v hs = request_line m full v # map (\<lambda>(n, x). n @ '': '' @ x) hs"

definition request_text ::
  "http_method \<Rightarrow> string \<Rightarrow> http_version \<Rightarrow> (string \<times> string) list \<Rightarrow> string \<Rightarrow> string" where
  "request_text m full v hs body = concat (map (\<lambda>l. l @ crlf) (request_head m full v hs)) @ crlf @ body"

definition header_ok :: "string \<times> string \<Rightarrow> bool" where
  "header_ok h \<longleftrightarrow>
     CHR '':'' \<notin> set (fst h) \<and> trim (fst h) = fst h \<and> map lower_char (fst h) = fst h
     \<and> CHR 13 \<notin> set (fst h) \<and> CHR 10 \<notin> set (fst h)
     \<and> trim (snd h) = snd h \<and> CHR 13 \<notin> set (snd h) \<and> CHR 10 \<notin> set (snd h)"

definition request_ok :: "string \<Rightarrow> (string \<times> string) list \<Rightarrow> bool" where
  "request_ok full hs \<longleftrightarrow>
     full \<noteq> [] \<and> list_all (\<lambda>c. \<not> is_space c) full \<and> list_all header_ok hs \<and> distinct (map fst hs)"

lemma is_space_chars [simp]:
  "is_space (CHR 32)" "is_space (CHR 13)" "is_space (CHR 10)" "\<not> is_space (CHR '':'')"
  by (simp_all add: is_space_def)

lemma split_words_word:
  "w \<noteq> [] \<Longrightarrow> list_all (\<lambda>c. \<not> is_space c) w \<Longrightarrow> split_words w = [w]"
proof (induction w)
  case (Cons c cs)
  then show ?case by (cases cs) auto
qed simp

lemma split_words_next:
  "w \<noteq> [] \<Longrightarrow> list_all (\<lambda>c. \<not> is_space c) w \<Longrightarrow> is_space s \<Longrightarrow> split_words (w @ s # r) = w # split_words r"
proof (induction w)
  case (Cons c cs)
  then show ?case by (cases cs) auto
qed simp

lemma method_text_word: "method_text m \<noteq> []" "list_all (\<lambda>c. \<not> is_space c) (method_text m)"
  by (cases m; simp add: is_space_def)+

lemma version_text_word: "version_text v \<noteq> []" "list_all (\<lambda>c. \<not> is_space c) (version_text v)"
  by (cases v; simp add: is_space_def)+

lemma parse_method_text [simp]: "parse_method (method_text m) = Inr m"
  by (cases m) (simp_all add: parse_method_def upper_char_def)

lemma parse_version_text [simp]: "parse_version (version_text v) = Inr v"
  by (cases v) (simp_all add: parse_version_def)

lemma parse_request_line_text:
  assumes "full \<noteq> []" and "list_all (\<lambda>c. \<not> is_space c) full"
  shows "parse_request_line (request_line m full v) = Inr (m, full, v)"
proof -
  have "split_words (request_line m full v) = [method_text m, full, version_text v]"
    using split_words_next [OF method_text_word, of "CHR 32" m] split_words_next [OF assms, of "CHR 32"]
      split_words_word [OF version_text_word]
    by (simp add: request_line_def)
  then show ?thesis by (simp add: parse_request_line_def)
qed

lemma split_first_skip:
  "hd p \<notin> set l \<Longrightarrow> p \<noteq> [] \<Longrightarrow>
   split_first p (l @ s) = map_option (\<lambda>(a, b). (l @ a, b)) (split_first p s)"
proof (induction l)
  case Nil
  then show ?case by (simp add: option.map_ident_strong split_beta)
next
  case (Cons c l)
  then have "take (length p) (c # l @ s) \<noteq> p" by (cases p) auto
  with Cons show ?case by (simp add: option.map_comp comp_def split_beta)
qed

lemma split_crlf_skip:
  "CHR 13 \<notin> set l \<Longrightarrow> split_crlf (l @ CHR 13 # CHR 10 # s) = l # split_crlf s"
proof (induction l rule: induct_list012)
  case (2 c)
  then show ?case by simp
next
  case (3 c d l)
  then show ?case by (cases l) auto
qed simp

lemma split_crlf_last: "CHR 13 \<notin> set l \<Longrightarrow> split_crlf l = [l]"
  by (induction l rule: split_crlf.induct) auto

text \<open>Lines without a carriage return that are not empty, up to the empty one.\<close>

fun crlf_joined :: "string list \<Rightarrow> string" where
  "crlf_joined [] = []"
| "crlf_joined [l] = l"
| "crlf_joined (l # ls) = l @ crlf @ crlf_joined ls"

lemma split_crlf_joined:
  "ls \<noteq> [] \<Longrightarrow> list_all (\<lambda>l. CHR 13 \<notin> set l) ls \<Longrightarrow> split_crlf (crlf_joined ls) = ls"
  by (induction ls rule: crlf_joined.induct) (simp_all add: split_crlf_last split_crlf_skip crlf_def)

lemma split_head:
  "ls \<noteq> [] \<Longrightarrow> list_all (\<lambda>l. l \<noteq> [] \<and> CHR 13 \<notin> set l) ls \<Longrightarrow>
   split_first (crlf @ crlf) (concat (map (\<lambda>l. l @ crlf) ls) @ crlf @ body) = Some (crlf_joined ls, body)"
proof (induction ls rule: crlf_joined.induct)
  case (2 l)
  then have "split_first (crlf @ crlf) (l @ crlf @ crlf @ body) = Some (l, body)"
    by (subst split_first_skip) (simp_all add: crlf_def)
  then show ?case by simp
next
  case (3 l k ks)
  let ?r = "concat (map (\<lambda>l. l @ crlf) (k # ks)) @ crlf @ body"
  from 3 obtain c cs where k: "k = c # cs" "c \<noteq> CHR 13" by (cases k) auto
  have "split_first (crlf @ crlf) (crlf @ ?r) = map_option (\<lambda>(a, b). (crlf @ a, b)) (split_first (crlf @ crlf) ?r)"
    using k by (simp add: crlf_def option.map_comp comp_def split_beta)
  moreover have "split_first (crlf @ crlf) ?r = Some (crlf_joined (k # ks), body)"
    using 3 by simp
  ultimately have "split_first (crlf @ crlf) (l @ crlf @ ?r) = Some (l @ crlf @ crlf_joined (k # ks), body)"
    using 3(3) by (subst split_first_skip) (simp_all add: crlf_def)
  then show ?case by simp
qed simp

lemma update_new: "k \<notin> fst ` set d \<Longrightarrow> AList.update k v d = d @ [(k, v)]"
  by (induction d) auto

lemma header_split:
  "CHR '':'' \<notin> set n \<Longrightarrow> split_first '':'' (n @ CHR '':'' # r) = Some (n, r)"
  by (subst split_first_skip) simp_all

lemma trim_space: "trim (CHR 32 # s) = trim s"
  by (simp add: trim_def)

lemma parse_headers_text:
  "list_all header_ok hs \<Longrightarrow> distinct (map fst hs) \<Longrightarrow> fst ` set hs \<inter> fst ` set d = {} \<Longrightarrow>
   parse_headers (map (\<lambda>(n, x). n @ '': '' @ x) hs) d = Inr (d @ hs)"
proof (induction hs arbitrary: d)
  case (Cons h hs)
  obtain n x where h: "h = (n, x)" by (cases h)
  from Cons.prems have ok: "CHR '':'' \<notin> set n" "trim n = n" "map lower_char n = n" "trim x = x"
    by (simp_all add: h header_ok_def)
  have "parse_headers (map (\<lambda>(n, x). n @ '': '' @ x) hs) (d @ [(n, x)]) = Inr ((d @ [(n, x)]) @ hs)"
    using Cons.prems by (intro Cons.IH) (auto simp: h)
  then show ?case
    using ok Cons.prems by (simp add: h header_split trim_space update_new)
qed simp

lemma request_head_lines:
  assumes "request_ok full hs"
  shows "list_all (\<lambda>l. l \<noteq> [] \<and> CHR 13 \<notin> set l) (request_head m full v hs)"
proof -
  have sp: "\<And>w c. list_all (\<lambda>c. \<not> is_space c) w \<Longrightarrow> is_space c \<Longrightarrow> c \<notin> set w"
    by (auto simp: list_all_iff)
  have "CHR 13 \<notin> set (request_line m full v)"
    using assms sp [OF method_text_word(2), of "CHR 13"] sp [OF version_text_word(2), of "CHR 13"]
      sp [of full "CHR 13"]
    by (simp add: request_line_def request_ok_def)
  with assms show ?thesis
    by (auto simp: request_head_def request_line_def request_ok_def list_all_iff header_ok_def)
qed

lemma request_parse_text:
  assumes "request_ok full hs" and "utf8 (request_text m full v hs body)"
  shows "request_parse utf8 (request_text m full v hs body) = Inr (request_new utf8 m full v hs body)"
proof -
  have ne: "request_head m full v hs \<noteq> []" by (simp add: request_head_def)
  note lines = request_head_lines [OF assms(1), of m v]
  have split: "split_first (crlf @ crlf) (request_text m full v hs body) = Some (crlf_joined (request_head m full v hs), body)"
    using split_head [OF ne lines] by (simp add: request_text_def)
  have parts: "split_crlf (crlf_joined (request_head m full v hs)) = request_head m full v hs"
    using split_crlf_joined [OF ne] lines by (simp add: list_all_iff)
  have rl: "parse_request_line (request_line m full v) = Inr (m, full, v)"
    using assms(1) by (intro parse_request_line_text) (simp_all add: request_ok_def)
  have hs: "parse_headers (map (\<lambda>(n, x). n @ '': '' @ x) hs) [] = Inr hs"
    using parse_headers_text [of hs "[]"] assms(1) by (simp add: request_ok_def)
  show ?thesis
    using assms(2) rl hs by (simp add: request_parse_def split parts) (simp add: request_head_def)
qed

section \<open>Connections answer one request per read\<close>

text \<open>The length that the headers announce is that of the body.\<close>

definition length_announced :: "(string \<times> string) list \<Rightarrow> string \<Rightarrow> bool" where
  "length_announced hs body =
     (case map_of hs ''content-length'' of
        None \<Rightarrow> body = []
      | Some v \<Rightarrow> v = show_nat (length body) \<and> length body \<le> usize_max)"

definition received :: "(string \<Rightarrow> bool) \<Rightarrow> string \<Rightarrow> http_method \<Rightarrow> string \<Rightarrow> http_version
    \<Rightarrow> (string \<times> string) list \<Rightarrow> string \<Rightarrow> http_request" where
  "received utf8 addr m full v hs body = set_remote_addr addr (request_new utf8 m full v hs body)"

lemma read_line_buffered:
  "newline \<notin> set l \<Longrightarrow> read_line e (l @ newline # r) ss = Some (l @ [newline], r, ss)"
proof -
  assume "newline \<notin> set l"
  then have "split_first [newline] (l @ newline # r) = Some (l, r)"
    by (subst split_first_skip) simp_all
  then show ?thesis by (simp add: read_line.simps)
qed

lemma read_line_fresh:
  "length s \<le> buffer_capacity \<Longrightarrow> read_line e [] (s # ss) = read_line e s ss"
  by (simp add: read_line.simps [of e "[]"] socket_read_def option.map_ident_strong split_beta)

lemma trim_colon: "trim (n @ CHR '':'' # r) \<noteq> []"
proof -
  have "CHR '':'' \<in> set (dropWhile is_space (n @ CHR '':'' # r))"
    by (induction n) auto
  then have "\<exists>c \<in> set (rev (dropWhile is_space (n @ CHR '':'' # r))). \<not> is_space c" by force
  then show ?thesis by (simp add: trim_def dropWhile_eq_Nil_conv)
qed

lemma read_head_buffered:
  assumes "\<And>l. l \<in> set ls \<Longrightarrow> newline \<notin> set l \<and> trim (l @ crlf) \<noteq> [] \<and> utf8 (l @ crlf)" and "utf8 crlf"
  shows "read_head utf8 e (concat (map (\<lambda>l. l @ crlf) ls) @ crlf @ r) ss
           = Some (concat (map (\<lambda>l. l @ crlf) ls) @ crlf, r, ss)"
  using assms(1)
proof (induction ls)
  case Nil
  have "read_line e (crlf @ r) ss = Some (crlf, r, ss)"
    using read_line_buffered [of "[CHR 13]" e r ss] by (simp add: crlf_def newline_def)
  moreover have "trim crlf = []" by (simp add: trim_def crlf_def)
  ultimately show ?case using assms(2) by (subst read_head.simps) simp
next
  case (Cons l ls)
  let ?rest = "concat (map (\<lambda>l. l @ crlf) ls) @ crlf @ r"
  have "newline \<notin> set (l @ [CHR 13])" using Cons.prems [of l] by (simp add: newline_def)
  from read_line_buffered [OF this, of e ?rest ss]
  have "read_line e (l @ crlf @ ?rest) ss = Some (l @ crlf, ?rest, ss)"
    by (simp add: crlf_def newline_def)
  moreover have "read_head utf8 e ?rest ss = Some (concat (map (\<lambda>l. l @ crlf) ls) @ crlf, r, ss)"
    using Cons.prems by (intro Cons.IH) simp
  ultimately show ?case
    using Cons.prems [of l] by (simp add: read_head.simps [of _ e "l @ crlf @ ?rest"])
qed

lemma lower_char_colon: "lower_char c = CHR '':'' \<longleftrightarrow> c = CHR '':''"
proof (cases "65 \<le> (of_char c :: nat) \<and> (of_char c :: nat) \<le> 90")
  case True
  then have "(of_char (lower_char c) :: nat) = of_char c + 32"
    by (simp add: lower_char_def of_char_of)
  with True have "(of_char (lower_char c) :: nat) \<noteq> of_char (CHR '':'')" by simp
  moreover have "(of_char c :: nat) \<noteq> of_char (CHR '':'')" using True by simp
  ultimately show ?thesis by metis
qed (auto simp: lower_char_def Let_def)

lemma length_name:
  assumes "CHR '':'' \<notin> set n" and "map lower_char n = n"
  shows "take 15 (map lower_char (n @ CHR '':'' # r)) = ''content-length:'' \<longleftrightarrow> n = ''content-length''"
    (is "?l = ?r")
proof
  assume l: ?l
  then have eq: "take 15 (n @ CHR '':'' # map lower_char r) = ''content-length:''"
    using assms(2) by (simp add: lower_char_def)
  have nth: "(n @ CHR '':'' # map lower_char r) ! i = ''content-length:'' ! i" if "i < 15" for i
    using that by (metis eq nth_take)
  consider "length n < 14" | "length n = 14" | "14 < length n" by linarith
  then show ?r
  proof cases
    case 1
    with nth [of "length n"] have "''content-length:'' ! length n = CHR '':''" by simp
    moreover have "''content-length:'' ! length n = ''content-length'' ! length n"
      using 1 nth_append [of "''content-length''" "'':''" "length n"] by simp
    moreover have "''content-length'' ! length n \<in> set ''content-length''"
      using 1 by (intro nth_mem) simp
    ultimately show ?thesis by simp
  next
    case 2
    with eq have "n @ [CHR '':''] = ''content-length:''" by simp
    then show ?thesis by (metis append_Cons append_Nil butlast_snoc butlast.simps(2) list.distinct(1))
  next
    case 3
    with nth [of 14] have "n ! 14 = CHR '':''" by (simp add: nth_append)
    with 3 assms(1) show ?thesis by (metis nth_mem)
  qed
qed (simp add: lower_char_def)

lemma text_lines_crlf:
  "CHR 10 \<notin> set l \<Longrightarrow> text_lines (l @ crlf @ r) = l # text_lines r"
  using text_lines_frame [of "l @ [CHR 13]" r] by (simp add: crlf_def newline_def strip_cr_def)

lemma text_lines_request:
  "list_all (\<lambda>l. CHR 10 \<notin> set l) ls \<Longrightarrow> text_lines (concat (map (\<lambda>l. l @ crlf) ls) @ crlf) = ls @ [[]]"
proof (induction ls)
  case Nil
  show ?case using text_lines_crlf [of "[]" "[]"] by simp
next
  case (Cons l ls)
  then show ?case by (simp add: text_lines_crlf)
qed

lemma method_not_length:
  "take 15 (map lower_char (request_line m full v)) \<noteq> ''content-length:''"
  by (cases m) (simp_all add: request_line_def lower_char_def)

lemma content_length_text:
  assumes "request_ok full hs" and "length_announced hs body"
  shows "extract_content_length (concat (map (\<lambda>l. l @ crlf) (request_head m full v hs)) @ crlf)
           = Inr (length body)"
proof -
  let ?is = "\<lambda>l. take 15 (map lower_char l) = ''content-length:''"
  let ?line = "\<lambda>(n, x). n @ '': '' @ x"
  have no_lf: "list_all (\<lambda>l. CHR 10 \<notin> set l) (request_head m full v hs)"
  proof -
    have sp: "\<And>w c. list_all (\<lambda>c. \<not> is_space c) w \<Longrightarrow> is_space c \<Longrightarrow> c \<notin> set w"
      by (auto simp: list_all_iff)
    have "CHR 10 \<notin> set (request_line m full v)"
      using assms(1) sp [OF method_text_word(2), of "CHR 10"] sp [OF version_text_word(2), of "CHR 10"]
        sp [of full "CHR 10"]
      by (simp add: request_line_def request_ok_def)
    with assms(1) show ?thesis
      by (auto simp: request_head_def request_ok_def list_all_iff header_ok_def)
  qed
  have found: "find ?is (map ?line gs @ [[]]) = map_option (\<lambda>x. ?line (''content-length'', x)) (map_of gs ''content-length'')"
    if "list_all header_ok gs" for gs
    using that
  proof (induction gs)
    case (Cons g gs)
    obtain n x where g: "g = (n, x)" by (cases g)
    have "?is (?line (n, x)) = (n = ''content-length'')"
      using length_name [of n "CHR 32 # x"] Cons.prems by (simp add: g header_ok_def)
    with Cons show ?case by (auto simp: g)
  qed simp
  have "find ?is (text_lines (concat (map (\<lambda>l. l @ crlf) (request_head m full v hs)) @ crlf))
      = map_option (\<lambda>x. ?line (''content-length'', x)) (map_of hs ''content-length'')"
    using found [of hs] assms(1) method_not_length
    by (simp add: text_lines_request [OF no_lf]) (simp add: request_head_def request_ok_def)
  then have ecl: "extract_content_length (concat (map (\<lambda>l. l @ crlf) (request_head m full v hs)) @ crlf)
      = (case map_option (\<lambda>x. ?line (''content-length'', x)) (map_of hs ''content-length'') of
           None \<Rightarrow> Inr 0
         | Some l \<Rightarrow> (case split_first '':'' l of None \<Rightarrow> Inr 0
             | Some (_, v) \<Rightarrow> (case parse_unsigned usize_max (trim v) of
                  Some n \<Rightarrow> Inr n | None \<Rightarrow> Inl (InvalidRequest ''Invalid Content-Length: ''))))"
    by (simp only: extract_content_length_def)
  show ?thesis
  proof (cases "map_of hs ''content-length''")
    case None
    with assms(2) show ?thesis by (simp only: ecl) (simp add: length_announced_def)
  next
    case (Some x)
    then have x: "x = show_nat (length body)" "length body \<le> usize_max" and "header_ok (''content-length'', x)"
      using assms map_of_SomeD [OF Some] by (auto simp: length_announced_def request_ok_def list_all_iff)
    then have "trim (CHR 32 # x) = x" by (simp add: header_ok_def trim_space)
    moreover have "split_first '':'' (''content-length: '' @ x) = Some (''content-length'', CHR 32 # x)"
      using header_split [of "''content-length''" "CHR 32 # x"] by simp
    moreover have "parse_unsigned usize_max x = Some (length body)"
      by (simp only: x(1) parse_show_nat [OF x(2)])
    ultimately show ?thesis by (simp only: ecl Some) simp
  qed
qed

lemma trim_empty: "trim s = [] \<Longrightarrow> c \<in> set s \<Longrightarrow> is_space c"
proof -
  assume empty: "trim s = []" and c: "c \<in> set s"
  have all: "is_space d" if "d \<in> set (dropWhile is_space s)" for d
    using empty that by (simp add: trim_def dropWhile_eq_Nil_conv)
  have "dropWhile is_space s = []"
  proof (rule ccontr)
    assume ne: "dropWhile is_space s \<noteq> []"
    show False using all [OF hd_in_set [OF ne]] hd_dropWhile [OF ne] by simp
  qed
  with c show "is_space c" by (simp add: dropWhile_eq_Nil_conv)
qed

lemma head_lines_readable:
  assumes "request_ok full hs" and "l \<in> set (request_head m full v hs)"
  shows "newline \<notin> set l" and "trim (l @ crlf) \<noteq> []"
proof -
  have sp: "\<And>w c. list_all (\<lambda>c. \<not> is_space c) w \<Longrightarrow> is_space c \<Longrightarrow> c \<notin> set w"
    by (auto simp: list_all_iff)
  have "CHR 10 \<notin> set (request_line m full v)"
    using assms(1) sp [OF method_text_word(2), of "CHR 10"] sp [OF version_text_word(2), of "CHR 10"]
      sp [of full "CHR 10"]
    by (simp add: request_line_def request_ok_def)
  with assms show "newline \<notin> set l"
    by (auto simp: request_head_def request_ok_def list_all_iff header_ok_def newline_def)
  have "\<exists>c \<in> set l. \<not> is_space c"
  proof (cases "l = request_line m full v")
    case True
    then show ?thesis using method_text_word [of m] by (cases "method_text m") (auto simp: request_line_def)
  next
    case False
    with assms obtain n x where "l = n @ '': '' @ x" by (auto simp: request_head_def)
    then show ?thesis by simp
  qed
  then show "trim (l @ crlf) \<noteq> []" using trim_empty [of "l @ crlf"] by auto
qed

definition ascii :: "string \<Rightarrow> bool" where
  "ascii s = list_all (\<lambda>c. (of_char c :: nat) < 128) s"

lemma ascii_append [simp]: "ascii (a @ b) \<longleftrightarrow> ascii a \<and> ascii b"
  by (simp add: ascii_def)

lemma ascii_concat: "ascii (concat ls) \<longleftrightarrow> list_all ascii ls"
  by (induction ls) (simp_all add: ascii_def)

definition utf8_accepts_ascii :: "(string \<Rightarrow> bool) \<Rightarrow> bool" where
  "utf8_accepts_ascii utf8 \<longleftrightarrow> (\<forall>s. ascii s \<longrightarrow> utf8 s)"

lemma read_request_text:
  assumes ok: "request_ok full hs" and len: "length_announced hs body"
    and max: "length body \<le> sc_max_body_size cfg"
    and utf8: "utf8_accepts_ascii utf8" "ascii (request_text m full v hs body)"
    and fits: "length (request_text m full v hs body @ behind) \<le> buffer_capacity"
  shows "read_request utf8 cfg e ((request_text m full v hs body @ behind) # ss)
           = Inr (request_text m full v hs body, ss)"
proof -
  let ?rl = "request_line m full v"
  let ?hl = "map (\<lambda>(n, x). n @ '': '' @ x) hs"
  let ?hs = "concat (map (\<lambda>l. l @ crlf) ?hl) @ crlf"
  have whole: "request_text m full v hs body = (?rl @ crlf) @ ?hs @ body"
    by (simp add: request_text_def request_head_def)
  have ascii: "ascii (?rl @ crlf)" "ascii ?hs" "\<And>l. l \<in> set ?hl \<Longrightarrow> ascii (l @ crlf)" "ascii crlf"
    using utf8(2) by (auto simp: whole ascii_concat list_all_iff)
  note readable = head_lines_readable [OF ok, of _ m v]
  have "newline \<notin> set ?rl" using readable(1) [of ?rl] by (simp add: request_head_def)
  then have "newline \<notin> set (?rl @ [CHR 13])" by (simp add: newline_def)
  from read_line_buffered [OF this, of e "?hs @ body @ behind" ss]
  have line: "read_line e ((?rl @ crlf) @ ?hs @ body @ behind) ss = Some (?rl @ crlf, ?hs @ body @ behind, ss)"
    by (simp add: crlf_def newline_def)
  have "read_line e [] ((request_text m full v hs body @ behind) # ss)
      = read_line e (request_text m full v hs body @ behind) ss"
    by (rule read_line_fresh [OF fits])
  then have rl: "read_line e [] ((request_text m full v hs body @ behind) # ss)
      = Some (?rl @ crlf, ?hs @ body @ behind, ss)"
    using line by (simp add: whole)
  have head: "read_head utf8 e (?hs @ body @ behind) ss = Some (?hs, body @ behind, ss)"
    using read_head_buffered [of ?hl utf8 e "body @ behind" ss] readable ascii utf8(1)
    by (auto simp: request_head_def utf8_accepts_ascii_def)
  have "ascii ((?rl @ crlf) @ ?hs)" using ascii(1,2) by (simp add: ascii_def)
  then have u: "utf8 ((?rl @ crlf) @ ?hs)" "utf8 (?rl @ crlf)"
    using utf8(1) ascii(1) unfolding utf8_accepts_ascii_def by blast+
  have n: "extract_content_length ((?rl @ crlf) @ ?hs) = Inr (length body)"
    using content_length_text [OF ok len, of m v] by (simp add: request_head_def)
  have body: "read_exact (length body) (body @ behind) ss = Some (body, behind, ss)"
    by (simp add: read_exact.simps)
  have nonempty: "?rl @ crlf \<noteq> []" by (simp add: crlf_def)
  show ?thesis
    unfolding read_request_def rl
    using u n head body max nonempty by (simp add: whole del: append_assoc)
qed

theorem one_request_per_read:
  assumes "request_ok full hs" and "length_announced hs body"
    and "length body \<le> sc_max_body_size cfg"
    and "utf8_accepts_ascii utf8" and "ascii (request_text m full v hs body)"
    and "length (request_text m full v hs body @ behind) \<le> buffer_capacity"
  shows "handle_connection utf8 cfg ro addr e ((request_text m full v hs body @ behind) # ss)
    = respond ro (received utf8 addr m full v hs body)
      # (if should_close (received utf8 addr m full v hs body) \<or> \<not> sc_keep_alive cfg then []
         else handle_connection utf8 cfg ro addr e ss)"
proof -
  have "request_parse utf8 (request_text m full v hs body) = Inr (request_new utf8 m full v hs body)"
    using request_parse_text [OF assms(1)] assms(4,5) by (simp add: utf8_accepts_ascii_def)
  then have "parse_request utf8 cfg (Some addr) e ((request_text m full v hs body @ behind) # ss)
      = Inr (received utf8 addr m full v hs body, ss)"
    by (simp add: parse_request_def read_request_text [OF assms] received_def)
  then show ?thesis by (simp add: handle_connection.simps [of utf8 cfg ro addr e "(_ # _)"])
qed

type_synonym sent = "http_method \<times> string \<times> http_version \<times> (string \<times> string) list \<times> string"

definition sent_text :: "sent \<Rightarrow> string" where
  "sent_text r = (case r of (m, full, v, hs, body) \<Rightarrow> request_text m full v hs body)"

definition sent_ok :: "server_config \<Rightarrow> sent \<Rightarrow> bool" where
  "sent_ok cfg r =
     (case r of (m, full, v, hs, body) \<Rightarrow>
        request_ok full hs \<and> length_announced hs body \<and> length body \<le> sc_max_body_size cfg
        \<and> ascii (request_text m full v hs body))"

definition sent_request :: "(string \<Rightarrow> bool) \<Rightarrow> string \<Rightarrow> sent \<Rightarrow> http_request" where
  "sent_request utf8 addr r = (case r of (m, full, v, hs, body) \<Rightarrow> received utf8 addr m full v hs body)"

lemma handle_connection_end:
  "utf8 [] \<Longrightarrow> handle_connection utf8 cfg ro addr e []
     = (case e of PeerClosed \<Rightarrow> [] | ReadTimeout \<Rightarrow> [internal_error_response])"
  by (simp add: handle_connection.simps parse_request_def read_request_def read_line.simps
      split: stream_end.splits)

text \<open>
  C40. A connection that stays open answers, in order, exactly the request at the beginning of every read:
  requests that arrive in the same read behind another are dropped without an answer. When nothing comes
  any more, the client that waits is sent an error it did not ask for.
\<close>

theorem connection_answers_first_of_each_read:
  assumes "utf8_accepts_ascii utf8" and "sc_keep_alive cfg"
    and "\<And>r b. (r, b) \<in> set reads \<Longrightarrow>
           sent_ok cfg r \<and> length (sent_text r @ b) \<le> buffer_capacity \<and> \<not> should_close (sent_request utf8 addr r)"
  shows "handle_connection utf8 cfg ro addr e (map (\<lambda>(r, b). sent_text r @ b) reads)
    = map (\<lambda>(r, b). respond ro (sent_request utf8 addr r)) reads
      @ (case e of PeerClosed \<Rightarrow> [] | ReadTimeout \<Rightarrow> [internal_error_response])"
  using assms(3)
proof (induction reads)
  case Nil
  have "utf8 []" using assms(1) by (simp add: utf8_accepts_ascii_def ascii_def)
  then show ?case by (simp add: handle_connection_end)
next
  case (Cons x reads)
  obtain r b where x: "x = (r, b)" by (cases x)
  obtain m full v hs body where r: "r = (m, full, v, hs, body)" by (cases r) auto
  have "sent_ok cfg r" "length (sent_text r @ b) \<le> buffer_capacity" "\<not> should_close (sent_request utf8 addr r)"
    using Cons.prems [of r b] by (simp_all add: x)
  then have "handle_connection utf8 cfg ro addr e ((sent_text r @ b) # map (\<lambda>(r, b). sent_text r @ b) reads)
      = respond ro (sent_request utf8 addr r)
        # handle_connection utf8 cfg ro addr e (map (\<lambda>(r, b). sent_text r @ b) reads)"
    using one_request_per_read [of full hs body cfg utf8 m v b ro addr e] assms(1,2)
    by (simp add: sent_ok_def sent_text_def sent_request_def r)
  moreover have "handle_connection utf8 cfg ro addr e (map (\<lambda>(r, b). sent_text r @ b) reads)
      = map (\<lambda>(r, b). respond ro (sent_request utf8 addr r)) reads
        @ (case e of PeerClosed \<Rightarrow> [] | ReadTimeout \<Rightarrow> [internal_error_response])"
    by (rule Cons.IH) (use Cons.prems in \<open>simp only: list.set insert_iff disj_imp\<close>, blast)
  ultimately show ?case by (simp add: x)
qed

definition hello_router :: "unit router" where
  "hello_router = on_method GET ''/a/:x'' (\<lambda>q ps s. rs_text ''hello'' (response_new StatusOk)) router_new"

definition get_a :: sent where
  "get_a = (GET, ''/a/1'', Http1_1, [(''host'', ''h'')], [])"

lemma get_a_text: "sent_text get_a = ''GET /a/1 HTTP/1.1'' @ crlf @ ''host: h'' @ crlf @ crlf"
  by (simp add: sent_text_def get_a_def request_text_def request_head_def request_line_def)

lemma get_a_request: "sent_request utf8 ''p'' get_a
    = \<lparr>rq_method = GET, rq_path = ''/a/1'', rq_query = [], rq_version = Http1_1,
       rq_headers = [(''host'', ''h'')], rq_body = [], rq_remote_addr = Some ''p''\<rparr>"
  by (simp add: sent_request_def get_a_def received_def set_remote_addr_def request_new_def parse_path_and_query_def)

lemma get_a_ok: "sent_ok server_config_default get_a"
  by (simp add: sent_ok_def get_a_def request_ok_def header_ok_def length_announced_def ascii_def request_text_def
      request_head_def request_line_def crlf_def is_space_def trim_def lower_char_def server_config_default_def)

text \<open>Three requests, the second right behind the first: two answers.\<close>

lemma connection_answers_first_of_each_read_witness:
  "length (handle_connection ascii server_config_default (Some hello_router) ''p'' ReadTimeout
     [sent_text get_a @ sent_text get_a, sent_text get_a]) = 3
   \<and> hd (handle_connection ascii server_config_default (Some hello_router) ''p'' ReadTimeout
     [sent_text get_a @ sent_text get_a, sent_text get_a]) = rs_text ''hello'' (response_new StatusOk)"
proof -
  have "utf8_accepts_ascii ascii" "sc_keep_alive server_config_default"
    by (simp_all add: utf8_accepts_ascii_def server_config_default_def)
  moreover have "sent_ok server_config_default r \<and> length (sent_text r @ b) \<le> buffer_capacity
      \<and> \<not> should_close (sent_request ascii ''p'' r)"
    if "(r, b) \<in> set [(get_a, sent_text get_a), (get_a, [])]" for r b
    using that get_a_ok
    by (auto simp: get_a_text get_a_request should_close_def buffer_capacity_def crlf_def)
  ultimately have "handle_connection ascii server_config_default (Some hello_router) ''p'' ReadTimeout
      (map (\<lambda>(r, b). sent_text r @ b) [(get_a, sent_text get_a), (get_a, [])])
    = map (\<lambda>(r, b). respond (Some hello_router) (sent_request ascii ''p'' r)) [(get_a, sent_text get_a), (get_a, [])]
      @ (case ReadTimeout of PeerClosed \<Rightarrow> [] | ReadTimeout \<Rightarrow> [internal_error_response])"
    by (rule connection_answers_first_of_each_read) auto
  moreover have "respond (Some hello_router) (sent_request ascii ''p'' get_a) = rs_text ''hello'' (response_new StatusOk)"
    by (simp add: get_a_request respond_def hello_router_def router_handle_async_def router_handle_def on_method_def
        add_route_def router_new_def route_new_def route_matches_def extract_params_def route_execute_def)
  ultimately show ?thesis by simp
qed

section \<open>Routes\<close>

definition is_param :: "string \<Rightarrow> bool" where
  "is_param p \<longleftrightarrow> p \<noteq> [] \<and> hd p = CHR '':''"

definition param_names :: "string \<Rightarrow> string list" where
  "param_names pattern = map tl (filter is_param (split_on (CHR ''/'') pattern))"

text \<open>The path that a pattern stands for under values for its parameters.\<close>

definition filled :: "string \<Rightarrow> (string \<rightharpoonup> string) \<Rightarrow> string list" where
  "filled pattern d =
     map (\<lambda>p. if is_param p then (case d (tl p) of Some x \<Rightarrow> x | None \<Rightarrow> []) else p)
       (split_on (CHR ''/'') pattern)"

lemma bind_parts_static:
  "length ps = length xs \<Longrightarrow>
   (bind_parts ps xs d \<noteq> None) = list_all2 (\<lambda>p x. is_param p \<or> p = x) ps xs"
  by (induction ps xs arbitrary: d rule: list_induct2) (auto simp: is_param_def)

lemma bind_parts_keeps:
  "length ps = length xs \<Longrightarrow> bind_parts ps xs d = Some d' \<Longrightarrow> k \<notin> set (map tl (filter is_param ps)) \<Longrightarrow>
   map_of d' k = map_of d k"
proof (induction ps xs arbitrary: d rule: list_induct2)
  case (Cons p ps x xs)
  show ?case
  proof (cases "is_param p")
    case True
    then have "bind_parts ps xs (AList.update (tl p) x d) = Some d'"
      using Cons.prems(1) by (simp add: is_param_def)
    from Cons.IH [OF this] Cons.prems(2) True show ?thesis by (simp add: map_of_update)
  next
    case False
    then have "bind_parts ps xs d = Some d'" using Cons.prems(1) by (simp add: is_param_def split: if_splits)
    from Cons.IH [OF this] Cons.prems(2) False show ?thesis by simp
  qed
qed simp

lemma bind_parts_filled:
  "length ps = length xs \<Longrightarrow> bind_parts ps xs d = Some d' \<Longrightarrow> distinct (map tl (filter is_param ps)) \<Longrightarrow>
   map (\<lambda>p. if is_param p then (case map_of d' (tl p) of Some x \<Rightarrow> x | None \<Rightarrow> []) else p) ps = xs"
proof (induction ps xs arbitrary: d rule: list_induct2)
  case (Cons p ps x xs)
  show ?case
  proof (cases "is_param p")
    case True
    then have rec: "bind_parts ps xs (AList.update (tl p) x d) = Some d'"
      using Cons.prems(1) by (simp add: is_param_def)
    have "map_of d' (tl p) = Some x"
      using bind_parts_keeps [OF Cons.hyps rec, of "tl p"] Cons.prems(2) True by (simp add: map_of_update)
    moreover from Cons.IH [OF rec] Cons.prems(2) True
    have "map (\<lambda>p. if is_param p then (case map_of d' (tl p) of Some x \<Rightarrow> x | None \<Rightarrow> []) else p) ps = xs"
      by simp
    ultimately show ?thesis using True by simp
  next
    case False
    then have rec: "bind_parts ps xs d = Some d'" and "p = x"
      using Cons.prems(1) by (auto simp: is_param_def split: if_splits)
    with Cons.IH [OF rec] Cons.prems(2) False show ?thesis by simp
  qed
qed simp

text \<open>
  A route matches a path exactly if the parts that are not parameters agree one by one, and the
  parameters it extracts are those under which its pattern is the path.
\<close>

theorem route_parameters:
  shows "extract_params pattern path \<noteq> None \<longleftrightarrow>
           list_all2 (\<lambda>p x. is_param p \<or> p = x) (split_on (CHR ''/'') pattern) (split_on (CHR ''/'') path)"
    and "extract_params pattern path = Some d \<Longrightarrow> distinct (param_names pattern) \<Longrightarrow>
           filled pattern (map_of d) = split_on (CHR ''/'') path"
proof -
  let ?ps = "split_on (CHR ''/'') pattern" and ?xs = "split_on (CHR ''/'') path"
  show "extract_params pattern path \<noteq> None \<longleftrightarrow> list_all2 (\<lambda>p x. is_param p \<or> p = x) ?ps ?xs"
    using bind_parts_static [of ?ps ?xs "[]"] by (auto simp: extract_params_def Let_def list_all2_lengthD)
  assume some: "extract_params pattern path = Some d" and dist: "distinct (param_names pattern)"
  then have len: "length ?ps = length ?xs" and b: "bind_parts ?ps ?xs [] = Some d"
    by (simp_all add: extract_params_def Let_def split: if_splits)
  from bind_parts_filled [OF len b] dist show "filled pattern (map_of d) = ?xs"
    by (simp add: filled_def param_names_def)
qed

lemma route_parameters_witness:
  "filled ''/users/:id/posts/:post'' (map_of [(''id'', ''7''), (''post'', ''9'')])
     = split_on (CHR ''/'') ''/users/7/posts/9''"
  by (rule route_parameters(2) [of "''/users/:id/posts/:post''" "''/users/7/posts/9''"])
    (simp_all add: extract_params_def param_names_def is_param_def)

text \<open>
  The routes of a resource: one part more after the path of the resource is the identifier of an item.
  Routes that were added before and match win.
\<close>

definition resource_answer ::
  "string \<Rightarrow> (http_request \<Rightarrow> (string, string) dict \<Rightarrow> 's \<Rightarrow> http_response)
   \<Rightarrow> (http_request \<Rightarrow> (string, string) dict \<Rightarrow> 's \<Rightarrow> http_response)
   \<Rightarrow> (http_request \<Rightarrow> (string, string) dict \<Rightarrow> 's \<Rightarrow> http_response)
   \<Rightarrow> (http_request \<Rightarrow> (string, string) dict \<Rightarrow> 's \<Rightarrow> http_response)
   \<Rightarrow> (http_request \<Rightarrow> (string, string) dict \<Rightarrow> 's \<Rightarrow> http_response)
   \<Rightarrow> http_request \<Rightarrow> 's \<Rightarrow> http_response option" where
  "resource_answer path index shw create updat delete q s =
     (if rq_path q = path then
        (case rq_method q of GET \<Rightarrow> Some (index q [] s) | POST \<Rightarrow> Some (create q [] s) | _ \<Rightarrow> None)
      else
        let parts = split_on (CHR ''/'') (rq_path q); item = [(''id'', last parts)] in
        if butlast parts = split_on (CHR ''/'') path then
          (case rq_method q of
             GET \<Rightarrow> Some (shw q item s) | PUT \<Rightarrow> Some (updat q item s) | DELETE \<Rightarrow> Some (delete q item s) | _ \<Rightarrow> None)
        else None)"

lemma split_on_snoc: "c \<notin> set l \<Longrightarrow> split_on c (s @ c # l) = split_on c s @ [l]"
proof (induction s)
  case Nil
  then show ?case by (simp add: split_on_no)
next
  case (Cons a s)
  then show ?case by (cases "split_on c s") auto
qed

fun join_on :: "char \<Rightarrow> string list \<Rightarrow> string" where
  "join_on c [] = []"
| "join_on c [p] = p"
| "join_on c (p # ps) = p @ c # join_on c ps"

lemma join_split [simp]: "join_on c (split_on c s) = s"
proof (induction s)
  case (Cons a s)
  then show ?case by (cases "split_on c s"; cases "tl (split_on c s)") auto
qed simp

lemma split_on_inject: "split_on c a = split_on c b \<longleftrightarrow> a = b"
  by (metis join_split)

lemma bind_parts_plain:
  "length ps = length xs \<Longrightarrow> \<forall>p \<in> set ps. \<not> is_param p \<Longrightarrow>
   bind_parts ps xs d = (if ps = xs then Some d else None)"
  by (induction ps xs arbitrary: d rule: list_induct2) (auto simp: is_param_def)

lemma bind_parts_item:
  "length ps = length xs \<Longrightarrow> \<forall>p \<in> set ps. \<not> is_param p \<Longrightarrow>
   bind_parts (ps @ [CHR '':'' # n]) (xs @ [x]) d = (if ps = xs then Some (AList.update n x d) else None)"
  by (induction ps xs arbitrary: d rule: list_induct2) (auto simp: is_param_def)

lemma extract_plain:
  assumes "\<forall>p \<in> set (split_on (CHR ''/'') path). \<not> is_param p"
  shows "extract_params path x = (if x = path then Some [] else None)"
  using assms bind_parts_plain [of "split_on (CHR ''/'') path" "split_on (CHR ''/'') x" "[]"]
  by (auto simp: extract_params_def Let_def split_on_inject)

lemma extract_item:
  assumes plain: "\<forall>p \<in> set (split_on (CHR ''/'') path). \<not> is_param p"
  shows "extract_params (path @ ''/:id'') x =
    (if butlast (split_on (CHR ''/'') x) = split_on (CHR ''/'') path
     then Some [(''id'', last (split_on (CHR ''/'') x))] else None)"
proof -
  let ?ps = "split_on (CHR ''/'') path" and ?xs = "split_on (CHR ''/'') x"
  have ne: "?xs \<noteq> []" by simp
  have pat: "split_on (CHR ''/'') (path @ ''/:id'') = ?ps @ ['':id'']"
    using split_on_snoc [of "CHR ''/''" "'':id''" path] by simp
  show ?thesis
  proof (cases "length ?ps = length (butlast ?xs)")
    case True
    with bind_parts_item [OF True plain, of "''id''" "last ?xs" "[]"] ne show ?thesis
      by (auto simp: extract_params_def pat)
  next
    case False
    then have "length (?ps @ ['':id'']) \<noteq> length ?xs" using ne by (cases ?xs rule: rev_cases) auto
    with False show ?thesis by (auto simp: extract_params_def pat dest: arg_cong [of _ _ length])
  qed
qed

lemma first_match_append:
  "first_match (rs @ rs') q = (case first_match rs q of Some x \<Rightarrow> Some x | None \<Rightarrow> first_match rs' q)"
  by (induction rs) (auto split: option.splits)

theorem resource_routes:
  assumes plain: "\<forall>p \<in> set (split_on (CHR ''/'') path). \<not> is_param p"
  shows "router_handle (add_resource path index shw create updat delete ro) q s =
    (case first_match (ro_routes ro) q of
       Some (r, ps) \<Rightarrow> route_execute r q ps s
     | None \<Rightarrow>
         (case resource_answer path index shw create updat delete q s of
            Some a \<Rightarrow> a | None \<Rightarrow> no_route (ro_not_found ro) q s))"
proof -
  have item: "butlast (split_on (CHR ''/'') path) \<noteq> split_on (CHR ''/'') path"
  proof
    assume "butlast (split_on (CHR ''/'') path) = split_on (CHR ''/'') path"
    then have "length (split_on (CHR ''/'') path) - 1 = length (split_on (CHR ''/'') path)"
      by (metis length_butlast)
    then show False by (cases "split_on (CHR ''/'') path") auto
  qed
  show ?thesis
    by (cases "rq_method q")
      (auto simp: router_handle_def add_resource_def on_method_def add_route_def first_match_append route_new_def
        route_matches_def extract_plain [OF plain] extract_item [OF plain] route_execute_def resource_answer_def
        Let_def item split: option.splits)
qed

lemma resource_routes_witness:
  "rs_body (router_handle (add_resource ''/users'' (\<lambda>q d s. rs_text ''all'' (response_new StatusOk))
      (\<lambda>q d s. rs_text (the (map_of d ''id'')) (response_new StatusOk))
      (\<lambda>q d s. response_new Created) (\<lambda>q d s. response_new StatusOk) (\<lambda>q d s. response_new NoContent) router_new)
      (request_new ascii GET ''/users/7'' Http1_1 [] []) ()) = ''7''"
proof -
  have plain: "\<forall>p \<in> set (split_on (CHR ''/'') ''/users''). \<not> is_param p"
    by (simp add: is_param_def)
  show ?thesis
    unfolding resource_routes [OF plain]
    by (simp add: router_new_def resource_answer_def request_new_def parse_path_and_query_def rs_text_def
        rs_with_body_def set_content_length_def rs_header_def rs_content_type_def response_new_def)
qed

section \<open>Responses are framed by what their headers hold\<close>

definition clean_header :: "string \<times> string \<Rightarrow> bool" where
  "clean_header h \<longleftrightarrow> CHR 13 \<notin> set (fst h) \<and> CHR 13 \<notin> set (snd h)"

definition response_lines :: "http_response \<Rightarrow> string list" where
  "response_lines r =
     (''HTTP/1.1 '' @ status_text (rs_status r)) # map (\<lambda>h. fst h @ '': '' @ snd h) (rs_headers r)"

lemma to_bytes_lines: "to_bytes r = concat (map (\<lambda>l. l @ crlf) (response_lines r)) @ crlf @ rs_body r"
  by (simp add: to_bytes_def response_lines_def header_line_def [abs_def] comp_def)

lemma show_nat_no_cr: "CHR 13 \<notin> set (show_nat n)"
proof -
  have "\<not> is_digit (CHR 13)" by (simp add: is_digit_def)
  then show ?thesis using show_nat_digits [of n] by (auto simp: list_all_iff)
qed

lemma show_302: "show_nat 302 = ''302''"
  by code_simp

text \<open>
  A response is read back as its status line, its headers and its body if no header holds a carriage
  return; a header value that does can end the headers and put a response of its own behind them.
\<close>

theorem response_framing:
  shows "list_all clean_header (rs_headers r) \<Longrightarrow>
      split_first (crlf @ crlf) (to_bytes r) = Some (crlf_joined (response_lines r), rs_body r)
      \<and> split_crlf (crlf_joined (response_lines r)) = response_lines r"
    and "to_bytes (rs_header ''Location'' (''/'' @ crlf @ crlf @ evil) (rs_redirect ''/''))
      = ''HTTP/1.1 302 Found'' @ crlf @ ''Connection: close'' @ crlf @ ''Server: Lithair/0.1.0'' @ crlf
        @ ''Location: /'' @ crlf @ crlf @ evil @ crlf @ crlf"
proof -
  assume clean: "list_all clean_header (rs_headers r)"
  have "CHR 13 \<notin> set (reason_phrase (rs_status r))" by (cases "rs_status r") simp_all
  then have lines: "list_all (\<lambda>l. l \<noteq> [] \<and> CHR 13 \<notin> set l) (response_lines r)"
    using clean show_nat_no_cr by (auto simp: response_lines_def status_text_def clean_header_def list_all_iff)
  have ne: "response_lines r \<noteq> []" by (simp add: response_lines_def)
  have "list_all (\<lambda>l. CHR 13 \<notin> set l) (response_lines r)" using lines by (simp add: list_all_iff)
  with split_head [OF ne lines, of "rs_body r"] split_crlf_joined [OF ne]
  show "split_first (crlf @ crlf) (to_bytes r) = Some (crlf_joined (response_lines r), rs_body r)
      \<and> split_crlf (crlf_joined (response_lines r)) = response_lines r"
    by (simp add: to_bytes_lines)
next
  show "to_bytes (rs_header ''Location'' (''/'' @ crlf @ crlf @ evil) (rs_redirect ''/''))
      = ''HTTP/1.1 302 Found'' @ crlf @ ''Connection: close'' @ crlf @ ''Server: Lithair/0.1.0'' @ crlf
        @ ''Location: /'' @ crlf @ crlf @ evil @ crlf @ crlf"
    by (simp add: to_bytes_def rs_header_def rs_redirect_def response_new_def status_text_def header_line_def
        show_302)
qed

lemma response_framing_witness:
  "split_crlf (crlf_joined (response_lines (rs_text ''x'' (response_new StatusOk))))
     = response_lines (rs_text ''x'' (response_new StatusOk))"
proof -
  have "list_all clean_header (rs_headers (rs_text ''x'' (response_new StatusOk)))"
    by (simp add: rs_text_def rs_with_body_def set_content_length_def rs_header_def rs_content_type_def
        response_new_def clean_header_def show_nat_no_cr)
  from response_framing(1) [OF this] show ?thesis by simp
qed

end
