(* ===== verification/OptimizedStorage.thy ===== *)
theory OptimizedStorage
  imports EventFile
begin

text \<open>
  The optimised event storage, from \<^verbatim>\<open>lithair-core/src/engine/persistence_optimized.rs\<close>: a thread that
  takes commands from a channel and writes events through a buffer, and the storage in front of it.
  A turn of the thread is one pass of its loop; the times at which it reads the clock are arguments. The
  file is what the operating system holds, of which the first \<open>bf_synced\<close> bytes are on the disk. The events
  file can be opened and writes succeed. The binary encoding of an event is an argument.
\<close>

section \<open>The buffered file\<close>

record buffered_file =
  bf_buffer :: string
  bf_file :: string
  bf_synced :: nat

definition bw_flush :: "buffered_file \<Rightarrow> buffered_file" where
  "bw_flush f = f\<lparr>bf_file := bf_file f @ bf_buffer f, bf_buffer := []\<rparr>"

text \<open>\<open>BufWriter::write_all\<close>: what does not fit flushes, what is as large as the buffer goes past it.\<close>

definition bw_write :: "nat \<Rightarrow> string \<Rightarrow> buffered_file \<Rightarrow> buffered_file" where
  "bw_write cap d f =
     (let f1 = (if cap < length (bf_buffer f) + length d then bw_flush f else f) in
      if cap \<le> length d then (bw_flush f1)\<lparr>bf_file := bf_file (bw_flush f1) @ d\<rparr>
      else f1\<lparr>bf_buffer := bf_buffer f1 @ d\<rparr>)"

definition sync_all :: "buffered_file \<Rightarrow> buffered_file" where
  "sync_all f = f\<lparr>bf_synced := length (bf_file f)\<rparr>"

section \<open>The writer thread\<close>

record optimized_config =
  oc_buffer_size :: nat
  oc_flush_interval_ms :: int
  oc_max_events_buffer :: nat
  oc_enable_binary_format :: bool
  oc_fsync_enabled :: bool
  oc_enable_checksums :: bool

definition optimized_config_default :: optimized_config where
  "optimized_config_default =
     \<lparr>oc_buffer_size = 1024 * 1024, oc_flush_interval_ms = 100, oc_max_events_buffer = 1000,
      oc_enable_binary_format = False, oc_fsync_enabled = True, oc_enable_checksums = True\<rparr>"

datatype write_command = WriteJson string | WriteBinary string | CmdFlush | CmdShutdown

record writer_thread =
  wt_file :: buffered_file
  wt_event_count :: nat
  wt_last_flush :: int
  wt_running :: bool

definition thread_start :: "string \<Rightarrow> int \<Rightarrow> writer_thread" where
  "thread_start c now =
     \<lparr>wt_file = \<lparr>bf_buffer = [], bf_file = c, bf_synced = length c\<rparr>, wt_event_count = 0,
      wt_last_flush = now, wt_running = True\<rparr>"

definition flush_buffer :: "bool \<Rightarrow> int \<Rightarrow> writer_thread \<Rightarrow> writer_thread" where
  "flush_buffer fsync now w =
     (if 0 < wt_event_count w then
        w\<lparr>wt_file := (if fsync then sync_all (bw_flush (wt_file w)) else bw_flush (wt_file w)),
          wt_event_count := 0, wt_last_flush := now\<rparr>
      else w)"

definition write_bytes :: "optimized_config \<Rightarrow> string \<Rightarrow> writer_thread \<Rightarrow> writer_thread" where
  "write_bytes cfg d w =
     w\<lparr>wt_file := bw_write (oc_buffer_size cfg) [newline] (bw_write (oc_buffer_size cfg) d (wt_file w)),
       wt_event_count := wt_event_count w + 1\<rparr>"

definition line_of :: "(string \<Rightarrow> u32) \<Rightarrow> optimized_config \<Rightarrow> string \<Rightarrow> string" where
  "line_of crc cfg json = (if oc_enable_checksums cfg then format_event_with_crc32 crc json else json)"

definition auto_flush :: "optimized_config \<Rightarrow> int \<Rightarrow> int \<Rightarrow> writer_thread \<Rightarrow> writer_thread" where
  "auto_flush cfg t t' w =
     (if oc_max_events_buffer cfg \<le> wt_event_count w \<or> oc_flush_interval_ms cfg \<le> t - wt_last_flush w
      then flush_buffer (oc_fsync_enabled cfg) t' w else w)"

text \<open>
  One pass of the loop. \<open>None\<close> is the timeout of the channel; \<open>t0\<close> is the time of a flush by command, \<open>t1\<close> when
  the age of the last flush is read, \<open>t2\<close> that of the flush it leads to. Leaving the loop drops the buffered
  writer, which writes its buffer.
\<close>

definition writer_turn ::
  "(string \<Rightarrow> u32) \<Rightarrow> optimized_config \<Rightarrow> write_command option \<Rightarrow> int \<times> int \<times> int \<Rightarrow> writer_thread \<Rightarrow> writer_thread" where
  "writer_turn crc cfg cmd ts w =
     (case ts of (t0, t1, t2) \<Rightarrow>
        (case cmd of
           None \<Rightarrow> auto_flush cfg t1 t2 w
         | Some (WriteJson json) \<Rightarrow> auto_flush cfg t1 t2 (write_bytes cfg (line_of crc cfg json) w)
         | Some (WriteBinary d) \<Rightarrow> auto_flush cfg t1 t2 (write_bytes cfg d w)
         | Some CmdFlush \<Rightarrow> auto_flush cfg t1 t2 (flush_buffer (oc_fsync_enabled cfg) t0 w)
         | Some CmdShutdown \<Rightarrow>
             (let w1 = flush_buffer True t0 w in w1\<lparr>wt_file := bw_flush (wt_file w1), wt_running := False\<rparr>)))"

section \<open>The storage\<close>

record optimized_storage =
  st_config :: optimized_config
  st_queue :: "write_command list"
  st_thread :: writer_thread
  st_snapshot :: "string option"

datatype storage_error = PersistenceError string | SerializationError string

definition new_with_config :: "optimized_config \<Rightarrow> string \<Rightarrow> string option \<Rightarrow> int \<Rightarrow> optimized_storage" where
  "new_with_config cfg events snapshot now =
     \<lparr>st_config = cfg, st_queue = [], st_thread = thread_start events now, st_snapshot = snapshot\<rparr>"

definition send_command :: "write_command \<Rightarrow> string \<Rightarrow> optimized_storage \<Rightarrow> (storage_error + unit) \<times> optimized_storage" where
  "send_command c msg s =
     (if wt_running (st_thread s) then (Inr (), s\<lparr>st_queue := st_queue s @ [c]\<rparr>)
      else (Inl (PersistenceError msg), s))"

definition append_event_optimized :: "string \<Rightarrow> optimized_storage \<Rightarrow> (storage_error + unit) \<times> optimized_storage" where
  "append_event_optimized json = send_command (WriteJson json) ''Failed to send event to writer: ''"

definition append_binary_event ::
  "('e \<Rightarrow> string option) \<Rightarrow> 'e \<Rightarrow> optimized_storage \<Rightarrow> (storage_error + unit) \<times> optimized_storage" where
  "append_binary_event enc e s =
     (if \<not> oc_enable_binary_format (st_config s) then (Inl (PersistenceError ''Binary format not enabled''), s)
      else case enc e of
          None \<Rightarrow> (Inl (SerializationError ''Failed to serialize event: ''), s)
        | Some d \<Rightarrow> send_command (WriteBinary d) ''Failed to send binary event to writer: '' s)"

definition storage_flush :: "optimized_storage \<Rightarrow> (storage_error + unit) \<times> optimized_storage" where
  "storage_flush = send_command CmdFlush ''Failed to send flush command: ''"

definition thread_turn :: "(string \<Rightarrow> u32) \<Rightarrow> int \<times> int \<times> int \<Rightarrow> optimized_storage \<Rightarrow> optimized_storage" where
  "thread_turn crc ts s =
     (if \<not> wt_running (st_thread s) then s
      else case st_queue s of
          [] \<Rightarrow> s\<lparr>st_thread := writer_turn crc (st_config s) None ts (st_thread s)\<rparr>
        | c # cs \<Rightarrow> s\<lparr>st_queue := cs, st_thread := writer_turn crc (st_config s) (Some c) ts (st_thread s)\<rparr>)"

text \<open>Reading sees what the operating system holds; \<open>utf8\<close> says whether it is text.\<close>

definition read_all_events :: "(string \<Rightarrow> bool) \<Rightarrow> optimized_storage \<Rightarrow> storage_error + string list" where
  "read_all_events utf8 s =
     (let c = bf_file (wt_file (st_thread s)) in
      if \<not> utf8 c then Inl (PersistenceError ''Failed to read events file: '')
      else Inr (filter (\<lambda>l. trim l \<noteq> []) (text_lines c)))"

definition save_snapshot :: "string \<Rightarrow> optimized_storage \<Rightarrow> optimized_storage" where
  "save_snapshot json s = s\<lparr>st_snapshot := Some json\<rparr>"

definition load_snapshot :: "optimized_storage \<Rightarrow> string option" where
  "load_snapshot s = st_snapshot s"

text \<open>
  Dropping the storage sends the command and waits for the thread, which takes all that is in the channel
  first; \<open>clk i\<close> are the times of the pass that takes the \<open>i\<close>-th command.
\<close>

primrec take_turns :: "(string \<Rightarrow> u32) \<Rightarrow> (nat \<Rightarrow> int \<times> int \<times> int) \<Rightarrow> nat \<Rightarrow> optimized_storage \<Rightarrow> optimized_storage" where
  "take_turns crc clk 0 s = s"
| "take_turns crc clk (Suc n) s = thread_turn crc (clk n) (take_turns crc clk n s)"

definition storage_shutdown :: "(string \<Rightarrow> u32) \<Rightarrow> (nat \<Rightarrow> int \<times> int \<times> int) \<Rightarrow> optimized_storage \<Rightarrow> optimized_storage" where
  "storage_shutdown crc clk s =
     (let s1 = snd (send_command CmdShutdown ''Failed to send shutdown command: '' s)
      in take_turns crc clk (length (st_queue s1)) s1)"

section \<open>Clients and thread\<close>

datatype 'e storage_action =
    AppendJson string
  | AppendBinary 'e
  | RequestFlush
  | Turn "int \<times> int \<times> int"

definition act :: "(string \<Rightarrow> u32) \<Rightarrow> ('e \<Rightarrow> string option) \<Rightarrow> 'e storage_action \<Rightarrow> optimized_storage \<Rightarrow> optimized_storage" where
  "act crc enc a s =
     (case a of
        AppendJson json \<Rightarrow> snd (append_event_optimized json s)
      | AppendBinary e \<Rightarrow> snd (append_binary_event enc e s)
      | RequestFlush \<Rightarrow> snd (storage_flush s)
      | Turn ts \<Rightarrow> thread_turn crc ts s)"

definition acts :: "(string \<Rightarrow> u32) \<Rightarrow> ('e \<Rightarrow> string option) \<Rightarrow> 'e storage_action list \<Rightarrow> optimized_storage \<Rightarrow> optimized_storage" where
  "acts crc enc as s = fold (act crc enc) as s"

text \<open>The bytes of the events that were accepted, in order.\<close>

fun command_bytes :: "(string \<Rightarrow> u32) \<Rightarrow> optimized_config \<Rightarrow> write_command \<Rightarrow> string list" where
  "command_bytes crc cfg (WriteJson json) = [line_of crc cfg json @ [newline]]"
| "command_bytes crc cfg (WriteBinary d) = [d @ [newline]]"
| "command_bytes crc cfg CmdFlush = []"
| "command_bytes crc cfg CmdShutdown = []"

definition accepted_bytes ::
  "(string \<Rightarrow> u32) \<Rightarrow> ('e \<Rightarrow> string option) \<Rightarrow> optimized_config \<Rightarrow> 'e storage_action list \<Rightarrow> string list" where
  "accepted_bytes crc enc cfg as =
     concat (map (\<lambda>a. case a of
         AppendJson json \<Rightarrow> [line_of crc cfg json @ [newline]]
       | AppendBinary e \<Rightarrow>
           (if oc_enable_binary_format cfg then (case enc e of Some d \<Rightarrow> [d @ [newline]] | None \<Rightarrow> []) else [])
       | RequestFlush \<Rightarrow> [] | Turn _ \<Rightarrow> []) as)"

lemma bw_flush_content [simp]:
  "bf_file (bw_flush f) = bf_file f @ bf_buffer f" "bf_buffer (bw_flush f) = []"
  "bf_synced (bw_flush f) = bf_synced f"
  by (simp_all add: bw_flush_def)

lemma bw_write_content [simp]:
  "bf_file (bw_write cap d f) @ bf_buffer (bw_write cap d f) = bf_file f @ bf_buffer f @ d"
  by (simp add: bw_write_def Let_def)

lemma bw_write_file:
  "\<exists>x. bf_file (bw_write cap d f) = bf_file f @ x" "bf_synced (bw_write cap d f) = bf_synced f"
  by (auto simp: bw_write_def Let_def)

text \<open>
  What the thread has taken is in the file or the buffer, in order; all but the events counted since the last flush
  are in the file, and on the disk if the thread synchronises.
\<close>

definition thread_inv :: "optimized_config \<Rightarrow> string \<Rightarrow> string list \<Rightarrow> writer_thread \<Rightarrow> bool" where
  "thread_inv cfg c0 es w \<longleftrightarrow>
     bf_file (wt_file w) @ bf_buffer (wt_file w) = c0 @ concat es
     \<and> wt_event_count w \<le> length es
     \<and> length (c0 @ concat (take (length es - wt_event_count w) es)) \<le> length (bf_file (wt_file w))
     \<and> (oc_fsync_enabled cfg \<longrightarrow> length (c0 @ concat (take (length es - wt_event_count w) es)) \<le> bf_synced (wt_file w))
     \<and> wt_running w"

definition below_limit :: "optimized_config \<Rightarrow> writer_thread \<Rightarrow> bool" where
  "below_limit cfg w \<longleftrightarrow> wt_event_count w < max 1 (oc_max_events_buffer cfg)"

lemma thread_inv_flush:
  assumes "thread_inv cfg c0 es w"
  shows "thread_inv cfg c0 es (flush_buffer (oc_fsync_enabled cfg) t w)"
proof -
  have "length (bf_file (wt_file w) @ bf_buffer (wt_file w)) = length (c0 @ concat es)"
    using assms by (simp add: thread_inv_def)
  with assms show ?thesis by (auto simp: thread_inv_def flush_buffer_def sync_all_def)
qed

lemma flush_resets: "wt_event_count (flush_buffer b t w) = 0"
  by (simp add: flush_buffer_def)

lemma thread_inv_auto:
  "thread_inv cfg c0 es w \<Longrightarrow> thread_inv cfg c0 es (auto_flush cfg t t' w)"
  by (simp add: auto_flush_def thread_inv_flush)

lemma auto_below: "below_limit cfg (auto_flush cfg t t' w)"
  by (auto simp: below_limit_def auto_flush_def flush_resets)

lemma thread_inv_write:
  assumes "thread_inv cfg c0 es w"
  shows "thread_inv cfg c0 (es @ [d @ [newline]]) (write_bytes cfg d w)"
proof -
  let ?cap = "oc_buffer_size cfg"
  let ?f = "bw_write ?cap [newline] (bw_write ?cap d (wt_file w))"
  obtain x y where "bf_file (bw_write ?cap d (wt_file w)) = bf_file (wt_file w) @ x"
    "bf_file ?f = bf_file (bw_write ?cap d (wt_file w)) @ y"
    using bw_write_file(1) by meson
  then have len: "length (bf_file (wt_file w)) \<le> length (bf_file ?f)" by simp
  have synced: "bf_synced ?f = bf_synced (wt_file w)" by (simp add: bw_write_file(2))
  have "bf_file ?f @ bf_buffer ?f = bf_file (wt_file w) @ bf_buffer (wt_file w) @ d @ [newline]"
    by (metis append.assoc bw_write_content)
  also have "\<dots> = c0 @ concat es @ d @ [newline]"
    using assms by (simp add: thread_inv_def flip: append_assoc)
  finally have content: "bf_file ?f @ bf_buffer ?f = c0 @ concat es @ d @ [newline]" .
  show ?thesis
    using assms len synced content by (auto simp: thread_inv_def write_bytes_def)
qed

definition storage_inv ::
  "(string \<Rightarrow> u32) \<Rightarrow> optimized_config \<Rightarrow> string \<Rightarrow> string list \<Rightarrow> string list \<Rightarrow> optimized_storage \<Rightarrow> bool" where
  "storage_inv crc cfg c0 es taken s \<longleftrightarrow>
     es = taken @ concat (map (command_bytes crc cfg) (st_queue s)) \<and> CmdShutdown \<notin> set (st_queue s)
     \<and> thread_inv cfg c0 taken (st_thread s) \<and> below_limit cfg (st_thread s) \<and> st_config s = cfg"

lemma storage_inv_new:
  "storage_inv crc cfg c0 [] [] (new_with_config cfg c0 sn now)"
  by (simp add: storage_inv_def new_with_config_def thread_start_def thread_inv_def below_limit_def)

lemma storage_inv_send:
  assumes "storage_inv crc cfg c0 es taken s" and "c \<noteq> CmdShutdown"
  shows "storage_inv crc cfg c0 (es @ command_bytes crc cfg c) taken (snd (send_command c msg s))"
  using assms by (auto simp: storage_inv_def send_command_def thread_inv_def)

lemma turn_taken:
  assumes "thread_inv cfg c0 es w" and "c \<noteq> Some CmdShutdown"
  shows "thread_inv cfg c0 (es @ (case c of None \<Rightarrow> [] | Some c \<Rightarrow> command_bytes crc cfg c)) (writer_turn crc cfg c ts w)
    \<and> below_limit cfg (writer_turn crc cfg c ts w)"
proof -
  obtain t0 t1 t2 where ts: "ts = (t0, t1, t2)" by (cases ts)
  show ?thesis
  proof (cases c)
    case None
    with assms show ?thesis by (simp add: writer_turn_def ts thread_inv_auto auto_below)
  next
    case (Some k)
    with assms show ?thesis
      by (cases k) (simp_all add: writer_turn_def ts thread_inv_auto auto_below thread_inv_write thread_inv_flush)
  qed
qed

lemma storage_inv_turn:
  assumes "storage_inv crc cfg c0 es taken s"
  shows "\<exists>taken'. storage_inv crc cfg c0 es taken' (thread_turn crc ts s)"
proof -
  from assms have run: "wt_running (st_thread s)" by (simp add: storage_inv_def thread_inv_def)
  show ?thesis
  proof (cases "st_queue s")
    case Nil
    then have "storage_inv crc cfg c0 es taken (thread_turn crc ts s)"
      using assms run turn_taken [of cfg c0 taken "st_thread s" None crc ts]
      by (simp add: storage_inv_def thread_turn_def)
    then show ?thesis by blast
  next
    case (Cons c cs)
    then have "storage_inv crc cfg c0 es (taken @ command_bytes crc cfg c) (thread_turn crc ts s)"
      using assms run turn_taken [of cfg c0 taken "st_thread s" "Some c" crc ts]
      by (auto simp: storage_inv_def thread_turn_def)
    then show ?thesis by blast
  qed
qed

lemma accepted_snoc:
  "accepted_bytes crc enc cfg (as @ [a]) = accepted_bytes crc enc cfg as @ accepted_bytes crc enc cfg [a]"
  by (simp add: accepted_bytes_def)

lemma storage_inv_act:
  assumes inv: "storage_inv crc cfg c0 es taken s"
  shows "\<exists>taken'. storage_inv crc cfg c0 (es @ accepted_bytes crc enc cfg [a]) taken' (act crc enc a s)"
proof -
  have cfg: "st_config s = cfg" using inv by (simp add: storage_inv_def)
  show ?thesis
  proof (cases a)
    case (AppendJson json)
    with storage_inv_send [OF inv, of "WriteJson json"] show ?thesis
      by (auto simp: act_def append_event_optimized_def accepted_bytes_def)
  next
    case (AppendBinary e)
    show ?thesis
    proof (cases "oc_enable_binary_format cfg \<and> enc e \<noteq> None")
      case True
      then obtain d where "enc e = Some d" by blast
      with storage_inv_send [OF inv, of "WriteBinary d"] True AppendBinary show ?thesis
        by (auto simp: act_def append_binary_event_def cfg accepted_bytes_def)
    next
      case False
      with AppendBinary inv show ?thesis
        by (auto simp: act_def append_binary_event_def cfg accepted_bytes_def split: option.splits)
    qed
  next
    case RequestFlush
    with storage_inv_send [OF inv, of CmdFlush] show ?thesis
      by (auto simp: act_def storage_flush_def accepted_bytes_def)
  next
    case (Turn ts)
    with storage_inv_turn [OF inv, of ts] show ?thesis by (simp add: act_def accepted_bytes_def)
  qed
qed

lemma storage_inv_acts:
  "\<exists>taken. storage_inv crc cfg c0 (accepted_bytes crc enc cfg as) taken
     (acts crc enc as (new_with_config cfg c0 sn now))"
proof (induction as rule: rev_induct)
  case Nil
  show ?case using storage_inv_new [of crc cfg c0 sn now] by (auto simp: acts_def accepted_bytes_def)
next
  case (snoc a as)
  then obtain taken where "storage_inv crc cfg c0 (accepted_bytes crc enc cfg as) taken
      (acts crc enc as (new_with_config cfg c0 sn now))" by blast
  from storage_inv_act [OF this, of enc a] show ?case by (simp add: acts_def accepted_snoc)
qed

text \<open>What is lost in a crash: of the events taken from the channel fewer than the limit of the buffer.\<close>

theorem crash_loses_few:
  "\<exists>kept lost. accepted_bytes crc enc cfg as
       = kept @ lost @ concat (map (command_bytes crc cfg) (st_queue (acts crc enc as (new_with_config cfg c0 sn now))))
     \<and> length lost < max 1 (oc_max_events_buffer cfg)
     \<and> take (length (c0 @ concat kept)) (bf_file (wt_file (st_thread (acts crc enc as (new_with_config cfg c0 sn now)))))
         = c0 @ concat kept
     \<and> (oc_fsync_enabled cfg \<longrightarrow> length (c0 @ concat kept)
          \<le> bf_synced (wt_file (st_thread (acts crc enc as (new_with_config cfg c0 sn now)))))"
proof -
  let ?s = "acts crc enc as (new_with_config cfg c0 sn now)"
  obtain taken where inv: "storage_inv crc cfg c0 (accepted_bytes crc enc cfg as) taken ?s"
    using storage_inv_acts by blast
  let ?w = "st_thread ?s"
  let ?k = "length taken - wt_event_count ?w"
  have ti: "thread_inv cfg c0 taken ?w" using inv by (simp add: storage_inv_def)
  let ?p = "c0 @ concat (take ?k taken)" and ?file = "bf_file (wt_file ?w)"
  have len: "length ?p \<le> length ?file" and content: "?file @ bf_buffer (wt_file ?w) = c0 @ concat taken"
    using ti by (simp_all add: thread_inv_def)
  have "c0 @ concat taken = ?p @ concat (drop ?k taken)"
    by (simp flip: concat_append)
  with content have "?file @ bf_buffer (wt_file ?w) = ?p @ concat (drop ?k taken)" by simp
  from arg_cong [OF this, of "take (length ?p)"]
  have prefix: "take (length ?p) ?file = ?p"
    by (simp only: take_append [of "length ?p" ?file] take_append [of "length ?p" ?p]) (use len in simp)
  have "accepted_bytes crc enc cfg as
      = take ?k taken @ drop ?k taken @ concat (map (command_bytes crc cfg) (st_queue ?s))"
    using inv by (simp add: storage_inv_def)
  moreover have "length (drop ?k taken) < max 1 (oc_max_events_buffer cfg)"
    using inv ti by (simp add: storage_inv_def below_limit_def thread_inv_def)
  moreover have "oc_fsync_enabled cfg \<longrightarrow> length (c0 @ concat (take ?k taken)) \<le> bf_synced (wt_file ?w)"
    using ti by (simp add: thread_inv_def)
  ultimately show ?thesis using prefix by blast
qed

lemma shutdown_queue:
  assumes "storage_inv crc cfg c0 es taken s" and "n \<le> length (st_queue s)"
  shows "\<exists>taken'. storage_inv crc cfg c0 es taken'
     ((take_turns crc clk n (s\<lparr>st_queue := st_queue s @ [CmdShutdown]\<rparr>))
        \<lparr>st_queue := drop n (st_queue s)\<rparr>)
    \<and> st_queue (take_turns crc clk n (s\<lparr>st_queue := st_queue s @ [CmdShutdown]\<rparr>)) = drop n (st_queue s) @ [CmdShutdown]"
  using assms(2)
proof (induction n)
  case 0
  then show ?case using assms(1) by auto
next
  case (Suc n)
  let ?s = "take_turns crc clk n (s\<lparr>st_queue := st_queue s @ [CmdShutdown]\<rparr>)"
  from Suc obtain taken' where inv: "storage_inv crc cfg c0 es taken' (?s\<lparr>st_queue := drop n (st_queue s)\<rparr>)"
    and q: "st_queue ?s = drop n (st_queue s) @ [CmdShutdown]" by auto
  obtain c cs where c: "drop n (st_queue s) = c # cs" "cs = drop (Suc n) (st_queue s)"
    using Suc.prems by (metis Cons_nth_drop_Suc Suc_le_lessD)
  have run: "wt_running (st_thread ?s)" using inv by (simp add: storage_inv_def thread_inv_def)
  have "thread_turn crc (clk n) (?s\<lparr>st_queue := drop n (st_queue s)\<rparr>)
      = (thread_turn crc (clk n) ?s)\<lparr>st_queue := cs\<rparr>"
    using run q c by (simp add: thread_turn_def)
  with storage_inv_turn [OF inv, of "clk n"] obtain t2 where
    "storage_inv crc cfg c0 es t2 ((thread_turn crc (clk n) ?s)\<lparr>st_queue := cs\<rparr>)" by auto
  moreover have "st_queue (thread_turn crc (clk n) ?s) = cs @ [CmdShutdown]"
    using run q c by (simp add: thread_turn_def)
  ultimately show ?case using c(2) by auto
qed

lemma shutdown_content:
  assumes "storage_inv crc cfg c0 es taken s"
  shows "wt_file (st_thread (storage_shutdown crc clk s))
    = \<lparr>bf_buffer = [], bf_file = c0 @ concat es,
       bf_synced = bf_synced (wt_file (st_thread (storage_shutdown crc clk s)))\<rparr>"
    and "oc_fsync_enabled cfg \<Longrightarrow>
      bf_synced (wt_file (st_thread (storage_shutdown crc clk s))) \<ge> length (c0 @ concat es)"
proof -
  let ?n = "length (st_queue s)"
  let ?s0 = "s\<lparr>st_queue := st_queue s @ [CmdShutdown]\<rparr>"
  let ?s = "take_turns crc clk ?n ?s0"
  have run: "wt_running (st_thread s)" using assms by (simp add: storage_inv_def thread_inv_def)
  from shutdown_queue [OF assms, of ?n clk] obtain taken' where
    inv: "storage_inv crc cfg c0 es taken' (?s\<lparr>st_queue := []\<rparr>)" and q: "st_queue ?s = [CmdShutdown]" by auto
  have ti: "thread_inv cfg c0 es (st_thread ?s)" using inv by (simp add: storage_inv_def)
  then have run2: "wt_running (st_thread ?s)" by (simp add: thread_inv_def)
  obtain t0 t1 t2 where t: "clk ?n = (t0, t1, t2)" by (cases "clk ?n")
  have final: "wt_file (st_thread (storage_shutdown crc clk s)) = bw_flush (wt_file (flush_buffer True t0 (st_thread ?s)))"
    using run run2 q by (simp add: storage_shutdown_def send_command_def thread_turn_def writer_turn_def t Let_def)
  have content: "bf_file (wt_file (st_thread ?s)) @ bf_buffer (wt_file (st_thread ?s)) = c0 @ concat es"
    using ti by (simp add: thread_inv_def)
  have whole: "bf_file (wt_file (st_thread (storage_shutdown crc clk s))) = c0 @ concat es"
    using content by (simp add: final flush_buffer_def sync_all_def)
  then show "wt_file (st_thread (storage_shutdown crc clk s))
    = \<lparr>bf_buffer = [], bf_file = c0 @ concat es,
       bf_synced = bf_synced (wt_file (st_thread (storage_shutdown crc clk s)))\<rparr>"
    by (simp add: final)
  show "bf_synced (wt_file (st_thread (storage_shutdown crc clk s))) \<ge> length (c0 @ concat es)"
    if "oc_fsync_enabled cfg"
  proof (cases "wt_event_count (st_thread ?s) = 0")
    case True
    with ti that show ?thesis by (simp add: final flush_buffer_def thread_inv_def)
  next
    case False
    have "length (bf_file (wt_file (st_thread ?s)) @ bf_buffer (wt_file (st_thread ?s))) = length (c0 @ concat es)"
      by (simp only: content)
    with False show ?thesis by (simp add: final flush_buffer_def sync_all_def)
  qed
qed

text \<open>A flush that was accepted has reached nothing: neither the thread nor the file has changed.\<close>

theorem flush_only_asks:
  "st_thread (snd (storage_flush s)) = st_thread s"
  "read_all_events utf8 (snd (storage_flush s)) = read_all_events utf8 s"
  by (simp_all add: storage_flush_def send_command_def read_all_events_def Let_def)

text \<open>
  Dropping the storage leaves everything that was accepted in the file, in order, and on the disk when the thread
  synchronises.
\<close>

theorem drop_writes_all:
  "bf_file (wt_file (st_thread (storage_shutdown crc clk (acts crc enc as (new_with_config cfg c0 sn now)))))
     = c0 @ concat (accepted_bytes crc enc cfg as)
   \<and> (oc_fsync_enabled cfg \<longrightarrow>
        length (c0 @ concat (accepted_bytes crc enc cfg as))
          \<le> bf_synced (wt_file (st_thread (storage_shutdown crc clk (acts crc enc as (new_with_config cfg c0 sn now))))))"
proof -
  obtain taken where inv: "storage_inv crc cfg c0 (accepted_bytes crc enc cfg as) taken
      (acts crc enc as (new_with_config cfg c0 sn now))"
    using storage_inv_acts by blast
  show ?thesis
    using arg_cong [OF shutdown_content(1) [OF inv, of clk], of bf_file] shutdown_content(2) [OF inv, of clk]
    by simp
qed

definition line_ok :: "string \<Rightarrow> bool" where
  "line_ok e \<longleftrightarrow> newline \<notin> set e \<and> e \<noteq> [] \<and> last e \<noteq> CHR 13 \<and> trim e \<noteq> []"

lemma text_lines_lines:
  "list_all line_ok ls \<Longrightarrow> text_lines (concat (map (\<lambda>l. l @ [newline]) ls)) = ls"
  by (induction ls) (simp_all add: text_lines_frame line_ok_def strip_cr_def)

lemma trim_has: "c \<in> set s \<Longrightarrow> \<not> is_space c \<Longrightarrow> trim s \<noteq> []"
proof
  assume c: "c \<in> set s" "\<not> is_space c" and "trim s = []"
  then have "\<forall>d \<in> set (dropWhile is_space s). is_space d"
    by (simp add: trim_def dropWhile_eq_Nil_conv)
  moreover have "c \<in> set (dropWhile is_space s)" using c by (induction s) auto
  ultimately show False using c(2) by blast
qed

lemma hex8_no_newline: "newline \<notin> set (hex8 w)"
  using hex8_plain(2) [of newline w] by (auto simp: newline_def)

lemma zero_line: "line_of (\<lambda>s. 0) optimized_config_default ''{}'' = ''00000000:{}''"
proof -
  have "hex8 0 = ''00000000''" by code_simp
  then show ?thesis by (simp add: line_of_def optimized_config_default_def format_event_with_crc32_def)
qed

lemma line_of_ok: "line_ok e \<Longrightarrow> line_ok (line_of crc cfg e)"
  using hex8_no_newline trim_has [of "CHR '':''" "line_of crc cfg e"]
  by (auto simp: line_ok_def line_of_def format_event_with_crc32_def newline_def is_space_def)

text \<open>
  A storage that is opened again reads the events as lines; with checksums, which are on by default, each line still
  has its checksum in front, so that none is the event that was appended.
\<close>

theorem events_read_back:
  assumes "list_all line_ok es" and "utf8 (concat (map (\<lambda>e. line_of crc cfg e @ [newline]) es))"
  shows "read_all_events utf8 (storage_shutdown crc clk
      (acts crc enc (map AppendJson es) (new_with_config cfg [] sn now))) = Inr (map (line_of crc cfg) es)"
    and "oc_enable_checksums cfg \<Longrightarrow> line_of crc cfg e \<noteq> e"
proof -
  have bytes: "concat (accepted_bytes crc enc cfg (map AppendJson es)) = concat (map (\<lambda>e. line_of crc cfg e @ [newline]) es)"
    by (simp add: accepted_bytes_def comp_def)
  have lines: "list_all line_ok (map (line_of crc cfg) es)"
    using assms(1) line_of_ok by (auto simp: list_all_iff)
  obtain taken where inv: "storage_inv crc cfg [] (accepted_bytes crc enc cfg (map AppendJson es)) taken
      (acts crc enc (map AppendJson es) (new_with_config cfg [] sn now))"
    using storage_inv_acts by blast
  have content: "bf_file (wt_file (st_thread (storage_shutdown crc clk
      (acts crc enc (map AppendJson es) (new_with_config cfg [] sn now))))) = concat (map (\<lambda>e. line_of crc cfg e @ [newline]) es)"
    using arg_cong [OF shutdown_content(1) [OF inv, of clk], of bf_file] by (simp add: bytes)
  have "text_lines (concat (map (\<lambda>e. line_of crc cfg e @ [newline]) es)) = map (line_of crc cfg) es"
    using text_lines_lines [OF lines] by (simp add: comp_def)
  moreover have "filter (\<lambda>l. trim l \<noteq> []) (map (line_of crc cfg) es) = map (line_of crc cfg) es"
    using lines by (induction es) (simp_all add: line_ok_def)
  ultimately show "read_all_events utf8 (storage_shutdown crc clk
      (acts crc enc (map AppendJson es) (new_with_config cfg [] sn now))) = Inr (map (line_of crc cfg) es)"
    using assms(2) by (simp add: read_all_events_def content)
  show "line_of crc cfg e \<noteq> e" if "oc_enable_checksums cfg"
  proof
    assume "line_of crc cfg e = e"
    then have "length (line_of crc cfg e) = length e" by simp
    with that show False by (simp add: line_of_def format_event_with_crc32_def)
  qed
qed

lemma events_read_back_witness:
  "read_all_events (\<lambda>s. True) (storage_shutdown (\<lambda>s. 0) (\<lambda>i. (0, 0, 0))
     (acts (\<lambda>s. 0) (\<lambda>e::unit. None) (map AppendJson [''{}'']) (new_with_config optimized_config_default [] None 0)))
   = Inr [''00000000:{}'']"
proof -
  have "list_all line_ok [''{}'']"
    by (simp add: line_ok_def newline_def trim_def is_space_def)
  from events_read_back(1) [OF this, of "\<lambda>s. True" "\<lambda>s. 0" optimized_config_default "\<lambda>i. (0, 0, 0)" "\<lambda>e::unit. None" None 0]
  show ?thesis
    by (simp add: zero_line)
qed

lemma drop_writes_all_witness:
  "bf_file (wt_file (st_thread (storage_shutdown (\<lambda>s. 0) (\<lambda>i. (0, 0, 0))
     (acts (\<lambda>s. 0) Some [AppendBinary ''a'', RequestFlush, AppendBinary ''b'']
       (new_with_config (optimized_config_default\<lparr>oc_enable_binary_format := True\<rparr>) [] None 0)))))
   = ''a'' @ [newline] @ ''b'' @ [newline]"
  using drop_writes_all [of "\<lambda>s. 0" "\<lambda>i. (0, 0, 0)" Some "[AppendBinary ''a'', RequestFlush, AppendBinary ''b'']"
      "optimized_config_default\<lparr>oc_enable_binary_format := True\<rparr>" "[]" None 0]
  by (simp add: accepted_bytes_def)

lemma crash_loses_few_witness:
  "\<exists>kept lost. kept @ lost = [''00000000:{}'' @ [newline]] \<and> length lost < 1000"
proof -
  let ?as = "[AppendJson ''{}'', Turn (0, 0, 0)]"
  let ?s = "acts (\<lambda>s. 0) (\<lambda>e::unit. None) ?as (new_with_config optimized_config_default [] None 0)"
  have q: "st_queue ?s = []"
    by (simp add: acts_def act_def append_event_optimized_def send_command_def new_with_config_def thread_start_def
        thread_turn_def)
  obtain kept lost where
    "accepted_bytes (\<lambda>s. 0) (\<lambda>e::unit. None) optimized_config_default ?as
       = kept @ lost @ concat (map (command_bytes (\<lambda>s. 0) optimized_config_default) (st_queue ?s))"
    "length lost < max 1 (oc_max_events_buffer optimized_config_default)"
    using crash_loses_few [of "\<lambda>s. 0" "\<lambda>e::unit. None" optimized_config_default ?as "[]" None 0] by blast
  then have "[''00000000:{}'' @ [newline]] = kept @ lost" "length lost < 1000"
    unfolding q by (simp_all add: accepted_bytes_def zero_line) (simp add: optimized_config_default_def)
  then show ?thesis by metis
qed

end
