(* ===== verification/Background.thy ===== *)
theory Background
  imports Batcher Snapshot
begin

text \<open>
  The background task of a leader, from \<^verbatim>\<open>lithair-core/src/app/mod.rs\<close> (the task that \<open>serve\<close> starts with the
  cluster): every tick it looks for followers that need a snapshot, sends missing entries to those that lag, and
  sends the batch of new entries; with the requests that it spawns, the resync by hand and the reports of the
  cluster's health. What a tick spawns is a list of tasks; their answers arrive later, as operations of
  their own. Instants are milliseconds; \<open>now\<close> is the clock of one tick. The number of ticks between two checks
  and the other settings are those of \<^verbatim>\<open>config/replication.rs\<close>.
\<close>

section \<open>Settings\<close>

record replication_config =
  rc_max_resync_gap :: u64
  rc_max_concurrent_resyncs :: nat
  rc_resync_check_interval_ms :: u64
  rc_snapshot_send_timeout_secs :: u64
  rc_resync_cooldown_secs :: u64

definition replication_config_default :: replication_config where
  "replication_config_default =
     \<lparr>rc_max_resync_gap = 1000, rc_max_concurrent_resyncs = 2, rc_resync_check_interval_ms = 1000,
      rc_snapshot_send_timeout_secs = 30, rc_resync_cooldown_secs = 10\<rparr>"

text \<open>An environment variable that is set but not a number gives the default.\<close>

definition env_u64 :: "string option \<Rightarrow> u64 \<Rightarrow> u64 \<Rightarrow> u64" where
  "env_u64 var dflt old =
     (case var of None \<Rightarrow> old | Some s \<Rightarrow> (case parse_u64 s of Some n \<Rightarrow> n | None \<Rightarrow> dflt))"

definition apply_env_vars :: "(string \<Rightarrow> string option) \<Rightarrow> replication_config \<Rightarrow> replication_config" where
  "apply_env_vars env c =
     c\<lparr>rc_max_resync_gap := env_u64 (env ''LT_MAX_RESYNC_GAP'') 1000 (rc_max_resync_gap c),
       rc_max_concurrent_resyncs :=
         unat (env_u64 (env ''LT_MAX_CONCURRENT_RESYNCS'') 2 (of_nat (rc_max_concurrent_resyncs c))),
       rc_resync_check_interval_ms :=
         env_u64 (env ''LT_RESYNC_CHECK_INTERVAL_MS'') 1000 (rc_resync_check_interval_ms c),
       rc_snapshot_send_timeout_secs :=
         env_u64 (env ''LT_SNAPSHOT_SEND_TIMEOUT_SECS'') 30 (rc_snapshot_send_timeout_secs c),
       rc_resync_cooldown_secs := env_u64 (env ''LT_RESYNC_COOLDOWN_SECS'') 10 (rc_resync_cooldown_secs c)\<rparr>"

section \<open>A tick\<close>

datatype 'j spawned =
    SendSnapshot string u64
  | SendEntries string "'j append_entries_request"

record 'j background =
  bg_batcher :: "'j batcher"
  bg_log :: "'j consensus_log option"
  bg_manager :: "snapshot_manager option"
  bg_counter :: u64
  bg_last_resync :: "(string, nat) dict"
  bg_stats :: resync_stats

text \<open>What the task takes from its server: the serializers of snapshots and the models of that moment.\<close>

record ('j, 'm) snapshot_env =
  se_ser :: "snapshot_data \<Rightarrow> string + bytes"
  se_meta_ser :: "snapshot_meta \<Rightarrow> string + string"
  se_to_text :: "'j list \<Rightarrow> string option"
  se_as_array :: "'m \<Rightarrow> 'j list option"

definition resync_check_ticks :: "replication_config \<Rightarrow> u64" where
  "resync_check_ticks c = rc_resync_check_interval_ms c div 100"

definition cooled_down :: "replication_config \<Rightarrow> nat \<Rightarrow> (string, nat) dict \<Rightarrow> string \<Rightarrow> bool" where
  "cooled_down c now seen p =
     (case map_of seen p of None \<Rightarrow> True | Some t \<Rightarrow> 1000 * unat (rc_resync_cooldown_secs c) \<le> now - t)"

text \<open>The sends of one check: each marks its follower and counts the attempt.\<close>

definition start_sends ::
  "replication_config \<Rightarrow> nat \<Rightarrow> u64 \<Rightarrow> string list \<Rightarrow> 'j background \<Rightarrow> 'j background \<times> 'j spawned list" where
  "start_sends c now commit_ix peers s =
     (s\<lparr>bg_last_resync := fold (\<lambda>p d. AList.update p now d) peers (bg_last_resync s),
        bg_stats := fold (\<lambda>p. record_send_attempt (of_nat now) commit_ix) peers (bg_stats s)\<rparr>,
      map (\<lambda>p. SendSnapshot p (rc_snapshot_send_timeout_secs c)) peers)"

definition resync_check ::
  "replication_config \<Rightarrow> ('j, 'm) snapshot_env \<Rightarrow> nat \<Rightarrow> (string \<times> 'm) list \<Rightarrow> 'k consensus_log
   \<Rightarrow> 'k background \<Rightarrow> 'k background \<times> 'k spawned list" where
  "resync_check c E now models l s =
     (let desynced = get_desynced_followers now (cl_commit_index l) (bg_batcher s);
          eligible = filter (cooled_down c now (bg_last_resync s)) desynced
      in case bg_manager s of
           None \<Rightarrow> (s, [])
         | Some m \<Rightarrow>
             if eligible = [] then (s, [])
             else
               (case create_snapshot_from_models (se_ser E) (se_meta_ser E) (se_to_text E) (se_as_array E)
                       (of_nat now) (cl_current_term l) (cl_commit_index l) models m of
                  (Inl _, m') \<Rightarrow> (s\<lparr>bg_manager := Some m'\<rparr>, [])
                | (Inr _, m') \<Rightarrow>
                    start_sends c now (cl_commit_index l) (take (rc_max_concurrent_resyncs c) eligible)
                      (s\<lparr>bg_manager := Some m', bg_stats := record_snapshot_created (of_nat now) (bg_stats s)\<rparr>)))"

definition entries_request :: "u64 \<Rightarrow> u64 \<Rightarrow> u64 \<Rightarrow> 'j log_entry list \<Rightarrow> 'j append_entries_request" where
  "entries_request tm node_id leader_commit es =
     \<lparr>ar_term = tm, ar_leader_id = node_id, ar_prev_log_index = 0, ar_prev_log_term = 0,
      ar_entries = es, ar_leader_commit = leader_commit\<rparr>"

definition max_entry_index :: "'j log_entry list \<Rightarrow> u64" where
  "max_entry_index es = (if es = [] then 0 else Max (le_index ` set es))"

text \<open>The batch goes to every peer, with its greatest index as the commit index of the leader.\<close>

definition send_batch ::
  "nat \<Rightarrow> u64 \<Rightarrow> u64 \<Rightarrow> string list \<Rightarrow> 'j background \<Rightarrow> 'j background \<times> 'j spawned list" where
  "send_batch now tm node_id peers s =
     (if \<not> should_send_batch now (bg_batcher s) then (s, [])
      else
        let (batch, b) = take_batch now (bg_batcher s); s1 = s\<lparr>bg_batcher := b\<rparr> in
        if batch = [] then (s1, [])
        else (s1, map (\<lambda>p. SendEntries p (entries_request tm node_id (max_entry_index batch) batch)) peers))"

definition background_tick ::
  "replication_config \<Rightarrow> ('j, 'm) snapshot_env \<Rightarrow> u64 \<Rightarrow> string list \<Rightarrow> bool option \<Rightarrow> nat \<Rightarrow> (string \<times> 'm) list
   \<Rightarrow> 'k background \<Rightarrow> 'k background \<times> 'k spawned list" where
  "background_tick c E node_id peers is_leader now models s =
     (if is_leader = Some False then (s, [])
      else case bg_log s of
          None \<Rightarrow> (s, [])
        | Some l \<Rightarrow>
            (let counter = bg_counter s + 1;
                 due = resync_check_ticks c \<le> counter;
                 s1 = s\<lparr>bg_counter := (if due then 0 else counter)\<rparr>;
                 (s2, snaps) = (if due then resync_check c E now models l s1 else (s1, []));
                 missing = catch_up peers (bg_batcher s2) l;
                 (s3, batch) = send_batch now (cl_current_term l) node_id peers s2
             in (s3, snaps
                 @ map (\<lambda>(p, es). SendEntries p (entries_request (cl_current_term l) node_id (cl_commit_index l) es)) missing
                 @ batch)))"

section \<open>Answers\<close>

text \<open>What the task of a snapshot posts, and what its answer changes.\<close>

definition snapshot_to_send :: "snapshot_manager \<Rightarrow> string + snapshot_meta \<times> bytes" where
  "snapshot_to_send m =
     (case sn_current_meta m of
        None \<Rightarrow> Inl ''No snapshot available to send''
      | Some meta \<Rightarrow>
          (case get_snapshot_bytes (sm_last_included_index meta) m of
             Inl e \<Rightarrow> Inl ''Failed to read snapshot bytes: ''
           | Inr b \<Rightarrow> Inr (meta, b)))"

text \<open>\<open>post meta b\<close> is whether the follower answered with success.\<close>

definition send_snapshot_to_follower ::
  "(snapshot_meta \<Rightarrow> bytes \<Rightarrow> bool) \<Rightarrow> snapshot_manager \<Rightarrow> string + unit" where
  "send_snapshot_to_follower post m =
     (case snapshot_to_send m of
        Inl e \<Rightarrow> Inl e
      | Inr (meta, b) \<Rightarrow> if post meta b then Inr () else Inl ''Snapshot send failed'')"

definition snapshot_answered :: "nat \<Rightarrow> string \<Rightarrow> bool \<Rightarrow> 'j background \<Rightarrow> 'j background" where
  "snapshot_answered now p ok s =
     (if ok then
        s\<lparr>bg_stats := record_send_success (of_nat now) (bg_stats s),
          bg_batcher := batcher_record_success now p 0 0 (bg_batcher s)\<rparr>
      else s\<lparr>bg_stats := record_send_failure (of_nat now) (bg_stats s)\<rparr>)"

definition entries_answered ::
  "nat \<Rightarrow> u64 \<Rightarrow> string \<Rightarrow> 'j log_entry list \<Rightarrow> bool \<Rightarrow> 'j background \<Rightarrow> 'j background" where
  "entries_answered now latency p es ok s =
     s\<lparr>bg_batcher := catch_up_answered now latency p es ok (bg_batcher s)\<rparr>"

section \<open>Resync by hand and reports\<close>

text \<open>The first pair of the query whose name is \<open>target\<close>, up to a second equals sign.\<close>

definition query_target :: "string \<Rightarrow> string option" where
  "query_target query =
     List.find (\<lambda>_. True) (List.map_filter (\<lambda>pair.
        case split_on (CHR ''='') pair of k # v # _ \<Rightarrow> if k = ''target'' then Some v else None | _ \<Rightarrow> None)
       (split_on (CHR ''&'') query))"

datatype resync_reply =
    NotTheLeader | MissingTarget | FollowerNotFound string | ResyncDone string | ResyncFailed string string

definition handle_force_resync ::
  "bool option \<Rightarrow> nat \<Rightarrow> string \<Rightarrow> (snapshot_meta \<Rightarrow> bytes \<Rightarrow> bool) \<Rightarrow> 'j background \<Rightarrow> resync_reply \<times> 'j background" where
  "handle_force_resync is_leader now query post s =
     (if is_leader \<noteq> Some True then (NotTheLeader, s)
      else case query_target query of
          None \<Rightarrow> (MissingTarget, s)
        | Some t \<Rightarrow>
            (let (marked, b) = mark_follower_desynced t (bg_batcher s); s1 = s\<lparr>bg_batcher := b\<rparr> in
             if \<not> marked then (FollowerNotFound t, s1)
             else
               (case (case bg_manager s of
                        None \<Rightarrow> Inl ''Snapshot manager not available''
                      | Some m \<Rightarrow> send_snapshot_to_follower post m) of
                  Inr _ \<Rightarrow> (ResyncDone t, s1\<lparr>bg_stats := record_send_success (of_nat now) (bg_stats s1)\<rparr>)
                | Inl e \<Rightarrow> (ResyncFailed t e, s1\<lparr>bg_stats := record_send_failure (of_nat now) (bg_stats s1)\<rparr>))))"

text \<open>\<open>saturating_sub\<close>.\<close>

definition lag_of :: "u64 \<Rightarrow> follower_stats \<Rightarrow> u64" where
  "lag_of commit_ix f =
     (if st_last_replicated_index f \<le> commit_ix then commit_ix - st_last_replicated_index f else 0)"

definition handle_sync_status :: "bool option \<Rightarrow> 'j background \<Rightarrow> (u64 \<times> (follower_stats \<times> u64) list) option" where
  "handle_sync_status is_leader s =
     (if is_leader \<noteq> Some True then None
      else
        let commit_ix = (case bg_log s of Some l \<Rightarrow> cl_commit_index l | None \<Rightarrow> 0) in
        Some (commit_ix, map (\<lambda>f. (f, lag_of commit_ix f)) (get_all_follower_stats (bg_batcher s))))"

record cluster_health =
  ch_is_leader :: bool
  ch_consensus :: "(u64 \<times> u64 \<times> u64) option"
  ch_followers :: "(string \<times> follower_health \<times> follower_stats option) list"
  ch_desynced :: "string list"
  ch_snapshot :: "snapshot_meta option"

definition handle_cluster_health :: "bool option \<Rightarrow> nat \<Rightarrow> 'j background \<Rightarrow> cluster_health" where
  "handle_cluster_health is_leader now s =
     \<lparr>ch_is_leader = (is_leader = Some True),
      ch_consensus = map_option (\<lambda>l. (cl_current_term l, cl_commit_index l, cl_applied_index l)) (bg_log s),
      ch_followers = map (\<lambda>(p, h). (p, h, get_follower_stats p (bg_batcher s))) (get_health_summary (bg_batcher s)),
      ch_desynced = get_desynced_followers now
        (case bg_log s of Some l \<Rightarrow> cl_commit_index l | None \<Rightarrow> 0) (bg_batcher s),
      ch_snapshot = (case bg_manager s of Some m \<Rightarrow> sn_current_meta m | None \<Rightarrow> None)\<rparr>"

section \<open>What a tick leaves alone\<close>

lemma resync_check_keeps:
  "resync_check c E now models l s = (s', out) \<Longrightarrow>
   bg_batcher s' = bg_batcher s \<and> bg_log s' = bg_log s \<and> bg_counter s' = bg_counter s"
  by (auto simp: resync_check_def start_sends_def Let_def split: option.splits if_splits prod.splits sum.splits)

lemma send_batch_keeps:
  "send_batch now tm n peers s = (s', out) \<Longrightarrow>
   bg_log s' = bg_log s \<and> bg_last_resync s' = bg_last_resync s \<and> bg_manager s' = bg_manager s
   \<and> rb_followers (bg_batcher s') = rb_followers (bg_batcher s)"
  by (auto simp: send_batch_def take_batch_def Let_def split: if_splits)

lemma apply_unapplied_commit:
  "cl_commit_index (fst (snd (apply_unapplied app es l s))) = cl_commit_index l"
  by (induction app es l s rule: apply_unapplied.induct)
    (auto simp: mark_applied_def split: prod.splits sum.splits)

lemma follower_commits:
  assumes "cl_current_term lf \<le> ar_term req"
  shows "ar_leader_commit req \<le> cl_commit_index (fst (snd (handle_append app req (lf, sf))))"
proof -
  define l2 where "l2 = snd (append_entries (ar_entries req) (ar_leader_commit req)
    (if cl_current_term lf < ar_term req then set_term (ar_term req) lf else lf))"
  have c: "ar_leader_commit req \<le> cl_commit_index l2" by (simp add: append_entries_def l2_def)
  have eq: "handle_append app req (lf, sf) =
      (case get_unapplied_entries l2 of
         None \<Rightarrow> (None, l2, sf)
       | Some es \<Rightarrow> (let (ok, l3, s') = apply_unapplied app es l2 sf in (Some (response_of ok l3), l3, s')))"
    unfolding handle_append_def Let_def l2_def prod.case using leD [OF assms] by (simp only: if_False)
  show ?thesis
  proof (cases "get_unapplied_entries l2")
    case None
    with c show ?thesis by (simp add: eq)
  next
    case (Some es)
    obtain ok l3 s' where a: "apply_unapplied app es l2 sf = (ok, l3, s')" by (metis prod_cases3)
    have "cl_commit_index l3 = cl_commit_index l2" using apply_unapplied_commit [of app es l2 sf] by (simp add: a)
    with c Some show ?thesis by (simp add: eq a)
  qed
qed

text \<open>
  C14. The batch of new entries is sent before, and whether or not, a majority has them: every peer is sent the waiting
  entries with the greatest of their indices as commit index, and a follower whose term is not newer commits up
  to it, while the commit index of the leader stays what it is.
\<close>

theorem batch_commits_without_majority:
  assumes "bg_log s = Some l" and "is_leader \<noteq> Some False" and "should_send_batch now (bg_batcher s)"
    and "p \<in> set peers" and "cl_current_term lf \<le> cl_current_term l"
  shows "\<exists>req. SendEntries p req \<in> set (snd (background_tick c E node_id peers is_leader now models s))
      \<and> ar_entries req = rb_immediate (bg_batcher s)
      \<and> max_entry_index (rb_immediate (bg_batcher s)) \<le> cl_commit_index (fst (snd (handle_append app req (lf, sf))))
      \<and> bg_log (fst (background_tick c E node_id peers is_leader now models s)) = Some l"
proof -
  let ?counter = "bg_counter s + 1"
  let ?due = "resync_check_ticks c \<le> ?counter"
  let ?s1 = "s\<lparr>bg_counter := (if ?due then 0 else ?counter)\<rparr>"
  obtain s2 snaps where s2: "(if ?due then resync_check c E now models l ?s1 else (?s1, [])) = (s2, snaps)"
    by (metis surj_pair)
  have b2: "bg_batcher s2 = bg_batcher s" "bg_log s2 = bg_log s"
    using s2 resync_check_keeps [of c E now models l ?s1 s2 snaps] by (auto split: if_splits)
  let ?es = "rb_immediate (bg_batcher s)"
  let ?req = "entries_request (cl_current_term l) node_id (max_entry_index ?es) ?es"
  obtain s3 batch where s3: "send_batch now (cl_current_term l) node_id peers s2 = (s3, batch)"
    by (metis surj_pair)
  have "?es \<noteq> []" using assms(3) by (simp add: should_send_batch_def)
  then have "SendEntries p ?req \<in> set batch"
    using s3 assms(3,4) by (auto simp: send_batch_def b2 take_batch_def Let_def)
  moreover have "bg_log s3 = Some l" using send_batch_keeps [OF s3] b2 assms(1) by simp
  moreover have "background_tick c E node_id peers is_leader now models s = (s3, snaps
      @ map (\<lambda>(p, es). SendEntries p (entries_request (cl_current_term l) node_id (cl_commit_index l) es))
          (catch_up peers (bg_batcher s2) l) @ batch)"
    using assms(1,2) s2 s3 by (simp add: background_tick_def Let_def)
  moreover have "max_entry_index ?es \<le> cl_commit_index (fst (snd (handle_append app ?req (lf, sf))))"
    using follower_commits [of lf ?req app sf] assms(5) by (simp add: entries_request_def)
  ultimately show ?thesis by (intro exI [of _ ?req]) (simp add: entries_request_def)
qed

definition waiting_leader :: "unit background" where
  "waiting_leader =
     \<lparr>bg_batcher = batcher_queue_entry (example_entry 1 1 ''a'')
        (batcher_initialize 0 [''n2''] (batcher_new 0 batcher_config_default)),
      bg_log = Some (append_insert (example_entry 1 1 ''a'') consensus_log_new), bg_manager = None, bg_counter = 0,
      bg_last_resync = [],
      bg_stats = \<lparr>rs_snapshots_created = 0, rs_send_attempts = 0, rs_send_successes = 0, rs_send_failures = 0,
        rs_received = 0, rs_applied = 0, rs_last_sent = 0, rs_last_received = 0, rs_timestamp_ms = 0\<rparr>\<rparr>"

lemma batch_commits_without_majority_witness:
  "\<exists>req. 1 \<le> cl_commit_index (fst (snd (handle_append (\<lambda>op s. (Inr () :: string + unit, s)) req (consensus_log_new, ()))))
     \<and> ar_entries req = [example_entry 1 1 ''a'']
     \<and> cl_commit_index (the (bg_log waiting_leader)) = 0"
proof -
  let ?l = "append_insert (example_entry 1 1 ''a'') consensus_log_new :: unit consensus_log"
  have wait: "rb_immediate (bg_batcher waiting_leader) = [example_entry 1 1 ''a'']"
    by (simp add: waiting_leader_def batcher_queue_entry_def batcher_initialize_def batcher_new_def)
  have due: "should_send_batch 100 (bg_batcher waiting_leader)"
    by (simp add: should_send_batch_def waiting_leader_def batcher_queue_entry_def batcher_initialize_def
        batcher_new_def batcher_config_default_def)
  have log: "bg_log waiting_leader = Some ?l" by (simp add: waiting_leader_def)
  have ix: "max_entry_index [example_entry 1 1 ''a''] = 1" by (simp add: max_entry_index_def example_entry_def)
  have tm: "cl_current_term consensus_log_new \<le> cl_current_term ?l"
    by (simp add: append_insert_def consensus_log_new_def)
  have "cl_commit_index ?l = 0" by (simp add: append_insert_def consensus_log_new_def)
  with batch_commits_without_majority [OF log, of "Some True" 100 "''n2''" "[''n2'']" "consensus_log_new"
      replication_config_default undefined 1 "[]" "\<lambda>op s. (Inr () :: string + unit, s)" "()"] due tm
  show ?thesis unfolding wait ix by (auto simp: log)
qed

section \<open>How often snapshots are sent\<close>

datatype ('j, 'm) background_event =
    Tick nat "bool option" "(string \<times> 'm) list"
  | SnapshotAnswer nat string bool
  | EntriesAnswer nat u64 string "'j log_entry list" bool
  | EntryQueued "'j log_entry"
  | LogMoved "'j consensus_log"
  | ResyncByHand nat string bool

definition snapshot_sends :: "nat \<Rightarrow> 'j spawned list \<Rightarrow> (nat \<times> string) list" where
  "snapshot_sends now out =
     List.map_filter (\<lambda>x. case x of SendSnapshot p _ \<Rightarrow> Some (now, p) | SendEntries _ _ \<Rightarrow> None) out"

definition background_react ::
  "replication_config \<Rightarrow> ('k, 'm) snapshot_env \<Rightarrow> u64 \<Rightarrow> string list \<Rightarrow> ('j, 'm) background_event
   \<Rightarrow> 'j background \<Rightarrow> 'j background \<times> (nat \<times> string) list" where
  "background_react c E node_id peers e s =
     (case e of
        Tick now is_leader models \<Rightarrow>
          (let (s', out) = background_tick c E node_id peers is_leader now models s in (s', snapshot_sends now out))
      | SnapshotAnswer now p ok \<Rightarrow> (snapshot_answered now p ok s, [])
      | EntriesAnswer now latency p es ok \<Rightarrow> (entries_answered now latency p es ok s, [])
      | EntryQueued x \<Rightarrow> (s\<lparr>bg_batcher := batcher_queue_entry x (bg_batcher s)\<rparr>, [])
      | LogMoved l \<Rightarrow> (s\<lparr>bg_log := Some l\<rparr>, [])
      | ResyncByHand now q ok \<Rightarrow> (snd (handle_force_resync (Some True) now q (\<lambda>m b. ok) s), []))"

fun background_run ::
  "replication_config \<Rightarrow> ('k, 'm) snapshot_env \<Rightarrow> u64 \<Rightarrow> string list \<Rightarrow> ('j, 'm) background_event list
   \<Rightarrow> 'j background \<Rightarrow> 'j background \<times> (nat \<times> string) list" where
  "background_run c E n peers [] s = (s, [])"
| "background_run c E n peers (e # es) s =
     (let (s1, out1) = background_react c E n peers e s; (s2, out2) = background_run c E n peers es s1
      in (s2, out1 @ out2))"

fun tick_times :: "('j, 'm) background_event list \<Rightarrow> nat list" where
  "tick_times [] = []"
| "tick_times (Tick now _ _ # es) = now # tick_times es"
| "tick_times (_ # es) = tick_times es"

definition spaced :: "nat \<Rightarrow> (nat \<times> string) list \<Rightarrow> bool" where
  "spaced gap sends \<longleftrightarrow> sorted_wrt (\<lambda>x y. snd x = snd y \<longrightarrow> fst x + gap \<le> fst y) sends"

definition cooldown_ms :: "replication_config \<Rightarrow> nat" where
  "cooldown_ms c = 1000 * unat (rc_resync_cooldown_secs c)"

text \<open>The sends of a tick: eligible followers, each once, and no more than the limit.\<close>

lemma map_of_fold_update:
  "map_of (fold (\<lambda>p d. AList.update p v d) ps d) k = (if k \<in> set ps then Some v else map_of d k)"
  by (induction ps arbitrary: d) (auto simp: map_of_update)

lemma snapshot_sends_append: "snapshot_sends now (xs @ ys) = snapshot_sends now xs @ snapshot_sends now ys"
  by (induction xs) (simp_all add: snapshot_sends_def List.map_filter_simps split: spawned.splits)

lemma snapshot_sends_map: "snapshot_sends now (map (\<lambda>p. SendSnapshot p n) ps) = map (Pair now) ps"
  by (induction ps) (simp_all add: snapshot_sends_def List.map_filter_simps)

lemma snapshot_sends_none: "(\<And>p n. SendSnapshot p n \<notin> set out) \<Longrightarrow> snapshot_sends now out = []"
  by (induction out) (auto simp: snapshot_sends_def List.map_filter_simps split: spawned.splits)

lemma desynced_distinct:
  "dict_ok (rb_followers b) \<Longrightarrow> distinct (get_desynced_followers now i b)"
proof -
  assume "dict_ok (rb_followers b)"
  then have "distinct (map fst (filter P (rb_followers b)))" for P
    by (induction "rb_followers b" arbitrary: b) (auto simp: dict_ok_def distinct_map inj_on_def)
  then show ?thesis by (simp add: get_desynced_followers_def)
qed

lemma resync_check_sends:
  assumes "resync_check c E now models l s = (s', out)" and "dict_ok (rb_followers (bg_batcher s))"
  shows "\<exists>ps. distinct ps \<and> length ps \<le> rc_max_concurrent_resyncs c
      \<and> (\<forall>p \<in> set ps. cooled_down c now (bg_last_resync s) p)
      \<and> snapshot_sends now out = map (Pair now) ps
      \<and> (\<forall>k. map_of (bg_last_resync s') k = (if k \<in> set ps then Some now else map_of (bg_last_resync s) k))"
proof -
  let ?el = "filter (cooled_down c now (bg_last_resync s)) (get_desynced_followers now (cl_commit_index l) (bg_batcher s))"
  let ?ps = "take (rc_max_concurrent_resyncs c) ?el"
  have d: "distinct ?el" using desynced_distinct [OF assms(2)] by simp
  show ?thesis
  proof (cases "out = []")
    case True
    then have "(\<forall>k. map_of (bg_last_resync s') k = (if k \<in> set ?ps then Some now else map_of (bg_last_resync s) k)) \<and> ?ps = []
        \<or> bg_last_resync s' = bg_last_resync s"
      using assms(1)
      by (auto simp: resync_check_def start_sends_def Let_def split: option.splits if_splits prod.splits sum.splits)
    with True show ?thesis by (intro exI [of _ "[]"]) (auto simp: snapshot_sends_def List.map_filter_simps)
  next
    case False
    then have "out = map (\<lambda>p. SendSnapshot p (rc_snapshot_send_timeout_secs c)) ?ps
        \<and> bg_last_resync s' = fold (\<lambda>p d. AList.update p now d) ?ps (bg_last_resync s)"
      using assms(1)
      by (auto simp: resync_check_def start_sends_def Let_def split: option.splits if_splits prod.splits sum.splits)
    then show ?thesis using d
      by (intro exI [of _ ?ps]) (auto simp: snapshot_sends_map map_of_fold_update dest: in_set_takeD)
  qed
qed

lemma background_tick_sends:
  assumes "background_tick c E n peers is_leader now models s = (s', out)" and "dict_ok (rb_followers (bg_batcher s))"
  shows "\<exists>ps. distinct ps \<and> length ps \<le> rc_max_concurrent_resyncs c
      \<and> (\<forall>p \<in> set ps. cooled_down c now (bg_last_resync s) p)
      \<and> snapshot_sends now out = map (Pair now) ps
      \<and> (\<forall>k. map_of (bg_last_resync s') k = (if k \<in> set ps then Some now else map_of (bg_last_resync s) k))"
    and "dict_ok (rb_followers (bg_batcher s'))"
proof -
  have "(\<exists>ps. distinct ps \<and> length ps \<le> rc_max_concurrent_resyncs c
      \<and> (\<forall>p \<in> set ps. cooled_down c now (bg_last_resync s) p)
      \<and> snapshot_sends now out = map (Pair now) ps
      \<and> (\<forall>k. map_of (bg_last_resync s') k = (if k \<in> set ps then Some now else map_of (bg_last_resync s) k)))
      \<and> dict_ok (rb_followers (bg_batcher s'))"
  proof (cases "is_leader = Some False \<or> bg_log s = None")
    case True
    with assms have "s' = s" "out = []" by (auto simp: background_tick_def split: if_splits)
    with assms(2) show ?thesis
      by (intro conjI exI [of _ "[]"]) (simp_all add: snapshot_sends_def List.map_filter_simps)
  next
    case False
    then obtain l where l: "bg_log s = Some l" "is_leader \<noteq> Some False" by auto
    let ?due = "resync_check_ticks c \<le> bg_counter s + 1"
    let ?s1 = "s\<lparr>bg_counter := (if ?due then 0 else bg_counter s + 1)\<rparr>"
    obtain s2 snaps where s2: "(if ?due then resync_check c E now models l ?s1 else (?s1, [])) = (s2, snaps)"
      by (metis surj_pair)
    obtain batch where s3: "send_batch now (cl_current_term l) n peers s2 = (s', batch)"
      and out: "snapshot_sends now out = snapshot_sends now snaps"
    proof -
      obtain s3 batch where b: "send_batch now (cl_current_term l) n peers s2 = (s3, batch)" by (metis surj_pair)
      have none: "snapshot_sends now batch = []"
        using b by (intro snapshot_sends_none) (auto simp: send_batch_def Let_def take_batch_def split: if_splits)
      have none2: "snapshot_sends now (map (\<lambda>(p, es). SendEntries p (entries_request (cl_current_term l) n (cl_commit_index l) es))
          (catch_up peers (bg_batcher s2) l)) = []"
        by (intro snapshot_sends_none) auto
      have "s' = s3" "snapshot_sends now out = snapshot_sends now snaps"
        using assms(1) l s2 b none none2
        by (auto simp: background_tick_def Let_def snapshot_sends_append)
      with b that show thesis by blast
    qed
    have ok: "dict_ok (rb_followers (bg_batcher s2))"
      using s2 assms(2) resync_check_keeps [of c E now models l ?s1 s2 snaps] by (auto split: if_splits)
    have last': "bg_last_resync s' = bg_last_resync s2" using send_batch_keeps [OF s3] by simp
    have "\<exists>ps. distinct ps \<and> length ps \<le> rc_max_concurrent_resyncs c
      \<and> (\<forall>p \<in> set ps. cooled_down c now (bg_last_resync s) p)
      \<and> snapshot_sends now snaps = map (Pair now) ps
      \<and> (\<forall>k. map_of (bg_last_resync s2) k = (if k \<in> set ps then Some now else map_of (bg_last_resync s) k))"
    proof (cases ?due)
      case True
      with s2 have r: "resync_check c E now models l ?s1 = (s2, snaps)" by simp
      have same: "bg_last_resync ?s1 = bg_last_resync s" "bg_batcher ?s1 = bg_batcher s" by simp_all
      show ?thesis using resync_check_sends [OF r] assms(2) unfolding same by blast
    next
      case False
      with s2 have "s2 = ?s1" "snaps = []" by auto
      then show ?thesis by (intro exI [of _ "[]"]) (simp add: snapshot_sends_def List.map_filter_simps)
    qed
    then show ?thesis using send_batch_keeps [OF s3] ok by (simp add: out last')
  qed
  then show "\<exists>ps. distinct ps \<and> length ps \<le> rc_max_concurrent_resyncs c
      \<and> (\<forall>p \<in> set ps. cooled_down c now (bg_last_resync s) p)
      \<and> snapshot_sends now out = map (Pair now) ps
      \<and> (\<forall>k. map_of (bg_last_resync s') k = (if k \<in> set ps then Some now else map_of (bg_last_resync s) k))"
    and "dict_ok (rb_followers (bg_batcher s'))" by blast+
qed

text \<open>What was sent is remembered with a time that is not earlier.\<close>

definition remembered :: "(string, nat) dict \<Rightarrow> (nat \<times> string) list \<Rightarrow> nat \<Rightarrow> bool" where
  "remembered seen sends t \<longleftrightarrow>
     (\<forall>(u, p) \<in> set sends. \<exists>v. map_of seen p = Some v \<and> u \<le> v) \<and> (\<forall>p v. map_of seen p = Some v \<longrightarrow> v \<le> t)"

lemma distinct_sorted_wrt: "distinct ps \<Longrightarrow> sorted_wrt (\<lambda>p q. p = q \<longrightarrow> R) ps"
  by (induction ps) auto

lemma background_react_inv:
  assumes "background_react c E n peers e s = (s', out)"
    and "dict_ok (rb_followers (bg_batcher s))" and "remembered (bg_last_resync s) sends t"
    and "spaced (cooldown_ms c) sends" and "\<forall>u \<in> set (tick_times [e]). t \<le> u"
  shows "dict_ok (rb_followers (bg_batcher s'))
    \<and> remembered (bg_last_resync s') (sends @ out) (Max (insert t (set (tick_times [e]))))
    \<and> spaced (cooldown_ms c) (sends @ out)"
proof (cases "\<exists>now is_leader models. e = Tick now is_leader models")
  case False
  then have "tick_times [e] = []" "out = []" "bg_last_resync s' = bg_last_resync s"
    using assms(1)
    by (auto simp: background_react_def snapshot_answered_def entries_answered_def handle_force_resync_def Let_def
        split: background_event.splits if_splits option.splits prod.splits sum.splits)
  moreover have "dict_ok (rb_followers (bg_batcher s'))"
    using assms(1,2) False
    by (auto simp: background_react_def snapshot_answered_def entries_answered_def handle_force_resync_def
        catch_up_answered_def batcher_record_success_def batcher_record_failure_def batcher_queue_entry_def
        mark_follower_desynced_def Let_def
        split: background_event.splits if_splits option.splits prod.splits sum.splits)
  ultimately show ?thesis using assms(3,4) by simp
next
  case True
  then obtain now is_leader models where e: "e = Tick now is_leader models" by blast
  obtain o2 where tick: "background_tick c E n peers is_leader now models s = (s', o2)" and out: "out = snapshot_sends now o2"
    using assms(1) by (auto simp: background_react_def e split: prod.splits)
  from background_tick_sends [OF tick assms(2)] obtain ps where
    ps: "distinct ps" "\<forall>p \<in> set ps. cooled_down c now (bg_last_resync s) p" "out = map (Pair now) ps"
      "\<And>k. map_of (bg_last_resync s') k = (if k \<in> set ps then Some now else map_of (bg_last_resync s) k)"
    and ok: "dict_ok (rb_followers (bg_batcher s'))"
    unfolding out by blast
  have t: "t \<le> now" using assms(5) by (simp add: e)
  have mx: "Max (insert t (set (tick_times [e]))) = now" using t by (simp add: e)
  have "remembered (bg_last_resync s') (sends @ out) now"
    using assms(3) t by (fastforce simp: remembered_def ps(3,4))
  moreover have "u + cooldown_ms c \<le> now" if "(u, p) \<in> set sends" "p \<in> set ps" for u p
  proof -
    from assms(3) that(1) obtain v where v: "map_of (bg_last_resync s) p = Some v" "u \<le> v" "v \<le> t"
      by (fastforce simp: remembered_def)
    with ps(2) that(2) have "cooldown_ms c \<le> now - v" by (fastforce simp: cooled_down_def cooldown_ms_def)
    with v t show ?thesis by linarith
  qed
  then have "spaced (cooldown_ms c) (sends @ out)"
    using assms(4) distinct_sorted_wrt [OF ps(1)]
    by (auto simp: spaced_def sorted_wrt_append ps(3) sorted_wrt_map)
  ultimately show ?thesis using ok mx by simp
qed

lemma tick_times_cons: "tick_times (e # es) = tick_times [e] @ tick_times es"
  by (cases e) simp_all

lemma background_run_inv:
  assumes "background_run c E n peers es s = (s', out)"
    and "dict_ok (rb_followers (bg_batcher s))" and "remembered (bg_last_resync s) sends t"
    and "spaced (cooldown_ms c) sends" and "sorted (tick_times es)" and "\<forall>u \<in> set (tick_times es). t \<le> u"
  shows "spaced (cooldown_ms c) (sends @ out)"
  using assms
proof (induction es arbitrary: s sends t out)
  case (Cons e es)
  obtain s1 out1 where r: "background_react c E n peers e s = (s1, out1)" by (metis surj_pair)
  obtain s2 out2 where run: "background_run c E n peers es s1 = (s2, out2)" by (metis surj_pair)
  have out: "s2 = s'" "out = out1 @ out2" using Cons.prems(1) by (simp_all add: r run)
  let ?t = "Max (insert t (set (tick_times [e])))"
  have "\<forall>u \<in> set (tick_times [e]). t \<le> u" using Cons.prems(6) by (simp add: tick_times_cons [of e es])
  from background_react_inv [OF r Cons.prems(2,3,4) this]
  have inv: "dict_ok (rb_followers (bg_batcher s1))" "remembered (bg_last_resync s1) (sends @ out1) ?t"
    "spaced (cooldown_ms c) (sends @ out1)" by blast+
  have later: "\<forall>u \<in> set (tick_times es). ?t \<le> u"
    using Cons.prems(5,6) by (cases e) (auto simp: tick_times_cons [of e es])
  have "sorted (tick_times es)" using Cons.prems(5) by (cases e) (auto simp: tick_times_cons [of e es])
  from Cons.IH [OF run [unfolded out(1)] inv this later] show ?case by (simp add: out)
qed simp

text \<open>
  Between two snapshots to the same follower lies the cooldown, whatever the background task learns in between,
  and no tick sends more than the limit.
\<close>

theorem resync_is_limited:
  assumes "sorted (tick_times es)" and "dict_ok (rb_followers (bg_batcher s))" and "bg_last_resync s = []"
  shows "spaced (cooldown_ms c) (snd (background_run c E n peers es s))"
    and "background_tick c E n peers is_leader now models s = (s', out) \<Longrightarrow>
         length (snapshot_sends now out) \<le> rc_max_concurrent_resyncs c"
proof -
  obtain s2 out2 where run: "background_run c E n peers es s = (s2, out2)" by (metis surj_pair)
  have "remembered (bg_last_resync s) [] 0" by (simp add: assms(3) remembered_def)
  from background_run_inv [OF run assms(2) this _ assms(1)]
  show "spaced (cooldown_ms c) (snd (background_run c E n peers es s))"
    by (simp add: run spaced_def)
  assume "background_tick c E n peers is_leader now models s = (s', out)"
  from background_tick_sends(1) [OF this assms(2)]
  show "length (snapshot_sends now out) \<le> rc_max_concurrent_resyncs c" by auto
qed

text \<open>A leader whose followers have all failed three times.\<close>

definition all_desynced :: "string list \<Rightarrow> unit background" where
  "all_desynced peers =
     \<lparr>bg_batcher = (batcher_initialize 0 peers (batcher_new 0 batcher_config_default))
        \<lparr>rb_followers := map (\<lambda>p. (p, (follower_state_new 0 p)\<lparr>fs_health := Desynced\<rparr>)) peers\<rparr>,
      bg_log = Some (receive_all [([example_entry 1 1 ''a'', example_entry 1 2 ''b''], 2)] consensus_log_new),
      bg_manager = Some empty_manager, bg_counter = 9, bg_last_resync = [],
      bg_stats = bg_stats waiting_leader\<rparr>"

definition sample_env :: "(unit, unit) snapshot_env" where
  "sample_env = \<lparr>se_ser = sample_data_ser, se_meta_ser = sample_meta_ser, se_to_text = (\<lambda>x. None),
     se_as_array = (\<lambda>x. None)\<rparr>"

lemma resync_is_limited_witness:
  "spaced 10000 (snd (background_run replication_config_default sample_env 1 []
     [Tick 1000 (Some True) ([] :: (string \<times> unit) list), SnapshotAnswer 1500 ''n2'' False, Tick 2000 (Some True) []]
     (all_desynced [''n2''])))"
proof -
  have "dict_ok (rb_followers (bg_batcher (all_desynced [''n2''])))" by (simp add: all_desynced_def dict_ok_def)
  moreover have "bg_last_resync (all_desynced [''n2'']) = []" by (simp add: all_desynced_def)
  moreover have "cooldown_ms replication_config_default = 10000"
    by (simp add: cooldown_ms_def replication_config_default_def)
  ultimately show ?thesis
    using resync_is_limited(1) [of "[Tick 1000 (Some True) ([] :: (string \<times> unit) list),
        SnapshotAnswer 1500 ''n2'' False, Tick 2000 (Some True) []]" "all_desynced [''n2'']" replication_config_default
        sample_env 1 "[]"] by simp
qed

text \<open>
  What the follower applies afterwards: the entries that one request makes it hand out for
  application, and those of a sequence of requests.
\<close>

definition handed :: "'j append_entries_request \<Rightarrow> 'j consensus_log \<Rightarrow> 'j log_entry list" where
  "handed req l =
     (if ar_term req < cl_current_term l then []
      else case get_unapplied_entries (snd (append_entries (ar_entries req) (ar_leader_commit req)
                  (if cl_current_term l < ar_term req then set_term (ar_term req) l else l))) of
             None \<Rightarrow> [] | Some es \<Rightarrow> es)"

fun handed_later ::
  "('j crud_operation \<Rightarrow> 's \<Rightarrow> ('e + 'r) \<times> 's) \<Rightarrow> 'j append_entries_request list \<Rightarrow>
   'j consensus_log \<times> 's \<Rightarrow> 'j log_entry list"
where
  "handed_later app [] st = []"
| "handed_later app (req # reqs) st =
     handed req (fst st) @ handed_later app reqs (snd (handle_append app req st))"

text \<open>These are the entries that the handler applies, and the only ones.\<close>

lemma handed_applied:
  "snd (snd (handle_append app req (l, st))) =
     snd (snd (apply_unapplied app (handed req l)
       (snd (append_entries (ar_entries req) (ar_leader_commit req)
         (if cl_current_term l < ar_term req then set_term (ar_term req) l else l))) st))"
  by (simp add: handle_append_def handed_def Let_def split: option.split prod.split)

lemma append_keeps_applied:
  "cl_applied_index (snd (append_entries es c (if b then set_term t l else l))) = cl_applied_index l"
  by (simp add: append_entries_def set_term_def)

lemma apply_raises_applied:
  "cl_applied_index l \<le> cl_applied_index (fst (snd (apply_unapplied app es l s)))"
proof (induction app es l s rule: apply_unapplied.induct)
  case (2 app e es l s)
  have "cl_applied_index l \<le> cl_applied_index (mark_applied (le_index e) l)"
    by (simp add: mark_applied_def fetch_max_def)
  with 2 show ?case by (auto split: prod.split sum.split intro: order_trans)
qed simp

lemma handle_append_raises_applied:
  "cl_applied_index (fst st) \<le> cl_applied_index (fst (snd (handle_append app req st)))"
proof -
  obtain l s where st: "st = (l, s)" by (cases st)
  define l2 where "l2 = snd (append_entries (ar_entries req) (ar_leader_commit req)
    (if cl_current_term l < ar_term req then set_term (ar_term req) l else l))"
  have a: "cl_applied_index l2 = cl_applied_index l" unfolding l2_def by (rule append_keeps_applied)
  have "cl_applied_index l \<le> cl_applied_index (fst (snd (handle_append app req (l, s))))"
  proof (cases "ar_term req < cl_current_term l")
    case True
    then show ?thesis by (simp add: handle_append_def)
  next
    case False
    have eq: "handle_append app req (l, s) =
        (case get_unapplied_entries l2 of
           None \<Rightarrow> (None, l2, s)
         | Some es \<Rightarrow> (let (ok, l3, s') = apply_unapplied app es l2 s in (Some (response_of ok l3), l3, s')))"
      unfolding handle_append_def Let_def l2_def prod.case using False by (simp only: if_False)
    show ?thesis
    proof (cases "get_unapplied_entries l2")
      case None
      then show ?thesis by (simp add: eq a)
    next
      case (Some es)
      obtain ok l3 s' where ap: "apply_unapplied app es l2 s = (ok, l3, s')" by (metis prod_cases3)
      have "cl_applied_index l2 \<le> cl_applied_index l3"
        using apply_raises_applied [of l2 app es s] by (simp add: ap)
      then show ?thesis by (simp add: eq Some ap a)
    qed
  qed
  then show ?thesis by (simp add: st)
qed

lemma handed_beyond:
  assumes "e \<in> set (handed req l)"
  shows "cl_applied_index l < le_index e"
proof -
  define l2 where "l2 = snd (append_entries (ar_entries req) (ar_leader_commit req)
    (if cl_current_term l < ar_term req then set_term (ar_term req) l else l))"
  from assms obtain es where es: "get_unapplied_entries l2 = Some es" "e \<in> set es"
    unfolding handed_def l2_def [symmetric] by (cases "get_unapplied_entries l2") (auto split: if_splits)
  have "unat (le_index e) \<in> set (map (\<lambda>e. unat (le_index e)) es)" using es(2) by simp
  with get_unapplied_shape [OF es(1)] have "unat (cl_applied_index l2) < unat (le_index e)" by auto
  then show ?thesis
    unfolding l2_def by (simp only: append_keeps_applied word_less_nat_alt)
qed

lemma handed_later_beyond:
  "e \<in> set (handed_later app reqs st) \<Longrightarrow> cl_applied_index (fst st) < le_index e"
proof (induction reqs arbitrary: st)
  case (Cons req reqs)
  then consider "e \<in> set (handed req (fst st))"
    | "e \<in> set (handed_later app reqs (snd (handle_append app req st)))" by auto
  then show ?case
  proof cases
    case 1
    then show ?thesis by (rule handed_beyond)
  next
    case 2
    from Cons.IH [OF this] handle_append_raises_applied show ?thesis by (rule le_less_trans [rotated])
  qed
qed simp

lemma install_raises_applied:
  assumes "handle_install_snapshot de meta_ser from_text apply_items now
      (Some tm, Some i, ck, sz) b (m, models, l) = (Inr r, m', models', l')"
  shows "i \<le> cl_applied_index l'"
proof -
  from assms have "l' = mark_applied i (set_term tm l)"
    by (auto simp: handle_install_snapshot_def Let_def header_def split: sum.splits prod.splits)
  then show ?thesis by (simp add: mark_applied_def)
qed

text \<open>A tick that sends a snapshot has created it from the models, under the commit index.\<close>

lemma tick_creates_snapshot:
  assumes tick: "background_tick c E n peers is_leader now models s = (s', out)"
    and log: "bg_log s = Some l" and sent: "snapshot_sends now out \<noteq> []" and mgr: "bg_manager s = Some m"
  shows "\<exists>x m'. create_snapshot (se_ser E) (se_meta_ser E) (of_nat now) (cl_current_term l) (cl_commit_index l)
      (fold (\<lambda>(path, x) d. case se_as_array E x of
           None \<Rightarrow> d | Some items \<Rightarrow> add_model (se_to_text E) path items d) models []) m = (Inr x, m') \<and>
    bg_manager s' = Some m'"
proof -
  let ?due = "resync_check_ticks c \<le> bg_counter s + 1"
  let ?s1 = "s\<lparr>bg_counter := (if ?due then 0 else bg_counter s + 1)\<rparr>"
  obtain s2 snaps where s2: "(if ?due then resync_check c E now models l ?s1 else (?s1, [])) = (s2, snaps)"
    by (metis surj_pair)
  obtain s3 batch where s3: "send_batch now (cl_current_term l) n peers s2 = (s3, batch)" by (metis surj_pair)
  have leader: "is_leader \<noteq> Some False"
    using tick sent by (auto simp: background_tick_def snapshot_sends_def List.map_filter_simps)
  have none: "snapshot_sends now batch = []"
    using s3 by (intro snapshot_sends_none) (auto simp: send_batch_def Let_def take_batch_def split: if_splits)
  have none2: "snapshot_sends now (map (\<lambda>(p, es). SendEntries p (entries_request (cl_current_term l) n (cl_commit_index l) es))
          (catch_up peers (bg_batcher s2) l)) = []"
    by (intro snapshot_sends_none) auto
  have s': "s' = s3" "snapshot_sends now snaps \<noteq> []"
    using tick log leader s2 s3 none none2 sent
    by (auto simp: background_tick_def Let_def snapshot_sends_append)
  have due: ?due using s2 s'(2) by (cases ?due) (auto simp: snapshot_sends_def List.map_filter_simps)
  have check: "resync_check c E now models l ?s1 = (s2, snaps)" using s2 due by simp
  have "bg_manager s' = bg_manager s2" using send_batch_keeps [OF s3] s'(1) by simp
  with check s'(2) mgr show ?thesis
    by (auto simp: resync_check_def create_snapshot_from_models_def start_sends_def snapshot_sends_def
        List.map_filter_simps Let_def split: if_splits prod.splits sum.splits)
qed

text \<open>
  C33. A snapshot for a resync carries the commit index of the leader whatever it has applied, when no
  snapshot stored before lies beyond that index: the data are those of the
  models at that moment, and a follower that installs it counts every entry up to the commit index as
  applied, so that whatever append requests come after, it hands out none of them for application.
\<close>

theorem resync_skips_committed_entries:
  assumes tick: "background_tick c E n peers is_leader now models s = (s', out)"
    and log: "bg_log s = Some l" and sent: "snapshot_sends now out \<noteq> []"
    and mgr: "bg_manager s = Some m" "directory_ok (sn_files m)"
    and old: "\<forall>j. map_of (sn_files m) (data_name j) \<noteq> None \<longrightarrow> j \<le> cl_commit_index l"
    and meta: "\<forall>x. \<exists>t. se_meta_ser E x = Inr t \<and> meta_de t = Some x"
    and ok: "dict_ok (rb_followers (bg_batcher s))"
  shows "\<exists>m' meta b. bg_manager s' = Some m' \<and> snapshot_to_send m' = Inr (meta, b)
      \<and> sm_last_included_index meta = cl_commit_index l
      \<and> se_ser E (fold (\<lambda>(path, x) d. case se_as_array E x of
           None \<Rightarrow> d | Some items \<Rightarrow> add_model (se_to_text E) path items d) models []) = Inr b
      \<and> (\<forall>de' from_text apply_items now' lf r mf mf' ms ms' l' app reqs st.
           handle_install_snapshot de' (se_meta_ser E) from_text apply_items now'
             (Some (sm_term meta), Some (sm_last_included_index meta), Some (sm_checksum meta), Some (sm_size_bytes meta)) b
             (mf, ms, lf) = (Inr r, mf', ms', l') \<longrightarrow>
           (\<forall>e \<in> set (handed_later app reqs (l', st)). cl_commit_index l < le_index e))"
proof -
  let ?data = "fold (\<lambda>(path, x) d. case se_as_array E x of
           None \<Rightarrow> d | Some items \<Rightarrow> add_model (se_to_text E) path items d) models []"
  obtain x m' where snap: "create_snapshot (se_ser E) (se_meta_ser E) (of_nat now) (cl_current_term l)
      (cl_commit_index l) ?data m = (Inr x, m')" and m': "bg_manager s' = Some m'"
    using tick_creates_snapshot [OF tick log sent mgr(1)] by blast
  obtain b where b: "se_ser E ?data = Inr b"
    using snap by (auto simp: create_snapshot_def split: sum.splits)
  have newer: "{j. map_of (sn_files m) (data_name j) \<noteq> None \<and> cl_commit_index l < j} = {}"
    using old by (auto simp: not_less [symmetric])
  let ?de = "\<lambda>y. if y = b then Inr ?data else Inl []"
  have "?de b = Inr ?data" by simp
  from create_snapshot_current [where de = ?de, OF mgr(2) b this meta snap, unfolded newer]
  have cur: "sn_current_meta m' = Some x" "sm_last_included_index x = cl_commit_index l"
    "load_current ?de m' = Inr (Some (x, ?data))" by auto
  then have bytes: "get_snapshot_bytes (sm_last_included_index x) m' = Inr b"
    by (auto simp: load_current_def load_snapshot_def split: sum.splits if_splits)
  have "snapshot_to_send m' = Inr (x, b)" by (simp add: snapshot_to_send_def cur(1) bytes)
  moreover have "cl_commit_index l < le_index e"
    if "handle_install_snapshot de' (se_meta_ser E) from_text apply_items now'
             (Some (sm_term x), Some (sm_last_included_index x), Some (sm_checksum x), Some (sm_size_bytes x)) b
             (mf, ms, lf) = (Inr r, mf', ms', l')"
      and "e \<in> set (handed_later app reqs (l', st))"
    for de' from_text apply_items now' mf ms lf r mf' ms' l' app reqs st e
    using install_raises_applied [OF that(1)] handed_later_beyond [OF that(2)] cur(2) by simp
  ultimately show ?thesis
    by (intro exI [of _ m'] exI [of _ x] exI [of _ b] conjI m' cur(2) b allI impI ballI)
qed

lemma resync_skips_committed_entries_witness:
  "\<exists>m' meta b. bg_manager (fst (background_tick replication_config_default sample_env 1 [] (Some True) 1000
       ([] :: (string \<times> unit) list) (all_desynced [''n2'']))) = Some m'
     \<and> snapshot_to_send m' = Inr (meta, b) \<and> sm_last_included_index meta = 2
     \<and> cl_applied_index (the (bg_log (all_desynced [''n2'']))) = 0"
proof -
  let ?s = "all_desynced [''n2'']"
  let ?l = "receive_all [([example_entry 1 1 ''a'', example_entry 1 2 ''b''], 2)] consensus_log_new :: unit consensus_log"
  let ?t = "background_tick replication_config_default sample_env 1 [] (Some True) 1000 ([] :: (string \<times> unit) list) ?s"
  have log: "bg_log ?s = Some ?l" by (simp add: all_desynced_def)
  have ix: "cl_commit_index ?l = 2" "cl_applied_index ?l = 0" by (code_simp, code_simp)
  have desynced: "get_desynced_followers 1000 (cl_commit_index ?l) (bg_batcher ?s) = [''n2'']"
    by (simp add: get_desynced_followers_def all_desynced_def needs_resync_def)
  have due: "resync_check_ticks replication_config_default \<le> bg_counter ?s + 1"
    by (simp add: resync_check_ticks_def replication_config_default_def all_desynced_def)
  obtain x m1 where "create_snapshot_from_models (se_ser sample_env) (se_meta_ser sample_env) (se_to_text sample_env)
      (se_as_array sample_env) (of_nat 1000) (cl_current_term ?l) (cl_commit_index ?l) ([] :: (string \<times> unit) list) empty_manager
    = (Inr x, m1)"
    by (simp add: create_snapshot_from_models_def create_snapshot_def sample_env_def sample_data_ser_def sample_meta_ser_def
        write_snapshot_def Let_def)
  then have sent: "snapshot_sends 1000 (snd ?t) \<noteq> []"
    using due desynced
    by (simp add: background_tick_def log resync_check_def cooled_down_def all_desynced_def [of "[''n2'']"] start_sends_def
        replication_config_default_def snapshot_sends_def List.map_filter_simps case_prod_unfold Let_def)
  have mgr: "bg_manager ?s = Some empty_manager" "directory_ok (sn_files empty_manager)"
    by (simp_all add: all_desynced_def empty_manager_def directory_ok_def)
  have old: "\<forall>j. map_of (sn_files empty_manager) (data_name j) \<noteq> None \<longrightarrow> j \<le> cl_commit_index ?l"
    by (simp add: empty_manager_def)
  have meta: "\<forall>x. \<exists>t. se_meta_ser sample_env x = Inr t \<and> sample_meta_de t = Some x"
    using sample_meta_codec by (simp add: sample_env_def)
  have ok: "dict_ok (rb_followers (bg_batcher ?s))" by (simp add: all_desynced_def dict_ok_def)
  have "?t = (fst ?t, snd ?t)" by simp
  from resync_skips_committed_entries [OF this log sent mgr old meta ok] obtain m' meta b where
    "bg_manager (fst ?t) = Some m'" "snapshot_to_send m' = Inr (meta, b)"
    "sm_last_included_index meta = cl_commit_index ?l"
    by (elim exE conjE) (rule that)
  then show ?thesis unfolding log option.sel ix by blast
qed

end
