(* ===== verification/SimpleReplication.thy ===== *)
theory SimpleReplication
  imports Prelude
begin

text \<open>
  The replication of a cache from a fixed leader, from \<^verbatim>\<open>lithair-core/src/cluster/simple_replication.rs\<close>: the
  leader's changes, the messages to the followers with their retries, the followers' handler, the sync from the leader
  and the file of processed batches. What the network does with each attempt is an argument; an attempt may be processed
  by the follower although its answer is lost. Reading the identifier of an item, JSON and clocks are arguments.
\<close>

section \<open>The replicator\<close>

record 'a replicator =
  sr_node_id :: u64
  sr_is_leader :: bool
  sr_peers :: "string list"
  sr_cache :: "(string, 'a) dict"
  sr_batches :: "string list"
  sr_batches_file :: "string option"

record 'a replication_message =
  rm_operation :: string
  rm_data :: "'a option"
  rm_id :: "string option"
  rm_leader :: u64
  rm_timestamp :: u64

record 'a bulk_message =
  bm_operation :: string
  bm_items :: "'a list"
  bm_leader :: u64
  bm_timestamp :: u64
  bm_batch_id :: string

definition replicator_new :: "u64 \<Rightarrow> bool \<Rightarrow> string list \<Rightarrow> string option \<Rightarrow> 'a replicator" where
  "replicator_new node leader peers disk =
     \<lparr>sr_node_id = node, sr_is_leader = leader, sr_peers = peers, sr_cache = [], sr_batches = [],
      sr_batches_file = disk\<rparr>"

text \<open>The \<open>id\<close> of the item as JSON, or a name from the clock.\<close>

definition extract_id :: "('a \<Rightarrow> string option) \<Rightarrow> u64 \<Rightarrow> 'a \<Rightarrow> string" where
  "extract_id json_id now x =
     (case json_id x of Some i \<Rightarrow> i | None \<Rightarrow> ''unknown_'' @ show_nat (unat now))"

section \<open>Sending\<close>

text \<open>
  What becomes of one attempt. The loop ends with the first success or after five attempts; its result is what
  the follower has processed, one element for each time.
\<close>

datatype attempt = Answered | Refused | ProcessedUnanswered | NotDelivered

fun processed :: "attempt \<Rightarrow> bool" where
  "processed Answered = True"
| "processed Refused = False"
| "processed ProcessedUnanswered = True"
| "processed NotDelivered = False"

definition max_retries :: nat where "max_retries = 5"

function send_loop :: "(nat \<Rightarrow> attempt) \<Rightarrow> nat \<Rightarrow> nat" where
  "send_loop net n =
     (let k = (if processed (net n) then 1 else 0) in
      if net n = Answered then k
      else if max_retries \<le> n + 1 then k
      else k + send_loop net (n + 1))"
  by pat_completeness auto
termination by (relation "measure (\<lambda>(net, n). max_retries - n)") (auto simp: max_retries_def)

declare send_loop.simps [simp del]

text \<open>How often each peer processes the message; sending never fails.\<close>

definition send_to_followers ::
  "(string \<Rightarrow> nat \<Rightarrow> attempt) \<Rightarrow> 'a replicator \<Rightarrow> (string \<times> nat) list" where
  "send_to_followers net s = map (\<lambda>p. (p, send_loop (net p) 0)) (sr_peers s)"

text \<open>The same loop for a batch, with a longer time limit for each attempt.\<close>

definition send_bulk_to_followers ::
  "(string \<Rightarrow> nat \<Rightarrow> attempt) \<Rightarrow> 'a replicator \<Rightarrow> (string \<times> nat) list" where
  "send_bulk_to_followers net s = map (\<lambda>p. (p, send_loop (net p) 0)) (sr_peers s)"

section \<open>The changes\<close>

definition message_of :: "string \<Rightarrow> 'a option \<Rightarrow> string \<Rightarrow> u64 \<Rightarrow> 'a replicator \<Rightarrow> 'a replication_message" where
  "message_of op d i now s =
     \<lparr>rm_operation = op, rm_data = d, rm_id = Some i, rm_leader = sr_node_id s, rm_timestamp = now\<rparr>"

text \<open>Each change returns the replicator and, on the leader, the message that is sent.\<close>

definition replicate_create ::
  "('a \<Rightarrow> string option) \<Rightarrow> u64 \<Rightarrow> u64 \<Rightarrow> 'a \<Rightarrow> 'a replicator \<Rightarrow> 'a replicator \<times> 'a replication_message option" where
  "replicate_create json_id t0 t1 x s =
     (let i = extract_id json_id t0 x in
      (s\<lparr>sr_cache := AList.update i x (sr_cache s)\<rparr>,
       if sr_is_leader s then Some (message_of ''create'' (Some x) i t1 s) else None))"

definition replicate_update ::
  "u64 \<Rightarrow> string \<Rightarrow> 'a \<Rightarrow> 'a replicator \<Rightarrow> 'a replicator \<times> 'a replication_message option" where
  "replicate_update now i x s =
     (s\<lparr>sr_cache := AList.update i x (sr_cache s)\<rparr>,
      if sr_is_leader s then Some (message_of ''update'' (Some x) i now s) else None)"

definition replicate_delete ::
  "u64 \<Rightarrow> string \<Rightarrow> 'a replicator \<Rightarrow> 'a replicator \<times> 'a replication_message option" where
  "replicate_delete now i s =
     (s\<lparr>sr_cache := AList.delete i (sr_cache s)\<rparr>,
      if sr_is_leader s then Some (message_of ''delete'' None i now s) else None)"

definition batch_id_of :: "u64 \<Rightarrow> u64 \<Rightarrow> nat \<Rightarrow> string" where
  "batch_id_of node now n =
     ''bulk-'' @ show_nat (unat node) @ ''-'' @ show_nat (unat now) @ ''-'' @ show_nat n"

definition replicate_bulk_create ::
  "('a \<Rightarrow> string option) \<Rightarrow> (nat \<Rightarrow> u64) \<Rightarrow> u64 \<Rightarrow> 'a list \<Rightarrow> 'a replicator \<Rightarrow> 'a replicator \<times> 'a bulk_message option" where
  "replicate_bulk_create json_id clk now xs s =
     (s\<lparr>sr_cache := fold (\<lambda>(k, x). AList.update (extract_id json_id (clk k) x) x) (zip [0..<length xs] xs) (sr_cache s)\<rparr>,
      if sr_is_leader s then
        Some \<lparr>bm_operation = ''create_bulk'', bm_items = xs, bm_leader = sr_node_id s, bm_timestamp = now,
              bm_batch_id = batch_id_of (sr_node_id s) now (length xs)\<rparr>
      else None)"

definition handle_replication_message :: "'a replication_message \<Rightarrow> 'a replicator \<Rightarrow> 'a replicator" where
  "handle_replication_message m s =
     (if sr_is_leader s then s
      else if rm_operation m = ''create'' \<or> rm_operation m = ''update'' then
        (case (rm_data m, rm_id m) of
           (Some x, Some i) \<Rightarrow> s\<lparr>sr_cache := AList.update i x (sr_cache s)\<rparr>
         | _ \<Rightarrow> s)
      else if rm_operation m = ''delete'' then
        (case rm_id m of Some i \<Rightarrow> s\<lparr>sr_cache := AList.delete i (sr_cache s)\<rparr> | None \<Rightarrow> s)
      else s)"

definition get_all_data :: "'a replicator \<Rightarrow> 'a list" where
  "get_all_data s = map snd (sr_cache s)"

definition get_data_by_id :: "string \<Rightarrow> 'a replicator \<Rightarrow> 'a option" where
  "get_data_by_id i s = map_of (sr_cache s) i"

text \<open>
  The answer of the leader to a sync: \<open>None\<close> when there is none, its status is not a success or its body is not a
  plain list of items.
\<close>

definition sync_from_leader ::
  "('a \<Rightarrow> string option) \<Rightarrow> (nat \<Rightarrow> u64) \<Rightarrow> 'a list option \<Rightarrow> 'a replicator \<Rightarrow> 'a replicator" where
  "sync_from_leader json_id clk answer s =
     (if sr_is_leader s then s
      else case answer of
          None \<Rightarrow> s
        | Some xs \<Rightarrow>
            s\<lparr>sr_cache := fold (\<lambda>(k, x). AList.update (extract_id json_id (clk k) x) x) (zip [0..<length xs] xs) []\<rparr>)"

text \<open>The background sync: one sync after another, each with its own answer; it never ends on a follower.\<close>

definition start_background_sync ::
  "('a \<Rightarrow> string option) \<Rightarrow> ((nat \<Rightarrow> u64) \<times> 'a list option) list \<Rightarrow> 'a replicator \<Rightarrow> 'a replicator" where
  "start_background_sync json_id answers s =
     (if sr_is_leader s then s else fold (\<lambda>(clk, a). sync_from_leader json_id clk a) answers s)"

section \<open>Processed batches\<close>

definition load_processed_batches :: "(string \<Rightarrow> string list option) \<Rightarrow> 'a replicator \<Rightarrow> 'a replicator" where
  "load_processed_batches from_json s =
     (case sr_batches_file s of
        None \<Rightarrow> s
      | Some c \<Rightarrow> (case from_json c of Some ids \<Rightarrow> s\<lparr>sr_batches := remdups ids\<rparr> | None \<Rightarrow> s))"

definition persist_processed_batches :: "(string list \<Rightarrow> string option) \<Rightarrow> 'a replicator \<Rightarrow> 'a replicator" where
  "persist_processed_batches to_json s =
     (case to_json (sr_batches s) of Some c \<Rightarrow> s\<lparr>sr_batches_file := Some c\<rparr> | None \<Rightarrow> s)"

definition has_processed_bulk :: "string \<Rightarrow> 'a replicator \<Rightarrow> bool" where
  "has_processed_bulk b s \<longleftrightarrow> b \<in> set (sr_batches s)"

definition mark_bulk_processed :: "(string list \<Rightarrow> string option) \<Rightarrow> string \<Rightarrow> 'a replicator \<Rightarrow> 'a replicator" where
  "mark_bulk_processed to_json b s =
     persist_processed_batches to_json (s\<lparr>sr_batches := List.insert b (sr_batches s)\<rparr>)"

section \<open>Followers and their leader\<close>

datatype 'a change = Created u64 u64 'a | Updated u64 string 'a | Deleted u64 string

definition leader_change ::
  "('a \<Rightarrow> string option) \<Rightarrow> 'a change \<Rightarrow> 'a replicator \<Rightarrow> 'a replicator \<times> 'a replication_message option" where
  "leader_change json_id c s =
     (case c of
        Created t0 t1 x \<Rightarrow> replicate_create json_id t0 t1 x s
      | Updated now i x \<Rightarrow> replicate_update now i x s
      | Deleted now i \<Rightarrow> replicate_delete now i s)"

text \<open>A change on the leader, and what a follower processes of it as often as \<open>net\<close> lets it.\<close>

definition change_both ::
  "('a \<Rightarrow> string option) \<Rightarrow> 'a change \<times> (nat \<Rightarrow> attempt) \<Rightarrow> 'a replicator \<times> 'a replicator \<Rightarrow> 'a replicator \<times> 'a replicator" where
  "change_both json_id cn lf =
     (let (l, m) = leader_change json_id (fst cn) (fst lf) in
      (l, case m of
            None \<Rightarrow> snd lf
          | Some msg \<Rightarrow> (handle_replication_message msg ^^ send_loop (snd cn) 0) (snd lf)))"

lemma send_loop_zero:
  "n < max_retries \<Longrightarrow> (send_loop net n = 0) = (\<forall>k. n \<le> k \<and> k < max_retries \<longrightarrow> \<not> processed (net k))"
proof (induction net n rule: send_loop.induct)
  case (1 net n)
  show ?case
  proof (cases "net n = Answered")
    case True
    with 1(2) show ?thesis by (auto simp: send_loop.simps [of net n])
  next
    case False
    show ?thesis
    proof (cases "max_retries \<le> n + 1")
      case True
      then have "\<And>k. n \<le> k \<and> k < max_retries \<longleftrightarrow> k = n" using 1(2) by auto
      with True False show ?thesis by (simp add: send_loop.simps [of net n])
    next
      case False2: False
      have "\<And>k. n \<le> k \<and> k < max_retries \<longleftrightarrow> k = n \<or> (n + 1 \<le> k \<and> k < max_retries)" using 1(2) by auto
      with False False2 1(1) [OF refl False False2] show ?thesis by (auto simp: send_loop.simps [of net n])
    qed
  qed
qed

text \<open>Processing a message again changes nothing that a reader sees.\<close>

lemma handle_maps:
  "sr_is_leader (handle_replication_message m s) = sr_is_leader s"
  by (simp add: handle_replication_message_def split: option.splits)

lemma handle_again:
  "map_of (sr_cache (handle_replication_message m (handle_replication_message m s)))
     = map_of (sr_cache (handle_replication_message m s))"
  by (auto simp: handle_replication_message_def dict_simps fun_eq_iff split: option.splits)

lemma handle_many:
  "0 < n \<Longrightarrow> map_of (sr_cache ((handle_replication_message m ^^ n) s)) = map_of (sr_cache (handle_replication_message m s))
     \<and> sr_is_leader ((handle_replication_message m ^^ n) s) = sr_is_leader s"
proof (induction n)
  case (Suc n)
  show ?case
  proof (cases n)
    case 0
    then show ?thesis by (simp add: handle_maps)
  next
    case (Suc k)
    then have "(handle_replication_message m ^^ n) s
        = handle_replication_message m ((handle_replication_message m ^^ k) s)" by simp
    with Suc.IH Suc show ?thesis by (simp add: handle_again handle_maps)
  qed
qed simp

lemma handle_cong:
  "map_of (sr_cache s) = map_of (sr_cache s') \<Longrightarrow> sr_is_leader s = sr_is_leader s' \<Longrightarrow>
   map_of (sr_cache (handle_replication_message m s)) = map_of (sr_cache (handle_replication_message m s'))"
  by (auto simp: handle_replication_message_def dict_simps fun_eq_iff split: option.splits)

lemma change_agrees:
  assumes "sr_is_leader l" and "\<not> sr_is_leader f" and "map_of (sr_cache l) = map_of (sr_cache f)"
    and "send_loop net 0 \<noteq> 0" and "change_both json_id (c, net) (l, f) = (l', f')"
  shows "sr_is_leader l'" and "\<not> sr_is_leader f'" and "map_of (sr_cache l') = map_of (sr_cache f')"
proof -
  obtain m where m: "leader_change json_id c l = (l', Some m)" and l': "sr_is_leader l'"
    and same: "map_of (sr_cache l') = map_of (sr_cache (handle_replication_message m f))"
    using assms(1,2,3,5)
    by (cases c) (auto simp: change_both_def leader_change_def replicate_create_def replicate_update_def
        replicate_delete_def message_of_def handle_replication_message_def dict_simps Let_def fun_eq_iff)
  have f': "f' = (handle_replication_message m ^^ send_loop net 0) f"
    using assms(5) m by (simp add: change_both_def)
  show "sr_is_leader l'" by (rule l')
  show "\<not> sr_is_leader f'" using handle_many [of "send_loop net 0" m f] assms(2,4) by (simp add: f')
  show "map_of (sr_cache l') = map_of (sr_cache f')"
    using handle_many [of "send_loop net 0" m f] assms(4) same by (simp add: f')
qed

text \<open>
  A follower that processes each message at least once within the five attempts shows the same items as its leader, however
  often it processes one.
\<close>

theorem follower_shows_leader:
  assumes "\<forall>(c, net) \<in> set cs. \<exists>k < 5. processed (net k)"
    and "fold (change_both json_id) cs (replicator_new 1 True peers None, replicator_new 2 False [] None) = (l, f)"
  shows "get_data_by_id i l = get_data_by_id i f"
proof -
  have "sr_is_leader l' \<and> \<not> sr_is_leader f' \<and> map_of (sr_cache l') = map_of (sr_cache f')"
    if "\<forall>(c, net) \<in> set cs. \<exists>k < 5. processed (net k)" "fold (change_both json_id) cs (l0, f0) = (l', f')"
      "sr_is_leader l0" "\<not> sr_is_leader f0" "map_of (sr_cache l0) = map_of (sr_cache f0)" for cs l0 f0 l' f'
    using that
  proof (induction cs arbitrary: l0 f0)
    case (Cons cn cs)
    obtain c net where cn: "cn = (c, net)" by (cases cn)
    obtain l1 f1 where s: "change_both json_id (c, net) (l0, f0) = (l1, f1)" by (metis surj_pair)
    have "send_loop net 0 \<noteq> 0"
      using Cons.prems(1) send_loop_zero [of 0 net] by (auto simp: cn max_retries_def)
    from change_agrees [OF Cons.prems(3-5) this s] Cons show ?case by (simp add: cn s)
  qed simp
  from this [OF assms] show ?thesis by (simp add: get_data_by_id_def replicator_new_def)
qed

lemma follower_shows_leader_witness:
  "get_data_by_id ''a'' (fst (fold (change_both Some)
      [(Created 1 2 ''a'', \<lambda>k. if k = 0 then ProcessedUnanswered else Answered)]
      (replicator_new 1 True [''p''] None, replicator_new 2 False [] None)))
   = get_data_by_id ''a'' (snd (fold (change_both Some)
      [(Created 1 2 ''a'', \<lambda>k. if k = 0 then ProcessedUnanswered else Answered)]
      (replicator_new 1 True [''p''] None, replicator_new 2 False [] None)))"
  by (rule follower_shows_leader [where cs = "[(Created 1 2 ''a'', \<lambda>k. if k = 0 then ProcessedUnanswered else Answered)]"])
    (auto intro: exI [of _ "0 :: nat"])

text \<open>
  A message that no attempt delivers is given up without an error: the leader has the item, and the follower stays without it
  whatever is replicated of other items.
\<close>

lemma message_other_id:
  assumes "rm_id m = Some j" "j \<noteq> i"
  shows "map_of (sr_cache ((handle_replication_message m ^^ n) f)) i = map_of (sr_cache f) i"
proof (induction n)
  case (Suc n)
  have "map_of (sr_cache (handle_replication_message m g)) i = map_of (sr_cache g) i" for g
    using assms by (auto simp: handle_replication_message_def dict_simps split: option.splits)
  with Suc show ?case by simp
qed simp

definition change_id :: "('a \<Rightarrow> string option) \<Rightarrow> 'a change \<Rightarrow> string" where
  "change_id json_id c =
     (case c of Created t0 t1 x \<Rightarrow> extract_id json_id t0 x | Updated now i x \<Rightarrow> i | Deleted now i \<Rightarrow> i)"

lemma change_other_id:
  assumes "change_id json_id c \<noteq> i" "change_both json_id (c, net) (l, f) = (l', f')"
  shows "map_of (sr_cache l') i = map_of (sr_cache l) i" "map_of (sr_cache f') i = map_of (sr_cache f) i"
    "sr_is_leader l' = sr_is_leader l"
  using assms
  by (cases c; auto simp: change_both_def leader_change_def replicate_create_def replicate_update_def
      replicate_delete_def change_id_def message_of_def message_other_id dict_simps Let_def split: if_splits)+

theorem given_up_without_error:
  assumes "\<forall>k < 5. \<not> processed (net k)" and "sr_is_leader l" and "get_data_by_id (change_id json_id (Created t0 t1 x)) f = None"
    and "\<forall>(c, n) \<in> set cs. change_id json_id c \<noteq> change_id json_id (Created t0 t1 x)"
    and "fold (change_both json_id) ((Created t0 t1 x, net) # cs) (l, f) = (l', f')"
  shows "get_data_by_id (change_id json_id (Created t0 t1 x)) l' = Some x
    \<and> get_data_by_id (change_id json_id (Created t0 t1 x)) f' = None"
proof -
  let ?i = "change_id json_id (Created t0 t1 x)"
  obtain l1 f1 where s: "change_both json_id (Created t0 t1 x, net) (l, f) = (l1, f1)" by (metis surj_pair)
  have z: "send_loop net 0 = 0" using send_loop_zero [of 0 net] assms(1) by (simp add: max_retries_def)
  have 1: "map_of (sr_cache l1) ?i = Some x" "map_of (sr_cache f1) ?i = None"
    using s assms(2,3) z
    by (auto simp: change_both_def leader_change_def replicate_create_def change_id_def get_data_by_id_def
        dict_simps Let_def)
  have "map_of (sr_cache l2) ?i = map_of (sr_cache l0) ?i \<and> map_of (sr_cache f2) ?i = map_of (sr_cache f0) ?i"
    if "\<forall>(c, n) \<in> set cs. change_id json_id c \<noteq> ?i" "fold (change_both json_id) cs (l0, f0) = (l2, f2)" for cs l0 f0 l2 f2
    using that
  proof (induction cs arbitrary: l0 f0)
    case (Cons cn cs)
    obtain c n where cn: "cn = (c, n)" by (cases cn)
    obtain l3 f3 where s3: "change_both json_id (c, n) (l0, f0) = (l3, f3)" by (metis surj_pair)
    have "change_id json_id c \<noteq> ?i" using Cons.prems(1) by (simp add: cn)
    from change_other_id [OF this s3] Cons show ?case by (simp add: cn s3)
  qed simp
  from this [OF assms(4), of l1 f1 l' f'] 1 assms(5) s show ?thesis by (simp add: get_data_by_id_def)
qed

lemma given_up_without_error_witness:
  "get_data_by_id ''a'' (snd (fold (change_both Some) [(Created 1 2 ''a'', \<lambda>k. NotDelivered), (Created 3 4 ''b'', \<lambda>k. Answered)]
      (replicator_new 1 True [''p''] None, replicator_new 2 False [] None))) = None"
proof -
  let ?r = "fold (change_both Some) [(Created 1 2 ''a'', \<lambda>k. NotDelivered), (Created 3 4 ''b'', \<lambda>k. Answered)]
      (replicator_new 1 True [''p''] None, replicator_new 2 False [] None)"
  have "?r = (fst ?r, snd ?r)" by simp
  from given_up_without_error [OF _ _ _ _ this] show ?thesis
    by (simp add: replicator_new_def get_data_by_id_def change_id_def extract_id_def)
qed

text \<open>What a node has marked as processed is known again after a restart, if it could be written.\<close>

theorem batches_survive_restart:
  assumes "\<forall>ids c. to_json ids = Some c \<longrightarrow> from_json c = Some ids" and "to_json (List.insert b (sr_batches s)) = Some c"
  shows "has_processed_bulk x (load_processed_batches from_json
      (replicator_new n leader peers (sr_batches_file (mark_bulk_processed to_json b s))))
    \<longleftrightarrow> x = b \<or> has_processed_bulk x s"
  using assms
  by (simp add: mark_bulk_processed_def persist_processed_batches_def load_processed_batches_def replicator_new_def
      has_processed_bulk_def)

lemma batches_survive_restart_witness:
  "has_processed_bulk ''x'' (load_processed_batches (\<lambda>c. Some (split_on (CHR '','') c))
      (replicator_new 2 False [] (sr_batches_file (mark_bulk_processed
        (\<lambda>ids. if ids = [''x''] then Some ''x'' else None) ''x'' (replicator_new 2 False [] None :: unit replicator)))))"
proof -
  have "\<forall>ids c. (if ids = [''x''] then Some ''x'' else None) = Some c \<longrightarrow> Some (split_on (CHR '','') c) = Some ids"
    by auto
  from batches_survive_restart [OF this, of "''x''" "replicator_new 2 False [] None :: unit replicator" "''x''" "''x''"]
  show ?thesis by (simp add: replicator_new_def)
qed

end
